(* ===== verification/Js_Prelude.thy ===== *)
theory Js_Prelude
  imports Complex_Main "HOL-Library.AList"
begin

text \<open>
  The parts of the JavaScript standard library that the modelled sources use, and the
  generic lemmas the component theories share.

  \<^item> A \<open>Map\<close> or a \<open>Record<string, T>\<close> is an association list in insertion order: \<open>get\<close> is
    \<open>map_of\<close>, \<open>set\<close> overwrites in place or appends (\<open>AList.update\<close>), \<open>delete\<close> is
    \<open>AList.delete\<close>. Keys of the modelled records are never integer-like, so
    \<open>Object.entries\<close> lists them in insertion order too.
  \<^item> A string is a list of bytes (its UTF-8 form). \<open>toLowerCase\<close>, \<open>toUpperCase\<close> and \<open>trim\<close>
    act on the ASCII letters and the ASCII white space; bytes of other characters are kept.
  \<^item> A number that can only be an integer (a time in milliseconds, a count) is an \<open>int\<close> or a
    \<open>nat\<close>, every other number an exact \<open>rat\<close>: IEEE rounding is not modelled.
\<close>

named_theorems js_defs "definitions of the string and map helpers, for evaluation"
named_theorems inv_intros "operations preserve their component's invariant"
named_theorems read_over_write "what a read returns after an operation of the same component"

section \<open>Insertion-ordered maps\<close>

type_synonym ('k, 'v) jmap = "('k \<times> 'v) list"

abbreviation jget :: "('k, 'v) jmap \<Rightarrow> 'k \<Rightarrow> 'v option" where
  "jget m k \<equiv> map_of m k"

abbreviation jset :: "('k, 'v) jmap \<Rightarrow> 'k \<Rightarrow> 'v \<Rightarrow> ('k, 'v) jmap" where
  "jset m k v \<equiv> AList.update k v m"

abbreviation jdel :: "('k, 'v) jmap \<Rightarrow> 'k \<Rightarrow> ('k, 'v) jmap" where
  "jdel m k \<equiv> AList.delete k m"

abbreviation jkeys :: "('k, 'v) jmap \<Rightarrow> 'k list" where
  "jkeys m \<equiv> map fst m"

text \<open>The law of a keyed container, which every component that keeps a \<open>Map\<close> relies on.\<close>

locale keyed_map =
  fixes get :: "'m \<Rightarrow> 'k \<Rightarrow> 'v option"
    and put :: "'m \<Rightarrow> 'k \<Rightarrow> 'v \<Rightarrow> 'm"
    and del :: "'m \<Rightarrow> 'k \<Rightarrow> 'm"
    and keys :: "'m \<Rightarrow> 'k list"
  assumes get_put: "get (put m k v) k' = (if k' = k then Some v else get m k')"
    and get_del: "get (del m k) k' = (if k' = k then None else get m k')"
    and keys_get: "k \<in> set (keys m) \<longleftrightarrow> get m k \<noteq> None"
    and distinct_put: "distinct (keys m) \<Longrightarrow> distinct (keys (put m k v))"
    and distinct_del: "distinct (keys m) \<Longrightarrow> distinct (keys (del m k))"
begin

lemma put_same: "get (put m k v) k = Some v"
  by (simp add: get_put)

lemma put_other: "k' \<noteq> k \<Longrightarrow> get (put m k v) k' = get m k'"
  by (simp add: get_put)

lemma del_same: "get (del m k) k = None"
  by (simp add: get_del)

lemma del_other: "k' \<noteq> k \<Longrightarrow> get (del m k) k' = get m k'"
  by (simp add: get_del)

lemma del_put: "get (del (put m k v) k) k' = get (del m k) k'"
  by (simp add: get_put get_del)

lemma keys_put: "set (keys (put m k v)) = insert k (set (keys m))"
  by (auto simp: keys_get get_put split: if_splits)

lemma keys_del: "set (keys (del m k)) = set (keys m) - {k}"
  by (auto simp: keys_get get_del split: if_splits)

lemmas map_laws = get_put get_del keys_put keys_del

end

lemma jget_jset: "jget (jset m k v) k' = (if k' = k then Some v else jget m k')"
  by (simp add: update_conv')

lemma jget_jdel: "jget (jdel m k) k' = (if k' = k then None else jget m k')"
  by (simp add: delete_conv')

interpretation jm: keyed_map jget jset jdel jkeys
proof unfold_locales
  show "jget (jset m k v) k' = (if k' = k then Some v else jget m k')"
    for m :: "('a, 'b) jmap" and k v k'
    by (rule jget_jset)
  show "jget (jdel m k) k' = (if k' = k then None else jget m k')"
    for m :: "('a, 'b) jmap" and k k'
    by (rule jget_jdel)
  show "k \<in> set (jkeys m) \<longleftrightarrow> jget m k \<noteq> None" for m :: "('a, 'b) jmap" and k
    by (metis map_of_eq_None_iff set_map)
  show "distinct (jkeys m) \<Longrightarrow> distinct (jkeys (jset m k v))"
    for m :: "('a, 'b) jmap" and k v
    by (rule distinct_update)
  show "distinct (jkeys m) \<Longrightarrow> distinct (jkeys (jdel m k))"
    for m :: "('a, 'b) jmap" and k
    by (rule distinct_delete)
qed

lemma set_jset_subset: "set (jset m k v) \<subseteq> insert (k, v) (set m)"
  by (induction m) auto

lemma set_jdel_subset: "set (jdel m k) \<subseteq> set m"
  by (auto simp: AList.delete_eq)

lemma jset_all:
  assumes "\<forall>p \<in> set m. P (snd p)" and "P v"
  shows "\<forall>p \<in> set (jset m k v). P (snd p)"
  using assms set_jset_subset [of k v m] by fastforce

lemma jdel_all: "\<forall>p \<in> set m. P (snd p) \<Longrightarrow> \<forall>p \<in> set (jdel m k). P (snd p)"
  using set_jdel_subset [of k m] by blast

lemma map_of_filter_snd:
  "distinct (map fst m) \<Longrightarrow>
   map_of (filter (\<lambda>(k, v). P v) m) k =
     (case map_of m k of None \<Rightarrow> None | Some v \<Rightarrow> if P v then Some v else None)"
proof (induction m)
  case Nil
  then show ?case by simp
next
  case (Cons p m)
  obtain a b where p: "p = (a, b)" by (cases p)
  have "a \<notin> fst ` set m" using Cons.prems p by simp
  then have none: "map_of m a = None" by (simp add: map_of_eq_None_iff)
  show ?case using Cons p none by (auto split: option.splits)
qed

lemma distinct_keys_filter: "distinct (map fst m) \<Longrightarrow> distinct (map fst (filter P m))"
  by (induction m) (auto dest!: filter_is_subset [THEN subsetD])

section \<open>Strings\<close>

definition js_starts_with :: "string \<Rightarrow> string \<Rightarrow> bool" where
  [js_defs]: "js_starts_with s p \<longleftrightarrow> take (length p) s = p"

definition js_ends_with :: "string \<Rightarrow> string \<Rightarrow> bool" where
  [js_defs]: "js_ends_with s p \<longleftrightarrow> length p \<le> length s \<and> drop (length s - length p) s = p"

fun js_includes :: "string \<Rightarrow> string \<Rightarrow> bool" where
  "js_includes [] p \<longleftrightarrow> p = []"
| "js_includes (c # s) p \<longleftrightarrow> take (length p) (c # s) = p \<or> js_includes s p"

definition js_lower_char :: "char \<Rightarrow> char" where
  [js_defs]: "js_lower_char c =
     (if 65 \<le> (of_char c :: nat) \<and> (of_char c :: nat) \<le> 90
      then char_of ((of_char c :: nat) + 32) else c)"

definition js_upper_char :: "char \<Rightarrow> char" where
  [js_defs]: "js_upper_char c =
     (if 97 \<le> (of_char c :: nat) \<and> (of_char c :: nat) \<le> 122
      then char_of ((of_char c :: nat) - 32) else c)"

definition js_lower :: "string \<Rightarrow> string" where
  [js_defs]: "js_lower s = map js_lower_char s"

definition js_upper :: "string \<Rightarrow> string" where
  [js_defs]: "js_upper s = map js_upper_char s"

definition js_space :: "char \<Rightarrow> bool" where
  [js_defs]: "js_space c \<longleftrightarrow> (of_char c :: nat) = 32 \<or> 9 \<le> (of_char c :: nat) \<and> (of_char c :: nat) \<le> 13"

definition js_digit :: "char \<Rightarrow> bool" where
  [js_defs]: "js_digit c \<longleftrightarrow> 48 \<le> (of_char c :: nat) \<and> (of_char c :: nat) \<le> 57"

definition js_trim :: "string \<Rightarrow> string" where
  [js_defs]: "js_trim s = rev (dropWhile js_space (rev (dropWhile js_space s)))"

fun js_split :: "char \<Rightarrow> string \<Rightarrow> string list" where
  "js_split d [] = [[]]"
| "js_split d (c # s) =
     (if c = d then [] # js_split d s
      else (case js_split d s of [] \<Rightarrow> [[c]] | w # ws \<Rightarrow> (c # w) # ws))"

fun js_join :: "string \<Rightarrow> string list \<Rightarrow> string" where
  "js_join sep [] = []"
| "js_join sep [w] = w"
| "js_join sep (w # ws) = w @ sep @ js_join sep ws"

text \<open>\<open>s.split(/\s+/)\<close> of a trimmed string: the maximal runs of non-white-space.\<close>

function js_words :: "string \<Rightarrow> string list" where
  "js_words s =
     (let t = dropWhile js_space s
      in if t = [] then []
         else takeWhile (\<lambda>c. \<not> js_space c) t # js_words (dropWhile (\<lambda>c. \<not> js_space c) t))"
  by pat_completeness auto
termination
proof (relation "measure length")
  show "wf (measure length)" by simp
next
  fix s t :: string
  assume t: "t = dropWhile js_space s" and ne: "t \<noteq> []"
  from ne t have "\<not> js_space (hd t)" by (simp add: hd_dropWhile)
  with ne have "length (dropWhile (\<lambda>c. \<not> js_space c) t) < length t"
    by (cases t) (auto simp: length_dropWhile_le le_imp_less_Suc)
  also have "length t \<le> length s" using t by (simp add: length_dropWhile_le)
  finally show "(dropWhile (\<lambda>c. \<not> js_space c) t, s) \<in> measure length" by simp
qed

declare js_words.simps [simp del]

text \<open>A string is falsy when it is empty; an absent value is falsy too.\<close>

definition truthy :: "string option \<Rightarrow> bool" where
  [js_defs]: "truthy s \<longleftrightarrow> (case s of None \<Rightarrow> False | Some t \<Rightarrow> t \<noteq> [])"

definition js_digit_value :: "char \<Rightarrow> nat" where
  [js_defs]: "js_digit_value c = (of_char c :: nat) - 48"

definition js_nat_of_digits :: "string \<Rightarrow> nat" where
  [js_defs]: "js_nat_of_digits s = foldl (\<lambda>n c. 10 * n + js_digit_value c) 0 s"

fun js_show_nat :: "nat \<Rightarrow> string" where
  "js_show_nat n =
     (if n < 10 then [char_of (48 + n)]
      else js_show_nat (n div 10) @ [char_of (48 + n mod 10)])"

declare js_show_nat.simps [simp del]

lemma js_starts_with_append [simp]: "js_starts_with (p @ s) p"
  by (simp add: js_starts_with_def)

lemma js_starts_with_iff: "js_starts_with s p \<longleftrightarrow> (\<exists>t. s = p @ t)"
  unfolding js_starts_with_def by (metis append_eq_conv_conj append_take_drop_id)

lemma js_includes_iff: "js_includes s p \<longleftrightarrow> (\<exists>a b. s = a @ p @ b)"
proof (induction s)
  case Nil
  then show ?case by auto
next
  case (Cons c s)
  show ?case
  proof
    assume "js_includes (c # s) p"
    then consider "take (length p) (c # s) = p" | "js_includes s p" by auto
    then show "\<exists>a b. c # s = a @ p @ b"
    proof cases
      case 1
      then have "c # s = [] @ p @ drop (length p) (c # s)"
        by (metis append_Nil append_take_drop_id)
      then show ?thesis by blast
    next
      case 2
      then obtain a b where "s = a @ p @ b" using Cons.IH by blast
      then have "c # s = (c # a) @ p @ b" by simp
      then show ?thesis by blast
    qed
  next
    assume "\<exists>a b. c # s = a @ p @ b"
    then obtain a b where ab: "c # s = a @ p @ b" by blast
    show "js_includes (c # s) p"
    proof (cases a)
      case Nil
      with ab have "take (length p) (c # s) = p" by simp
      then show ?thesis by (simp only: js_includes.simps simp_thms)
    next
      case (Cons d a')
      with ab have "s = a' @ p @ b" by simp
      with Cons.IH show ?thesis by auto
    qed
  qed
qed

lemma js_includes_self [simp]: "js_includes (a @ p @ b) p"
  unfolding js_includes_iff by blast

lemma js_lower_append [simp]: "js_lower (a @ b) = js_lower a @ js_lower b"
  by (simp add: js_lower_def)

lemma js_split_nonempty: "js_split d s \<noteq> []"
  by (induction s) (auto split: list.splits)

lemma js_join_split: "js_join [d] (js_split d s) = s"
proof (induction s)
  case Nil
  then show ?case by simp
next
  case (Cons c s)
  obtain w ws where w: "js_split d s = w # ws"
    using js_split_nonempty by (cases "js_split d s") auto
  show ?case using Cons w by (cases ws) auto
qed

section \<open>Decimal numbers in strings\<close>

lemma js_digit_char_of: "k < 10 \<Longrightarrow> js_digit (char_of (48 + k :: nat))"
  by (simp add: js_digit_def)

lemma js_show_nat_digits: "list_all js_digit (js_show_nat n)"
proof (induction n rule: js_show_nat.induct)
  case (1 n)
  then show ?case by (subst js_show_nat.simps) (simp add: js_digit_char_of)
qed

lemma js_show_nat_nonempty [simp]: "js_show_nat n \<noteq> []"
  by (subst js_show_nat.simps) simp

lemma js_nat_of_show [simp]: "js_nat_of_digits (js_show_nat n) = n"
proof (induction n rule: js_show_nat.induct)
  case (1 n)
  show ?case
  proof (cases "n < 10")
    case True
    then show ?thesis
      by (subst js_show_nat.simps) (simp add: js_nat_of_digits_def js_digit_value_def)
  next
    case False
    then have "js_nat_of_digits (js_show_nat n) =
        10 * js_nat_of_digits (js_show_nat (n div 10)) + n mod 10"
      by (subst js_show_nat.simps) (simp add: js_nat_of_digits_def js_digit_value_def)
    then show ?thesis using 1 False by simp
  qed
qed

lemma js_digit_facts:
  assumes "js_digit c"
  shows "js_lower_char c = c" and "\<not> js_space c" and "c \<noteq> CHR ''.''"
  using assms by (auto simp: js_digit_def js_lower_char_def js_space_def)

lemma js_lower_digits: "list_all js_digit s \<Longrightarrow> js_lower s = s"
  by (induction s) (auto simp: js_lower_def js_digit_facts)

lemma js_trim_solid:
  assumes "s \<noteq> []" and "\<not> js_space (hd s)" and "\<not> js_space (last s)"
  shows "js_trim s = s"
proof -
  have "dropWhile js_space s = s" using assms(1,2) by (simp add: dropWhile_eq_self_iff)
  moreover have "dropWhile js_space (rev s) = rev s"
    using assms(1,3) by (simp add: dropWhile_eq_self_iff hd_rev)
  ultimately show ?thesis by (simp add: js_trim_def)
qed

section \<open>Lists, sets and tokens\<close>

text \<open>\<open>indexOf\<close>; a \<open>Set\<close> built from an array keeps the first occurrence of every element.\<close>

fun js_indexOf :: "'a list \<Rightarrow> 'a \<Rightarrow> nat option" where
  "js_indexOf [] x = None"
| "js_indexOf (y # ys) x = (if y = x then Some 0 else map_option Suc (js_indexOf ys x))"

definition js_set :: "'a list \<Rightarrow> 'a list" where
  [js_defs]: "js_set xs = rev (remdups (rev xs))"

lemma set_js_set [simp]: "set (js_set xs) = set xs"
  by (simp add: js_set_def)

text \<open>\<open>filter\<close> with a set of the keys seen so far keeps the first element of every key.\<close>

fun js_dedup :: "('a \<Rightarrow> 'k) \<Rightarrow> 'k list \<Rightarrow> 'a list \<Rightarrow> 'a list" where
  "js_dedup f seen [] = []"
| "js_dedup f seen (x # xs) =
     (if f x \<in> set seen then js_dedup f seen xs else x # js_dedup f (f x # seen) xs)"

lemma js_dedup_set: "x \<in> set (js_dedup f seen xs) \<Longrightarrow> x \<in> set xs \<and> f x \<notin> set seen"
proof (induction xs arbitrary: seen)
  case Nil
  then show ?case by simp
next
  case (Cons y ys)
  then show ?case
    using Cons.IH [of seen] Cons.IH [of "f y # seen"] by (auto split: if_splits)
qed

lemma js_dedup_distinct: "distinct (map f (js_dedup f seen xs))"
proof (induction xs arbitrary: seen)
  case Nil
  then show ?case by simp
next
  case (Cons x xs)
  have "f x \<notin> f ` set (js_dedup f (f x # seen) xs)"
    using js_dedup_set [of _ f "f x # seen" xs] by fastforce
  then show ?case using Cons by simp
qed

lemma js_dedup_keys: "f ` set (js_dedup f seen xs) = f ` set xs - set seen"
  by (induction xs arbitrary: seen) auto

text \<open>\<open>toLowerCase().replace(/[^a-z0-9]+/g, " ").trim().split(" ").filter(Boolean)\<close>: the maximal
  runs of letters and digits.\<close>

definition js_alnum :: "char \<Rightarrow> bool" where
  [js_defs]: "js_alnum c \<longleftrightarrow> js_digit c \<or> 97 \<le> (of_char c :: nat) \<and> (of_char c :: nat) \<le> 122"

definition js_tokens :: "string \<Rightarrow> string list" where
  [js_defs]: "js_tokens s =
     filter (\<lambda>w. w \<noteq> []) (js_split (CHR '' '') (map (\<lambda>c. if js_alnum c then c else CHR '' '') (js_lower s)))"

lemma js_split_last: "d \<notin> set w \<Longrightarrow> js_split d w = [w]"
  by (induction w) auto

lemma js_split_append: "d \<notin> set w \<Longrightarrow> js_split d (w @ d # s) = w # js_split d s"
  by (induction w) auto

lemma js_split_join:
  "ws \<noteq> [] \<Longrightarrow> \<forall>w \<in> set ws. d \<notin> set w \<Longrightarrow> js_split d (js_join [d] ws) = ws"
proof (induction ws)
  case Nil
  then show ?case by simp
next
  case (Cons w ws)
  then show ?case
    by (cases ws) (simp_all add: js_split_last js_split_append)
qed

section \<open>Characters that regular expressions and messages name\<close>

text \<open>\<open>\w\<close>, and the UTF-8 bytes of a long dash.\<close>

definition word_char :: "char \<Rightarrow> bool" where
  "word_char c \<longleftrightarrow> js_alnum (js_lower_char c) \<or> c = CHR ''_''"

definition em_dash :: string where
  "em_dash = [CHR 0xE2, CHR 0x80, CHR 0x94]"

section \<open>Truncation of numbers\<close>

text \<open>\<open>Math.round\<close> rounds a half up.\<close>

definition js_round :: "rat \<Rightarrow> int" where
  [js_defs]: "js_round x = \<lfloor>x + 1 / 2\<rfloor>"

end
