(* ===== verification/Rotation_Types.thy ===== *)
theory Rotation_Types
  imports Js_Prelude
begin

text \<open>
  \<^verbatim>\<open>account/rotation/types.ts\<close>: the records the rotation trackers share and the two quota-day
  functions. A clock reading (\<open>Date.now()\<close>) is an \<open>int\<close> argument \<open>now\<close>; deadlines that come
  from a back-off with jitter are \<open>rat\<close>.
\<close>

section \<open>Reasons and state records\<close>

datatype rate_limit_reason =
    QUOTA_EXHAUSTED
  | RATE_LIMIT_EXCEEDED
  | RATE_LIMIT_SHORT
  | RATE_LIMIT_LONG
  | SERVICE_UNAVAILABLE_503
  | SITE_OVERLOADED_529
  | MODEL_CAPACITY_EXHAUSTED
  | SERVER_ERROR
  | AUTH_FAILED
  | TOKEN_REFRESH_FAILED
  | BAD_REQUEST
  | UNKNOWN
  | HTTP nat

record health_score_state =
  hs_score :: rat
  hs_lastUpdated :: int
  hs_lastSuccess :: int
  hs_consecutiveFailures :: nat

record rate_limit_state =
  rl_resetTime :: rat
  rl_reason :: rate_limit_reason
  rl_model :: "string option"

record rotation_cooldown_state =
  cd_until :: int
  cd_rotatedAt :: int
  cd_fromAccountId :: string
  cd_toAccountId :: string
  cd_modelID :: string

record daily_count =
  dc_count :: nat
  dc_lastReset :: int

record unified_rotation_state =
  us_version :: int
  us_accountHealth :: "(string, health_score_state) jmap"
  us_rateLimits :: "(string, (string, rate_limit_state) jmap) jmap"
  us_dailyRateLimitCounts :: "(string, daily_count) jmap"
  us_sameProviderRotationCooldowns :: "(string, rotation_cooldown_state) jmap"

record health_score_config =
  hc_initial :: rat
  hc_successReward :: rat
  hc_rateLimitPenalty :: rat
  hc_failurePenalty :: rat
  hc_recoveryRatePerHour :: rat
  hc_minUsable :: rat
  hc_maxScore :: rat

definition DEFAULT_HEALTH_SCORE_CONFIG :: health_score_config where
  "DEFAULT_HEALTH_SCORE_CONFIG =
     \<lparr>hc_initial = 70, hc_successReward = 1, hc_rateLimitPenalty = -10, hc_failurePenalty = -20,
      hc_recoveryRatePerHour = 2, hc_minUsable = 50, hc_maxScore = 100\<rparr>"

record account_candidate =
  ac_id :: string
  ac_lastUsed :: int
  ac_healthScore :: rat
  ac_isRateLimited :: bool
  ac_isCoolingDown :: "bool option"

text \<open>
  An error value as the classifiers read it: a thrown value that is not an object is \<open>None\<close>
  (\<open>asErrorWithMetadata\<close>). A header or a code is a number or a string.
\<close>

datatype num_or_str = Num rat | Str string

record error_metadata =
  em_status :: "rat option"
  em_statusCode :: "rat option"
  em_code :: "num_or_str option"
  em_message :: "string option"
  em_error_type :: "string option"
  em_retry_after_header :: "num_or_str option"
  em_retryAfter :: "num_or_str option"

datatype thrown = Primitive | Object error_metadata

fun asErrorWithMetadata :: "thrown \<Rightarrow> error_metadata option" where
  "asErrorWithMetadata Primitive = None"
| "asErrorWithMetadata (Object e) = Some e"

section \<open>The quota day\<close>

abbreviation ms_per_hour :: int where "ms_per_hour \<equiv> 3600000"
abbreviation ms_per_day :: int where "ms_per_day \<equiv> 86400000"

text \<open>\<open>d.setUTCHours(h, 0, 0, 0)\<close> keeps the UTC day of \<open>d\<close>; \<open>setUTCDate(getUTCDate() + k)\<close>
  moves \<open>k\<close> UTC days (UTC has no daylight saving).\<close>

definition setUTCHours :: "int \<Rightarrow> int \<Rightarrow> int" where
  "setUTCHours t h = (t div ms_per_day) * ms_per_day + h * ms_per_hour"

definition addUTCDays :: "int \<Rightarrow> int \<Rightarrow> int" where
  "addUTCDays t k = t + k * ms_per_day"

definition getNextQuotaReset :: "int \<Rightarrow> int" where
  "getNextQuotaReset now =
     (let resetHourUTC = 8;
          nextReset = setUTCHours now resetHourUTC
      in if now \<ge> nextReset then addUTCDays nextReset 1 else nextReset)"

definition getQuotaDayStart :: "int \<Rightarrow> int" where
  "getQuotaDayStart now =
     (let resetHourUTC = 8;
          todayReset = setUTCHours now resetHourUTC
      in if now < todayReset then addUTCDays todayReset (-1) else todayReset)"

lemma setUTCHours_bounds:
  assumes "0 \<le> h" and "h < 24"
  shows "now - ms_per_day < setUTCHours now h" and "setUTCHours now h < now + ms_per_day"
proof -
  have "now = (now div ms_per_day) * ms_per_day + now mod ms_per_day" by simp
  moreover have "0 \<le> now mod ms_per_day" and "now mod ms_per_day < ms_per_day" by simp_all
  ultimately show "now - ms_per_day < setUTCHours now h" and "setUTCHours now h < now + ms_per_day"
    using assms unfolding setUTCHours_def by linarith+
qed

lemma quota_day_bounds:
  "getQuotaDayStart now \<le> now" "now < getNextQuotaReset now"
  using setUTCHours_bounds [of 8 now]
  by (auto simp: getQuotaDayStart_def getNextQuotaReset_def addUTCDays_def Let_def)

lemma quota_day_length: "getNextQuotaReset now = getQuotaDayStart now + ms_per_day"
  by (auto simp: getQuotaDayStart_def getNextQuotaReset_def addUTCDays_def Let_def)

lemma quota_day_hour: "getQuotaDayStart now mod ms_per_day = 8 * ms_per_hour"
proof -
  have "(q * ms_per_day + 8 * ms_per_hour) mod ms_per_day = 8 * ms_per_hour" for q :: int
    by simp
  moreover have "(q * ms_per_day + 8 * ms_per_hour + -1 * ms_per_day) mod ms_per_day = 8 * ms_per_hour"
    for q :: int
    using mod_mult_self3 [of "q - 1" ms_per_day "8 * ms_per_hour"] by (simp add: algebra_simps)
  ultimately show ?thesis
    unfolding getQuotaDayStart_def setUTCHours_def addUTCDays_def Let_def by presburger
qed

text \<open>Two instants are in the same quota day exactly when their day starts agree.\<close>

lemma quota_day_unique:
  assumes "s mod ms_per_day = 8 * ms_per_hour" and "s \<le> now" and "now < s + ms_per_day"
  shows "getQuotaDayStart now = s"
proof -
  let ?g = "getQuotaDayStart now"
  have "?g \<le> now" and "now < ?g + ms_per_day"
    using quota_day_bounds [of now] quota_day_length [of now] by auto
  moreover have "?g mod ms_per_day = s mod ms_per_day" using assms(1) quota_day_hour by simp
  then obtain k where k: "?g = s + ms_per_day * k"
    by (metis (no_types) add.commute diff_add_cancel dvdE mod_eq_dvd_iff)
  ultimately have "k < 1" and "k > -1" using assms(2,3) by linarith+
  then show ?thesis using k by simp
qed

end
