(* ===== verification/Rotation_State.thy ===== *)
theory Rotation_State
  imports Rotation_Types
begin

text \<open>
  \<^verbatim>\<open>account/rotation/state.ts\<close>: the state file all processes share. A file is absent, present but
  not JSON, or holds a parsed value; the fields of the unified file are optional when read.
  \<open>fs_writable\<close> says whether \<open>fs.writeFileSync\<close> succeeds: the code ignores its failure.
  \<open>JSON.parse (JSON.stringify s) = s\<close> for the records of \<open>Rotation_Types\<close>.
\<close>

datatype 'a jfile = Absent | Unparsable | Parsed 'a

record unified_json =
  uj_version :: "int option"
  uj_accountHealth :: "(string, health_score_state) jmap option"
  uj_rateLimits :: "(string, (string, rate_limit_state) jmap) jmap option"
  uj_dailyRateLimitCounts :: "(string, daily_count) jmap option"
  uj_sameProviderRotationCooldowns :: "(string, rotation_cooldown_state) jmap option"

record rotation_fs =
  fs_unified :: "unified_json jfile"
  fs_legacyRateLimits :: "(string, (string, rate_limit_state) jmap) jmap jfile"
  fs_legacyAccountHealth :: "(string, health_score_state) jmap jfile"
  fs_writable :: bool

definition or_default :: "'a option \<Rightarrow> 'a \<Rightarrow> 'a" where
  [js_defs]: "or_default x d = (case x of None \<Rightarrow> d | Some v \<Rightarrow> v)"

lemma or_default_simps [simp]: "or_default None d = d" "or_default (Some v) d = v"
  by (simp_all add: or_default_def)

definition empty_unified_state :: unified_rotation_state where
  "empty_unified_state =
     \<lparr>us_version = 1, us_accountHealth = [], us_rateLimits = [], us_dailyRateLimitCounts = [],
      us_sameProviderRotationCooldowns = []\<rparr>"

definition json_of_state :: "unified_rotation_state \<Rightarrow> unified_json" where
  "json_of_state s =
     \<lparr>uj_version = Some (us_version s), uj_accountHealth = Some (us_accountHealth s),
      uj_rateLimits = Some (us_rateLimits s),
      uj_dailyRateLimitCounts = Some (us_dailyRateLimitCounts s),
      uj_sameProviderRotationCooldowns = Some (us_sameProviderRotationCooldowns s)\<rparr>"

definition state_of_json :: "unified_json \<Rightarrow> unified_rotation_state" where
  "state_of_json d =
     \<lparr>us_version = or_default (uj_version d) 1,
      us_accountHealth = or_default (uj_accountHealth d) [],
      us_rateLimits = or_default (uj_rateLimits d) [],
      us_dailyRateLimitCounts = or_default (uj_dailyRateLimitCounts d) [],
      us_sameProviderRotationCooldowns = or_default (uj_sameProviderRotationCooldowns d) []\<rparr>"

definition writeUnifiedState :: "unified_rotation_state \<Rightarrow> rotation_fs \<Rightarrow> rotation_fs" where
  "writeUnifiedState s fs =
     (if fs_writable fs then fs\<lparr>fs_unified := Parsed (json_of_state s)\<rparr> else fs)"

definition legacy_or_empty :: "('k, 'v) jmap jfile \<Rightarrow> ('k, 'v) jmap" where
  "legacy_or_empty f = (case f of Parsed d \<Rightarrow> d | _ \<Rightarrow> [])"

definition readUnifiedState :: "rotation_fs \<Rightarrow> unified_rotation_state \<times> rotation_fs" where
  "readUnifiedState fs =
     (case fs_unified fs of
        Parsed d \<Rightarrow> (state_of_json d, fs)
      | Unparsable \<Rightarrow> (empty_unified_state, fs)
      | Absent \<Rightarrow>
          (let state = empty_unified_state
                 \<lparr>us_rateLimits := legacy_or_empty (fs_legacyRateLimits fs),
                  us_accountHealth := legacy_or_empty (fs_legacyAccountHealth fs)\<rparr>
           in if us_rateLimits state \<noteq> [] \<or> us_accountHealth state \<noteq> []
              then (state, writeUnifiedState state fs)
              else (state, fs)))"

section \<open>The contract of a persisted state\<close>

text \<open>
  What the trackers rely on: a value that was saved is the value read back, reading changes
  no later read, and both keep the store usable.
\<close>

locale persistent_store =
  fixes load :: "'fs \<Rightarrow> 's \<times> 'fs"
    and save :: "'s \<Rightarrow> 'fs \<Rightarrow> 'fs"
    and usable :: "'fs \<Rightarrow> bool"
  assumes load_save: "usable fs \<Longrightarrow> load (save s fs) = (s, save s fs)"
    and load_again: "load (snd (load fs)) = (fst (load fs), snd (load fs))"
    and usable_save: "usable (save s fs) \<longleftrightarrow> usable fs"
    and usable_load: "usable (snd (load fs)) \<longleftrightarrow> usable fs"
    and save_save: "usable fs \<Longrightarrow> save s (save s' fs) = save s fs"
begin

text \<open>A read-modify-write cycle, as every tracker operation performs it.\<close>

definition modify :: "('s \<Rightarrow> 's) \<Rightarrow> 'fs \<Rightarrow> 'fs" where
  "modify f fs = (let (s, fs') = load fs in save (f s) fs')"

lemma load_modify: "usable fs \<Longrightarrow> fst (load (modify f fs)) = f (fst (load fs))"
  by (simp add: modify_def case_prod_beta load_save usable_load)

lemma usable_modify: "usable (modify f fs) \<longleftrightarrow> usable fs"
  by (simp add: modify_def case_prod_beta usable_save usable_load)

lemma modify_modify:
  "usable fs \<Longrightarrow> fst (load (modify g (modify f fs))) = g (f (fst (load fs)))"
  by (simp add: load_modify usable_modify)

lemmas store_laws = load_save load_again usable_save usable_load save_save

end

lemma state_of_json_of_state [simp]: "state_of_json (json_of_state s) = s"
  by (simp add: state_of_json_def json_of_state_def)

lemma fs_writable_write [simp]: "fs_writable (writeUnifiedState s fs) = fs_writable fs"
  by (simp add: writeUnifiedState_def)

lemma fs_writable_read [simp]: "fs_writable (snd (readUnifiedState fs)) = fs_writable fs"
  by (simp add: readUnifiedState_def Let_def split: jfile.split)

lemma read_write [simp]:
  "fs_writable fs \<Longrightarrow> readUnifiedState (writeUnifiedState s fs) = (s, writeUnifiedState s fs)"
  by (simp add: readUnifiedState_def writeUnifiedState_def)

lemma read_again [simp]:
  "readUnifiedState (snd (readUnifiedState fs)) =
     (fst (readUnifiedState fs), snd (readUnifiedState fs))"
proof (cases "fs_unified fs")
  case Absent
  let ?s = "empty_unified_state
       \<lparr>us_rateLimits := legacy_or_empty (fs_legacyRateLimits fs),
        us_accountHealth := legacy_or_empty (fs_legacyAccountHealth fs)\<rparr>"
  show ?thesis
  proof (cases "us_rateLimits ?s \<noteq> [] \<or> us_accountHealth ?s \<noteq> []")
    case True
    then have r: "readUnifiedState fs = (?s, writeUnifiedState ?s fs)"
      using Absent by (simp add: readUnifiedState_def Let_def)
    show ?thesis
    proof (cases "fs_writable fs")
      case True
      then show ?thesis using r by simp
    next
      case False
      then have "writeUnifiedState ?s fs = fs" by (simp add: writeUnifiedState_def)
      then show ?thesis using r by simp
    qed
  next
    case False
    then have "readUnifiedState fs = (?s, fs)"
      using Absent by (simp add: readUnifiedState_def Let_def)
    then show ?thesis by simp
  qed
qed (simp_all add: readUnifiedState_def)

lemma write_write:
  "writeUnifiedState s (writeUnifiedState s' fs) = writeUnifiedState s fs"
  by (simp add: writeUnifiedState_def)

interpretation rs: persistent_store readUnifiedState writeUnifiedState fs_writable
  by unfold_locales (simp_all add: read_again write_write)

lemma read_unwritable:
  "\<not> fs_writable fs \<Longrightarrow> snd (readUnifiedState fs) = fs"
  by (auto simp: readUnifiedState_def writeUnifiedState_def Let_def split: jfile.split)

text \<open>A parsed JSON object has no duplicate keys.\<close>

definition state_wf :: "unified_rotation_state \<Rightarrow> bool" where
  "state_wf s \<longleftrightarrow>
     distinct (jkeys (us_rateLimits s)) \<and> (\<forall>p \<in> set (us_rateLimits s). distinct (jkeys (snd p))) \<and>
     distinct (jkeys (us_accountHealth s)) \<and> distinct (jkeys (us_dailyRateLimitCounts s)) \<and>
     distinct (jkeys (us_sameProviderRotationCooldowns s))"

definition fs_wf :: "rotation_fs \<Rightarrow> bool" where
  "fs_wf fs \<longleftrightarrow> state_wf (fst (readUnifiedState fs))"

lemma fs_wf_read [simp]: "fs_wf (snd (readUnifiedState fs)) = fs_wf fs"
  by (simp add: fs_wf_def read_again)

lemma fs_wf_write: "fs_wf fs \<Longrightarrow> state_wf s \<Longrightarrow> fs_wf (writeUnifiedState s fs)"
  by (cases "fs_writable fs") (simp_all add: fs_wf_def writeUnifiedState_def readUnifiedState_def)

section \<open>The trackers' shared world\<close>

text \<open>
  The module singletons (\<^verbatim>\<open>account/rotation/index.ts\<close>) as one record: the files on disk, the
  in-memory maps of the rate-limit tracker and of the health tracker, and the latter's
  configuration.
\<close>

record rotation_world =
  w_fs :: rotation_fs
  w_limits :: "(string, (string, rate_limit_state) jmap) jmap"
  w_scores :: "(string, health_score_state) jmap"
  w_health_config :: health_score_config

abbreviation stored :: "rotation_world \<Rightarrow> unified_rotation_state" where
  "stored w \<equiv> fst (readUnifiedState (w_fs w))"

definition world_ok :: "rotation_world \<Rightarrow> bool" where
  "world_ok w \<longleftrightarrow> fs_writable (w_fs w) \<and> fs_wf (w_fs w)"

lemma world_okD:
  assumes "world_ok w"
  shows "fs_writable (w_fs w)" "state_wf (stored w)"
  using assms by (simp_all add: world_ok_def fs_wf_def)

definition merge_config :: "health_score_config \<Rightarrow> health_score_config option \<Rightarrow> health_score_config" where
  "merge_config d c = or_default c d"

text \<open>\<open>initGlobalTrackers\<close>: fresh trackers over the same files.\<close>

definition initGlobalTrackers :: "health_score_config option \<Rightarrow> rotation_fs \<Rightarrow> rotation_world" where
  "initGlobalTrackers cfg fs =
     (let (s, fs') = readUnifiedState fs
      in \<lparr>w_fs = fs', w_limits = [], w_scores = us_accountHealth s,
          w_health_config = merge_config DEFAULT_HEALTH_SCORE_CONFIG cfg\<rparr>)"

text \<open>A world over an empty, writable state directory.\<close>

definition fresh_fs :: rotation_fs where
  "fresh_fs = \<lparr>fs_unified = Absent, fs_legacyRateLimits = Absent, fs_legacyAccountHealth = Absent,
     fs_writable = True\<rparr>"

definition fresh_world :: rotation_world where
  "fresh_world = initGlobalTrackers None fresh_fs"

lemma fresh_world_ok: "world_ok fresh_world"
  by (simp add: fresh_world_def initGlobalTrackers_def world_ok_def fs_wf_def readUnifiedState_def
      fresh_fs_def legacy_or_empty_def state_wf_def empty_unified_state_def)

text \<open> (error path): a legacy installation is migrated once. With no unified file, the first
  read returns the legacy maps, and when the directory is writable every later read returns the
  same state even after the legacy files have changed or gone.\<close>

theorem legacy_migration_sticks:
  assumes "fs_unified fs = Absent" and "fs_writable fs"
    and "fs_legacyRateLimits fs = Parsed l" and "l \<noteq> []"
  shows "us_rateLimits (fst (readUnifiedState fs)) = l \<and>
    us_accountHealth (fst (readUnifiedState fs)) = legacy_or_empty (fs_legacyAccountHealth fs) \<and>
    fst (readUnifiedState
      ((snd (readUnifiedState fs))\<lparr>fs_legacyRateLimits := x, fs_legacyAccountHealth := y\<rparr>))
      = fst (readUnifiedState fs)"
  using assms
  by (simp add: readUnifiedState_def Let_def legacy_or_empty_def writeUnifiedState_def)

theorem legacy_migration_sticks_witness:
  "us_rateLimits (fst (readUnifiedState (fresh_fs\<lparr>fs_legacyRateLimits := Parsed [(''openai:a'', [])]\<rparr>)))
     = [(''openai:a'', [])]"
  using legacy_migration_sticks
    [of "fresh_fs\<lparr>fs_legacyRateLimits := Parsed [(''openai:a'', [])]\<rparr>" "[(''openai:a'', [])]"]
  by (simp add: fresh_fs_def)

end
