(* ===== verification/Rotation_Guard.thy ===== *)
theory Rotation_Guard
  imports Rotation_State
begin

text \<open>
  \<^verbatim>\<open>account/rotation/same-provider-rotation-guard.ts\<close>: after an account of a provider was rotated
  away from, it cools down. The guard keeps no state of its own: every operation reads and
  rewrites the unified state file, so its state is the file system.
\<close>

definition SAME_PROVIDER_ROTATE_COOLDOWN_MS :: int where
  "SAME_PROVIDER_ROTATE_COOLDOWN_MS = 5 * 60 * 1000"

definition srg_makeKey :: "string \<Rightarrow> string \<Rightarrow> string" where
  "srg_makeKey providerId accountId = providerId @ '':'' @ accountId"

definition srg_clearExpired ::
  "int \<Rightarrow> unified_rotation_state \<times> rotation_fs \<Rightarrow> unified_rotation_state \<times> rotation_fs" where
  "srg_clearExpired now sf =
     (let (state, fs) = sf;
          cooldowns = us_sameProviderRotationCooldowns state;
          kept = filter (\<lambda>(key, entry). now < cd_until entry) cooldowns;
          changed = (length kept < length cooldowns);
          state' = state\<lparr>us_sameProviderRotationCooldowns := kept\<rparr>
      in (state', if changed then writeUnifiedState state' fs else fs))"

definition srg_mark ::
  "string \<Rightarrow> string \<Rightarrow> string \<Rightarrow> string \<Rightarrow> int \<Rightarrow> int \<Rightarrow> rotation_fs \<Rightarrow> rotation_fs" where
  "srg_mark providerId fromAccountId toAccountId modelID cooldownMs now fs0 =
     (let (state, fs) = srg_clearExpired now (readUnifiedState fs0);
          entry = \<lparr>cd_until = now + cooldownMs, cd_rotatedAt = now, cd_fromAccountId = fromAccountId,
                   cd_toAccountId = toAccountId, cd_modelID = modelID\<rparr>
      in writeUnifiedState
           (state\<lparr>us_sameProviderRotationCooldowns :=
              jset (us_sameProviderRotationCooldowns state) (srg_makeKey providerId fromAccountId) entry\<rparr>) fs)"

definition srg_getWaitTime :: "string \<Rightarrow> string \<Rightarrow> int \<Rightarrow> rotation_fs \<Rightarrow> int \<times> rotation_fs" where
  "srg_getWaitTime providerId accountId now fs0 =
     (let (state, fs) = srg_clearExpired now (readUnifiedState fs0)
      in (case jget (us_sameProviderRotationCooldowns state) (srg_makeKey providerId accountId) of
            None \<Rightarrow> 0 | Some entry \<Rightarrow> max 0 (cd_until entry - now), fs))"

fun srg_provider_loop ::
  "string \<Rightarrow> int \<Rightarrow> (string, rotation_cooldown_state) jmap \<Rightarrow> int \<Rightarrow> int" where
  "srg_provider_loop prefix now [] maxWait = maxWait"
| "srg_provider_loop prefix now ((key, entry) # rest) maxWait =
     (if \<not> js_starts_with key prefix then srg_provider_loop prefix now rest maxWait
      else (let wait = cd_until entry - now
            in srg_provider_loop prefix now rest (if wait > maxWait then wait else maxWait)))"

definition srg_getProviderWaitTime :: "string \<Rightarrow> int \<Rightarrow> rotation_fs \<Rightarrow> int \<times> rotation_fs" where
  "srg_getProviderWaitTime providerId now fs0 =
     (let (state, fs) = srg_clearExpired now (readUnifiedState fs0);
          prefix = providerId @ '':''
      in (max 0 (srg_provider_loop prefix now (us_sameProviderRotationCooldowns state) 0), fs))"

definition srg_isCoolingDown :: "string \<Rightarrow> string \<Rightarrow> int \<Rightarrow> rotation_fs \<Rightarrow> bool \<times> rotation_fs" where
  "srg_isCoolingDown providerId accountId now fs =
     (let (wait, fs') = srg_getWaitTime providerId accountId now fs in (wait > 0, fs'))"

definition srg_getSnapshot ::
  "int \<Rightarrow> rotation_fs \<Rightarrow> (string \<times> rotation_cooldown_state \<times> int) list \<times> rotation_fs" where
  "srg_getSnapshot now fs0 =
     (let (state, fs) = srg_clearExpired now (readUnifiedState fs0)
      in (map (\<lambda>(key, entry). (key, entry, max 0 (cd_until entry - now)))
            (us_sameProviderRotationCooldowns state), fs))"

definition srg_clear :: "string \<Rightarrow> string \<Rightarrow> rotation_fs \<Rightarrow> rotation_fs" where
  "srg_clear providerId accountId fs0 =
     (let (state, fs) = readUnifiedState fs0;
          key = srg_makeKey providerId accountId
      in if jget (us_sameProviderRotationCooldowns state) key = None then fs
         else writeUnifiedState
           (state\<lparr>us_sameProviderRotationCooldowns :=
              jdel (us_sameProviderRotationCooldowns state) key\<rparr>) fs)"

definition srg_clearAll :: "rotation_fs \<Rightarrow> rotation_fs" where
  "srg_clearAll fs0 =
     (let (state, fs) = readUnifiedState fs0
      in writeUnifiedState (state\<lparr>us_sameProviderRotationCooldowns := []\<rparr>) fs)"

section \<open>The live cooldowns\<close>

abbreviation cooldowns_of :: "rotation_fs \<Rightarrow> (string, rotation_cooldown_state) jmap" where
  "cooldowns_of fs \<equiv> us_sameProviderRotationCooldowns (fst (readUnifiedState fs))"

definition live_cooldowns :: "int \<Rightarrow> rotation_fs \<Rightarrow> (string, rotation_cooldown_state) jmap" where
  "live_cooldowns now fs = filter (\<lambda>(key, entry). now < cd_until entry) (cooldowns_of fs)"

lemma srg_clearExpired_state:
  "us_sameProviderRotationCooldowns (fst (srg_clearExpired now (readUnifiedState fs))) = live_cooldowns now fs"
  by (simp add: srg_clearExpired_def Let_def case_prod_beta live_cooldowns_def)

lemma srg_clearExpired_writable [simp]:
  "fs_writable (snd (srg_clearExpired now (readUnifiedState fs))) = fs_writable fs"
  by (simp add: srg_clearExpired_def Let_def case_prod_beta)

lemma srg_wait_def:
  "fst (srg_getWaitTime p a now fs) =
     (case jget (live_cooldowns now fs) (srg_makeKey p a) of None \<Rightarrow> 0 | Some e \<Rightarrow> max 0 (cd_until e - now))"
  by (simp add: srg_getWaitTime_def Let_def case_prod_beta srg_clearExpired_state)

lemma srg_provider_loop_ge: "m \<le> srg_provider_loop pre now es m"
proof (induction es arbitrary: m)
  case Nil
  then show ?case by simp
next
  case (Cons p es)
  obtain k e where p: "p = (k, e)" by (cases p)
  show ?case
    using Cons.IH [of m] Cons.IH [of "cd_until e - now"] p by (auto simp: Let_def)
qed

lemma srg_provider_loop_mem:
  "(k, e) \<in> set es \<Longrightarrow> js_starts_with k pre \<Longrightarrow> cd_until e - now \<le> srg_provider_loop pre now es m"
proof (induction es arbitrary: m)
  case Nil
  then show ?case by simp
next
  case (Cons p es)
  obtain k' e' where p: "p = (k', e')" by (cases p)
  show ?case
  proof (cases "p = (k, e)")
    case True
    have "cd_until e - now \<le> srg_provider_loop pre now es (if cd_until e - now > m then cd_until e - now else m)"
      using srg_provider_loop_ge [of "if cd_until e - now > m then cd_until e - now else m" pre now es]
      by (auto split: if_splits)
    with True Cons.prems(2) show ?thesis by (simp add: Let_def)
  next
    case False
    then have "(k, e) \<in> set es" using Cons.prems(1) by auto
    then show ?thesis using Cons.IH Cons.prems(2) p by (simp add: Let_def)
  qed
qed

lemma srg_provider_loop_cases:
  "srg_provider_loop pre now es m = m \<or>
   (\<exists>k e. (k, e) \<in> set es \<and> js_starts_with k pre \<and> srg_provider_loop pre now es m = cd_until e - now)"
proof (induction es arbitrary: m)
  case Nil
  then show ?case by simp
next
  case (Cons p es)
  obtain k e where p: "p = (k, e)" by (cases p)
  show ?case using Cons.IH [of m] Cons.IH [of "cd_until e - now"] p by (auto simp: Let_def)
qed

section \<open>Properties\<close>

text \<open>Arming the guard for an account makes exactly that account cool down, until
  exactly the end of the cooldown; what other accounts see is unchanged.\<close>

theorem mark_cools_down:
  assumes "fs_writable fs" and "fs_wf fs" and "now \<le> t"
  shows "fst (srg_isCoolingDown p a t (srg_mark p' from_id to_id m cd now fs)) =
    (if srg_makeKey p a = srg_makeKey p' from_id then t < now + cd
     else fst (srg_isCoolingDown p a t fs))"
proof -
  let ?k = "srg_makeKey p a"
  have wf: "distinct (jkeys (cooldowns_of fs))" using assms(2) by (simp add: fs_wf_def state_wf_def)
  have dk: "distinct (jkeys (live_cooldowns now fs))"
    unfolding live_cooldowns_def using wf by (rule distinct_keys_filter)
  let ?e = "\<lparr>cd_until = now + cd, cd_rotatedAt = now, cd_fromAccountId = from_id,
      cd_toAccountId = to_id, cd_modelID = m\<rparr>"
  have st: "cooldowns_of (srg_mark p' from_id to_id m cd now fs) =
      jset (live_cooldowns now fs) (srg_makeKey p' from_id) ?e"
    using assms(1) srg_clearExpired_state [of now fs]
    by (simp add: srg_mark_def Let_def case_prod_beta)
  have live: "jget (live_cooldowns t fs') k =
      (case jget (cooldowns_of fs') k of None \<Rightarrow> None
       | Some e \<Rightarrow> if t < cd_until e then Some e else None)"
    if "distinct (jkeys (cooldowns_of fs'))" for fs' k t
    unfolding live_cooldowns_def
    using map_of_filter_snd [OF that, of "\<lambda>e. t < cd_until e" k] .
  have d': "distinct (jkeys (cooldowns_of (srg_mark p' from_id to_id m cd now fs)))"
    unfolding st using dk by (rule distinct_update)
  have wait: "fst (srg_isCoolingDown p a t fs') \<longleftrightarrow> jget (live_cooldowns t fs') ?k \<noteq> None"
    if "distinct (jkeys (cooldowns_of fs'))" for fs'
    using live [OF that, of t ?k] srg_wait_def [of p a t fs']
    by (auto simp: srg_isCoolingDown_def case_prod_beta split: option.splits if_splits)
  show ?thesis
    unfolding wait [OF d'] wait [OF wf] live [OF d'] live [OF wf] st jget_jset live [OF wf]
    using assms(3) by (auto split: option.splits)
qed

theorem mark_cools_down_witness:
  "fst (srg_isCoolingDown ''openai'' ''a'' 100
     (srg_mark ''openai'' ''a'' ''b'' ''gpt'' SAME_PROVIDER_ROTATE_COOLDOWN_MS 50 fresh_fs))"
proof -
  have "fs_writable fresh_fs" and "fs_wf fresh_fs"
    using fresh_world_ok
    by (simp_all add: fresh_fs_def fs_wf_def readUnifiedState_def legacy_or_empty_def state_wf_def
        empty_unified_state_def)
  from mark_cools_down [OF this, of 50 100] show ?thesis
    by (simp add: SAME_PROVIDER_ROTATE_COOLDOWN_MS_def)
qed

text \<open>The provider-wide wait is the largest wait of any live cooldown whose key is
  under the provider: it is an upper bound for each account's own wait, and it is 0 or attained.\<close>

theorem provider_wait_is_max:
  "fst (srg_getWaitTime p a now fs) \<le> fst (srg_getProviderWaitTime p now fs) \<and>
   (fst (srg_getProviderWaitTime p now fs) = 0 \<or>
    (\<exists>k e. (k, e) \<in> set (live_cooldowns now fs) \<and> js_starts_with k (p @ '':'') \<and>
           fst (srg_getProviderWaitTime p now fs) = cd_until e - now))"
proof -
  let ?l = "srg_provider_loop (p @ '':'') now (live_cooldowns now fs) 0"
  have pw: "fst (srg_getProviderWaitTime p now fs) = max 0 ?l"
    by (simp add: srg_getProviderWaitTime_def Let_def case_prod_beta srg_clearExpired_state)
  have ge: "0 \<le> ?l" by (rule srg_provider_loop_ge)
  have "fst (srg_getWaitTime p a now fs) \<le> ?l"
  proof (cases "jget (live_cooldowns now fs) (srg_makeKey p a)")
    case None
    then show ?thesis using ge by (simp add: srg_wait_def)
  next
    case (Some e)
    then have "(srg_makeKey p a, e) \<in> set (live_cooldowns now fs)" by (rule map_of_SomeD)
    moreover have "js_starts_with (srg_makeKey p a) (p @ '':'')"
      by (metis append.assoc js_starts_with_append srg_makeKey_def)
    ultimately have "cd_until e - now \<le> ?l" by (rule srg_provider_loop_mem)
    then show ?thesis using Some ge by (simp add: srg_wait_def)
  qed
  then show ?thesis using srg_provider_loop_cases [of "p @ '':''" now "live_cooldowns now fs" 0] pw ge
    by auto
qed

end
