(* ===== verification/Rotation3D_Select.thy ===== *)
theory Rotation3D_Select
  imports Rotation_Guard
begin

text \<open>
  \<^verbatim>\<open>account/rotation3d.ts\<close>, first half: vectors in the space of providers, accounts and models,
  candidates for a fallback, their score and the choice of the best one. Scores are exact
  rationals. The choice asks the same-provider guard for its waiting time, which may drop expired
  cool-downs from the shared file, so it threads the file; the waiting time itself only goes to the
  log.
\<close>

section \<open>Vectors, candidates and the configuration\<close>

record model_vector =
  mv_providerId :: string
  mv_accountId :: string
  mv_modelID :: string

record model_capabilities =
  cap_image :: bool
  cap_audio :: bool
  cap_video :: bool
  cap_reasoning :: bool
  cap_pdf :: bool
  cap_coding :: bool
  cap_longContext :: bool

datatype candidate_reason =
    Same_model_diff_account | Diff_model_same_account | Diff_provider | Fallback

record fallback_candidate =
  fc_vector :: model_vector
  fc_healthScore :: rat
  fc_isRateLimited :: bool
  fc_waitTimeMs :: rat
  fc_priority :: rat
  fc_reason :: candidate_reason
  fc_from :: "model_vector option"
  fc_capabilities :: "model_capabilities option"

datatype rotation_purpose =
    For_coding | For_reasoning | For_image | For_docs | For_audio | For_video | For_long_context
  | For_generic

datatype fallback_strategy = Account_first | Model_first | Provider_first | Any_available

record priority_rule =
  pr_providerId :: string
  pr_accountId :: "string option"
  pr_modelID :: "string option"
  pr_providerTokens :: "string list option"
  pr_accountTokens :: "string list option"
  pr_modelTokens :: "string list option"

record rotation3d_config =
  rc_strategy :: fallback_strategy
  rc_allowSameProviderFallback :: bool
  rc_allowTierDowngrade :: bool
  rc_maxCandidates :: nat
  rc_minHealthScore :: rat
  rc_providerPriority :: "string list"
  rc_providerPriorityWeight :: rat
  rc_priorityRules :: "priority_rule list option"

definition DEFAULT_ROTATION3D_CONFIG :: rotation3d_config where
  "DEFAULT_ROTATION3D_CONFIG =
     \<lparr>rc_strategy = Account_first, rc_allowSameProviderFallback = True, rc_allowTierDowngrade = True,
      rc_maxCandidates = 50, rc_minHealthScore = 30, rc_providerPriority = [],
      rc_providerPriorityWeight = 120, rc_priorityRules = None\<rparr>"

definition r3d_makeKey :: "model_vector \<Rightarrow> string" where
  "r3d_makeKey v = mv_providerId v @ '':'' @ mv_accountId v @ '':'' @ mv_modelID v"

section \<open>The score of a candidate\<close>

definition dimension_score :: "fallback_strategy \<Rightarrow> model_vector \<Rightarrow> model_vector \<Rightarrow> rat" where
  "dimension_score strategy candidate current =
     (let isSameProvider = (mv_providerId candidate = mv_providerId current);
          isSameAccount = (mv_accountId candidate = mv_accountId current);
          isSameModel = (mv_modelID candidate = mv_modelID current)
      in case strategy of
           Account_first \<Rightarrow>
             (if isSameModel \<and> \<not> isSameAccount \<and> isSameProvider then 300
              else if isSameProvider \<and> \<not> isSameModel then 200
              else if \<not> isSameProvider then 100 else 0)
         | Model_first \<Rightarrow>
             (if \<not> isSameModel \<and> isSameAccount \<and> isSameProvider then 300
              else if isSameProvider \<and> \<not> isSameAccount then 200
              else if \<not> isSameProvider then 100 else 0)
         | Provider_first \<Rightarrow>
             (if \<not> isSameProvider then 300
              else if isSameProvider \<and> \<not> isSameAccount then 200
              else if isSameProvider \<and> \<not> isSameModel then 100 else 0)
         | Any_available \<Rightarrow> 0)"

definition purpose_match :: "rotation_purpose \<Rightarrow> model_capabilities option \<Rightarrow> bool" where
  "purpose_match purpose capabilities =
     (case capabilities of
        None \<Rightarrow> False
      | Some caps \<Rightarrow>
          (case purpose of
             For_coding \<Rightarrow> cap_coding caps
           | For_reasoning \<Rightarrow> cap_reasoning caps
           | For_image \<Rightarrow> cap_image caps
           | For_docs \<Rightarrow> cap_longContext caps \<or> cap_pdf caps
           | For_long_context \<Rightarrow> cap_longContext caps
           | For_audio \<Rightarrow> cap_audio caps
           | For_video \<Rightarrow> cap_video caps
           | For_generic \<Rightarrow> False))"

definition tokens_match :: "string list \<Rightarrow> string list \<Rightarrow> bool" where
  "tokens_match needed present \<longleftrightarrow> list_all (\<lambda>t. t \<in> set present) needed"

definition rule_tokens :: "string list option \<Rightarrow> string option \<Rightarrow> string list option" where
  "rule_tokens given name =
     (case given of
        Some ts \<Rightarrow> Some ts
      | None \<Rightarrow> if truthy name then Some (js_tokens (the name)) else None)"

definition opt_tokens_match :: "string list option \<Rightarrow> string list \<Rightarrow> bool" where
  "opt_tokens_match needed present = (case needed of None \<Rightarrow> True | Some ts \<Rightarrow> tokens_match ts present)"

definition rule_applies :: "priority_rule \<Rightarrow> model_vector \<Rightarrow> bool" where
  "rule_applies rule v \<longleftrightarrow>
     tokens_match (case pr_providerTokens rule of Some ts \<Rightarrow> ts | None \<Rightarrow> js_tokens (pr_providerId rule))
       (js_tokens (mv_providerId v)) \<and>
     opt_tokens_match (rule_tokens (pr_accountTokens rule) (pr_accountId rule)) (js_tokens (mv_accountId v)) \<and>
     opt_tokens_match (rule_tokens (pr_modelTokens rule) (pr_modelID rule)) (js_tokens (mv_modelID v))"

definition rule_specificity :: "priority_rule \<Rightarrow> nat" where
  "rule_specificity rule =
     (if rule_tokens (pr_accountTokens rule) (pr_accountId rule) \<noteq> None then 1 else 0) +
     (if rule_tokens (pr_modelTokens rule) (pr_modelID rule) \<noteq> None then 1 else 0)"

fun rules_score :: "priority_rule list \<Rightarrow> model_vector \<Rightarrow> rat" where
  "rules_score [] v = 0"
| "rules_score (rule # rules) v =
     (if rule_applies rule v
      then of_nat (length (rule # rules)) * 1000 + of_nat (rule_specificity rule) * 250
      else rules_score rules v)"

definition provider_rank_score :: "rotation3d_config \<Rightarrow> model_vector \<Rightarrow> rat" where
  "provider_rank_score config v =
     (if length (rc_providerPriority config) > 0 \<and> rc_providerPriorityWeight config > 0
      then (case js_indexOf (rc_providerPriority config) (mv_providerId v) of
              None \<Rightarrow> 0
            | Some index \<Rightarrow>
                of_nat (length (rc_providerPriority config) - index) * rc_providerPriorityWeight config)
      else 0)"

definition scoreCandidateByStrategy ::
  "fallback_candidate \<Rightarrow> model_vector \<Rightarrow> rotation3d_config \<Rightarrow> rotation_purpose \<Rightarrow> rat" where
  "scoreCandidateByStrategy candidate current config purpose =
     (let v = fc_vector candidate;
          s0 = fc_healthScore candidate;
          s1 = s0 + (if mv_providerId v = mv_providerId current \<and> mv_accountId v \<noteq> mv_accountId current
                     then 1000 else 0);
          s2 = s1 + dimension_score (rc_strategy config) v current;
          s3 = s2 + (if purpose \<noteq> For_generic \<and> purpose_match purpose (fc_capabilities candidate)
                     then 500 else 0);
          s4 = s3 - fc_waitTimeMs candidate / 1000;
          s5 = s4 + provider_rank_score config v
      in s5 + (case rc_priorityRules config of None \<Rightarrow> 0 | Some rules \<Rightarrow> rules_score rules v))"

section \<open>The choice\<close>

definition selectable ::
  "model_vector \<Rightarrow> rotation3d_config \<Rightarrow> string list option \<Rightarrow> fallback_candidate \<Rightarrow> bool" where
  "selectable current config triedKeys c =
     (let v = fc_vector c;
          key = r3d_makeKey v
      in if (case triedKeys of None \<Rightarrow> False | Some ks \<Rightarrow> key \<in> set ks) then False
         else (let meetsHealth = (if mv_providerId v = mv_providerId current
                                  then fc_healthScore c \<ge> rc_minHealthScore config else True);
                   isExactCurrent = (mv_providerId v = mv_providerId current \<and>
                     mv_accountId v = mv_accountId current \<and> mv_modelID v = mv_modelID current);
                   isSameProviderRotateCandidate = (mv_providerId v = mv_providerId current \<and>
                     \<not> isExactCurrent \<and>
                     (mv_accountId v \<noteq> mv_accountId current \<or> mv_modelID v \<noteq> mv_modelID current))
               in if \<not> rc_allowSameProviderFallback config \<and> isSameProviderRotateCandidate then False
                  else \<not> fc_isRateLimited c \<and> meetsHealth \<and> \<not> isExactCurrent))"

definition selectBestFallback ::
  "fallback_candidate list \<Rightarrow> model_vector \<Rightarrow> rotation3d_config \<Rightarrow> string list option \<Rightarrow>
   rotation_purpose \<Rightarrow> int \<Rightarrow> rotation_fs \<Rightarrow> fallback_candidate option \<times> rotation_fs" where
  "selectBestFallback candidates current config triedKeys purpose now fs0 =
     (let (sameProviderRotateWaitMs, fs) = srg_getProviderWaitTime (mv_providerId current) now fs0;
          available = filter (selectable current config triedKeys) candidates
      in if available = [] then (None, fs)
         else (let scored = take (rc_maxCandidates config)
                     (sort_key (\<lambda>c. - fc_priority c)
                        (map (\<lambda>c. c\<lparr>fc_priority := scoreCandidateByStrategy c current config purpose\<rparr>)
                           available))
               in case scored of
                    [] \<Rightarrow> (None, fs)
                  | best # _ \<Rightarrow> (Some (best\<lparr>fc_from := Some current\<rparr>), fs)))"

section \<open>Properties\<close>

lemma sort_key_hd_min:
  assumes "sort_key f xs = y # ys" and "x \<in> set xs"
  shows "f y \<le> f x"
proof -
  have "sorted (map f (y # ys))" using sorted_sort_key [of f xs] assms(1) by simp
  moreover have "x \<in> set (y # ys)" using assms by (metis set_sort)
  ultimately show ?thesis by auto
qed

lemma selectBestFallback_cases:
  assumes "0 < rc_maxCandidates config"
  obtains "filter (selectable current config tried) candidates = []"
    and "fst (selectBestFallback candidates current config tried purpose now fs) = None"
  | c where "c \<in> set candidates" and "selectable current config tried c"
    and "\<And>d. d \<in> set candidates \<Longrightarrow> selectable current config tried d \<Longrightarrow>
      scoreCandidateByStrategy d current config purpose \<le> scoreCandidateByStrategy c current config purpose"
    and "fst (selectBestFallback candidates current config tried purpose now fs) =
      Some (c\<lparr>fc_priority := scoreCandidateByStrategy c current config purpose, fc_from := Some current\<rparr>)"
proof (cases "filter (selectable current config tried) candidates = []")
  case True
  then have "fst (selectBestFallback candidates current config tried purpose now fs) = None"
    by (simp add: selectBestFallback_def case_prod_beta)
  then show ?thesis using True that(1) by blast
next
  case False
  let ?sc = "\<lambda>c. c\<lparr>fc_priority := scoreCandidateByStrategy c current config purpose\<rparr>"
  let ?av = "filter (selectable current config tried) candidates"
  let ?sorted = "sort_key (\<lambda>c. - fc_priority c) (map ?sc ?av)"
  have "length ?sorted = length ?av" by simp
  moreover have "length ?av \<noteq> 0" using False by (simp only: length_0_conv simp_thms)
  ultimately obtain best rest where s: "?sorted = best # rest"
    by (cases ?sorted) (simp_all only: list.size)
  have "best \<in> set ?sorted" unfolding s by simp
  then have "best \<in> set (map ?sc ?av)" by (simp only: set_sort)
  then obtain c where c: "c \<in> set candidates" "selectable current config tried c" "best = ?sc c" by auto
  have top: "scoreCandidateByStrategy d current config purpose \<le> scoreCandidateByStrategy c current config purpose"
    if "d \<in> set candidates" "selectable current config tried d" for d
    using sort_key_hd_min [OF s, of "?sc d"] that c(3) by auto
  obtain n where n: "rc_maxCandidates config = Suc n" using assms by (cases "rc_maxCandidates config") auto
  have "fst (selectBestFallback candidates current config tried purpose now fs) =
      Some (best\<lparr>fc_from := Some current\<rparr>)"
    unfolding selectBestFallback_def case_prod_beta Let_def s n by (simp only: False if_False) simp
  then show ?thesis using that(2) [OF c(1,2) top] c(3) by simp
qed

lemma selectableD:
  assumes "selectable current config tried c"
  shows "\<not> fc_isRateLimited c" and "fc_vector c \<noteq> current"
    and "\<And>ks. tried = Some ks \<Longrightarrow> r3d_makeKey (fc_vector c) \<notin> set ks"
    and "mv_providerId (fc_vector c) = mv_providerId current \<Longrightarrow>
      rc_allowSameProviderFallback config \<and> rc_minHealthScore config \<le> fc_healthScore c"
  using assms
  by (auto simp: selectable_def Let_def split: if_splits option.splits intro: model_vector.equality)

text \<open>The choice. A fallback is found exactly when some candidate is selectable;
  it is one of the selectable candidates, no selectable candidate scores higher, and it remembers the
  vector it replaces. In particular it is never the current vector, a tried one or a rate limited
  one.\<close>

theorem selectBestFallback_spec:
  assumes "0 < rc_maxCandidates config"
  shows "(case fst (selectBestFallback candidates current config tried purpose now fs) of
      None \<Rightarrow> \<forall>c \<in> set candidates. \<not> selectable current config tried c
    | Some b \<Rightarrow> fc_from b = Some current \<and> fc_vector b \<noteq> current \<and> \<not> fc_isRateLimited b \<and>
        (\<exists>c \<in> set candidates. selectable current config tried c \<and> fc_vector b = fc_vector c \<and>
          (\<forall>d \<in> set candidates. selectable current config tried d \<longrightarrow>
             scoreCandidateByStrategy d current config purpose \<le>
             scoreCandidateByStrategy c current config purpose)))"
  using assms
proof (rule selectBestFallback_cases [where current = current and tried = tried and candidates = candidates
      and purpose = purpose and now = now and fs = fs])
  assume "filter (selectable current config tried) candidates = []"
    and "fst (selectBestFallback candidates current config tried purpose now fs) = None"
  then show ?thesis by (auto simp: filter_empty_conv)
next
  fix c
  assume c: "c \<in> set candidates" "selectable current config tried c"
    and top: "\<And>d. d \<in> set candidates \<Longrightarrow> selectable current config tried d \<Longrightarrow>
      scoreCandidateByStrategy d current config purpose \<le> scoreCandidateByStrategy c current config purpose"
    and eq: "fst (selectBestFallback candidates current config tried purpose now fs) =
      Some (c\<lparr>fc_priority := scoreCandidateByStrategy c current config purpose, fc_from := Some current\<rparr>)"
  show ?thesis unfolding eq using c top selectableD(1,2) [OF c(2)] by auto
qed

definition demo_vector :: "string \<Rightarrow> string \<Rightarrow> string \<Rightarrow> model_vector" where
  "demo_vector p a m = \<lparr>mv_providerId = p, mv_accountId = a, mv_modelID = m\<rparr>"

definition demo_candidate :: "model_vector \<Rightarrow> rat \<Rightarrow> fallback_candidate" where
  "demo_candidate v h =
     \<lparr>fc_vector = v, fc_healthScore = h, fc_isRateLimited = False, fc_waitTimeMs = 0, fc_priority = 0,
      fc_reason = Diff_provider, fc_from = None, fc_capabilities = None\<rparr>"

theorem selectBestFallback_spec_witness:
  "fst (selectBestFallback [demo_candidate (demo_vector ''q'' ''a'' ''m'') 0] (demo_vector ''p'' ''a'' ''m'')
     DEFAULT_ROTATION3D_CONFIG None For_generic 0 fresh_fs) \<noteq> None"
proof -
  have "selectable (demo_vector ''p'' ''a'' ''m'') DEFAULT_ROTATION3D_CONFIG None
      (demo_candidate (demo_vector ''q'' ''a'' ''m'') 0)"
    by (simp add: selectable_def demo_candidate_def demo_vector_def)
  then show ?thesis
    using selectBestFallback_spec [of DEFAULT_ROTATION3D_CONFIG
        "[demo_candidate (demo_vector ''q'' ''a'' ''m'') 0]" "demo_vector ''p'' ''a'' ''m''" None For_generic 0 fresh_fs]
    by (auto simp: DEFAULT_ROTATION3D_CONFIG_def split: option.splits)
qed

lemma dimension_bounds:
  "0 \<le> dimension_score s v c" "mv_providerId v \<noteq> mv_providerId c \<Longrightarrow> dimension_score s v c \<le> 300"
  by (cases s; auto simp: dimension_score_def Let_def)+

text \<open>The soft preference for the provider in use is as strong as a hard one. When no
  provider or rule priorities are configured and another account of the same provider is selectable,
  the choice stays on the provider, whatever the strategy, the purpose and the other candidates.\<close>

theorem same_provider_preferred:
  assumes "rc_providerPriority config = []" and "rc_priorityRules config = None"
    and "0 < rc_maxCandidates config"
    and "\<forall>d \<in> set candidates. 0 \<le> fc_healthScore d \<and> fc_healthScore d \<le> 100 \<and> 0 \<le> fc_waitTimeMs d"
    and "c \<in> set candidates" and "selectable current config tried c" and "fc_waitTimeMs c = 0"
    and "mv_providerId (fc_vector c) = mv_providerId current"
    and "mv_accountId (fc_vector c) \<noteq> mv_accountId current"
  shows "\<exists>b. fst (selectBestFallback candidates current config tried purpose now fs) = Some b \<and>
    mv_providerId (fc_vector b) = mv_providerId current"
  using assms(3)
proof (rule selectBestFallback_cases [where current = current and tried = tried and candidates = candidates
      and purpose = purpose and now = now and fs = fs])
  assume "filter (selectable current config tried) candidates = []"
  then show ?thesis using assms(5,6) by (auto simp: filter_empty_conv)
next
  fix b
  assume b: "b \<in> set candidates"
    and top: "\<And>d. d \<in> set candidates \<Longrightarrow> selectable current config tried d \<Longrightarrow>
      scoreCandidateByStrategy d current config purpose \<le> scoreCandidateByStrategy b current config purpose"
    and eq: "fst (selectBestFallback candidates current config tried purpose now fs) =
      Some (b\<lparr>fc_priority := scoreCandidateByStrategy b current config purpose, fc_from := Some current\<rparr>)"
  have rank: "provider_rank_score config v = 0" for v
    using assms(1) by (simp add: provider_rank_score_def)
  have low: "1000 \<le> scoreCandidateByStrategy c current config purpose"
    using assms(2,4,5,7-9) dimension_bounds(1) [of "rc_strategy config" "fc_vector c" current]
    by (auto simp: scoreCandidateByStrategy_def Let_def rank)
  have "mv_providerId (fc_vector b) = mv_providerId current"
  proof (rule ccontr)
    assume other: "mv_providerId (fc_vector b) \<noteq> mv_providerId current"
    then have "scoreCandidateByStrategy b current config purpose \<le> 900"
      using assms(2,4) b dimension_bounds(2) [OF other, of "rc_strategy config"]
      by (auto simp: scoreCandidateByStrategy_def Let_def rank)
    then show False using top [OF assms(5,6)] low by simp
  qed
  then show ?thesis using eq by auto
qed

theorem same_provider_preferred_witness:
  "\<exists>b. fst (selectBestFallback
      [demo_candidate (demo_vector ''q'' ''a'' ''m'') 100, demo_candidate (demo_vector ''p'' ''b'' ''m'') 40]
      (demo_vector ''p'' ''a'' ''m'') DEFAULT_ROTATION3D_CONFIG None For_coding 0 fresh_fs) = Some b \<and>
    mv_providerId (fc_vector b) = ''p''"
proof -
  have "selectable (demo_vector ''p'' ''a'' ''m'') DEFAULT_ROTATION3D_CONFIG None
      (demo_candidate (demo_vector ''p'' ''b'' ''m'') 40)"
    by (simp add: selectable_def demo_candidate_def demo_vector_def DEFAULT_ROTATION3D_CONFIG_def)
  then show ?thesis
    using same_provider_preferred [of DEFAULT_ROTATION3D_CONFIG
        "[demo_candidate (demo_vector ''q'' ''a'' ''m'') 100, demo_candidate (demo_vector ''p'' ''b'' ''m'') 40]"
        "demo_candidate (demo_vector ''p'' ''b'' ''m'') 40" "demo_vector ''p'' ''a'' ''m''" None For_coding 0 fresh_fs]
    by (simp add: demo_candidate_def demo_vector_def DEFAULT_ROTATION3D_CONFIG_def)
qed

end
