(* ===== verification/Rotation_Policy.thy ===== *)
theory Rotation_Policy
  imports Rotation3D_Select
begin

text \<open>
  \<^verbatim>\<open>session/instruction-policy.ts\<close> (the parser of the priority text) and the configuration half of
  \<^verbatim>\<open>account/rotation3d.ts\<close>. The regular expressions are anchored sequences of literals and blanks,
  tried at every position where the code does not anchor them. Reading the instruction files is not
  modelled: the JSON block (already validated) and the text block are arguments.
\<close>

section \<open>The priority text\<close>

definition normalizeWildcard :: "string option \<Rightarrow> string option" where
  "normalizeWildcard v =
     (if \<not> truthy v then None
      else (let trimmed = js_trim (the v)
            in if trimmed = [] \<or> trimmed = ''*'' then None else Some trimmed))"

definition normalizeTokens :: "string option \<Rightarrow> string list option" where
  "normalizeTokens v =
     (if \<not> truthy v then None
      else (let tokens = js_tokens (the v) in if tokens \<noteq> [] then Some tokens else None))"

datatype rx = Lit string | Ws1 | Ws0

fun rx_prefix :: "rx list \<Rightarrow> string \<Rightarrow> bool" where
  "rx_prefix [] s \<longleftrightarrow> True"
| "rx_prefix (Lit l # r) s \<longleftrightarrow> js_starts_with s l \<and> rx_prefix r (drop (length l) s)"
| "rx_prefix (Ws1 # r) s \<longleftrightarrow> takeWhile js_space s \<noteq> [] \<and> rx_prefix r (dropWhile js_space s)"
| "rx_prefix (Ws0 # r) s \<longleftrightarrow> rx_prefix r (dropWhile js_space s)"

fun rx_search :: "rx list \<Rightarrow> string \<Rightarrow> bool" where
  "rx_search r [] \<longleftrightarrow> rx_prefix r []"
| "rx_search r (c # s) \<longleftrightarrow> rx_prefix r (c # s) \<or> rx_search r s"

definition header_rx :: "rx list" where
  "header_rx = [Lit ''rotation'', Ws1, Lit ''priority'', Ws1, Lit ''preference'', Ws1, Lit ''by'', Ws0,
     Lit ''(provider,'', Ws0, Lit ''account,'', Ws0, Lit ''model)'']"

definition js_word_char :: "char \<Rightarrow> bool" where
  "js_word_char c \<longleftrightarrow> js_alnum (js_lower_char c) \<or> c = CHR ''_''"

definition is_end_line :: "string \<Rightarrow> bool" where
  "is_end_line line \<longleftrightarrow> js_starts_with (js_lower line) ''end'' \<and>
     (drop 3 line = [] \<or> \<not> js_word_char (hd (drop 3 line)))"

definition rule_body :: "string \<Rightarrow> string option" where
  "rule_body line =
     (let r1 = dropWhile js_space (dropWhile js_digit line)
      in if takeWhile js_digit line \<noteq> [] \<and> r1 \<noteq> [] \<and> hd r1 = CHR ''.''
         then (let r2 = dropWhile js_space (tl r1)
               in if r2 \<noteq> [] \<and> hd r2 = CHR ''('' \<and> CHR '')'' \<in> set (tl r2)
                  then Some (takeWhile (\<lambda>c. c \<noteq> CHR '')'') (tl r2)) else None)
         else None)"

definition nth_part :: "string list \<Rightarrow> nat \<Rightarrow> string option" where
  "nth_part ps i = (if i < length ps then Some (ps ! i) else None)"

definition parse_rule :: "string \<Rightarrow> priority_rule option" where
  "parse_rule line =
     (case rule_body line of
        None \<Rightarrow> None
      | Some body \<Rightarrow>
          (let parts = map js_trim (js_split (CHR '','') body)
           in case normalizeWildcard (nth_part parts 0) of
                None \<Rightarrow> None
              | Some providerId \<Rightarrow>
                  (let accountId = normalizeWildcard (nth_part parts 1);
                       modelID = normalizeWildcard (nth_part parts 2)
                   in Some \<lparr>pr_providerId = providerId, pr_accountId = accountId, pr_modelID = modelID,
                            pr_providerTokens = normalizeTokens (Some providerId),
                            pr_accountTokens = normalizeTokens accountId,
                            pr_modelTokens = normalizeTokens modelID\<rparr>)))"

fun parse_rules :: "string list \<Rightarrow> priority_rule list" where
  "parse_rules [] = []"
| "parse_rules (l # ls) =
     (let line = js_trim l
      in if line = [] then parse_rules ls
         else if js_starts_with line ''---'' then []
         else if is_end_line line then []
         else (case parse_rule line of None \<Rightarrow> parse_rules ls | Some r \<Rightarrow> r # parse_rules ls))"

fun add_new :: "string list \<Rightarrow> priority_rule list \<Rightarrow> string list" where
  "add_new acc [] = acc"
| "add_new acc (r # rs) =
     add_new (if pr_providerId r \<in> set acc then acc else acc @ [pr_providerId r]) rs"

definition newline :: char where "newline = CHR 0x0A"

definition parseRotationPriorityText :: "string \<Rightarrow> (priority_rule list \<times> string list) option" where
  "parseRotationPriorityText text =
     (if \<not> rx_search header_rx (js_lower text) then None
      else (case dropWhile (\<lambda>line. \<not> rx_search header_rx (js_lower line)) (js_split newline text) of
              [] \<Rightarrow> None
            | header # rest \<Rightarrow>
                (let rules = parse_rules rest
                 in if rules = [] then None else Some (rules, add_new [] rules))))"

section \<open>Resolving the configuration\<close>

record partial_config =
  pc_strategy :: "fallback_strategy option"
  pc_allowSameProviderFallback :: "bool option"
  pc_allowTierDowngrade :: "bool option"
  pc_maxCandidates :: "nat option"
  pc_minHealthScore :: "rat option"
  pc_providerPriority :: "string list option"
  pc_providerPriorityWeight :: "rat option"
  pc_priorityRules :: "priority_rule list option"

definition empty_partial :: partial_config where
  "empty_partial = \<lparr>pc_strategy = None, pc_allowSameProviderFallback = None,
     pc_allowTierDowngrade = None, pc_maxCandidates = None, pc_minHealthScore = None,
     pc_providerPriority = None, pc_providerPriorityWeight = None, pc_priorityRules = None\<rparr>"

text \<open>The spread \<open>{ ...config, ...p }\<close>, where an absent key of \<open>p\<close> keeps the old value.\<close>

definition spread :: "rotation3d_config \<Rightarrow> partial_config option \<Rightarrow> rotation3d_config" where
  "spread c po =
     (case po of
        None \<Rightarrow> c
      | Some p \<Rightarrow>
          \<lparr>rc_strategy = or_default (pc_strategy p) (rc_strategy c),
           rc_allowSameProviderFallback =
             or_default (pc_allowSameProviderFallback p) (rc_allowSameProviderFallback c),
           rc_allowTierDowngrade = or_default (pc_allowTierDowngrade p) (rc_allowTierDowngrade c),
           rc_maxCandidates = or_default (pc_maxCandidates p) (rc_maxCandidates c),
           rc_minHealthScore = or_default (pc_minHealthScore p) (rc_minHealthScore c),
           rc_providerPriority = or_default (pc_providerPriority p) (rc_providerPriority c),
           rc_providerPriorityWeight =
             or_default (pc_providerPriorityWeight p) (rc_providerPriorityWeight c),
           rc_priorityRules =
             (case pc_priorityRules p of None \<Rightarrow> rc_priorityRules c | Some r \<Rightarrow> Some r)\<rparr>)"

record policy_cache =
  ca_value :: "partial_config option"
  ca_at :: int

definition ROTATION_POLICY_CACHE_TTL_MS :: int where "ROTATION_POLICY_CACHE_TTL_MS = 10000"

definition loadRotationPolicyFromInstructions ::
  "partial_config option \<Rightarrow> string option \<Rightarrow> partial_config option" where
  "loadRotationPolicyFromInstructions jsonBlock textBlock =
     (case jsonBlock of
        Some p \<Rightarrow> Some p
      | None \<Rightarrow>
          (if \<not> truthy textBlock then None
           else (case parseRotationPriorityText (the textBlock) of
                   None \<Rightarrow> None
                 | Some (rules, providerPriority) \<Rightarrow>
                     (if rules = [] then None
                      else Some (empty_partial\<lparr>pc_providerPriority := Some providerPriority,
                                               pc_priorityRules := Some rules\<rparr>)))))"

definition resolveRotation3DConfig ::
  "partial_config option \<Rightarrow> string option \<Rightarrow> partial_config option \<Rightarrow> int \<Rightarrow> policy_cache \<Rightarrow>
   rotation3d_config \<times> policy_cache" where
  "resolveRotation3DConfig jsonBlock textBlock overrides now cache =
     (let cache' = (if ca_value cache = None \<or> now - ca_at cache > ROTATION_POLICY_CACHE_TTL_MS
                    then \<lparr>ca_value = loadRotationPolicyFromInstructions jsonBlock textBlock, ca_at = now\<rparr>
                    else cache)
      in (spread (spread DEFAULT_ROTATION3D_CONFIG (ca_value cache')) overrides, cache'))"

section \<open>Properties\<close>

text \<open>A field of a rule as the text can carry it: not empty, not the wildcard, without separators and
  without blanks at its ends.\<close>

definition plain_field :: "string \<Rightarrow> bool" where
  "plain_field s \<longleftrightarrow> s \<noteq> [] \<and> s \<noteq> ''*'' \<and> \<not> js_space (hd s) \<and> \<not> js_space (last s) \<and>
     CHR '','' \<notin> set s \<and> CHR '')'' \<notin> set s \<and> newline \<notin> set s"

definition rule_of :: "string \<times> string \<times> string \<Rightarrow> priority_rule" where
  "rule_of t = (case t of (p, a, m) \<Rightarrow>
     \<lparr>pr_providerId = p, pr_accountId = Some a, pr_modelID = Some m,
      pr_providerTokens = normalizeTokens (Some p), pr_accountTokens = normalizeTokens (Some a),
      pr_modelTokens = normalizeTokens (Some m)\<rparr>)"

definition print_rule :: "nat \<Rightarrow> string \<times> string \<times> string \<Rightarrow> string" where
  "print_rule n t = (case t of (p, a, m) \<Rightarrow>
     js_show_nat n @ ''. ('' @ p @ '', '' @ a @ '', '' @ m @ '')'')"

fun number_rules :: "nat \<Rightarrow> (string \<times> string \<times> string) list \<Rightarrow> string list" where
  "number_rules n [] = []"
| "number_rules n (t # ts) = print_rule n t # number_rules (Suc n) ts"

definition print_policy :: "(string \<times> string \<times> string) list \<Rightarrow> string" where
  "print_policy ts = js_join [newline]
     (''Rotation priority preference by (provider, account, model)'' # number_rules 1 ts)"

lemma trim_plain: "plain_field s \<Longrightarrow> js_trim s = s"
  by (intro js_trim_solid) (simp_all add: plain_field_def)

lemma wildcard_plain: "plain_field s \<Longrightarrow> normalizeWildcard (Some s) = Some s"
  by (simp add: normalizeWildcard_def truthy_def trim_plain) (simp add: plain_field_def)

lemma trim_blank: "js_trim (CHR '' '' # s) = js_trim s"
  by (simp add: js_trim_def js_space_def)

lemma rule_body_print:
  assumes "CHR '')'' \<notin> set body"
  shows "rule_body (js_show_nat n @ ''. ('' @ body @ '')'') = Some body"
proof -
  have d: "\<forall>c \<in> set (js_show_nat n). js_digit c" using js_show_nat_digits [of n] by (simp add: list_all_iff)
  have dw: "dropWhile js_digit (js_show_nat n @ ''. ('' @ body @ '')'') = ''. ('' @ body @ '')''"
    using d by (simp add: js_digit_def)
  have tw: "takeWhile js_digit (js_show_nat n @ ''. ('' @ body @ '')'') = js_show_nat n"
    using d by (simp add: js_digit_def)
  have "takeWhile (\<lambda>c. c \<noteq> CHR '')'') (body @ '')'') = body" using assms by (auto simp: takeWhile_append)
  then show ?thesis unfolding rule_body_def dw tw by (simp add: js_space_def)
qed

lemma parse_rule_print:
  assumes "plain_field p" and "plain_field a" and "plain_field m"
  shows "parse_rule (print_rule n (p, a, m)) = Some (rule_of (p, a, m))"
proof -
  let ?body = "p @ CHR '','' # ('' '' @ a @ CHR '','' # ('' '' @ m))"
  have body: "rule_body (print_rule n (p, a, m)) = Some ?body"
    using rule_body_print [of ?body n] assms by (simp add: print_rule_def plain_field_def)
  have "js_split (CHR '','') ?body = [p, '' '' @ a, '' '' @ m]"
    using assms js_split_append [of "CHR '',''" "'' '' @ a"] js_split_last [of "CHR '',''" "'' '' @ m"]
    by (simp add: js_split_append plain_field_def)
  then have parts: "map js_trim (js_split (CHR '','') ?body) = [p, a, m]"
    using assms by (simp add: trim_blank trim_plain)
  show ?thesis
    unfolding parse_rule_def body option.case parts Let_def
    by (simp add: nth_part_def wildcard_plain assms rule_of_def)
qed

lemma print_rule_trim: "js_trim (print_rule n t) = print_rule n t"
proof -
  obtain p a m where t: "t = (p, a, m)" by (cases t) auto
  have "js_show_nat n \<noteq> []" by simp
  then obtain c cs where c: "js_show_nat n = c # cs" by (cases "js_show_nat n") auto
  then have "js_digit c" using js_show_nat_digits [of n] by simp
  then show ?thesis
    by (intro js_trim_solid) (auto simp: t print_rule_def c js_digit_def js_space_def)
qed

lemma print_rule_start:
  "print_rule n t \<noteq> []" "\<not> js_starts_with (print_rule n t) ''---''" "\<not> is_end_line (print_rule n t)"
proof -
  obtain p a m where t: "t = (p, a, m)" by (cases t) auto
  have "js_show_nat n \<noteq> []" by simp
  then obtain c cs where c: "js_show_nat n = c # cs" by (cases "js_show_nat n") auto
  then have "js_digit c" using js_show_nat_digits [of n] by simp
  then show "print_rule n t \<noteq> []" "\<not> js_starts_with (print_rule n t) ''---''" "\<not> is_end_line (print_rule n t)"
    by (auto simp: t print_rule_def c js_digit_def js_starts_with_def is_end_line_def js_lower_def
        js_lower_char_def)
qed

lemma parse_number_rules:
  "\<forall>(p, a, m) \<in> set ts. plain_field p \<and> plain_field a \<and> plain_field m \<Longrightarrow>
   parse_rules (number_rules n ts) = map rule_of ts"
proof (induction ts arbitrary: n)
  case Nil
  then show ?case by simp
next
  case (Cons t ts)
  obtain p a m where t: "t = (p, a, m)" by (cases t) auto
  then have "parse_rule (print_rule n t) = Some (rule_of t)" using Cons.prems parse_rule_print by simp
  then show ?case using Cons by (simp add: Let_def print_rule_trim print_rule_start)
qed

lemma print_rule_no_newline:
  assumes "plain_field p" and "plain_field a" and "plain_field m"
  shows "newline \<notin> set (print_rule n (p, a, m))"
proof -
  have "newline \<notin> set (js_show_nat n)"
    using js_show_nat_digits [of n] by (auto simp: list_all_iff js_digit_def newline_def)
  then show ?thesis using assms by (simp add: print_rule_def plain_field_def) (simp add: newline_def)
qed

lemma number_rules_no_newline:
  "\<forall>(p, a, m) \<in> set ts. plain_field p \<and> plain_field a \<and> plain_field m \<Longrightarrow>
   \<forall>l \<in> set (number_rules n ts). newline \<notin> set l"
  by (induction ts arbitrary: n) (auto simp: print_rule_no_newline)

lemma add_new_spec:
  "distinct acc \<Longrightarrow> distinct (add_new acc rs) \<and> set (add_new acc rs) = set acc \<union> pr_providerId ` set rs"
  by (induction rs arbitrary: acc) auto

definition policy_header :: string where
  "policy_header = ''Rotation priority preference by (provider, account, model)''"

lemma header_found: "rx_search header_rx (js_lower (policy_header @ s))"
proof -
  have low: "js_lower policy_header = ''rotation priority preference by (provider, account, model)''"
    unfolding policy_header_def by code_simp
  have "rx_prefix header_rx (''rotation priority preference by (provider, account, model)'' @ x)" for x
    by (simp add: header_rx_def js_starts_with_def js_space_def)
  then have "rx_prefix header_rx (js_lower (policy_header @ s))" by (simp only: js_lower_append low)
  then show ?thesis by (cases "js_lower (policy_header @ s)") simp_all
qed

text \<open>The priority text. Printing any non-empty list of plain rules under the header
  and parsing the text gives back the rules in their order, and the provider priority lists every
  provider once.\<close>

theorem policy_roundtrip:
  assumes "ts \<noteq> []" and "\<forall>(p, a, m) \<in> set ts. plain_field p \<and> plain_field a \<and> plain_field m"
  shows "\<exists>provs. parseRotationPriorityText (print_policy ts) = Some (map rule_of ts, provs) \<and>
    distinct provs \<and> set provs = fst ` set ts"
proof -
  have clean: "newline \<notin> set policy_header" by (simp add: policy_header_def newline_def)
  obtain rest where whole: "print_policy ts = policy_header @ rest"
    by (cases "number_rules 1 ts") (auto simp: print_policy_def policy_header_def)
  have lines: "js_split newline (print_policy ts) = policy_header # number_rules 1 ts"
    unfolding print_policy_def policy_header_def [symmetric]
    using clean number_rules_no_newline [OF assms(2)] by (intro js_split_join) auto
  have "parseRotationPriorityText (print_policy ts) = Some (map rule_of ts, add_new [] (map rule_of ts))"
    using header_found [of rest, folded whole] header_found [of "[]"] assms(1)
      parse_number_rules [OF assms(2), of 1]
    unfolding parseRotationPriorityText_def lines by (simp add: Let_def)
  moreover have "pr_providerId (rule_of t) = fst t" for t by (cases t) (simp add: rule_of_def)
  ultimately show ?thesis using add_new_spec [of "[]" "map rule_of ts"] by (auto simp: image_image)
qed

theorem policy_roundtrip_witness:
  "\<exists>provs. parseRotationPriorityText
      (print_policy [(''openai'', ''work'', ''gpt-5''), (''codex'', ''home'', ''o3'')]) =
    Some (map rule_of [(''openai'', ''work'', ''gpt-5''), (''codex'', ''home'', ''o3'')], provs)"
  using policy_roundtrip [of "[(''openai'', ''work'', ''gpt-5''), (''codex'', ''home'', ''o3'')]"]
  by (auto simp: plain_field_def js_space_def newline_def)

text \<open>A rule for an account whose name has no ASCII letter or digit applies to every
  account of the provider. The parser keeps no tokens for such a name, the scorer derives the empty
  list from it, and an empty list of tokens matches everything; the rule even counts as more
  specific than one without an account.\<close>

theorem account_rule_without_letters:
  assumes "js_tokens a = []" and "a \<noteq> []" and "rule = rule_of (p, a, m)"
    and "tokens_match (js_tokens p) (js_tokens (mv_providerId v))"
    and "tokens_match (js_tokens m) (js_tokens (mv_modelID v))"
    and "js_tokens p \<noteq> []" and "js_tokens m \<noteq> []" and "p \<noteq> []" and "m \<noteq> []"
  shows "rule_applies rule v \<and> rule_specificity rule = 2"
  using assms
  by (simp add: rule_of_def rule_applies_def rule_specificity_def rule_tokens_def normalizeTokens_def
      truthy_def opt_tokens_match_def tokens_match_def)

theorem account_rule_without_letters_witness:
  "rule_applies (rule_of (''openai'', map char_of [0xE5, 0xB8, 0xB3, 0xE8, 0x99, 0x9F :: nat], ''gpt''))
     (demo_vector ''openai'' ''somebody-else'' ''gpt'')"
proof -
  have "js_tokens (map char_of [0xE5, 0xB8, 0xB3, 0xE8, 0x99, 0x9F :: nat]) = []" by code_simp
  moreover have "js_tokens ''openai'' = [''openai'']" by code_simp
  moreover have "js_tokens ''gpt'' = [''gpt'']" by code_simp
  ultimately show ?thesis
    using account_rule_without_letters [OF _ _ refl, of "map char_of [0xE5, 0xB8, 0xB3, 0xE8, 0x99, 0x9F :: nat]"
        "''openai''" "demo_vector ''openai'' ''somebody-else'' ''gpt''" "''gpt''"]
    by (simp add: demo_vector_def tokens_match_def)
qed

text \<open>The configuration. A key of the caller wins over the instruction policy, which
  wins over the defaults; a policy that was found is used for ten seconds without reading the
  instructions again.\<close>

theorem config_layers:
  assumes "ca_value cache = Some p" and "now - ca_at cache \<le> 10000"
  shows "resolveRotation3DConfig json text overrides now cache =
      resolveRotation3DConfig json' text' overrides now cache \<and>
    snd (resolveRotation3DConfig json text overrides now cache) = cache \<and>
    rc_strategy (fst (resolveRotation3DConfig json text overrides now cache)) =
      (case overrides of
         Some q \<Rightarrow> or_default (pc_strategy q) (or_default (pc_strategy p) Account_first)
       | None \<Rightarrow> or_default (pc_strategy p) Account_first)"
  using assms
  by (simp add: resolveRotation3DConfig_def ROTATION_POLICY_CACHE_TTL_MS_def spread_def
      DEFAULT_ROTATION3D_CONFIG_def split: option.split)

theorem config_layers_witness:
  "rc_strategy (fst (resolveRotation3DConfig None None None 5
     \<lparr>ca_value = Some (empty_partial\<lparr>pc_strategy := Some Model_first\<rparr>), ca_at = 0\<rparr>)) = Model_first"
  using config_layers [of "\<lparr>ca_value = Some (empty_partial\<lparr>pc_strategy := Some Model_first\<rparr>), ca_at = 0\<rparr>"
      "empty_partial\<lparr>pc_strategy := Some Model_first\<rparr>" 5 None None None None None]
  by (simp add: or_default_def)

end
