(* ===== verification/Rate_Limit_Tracker.thy ===== *)
theory Rate_Limit_Tracker
  imports Rotation_State
begin

text \<open>
  \<^verbatim>\<open>account/rotation/rate-limit-tracker.ts\<close>: which account is rate limited, for which provider or
  model, until when. Each operation takes the clock reading \<open>now\<close> and returns the new world.
\<close>

section \<open>Operations\<close>

definition rlt_persistToFile :: "rotation_world \<Rightarrow> rotation_world" where
  "rlt_persistToFile w =
     (let (state, fs) = readUnifiedState (w_fs w)
      in w\<lparr>w_fs := writeUnifiedState (state\<lparr>us_rateLimits := w_limits w\<rparr>) fs\<rparr>)"

definition rlt_loadFromFile :: "rotation_world \<Rightarrow> rotation_world" where
  "rlt_loadFromFile w =
     (let (state, fs) = readUnifiedState (w_fs w)
      in w\<lparr>w_limits := us_rateLimits state, w_fs := fs\<rparr>)"

definition rlt_makeKey :: "string \<Rightarrow> string \<Rightarrow> string" where
  "rlt_makeKey provider accountId =
     (if js_starts_with accountId (provider @ '':'') \<or> js_starts_with accountId (provider @ ''-'')
      then accountId else provider @ '':'' @ accountId)"

definition rlt_modelKey :: "string \<Rightarrow> string option \<Rightarrow> string" where
  "rlt_modelKey provider model = (if truthy model then provider @ '':'' @ the model else provider)"

definition rlt_markRateLimited ::
  "string \<Rightarrow> string \<Rightarrow> rate_limit_reason \<Rightarrow> rat \<Rightarrow> string option \<Rightarrow> int \<Rightarrow> rotation_world \<Rightarrow> rotation_world" where
  "rlt_markRateLimited accountId provider reason backoffMs model now w0 =
     (let w = rlt_loadFromFile w0;
          key = rlt_makeKey provider accountId;
          modelKey = rlt_modelKey provider model;
          providerLimits = or_default (jget (w_limits w) key) [];
          entry = \<lparr>rl_resetTime = of_int now + backoffMs, rl_reason = reason, rl_model = model\<rparr>
      in rlt_persistToFile
           (w\<lparr>w_limits := jset (w_limits w) key (jset providerLimits modelKey entry)\<rparr>))"

definition rlt_dailyKey :: "string \<Rightarrow> string \<Rightarrow> string option \<Rightarrow> string" where
  "rlt_dailyKey accountId provider model =
     (if truthy model then provider @ '':'' @ accountId @ '':'' @ the model
      else provider @ '':'' @ accountId)"

definition rlt_getDailyFailureCount ::
  "string \<Rightarrow> string \<Rightarrow> string option \<Rightarrow> int \<Rightarrow> rotation_world \<Rightarrow> nat \<times> rotation_world" where
  "rlt_getDailyFailureCount accountId provider model now w =
     (let (state, fs) = readUnifiedState (w_fs w);
          quotaDayStart = getQuotaDayStart now;
          key = rlt_dailyKey accountId provider model
      in (case jget (us_dailyRateLimitCounts state) key of
            None \<Rightarrow> 0
          | Some counter \<Rightarrow> if dc_lastReset counter < quotaDayStart then 0 else dc_count counter,
          w\<lparr>w_fs := fs\<rparr>))"

definition rlt_incrementDailyFailureCount ::
  "string \<Rightarrow> string \<Rightarrow> string option \<Rightarrow> int \<Rightarrow> rotation_world \<Rightarrow> nat \<times> rotation_world" where
  "rlt_incrementDailyFailureCount accountId provider model now w =
     (let (state, fs) = readUnifiedState (w_fs w);
          quotaDayStart = getQuotaDayStart now;
          key = rlt_dailyKey accountId provider model;
          fresh = \<lparr>dc_count = 1, dc_lastReset = now\<rparr>;
          counter = (case jget (us_dailyRateLimitCounts state) key of
              None \<Rightarrow> fresh
            | Some c \<Rightarrow> if dc_lastReset c < quotaDayStart then fresh
                        else \<lparr>dc_count = dc_count c + 1, dc_lastReset = now\<rparr>);
          state' = state\<lparr>us_dailyRateLimitCounts := jset (us_dailyRateLimitCounts state) key counter\<rparr>
      in (dc_count counter, w\<lparr>w_fs := writeUnifiedState state' fs\<rparr>))"

definition rlt_live :: "int \<Rightarrow> rate_limit_state \<Rightarrow> bool" where
  "rlt_live now st \<longleftrightarrow> of_int now < rl_resetTime st"

definition rlt_clearExpired :: "string \<Rightarrow> int \<Rightarrow> rotation_world \<Rightarrow> bool \<times> rotation_world" where
  "rlt_clearExpired key now w =
     (case jget (w_limits w) key of
        None \<Rightarrow> (False, w)
      | Some providerLimits \<Rightarrow>
          (let kept = filter (\<lambda>(innerKey, state). rlt_live now state) providerLimits;
               changed = (length kept < length providerLimits);
               limits = (if kept = [] then jdel (w_limits w) key else jset (w_limits w) key kept);
               changed' = (changed \<or> kept = []);
               w' = w\<lparr>w_limits := limits\<rparr>
           in (changed', if changed' then rlt_persistToFile w' else w')))"

definition rlt_isRateLimited ::
  "string \<Rightarrow> string \<Rightarrow> string option \<Rightarrow> int \<Rightarrow> rotation_world \<Rightarrow> bool \<times> rotation_world" where
  "rlt_isRateLimited accountId provider model now w0 =
     (let w1 = rlt_loadFromFile w0;
          key = rlt_makeKey provider accountId;
          w = snd (rlt_clearExpired key now w1)
      in (case jget (w_limits w) key of
            None \<Rightarrow> (False, w)
          | Some providerLimits \<Rightarrow>
              if truthy model \<and>
                 (case jget providerLimits (rlt_modelKey provider model) of
                    None \<Rightarrow> False | Some st \<Rightarrow> rlt_live now st)
              then (True, w)
              else (case jget providerLimits provider of
                      None \<Rightarrow> (False, w) | Some st \<Rightarrow> (rlt_live now st, w))))"

definition rlt_getReason ::
  "string \<Rightarrow> string \<Rightarrow> string option \<Rightarrow> int \<Rightarrow> rotation_world \<Rightarrow> rate_limit_reason option \<times> rotation_world" where
  "rlt_getReason accountId provider model now w0 =
     (let w1 = rlt_loadFromFile w0;
          key = rlt_makeKey provider accountId;
          w = snd (rlt_clearExpired key now w1);
          live_entry = (\<lambda>o'. case o' of None \<Rightarrow> None
                            | Some st \<Rightarrow> if rlt_live now st then Some (rl_reason st) else None)
      in (case jget (w_limits w) key of
            None \<Rightarrow> (None, w)
          | Some providerLimits \<Rightarrow>
              (case (if truthy model then live_entry (jget providerLimits (rlt_modelKey provider model))
                     else None) of
                 Some r \<Rightarrow> (Some r, w)
               | None \<Rightarrow> (live_entry (jget providerLimits provider), w))))"

definition rlt_getWaitTime ::
  "string \<Rightarrow> string \<Rightarrow> string option \<Rightarrow> int \<Rightarrow> rotation_world \<Rightarrow> rat \<times> rotation_world" where
  "rlt_getWaitTime accountId provider model now w0 =
     (let w1 = rlt_loadFromFile w0;
          key = rlt_makeKey provider accountId;
          w = snd (rlt_clearExpired key now w1)
      in (case jget (w_limits w) key of
            None \<Rightarrow> (0, w)
          | Some providerLimits \<Rightarrow>
              (let maxWait0 = 0;
                   maxWait1 = (if truthy model then
                       (case jget providerLimits (rlt_modelKey provider model) of
                          None \<Rightarrow> maxWait0 | Some st \<Rightarrow> max maxWait0 (rl_resetTime st - of_int now))
                     else maxWait0);
                   maxWait2 = (case jget providerLimits provider of
                          None \<Rightarrow> maxWait1 | Some st \<Rightarrow> max maxWait1 (rl_resetTime st - of_int now))
               in (max 0 maxWait2, w))))"

definition rlt_clear :: "string \<Rightarrow> string \<Rightarrow> string option \<Rightarrow> rotation_world \<Rightarrow> rotation_world" where
  "rlt_clear accountId provider model w0 =
     (let w = rlt_loadFromFile w0;
          key = rlt_makeKey provider accountId
      in (case jget (w_limits w) key of
            None \<Rightarrow> w
          | Some providerLimits \<Rightarrow>
              rlt_persistToFile
                (w\<lparr>w_limits := jset (w_limits w) key
                     (jdel providerLimits (rlt_modelKey provider model))\<rparr>)))"

definition rlt_clearAccount :: "string \<Rightarrow> string \<Rightarrow> rotation_world \<Rightarrow> rotation_world" where
  "rlt_clearAccount accountId provider w0 =
     (let w = rlt_loadFromFile w0;
          key = rlt_makeKey provider accountId
      in if jget (w_limits w) key \<noteq> None
         then rlt_persistToFile (w\<lparr>w_limits := jdel (w_limits w) key\<rparr>) else w)"

definition rlt_clearAll :: "rotation_world \<Rightarrow> rotation_world" where
  "rlt_clearAll w = rlt_persistToFile (w\<lparr>w_limits := []\<rparr>)"

section \<open>The snapshot for the dashboard\<close>

record limit_snapshot =
  ls_accountId :: string
  ls_providerId :: string
  ls_modelID :: "string option"
  ls_waitMs :: rat
  ls_reason :: rate_limit_reason

definition split_colon :: "string \<Rightarrow> (string \<times> string) option" where
  "split_colon s =
     (if CHR '':'' \<in> set s
      then Some (takeWhile (\<lambda>c. c \<noteq> CHR '':'') s, tl (dropWhile (\<lambda>c. c \<noteq> CHR '':'') s))
      else None)"

definition rlt_snapshot_entry ::
  "string \<Rightarrow> int \<Rightarrow> string \<times> rate_limit_state \<Rightarrow> limit_snapshot" where
  "rlt_snapshot_entry key now p =
     (let (innerKey, st) = p
      in \<lparr>ls_accountId = (case split_colon key of Some (_, a) \<Rightarrow> a | None \<Rightarrow> key),
          ls_providerId = (case split_colon innerKey of Some (pr, _) \<Rightarrow> pr | None \<Rightarrow> innerKey),
          ls_modelID = (case split_colon innerKey of Some (_, m) \<Rightarrow> Some m | None \<Rightarrow> rl_model st),
          ls_waitMs = rl_resetTime st - of_int now,
          ls_reason = rl_reason st\<rparr>)"

fun rlt_snapshot_loop ::
  "string list \<Rightarrow> int \<Rightarrow> rotation_world \<Rightarrow> limit_snapshot list \<times> rotation_world" where
  "rlt_snapshot_loop [] now w = ([], w)"
| "rlt_snapshot_loop (key # ks) now w =
     (let providerLimits = or_default (jget (w_limits w) key) [];
          w' = snd (rlt_clearExpired key now w);
          live = filter (\<lambda>(innerKey, st). rlt_live now st) providerLimits;
          (rest, w'') = rlt_snapshot_loop ks now w'
      in (map (rlt_snapshot_entry key now) live @ rest, w''))"

definition rlt_getSnapshot3D :: "int \<Rightarrow> rotation_world \<Rightarrow> limit_snapshot list \<times> rotation_world" where
  "rlt_getSnapshot3D now w0 =
     (let w = rlt_loadFromFile w0 in rlt_snapshot_loop (jkeys (w_limits w)) now w)"

section \<open>Reading and persisting\<close>

lemma rlt_load_simps [simp]:
  "w_limits (rlt_loadFromFile w) = us_rateLimits (stored w)"
  "w_fs (rlt_loadFromFile w) = snd (readUnifiedState (w_fs w))"
  "w_health_config (rlt_loadFromFile w) = w_health_config w"
  "w_scores (rlt_loadFromFile w) = w_scores w"
  by (simp_all add: rlt_loadFromFile_def case_prod_beta)

lemma rlt_stored_load [simp]: "stored (rlt_loadFromFile w) = stored w"
  by (simp add: read_again)

lemma rlt_persist_simps [simp]:
  "w_limits (rlt_persistToFile w) = w_limits w"
  "w_scores (rlt_persistToFile w) = w_scores w"
  "w_health_config (rlt_persistToFile w) = w_health_config w"
  by (simp_all add: rlt_persistToFile_def case_prod_beta)

lemma rlt_stored_persist:
  "fs_writable (w_fs w) \<Longrightarrow> stored (rlt_persistToFile w) = (stored w)\<lparr>us_rateLimits := w_limits w\<rparr>"
  by (simp add: rlt_persistToFile_def case_prod_beta rs.store_laws)

lemma rlt_writable_persist [simp]:
  "fs_writable (w_fs (rlt_persistToFile w)) = fs_writable (w_fs w)"
  by (simp add: rlt_persistToFile_def case_prod_beta)

definition limits_wf :: "(string, (string, rate_limit_state) jmap) jmap \<Rightarrow> bool" where
  "limits_wf l \<longleftrightarrow> distinct (jkeys l) \<and> (\<forall>p \<in> set l. distinct (jkeys (snd p)))"

lemma limits_wf_jset:
  assumes "limits_wf l" and "distinct (jkeys pl)"
  shows "limits_wf (jset l k pl)"
proof -
  have "\<forall>p \<in> set (jset l k pl). distinct (jkeys (snd p))"
    using assms unfolding limits_wf_def by (intro jset_all) simp_all
  moreover have "distinct (jkeys (jset l k pl))"
    using assms(1) unfolding limits_wf_def by (intro distinct_update) simp
  ultimately show ?thesis by (simp add: limits_wf_def)
qed

lemma limits_wf_jdel:
  assumes "limits_wf l"
  shows "limits_wf (jdel l k)"
proof -
  have "\<forall>p \<in> set (jdel l k). distinct (jkeys (snd p))"
    using assms unfolding limits_wf_def by (intro jdel_all) simp
  moreover have "distinct (jkeys (jdel l k))"
    using assms unfolding limits_wf_def by (intro distinct_delete) simp
  ultimately show ?thesis by (simp add: limits_wf_def)
qed

lemma limits_wf_inner: "limits_wf l \<Longrightarrow> jget l k = Some pl \<Longrightarrow> distinct (jkeys pl)"
  unfolding limits_wf_def by (metis map_of_SomeD snd_conv)

lemma limits_wf_empty [simp]: "limits_wf []"
  by (simp add: limits_wf_def)

lemma rlt_world_ok_load [simp]: "world_ok (rlt_loadFromFile w) = world_ok w"
  by (simp add: world_ok_def)

lemma rlt_limits_wf_load: "world_ok w \<Longrightarrow> limits_wf (w_limits (rlt_loadFromFile w))"
  by (simp add: world_ok_def fs_wf_def state_wf_def limits_wf_def)

lemma rlt_world_ok_persist [inv_intros]:
  assumes "world_ok w" and "limits_wf (w_limits w)"
  shows "world_ok (rlt_persistToFile w)"
proof -
  have "state_wf ((stored w)\<lparr>us_rateLimits := w_limits w\<rparr>)"
    using assms by (simp add: world_ok_def fs_wf_def state_wf_def limits_wf_def)
  then show ?thesis
    using assms(1) by (simp add: world_ok_def fs_wf_def rlt_stored_persist)
qed

section \<open>The abstract view: live deadlines\<close>

text \<open>
  What the tracker promises is a partial function of an account key and an inner key
  (\<open>provider\<close> or \<open>provider:model\<close>): the entry that is still live at time \<open>t\<close>.
\<close>

definition limit_at ::
  "(string, (string, rate_limit_state) jmap) jmap \<Rightarrow> string \<Rightarrow> string \<Rightarrow> rate_limit_state option" where
  "limit_at l key inner = (case jget l key of None \<Rightarrow> None | Some pl \<Rightarrow> jget pl inner)"

definition keep_live :: "int \<Rightarrow> rate_limit_state option \<Rightarrow> rate_limit_state option" where
  "keep_live t x = (case x of None \<Rightarrow> None | Some st \<Rightarrow> if rlt_live t st then Some st else None)"

definition live_limit :: "int \<Rightarrow> rotation_world \<Rightarrow> string \<Rightarrow> string \<Rightarrow> rate_limit_state option" where
  "live_limit t w key inner = keep_live t (limit_at (us_rateLimits (stored w)) key inner)"

definition synced :: "rotation_world \<Rightarrow> bool" where
  "synced w \<longleftrightarrow> w_limits w = us_rateLimits (stored w)"

lemma synced_load [simp]: "synced (rlt_loadFromFile w)"
  by (simp add: synced_def read_again)

lemma synced_persist: "fs_writable (w_fs w) \<Longrightarrow> synced (rlt_persistToFile w)"
  by (simp add: synced_def rlt_stored_persist)

lemma keep_live_mono: "t \<le> t' \<Longrightarrow> keep_live t' (keep_live t x) = keep_live t' x"
proof -
  assume "t \<le> t'"
  then have "rlt_live t' st \<Longrightarrow> rlt_live t st" for st
    unfolding rlt_live_def by (meson le_less_trans of_int_le_iff)
  then show ?thesis by (auto simp: keep_live_def split: option.split)
qed

lemma limit_at_jset:
  "limit_at (jset l key pl) k i = (if k = key then jget pl i else limit_at l k i)"
  by (simp add: limit_at_def jget_jset)

lemma limit_at_jdel: "limit_at (jdel l key) k i = (if k = key then None else limit_at l k i)"
  by (simp add: limit_at_def jget_jdel)

text \<open>Clearing expired entries keeps the live ones of that account and all of the others.\<close>

lemma clearExpired_limits:
  assumes "limits_wf (w_limits w)"
  shows "limit_at (w_limits (snd (rlt_clearExpired key now w))) k i =
     (if k = key then keep_live now (limit_at (w_limits w) k i) else limit_at (w_limits w) k i)"
proof (cases "jget (w_limits w) key")
  case None
  then show ?thesis by (simp add: rlt_clearExpired_def limit_at_def keep_live_def)
next
  case (Some pl)
  let ?kept = "filter (\<lambda>(innerKey, state). rlt_live now state) pl"
  have d: "distinct (jkeys pl)" using limits_wf_inner [OF assms Some] .
  have kept: "jget ?kept i = keep_live now (jget pl i)" for i
    using map_of_filter_snd [OF d, of "rlt_live now" i] by (simp add: keep_live_def)
  have w': "w_limits (snd (rlt_clearExpired key now w)) =
      (if ?kept = [] then jdel (w_limits w) key else jset (w_limits w) key ?kept)"
    using Some by (simp add: rlt_clearExpired_def Let_def)
  have pl: "limit_at (w_limits w) key i = jget pl i" for i using Some by (simp add: limit_at_def)
  show ?thesis
  proof (cases "?kept = []")
    case True
    then have "keep_live now (jget pl i) = None" using kept [of i] by simp
    then show ?thesis using w' True pl by (simp add: limit_at_jdel)
  next
    case False
    then show ?thesis using w' pl kept by (simp add: limit_at_jset)
  qed
qed

lemma clearExpired_w_limits:
  "jget (w_limits w) key = Some pl \<Longrightarrow>
   w_limits (snd (rlt_clearExpired key now w)) =
     (let kept = filter (\<lambda>(innerKey, state). rlt_live now state) pl
      in if kept = [] then jdel (w_limits w) key else jset (w_limits w) key kept)"
  by (simp add: rlt_clearExpired_def Let_def)

lemma clearExpired_wf:
  assumes "limits_wf (w_limits w)"
  shows "limits_wf (w_limits (snd (rlt_clearExpired key now w)))"
proof (cases "jget (w_limits w) key")
  case None
  then show ?thesis using assms by (simp add: rlt_clearExpired_def)
next
  case (Some pl)
  then have "distinct (jkeys (filter (\<lambda>(innerKey, state). rlt_live now state) pl))"
    using limits_wf_inner [OF assms] by (blast intro: distinct_keys_filter)
  then show ?thesis
    using clearExpired_w_limits [OF Some] assms limits_wf_jset limits_wf_jdel
    by (simp add: Let_def)
qed

lemma filter_all_kept: "length (filter P xs) \<ge> length xs \<Longrightarrow> filter P xs = xs"
  by (metis filter_id_conv le_antisym length_filter_le length_filter_less linorder_not_less)

lemma jset_same: "jget m k = Some v \<Longrightarrow> distinct (jkeys m) \<Longrightarrow> jset m k v = m"
proof (induction m)
  case Nil
  then show ?case by simp
next
  case (Cons p m)
  then show ?case by (cases p) (auto split: if_splits)
qed

lemma clearExpired_synced:
  assumes "world_ok w" and "synced w" and wf: "limits_wf (w_limits w)"
  shows "synced (snd (rlt_clearExpired key now w)) \<and> world_ok (snd (rlt_clearExpired key now w))"
proof (cases "jget (w_limits w) key")
  case None
  then show ?thesis using assms by (simp add: rlt_clearExpired_def)
next
  case (Some pl)
  let ?kept = "filter (\<lambda>(innerKey, state). rlt_live now state) pl"
  let ?l = "if ?kept = [] then jdel (w_limits w) key else jset (w_limits w) key ?kept"
  let ?w' = "w\<lparr>w_limits := ?l\<rparr>"
  show ?thesis
  proof (cases "length ?kept < length pl \<or> ?kept = []")
    case True
    then have eq: "snd (rlt_clearExpired key now w) = rlt_persistToFile ?w'"
      using Some by (simp add: rlt_clearExpired_def Let_def)
    have "limits_wf ?l"
      using clearExpired_wf [OF wf, of key now] clearExpired_w_limits [OF Some, of now]
      by (simp add: Let_def)
    then have "world_ok (rlt_persistToFile ?w')"
      using assms(1) by (intro rlt_world_ok_persist) (auto simp: world_ok_def)
    moreover have "synced (rlt_persistToFile ?w')"
      using assms(1) by (intro synced_persist) (simp add: world_ok_def)
    ultimately show ?thesis using eq by simp
  next
    case False
    then have "?kept = pl" using filter_all_kept by (metis (no_types, lifting) not_le)
    moreover have "jset (w_limits w) key pl = w_limits w"
      using Some wf by (intro jset_same) (auto simp: limits_wf_def)
    ultimately have "snd (rlt_clearExpired key now w) = w"
      using Some False by (simp add: rlt_clearExpired_def Let_def)
    then show ?thesis using assms by simp
  qed
qed

text \<open>The world every query works on: loaded, with the account's expired entries removed.\<close>

definition rlt_refreshed :: "string \<Rightarrow> int \<Rightarrow> rotation_world \<Rightarrow> rotation_world" where
  "rlt_refreshed key now w = snd (rlt_clearExpired key now (rlt_loadFromFile w))"

lemma refreshed_ok:
  assumes "world_ok w"
  shows "world_ok (rlt_refreshed key now w)" "synced (rlt_refreshed key now w)"
  using clearExpired_synced [of "rlt_loadFromFile w" key now] assms rlt_limits_wf_load
  by (simp_all add: rlt_refreshed_def)

lemma refreshed_limits:
  assumes "world_ok w"
  shows "limit_at (w_limits (rlt_refreshed key now w)) key i = live_limit now w key i"
  using clearExpired_limits [OF rlt_limits_wf_load [OF assms], of key now key i]
  by (simp add: rlt_refreshed_def live_limit_def)

lemma refreshed_invisible:
  assumes "world_ok w" and "now \<le> t"
  shows "live_limit t (rlt_refreshed key now w) k i = live_limit t w k i"
proof -
  have "us_rateLimits (stored (rlt_refreshed key now w)) = w_limits (rlt_refreshed key now w)"
    using refreshed_ok(2) [OF assms(1)] by (simp add: synced_def)
  then show ?thesis
    using clearExpired_limits [OF rlt_limits_wf_load [OF assms(1)], of key now k i]
      keep_live_mono [OF assms(2)]
    by (auto simp: live_limit_def rlt_refreshed_def)
qed

section \<open>Queries against the abstract view\<close>

definition blocking ::
  "string \<Rightarrow> string \<Rightarrow> string option \<Rightarrow> int \<Rightarrow> rotation_world \<Rightarrow> rate_limit_state option" where
  "blocking accountId provider model now w =
     (let key = rlt_makeKey provider accountId
      in (case (if truthy model then live_limit now w key (rlt_modelKey provider model) else None) of
            Some st \<Rightarrow> Some st
          | None \<Rightarrow> live_limit now w key provider))"

lemma keep_live_dest: "keep_live t x = Some st \<Longrightarrow> x = Some st \<and> rlt_live t st"
  by (auto simp: keep_live_def split: option.splits if_splits)

lemma live_limit_live: "live_limit t w k i = Some st \<Longrightarrow> rlt_live t st"
  using keep_live_dest by (auto simp: live_limit_def)

lemma isRateLimited_blocking:
  assumes "world_ok w"
  shows "rlt_isRateLimited a p m now w = (blocking a p m now w \<noteq> None, rlt_refreshed (rlt_makeKey p a) now w)"
proof -
  let ?key = "rlt_makeKey p a" and ?w = "rlt_refreshed (rlt_makeKey p a) now w"
  have lim: "limit_at (w_limits ?w) ?key i = live_limit now w ?key i" for i
    using refreshed_limits [OF assms] .
  show ?thesis
  proof (cases "jget (w_limits ?w) ?key")
    case None
    then have "live_limit now w ?key i = None" for i using lim [of i] by (simp add: limit_at_def)
    with None show ?thesis
      by (simp add: rlt_isRateLimited_def rlt_refreshed_def Let_def blocking_def)
  next
    case (Some pl)
    then have pl: "jget pl i = live_limit now w ?key i" for i
      using lim [of i] by (simp add: limit_at_def)
    show ?thesis
      using Some live_limit_live
      unfolding rlt_isRateLimited_def rlt_refreshed_def Let_def blocking_def
      by (auto simp: pl rlt_refreshed_def split: option.splits)
  qed
qed

lemma getReason_blocking:
  assumes "world_ok w"
  shows "rlt_getReason a p m now w =
     (map_option rl_reason (blocking a p m now w), rlt_refreshed (rlt_makeKey p a) now w)"
proof -
  let ?key = "rlt_makeKey p a" and ?w = "rlt_refreshed (rlt_makeKey p a) now w"
  have lim: "limit_at (w_limits ?w) ?key i = live_limit now w ?key i" for i
    using refreshed_limits [OF assms] .
  show ?thesis
  proof (cases "jget (w_limits ?w) ?key")
    case None
    then have "live_limit now w ?key i = None" for i using lim [of i] by (simp add: limit_at_def)
    with None show ?thesis
      by (simp add: rlt_getReason_def rlt_refreshed_def Let_def blocking_def)
  next
    case (Some pl)
    then have pl: "jget pl i = live_limit now w ?key i" for i
      using lim [of i] by (simp add: limit_at_def)
    show ?thesis
      using Some live_limit_live
      unfolding rlt_getReason_def rlt_refreshed_def Let_def blocking_def
      by (auto simp: pl rlt_refreshed_def split: option.splits)
  qed
qed

definition wait_of :: "int \<Rightarrow> rate_limit_state option \<Rightarrow> rat" where
  "wait_of now x = (case x of None \<Rightarrow> 0 | Some st \<Rightarrow> rl_resetTime st - of_int now)"

lemma getWaitTime_live:
  assumes "world_ok w"
  shows "fst (rlt_getWaitTime a p m now w) =
     max (if truthy m then wait_of now (live_limit now w (rlt_makeKey p a) (rlt_modelKey p m)) else 0)
         (wait_of now (live_limit now w (rlt_makeKey p a) p))"
proof -
  let ?key = "rlt_makeKey p a" and ?w = "rlt_refreshed (rlt_makeKey p a) now w"
  have lim: "limit_at (w_limits ?w) ?key i = live_limit now w ?key i" for i
    using refreshed_limits [OF assms] .
  have pos: "0 \<le> wait_of now (live_limit now w k i)" for k i
    using live_limit_live [of now w k i]
    by (auto simp: wait_of_def rlt_live_def split: option.split)
  show ?thesis
  proof (cases "jget (w_limits ?w) ?key")
    case None
    then have "live_limit now w ?key i = None" for i using lim [of i] by (simp add: limit_at_def)
    with None show ?thesis
      by (simp add: rlt_getWaitTime_def rlt_refreshed_def Let_def wait_of_def)
  next
    case (Some pl)
    then have pl: "jget pl i = live_limit now w ?key i" for i
      using lim [of i] by (simp add: limit_at_def)
    show ?thesis
      using Some pos [of ?key p] pos [of ?key "rlt_modelKey p m"]
      unfolding rlt_getWaitTime_def rlt_refreshed_def Let_def
      by (auto simp: pl rlt_refreshed_def wait_of_def max_def split: option.splits)
  qed
qed

section \<open>Updates against the abstract view\<close>

lemma markRateLimited_live:
  assumes "world_ok w"
  shows "live_limit t (rlt_markRateLimited a p r b m now w) k i =
     (if k = rlt_makeKey p a \<and> i = rlt_modelKey p m
      then keep_live t (Some \<lparr>rl_resetTime = of_int now + b, rl_reason = r, rl_model = m\<rparr>)
      else live_limit t w k i)"
proof -
  have "fs_writable (snd (readUnifiedState (w_fs w)))" using assms by (simp add: world_ok_def)
  then show ?thesis
    by (auto simp: rlt_markRateLimited_def Let_def live_limit_def rlt_stored_persist limit_at_jset
        jget_jset limit_at_def or_default_def keep_live_def split: option.splits)
qed

lemma markRateLimited_ok [inv_intros]:
  assumes "world_ok w"
  shows "world_ok (rlt_markRateLimited a p r b m now w)"
proof -
  have wf: "limits_wf (w_limits (rlt_loadFromFile w))" using rlt_limits_wf_load [OF assms] .
  have "distinct (jkeys (or_default (jget (w_limits (rlt_loadFromFile w)) (rlt_makeKey p a)) []))"
    using limits_wf_inner [OF wf] by (auto simp: or_default_def split: option.split)
  then have "limits_wf (jset (w_limits (rlt_loadFromFile w)) (rlt_makeKey p a)
     (jset (or_default (jget (w_limits (rlt_loadFromFile w)) (rlt_makeKey p a)) []) mk e))" for mk e
    using wf by (intro limits_wf_jset jm.distinct_put)
  then show ?thesis
    using assms unfolding rlt_markRateLimited_def Let_def
    by (intro rlt_world_ok_persist) (simp_all add: world_ok_def)
qed

lemma live_limit_absent:
  "jget (us_rateLimits (stored w)) k = None \<Longrightarrow> live_limit t w k i = None"
  by (simp add: live_limit_def limit_at_def keep_live_def)

lemma live_limit_load [simp]: "live_limit t (rlt_loadFromFile w) k i = live_limit t w k i"
  by (simp add: live_limit_def read_again)

lemma live_limit_persist:
  "fs_writable (w_fs w) \<Longrightarrow>
   live_limit t (rlt_persistToFile w) k i = keep_live t (limit_at (w_limits w) k i)"
  by (simp add: live_limit_def rlt_stored_persist)

lemma keep_live_None [simp]: "keep_live t None = None"
  by (simp add: keep_live_def)

lemma clear_live:
  assumes "world_ok w"
  shows "live_limit t (rlt_clear a p m w) k i =
     (if k = rlt_makeKey p a \<and> i = rlt_modelKey p m then None else live_limit t w k i)"
proof (cases "jget (us_rateLimits (stored w)) (rlt_makeKey p a)")
  case None
  then show ?thesis by (simp add: rlt_clear_def Let_def live_limit_absent)
next
  case (Some pl)
  let ?w = "(rlt_loadFromFile w)\<lparr>w_limits := jset (us_rateLimits (stored w)) (rlt_makeKey p a)
       (jdel pl (rlt_modelKey p m))\<rparr>"
  have "rlt_clear a p m w = rlt_persistToFile ?w" using Some by (simp add: rlt_clear_def Let_def)
  moreover have "fs_writable (w_fs ?w)" using assms by (simp add: world_ok_def)
  moreover have "limit_at (us_rateLimits (stored w)) (rlt_makeKey p a) i = jget pl i"
    using Some by (simp add: limit_at_def)
  ultimately show ?thesis
    using live_limit_persist [of ?w t k i] by (simp add: limit_at_jset jget_jdel live_limit_def)
qed

lemma clearAccount_live:
  assumes "world_ok w"
  shows "live_limit t (rlt_clearAccount a p w) k i =
     (if k = rlt_makeKey p a then None else live_limit t w k i)"
proof (cases "jget (us_rateLimits (stored w)) (rlt_makeKey p a)")
  case None
  then show ?thesis by (simp add: rlt_clearAccount_def Let_def live_limit_absent)
next
  case (Some pl)
  let ?w = "(rlt_loadFromFile w)\<lparr>w_limits := jdel (us_rateLimits (stored w)) (rlt_makeKey p a)\<rparr>"
  have "rlt_clearAccount a p w = rlt_persistToFile ?w"
    using Some by (simp add: rlt_clearAccount_def Let_def)
  moreover have "fs_writable (w_fs ?w)" using assms by (simp add: world_ok_def)
  ultimately show ?thesis
    using live_limit_persist [of ?w t k i] by (simp add: limit_at_jdel live_limit_def)
qed

lemma clearAll_live: "world_ok w \<Longrightarrow> live_limit t (rlt_clearAll w) k i = None"
  by (simp add: rlt_clearAll_def live_limit_def rlt_stored_persist limit_at_def keep_live_def
      world_ok_def)

lemmas tracker_refines = markRateLimited_live clear_live clearAccount_live clearAll_live

section \<open>Properties\<close>



text \<open>The three queries agree. An account is rate limited exactly when its wait
  time is positive, and exactly when it has a reason.\<close>

theorem queries_agree:
  assumes "world_ok w"
  shows "(fst (rlt_isRateLimited a p m now w) \<longleftrightarrow> 0 < fst (rlt_getWaitTime a p m now w)) \<and>
    (fst (rlt_isRateLimited a p m now w) \<longleftrightarrow> fst (rlt_getReason a p m now w) \<noteq> None)"
proof (intro conjI)
  have pos: "0 < wait_of now x \<longleftrightarrow> x \<noteq> None" if "\<forall>st. x = Some st \<longrightarrow> rlt_live now st" for x
    using that by (auto simp: wait_of_def rlt_live_def split: option.split)
  have live: "\<forall>st. live_limit now w k i = Some st \<longrightarrow> rlt_live now st" for k i
    using live_limit_live by blast
  show "fst (rlt_isRateLimited a p m now w) \<longleftrightarrow> 0 < fst (rlt_getWaitTime a p m now w)"
    by (auto simp: isRateLimited_blocking [OF assms] getWaitTime_live [OF assms] blocking_def Let_def
        less_max_iff_disj pos [OF live] split: option.split)
  show "fst (rlt_isRateLimited a p m now w) \<longleftrightarrow> fst (rlt_getReason a p m now w) \<noteq> None"
    by (simp add: isRateLimited_blocking [OF assms] getReason_blocking [OF assms])
qed

theorem queries_agree_witness:
  "fst (rlt_isRateLimited ''a'' ''openai'' None 3 fresh_world) \<longleftrightarrow>
   0 < fst (rlt_getWaitTime ''a'' ''openai'' None 3 fresh_world)"
  using queries_agree [OF fresh_world_ok] by blast

text \<open>A provider-wide limit blocks every model of the account until its deadline, and
  from the deadline on it no longer blocks the provider-wide query.\<close>

theorem provider_limit_blocks_every_model:
  assumes "world_ok w"
  shows "(t < now + b \<longrightarrow>
      fst (rlt_isRateLimited a p m t (rlt_markRateLimited a p r (of_int b) None now w))) \<and>
    (t \<ge> now + b \<longrightarrow>
      fst (rlt_isRateLimited a p None t (rlt_markRateLimited a p r (of_int b) None now w)) = False)"
proof -
  have ok: "world_ok (rlt_markRateLimited a p r (of_int b) None now w)"
    using assms by (rule markRateLimited_ok)
  have key: "rlt_modelKey p None = p" by (simp add: rlt_modelKey_def truthy_def)
  have live: "live_limit t (rlt_markRateLimited a p r (of_int b) None now w) (rlt_makeKey p a) p =
      keep_live t (Some \<lparr>rl_resetTime = of_int (now + b), rl_reason = r, rl_model = None\<rparr>)"
    using markRateLimited_live [OF assms] key by simp
  show ?thesis
    unfolding isRateLimited_blocking [OF ok] blocking_def Let_def live
    by (auto simp: keep_live_def rlt_live_def truthy_def simp del: of_int_add split: option.split)
qed

theorem provider_limit_blocks_every_model_witness:
  "fst (rlt_isRateLimited ''a'' ''openai'' (Some ''gpt'') 7
     (rlt_markRateLimited ''a'' ''openai'' UNKNOWN (of_int 10) None 5 fresh_world))"
  using provider_limit_blocks_every_model [OF fresh_world_ok, of 7 5 10] by simp

text \<open> (error path): when the state file cannot be written, marking an account is lost. The next
  query reloads the file, so it answers as if the account had never been marked.\<close>

theorem unwritable_mark_is_lost:
  assumes "\<not> fs_writable (w_fs w)"
  shows "rlt_isRateLimited a' p' m' t (rlt_markRateLimited a p r b m now w) =
    rlt_isRateLimited a' p' m' t w"
proof -
  have "rlt_loadFromFile (rlt_markRateLimited a p r b m now w) = rlt_loadFromFile w"
    using assms read_unwritable [OF assms]
    by (simp add: rlt_markRateLimited_def rlt_loadFromFile_def rlt_persistToFile_def Let_def
        writeUnifiedState_def case_prod_beta)
  then show ?thesis by (simp add: rlt_isRateLimited_def)
qed

theorem unwritable_mark_is_lost_witness:
  "rlt_isRateLimited ''a'' ''openai'' None 6
     (rlt_markRateLimited ''a'' ''openai'' UNKNOWN 10 None 5
        (fresh_world\<lparr>w_fs := fresh_fs\<lparr>fs_writable := False\<rparr>\<rparr>)) =
   rlt_isRateLimited ''a'' ''openai'' None 6 (fresh_world\<lparr>w_fs := fresh_fs\<lparr>fs_writable := False\<rparr>\<rparr>)"
  by (rule unwritable_mark_is_lost) simp

text \<open>The daily failure counter counts the failures of the current quota day: an
  increment adds one to what a query at the same moment returns, the new value is what any query
  of the same quota day sees, and from the next day's reset (08:00 UTC) on it is 0.\<close>

theorem daily_counter_counts_quota_day:
  assumes "fs_writable (w_fs w)" and "now \<le> t"
  shows "fst (rlt_incrementDailyFailureCount a p m now w) =
      fst (rlt_getDailyFailureCount a p m now w) + 1 \<and>
    fst (rlt_getDailyFailureCount a p m t (snd (rlt_incrementDailyFailureCount a p m now w))) =
      (if t < getNextQuotaReset now then fst (rlt_getDailyFailureCount a p m now w) + 1 else 0)"
proof -
  have day: "now < getQuotaDayStart t \<longleftrightarrow> \<not> t < getNextQuotaReset now"
  proof
    assume less: "now < getQuotaDayStart t"
    show "\<not> t < getNextQuotaReset now"
    proof
      assume "t < getNextQuotaReset now"
      then have "getQuotaDayStart t = getQuotaDayStart now"
        using quota_day_bounds(1) [of now] quota_day_length [of now] quota_day_hour [of now] assms(2)
        by (intro quota_day_unique) auto
      then show False using less quota_day_bounds(1) [of now] by simp
    qed
  next
    assume "\<not> t < getNextQuotaReset now"
    then show "now < getQuotaDayStart t"
      using quota_day_bounds [of t] quota_day_length [of t] quota_day_length [of now]
        quota_day_bounds [of now] quota_day_unique [of "getQuotaDayStart t" now]
        quota_day_hour [of t] by linarith
  qed
  show ?thesis
    using assms(1) day
    by (auto simp: rlt_incrementDailyFailureCount_def rlt_getDailyFailureCount_def Let_def
        case_prod_beta jget_jset split: option.split)
qed

theorem daily_counter_counts_quota_day_witness:
  "fst (rlt_getDailyFailureCount ''a'' ''openai'' None 6
     (snd (rlt_incrementDailyFailureCount ''a'' ''openai'' None 5 fresh_world))) = 1"
  using daily_counter_counts_quota_day [OF world_okD(1) [OF fresh_world_ok], of 5 6 "''a''" "''openai''" None]
  by (simp add: getNextQuotaReset_def setUTCHours_def addUTCDays_def rlt_getDailyFailureCount_def
      rlt_dailyKey_def truthy_def fresh_world_def initGlobalTrackers_def fresh_fs_def
      readUnifiedState_def empty_unified_state_def legacy_or_empty_def)

end
