(* ===== verification/Health_Tracker.thy ===== *)
theory Health_Tracker
  imports Rotation_State
begin

text \<open>
  \<^verbatim>\<open>account/rotation/health-tracker.ts\<close>: the health score of each account, with passive recovery
  over time. The quotient by an hour and the product with the recovery rate are exact here.
\<close>

definition ht_makeKey :: "string \<Rightarrow> string \<Rightarrow> string option \<Rightarrow> string" where
  "ht_makeKey provider accountId model =
     (if truthy model then provider @ '':'' @ accountId @ '':'' @ the model
      else if js_starts_with accountId (provider @ '':'') \<or> js_starts_with accountId (provider @ ''-'')
      then accountId else provider @ '':'' @ accountId)"

definition ht_persistToFile :: "rotation_world \<Rightarrow> rotation_world" where
  "ht_persistToFile w =
     (let (state, fs) = readUnifiedState (w_fs w)
      in w\<lparr>w_fs := writeUnifiedState (state\<lparr>us_accountHealth := w_scores w\<rparr>) fs\<rparr>)"

definition ht_loadFromFile :: "rotation_world \<Rightarrow> rotation_world" where
  "ht_loadFromFile w =
     (let (state, fs) = readUnifiedState (w_fs w)
      in w\<lparr>w_scores := us_accountHealth state, w_fs := fs\<rparr>)"

definition ht_score_of :: "health_score_config \<Rightarrow> int \<Rightarrow> health_score_state option \<Rightarrow> rat" where
  "ht_score_of cfg now st =
     (case st of
        None \<Rightarrow> hc_initial cfg
      | Some state \<Rightarrow>
          (let hoursSinceUpdate = (of_int (now - hs_lastUpdated state) :: rat) / (1000 * 60 * 60);
               recoveredPoints = \<lfloor>hoursSinceUpdate * hc_recoveryRatePerHour cfg\<rfloor>
           in min (hc_maxScore cfg) (hs_score state + of_int recoveredPoints)))"

definition ht_getScore ::
  "string \<Rightarrow> string \<Rightarrow> string option \<Rightarrow> int \<Rightarrow> rotation_world \<Rightarrow> rat \<times> rotation_world" where
  "ht_getScore accountId provider model now w0 =
     (let w = ht_loadFromFile w0;
          key = ht_makeKey provider accountId model
      in (ht_score_of (w_health_config w) now (jget (w_scores w) key), w))"

definition ht_recordSuccess ::
  "string \<Rightarrow> string \<Rightarrow> string option \<Rightarrow> int \<Rightarrow> rotation_world \<Rightarrow> rotation_world" where
  "ht_recordSuccess accountId provider model now w0 =
     (let w1 = ht_loadFromFile w0;
          key = ht_makeKey provider accountId model;
          (current, w) = ht_getScore accountId provider model now w1;
          cfg = w_health_config w;
          entry = \<lparr>hs_score = min (hc_maxScore cfg) (current + hc_successReward cfg),
                   hs_lastUpdated = now, hs_lastSuccess = now, hs_consecutiveFailures = 0\<rparr>
      in ht_persistToFile (w\<lparr>w_scores := jset (w_scores w) key entry\<rparr>))"

definition ht_penalise ::
  "rat \<Rightarrow> health_score_state option \<Rightarrow> rat \<Rightarrow> int \<Rightarrow> health_score_state" where
  "ht_penalise penalty state current now =
     \<lparr>hs_score = max 0 (current + penalty),
      hs_lastUpdated = now,
      hs_lastSuccess = (case state of None \<Rightarrow> 0 | Some s \<Rightarrow> hs_lastSuccess s),
      hs_consecutiveFailures = (case state of None \<Rightarrow> 0 | Some s \<Rightarrow> hs_consecutiveFailures s) + 1\<rparr>"

definition ht_recordRateLimit ::
  "string \<Rightarrow> string \<Rightarrow> string option \<Rightarrow> int \<Rightarrow> rotation_world \<Rightarrow> rotation_world" where
  "ht_recordRateLimit accountId provider model now w0 =
     (let w1 = ht_loadFromFile w0;
          key = ht_makeKey provider accountId model;
          state = jget (w_scores w1) key;
          (current, w) = ht_getScore accountId provider model now w1
      in ht_persistToFile (w\<lparr>w_scores :=
           jset (w_scores w) key (ht_penalise (hc_rateLimitPenalty (w_health_config w)) state current now)\<rparr>))"

definition ht_recordFailure ::
  "string \<Rightarrow> string \<Rightarrow> string option \<Rightarrow> int \<Rightarrow> rotation_world \<Rightarrow> rotation_world" where
  "ht_recordFailure accountId provider model now w0 =
     (let w1 = ht_loadFromFile w0;
          key = ht_makeKey provider accountId model;
          state = jget (w_scores w1) key;
          (current, w) = ht_getScore accountId provider model now w1
      in ht_persistToFile (w\<lparr>w_scores :=
           jset (w_scores w) key (ht_penalise (hc_failurePenalty (w_health_config w)) state current now)\<rparr>))"

definition ht_isUsable ::
  "string \<Rightarrow> string \<Rightarrow> string option \<Rightarrow> int \<Rightarrow> rotation_world \<Rightarrow> bool \<times> rotation_world" where
  "ht_isUsable accountId provider model now w =
     (let (s, w') = ht_getScore accountId provider model now w
      in (s \<ge> hc_minUsable (w_health_config w'), w'))"

definition ht_getConsecutiveFailures ::
  "string \<Rightarrow> string \<Rightarrow> string option \<Rightarrow> rotation_world \<Rightarrow> nat \<times> rotation_world" where
  "ht_getConsecutiveFailures accountId provider model w0 =
     (let w = ht_loadFromFile w0;
          key = ht_makeKey provider accountId model
      in (case jget (w_scores w) key of None \<Rightarrow> 0 | Some s \<Rightarrow> hs_consecutiveFailures s, w))"

definition ht_reset :: "string \<Rightarrow> string \<Rightarrow> string option \<Rightarrow> rotation_world \<Rightarrow> rotation_world" where
  "ht_reset accountId provider model w0 =
     (let w = ht_loadFromFile w0;
          key = ht_makeKey provider accountId model
      in ht_persistToFile (w\<lparr>w_scores := jdel (w_scores w) key\<rparr>))"

definition ht_getSnapshot :: "rotation_world \<Rightarrow> (string \<times> rat \<times> nat) list \<times> rotation_world" where
  "ht_getSnapshot w0 =
     (let w = ht_loadFromFile w0
      in (map (\<lambda>(k, s). (k, hs_score s, hs_consecutiveFailures s)) (w_scores w), w))"

section \<open>Loading and persisting\<close>

lemma ht_load_simps [simp]:
  "w_scores (ht_loadFromFile w) = us_accountHealth (stored w)"
  "w_fs (ht_loadFromFile w) = snd (readUnifiedState (w_fs w))"
  "w_health_config (ht_loadFromFile w) = w_health_config w"
  by (simp_all add: ht_loadFromFile_def case_prod_beta)

lemma ht_load_load [simp]: "ht_loadFromFile (ht_loadFromFile w) = ht_loadFromFile w"
  by (simp add: ht_loadFromFile_def case_prod_beta read_again)

lemma ht_stored_persist:
  "fs_writable (w_fs w) \<Longrightarrow> stored (ht_persistToFile w) = (stored w)\<lparr>us_accountHealth := w_scores w\<rparr>"
  by (simp add: ht_persistToFile_def case_prod_beta)

lemma ht_persist_simps [simp]:
  "w_health_config (ht_persistToFile w) = w_health_config w"
  "fs_writable (w_fs (ht_persistToFile w)) = fs_writable (w_fs w)"
  by (simp_all add: ht_persistToFile_def case_prod_beta)

section \<open>Scores stay in range\<close>

definition config_sane :: "health_score_config \<Rightarrow> bool" where
  "config_sane c \<longleftrightarrow> 0 \<le> hc_initial c \<and> hc_initial c \<le> hc_maxScore c \<and> 0 \<le> hc_successReward c \<and>
     hc_rateLimitPenalty c \<le> 0 \<and> hc_failurePenalty c \<le> 0 \<and> 0 \<le> hc_recoveryRatePerHour c"

definition score_ok :: "health_score_config \<Rightarrow> health_score_state \<Rightarrow> bool" where
  "score_ok c s \<longleftrightarrow> 0 \<le> hs_score s \<and> hs_score s \<le> hc_maxScore c"

definition scores_ok :: "rotation_world \<Rightarrow> bool" where
  "scores_ok w \<longleftrightarrow> fs_writable (w_fs w) \<and> config_sane (w_health_config w) \<and>
     (\<forall>p \<in> set (us_accountHealth (stored w)). score_ok (w_health_config w) (snd p))"

text \<open>The clock never reads before an entry's last update.\<close>

definition clock_ok :: "int \<Rightarrow> rotation_world \<Rightarrow> bool" where
  "clock_ok now w \<longleftrightarrow> (\<forall>p \<in> set (us_accountHealth (stored w)). hs_lastUpdated (snd p) \<le> now)"

lemma ht_score_of_bounds:
  assumes "config_sane c" and "\<forall>s. x = Some s \<longrightarrow> score_ok c s \<and> hs_lastUpdated s \<le> now"
  shows "0 \<le> ht_score_of c now x \<and> ht_score_of c now x \<le> hc_maxScore c"
proof (cases x)
  case None
  then show ?thesis using assms(1) by (simp add: ht_score_of_def config_sane_def)
next
  case (Some s)
  then have s: "score_ok c s" "hs_lastUpdated s \<le> now" using assms(2) by auto
  have "0 \<le> (of_int (now - hs_lastUpdated s) :: rat) / (1000 * 60 * 60) * hc_recoveryRatePerHour c"
    using s(2) assms(1) by (simp add: config_sane_def)
  then have "0 \<le> \<lfloor>(of_int (now - hs_lastUpdated s) :: rat) / (1000 * 60 * 60) * hc_recoveryRatePerHour c\<rfloor>"
    by simp
  then have "(0 :: rat) \<le>
      of_int \<lfloor>(of_int (now - hs_lastUpdated s) :: rat) / (1000 * 60 * 60) * hc_recoveryRatePerHour c\<rfloor>"
    using of_int_0_le_iff by blast
  then show ?thesis using Some s(1) unfolding ht_score_of_def score_ok_def Let_def by auto
qed

datatype health_op =
    Record_success string string "string option"
  | Record_rate_limit string string "string option"
  | Record_failure string string "string option"
  | Reset_health string string "string option"

fun health_step :: "int \<Rightarrow> health_op \<Rightarrow> rotation_world \<Rightarrow> rotation_world" where
  "health_step now (Record_success a p m) w = ht_recordSuccess a p m now w"
| "health_step now (Record_rate_limit a p m) w = ht_recordRateLimit a p m now w"
| "health_step now (Record_failure a p m) w = ht_recordFailure a p m now w"
| "health_step now (Reset_health a p m) w = ht_reset a p m w"

text \<open>Operations at successive clock readings.\<close>

fun health_run :: "(int \<times> health_op) list \<Rightarrow> rotation_world \<Rightarrow> rotation_world" where
  "health_run [] w = w"
| "health_run ((now, x) # xs) w = health_run xs (health_step now x w)"

lemma scores_put:
  assumes "scores_ok w" and "clock_ok now w" and "score_ok (w_health_config w) e"
    and "hs_lastUpdated e = now" and "w_scores w = us_accountHealth (stored w)"
  shows "scores_ok (ht_persistToFile (w\<lparr>w_scores := jset (w_scores w) k e\<rparr>)) \<and>
    clock_ok now (ht_persistToFile (w\<lparr>w_scores := jset (w_scores w) k e\<rparr>))"
  using assms jset_all [of "w_scores w" "score_ok (w_health_config w)" e k]
    jset_all [of "w_scores w" "\<lambda>s. hs_lastUpdated s \<le> now" e k]
  by (simp add: scores_ok_def clock_ok_def ht_stored_persist)

lemma loaded_ok:
  assumes "scores_ok w" and "clock_ok now w"
  shows "scores_ok (ht_loadFromFile w)" "clock_ok now (ht_loadFromFile w)"
  using assms by (simp_all add: scores_ok_def clock_ok_def read_again)

lemma stored_score:
  assumes "scores_ok w" and "clock_ok now w"
  shows "\<forall>s. jget (us_accountHealth (stored w)) k = Some s \<longrightarrow>
    score_ok (w_health_config w) s \<and> hs_lastUpdated s \<le> now"
  using assms unfolding scores_ok_def clock_ok_def by (auto dest!: map_of_SomeD)

lemma current_bounds:
  assumes "scores_ok w" and "clock_ok now w"
  shows "0 \<le> ht_score_of (w_health_config w) now (jget (us_accountHealth (stored w)) k) \<and>
    ht_score_of (w_health_config w) now (jget (us_accountHealth (stored w)) k)
      \<le> hc_maxScore (w_health_config w)"
  using assms stored_score [OF assms] by (intro ht_score_of_bounds) (simp_all add: scores_ok_def)

lemma health_step_ok [inv_intros]:
  assumes "scores_ok w" and "clock_ok now w"
  shows "scores_ok (health_step now x w) \<and> clock_ok now (health_step now x w)"
proof -
  let ?c = "w_health_config w" and ?w = "ht_loadFromFile w"
  note ok = loaded_ok [OF assms]
  have sane: "config_sane ?c" using assms(1) by (simp add: scores_ok_def)
  have put: "score_ok ?c e \<Longrightarrow> hs_lastUpdated e = now \<Longrightarrow>
      scores_ok (ht_persistToFile (?w\<lparr>w_scores := jset (w_scores ?w) k e\<rparr>)) \<and>
      clock_ok now (ht_persistToFile (?w\<lparr>w_scores := jset (w_scores ?w) k e\<rparr>))" for k e
    using scores_put [OF ok] by (simp add: read_again)
  have pen: "score_ok ?c (ht_penalise q st (ht_score_of ?c now (jget (us_accountHealth (stored w)) k)) now)"
    if "q \<le> 0" for q st k
    using current_bounds [OF assms, of k] that sane
    by (auto simp: score_ok_def ht_penalise_def config_sane_def)
  show ?thesis
  proof (cases x)
    case (Record_success a p m)
    let ?k = "ht_makeKey p a m"
    have "score_ok ?c \<lparr>hs_score = min (hc_maxScore ?c)
        (ht_score_of ?c now (jget (us_accountHealth (stored w)) ?k) + hc_successReward ?c),
        hs_lastUpdated = now, hs_lastSuccess = now, hs_consecutiveFailures = 0\<rparr>"
      using current_bounds [OF assms, of ?k] sane by (auto simp: score_ok_def config_sane_def)
    from put [OF this, of ?k] Record_success show ?thesis
      by (simp add: ht_recordSuccess_def ht_getScore_def Let_def)
  next
    case (Record_rate_limit a p m)
    then show ?thesis
      using put [OF pen] sane
      by (simp add: ht_recordRateLimit_def ht_getScore_def Let_def config_sane_def ht_penalise_def)
  next
    case (Record_failure a p m)
    then show ?thesis
      using put [OF pen] sane
      by (simp add: ht_recordFailure_def ht_getScore_def Let_def config_sane_def ht_penalise_def)
  next
    case (Reset_health a p m)
    have "scores_ok (ht_persistToFile (?w\<lparr>w_scores := jdel (w_scores ?w) k\<rparr>)) \<and>
        clock_ok now (ht_persistToFile (?w\<lparr>w_scores := jdel (w_scores ?w) k\<rparr>))" for k
      using ok jdel_all [of "w_scores ?w" "score_ok ?c" k]
        jdel_all [of "w_scores ?w" "\<lambda>s. hs_lastUpdated s \<le> now" k]
      by (simp add: scores_ok_def clock_ok_def ht_stored_persist read_again)
    with Reset_health show ?thesis by (simp add: ht_reset_def Let_def)
  qed
qed

lemma clock_ok_later: "clock_ok now w \<Longrightarrow> now \<le> t \<Longrightarrow> clock_ok t w"
  unfolding clock_ok_def by fastforce

lemma health_run_ok:
  assumes "scores_ok w" and "clock_ok t0 w" and "sorted (t0 # map fst xs)"
  shows "scores_ok (health_run xs w) \<and> clock_ok (last (t0 # map fst xs)) (health_run xs w)"
  using assms
proof (induction xs arbitrary: w t0)
  case Nil
  then show ?case by simp
next
  case (Cons p xs)
  obtain now x where p: "p = (now, x)" by (cases p)
  have "clock_ok now w" using Cons.prems p by (auto intro: clock_ok_later)
  then have "scores_ok (health_step now x w) \<and> clock_ok now (health_step now x w)"
    using Cons.prems(1) by (intro health_step_ok)
  then show ?case using Cons.IH [of "health_step now x w" now] Cons.prems(3) p by auto
qed

text \<open>Whatever operations run, at whatever non-decreasing clock readings, every
  score the tracker reports is between 0 and the configured maximum.\<close>

theorem score_in_range:
  assumes "scores_ok w" and "clock_ok t0 w" and "sorted (t0 # map fst xs)"
    and "last (t0 # map fst xs) \<le> t"
  shows "0 \<le> fst (ht_getScore a p m t (health_run xs w)) \<and>
    fst (ht_getScore a p m t (health_run xs w)) \<le> hc_maxScore (w_health_config (health_run xs w))"
proof -
  have "scores_ok (health_run xs w)" and "clock_ok t (health_run xs w)"
    using health_run_ok [OF assms(1-3)] assms(4) clock_ok_later by blast+
  from current_bounds [OF this] show ?thesis by (simp add: ht_getScore_def Let_def)
qed

lemma fresh_world_scores: "scores_ok fresh_world" "clock_ok 0 fresh_world"
  by (simp_all add: scores_ok_def clock_ok_def fresh_world_def initGlobalTrackers_def
      readUnifiedState_def fresh_fs_def legacy_or_empty_def empty_unified_state_def merge_config_def
      config_sane_def DEFAULT_HEALTH_SCORE_CONFIG_def)

theorem score_in_range_witness:
  "0 \<le> fst (ht_getScore ''a'' ''openai'' None 9
     (health_run [(4, Record_failure ''a'' ''openai'' None), (7, Record_success ''b'' ''openai'' None)]
        fresh_world))"
  using score_in_range [OF fresh_world_scores, of
      "[(4, Record_failure ''a'' ''openai'' None), (7, Record_success ''b'' ''openai'' None)]" 9
      "''a''" "''openai''" None]
  by simp

text \<open>With the default configuration, an account without history is still usable
  after one failure (score 50) and unusable after a second one within half an hour (score 30, two
  consecutive failures), and a success after that clears the failure count.\<close>

theorem failures_make_unusable:
  assumes "fs_writable (w_fs w)" and "w_health_config w = DEFAULT_HEALTH_SCORE_CONFIG"
    and "jget (us_accountHealth (stored w)) (ht_makeKey p a m) = None"
    and "t1 \<le> t2" and "t2 < t1 + 1800000"
  shows "let w1 = ht_recordFailure a p m t1 w; w2 = ht_recordFailure a p m t2 w1 in
    fst (ht_getScore a p m t1 w1) = 50 \<and> fst (ht_isUsable a p m t1 w1) \<and>
    fst (ht_getScore a p m t2 w2) = 30 \<and> \<not> fst (ht_isUsable a p m t2 w2) \<and>
    fst (ht_getConsecutiveFailures a p m w2) = 2 \<and>
    fst (ht_getConsecutiveFailures a p m (ht_recordSuccess a p m t2 w2)) = 0"
proof -
  have fl: "\<lfloor>(of_int (t2 - t1) :: rat) / (1000 * 60 * 60) * 2\<rfloor> = 0"
  proof -
    have lt: "(of_int (t2 - t1) :: rat) < 1800000"
      using assms(5) by (metis add_diff_cancel_left' diff_less_eq of_int_less_iff of_int_numeral add.commute)
    have ge: "(0 :: rat) \<le> of_int (t2 - t1)" using assms(4) by simp
    show ?thesis using lt ge by (simp add: floor_eq_iff)
  qed
  show ?thesis
    using assms(1-3) fl
    by (simp add: Let_def ht_recordFailure_def ht_recordSuccess_def ht_getScore_def ht_isUsable_def
        ht_getConsecutiveFailures_def ht_stored_persist read_again jget_jset ht_penalise_def
        ht_score_of_def DEFAULT_HEALTH_SCORE_CONFIG_def)
qed

theorem failures_make_unusable_witness:
  "\<not> fst (ht_isUsable ''a'' ''openai'' None 6
     (ht_recordFailure ''a'' ''openai'' None 6 (ht_recordFailure ''a'' ''openai'' None 5 fresh_world)))"
proof -
  have "w_health_config fresh_world = DEFAULT_HEALTH_SCORE_CONFIG"
    by (simp add: fresh_world_def initGlobalTrackers_def merge_config_def case_prod_beta)
  moreover have "jget (us_accountHealth (stored fresh_world)) (ht_makeKey ''openai'' ''a'' None) = None"
    by (simp add: fresh_world_def initGlobalTrackers_def readUnifiedState_def fresh_fs_def
        legacy_or_empty_def empty_unified_state_def)
  ultimately show ?thesis
    using failures_make_unusable [OF world_okD(1) [OF fresh_world_ok], of "''openai''" "''a''" None 5 6]
    by (simp add: Let_def)
qed

end
