(* ===== verification/Rotation3D_Candidates.thy ===== *)
theory Rotation3D_Candidates
  imports Rotation_Policy Rate_Limit_Tracker Health_Tracker
begin

text \<open>
  \<^verbatim>\<open>account/rotation3d.ts\<close>, second half: the candidates for a fallback and the top-level search. The
  provider registry, the accounts, the quota cache and \<^verbatim>\<open>model.json\<close> are the fields of an environment;
  one call sees one environment and one clock reading. The five steps only choose vectors, so they
  are lists of plans, and \<open>enrich\<close> runs over the plans in order, threading the trackers' world
  through its three queries.
\<close>

section \<open>The environment\<close>

record model_info =
  mi_id :: string
  mi_inputModalities :: "string list"
  mi_reasoning :: bool
  mi_context :: "rat option"
  mi_deprecated :: bool
  mi_costInput :: rat
  mi_costOutput :: rat

record provider_info =
  pi_models :: "(string, model_info) jmap option"

record favorite =
  fv_providerId :: string
  fv_modelID :: string
  fv_tags :: "string list option"

record model_file =
  mf_favorite :: "favorite list option"
  mf_hidden :: "(string \<times> string) list option"
  mf_hiddenProviders :: "string list option"

record rotation_env =
  en_providers :: "(string, provider_info) jmap"
  en_sortModels :: "model_info list \<Rightarrow> model_info list"
  en_quotas :: "(string, (rat \<times> rat) option) jmap"
  en_modelFile :: "model_file jfile"
  en_resolveFamily :: "string \<Rightarrow> string option"
  en_listAccounts :: "string \<Rightarrow> string list"
  en_getActive :: "string \<Rightarrow> string option"
  en_jsonBlock :: "partial_config option"
  en_textBlock :: "string option"

section \<open>Quotas and capabilities\<close>

definition WHAM_USAGE_FAMILIES :: "string list" where
  "WHAM_USAGE_FAMILIES = [''openai'', ''codex'']"

record quota_evaluation =
  qe_exhausted :: bool
  qe_hourlyRemaining :: "rat option"
  qe_weeklyRemaining :: "rat option"

definition evaluateWhamUsageQuota ::
  "string \<Rightarrow> string \<Rightarrow> (string, (rat \<times> rat) option) jmap \<Rightarrow> quota_evaluation" where
  "evaluateWhamUsageQuota providerId accountId quotas =
     (let open = \<lparr>qe_exhausted = False, qe_hourlyRemaining = None, qe_weeklyRemaining = None\<rparr>
      in if providerId \<notin> set WHAM_USAGE_FAMILIES then open
         else (case jget quotas accountId of
                 Some (Some (hourly, weekly)) \<Rightarrow>
                   \<lparr>qe_exhausted = (hourly \<le> 0 \<or> weekly \<le> 0), qe_hourlyRemaining = Some hourly,
                    qe_weeklyRemaining = Some weekly\<rparr>
               | _ \<Rightarrow> open))"

definition extractCapabilities :: "model_info option \<Rightarrow> model_capabilities option" where
  "extractCapabilities model =
     (case model of
        None \<Rightarrow> None
      | Some m \<Rightarrow>
          (let input = set (mi_inputModalities m);
               i = js_lower (mi_id m)
           in Some
             \<lparr>cap_image = (''image'' \<in> input), cap_audio = (''audio'' \<in> input),
              cap_video = (''video'' \<in> input),
              cap_reasoning = (mi_reasoning m \<or> js_includes i ''deepseek-r'' \<or> js_includes i ''o1'' \<or>
                js_includes i ''o3''),
              cap_pdf = (''pdf'' \<in> input),
              cap_coding = (js_includes i ''codex'' \<or> js_includes i ''coder'' \<or> js_includes i ''coding''),
              cap_longContext = (or_default (mi_context m) 0 \<ge> 128000)\<rparr>))"

definition apply_tag :: "string \<Rightarrow> model_capabilities \<Rightarrow> model_capabilities" where
  "apply_tag tag c =
     (if tag = ''image'' then c\<lparr>cap_image := True\<rparr>
      else if tag = ''audio'' then c\<lparr>cap_audio := True\<rparr>
      else if tag = ''video'' then c\<lparr>cap_video := True\<rparr>
      else if tag = ''pdf'' then c\<lparr>cap_pdf := True\<rparr>
      else if tag = ''reasoning'' then c\<lparr>cap_reasoning := True\<rparr>
      else if tag = ''coding'' then c\<lparr>cap_coding := True\<rparr>
      else if tag = ''longContext'' then c\<lparr>cap_longContext := True\<rparr>
      else c)"

section \<open>Favorites and hidden models\<close>

definition the_model_file :: "rotation_env \<Rightarrow> model_file" where
  "the_model_file env =
     (case en_modelFile env of
        Parsed f \<Rightarrow> f | _ \<Rightarrow> \<lparr>mf_favorite = None, mf_hidden = None, mf_hiddenProviders = None\<rparr>)"

definition model_path :: "string \<Rightarrow> string \<Rightarrow> string" where
  "model_path providerId modelID = providerId @ ''/'' @ modelID"

definition favorites :: "rotation_env \<Rightarrow> favorite list" where
  "favorites env = or_default (mf_favorite (the_model_file env)) []"

definition allowedModels :: "rotation_env \<Rightarrow> string list" where
  "allowedModels env = js_set (map (\<lambda>f. model_path (fv_providerId f) (fv_modelID f)) (favorites env))"

definition hiddenModels :: "rotation_env \<Rightarrow> string list" where
  "hiddenModels env =
     map (\<lambda>(p, m). model_path p m) (or_default (mf_hidden (the_model_file env)) [])"

definition hiddenProviders :: "rotation_env \<Rightarrow> string list" where
  "hiddenProviders env = or_default (mf_hiddenProviders (the_model_file env)) []"

definition isHidden :: "rotation_env \<Rightarrow> model_vector \<Rightarrow> bool" where
  "isHidden env v \<longleftrightarrow> mv_providerId v \<in> set (hiddenProviders env) \<or>
     model_path (mv_providerId v) (mv_modelID v) \<in> set (hiddenModels env)"

section \<open>The five steps\<close>

record plan =
  pl_vector :: model_vector
  pl_reason :: candidate_reason
  pl_tags :: "string list"

definition plan_unless_hidden ::
  "rotation_env \<Rightarrow> model_vector \<Rightarrow> candidate_reason \<Rightarrow> string list \<Rightarrow> plan list" where
  "plan_unless_hidden env v reason tags =
     (if isHidden env v then [] else [\<lparr>pl_vector = v, pl_reason = reason, pl_tags = tags\<rparr>])"

definition step1 :: "rotation_env \<Rightarrow> model_vector \<Rightarrow> plan list" where
  "step1 env current =
     (case en_resolveFamily env (mv_providerId current) of
        None \<Rightarrow> []
      | Some family \<Rightarrow>
          concat (map (\<lambda>accountId.
            if accountId = mv_accountId current then []
            else plan_unless_hidden env (current\<lparr>mv_accountId := accountId\<rparr>) Same_model_diff_account [])
            (en_listAccounts env family)))"

definition step2_vector :: "model_vector \<Rightarrow> string \<Rightarrow> model_vector option" where
  "step2_vector current fav =
     (let parts = js_split (CHR ''/'') fav;
          providerId = hd parts;
          modelId = hd (tl parts)
      in if providerId \<noteq> mv_providerId current then None
         else if modelId = mv_modelID current then None
         else Some (current\<lparr>mv_modelID := modelId\<rparr>))"

definition step2 :: "rotation_env \<Rightarrow> model_vector \<Rightarrow> plan list" where
  "step2 env current =
     concat (map (\<lambda>fav.
       case step2_vector current fav of
         None \<Rightarrow> []
       | Some v \<Rightarrow> plan_unless_hidden env v Diff_model_same_account []) (allowedModels env))"

definition step3_skips :: "rotation_env \<Rightarrow> model_vector \<Rightarrow> favorite \<Rightarrow> bool" where
  "step3_skips env current fav \<longleftrightarrow>
     fv_providerId fav = [] \<or>
     fv_providerId fav \<in> set (hiddenProviders env) \<or>
     model_path (fv_providerId fav) (fv_modelID fav) \<in> set (hiddenModels env) \<or>
     (fv_providerId fav = mv_providerId current \<and> fv_modelID fav = mv_modelID current)"

definition step3 :: "rotation_env \<Rightarrow> model_vector \<Rightarrow> plan list" where
  "step3 env current =
     concat (map (\<lambda>fav.
       if step3_skips env current fav then []
       else (case en_resolveFamily env (fv_providerId fav) of
               None \<Rightarrow> []
             | Some favFamily \<Rightarrow>
                 concat (map (\<lambda>accountId.
                   plan_unless_hidden env
                     \<lparr>mv_providerId = fv_providerId fav, mv_accountId = accountId, mv_modelID = fv_modelID fav\<rparr>
                     (if fv_providerId fav = mv_providerId current then Diff_model_same_account
                      else Diff_provider)
                     (or_default (fv_tags fav) []))
                   (en_listAccounts env favFamily)))) (favorites env))"

definition CROSS_PROVIDER_MODELS_PER_PROVIDER :: nat where
  "CROSS_PROVIDER_MODELS_PER_PROVIDER = 3"

definition step3b_models :: "rotation_env \<Rightarrow> provider_info \<Rightarrow> model_info list" where
  "step3b_models env p =
     take CROSS_PROVIDER_MODELS_PER_PROVIDER
       (filter (\<lambda>m. \<not> mi_deprecated m) (en_sortModels env (map snd (or_default (pi_models p) []))))"

definition step3b_provider :: "rotation_env \<Rightarrow> model_vector \<Rightarrow> string \<Rightarrow> provider_info \<Rightarrow> plan list" where
  "step3b_provider env current providerId p =
     (if providerId = [] \<or> providerId = mv_providerId current then []
      else if providerId \<in> set (hiddenProviders env) then []
      else (case en_resolveFamily env providerId of
              None \<Rightarrow> []
            | Some family \<Rightarrow>
                (let accounts = en_listAccounts env family
                 in if accounts = [] then []
                    else concat (map (\<lambda>model. concat (map (\<lambda>accountId.
                           plan_unless_hidden env
                             \<lparr>mv_providerId = providerId, mv_accountId = accountId, mv_modelID = mi_id model\<rparr>
                             Diff_provider []) accounts)) (step3b_models env p)))))"

definition step3b :: "rotation_env \<Rightarrow> model_vector \<Rightarrow> plan list" where
  "step3b env current =
     concat (map (\<lambda>(providerId, p). step3b_provider env current providerId p) (en_providers env))"

definition opencode_account :: "rotation_env \<Rightarrow> string" where
  "opencode_account env =
     (case en_resolveFamily env ''opencode'' of
        None \<Rightarrow> ''public''
      | Some family \<Rightarrow>
          if truthy (en_getActive env family) then the (en_getActive env family) else ''public'')"

definition step4 :: "rotation_env \<Rightarrow> model_vector \<Rightarrow> plan list" where
  "step4 env current =
     (case jget (en_providers env) ''opencode'' of
        None \<Rightarrow> []
      | Some p \<Rightarrow>
          concat (map (\<lambda>(modelId, model).
            if mi_costInput model > 0 \<or> mi_costOutput model > 0 then []
            else (let v = \<lparr>mv_providerId = ''opencode'', mv_accountId = opencode_account env, mv_modelID = modelId\<rparr>
                  in if isHidden env v then []
                     else if v = current then []
                     else [\<lparr>pl_vector = v, pl_reason = Fallback, pl_tags = []\<rparr>]))
            (or_default (pi_models p) [])))"

section \<open>Enriching and the search\<close>

definition enrich ::
  "rotation_env \<Rightarrow> int \<Rightarrow> plan \<Rightarrow> rotation_world \<Rightarrow> fallback_candidate \<times> rotation_world" where
  "enrich env now p w =
     (let v = pl_vector p;
          model = (case jget (en_providers env) (mv_providerId v) of
                     None \<Rightarrow> None
                   | Some pr \<Rightarrow> jget (or_default (pi_models pr) []) (mv_modelID v));
          quotaEval = evaluateWhamUsageQuota (mv_providerId v) (mv_accountId v) (en_quotas env);
          (baseWaitTime, w1) = rlt_getWaitTime (mv_accountId v) (mv_providerId v) (Some (mv_modelID v)) now w;
          (health, w2) = ht_getScore (mv_accountId v) (mv_providerId v) None now w1;
          (limited, w3) = rlt_isRateLimited (mv_accountId v) (mv_providerId v) (Some (mv_modelID v)) now w2
      in (\<lparr>fc_vector = v, fc_healthScore = health, fc_isRateLimited = (limited \<or> qe_exhausted quotaEval),
           fc_waitTimeMs = baseWaitTime, fc_priority = 0, fc_reason = pl_reason p, fc_from = None,
           fc_capabilities = map_option (fold apply_tag (pl_tags p)) (extractCapabilities model)\<rparr>, w3))"

fun enrich_all ::
  "rotation_env \<Rightarrow> int \<Rightarrow> plan list \<Rightarrow> rotation_world \<Rightarrow> fallback_candidate list \<times> rotation_world" where
  "enrich_all env now [] w = ([], w)"
| "enrich_all env now (p # ps) w =
     (let (c, w1) = enrich env now p w; (cs, w2) = enrich_all env now ps w1 in (c # cs, w2))"

definition all_plans :: "rotation_env \<Rightarrow> model_vector \<Rightarrow> plan list" where
  "all_plans env current =
     step1 env current @ step2 env current @ step3 env current @ step3b env current @ step4 env current"

definition buildFallbackCandidates ::
  "rotation_env \<Rightarrow> model_vector \<Rightarrow> int \<Rightarrow> rotation_world \<Rightarrow> fallback_candidate list \<times> rotation_world" where
  "buildFallbackCandidates env current now w =
     (let (candidates, w') = enrich_all env now (all_plans env current) w
      in (js_dedup (\<lambda>c. r3d_makeKey (fc_vector c)) [] candidates, w'))"

definition findFallback ::
  "rotation_env \<Rightarrow> partial_config option \<Rightarrow> rotation_purpose \<Rightarrow> string list option \<Rightarrow> model_vector \<Rightarrow>
   int \<Rightarrow> policy_cache \<Rightarrow> rotation_world \<Rightarrow> fallback_candidate option \<times> policy_cache \<times> rotation_world" where
  "findFallback env config purpose triedKeys current now cache w =
     (let (fullConfig, cache') =
            resolveRotation3DConfig (en_jsonBlock env) (en_textBlock env) config now cache;
          (candidates, w1) = buildFallbackCandidates env current now w;
          (best, fs) = selectBestFallback candidates current fullConfig triedKeys purpose now (w_fs w1)
      in (best, cache', w1\<lparr>w_fs := fs\<rparr>))"

definition isVectorRateLimited :: "model_vector \<Rightarrow> int \<Rightarrow> rotation_world \<Rightarrow> bool \<times> rotation_world" where
  "isVectorRateLimited v now w =
     rlt_isRateLimited (mv_accountId v) (mv_providerId v) (Some (mv_modelID v)) now w"

definition getVectorWaitTime :: "model_vector \<Rightarrow> int \<Rightarrow> rotation_world \<Rightarrow> rat \<times> rotation_world" where
  "getVectorWaitTime v now w =
     rlt_getWaitTime (mv_accountId v) (mv_providerId v) (Some (mv_modelID v)) now w"

definition getNextAvailableVector ::
  "rotation_env \<Rightarrow> partial_config option \<Rightarrow> model_vector \<Rightarrow> int \<Rightarrow> policy_cache \<Rightarrow> rotation_world \<Rightarrow>
   model_vector option \<times> policy_cache \<times> rotation_world" where
  "getNextAvailableVector env config current now cache w =
     (let (limited, w1) = isVectorRateLimited current now w
      in if \<not> limited then (Some current, cache, w1)
         else (let (fallback, cache', w2) = findFallback env config For_generic None current now cache w1
               in (map_option fc_vector fallback, cache', w2)))"

definition getRotation3DStatus ::
  "rotation_world \<Rightarrow> ((model_vector \<times> rat) list \<times> (string \<times> rat) list) \<times> rotation_world" where
  "getRotation3DStatus w =
     (let (healthSnapshot, w') = ht_getSnapshot w
      in (([], map (\<lambda>(accountId, score, failures). (accountId, score)) healthSnapshot), w'))"

section \<open>What the queries leave unchanged\<close>

definition same_limits :: "int \<Rightarrow> rotation_world \<Rightarrow> rotation_world \<Rightarrow> bool" where
  "same_limits now w w' \<longleftrightarrow> world_ok w' \<and> (\<forall>k i. live_limit now w' k i = live_limit now w k i)"

lemma same_limits_refl: "world_ok w \<Longrightarrow> same_limits now w w"
  by (simp add: same_limits_def)

lemma same_limits_trans: "same_limits now w w' \<Longrightarrow> same_limits now w' w'' \<Longrightarrow> same_limits now w w''"
  by (simp add: same_limits_def)

lemma same_limits_refreshed: "world_ok w \<Longrightarrow> same_limits now w (rlt_refreshed key now w)"
  using refreshed_ok(1) refreshed_invisible by (simp add: same_limits_def)

lemma same_limits_answer:
  assumes "world_ok w" and "same_limits now w w'"
  shows "fst (rlt_isRateLimited a p m now w') = fst (rlt_isRateLimited a p m now w)"
proof -
  have "live_limit now w' = live_limit now w" using assms(2) by (intro ext) (simp add: same_limits_def)
  then have "blocking a p m now w' = blocking a p m now w" unfolding blocking_def by (simp only:)
  then show ?thesis using assms by (simp add: same_limits_def isRateLimited_blocking)
qed

lemma getWaitTime_world: "snd (rlt_getWaitTime a p m now w) = rlt_refreshed (rlt_makeKey p a) now w"
  by (simp add: rlt_getWaitTime_def rlt_refreshed_def Let_def split: option.split)

lemma isRateLimited_world:
  "world_ok w \<Longrightarrow> snd (rlt_isRateLimited a p m now w) = rlt_refreshed (rlt_makeKey p a) now w"
  by (simp add: isRateLimited_blocking)

lemma getScore_same: "world_ok w \<Longrightarrow> same_limits now w (snd (ht_getScore a p m now w))"
  by (simp add: same_limits_def ht_getScore_def ht_loadFromFile_def case_prod_beta Let_def live_limit_def
      world_ok_def read_again)

lemma enrich_same:
  assumes "world_ok w"
  shows "same_limits now w (snd (enrich env now p w)) \<and> fc_vector (fst (enrich env now p w)) = pl_vector p \<and>
    (\<not> fc_isRateLimited (fst (enrich env now p w)) \<longrightarrow>
       \<not> fst (isVectorRateLimited (pl_vector p) now w))"
proof -
  let ?v = "pl_vector p"
  define w1 where "w1 = snd (rlt_getWaitTime (mv_accountId ?v) (mv_providerId ?v) (Some (mv_modelID ?v)) now w)"
  define w2 where "w2 = snd (ht_getScore (mv_accountId ?v) (mv_providerId ?v) None now w1)"
  have s1: "same_limits now w w1"
    unfolding w1_def getWaitTime_world by (rule same_limits_refreshed [OF assms])
  then have s2: "same_limits now w w2"
    unfolding w2_def using getScore_same same_limits_trans same_limits_def by metis
  then have ok2: "world_ok w2" by (simp add: same_limits_def)
  have s3: "same_limits now w (snd (rlt_isRateLimited (mv_accountId ?v) (mv_providerId ?v) (Some (mv_modelID ?v)) now w2))"
    unfolding isRateLimited_world [OF ok2]
    using same_limits_trans [OF s2 same_limits_refreshed [OF ok2]] .
  show ?thesis
    using s3 same_limits_answer [OF assms s2]
    by (simp add: enrich_def Let_def case_prod_beta w1_def [symmetric] w2_def [symmetric]
        isVectorRateLimited_def)
qed

lemma enrich_all_same:
  assumes "world_ok w"
  shows "same_limits now w (snd (enrich_all env now ps w)) \<and>
    (\<forall>c \<in> set (fst (enrich_all env now ps w)). fc_vector c \<in> pl_vector ` set ps \<and>
       (\<not> fc_isRateLimited c \<longrightarrow> \<not> fst (isVectorRateLimited (fc_vector c) now w)))"
  using assms
proof (induction ps arbitrary: w)
  case Nil
  then show ?case by (simp add: same_limits_refl)
next
  case (Cons p ps)
  let ?w1 = "snd (enrich env now p w)"
  have first: "same_limits now w ?w1" using enrich_same [OF Cons.prems] by blast
  then have ok: "world_ok ?w1" by (simp add: same_limits_def)
  have later: "fst (isVectorRateLimited v now ?w1) = fst (isVectorRateLimited v now w)" for v
    unfolding isVectorRateLimited_def by (rule same_limits_answer [OF Cons.prems first])
  show ?case
    using enrich_same [OF Cons.prems, of now env p] Cons.IH [OF ok] same_limits_trans [OF first]
    by (auto simp: case_prod_beta Let_def later)
qed

lemma enrich_all_vectors:
  "map fc_vector (fst (enrich_all env now ps w)) = map pl_vector ps"
  by (induction ps arbitrary: w) (simp_all add: case_prod_beta Let_def enrich_def)

lemma plan_unless_hidden_set:
  "p \<in> set (plan_unless_hidden env v r ts) \<longleftrightarrow>
   \<not> isHidden env v \<and> p = \<lparr>pl_vector = v, pl_reason = r, pl_tags = ts\<rparr>"
  by (auto simp: plan_unless_hidden_def)

lemma step3b_provider_sound:
  assumes "p \<in> set (step3b_provider env current providerId pr)"
  shows "mv_providerId (pl_vector p) \<noteq> mv_providerId current \<and> \<not> isHidden env (pl_vector p)"
proof (cases "en_resolveFamily env providerId")
  case None
  then show ?thesis using assms by (simp add: step3b_provider_def split: if_splits)
next
  case (Some family)
  then show ?thesis using assms
    by (auto simp: step3b_provider_def Let_def plan_unless_hidden_set split: if_splits)
qed

lemma all_plans_sound:
  assumes "p \<in> set (all_plans env current)"
  shows "pl_vector p \<noteq> current \<and> \<not> isHidden env (pl_vector p)"
proof -
  consider "p \<in> set (step1 env current)" | "p \<in> set (step2 env current)" | "p \<in> set (step3 env current)"
    | "p \<in> set (step3b env current)" | "p \<in> set (step4 env current)"
    using assms by (auto simp: all_plans_def)
  then show ?thesis
  proof cases
    case 1
    then show ?thesis
      by (auto simp: step1_def plan_unless_hidden_set split: option.splits if_splits)
        (metis model_vector.select_convs(2) model_vector.surjective model_vector.update_convs(2))
  next
    case 2
    then show ?thesis
      by (auto simp: step2_def step2_vector_def plan_unless_hidden_set Let_def split: option.splits if_splits)
        (metis model_vector.select_convs(3) model_vector.surjective model_vector.update_convs(3))
  next
    case 3
    then show ?thesis
      by (cases current) (auto simp: step3_def step3_skips_def plan_unless_hidden_set split: option.splits if_splits)
  next
    case 4
    then show ?thesis
      using step3b_provider_sound by (fastforce simp: step3b_def)
  next
    case 5
    then show ?thesis by (auto simp: step4_def Let_def split: option.splits if_splits)
  qed
qed

section \<open>Properties\<close>

text \<open>The candidate list. No two candidates share a key, none is the current vector
  and none is hidden, for every registry, account list, favourites file and tracker state; and the
  keys are exactly those of the five steps.\<close>

theorem candidates_sound:
  "distinct (map (\<lambda>c. r3d_makeKey (fc_vector c)) (fst (buildFallbackCandidates env current now w))) \<and>
   fc_vector ` set (fst (buildFallbackCandidates env current now w)) \<inter>
     ({current} \<union> {v. isHidden env v}) = {} \<and>
   (\<lambda>c. r3d_makeKey (fc_vector c)) ` set (fst (buildFallbackCandidates env current now w)) =
     (\<lambda>p. r3d_makeKey (pl_vector p)) ` set (all_plans env current)"
proof -
  let ?cs = "fst (enrich_all env now (all_plans env current) w)"
  let ?key = "\<lambda>c. r3d_makeKey (fc_vector c)"
  have eq: "fst (buildFallbackCandidates env current now w) = js_dedup ?key [] ?cs"
    by (simp add: buildFallbackCandidates_def case_prod_beta)
  have vec: "fc_vector ` set ?cs = pl_vector ` set (all_plans env current)"
    using enrich_all_vectors by (metis list.set_map)
  have sub: "fc_vector ` set (js_dedup ?key [] ?cs) \<subseteq> pl_vector ` set (all_plans env current)"
    using js_dedup_set [of _ ?key "[]" ?cs] vec by blast
  have sound: "fc_vector ` set (js_dedup ?key [] ?cs) \<inter> ({current} \<union> {v. isHidden env v}) = {}"
  proof (rule equals0I)
    fix v
    assume v: "v \<in> fc_vector ` set (js_dedup ?key [] ?cs) \<inter> ({current} \<union> {v. isHidden env v})"
    then obtain p where "p \<in> set (all_plans env current)" "v = pl_vector p" using sub by blast
    then show False using all_plans_sound [of p env current] v by simp
  qed
  have "?key ` set (js_dedup ?key [] ?cs) = ?key ` set ?cs" by (simp add: js_dedup_keys)
  also have "\<dots> = r3d_makeKey ` fc_vector ` set ?cs" by (simp add: image_image)
  also have "\<dots> = (\<lambda>p. r3d_makeKey (pl_vector p)) ` set (all_plans env current)"
    unfolding vec by (simp add: image_image)
  finally have keys: "?key ` set (js_dedup ?key [] ?cs) =
      (\<lambda>p. r3d_makeKey (pl_vector p)) ` set (all_plans env current)" .
  show ?thesis unfolding eq by (intro conjI js_dedup_distinct sound keys)
qed

text \<open>A favourite of the provider in use whose model id contains a slash yields a
  candidate for a model that does not exist. The second step splits "provider/model" at every slash
  and keeps only the second piece, and the bogus vector is added under the current account.\<close>

theorem slash_model_truncated:
  assumes "fv \<in> set (favorites env)" and "fv_providerId fv = mv_providerId current"
    and "CHR ''/'' \<notin> set (mv_providerId current)" and "CHR ''/'' \<notin> set vendor"
    and "fv_modelID fv = vendor @ ''/'' @ name" and "vendor \<noteq> mv_modelID current"
    and "\<not> isHidden env (current\<lparr>mv_modelID := vendor\<rparr>)"
  shows "\<lparr>pl_vector = current\<lparr>mv_modelID := vendor\<rparr>, pl_reason = Diff_model_same_account, pl_tags = []\<rparr>
    \<in> set (all_plans env current)"
proof -
  let ?path = "model_path (fv_providerId fv) (fv_modelID fv)"
  have "js_split (CHR ''/'') ?path = mv_providerId current # vendor # js_split (CHR ''/'') name"
    using assms(2-5) by (simp add: model_path_def js_split_append)
  then have "step2_vector current ?path = Some (current\<lparr>mv_modelID := vendor\<rparr>)"
    using assms(6) by (simp add: step2_vector_def)
  moreover have "?path \<in> set (allowedModels env)" using assms(1) by (auto simp: allowedModels_def)
  ultimately show ?thesis
    using assms(7) by (fastforce simp: all_plans_def step2_def plan_unless_hidden_set)
qed

definition demo_env :: rotation_env where
  "demo_env =
     \<lparr>en_providers = [], en_sortModels = (\<lambda>ms. ms), en_quotas = [],
      en_modelFile = Parsed
        \<lparr>mf_favorite = Some [\<lparr>fv_providerId = ''openrouter'', fv_modelID = ''qwen/qwen3'', fv_tags = None\<rparr>],
         mf_hidden = None, mf_hiddenProviders = None\<rparr>,
      en_resolveFamily = (\<lambda>p. Some p), en_listAccounts = (\<lambda>f. [''a'', ''b'']),
      en_getActive = (\<lambda>f. None), en_jsonBlock = None, en_textBlock = None\<rparr>"

theorem slash_model_truncated_witness:
  "\<lparr>pl_vector = demo_vector ''openrouter'' ''a'' ''qwen'', pl_reason = Diff_model_same_account, pl_tags = []\<rparr>
    \<in> set (all_plans demo_env (demo_vector ''openrouter'' ''a'' ''qwen/qwen3''))"
  using slash_model_truncated [of "\<lparr>fv_providerId = ''openrouter'', fv_modelID = ''qwen/qwen3'', fv_tags = None\<rparr>"
      demo_env "demo_vector ''openrouter'' ''a'' ''qwen/qwen3''" "''qwen''" "''qwen3''"]
  by (simp add: demo_env_def demo_vector_def favorites_def the_model_file_def isHidden_def
      hiddenProviders_def hiddenModels_def or_default_def)

lemma selectBestFallback_from:
  assumes "fst (selectBestFallback candidates current config tried purpose now fs) = Some b"
  shows "\<exists>c \<in> set candidates. fc_vector b = fc_vector c \<and> \<not> fc_isRateLimited c"
proof (cases "rc_maxCandidates config")
  case 0
  then show ?thesis using assms
    by (simp add: selectBestFallback_def case_prod_beta Let_def split: if_splits)
next
  case (Suc n)
  then have pos: "0 < rc_maxCandidates config" by simp
  show ?thesis
    by (rule selectBestFallback_cases [OF pos, of current tried candidates purpose now fs])
      (use assms selectableD(1) in auto)
qed

text \<open>C27 (safety): the search never proposes a rate limited vector. Whatever the registry, the
  configuration and the trackers hold, the vector it returns is one that the rate limit tracker
  allowed in the state the search started from.\<close>

theorem next_vector_is_available:
  assumes "world_ok w" and "fst (getNextAvailableVector env config current now cache w) = Some v"
  shows "\<not> fst (isVectorRateLimited v now w)"
proof (cases "fst (isVectorRateLimited current now w)")
  case False
  then show ?thesis using assms(2) by (simp add: getNextAvailableVector_def case_prod_beta)
next
  case True
  let ?w1 = "snd (isVectorRateLimited current now w)"
  have same: "same_limits now w ?w1"
    unfolding isVectorRateLimited_def isRateLimited_world [OF assms(1)]
    by (rule same_limits_refreshed [OF assms(1)])
  then have ok: "world_ok ?w1" by (simp add: same_limits_def)
  let ?cs = "fst (buildFallbackCandidates env current now ?w1)"
  obtain b where b: "fst (findFallback env config For_generic None current now cache ?w1) = Some b"
      "fc_vector b = v"
    using assms(2) True by (auto simp: getNextAvailableVector_def case_prod_beta)
  then obtain c where c: "c \<in> set ?cs" "fc_vector c = v" "\<not> fc_isRateLimited c"
    using selectBestFallback_from by (fastforce simp: findFallback_def case_prod_beta Let_def)
  then have "c \<in> set (fst (enrich_all env now (all_plans env current) ?w1))"
    using js_dedup_set by (fastforce simp: buildFallbackCandidates_def case_prod_beta)
  then have "\<not> fst (isVectorRateLimited v now ?w1)" using enrich_all_same [OF ok] c by blast
  then show ?thesis using same_limits_answer [OF assms(1) same] by (simp add: isVectorRateLimited_def)
qed

theorem next_vector_is_available_witness:
  "\<not> fst (isVectorRateLimited (demo_vector ''p'' ''a'' ''m'') 5 fresh_world)"
proof -
  have "\<not> fst (isVectorRateLimited (demo_vector ''p'' ''a'' ''m'') 5 fresh_world)"
    by (simp add: isVectorRateLimited_def demo_vector_def rlt_isRateLimited_def rlt_loadFromFile_def
        rlt_clearExpired_def fresh_world_def initGlobalTrackers_def readUnifiedState_def fresh_fs_def
        empty_unified_state_def legacy_or_empty_def)
  then have "fst (getNextAvailableVector demo_env None (demo_vector ''p'' ''a'' ''m'') 5
      \<lparr>ca_value = None, ca_at = 0\<rparr> fresh_world) = Some (demo_vector ''p'' ''a'' ''m'')"
    by (simp add: getNextAvailableVector_def case_prod_beta)
  from next_vector_is_available [OF fresh_world_ok this] show ?thesis .
qed

end
