(* ===== verification/Account_Selector.thy ===== *)
theory Account_Selector
  imports Rotation_Types "HOL-Library.Product_Lexorder"
begin

text \<open>
  \<^verbatim>\<open>account/rotation/account-selector.ts\<close>. JavaScript's \<open>sort\<close> is stable, as \<open>sort_key\<close> is.
\<close>

definition STICKINESS_BONUS :: rat where "STICKINESS_BONUS = 150"

definition SWITCH_THRESHOLD :: rat where "SWITCH_THRESHOLD = 100"

definition ac_eligible :: "rat \<Rightarrow> account_candidate \<Rightarrow> bool" where
  "ac_eligible minHealthScore acc \<longleftrightarrow>
     \<not> ac_isRateLimited acc \<and> \<not> (case ac_isCoolingDown acc of None \<Rightarrow> False | Some b \<Rightarrow> b) \<and>
     ac_healthScore acc \<ge> minHealthScore"

definition sortByLruWithHealth :: "account_candidate list \<Rightarrow> rat \<Rightarrow> account_candidate list" where
  "sortByLruWithHealth accounts minHealthScore =
     sort_key (\<lambda>a. (ac_lastUsed a, - ac_healthScore a)) (filter (ac_eligible minHealthScore) accounts)"

record scored_account =
  sc_id :: string
  sc_baseScore :: rat
  sc_score :: rat
  sc_isCurrent :: bool

definition ac_baseScore :: "int \<Rightarrow> account_candidate \<Rightarrow> rat" where
  "ac_baseScore now acc =
     (let healthComponent = ac_healthScore acc * 2;
          secondsSinceUsed = of_int (now - ac_lastUsed acc) / 1000;
          freshnessComponent = min secondsSinceUsed 3600 * (1 / 10)
      in max 0 (healthComponent + freshnessComponent))"

definition score_account :: "int \<Rightarrow> string option \<Rightarrow> account_candidate \<Rightarrow> scored_account" where
  "score_account now currentAccountId acc =
     (let baseScore = ac_baseScore now acc;
          isCurrent = (Some (ac_id acc) = currentAccountId);
          stickinessBonus = (if isCurrent then STICKINESS_BONUS else 0)
      in \<lparr>sc_id = ac_id acc, sc_baseScore = baseScore, sc_score = baseScore + stickinessBonus,
          sc_isCurrent = isCurrent\<rparr>)"

definition score_accounts ::
  "account_candidate list \<Rightarrow> string option \<Rightarrow> rat \<Rightarrow> int \<Rightarrow> scored_account list" where
  "score_accounts accounts currentAccountId minHealthScore now =
     sort_key (\<lambda>s. - sc_score s)
       (map (score_account now currentAccountId) (filter (ac_eligible minHealthScore) accounts))"

definition selectBestAccount ::
  "account_candidate list \<Rightarrow> string option \<Rightarrow> rat \<Rightarrow> int \<Rightarrow> string option" where
  "selectBestAccount accounts currentAccountId minHealthScore now =
     (let scored = score_accounts accounts currentAccountId minHealthScore now
      in case scored of
           [] \<Rightarrow> None
         | best # _ \<Rightarrow>
             (case List.find sc_isCurrent scored of
                Some currentCandidate \<Rightarrow>
                  (if \<not> sc_isCurrent best \<and>
                      sc_baseScore best - sc_baseScore currentCandidate < SWITCH_THRESHOLD
                   then Some (sc_id currentCandidate) else Some (sc_id best))
              | None \<Rightarrow> Some (sc_id best)))"

section \<open>Properties\<close>

lemma score_accounts_set:
  "s \<in> set (score_accounts accounts cur mn now) \<longleftrightarrow>
   (\<exists>a \<in> set accounts. ac_eligible mn a \<and> s = score_account now cur a)"
  by (auto simp: score_accounts_def)

lemma score_account_simps [simp]:
  "sc_id (score_account now cur a) = ac_id a"
  "sc_baseScore (score_account now cur a) = ac_baseScore now a"
  "sc_isCurrent (score_account now cur a) \<longleftrightarrow> Some (ac_id a) = cur"
  "sc_score (score_account now cur a) =
     ac_baseScore now a + (if Some (ac_id a) = cur then STICKINESS_BONUS else 0)"
  by (simp_all add: score_account_def Let_def)

lemma score_accounts_hd:
  assumes "score_accounts accounts cur mn now = best # rest"
    and "a \<in> set accounts" and "ac_eligible mn a"
  shows "sc_score (score_account now cur a) \<le> sc_score best"
proof -
  have "sorted (map (\<lambda>s. - sc_score s) (score_accounts accounts cur mn now))"
    unfolding score_accounts_def by (rule sorted_sort_key)
  moreover have "score_account now cur a \<in> set (best # rest)"
    using score_accounts_set assms by metis
  ultimately show ?thesis using assms(1) by auto
qed

lemma find_current:
  "List.find sc_isCurrent (score_accounts accounts cur mn now) = Some c \<Longrightarrow>
   \<exists>a \<in> set accounts. ac_eligible mn a \<and> c = score_account now cur a \<and> Some (ac_id a) = cur"
  using score_accounts_set [of c accounts cur mn now]
  by (auto simp: find_Some_iff in_set_conv_nth)

text \<open>The best-scored account always wins: the switch threshold can never decide.\<close>

lemma selectBestAccount_head:
  "selectBestAccount accounts cur mn now =
     (case score_accounts accounts cur mn now of [] \<Rightarrow> None | best # _ \<Rightarrow> Some (sc_id best))"
proof (cases "score_accounts accounts cur mn now")
  case Nil
  then show ?thesis by (simp add: selectBestAccount_def)
next
  case (Cons best rest)
  show ?thesis
  proof (cases "List.find sc_isCurrent (score_accounts accounts cur mn now)")
    case None
    then show ?thesis using Cons by (simp add: selectBestAccount_def)
  next
    case (Some c)
    obtain a where a: "a \<in> set accounts" "ac_eligible mn a" "c = score_account now cur a"
        "Some (ac_id a) = cur" using find_current [OF Some] by blast
    obtain b where b: "b \<in> set accounts" "best = score_account now cur b"
      using score_accounts_set [of best accounts cur mn now] Cons by auto
    have "sc_score c \<le> sc_score best" using score_accounts_hd [OF Cons a(1,2)] a(3) by simp
    then have "\<not> sc_isCurrent best \<Longrightarrow> SWITCH_THRESHOLD \<le> sc_baseScore best - sc_baseScore c"
      using a b by (simp add: STICKINESS_BONUS_def SWITCH_THRESHOLD_def split: if_splits)
    then show ?thesis using Cons Some by (auto simp: selectBestAccount_def)
  qed
qed

text \<open>An account is returned exactly when one is eligible, the returned account is
  eligible, no eligible account has a higher score, and when the current account is still eligible
  and another one is returned, that one's base score is at least 150 above the current one's. So
  the documented threshold of 100 never decides anything: the stickiness bonus already demands
  150.\<close>

theorem selectBestAccount_spec:
  "(selectBestAccount accounts cur mn now = None \<longleftrightarrow> filter (ac_eligible mn) accounts = []) \<and>
   (\<forall>i. selectBestAccount accounts cur mn now = Some i \<longrightarrow>
      (\<exists>b \<in> set accounts. ac_id b = i \<and> ac_eligible mn b \<and>
        (\<forall>a \<in> set accounts. ac_eligible mn a \<longrightarrow>
           sc_score (score_account now cur a) \<le> sc_score (score_account now cur b)) \<and>
        (\<forall>a \<in> set accounts. ac_eligible mn a \<longrightarrow> Some (ac_id a) = cur \<longrightarrow> i \<noteq> ac_id a \<longrightarrow>
           ac_baseScore now a + 150 \<le> ac_baseScore now b)))"
proof (cases "score_accounts accounts cur mn now")
  case Nil
  then have "length (filter (ac_eligible mn) accounts) = 0"
    unfolding score_accounts_def by (metis length_0_conv length_map length_sort)
  then show ?thesis using Nil by (simp add: selectBestAccount_head)
next
  case (Cons best rest)
  then obtain b where b: "b \<in> set accounts" "ac_eligible mn b" "best = score_account now cur b"
    using score_accounts_set [of best accounts cur mn now] by auto
  have sel: "selectBestAccount accounts cur mn now = Some (ac_id b)"
    using Cons b(3) by (simp add: selectBestAccount_head)
  have top: "sc_score (score_account now cur a) \<le> sc_score (score_account now cur b)"
    if "a \<in> set accounts" "ac_eligible mn a" for a
    using score_accounts_hd [OF Cons that] b(3) by simp
  have adv: "ac_baseScore now a + 150 \<le> ac_baseScore now b"
    if "a \<in> set accounts" "ac_eligible mn a" "Some (ac_id a) = cur" "ac_id b \<noteq> ac_id a" for a
    using top [OF that(1,2)] that(3,4) by (auto simp: STICKINESS_BONUS_def split: if_splits)
  have ne: "filter (ac_eligible mn) accounts \<noteq> []" using b by (auto simp: filter_empty_conv)
  have "\<exists>b' \<in> set accounts. ac_id b' = ac_id b \<and> ac_eligible mn b' \<and>
      (\<forall>a \<in> set accounts. ac_eligible mn a \<longrightarrow>
         sc_score (score_account now cur a) \<le> sc_score (score_account now cur b')) \<and>
      (\<forall>a \<in> set accounts. ac_eligible mn a \<longrightarrow> Some (ac_id a) = cur \<longrightarrow> ac_id b \<noteq> ac_id a \<longrightarrow>
         ac_baseScore now a + 150 \<le> ac_baseScore now b')"
    using b(1,2) by (intro bexI [of _ b] conjI ballI impI refl top adv)
  then show ?thesis unfolding sel using ne by (metis option.inject option.discI)
qed

theorem selectBestAccount_spec_witness:
  "selectBestAccount
     [\<lparr>ac_id = ''a'', ac_lastUsed = 0, ac_healthScore = 70, ac_isRateLimited = False, ac_isCoolingDown = None\<rparr>,
      \<lparr>ac_id = ''b'', ac_lastUsed = 0, ac_healthScore = 90, ac_isRateLimited = True, ac_isCoolingDown = None\<rparr>]
     None 50 1000 \<noteq> None"
proof -
  let ?l = "[\<lparr>ac_id = ''a'', ac_lastUsed = 0, ac_healthScore = 70, ac_isRateLimited = False,
       ac_isCoolingDown = None\<rparr>,
      \<lparr>ac_id = ''b'', ac_lastUsed = 0, ac_healthScore = 90, ac_isRateLimited = True,
       ac_isCoolingDown = None\<rparr>]"
  have "filter (ac_eligible 50) ?l \<noteq> []" by (simp add: ac_eligible_def)
  then show ?thesis using selectBestAccount_spec [of ?l None 50 1000] by blast
qed

text \<open>The LRU order lists exactly the eligible accounts, least recently used first,
  and among accounts used at the same time the healthier first.\<close>

theorem sortByLruWithHealth_spec:
  "set (sortByLruWithHealth accounts mn) = {a \<in> set accounts. ac_eligible mn a} \<and>
   length (sortByLruWithHealth accounts mn) = length (filter (ac_eligible mn) accounts) \<and>
   sorted_wrt (\<lambda>a b. ac_lastUsed a < ac_lastUsed b \<or>
       ac_lastUsed a = ac_lastUsed b \<and> ac_healthScore b \<le> ac_healthScore a)
     (sortByLruWithHealth accounts mn)"
proof -
  have "sorted (map (\<lambda>a. (ac_lastUsed a, - ac_healthScore a)) (sortByLruWithHealth accounts mn))"
    unfolding sortByLruWithHealth_def by (rule sorted_sort_key)
  then have "sorted_wrt (\<lambda>a b. ac_lastUsed a < ac_lastUsed b \<or>
       ac_lastUsed a = ac_lastUsed b \<and> ac_healthScore b \<le> ac_healthScore a)
     (sortByLruWithHealth accounts mn)"
    unfolding sorted_map by (rule sorted_wrt_mono_rel [rotated]) (auto simp: less_eq_prod_def)
  then show ?thesis by (auto simp: sortByLruWithHealth_def)
qed

end
