(* ===== verification/Backoff.thy ===== *)
theory Backoff
  imports Rotation_Types
begin

text \<open>
  \<^verbatim>\<open>account/rotation/backoff.ts\<close>: the reason of a failure and how long it keeps an account out.
  \<open>Math.random()\<close> is the argument \<open>rnd\<close> (in \<open>[0, 1)\<close>) and \<open>Date.now()\<close> the argument \<open>now\<close>. A
  message is its UTF-8 encoding, so the Chinese keywords are byte lists; \<open>toLowerCase\<close> changes
  ASCII letters only.
\<close>

definition FIVE_HOUR_BACKOFF :: rat where "FIVE_HOUR_BACKOFF = 18000000"

definition QUOTA_EXHAUSTED_BACKOFFS :: "rat list" where
  "QUOTA_EXHAUSTED_BACKOFFS = [FIVE_HOUR_BACKOFF, FIVE_HOUR_BACKOFF, 86400000]"

definition RATE_LIMIT_PROBE_BACKOFF :: rat where "RATE_LIMIT_PROBE_BACKOFF = 60000"

definition SERVICE_UNAVAILABLE_503_BACKOFF :: rat where "SERVICE_UNAVAILABLE_503_BACKOFF = 300000"

definition SITE_OVERLOADED_529_BACKOFF :: rat where "SITE_OVERLOADED_529_BACKOFF = 300000"

definition MODEL_CAPACITY_EXHAUSTED_BACKOFFS :: "rat list" where
  "MODEL_CAPACITY_EXHAUSTED_BACKOFFS = [15000, 30000, 60000, 90000]"

definition MODEL_CAPACITY_EXHAUSTED_JITTER_FRACTION :: rat where
  "MODEL_CAPACITY_EXHAUSTED_JITTER_FRACTION = 2 / 10"

definition SERVER_ERROR_BACKOFF :: rat where "SERVER_ERROR_BACKOFF = 20000"

definition AUTH_FAILED_BACKOFF :: rat where "AUTH_FAILED_BACKOFF = 3600000"

definition TOKEN_REFRESH_FAILED_BACKOFF :: rat where
  "TOKEN_REFRESH_FAILED_BACKOFF = FIVE_HOUR_BACKOFF"

definition UNKNOWN_BACKOFF :: rat where "UNKNOWN_BACKOFF = 300000"

definition MIN_BACKOFF_MS :: rat where "MIN_BACKOFF_MS = 2000"

lemmas backoff_constants = FIVE_HOUR_BACKOFF_def QUOTA_EXHAUSTED_BACKOFFS_def
  RATE_LIMIT_PROBE_BACKOFF_def SERVICE_UNAVAILABLE_503_BACKOFF_def SITE_OVERLOADED_529_BACKOFF_def
  MODEL_CAPACITY_EXHAUSTED_BACKOFFS_def MODEL_CAPACITY_EXHAUSTED_JITTER_FRACTION_def
  SERVER_ERROR_BACKOFF_def AUTH_FAILED_BACKOFF_def TOKEN_REFRESH_FAILED_BACKOFF_def
  UNKNOWN_BACKOFF_def MIN_BACKOFF_MS_def

definition generateJitter :: "rat \<Rightarrow> rat \<Rightarrow> rat" where
  "generateJitter rnd maxJitterMs = rnd * maxJitterMs - maxJitterMs / 2"

section \<open>The reason of a failure\<close>

definition utf8_frequency_limit :: string where
  "utf8_frequency_limit = map char_of
     [0xE9, 0xA0, 0xBB, 0xE7, 0x8E, 0x87, 0xE9, 0x99, 0x90, 0xE5, 0x88, 0xB6 :: nat]"

definition utf8_quota :: string where
  "utf8_quota = map char_of [0xE9, 0x85, 0x8D, 0xE9, 0xA1, 0x8D :: nat]"

definition utf8_allowance :: string where
  "utf8_allowance = map char_of [0xE9, 0xA1, 0x8D, 0xE5, 0xBA, 0xA6 :: nat]"

definition parse_reason_string :: "string \<Rightarrow> rate_limit_reason option" where
  "parse_reason_string reason =
     (let r = js_upper reason
      in if r = ''QUOTA_EXHAUSTED'' \<or> r = ''USAGE_LIMIT_REACHED'' \<or> r = ''INSUFFICIENT_QUOTA''
         then Some QUOTA_EXHAUSTED
         else if r = ''RATE_LIMIT_EXCEEDED'' then Some RATE_LIMIT_EXCEEDED
         else if r = ''SERVICE_UNAVAILABLE_503'' then Some SERVICE_UNAVAILABLE_503
         else if r = ''SITE_OVERLOADED_529'' then Some SITE_OVERLOADED_529
         else if r = ''MODEL_CAPACITY_EXHAUSTED'' then Some MODEL_CAPACITY_EXHAUSTED
         else None)"

definition includes_any :: "string \<Rightarrow> string list \<Rightarrow> bool" where
  "includes_any s ps \<longleftrightarrow> list_ex (js_includes s) ps"

definition parse_message :: "string \<Rightarrow> rate_limit_reason option" where
  "parse_message message =
     (let lower = js_lower message
      in if js_includes lower ''token refresh failed'' \<and> js_includes lower ''invalid_scope''
         then Some TOKEN_REFRESH_FAILED
         else if includes_any lower [''capacity'', ''overloaded'', ''resource exhausted'']
         then Some MODEL_CAPACITY_EXHAUSTED
         else if includes_any lower
             [''per minute'', ''per second'', ''requests per minute'', ''tokens per minute'',
              ''minute limit'', ''rpm'', ''tpm'', ''tps'']
         then Some RATE_LIMIT_SHORT
         else if includes_any lower [''per day'', ''daily'', ''limit reached for the day'', ''rpd'']
         then Some RATE_LIMIT_LONG
         else if includes_any lower [utf8_frequency_limit, utf8_quota, utf8_allowance]
         then Some QUOTA_EXHAUSTED
         else if js_includes lower ''quota'' then Some QUOTA_EXHAUSTED
         else if includes_any lower
             [''5 hour limit'', ''5-hour limit'', ''five hour limit'', ''response_time_window_exhausted'',
              ''response time window exhausted'', ''usage limit reached'',
              ''usage limit has been reached'', ''usage limit exceeded'', ''weekly limit'',
              ''weekly usage'']
         then Some QUOTA_EXHAUSTED
         else if includes_any lower [''rate limit'', ''too many requests'', ''token refresh failed'']
         then Some RATE_LIMIT_EXCEEDED
         else None)"

definition parseRateLimitReason ::
  "string option \<Rightarrow> string option \<Rightarrow> rat option \<Rightarrow> rate_limit_reason" where
  "parseRateLimitReason reason message status =
     (if status = Some 503 then SERVICE_UNAVAILABLE_503
      else if status = Some 529 then SITE_OVERLOADED_529
      else if status = Some 500 then SERVER_ERROR
      else case (if truthy reason then parse_reason_string (the reason) else None) of
             Some r \<Rightarrow> r
           | None \<Rightarrow>
               (case (if truthy message then parse_message (the message) else None) of
                  Some r \<Rightarrow> r
                | None \<Rightarrow> (if status = Some 429 then UNKNOWN else UNKNOWN)))"

section \<open>The length of a back-off\<close>

definition calculateBackoffMs ::
  "rate_limit_reason \<Rightarrow> nat \<Rightarrow> rat option \<Rightarrow> nat \<Rightarrow> int \<Rightarrow> rat \<Rightarrow> rat" where
  "calculateBackoffMs reason consecutiveFailures retryAfterMs dailyFailures now rnd =
     (if (case retryAfterMs of None \<Rightarrow> False | Some r \<Rightarrow> r > 0)
      then max (the retryAfterMs) MIN_BACKOFF_MS
      else case reason of
          QUOTA_EXHAUSTED \<Rightarrow>
            (let index = min consecutiveFailures (length QUOTA_EXHAUSTED_BACKOFFS - 1)
             in QUOTA_EXHAUSTED_BACKOFFS ! index)
        | RATE_LIMIT_SHORT \<Rightarrow> 300000
        | RATE_LIMIT_LONG \<Rightarrow> max (of_int (getNextQuotaReset now - now)) 60000
        | SERVICE_UNAVAILABLE_503 \<Rightarrow> SERVICE_UNAVAILABLE_503_BACKOFF
        | SITE_OVERLOADED_529 \<Rightarrow> SITE_OVERLOADED_529_BACKOFF
        | MODEL_CAPACITY_EXHAUSTED \<Rightarrow>
            (let index = min consecutiveFailures (length MODEL_CAPACITY_EXHAUSTED_BACKOFFS - 1);
                 base = MODEL_CAPACITY_EXHAUSTED_BACKOFFS ! index
             in base + generateJitter rnd (base * MODEL_CAPACITY_EXHAUSTED_JITTER_FRACTION))
        | SERVER_ERROR \<Rightarrow> SERVER_ERROR_BACKOFF
        | AUTH_FAILED \<Rightarrow> AUTH_FAILED_BACKOFF
        | TOKEN_REFRESH_FAILED \<Rightarrow> TOKEN_REFRESH_FAILED_BACKOFF
        | _ \<Rightarrow> (if dailyFailures \<le> 1 then RATE_LIMIT_PROBE_BACKOFF else FIVE_HOUR_BACKOFF))"

section \<open>Properties\<close>

lemma capacity_tier:
  "MODEL_CAPACITY_EXHAUSTED_BACKOFFS ! min n 3 =
     (if n = 0 then 15000 else if n = 1 then 30000 else if n = 2 then 60000 else 90000)"
proof -
  consider "n = 0" | "n = 1" | "n = 2" | "3 \<le> n" by linarith
  then show ?thesis by cases (auto simp: backoff_constants min_def numeral_3_eq_3 numeral_2_eq_2)
qed

lemma quota_tier:
  "QUOTA_EXHAUSTED_BACKOFFS ! min n 2 = (if n \<le> 1 then 18000000 else 86400000)"
proof -
  consider "n = 0" | "n = 1" | "2 \<le> n" by linarith
  then show ?thesis by cases (auto simp: backoff_constants min_def numeral_2_eq_2)
qed

lemma tier_lengths [simp]:
  "length QUOTA_EXHAUSTED_BACKOFFS = 3" "length MODEL_CAPACITY_EXHAUSTED_BACKOFFS = 4"
  by (simp_all add: backoff_constants)

lemma capacity_backoff:
  "calculateBackoffMs MODEL_CAPACITY_EXHAUSTED n None d now rnd =
     (let base = (if n = 0 then 15000 else if n = 1 then 30000 else if n = 2 then 60000 else 90000)
      in base * (9 / 10 + rnd / 5))"
  using capacity_tier [of n]
  by (simp add: calculateBackoffMs_def generateJitter_def Let_def field_simps
      MODEL_CAPACITY_EXHAUSTED_JITTER_FRACTION_def)

lemma no_retry_after:
  "\<not> (case r of None \<Rightarrow> False | Some x \<Rightarrow> 0 < x) \<Longrightarrow>
   calculateBackoffMs reason n r d now rnd = calculateBackoffMs reason n None d now rnd"
  unfolding calculateBackoffMs_def by (simp only: if_False option.case)

lemma quota_wait: "0 < getNextQuotaReset now - now" "getNextQuotaReset now - now \<le> 86400000"
  using quota_day_bounds [of now] quota_day_length [of now] by auto

text \<open>A positive hint of the server decides the back-off, which is never under two
  seconds; without one every reason keeps the account out for between 13.5 seconds and 24 hours,
  whatever the counters, the clock and the jitter are.\<close>

theorem backoff_bounds:
  assumes "0 \<le> rnd" and "rnd < 1"
  shows "if (case retry of None \<Rightarrow> False | Some r \<Rightarrow> 0 < r)
    then calculateBackoffMs reason n retry d now rnd = max (the retry) 2000
    else 13500 \<le> calculateBackoffMs reason n retry d now rnd \<and>
         calculateBackoffMs reason n retry d now rnd \<le> 86400000"
proof (cases "case retry of None \<Rightarrow> False | Some r \<Rightarrow> 0 < r")
  case True
  then show ?thesis by (simp add: calculateBackoffMs_def MIN_BACKOFF_MS_def)
next
  case False
  have long: "of_int (getNextQuotaReset now - now) \<le> (86400000 :: rat)"
    using quota_wait(2) [of now] by (metis of_int_le_iff of_int_numeral)
  have "13500 \<le> calculateBackoffMs reason n None d now rnd \<and>
        calculateBackoffMs reason n None d now rnd \<le> 86400000"
  proof (cases "reason = MODEL_CAPACITY_EXHAUSTED")
    case True
    then show ?thesis using assms by (auto simp: capacity_backoff Let_def)
  next
    case other: False
    then show ?thesis using long quota_tier [of n]
      by (cases reason) (auto simp: calculateBackoffMs_def Let_def backoff_constants(1,3,4,5,8-12))
  qed
  then show ?thesis using no_retry_after [OF False] False by (simp only: if_False)
qed

theorem backoff_bounds_witness:
  "13500 \<le> calculateBackoffMs MODEL_CAPACITY_EXHAUSTED 0 None 0 0 0"
  using backoff_bounds [of 0 None MODEL_CAPACITY_EXHAUSTED 0 0 0] by simp

text \<open>More failures never shorten a back-off: for the same reason, hint, clock and
  jitter it grows with the consecutive failures and with the failures of the day.\<close>

theorem backoff_monotone:
  assumes "0 \<le> rnd" and "n \<le> n'" and "d \<le> d'"
  shows "calculateBackoffMs reason n retry d now rnd \<le> calculateBackoffMs reason n' retry d' now rnd"
proof (cases "case retry of None \<Rightarrow> False | Some r \<Rightarrow> 0 < r")
  case True
  then show ?thesis by (simp add: calculateBackoffMs_def)
next
  case False
  have "calculateBackoffMs reason n None d now rnd \<le> calculateBackoffMs reason n' None d' now rnd"
  proof (cases "reason = MODEL_CAPACITY_EXHAUSTED")
    case True
    have scale: "a * (9 / 10 + rnd / 5) \<le> b * (9 / 10 + rnd / 5)" if "a \<le> b" for a b :: rat
      using that assms(1) by (intro mult_right_mono) auto
    show ?thesis unfolding True capacity_backoff Let_def using assms(2) by (intro scale) auto
  next
    case other: False
    then show ?thesis using assms(2,3) quota_tier [of n] quota_tier [of n']
      by (cases reason) (auto simp: calculateBackoffMs_def Let_def backoff_constants(1,3,4,5,8-12))
  qed
  then show ?thesis using no_retry_after [OF False] by simp
qed

theorem backoff_monotone_witness:
  "calculateBackoffMs QUOTA_EXHAUSTED 0 None 0 0 0 \<le> calculateBackoffMs QUOTA_EXHAUSTED 2 None 0 0 0"
  by (rule backoff_monotone) simp_all

text \<open>A quota message that carries a link is taken for a per-minute limit. The keyword
  "tps" (tokens per second) occurs in "https", and the short-term keywords are tried before
  "quota", so the account is out for five minutes instead of at least five hours.\<close>

theorem quota_message_with_link:
  assumes "js_includes (js_lower message) ''https''"
    and "\<not> js_includes (js_lower message) ''token refresh failed''"
    and "\<not> includes_any (js_lower message) [''capacity'', ''overloaded'', ''resource exhausted'']"
    and "status \<notin> {Some 500, Some 503, Some 529}"
  shows "parseRateLimitReason None (Some message) status = RATE_LIMIT_SHORT \<and>
    calculateBackoffMs (parseRateLimitReason None (Some message) status) n None d now rnd = 300000"
proof -
  have "js_includes (js_lower message) ''tps''"
  proof -
    obtain a b where "js_lower message = a @ ''https'' @ b" using assms(1) unfolding js_includes_iff by blast
    then have "js_lower message = (a @ ''ht'') @ ''tps'' @ b" by simp
    then show ?thesis unfolding js_includes_iff by blast
  qed
  moreover have "message \<noteq> []" using assms(1) by (auto simp: js_lower_def)
  ultimately have "message \<noteq> []" and "includes_any (js_lower message)
      [''per minute'', ''per second'', ''requests per minute'', ''tokens per minute'',
       ''minute limit'', ''rpm'', ''tpm'', ''tps'']"
    by (auto simp: includes_any_def)
  then have "parseRateLimitReason None (Some message) status = RATE_LIMIT_SHORT"
    using assms(2,4)
    by (simp add: parseRateLimitReason_def truthy_def parse_message_def Let_def assms(3))
  then show ?thesis by (simp add: calculateBackoffMs_def)
qed

theorem quota_message_with_link_witness:
  "parseRateLimitReason None (Some ''Quota exceeded, see https://example.com'') (Some 429) = RATE_LIMIT_SHORT"
proof -
  have "js_includes (js_lower ''Quota exceeded, see https://example.com'') ''https''"
    and "\<not> js_includes (js_lower ''Quota exceeded, see https://example.com'') ''token refresh failed''"
    and "\<not> includes_any (js_lower ''Quota exceeded, see https://example.com'')
           [''capacity'', ''overloaded'', ''resource exhausted'']"
    by code_simp+
  then show ?thesis
    using quota_message_with_link [of "''Quota exceeded, see https://example.com''" "Some 429" 0 0 0 0]
    by simp
qed

end
