(* ===== verification/Error_Classifier.thy ===== *)
theory Error_Classifier
  imports Backoff
begin

text \<open>
  \<^verbatim>\<open>account/rotation/error-classifier.ts\<close>: is a failure a rate limit or an authentication problem,
  and how long does the server ask to wait. The two regular expressions are a search for the first
  position at which a literal, blanks, a number and a unit follow each other. \<open>Number\<close> is written
  out for the strings of digits and dots the expressions can deliver.
\<close>

definition nullish :: "'a option \<Rightarrow> 'a option \<Rightarrow> 'a option" where
  [js_defs]: "nullish a b = (case a of None \<Rightarrow> b | Some x \<Rightarrow> Some x)"

definition num_code :: "rat option \<Rightarrow> num_or_str option" where
  [js_defs]: "num_code x = map_option Num x"

definition error_lower :: "error_metadata \<Rightarrow> string" where
  "error_lower e = js_lower (case em_message e of None \<Rightarrow> [] | Some m \<Rightarrow> m)"

definition isRateLimitError :: "thrown \<Rightarrow> bool" where
  "isRateLimitError error =
     (case asErrorWithMetadata error of
        None \<Rightarrow> False
      | Some errorObj \<Rightarrow>
          (let lower = error_lower errorObj;
               status = nullish (nullish (num_code (em_status errorObj)) (num_code (em_statusCode errorObj)))
                          (em_code errorObj)
           in if js_includes lower ''token refresh failed'' then False
              else if status = Some (Num 429) then True
              else lower \<noteq> [] \<and>
                includes_any lower
                  [''429'', ''rate_limit_exceeded'', ''rate limited'', ''too many requests'',
                   utf8_frequency_limit, utf8_quota, utf8_allowance]))"

definition isTokenInvalidated :: "thrown \<Rightarrow> bool" where
  "isTokenInvalidated error =
     (case asErrorWithMetadata error of
        None \<Rightarrow> False
      | Some errorObj \<Rightarrow>
          (if nullish (em_status errorObj) (em_statusCode errorObj) \<noteq> Some 401 then False
           else includes_any (error_lower errorObj)
                  [''token_invalidated'', ''token has been invalidated'']))"

definition isAuthError :: "thrown \<Rightarrow> bool" where
  "isAuthError error =
     (case asErrorWithMetadata error of
        None \<Rightarrow> False
      | Some errorObj \<Rightarrow>
          (let status = nullish (nullish (num_code (em_status errorObj)) (num_code (em_statusCode errorObj)))
                          (em_code errorObj)
           in if status = Some (Num 401) \<or> status = Some (Num 403) then True
              else if truthy (em_message errorObj)
              then includes_any (error_lower errorObj)
                     [''token refresh failed'', ''authentication failed'', ''invalid token'',
                      ''unauthorized'']
              else False))"

section \<open>Delays in messages\<close>

definition js_digits_value :: "string \<Rightarrow> rat" where
  "js_digits_value s = of_nat (js_nat_of_digits s)"

definition js_Number :: "string \<Rightarrow> rat option" where
  "js_Number s =
     (if \<not> list_all (\<lambda>c. js_digit c \<or> c = CHR ''.'') s then None
      else case js_split (CHR ''.'') s of
          [a] \<Rightarrow> Some (js_digits_value a)
        | [a, b] \<Rightarrow>
            (if a = [] \<and> b = [] then None
             else Some (js_digits_value a + js_digits_value b / 10 ^ length b))
        | _ \<Rightarrow> None)"

definition scaled_delay :: "string \<Rightarrow> rat \<Rightarrow> int option" where
  "scaled_delay s factor =
     (case js_Number s of
        None \<Rightarrow> None
      | Some x \<Rightarrow> if x > 0 then Some (js_round (x * factor)) else None)"

definition js_drop_last :: "nat \<Rightarrow> string \<Rightarrow> string" where
  "js_drop_last k s = take (length s - k) s"

definition parseRetryDelayValue :: "string \<Rightarrow> int option" where
  "parseRetryDelayValue v =
     (let trimmed = js_lower (js_trim v)
      in if trimmed = [] then None
         else if js_ends_with trimmed ''ms'' then scaled_delay (js_drop_last 2 trimmed) 1
         else if js_ends_with trimmed ''s'' then scaled_delay (js_drop_last 1 trimmed) 1000
         else if js_ends_with trimmed ''m'' then scaled_delay (js_drop_last 1 trimmed) (60 * 1000)
         else if js_ends_with trimmed ''h'' then scaled_delay (js_drop_last 1 trimmed) (60 * 60 * 1000)
         else None)"

text \<open>The token \<open>([0-9.]+(?:ms|s|m|h))\<close>, without regard to case. A unit never starts with a digit
  or a dot, so the greedy run of digits and dots is the only one that can match.\<close>

definition match_delay :: "string \<Rightarrow> string option" where
  "match_delay s =
     (let digit_or_dot = (\<lambda>c. js_digit c \<or> c = CHR ''.'');
          num = takeWhile digit_or_dot s;
          rest = dropWhile digit_or_dot s;
          low = js_lower rest
      in if num = [] then None
         else if js_starts_with low ''ms'' then Some (num @ take 2 rest)
         else if js_starts_with low ''s'' \<or> js_starts_with low ''m'' \<or> js_starts_with low ''h''
         then Some (num @ take 1 rest)
         else None)"

definition match_retry_here :: "string \<Rightarrow> string option" where
  "match_retry_here s =
     (if js_starts_with (js_lower s) ''please retry in '' then match_delay (drop 16 s) else None)"

definition match_after_here :: "string \<Rightarrow> string option" where
  "match_after_here s =
     (if js_starts_with (js_lower s) ''after'' \<and> takeWhile js_space (drop 5 s) \<noteq> []
      then match_delay (dropWhile js_space (drop 5 s)) else None)"

fun first_match :: "(string \<Rightarrow> string option) \<Rightarrow> string \<Rightarrow> string option" where
  "first_match f [] = f []"
| "first_match f (c # s) = (case f (c # s) of Some x \<Rightarrow> Some x | None \<Rightarrow> first_match f s)"

text \<open>\<open>parseInt(s, 10)\<close>: blanks, a sign, then the longest run of digits.\<close>

definition js_parseInt :: "string \<Rightarrow> int option" where
  "js_parseInt s =
     (let t = dropWhile js_space s;
          neg = (t \<noteq> [] \<and> hd t = CHR ''-'');
          u = (if t \<noteq> [] \<and> (hd t = CHR ''-'' \<or> hd t = CHR ''+'') then tl t else t);
          ds = takeWhile js_digit u
      in if ds = [] then None
         else Some ((if neg then -1 else 1) * int (js_nat_of_digits ds)))"

definition header_delay :: "error_metadata \<Rightarrow> rat option" where
  "header_delay e =
     (case nullish (em_retry_after_header e) (em_retryAfter e) of
        None \<Rightarrow> None
      | Some (Num r) \<Rightarrow> if r = 0 then None else Some (r * 1000)
      | Some (Str s) \<Rightarrow>
          if s = [] then None else map_option (\<lambda>n. of_int n * 1000) (js_parseInt s))"

definition js_nonzero :: "rat option \<Rightarrow> bool" where
  "js_nonzero x = (case x of None \<Rightarrow> False | Some r \<Rightarrow> r \<noteq> 0)"

definition message_delay :: "string \<Rightarrow> rat option \<Rightarrow> rat option" where
  "message_delay message retryAfterMs =
     (if js_nonzero retryAfterMs \<or> message = [] then retryAfterMs
      else (let r1 = (case first_match match_retry_here message of
                        Some d \<Rightarrow> map_option of_int (parseRetryDelayValue d)
                      | None \<Rightarrow> retryAfterMs)
            in if js_nonzero r1 then r1
               else (case first_match match_after_here message of
                       Some d \<Rightarrow> map_option of_int (parseRetryDelayValue d)
                     | None \<Rightarrow> r1)))"

definition extractRateLimitDetails :: "thrown \<Rightarrow> rate_limit_reason \<times> rat option" where
  "extractRateLimitDetails error =
     (case asErrorWithMetadata error of
        None \<Rightarrow> (parseRateLimitReason None (Some []) None, None)
      | Some e \<Rightarrow>
          (let status = nullish (em_status e) (em_statusCode e);
               message = (case em_message e of None \<Rightarrow> [] | Some m \<Rightarrow> m);
               reasonHint = (case nullish (map_option Str (em_error_type e)) (em_code e) of
                               Some (Str s) \<Rightarrow> Some s | _ \<Rightarrow> None)
           in (parseRateLimitReason reasonHint (Some message) status,
               message_delay message (header_delay e))))"


section \<open>Properties\<close>

text \<open>A failed token refresh is an authentication failure and never a rate limit,
  whatever status, code or other text the error carries. So it stops the session instead of
  rotating away from a valid subscription.\<close>

theorem token_refresh_is_auth:
  assumes "em_message e = Some m" and "js_includes (js_lower m) ''token refresh failed''"
  shows "isAuthError (Object e) \<and> \<not> isRateLimitError (Object e)"
proof -
  have "m \<noteq> []" using assms(2) by (auto simp: js_lower_def)
  then show ?thesis
    using assms
    by (simp add: isAuthError_def isRateLimitError_def error_lower_def truthy_def includes_any_def Let_def)
qed

theorem token_refresh_is_auth_witness:
  "\<not> isRateLimitError (Object \<lparr>em_status = Some 429, em_statusCode = None, em_code = None,
      em_message = Some ''Token refresh failed: 429'', em_error_type = None,
      em_retry_after_header = None, em_retryAfter = None\<rparr>)"
proof -
  have "js_includes (js_lower ''Token refresh failed: 429'') ''token refresh failed''" by code_simp
  then show ?thesis by (intro token_refresh_is_auth [THEN conjunct2]) simp_all
qed

lemma js_split_digits: "list_all js_digit s \<Longrightarrow> js_split (CHR ''.'') s = [s]"
  by (induction s) (auto simp: js_digit_facts)

lemma js_Number_digits:
  "list_all js_digit s \<Longrightarrow> js_Number s = Some (of_nat (js_nat_of_digits s))"
  by (auto simp: js_Number_def js_split_digits js_digits_value_def list_all_iff)

text \<open>The four units and their factors.\<close>

definition delay_units :: "(string \<times> int) list" where
  "delay_units = [(''ms'', 1), (''s'', 1000), (''m'', 60000), (''h'', 3600000)]"

lemma parse_delay:
  assumes "list_all js_digit ds" and "ds \<noteq> []" and "(u, f) \<in> set delay_units"
    and "0 < js_nat_of_digits ds"
  shows "parseRetryDelayValue (ds @ u) = Some (int (js_nat_of_digits ds) * f)"
proof -
  have d: "\<not> js_space (hd ds)" using assms(1,2) by (cases ds) (auto simp: js_digit_facts)
  have rnd: "js_round (of_nat k * of_int g) = int k * g" for k g
  proof -
    have "(of_nat k * of_int g :: rat) = of_int (int k * g)" by simp
    then show ?thesis unfolding js_round_def by (simp only: floor_eq_iff) simp
  qed
  have low: "js_lower (js_trim (ds @ u)) = ds @ u"
  proof -
    have "js_trim (ds @ u) = ds @ u"
      using assms(2,3) d by (intro js_trim_solid) (auto simp: delay_units_def js_space_def)
    moreover have "js_lower u = u"
      using assms(3) by (auto simp: delay_units_def js_lower_def js_lower_char_def)
    ultimately show ?thesis using assms(1) by (simp add: js_lower_digits)
  qed
  have no_m: "last ds \<noteq> CHR ''m''" using assms(1,2) by (cases ds rule: rev_cases) (auto simp: js_digit_def)
  have ends: "\<not> js_ends_with (ds @ [c]) [CHR ''m'', CHR ''s'']" for c
    using assms(2) no_m by (cases ds rule: rev_cases) (auto simp: js_ends_with_def)
  have ends1: "js_ends_with (ds @ [c]) [c'] \<longleftrightarrow> c = c'" for c c'
    by (auto simp: js_ends_with_def)
  have drop1: "js_drop_last (Suc 0) (ds @ [c]) = ds" for c by (simp add: js_drop_last_def)
  have scale: "scaled_delay ds (of_int g) = Some (int (js_nat_of_digits ds) * g)" for g
    using assms(4) by (simp add: scaled_delay_def js_Number_digits [OF assms(1)] rnd)
  from assms(3) consider "u = ''ms''" "f = 1" | "u = ''s''" "f = 1000" | "u = ''m''" "f = 60000"
    | "u = ''h''" "f = 3600000" by (auto simp: delay_units_def)
  then show ?thesis
  proof cases
    case 1
    then show ?thesis using scale [of 1] low
      by (simp add: parseRetryDelayValue_def js_ends_with_def js_drop_last_def)
  next
    case 2
    then show ?thesis using scale [of 1000] low ends [of "CHR ''s''"]
      by (simp add: parseRetryDelayValue_def ends1 drop1)
  next
    case 3
    then show ?thesis using scale [of 60000] low ends [of "CHR ''m''"]
      by (simp add: parseRetryDelayValue_def ends1 drop1)
  next
    case 4
    then show ?thesis using scale [of 3600000] low ends [of "CHR ''h''"]
      by (simp add: parseRetryDelayValue_def ends1 drop1)
  qed
qed

lemma match_delay_token:
  assumes "list_all js_digit ds" and "ds \<noteq> []" and "(u, f) \<in> set delay_units"
    and "u = ''m'' \<longrightarrow> (post = [] \<or> js_lower_char (hd post) \<noteq> CHR ''s'')"
  shows "match_delay (ds @ u @ post) = Some (ds @ u)"
proof -
  have u: "u \<noteq> []" "\<not> js_digit (hd u)" "hd u \<noteq> CHR ''.''"
    using assms(3) by (auto simp: delay_units_def js_digit_def)
  have tw: "takeWhile (\<lambda>c. js_digit c \<or> c = CHR ''.'') (ds @ u @ post) = ds"
      "dropWhile (\<lambda>c. js_digit c \<or> c = CHR ''.'') (ds @ u @ post) = u @ post"
    using assms(1) u by (cases u; auto simp: list_all_iff takeWhile_append dropWhile_append)+
  show ?thesis
    using assms(2-4) unfolding match_delay_def Let_def tw
    by (cases post) (auto simp: delay_units_def js_starts_with_def js_lower_def js_lower_char_def)
qed

text \<open>A message that asks to retry in a whole number of milliseconds, seconds,
  minutes or hours yields exactly that delay, wherever the request stands in the message and
  whatever follows, as long as no header gives one.\<close>

theorem retry_delay_roundtrip:
  assumes "em_message e = Some (pre @ ''Please retry in '' @ js_show_nat n @ u @ post)"
    and "\<forall>c \<in> set pre. js_lower_char c \<noteq> CHR ''p''"
    and "(u, f) \<in> set delay_units" and "0 < n"
    and "u = ''m'' \<longrightarrow> (post = [] \<or> js_lower_char (hd post) \<noteq> CHR ''s'')"
    and "header_delay e = None"
  shows "snd (extractRateLimitDetails (Object e)) = Some (of_int (int n * f))"
proof -
  let ?t = "''Please retry in '' @ js_show_nat n @ u @ post"
  have low: "js_lower ''Please retry in '' = ''please retry in ''" by code_simp
  have tok: "match_delay (js_show_nat n @ u @ post) = Some (js_show_nat n @ u)"
    using js_show_nat_digits js_show_nat_nonempty assms(3,5) by (rule match_delay_token)
  have here: "match_retry_here ?t = Some (js_show_nat n @ u)"
    unfolding match_retry_here_def js_lower_append low js_starts_with_append if_True
    using tok by (simp add: js_starts_with_def)
  have skip: "first_match match_retry_here (p @ ?t) = Some (js_show_nat n @ u)"
    if "\<forall>c \<in> set p. js_lower_char c \<noteq> CHR ''p''" for p
    using that
  proof (induction p)
    case Nil
    then show ?case using here by simp
  next
    case (Cons c p)
    then have "match_retry_here ((c # p) @ ?t) = None"
      by (simp add: match_retry_here_def js_lower_def js_starts_with_def)
    then show ?case using Cons by simp
  qed
  have delay: "parseRetryDelayValue (js_show_nat n @ u) = Some (int n * f)"
    using parse_delay [OF js_show_nat_digits js_show_nat_nonempty assms(3), of n] assms(4) by simp
  have pos: "0 < f" using assms(3) by (auto simp: delay_units_def)
  have "pre @ ?t \<noteq> []" by simp
  then have "message_delay (pre @ ?t) None = Some (of_int (int n * f))"
    using skip [OF assms(2)] delay pos assms(4) unfolding message_delay_def
    by (simp add: js_nonzero_def)
  then show ?thesis using assms(1,6) by (simp add: extractRateLimitDetails_def Let_def)
qed

theorem retry_delay_roundtrip_witness:
  "snd (extractRateLimitDetails (Object \<lparr>em_status = Some 429, em_statusCode = None, em_code = None,
      em_message = Some (''429: '' @ ''Please retry in '' @ js_show_nat 23 @ ''s'' @ ''.''),
      em_error_type = None, em_retry_after_header = None, em_retryAfter = None\<rparr>)) = Some 23000"
  using retry_delay_roundtrip [of _ "''429: ''" 23 "''s''" "''.''" 1000]
  by (simp add: delay_units_def js_lower_char_def header_delay_def nullish_def)

end
