(* ===== verification/Coalesce.thy ===== *)
theory Coalesce
  imports Js_Prelude
begin

text \<open>
  \<^verbatim>\<open>account/rotation/coalesce.ts\<close>: the storm prevention around a rotation. A call runs without
  interruption between two awaits, so one event per stretch is an atomic step: its arrival (cache
  look-up, single-flight look-up, the registration of its promise), the end of its sleep, the end of
  its work, the publication of the result (\<open>then\<close>) and the deregistration (\<open>finally\<close>). The work
  is not modelled: its outcome is a parameter of the event, \<open>None\<close> for a rejection, and
  \<open>shouldCache\<close> is a parameter of the model.
\<close>

datatype 'r call_phase =
    Sleeping int | Working | Settled 'r | Published 'r | Rejected
  | Returned 'r | Threw | Joined nat

record 'r rotation_call =
  cl_key :: string
  cl_provider :: string
  cl_eligible :: bool
  cl_phase :: "'r call_phase"

record 'r decision =
  de_result :: 'r
  de_decidedAt :: int

record 'r coalescer =
  co_now :: int
  co_windowMs :: int
  co_minIntervalMs :: int
  co_inflight :: "(string, nat) jmap"
  co_recent :: "(string, 'r decision) jmap"
  co_lastRotation :: "(string, int) jmap"
  co_calls :: "(nat, 'r rotation_call) jmap"

definition gcRecentDecisions :: "'r coalescer \<Rightarrow> 'r coalescer" where
  "gcRecentDecisions s =
     s\<lparr>co_recent := filter (\<lambda>(k, v). \<not> co_now s - de_decidedAt v > co_windowMs s) (co_recent s)\<rparr>"

definition set_phase :: "nat \<Rightarrow> 'r rotation_call \<Rightarrow> 'r call_phase \<Rightarrow> 'r coalescer \<Rightarrow> 'r coalescer" where
  "set_phase i c p s = s\<lparr>co_calls := jset (co_calls s) i (c\<lparr>cl_phase := p\<rparr>)\<rparr>"

text \<open>The synchronous part of \<open>runWithGuard\<close>: sleep for the rest of the interval, or start at
  once.\<close>

definition guard_phase :: "string \<Rightarrow> 'r coalescer \<Rightarrow> 'r call_phase" where
  "guard_phase providerId s =
     (let lastAt = (case jget (co_lastRotation s) providerId of None \<Rightarrow> 0 | Some t \<Rightarrow> t);
          waitMs = lastAt + co_minIntervalMs s - co_now s
      in if waitMs > 0 then Sleeping (co_now s + waitMs) else Working)"

definition co_run :: "nat \<Rightarrow> 'r rotation_call \<Rightarrow> 'r coalescer \<Rightarrow> 'r coalescer" where
  "co_run i c s =
     (let s' = set_phase i c (guard_phase (cl_provider c) s) s
      in if cl_eligible c then s'\<lparr>co_inflight := jset (co_inflight s') (cl_key c) i\<rparr> else s')"

definition co_arrive :: "nat \<Rightarrow> string \<Rightarrow> string \<Rightarrow> bool \<Rightarrow> 'r coalescer \<Rightarrow> 'r coalescer option" where
  "co_arrive i key providerId eligible s =
     (let c = \<lparr>cl_key = key, cl_provider = providerId, cl_eligible = eligible, cl_phase = Working\<rparr>
      in if jget (co_calls s) i \<noteq> None then None
         else if \<not> eligible then Some (co_run i c s)
         else (let s1 = gcRecentDecisions s
               in case jget (co_recent s1) key of
                    Some cached \<Rightarrow> Some (set_phase i c (Returned (de_result cached)) s1)
                  | None \<Rightarrow>
                      (case jget (co_inflight s1) key of
                         Some j \<Rightarrow> Some (set_phase i c (Joined j) s1)
                       | None \<Rightarrow> Some (co_run i c s1))))"

definition co_wake :: "nat \<Rightarrow> 'r coalescer \<Rightarrow> 'r coalescer option" where
  "co_wake i s =
     (case jget (co_calls s) i of
        Some c \<Rightarrow>
          (case cl_phase c of
             Sleeping t \<Rightarrow> if t \<le> co_now s then Some (set_phase i c Working s) else None
           | _ \<Rightarrow> None)
      | None \<Rightarrow> None)"

definition co_settle ::
  "('r \<Rightarrow> bool) \<Rightarrow> nat \<Rightarrow> 'r option \<Rightarrow> 'r coalescer \<Rightarrow> 'r coalescer option" where
  "co_settle shouldCache i outcome s =
     (case jget (co_calls s) i of
        Some c \<Rightarrow>
          (if cl_phase c \<noteq> Working then None
           else case outcome of
               None \<Rightarrow> Some (set_phase i c (if cl_eligible c then Rejected else Threw) s)
             | Some result \<Rightarrow>
                 (let s' = (if shouldCache result
                            then s\<lparr>co_lastRotation := jset (co_lastRotation s) (cl_provider c) (co_now s)\<rparr>
                            else s)
                  in Some (set_phase i c (if cl_eligible c then Settled result else Returned result) s')))
      | None \<Rightarrow> None)"

definition co_publish :: "('r \<Rightarrow> bool) \<Rightarrow> nat \<Rightarrow> 'r coalescer \<Rightarrow> 'r coalescer option" where
  "co_publish shouldCache i s =
     (case jget (co_calls s) i of
        Some c \<Rightarrow>
          (case cl_phase c of
             Settled result \<Rightarrow>
               (let s' = (if shouldCache result
                          then s\<lparr>co_recent := jset (co_recent s) (cl_key c)
                                  \<lparr>de_result = result, de_decidedAt = co_now s\<rparr>\<rparr>
                          else s)
                in Some (set_phase i c (Published result) s'))
           | _ \<Rightarrow> None)
      | None \<Rightarrow> None)"

definition co_finally :: "nat \<Rightarrow> 'r coalescer \<Rightarrow> 'r coalescer option" where
  "co_finally i s =
     (case jget (co_calls s) i of
        Some c \<Rightarrow>
          (let s' = s\<lparr>co_inflight := jdel (co_inflight s) (cl_key c)\<rparr>
           in case cl_phase c of
                Published result \<Rightarrow> Some (set_phase i c (Returned result) s')
              | Rejected \<Rightarrow> Some (set_phase i c Threw s')
              | _ \<Rightarrow> None)
      | None \<Rightarrow> None)"

datatype 'r co_event =
    Pass nat
  | Arrive nat string string bool
  | Wake nat
  | Settle nat "'r option"
  | Publish nat
  | Finally nat

fun co_step :: "('r \<Rightarrow> bool) \<Rightarrow> 'r co_event \<Rightarrow> 'r coalescer \<Rightarrow> 'r coalescer option" where
  "co_step cache (Pass ms) s = Some (s\<lparr>co_now := co_now s + int ms\<rparr>)"
| "co_step cache (Arrive i key pr el) s = co_arrive i key pr el s"
| "co_step cache (Wake i) s = co_wake i s"
| "co_step cache (Settle i r) s = co_settle cache i r s"
| "co_step cache (Publish i) s = co_publish cache i s"
| "co_step cache (Finally i) s = co_finally i s"

definition co_init :: "int \<Rightarrow> int \<Rightarrow> int \<Rightarrow> 'r coalescer" where
  "co_init now window interval =
     \<lparr>co_now = now, co_windowMs = window, co_minIntervalMs = interval, co_inflight = [],
      co_recent = [], co_lastRotation = [], co_calls = []\<rparr>"

inductive co_reach :: "('r \<Rightarrow> bool) \<Rightarrow> 'r coalescer \<Rightarrow> bool" for cache where
  start: "co_reach cache (co_init now window interval)"
| step: "co_reach cache s \<Longrightarrow> co_step cache ev s = Some s' \<Longrightarrow> co_reach cache s'"

section \<open>The invariant\<close>

definition active :: "'r rotation_call \<Rightarrow> bool" where
  "active c \<longleftrightarrow> cl_eligible c \<and>
     (case cl_phase c of Returned r \<Rightarrow> False | Threw \<Rightarrow> False | Joined j \<Rightarrow> False | _ \<Rightarrow> True)"

definition decided :: "'r rotation_call \<Rightarrow> 'r \<Rightarrow> bool" where
  "decided c r \<longleftrightarrow> cl_phase c = Published r \<or> cl_phase c = Returned r"

definition promised :: "'r call_phase \<Rightarrow> bool" where
  "promised p \<longleftrightarrow> (case p of Settled r \<Rightarrow> True | Published r \<Rightarrow> True | Rejected \<Rightarrow> True | _ \<Rightarrow> False)"

definition co_inv :: "('r \<Rightarrow> bool) \<Rightarrow> 'r coalescer \<Rightarrow> bool" where
  "co_inv cache s \<longleftrightarrow>
     distinct (jkeys (co_inflight s)) \<and> distinct (jkeys (co_recent s)) \<and>
     (\<forall>i c. jget (co_calls s) i = Some c \<longrightarrow> promised (cl_phase c) \<longrightarrow> cl_eligible c) \<and>
     (\<forall>i c. jget (co_calls s) i = Some c \<longrightarrow> active c \<longrightarrow> jget (co_inflight s) (cl_key c) = Some i) \<and>
     (\<forall>k i. jget (co_inflight s) k = Some i \<longrightarrow>
        (\<exists>c. jget (co_calls s) i = Some c \<and> active c \<and> cl_key c = k)) \<and>
     (\<forall>k d. jget (co_recent s) k = Some d \<longrightarrow>
        cache (de_result d) \<and> de_decidedAt d \<le> co_now s \<and>
        (\<exists>i c. jget (co_calls s) i = Some c \<and> cl_key c = k \<and> cl_eligible c \<and> decided c (de_result d)))"

lemma gc_recent:
  "distinct (jkeys (co_recent s)) \<Longrightarrow>
   jget (co_recent (gcRecentDecisions s)) k =
     (case jget (co_recent s) k of None \<Rightarrow> None
      | Some d \<Rightarrow> if co_now s - de_decidedAt d > co_windowMs s then None else Some d)"
  by (auto simp: gcRecentDecisions_def map_of_filter_snd split: option.split)

lemma gc_simps [simp]:
  "co_inflight (gcRecentDecisions s) = co_inflight s" "co_calls (gcRecentDecisions s) = co_calls s"
  "co_now (gcRecentDecisions s) = co_now s" "co_lastRotation (gcRecentDecisions s) = co_lastRotation s"
  "co_minIntervalMs (gcRecentDecisions s) = co_minIntervalMs s"
  "co_windowMs (gcRecentDecisions s) = co_windowMs s"
  by (simp_all add: gcRecentDecisions_def)

lemma set_phase_simps [simp]:
  "co_inflight (set_phase i c p s) = co_inflight s" "co_recent (set_phase i c p s) = co_recent s"
  "co_now (set_phase i c p s) = co_now s" "co_lastRotation (set_phase i c p s) = co_lastRotation s"
  "co_minIntervalMs (set_phase i c p s) = co_minIntervalMs s"
  "co_windowMs (set_phase i c p s) = co_windowMs s"
  "jget (co_calls (set_phase i c p s)) j =
     (if j = i then Some (c\<lparr>cl_phase := p\<rparr>) else jget (co_calls s) j)"
  by (simp_all add: set_phase_def jget_jset)

lemma gc_inv: "co_inv cache s \<Longrightarrow> co_inv cache (gcRecentDecisions s)"
  unfolding co_inv_def
  by (auto simp: gc_recent split: option.splits if_splits) (auto simp: gcRecentDecisions_def intro: distinct_keys_filter)

lemma guard_phase_pending: "guard_phase p s = Working \<or> (\<exists>t. guard_phase p s = Sleeping t)"
  by (simp add: guard_phase_def Let_def)

lemma guard_phase_not_promised [simp]: "\<not> promised (guard_phase p s)"
  by (simp add: guard_phase_def promised_def Let_def)

text \<open>A new call changes neither the cache nor the other calls.\<close>

lemma fresh_call_inv:
  assumes "co_inv cache s" and "jget (co_calls s) i = None"
    and "\<not> active (c\<lparr>cl_phase := p\<rparr>)" and "\<not> promised p"
  shows "co_inv cache (set_phase i c p s)"
  using assms unfolding co_inv_def by (auto; metis option.distinct(1))

lemma run_inv:
  assumes inv: "co_inv cache s" and fresh: "jget (co_calls s) i = None"
    and free: "cl_eligible c \<Longrightarrow> jget (co_inflight s) (cl_key c) = None"
  shows "co_inv cache (co_run i c s)"
proof (cases "cl_eligible c")
  case False
  then show ?thesis using fresh_call_inv [OF inv fresh] by (simp add: co_run_def active_def Let_def)
next
  case True
  have act: "active (c\<lparr>cl_phase := guard_phase (cl_provider c) s\<rparr>)"
    using True guard_phase_pending [of "cl_provider c" s] by (auto simp: active_def)
  show ?thesis
    using inv fresh free [OF True] act True unfolding co_inv_def co_run_def Let_def
    by (auto simp: jget_jset distinct_update split: if_splits; metis option.distinct(1))
qed

lemma arrive_inv:
  assumes "co_inv cache s" and "co_arrive i k p el s = Some s'"
  shows "co_inv cache s'"
proof -
  have fresh: "jget (co_calls s) i = None" using assms(2) by (auto simp: co_arrive_def Let_def split: if_splits)
  show ?thesis
  proof (cases el)
    case False
    then show ?thesis using assms fresh by (auto simp: co_arrive_def intro: run_inv)
  next
    case True
    have g: "co_inv cache (gcRecentDecisions s)" "jget (co_calls (gcRecentDecisions s)) i = None"
      using gc_inv [OF assms(1)] fresh by simp_all
    show ?thesis
      using assms(2) True fresh run_inv [OF g] fresh_call_inv [OF g]
      by (auto simp: co_arrive_def Let_def active_def promised_def split: option.splits)
  qed
qed

lemma phase_change_inv:
  assumes "co_inv cache s" and "jget (co_calls s) i = Some c"
    and "active (c\<lparr>cl_phase := p\<rparr>) \<longleftrightarrow> active c"
    and "\<And>r. decided c r \<Longrightarrow> decided (c\<lparr>cl_phase := p\<rparr>) r"
    and "promised p \<Longrightarrow> cl_eligible c"
  shows "co_inv cache (set_phase i c p s)"
proof -
  let ?s' = "set_phase i c p s"
  have kept: "\<exists>i c. jget (co_calls ?s') i = Some c \<and> cl_key c = k \<and> cl_eligible c \<and> decided c r"
    if h: "\<exists>i c. jget (co_calls s) i = Some c \<and> cl_key c = k \<and> cl_eligible c \<and> decided c r" for k r
  proof -
    obtain j d where j: "jget (co_calls s) j = Some d" "cl_key d = k" "cl_eligible d" "decided d r"
      using h by blast
    show ?thesis
    proof (cases "j = i")
      case True
      then have "d = c" using j(1) assms(2) by simp
      then show ?thesis using j assms(4) True by (intro exI [of _ i] exI [of _ "c\<lparr>cl_phase := p\<rparr>"]) simp
    next
      case False
      then show ?thesis using j by (intro exI [of _ j] exI [of _ d]) simp
    qed
  qed
  have own: "\<exists>c'. jget (co_calls ?s') j = Some c' \<and> active c' \<and> cl_key c' = k"
    if "\<exists>c'. jget (co_calls s) j = Some c' \<and> active c' \<and> cl_key c' = k" for j k
    using that assms(2,3) by (cases "j = i") auto
  have act: "jget (co_inflight ?s') (cl_key d) = Some j"
    if "jget (co_calls ?s') j = Some d" "active d" for j d
    using that assms(1-3) unfolding co_inv_def by (cases "j = i") auto
  have el: "cl_eligible d" if "jget (co_calls ?s') j = Some d" "promised (cl_phase d)" for j d
    using that assms(1,2,5) unfolding co_inv_def by (cases "j = i") auto
  show ?thesis
    using assms(1) kept own act el unfolding co_inv_def
    by (intro conjI allI impI) (simp_all del: set_phase_simps(7))
qed

lemma wake_inv: "co_inv cache s \<Longrightarrow> co_wake i s = Some s' \<Longrightarrow> co_inv cache s'"
  by (auto simp: co_wake_def active_def decided_def promised_def split: option.splits call_phase.splits if_splits
      intro!: phase_change_inv)

lemma lastRotation_inv [simp]:
  "co_inv cache (s\<lparr>co_lastRotation := x\<rparr>) = co_inv cache s"
  by (simp add: co_inv_def)

lemma settle_inv: "co_inv cache s \<Longrightarrow> co_settle cache i r s = Some s' \<Longrightarrow> co_inv cache s'"
  by (auto simp: co_settle_def Let_def active_def decided_def promised_def split: option.splits if_splits
      intro!: phase_change_inv)

lemma recent_inv:
  assumes "co_inv cache s" and "jget (co_calls s) i = Some c" and "cl_eligible c"
    and "decided c r" and "cache r"
  shows "co_inv cache (s\<lparr>co_recent := jset (co_recent s) (cl_key c)
    \<lparr>de_result = r, de_decidedAt = co_now s\<rparr>\<rparr>)"
  using assms unfolding co_inv_def by (auto simp: jget_jset distinct_update)

lemma set_phase_recent:
  "set_phase i c p (s\<lparr>co_recent := x\<rparr>) = (set_phase i c p s)\<lparr>co_recent := x\<rparr>"
  by (simp add: set_phase_def)

lemma publish_inv:
  assumes "co_inv cache s" and "co_publish cache i s = Some s'"
  shows "co_inv cache s'"
proof -
  obtain c r where c: "jget (co_calls s) i = Some c" "cl_phase c = Settled r"
      and s': "s' = set_phase i c (Published r) (if cache r then s\<lparr>co_recent := jset (co_recent s) (cl_key c)
        \<lparr>de_result = r, de_decidedAt = co_now s\<rparr>\<rparr> else s)"
    using assms(2) by (auto simp: co_publish_def Let_def split: option.splits call_phase.splits)
  let ?c = "c\<lparr>cl_phase := Published r\<rparr>"
  have el: "cl_eligible c" using assms(1) c unfolding co_inv_def promised_def by fastforce
  have inv: "co_inv cache (set_phase i c (Published r) s)"
    using c el by (intro phase_change_inv assms(1)) (auto simp: active_def decided_def)
  show ?thesis
    using recent_inv [OF inv, of i ?c r] inv el s' by (simp add: set_phase_recent decided_def)
qed

lemma finally_inv:
  assumes inv: "co_inv cache s" and fin: "co_finally i s = Some s'"
  shows "co_inv cache s'"
proof -
  obtain c where c0: "jget (co_calls s) i = Some c"
    using fin by (auto simp: co_finally_def split: option.splits)
  obtain p where "(\<exists>r. cl_phase c = Published r \<and> p = Returned r) \<or> (cl_phase c = Rejected \<and> p = Threw)"
      and "s' = set_phase i c p (s\<lparr>co_inflight := jdel (co_inflight s) (cl_key c)\<rparr>)"
    using fin c0 by (auto simp: co_finally_def Let_def split: call_phase.splits)
  then have c: "jget (co_calls s) i = Some c" "promised (cl_phase c)"
      and p: "\<And>r. decided c r \<Longrightarrow> decided (c\<lparr>cl_phase := p\<rparr>) r" "\<not> active (c\<lparr>cl_phase := p\<rparr>)"
        "\<not> promised p"
      and s': "s' = (set_phase i c p s)\<lparr>co_inflight := jdel (co_inflight s) (cl_key c)\<rparr>"
    using c0 by (auto simp: promised_def decided_def active_def set_phase_def)
  have act: "active c" using inv c unfolding co_inv_def
    by (auto simp: active_def promised_def split: call_phase.splits)
  have own: "jget (co_inflight s) (cl_key c) = Some i" using inv c act unfolding co_inv_def by blast
  have kept: "\<exists>j d. jget (co_calls s') j = Some d \<and> cl_key d = k \<and> cl_eligible d \<and> decided d r"
    if h: "\<exists>j d. jget (co_calls s) j = Some d \<and> cl_key d = k \<and> cl_eligible d \<and> decided d r" for k r
  proof -
    obtain j d where j: "jget (co_calls s) j = Some d" "cl_key d = k" "cl_eligible d" "decided d r"
      using h by blast
    show ?thesis
    proof (cases "j = i")
      case True
      then have "d = c" using j(1) c(1) by simp
      then show ?thesis using j p(1) s' by (intro exI [of _ i] exI [of _ "c\<lparr>cl_phase := p\<rparr>"]) simp
    next
      case False
      then show ?thesis using j s' by (intro exI [of _ j] exI [of _ d]) simp
    qed
  qed
  have calls: "jget (co_calls s') j = (if j = i then Some (c\<lparr>cl_phase := p\<rparr>) else jget (co_calls s) j)"
      and infl: "jget (co_inflight s') k = (if k = cl_key c then None else jget (co_inflight s) k)"
      for j k using s' by (simp_all add: jget_jdel)
  have new: "\<exists>d. jget (co_calls s') j = Some d \<and> active d \<and> cl_key d = k"
    if h: "jget (co_inflight s') k = Some j" for k j
  proof -
    have k: "k \<noteq> cl_key c" "jget (co_inflight s) k = Some j"
      using h unfolding infl by (auto split: if_splits)
    then obtain d where d: "jget (co_calls s) j = Some d" "active d" "cl_key d = k"
      using inv unfolding co_inv_def by blast
    then have "j \<noteq> i" using k(1) c(1) by auto
    then show ?thesis using d unfolding calls by simp
  qed
  have old: "jget (co_inflight s') (cl_key d) = Some j"
    if h: "jget (co_calls s') j = Some d" "active d" for j d
  proof -
    have j: "j \<noteq> i" "jget (co_calls s) j = Some d"
      using h p(2) unfolding calls by (auto split: if_splits)
    then have "jget (co_inflight s) (cl_key d) = Some j" using h(2) inv unfolding co_inv_def by blast
    then show ?thesis using j(1) own unfolding infl by auto
  qed
  have el: "cl_eligible d" if "jget (co_calls s') j = Some d" "promised (cl_phase d)" for j d
    using that inv p(3) unfolding calls co_inv_def by (auto split: if_splits)
  have rec: "co_recent s' = co_recent s" "co_now s' = co_now s"
      "distinct (jkeys (co_inflight s'))" using s' inv by (simp_all add: co_inv_def distinct_delete)
  show ?thesis
    using inv kept new old el rec unfolding co_inv_def by (intro conjI allI impI) simp_all
qed

lemma co_step_inv: "co_inv cache s \<Longrightarrow> co_step cache ev s = Some s' \<Longrightarrow> co_inv cache s'"
proof (cases ev)
  case (Pass ms)
  assume "co_inv cache s" "co_step cache ev s = Some s'"
  then show ?thesis using Pass unfolding co_inv_def by (auto simp: order_trans [OF _ le_add_same_cancel1 [THEN iffD2]])
qed (auto intro: arrive_inv wake_inv settle_inv publish_inv finally_inv)

lemma co_init_inv: "co_inv cache (co_init now window interval)"
  by (simp add: co_inv_def co_init_def)

lemma co_reach_inv: "co_reach cache s \<Longrightarrow> co_inv cache s"
  by (induction rule: co_reach.induct) (auto intro: co_step_inv co_init_inv)

section \<open>Properties\<close>

text \<open>C25 (invariant): single flight. Whatever the interleaving of arrivals, timers, results and
  promise callbacks, at most one eligible rotation per key is under way.\<close>

theorem single_flight:
  assumes "co_reach cache s"
    and "jget (co_calls s) i = Some c" and "active c"
    and "jget (co_calls s) j = Some d" and "active d" and "cl_key c = cl_key d"
  shows "i = j"
proof -
  have "jget (co_inflight s) (cl_key c) = Some i" "jget (co_inflight s) (cl_key d) = Some j"
    using co_reach_inv [OF assms(1)] assms(2-5) unfolding co_inv_def by blast+
  then show ?thesis using assms(6) by simp
qed

definition co_demo :: "string coalescer" where
  "co_demo = the (co_arrive 0 ''p:a:m'' ''p'' True (co_init 100000 3000 5000))"

lemma co_demo_reach: "co_reach (\<lambda>r. True) co_demo"
proof (rule co_reach.step [OF co_reach.start])
  show "co_step (\<lambda>r. True) (Arrive 0 ''p:a:m'' ''p'' True) (co_init 100000 3000 5000) = Some co_demo"
    by (simp add: co_demo_def co_arrive_def co_init_def gcRecentDecisions_def Let_def)
qed

theorem single_flight_witness:
  "\<not> (\<exists>j d. jget (co_calls co_demo) j = Some d \<and> active d \<and> cl_key d = ''p:a:m'' \<and> j \<noteq> 0)"
proof (rule notI, elim exE conjE)
  fix j d
  assume d: "jget (co_calls co_demo) j = Some d" "active d" "cl_key d = ''p:a:m''" and "j \<noteq> 0"
  let ?c = "\<lparr>cl_key = ''p:a:m'', cl_provider = ''p'', cl_eligible = True, cl_phase = Working\<rparr>"
  have "jget (co_calls co_demo) 0 = Some ?c"
    by (simp add: co_demo_def co_arrive_def co_init_def gcRecentDecisions_def co_run_def guard_phase_def
        set_phase_def Let_def)
  from single_flight [OF co_demo_reach d(1,2) this] show False
    using d(3) \<open>j \<noteq> 0\<close> by (simp add: active_def)
qed

text \<open>An eligible call that is answered on arrival gets the result of an earlier
  eligible rotation of the same key, one that may be cached and was decided at most the coalescing
  window ago.\<close>

theorem cached_answer_is_recent:
  assumes "co_reach cache s" and "co_arrive i k p True s = Some s'"
    and "jget (co_calls s') i = Some c" and "cl_phase c = Returned r"
  shows "\<exists>t j d. cache r \<and> t \<le> co_now s \<and> co_now s - t \<le> co_windowMs s \<and>
    jget (co_recent s) k = Some \<lparr>de_result = r, de_decidedAt = t\<rparr> \<and>
    jget (co_calls s) j = Some d \<and> cl_key d = k \<and> cl_eligible d \<and> decided d r"
proof -
  have inv: "co_inv cache s" by (rule co_reach_inv [OF assms(1)])
  then have dist: "distinct (jkeys (co_recent s))" unfolding co_inv_def by blast
  obtain de where de: "jget (co_recent (gcRecentDecisions s)) k = Some de" "r = de_result de"
    using assms(2-4) guard_phase_pending [of p "gcRecentDecisions s"]
    by (auto simp: co_arrive_def co_run_def Let_def split: option.splits if_splits)
  from de(1) have old: "jget (co_recent s) k = Some de" and age: "co_now s - de_decidedAt de \<le> co_windowMs s"
    unfolding gc_recent [OF dist] by (auto split: option.splits if_splits)
  have good: "cache r \<and> de_decidedAt de \<le> co_now s \<and>
      (\<exists>j d. jget (co_calls s) j = Some d \<and> cl_key d = k \<and> cl_eligible d \<and> decided d r)"
    using inv old de(2) unfolding co_inv_def by blast
  have "de = \<lparr>de_result = r, de_decidedAt = de_decidedAt de\<rparr>" using de(2) by (cases de) simp
  then show ?thesis using good old age by metis
qed

fun co_exec :: "('r \<Rightarrow> bool) \<Rightarrow> 'r co_event list \<Rightarrow> 'r coalescer \<Rightarrow> 'r coalescer option" where
  "co_exec cache [] s = Some s"
| "co_exec cache (ev # evs) s =
     (case co_step cache ev s of None \<Rightarrow> None | Some s' \<Rightarrow> co_exec cache evs s')"

lemma co_exec_reach: "co_reach cache s \<Longrightarrow> co_exec cache evs s = Some s' \<Longrightarrow> co_reach cache s'"
  by (induction evs arbitrary: s) (auto split: option.splits intro: co_reach.step)

lemmas co_evaluate = co_arrive_def co_wake_def co_settle_def co_publish_def co_finally_def co_run_def
  co_init_def gcRecentDecisions_def guard_phase_def set_phase_def Let_def

definition cached_demo :: "string coalescer" where
  "cached_demo = the (co_exec (\<lambda>r. True)
     [Arrive 0 ''p:a:m'' ''p'' True, Settle 0 (Some ''b''), Publish 0, Finally 0, Pass 2000]
     (co_init 100000 3000 5000))"

lemma cached_demo_exec:
  "co_exec (\<lambda>r. True)
     [Arrive 0 ''p:a:m'' ''p'' True, Settle 0 (Some ''b''), Publish 0, Finally 0, Pass 2000]
     (co_init 100000 3000 5000) = Some cached_demo"
  unfolding cached_demo_def by (simp add: co_evaluate)

theorem cached_answer_is_recent_witness:
  "\<exists>t. jget (co_recent cached_demo) ''p:a:m'' = Some \<lparr>de_result = ''b'', de_decidedAt = t\<rparr> \<and>
     co_now cached_demo - t \<le> 3000"
proof -
  have reach: "co_reach (\<lambda>r. True) cached_demo"
    by (rule co_exec_reach [OF co_reach.start cached_demo_exec])
  let ?s' = "the (co_arrive 1 ''p:a:m'' ''p'' True cached_demo)"
  have arr: "co_arrive 1 ''p:a:m'' ''p'' True cached_demo = Some ?s'"
      "jget (co_calls ?s') 1 = Some \<lparr>cl_key = ''p:a:m'', cl_provider = ''p'', cl_eligible = True,
         cl_phase = Returned ''b''\<rparr>" "co_windowMs cached_demo = 3000"
    by (simp_all add: cached_demo_def co_evaluate)
  from cached_answer_is_recent [OF reach arr(1,2)] show ?thesis using arr(3) by fastforce
qed

text \<open>The minimal interval is only enforced against the rotations already recorded
  when a call arrives. Two calls of one provider that arrive while it is quiet (here a call with
  another key) both pass the guard, so two rotations of the provider are decided at the same
  instant although the interval is positive.\<close>

theorem interval_can_be_broken:
  fixes window interval now :: int and a b :: 'r
  assumes "0 < interval" and "interval < now" and "cache a" and "cache b"
  shows "\<exists>s c d. co_reach cache s \<and> co_minIntervalMs s = interval \<and>
    jget (co_calls s) 0 = Some c \<and> jget (co_calls s) 1 = Some d \<and>
    cl_provider c = ''p'' \<and> cl_provider d = ''p'' \<and> cl_phase c = Settled a \<and> cl_phase d = Settled b \<and>
    jget (co_lastRotation s) ''p'' = Some (co_now s) \<and> co_now s = now"
proof -
  let ?evs = "[Arrive 0 ''p:a:m'' ''p'' True, Arrive 1 ''p:b:m'' ''p'' True,
               Settle 0 (Some a), Settle 1 (Some b)]"
  obtain s where run: "co_exec cache ?evs (co_init now window interval) = Some s"
      and s: "co_minIntervalMs s = interval" "co_now s = now"
        "jget (co_lastRotation s) ''p'' = Some now"
        "\<exists>c d. jget (co_calls s) 0 = Some c \<and> jget (co_calls s) 1 = Some d \<and>
          cl_provider c = ''p'' \<and> cl_provider d = ''p'' \<and> cl_phase c = Settled a \<and> cl_phase d = Settled b"
    using assms by (simp add: co_evaluate)
  then show ?thesis using co_exec_reach [OF co_reach.start run] by metis
qed

theorem interval_can_be_broken_witness:
  "\<exists>s :: string coalescer. co_reach (\<lambda>r. True) s \<and> co_minIntervalMs s = 5000 \<and>
    jget (co_lastRotation s) ''p'' = Some (co_now s)"
  using interval_can_be_broken [of 5000 100000 "\<lambda>r. True" "''b''" "''c''"] by fastforce

end
