(* ===== verification/Rw_Lock.thy ===== *)
theory Rw_Lock
  imports Js_Prelude
begin

text \<open>
  \<^verbatim>\<open>util/lock.ts\<close>: the readers-writer lock with one entry per key. A pending promise is the
  number of its request in a queue; a resolved one is a grant, and \<open>dispose\<close> is an event that is
  enabled once per grant (\<open>using\<close> disposes once). Every function runs without an await, so each
  call is one step. The closures of the code hold the entry, the model looks it up by its key; the
  invariant shows that an entry outlives its grants, so both are the same.
\<close>

record lock_entry =
  lk_readers :: int
  lk_writer :: bool
  lk_waitingReaders :: "nat list"
  lk_waitingWriters :: "nat list"

record grant =
  gr_id :: nat
  gr_key :: string
  gr_writer :: bool

record lock_world =
  lw_locks :: "(string, lock_entry) jmap"
  lw_grants :: "grant list"
  lw_next :: nat

definition empty_lock :: lock_entry where
  "empty_lock = \<lparr>lk_readers = 0, lk_writer = False, lk_waitingReaders = [], lk_waitingWriters = []\<rparr>"

definition lock_get :: "string \<Rightarrow> lock_world \<Rightarrow> lock_entry" where
  "lock_get key s = (case jget (lw_locks s) key of None \<Rightarrow> empty_lock | Some l \<Rightarrow> l)"

definition lock_put :: "string \<Rightarrow> lock_entry \<Rightarrow> lock_world \<Rightarrow> lock_world" where
  "lock_put key l s = s\<lparr>lw_locks := jset (lw_locks s) key l\<rparr>"

definition grant_all :: "string \<Rightarrow> bool \<Rightarrow> nat list \<Rightarrow> lock_world \<Rightarrow> lock_world" where
  "grant_all key wr ids s =
     s\<lparr>lw_grants := lw_grants s @ map (\<lambda>i. \<lparr>gr_id = i, gr_key = key, gr_writer = wr\<rparr>) ids\<rparr>"

definition lock_process :: "string \<Rightarrow> lock_world \<Rightarrow> lock_world" where
  "lock_process key s =
     (case jget (lw_locks s) key of
        None \<Rightarrow> s
      | Some l \<Rightarrow>
          (if lk_writer l \<or> lk_readers l > 0 then s
           else case lk_waitingWriters l of
               nextWriter # rest \<Rightarrow>
                 grant_all key True [nextWriter]
                   (lock_put key (l\<lparr>lk_waitingWriters := rest, lk_writer := True\<rparr>) s)
             | [] \<Rightarrow>
                 (let woken = lk_waitingReaders l;
                      l' = l\<lparr>lk_waitingReaders := [], lk_readers := lk_readers l + int (length woken)\<rparr>;
                      s' = grant_all key False woken (lock_put key l' s)
                  in if lk_readers l' = 0 \<and> \<not> lk_writer l' \<and> lk_waitingReaders l' = [] \<and>
                        lk_waitingWriters l' = []
                     then s'\<lparr>lw_locks := jdel (lw_locks s') key\<rparr> else s')))"

definition lock_read :: "string \<Rightarrow> lock_world \<Rightarrow> lock_world" where
  "lock_read key s0 =
     (let l = lock_get key s0; i = lw_next s0; s = s0\<lparr>lw_next := Suc i\<rparr>
      in if \<not> lk_writer l \<and> lk_waitingWriters l = []
         then grant_all key False [i] (lock_put key (l\<lparr>lk_readers := lk_readers l + 1\<rparr>) s)
         else lock_put key (l\<lparr>lk_waitingReaders := lk_waitingReaders l @ [i]\<rparr>) s)"

definition lock_write :: "string \<Rightarrow> lock_world \<Rightarrow> lock_world" where
  "lock_write key s0 =
     (let l = lock_get key s0; i = lw_next s0; s = s0\<lparr>lw_next := Suc i\<rparr>
      in if \<not> lk_writer l \<and> lk_readers l = 0
         then grant_all key True [i] (lock_put key (l\<lparr>lk_writer := True\<rparr>) s)
         else lock_put key (l\<lparr>lk_waitingWriters := lk_waitingWriters l @ [i]\<rparr>) s)"

definition lock_dispose :: "grant \<Rightarrow> lock_world \<Rightarrow> lock_world" where
  "lock_dispose g s =
     (let s' = s\<lparr>lw_grants := remove1 g (lw_grants s)\<rparr>
      in case jget (lw_locks s) (gr_key g) of
           None \<Rightarrow> s'
         | Some l \<Rightarrow>
             lock_process (gr_key g)
               (lock_put (gr_key g)
                  (if gr_writer g then l\<lparr>lk_writer := False\<rparr> else l\<lparr>lk_readers := lk_readers l - 1\<rparr>) s'))"

definition lock_init :: lock_world where
  "lock_init = \<lparr>lw_locks = [], lw_grants = [], lw_next = 0\<rparr>"

inductive lock_reach :: "lock_world \<Rightarrow> bool" where
  start: "lock_reach lock_init"
| do_read: "lock_reach s \<Longrightarrow> lock_reach (lock_read key s)"
| do_write: "lock_reach s \<Longrightarrow> lock_reach (lock_write key s)"
| do_dispose: "lock_reach s \<Longrightarrow> g \<in> set (lw_grants s) \<Longrightarrow> lock_reach (lock_dispose g s)"

section \<open>The invariant\<close>

definition held :: "string \<Rightarrow> bool \<Rightarrow> lock_world \<Rightarrow> nat" where
  "held k wr s = length (filter (\<lambda>g. gr_key g = k \<and> gr_writer g = wr) (lw_grants s))"

definition waiting :: "string \<Rightarrow> lock_world \<Rightarrow> nat list" where
  "waiting k s = lk_waitingWriters (lock_get k s) @ lk_waitingReaders (lock_get k s)"

text \<open>What an entry must say about the grants of its key. The last line is the absence of lost
  wake-ups: whoever waits, waits for somebody.\<close>

definition entry_ok :: "nat \<Rightarrow> nat \<Rightarrow> lock_entry \<Rightarrow> bool" where
  "entry_ok readers writers l \<longleftrightarrow>
     lk_readers l = int readers \<and> writers = (if lk_writer l then 1 else 0) \<and>
     (lk_writer l \<longrightarrow> readers = 0) \<and>
     (lk_waitingWriters l @ lk_waitingReaders l \<noteq> [] \<longrightarrow> lk_writer l \<or> 0 < readers) \<and>
     (lk_waitingReaders l \<noteq> [] \<longrightarrow> lk_writer l \<or> lk_waitingWriters l \<noteq> [])"

definition lock_inv :: "lock_world \<Rightarrow> bool" where
  "lock_inv s \<longleftrightarrow> (\<forall>k. entry_ok (held k False s) (held k True s) (lock_get k s)) \<and>
     (\<forall>g \<in> set (lw_grants s). jget (lw_locks s) (gr_key g) \<noteq> None)"

lemma lock_put_simps [simp]:
  "lock_get k (lock_put key l s) = (if k = key then l else lock_get k s)"
  "lw_grants (lock_put key l s) = lw_grants s"
  "held k wr (lock_put key l s) = held k wr s"
  "jget (lw_locks (lock_put key l s)) k = (if k = key then Some l else jget (lw_locks s) k)"
  by (simp_all add: lock_get_def lock_put_def held_def jget_jset)

lemma grant_all_simps [simp]:
  "lock_get k (grant_all key w ids s) = lock_get k s"
  "lw_locks (grant_all key w ids s) = lw_locks s"
  "lw_next (grant_all key w ids s) = lw_next s"
  "held k wr (grant_all key w ids s) = held k wr s + (if k = key \<and> wr = w then length ids else 0)"
  by (simp_all add: lock_get_def grant_all_def held_def filter_map comp_def)

lemma lw_grants_grant_all [simp]:
  "lw_grants (grant_all key w ids s) =
     lw_grants s @ map (\<lambda>i. \<lparr>gr_id = i, gr_key = key, gr_writer = w\<rparr>) ids"
  by (simp add: grant_all_def)

lemma next_simps [simp]:
  "lock_get k (s\<lparr>lw_next := n\<rparr>) = lock_get k s" "held k wr (s\<lparr>lw_next := n\<rparr>) = held k wr s"
  by (simp_all add: lock_get_def held_def)

lemma grants_simps [simp]:
  "lock_get k (s\<lparr>lw_grants := gs\<rparr>) = lock_get k s"
  by (simp add: lock_get_def)

lemma lock_get_Some: "jget (lw_locks s) k = Some l \<Longrightarrow> lock_get k s = l"
  by (simp add: lock_get_def)

lemma held_remove:
  assumes "g \<in> set (lw_grants s)"
  shows "held k wr (s\<lparr>lw_grants := remove1 g (lw_grants s)\<rparr>) =
    held k wr s - (if gr_key g = k \<and> gr_writer g = wr then 1 else 0)"
  using assms by (auto simp: held_def filter_remove1 length_remove1)

lemma held_pos: "g \<in> set (lw_grants s) \<Longrightarrow> 0 < held (gr_key g) (gr_writer g) s"
  by (auto simp: held_def filter_empty_conv)

text \<open>Waking up restores what may be broken for one key: somebody waits for nobody.\<close>

lemma process_inv:
  assumes others: "\<And>k. k \<noteq> key \<Longrightarrow> entry_ok (held k False s) (held k True s) (lock_get k s)"
    and entry: "jget (lw_locks s) key = Some l" "lk_readers l = int (held key False s)"
      "held key True s = (if lk_writer l then 1 else 0)" "lk_writer l \<longrightarrow> held key False s = 0"
      "lk_waitingReaders l \<noteq> [] \<longrightarrow> 0 < held key False s \<longrightarrow> lk_waitingWriters l \<noteq> []"
    and dom: "\<forall>g \<in> set (lw_grants s). jget (lw_locks s) (gr_key g) \<noteq> None"
  shows "lock_inv (lock_process key s)"
proof (cases "lk_writer l \<or> lk_readers l > 0")
  case True
  then have "lock_process key s = s" using entry(1) by (simp add: lock_process_def)
  moreover have "entry_ok (held key False s) (held key True s) (lock_get key s)"
    using True entry lock_get_Some [OF entry(1)] by (auto simp: entry_ok_def)
  ultimately show ?thesis using others dom unfolding lock_inv_def by metis
next
  case False
  then have free: "\<not> lk_writer l" "lk_readers l = 0" "held key False s = 0" "held key True s = 0"
    using entry(2,3) by auto
  show ?thesis
  proof (cases "lk_waitingWriters l")
    case (Cons w ws)
    then have "lock_process key s =
        grant_all key True [w] (lock_put key (l\<lparr>lk_waitingWriters := ws, lk_writer := True\<rparr>) s)"
      using free entry(1) by (simp add: lock_process_def)
    then show ?thesis
      using free others dom entry(1) by (auto simp: lock_inv_def entry_ok_def)
  next
    case Nil
    let ?l' = "l\<lparr>lk_waitingReaders := [], lk_readers := lk_readers l + int (length (lk_waitingReaders l))\<rparr>"
    let ?s' = "grant_all key False (lk_waitingReaders l) (lock_put key ?l' s)"
    have eq: "lock_process key s =
        (if lk_waitingReaders l = [] then ?s'\<lparr>lw_locks := jdel (lw_locks ?s') key\<rparr> else ?s')"
      using free Nil entry(1) by (simp add: lock_process_def Let_def)
    show ?thesis
    proof (cases "lk_waitingReaders l = []")
      case True
      have nobody: "gr_key g \<noteq> key" if "g \<in> set (lw_grants s)" for g
        using held_pos [OF that] free by (cases "gr_writer g") auto
      have "held k wr (lock_process key s) = held k wr s" for k wr
        using eq True by (simp add: held_def grant_all_def lock_put_def)
      moreover have "lock_get k (lock_process key s) = (if k = key then empty_lock else lock_get k s)" for k
        using eq True by (simp add: lock_get_def jget_jdel grant_all_def lock_put_def jget_jset)
      moreover have "lw_grants (lock_process key s) = lw_grants s"
        using eq True by simp
      moreover have "jget (lw_locks (lock_process key s)) k =
          (if k = key then None else jget (lw_locks s) k)" for k
        using eq True by (simp add: jget_jdel)
      moreover have "entry_ok (held k False s) (held k True s) (if k = key then empty_lock else lock_get k s)" for k
        using others [of k] free by (cases "k = key") (simp_all add: entry_ok_def empty_lock_def)
      ultimately show ?thesis
        using dom nobody by (simp add: lock_inv_def)
    next
      case False
      then have "lock_process key s = ?s'" using eq by simp
      then show ?thesis
        using free others dom False Nil by (auto simp: lock_inv_def entry_ok_def)
    qed
  qed
qed

lemma lock_invD:
  assumes "lock_inv s"
  shows "entry_ok (held k False s) (held k True s) (lock_get k s)"
    and "g \<in> set (lw_grants s) \<Longrightarrow> jget (lw_locks s) (gr_key g) \<noteq> None"
  using assms by (auto simp: lock_inv_def)

lemma read_inv:
  assumes "lock_inv s"
  shows "lock_inv (lock_read key s)"
  using lock_invD [OF assms] lock_invD(1) [OF assms, of key]
  by (auto simp: lock_read_def Let_def lock_inv_def entry_ok_def)

lemma write_inv:
  assumes "lock_inv s"
  shows "lock_inv (lock_write key s)"
  using lock_invD [OF assms] lock_invD(1) [OF assms, of key]
  by (auto simp: lock_write_def Let_def lock_inv_def entry_ok_def)

lemma dispose_inv:
  assumes inv: "lock_inv s" and g: "g \<in> set (lw_grants s)"
  shows "lock_inv (lock_dispose g s)"
proof -
  let ?k = "gr_key g"
  obtain l where l: "jget (lw_locks s) ?k = Some l" using lock_invD(2) [OF inv g] by blast
  let ?l = "if gr_writer g then l\<lparr>lk_writer := False\<rparr> else l\<lparr>lk_readers := lk_readers l - 1\<rparr>"
  let ?s = "lock_put ?k ?l (s\<lparr>lw_grants := remove1 g (lw_grants s)\<rparr>)"
  have ok: "entry_ok (held ?k False s) (held ?k True s) l"
    using lock_invD(1) [OF inv, of ?k] lock_get_Some [OF l] by simp
  have eq: "lock_dispose g s = lock_process ?k ?s" using l by (simp add: lock_dispose_def)
  have pos: "0 < held ?k (gr_writer g) s" using g by (rule held_pos)
  show ?thesis unfolding eq
  proof (rule process_inv)
    fix k assume "k \<noteq> ?k"
    then show "entry_ok (held k False ?s) (held k True ?s) (lock_get k ?s)"
      using lock_invD(1) [OF inv, of k] by (simp add: held_remove [OF g])
  next
    show "jget (lw_locks ?s) ?k = Some ?l" by simp
    show "lk_readers ?l = int (held ?k False ?s)" "held ?k True ?s = (if lk_writer ?l then 1 else 0)"
        "lk_writer ?l \<longrightarrow> held ?k False ?s = 0"
        "lk_waitingReaders ?l \<noteq> [] \<longrightarrow> 0 < held ?k False ?s \<longrightarrow> lk_waitingWriters ?l \<noteq> []"
      using ok pos by (cases "gr_writer g"; auto simp: held_remove [OF g] entry_ok_def split: if_splits)+
    show "\<forall>h \<in> set (lw_grants ?s). jget (lw_locks ?s) (gr_key h) \<noteq> None"
      using lock_invD(2) [OF inv] set_remove1_subset [of g "lw_grants s"]
      by (auto simp: lock_put_def jget_jset)
  qed
qed

lemma init_inv: "lock_inv lock_init"
  by (simp add: lock_inv_def lock_init_def held_def lock_get_def empty_lock_def entry_ok_def)

lemma lock_reach_inv: "lock_reach s \<Longrightarrow> lock_inv s"
  by (induction rule: lock_reach.induct) (auto intro: init_inv read_inv write_inv dispose_inv)

section \<open>Properties\<close>

text \<open>C26 (safety): mutual exclusion. In every reachable state a key whose lock is held for
  writing has exactly that one grant; readers never share with a writer.\<close>

theorem writer_excludes_all:
  assumes "lock_reach s" and "g \<in> set (lw_grants s)" and "gr_writer g" and "gr_key g = k"
  shows "held k True s = 1 \<and> held k False s = 0"
proof -
  have "entry_ok (held k False s) (held k True s) (lock_get k s)"
    using lock_invD(1) [OF lock_reach_inv [OF assms(1)]] .
  then show ?thesis using held_pos [OF assms(2)] assms(3,4) by (auto simp: entry_ok_def split: if_splits)
qed

theorem writer_excludes_all_witness:
  "held ''f'' True (lock_write ''f'' (lock_write ''f'' lock_init)) = 1"
proof -
  let ?s = "lock_write ''f'' (lock_write ''f'' lock_init)"
  have "lock_reach ?s" by (intro lock_reach.intros)
  moreover have "\<lparr>gr_id = 0, gr_key = ''f'', gr_writer = True\<rparr> \<in> set (lw_grants ?s)"
    by (simp add: lock_write_def lock_init_def lock_get_def empty_lock_def lock_put_def grant_all_def Let_def)
  ultimately show ?thesis using writer_excludes_all by fastforce
qed

text \<open>C37 (liveness): no lost wake-up. Nobody waits for a free lock: while a request of a key is
  pending the key has a grant whose disposal will look at the queue, and a reader only waits behind
  a writer.\<close>

theorem no_lost_wakeup:
  assumes "lock_reach s"
  shows "(waiting k s \<noteq> [] \<longrightarrow> 0 < held k True s + held k False s) \<and>
    (lk_waitingReaders (lock_get k s) \<noteq> [] \<longrightarrow>
       held k True s = 1 \<or> lk_waitingWriters (lock_get k s) \<noteq> [])"
  using lock_invD(1) [OF lock_reach_inv [OF assms], of k] by (auto simp: entry_ok_def waiting_def)

theorem no_lost_wakeup_witness:
  "0 < held ''f'' True (lock_write ''f'' (lock_write ''f'' lock_init)) +
       held ''f'' False (lock_write ''f'' (lock_write ''f'' lock_init))"
proof -
  let ?s = "lock_write ''f'' (lock_write ''f'' lock_init)"
  have "lock_reach ?s" by (intro lock_reach.intros)
  from no_lost_wakeup [OF this, of "''f''"]
  have "waiting ''f'' ?s \<noteq> [] \<longrightarrow> 0 < held ''f'' True ?s + held ''f'' False ?s" by (rule conjunct1)
  moreover have "waiting ''f'' ?s \<noteq> []"
    by (simp add: waiting_def lock_write_def lock_init_def lock_get_def lock_put_def empty_lock_def Let_def)
  ultimately show ?thesis by (rule mp)
qed

end
