(* ===== verification/Bash_Arity.thy ===== *)
theory Bash_Arity
  imports Js_Prelude
begin

text \<open>
  \<^verbatim>\<open>permission/arity.ts\<close>: how many words of a shell command name what it does. The table is an object
  literal, so a look-up also finds the members every object inherits; such a member is not a number
  and \<open>slice(0, member)\<close> is empty.
\<close>

definition ARITY :: "(string, nat) jmap" where
  "ARITY =
    [(''cat'', 1), (''cd'', 1), (''chmod'', 1), (''chown'', 1), (''cp'', 1), (''echo'', 1),
     (''env'', 1), (''export'', 1), (''grep'', 1), (''kill'', 1), (''killall'', 1), (''ln'', 1),
     (''ls'', 1), (''mkdir'', 1), (''mv'', 1), (''ps'', 1), (''pwd'', 1), (''rm'', 1),
     (''rmdir'', 1), (''sleep'', 1), (''source'', 1), (''tail'', 1), (''touch'', 1),
     (''unset'', 1), (''which'', 1), (''aws'', 3), (''az'', 3), (''bazel'', 2), (''brew'', 2),
     (''bun'', 2), (''bun run'', 3), (''bun x'', 3), (''cargo'', 2), (''cargo add'', 3),
     (''cargo run'', 3), (''cdk'', 2), (''cf'', 2), (''cmake'', 2), (''composer'', 2),
     (''consul'', 2), (''consul kv'', 3), (''crictl'', 2), (''deno'', 2), (''deno task'', 3),
     (''doctl'', 3), (''docker'', 2), (''docker builder'', 3), (''docker compose'', 3),
     (''docker container'', 3), (''docker image'', 3), (''docker network'', 3),
     (''docker volume'', 3), (''eksctl'', 2), (''eksctl create'', 3), (''firebase'', 2),
     (''flyctl'', 2), (''gcloud'', 3), (''gh'', 3), (''git'', 2), (''git config'', 3),
     (''git remote'', 3), (''git stash'', 3), (''go'', 2), (''gradle'', 2), (''helm'', 2),
     (''heroku'', 2), (''hugo'', 2), (''ip'', 2), (''ip addr'', 3), (''ip link'', 3),
     (''ip netns'', 3), (''ip route'', 3), (''kind'', 2), (''kind create'', 3), (''kubectl'', 2),
     (''kubectl kustomize'', 3), (''kubectl rollout'', 3), (''kustomize'', 2), (''make'', 2),
     (''mc'', 2), (''mc admin'', 3), (''minikube'', 2), (''mongosh'', 2), (''mysql'', 2),
     (''mvn'', 2), (''ng'', 2), (''npm'', 2), (''npm exec'', 3), (''npm init'', 3),
     (''npm run'', 3), (''npm view'', 3), (''nvm'', 2), (''nx'', 2), (''openssl'', 2),
     (''openssl req'', 3), (''openssl x509'', 3), (''pip'', 2), (''pipenv'', 2), (''pnpm'', 2),
     (''pnpm dlx'', 3), (''pnpm exec'', 3), (''pnpm run'', 3), (''poetry'', 2), (''podman'', 2),
     (''podman container'', 3), (''podman image'', 3), (''psql'', 2), (''pulumi'', 2),
     (''pulumi stack'', 3), (''pyenv'', 2), (''python'', 2), (''rake'', 2), (''rbenv'', 2),
     (''redis-cli'', 2), (''rustup'', 2), (''serverless'', 2), (''sfdx'', 3), (''skaffold'', 2),
     (''sls'', 2), (''sst'', 2), (''swift'', 2), (''systemctl'', 2), (''terraform'', 2),
     (''terraform workspace'', 3), (''tmux'', 2), (''turbo'', 2), (''ufw'', 2), (''vault'', 2),
     (''vault auth'', 3), (''vault kv'', 3), (''vercel'', 2), (''volta'', 2), (''wp'', 2),
     (''yarn'', 2), (''yarn dlx'', 3), (''yarn run'', 3)]"

definition object_members :: "string list" where
  "object_members = [''constructor'', ''toString'', ''toLocaleString'', ''valueOf'', ''hasOwnProperty'',
     ''isPrototypeOf'', ''propertyIsEnumerable'', ''__proto__'', ''__defineGetter__'',
     ''__defineSetter__'', ''__lookupGetter__'', ''__lookupSetter__'']"

text \<open>The number of words the entry of a prefix keeps.\<close>

definition arity_of :: "string \<Rightarrow> nat option" where
  "arity_of prefix =
     (case jget ARITY prefix of
        Some n \<Rightarrow> Some n
      | None \<Rightarrow> if prefix \<in> set object_members then Some 0 else None)"

fun prefix_loop :: "string list \<Rightarrow> nat \<Rightarrow> string list option" where
  "prefix_loop tokens 0 = None"
| "prefix_loop tokens (Suc n) =
     (case arity_of (js_join '' '' (take (Suc n) tokens)) of
        Some arity \<Rightarrow> Some (take arity tokens)
      | None \<Rightarrow> prefix_loop tokens n)"

definition arity_prefix :: "string list \<Rightarrow> string list" where
  "arity_prefix tokens =
     (case prefix_loop tokens (length tokens) of
        Some r \<Rightarrow> r
      | None \<Rightarrow> if length tokens = 0 then [] else take 1 tokens)"

section \<open>Properties\<close>

lemma prefix_loop_longest:
  "prefix_loop tokens n = r \<Longrightarrow>
   (case r of
      None \<Rightarrow> \<forall>k. 0 < k \<longrightarrow> k \<le> n \<longrightarrow> arity_of (js_join '' '' (take k tokens)) = None
    | Some ts \<Rightarrow> \<exists>k a. 0 < k \<and> k \<le> n \<and> arity_of (js_join '' '' (take k tokens)) = Some a \<and> ts = take a tokens \<and>
        (\<forall>j. k < j \<longrightarrow> j \<le> n \<longrightarrow> arity_of (js_join '' '' (take j tokens)) = None))"
proof (induction n arbitrary: r)
  case 0
  then show ?case by auto
next
  case (Suc n)
  show ?case
  proof (cases "arity_of (js_join '' '' (take (Suc n) tokens))")
    case (Some a)
    then have r: "r = Some (take a tokens)" using Suc.prems by simp
    show ?thesis unfolding r option.case using Some by (intro exI [of _ "Suc n"] exI [of _ a]) simp
  next
    case None
    then have "prefix_loop tokens n = r" using Suc.prems by simp
    from Suc.IH [OF this] show ?thesis using None by (auto split: option.splits simp: le_Suc_eq)
  qed
qed

text \<open>The longest listed prefix decides. If some prefix of the words is listed, the
  result is cut by the entry of the longest one; otherwise it is the first word alone (not the whole
  input, as the comment above the table has it).\<close>

theorem arity_longest_prefix:
  assumes "tokens \<noteq> []"
  shows "(\<exists>k a. 0 < k \<and> k \<le> length tokens \<and> arity_of (js_join '' '' (take k tokens)) = Some a \<and>
      arity_prefix tokens = take a tokens \<and>
      (\<forall>j. k < j \<longrightarrow> j \<le> length tokens \<longrightarrow> arity_of (js_join '' '' (take j tokens)) = None)) \<or>
    (\<forall>k. 0 < k \<longrightarrow> k \<le> length tokens \<longrightarrow> arity_of (js_join '' '' (take k tokens)) = None) \<and>
      arity_prefix tokens = [hd tokens]"
proof (cases "prefix_loop tokens (length tokens)")
  case None
  then show ?thesis
    using prefix_loop_longest [OF None] assms by (auto simp: arity_prefix_def take_Suc)
next
  case (Some ts)
  then show ?thesis using prefix_loop_longest [OF Some] by (auto simp: arity_prefix_def)
qed

theorem arity_longest_prefix_witness:
  "arity_prefix [''frobnicate'', ''now''] = [''frobnicate'']"
proof -
  have "arity_of ''frobnicate'' = None" "arity_of ''frobnicate now'' = None" by code_simp+
  then show ?thesis
    using arity_longest_prefix [of "[''frobnicate'', ''now'']"]
    by (auto simp: le_Suc_eq numeral_2_eq_2 split: if_splits)
qed

end
