(* ===== verification/Lanes.thy ===== *)
theory Lanes
  imports Js_Prelude
begin

text \<open>
  \<^verbatim>\<open>daemon/lanes.ts\<close>: the command lanes of the daemon. A lane is an object that running tasks keep
  while the table may already hold another one for its key, so lanes live in a store and the table
  maps keys to their addresses. The body of a task is not modelled: a started task is an entry of
  \<open>lw_running\<close> until a \<open>finish\<close> event delivers its result. The settlement of every promise is kept in
  \<open>lw_outcomes\<close>.
\<close>

section \<open>Lanes and keys\<close>

datatype command_lane = Main_lane | Cron_lane | Subagent_lane | Nested_lane

definition all_lanes :: "command_lane list" where
  "all_lanes = [Main_lane, Cron_lane, Subagent_lane, Nested_lane]"

fun lane_name :: "command_lane \<Rightarrow> string" where
  "lane_name Main_lane = ''main''"
| "lane_name Cron_lane = ''cron''"
| "lane_name Subagent_lane = ''subagent''"
| "lane_name Nested_lane = ''nested''"

fun DEFAULT_CONCURRENCY :: "command_lane \<Rightarrow> nat" where
  "DEFAULT_CONCURRENCY Main_lane = 1"
| "DEFAULT_CONCURRENCY Cron_lane = 1"
| "DEFAULT_CONCURRENCY Subagent_lane = 2"
| "DEFAULT_CONCURRENCY Nested_lane = 1"

definition DEFAULT_WORKSPACE_ID :: string where "DEFAULT_WORKSPACE_ID = ''default''"

definition buildLaneKey :: "string \<Rightarrow> command_lane \<Rightarrow> string" where
  "buildLaneKey workspaceId lane = workspaceId @ '':'' @ lane_name lane"

definition parseLaneKey :: "string \<Rightarrow> (string \<times> command_lane) option" where
  "parseLaneKey key =
     (if CHR '':'' \<notin> set key then None
      else (let r = rev key;
                lane = rev (takeWhile (\<lambda>c. c \<noteq> CHR '':'') r);
                workspaceId = rev (tl (dropWhile (\<lambda>c. c \<noteq> CHR '':'') r))
            in map_option (\<lambda>l. (workspaceId, l)) (List.find (\<lambda>l. lane_name l = lane) all_lanes)))"

section \<open>The state\<close>

record queue_entry =
  qe_id :: nat
  qe_generation :: nat

record lane_state =
  la_queue :: "queue_entry list"
  la_active :: "nat list"
  la_max :: nat
  la_generation :: nat
  la_draining :: bool

record running_task =
  rt_key :: string
  rt_lane :: nat
  rt_entry :: queue_entry

datatype task_outcome = Task_resolved | Task_failed | Lane_cleared | Gateway_draining

record lanes_world =
  lw_store :: "nat \<Rightarrow> lane_state"
  lw_nextLane :: nat
  lw_lanes :: "(string, nat) jmap"
  lw_taskIdCounter :: nat
  lw_running :: "running_task list"
  lw_outcomes :: "(nat \<times> task_outcome) list"

definition fresh_lane :: "nat \<Rightarrow> lane_state" where
  "fresh_lane maxConcurrent =
     \<lparr>la_queue = [], la_active = [], la_max = maxConcurrent, la_generation = 0, la_draining = False\<rparr>"

definition set_lane :: "string \<Rightarrow> lane_state \<Rightarrow> lanes_world \<Rightarrow> lanes_world" where
  "set_lane key l s =
     s\<lparr>lw_store := (lw_store s)(lw_nextLane s := l), lw_lanes := jset (lw_lanes s) key (lw_nextLane s),
       lw_nextLane := Suc (lw_nextLane s)\<rparr>"

definition put_lane :: "nat \<Rightarrow> lane_state \<Rightarrow> lanes_world \<Rightarrow> lanes_world" where
  "put_lane a l s = s\<lparr>lw_store := (lw_store s)(a := l)\<rparr>"

definition getLane :: "string \<Rightarrow> lanes_world \<Rightarrow> nat \<times> lanes_world" where
  "getLane key s =
     (case jget (lw_lanes s) key of
        Some a \<Rightarrow> (a, s)
      | None \<Rightarrow>
          (let maxConcurrent = (case parseLaneKey key of None \<Rightarrow> 1 | Some (w, l) \<Rightarrow> DEFAULT_CONCURRENCY l)
           in (lw_nextLane s, set_lane key (fresh_lane maxConcurrent) s)))"

definition add_outcomes :: "task_outcome \<Rightarrow> queue_entry list \<Rightarrow> lanes_world \<Rightarrow> lanes_world" where
  "add_outcomes out es s = s\<lparr>lw_outcomes := lw_outcomes s @ map (\<lambda>e. (qe_id e, out)) es\<rparr>"

section \<open>The operations\<close>

definition registerLane :: "string \<Rightarrow> (command_lane \<Rightarrow> nat option) \<Rightarrow> command_lane \<Rightarrow> lanes_world \<Rightarrow> lanes_world" where
  "registerLane workspaceId concurrency lane s =
     set_lane (buildLaneKey workspaceId lane)
       (fresh_lane (case concurrency lane of None \<Rightarrow> DEFAULT_CONCURRENCY lane | Some n \<Rightarrow> n)) s"

definition registerWorkspace :: "string \<Rightarrow> (command_lane \<Rightarrow> nat option) \<Rightarrow> lanes_world \<Rightarrow> lanes_world" where
  "registerWorkspace workspaceId concurrency s = fold (registerLane workspaceId concurrency) all_lanes s"

definition register :: "(command_lane \<Rightarrow> nat option) \<Rightarrow> lanes_world \<Rightarrow> lanes_world" where
  "register overrides = registerWorkspace DEFAULT_WORKSPACE_ID overrides"

definition unregisterLane :: "string \<Rightarrow> command_lane \<Rightarrow> lanes_world \<Rightarrow> lanes_world" where
  "unregisterLane workspaceId lane s =
     (let key = buildLaneKey workspaceId lane
      in case jget (lw_lanes s) key of
           None \<Rightarrow> s
         | Some a \<Rightarrow>
             (add_outcomes Lane_cleared (la_queue (lw_store s a)) s)\<lparr>lw_lanes := jdel (lw_lanes s) key\<rparr>)"

definition unregisterWorkspace :: "string \<Rightarrow> lanes_world \<Rightarrow> lanes_world" where
  "unregisterWorkspace workspaceId s = fold (unregisterLane workspaceId) all_lanes s"

text \<open>The loop of \<open>pump\<close>: the started entries, the rest of the queue and the active set.\<close>

fun pump_loop ::
  "queue_entry list \<Rightarrow> nat list \<Rightarrow> nat \<Rightarrow> queue_entry list \<times> queue_entry list \<times> nat list" where
  "pump_loop [] act mx = ([], [], act)"
| "pump_loop (e # q) act mx =
     (if length act < mx
      then (let (started, q', act') = pump_loop q (act @ [qe_id e]) mx in (e # started, q', act'))
      else ([], e # q, act))"

definition pump :: "string \<Rightarrow> lanes_world \<Rightarrow> lanes_world" where
  "pump key s0 =
     (let (a, s) = getLane key s0; l = lw_store s a
      in if la_draining l then s
         else (let (started, q', act') = pump_loop (la_queue l) (la_active l) (la_max l)
               in (put_lane a (l\<lparr>la_queue := q', la_active := act'\<rparr>) s)
                    \<lparr>lw_running := lw_running s @
                       map (\<lambda>e. \<lparr>rt_key = key, rt_lane = a, rt_entry = e\<rparr>) started\<rparr>))"

definition enqueue :: "bool \<Rightarrow> command_lane \<Rightarrow> string \<Rightarrow> lanes_world \<Rightarrow> (nat + task_outcome) \<times> lanes_world" where
  "enqueue isDraining lane workspaceId s0 =
     (if isDraining then (Inr Gateway_draining, s0)
      else (let key = buildLaneKey workspaceId lane;
                (a, s) = getLane key s0;
                l = lw_store s a;
                i = Suc (lw_taskIdCounter s);
                entry = \<lparr>qe_id = i, qe_generation = la_generation l\<rparr>
            in (Inl i, pump key
                  ((put_lane a (l\<lparr>la_queue := la_queue l @ [entry]\<rparr>) s)\<lparr>lw_taskIdCounter := i\<rparr>))))"

text \<open>The end of \<open>executeEntry\<close>: \<open>ok\<close> tells whether the task resolved.\<close>

definition finish :: "running_task \<Rightarrow> bool \<Rightarrow> lanes_world \<Rightarrow> lanes_world" where
  "finish t ok s =
     (let a = rt_lane t; e = rt_entry t; l = lw_store s a;
          out = (if \<not> ok then Task_failed
                 else if qe_generation e \<noteq> la_generation l then Lane_cleared else Task_resolved);
          s1 = (add_outcomes out [e] s)\<lparr>lw_running := remove1 t (lw_running s)\<rparr>
      in pump (rt_key t) (put_lane a (l\<lparr>la_active := filter (\<lambda>i. i \<noteq> qe_id e) (la_active l)\<rparr>) s1))"

definition reset_one :: "nat \<Rightarrow> lanes_world \<Rightarrow> lanes_world" where
  "reset_one a s =
     (let l = lw_store s a
      in put_lane a (l\<lparr>la_generation := Suc (la_generation l), la_queue := [], la_active := [],
                       la_draining := False\<rparr>)
           (add_outcomes Lane_cleared (la_queue l) s))"

definition resetAll :: "lanes_world \<Rightarrow> lanes_world" where
  "resetAll s = fold reset_one (map snd (lw_lanes s)) s"

definition totalActiveTasks :: "lanes_world \<Rightarrow> nat" where
  "totalActiveTasks s = sum_list (map (\<lambda>(key, a). length (la_active (lw_store s a))) (lw_lanes s))"

definition queueSize :: "command_lane \<Rightarrow> string \<Rightarrow> lanes_world \<Rightarrow> nat" where
  "queueSize lane workspaceId s =
     (case jget (lw_lanes s) (buildLaneKey workspaceId lane) of
        None \<Rightarrow> 0
      | Some a \<Rightarrow> length (la_queue (lw_store s a)) + length (la_active (lw_store s a)))"

definition workspaceActiveTasks :: "string \<Rightarrow> lanes_world \<Rightarrow> nat" where
  "workspaceActiveTasks workspaceId s =
     sum_list (map (\<lambda>(key, a). if js_starts_with key (workspaceId @ '':'')
                               then length (la_active (lw_store s a)) else 0) (lw_lanes s))"

definition isIdle :: "lanes_world \<Rightarrow> bool" where
  "isIdle s \<longleftrightarrow> totalActiveTasks s = 0"

definition isWorkspaceIdle :: "string \<Rightarrow> lanes_world \<Rightarrow> bool" where
  "isWorkspaceIdle workspaceId s \<longleftrightarrow> workspaceActiveTasks workspaceId s = 0"

record lane_info =
  li_queued :: nat
  li_active :: nat
  li_maxConcurrent :: nat
  li_generation :: nat

definition lanes_info :: "lanes_world \<Rightarrow> (string, lane_info) jmap" where
  "lanes_info s =
     map (\<lambda>(key, a). let l = lw_store s a in
       (key, \<lparr>li_queued = length (la_queue l), li_active = length (la_active l),
              li_maxConcurrent = la_max l, li_generation = la_generation l\<rparr>)) (lw_lanes s)"

definition lanes_init :: lanes_world where
  "lanes_init = \<lparr>lw_store = (\<lambda>a. fresh_lane 0), lw_nextLane = 0, lw_lanes = [], lw_taskIdCounter = 0,
     lw_running = [], lw_outcomes = []\<rparr>"

inductive lanes_step :: "lanes_world \<Rightarrow> lanes_world \<Rightarrow> bool" where
  enqueues: "lanes_step s (snd (enqueue draining lane w s))"
| finishes: "t \<in> set (lw_running s) \<Longrightarrow> lanes_step s (finish t ok s)"
| resets: "lanes_step s (resetAll s)"
| registers: "lanes_step s (registerWorkspace w conc s)"
| unregisters: "lanes_step s (unregisterWorkspace w s)"

inductive lanes_reach :: "lanes_world \<Rightarrow> bool" where
  start: "lanes_reach lanes_init"
| step: "lanes_reach s \<Longrightarrow> lanes_step s s' \<Longrightarrow> lanes_reach s'"

section \<open>The invariant\<close>

definition running_on :: "nat \<Rightarrow> lanes_world \<Rightarrow> queue_entry list" where
  "running_on a s = map rt_entry (filter (\<lambda>t. rt_lane t = a) (lw_running s))"

definition current :: "lane_state \<Rightarrow> queue_entry list \<Rightarrow> queue_entry list" where
  "current l rs = filter (\<lambda>e. qe_generation e = la_generation l) rs"

text \<open>A lane and the tasks that hold it: identifiers are unique, the active set is the set of running
  tasks of the current generation, and it respects the limit.\<close>

definition lane_ok :: "nat \<Rightarrow> lane_state \<Rightarrow> queue_entry list \<Rightarrow> bool" where
  "lane_ok counter l rs \<longleftrightarrow>
     distinct (map qe_id (rs @ la_queue l)) \<and> (\<forall>e \<in> set (rs @ la_queue l). qe_id e \<le> counter) \<and>
     distinct (la_active l) \<and> set (la_active l) = qe_id ` set (current l rs) \<and>
     (\<forall>e \<in> set (la_queue l). qe_generation e = la_generation l) \<and>
     (\<forall>e \<in> set rs. qe_generation e \<le> la_generation l) \<and>
     length (la_active l) \<le> la_max l \<and> \<not> la_draining l"

definition base_inv :: "lanes_world \<Rightarrow> bool" where
  "base_inv s \<longleftrightarrow>
     (\<forall>a. lane_ok (lw_taskIdCounter s) (lw_store s a) (running_on a s)) \<and>
     (\<forall>k a. jget (lw_lanes s) k = Some a \<longrightarrow> a < lw_nextLane s) \<and>
     (\<forall>k k' a. jget (lw_lanes s) k = Some a \<longrightarrow> jget (lw_lanes s) k' = Some a \<longrightarrow> k = k') \<and>
     (\<forall>t \<in> set (lw_running s). rt_lane t < lw_nextLane s \<and>
        (\<forall>k. jget (lw_lanes s) k = Some (rt_lane t) \<longrightarrow> k = rt_key t))"

text \<open>A lane does not idle: entries only wait while the lane is full.\<close>

definition busy :: "string \<Rightarrow> lanes_world \<Rightarrow> bool" where
  "busy k s \<longleftrightarrow> (case jget (lw_lanes s) k of None \<Rightarrow> True
     | Some a \<Rightarrow> la_queue (lw_store s a) \<noteq> [] \<longrightarrow> la_max (lw_store s a) \<le> length (la_active (lw_store s a)))"

definition lanes_inv :: "lanes_world \<Rightarrow> bool" where
  "lanes_inv s \<longleftrightarrow> base_inv s \<and> (\<forall>k. busy k s)"

lemma base_invD:
  assumes "base_inv s"
  shows "lane_ok (lw_taskIdCounter s) (lw_store s a) (running_on a s)"
    and "jget (lw_lanes s) k = Some a \<Longrightarrow> a < lw_nextLane s"
    and "jget (lw_lanes s) k = Some a \<Longrightarrow> jget (lw_lanes s) k' = Some a \<Longrightarrow> k = k'"
    and "t \<in> set (lw_running s) \<Longrightarrow> rt_lane t < lw_nextLane s"
    and "t \<in> set (lw_running s) \<Longrightarrow> jget (lw_lanes s) k = Some (rt_lane t) \<Longrightarrow> k = rt_key t"
  using assms unfolding base_inv_def by blast+

lemma running_on_fresh: "base_inv s \<Longrightarrow> running_on (lw_nextLane s) s = []"
  using base_invD(4) by (fastforce simp: running_on_def filter_empty_conv)

lemma lane_ok_fresh: "lane_ok c (fresh_lane n) []"
  by (simp add: lane_ok_def fresh_lane_def current_def)

lemma set_lane_simps [simp]:
  "lw_running (set_lane k l s) = lw_running s" "lw_taskIdCounter (set_lane k l s) = lw_taskIdCounter s"
  "running_on a (set_lane k l s) = running_on a s"
  "jget (lw_lanes (set_lane k l s)) k' = (if k' = k then Some (lw_nextLane s) else jget (lw_lanes s) k')"
  "lw_store (set_lane k l s) a = (if a = lw_nextLane s then l else lw_store s a)"
  "lw_nextLane (set_lane k l s) = Suc (lw_nextLane s)"
  "lw_outcomes (set_lane k l s) = lw_outcomes s"
  by (simp_all add: set_lane_def running_on_def jget_jset)

lemma put_lane_simps [simp]:
  "lw_running (put_lane a l s) = lw_running s" "lw_taskIdCounter (put_lane a l s) = lw_taskIdCounter s"
  "running_on b (put_lane a l s) = running_on b s" "lw_lanes (put_lane a l s) = lw_lanes s"
  "lw_store (put_lane a l s) b = (if b = a then l else lw_store s b)"
  "lw_nextLane (put_lane a l s) = lw_nextLane s" "lw_outcomes (put_lane a l s) = lw_outcomes s"
  by (simp_all add: put_lane_def running_on_def)

lemma add_outcomes_simps [simp]:
  "lw_running (add_outcomes o' es s) = lw_running s"
  "lw_taskIdCounter (add_outcomes o' es s) = lw_taskIdCounter s"
  "running_on b (add_outcomes o' es s) = running_on b s" "lw_lanes (add_outcomes o' es s) = lw_lanes s"
  "lw_store (add_outcomes o' es s) = lw_store s" "lw_nextLane (add_outcomes o' es s) = lw_nextLane s"
  by (simp_all add: add_outcomes_def running_on_def)

lemma set_lane_base:
  assumes "base_inv s"
  shows "base_inv (set_lane k (fresh_lane n) s)"
proof -
  have "lane_ok (lw_taskIdCounter s) (lw_store (set_lane k (fresh_lane n) s) a) (running_on a s)" for a
    using base_invD(1) [OF assms] running_on_fresh [OF assms] lane_ok_fresh by simp
  moreover have "a < Suc (lw_nextLane s)" if "jget (lw_lanes s) k' = Some a" for k' a
    using base_invD(2) [OF assms that] by simp
  moreover have "jget (lw_lanes s) k' \<noteq> Some (lw_nextLane s)" for k'
    using base_invD(2) [OF assms, of k' "lw_nextLane s"] by auto
  moreover have "rt_lane t < Suc (lw_nextLane s) \<and> rt_lane t \<noteq> lw_nextLane s"
    if "t \<in> set (lw_running s)" for t using base_invD(4) [OF assms that] by simp
  ultimately show ?thesis
    using base_invD(3,5) [OF assms] unfolding base_inv_def by (auto split: if_splits) blast
qed

lemma set_lane_busy:
  assumes "base_inv s" and "busy k' s"
  shows "busy k' (set_lane k (fresh_lane n) s)"
  using assms(2) base_invD(2) [OF assms(1), of k' "lw_nextLane s"]
  by (auto simp: busy_def fresh_lane_def split: option.splits)

lemma getLane_spec:
  assumes "base_inv s" and "getLane key s = (a, s')"
  shows "base_inv s' \<and> jget (lw_lanes s') key = Some a \<and> (\<forall>k. busy k s \<longrightarrow> busy k s') \<and>
    lw_running s' = lw_running s \<and> lw_taskIdCounter s' = lw_taskIdCounter s"
  using assms set_lane_base [OF assms(1)] set_lane_busy [OF assms(1)]
  by (auto simp: getLane_def Let_def split: option.splits)

lemma pump_loop_spec:
  "pump_loop q act mx = (started, q', act') \<Longrightarrow>
   q = started @ q' \<and> act' = act @ map qe_id started \<and>
   (length act \<le> mx \<longrightarrow> length act' \<le> mx) \<and> (q' \<noteq> [] \<longrightarrow> mx \<le> length act')"
proof (induction q arbitrary: act started q' act')
  case Nil
  then show ?case by simp
next
  case (Cons e q)
  show ?case
  proof (cases "length act < mx")
    case True
    obtain st q1 a1 where r: "pump_loop q (act @ [qe_id e]) mx = (st, q1, a1)" by (metis prod_cases3)
    then show ?thesis using Cons.IH [OF r] Cons.prems True by auto
  next
    case False
    then show ?thesis using Cons.prems by auto
  qed
qed

text \<open>Starting the head of the queue keeps a lane well-formed.\<close>

lemma lane_ok_start:
  assumes ok: "lane_ok c l rs" and q: "la_queue l = started @ q'"
    and act: "length (la_active l @ map qe_id started) \<le> la_max l"
  shows "lane_ok c (l\<lparr>la_queue := q', la_active := la_active l @ map qe_id started\<rparr>) (rs @ started)"
proof -
  have gen: "current l started = started"
    using ok q by (auto simp: lane_ok_def current_def filter_id_conv)
  then have cur: "set (la_active l @ map qe_id started) = qe_id ` set (current l (rs @ started))"
    using ok by (auto simp: lane_ok_def current_def)
  have ids: "distinct (map qe_id rs @ map qe_id started @ map qe_id q')"
    using ok q by (simp add: lane_ok_def)
  have "set (la_active l) \<subseteq> qe_id ` set rs" using ok by (auto simp: lane_ok_def current_def)
  moreover have "qe_id ` set rs \<inter> qe_id ` set started = {}" and "distinct (map qe_id started)"
    using ids by auto
  ultimately have "set (la_active l) \<inter> qe_id ` set started = {}" by blast
  then have dist: "distinct (la_active l @ map qe_id started)"
    using ok \<open>distinct (map qe_id started)\<close> by (simp add: lane_ok_def)
  then show ?thesis
    using ok q act ids cur dist unfolding lane_ok_def by (auto simp: current_def)
qed

lemma pump_inv:
  assumes inv: "base_inv s"
  shows "base_inv (pump key s) \<and> busy key (pump key s) \<and> (\<forall>k. k \<noteq> key \<longrightarrow> busy k s \<longrightarrow> busy k (pump key s))"
proof -
  obtain a s1 where g: "getLane key s = (a, s1)" by fastforce
  note spec = getLane_spec [OF inv g]
  then have inv1: "base_inv s1" and a: "jget (lw_lanes s1) key = Some a" by blast+
  let ?l = "lw_store s1 a"
  have ok: "lane_ok (lw_taskIdCounter s1) ?l (running_on a s1)" by (rule base_invD(1) [OF inv1])
  obtain st q' act' where p: "pump_loop (la_queue ?l) (la_active ?l) (la_max ?l) = (st, q', act')"
    by (metis prod_cases3)
  have ps: "la_queue ?l = st @ q'" "act' = la_active ?l @ map qe_id st"
      "length (la_active ?l) \<le> la_max ?l \<longrightarrow> length act' \<le> la_max ?l"
      "q' \<noteq> [] \<longrightarrow> la_max ?l \<le> length act'"
    using pump_loop_spec [OF p] by blast+
  let ?new = "map (\<lambda>e. \<lparr>rt_key = key, rt_lane = a, rt_entry = e\<rparr>) st"
  let ?l' = "?l\<lparr>la_queue := q', la_active := act'\<rparr>"
  let ?s2 = "(put_lane a ?l' s1)\<lparr>lw_running := lw_running s1 @ ?new\<rparr>"
  have eq: "pump key s = ?s2" using ok p by (simp add: pump_def g Let_def lane_ok_def)
  have sel: "lw_lanes ?s2 = lw_lanes s1" "lw_nextLane ?s2 = lw_nextLane s1"
      "lw_taskIdCounter ?s2 = lw_taskIdCounter s1" "lw_running ?s2 = lw_running s1 @ ?new"
      "\<And>b. lw_store ?s2 b = (if b = a then ?l' else lw_store s1 b)" by (simp_all add: put_lane_def)
  have run: "running_on b ?s2 = (if b = a then running_on a s1 @ st else running_on b s1)" for b
    by (simp add: running_on_def put_lane_def filter_map comp_def)
  have lane: "lane_ok (lw_taskIdCounter s1) ?l' (running_on a s1 @ st)"
  proof -
    have "length (la_active ?l) \<le> la_max ?l" using ok unfolding lane_ok_def by blast
    then have "length (la_active ?l @ map qe_id st) \<le> la_max ?l" using ps(2,3) by blast
    from lane_ok_start [OF ok ps(1) this] show ?thesis unfolding ps(2) .
  qed
  have ok2: "lane_ok (lw_taskIdCounter ?s2) (lw_store ?s2 b) (running_on b ?s2)" for b
    unfolding run sel using lane base_invD(1) [OF inv1] by simp
  have run2: "rt_lane t < lw_nextLane s1 \<and> (\<forall>k. jget (lw_lanes s1) k = Some (rt_lane t) \<longrightarrow> k = rt_key t)"
    if t: "t \<in> set (lw_running ?s2)" for t
  proof -
    from t consider "t \<in> set (lw_running s1)" | "rt_lane t = a" "rt_key t = key" unfolding sel by auto
    then show ?thesis
    proof cases
      case 1
      then show ?thesis using base_invD(4,5) [OF inv1] by blast
    next
      case 2
      then show ?thesis using base_invD(2) [OF inv1 a] base_invD(3) [OF inv1 _ a] by simp
    qed
  qed
  have base2: "base_inv ?s2"
    using inv1 ok2 run2 unfolding base_inv_def sel(1,2) by blast
  have "busy key ?s2" unfolding busy_def sel a using ps(4) by simp
  moreover have "busy k ?s2" if "k \<noteq> key" "busy k s" for k
  proof -
    have "busy k s1" using spec that(2) by blast
    moreover have "jget (lw_lanes s1) k \<noteq> Some a" using base_invD(3) [OF inv1 _ a] that(1) by blast
    ultimately show ?thesis unfolding busy_def sel by (auto split: option.splits)
  qed
  ultimately show ?thesis using base2 unfolding eq by blast
qed

lemma lane_ok_push:
  assumes ok: "lane_ok c l rs" and e: "qe_id e = Suc c" "qe_generation e = la_generation l"
  shows "lane_ok (Suc c) (l\<lparr>la_queue := la_queue l @ [e]\<rparr>) rs"
proof -
  have le: "\<forall>x \<in> set (rs @ la_queue l). qe_id x \<le> c" using ok unfolding lane_ok_def by blast
  then have "Suc c \<notin> qe_id ` set (rs @ la_queue l)" by fastforce
  then have "distinct (map qe_id (rs @ la_queue l) @ [qe_id e])"
    unfolding e(1) distinct_append using ok by (simp add: lane_ok_def image_Un)
  then have "distinct (map qe_id ((rs @ la_queue l) @ [e]))" by (simp only: map_append list.map)
  moreover have "\<forall>x \<in> set ((rs @ la_queue l) @ [e]). qe_id x \<le> Suc c"
    using le e(1) unfolding set_append by (auto intro: le_SucI)
  ultimately show ?thesis using ok e(2) unfolding lane_ok_def by (simp add: current_def)
qed

lemma enqueue_inv:
  assumes "lanes_inv s"
  shows "lanes_inv (snd (enqueue draining lane w s))"
proof (cases draining)
  case True
  then show ?thesis using assms by (simp add: enqueue_def)
next
  case False
  let ?key = "buildLaneKey w lane"
  obtain a s1 where g: "getLane ?key s = (a, s1)" by fastforce
  have inv1: "base_inv s1" and a: "jget (lw_lanes s1) ?key = Some a" and busy1: "\<forall>k. busy k s1"
    using getLane_spec [OF _ g] assms unfolding lanes_inv_def by blast+
  let ?l = "lw_store s1 a" and ?i = "Suc (lw_taskIdCounter s1)"
  let ?e = "\<lparr>qe_id = ?i, qe_generation = la_generation ?l\<rparr>"
  let ?s2 = "(put_lane a (?l\<lparr>la_queue := la_queue ?l @ [?e]\<rparr>) s1)\<lparr>lw_taskIdCounter := ?i\<rparr>"
  have c: "lw_taskIdCounter s1 = lw_taskIdCounter s"
    using getLane_spec [OF _ g] assms unfolding lanes_inv_def by blast
  have eq: "snd (enqueue draining lane w s) = pump ?key ?s2"
    using False c by (simp add: enqueue_def g Let_def)
  have grow: "lane_ok ?i l rs" if "lane_ok (lw_taskIdCounter s1) l rs" for l rs
    using that unfolding lane_ok_def by (meson le_SucI)
  have new: "lane_ok ?i (?l\<lparr>la_queue := la_queue ?l @ [?e]\<rparr>) (running_on a s1)"
    using lane_ok_push [OF base_invD(1) [OF inv1, of a]] by simp
  have sel: "lw_lanes ?s2 = lw_lanes s1" "lw_nextLane ?s2 = lw_nextLane s1" "lw_taskIdCounter ?s2 = ?i"
      "lw_running ?s2 = lw_running s1" "\<And>b. running_on b ?s2 = running_on b s1"
      "\<And>b. lw_store ?s2 b = (if b = a then ?l\<lparr>la_queue := la_queue ?l @ [?e]\<rparr> else lw_store s1 b)"
    by (simp_all add: put_lane_def running_on_def)
  have base2: "base_inv ?s2"
    using inv1 new grow unfolding base_inv_def sel by simp
  have "busy k ?s2" if "k \<noteq> ?key" for k
    using busy1 base_invD(3) [OF inv1 _ a, of k] that unfolding busy_def sel by (auto split: option.splits)
  then show ?thesis using pump_inv [OF base2, of ?key] unfolding lanes_inv_def eq by metis
qed

lemma filter_remove1_rest: "\<not> P x \<Longrightarrow> filter P (remove1 x xs) = filter P xs"
  by (induction xs) auto

lemma remove1_decomp: "x \<in> set xs \<Longrightarrow> \<exists>ys zs. xs = ys @ x # zs \<and> remove1 x xs = ys @ zs"
  using remove1_split [of x xs "remove1 x xs"] by blast

text \<open>Ending a task removes it from its lane's running tasks and, if it is of the current generation,
  from the active set.\<close>

lemma lane_ok_end:
  assumes ok: "lane_ok c l (xs @ e # ys)"
  shows "lane_ok c (l\<lparr>la_active := filter (\<lambda>i. i \<noteq> qe_id e) (la_active l)\<rparr>) (xs @ ys)"
proof -
  have other: "qe_id x \<noteq> qe_id e" if "x \<in> set (xs @ ys)" for x
    using ok that by (auto simp: lane_ok_def rev_image_eqI)
  have "set (filter (\<lambda>i. i \<noteq> qe_id e) (la_active l)) = qe_id ` set (current l (xs @ e # ys)) - {qe_id e}"
    using ok by (auto simp: lane_ok_def)
  also have "\<dots> = qe_id ` set (current l (xs @ ys))" using other by (auto simp: current_def)
  finally have act: "set (filter (\<lambda>i. i \<noteq> qe_id e) (la_active l)) = qe_id ` set (current l (xs @ ys))" .
  have "length (filter (\<lambda>i. i \<noteq> qe_id e) (la_active l)) \<le> la_max l"
    by (rule le_trans [OF length_filter_le]) (use ok in \<open>simp add: lane_ok_def\<close>)
  then show ?thesis using ok act unfolding lane_ok_def by (auto simp: current_def)
qed

lemma finish_inv:
  assumes inv: "lanes_inv s" and t: "t \<in> set (lw_running s)"
  shows "lanes_inv (finish t ok s)"
proof -
  let ?a = "rt_lane t" and ?e = "rt_entry t"
  let ?l = "lw_store s ?a"
  let ?l' = "?l\<lparr>la_active := filter (\<lambda>i. i \<noteq> qe_id ?e) (la_active ?l)\<rparr>"
  let ?out = "if \<not> ok then Task_failed
      else if qe_generation ?e \<noteq> la_generation ?l then Lane_cleared else Task_resolved"
  let ?s2 = "put_lane ?a ?l' ((add_outcomes ?out [?e] s)\<lparr>lw_running := remove1 t (lw_running s)\<rparr>)"
  have base: "base_inv s" using inv unfolding lanes_inv_def by blast
  have eq: "finish t ok s = pump (rt_key t) ?s2" by (simp add: finish_def Let_def)
  obtain ys zs where d: "lw_running s = ys @ t # zs" "remove1 t (lw_running s) = ys @ zs"
    using remove1_decomp [OF t] by blast
  have sel: "lw_lanes ?s2 = lw_lanes s" "lw_nextLane ?s2 = lw_nextLane s"
      "lw_taskIdCounter ?s2 = lw_taskIdCounter s" "lw_running ?s2 = ys @ zs"
      "\<And>b. lw_store ?s2 b = (if b = ?a then ?l' else lw_store s b)"
    using d by (simp_all add: put_lane_def add_outcomes_def)
  let ?on = "\<lambda>b xs. map rt_entry (filter (\<lambda>u. rt_lane u = b) xs)"
  have run: "running_on b ?s2 = ?on b ys @ ?on b zs" for b
    using d by (simp add: running_on_def put_lane_def add_outcomes_def)
  have before: "running_on b s = ?on b ys @ (if b = ?a then [?e] else []) @ ?on b zs" for b
    using d by (simp add: running_on_def)
  have "lane_ok (lw_taskIdCounter s) ?l' (?on ?a ys @ ?on ?a zs)"
    using base_invD(1) [OF base, of ?a] unfolding before by (intro lane_ok_end) simp
  moreover have "lane_ok (lw_taskIdCounter s) (lw_store s b) (?on b ys @ ?on b zs)" if "b \<noteq> ?a" for b
    using base_invD(1) [OF base, of b] that unfolding before by simp
  ultimately have ok2: "lane_ok (lw_taskIdCounter ?s2) (lw_store ?s2 b) (running_on b ?s2)" for b
    unfolding run sel by simp
  have "set (ys @ zs) \<subseteq> set (lw_running s)" using d by auto
  then have base2: "base_inv ?s2"
    using base ok2 unfolding base_inv_def sel(1,2,4) by blast
  have "busy k ?s2" if "k \<noteq> rt_key t" for k
  proof -
    have "jget (lw_lanes s) k \<noteq> Some ?a" using base_invD(5) [OF base t] that by blast
    moreover have "busy k s" using inv unfolding lanes_inv_def by blast
    ultimately show ?thesis unfolding busy_def sel by (auto split: option.splits)
  qed
  then show ?thesis using pump_inv [OF base2, of "rt_key t"] unfolding lanes_inv_def eq by metis
qed

lemma set_lane_inv: "lanes_inv s \<Longrightarrow> lanes_inv (set_lane k (fresh_lane n) s)"
  using set_lane_base set_lane_busy unfolding lanes_inv_def by blast

lemma fold_inv: "(\<And>x s. lanes_inv s \<Longrightarrow> lanes_inv (f x s)) \<Longrightarrow> lanes_inv s \<Longrightarrow> lanes_inv (fold f xs s)"
  by (induction xs arbitrary: s) auto

lemma register_inv: "lanes_inv s \<Longrightarrow> lanes_inv (registerWorkspace w conc s)"
  unfolding registerWorkspace_def registerLane_def by (intro fold_inv set_lane_inv)

lemma add_outcomes_inv [simp]: "lanes_inv (add_outcomes o' es s) = lanes_inv s"
proof -
  have "busy k (add_outcomes o' es s) = busy k s" for k by (simp add: busy_def split: option.split)
  then show ?thesis by (simp add: lanes_inv_def base_inv_def)
qed

lemma drop_lane_inv:
  assumes "lanes_inv s"
  shows "lanes_inv (s\<lparr>lw_lanes := jdel (lw_lanes s) k\<rparr>)"
  using assms unfolding lanes_inv_def base_inv_def busy_def
  by (simp add: jget_jdel running_on_def split: option.splits) blast

lemma unregister_inv: "lanes_inv s \<Longrightarrow> lanes_inv (unregisterWorkspace w s)"
proof -
  have "lanes_inv (unregisterLane w l s)" if "lanes_inv s" for l s
    using that drop_lane_inv [of "add_outcomes Lane_cleared es s" for es]
    by (auto simp: unregisterLane_def Let_def split: option.split)
  then show "lanes_inv s \<Longrightarrow> ?thesis" unfolding unregisterWorkspace_def by (intro fold_inv)
qed

lemma lane_ok_reset:
  assumes "lane_ok c l rs"
  shows "lane_ok c (l\<lparr>la_generation := Suc (la_generation l), la_queue := [], la_active := [],
    la_draining := False\<rparr>) rs"
proof -
  have "\<forall>e \<in> set rs. qe_generation e \<le> la_generation l" using assms unfolding lane_ok_def by blast
  then have "\<forall>e \<in> set rs. qe_generation e \<noteq> Suc (la_generation l) \<and> qe_generation e \<le> Suc (la_generation l)"
    by (auto intro: le_SucI)
  then show ?thesis using assms unfolding lane_ok_def by (simp add: current_def filter_empty_conv)
qed

lemma reset_one_inv: "lanes_inv s \<Longrightarrow> lanes_inv (reset_one a s)"
  using lane_ok_reset [of "lw_taskIdCounter s" "lw_store s a" "running_on a s"]
  unfolding lanes_inv_def base_inv_def reset_one_def busy_def Let_def
  by (auto split: option.splits)

lemma lanes_step_inv: "lanes_step s s' \<Longrightarrow> lanes_inv s \<Longrightarrow> lanes_inv s'"
proof (induction rule: lanes_step.induct)
  case (resets s)
  then show ?case unfolding resetAll_def by (intro fold_inv reset_one_inv)
qed (simp_all add: enqueue_inv finish_inv register_inv unregister_inv)

lemma lanes_reach_inv: "lanes_reach s \<Longrightarrow> lanes_inv s"
proof (induction rule: lanes_reach.induct)
  case start
  show ?case
    by (simp add: lanes_inv_def base_inv_def lanes_init_def busy_def running_on_def lane_ok_fresh)
qed (rule lanes_step_inv)

text \<open>Lanes are never reused and their generations only grow.\<close>

definition older :: "lanes_world \<Rightarrow> lanes_world \<Rightarrow> bool" where
  "older s s' \<longleftrightarrow> lw_nextLane s \<le> lw_nextLane s' \<and>
     (\<forall>a < lw_nextLane s. la_generation (lw_store s a) \<le> la_generation (lw_store s' a))"

lemma older_refl [simp]: "older s s"
  by (simp add: older_def)

lemma older_trans: "older s s' \<Longrightarrow> older s' s'' \<Longrightarrow> older s s''"
  unfolding older_def by (meson le_trans less_le_trans)

lemma fold_older: "(\<And>x s. older s (f x s)) \<Longrightarrow> older s (fold f xs s)"
  by (induction xs arbitrary: s) (auto intro: older_trans)

lemma set_lane_older: "older s (set_lane k l s)"
  by (simp add: older_def)

lemma getLane_older: "older s (snd (getLane k s))"
  by (simp add: getLane_def Let_def set_lane_older split: option.split)

lemma pump_older: "older s (pump k s)"
proof -
  have "older (snd (getLane k s)) (pump k s)"
    by (auto simp: pump_def Let_def case_prod_beta older_def put_lane_def)
  then show ?thesis using getLane_older older_trans by blast
qed

lemma enqueue_older: "older s (snd (enqueue draining lane w s))"
proof (cases draining)
  case True
  then show ?thesis by (simp add: enqueue_def)
next
  case False
  let ?g = "getLane (buildLaneKey w lane) s"
  let ?s2 = "(put_lane (fst ?g) ((lw_store (snd ?g) (fst ?g))\<lparr>la_queue := la_queue (lw_store (snd ?g) (fst ?g)) @
      [\<lparr>qe_id = Suc (lw_taskIdCounter s), qe_generation = la_generation (lw_store (snd ?g) (fst ?g))\<rparr>]\<rparr>)
      (snd ?g))\<lparr>lw_taskIdCounter := Suc (lw_taskIdCounter s)\<rparr>"
  have "lw_taskIdCounter (snd ?g) = lw_taskIdCounter s"
    by (simp add: getLane_def Let_def split: option.split)
  then have eq: "snd (enqueue draining lane w s) = pump (buildLaneKey w lane) ?s2"
    using False by (simp add: enqueue_def Let_def case_prod_beta)
  have "older (snd ?g) ?s2" by (simp add: older_def put_lane_def)
  then have "older s ?s2" by (rule older_trans [OF getLane_older])
  then show ?thesis unfolding eq by (rule older_trans [OF _ pump_older])
qed

lemma reset_one_older: "older s (reset_one a s)"
  by (simp add: older_def reset_one_def Let_def)

lemma lanes_step_older: "lanes_step s s' \<Longrightarrow> older s s'"
proof (induction rule: lanes_step.induct)
  case (finishes t s ok)
  have "older s ((put_lane (rt_lane t) (lw_store s (rt_lane t)\<lparr>la_active := x\<rparr>)
      ((add_outcomes y z s)\<lparr>lw_running := r\<rparr>)))" for x y z r
    by (simp add: older_def put_lane_def add_outcomes_def)
  then show ?case unfolding finish_def Let_def using pump_older older_trans by blast
next
  case (resets s)
  show ?case unfolding resetAll_def by (rule fold_older) (rule reset_one_older)
next
  case (registers s w conc)
  show ?case unfolding registerWorkspace_def registerLane_def by (rule fold_older) (rule set_lane_older)
next
  case (unregisters s w)
  have "older s (unregisterLane w l s)" for l s
    by (simp add: unregisterLane_def Let_def older_def split: option.split)
  then show ?case unfolding unregisterWorkspace_def by (rule fold_older)
qed (rule enqueue_older)

lemma lanes_steps_older: "lanes_step\<^sup>*\<^sup>* s s' \<Longrightarrow> older s s'"
  by (induction rule: rtranclp_induct) (auto intro: older_trans lanes_step_older)

lemma resetAll_bumps:
  assumes "jget (lw_lanes s) k = Some a" and "a < lw_nextLane s"
  shows "la_generation (lw_store s a) < la_generation (lw_store (resetAll s) a)"
proof -
  have "a \<in> set (map snd (lw_lanes s))" using map_of_SomeD [OF assms(1)] by force
  then obtain xs ys where split: "map snd (lw_lanes s) = xs @ a # ys" by (meson split_list)
  let ?s1 = "fold reset_one xs s"
  have "older s ?s1" by (rule fold_older) (rule reset_one_older)
  then have "la_generation (lw_store s a) \<le> la_generation (lw_store ?s1 a)" and n: "a < lw_nextLane ?s1"
    using assms(2) by (auto simp: older_def)
  moreover have "la_generation (lw_store (reset_one a ?s1) a) = Suc (la_generation (lw_store ?s1 a))"
    by (simp add: reset_one_def Let_def)
  moreover have "older (reset_one a ?s1) (fold reset_one ys (reset_one a ?s1))"
    by (rule fold_older) (rule reset_one_older)
  moreover have "lw_nextLane (reset_one a ?s1) = lw_nextLane ?s1" by (simp add: reset_one_def Let_def)
  ultimately show ?thesis using n unfolding resetAll_def split by (fastforce simp: older_def)
qed

lemma pump_outcomes [simp]: "lw_outcomes (pump k s) = lw_outcomes s"
proof -
  have "lw_outcomes (snd (getLane k s)) = lw_outcomes s"
    by (simp add: getLane_def Let_def split: option.split)
  then show ?thesis by (simp add: pump_def Let_def case_prod_beta)
qed

section \<open>Properties\<close>


definition one_task :: lanes_world where
  "one_task = snd (enqueue False Main_lane ''default'' lanes_init)"

lemma one_task_reach: "lanes_reach one_task"
  unfolding one_task_def by (rule lanes_reach.step [OF lanes_reach.start lanes_step.enqueues])

lemma one_task_lane: "jget (lw_lanes one_task) ''default:main'' = Some 0"
  by (simp add: one_task_def enqueue_def buildLaneKey_def getLane_def lanes_init_def set_lane_def
      put_lane_def pump_def fresh_lane_def Let_def split: prod.split)


text \<open>A lane does not idle. In every reachable state, entries of a lane of the table
  only wait while the lane runs as many tasks of its generation as its limit allows.\<close>

theorem lane_never_idles:
  assumes "lanes_reach s" and "jget (lw_lanes s) k = Some a" and "la_queue (lw_store s a) \<noteq> []"
  shows "la_max (lw_store s a) \<le> length (current (lw_store s a) (running_on a s))"
proof -
  let ?l = "lw_store s a" and ?rs = "running_on a s"
  have inv: "lanes_inv s" by (rule lanes_reach_inv [OF assms(1)])
  then have "busy k s" unfolding lanes_inv_def by blast
  then have "la_max ?l \<le> length (la_active ?l)" using assms(2,3) by (simp add: busy_def)
  moreover have "length (la_active ?l) \<le> length (current ?l ?rs)"
  proof -
    have ok: "lane_ok (lw_taskIdCounter s) ?l ?rs"
      using inv base_invD(1) unfolding lanes_inv_def by blast
    then have "length (la_active ?l) = card (qe_id ` set (current ?l ?rs))"
      using distinct_card [of "la_active ?l"] by (simp add: lane_ok_def)
    also have "\<dots> \<le> length (current ?l ?rs)"
      using card_image_le [of "set (current ?l ?rs)" qe_id] card_length [of "current ?l ?rs"] by simp
    finally show ?thesis .
  qed
  ultimately show ?thesis by simp
qed

definition two_tasks :: lanes_world where
  "two_tasks = snd (enqueue False Main_lane ''default'' one_task)"

theorem lane_never_idles_witness:
  "la_max (lw_store two_tasks 0) \<le> length (current (lw_store two_tasks 0) (running_on 0 two_tasks))"
proof -
  have "lanes_reach two_tasks" unfolding two_tasks_def by (rule lanes_reach.step [OF one_task_reach lanes_step.enqueues])
  moreover have "parseLaneKey ''default:main'' = Some (''default'', Main_lane)" by code_simp
  then have "jget (lw_lanes two_tasks) ''default:main'' = Some 0" "la_queue (lw_store two_tasks 0) \<noteq> []"
    by (simp_all add: two_tasks_def one_task_def enqueue_def buildLaneKey_def getLane_def lanes_init_def
        set_lane_def put_lane_def pump_def fresh_lane_def Let_def)
  ultimately show ?thesis by (rule lane_never_idles)
qed



end
