(* ===== verification/Drain.thy ===== *)
theory Drain
  imports Js_Prelude
begin

text \<open>
  \<^verbatim>\<open>daemon/drain.ts\<close>: the drain state machine. \<open>waitFor\<close> polls: the \<open>i\<close>th turn of its loop reads the
  clock at \<open>clock i\<close> and the condition at \<open>cond i\<close>; it runs on fuel, and \<open>wait_returns\<close> says how much is
  enough.
\<close>

datatype drain_state = Drain_idle | Drain_draining | Drain_drained

datatype drain_reason = For_shutdown | For_restart

record drain =
  dr_state :: drain_state
  dr_reason :: "drain_reason option"

definition DRAIN_TIMEOUT_MS :: int where "DRAIN_TIMEOUT_MS = 90000"

definition SHUTDOWN_TIMEOUT_MS :: int where "SHUTDOWN_TIMEOUT_MS = 5000"

definition drain_init :: drain where
  "drain_init = \<lparr>dr_state = Drain_idle, dr_reason = None\<rparr>"

definition drain_enter :: "drain_reason \<Rightarrow> drain \<Rightarrow> drain" where
  "drain_enter drainReason d =
     (if dr_state d \<noteq> Drain_idle then d else \<lparr>dr_state = Drain_draining, dr_reason = Some drainReason\<rparr>)"

definition drain_complete :: "drain \<Rightarrow> drain" where
  "drain_complete d = d\<lparr>dr_state := Drain_drained\<rparr>"

definition drain_reset :: "drain \<Rightarrow> drain" where
  "drain_reset d = \<lparr>dr_state = Drain_idle, dr_reason = None\<rparr>"

definition isDraining :: "drain \<Rightarrow> bool" where
  "isDraining d \<longleftrightarrow> dr_state d = Drain_draining \<or> dr_state d = Drain_drained"

definition getTimeoutMs :: "drain \<Rightarrow> int" where
  "getTimeoutMs d = (if dr_reason d = Some For_restart then DRAIN_TIMEOUT_MS else SHUTDOWN_TIMEOUT_MS)"

text \<open>One turn of the loop: the promise resolves, or the loop sleeps for a poll interval.\<close>

definition wait_turn :: "int \<Rightarrow> int \<Rightarrow> bool \<Rightarrow> bool option" where
  "wait_turn deadline now condition =
     (if now < deadline then (if condition then Some True else None) else Some False)"

fun wait_loop :: "nat \<Rightarrow> int \<Rightarrow> (nat \<Rightarrow> int) \<Rightarrow> (nat \<Rightarrow> bool) \<Rightarrow> nat \<Rightarrow> bool option" where
  "wait_loop 0 deadline clock cond i = None"
| "wait_loop (Suc fuel) deadline clock cond i =
     (case wait_turn deadline (clock i) (cond i) of
        Some r \<Rightarrow> Some r
      | None \<Rightarrow> wait_loop fuel deadline clock cond (Suc i))"

definition waitFor :: "nat \<Rightarrow> int \<Rightarrow> int \<Rightarrow> (nat \<Rightarrow> int) \<Rightarrow> (nat \<Rightarrow> bool) \<Rightarrow> bool option" where
  "waitFor fuel timeout t0 clock cond = wait_loop fuel (t0 + timeout) clock cond 0"

section \<open>Waiting ends\<close>

lemma isDraining_simps [simp]:
  "isDraining (drain_enter r d)" "isDraining (drain_complete d)" "\<not> isDraining (drain_reset d)"
  "\<not> isDraining drain_init"
  by (cases "dr_state d"; auto simp: isDraining_def drain_enter_def drain_complete_def drain_reset_def
      drain_init_def)+

lemma isDraining_idle: "isDraining d \<longleftrightarrow> dr_state d \<noteq> Drain_idle"
  by (cases "dr_state d") (auto simp: isDraining_def)

lemma wait_loop_returns:
  assumes "\<And>i. clock i + poll \<le> clock (Suc i)" and "0 \<le> poll" and "deadline < clock i + int fuel * poll"
  shows "\<exists>r. wait_loop (Suc fuel) deadline clock cond i = Some r \<and>
    r = (\<exists>j \<ge> i. clock j < deadline \<and> cond j)"
proof -
  have step: "clock n \<le> clock (Suc n)" for n using assms(1) [of n] assms(2) by linarith
  show ?thesis using assms(3)
  proof (induction fuel arbitrary: i)
    case 0
    have "clock i \<le> clock j" if "i \<le> j" for j by (rule lift_Suc_mono_le [of clock, OF step that])
    then show ?case using 0 by (force simp: wait_turn_def)
  next
    case (Suc fuel)
    have mono: "clock i \<le> clock j" if "i \<le> j" for j by (rule lift_Suc_mono_le [of clock, OF step that])
    have "deadline < clock (Suc i) + int fuel * poll"
      using Suc.prems assms(1) [of i] by (simp add: algebra_simps)
    from Suc.IH [OF this] obtain r
      where r: "wait_loop (Suc fuel) deadline clock cond (Suc i) = Some r"
        "r = (\<exists>j \<ge> Suc i. clock j < deadline \<and> cond j)" by blast
    consider "deadline \<le> clock i" | "clock i < deadline" "cond i" | "clock i < deadline" "\<not> cond i" by linarith
    then show ?case
    proof cases
      case 1
      then show ?thesis using mono by (force simp: wait_turn_def)
    next
      case 2
      then show ?thesis by (auto simp: wait_turn_def)
    next
      case 3
      then have "wait_loop (Suc (Suc fuel)) deadline clock cond i = wait_loop (Suc fuel) deadline clock cond (Suc i)"
        by (simp add: wait_turn_def)
      moreover have "(\<exists>j \<ge> i. clock j < deadline \<and> cond j) = (\<exists>j \<ge> Suc i. clock j < deadline \<and> cond j)"
        using 3 by (metis Suc_leD Suc_leI le_neq_implies_less)
      ultimately show ?thesis using r by simp
    qed
  qed
qed

text \<open>Waiting for a drain always ends: when every poll takes at least its interval,
  the loop returns within one turn more than the timeout has intervals, and it answers true exactly
  when the condition held at a turn before the deadline.\<close>

theorem wait_returns:
  assumes "\<And>i. clock i + poll \<le> clock (Suc i)" and "0 < poll" and "0 \<le> timeout" and "t0 \<le> clock 0"
  shows "\<exists>r. waitFor (nat (timeout div poll) + 2) timeout t0 clock cond = Some r \<and>
    r = (\<exists>j. clock j < t0 + timeout \<and> cond j)"
proof -
  let ?n = "Suc (nat (timeout div poll))"
  have "timeout < (timeout div poll + 1) * poll"
    unfolding distrib_right using pos_mod_bound [OF assms(2), of timeout] div_mult_mod_eq [of timeout poll]
    by linarith
  then have "t0 + timeout < clock 0 + int ?n * poll"
    using assms(2,3,4) pos_imp_zdiv_nonneg_iff [of poll timeout] by (simp add: add.commute)
  from wait_loop_returns [OF assms(1) _ this, where cond = cond] assms(2) show ?thesis
    by (simp add: waitFor_def)
qed

theorem wait_returns_witness:
  "\<exists>r. waitFor 12 5000 0 (\<lambda>i. 500 * int i) (\<lambda>i. i = 3) = Some r \<and>
    r = (\<exists>j. 500 * int j < 0 + 5000 \<and> j = 3)"
  using wait_returns [of "\<lambda>i. 500 * int i" 500 5000 0 "\<lambda>i. i = 3"] by simp

end
