(* ===== verification/Gateway_Lock.thy ===== *)
theory Gateway_Lock
  imports Js_Prelude
begin

text \<open>
  \<^verbatim>\<open>daemon/gateway-lock.ts\<close>: the PID file that keeps a second daemon out. The file is a value of
  \<open>lock_file\<close>; \<open>alive\<close> tells whether \<open>process.kill (pid, 0)\<close> returns. Each awaited file operation is
  a function of its own, since other processes run between them; \<open>acquire\<close> and \<open>release\<close> compose
  them as one uninterrupted run.
\<close>

section \<open>The file and the operations\<close>

record lock_info =
  lk_pid :: int
  lk_acquiredAtMs :: int

text \<open>\<open>Unreadable\<close> is a file that cannot be read or does not parse.\<close>

datatype lock_file = No_file | Unreadable | Lock_file lock_info

text \<open>How \<open>mkdir\<close> and \<open>writeFile\<close> end: written, refused before the file is touched, or failed after
  the file was truncated.\<close>

datatype write_end = Write_done | Write_refused | Write_torn

fun readLock :: "lock_file \<Rightarrow> lock_info option" where
  "readLock (Lock_file i) = Some i"
| "readLock No_file = None"
| "readLock Unreadable = None"

definition acquire_check :: "(int \<Rightarrow> bool) \<Rightarrow> lock_file \<Rightarrow> bool" where
  "acquire_check alive f = (case readLock f of None \<Rightarrow> True | Some existing \<Rightarrow> \<not> alive (lk_pid existing))"

fun acquire_store :: "int \<Rightarrow> int \<Rightarrow> write_end \<Rightarrow> lock_file \<Rightarrow> bool \<times> lock_file" where
  "acquire_store pid now Write_done f = (True, Lock_file \<lparr>lk_pid = pid, lk_acquiredAtMs = now\<rparr>)"
| "acquire_store pid now Write_refused f = (False, f)"
| "acquire_store pid now Write_torn f = (False, Unreadable)"

definition acquire :: "(int \<Rightarrow> bool) \<Rightarrow> int \<Rightarrow> int \<Rightarrow> write_end \<Rightarrow> lock_file \<Rightarrow> bool \<times> lock_file" where
  "acquire alive pid now w f = (if acquire_check alive f then acquire_store pid now w f else (False, f))"

definition release_check :: "int \<Rightarrow> lock_file \<Rightarrow> bool" where
  "release_check pid f = (case readLock f of None \<Rightarrow> False | Some existing \<Rightarrow> lk_pid existing = pid)"

definition release_unlink :: "bool \<Rightarrow> lock_file \<Rightarrow> lock_file" where
  "release_unlink ok f = (if ok then No_file else f)"

definition release :: "int \<Rightarrow> bool \<Rightarrow> lock_file \<Rightarrow> lock_file" where
  "release pid ok f = (if release_check pid f then release_unlink ok f else f)"

definition isHeld :: "(int \<Rightarrow> bool) \<Rightarrow> lock_file \<Rightarrow> bool" where
  "isHeld alive f = (case readLock f of None \<Rightarrow> False | Some existing \<Rightarrow> alive (lk_pid existing))"

definition holder :: "(int \<Rightarrow> bool) \<Rightarrow> lock_file \<Rightarrow> lock_info option" where
  "holder alive f =
     (case readLock f of None \<Rightarrow> None
      | Some existing \<Rightarrow> if \<not> alive (lk_pid existing) then None else Some existing)"

section \<open>Many processes\<close>

text \<open>Where a process stands: \<open>Lock_writing\<close> is inside \<open>acquire\<close> after the check, \<open>Lock_unlinking\<close>
  inside \<open>release\<close> after the check; a process is \<open>Lock_held\<close> from the moment \<open>acquire\<close> returned true.\<close>

datatype lock_phase = Lock_free | Lock_writing | Lock_held | Lock_unlinking

record gateways =
  gw_file :: lock_file
  gw_alive :: "int \<Rightarrow> bool"
  gw_phase :: "int \<Rightarrow> lock_phase"

definition gw_init :: "gateways" where
  "gw_init = \<lparr>gw_file = No_file, gw_alive = (\<lambda>p. False), gw_phase = (\<lambda>p. Lock_free)\<rparr>"

definition gw_spawn :: "int \<Rightarrow> gateways \<Rightarrow> gateways" where
  "gw_spawn p s = s\<lparr>gw_alive := (gw_alive s)(p := True), gw_phase := (gw_phase s)(p := Lock_free)\<rparr>"

definition gw_die :: "int \<Rightarrow> gateways \<Rightarrow> gateways" where
  "gw_die p s = s\<lparr>gw_alive := (gw_alive s)(p := False), gw_phase := (gw_phase s)(p := Lock_free)\<rparr>"

definition gw_check :: "int \<Rightarrow> gateways \<Rightarrow> gateways" where
  "gw_check p s =
     (if acquire_check (gw_alive s) (gw_file s) then s\<lparr>gw_phase := (gw_phase s)(p := Lock_writing)\<rparr> else s)"

definition gw_store :: "int \<Rightarrow> int \<Rightarrow> write_end \<Rightarrow> gateways \<Rightarrow> gateways" where
  "gw_store p now w s =
     (let (ok, f) = acquire_store p now w (gw_file s)
      in s\<lparr>gw_file := f, gw_phase := (gw_phase s)(p := if ok then Lock_held else Lock_free)\<rparr>)"

definition gw_leave :: "int \<Rightarrow> gateways \<Rightarrow> gateways" where
  "gw_leave p s =
     s\<lparr>gw_phase := (gw_phase s)(p := if release_check p (gw_file s) then Lock_unlinking else Lock_free)\<rparr>"

definition gw_unlink :: "int \<Rightarrow> bool \<Rightarrow> gateways \<Rightarrow> gateways" where
  "gw_unlink p ok s =
     s\<lparr>gw_file := release_unlink ok (gw_file s), gw_phase := (gw_phase s)(p := Lock_free)\<rparr>"

definition gw_acquire :: "int \<Rightarrow> int \<Rightarrow> write_end \<Rightarrow> gateways \<Rightarrow> gateways" where
  "gw_acquire p now w s =
     (let (ok, f) = acquire (gw_alive s) p now w (gw_file s)
      in s\<lparr>gw_file := f, gw_phase := (if ok then (gw_phase s)(p := Lock_held) else gw_phase s)\<rparr>)"

definition gw_release :: "int \<Rightarrow> bool \<Rightarrow> gateways \<Rightarrow> gateways" where
  "gw_release p ok s =
     s\<lparr>gw_file := release p ok (gw_file s), gw_phase := (gw_phase s)(p := Lock_free)\<rparr>"

text \<open>The steps as the code takes them.\<close>

inductive gw_step :: "gateways \<Rightarrow> gateways \<Rightarrow> bool" where
  spawns: "\<not> gw_alive s p \<Longrightarrow> gw_step s (gw_spawn p s)"
| dies: "gw_alive s p \<Longrightarrow> gw_step s (gw_die p s)"
| checks: "gw_alive s p \<Longrightarrow> gw_phase s p = Lock_free \<Longrightarrow> gw_step s (gw_check p s)"
| stores: "gw_alive s p \<Longrightarrow> gw_phase s p = Lock_writing \<Longrightarrow> gw_step s (gw_store p now w s)"
| leaves: "gw_alive s p \<Longrightarrow> gw_phase s p = Lock_held \<Longrightarrow> gw_step s (gw_leave p s)"
| unlinks: "gw_alive s p \<Longrightarrow> gw_phase s p = Lock_unlinking \<Longrightarrow> gw_step s (gw_unlink p ok s)"

text \<open>The steps when no two lock operations overlap.\<close>

inductive gw_serial_step :: "gateways \<Rightarrow> gateways \<Rightarrow> bool" where
  serial_spawn: "\<not> gw_alive s p \<Longrightarrow> gw_serial_step s (gw_spawn p s)"
| serial_die: "gw_alive s p \<Longrightarrow> gw_serial_step s (gw_die p s)"
| serial_acquire: "gw_alive s p \<Longrightarrow> gw_serial_step s (gw_acquire p now w s)"
| serial_release: "gw_alive s p \<Longrightarrow> gw_serial_step s (gw_release p ok s)"

section \<open>One live holder\<close>

lemma steps5:
  assumes "R a b" and "R b c" and "R c d" and "R d e" and "R e f"
  shows "R\<^sup>*\<^sup>* a f"
  using rtranclp.rtrancl_into_rtrancl [OF rtranclp.rtrancl_into_rtrancl [OF rtranclp.rtrancl_into_rtrancl
    [OF rtranclp.rtrancl_into_rtrancl [OF r_into_rtranclp [of R, OF assms(1)] assms(2)] assms(3)] assms(4)] assms(5)] .

definition gw_ok :: "gateways \<Rightarrow> bool" where
  "gw_ok s \<longleftrightarrow> (\<forall>p. gw_phase s p = Lock_held \<longrightarrow>
     gw_alive s p \<and> map_option lk_pid (readLock (gw_file s)) = Some p)"

lemma gw_serial_ok: "gw_serial_step s s' \<Longrightarrow> gw_ok s \<Longrightarrow> gw_ok s'"
proof (induction rule: gw_serial_step.induct)
  case (serial_acquire s p now w)
  then show ?case
    by (cases w) (fastforce simp: gw_ok_def gw_acquire_def acquire_def acquire_check_def split: option.splits)+
next
  case (serial_release s p ok)
  then show ?case
    by (fastforce simp: gw_ok_def gw_release_def release_def release_check_def release_unlink_def
        split: option.splits)
qed (auto simp: gw_ok_def gw_spawn_def gw_die_def)

lemma gw_serial_reach_ok: "gw_serial_step\<^sup>*\<^sup>* gw_init s \<Longrightarrow> gw_ok s"
  by (induction rule: rtranclp_induct) (auto simp: gw_serial_ok, simp add: gw_ok_def gw_init_def)

text \<open>As long as the lock operations of different processes do not overlap, at most one
  live process holds the gateway lock, whatever processes die without releasing it, however writes and
  unlinks fail, and the lock file names that process.\<close>

theorem lock_exclusive_when_serial:
  assumes "gw_serial_step\<^sup>*\<^sup>* gw_init s" and "gw_phase s p = Lock_held" and "gw_phase s q = Lock_held"
  shows "p = q \<and> gw_alive s p \<and> isHeld (gw_alive s) (gw_file s) \<and>
    map_option lk_pid (holder (gw_alive s) (gw_file s)) = Some p"
proof -
  have ok: "gw_alive s x \<and> map_option lk_pid (readLock (gw_file s)) = Some x" if "gw_phase s x = Lock_held" for x
    using gw_serial_reach_ok [OF assms(1)] that by (simp add: gw_ok_def)
  show ?thesis using ok [OF assms(2)] ok [OF assms(3)]
    by (cases "readLock (gw_file s)") (auto simp: isHeld_def holder_def)
qed

definition stale_break :: gateways where
  "stale_break = gw_acquire 2 9 Write_done (gw_spawn 2 (gw_die 1 (gw_acquire 1 5 Write_done (gw_spawn 1 gw_init))))"

lemma stale_break_reach: "gw_serial_step\<^sup>*\<^sup>* gw_init stale_break"
proof -
  let ?a = "gw_spawn 1 gw_init"
  let ?b = "gw_acquire 1 5 Write_done ?a"
  let ?c = "gw_die 1 ?b"
  let ?d = "gw_spawn 2 ?c"
  note defs = gw_spawn_def gw_init_def gw_die_def gw_acquire_def acquire_def acquire_check_def
  have 1: "gw_serial_step gw_init ?a" by (rule serial_spawn) (simp add: defs)
  have 2: "gw_serial_step ?a ?b" by (rule serial_acquire) (simp add: defs)
  have 3: "gw_serial_step ?b ?c" by (rule serial_die) (simp add: defs)
  have 4: "gw_serial_step ?c ?d" by (rule serial_spawn) (simp add: defs)
  have 5: "gw_serial_step ?d stale_break"
    unfolding stale_break_def by (rule serial_acquire) (simp add: defs)
  show ?thesis by (rule steps5 [of gw_serial_step, OF 1 2 3 4 5])
qed

lemma stale_break_held: "gw_phase stale_break 2 = Lock_held"
  by (simp add: stale_break_def gw_spawn_def gw_init_def gw_die_def gw_acquire_def acquire_def acquire_check_def)

theorem lock_exclusive_when_serial_witness:
  "gw_alive stale_break 2 \<and> map_option lk_pid (holder (gw_alive stale_break) (gw_file stale_break)) = Some 2"
  using lock_exclusive_when_serial [OF stale_break_reach stale_break_held stale_break_held] by simp

text \<open>The check and the write of \<open>acquire\<close> are two file operations, so they do not exclude
  each other: any two processes that check before either writes both get the lock, and both are alive
  and hold it.\<close>

theorem two_gateways_acquire:
  assumes "p \<noteq> q"
  shows "\<exists>s. gw_step\<^sup>*\<^sup>* gw_init s \<and> gw_alive s p \<and> gw_alive s q \<and>
    gw_phase s p = Lock_held \<and> gw_phase s q = Lock_held"
proof -
  let ?a = "gw_spawn p gw_init"
  let ?b = "gw_spawn q ?a"
  let ?c = "gw_check p ?b"
  let ?d = "gw_check q ?c"
  let ?e = "gw_store p 0 Write_done ?d"
  let ?f = "gw_store q 0 Write_done ?e"
  note defs = gw_spawn_def gw_init_def gw_check_def gw_store_def acquire_check_def
  have 1: "gw_step gw_init ?a" by (rule spawns) (simp add: defs)
  have 2: "gw_step ?a ?b" by (rule spawns) (use assms in \<open>simp add: defs\<close>)
  have 3: "gw_step ?b ?c" by (rule checks) (use assms in \<open>simp_all add: defs\<close>)
  have 4: "gw_step ?c ?d" by (rule checks) (use assms in \<open>simp_all add: defs\<close>)
  have 5: "gw_step ?d ?e" by (rule stores) (use assms in \<open>simp_all add: defs\<close>)
  have 6: "gw_step ?e ?f" by (rule stores) (use assms in \<open>simp_all add: defs\<close>)
  have "gw_step\<^sup>*\<^sup>* gw_init ?f"
    by (rule rtranclp.rtrancl_into_rtrancl [OF steps5 [of gw_step, OF 1 2 3 4 5] 6])
  moreover have "gw_alive ?f p \<and> gw_alive ?f q \<and> gw_phase ?f p = Lock_held \<and> gw_phase ?f q = Lock_held"
    using assms by (simp add: defs)
  ultimately show ?thesis by blast
qed

theorem two_gateways_acquire_witness:
  "\<exists>s. gw_step\<^sup>*\<^sup>* gw_init s \<and> gw_alive s 1 \<and> gw_alive s 2 \<and>
    gw_phase s 1 = Lock_held \<and> gw_phase s 2 = Lock_held"
  using two_gateways_acquire [of 1 2] by simp

end
