(* ===== verification/System_Events.thy ===== *)
theory System_Events
  imports Js_Prelude
begin

text \<open>
  \<^verbatim>\<open>cron/system-events.ts\<close>: a bounded queue of notifications per session. The map of queues is a
  keyed map and the clock an argument. The arrays are only reached through this map, so emptying one
  in place is writing the empty list.
\<close>

record system_event =
  se_text :: string
  se_ts :: int
  se_contextKey :: "string option"

type_synonym event_queues = "(string, system_event list) jmap"

definition MAX_EVENTS :: nat where "MAX_EVENTS = 20"

definition se_queue :: "string \<Rightarrow> event_queues \<Rightarrow> system_event list" where
  "se_queue sessionKey queues = (case jget queues sessionKey of None \<Rightarrow> [] | Some q \<Rightarrow> q)"

definition se_enqueue :: "string \<Rightarrow> string \<Rightarrow> string option \<Rightarrow> int \<Rightarrow> event_queues \<Rightarrow> event_queues" where
  "se_enqueue text sessionKey contextKey now queues =
     (let queue = se_queue sessionKey queues
      in if queue \<noteq> [] \<and> se_text (last queue) = text then jset queues sessionKey queue
         else (let q' = queue @ [\<lparr>se_text = text, se_ts = now, se_contextKey = contextKey\<rparr>]
               in jset queues sessionKey (drop (length q' - MAX_EVENTS) q')))"

definition se_drain :: "string \<Rightarrow> event_queues \<Rightarrow> system_event list \<times> event_queues" where
  "se_drain sessionKey queues =
     (case jget queues sessionKey of
        None \<Rightarrow> ([], queues)
      | Some queue \<Rightarrow> if queue = [] then ([], queues) else (queue, jset queues sessionKey []))"

definition se_peek :: "string \<Rightarrow> event_queues \<Rightarrow> system_event list" where
  "se_peek sessionKey queues = se_queue sessionKey queues"

definition se_hasPending :: "string \<Rightarrow> event_queues \<Rightarrow> bool" where
  "se_hasPending sessionKey queues \<longleftrightarrow> se_queue sessionKey queues \<noteq> []"

definition se_isContextChanged :: "string \<Rightarrow> string \<Rightarrow> event_queues \<Rightarrow> bool" where
  "se_isContextChanged sessionKey currentContextKey queues =
     (let queue = se_queue sessionKey queues
      in if queue = [] then False
         else (case se_contextKey (last queue) of None \<Rightarrow> False | Some k \<Rightarrow> k \<noteq> currentContextKey))"

definition se_clear :: "string \<Rightarrow> event_queues \<Rightarrow> event_queues" where
  "se_clear sessionKey queues = jdel queues sessionKey"

definition se_clearAll :: "event_queues \<Rightarrow> event_queues" where
  "se_clearAll queues = []"

definition se_size :: "string \<Rightarrow> event_queues \<Rightarrow> nat" where
  "se_size sessionKey queues = length (se_queue sessionKey queues)"

section \<open>Properties\<close>

fun se_enqueue_list :: "string \<Rightarrow> (string \<times> int) list \<Rightarrow> event_queues \<Rightarrow> event_queues" where
  "se_enqueue_list k [] qs = qs"
| "se_enqueue_list k ((x, t) # xs) qs = se_enqueue_list k xs (se_enqueue x k None t qs)"

lemma se_enqueue_list_snoc:
  "se_enqueue_list k (xs @ [(x, t)]) qs = se_enqueue x k None t (se_enqueue_list k xs qs)"
  by (induction xs arbitrary: qs) auto

lemma se_queue_jset [simp]: "se_queue k (jset qs k' q) = (if k = k' then q else se_queue k qs)"
  by (simp add: se_queue_def jget_jset)

lemma se_enqueue_other: "k \<noteq> k' \<Longrightarrow> se_queue k' (se_enqueue x k c t qs) = se_queue k' qs"
  by (simp add: se_enqueue_def Let_def)

lemma remdups_adj_snoc:
  "remdups_adj (xs @ [x]) =
     (if xs \<noteq> [] \<and> last xs = x then remdups_adj xs else remdups_adj xs @ [x])"
proof (cases xs rule: rev_cases)
  case (snoc ys y)
  then show ?thesis using remdups_adj_append_two [of ys y x] by auto
qed simp

lemma drop_excess_snoc:
  assumes "0 < m"
  shows "drop (length (drop (length ys - m) ys @ [y]) - m) (drop (length ys - m) ys @ [y]) =
    drop (length (ys @ [y]) - m) (ys @ [y])"
proof (cases "length ys < m")
  case True
  then show ?thesis by simp
next
  case False
  then have "length (drop (length ys - m) ys) = m" by simp
  then show ?thesis using False assms by (simp add: Suc_diff_le)
qed

lemma last_drop_excess: "0 < m \<Longrightarrow> ys \<noteq> [] \<Longrightarrow> drop (length ys - m) ys \<noteq> [] \<and> last (drop (length ys - m) ys) = last ys"
proof -
  assume "0 < m" and "ys \<noteq> []"
  then have "length ys - m < length ys" by (cases ys) auto
  then show ?thesis by (simp add: last_drop)
qed

text \<open>The queue of a session is a window on its notifications: after any sequence
  of them it holds the last twenty after merging neighbours with the same text, in their order, and
  the queues of other sessions are untouched.\<close>

theorem events_window:
  "map se_text (se_queue k (se_enqueue_list k xs [])) =
     (let ys = remdups_adj (map fst xs) in drop (length ys - 20) ys) \<and>
   (k' \<noteq> k \<longrightarrow> se_queue k' (se_enqueue_list k xs []) = [])"
proof (induction xs rule: rev_induct)
  case Nil
  then show ?case by (simp add: se_queue_def)
next
  case (snoc p xs)
  obtain x t where p: "p = (x, t)" by fastforce
  let ?q = "se_queue k (se_enqueue_list k xs [])"
  define ys where "ys = remdups_adj (map fst xs)"
  have q: "map se_text ?q = drop (length ys - 20) ys" using snoc.IH by (simp add: ys_def Let_def)
  have ne: "ys = [] \<longleftrightarrow> xs = []" by (simp add: ys_def)
  have last_ys: "xs \<noteq> [] \<Longrightarrow> last ys = fst (last xs)" by (simp add: ys_def last_remdups_adj last_map)
  have q_ne: "?q \<noteq> [] \<longleftrightarrow> xs \<noteq> []"
  proof
    assume "xs \<noteq> []"
    then have "drop (length ys - 20) ys \<noteq> []" using last_drop_excess [of 20 ys] ne by simp
    then show "?q \<noteq> []" using q by auto
  qed (auto simp: se_queue_def)
  have q_last: "se_text (last ?q) = fst (last xs)" if "xs \<noteq> []"
  proof -
    have "se_text (last ?q) = last (map se_text ?q)" using q_ne that by (simp add: last_map)
    then show ?thesis unfolding q using last_drop_excess [of 20 ys] ne last_ys that by simp
  qed
  have adj: "remdups_adj (map fst (xs @ [p])) = (if xs \<noteq> [] \<and> fst (last xs) = x then ys else ys @ [x])"
    using remdups_adj_snoc [of "map fst xs" x] by (auto simp: p ys_def last_map)
  have "map se_text (se_queue k (se_enqueue_list k (xs @ [p]) [])) =
      (let zs = remdups_adj (map fst (xs @ [p])) in drop (length zs - 20) zs)"
  proof (cases "xs \<noteq> [] \<and> fst (last xs) = x")
    case True
    then show ?thesis
      using q q_ne q_last unfolding adj by (simp add: p se_enqueue_list_snoc se_enqueue_def Let_def)
  next
    case False
    let ?new = "?q @ [\<lparr>se_text = x, se_ts = t, se_contextKey = None\<rparr>]"
    have "se_queue k (se_enqueue_list k (xs @ [p]) []) = drop (length ?new - 20) ?new"
      using False q_ne q_last by (auto simp: p se_enqueue_list_snoc se_enqueue_def Let_def MAX_EVENTS_def)
    then have "map se_text (se_queue k (se_enqueue_list k (xs @ [p]) [])) =
        drop (length (map se_text ?q @ [x]) - 20) (map se_text ?q @ [x])"
      by (simp add: drop_map)
    moreover have "remdups_adj (map fst (xs @ [p])) = ys @ [x]" using adj False by auto
    ultimately show ?thesis using drop_excess_snoc [of 20 ys x] unfolding q by (simp add: Let_def)
  qed
  moreover have "k' \<noteq> k \<longrightarrow> se_queue k' (se_enqueue_list k (xs @ [p]) []) = []"
    using snoc.IH se_enqueue_other [of k k'] by (simp add: p se_enqueue_list_snoc)
  ultimately show ?case by blast
qed

lemma events_window_witness:
  "map se_text (se_queue ''a'' (se_enqueue_list ''a'' [(''x'', 1), (''x'', 2), (''y'', 3)] [])) = [''x'', ''y''] \<and>
   se_queue ''b'' (se_enqueue_list ''a'' [(''x'', 1), (''x'', 2), (''y'', 3)] []) = []"
  using events_window [of "''a''" "[(''x'', 1), (''x'', 2), (''y'', 3)]" "''b''"] by (simp add: Let_def)

end
