(* ===== verification/Daemon.thy ===== *)
theory Daemon
  imports Lanes Drain Gateway_Lock System_Events
begin

text \<open>
  \<^verbatim>\<open>daemon/index.ts\<close>, \<^verbatim>\<open>restart.ts\<close> and \<^verbatim>\<open>signals.ts\<close>: the life cycle of the daemon over its lanes, its
  drain state, its lock file and its event queues. An operation runs until it waits; where it waits is
  an entry of \<open>dw_flows\<close>, and resuming the entry runs the next stretch. Other operations, the lanes and
  other processes run between two stretches. The registration of the cron timers and the start of the
  web services are left out; \<open>env_recovered\<close> tells whether recovering the schedules succeeded.
\<close>

section \<open>Signals\<close>

datatype os_signal = SIGTERM | SIGINT | SIGUSR1

datatype signal_action = Do_shutdown | Do_restart

text \<open>\<open>sg_listeners\<close> are the listeners of the process, one entry per \<open>process.on\<close>.\<close>

record 'h signals =
  sg_handler :: "'h option"
  sg_registered :: bool
  sg_listeners :: "os_signal list"

definition signals_init :: "'h signals" where
  "signals_init = \<lparr>sg_handler = None, sg_registered = False, sg_listeners = []\<rparr>"

definition signals_unregister :: "'h signals \<Rightarrow> 'h signals" where
  "signals_unregister s =
     \<lparr>sg_handler = None, sg_registered = False,
      sg_listeners = remove1 SIGUSR1 (remove1 SIGINT (remove1 SIGTERM (sg_listeners s)))\<rparr>"

definition signals_register :: "'h \<Rightarrow> 'h signals \<Rightarrow> 'h signals" where
  "signals_register onSignal s =
     (let s' = (if sg_registered s then signals_unregister s else s)
      in \<lparr>sg_handler = Some onSignal, sg_registered = True,
          sg_listeners = sg_listeners s' @ [SIGTERM, SIGINT, SIGUSR1]\<rparr>)"

fun signal_action_of :: "os_signal \<Rightarrow> signal_action" where
  "signal_action_of SIGTERM = Do_shutdown"
| "signal_action_of SIGINT = Do_shutdown"
| "signal_action_of SIGUSR1 = Do_restart"

text \<open>The calls of the handler that one signal makes: each listener calls it.\<close>

definition signal_calls :: "os_signal \<Rightarrow> 'h signals \<Rightarrow> ('h \<times> signal_action) list" where
  "signal_calls sig s =
     (case sg_handler s of
        None \<Rightarrow> []
      | Some h \<Rightarrow> map (\<lambda>_. (h, signal_action_of sig)) (filter (\<lambda>l. l = sig) (sg_listeners s)))"

section \<open>The state\<close>

datatype daemon_status = Daemon_stopped | Daemon_starting | Daemon_running | Daemon_draining | Daemon_restarting

type_synonym lane_concurrency = "command_lane \<Rightarrow> nat option"

text \<open>The points where an operation waits. A wait for the lanes carries its deadline.\<close>

datatype flow =
  Start_read lane_concurrency
| Start_store lane_concurrency
| Start_recover
| Shutdown_wait int
| Shutdown_read
| Shutdown_unlink
| Restart_wait int
| Restart_read
| Restart_store

record daemon_world =
  dw_status :: daemon_status
  dw_drain :: drain
  dw_lanes :: lanes_world
  dw_events :: event_queues
  dw_lock :: lock_file
  dw_signals :: "unit signals"
  dw_flows :: "flow list"

text \<open>What a resumed stretch reads from outside: the clock, its own process, the live processes, how its
  file operation ends, and whether the schedules were recovered.\<close>

record daemon_env =
  env_now :: int
  env_pid :: int
  env_alive :: "int \<Rightarrow> bool"
  env_write :: write_end
  env_unlink :: bool
  env_recovered :: bool

definition daemon_init :: "lock_file \<Rightarrow> daemon_world" where
  "daemon_init f = \<lparr>dw_status = Daemon_stopped, dw_drain = drain_init, dw_lanes = lanes_init,
     dw_events = [], dw_lock = f, dw_signals = signals_init, dw_flows = []\<rparr>"

definition wait_at :: "flow \<Rightarrow> daemon_world \<Rightarrow> daemon_world" where
  "wait_at f s = s\<lparr>dw_flows := dw_flows s @ [f]\<rparr>"

section \<open>Operations\<close>

definition daemon_start :: "lane_concurrency \<Rightarrow> daemon_world \<Rightarrow> daemon_world" where
  "daemon_start conc s =
     (if dw_status s \<noteq> Daemon_stopped then s
      else wait_at (Start_read conc) (s\<lparr>dw_status := Daemon_starting\<rparr>))"

definition start_checked :: "lane_concurrency \<Rightarrow> daemon_env \<Rightarrow> daemon_world \<Rightarrow> daemon_world" where
  "start_checked conc env s =
     (if acquire_check (env_alive env) (dw_lock s) then wait_at (Start_store conc) s
      else s\<lparr>dw_status := Daemon_stopped\<rparr>)"

definition start_stored :: "lane_concurrency \<Rightarrow> daemon_env \<Rightarrow> daemon_world \<Rightarrow> daemon_world" where
  "start_stored conc env s =
     (let (ok, f) = acquire_store (env_pid env) (env_now env) (env_write env) (dw_lock s)
      in if ok
         then wait_at Start_recover
                (s\<lparr>dw_lock := f, dw_signals := signals_register () (dw_signals s),
                   dw_lanes := register conc (dw_lanes s)\<rparr>)
         else s\<lparr>dw_lock := f, dw_status := Daemon_stopped\<rparr>)"

definition start_recovered :: "daemon_env \<Rightarrow> daemon_world \<Rightarrow> daemon_world" where
  "start_recovered env s = (if env_recovered env then s\<lparr>dw_status := Daemon_running\<rparr> else s)"

definition shutdown_turn :: "int \<Rightarrow> int \<Rightarrow> daemon_world \<Rightarrow> daemon_world" where
  "shutdown_turn deadline now s =
     (case wait_turn deadline now (isIdle (dw_lanes s)) of
        None \<Rightarrow> wait_at (Shutdown_wait deadline) s
      | Some r \<Rightarrow>
          wait_at Shutdown_read
            (s\<lparr>dw_drain := drain_complete (dw_drain s), dw_signals := signals_unregister (dw_signals s)\<rparr>))"

definition daemon_shutdown :: "int \<Rightarrow> daemon_world \<Rightarrow> daemon_world" where
  "daemon_shutdown now s =
     (if dw_status s \<noteq> Daemon_running then s
      else shutdown_turn (now + 5000) now
             (s\<lparr>dw_status := Daemon_draining, dw_drain := drain_enter For_shutdown (dw_drain s)\<rparr>))"

definition shutdown_checked :: "daemon_env \<Rightarrow> daemon_world \<Rightarrow> daemon_world" where
  "shutdown_checked env s =
     (if release_check (env_pid env) (dw_lock s) then wait_at Shutdown_unlink s
      else s\<lparr>dw_status := Daemon_stopped\<rparr>)"

definition shutdown_unlinked :: "daemon_env \<Rightarrow> daemon_world \<Rightarrow> daemon_world" where
  "shutdown_unlinked env s =
     s\<lparr>dw_lock := release_unlink (env_unlink env) (dw_lock s), dw_status := Daemon_stopped\<rparr>"

text \<open>\<open>inProcessRestart\<close> up to the lock, from it, and the end of \<open>restart\<close> when it failed. A respawn runs
  the same code.\<close>

definition inProcessRestart :: "daemon_world \<Rightarrow> daemon_world" where
  "inProcessRestart s =
     wait_at Restart_read (s\<lparr>dw_lanes := resetAll (dw_lanes s), dw_events := se_clearAll (dw_events s)\<rparr>)"

definition attemptRespawn :: "daemon_world \<Rightarrow> daemon_world" where
  "attemptRespawn s = inProcessRestart s"

definition restart_failed :: "int \<Rightarrow> daemon_world \<Rightarrow> daemon_world" where
  "restart_failed now s = daemon_shutdown now s"

definition restart_turn :: "bool \<Rightarrow> int \<Rightarrow> int \<Rightarrow> daemon_world \<Rightarrow> daemon_world" where
  "restart_turn respawn deadline now s =
     (case wait_turn deadline now (isIdle (dw_lanes s)) of
        None \<Rightarrow> wait_at (Restart_wait deadline) s
      | Some r \<Rightarrow>
          (let s' = s\<lparr>dw_drain := drain_complete (dw_drain s)\<rparr>
           in if respawn then attemptRespawn s' else inProcessRestart s'))"

definition daemon_restart :: "bool \<Rightarrow> int \<Rightarrow> daemon_world \<Rightarrow> daemon_world" where
  "daemon_restart respawn now s =
     (if dw_status s \<noteq> Daemon_running then s
      else restart_turn respawn (now + 90000) now
             (s\<lparr>dw_status := Daemon_restarting, dw_drain := drain_enter For_restart (dw_drain s)\<rparr>))"

definition restart_checked :: "daemon_env \<Rightarrow> daemon_world \<Rightarrow> daemon_world" where
  "restart_checked env s =
     (if acquire_check (env_alive env) (dw_lock s) then wait_at Restart_store s
      else restart_failed (env_now env) s)"

definition restart_stored :: "daemon_env \<Rightarrow> daemon_world \<Rightarrow> daemon_world" where
  "restart_stored env s =
     (let (ok, f) = acquire_store (env_pid env) (env_now env) (env_write env) (dw_lock s)
      in if ok
         then s\<lparr>dw_lock := f, dw_lanes := register (\<lambda>_. None) (dw_lanes s),
                dw_drain := drain_reset (dw_drain s), dw_status := Daemon_running\<rparr>
         else restart_failed (env_now env) (s\<lparr>dw_lock := f\<rparr>))"

fun resume :: "bool \<Rightarrow> daemon_env \<Rightarrow> flow \<Rightarrow> daemon_world \<Rightarrow> daemon_world" where
  "resume respawn env (Start_read conc) s = start_checked conc env s"
| "resume respawn env (Start_store conc) s = start_stored conc env s"
| "resume respawn env Start_recover s = start_recovered env s"
| "resume respawn env (Shutdown_wait deadline) s = shutdown_turn deadline (env_now env) s"
| "resume respawn env Shutdown_read s = shutdown_checked env s"
| "resume respawn env Shutdown_unlink s = shutdown_unlinked env s"
| "resume respawn env (Restart_wait deadline) s = restart_turn respawn deadline (env_now env) s"
| "resume respawn env Restart_read s = restart_checked env s"
| "resume respawn env Restart_store s = restart_stored env s"

definition resume_flow :: "bool \<Rightarrow> daemon_env \<Rightarrow> flow \<Rightarrow> daemon_world \<Rightarrow> daemon_world" where
  "resume_flow respawn env f s = resume respawn env f (s\<lparr>dw_flows := remove1 f (dw_flows s)\<rparr>)"

text \<open>The callback that \<open>start\<close> registers.\<close>

fun on_signal :: "bool \<Rightarrow> int \<Rightarrow> signal_action \<Rightarrow> daemon_world \<Rightarrow> daemon_world" where
  "on_signal respawn now Do_shutdown s = daemon_shutdown now s"
| "on_signal respawn now Do_restart s = daemon_restart respawn now s"

definition deliver :: "bool \<Rightarrow> int \<Rightarrow> os_signal \<Rightarrow> daemon_world \<Rightarrow> daemon_world" where
  "deliver respawn now sig s = fold (\<lambda>(h, a). on_signal respawn now a) (signal_calls sig (dw_signals s)) s"

definition daemon_enqueue :: "command_lane \<Rightarrow> string \<Rightarrow> daemon_world \<Rightarrow> (nat + task_outcome) \<times> daemon_world" where
  "daemon_enqueue lane workspaceId s =
     (let (r, l) = enqueue (isDraining (dw_drain s)) lane workspaceId (dw_lanes s) in (r, s\<lparr>dw_lanes := l\<rparr>))"

record daemon_info =
  di_state :: daemon_status
  di_drain :: drain
  di_lanes :: "(string, lane_info) jmap"
  di_activeTasks :: nat

definition info :: "daemon_world \<Rightarrow> daemon_info" where
  "info s = \<lparr>di_state = dw_status s, di_drain = dw_drain s, di_lanes = lanes_info (dw_lanes s),
     di_activeTasks = totalActiveTasks (dw_lanes s)\<rparr>"

section \<open>Runs\<close>

text \<open>A signal is only a step while the process listens to it; otherwise the operating system acts.\<close>

inductive daemon_step :: "daemon_world \<Rightarrow> daemon_world \<Rightarrow> bool" where
  starts: "daemon_step s (daemon_start conc s)"
| shuts: "daemon_step s (daemon_shutdown now s)"
| restarts: "daemon_step s (daemon_restart respawn now s)"
| signalled: "sig \<in> set (sg_listeners (dw_signals s)) \<Longrightarrow> daemon_step s (deliver respawn now sig s)"
| resumes: "f \<in> set (dw_flows s) \<Longrightarrow> daemon_step s (resume_flow respawn env f s)"
| accepts: "daemon_step s (snd (daemon_enqueue lane w s))"
| task_ends: "t \<in> set (lw_running (dw_lanes s)) \<Longrightarrow>
    daemon_step s (s\<lparr>dw_lanes := finish t ok (dw_lanes s)\<rparr>)"
| workspaces: "daemon_step s (s\<lparr>dw_lanes := registerWorkspace w conc (dw_lanes s)\<rparr>)"
| unworkspaces: "daemon_step s (s\<lparr>dw_lanes := unregisterWorkspace w (dw_lanes s)\<rparr>)"
| notifies: "daemon_step s (s\<lparr>dw_events := se_enqueue text' k c now (dw_events s)\<rparr>)"
| drains_events: "daemon_step s (s\<lparr>dw_events := snd (se_drain k (dw_events s))\<rparr>)"
| other_process: "daemon_step s (s\<lparr>dw_lock := f\<rparr>)"

definition daemon_reach :: "daemon_world \<Rightarrow> bool" where
  "daemon_reach s \<longleftrightarrow> (\<exists>f. daemon_step\<^sup>*\<^sup>* (daemon_init f) s)"

section \<open>The invariant\<close>

definition flows_ok :: "daemon_status \<Rightarrow> flow list \<Rightarrow> bool" where
  "flows_ok st fs \<longleftrightarrow>
     (case st of
        Daemon_stopped \<Rightarrow> fs = []
      | Daemon_running \<Rightarrow> fs = []
      | Daemon_starting \<Rightarrow> fs = [] \<or> fs = [Start_recover] \<or> (\<exists>c. fs = [Start_read c] \<or> fs = [Start_store c])
      | Daemon_draining \<Rightarrow> fs = [Shutdown_read] \<or> fs = [Shutdown_unlink] \<or> (\<exists>d. fs = [Shutdown_wait d])
      | Daemon_restarting \<Rightarrow> fs = [] \<or> fs = [Restart_read] \<or> fs = [Restart_store] \<or> (\<exists>d. fs = [Restart_wait d]))"

definition signals_ok :: "unit signals \<Rightarrow> bool" where
  "signals_ok s \<longleftrightarrow>
     sg_listeners s = (if sg_registered s then [SIGTERM, SIGINT, SIGUSR1] else []) \<and>
     sg_handler s = (if sg_registered s then Some () else None)"

definition daemon_inv :: "daemon_world \<Rightarrow> bool" where
  "daemon_inv s \<longleftrightarrow>
     flows_ok (dw_status s) (dw_flows s) \<and> signals_ok (dw_signals s) \<and>
     (dw_status s \<in> {Daemon_running, Daemon_restarting} \<longrightarrow> sg_registered (dw_signals s)) \<and>
     (dw_status s \<in> {Daemon_draining, Daemon_restarting} \<longrightarrow> isDraining (dw_drain s)) \<and>
     (dw_flows s = [Start_recover] \<longrightarrow> sg_registered (dw_signals s)) \<and>
     lanes_reach (dw_lanes s)"

lemma signals_ok_register [simp]: "signals_ok s \<Longrightarrow> signals_ok (signals_register () s)"
  by (simp add: signals_ok_def signals_register_def signals_unregister_def Let_def)

lemma signals_ok_unregister [simp]: "signals_ok s \<Longrightarrow> signals_ok (signals_unregister s)"
  by (simp add: signals_ok_def signals_unregister_def)

lemma sg_registered_simps [simp]:
  "sg_registered (signals_register h s)" "\<not> sg_registered (signals_unregister s)"
  by (simp_all add: signals_register_def signals_unregister_def Let_def)

lemma lanes_reach_simps [intro]:
  "lanes_reach l \<Longrightarrow> lanes_reach (resetAll l)"
  "lanes_reach l \<Longrightarrow> lanes_reach (register c l)"
  "lanes_reach l \<Longrightarrow> lanes_reach (registerWorkspace w c l)"
  "lanes_reach l \<Longrightarrow> lanes_reach (unregisterWorkspace w l)"
  "lanes_reach l \<Longrightarrow> lanes_reach (snd (enqueue b lane w l))"
  "lanes_reach l \<Longrightarrow> t \<in> set (lw_running l) \<Longrightarrow> lanes_reach (finish t ok l)"
  by (auto intro: lanes_reach.step lanes_step.intros simp: register_def)

lemma shutdown_turn_cases:
  "shutdown_turn d now s = wait_at (Shutdown_wait d) s \<or>
   shutdown_turn d now s = wait_at Shutdown_read
     (s\<lparr>dw_drain := drain_complete (dw_drain s), dw_signals := signals_unregister (dw_signals s)\<rparr>)"
  by (simp add: shutdown_turn_def split: option.splits)

lemma restart_turn_cases:
  "restart_turn respawn d now s = wait_at (Restart_wait d) s \<or>
   restart_turn respawn d now s = wait_at Restart_read
     (s\<lparr>dw_drain := drain_complete (dw_drain s), dw_lanes := resetAll (dw_lanes s),
        dw_events := se_clearAll (dw_events s)\<rparr>)"
  by (simp add: restart_turn_def attemptRespawn_def inProcessRestart_def Let_def split: option.splits)

lemma shutdown_turn_inv:
  assumes "dw_flows s = []" and "dw_status s = Daemon_draining" and "isDraining (dw_drain s)"
    and "signals_ok (dw_signals s)" and "lanes_reach (dw_lanes s)"
  shows "daemon_inv (shutdown_turn d now s)"
  using shutdown_turn_cases [of d now s] assms by (auto simp: daemon_inv_def wait_at_def flows_ok_def)

lemma restart_turn_inv:
  assumes "dw_flows s = []" and "dw_status s = Daemon_restarting" and "isDraining (dw_drain s)"
    and "signals_ok (dw_signals s)" and "sg_registered (dw_signals s)" and "lanes_reach (dw_lanes s)"
  shows "daemon_inv (restart_turn respawn d now s)"
  using restart_turn_cases [of respawn d now s] assms by (auto simp: daemon_inv_def wait_at_def flows_ok_def)

lemma shutdown_inv:
  assumes "daemon_inv s"
  shows "daemon_inv (daemon_shutdown now s)"
  using assms unfolding daemon_shutdown_def
  by (auto intro!: shutdown_turn_inv) (auto simp: daemon_inv_def flows_ok_def)

lemma restart_inv:
  assumes "daemon_inv s"
  shows "daemon_inv (daemon_restart respawn now s)"
  using assms unfolding daemon_restart_def
  by (auto intro!: restart_turn_inv) (auto simp: daemon_inv_def flows_ok_def)

lemma start_inv:
  assumes "daemon_inv s"
  shows "daemon_inv (daemon_start conc s)"
  using assms by (auto simp: daemon_start_def daemon_inv_def wait_at_def flows_ok_def)

lemma on_signal_inv: "daemon_inv s \<Longrightarrow> daemon_inv (on_signal respawn now a s)"
  by (cases a) (simp_all add: shutdown_inv restart_inv)

lemma deliver_inv:
  assumes "daemon_inv s"
  shows "daemon_inv (deliver respawn now sig s)"
  unfolding deliver_def
proof (induction "signal_calls sig (dw_signals s)" rule: rev_induct)
  case (snoc x xs)
  have "daemon_inv (fold (\<lambda>(h, a). on_signal respawn now a) ys t)" if "daemon_inv t" for ys t
    using that by (induction ys arbitrary: t) (auto simp: on_signal_inv)
  then show ?case using assms .
qed (use assms in simp)

lemma flows_ok_single: "flows_ok st fs \<Longrightarrow> f \<in> set fs \<Longrightarrow> fs = [f]"
  by (cases st) (auto simp: flows_ok_def)

lemma flow_status:
  assumes "flows_ok st [f]"
  shows "st = (case f of Start_read c \<Rightarrow> Daemon_starting | Start_store c \<Rightarrow> Daemon_starting
    | Start_recover \<Rightarrow> Daemon_starting | Shutdown_wait d \<Rightarrow> Daemon_draining | Shutdown_read \<Rightarrow> Daemon_draining
    | Shutdown_unlink \<Rightarrow> Daemon_draining | Restart_wait d \<Rightarrow> Daemon_restarting
    | Restart_read \<Rightarrow> Daemon_restarting | Restart_store \<Rightarrow> Daemon_restarting)"
  using assms by (cases st) (auto simp: flows_ok_def)

lemma resume_inv:
  assumes "daemon_inv s" and "f \<in> set (dw_flows s)"
  shows "daemon_inv (resume_flow respawn env f s)"
proof -
  have fs: "dw_flows s = [f]" using assms by (intro flows_ok_single) (auto simp: daemon_inv_def)
  have st: "flows_ok (dw_status s) [f]" using assms(1) fs by (simp add: daemon_inv_def)
  have inv: "signals_ok (dw_signals s)" "lanes_reach (dw_lanes s)"
    "dw_status s \<in> {Daemon_running, Daemon_restarting} \<Longrightarrow> sg_registered (dw_signals s)"
    "dw_status s \<in> {Daemon_draining, Daemon_restarting} \<Longrightarrow> isDraining (dw_drain s)"
    "dw_flows s = [Start_recover] \<Longrightarrow> sg_registered (dw_signals s)"
    using assms(1) by (auto simp: daemon_inv_def)
  note defs = resume_flow_def wait_at_def daemon_inv_def flows_ok_def
  show ?thesis
  proof (cases f)
    case (Start_store c)
    then show ?thesis using inv fs flow_status [OF st]
      by (cases "env_write env") (auto simp: defs start_stored_def)
  next
    case (Shutdown_wait d)
    then show ?thesis using inv fs flow_status [OF st] by (auto simp: resume_flow_def intro!: shutdown_turn_inv)
  next
    case (Restart_wait d)
    then show ?thesis using inv fs flow_status [OF st] by (auto simp: resume_flow_def intro!: restart_turn_inv)
  next
    case Restart_store
    then show ?thesis using inv fs flow_status [OF st]
      by (cases "env_write env") (auto simp: defs restart_stored_def restart_failed_def daemon_shutdown_def)
  next
    case Restart_read
    then show ?thesis using inv fs flow_status [OF st]
      by (auto simp: defs restart_checked_def restart_failed_def daemon_shutdown_def)
  qed (use inv fs flow_status [OF st] in
      \<open>auto simp: defs start_checked_def start_recovered_def shutdown_checked_def shutdown_unlinked_def\<close>)
qed

lemma lanes_update_inv: "daemon_inv s \<Longrightarrow> lanes_reach l \<Longrightarrow> daemon_inv (s\<lparr>dw_lanes := l\<rparr>)"
  by (simp add: daemon_inv_def)

lemma daemon_inv_lanes: "daemon_inv s \<Longrightarrow> lanes_reach (dw_lanes s)"
  by (simp add: daemon_inv_def)

lemma enqueue_daemon_inv: "daemon_inv s \<Longrightarrow> daemon_inv (snd (daemon_enqueue lane w s))"
  using lanes_reach_simps(5) [of "dw_lanes s" "isDraining (dw_drain s)" lane w]
  by (auto simp: daemon_enqueue_def split_beta Let_def intro: lanes_update_inv daemon_inv_lanes)

lemma daemon_step_inv: "daemon_step s s' \<Longrightarrow> daemon_inv s \<Longrightarrow> daemon_inv s'"
proof (induction rule: daemon_step.induct)
  case (notifies s text' k c now)
  then show ?case by (simp add: daemon_inv_def)
next
  case (drains_events s k)
  then show ?case by (simp add: daemon_inv_def)
next
  case (other_process s f)
  then show ?case by (simp add: daemon_inv_def)
qed (auto intro: start_inv shutdown_inv restart_inv deliver_inv resume_inv enqueue_daemon_inv
    lanes_update_inv daemon_inv_lanes)

lemma daemon_reach_inv: "daemon_reach s \<Longrightarrow> daemon_inv s"
proof -
  have "daemon_inv s" if "daemon_step\<^sup>*\<^sup>* (daemon_init f) s" for f
    using that
    by (induction rule: rtranclp_induct)
      (auto simp: daemon_step_inv, auto simp: daemon_inv_def daemon_init_def flows_ok_def signals_ok_def
        signals_init_def lanes_reach.start)
  then show "daemon_reach s \<Longrightarrow> daemon_inv s" by (auto simp: daemon_reach_def)
qed

lemma daemon_reach_init: "daemon_reach (daemon_init f)"
  by (auto simp: daemon_reach_def)

lemma daemon_reach_step: "daemon_reach s \<Longrightarrow> daemon_step s s' \<Longrightarrow> daemon_reach s'"
  by (auto simp: daemon_reach_def intro: rtranclp.rtrancl_into_rtrancl)

section \<open>Properties\<close>

fun status_of :: "flow \<Rightarrow> daemon_status" where
  "status_of (Start_read c) = Daemon_starting"
| "status_of (Start_store c) = Daemon_starting"
| "status_of Start_recover = Daemon_starting"
| "status_of (Shutdown_wait d) = Daemon_draining"
| "status_of Shutdown_read = Daemon_draining"
| "status_of Shutdown_unlink = Daemon_draining"
| "status_of (Restart_wait d) = Daemon_restarting"
| "status_of Restart_read = Daemon_restarting"
| "status_of Restart_store = Daemon_restarting"

lemma signals_ok_calls: "signals_ok s \<Longrightarrow> sg_registered s \<Longrightarrow> signal_calls sig s = [((), signal_action_of sig)]"
  by (cases sig) (simp_all add: signals_ok_def signal_calls_def)

text \<open>C22 (invariant): whatever operations, signals and other processes come in whatever order, at most
  one operation of the daemon is suspended and the daemon is in the state of that operation, a running
  or stopped daemon has none suspended, a running daemon answers each signal with exactly one call of
  the action the signal stands for, it only rejects work while draining or restarting, and its lanes
  are a reachable state of the lanes component.\<close>

theorem daemon_phases:
  assumes "daemon_reach s"
  shows "length (dw_flows s) \<le> 1 \<and> (\<forall>f \<in> set (dw_flows s). status_of f = dw_status s) \<and>
    (dw_status s \<in> {Daemon_running, Daemon_stopped} \<longrightarrow> dw_flows s = []) \<and>
    (dw_status s = Daemon_running \<longrightarrow> signal_calls sig (dw_signals s) = [((), signal_action_of sig)]) \<and>
    (dw_status s \<in> {Daemon_draining, Daemon_restarting} \<longrightarrow>
       daemon_enqueue lane w s = (Inr Gateway_draining, s)) \<and>
    lanes_reach (dw_lanes s)"
proof -
  have inv: "daemon_inv s" by (rule daemon_reach_inv [OF assms])
  then have "flows_ok (dw_status s) (dw_flows s)" by (simp add: daemon_inv_def)
  then have "length (dw_flows s) \<le> 1" "\<forall>f \<in> set (dw_flows s). status_of f = dw_status s"
    "dw_status s \<in> {Daemon_running, Daemon_stopped} \<longrightarrow> dw_flows s = []"
    by (cases "dw_status s"; auto simp: flows_ok_def)+
  then show ?thesis using inv signals_ok_calls [of "dw_signals s" sig]
    by (simp add: daemon_inv_def daemon_enqueue_def enqueue_def)
qed

text \<open>A daemon whose restart failed.\<close>

definition wedged :: "daemon_world \<Rightarrow> bool" where
  "wedged s \<longleftrightarrow> dw_status s = Daemon_restarting \<and> dw_flows s = [] \<and> isDraining (dw_drain s)"

lemma wedged_ops:
  assumes "wedged s"
  shows "daemon_start conc s = s" and "daemon_shutdown now s = s" and "daemon_restart respawn now s = s"
    and "daemon_enqueue lane w s = (Inr Gateway_draining, s)"
  using assms by (simp_all add: wedged_def daemon_start_def daemon_shutdown_def daemon_restart_def
      daemon_enqueue_def enqueue_def)

lemma wedged_signal: "wedged s \<Longrightarrow> on_signal respawn now a s = s"
  by (cases a) (simp_all add: wedged_ops)

lemma wedged_deliver: "wedged s \<Longrightarrow> deliver respawn now sig s = s"
proof -
  have "fold (\<lambda>(h, a). on_signal respawn now a) xs s = s" if "wedged s" for xs :: "(unit \<times> signal_action) list"
    using that by (induction xs) (auto simp: wedged_signal)
  then show "wedged s \<Longrightarrow> deliver respawn now sig s = s" by (simp add: deliver_def)
qed

lemma wedged_step: "daemon_step s s' \<Longrightarrow> wedged s \<Longrightarrow> wedged s'"
  by (induction rule: daemon_step.induct) (simp_all add: wedged_ops wedged_deliver, simp_all add: wedged_def)

lemma wedged_steps: "daemon_step\<^sup>*\<^sup>* s s' \<Longrightarrow> wedged s \<Longrightarrow> wedged s'"
  by (induction rule: rtranclp_induct) (auto simp: wedged_step)

text \<open>A restart fails whenever the lock file names a live process, and the daemon's own file
  names the daemon itself. A healthy daemon with idle lanes that is told to restart therefore clears its
  lanes, is refused its own lock and stays in the restarting state for good: from then on no operation,
  no signal, no task and no other process gets it out, a shutdown or a restart does nothing and every
  task is rejected.\<close>

theorem restart_wedges:
  fixes env :: daemon_env
  assumes "daemon_reach s" and "dw_status s = Daemon_running" and "isIdle (dw_lanes s)"
    and "readLock (dw_lock s) = Some i" and "lk_pid i = env_pid env" and "env_alive env (env_pid env)"
    and "s1 = daemon_restart respawn now s" and "s2 = resume_flow respawn env Restart_read s1"
    and "daemon_step\<^sup>*\<^sup>* s2 s3"
  shows "daemon_step\<^sup>*\<^sup>* s s2 \<and> dw_status s3 = Daemon_restarting \<and> daemon_start conc s3 = s3 \<and>
    daemon_shutdown t s3 = s3 \<and> deliver respawn t sig s3 = s3 \<and>
    daemon_enqueue lane w s3 = (Inr Gateway_draining, s3)"
proof -
  have inv: "daemon_inv s" by (rule daemon_reach_inv [OF assms(1)])
  then have fs: "dw_flows s = []" using assms(2) by (simp add: daemon_inv_def flows_ok_def)
  have s1: "s1 = wait_at Restart_read (s\<lparr>dw_status := Daemon_restarting,
      dw_drain := drain_complete (drain_enter For_restart (dw_drain s)),
      dw_lanes := resetAll (dw_lanes s), dw_events := se_clearAll (dw_events s)\<rparr>)"
    using assms(2,3,7) by (simp add: daemon_restart_def restart_turn_def wait_turn_def attemptRespawn_def
        inProcessRestart_def Let_def)
  have "wedged s2"
    using assms(4,5,6,8) fs
    by (simp add: s1 wedged_def resume_flow_def restart_checked_def acquire_check_def restart_failed_def
        daemon_shutdown_def wait_at_def)
  from wedged_steps [OF assms(9) this] have w: "wedged s3" .
  have "daemon_step s s1" unfolding assms(7) by (rule restarts)
  moreover have "daemon_step s1 s2" unfolding assms(8) by (rule resumes) (simp add: s1 wait_at_def)
  ultimately have "daemon_step\<^sup>*\<^sup>* s s2" by (rule converse_rtranclp_into_rtranclp [OF _ r_into_rtranclp])
  then show ?thesis using w wedged_ops [OF w] wedged_deliver [OF w] by (simp add: wedged_def)
qed

text \<open>Shutting down leaves the drain complete and starting does not reset it: when a daemon that
  has drained before is started again, it gets its lock and runs, but every task it is given is
  rejected as if the daemon were draining.\<close>

theorem start_after_shutdown_rejects:
  fixes env :: daemon_env
  assumes "daemon_reach s" and "dw_status s = Daemon_stopped" and "isDraining (dw_drain s)"
    and "acquire_check (env_alive env) (dw_lock s)" and "env_write env = Write_done" and "env_recovered env"
  shows "\<exists>s'. daemon_step\<^sup>*\<^sup>* s s' \<and> dw_status s' = Daemon_running \<and>
    map_option lk_pid (readLock (dw_lock s')) = Some (env_pid env) \<and>
    daemon_enqueue lane w s' = (Inr Gateway_draining, s')"
proof -
  have inv: "daemon_inv s" by (rule daemon_reach_inv [OF assms(1)])
  then have fs: "dw_flows s = []" using assms(2) by (simp add: daemon_inv_def flows_ok_def)
  let ?a = "daemon_start (\<lambda>_. None) s"
  let ?b = "resume_flow True env (Start_read (\<lambda>_. None)) ?a"
  let ?c = "resume_flow True env (Start_store (\<lambda>_. None)) ?b"
  let ?d = "resume_flow True env Start_recover ?c"
  have a: "?a = s\<lparr>dw_status := Daemon_starting, dw_flows := [Start_read (\<lambda>_. None)]\<rparr>"
    using assms(2) fs by (simp add: daemon_start_def wait_at_def)
  have b: "?b = s\<lparr>dw_status := Daemon_starting, dw_flows := [Start_store (\<lambda>_. None)]\<rparr>"
    unfolding a using assms(4) by (simp add: resume_flow_def start_checked_def wait_at_def)
  have c: "dw_flows ?c = [Start_recover] \<and> dw_drain ?c = dw_drain s \<and>
      map_option lk_pid (readLock (dw_lock ?c)) = Some (env_pid env)"
    unfolding b using assms(5) by (simp add: resume_flow_def start_stored_def wait_at_def)
  have d: "dw_status ?d = Daemon_running \<and> dw_drain ?d = dw_drain s \<and>
      map_option lk_pid (readLock (dw_lock ?d)) = Some (env_pid env)"
    using c assms(6) by (simp add: resume_flow_def start_recovered_def)
  have "daemon_step s ?a" by (rule starts)
  moreover have "daemon_step ?a ?b" by (rule resumes) (simp add: a)
  moreover have "daemon_step ?b ?c" by (rule resumes) (simp add: b)
  moreover have "daemon_step ?c ?d" by (rule resumes) (simp add: c)
  ultimately have "daemon_step\<^sup>*\<^sup>* s ?d"
    by (rule converse_rtranclp_into_rtranclp [OF _ converse_rtranclp_into_rtranclp
        [OF _ converse_rtranclp_into_rtranclp [OF _ r_into_rtranclp]]])
  then show ?thesis using d assms(3) by (intro exI [of _ ?d]) (simp add: daemon_enqueue_def enqueue_def)
qed

section \<open>A run\<close>

definition run_env :: "int \<Rightarrow> daemon_env" where
  "run_env now = \<lparr>env_now = now, env_pid = 7, env_alive = (\<lambda>p. p = 7), env_write = Write_done,
     env_unlink = True, env_recovered = True\<rparr>"

definition run_started :: daemon_world where
  "run_started =
     resume_flow True (run_env 3) Start_recover
       (resume_flow True (run_env 2) (Start_store (\<lambda>_. None))
         (resume_flow True (run_env 1) (Start_read (\<lambda>_. None)) (daemon_start (\<lambda>_. None) (daemon_init No_file))))"

definition run_stopped :: daemon_world where
  "run_stopped =
     resume_flow True (run_env 6) Shutdown_unlink
       (resume_flow True (run_env 5) Shutdown_read (daemon_shutdown 4 run_started))"

lemmas run_defs = resume_flow_def wait_at_def daemon_start_def daemon_init_def start_checked_def start_stored_def
  start_recovered_def acquire_check_def run_env_def

lemma default_lanes_idle: "isIdle (register (\<lambda>_. None) lanes_init)"
  by (simp add: isIdle_def totalActiveTasks_def register_def registerWorkspace_def all_lanes_def registerLane_def
      lanes_init_def set_lane_def fresh_lane_def buildLaneKey_def DEFAULT_WORKSPACE_ID_def)

lemma run_started_eq:
  "run_started = (daemon_init (Lock_file \<lparr>lk_pid = 7, lk_acquiredAtMs = 2\<rparr>))\<lparr>dw_status := Daemon_running,
     dw_signals := signals_register () signals_init, dw_lanes := register (\<lambda>_. None) lanes_init\<rparr>"
  by (simp add: run_started_def run_defs)

lemma run_stopped_eq:
  "run_stopped = (daemon_init No_file)\<lparr>dw_drain := \<lparr>dr_state = Drain_drained, dr_reason = Some For_shutdown\<rparr>,
     dw_signals := signals_unregister (signals_register () signals_init),
     dw_lanes := register (\<lambda>_. None) lanes_init\<rparr>"
  by (simp add: run_stopped_def run_started_eq resume_flow_def wait_at_def daemon_shutdown_def shutdown_turn_def
      wait_turn_def default_lanes_idle shutdown_checked_def shutdown_unlinked_def release_check_def
      release_unlink_def run_env_def daemon_init_def drain_init_def drain_enter_def drain_complete_def)

lemma run_started_reach: "daemon_reach run_started"
proof -
  let ?a = "daemon_start (\<lambda>_. None) (daemon_init No_file)"
  let ?b = "resume_flow True (run_env 1) (Start_read (\<lambda>_. None)) ?a"
  let ?c = "resume_flow True (run_env 2) (Start_store (\<lambda>_. None)) ?b"
  have 1: "daemon_step (daemon_init No_file) ?a" by (rule starts)
  have 2: "daemon_step ?a ?b" by (rule resumes) (simp add: run_defs)
  have 3: "daemon_step ?b ?c" by (rule resumes) (simp add: run_defs)
  have 4: "daemon_step ?c run_started" unfolding run_started_def by (rule resumes) (simp add: run_defs)
  show ?thesis
    by (rule daemon_reach_step [OF daemon_reach_step [OF daemon_reach_step [OF daemon_reach_step
      [OF daemon_reach_init 1] 2] 3] 4])
qed

lemma run_stopped_reach: "daemon_reach run_stopped"
proof -
  let ?a = "daemon_shutdown 4 run_started"
  let ?b = "resume_flow True (run_env 5) Shutdown_read ?a"
  have a: "dw_flows ?a = [Shutdown_read]" "dw_lock ?a = Lock_file \<lparr>lk_pid = 7, lk_acquiredAtMs = 2\<rparr>"
    by (simp_all add: run_started_eq daemon_shutdown_def shutdown_turn_def wait_turn_def default_lanes_idle
        wait_at_def daemon_init_def)
  have 1: "daemon_step run_started ?a" by (rule shuts)
  have 2: "daemon_step ?a ?b" by (rule resumes) (simp add: a)
  have 3: "daemon_step ?b run_stopped" unfolding run_stopped_def
    by (rule resumes) (simp add: resume_flow_def a shutdown_checked_def release_check_def run_env_def wait_at_def)
  show ?thesis
    by (rule daemon_reach_step [OF daemon_reach_step [OF daemon_reach_step [OF run_started_reach 1] 2] 3])
qed

theorem daemon_phases_witness:
  "signal_calls SIGUSR1 (dw_signals run_started) = [((), Do_restart)]"
  using daemon_phases [OF run_started_reach, of SIGUSR1] by (simp add: run_started_eq)

theorem restart_wedges_witness:
  "daemon_shutdown 20 (resume_flow True (run_env 9) Restart_read (daemon_restart True 8 run_started)) =
   resume_flow True (run_env 9) Restart_read (daemon_restart True 8 run_started)"
proof -
  have "dw_status run_started = Daemon_running" "isIdle (dw_lanes run_started)"
    "readLock (dw_lock run_started) = Some \<lparr>lk_pid = 7, lk_acquiredAtMs = 2\<rparr>"
    "lk_pid \<lparr>lk_pid = 7, lk_acquiredAtMs = 2\<rparr> = env_pid (run_env 9)"
    "env_alive (run_env 9) (env_pid (run_env 9))"
    by (simp_all add: run_started_eq daemon_init_def default_lanes_idle run_env_def)
  from restart_wedges [OF run_started_reach this refl refl rtranclp.rtrancl_refl] show ?thesis by blast
qed

theorem start_after_shutdown_rejects_witness:
  "\<exists>s'. daemon_step\<^sup>*\<^sup>* run_stopped s' \<and> dw_status s' = Daemon_running \<and>
    daemon_enqueue Main_lane ''default'' s' = (Inr Gateway_draining, s')"
  using start_after_shutdown_rejects [OF run_stopped_reach, of "run_env 9" Main_lane "''default''"]
  by (auto simp: run_stopped_eq daemon_init_def isDraining_def acquire_check_def run_env_def)

end
