(* ===== verification/Cron_Types.thy ===== *)
theory Cron_Types
  imports Js_Prelude
begin

text \<open>
  \<^verbatim>\<open>cron/types.ts\<close>: the data of scheduled jobs. Times are integers, in milliseconds since the epoch.
  Patches of a job carry a value for each key they have; \<open>Some None\<close> is a key that is present with the
  value undefined. The keys of a job and its state that no code reads or assigns (\<open>description\<close>, the failure
  alerts, the delivery status) are left out.
\<close>

datatype cron_schedule =
  At string
| Every int "int option"
| Cron string "string option" "int option"

datatype session_target = Target_main | Target_isolated

datatype wake_mode = Next_heartbeat | Wake_now

datatype delivery_mode = Delivery_none | Delivery_announce | Delivery_webhook

record cron_delivery =
  cd_mode :: delivery_mode
  cd_webhookUrl :: "string option"
  cd_webhookBearerToken :: "string option"
  cd_announceSessionID :: "string option"
  cd_bestEffort :: bool

datatype run_status = Run_ok | Run_error | Run_skipped

datatype delivery_status = Delivered | Not_delivered | Delivery_unknown | Not_requested

record job_state =
  js_nextRunAtMs :: "int option"
  js_runningAtMs :: "int option"
  js_lastRunAtMs :: "int option"
  js_lastRunStatus :: "run_status option"
  js_lastError :: "string option"
  js_lastErrorReason :: "string option"
  js_lastDurationMs :: "int option"
  js_consecutiveErrors :: "nat option"
  js_lastModel :: "string option"
  js_lastAccountId :: "string option"

datatype cron_payload =
  System_event string
| Agent_turn string "string option" "string option" bool

record cron_job =
  cj_id :: string
  cj_name :: string
  cj_enabled :: bool
  cj_deleteAfterRun :: bool
  cj_createdAtMs :: int
  cj_updatedAtMs :: int
  cj_schedule :: cron_schedule
  cj_sessionTarget :: session_target
  cj_parentID :: "string option"
  cj_dormantSessionID :: "string option"
  cj_wakeMode :: wake_mode
  cj_payload :: cron_payload
  cj_delivery :: "cron_delivery option"
  cj_state :: job_state

record run_outcome =
  ro_status :: run_status
  ro_error :: "string option"
  ro_summary :: "string option"
  ro_durationMs :: "int option"

record run_log_entry =
  rl_jobId :: string
  rl_runId :: string
  rl_startedAtMs :: int
  rl_completedAtMs :: "int option"
  rl_status :: "run_status option"
  rl_summary :: "string option"
  rl_sessionId :: "string option"
  rl_durationMs :: "int option"

definition cronSessionKey :: "string \<Rightarrow> string \<Rightarrow> string" where
  "cronSessionKey jobId runId = ''cron:'' @ jobId @ '':run:'' @ runId"

definition mainSessionKey :: "string \<Rightarrow> string" where
  "mainSessionKey agentId = ''agent:'' @ agentId @ '':main''"

section \<open>Partial states\<close>

text \<open>The keys that the callers assign, in a \<open>Partial<CronJobState>\<close>.\<close>

datatype state_key =
  Next_run "int option"
| Running "int option"
| Last_run "int option"
| Last_status "run_status option"
| Last_error "string option"
| Last_reason "string option"
| Last_duration "int option"
| Consecutive "nat option"
| Last_model "string option"
| Last_account "string option"

type_synonym state_patch = "state_key list"

fun set_key :: "state_key \<Rightarrow> job_state \<Rightarrow> job_state" where
  "set_key (Next_run v) s = s\<lparr>js_nextRunAtMs := v\<rparr>"
| "set_key (Running v) s = s\<lparr>js_runningAtMs := v\<rparr>"
| "set_key (Last_run v) s = s\<lparr>js_lastRunAtMs := v\<rparr>"
| "set_key (Last_status v) s = s\<lparr>js_lastRunStatus := v\<rparr>"
| "set_key (Last_error v) s = s\<lparr>js_lastError := v\<rparr>"
| "set_key (Last_reason v) s = s\<lparr>js_lastErrorReason := v\<rparr>"
| "set_key (Last_duration v) s = s\<lparr>js_lastDurationMs := v\<rparr>"
| "set_key (Consecutive v) s = s\<lparr>js_consecutiveErrors := v\<rparr>"
| "set_key (Last_model v) s = s\<lparr>js_lastModel := v\<rparr>"
| "set_key (Last_account v) s = s\<lparr>js_lastAccountId := v\<rparr>"

text \<open>\<open>{...state, ...patch}\<close>\<close>

definition spread_state :: "state_patch \<Rightarrow> job_state \<Rightarrow> job_state" where
  "spread_state patch s = fold set_key patch s"

definition empty_state :: job_state where
  "empty_state = \<lparr>js_nextRunAtMs = None, js_runningAtMs = None, js_lastRunAtMs = None,
     js_lastRunStatus = None, js_lastError = None, js_lastErrorReason = None, js_lastDurationMs = None,
     js_consecutiveErrors = None, js_lastModel = None, js_lastAccountId = None\<rparr>"

fun is_next_run :: "state_key \<Rightarrow> bool" where
  "is_next_run (Next_run v) = True"
| "is_next_run (Running v) = False"
| "is_next_run (Last_run v) = False"
| "is_next_run (Last_status v) = False"
| "is_next_run (Last_error v) = False"
| "is_next_run (Last_reason v) = False"
| "is_next_run (Last_duration v) = False"
| "is_next_run (Consecutive v) = False"
| "is_next_run (Last_model v) = False"
| "is_next_run (Last_account v) = False"

fun is_at :: "cron_schedule \<Rightarrow> bool" where
  "is_at (At t) = True"
| "is_at (Every n a) = False"
| "is_at (Cron e tz st) = False"

lemma spread_state_Nil [simp]: "spread_state [] s = s"
  by (simp add: spread_state_def)

lemma spread_state_Cons [simp]: "spread_state (k # ks) s = spread_state ks (set_key k s)"
  by (simp add: spread_state_def)

lemma spread_state_next_run: "\<not> list_ex is_next_run ks \<Longrightarrow> js_nextRunAtMs (spread_state ks s) = js_nextRunAtMs s"
proof (induction ks arbitrary: s)
  case (Cons k ks)
  then show ?case by (cases k) auto
qed simp

end
