(* ===== verification/Cron_Schedule.thy ===== *)
theory Cron_Schedule
  imports Cron_Types "HOL-Library.Word"
begin

text \<open>
  \<^verbatim>\<open>cron/schedule.ts\<close>: when a schedule fires next. A \<open>calendar\<close> is what the code gets from its host:
  the offset of the system's zone, the reading of ISO timestamps, and the wall clock of a named zone,
  as \<open>Intl.DateTimeFormat\<close> gives it (read as if it were UTC; \<open>None\<close> for a name it rejects). The offset
  of the system's zone is fixed; the changes of daylight saving time are not modelled.
\<close>

record calendar =
  cal_offset :: int
  cal_wall :: "string \<Rightarrow> int \<Rightarrow> int option"
  cal_parse :: "string \<Rightarrow> int option"

section \<open>Dates\<close>

definition MS_MINUTE :: int where "MS_MINUTE = 60000"

definition MS_DAY :: int where "MS_DAY = 86400000"

text \<open>The month and the day of the month of a day counted from 1970-01-01, in the Gregorian calendar,
  over eras of 400 years that start in March.\<close>

definition month_day :: "int \<Rightarrow> int \<times> int" where
  "month_day days =
     (let z = days + 719468;
          doe = z mod 146097;
          yoe = (doe - doe div 1460 + doe div 36524 - doe div 146096) div 365;
          doy = doe - (365 * yoe + yoe div 4 - yoe div 100);
          mp = (5 * doy + 2) div 153
      in (if mp < 10 then mp + 3 else mp - 9, doy - (153 * mp + 2) div 5 + 1))"

definition local_time :: "calendar \<Rightarrow> int \<Rightarrow> int" where
  "local_time cal t = t + cal_offset cal"

definition getMonth1 :: "calendar \<Rightarrow> int \<Rightarrow> int" where
  "getMonth1 cal t = fst (month_day (local_time cal t div MS_DAY))"

definition getDate :: "calendar \<Rightarrow> int \<Rightarrow> int" where
  "getDate cal t = snd (month_day (local_time cal t div MS_DAY))"

definition getDay :: "calendar \<Rightarrow> int \<Rightarrow> int" where
  "getDay cal t = (local_time cal t div MS_DAY + 4) mod 7"

definition getHours :: "calendar \<Rightarrow> int \<Rightarrow> int" where
  "getHours cal t = local_time cal t mod MS_DAY div 3600000"

definition getMinutes :: "calendar \<Rightarrow> int \<Rightarrow> int" where
  "getMinutes cal t = local_time cal t mod 3600000 div MS_MINUTE"

text \<open>\<open>setSeconds(0, 0)\<close>\<close>

definition to_minute :: "calendar \<Rightarrow> int \<Rightarrow> int" where
  "to_minute cal t = t - local_time cal t mod MS_MINUTE"

section \<open>Fields of a cron expression\<close>

definition cut :: "char \<Rightarrow> string \<Rightarrow> (string \<times> string) option" where
  "cut d s = (if d \<in> set s then Some (takeWhile (\<lambda>c. c \<noteq> d) s, tl (dropWhile (\<lambda>c. c \<noteq> d) s)) else None)"

definition digits_value :: "string \<Rightarrow> nat option" where
  "digits_value s = (if s \<noteq> [] \<and> list_all js_digit s then Some (js_nat_of_digits s) else None)"

definition range_match :: "string \<Rightarrow> (nat \<times> nat) option" where
  "range_match part =
     (case cut CHR ''-'' part of
        None \<Rightarrow> None
      | Some (a, b) \<Rightarrow>
          (case (digits_value a, digits_value b) of (Some n, Some m) \<Rightarrow> Some (n, m) | _ \<Rightarrow> None))"

text \<open>The range of a step, \<open>None\<close> for a star, and the step.\<close>

definition step_match :: "string \<Rightarrow> ((nat \<times> nat) option \<times> nat) option" where
  "step_match part =
     (case cut CHR ''/'' part of
        None \<Rightarrow> None
      | Some (a, b) \<Rightarrow>
          (case digits_value b of
             None \<Rightarrow> None
           | Some s \<Rightarrow> if a = ''*'' then Some (None, s)
                       else (case range_match a of None \<Rightarrow> None | Some r \<Rightarrow> Some (Some r, s))))"

definition hex_value :: "char \<Rightarrow> nat option" where
  "hex_value c =
     (let n = of_char (js_lower_char c) :: nat
      in if 48 \<le> n \<and> n \<le> 57 then Some (n - 48) else if 97 \<le> n \<and> n \<le> 102 then Some (n - 87) else None)"

text \<open>\<open>parseInt\<close> of a string without white space.\<close>

definition field_parseInt :: "string \<Rightarrow> int option" where
  "field_parseInt s =
     (let neg = (case s of c # r \<Rightarrow> c = CHR ''-'' | [] \<Rightarrow> False);
          s1 = (case s of c # r \<Rightarrow> if c = CHR ''-'' \<or> c = CHR ''+'' then r else s | [] \<Rightarrow> s);
          hex = js_starts_with (js_lower s1) ''0x'';
          ds = (if hex then takeWhile (\<lambda>c. hex_value c \<noteq> None) (drop 2 s1) else takeWhile js_digit s1);
          n = (if hex then foldl (\<lambda>n c. 16 * n + the (hex_value c)) 0 ds else js_nat_of_digits ds)
      in if ds = [] then None else Some (if neg then - int n else int n))"

definition matchPart :: "int \<Rightarrow> int \<Rightarrow> int \<Rightarrow> string \<Rightarrow> bool" where
  "matchPart value mn mx part =
     (case step_match part of
        Some (r, s) \<Rightarrow>
          (let rangeStart = (case r of None \<Rightarrow> mn | Some (a, b) \<Rightarrow> int a);
               rangeEnd = (case r of None \<Rightarrow> mx | Some (a, b) \<Rightarrow> int b)
           in rangeStart \<le> value \<and> value \<le> rangeEnd \<and> s \<noteq> 0 \<and> (value - rangeStart) mod int s = 0)
      | None \<Rightarrow>
          (case range_match part of
             Some (a, b) \<Rightarrow> int a \<le> value \<and> value \<le> int b
           | None \<Rightarrow> field_parseInt part = Some value))"

definition matchField :: "string \<Rightarrow> int \<Rightarrow> int \<Rightarrow> int \<Rightarrow> bool" where
  "matchField expr value mn mx \<longleftrightarrow> expr = ''*'' \<or> list_ex (matchPart value mn mx) (js_split CHR '','' expr)"

section \<open>The three kinds of schedule\<close>

definition computeAt :: "calendar \<Rightarrow> string \<Rightarrow> int \<Rightarrow> int option" where
  "computeAt cal at' nowMs =
     (case cal_parse cal at' of None \<Rightarrow> None | Some ts \<Rightarrow> if nowMs < ts then Some ts else None)"

definition computeEvery :: "int \<Rightarrow> int \<Rightarrow> int option \<Rightarrow> int option" where
  "computeEvery everyMs nowMs anchorMs =
     (if everyMs \<le> 0 then None
      else (let anchor = (case anchorMs of None \<Rightarrow> nowMs | Some a \<Rightarrow> a)
            in if nowMs < anchor then Some anchor
               else (let elapsed = nowMs - anchor; periods = elapsed div everyMs
                     in Some (anchor + (periods + 1) * everyMs))))"

definition dateInTimezone :: "calendar \<Rightarrow> int \<Rightarrow> string \<Rightarrow> int option" where
  "dateInTimezone cal ms tz = map_option (\<lambda>w. w - cal_offset cal) (cal_wall cal tz ms)"

definition cron_fields :: "string \<Rightarrow> string list option" where
  "cron_fields expr =
     (let fs = js_words (js_trim expr)
      in if length fs < 5 \<or> 6 < length fs then None
         else Some (if length fs = 6 then tl fs else fs))"

definition cron_matches :: "calendar \<Rightarrow> string list \<Rightarrow> int \<Rightarrow> bool" where
  "cron_matches cal f t \<longleftrightarrow>
     matchField (f ! 3) (getMonth1 cal t) 1 12 \<and> matchField (f ! 2) (getDate cal t) 1 31 \<and>
     matchField (f ! 4) (getDay cal t) 0 6 \<and> matchField (f ! 1) (getHours cal t) 0 23 \<and>
     matchField (f ! 0) (getMinutes cal t) 0 59"

text \<open>The loop over the candidates, a minute apart.\<close>

fun cron_search :: "(int \<Rightarrow> bool) \<Rightarrow> nat \<Rightarrow> int \<Rightarrow> int option" where
  "cron_search P 0 candidate = None"
| "cron_search P (Suc n) candidate =
     (if P candidate then Some candidate else cron_search P n (candidate + MS_MINUTE))"

definition SEARCH_LIMIT :: nat where "SEARCH_LIMIT = 366 * 24 * 60"

definition stagger_of :: "int option \<Rightarrow> int" where
  "stagger_of staggerMs = (case staggerMs of None \<Rightarrow> 0 | Some s \<Rightarrow> if 0 < s then s else 0)"

definition computeCron :: "calendar \<Rightarrow> string \<Rightarrow> int \<Rightarrow> string option \<Rightarrow> int option \<Rightarrow> int option" where
  "computeCron cal expr nowMs tz staggerMs =
     (case cron_fields expr of
        None \<Rightarrow> None
      | Some fs \<Rightarrow>
          (case (if truthy tz then dateInTimezone cal nowMs (the tz) else Some nowMs) of
             None \<Rightarrow> None
           | Some now \<Rightarrow>
               (case cron_search (cron_matches cal fs) SEARCH_LIMIT (to_minute cal now + MS_MINUTE) of
                  None \<Rightarrow> None
                | Some candidate \<Rightarrow>
                    (let result = candidate + stagger_of staggerMs
                     in if nowMs < result then Some result else None))))"

fun computeNextRunAtMs :: "calendar \<Rightarrow> cron_schedule \<Rightarrow> int \<Rightarrow> int option" where
  "computeNextRunAtMs cal (At at') nowMs = computeAt cal at' nowMs"
| "computeNextRunAtMs cal (Every everyMs anchorMs) nowMs = computeEvery everyMs nowMs anchorMs"
| "computeNextRunAtMs cal (Cron expr tz staggerMs) nowMs = computeCron cal expr nowMs tz staggerMs"

definition schedule_isExpired :: "calendar \<Rightarrow> cron_schedule \<Rightarrow> int \<Rightarrow> bool" where
  "schedule_isExpired cal schedule nowMs \<longleftrightarrow> computeNextRunAtMs cal schedule nowMs = None"

section \<open>Stagger\<close>

definition DEFAULT_TOP_OF_HOUR_STAGGER_MS :: int where
  "DEFAULT_TOP_OF_HOUR_STAGGER_MS = 5 * 60 * 1000"

text \<open>\<open>((hash << 5) - hash + c) | 0\<close>, in 32 bits.\<close>

definition hash_char :: "32 word \<Rightarrow> char \<Rightarrow> 32 word" where
  "hash_char hash c = push_bit 5 hash - hash + of_nat (of_char c)"

definition hash_id :: "string \<Rightarrow> 32 word" where
  "hash_id jobId = foldl hash_char 0 jobId"

record stagger_opts =
  so_exact :: bool
  so_overrideMs :: "int option"

definition computeStaggerMs :: "cron_schedule \<Rightarrow> string \<Rightarrow> stagger_opts \<Rightarrow> int" where
  "computeStaggerMs schedule jobId opts =
     (if so_exact opts then 0
      else (case schedule of
              At t \<Rightarrow> 0
            | Every n a \<Rightarrow> 0
            | Cron expr tz staggerMs \<Rightarrow>
                (case so_overrideMs opts of
                   Some ms \<Rightarrow> ms
                 | None \<Rightarrow>
                     (let fs = js_words (js_trim expr);
                          minuteField = (if length fs = 6 then fs ! 1 else if fs = [] then [] else hd fs)
                      in if minuteField \<noteq> ''0'' then 0
                         else (let window = (case staggerMs of None \<Rightarrow> DEFAULT_TOP_OF_HOUR_STAGGER_MS | Some w \<Rightarrow> w)
                               in if window \<le> 0 then 0 else \<bar>sint (hash_id jobId)\<bar> mod window)))))"

definition no_stagger_opts :: stagger_opts where
  "no_stagger_opts = \<lparr>so_exact = False, so_overrideMs = None\<rparr>"

section \<open>The next run\<close>

lemma computeEvery_next:
  assumes "computeEvery n now a = Some t"
  shows "now < t"
proof (cases "now < (case a of None \<Rightarrow> now | Some a \<Rightarrow> a)")
  case True
  then show ?thesis using assms by (auto simp: computeEvery_def Let_def split: if_splits)
next
  case False
  define e where "e = now - (case a of None \<Rightarrow> now | Some a \<Rightarrow> a)"
  have n: "0 < n" using assms by (auto simp: computeEvery_def split: if_splits)
  have t: "t = now - e + (e div n + 1) * n" using assms False by (auto simp: computeEvery_def e_def Let_def split: if_splits)
  have "e div n * n + e mod n = e" by simp
  then have "t = now + n - e mod n" unfolding t distrib_right by linarith
  then show ?thesis using pos_mod_bound [OF n, of e] by simp
qed

lemma computeNextRunAtMs_future: "computeNextRunAtMs cal s now = Some t \<Longrightarrow> now < t"
  by (cases s) (auto simp: computeAt_def computeCron_def Let_def computeEvery_next split: option.splits if_splits)

text \<open>What the retry policy and the heartbeat rely on: a schedule only names instants after now, so adding
  a delay or taking a later instant stays after now.\<close>

locale next_run =
  fixes upcoming :: "'s \<Rightarrow> int \<Rightarrow> int option"
  assumes upcoming_future: "upcoming s now = Some t \<Longrightarrow> now < t"
begin

lemma delayed: "upcoming s now = Some t \<Longrightarrow> 0 \<le> d \<Longrightarrow> now < t + d"
  using upcoming_future [of s now t] by simp

lemma later: "upcoming s now = Some t \<Longrightarrow> now < max t u"
  using upcoming_future [of s now t] by simp

lemma present: "0 \<le> now \<Longrightarrow> upcoming s now = Some t \<Longrightarrow> t \<noteq> 0"
  using upcoming_future [of s now t] by simp

end

interpretation sched: next_run "computeNextRunAtMs cal"
  by unfold_locales (rule computeNextRunAtMs_future)

lemma cron_search_Some:
  "cron_search P n c = Some r \<Longrightarrow>
   \<exists>k < n. r = c + int k * MS_MINUTE \<and> P r \<and> (\<forall>j < k. \<not> P (c + int j * MS_MINUTE))"
proof (induction n arbitrary: c)
  case (Suc n)
  show ?case
  proof (cases "P c")
    case False
    with Suc obtain k where k: "k < n" "r = c + MS_MINUTE + int k * MS_MINUTE" "P r"
      "\<forall>j < k. \<not> P (c + MS_MINUTE + int j * MS_MINUTE)" by auto
    have "\<not> P (c + int j * MS_MINUTE)" if "j < Suc k" for j
      using k(4) False that by (cases j) (auto simp: algebra_simps)
    then show ?thesis using k by (intro exI [of _ "Suc k"]) (simp add: algebra_simps)
  qed (use Suc.prems in \<open>auto intro: exI [of _ 0]\<close>)
qed simp

lemma cron_search_None: "cron_search P n c = None \<Longrightarrow> k < n \<Longrightarrow> \<not> P (c + int k * MS_MINUTE)"
proof (induction n arbitrary: c k)
  case (Suc n)
  from Suc.prems have P: "\<not> P c" and rest: "cron_search P n (c + MS_MINUTE) = None" by (auto split: if_splits)
  show ?case
  proof (cases k)
    case (Suc j)
    then have "\<not> P (c + MS_MINUTE + int j * MS_MINUTE)" using Suc.IH [OF rest, of j] Suc.prems by simp
    then show ?thesis using Suc by (simp add: algebra_simps)
  qed (use P in simp)
qed simp

text \<open>The whole minutes after an instant.\<close>

lemma minute_of:
  assumes "local_time cal t mod MS_MINUTE = 0" and "now < t"
  shows "\<exists>k. t = to_minute cal now + MS_MINUTE + int k * MS_MINUTE"
proof -
  define a where "a = local_time cal now div MS_MINUTE"
  define b where "b = local_time cal t div MS_MINUTE"
  have a: "to_minute cal now = a * MS_MINUTE - cal_offset cal"
    using div_mult_mod_eq [of "local_time cal now" MS_MINUTE]
    unfolding to_minute_def a_def local_time_def by linarith
  have b: "t = b * MS_MINUTE - cal_offset cal"
    using assms(1) div_mult_mod_eq [of "local_time cal t" MS_MINUTE] unfolding b_def local_time_def by linarith
  have "now < (a + 1) * MS_MINUTE - cal_offset cal"
    using a pos_mod_bound [of MS_MINUTE "local_time cal now"]
    by (simp add: to_minute_def MS_MINUTE_def algebra_simps)
  moreover have "a * MS_MINUTE - cal_offset cal \<le> now"
    using a pos_mod_sign [of MS_MINUTE "local_time cal now"] by (simp add: to_minute_def MS_MINUTE_def)
  ultimately have "a < b" using assms(2) b by (simp add: MS_MINUTE_def)
  then have "t = to_minute cal now + MS_MINUTE + int (nat (b - a - 1)) * MS_MINUTE"
    by (simp add: a b algebra_simps)
  then show ?thesis by blast
qed

lemma to_minute_bounds:
  "to_minute cal now \<le> now" "now < to_minute cal now + MS_MINUTE"
  "local_time cal (to_minute cal now + MS_MINUTE + int k * MS_MINUTE) mod MS_MINUTE = 0"
proof -
  show "to_minute cal now \<le> now" "now < to_minute cal now + MS_MINUTE"
    using pos_mod_sign [of MS_MINUTE "local_time cal now"] pos_mod_bound [of MS_MINUTE "local_time cal now"]
    by (simp_all add: to_minute_def MS_MINUTE_def)
  have "local_time cal (to_minute cal now + MS_MINUTE + int k * MS_MINUTE) =
      (local_time cal now div MS_MINUTE + 1 + int k) * MS_MINUTE"
    using div_mult_mod_eq [of "local_time cal now" MS_MINUTE]
    unfolding to_minute_def local_time_def distrib_right by linarith
  then show "local_time cal (to_minute cal now + MS_MINUTE + int k * MS_MINUTE) mod MS_MINUTE = 0" by simp
qed


definition utc :: calendar where
  "utc = \<lparr>cal_offset = 0, cal_wall = (\<lambda>tz t. Some (t - 5 * 3600000)), cal_parse = (\<lambda>s. None)\<rparr>"


section \<open>Intervals\<close>

text \<open>An interval schedule fires at the first instant after now that is a whole number
  of intervals after its anchor, or at the anchor itself when that is still to come; without an anchor
  it fires one interval from now.\<close>

theorem every_next_boundary:
  assumes "0 < n"
  shows "\<exists>t. computeNextRunAtMs cal (Every n anchor) now = Some t \<and> now < t \<and>
    (anchor = None \<longrightarrow> t = now + n) \<and>
    (\<forall>a. anchor = Some a \<longrightarrow> (t - a) mod n = 0 \<and> a \<le> t \<and>
       (\<forall>u. now < u \<and> a \<le> u \<and> (u - a) mod n = 0 \<longrightarrow> t \<le> u))"
proof (cases anchor)
  case None
  then show ?thesis using assms by (simp add: computeEvery_def Let_def)
next
  case (Some a)
  show ?thesis
  proof (cases "now < a")
    case True
    then show ?thesis using assms Some by (simp add: computeEvery_def)
  next
    case False
    define q where "q = (now - a) div n"
    have t: "computeNextRunAtMs cal (Every n anchor) now = Some (a + (q + 1) * n)"
      using assms Some False by (simp add: computeEvery_def q_def Let_def)
    have q: "q * n \<le> now - a" "now - a < (q + 1) * n"
      using div_mult_mod_eq [of "now - a" n] pos_mod_sign [OF assms, of "now - a"]
        pos_mod_bound [OF assms, of "now - a"] unfolding q_def distrib_right by linarith+
    have "a + (q + 1) * n \<le> u" if u: "now < u" "(u - a) mod n = 0" for u
    proof -
      have "u - a = (u - a) div n * n" using u(2) div_mult_mod_eq [of "u - a" n] by linarith
      moreover from this have "q * n < (u - a) div n * n" using q(1) u(1) by linarith
      then have "(q + 1) * n \<le> (u - a) div n * n" using assms by (simp add: mult_less_cancel_right)
      ultimately show ?thesis by linarith
    qed
    moreover have "0 \<le> q" using False assms by (simp add: q_def pos_imp_zdiv_nonneg_iff)
    moreover from this have "0 \<le> (q + 1) * n" using assms by simp
    ultimately show ?thesis using t q(2) Some by auto
  qed
qed

theorem every_next_boundary_witness:
  "\<exists>t. computeNextRunAtMs utc (Every 600000 (Some 60000)) 1000000 = Some t \<and> t \<le> 1260000"
  using every_next_boundary [of 600000 utc "Some 60000" 1000000] by auto

section \<open>Zones\<close>

text \<open>The search for a zone runs on dates whose local fields are the wall clock of the zone,
  and then takes the instant of such a date, which is off by the distance between the zone and the
  system's zone. The schedule of every minute never fires in a zone behind the system's, and is late
  by the whole distance in a zone ahead of it.\<close>

theorem zone_shifts_schedule:
  assumes "tz \<noteq> []" and "cal_wall cal tz now = Some w" and "expr = ''* * * * *''"
  shows "(w - cal_offset cal + MS_MINUTE \<le> now \<longrightarrow> computeNextRunAtMs cal (Cron expr (Some tz) None) now = None) \<and>
    (0 \<le> d \<and> now + d \<le> w - cal_offset cal \<longrightarrow>
       (\<exists>r. computeNextRunAtMs cal (Cron expr (Some tz) None) now = Some r \<and> now + d < r))"
proof -
  have f: "cron_fields expr = Some [''*'', ''*'', ''*'', ''*'', ''*'']" unfolding assms(3) by code_simp
  have m: "cron_matches cal [''*'', ''*'', ''*'', ''*'', ''*''] c" for c
    by (simp add: cron_matches_def matchField_def)
  have lim: "SEARCH_LIMIT = Suc (SEARCH_LIMIT - 1)" by (simp add: SEARCH_LIMIT_def)
  let ?c = "to_minute cal (w - cal_offset cal) + MS_MINUTE"
  have "cron_search (cron_matches cal [''*'', ''*'', ''*'', ''*'', ''*'']) SEARCH_LIMIT ?c = Some ?c"
    by (subst lim) (simp add: m)
  then have "computeNextRunAtMs cal (Cron expr (Some tz) None) now = (if now < ?c then Some ?c else None)"
    using assms(1,2) f by (simp add: computeCron_def truthy_def dateInTimezone_def stagger_of_def)
  then show ?thesis using to_minute_bounds(1) [of cal "w - cal_offset cal"]
      to_minute_bounds(2) [of "w - cal_offset cal" cal] by auto
qed

theorem zone_shifts_schedule_witness:
  "computeNextRunAtMs utc (Cron ''* * * * *'' (Some ''America/New_York'') None) 1710000000000 = None"
  using zone_shifts_schedule [of "''America/New_York''" utc 1710000000000 "1710000000000 - 18000000" "''* * * * *''"]
  by (simp add: utc_def MS_MINUTE_def)

section \<open>Fields\<close>

text \<open>What the parts of a field stand for, and how they are written.\<close>

datatype field_item = Exact nat | Span nat nat | Star_step nat | Span_step nat nat nat

fun item_holds :: "int \<Rightarrow> int \<Rightarrow> int \<Rightarrow> field_item \<Rightarrow> bool" where
  "item_holds v mn mx (Exact n) \<longleftrightarrow> v = int n"
| "item_holds v mn mx (Span a b) \<longleftrightarrow> int a \<le> v \<and> v \<le> int b"
| "item_holds v mn mx (Star_step s) \<longleftrightarrow> mn \<le> v \<and> v \<le> mx \<and> s \<noteq> 0 \<and> int s dvd v - mn"
| "item_holds v mn mx (Span_step a b s) \<longleftrightarrow> int a \<le> v \<and> v \<le> int b \<and> s \<noteq> 0 \<and> int s dvd v - int a"

fun print_item :: "field_item \<Rightarrow> string" where
  "print_item (Exact n) = js_show_nat n"
| "print_item (Span a b) = js_show_nat a @ CHR ''-'' # js_show_nat b"
| "print_item (Star_step s) = CHR ''*'' # CHR ''/'' # js_show_nat s"
| "print_item (Span_step a b s) = js_show_nat a @ CHR ''-'' # js_show_nat b @ CHR ''/'' # js_show_nat s"

lemma digits_not_in: "list_all js_digit s \<Longrightarrow> \<not> js_digit d \<Longrightarrow> d \<notin> set s"
  by (auto simp: list_all_iff)

lemma show_no_punct [simp]:
  "CHR ''-'' \<notin> set (js_show_nat n)" "CHR ''/'' \<notin> set (js_show_nat n)" "CHR '','' \<notin> set (js_show_nat n)"
  "CHR ''x'' \<notin> set (js_show_nat n)" "CHR ''*'' \<notin> set (js_show_nat n)" "CHR ''+'' \<notin> set (js_show_nat n)"
  by (rule digits_not_in [OF js_show_nat_digits], simp add: js_digit_def)+

lemma digits_value_show [simp]: "digits_value (js_show_nat n) = Some n"
  by (simp add: digits_value_def js_show_nat_digits)

lemma cut_append [simp]: "d \<notin> set a \<Longrightarrow> cut d (a @ d # b) = Some (a, b)"
  by (auto simp: cut_def takeWhile_append dropWhile_append)

lemma cut_absent [simp]: "d \<notin> set a \<Longrightarrow> cut d a = None"
  by (simp add: cut_def)

lemma takeWhile_digits: "list_all js_digit s \<Longrightarrow> takeWhile js_digit s = s"
  by (simp add: list_all_iff takeWhile_eq_all_conv)

lemma parseInt_show [simp]: "field_parseInt (js_show_nat n) = Some (int n)"
proof -
  have "js_lower (js_show_nat n) = js_show_nat n" by (rule js_lower_digits [OF js_show_nat_digits])
  then have "\<not> js_starts_with (js_lower (js_show_nat n)) ''0x''"
    using show_no_punct(4) [of n] by (auto simp: js_starts_with_iff simp del: show_no_punct)
  moreover obtain c r where "js_show_nat n = c # r" by (cases "js_show_nat n") auto
  moreover from this have "c \<noteq> CHR ''-''" "c \<noteq> CHR ''+''" using show_no_punct(1,6) [of n] by auto
  moreover have "takeWhile js_digit (js_show_nat n) = js_show_nat n" by (rule takeWhile_digits [OF js_show_nat_digits])
  ultimately show ?thesis using js_nat_of_show [of n] by (simp add: field_parseInt_def Let_def)
qed

lemma matchPart_print: "matchPart v mn mx (print_item i) = item_holds v mn mx i"
proof (cases i)
  case (Star_step s)
  have "cut CHR ''/'' (''*'' @ CHR ''/'' # js_show_nat s) = Some (''*'', js_show_nat s)" by (rule cut_append) simp
  then show ?thesis using Star_step by (auto simp: matchPart_def step_match_def Let_def)
next
  case (Span_step a b s)
  have "cut CHR ''/'' ((js_show_nat a @ CHR ''-'' # js_show_nat b) @ CHR ''/'' # js_show_nat s) =
      Some (js_show_nat a @ CHR ''-'' # js_show_nat b, js_show_nat s)" by (rule cut_append) simp
  moreover have "js_show_nat a @ CHR ''-'' # js_show_nat b \<noteq> ''*''"
    using show_no_punct(1) by (cases "js_show_nat a") auto
  ultimately show ?thesis using Span_step
    by (auto simp: matchPart_def step_match_def range_match_def Let_def)
qed (auto simp: matchPart_def step_match_def range_match_def Let_def)

lemma print_item_no_comma: "CHR '','' \<notin> set (print_item i)"
  by (cases i) auto

lemma print_item_solid: "print_item i \<noteq> []" "print_item i \<noteq> ''*''"
proof -
  show "print_item i \<noteq> []" by (cases i) auto
  show "print_item i \<noteq> ''*''"
  proof (cases i)
    case (Exact n)
    then show ?thesis using show_no_punct(5) [of n] by (auto simp del: show_no_punct)
  next
    case (Span a b)
    then show ?thesis by (cases "js_show_nat a") auto
  next
    case (Span_step a b s)
    then show ?thesis by (cases "js_show_nat a") auto
  qed simp
qed

text \<open>A field that is written as a list of numbers, ranges and steps matches exactly
  the values that one of them stands for; a step of zero stands for nothing.\<close>

theorem field_denotes:
  assumes "items \<noteq> []"
  shows "matchField (js_join '','' (map print_item items)) v mn mx \<longleftrightarrow> (\<exists>i \<in> set items. item_holds v mn mx i)"
proof -
  have "js_split CHR '','' (js_join '','' (map print_item items)) = map print_item items"
    using js_split_join [of "map print_item items" "CHR '',''"] assms print_item_no_comma by auto
  moreover have "js_join '','' (map print_item items) \<noteq> ''*''"
  proof
    assume "js_join '','' (map print_item items) = ''*''"
    then have "map print_item items = js_split CHR '','' ''*''" using calculation by simp
    then show False using print_item_solid(2) by (auto simp: map_eq_Cons_conv)
  qed
  ultimately show ?thesis
    by (auto simp: matchField_def list_ex_iff matchPart_print)
qed

theorem field_denotes_witness:
  "matchField (js_join '','' (map print_item [Exact 5, Span_step 10 40 15])) 25 0 59"
  using field_denotes [of "[Exact 5, Span_step 10 40 15]" 25 0 59] by simp

section \<open>Bounds of the stagger\<close>

text \<open>The stagger of a job without override lies within its window, whatever the 32-bit
  hash wraps to, and it is zero for schedules that do not start at the top of an hour.\<close>

theorem stagger_in_window:
  assumes "so_overrideMs opts = None" and "s = computeStaggerMs (Cron expr tz w) jobId opts"
  shows "0 \<le> s \<and> s < max 1 (case w of None \<Rightarrow> 300000 | Some n \<Rightarrow> n)"
proof (cases "so_exact opts \<or> s = 0")
  case True
  then show ?thesis using assms(2) by (auto simp: computeStaggerMs_def)
next
  case False
  let ?w = "case w of None \<Rightarrow> 300000 | Some n \<Rightarrow> n"
  have "0 < ?w \<and> s = \<bar>sint (hash_id jobId)\<bar> mod ?w"
    using False assms
    by (auto simp: computeStaggerMs_def DEFAULT_TOP_OF_HOUR_STAGGER_MS_def Let_def split: if_splits option.splits)
  then show ?thesis by (auto simp: less_max_iff_disj split: option.splits)
qed

theorem stagger_in_window_witness:
  "computeStaggerMs (Cron ''0 * * * *'' None (Some 60000)) ''job-1'' no_stagger_opts < 60000"
  using stagger_in_window [of no_stagger_opts _ "''0 * * * *''" None "Some 60000" "''job-1''"]
  by (simp add: no_stagger_opts_def)

end
