(* ===== verification/Cron_Store.thy ===== *)
theory Cron_Store
  imports Cron_Schedule
begin

text \<open>
  \<^verbatim>\<open>cron/store.ts\<close>: the file of jobs. Every operation holds the lock of the store, so it is one function
  from the file to the file. A file that is missing, does not parse or does not fit the schema reads as
  an empty store. Writing succeeds.
\<close>

datatype store_file = No_store | Broken_store | Store "cron_job list"

fun store_jobs :: "store_file \<Rightarrow> cron_job list" where
  "store_jobs (Store jobs) = jobs"
| "store_jobs No_store = []"
| "store_jobs Broken_store = []"

definition seededNextRunAtMs :: "calendar \<Rightarrow> cron_job \<Rightarrow> int \<Rightarrow> int option" where
  "seededNextRunAtMs cal job nowMs =
     (if \<not> cj_enabled job then None
      else if is_at (cj_schedule job) then computeNextRunAtMs cal (cj_schedule job) nowMs
      else if cj_wakeMode job = Wake_now then Some (nowMs - 1)
      else computeNextRunAtMs cal (cj_schedule job) nowMs)"

text \<open>A patch: the keys of the job it has, and its partial state.\<close>

datatype job_key =
  Set_name string
| Set_enabled bool
| Set_deleteAfterRun bool
| Set_schedule cron_schedule
| Set_sessionTarget session_target
| Set_parentID "string option"
| Set_dormantSessionID "string option"
| Set_wakeMode wake_mode
| Set_payload cron_payload
| Set_delivery "cron_delivery option"

record job_patch =
  jp_keys :: "job_key list"
  jp_state :: "state_patch option"

fun set_job_key :: "job_key \<Rightarrow> cron_job \<Rightarrow> cron_job" where
  "set_job_key (Set_name v) j = j\<lparr>cj_name := v\<rparr>"
| "set_job_key (Set_enabled v) j = j\<lparr>cj_enabled := v\<rparr>"
| "set_job_key (Set_deleteAfterRun v) j = j\<lparr>cj_deleteAfterRun := v\<rparr>"
| "set_job_key (Set_schedule v) j = j\<lparr>cj_schedule := v\<rparr>"
| "set_job_key (Set_sessionTarget v) j = j\<lparr>cj_sessionTarget := v\<rparr>"
| "set_job_key (Set_parentID v) j = j\<lparr>cj_parentID := v\<rparr>"
| "set_job_key (Set_dormantSessionID v) j = j\<lparr>cj_dormantSessionID := v\<rparr>"
| "set_job_key (Set_wakeMode v) j = j\<lparr>cj_wakeMode := v\<rparr>"
| "set_job_key (Set_payload v) j = j\<lparr>cj_payload := v\<rparr>"
| "set_job_key (Set_delivery v) j = j\<lparr>cj_delivery := v\<rparr>"

text \<open>\<open>patch.schedule\<close>, \<open>patch.enabled\<close> or \<open>patch.wakeMode\<close> is defined.\<close>

fun reseeds :: "job_key \<Rightarrow> bool" where
  "reseeds (Set_enabled v) = True"
| "reseeds (Set_schedule v) = True"
| "reseeds (Set_wakeMode v) = True"
| "reseeds (Set_name v) = False"
| "reseeds (Set_deleteAfterRun v) = False"
| "reseeds (Set_sessionTarget v) = False"
| "reseeds (Set_parentID v) = False"
| "reseeds (Set_dormantSessionID v) = False"
| "reseeds (Set_payload v) = False"
| "reseeds (Set_delivery v) = False"

section \<open>Operations\<close>

definition store_list :: "store_file \<Rightarrow> cron_job list" where
  "store_list f = store_jobs f"

definition store_get :: "string \<Rightarrow> store_file \<Rightarrow> cron_job option" where
  "store_get jobId f = List.find (\<lambda>j. cj_id j = jobId) (store_jobs f)"

definition store_listEnabled :: "store_file \<Rightarrow> cron_job list" where
  "store_listEnabled f = filter cj_enabled (store_list f)"

text \<open>\<open>input\<close> carries the keys of the new job, \<open>st\<close> its partial state; \<open>jobId\<close> is the fresh UUID.\<close>

definition store_create ::
  "calendar \<Rightarrow> int \<Rightarrow> string \<Rightarrow> cron_job \<Rightarrow> state_patch option \<Rightarrow> store_file \<Rightarrow> cron_job \<times> store_file" where
  "store_create cal now jobId input st f =
     (let zero = empty_state\<lparr>js_consecutiveErrors := Some 0\<rparr>;
          job = input\<lparr>cj_id := jobId, cj_createdAtMs := now, cj_updatedAtMs := now,
            cj_state := (case st of Some p \<Rightarrow> spread_state p zero | None \<Rightarrow> zero)\<rparr>;
          job' = (if js_nextRunAtMs (cj_state job) = None
                  then job\<lparr>cj_state := (cj_state job)\<lparr>js_nextRunAtMs := seededNextRunAtMs cal job now\<rparr>\<rparr>
                  else job)
      in (job', Store (store_jobs f @ [job'])))"

definition patched :: "calendar \<Rightarrow> int \<Rightarrow> job_patch \<Rightarrow> cron_job \<Rightarrow> cron_job" where
  "patched cal now patch existing =
     (let sp = (case jp_state patch of None \<Rightarrow> [] | Some p \<Rightarrow> p);
          updated = (fold set_job_key (jp_keys patch) existing)
            \<lparr>cj_id := cj_id existing, cj_createdAtMs := cj_createdAtMs existing, cj_updatedAtMs := now,
             cj_state := spread_state sp (cj_state existing)\<rparr>
      in if list_ex reseeds (jp_keys patch) \<and> \<not> list_ex is_next_run sp
         then updated\<lparr>cj_state := (cj_state updated)\<lparr>js_nextRunAtMs := seededNextRunAtMs cal updated now\<rparr>\<rparr>
         else updated)"

fun update_first :: "(cron_job \<Rightarrow> bool) \<Rightarrow> (cron_job \<Rightarrow> cron_job) \<Rightarrow> cron_job list \<Rightarrow> cron_job list" where
  "update_first P g [] = []"
| "update_first P g (j # js) = (if P j then g j # js else j # update_first P g js)"

definition store_update ::
  "calendar \<Rightarrow> int \<Rightarrow> string \<Rightarrow> job_patch \<Rightarrow> store_file \<Rightarrow> cron_job option \<times> store_file" where
  "store_update cal now jobId patch f =
     (case store_get jobId f of
        None \<Rightarrow> (None, f)
      | Some existing \<Rightarrow>
          (Some (patched cal now patch existing),
           Store (update_first (\<lambda>j. cj_id j = jobId) (patched cal now patch) (store_jobs f))))"

definition store_updateState ::
  "calendar \<Rightarrow> int \<Rightarrow> string \<Rightarrow> state_patch \<Rightarrow> store_file \<Rightarrow> cron_job option \<times> store_file" where
  "store_updateState cal now jobId statePatch =
     store_update cal now jobId \<lparr>jp_keys = [], jp_state = Some statePatch\<rparr>"

definition store_remove :: "string \<Rightarrow> store_file \<Rightarrow> bool \<times> store_file" where
  "store_remove jobId f =
     (let jobs = filter (\<lambda>j. cj_id j \<noteq> jobId) (store_jobs f)
      in if length jobs = length (store_jobs f) then (False, f) else (True, Store jobs))"

section \<open>The store is a map of jobs\<close>

text \<open>What the heartbeat relies on: a store whose changes of one job leave the others alone.\<close>

locale job_store =
  fixes find_job :: "'k \<Rightarrow> 'f \<Rightarrow> 'j option"
    and change :: "'k \<Rightarrow> 'p \<Rightarrow> 'f \<Rightarrow> 'f"
    and drop_job :: "'k \<Rightarrow> 'f \<Rightarrow> 'f"
    and apply_patch :: "'p \<Rightarrow> 'j \<Rightarrow> 'j"
  assumes find_change: "find_job k (change k' p f) =
      (if k = k' then map_option (apply_patch p) (find_job k f) else find_job k f)"
    and find_drop: "find_job k (drop_job k' f) = (if k = k' then None else find_job k f)"
begin

lemma change_other: "k \<noteq> k' \<Longrightarrow> find_job k (change k' p f) = find_job k f"
  by (simp add: find_change)

lemma drop_other: "k \<noteq> k' \<Longrightarrow> find_job k (drop_job k' f) = find_job k f"
  by (simp add: find_drop)

lemma changes_compose:
  "find_job k (change k q (change k p f)) = map_option (\<lambda>j. apply_patch q (apply_patch p j)) (find_job k f)"
  by (simp add: find_change option.map_comp comp_def)

end

lemma patched_id [simp]: "cj_id (patched cal now p j) = cj_id j"
  by (simp add: patched_def Let_def)

lemma find_update_first:
  assumes "\<And>j. cj_id (g j) = cj_id j"
  shows "List.find (\<lambda>j. cj_id j = k) (update_first (\<lambda>j. cj_id j = k') g js) =
    (if k = k' then map_option g (List.find (\<lambda>j. cj_id j = k) js) else List.find (\<lambda>j. cj_id j = k) js)"
  by (induction js) (auto simp: assms)

lemma find_filter_id:
  "List.find (\<lambda>j. cj_id j = k) (filter (\<lambda>j. cj_id j \<noteq> k') js) =
    (if k = k' then None else List.find (\<lambda>j. cj_id j = k) js)"
  by (induction js) auto

lemma store_get_update:
  "store_get k (snd (store_update cal now k' p f)) =
    (if k = k' then map_option (patched cal now p) (store_get k f) else store_get k f)"
  by (auto simp: store_update_def store_get_def find_update_first split: option.splits)

lemma filter_all: "length (filter P xs) = length xs \<Longrightarrow> filter P xs = xs"
  by (metis filter_id_conv length_filter_less less_irrefl)

lemma store_get_remove: "store_get k (snd (store_remove k' f)) = (if k = k' then None else store_get k f)"
  using find_filter_id [of k k' "store_jobs f"] filter_all [of "\<lambda>j. cj_id j \<noteq> k'" "store_jobs f"]
  by (auto simp: store_remove_def store_get_def Let_def)

interpretation jobs: job_store store_get "\<lambda>k p f. snd (store_update cal now k p f)"
  "\<lambda>k f. snd (store_remove k f)" "patched cal now"
  by unfold_locales (simp_all add: store_get_update store_get_remove)

text \<open>The store is a map from identifiers to jobs: a created job is found under its
  identifier and every other lookup is what it was; an update finds the patched job and answers it, a
  removal finds nothing and answers whether there was a job; neither touches another job.\<close>

theorem store_refines_map:
  assumes "store_get jobId f = None"
  shows "store_get k (snd (store_create cal now jobId input st f)) =
      (if k = jobId then Some (fst (store_create cal now jobId input st f)) else store_get k f) \<and>
    store_get k (snd (store_update cal now k' p f)) =
      (if k = k' then map_option (patched cal now p) (store_get k f) else store_get k f) \<and>
    fst (store_update cal now k' p f) = map_option (patched cal now p) (store_get k' f) \<and>
    store_get k (snd (store_remove k' f)) = (if k = k' then None else store_get k f) \<and>
    (fst (store_remove k' f) \<longleftrightarrow> store_get k' f \<noteq> None)"
proof -
  have app: "List.find P (xs @ [x]) = (case List.find P xs of Some y \<Rightarrow> Some y | None \<Rightarrow> if P x then Some x else None)"
    for P :: "cron_job \<Rightarrow> bool" and xs x by (induction xs) auto
  have "cj_id (fst (store_create cal now jobId input st f)) = jobId" by (simp add: store_create_def Let_def)
  moreover have "store_jobs (snd (store_create cal now jobId input st f)) =
      store_jobs f @ [fst (store_create cal now jobId input st f)]" by (simp add: store_create_def Let_def)
  ultimately have "store_get k (snd (store_create cal now jobId input st f)) =
      (if k = jobId then Some (fst (store_create cal now jobId input st f)) else store_get k f)"
    using assms by (auto simp: store_get_def app split: option.splits)
  moreover have "fst (store_remove k' f) \<longleftrightarrow> store_get k' f \<noteq> None"
  proof -
    have "length (filter (\<lambda>j. cj_id j \<noteq> k') js) = length js \<longleftrightarrow> List.find (\<lambda>j. cj_id j = k') js = None" for js
      by (induction js) (auto simp: le_imp_less_Suc [OF length_filter_le, THEN less_imp_neq])
    from this [of "store_jobs f"] show ?thesis by (auto simp: store_remove_def store_get_def Let_def)
  qed
  ultimately show ?thesis
    by (simp add: jobs.find_change jobs.find_drop) (simp add: store_update_def split: option.splits)
qed

definition reminder :: cron_job where
  "reminder = \<lparr>cj_id = ''r'', cj_name = ''reminder'', cj_enabled = True, cj_deleteAfterRun = False,
     cj_createdAtMs = 0, cj_updatedAtMs = 0, cj_schedule = At ''2024-06-01T12:00:00Z'',
     cj_sessionTarget = Target_isolated, cj_parentID = None, cj_dormantSessionID = None,
     cj_wakeMode = Wake_now, cj_payload = System_event ''HEARTBEAT_OK'', cj_delivery = None,
     cj_state = empty_state\<rparr>"

theorem store_refines_map_witness:
  "store_get ''r'' (snd (store_remove ''q'' (Store [reminder]))) = Some reminder"
  using store_refines_map [of "''x''" "Store [reminder]" "''r''" utc 0 reminder None "''q''" "\<lparr>jp_keys = [], jp_state = None\<rparr>"]
  by (simp add: store_get_def reminder_def)

text \<open>Changing the schedule, the wake mode or whether a job is enabled sets its next run
  anew unless the patch says it: a disabled job has none, a one-shot only one after now, and a repeated
  job is due at once exactly when it wakes now. Any other patch keeps the next run it has.\<close>

theorem update_reseeds:
  assumes "store_get k f = Some old" and "fst (store_update cal now k p f) = Some j"
    and "\<not> list_ex is_next_run (case jp_state p of None \<Rightarrow> [] | Some sp \<Rightarrow> sp)"
  shows "if list_ex reseeds (jp_keys p)
    then (\<not> cj_enabled j \<longrightarrow> js_nextRunAtMs (cj_state j) = None) \<and>
      (is_at (cj_schedule j) \<longrightarrow> (\<forall>t. js_nextRunAtMs (cj_state j) = Some t \<longrightarrow> now < t)) \<and>
      (cj_enabled j \<and> \<not> is_at (cj_schedule j) \<longrightarrow>
         ((\<exists>t \<le> now. js_nextRunAtMs (cj_state j) = Some t) \<longleftrightarrow> cj_wakeMode j = Wake_now))
    else js_nextRunAtMs (cj_state j) = js_nextRunAtMs (cj_state old)"
proof -
  have j: "j = patched cal now p old" using assms(1,2) by (simp add: store_update_def)
  show ?thesis
  proof (cases "list_ex reseeds (jp_keys p)")
    case True
    then have "js_nextRunAtMs (cj_state j) = seededNextRunAtMs cal j now"
      using assms(3) unfolding j patched_def Let_def by (simp add: seededNextRunAtMs_def)
    then show ?thesis using True sched.upcoming_future [of cal "cj_schedule j" now]
      by (auto simp: seededNextRunAtMs_def not_le split: if_splits)
  next
    case False
    then show ?thesis using assms(3) spread_state_next_run unfolding j patched_def Let_def by (auto split: option.splits)
  qed
qed

theorem update_reseeds_witness:
  "js_nextRunAtMs (cj_state (patched utc 9 \<lparr>jp_keys = [Set_enabled False], jp_state = None\<rparr> reminder)) = None"
  using update_reseeds [of "''r''" "Store [reminder]" reminder utc 9 "\<lparr>jp_keys = [Set_enabled False], jp_state = None\<rparr>"]
  by (simp add: store_get_def store_update_def reminder_def patched_def Let_def)

end
