(* ===== verification/Run_Log.thy ===== *)
theory Run_Log
  imports Cron_Types
begin

text \<open>
  \<^verbatim>\<open>cron/run-log.ts\<close>: the log of runs of a job, a JSON text per line. A file is the list of its lines
  without the blank ones: an entry, or a text that does not parse as one. \<open>bytes\<close> is the size of a line
  in the file, which only decides when a file is pruned. Every operation holds the lock of its log.
\<close>

datatype log_line = Entry run_log_entry | Garbage string

type_synonym log_files = "(string, log_line list) jmap"

definition MAX_SIZE_BYTES :: nat where "MAX_SIZE_BYTES = 2 * 1024 * 1024"

definition MAX_LINES :: nat where "MAX_LINES = 2000"

definition file_size :: "(log_line \<Rightarrow> nat) \<Rightarrow> log_line list \<Rightarrow> nat" where
  "file_size bytes lns = sum_list (map bytes lns)"

definition prune_lines :: "log_line list \<Rightarrow> log_line list" where
  "prune_lines lns = (if length lns \<le> MAX_LINES then lns else drop (length lns - MAX_LINES) lns)"

definition log_of :: "string \<Rightarrow> log_files \<Rightarrow> log_line list" where
  "log_of jobId logs = (case jget logs jobId of None \<Rightarrow> [] | Some lns \<Rightarrow> lns)"

definition append_line :: "(log_line \<Rightarrow> nat) \<Rightarrow> log_line \<Rightarrow> log_line list \<Rightarrow> log_line list" where
  "append_line bytes l lns =
     (let new = lns @ [l] in if MAX_SIZE_BYTES < file_size bytes new then prune_lines new else new)"

definition log_append :: "(log_line \<Rightarrow> nat) \<Rightarrow> run_log_entry \<Rightarrow> log_files \<Rightarrow> log_files" where
  "log_append bytes entry logs =
     jset logs (rl_jobId entry) (append_line bytes (Entry entry) (log_of (rl_jobId entry) logs))"

fun parse_lines :: "log_line list \<Rightarrow> run_log_entry list" where
  "parse_lines [] = []"
| "parse_lines (Entry e # ls) = e # parse_lines ls"
| "parse_lines (Garbage s # ls) = parse_lines ls"

definition log_read :: "string \<Rightarrow> nat option \<Rightarrow> log_files \<Rightarrow> run_log_entry list" where
  "log_read jobId limit logs =
     (let entries = parse_lines (log_of jobId logs)
      in case limit of
           None \<Rightarrow> entries
         | Some n \<Rightarrow> if n \<noteq> 0 \<and> n < length entries then drop (length entries - n) entries else entries)"

definition log_removeForJob :: "string \<Rightarrow> log_files \<Rightarrow> log_files" where
  "log_removeForJob jobId logs = jdel logs jobId"

definition log_pruneForJob :: "string \<Rightarrow> log_files \<Rightarrow> log_files" where
  "log_pruneForJob jobId logs =
     (case jget logs jobId of None \<Rightarrow> logs | Some lns \<Rightarrow> jset logs jobId (prune_lines lns))"

section \<open>What a log keeps\<close>

text \<open>The operations that change the log of a job.\<close>

datatype log_op = Log_entry run_log_entry | Log_prune string

fun log_do :: "(log_line \<Rightarrow> nat) \<Rightarrow> log_op \<Rightarrow> log_files \<Rightarrow> log_files" where
  "log_do bytes (Log_entry e) logs = log_append bytes e logs"
| "log_do bytes (Log_prune jobId) logs = log_pruneForJob jobId logs"

fun logged :: "string \<Rightarrow> log_op list \<Rightarrow> run_log_entry list" where
  "logged jobId [] = []"
| "logged jobId (Log_entry e # ops) = (if rl_jobId e = jobId then e # logged jobId ops else logged jobId ops)"
| "logged jobId (Log_prune j # ops) = logged jobId ops"

lemma logged_snoc:
  "logged jobId (ops @ [Log_entry e]) = logged jobId ops @ (if rl_jobId e = jobId then [e] else [])"
  "logged jobId (ops @ [Log_prune j]) = logged jobId ops"
  by (induction jobId ops rule: logged.induct) auto

text \<open>A log is a suffix of what was written to it, of at least the last \<open>MAX_LINES\<close> entries.\<close>

definition log_keeps :: "run_log_entry list \<Rightarrow> log_line list \<Rightarrow> bool" where
  "log_keeps es lns \<longleftrightarrow>
     (\<exists>k. lns = map Entry (drop k es) \<and> k \<le> length es \<and> (0 < k \<longrightarrow> MAX_LINES \<le> length es - k))"

lemma log_keeps_snoc: "log_keeps es lns \<Longrightarrow> log_keeps (es @ [e]) (lns @ [Entry e])"
proof -
  assume "log_keeps es lns"
  then obtain k where "lns = map Entry (drop k es)" "k \<le> length es" "0 < k \<longrightarrow> MAX_LINES \<le> length es - k"
    by (auto simp: log_keeps_def)
  then show ?thesis unfolding log_keeps_def by (intro exI [of _ k]) auto
qed

lemma log_keeps_prune: "log_keeps es lns \<Longrightarrow> log_keeps es (prune_lines lns)"
proof -
  assume "log_keeps es lns"
  then obtain k where k: "lns = map Entry (drop k es)" "k \<le> length es" "0 < k \<longrightarrow> MAX_LINES \<le> length es - k"
    by (auto simp: log_keeps_def)
  show ?thesis
  proof (cases "length lns \<le> MAX_LINES")
    case True
    then show ?thesis using k by (auto simp: prune_lines_def log_keeps_def)
  next
    case False
    let ?j = "k + (length lns - MAX_LINES)"
    have "prune_lines lns = map Entry (drop ?j es)"
      using False k(1) by (simp add: prune_lines_def drop_map add.commute)
    moreover have "?j \<le> length es" "MAX_LINES \<le> length es - ?j" using False k by auto
    ultimately show ?thesis unfolding log_keeps_def by blast
  qed
qed

lemma log_keeps_append: "log_keeps es lns \<Longrightarrow> log_keeps (es @ [e]) (append_line bytes (Entry e) lns)"
  using log_keeps_snoc [of es lns e] log_keeps_prune [of "es @ [e]" "lns @ [Entry e]"]
  by (simp add: append_line_def Let_def)

lemma log_of_jset [simp]: "log_of k (jset logs k' v) = (if k = k' then v else log_of k logs)"
  by (simp add: log_of_def jget_jset)

lemma log_keeps_op:
  assumes "\<forall>k. log_keeps (logged k ops) (log_of k logs)"
  shows "log_keeps (logged k (ops @ [x])) (log_of k (log_do bytes x logs))"
proof (cases x)
  case (Log_entry e)
  then show ?thesis using assms log_keeps_append [of "logged k ops" "log_of k logs"]
    by (auto simp: log_append_def logged_snoc)
next
  case (Log_prune j)
  have "log_of k (log_pruneForJob j logs) = (if k = j then prune_lines (log_of k logs) else log_of k logs)"
    by (auto simp: log_pruneForJob_def log_of_def jget_jset prune_lines_def split: option.splits)
  then show ?thesis
    using spec [OF assms, of k] log_keeps_prune [of "logged k ops" "log_of k logs"] Log_prune
    by (simp add: logged_snoc split: if_splits)
qed

lemma log_run_keeps: "log_keeps (logged k ops) (log_of k (fold (log_do bytes) ops []))"
proof (induction ops arbitrary: k rule: rev_induct)
  case Nil
  show ?case by (auto simp: log_keeps_def log_of_def)
next
  case (snoc x ops)
  then show ?case using log_keeps_op [of ops "fold (log_do bytes) ops []" k x] by simp
qed

lemma parse_entries [simp]: "parse_lines (map Entry es) = es"
  by (induction es) auto

text \<open>After any runs and any pruning, whenever that happened, reading the log of a job gives the
  entries that were appended for it, in their order, without at most the oldest ones, and the last two
  thousand of them are always there.\<close>

theorem log_reads_back:
  "\<exists>k. log_read jobId None (fold (log_do bytes) ops []) = drop k (logged jobId ops) \<and>
    min 2000 (length (logged jobId ops)) \<le> length (logged jobId ops) - k"
proof -
  obtain k where "log_of jobId (fold (log_do bytes) ops []) = map Entry (drop k (logged jobId ops))"
    "k \<le> length (logged jobId ops)" "0 < k \<longrightarrow> MAX_LINES \<le> length (logged jobId ops) - k"
    using log_run_keeps [of jobId ops bytes] by (auto simp: log_keeps_def)
  then show ?thesis by (intro exI [of _ k]) (auto simp: log_read_def MAX_LINES_def)
qed

end
