(* ===== verification/Cron_Session.thy ===== *)
theory Cron_Session
  imports Cron_Store Run_Log
begin

text \<open>
  \<^verbatim>\<open>cron/session.ts\<close> and \<^verbatim>\<open>cron/retention.ts\<close>: the sessions of runs and their removal. Of a session only
  what this code reads and writes is kept; the table of sessions is a keyed map. \<open>newId\<close> is the
  identifier that creating a session gives, \<open>None\<close> when it throws. Non-ASCII characters of a title are
  their UTF-8 bytes.
\<close>

record scheduled_marker =
  sm_jobId :: string
  sm_fireAtMs :: int
  sm_createdAtMs :: int

record session_info =
  si_title :: string
  si_parentID :: "string option"
  si_scheduled :: "scheduled_marker option"
  si_updated :: int

type_synonym sessions = "(string, session_info) jmap"

record resolved_session =
  rs_sessionId :: string
  rs_isNew :: bool
  rs_keyNamespace :: string
  rs_sessionTarget :: session_target

section \<open>Sessions of a run\<close>

text \<open>Clearing the marker also touches the session; for a session that does not exist it fails, and the
  failure is only logged.\<close>

definition session_release :: "int \<Rightarrow> string \<Rightarrow> sessions \<Rightarrow> sessions" where
  "session_release now sessionID ss =
     (case jget ss sessionID of
        None \<Rightarrow> ss
      | Some i \<Rightarrow> jset ss sessionID (i\<lparr>si_scheduled := None, si_updated := now\<rparr>))"

definition session_resolve ::
  "string option \<Rightarrow> int \<Rightarrow> cron_job \<Rightarrow> string \<Rightarrow> sessions \<Rightarrow> resolved_session option \<times> sessions" where
  "session_resolve newId now job runId ss =
     (let keyNamespace = cronSessionKey (cj_id job) runId;
          dormant = (if truthy (cj_dormantSessionID job) then the (cj_dormantSessionID job) else [])
      in if cj_sessionTarget job = Target_main
         then (Some \<lparr>rs_sessionId = [], rs_isNew = False, rs_keyNamespace = ''agent:main'',
                     rs_sessionTarget = Target_main\<rparr>, ss)
         else if truthy (cj_dormantSessionID job) \<and> jget ss dormant \<noteq> None
         then (Some \<lparr>rs_sessionId = dormant, rs_isNew = False, rs_keyNamespace = keyNamespace,
                     rs_sessionTarget = Target_isolated\<rparr>, session_release now dormant ss)
         else (case newId of
                 None \<Rightarrow> (None, ss)
               | Some i \<Rightarrow>
                   (Some \<lparr>rs_sessionId = i, rs_isNew = True, rs_keyNamespace = keyNamespace,
                          rs_sessionTarget = Target_isolated\<rparr>,
                    jset ss i \<lparr>si_title = ''[cron] '' @ cj_name job @ '' '' @ em_dash @ '' '' @ take 8 runId,
                               si_parentID = (if truthy (cj_parentID job) then cj_parentID job else None),
                               si_scheduled = None, si_updated = now\<rparr>)))"

definition createDormant ::
  "string \<Rightarrow> int \<Rightarrow> string \<Rightarrow> string \<Rightarrow> string option \<Rightarrow> int \<Rightarrow> sessions \<Rightarrow> string \<times> sessions" where
  "createDormant newId now jobId name' parentID fireAtMs ss =
     (newId, jset ss newId
        \<lparr>si_title = ''[scheduled] '' @ name', si_parentID = (if truthy parentID then parentID else None),
         si_scheduled = Some \<lparr>sm_jobId = jobId, sm_fireAtMs = fireAtMs, sm_createdAtMs = now\<rparr>, si_updated = now\<rparr>)"

definition isCronSession :: "string option \<Rightarrow> bool" where
  "isCronSession title =
     (case title of None \<Rightarrow> False | Some t \<Rightarrow> js_starts_with t ''[cron]'' \<or> js_starts_with t ''[scheduled]'')"

definition session_isExpired :: "session_info \<Rightarrow> int \<Rightarrow> int \<Rightarrow> bool" where
  "session_isExpired s retentionMs now \<longleftrightarrow> retentionMs < now - si_updated s"

section \<open>Retention\<close>

definition DEFAULT_RETENTION_MS :: int where "DEFAULT_RETENTION_MS = 24 * 60 * 60 * 1000"

record reap_result =
  rr_checked :: nat
  rr_reaped :: nat
  rr_errors :: nat

text \<open>\<open>removable\<close> tells whether removing a session from the storage succeeds.\<close>

fun reap_loop ::
  "(string \<Rightarrow> bool) \<Rightarrow> int \<Rightarrow> int \<Rightarrow> (string \<times> session_info) list \<Rightarrow> reap_result \<times> sessions \<Rightarrow> reap_result \<times> sessions" where
  "reap_loop removable retentionMs now [] acc = acc"
| "reap_loop removable retentionMs now ((i, s) # rest) (r, ss) =
     reap_loop removable retentionMs now rest
       (if session_isExpired s retentionMs now
        then (if removable i then (r\<lparr>rr_reaped := Suc (rr_reaped r)\<rparr>, jdel ss i)
              else (r\<lparr>rr_errors := Suc (rr_errors r)\<rparr>, ss))
        else (r, ss))"

definition reap ::
  "(string \<Rightarrow> bool) \<Rightarrow> int option \<Rightarrow> int \<Rightarrow> store_file \<Rightarrow> sessions \<Rightarrow> log_files \<Rightarrow> reap_result \<times> sessions \<times> log_files" where
  "reap removable retention now jobs' ss logs =
     (let retentionMs = (case retention of None \<Rightarrow> DEFAULT_RETENTION_MS | Some r \<Rightarrow> r);
          cronSessions = filter (\<lambda>(i, s). isCronSession (Some (si_title s))) ss;
          (r, ss') = reap_loop removable retentionMs now cronSessions
                       (\<lparr>rr_checked = length cronSessions, rr_reaped = 0, rr_errors = 0\<rparr>, ss)
      in (r, ss', fold (\<lambda>j. log_pruneForJob (cj_id j)) (store_list jobs') logs))"

section \<open>Properties\<close>

lemma reap_loop_get:
  "jget (snd (reap_loop removable ret now xs (r, ss))) k =
    (if (\<exists>s. (k, s) \<in> set xs \<and> session_isExpired s ret now) \<and> removable k then None else jget ss k)"
  by (induction xs arbitrary: r ss) (auto simp: jget_jdel)

text \<open>A retention pass removes exactly the sessions of scheduled jobs that were not updated within the
  retention time and that the storage lets go; every other session, whatever its age, is left as it is.\<close>

theorem reap_removes_expired:
  assumes "distinct (map fst ss)"
  shows "jget (fst (snd (reap removable ret now f ss logs))) k =
    (case jget ss k of
       None \<Rightarrow> None
     | Some s \<Rightarrow> if isCronSession (Some (si_title s)) \<and> removable k \<and>
                    (case ret of None \<Rightarrow> 86400000 | Some r \<Rightarrow> r) < now - si_updated s then None else Some s)"
proof -
  have mem: "(k, s) \<in> set ss \<longleftrightarrow> jget ss k = Some s" for s
    using assms by simp
  show ?thesis
    by (cases "jget ss k")
      (auto simp: reap_def Let_def split_beta reap_loop_get session_isExpired_def DEFAULT_RETENTION_MS_def mem
        split: option.splits)
qed

definition old_sessions :: sessions where
  "old_sessions =
     [(''a'', \<lparr>si_title = ''[cron] x'', si_parentID = None, si_scheduled = None, si_updated = 0\<rparr>),
      (''b'', \<lparr>si_title = ''chat'', si_parentID = None, si_scheduled = None, si_updated = 0\<rparr>)]"

theorem reap_removes_expired_witness:
  "jget (fst (snd (reap (\<lambda>i. True) None 86400001 No_store old_sessions []))) ''a'' = None"
proof -
  have "distinct (map fst old_sessions)" by (simp add: old_sessions_def)
  from reap_removes_expired [OF this, of "\<lambda>i. True" None 86400001 No_store "[]" "''a''"] show ?thesis
    by (simp add: old_sessions_def isCronSession_def js_starts_with_def)
qed

text \<open>A run whose dormant session still exists runs in it, takes its marker off and creates
  nothing; otherwise an isolated run gets a new session that is a child of the job's conversation. A run
  in the main session changes nothing and gets no session.\<close>

theorem resolve_session:
  assumes "session_resolve newId now job runId ss = (Some r, ss')"
  shows "if cj_sessionTarget job = Target_main then rs_sessionId r = [] \<and> ss' = ss
    else if truthy (cj_dormantSessionID job) \<and> jget ss (the (cj_dormantSessionID job)) \<noteq> None
    then \<not> rs_isNew r \<and> Some (rs_sessionId r) = cj_dormantSessionID job \<and>
      map_option si_scheduled (jget ss' (rs_sessionId r)) = Some None \<and> dom (jget ss') = dom (jget ss)
    else rs_isNew r \<and> newId = Some (rs_sessionId r) \<and>
      map_option si_parentID (jget ss' (rs_sessionId r)) =
        Some (if truthy (cj_parentID job) then cj_parentID job else None) \<and>
      (\<forall>s. jget ss' (rs_sessionId r) = Some s \<longrightarrow> isCronSession (Some (si_title s)))"
proof (cases "cj_sessionTarget job = Target_main")
  case True
  then show ?thesis using assms by (auto simp: session_resolve_def)
next
  case iso: False
  show ?thesis
  proof (cases "truthy (cj_dormantSessionID job) \<and> jget ss (the (cj_dormantSessionID job)) \<noteq> None")
    case True
    then obtain d i where "cj_dormantSessionID job = Some d" "jget ss d = Some i"
      by (auto simp: truthy_def split: option.splits)
    then show ?thesis using assms iso True
      by (auto simp: session_resolve_def session_release_def jget_jset Let_def dom_def split: if_splits)
  next
    case False
    then show ?thesis using assms iso
      by (auto simp: session_resolve_def Let_def jget_jset isCronSession_def js_starts_with_def split: option.splits if_splits)
  qed
qed

theorem resolve_session_witness:
  "map_option si_scheduled (jget (snd (session_resolve None 5 (reminder\<lparr>cj_dormantSessionID := Some ''a''\<rparr>) ''run'' old_sessions)) ''a'') = Some None"
proof -
  let ?j = "reminder\<lparr>cj_dormantSessionID := Some ''a''\<rparr>"
  let ?r = "\<lparr>rs_sessionId = ''a'', rs_isNew = False, rs_keyNamespace = cronSessionKey ''r'' ''run'', rs_sessionTarget = Target_isolated\<rparr>"
  have "session_resolve None 5 ?j ''run'' old_sessions = (Some ?r, session_release 5 ''a'' old_sessions)"
    by (simp add: session_resolve_def reminder_def truthy_def old_sessions_def Let_def)
  from resolve_session [OF this] this show ?thesis by (simp add: reminder_def truthy_def old_sessions_def)
qed

text \<open>The session that waits for a one-shot counts as a session of scheduled jobs from the moment it
  is created, and waiting does not touch it: the retention pass removes the waiting session of a task
  more than a day ahead, long before the task fires in it.\<close>

theorem dormant_session_reaped:
  assumes "createDormant i t0 jobId name' parentID fireAtMs ss = (i, ss')"
    and "t0 + 86400000 < now" and "now < fireAtMs" and "removable i"
  shows "(\<exists>s. jget ss' i = Some s \<and> si_scheduled s \<noteq> None) \<and>
    jget (fst (snd (reap removable None now f ss' logs))) i = None"
proof -
  have s: "\<exists>s. jget ss' i = Some s \<and> si_scheduled s \<noteq> None \<and> si_updated s = t0 \<and> isCronSession (Some (si_title s))"
    using assms(1) by (auto simp: createDormant_def jget_jset isCronSession_def js_starts_with_def)
  then obtain s where "jget ss' i = Some s" "si_updated s = t0" "isCronSession (Some (si_title s))" by blast
  then have "(i, s) \<in> set (filter (\<lambda>(i, s). isCronSession (Some (si_title s))) ss')"
    by (auto dest: map_of_SomeD)
  then have "jget (fst (snd (reap removable None now f ss' logs))) i = None"
    using assms(2,4) \<open>si_updated s = t0\<close>
    by (auto simp: reap_def Let_def split_beta reap_loop_get session_isExpired_def DEFAULT_RETENTION_MS_def)
  then show ?thesis using s by blast
qed

theorem dormant_session_reaped_witness:
  "jget (fst (snd (reap (\<lambda>i. True) None 100000000 No_store
     (snd (createDormant ''d'' 0 ''j'' ''task'' None 500000000 [])) []))) ''d'' = None"
  using dormant_session_reaped [of "''d''" 0 "''j''" "''task''" None 500000000 "[]" _ 100000000 "\<lambda>i. True" No_store "[]"]
  by (simp add: createDormant_def)

end
