(* ===== verification/Cron_Retry.thy ===== *)
theory Cron_Retry
  imports Cron_Schedule
begin

text \<open>
  \<^verbatim>\<open>cron/retry.ts\<close>: what a job does after a run. The regular expressions are searches in the lowered
  text; \<open>\b\<close> is the end of a run of letters, digits and underscores. A delay out of an empty list is
  undefined, and an instant computed from it is not a number: both are \<open>None\<close>.
\<close>

section \<open>Errors\<close>

datatype error_class = Transient | Permanent

fun no_word :: "char option \<Rightarrow> bool" where
  "no_word None = True"
| "no_word (Some c) = (\<not> word_char c)"

text \<open>Whether a word of \<open>n\<close> characters that satisfies \<open>P\<close> stands between two boundaries.\<close>

fun word_search :: "nat \<Rightarrow> (string \<Rightarrow> bool) \<Rightarrow> char option \<Rightarrow> string \<Rightarrow> bool" where
  "word_search n P prev [] = False"
| "word_search n P prev (c # s) =
     (no_word prev \<and> n \<le> length (c # s) \<and> P (take n (c # s)) \<and>
        no_word (case drop n (c # s) of [] \<Rightarrow> None | d # r \<Rightarrow> Some d) \<or>
      word_search n P (Some c) s)"

definition has_word :: "string \<Rightarrow> string \<Rightarrow> bool" where
  "has_word w s = word_search (length w) (\<lambda>t. t = w) None s"

definition server_code :: "string \<Rightarrow> bool" where
  "server_code t \<longleftrightarrow> (case t of [a, b, c] \<Rightarrow> a = CHR ''5'' \<and> js_digit b \<and> js_digit c | _ \<Rightarrow> False)"

definition TRANSIENT_PATTERNS :: "(string \<times> (string \<Rightarrow> bool)) list" where
  "TRANSIENT_PATTERNS =
     [(''rate_limit'', \<lambda>s. list_ex (js_includes (js_lower s))
         [''rate_limit'', ''rate limit'', ''too many requests'', ''429'', ''resource has been exhausted'']),
      (''overloaded'', \<lambda>s. has_word ''529'' (js_lower s) \<or> has_word ''overloaded'' (js_lower s) \<or>
         js_includes (js_lower s) ''high demand'' \<or> js_includes (js_lower s) ''capacity exceeded''),
      (''network'', \<lambda>s. list_ex (js_includes (js_lower s))
         [''econnreset'', ''econnrefused'', ''fetch failed'', ''socket'', ''network'']),
      (''timeout'', \<lambda>s. list_ex (js_includes (js_lower s)) [''timeout'', ''etimedout'']),
      (''server_error'', \<lambda>s. word_search 3 server_code None s)]"

definition PERMANENT_REASONS :: "string list" where
  "PERMANENT_REASONS =
     [''auth'', ''auth_permanent'', ''format'', ''billing'', ''model_not_found'', ''session_expired'']"

definition classifyError :: "string option \<Rightarrow> string option \<Rightarrow> error_class" where
  "classifyError error reason =
     (if truthy reason \<and> the reason \<in> set PERMANENT_REASONS then Permanent
      else if \<not> truthy error then Permanent
      else if list_ex (\<lambda>(n, p). p (the error)) TRANSIENT_PATTERNS then Transient
      else Permanent)"

section \<open>Delays\<close>

definition DEFAULT_BACKOFF_MS :: "int list" where
  "DEFAULT_BACKOFF_MS = [30000, 60000, 5 * 60000, 15 * 60000, 60 * 60000]"

definition DEFAULT_MAX_ATTEMPTS :: nat where
  "DEFAULT_MAX_ATTEMPTS = 3"

definition backoffMs :: "nat \<Rightarrow> int list option \<Rightarrow> int option" where
  "backoffMs consecutiveErrors schedule =
     (let backoff = (case schedule of None \<Rightarrow> DEFAULT_BACKOFF_MS | Some s \<Rightarrow> s);
          index = min (int consecutiveErrors - 1) (int (length backoff) - 1);
          i = nat (max 0 index)
      in if i < length backoff then Some (backoff ! i) else None)"

record retry_config =
  rc_maxAttempts :: "nat option"
  rc_backoffScheduleMs :: "int list option"

section \<open>Decisions\<close>

datatype retry_decision =
  Continue "int option" nat
| Disable string nat

fun errors_of :: "retry_decision \<Rightarrow> nat" where
  "errors_of (Continue t n) = n"
| "errors_of (Disable r n) = n"

definition decide ::
  "calendar \<Rightarrow> cron_schedule \<Rightarrow> nat option \<Rightarrow> run_outcome \<Rightarrow> retry_config \<Rightarrow> int \<Rightarrow> retry_decision" where
  "decide cal schedule consecutiveErrors outcome config now =
     (let errors = (case consecutiveErrors of None \<Rightarrow> 0 | Some n \<Rightarrow> n)
      in if ro_status outcome = Run_ok \<or> ro_status outcome = Run_skipped
         then (if is_at schedule then Disable ''one-shot completed'' 0
               else (case computeNextRunAtMs cal schedule now of
                       None \<Rightarrow> Disable ''no future run time'' 0
                     | Some nextRunAtMs \<Rightarrow> Continue (Some nextRunAtMs) 0))
         else (let newErrors = errors + 1;
                   error = (case ro_error outcome of None \<Rightarrow> ''unknown'' | Some e \<Rightarrow> e);
                   maxAttempts = (case rc_maxAttempts config of None \<Rightarrow> DEFAULT_MAX_ATTEMPTS | Some n \<Rightarrow> n);
                   delay = backoffMs newErrors (rc_backoffScheduleMs config)
               in if classifyError (ro_error outcome) None = Permanent
                  then Disable (''permanent error: '' @ error) newErrors
                  else if is_at schedule
                  then (if maxAttempts \<le> newErrors
                        then Disable (''max retries ('' @ js_show_nat maxAttempts @ '') reached'') newErrors
                        else Continue (map_option (\<lambda>d. now + d) delay) newErrors)
                  else (case computeNextRunAtMs cal schedule now of
                          None \<Rightarrow> Disable ''no future run time'' newErrors
                        | Some naturalNext \<Rightarrow>
                            Continue (map_option (\<lambda>d. max naturalNext (now + d)) delay) newErrors)))"

fun class_name :: "error_class \<Rightarrow> string" where
  "class_name Transient = ''transient''"
| "class_name Permanent = ''permanent''"

definition applyOutcomeToState :: "run_outcome \<Rightarrow> retry_decision \<Rightarrow> int \<Rightarrow> state_patch" where
  "applyOutcomeToState outcome decision now =
     [Last_run (Some now), Last_status (Some (ro_status outcome)), Last_duration (ro_durationMs outcome),
      Consecutive (Some (errors_of decision)), Running None] @
     (if ro_status outcome = Run_error
      then [Last_error (ro_error outcome), Last_reason (Some (class_name (classifyError (ro_error outcome) None)))]
      else [Last_error None, Last_reason None]) @
     [Next_run (case decision of Continue t n \<Rightarrow> t | Disable r n \<Rightarrow> None)]"

section \<open>Properties\<close>

lemma backoff_index: "i = nat (max 0 (min (int n - 1) (int k - 1))) \<Longrightarrow> 0 < k \<Longrightarrow> i < k"
  by auto

lemma backoffMs_defined:
  assumes "b \<noteq> Some []"
  shows "\<exists>d. backoffMs n b = Some d \<and> d \<in> set (case b of None \<Rightarrow> DEFAULT_BACKOFF_MS | Some s \<Rightarrow> s)"
proof -
  define s where "s = (case b of None \<Rightarrow> DEFAULT_BACKOFF_MS | Some s \<Rightarrow> s)"
  have "0 < length s" using assms by (auto simp: s_def DEFAULT_BACKOFF_MS_def split: option.splits)
  from backoff_index [OF refl this, of n] show ?thesis
    unfolding backoffMs_def s_def [symmetric] Let_def by (auto intro: nth_mem)
qed

text \<open>After a run of a job the state never points to the past: it names a run after now
  or none. A success clears the errors, an error counts one more, a permanent error and a one-shot
  that is done or out of attempts name no run, and a repeated job after a transient error runs no
  earlier than its schedule says and no earlier than the delay for its errors.\<close>

theorem retry_next_run:
  assumes "rc_backoffScheduleMs config \<noteq> Some []"
    and "\<forall>d \<in> set (case rc_backoffScheduleMs config of None \<Rightarrow> DEFAULT_BACKOFF_MS | Some s \<Rightarrow> s). 0 < d"
    and "d = decide cal schedule errors outcome config now"
    and "s = spread_state (applyOutcomeToState outcome d now) old"
  shows "js_consecutiveErrors s =
      Some (if ro_status outcome = Run_error then Suc (case errors of None \<Rightarrow> 0 | Some n \<Rightarrow> n) else 0) \<and>
    (\<forall>t. js_nextRunAtMs s = Some t \<longrightarrow> now < t) \<and>
    (ro_status outcome = Run_error \<and> classifyError (ro_error outcome) None = Permanent \<longrightarrow> js_nextRunAtMs s = None) \<and>
    (is_at schedule \<longrightarrow> (js_nextRunAtMs s \<noteq> None \<longleftrightarrow>
       ro_status outcome = Run_error \<and> classifyError (ro_error outcome) None = Transient \<and>
       errors_of d < (case rc_maxAttempts config of None \<Rightarrow> 3 | Some n \<Rightarrow> n))) \<and>
    (\<forall>t. \<not> is_at schedule \<and> ro_status outcome = Run_error \<and> js_nextRunAtMs s = Some t \<longrightarrow>
       (\<exists>natural b. computeNextRunAtMs cal schedule now = Some natural \<and>
          backoffMs (errors_of d) (rc_backoffScheduleMs config) = Some b \<and> t = max natural (now + b)))"
proof -
  obtain b where b: "backoffMs (Suc (case errors of None \<Rightarrow> 0 | Some n \<Rightarrow> n)) (rc_backoffScheduleMs config) = Some b" "0 < b"
    using backoffMs_defined [OF assms(1), of "Suc (case errors of None \<Rightarrow> 0 | Some n \<Rightarrow> n)"] assms(2) by blast
  have s: "js_nextRunAtMs s = (case d of Continue t n \<Rightarrow> t | Disable r n \<Rightarrow> None)"
    "js_consecutiveErrors s = Some (errors_of d)"
    by (simp_all add: assms(4) applyOutcomeToState_def)
  have cls: "classifyError e r = Transient \<longleftrightarrow> classifyError e r \<noteq> Permanent" for e r
    by (cases "classifyError e r") auto
  show ?thesis
  proof (cases "ro_status outcome = Run_error")
    case True
    then show ?thesis unfolding s assms(3) using b sched.later [of cal schedule now]
      by (auto simp: decide_def Let_def cls DEFAULT_MAX_ATTEMPTS_def split: option.splits)
  next
    case False
    then have "ro_status outcome = Run_ok \<or> ro_status outcome = Run_skipped" by (cases "ro_status outcome") auto
    then show ?thesis unfolding s assms(3) using sched.upcoming_future [of cal schedule now] False
      by (auto simp: decide_def Let_def split: option.splits)
  qed
qed

definition default_retry :: retry_config where
  "default_retry = \<lparr>rc_maxAttempts = None, rc_backoffScheduleMs = None\<rparr>"

theorem retry_next_run_witness:
  "js_nextRunAtMs (spread_state (applyOutcomeToState \<lparr>ro_status = Run_ok, ro_error = None, ro_summary = None, ro_durationMs = None\<rparr>
     (decide utc (At ''2024-01-01'') (Some 2) \<lparr>ro_status = Run_ok, ro_error = None, ro_summary = None, ro_durationMs = None\<rparr>
       default_retry 5) 5) empty_state) = None"
  using retry_next_run [where config = default_retry and cal = utc and schedule = "At ''2024-01-01''" and
      errors = "Some 2" and now = 5 and old = empty_state and
      outcome = "\<lparr>ro_status = Run_ok, ro_error = None, ro_summary = None, ro_durationMs = None\<rparr>", OF _ _ refl refl]
  by (simp add: default_retry_def DEFAULT_BACKOFF_MS_def)

end
