(* ===== verification/Cron_Delivery.thy ===== *)
theory Cron_Delivery
  imports Cron_Types
begin

text \<open>
  \<^verbatim>\<open>cron/delivery.ts\<close>: where the outcome of a run goes. What the bus and the web server answer is an
  input: \<open>publish\<close> is the message of the exception the bus throws, if any. The announcements and the
  posts are the results of a delivery.
\<close>

definition MAX_ANNOUNCE_LENGTH :: nat where "MAX_ANNOUNCE_LENGTH = 4000"

datatype fetch_result = Fetch_throws string | Fetch_response bool nat string

record delivery_result =
  dl_status :: delivery_status
  dl_error :: "string option"

record announcement =
  an_sessionID :: string
  an_text :: string
  an_jobId :: string
  an_runId :: string

record post =
  po_url :: string
  po_bearer :: "string option"
  po_jobId :: string
  po_outcome :: run_outcome

datatype sent = Announced announcement | Posted post

record delivery_env =
  de_publish :: "string option"
  de_fetch :: fetch_result

fun status_word :: "run_status \<Rightarrow> string" where
  "status_word Run_ok = ''OK''"
| "status_word Run_error = ''ERROR''"
| "status_word Run_skipped = ''SKIPPED''"

definition cron_newline :: string where "cron_newline = [CHR 0x0A]"

definition formatAnnounceSummary :: "string \<Rightarrow> string \<Rightarrow> run_outcome \<Rightarrow> string" where
  "formatAnnounceSummary jobName runId outcome =
     (let duration = (case ro_durationMs outcome of
            None \<Rightarrow> []
          | Some d \<Rightarrow> if d = 0 then []
                      else (let s = js_round (rat_of_int d / 1000)
                            in '' ('' @ (if s < 0 then ''-'' else []) @ js_show_nat (nat \<bar>s\<bar>) @ ''s)''));
          text = ''[cron: '' @ jobName @ ''] '' @ status_word (ro_status outcome) @ duration @
                 cron_newline @ ''Run: '' @ take 8 runId;
          text1 = (if truthy (ro_summary outcome) then text @ cron_newline @ the (ro_summary outcome) else text)
      in if truthy (ro_error outcome) then text1 @ cron_newline @ ''Error: '' @ the (ro_error outcome) else text1)"

text \<open>A delivery that throws is \<open>Inl\<close> of the message.\<close>

definition deliverAnnounce ::
  "delivery_env \<Rightarrow> cron_delivery \<Rightarrow> run_outcome \<Rightarrow> string \<Rightarrow> string \<Rightarrow> string \<Rightarrow>
   (string + delivery_result) \<times> sent list" where
  "deliverAnnounce env delivery outcome jobName jobId runId =
     (let full = formatAnnounceSummary jobName runId outcome;
          summary = (if MAX_ANNOUNCE_LENGTH < length full
                     then take (MAX_ANNOUNCE_LENGTH - 20) full @ cron_newline @ ''... (truncated)'' else full);
          done = Inr \<lparr>dl_status = Delivered, dl_error = None\<rparr>
      in if truthy (cd_announceSessionID delivery)
         then (let a = Announced \<lparr>an_sessionID = the (cd_announceSessionID delivery), an_text = summary,
                        an_jobId = jobId, an_runId = runId\<rparr>
               in case de_publish env of None \<Rightarrow> (done, [a]) | Some e \<Rightarrow> (Inl e, [a]))
         else (done, []))"

definition deliverWebhook ::
  "delivery_env \<Rightarrow> cron_delivery \<Rightarrow> run_outcome \<Rightarrow> string \<Rightarrow> (string + delivery_result) \<times> sent list" where
  "deliverWebhook env delivery outcome jobId =
     (if \<not> truthy (cd_webhookUrl delivery)
      then (Inr \<lparr>dl_status = Not_delivered, dl_error = Some ''no webhook URL configured''\<rparr>, [])
      else (let p = Posted \<lparr>po_url = the (cd_webhookUrl delivery),
                   po_bearer = (if truthy (cd_webhookBearerToken delivery) then cd_webhookBearerToken delivery else None),
                   po_jobId = jobId, po_outcome = outcome\<rparr>
            in case de_fetch env of
                 Fetch_throws e \<Rightarrow> (Inl e, [p])
               | Fetch_response ok status statusText \<Rightarrow>
                   (let error = ''webhook returned '' @ js_show_nat status @ '': '' @ statusText
                    in if ok then (Inr \<lparr>dl_status = Delivered, dl_error = None\<rparr>, [p])
                       else if cd_bestEffort delivery
                       then (Inr \<lparr>dl_status = Not_delivered, dl_error = Some error\<rparr>, [p])
                       else (Inl error, [p]))))"

definition deliver_run ::
  "delivery_env \<Rightarrow> cron_delivery option \<Rightarrow> run_outcome \<Rightarrow> string \<Rightarrow> string \<Rightarrow> string \<Rightarrow>
   delivery_result \<times> sent list" where
  "deliver_run env delivery outcome jobName jobId runId =
     (case delivery of
        None \<Rightarrow> (\<lparr>dl_status = Not_requested, dl_error = None\<rparr>, [])
      | Some d \<Rightarrow>
          (let attempt = (case cd_mode d of
                 Delivery_none \<Rightarrow> (Inr \<lparr>dl_status = Not_requested, dl_error = None\<rparr>, [])
               | Delivery_announce \<Rightarrow> deliverAnnounce env d outcome jobName jobId runId
               | Delivery_webhook \<Rightarrow> deliverWebhook env d outcome jobId)
           in case attempt of
                (Inr r, s) \<Rightarrow> (r, s)
              | (Inl error, s) \<Rightarrow> (\<lparr>dl_status = Not_delivered, dl_error = Some error\<rparr>, s)))"

section \<open>Properties\<close>

text \<open>At most one message leaves per delivery, only to the target the mode names, an
  announcement has at most 4000 characters, an undelivered outcome always says why, and delivered means
  that the server answered well.\<close>

theorem delivery_contract:
  assumes "deliver_run env delivery outcome jobName jobId runId = (r, s)"
  shows "length s \<le> 1 \<and>
    (\<forall>a. s = [Announced a] \<longrightarrow> map_option cd_mode delivery = Some Delivery_announce \<and> length (an_text a) \<le> 4000) \<and>
    (\<forall>p. s = [Posted p] \<longrightarrow> map_option cd_mode delivery = Some Delivery_webhook \<and>
       (dl_status r = Delivered \<longleftrightarrow> (\<exists>n t. de_fetch env = Fetch_response True n t))) \<and>
    (dl_status r = Not_delivered \<longleftrightarrow> dl_error r \<noteq> None)"
proof (cases delivery)
  case None
  then show ?thesis using assms by (auto simp: deliver_run_def)
next
  case (Some d)
  show ?thesis
  proof (cases "cd_mode d")
    case Delivery_none
    then show ?thesis using assms Some by (auto simp: deliver_run_def)
  next
    case Delivery_announce
    have "length (an_text a) \<le> 4000" if "s = [Announced a]" for a
    proof -
      show ?thesis
        using assms Some Delivery_announce that
        by (auto simp: deliver_run_def deliverAnnounce_def Let_def MAX_ANNOUNCE_LENGTH_def cron_newline_def
            split: if_splits option.splits)
    qed
    then show ?thesis using assms Some Delivery_announce
      by (auto simp: deliver_run_def deliverAnnounce_def Let_def split: if_splits option.splits)
  next
    case Delivery_webhook
    then show ?thesis using assms Some
      by (auto simp: deliver_run_def deliverWebhook_def Let_def split: if_splits fetch_result.splits)
  qed
qed

theorem delivery_contract_witness:
  "dl_error (fst (deliver_run \<lparr>de_publish = None, de_fetch = Fetch_throws ''timeout''\<rparr>
     (Some \<lparr>cd_mode = Delivery_webhook, cd_webhookUrl = Some ''https://x'', cd_webhookBearerToken = None,
            cd_announceSessionID = None, cd_bestEffort = False\<rparr>)
     \<lparr>ro_status = Run_ok, ro_error = None, ro_summary = None, ro_durationMs = None\<rparr> ''n'' ''j'' ''r'')) \<noteq> None"
  (is "dl_error (fst ?r) \<noteq> None")
proof -
  have "dl_status (fst ?r) = Not_delivered" by (simp add: deliver_run_def deliverWebhook_def truthy_def)
  then show ?thesis using delivery_contract [OF prod.collapse [symmetric]] by blast
qed

end
