(* ===== verification/Active_Hours.thy ===== *)
theory Active_Hours
  imports Cron_Schedule
begin

text \<open>
  \<^verbatim>\<open>cron/active-hours.ts\<close>: the gate that keeps jobs out of the hours they should not run in. A reading
  of the window or the zone that throws is \<open>None\<close>: a bound that is not a number only fails when the
  blocked gate prints its next opening. Numerals other than decimal digits do not count as numbers.
\<close>

record hours_config =
  ah_start :: string
  ah_end :: string
  ah_tz :: "string option"

datatype gate_result = Gate_open | Gate_closed int

definition hhmm_number :: "string \<Rightarrow> int option" where
  "hhmm_number s =
     (let t = js_trim s in if t = [] then Some 0 else map_option int (digits_value t))"

text \<open>\<open>None\<close> is \<open>NaN\<close>.\<close>

definition parseHHMM :: "string \<Rightarrow> int option" where
  "parseHHMM hhmm =
     (case js_split CHR '':'' hhmm of
        h # m # r \<Rightarrow>
          (case (hhmm_number h, hhmm_number m) of (Some x, Some y) \<Rightarrow> Some (x * 60 + y) | _ \<Rightarrow> None)
      | _ \<Rightarrow> None)"

definition getCurrentMinutes :: "calendar \<Rightarrow> int \<Rightarrow> string option \<Rightarrow> int option" where
  "getCurrentMinutes cal nowMs tz =
     (if \<not> truthy tz then Some (getHours cal nowMs * 60 + getMinutes cal nowMs)
      else (case cal_wall cal (the tz) nowMs of
              None \<Rightarrow> None
            | Some w \<Rightarrow> Some (w mod MS_DAY div 3600000 * 60 + w mod 3600000 div MS_MINUTE)))"

definition in_window :: "int \<Rightarrow> int \<Rightarrow> int \<Rightarrow> bool" where
  "in_window startMinutes endMinutes currentMinutes =
     (if startMinutes \<le> endMinutes then startMinutes \<le> currentMinutes \<and> currentMinutes < endMinutes
      else startMinutes \<le> currentMinutes \<or> currentMinutes < endMinutes)"

definition computeNextWindowOpen :: "int \<Rightarrow> int \<Rightarrow> int \<Rightarrow> int" where
  "computeNextWindowOpen startMinutes currentMinutes nowMs =
     (let d = startMinutes - currentMinutes; minutesUntilOpen = (if d \<le> 0 then d + 24 * 60 else d)
      in nowMs + minutesUntilOpen * 60 * 1000)"

definition hours_check :: "calendar \<Rightarrow> hours_config option \<Rightarrow> int \<Rightarrow> gate_result option" where
  "hours_check cal config nowMs =
     (case config of
        None \<Rightarrow> Some Gate_open
      | Some c \<Rightarrow>
          (case getCurrentMinutes cal nowMs (ah_tz c) of
             None \<Rightarrow> None
           | Some currentMinutes \<Rightarrow>
               (case (parseHHMM (ah_start c), parseHHMM (ah_end c)) of
                  (Some s, Some e) \<Rightarrow>
                    Some (if in_window s e currentMinutes then Gate_open
                          else Gate_closed (computeNextWindowOpen s currentMinutes nowMs))
                | (Some s, None) \<Rightarrow>
                    Some (if s \<le> currentMinutes then Gate_open
                          else Gate_closed (computeNextWindowOpen s currentMinutes nowMs))
                | (None, e) \<Rightarrow>
                    if e \<noteq> None \<and> currentMinutes < the e then Some Gate_open else None)))"

section \<open>Wall clocks\<close>

text \<open>A clock that counts minutes: it never goes back and adding minutes to an instant adds them to the
  count. The minute of the day is the count modulo a day.\<close>

locale wall_clock =
  fixes count :: "int \<Rightarrow> int"
  assumes count_mono: "t \<le> u \<Longrightarrow> count t \<le> count u"
    and count_add: "count (t + k * MS_MINUTE) = count t + k"
begin

definition minute :: "int \<Rightarrow> int" where
  "minute t = count t mod 1440"

lemma opens_next:
  assumes "\<not> in_window s e (minute now)" and "s \<noteq> e" and "0 \<le> s" and "s < 1440" and "0 \<le> e" and "e < 1440"
    and "t = computeNextWindowOpen s (minute now) now"
  shows "in_window s e (minute t) \<and> now < t \<and> t \<le> now + MS_DAY \<and>
    (\<forall>u. now \<le> u \<and> u + MS_MINUTE \<le> t \<longrightarrow> \<not> in_window s e (minute u))"
proof -
  define m where "m = minute now"
  define k where "k = (if s - m \<le> 0 then s - m + 1440 else s - m)"
  have m: "0 \<le> m" "m < 1440" by (simp_all add: m_def minute_def)
  have k: "0 < k" "k \<le> 1440" using m assms(3,4) by (auto simp: k_def)
  have t: "t = now + k * MS_MINUTE"
    using assms(7) by (simp add: computeNextWindowOpen_def k_def m_def Let_def MS_MINUTE_def)
  have shifted: "(count now + j) mod 1440 = (if m + j < 1440 then m + j else m + j - 1440)"
    if "0 \<le> j" "j \<le> 1440" for j
  proof -
    have "(count now + j) mod 1440 = (m + j) mod 1440" by (simp add: m_def minute_def mod_simps)
    also have "\<dots> = (if m + j < 1440 then m + j else m + j - 1440)"
    proof (cases "m + j < 1440")
      case False
      have "(m + j) mod 1440 = (m + j - 1440) mod 1440" by simp
      also have "\<dots> = m + j - 1440" using False m that by (intro mod_pos_pos_trivial) auto
      finally show ?thesis using False by simp
    qed (use m that in simp)
    finally show ?thesis .
  qed
  have "minute t = s" using shifted [of k] k m assms(3,4) by (auto simp: minute_def t count_add k_def split: if_splits)
  moreover have "in_window s e s" using assms(2) by (simp add: in_window_def)
  moreover have "\<not> in_window s e (minute u)" if u: "now \<le> u" "u + MS_MINUTE \<le> t" for u
  proof -
    define j where "j = count u - count now"
    have "0 \<le> j" using count_mono [OF u(1)] by (simp add: j_def)
    moreover have "count (u + 1 * MS_MINUTE) \<le> count t" using count_mono [of "u + MS_MINUTE" t] u(2) by simp
    then have "j < k" using count_add [of u 1] count_add [of now k] by (simp add: j_def t)
    ultimately have "minute u = (if m + j < 1440 then m + j else m + j - 1440)"
      using shifted [of j] k by (simp add: minute_def j_def)
    then show ?thesis using assms(1,3,4,5,6) \<open>0 \<le> j\<close> \<open>j < k\<close> m
      by (auto simp: in_window_def k_def simp flip: m_def split: if_splits)
  qed
  ultimately show ?thesis using k by (auto simp: t MS_MINUTE_def MS_DAY_def)
qed

lemma empty_window: "\<not> in_window s s (minute t)"
  by (simp add: in_window_def)

end

text \<open>The clock of the system.\<close>

definition minute_count :: "calendar \<Rightarrow> int \<Rightarrow> int" where
  "minute_count cal t = local_time cal t div MS_MINUTE"

interpretation system_clock: wall_clock "minute_count cal"
proof
  fix t u k :: int
  show "minute_count cal t \<le> minute_count cal u" if "t \<le> u"
    using that by (simp add: minute_count_def local_time_def MS_MINUTE_def zdiv_mono1)
  show "minute_count cal (t + k * MS_MINUTE) = minute_count cal t + k"
  proof -
    have "local_time cal (t + k * MS_MINUTE) = local_time cal t + k * MS_MINUTE" by (simp add: local_time_def)
    then show ?thesis by (simp add: minute_count_def MS_MINUTE_def)
  qed
qed

lemma minutes_of_day:
  "l mod MS_DAY div 3600000 * 60 + l mod 3600000 div MS_MINUTE = l div MS_MINUTE mod 1440"
proof -
  define q where "q = l div MS_MINUTE"
  have h: "l mod MS_DAY div 3600000 = q mod 1440 div 60"
  proof -
    have "l mod MS_DAY div 3600000 = l mod MS_DAY div MS_MINUTE div 60"
      by (simp add: MS_MINUTE_def zdiv_zmult2_eq flip: zdiv_zmult2_eq)
    also have "l mod MS_DAY div MS_MINUTE = q mod 1440"
      using zmod_zmult2_eq [of 1440 l MS_MINUTE] by (simp add: MS_DAY_def MS_MINUTE_def q_def)
    finally show ?thesis .
  qed
  have "l mod 3600000 div MS_MINUTE = q mod 60"
    using zmod_zmult2_eq [of 60 l MS_MINUTE] by (simp add: MS_MINUTE_def q_def)
  moreover have "q mod 60 = q mod 1440 mod 60" by (simp add: mod_mod_cancel)
  ultimately show ?thesis unfolding h by (simp add: q_def)
qed

lemma current_minutes: "getCurrentMinutes cal t None = Some (system_clock.minute cal t)"
  by (simp add: getCurrentMinutes_def truthy_def getHours_def getMinutes_def minutes_of_day
      system_clock.minute_def minute_count_def)

section \<open>Properties\<close>

text \<open>For a window of the system's clock whose bounds are different times of the day, a
  closed gate names an instant within a day, the gate is open at that instant and stays closed until
  the minute of that instant begins.\<close>

theorem gate_opens_next:
  assumes "parseHHMM a = Some s" and "parseHHMM b = Some e" and "s \<noteq> e"
    and "0 \<le> s" and "s < 1440" and "0 \<le> e" and "e < 1440"
    and "c = \<lparr>ah_start = a, ah_end = b, ah_tz = None\<rparr>" and "hours_check cal (Some c) now = Some (Gate_closed t)"
  shows "hours_check cal (Some c) t = Some Gate_open \<and> now < t \<and> t \<le> now + MS_DAY \<and>
    (\<forall>u. now \<le> u \<and> u + MS_MINUTE \<le> t \<longrightarrow> hours_check cal (Some c) u \<noteq> Some Gate_open)"
proof -
  have out: "\<not> in_window s e (system_clock.minute cal now)"
    and t: "t = computeNextWindowOpen s (system_clock.minute cal now) now"
    using assms(1,2,8,9) by (auto simp: hours_check_def current_minutes split: if_splits)
  show ?thesis
    using system_clock.opens_next [OF out assms(3-7) t] assms(1,2,8)
    by (simp add: hours_check_def current_minutes)
qed

theorem gate_opens_next_witness:
  "hours_check utc (Some \<lparr>ah_start = ''22:30'', ah_end = ''06:00'', ah_tz = None\<rparr>) 81000000 = Some Gate_open"
proof -
  have "parseHHMM ''22:30'' = Some 1350" "parseHHMM ''06:00'' = Some 360" by code_simp+
  moreover from this have "hours_check utc (Some \<lparr>ah_start = ''22:30'', ah_end = ''06:00'', ah_tz = None\<rparr>) 43200000 =
      Some (Gate_closed 81000000)"
    by (simp add: hours_check_def getCurrentMinutes_def truthy_def getHours_def getMinutes_def local_time_def
        utc_def MS_DAY_def MS_MINUTE_def in_window_def computeNextWindowOpen_def)
  ultimately show ?thesis using gate_opens_next [of "''22:30''" 1350 "''06:00''" 360 _ utc 43200000 81000000] by simp
qed

text \<open>A window that starts and ends at the same time, which one would read as the whole day,
  is never open: the gate answers closed at every instant, also at the instants it names itself.\<close>

theorem same_bounds_never_open:
  assumes "parseHHMM a = Some s" and "hours_check cal (Some \<lparr>ah_start = a, ah_end = a, ah_tz = tz\<rparr>) now = Some g"
  shows "g \<noteq> Gate_open"
  using assms by (auto simp: hours_check_def in_window_def split: option.splits if_splits)

theorem same_bounds_never_open_witness:
  "hours_check utc (Some \<lparr>ah_start = ''00:00'', ah_end = ''00:00'', ah_tz = None\<rparr>) 43200000 \<noteq> Some Gate_open"
proof -
  have "parseHHMM ''00:00'' = Some 0" by code_simp
  from same_bounds_never_open [OF this, of utc None 43200000] show ?thesis by blast
qed

end
