(* ===== verification/Heartbeat.thy ===== *)
theory Heartbeat
  imports Cron_Session Cron_Retry Cron_Delivery Active_Hours System_Events
begin

text \<open>
  \<^verbatim>\<open>cron/heartbeat.ts\<close>: the tick that runs the jobs that are due, and the recovery of schedules when the
  daemon starts. What the services around it answer is in \<open>hb_env\<close>: the model's turn, the session it
  creates, the delivery, the clock at the end of the run. The clock of the store's writes is the clock
  of the tick. Every run is one entry of \<open>hb_runs\<close>.
\<close>

section \<open>State\<close>

definition HEARTBEAT_OK_TOKEN :: string where "HEARTBEAT_OK_TOKEN = ''HEARTBEAT_OK''"

definition STALE_THRESHOLD_MS :: int where "STALE_THRESHOLD_MS = 5 * 60 * 1000"

record heartbeat_config =
  hc_activeHours :: "hours_config option"
  hc_suppressOnOk :: bool

datatype heartbeat_status = Hb_executed | Hb_suppressed | Hb_outside_hours | Hb_skipped

record heartbeat_result =
  hr_status :: heartbeat_status
  hr_hasActionableContent :: bool
  hr_eventsProcessed :: nat
  hr_suppressionReason :: "string option"

record execution =
  ex_providerId :: string
  ex_modelID :: string
  ex_accountId :: "string option"

text \<open>\<open>SessionPrompt.prompt\<close>: the message of its exception, or the texts of the parts it returns and the
  execution identity that the session has then.\<close>

datatype prompt_result = Prompt_throws string | Prompt_parts "string list" "execution option"

record job_run_result =
  jr_hasActionableContent :: bool
  jr_summary :: "string option"
  jr_sessionId :: "string option"

record run_record =
  rn_jobId :: string
  rn_runId :: string
  rn_prompt :: "(string \<times> string \<times> (string \<times> string \<times> string option) option \<times> bool) option"

record hb_env =
  he_runId :: string
  he_newSession :: "string option"
  he_sessionError :: string
  he_prompt :: "string \<Rightarrow> string \<Rightarrow> prompt_result"
  he_delivery :: delivery_env
  he_end :: int
  he_logged :: bool
  he_bytes :: "log_line \<Rightarrow> nat"

record hb_world =
  hb_store :: store_file
  hb_events :: event_queues
  hb_sessions :: sessions
  hb_logs :: log_files
  hb_sent :: "sent list"
  hb_runs :: "run_record list"

definition set_state :: "calendar \<Rightarrow> int \<Rightarrow> string \<Rightarrow> state_patch \<Rightarrow> hb_world \<Rightarrow> hb_world" where
  "set_state cal now jobId p w = w\<lparr>hb_store := snd (store_updateState cal now jobId p (hb_store w))\<rparr>"

definition set_job :: "calendar \<Rightarrow> int \<Rightarrow> string \<Rightarrow> job_patch \<Rightarrow> hb_world \<Rightarrow> hb_world" where
  "set_job cal now jobId p w = w\<lparr>hb_store := snd (store_update cal now jobId p (hb_store w))\<rparr>"

text \<open>\<open>0\<close> and undefined are both falsy.\<close>

fun nonzero :: "int option \<Rightarrow> int option" where
  "nonzero None = None"
| "nonzero (Some t) = (if t = 0 then None else Some t)"

definition next_fire :: "calendar \<Rightarrow> cron_job \<Rightarrow> int \<Rightarrow> int option" where
  "next_fire cal job now = nonzero (computeNextRunAtMs cal (cj_schedule job) now)"

definition staggered :: "calendar \<Rightarrow> cron_job \<Rightarrow> int \<Rightarrow> int option" where
  "staggered cal job now =
     map_option (\<lambda>t. t + computeStaggerMs (cj_schedule job) (cj_id job) no_stagger_opts) (next_fire cal job now)"

section \<open>Running a job\<close>

definition modelSpec :: "cron_job \<Rightarrow> (string \<times> string \<times> string option) option" where
  "modelSpec job =
     (case cj_payload job of
        System_event t \<Rightarrow> None
      | Agent_turn message model account light \<Rightarrow>
          (let modelStr = (case js_lastModel (cj_state job) of None \<Rightarrow> model | Some m \<Rightarrow> Some m);
               accountId = (case js_lastAccountId (cj_state job) of None \<Rightarrow> account | Some a \<Rightarrow> Some a)
           in if \<not> truthy modelStr then None
              else (case js_split CHR ''/'' (the modelStr) of
                      [] \<Rightarrow> None
                    | providerId # rest \<Rightarrow>
                        (let modelID = js_join ''/'' rest
                         in if providerId = [] \<or> modelID = [] then None
                            else Some (providerId, modelID, accountId)))))"

definition event_context :: "system_event list \<Rightarrow> string" where
  "event_context events =
     (if events = [] then []
      else cron_newline @ cron_newline @ ''System events since last run:'' @ cron_newline @
           js_join cron_newline (map (\<lambda>e. ''- '' @ se_text e) events))"

text \<open>Persisting the identity of the execution, for the next run.\<close>

definition persist_execution :: "calendar \<Rightarrow> int \<Rightarrow> cron_job \<Rightarrow> execution option \<Rightarrow> hb_world \<Rightarrow> hb_world" where
  "persist_execution cal now job ex w =
     (case (ex, cj_payload job) of
        (Some e, Agent_turn message model account light) \<Rightarrow>
          (let rotatedModel = ex_providerId e @ ''/'' @ ex_modelID e;
               m = (case js_lastModel (cj_state job) of None \<Rightarrow> model | Some m \<Rightarrow> Some m);
               a = (case js_lastAccountId (cj_state job) of None \<Rightarrow> account | Some a \<Rightarrow> Some a)
           in if Some rotatedModel \<noteq> m \<or> ex_accountId e \<noteq> a
              then set_state cal now (cj_id job)
                     [Last_model (Some rotatedModel), Last_account (ex_accountId e)] w
              else w)
      | _ \<Rightarrow> w)"

definition record_run ::
  "cron_job \<Rightarrow> string \<Rightarrow> (string \<times> string \<times> (string \<times> string \<times> string option) option \<times> bool) option \<Rightarrow>
   hb_world \<Rightarrow> hb_world" where
  "record_run job runId p w =
     w\<lparr>hb_runs := hb_runs w @ [\<lparr>rn_jobId = cj_id job, rn_runId = runId, rn_prompt = p\<rparr>]\<rparr>"

definition executeJobRun ::
  "calendar \<Rightarrow> hb_env \<Rightarrow> cron_job \<Rightarrow> system_event list \<Rightarrow> int \<Rightarrow> hb_world \<Rightarrow> job_run_result \<times> hb_world" where
  "executeJobRun cal env job events now w =
     (case cj_payload job of
        System_event text' \<Rightarrow>
          (\<lparr>jr_hasActionableContent = js_trim text' \<noteq> [] \<and> js_trim text' \<noteq> HEARTBEAT_OK_TOKEN,
            jr_summary = Some text', jr_sessionId = None\<rparr>, record_run job (he_runId env) None w)
      | Agent_turn message model account light \<Rightarrow>
          (let text' = message @ event_context events
           in if js_trim text' = []
              then (\<lparr>jr_hasActionableContent = False, jr_summary = Some ''Empty cron prompt'', jr_sessionId = None\<rparr>,
                    record_run job (he_runId env) None w)
              else (case session_resolve (he_newSession env) now job (he_runId env) (hb_sessions w) of
                      (None, ss) \<Rightarrow>
                        (\<lparr>jr_hasActionableContent = False, jr_summary = Some (''Session resolve failed: '' @ he_sessionError env),
                          jr_sessionId = None\<rparr>, record_run job (he_runId env) None (w\<lparr>hb_sessions := ss\<rparr>))
                    | (Some r, ss) \<Rightarrow>
                        if rs_sessionId r = []
                        then (\<lparr>jr_hasActionableContent = False,
                               jr_summary = Some ''Session target 'main' is not yet supported for cron execution'',
                               jr_sessionId = None\<rparr>, record_run job (he_runId env) None (w\<lparr>hb_sessions := ss\<rparr>))
                        else (let w1 = record_run job (he_runId env)
                                    (Some (rs_sessionId r, text', modelSpec job, light)) (w\<lparr>hb_sessions := ss\<rparr>)
                              in case he_prompt env (rs_sessionId r) text' of
                                   Prompt_throws e \<Rightarrow>
                                     (\<lparr>jr_hasActionableContent = True, jr_summary = Some (''Agent turn failed: '' @ e),
                                       jr_sessionId = Some (rs_sessionId r)\<rparr>, w1)
                                 | Prompt_parts ps ex \<Rightarrow>
                                     (let t = take 4000 (js_trim (concat ps));
                                          summary = (if t = [] then ''Agent turn completed (no text output)'' else t)
                                      in (\<lparr>jr_hasActionableContent = True, jr_summary = Some summary,
                                           jr_sessionId = Some (rs_sessionId r)\<rparr>,
                                          persist_execution cal now job ex w1))))))"

section \<open>Evaluating a job\<close>

definition hb_result :: "heartbeat_status \<Rightarrow> bool \<Rightarrow> nat \<Rightarrow> string option \<Rightarrow> heartbeat_result" where
  "hb_result st actionable n reason =
     \<lparr>hr_status = st, hr_hasActionableContent = actionable, hr_eventsProcessed = n, hr_suppressionReason = reason\<rparr>"

text \<open>A job whose next run is more than the threshold ago.\<close>

definition skip_stale :: "calendar \<Rightarrow> cron_job \<Rightarrow> int \<Rightarrow> hb_world \<Rightarrow> hb_world" where
  "skip_stale cal job now w =
     (case staggered cal job now of
        Some t \<Rightarrow> set_state cal now (cj_id job) [Next_run (Some t)] w
      | None \<Rightarrow>
          if is_at (cj_schedule job)
          then (let w1 = set_job cal now (cj_id job)
                      \<lparr>jp_keys = [Set_enabled False],
                       jp_state = Some [Next_run None, Last_run (Some now), Last_status (Some Run_skipped)]\<rparr> w
                in if truthy (cj_dormantSessionID job)
                   then w1\<lparr>hb_sessions := session_release now (the (cj_dormantSessionID job)) (hb_sessions w1)\<rparr>
                   else w1)
          else w)"

definition reschedule :: "calendar \<Rightarrow> cron_job \<Rightarrow> int \<Rightarrow> state_patch \<Rightarrow> hb_world \<Rightarrow> hb_world" where
  "reschedule cal job now extra w =
     (case staggered cal job now of
        Some t \<Rightarrow> set_state cal now (cj_id job) (Next_run (Some t) # extra) w
      | None \<Rightarrow> w)"

text \<open>From the delivery of the outcome on. \<open>None\<close> is an exception, from writing the log.\<close>

definition finish_run ::
  "calendar \<Rightarrow> hb_env \<Rightarrow> cron_job \<Rightarrow> job_run_result \<Rightarrow> int \<Rightarrow> hb_world \<Rightarrow> bool \<times> hb_world" where
  "finish_run cal env job result now w =
     (let outcome = \<lparr>ro_status = (if jr_hasActionableContent result then Run_ok else Run_skipped),
                     ro_error = None, ro_summary = jr_summary result, ro_durationMs = Some (he_end env - now)\<rparr>;
          (d, s) = deliver_run (he_delivery env) (cj_delivery job) outcome (cj_name job) (cj_id job) (he_runId env);
          w1 = w\<lparr>hb_sent := hb_sent w @ s\<rparr>
      in if \<not> he_logged env then (False, w1)
         else (let w2 = w1\<lparr>hb_logs := log_append (he_bytes env)
                      \<lparr>rl_jobId = cj_id job, rl_runId = he_runId env, rl_startedAtMs = now,
                       rl_completedAtMs = Some (he_end env), rl_status = Some (ro_status outcome),
                       rl_summary = ro_summary outcome, rl_sessionId = jr_sessionId result,
                       rl_durationMs = ro_durationMs outcome\<rparr> (hb_logs w1)\<rparr>;
                   settleOneShot = (next_fire cal job now = None \<and> is_at (cj_schedule job));
                   w3 = set_job cal now (cj_id job)
                     \<lparr>jp_keys = (if settleOneShot then [Set_enabled False] else []),
                      jp_state = Some [Next_run (staggered cal job now), Last_run (Some now),
                        Last_status (Some (ro_status outcome)),
                        Consecutive (Some (if ro_status outcome = Run_error
                          then Suc (case js_consecutiveErrors (cj_state job) of None \<Rightarrow> 0 | Some n \<Rightarrow> n) else 0))]\<rparr> w2
               in (True, if cj_deleteAfterRun job
                         then w3\<lparr>hb_store := snd (store_remove (cj_id job) (hb_store w3))\<rparr> else w3)))"

text \<open>\<open>None\<close> is an exception.\<close>

definition evaluateJob ::
  "calendar \<Rightarrow> heartbeat_config \<Rightarrow> hb_env \<Rightarrow> cron_job \<Rightarrow> int \<Rightarrow> hb_world \<Rightarrow> heartbeat_result option \<times> hb_world" where
  "evaluateJob cal config env job now w =
     (let nextRun = nonzero (js_nextRunAtMs (cj_state job));
          skipped = Some (hb_result Hb_skipped False 0 None)
      in if (case nextRun of None \<Rightarrow> False | Some t \<Rightarrow> now < t) then (skipped, w)
         else if (case nextRun of None \<Rightarrow> False | Some t \<Rightarrow> STALE_THRESHOLD_MS < now - t)
         then (skipped, skip_stale cal job now w)
         else (case hours_check cal (hc_activeHours config) now of
                 None \<Rightarrow> (None, w)
               | Some (Gate_closed t) \<Rightarrow>
                   (Some (hb_result Hb_outside_hours False 0 (Some ''outside active hours'')),
                    set_state cal now (cj_id job) [Next_run (Some t)] w)
               | Some Gate_open \<Rightarrow>
                   (let (events, q) = se_drain (''cron:'' @ cj_id job) (hb_events w);
                        w1 = w\<lparr>hb_events := q\<rparr>
                    in if cj_wakeMode job = Next_heartbeat \<and> events = []
                       then (skipped, reschedule cal job now [] w1)
                       else (let (result, w2) = executeJobRun cal env job events now w1
                             in if hc_suppressOnOk config \<and> \<not> jr_hasActionableContent result
                                then (Some (hb_result Hb_suppressed False (length events) (Some HEARTBEAT_OK_TOKEN)),
                                      reschedule cal job now [Last_run (Some now), Last_status (Some Run_ok)] w2)
                                else (case finish_run cal env job result now w2 of
                                        (False, w3) \<Rightarrow> (None, w3)
                                      | (True, w3) \<Rightarrow>
                                          (Some (hb_result Hb_executed (jr_hasActionableContent result) (length events) None),
                                           w3))))))"

text \<open>A tick: the jobs that were enabled when it began, each under the safety net.\<close>

definition tick_job ::
  "calendar \<Rightarrow> heartbeat_config \<Rightarrow> (string \<Rightarrow> hb_env) \<Rightarrow> int \<Rightarrow> cron_job \<Rightarrow> hb_world \<Rightarrow> hb_world" where
  "tick_job cal config env now job w =
     (case evaluateJob cal config (env (cj_id job)) job now w of
        (Some r, w') \<Rightarrow> w'
      | (None, w') \<Rightarrow> reschedule cal job now [] w')"

definition tick :: "calendar \<Rightarrow> heartbeat_config \<Rightarrow> (string \<Rightarrow> hb_env) \<Rightarrow> int \<Rightarrow> hb_world \<Rightarrow> hb_world" where
  "tick cal config env now w = fold (tick_job cal config env now) (store_listEnabled (hb_store w)) w"

section \<open>Recovery\<close>

record recovery_result =
  rv_total :: nat
  rv_clean :: nat
  rv_skippedToNext :: nat
  rv_disabledExpired :: nat
  rv_backoffApplied :: nat

definition recoverJob ::
  "calendar \<Rightarrow> int \<Rightarrow> cron_job \<Rightarrow> recovery_result \<times> hb_world \<Rightarrow> recovery_result \<times> hb_world" where
  "recoverJob cal now job acc =
     (let (result, w) = acc;
          nextRun = nonzero (js_nextRunAtMs (cj_state job));
          clean = result\<lparr>rv_clean := Suc (rv_clean result)\<rparr>;
          expired = result\<lparr>rv_disabledExpired := Suc (rv_disabledExpired result)\<rparr>;
          disabled = set_job cal now (cj_id job) \<lparr>jp_keys = [Set_enabled False], jp_state = Some [Next_run None]\<rparr> w
      in case nextRun of
           None \<Rightarrow>
             (case next_fire cal job now of
                Some t \<Rightarrow> (clean, set_state cal now (cj_id job) [Next_run (Some t)] w)
              | None \<Rightarrow> if is_at (cj_schedule job) then (expired, disabled) else (clean, w))
         | Some t \<Rightarrow>
             if now < t then (clean, w)
             else if is_at (cj_schedule job) then (expired, disabled)
             else (case next_fire cal job now of
                     None \<Rightarrow> (result, w)
                   | Some natural \<Rightarrow>
                       (let errors = (case js_consecutiveErrors (cj_state job) of None \<Rightarrow> 0 | Some n \<Rightarrow> n);
                            backoff = the (backoffMs errors None);
                            t' = (if 0 < errors then max natural (now + backoff) else natural);
                            r1 = (if 0 < errors then result\<lparr>rv_backoffApplied := Suc (rv_backoffApplied result)\<rparr>
                                  else result)
                        in (r1\<lparr>rv_skippedToNext := Suc (rv_skippedToNext r1)\<rparr>,
                            set_state cal now (cj_id job) [Next_run (Some t')] w))))"

definition recoverSchedules :: "calendar \<Rightarrow> int \<Rightarrow> hb_world \<Rightarrow> recovery_result \<times> hb_world" where
  "recoverSchedules cal now w =
     (let jobs = store_listEnabled (hb_store w);
          result = \<lparr>rv_total = length jobs, rv_clean = 0, rv_skippedToNext = 0, rv_disabledExpired = 0,
                    rv_backoffApplied = 0\<rparr>
      in fold (recoverJob cal now) jobs (result, w))"

definition isHeartbeatOk :: "string \<Rightarrow> bool" where
  "isHeartbeatOk text' \<longleftrightarrow> js_trim text' = HEARTBEAT_OK_TOKEN"

section \<open>Due jobs\<close>

lemma update_frames [simp]:
  "hb_runs (set_state cal now k p w) = hb_runs w" "hb_runs (set_job cal now k q w) = hb_runs w"
  "hb_events (set_state cal now k p w) = hb_events w" "hb_logs (set_state cal now k p w) = hb_logs w"
  "hb_runs (skip_stale cal job now w) = hb_runs w" "hb_runs (reschedule cal job now extra w) = hb_runs w"
  by (simp_all add: set_state_def set_job_def skip_stale_def reschedule_def Let_def split: option.splits)

lemma persist_frame [simp]: "hb_runs (persist_execution cal now job ex w) = hb_runs w"
  by (auto simp: persist_execution_def Let_def split: option.splits cron_payload.splits)

lemma execute_runs:
  "\<exists>p. hb_runs (snd (executeJobRun cal env job events now w)) =
    hb_runs w @ [\<lparr>rn_jobId = cj_id job, rn_runId = he_runId env, rn_prompt = p\<rparr>]"
  by (auto simp: executeJobRun_def record_run_def Let_def split: cron_payload.splits prod.splits option.splits
      prompt_result.splits)

lemma finish_frame: "hb_runs (snd (finish_run cal env job result now w)) = hb_runs w"
  by (simp add: finish_run_def Let_def split_beta)

definition due :: "cron_job \<Rightarrow> int \<Rightarrow> bool" where
  "due job now \<longleftrightarrow> (case nonzero (js_nextRunAtMs (cj_state job)) of
     None \<Rightarrow> True | Some t \<Rightarrow> t \<le> now \<and> now - t \<le> STALE_THRESHOLD_MS)"

text \<open>What an evaluation does to a job that is due while the gate is open.\<close>

lemma evaluate_due:
  assumes "due job now" and "hours_check cal (hc_activeHours config) now = Some Gate_open"
    and "se_drain (''cron:'' @ cj_id job) (hb_events w) = (events, q)"
    and "cj_wakeMode job = Wake_now \<or> events \<noteq> []"
    and "executeJobRun cal env job events now (w\<lparr>hb_events := q\<rparr>) = (result, w2)"
  shows "evaluateJob cal config env job now w =
    (if hc_suppressOnOk config \<and> \<not> jr_hasActionableContent result
     then (Some (hb_result Hb_suppressed False (length events) (Some HEARTBEAT_OK_TOKEN)),
           reschedule cal job now [Last_run (Some now), Last_status (Some Run_ok)] w2)
     else (case finish_run cal env job result now w2 of
             (False, w3) \<Rightarrow> (None, w3)
           | (True, w3) \<Rightarrow> (Some (hb_result Hb_executed (jr_hasActionableContent result) (length events) None), w3)))"
  using assms by (auto simp: evaluateJob_def due_def Let_def split: option.splits)

text \<open>C35 (safety): Evaluating a job runs it at most once, and only when its next run is not in the future and at
  most five minutes ago, the hours gate is open, and the job wakes now or has queued events; a job that
  waits for the heartbeat and has none is never run.\<close>

theorem runs_only_when_due:
  assumes "hb_runs (snd (evaluateJob cal config env job now w)) \<noteq> hb_runs w"
  shows "due job now \<and> hours_check cal (hc_activeHours config) now = Some Gate_open \<and>
    (cj_wakeMode job = Wake_now \<or> se_queue (''cron:'' @ cj_id job) (hb_events w) \<noteq> []) \<and>
    (\<exists>r. hb_runs (snd (evaluateJob cal config env job now w)) = hb_runs w @ [r] \<and> rn_jobId r = cj_id job)"
proof -
  obtain events q where d: "se_drain (''cron:'' @ cj_id job) (hb_events w) = (events, q)" by fastforce
  have ev: "events = se_queue (''cron:'' @ cj_id job) (hb_events w)"
    using d by (auto simp: se_drain_def se_queue_def split: option.splits if_splits)
  obtain result w2 where x: "executeJobRun cal env job events now (w\<lparr>hb_events := q\<rparr>) = (result, w2)" by fastforce
  have due: "due job now"
    using assms by (auto simp: due_def evaluateJob_def Let_def split: option.splits if_splits)
  have gate: "hours_check cal (hc_activeHours config) now = Some Gate_open"
    using assms by (auto simp: evaluateJob_def Let_def split: option.splits if_splits gate_result.splits)
  have wake: "cj_wakeMode job = Wake_now \<or> events \<noteq> []"
  proof (rule ccontr)
    assume "\<not> ?thesis"
    then have "cj_wakeMode job = Next_heartbeat" "events = []" by (cases "cj_wakeMode job", auto)
    then show False using assms gate due d
      by (auto simp: evaluateJob_def due_def Let_def split: option.splits if_splits)
  qed
  obtain p where "hb_runs w2 = hb_runs w @ [\<lparr>rn_jobId = cj_id job, rn_runId = he_runId env, rn_prompt = p\<rparr>]"
    using execute_runs [of cal env job events now "w\<lparr>hb_events := q\<rparr>"] x by auto
  moreover have "hb_runs (snd (evaluateJob cal config env job now w)) = hb_runs w2"
    using finish_frame [of cal env job result now w2]
    by (auto simp: evaluate_due [OF due gate d wake x] split: prod.splits bool.splits)
  ultimately show ?thesis using due gate wake ev by simp
qed

theorem runs_only_when_due_witness:
  "\<exists>w config env. hb_runs (snd (evaluateJob utc config env reminder 5 w)) \<noteq> hb_runs w \<and> due reminder 5"
proof -
  define config where "config = \<lparr>hc_activeHours = None, hc_suppressOnOk = True\<rparr>"
  define env where "env = \<lparr>he_runId = ''r1'', he_newSession = None, he_sessionError = [],
    he_prompt = (\<lambda>s t. Prompt_throws []), he_delivery = \<lparr>de_publish = None, de_fetch = Fetch_throws []\<rparr>,
    he_end = 6, he_logged = True, he_bytes = (\<lambda>l. 100)\<rparr>"
  define w where "w = \<lparr>hb_store = Store [reminder], hb_events = [], hb_sessions = [], hb_logs = [],
    hb_sent = [], hb_runs = []\<rparr>"
  have due: "due reminder 5" by (simp add: due_def reminder_def empty_state_def)
  have gate: "hours_check utc (hc_activeHours config) 5 = Some Gate_open" by (simp add: config_def hours_check_def)
  have drain: "se_drain (''cron:'' @ cj_id reminder) (hb_events w) = ([], [])" by (simp add: w_def se_drain_def)
  obtain result w2 where x: "executeJobRun utc env reminder [] 5 (w\<lparr>hb_events := []\<rparr>) = (result, w2)" by fastforce
  have "hb_runs w2 \<noteq> []" using x by (auto simp: executeJobRun_def reminder_def record_run_def)
  then have ne: "hb_runs (snd (evaluateJob utc config env reminder 5 w)) \<noteq> hb_runs w"
    using finish_frame [of utc env reminder result 5 w2] evaluate_due [OF due gate drain _ x]
    by (auto simp: reminder_def w_def split: prod.splits bool.splits)
  from runs_only_when_due [OF ne] ne show ?thesis by blast
qed

section \<open>Progress\<close>

lemma store_get_set:
  "store_get k (hb_store (set_state cal now k' p w)) =
    (if k = k' then map_option (patched cal now \<lparr>jp_keys = [], jp_state = Some p\<rparr>) (store_get k (hb_store w))
     else store_get k (hb_store w))"
  "store_get k (hb_store (set_job cal now k' q w)) =
    (if k = k' then map_option (patched cal now q) (store_get k (hb_store w)) else store_get k (hb_store w))"
  by (simp_all add: set_state_def set_job_def store_updateState_def store_get_update)

lemma patched_next:
  assumes "\<not> list_ex is_next_run ps"
  shows "js_nextRunAtMs (cj_state (patched cal now \<lparr>jp_keys = ks, jp_state = Some (Next_run v # ps)\<rparr> j)) = v"
  using spread_state_next_run [OF assms] by (simp add: patched_def Let_def)

lemma computeStagger_nonneg: "0 \<le> computeStaggerMs s jobId no_stagger_opts"
  by (cases s) (auto simp: computeStaggerMs_def no_stagger_opts_def Let_def)

lemma next_fire_future:
  assumes "computeNextRunAtMs cal (cj_schedule job) now \<noteq> None" and "0 \<le> now"
  shows "\<exists>t. staggered cal job now = Some t \<and> now < t \<and> next_fire cal job now \<noteq> None"
proof -
  obtain t where t: "computeNextRunAtMs cal (cj_schedule job) now = Some t" using assms(1) by blast
  have "next_fire cal job now = Some t" using sched.present [OF assms(2) t] t by (simp add: next_fire_def)
  then show ?thesis using sched.delayed [OF t computeStagger_nonneg [of "cj_schedule job" "cj_id job"]]
    by (simp add: staggered_def)
qed

lemma gate_closed_future:
  assumes "hours_check cal c now = Some (Gate_closed t)"
  shows "now < t"
proof -
  have nonneg: "0 \<le> s" if "parseHHMM x = Some s" for x s
    using that by (auto simp: parseHHMM_def hhmm_number_def Let_def split: list.splits option.splits if_splits)
  have less: "m < 1440" if "getCurrentMinutes cal now z = Some m" for z m
    using that by (auto simp: getCurrentMinutes_def getHours_def getMinutes_def minutes_of_day split: option.splits if_splits)
  have "now < computeNextWindowOpen s m now" if "0 \<le> s" "m < 1440" for s m
    using that by (simp add: computeNextWindowOpen_def Let_def)
  then show ?thesis using assms nonneg less
    by (auto simp: hours_check_def split: option.splits if_splits)
qed

definition moved_on :: "int \<Rightarrow> string \<Rightarrow> hb_world \<Rightarrow> bool" where
  "moved_on now k w \<longleftrightarrow> (\<exists>j t. store_get k (hb_store w) = Some j \<and> js_nextRunAtMs (cj_state j) = Some t \<and> now < t)"

lemma moved_on_set:
  assumes "store_get k (hb_store w) \<noteq> None" and "now < t" and "\<not> list_ex is_next_run ps"
  shows "moved_on now k (set_state cal now' k (Next_run (Some t) # ps) w)"
  using assms patched_next [OF assms(3)] by (auto simp: moved_on_def store_get_set)

lemma reschedule_moves:
  assumes "store_get (cj_id job) (hb_store w) \<noteq> None" and "staggered cal job now = Some t" and "now < t"
    and "\<not> list_ex is_next_run extra"
  shows "moved_on now (cj_id job) (reschedule cal job now extra w)"
  using assms by (simp add: reschedule_def moved_on_set)

lemma execute_keeps_job:
  "store_get k (hb_store (snd (executeJobRun cal env job events now w))) = None \<longleftrightarrow> store_get k (hb_store w) = None"
proof -
  have "store_get k (hb_store (persist_execution cal now job ex v)) = None \<longleftrightarrow> store_get k (hb_store v) = None" for ex v
    by (auto simp: persist_execution_def store_get_set Let_def split: option.splits cron_payload.splits)
  then show ?thesis
    by (auto simp: executeJobRun_def record_run_def Let_def split: cron_payload.splits prod.splits option.splits
        prompt_result.splits)
qed

lemma finish_stored:
  assumes "finish_run cal env job result now w = (ok, w3)" and "store_get (cj_id job) (hb_store w) = Some j"
  shows "if \<not> ok then hb_store w3 = hb_store w
    else if cj_deleteAfterRun job then store_get (cj_id job) (hb_store w3) = None
    else \<exists>ks ps. \<not> list_ex is_next_run ps \<and> store_get (cj_id job) (hb_store w3) =
      Some (patched cal now \<lparr>jp_keys = ks, jp_state = Some (Next_run (staggered cal job now) # ps)\<rparr> j)"
proof -
  let ?st = "if jr_hasActionableContent result then Run_ok else Run_skipped"
  let ?ps = "[Last_run (Some now), Last_status (Some ?st), Consecutive (Some (if ?st = Run_error
      then Suc (case js_consecutiveErrors (cj_state job) of None \<Rightarrow> 0 | Some n \<Rightarrow> n) else 0))]"
  have "\<not> list_ex is_next_run ?ps" by simp
  then show ?thesis using assms
    by (auto simp: finish_run_def Let_def split_beta store_get_set store_get_remove split: if_splits intro!: exI [of _ ?ps])
qed

definition settled :: "int \<Rightarrow> cron_job \<Rightarrow> hb_world \<Rightarrow> bool" where
  "settled now job w \<longleftrightarrow> moved_on now (cj_id job) w \<or>
     cj_deleteAfterRun job \<and> store_get (cj_id job) (hb_store w) = None"

lemma when_cases:
  obtains (future) n where "nonzero (js_nextRunAtMs (cj_state job)) = Some n" and "now < n"
    | (stale) n where "nonzero (js_nextRunAtMs (cj_state job)) = Some n" and "STALE_THRESHOLD_MS < now - n"
    | (due) "due job now"
proof (cases "nonzero (js_nextRunAtMs (cj_state job))")
  case None
  then show ?thesis using due by (simp add: due_def)
next
  case (Some n)
  then show ?thesis using future [OF Some] stale [OF Some] due by (force simp: due_def)
qed

lemma nonzero_Some [simp]: "nonzero x = Some n \<longleftrightarrow> x = Some n \<and> n \<noteq> 0"
  by (cases x) auto

lemma evaluate_not_due:
  "nonzero (js_nextRunAtMs (cj_state job)) = Some n \<Longrightarrow> now < n \<Longrightarrow>
    evaluateJob cal config env job now w = (Some (hb_result Hb_skipped False 0 None), w)"
  "nonzero (js_nextRunAtMs (cj_state job)) = Some n \<Longrightarrow> STALE_THRESHOLD_MS < now - n \<Longrightarrow>
    evaluateJob cal config env job now w = (Some (hb_result Hb_skipped False 0 None), skip_stale cal job now w)"
  by (simp_all add: evaluateJob_def Let_def STALE_THRESHOLD_MS_def)

lemma evaluate_shut:
  assumes "due job now" and "hours_check cal (hc_activeHours config) now \<noteq> Some Gate_open"
  shows "evaluateJob cal config env job now w =
    (case hours_check cal (hc_activeHours config) now of
       Some (Gate_closed t) \<Rightarrow> (Some (hb_result Hb_outside_hours False 0 (Some ''outside active hours'')),
         set_state cal now (cj_id job) [Next_run (Some t)] w)
     | _ \<Rightarrow> (None, w))"
  using assms by (auto simp: evaluateJob_def due_def Let_def split: option.splits gate_result.splits)

lemma evaluate_quiet:
  assumes "due job now" and "hours_check cal (hc_activeHours config) now = Some Gate_open"
    and "se_drain (''cron:'' @ cj_id job) (hb_events w) = ([], q)" and "cj_wakeMode job \<noteq> Wake_now"
  shows "evaluateJob cal config env job now w =
    (Some (hb_result Hb_skipped False 0 None), reschedule cal job now [] (w\<lparr>hb_events := q\<rparr>))"
proof -
  have "cj_wakeMode job = Next_heartbeat" using assms(4) by (cases "cj_wakeMode job") auto
  then show ?thesis using assms by (auto simp: evaluateJob_def due_def Let_def split: option.splits)
qed

text \<open>The end of a run: executed, suppressed, or failed under the safety net.\<close>

lemma run_settles:
  assumes "due job now" and "hours_check cal (hc_activeHours config) now = Some Gate_open"
    and "se_drain (''cron:'' @ cj_id job) (hb_events w) = (events, q)"
    and "cj_wakeMode job = Wake_now \<or> events \<noteq> []" and "store_get (cj_id job) (hb_store w) \<noteq> None"
    and "staggered cal job now = Some t" and "now < t"
  shows "settled now job (case evaluateJob cal config env job now w of
    (Some r, v) \<Rightarrow> v | (None, v) \<Rightarrow> reschedule cal job now [] v)"
proof -
  obtain result w2 where x: "executeJobRun cal env job events now (w\<lparr>hb_events := q\<rparr>) = (result, w2)" by fastforce
  then obtain j where j: "store_get (cj_id job) (hb_store w2) = Some j"
    using execute_keeps_job [of "cj_id job" cal env job events now "w\<lparr>hb_events := q\<rparr>"] assms(5) by auto
  obtain ok w3 where fin: "finish_run cal env job result now w2 = (ok, w3)" by fastforce
  have "moved_on now (cj_id job) w3" if "ok" "\<not> cj_deleteAfterRun job"
    using finish_stored [OF fin j] that patched_next assms(6,7) by (auto simp: moved_on_def)
  moreover have "moved_on now (cj_id job) (reschedule cal job now [] w3)" if "\<not> ok"
    using finish_stored [OF fin j] that j assms(6,7) by (intro reschedule_moves) auto
  moreover have "moved_on now (cj_id job) (reschedule cal job now [Last_run (Some now), Last_status (Some Run_ok)] w2)"
    using j assms(6,7) by (intro reschedule_moves) auto
  ultimately show ?thesis
    using finish_stored [OF fin j] by (cases ok; cases "cj_deleteAfterRun job") (auto simp: evaluate_due [OF assms(1-4) x] fin settled_def)
qed

text \<open>C16 (liveness): A repeated job that has a next fire time never stays in the past: after a tick that looked
  at it, whatever came of it (not due, skipped as stale, outside the hours, no events, suppressed,
  executed, or failed by an exception), its next run is after the tick, unless the run deleted it.\<close>

theorem tick_moves_on:
  assumes "computeNextRunAtMs cal (cj_schedule job) now \<noteq> None" and "0 \<le> now"
    and "store_get (cj_id job) (hb_store w) = Some job"
  shows "settled now job (tick_job cal config env now job w)"
proof -
  obtain t where t: "staggered cal job now = Some t" "now < t"
    using next_fire_future [OF assms(1,2)] by blast
  have move: "settled now job (reschedule cal job now [] u)" if "store_get (cj_id job) (hb_store u) = Some job" for u
    using reschedule_moves [OF _ t, of u "[]"] that by (simp add: settled_def)
  show ?thesis
  proof (cases rule: when_cases [of job now])
    case (future n)
    then show ?thesis using assms(3) by (auto simp: tick_job_def evaluate_not_due settled_def moved_on_def)
  next
    case (stale n)
    then show ?thesis using move [OF assms(3)] t
      by (simp add: tick_job_def evaluate_not_due(2) [OF stale] skip_stale_def reschedule_def)
  next
    case due
    show ?thesis
    proof (cases "hours_check cal (hc_activeHours config) now = Some Gate_open")
      case False
      then show ?thesis
        using move [OF assms(3)] moved_on_set [of "cj_id job" w now _ "[]" cal now] assms(3)
          gate_closed_future [of cal "hc_activeHours config" now]
        by (auto simp: tick_job_def evaluate_shut [OF due False] settled_def split: option.splits gate_result.splits)
    next
      case True
      obtain events q where d: "se_drain (''cron:'' @ cj_id job) (hb_events w) = (events, q)" by fastforce
      show ?thesis
      proof (cases "cj_wakeMode job = Wake_now \<or> events \<noteq> []")
        case wake: False
        then show ?thesis using evaluate_quiet [OF due True, of w q] d move [of "w\<lparr>hb_events := q\<rparr>"] assms(3)
          by (simp add: tick_job_def)
      next
        case wake: True
        show ?thesis using run_settles [OF due True d wake _ t, of "env (cj_id job)"] assms(3) by (simp add: tick_job_def)
      qed
    qed
  qed
qed

definition ping :: cron_job where
  "ping = reminder\<lparr>cj_id := ''p'', cj_schedule := Every 600000 None, cj_wakeMode := Next_heartbeat\<rparr>"

definition quiet_world :: "cron_job list \<Rightarrow> hb_world" where
  "quiet_world js = \<lparr>hb_store = Store js, hb_events = [], hb_sessions = [], hb_logs = [], hb_sent = [], hb_runs = []\<rparr>"

definition quiet_env :: "string \<Rightarrow> hb_env" where
  "quiet_env jobId = \<lparr>he_runId = ''r1'', he_newSession = Some ''ses_1'', he_sessionError = [],
     he_prompt = (\<lambda>s t. Prompt_throws ''overloaded''),
     he_delivery = \<lparr>de_publish = None, de_fetch = Fetch_throws []\<rparr>, he_end = 6, he_logged = True,
     he_bytes = (\<lambda>l. 100)\<rparr>"

definition plain_config :: heartbeat_config where
  "plain_config = \<lparr>hc_activeHours = None, hc_suppressOnOk = True\<rparr>"

theorem tick_moves_on_witness:
  "settled 5 ping (tick_job utc plain_config quiet_env 5 ping (quiet_world [ping]))"
  using tick_moves_on [of utc ping 5 "quiet_world [ping]" plain_config quiet_env]
  by (simp add: ping_def reminder_def computeEvery_def Let_def quiet_world_def store_get_def)

section \<open>One-shots that are not settled\<close>

lemma update_none:
  "store_get (cj_id job) (hb_store w) = Some j \<Longrightarrow> staggered cal job now = None \<Longrightarrow> reschedule cal job now extra w = w"
  by (simp add: reschedule_def)

text \<open>A one-shot whose run has nothing to report is suppressed without being settled: it has no
  next fire time, so nothing is written, and every tick in the five minutes after its time runs it
  again. As many ticks as fall in that time, so many runs.\<close>

theorem suppressed_one_shot_repeats:
  assumes "is_at (cj_schedule job)" and "cj_payload job = System_event HEARTBEAT_OK_TOKEN" and "cj_enabled job"
    and "cj_wakeMode job = Wake_now" and "js_nextRunAtMs (cj_state job) = Some t0" and "t0 \<noteq> 0"
    and "hc_suppressOnOk config" and "hc_activeHours config = None" and "hb_store w = Store [job]"
    and "\<forall>now \<in> set ticks. t0 \<le> now \<and> now \<le> t0 + 300000 \<and> computeNextRunAtMs cal (cj_schedule job) now = None"
    and "w' = fold (tick cal config env) ticks w"
  shows "length (hb_runs w') = length (hb_runs w) + length ticks \<and> hb_store w' = Store [job]"
proof -
  have one: "hb_store (tick cal config env now u) = Store [job] \<and>
      length (hb_runs (tick cal config env now u)) = Suc (length (hb_runs u))"
    if u: "hb_store u = Store [job]" and now: "now \<in> set ticks" for now u
  proof -
    have due: "due job now" using assms(5,6,10) now by (auto simp: due_def STALE_THRESHOLD_MS_def)
    have gate: "hours_check cal (hc_activeHours config) now = Some Gate_open"
      using assms(8) by (simp add: hours_check_def)
    obtain events q where d: "se_drain (''cron:'' @ cj_id job) (hb_events u) = (events, q)" by fastforce
    have none: "staggered cal job now = None" using assms(10) now by (simp add: staggered_def next_fire_def)
    have ok: "js_trim HEARTBEAT_OK_TOKEN = HEARTBEAT_OK_TOKEN" unfolding HEARTBEAT_OK_TOKEN_def by code_simp
    have x: "executeJobRun cal (env (cj_id job)) job events now (u\<lparr>hb_events := q\<rparr>) =
        (\<lparr>jr_hasActionableContent = False, jr_summary = Some HEARTBEAT_OK_TOKEN, jr_sessionId = None\<rparr>,
         record_run job (he_runId (env (cj_id job))) None (u\<lparr>hb_events := q\<rparr>))"
      using assms(2) ok by (simp add: executeJobRun_def)
    have "tick cal config env now u = record_run job (he_runId (env (cj_id job))) None (u\<lparr>hb_events := q\<rparr>)"
      using evaluate_due [OF due gate d _ x] assms(3,4,7) u none
      by (simp add: tick_def store_listEnabled_def store_list_def tick_job_def reschedule_def)
    then show ?thesis using u by (simp add: record_run_def)
  qed
  have "hb_store (fold (tick cal config env) ts u) = Store [job] \<and>
      length (hb_runs (fold (tick cal config env) ts u)) = length (hb_runs u) + length ts"
    if "hb_store u = Store [job]" "set ts \<subseteq> set ticks" for ts u
    using that one by (induction ts arbitrary: u) auto
  then show ?thesis using assms(9,11) by simp
qed

theorem suppressed_one_shot_repeats_witness:
  "length (hb_runs (fold (tick utc plain_config quiet_env) [60000, 120000, 180000]
     (quiet_world [reminder\<lparr>cj_state := empty_state\<lparr>js_nextRunAtMs := Some 60000\<rparr>\<rparr>]))) = 3"
  using suppressed_one_shot_repeats [of "reminder\<lparr>cj_state := empty_state\<lparr>js_nextRunAtMs := Some 60000\<rparr>\<rparr>" 60000
      plain_config "quiet_world [reminder\<lparr>cj_state := empty_state\<lparr>js_nextRunAtMs := Some 60000\<rparr>\<rparr>]"
      "[60000, 120000, 180000]" utc _ quiet_env, OF _ _ _ _ _ _ _ _ _ _ refl]
  by (simp add: reminder_def HEARTBEAT_OK_TOKEN_def plain_config_def quiet_world_def computeAt_def utc_def)

section \<open>Failed runs\<close>

lemma finish_logged:
  assumes "finish_run cal env job result now w = (True, w3)" and "he_logged env"
  shows "\<exists>l. hb_logs w3 = log_append (he_bytes env) l (hb_logs w) \<and> rl_jobId l = cj_id job \<and>
    rl_status l = Some (if jr_hasActionableContent result then Run_ok else Run_skipped)"
  using assms by (auto simp: finish_run_def Let_def split_beta set_job_def)

lemma finish_counts:
  assumes "finish_run cal env job result now w = (True, w3)" and "he_logged env"
    and "store_get (cj_id job) (hb_store w) = Some j" and "\<not> cj_deleteAfterRun job"
  shows "\<exists>j'. store_get (cj_id job) (hb_store w3) = Some j' \<and> js_consecutiveErrors (cj_state j') = Some 0 \<and>
    js_lastRunStatus (cj_state j') = Some (if jr_hasActionableContent result then Run_ok else Run_skipped)"
  using assms by (auto simp: finish_run_def Let_def split_beta store_get_set patched_def)

text \<open>A turn of the model that fails is not an error to the scheduler: whatever the message, the job
  is executed, its log says ok, and its count of consecutive errors is set back to zero, so no back-off
  ever applies.\<close>

theorem failed_turn_counts_as_ok:
  assumes "due job now" and "hours_check cal (hc_activeHours config) now = Some Gate_open"
    and "cj_wakeMode job = Wake_now" and "cj_payload job = Agent_turn message model account light"
    and "js_trim (message @ event_context (se_queue (''cron:'' @ cj_id job) (hb_events w))) \<noteq> []"
    and "session_resolve (he_newSession env) now job (he_runId env) (hb_sessions w) = (Some r, ss)"
    and "rs_sessionId r \<noteq> []"
    and "\<forall>t. he_prompt env (rs_sessionId r) t = Prompt_throws e"
    and "he_logged env" and "store_get (cj_id job) (hb_store w) = Some job" and "\<not> cj_deleteAfterRun job"
  shows "\<exists>v j l. evaluateJob cal config env job now w = (Some v, snd (evaluateJob cal config env job now w)) \<and>
    hr_status v = Hb_executed \<and>
    store_get (cj_id job) (hb_store (snd (evaluateJob cal config env job now w))) = Some j \<and>
    js_consecutiveErrors (cj_state j) = Some 0 \<and> js_lastRunStatus (cj_state j) = Some Run_ok \<and>
    log_of (cj_id job) (hb_logs (snd (evaluateJob cal config env job now w))) =
      append_line (he_bytes env) (Entry l) (log_of (cj_id job) (hb_logs w)) \<and> rl_status l = Some Run_ok"
proof -
  obtain events q where d: "se_drain (''cron:'' @ cj_id job) (hb_events w) = (events, q)" by fastforce
  have ev: "events = se_queue (''cron:'' @ cj_id job) (hb_events w)"
    using d by (auto simp: se_drain_def se_queue_def split: option.splits if_splits)
  let ?text = "message @ event_context events"
  let ?res = "\<lparr>jr_hasActionableContent = True, jr_summary = Some (''Agent turn failed: '' @ e),
    jr_sessionId = Some (rs_sessionId r)\<rparr>"
  let ?w2 = "record_run job (he_runId env) (Some (rs_sessionId r, ?text, modelSpec job, light))
    (w\<lparr>hb_events := q, hb_sessions := ss\<rparr>)"
  have x: "executeJobRun cal env job events now (w\<lparr>hb_events := q\<rparr>) = (?res, ?w2)"
    using assms(4-8) ev by (simp add: executeJobRun_def Let_def)
  have w2: "hb_store ?w2 = hb_store w" "hb_logs ?w2 = hb_logs w" by (simp_all add: record_run_def)
  obtain w3 where fin: "finish_run cal env job ?res now ?w2 = (True, w3)"
    using assms(9) by (simp add: finish_run_def Let_def split_beta)
  have "evaluateJob cal config env job now w =
      (Some (hb_result Hb_executed True (length events) None), w3)"
    using evaluate_due [OF assms(1,2) d disjI1 [OF assms(3)] x] fin by simp
  moreover obtain j where "store_get (cj_id job) (hb_store w3) = Some j" "js_consecutiveErrors (cj_state j) = Some 0"
    "js_lastRunStatus (cj_state j) = Some Run_ok"
    using finish_counts [OF fin assms(9) _ assms(11), of job] assms(10) w2(1) by auto
  moreover obtain l where "log_of (cj_id job) (hb_logs w3) =
      append_line (he_bytes env) (Entry l) (log_of (cj_id job) (hb_logs w))" "rl_status l = Some Run_ok"
    using finish_logged [OF fin assms(9)] w2(2) by (auto simp: log_append_def)
  ultimately show ?thesis by (simp add: hb_result_def) blast
qed

definition chat_job :: cron_job where
  "chat_job = reminder\<lparr>cj_schedule := Every 600000 None, cj_payload := Agent_turn ''hello'' None None False\<rparr>"

theorem failed_turn_counts_as_ok_witness:
  "\<exists>j. store_get ''r'' (hb_store (snd (evaluateJob utc plain_config (quiet_env ''r'') chat_job 5 (quiet_world [chat_job])))) = Some j \<and>
    js_consecutiveErrors (cj_state j) = Some 0"
proof -
  let ?w = "quiet_world [chat_job]"
  have 1: "due chat_job 5" by (simp add: due_def chat_job_def reminder_def empty_state_def)
  have 2: "hours_check utc (hc_activeHours plain_config) 5 = Some Gate_open" by (simp add: plain_config_def hours_check_def)
  have 3: "cj_wakeMode chat_job = Wake_now" "cj_payload chat_job = Agent_turn ''hello'' None None False"
    "\<not> cj_deleteAfterRun chat_job" "cj_id chat_job = ''r''" by (simp_all add: chat_job_def reminder_def)
  have 4: "js_trim (''hello'' @ event_context (se_queue (''cron:'' @ cj_id chat_job) (hb_events ?w))) \<noteq> []"
    by (simp add: quiet_world_def se_queue_def event_context_def js_trim_def js_space_def)
  obtain r ss where 5: "session_resolve (he_newSession (quiet_env ''r'')) 5 chat_job (he_runId (quiet_env ''r'')) (hb_sessions ?w) = (Some r, ss)"
      "rs_sessionId r \<noteq> []"
    by (auto simp: session_resolve_def quiet_env_def chat_job_def reminder_def truthy_def Let_def)
  have 6: "\<forall>t. he_prompt (quiet_env ''r'') (rs_sessionId r) t = Prompt_throws ''overloaded''" "he_logged (quiet_env ''r'')"
    by (simp_all add: quiet_env_def)
  have 7: "store_get (cj_id chat_job) (hb_store ?w) = Some chat_job" by (simp add: quiet_world_def store_get_def)
  from failed_turn_counts_as_ok [OF 1 2 3(1,2) 4 5 6 7 3(3)] 3(4) show ?thesis by auto
qed

section \<open>Recovery catches up\<close>

lemma recover_frame:
  "k \<noteq> cj_id job \<Longrightarrow> store_get k (hb_store (snd (recoverJob cal now job (r, w)))) = store_get k (hb_store w)"
  by (auto simp: recoverJob_def store_get_set Let_def split: option.splits)

lemma recover_fold_frame:
  "k \<notin> cj_id ` set js \<Longrightarrow> store_get k (hb_store (snd (fold (recoverJob cal now) js (r, w)))) = store_get k (hb_store w)"
proof (induction js arbitrary: r w)
  case (Cons j js)
  then show ?case
    using recover_frame [of k j cal now r w] by (cases "recoverJob cal now j (r, w)") auto
qed simp

definition recovered :: "calendar \<Rightarrow> int \<Rightarrow> cron_job \<Rightarrow> cron_job \<Rightarrow> bool" where
  "recovered cal now job j \<longleftrightarrow>
     (is_at (cj_schedule job) \<longrightarrow>
        (\<exists>t. js_nextRunAtMs (cj_state j) = Some t \<and> now < t) \<or> \<not> cj_enabled j \<and> js_nextRunAtMs (cj_state j) = None) \<and>
     (\<not> is_at (cj_schedule job) \<and> computeNextRunAtMs cal (cj_schedule job) now \<noteq> None \<longrightarrow>
        (\<exists>t. js_nextRunAtMs (cj_state j) = Some t \<and> now < t))"

lemma patched_disabled:
  "cj_enabled (patched cal now \<lparr>jp_keys = [Set_enabled False], jp_state = sp\<rparr> j) = False"
  by (simp add: patched_def Let_def)

lemma recover_one:
  assumes "store_get (cj_id job) (hb_store w) = Some job" and "0 \<le> now"
  shows "\<exists>j. store_get (cj_id job) (hb_store (snd (recoverJob cal now job (r, w)))) = Some j \<and> recovered cal now job j"
proof -
  have fire: "\<exists>t. next_fire cal job now = Some t \<and> now < t" if t: "computeNextRunAtMs cal (cj_schedule job) now = Some t" for t
    using sched.present [OF assms(2) t] sched.upcoming_future [OF t] t by (simp add: next_fire_def)
  have later: "now < t" if "next_fire cal job now = Some t" for t
    using that sched.upcoming_future [of cal "cj_schedule job" now t] by (simp add: next_fire_def)
  note defs = recoverJob_def Let_def store_get_set recovered_def patched_next patched_disabled
  show ?thesis
  proof (cases "nonzero (js_nextRunAtMs (cj_state job))")
    case None
    then show ?thesis using assms(1) fire later
      by (cases "next_fire cal job now") (auto simp: defs)
  next
    case (Some n)
    then show ?thesis using assms(1) fire later
      by (cases "next_fire cal job now"; cases "computeNextRunAtMs cal (cj_schedule job) now")
        (auto simp: defs less_max_iff_disj)
  qed
qed

lemma find_distinct:
  "distinct (map cj_id js) \<Longrightarrow> j \<in> set js \<Longrightarrow> List.find (\<lambda>x. cj_id x = cj_id j) js = Some j"
  by (induction js) force+

text \<open>C36 (functional): Recovering the schedules when the daemon starts leaves no enabled job behind: each
  one-shot has a next run after the start or is disabled without one, and each repeated job that has a
  next fire time has its next run after the start, however long the daemon was down.\<close>

theorem recovery_catches_up:
  assumes "distinct (map cj_id (store_jobs (hb_store w)))" and "0 \<le> now"
    and "job \<in> set (store_listEnabled (hb_store w))"
  shows "\<exists>j. store_get (cj_id job) (hb_store (snd (recoverSchedules cal now w))) = Some j \<and> recovered cal now job j"
proof -
  define js where "js = store_listEnabled (hb_store w)"
  have dist: "distinct (map cj_id js)"
    using assms(1) by (simp add: js_def store_listEnabled_def store_list_def distinct_map_filter)
  obtain pre post where js: "js = pre @ job # post" using assms(3) by (auto simp: js_def dest: split_list)
  then have out: "cj_id job \<notin> cj_id ` set pre" "cj_id job \<notin> cj_id ` set post" using dist by auto
  let ?r0 = "\<lparr>rv_total = length js, rv_clean = 0, rv_skippedToNext = 0, rv_disabledExpired = 0, rv_backoffApplied = 0\<rparr>"
  obtain r1 w1 where 1: "fold (recoverJob cal now) pre (?r0, w) = (r1, w1)" by fastforce
  obtain r2 w2 where 2: "recoverJob cal now job (r1, w1) = (r2, w2)" by fastforce
  have "store_get (cj_id job) (hb_store w) = Some job"
    using find_distinct [OF assms(1)] assms(3) by (simp add: store_get_def store_listEnabled_def store_list_def)
  then have "store_get (cj_id job) (hb_store w1) = Some job"
    using recover_fold_frame [OF out(1), of cal now ?r0 w] 1 by simp
  from recover_one [OF this assms(2), of cal r1] obtain j where
    j: "store_get (cj_id job) (hb_store w2) = Some j" "recovered cal now job j" using 2 by auto
  have "recoverSchedules cal now w = fold (recoverJob cal now) post (r2, w2)"
    using 1 2 js by (simp add: recoverSchedules_def flip: js_def)
  then show ?thesis using recover_fold_frame [OF out(2), of cal now r2 w2] j by simp
qed

theorem recovery_catches_up_witness:
  "\<exists>j. store_get ''p'' (hb_store (snd (recoverSchedules utc 900000000 (quiet_world [ping])))) = Some j \<and>
    recovered utc 900000000 ping j"
  using recovery_catches_up [of "quiet_world [ping]" 900000000 ping utc]
  by (simp add: quiet_world_def store_listEnabled_def store_list_def ping_def reminder_def)

end
