(* ===== verification/Json.thy ===== *)
theory Json
  imports Js_Prelude
begin

text \<open>
  \<open>JSON.stringify\<close> and \<open>JSON.parse\<close> of the JavaScript standard library, as the sources use
  them. An integer is an \<open>int\<close> (exact below \<open>2^53\<close>); a number with a fraction or an exponent is
  kept as its text. A string is a list of UTF-8 bytes. Both indented and compact output are
  modelled, and reading what was written gives the value back.
\<close>

datatype json =
    JNull | JBool bool | JInt int | JDec string | JStr string
  | JArr "json list" | JObj "(string \<times> json) list"

section \<open>Printing\<close>

definition hex_digit :: "nat \<Rightarrow> char" where
  [js_defs]: "hex_digit n = (if n < 10 then char_of (48 + n) else char_of (87 + n))"

definition js_escape :: "char \<Rightarrow> string" where
  [js_defs]: "js_escape c =
     (let n = of_char c :: nat in
      if n = 34 then [CHR 0x5C, c]
      else if n = 92 then [c, c]
      else if n = 8 then [CHR 0x5C, CHR ''b'']
      else if n = 9 then [CHR 0x5C, CHR ''t'']
      else if n = 10 then [CHR 0x5C, CHR ''n'']
      else if n = 12 then [CHR 0x5C, CHR ''f'']
      else if n = 13 then [CHR 0x5C, CHR ''r'']
      else if n < 32 then [CHR 0x5C, CHR ''u'', CHR ''0'', CHR ''0'', hex_digit (n div 16), hex_digit (n mod 16)]
      else [c])"

definition js_quote :: "string \<Rightarrow> string" where
  [js_defs]: "js_quote s = CHR 0x22 # concat (map js_escape s) @ [CHR 0x22]"

definition js_show_int :: "int \<Rightarrow> string" where
  [js_defs]: "js_show_int i = (if i < 0 then CHR ''-'' # js_show_nat (nat (- i)) else js_show_nat (nat i))"

text \<open>With a gap every element starts a line of its own, indented by the gap per level.\<close>

definition json_nl :: "string \<Rightarrow> string \<Rightarrow> string" where
  [js_defs]: "json_nl gap ind = (if gap = [] then [] else CHR 0x0A # ind)"

fun js_stringify :: "string \<Rightarrow> string \<Rightarrow> json \<Rightarrow> string" where
  "js_stringify gap ind JNull = ''null''"
| "js_stringify gap ind (JBool b) = (if b then ''true'' else ''false'')"
| "js_stringify gap ind (JInt i) = js_show_int i"
| "js_stringify gap ind (JDec t) = t"
| "js_stringify gap ind (JStr s) = js_quote s"
| "js_stringify gap ind (JArr []) = ''[]''"
| "js_stringify gap ind (JArr (v # vs)) =
     ''['' @ json_nl gap (ind @ gap) @
     js_join (CHR '','' # json_nl gap (ind @ gap)) (map (js_stringify gap (ind @ gap)) (v # vs)) @
     json_nl gap ind @ '']''"
| "js_stringify gap ind (JObj []) = ''{}''"
| "js_stringify gap ind (JObj (p # ps)) =
     ''{'' @ json_nl gap (ind @ gap) @
     js_join (CHR '','' # json_nl gap (ind @ gap))
       (map (\<lambda>(k, v). js_quote k @ '':'' @ (if gap = [] then [] else '' '') @
                      js_stringify gap (ind @ gap) v) (p # ps)) @
     json_nl gap ind @ ''}''"

definition JSON_stringify :: "json \<Rightarrow> string" where
  [js_defs]: "JSON_stringify v = js_stringify [] [] v"

definition JSON_stringify_indent :: "nat \<Rightarrow> json \<Rightarrow> string" where
  [js_defs]: "JSON_stringify_indent n v = js_stringify (replicate n (CHR '' '')) [] v"

section \<open>Parsing\<close>

definition json_ws :: "char \<Rightarrow> bool" where
  [js_defs]: "json_ws c \<longleftrightarrow> c \<in> {CHR '' '', CHR 0x09, CHR 0x0A, CHR 0x0D}"

definition skip_ws :: "string \<Rightarrow> string" where
  [js_defs]: "skip_ws s = dropWhile json_ws s"

definition json_hex :: "char \<Rightarrow> nat option" where
  [js_defs]: "json_hex c =
     (let n = of_char c :: nat in
      if 48 \<le> n \<and> n \<le> 57 then Some (n - 48)
      else if 97 \<le> n \<and> n \<le> 102 then Some (n - 87)
      else if 65 \<le> n \<and> n \<le> 70 then Some (n - 55)
      else None)"

fun hex4 :: "string \<Rightarrow> (nat \<times> string) option" where
  "hex4 (a # b # c # d # r) =
     (case (json_hex a, json_hex b, json_hex c, json_hex d) of
        (Some p, Some q, Some s, Some t) \<Rightarrow> Some (((p * 16 + q) * 16 + s) * 16 + t, r)
      | _ \<Rightarrow> None)"
| "hex4 _ = None"

text \<open>The UTF-8 bytes of a code point; a lone surrogate gets the three bytes of its number.\<close>

definition utf8 :: "nat \<Rightarrow> string" where
  [js_defs]: "utf8 n =
     (if n < 128 then [char_of n]
      else if n < 2048 then [char_of (192 + n div 64), char_of (128 + n mod 64)]
      else if n < 65536 then
        [char_of (224 + n div 4096), char_of (128 + n div 64 mod 64), char_of (128 + n mod 64)]
      else [char_of (240 + n div 262144), char_of (128 + n div 4096 mod 64),
            char_of (128 + n div 64 mod 64), char_of (128 + n mod 64)])"

text \<open>A high surrogate followed by an escaped low one is one code point.\<close>

definition unescape_u :: "string \<Rightarrow> (string \<times> string) option" where
  [js_defs]: "unescape_u s =
     (case hex4 s of
        None \<Rightarrow> None
      | Some (u, r) \<Rightarrow>
          (if 55296 \<le> u \<and> u < 56320 \<and> take 2 r = [CHR 0x5C, CHR ''u''] then
             (case hex4 (drop 2 r) of
                Some (l, r') \<Rightarrow>
                  (if 56320 \<le> l \<and> l < 57344
                   then Some (utf8 (65536 + (u - 55296) * 1024 + (l - 56320)), r')
                   else Some (utf8 u, r))
              | None \<Rightarrow> Some (utf8 u, r))
           else Some (utf8 u, r)))"

lemma hex4_length: "hex4 s = Some (u, r) \<Longrightarrow> length r < length s"
  by (induction s rule: hex4.induct) (auto split: option.splits)

lemma unescape_u_length: "unescape_u s = Some (w, r) \<Longrightarrow> length r < length s"
proof -
  assume a: "unescape_u s = Some (w, r)"
  obtain u q where h: "hex4 s = Some (u, q)"
    using a by (auto simp: unescape_u_def split: option.splits)
  have q: "length q < length s" by (rule hex4_length [OF h])
  have "length r \<le> length q"
    using a h by (auto simp: unescape_u_def dest!: hex4_length split: option.splits if_splits)
  then show ?thesis using q by simp
qed

definition unescape :: "char \<Rightarrow> char option" where
  [js_defs]: "unescape c =
     (if c = CHR 0x22 \<or> c = CHR 0x5C \<or> c = CHR ''/'' then Some c
      else if c = CHR ''b'' then Some (CHR 0x08)
      else if c = CHR ''t'' then Some (CHR 0x09)
      else if c = CHR ''n'' then Some (CHR 0x0A)
      else if c = CHR ''f'' then Some (CHR 0x0C)
      else if c = CHR ''r'' then Some (CHR 0x0D)
      else None)"

text \<open>The characters of a string literal after its opening quote.\<close>

function parse_chars :: "string \<Rightarrow> (string \<times> string) option" where
  "parse_chars [] = None"
| "parse_chars (c # s) =
     (if c = CHR 0x22 then Some ([], s)
      else if c = CHR 0x5C then
        (case s of
           [] \<Rightarrow> None
         | e # r \<Rightarrow>
             (if e = CHR ''u'' then
                (case unescape_u r of
                   None \<Rightarrow> None
                 | Some (w, q) \<Rightarrow> map_option (\<lambda>(t, z). (w @ t, z)) (parse_chars q))
              else (case unescape e of
                      None \<Rightarrow> None
                    | Some d \<Rightarrow> map_option (\<lambda>(t, z). (d # t, z)) (parse_chars r))))
      else if (of_char c :: nat) < 32 then None
      else map_option (\<lambda>(t, z). (c # t, z)) (parse_chars s))"
  by pat_completeness auto
termination
proof (relation "measure length")
  show "wf (measure length)" by simp
qed (auto dest!: unescape_u_length)

definition json_digits :: "string \<Rightarrow> (string \<times> string) option" where
  [js_defs]: "json_digits s =
     (if takeWhile js_digit s = [] then None
      else Some (takeWhile js_digit s, dropWhile js_digit s))"

definition json_frac :: "string \<Rightarrow> (string \<times> string) option" where
  [js_defs]: "json_frac s =
     (case s of
        c # r \<Rightarrow>
          (if c = CHR ''.'' then map_option (\<lambda>(d, q). (c # d, q)) (json_digits r) else Some ([], s))
      | [] \<Rightarrow> Some ([], s))"

definition json_exp :: "string \<Rightarrow> (string \<times> string) option" where
  [js_defs]: "json_exp s =
     (case s of
        c # r \<Rightarrow>
          (if c = CHR ''e'' \<or> c = CHR ''E'' then
             (case r of
                g # q \<Rightarrow>
                  (if g = CHR ''+'' \<or> g = CHR ''-''
                   then map_option (\<lambda>(d, z). (c # g # d, z)) (json_digits q)
                   else map_option (\<lambda>(d, z). (c # d, z)) (json_digits r))
              | [] \<Rightarrow> None)
           else Some ([], s))
      | [] \<Rightarrow> Some ([], s))"

definition json_nat :: "string \<Rightarrow> (string \<times> string) option" where
  [js_defs]: "json_nat s =
     (case json_digits s of
        None \<Rightarrow> None
      | Some (d, r) \<Rightarrow> if 1 < length d \<and> hd d = CHR ''0'' then None else Some (d, r))"

definition parse_number :: "string \<Rightarrow> (json \<times> string) option" where
  [js_defs]: "parse_number s =
     (let neg = (take 1 s = ''-'') in
      case json_nat (if neg then drop 1 s else s) of
        None \<Rightarrow> None
      | Some (d, r) \<Rightarrow>
          (case json_frac r of
             None \<Rightarrow> None
           | Some (f, q) \<Rightarrow>
               (case json_exp q of
                  None \<Rightarrow> None
                | Some (e, z) \<Rightarrow>
                    Some (if f = [] \<and> e = []
                          then JInt (if neg then - int (js_nat_of_digits d) else int (js_nat_of_digits d))
                          else JDec ((if neg then ''-'' else []) @ d @ f @ e), z))))"

text \<open>Of two members with one name the later value stays, at the place of the first.\<close>

definition obj_of :: "(string \<times> json) list \<Rightarrow> (string \<times> json) list" where
  [js_defs]: "obj_of ms = foldl (\<lambda>m (k, v). jset m k v) [] ms"

text \<open>The recursive descent. The fuel bounds the nesting and the elements: the length of the text
  is enough.\<close>

fun parse_value :: "nat \<Rightarrow> string \<Rightarrow> (json \<times> string) option"
  and parse_elems :: "nat \<Rightarrow> string \<Rightarrow> (json list \<times> string) option"
  and parse_members :: "nat \<Rightarrow> string \<Rightarrow> ((string \<times> json) list \<times> string) option"
where
  "parse_value 0 s = None"
| "parse_value (Suc f) s =
     (case skip_ws s of
        [] \<Rightarrow> None
      | c # r \<Rightarrow>
          (if c = CHR 0x22 then map_option (\<lambda>(t, q). (JStr t, q)) (parse_chars r)
           else if c = CHR ''['' then
             (if take 1 (skip_ws r) = '']'' then Some (JArr [], drop 1 (skip_ws r))
              else map_option (\<lambda>(vs, q). (JArr vs, q)) (parse_elems f r))
           else if c = CHR ''{'' then
             (if take 1 (skip_ws r) = ''}'' then Some (JObj [], drop 1 (skip_ws r))
              else map_option (\<lambda>(ms, q). (JObj (obj_of ms), q)) (parse_members f r))
           else if take 4 (c # r) = ''true'' then Some (JBool True, drop 3 r)
           else if take 5 (c # r) = ''false'' then Some (JBool False, drop 4 r)
           else if take 4 (c # r) = ''null'' then Some (JNull, drop 3 r)
           else parse_number (c # r)))"
| "parse_elems 0 s = None"
| "parse_elems (Suc f) s =
     (case parse_value f s of
        None \<Rightarrow> None
      | Some (v, r) \<Rightarrow>
          (case skip_ws r of
             [] \<Rightarrow> None
           | c # q \<Rightarrow>
               (if c = CHR '','' then map_option (\<lambda>(vs, z). (v # vs, z)) (parse_elems f q)
                else if c = CHR '']'' then Some ([v], q)
                else None)))"
| "parse_members 0 s = None"
| "parse_members (Suc f) s =
     (case skip_ws s of
        [] \<Rightarrow> None
      | c # r \<Rightarrow>
          (if c \<noteq> CHR 0x22 then None
           else (case parse_chars r of
                   None \<Rightarrow> None
                 | Some (k, q) \<Rightarrow>
                     (case skip_ws q of
                        [] \<Rightarrow> None
                      | d # w \<Rightarrow>
                          (if d \<noteq> CHR '':'' then None
                           else (case parse_value f w of
                                   None \<Rightarrow> None
                                 | Some (v, y) \<Rightarrow>
                                     (case skip_ws y of
                                        [] \<Rightarrow> None
                                      | e # z \<Rightarrow>
                                          (if e = CHR '','' then
                                             map_option (\<lambda>(ms, x). ((k, v) # ms, x)) (parse_members f z)
                                           else if e = CHR ''}'' then Some ([(k, v)], z)
                                           else None))))))))"

definition JSON_parse :: "string \<Rightarrow> json option" where
  [js_defs]: "JSON_parse s =
     (case parse_value (length s) s of
        Some (v, r) \<Rightarrow> if skip_ws r = [] then Some v else None
      | None \<Rightarrow> None)"

section \<open>Reading what was written\<close>

lemma skip_ws_append: "list_all json_ws w \<Longrightarrow> skip_ws (w @ s) = skip_ws s"
  by (induction w) (auto simp: skip_ws_def)

lemma skip_ws_all: "list_all json_ws w \<Longrightarrow> skip_ws w = []"
  by (induction w) (auto simp: skip_ws_def)

lemma skip_ws_solid: "\<not> json_ws c \<Longrightarrow> skip_ws (c # s) = c # s"
  by (simp add: skip_ws_def)

lemma skip_ws_to: "list_all json_ws w \<Longrightarrow> \<not> json_ws c \<Longrightarrow> skip_ws (w @ c # s) = c # s"
  by (simp add: skip_ws_append skip_ws_solid)

lemma hex_value_digit:
  assumes "n < 16"
  shows "json_hex (hex_digit n) = Some n"
proof -
  have "n < 10 \<Longrightarrow> (of_char (char_of (48 + n) :: char) :: nat) = 48 + n" by simp
  moreover have "(of_char (char_of (87 + n) :: char) :: nat) = 87 + n" using assms by simp
  ultimately show ?thesis
    using assms by (simp add: json_hex_def hex_digit_def Let_def)
qed

lemma unescape_u_control:
  assumes "n < 32"
  shows "unescape_u (CHR ''0'' # CHR ''0'' # hex_digit (n div 16) # hex_digit (n mod 16) # r) =
         Some ([char_of n], r)"
proof -
  have "n div 16 < 16" "n mod 16 < 16" using assms by simp_all
  then have "hex4 (CHR ''0'' # CHR ''0'' # hex_digit (n div 16) # hex_digit (n mod 16) # r) =
      Some (n, r)"
    using assms by (simp add: hex_value_digit) (simp add: json_hex_def)
  then show ?thesis using assms by (simp add: unescape_u_def utf8_def)
qed

lemma code_char: "c = d \<longleftrightarrow> (of_char c :: nat) = of_char d"
  by (simp add: of_char_eq_iff)

lemma parse_chars_escape:
  "parse_chars (js_escape c @ s) = map_option (\<lambda>(t, z). (c # t, z)) (parse_chars s)"
proof -
  define n where "n = (of_char c :: nat)"
  have c: "c = char_of n" by (simp add: n_def)
  consider "n = 34" | "n = 92" | "n = 8" | "n = 9" | "n = 10" | "n = 12" | "n = 13"
    | "n < 32" "n \<notin> {8, 9, 10, 12, 13}" | "32 \<le> n" "n \<noteq> 34" "n \<noteq> 92"
    by force
  then show ?thesis
  proof cases
    case 1
    then have "c = CHR 0x22" by (simp add: n_def code_char)
    then show ?thesis by (simp add: js_escape_def unescape_def)
  next
    case 2
    then have "c = CHR 0x5C" by (simp add: n_def code_char)
    then show ?thesis by (simp add: js_escape_def unescape_def)
  next
    case 3
    then have "c = CHR 0x08" by (simp add: n_def code_char)
    then show ?thesis by (simp add: js_escape_def unescape_def)
  next
    case 4
    then have "c = CHR 0x09" by (simp add: n_def code_char)
    then show ?thesis by (simp add: js_escape_def unescape_def)
  next
    case 5
    then have "c = CHR 0x0A" by (simp add: n_def code_char)
    then show ?thesis by (simp add: js_escape_def unescape_def)
  next
    case 6
    then have "c = CHR 0x0C" by (simp add: n_def code_char)
    then show ?thesis by (simp add: js_escape_def unescape_def)
  next
    case 7
    then have "c = CHR 0x0D" by (simp add: n_def code_char)
    then show ?thesis by (simp add: js_escape_def unescape_def)
  next
    case 8
    then have e: "js_escape c =
        [CHR 0x5C, CHR ''u'', CHR ''0'', CHR ''0'', hex_digit (n div 16), hex_digit (n mod 16)]"
      by (simp add: js_escape_def n_def [symmetric] Let_def)
    show ?thesis unfolding e using 8 by (simp add: unescape_u_control) (simp add: c)
  next
    case 9
    then have e: "js_escape c = [c]" by (simp add: js_escape_def n_def [symmetric] Let_def)
    have "c \<noteq> CHR 0x22" "c \<noteq> CHR 0x5C" using 9 by (auto simp: n_def)
    moreover have "\<not> (of_char c :: nat) < 32" using 9 by (simp add: n_def)
    ultimately show ?thesis by (simp add: e del: parse_chars.simps) (simp add: parse_chars.simps)
  qed
qed

lemma parse_chars_quoted:
  "parse_chars (concat (map js_escape s) @ CHR 0x22 # r) = Some (s, r)"
  by (induction s) (simp_all add: parse_chars_escape del: parse_chars.simps(2), simp_all)

text \<open>What may follow a number without being read as a part of it.\<close>

definition json_stop :: "string \<Rightarrow> bool" where
  "json_stop r \<longleftrightarrow>
     (case r of [] \<Rightarrow> True
      | c # _ \<Rightarrow> \<not> js_digit c \<and> c \<noteq> CHR ''.'' \<and> c \<noteq> CHR ''e'' \<and> c \<noteq> CHR ''E'')"

lemma takeWhile_stop:
  "json_stop r \<Longrightarrow> takeWhile js_digit (s @ r) = takeWhile js_digit s"
  by (induction s) (auto simp: json_stop_def split: list.splits)

lemma dropWhile_stop:
  "json_stop r \<Longrightarrow> dropWhile js_digit (s @ r) = dropWhile js_digit s @ r"
  by (induction s) (auto simp: json_stop_def split: list.splits)

lemma json_digits_stop:
  "json_stop r \<Longrightarrow> json_digits s = Some (d, q) \<Longrightarrow> json_digits (s @ r) = Some (d, q @ r)"
  by (auto simp: json_digits_def takeWhile_stop dropWhile_stop split: if_splits)

lemma json_frac_stop:
  assumes "json_stop r" and "json_frac s = Some (d, q)"
  shows "json_frac (s @ r) = Some (d, q @ r)"
proof (cases s)
  case Nil
  then show ?thesis using assms by (auto simp: json_frac_def json_stop_def split: list.splits)
next
  case (Cons c t)
  then show ?thesis using assms
    by (auto simp: json_frac_def json_digits_stop split: if_splits)
qed

lemma json_exp_stop:
  assumes "json_stop r" and "json_exp s = Some (d, q)"
  shows "json_exp (s @ r) = Some (d, q @ r)"
proof (cases s)
  case Nil
  then show ?thesis using assms by (auto simp: json_exp_def json_stop_def split: list.splits)
next
  case (Cons c t)
  show ?thesis
  proof (cases t)
    case Nil
    with Cons show ?thesis using assms by (auto simp: json_exp_def split: if_splits)
  next
    case (Cons g u)
    have "json_digits t = Some (a, b) \<Longrightarrow> json_digits (g # u @ r) = Some (a, b @ r)" for a b
      using json_digits_stop [OF assms(1), of t a b] Cons by simp
    then show ?thesis using assms \<open>s = c # t\<close> Cons
      by (auto simp: json_exp_def json_digits_stop split: if_splits)
  qed
qed

lemma json_nat_stop:
  "json_stop r \<Longrightarrow> json_nat s = Some (d, q) \<Longrightarrow> json_nat (s @ r) = Some (d, q @ r)"
  by (auto simp: json_nat_def json_digits_stop split: option.splits if_splits)

lemma json_nat_nonempty: "json_nat s = Some (d, q) \<Longrightarrow> s \<noteq> []"
  by (auto simp: json_nat_def json_digits_def)

lemma json_nat_append:
  assumes "json_stop r" and "json_nat (if b then drop 1 s else s) = Some (d, q)"
  shows "json_nat (if b then drop 1 (s @ r) else s @ r) = Some (d, q @ r)"
  using json_nat_stop [OF assms] json_nat_nonempty [OF assms(2)]
  by (cases s) (auto split: if_splits)

lemma parse_number_stop:
  assumes r: "json_stop r" and p: "parse_number s = Some (v, q)"
  shows "parse_number (s @ r) = Some (v, q @ r)"
proof -
  define b where "b = (take 1 s = ''-'')"
  obtain d s1 where d: "json_nat (if b then drop 1 s else s) = Some (d, s1)"
    using p by (auto simp: parse_number_def Let_def b_def split: option.splits prod.splits)
  obtain f s2 where f: "json_frac s1 = Some (f, s2)"
    using p d by (auto simp: parse_number_def Let_def b_def split: option.splits prod.splits)
  obtain e s3 where e: "json_exp s2 = Some (e, s3)"
    using p d f by (auto simp: parse_number_def Let_def b_def split: option.splits prod.splits)
  have ne: "s \<noteq> []" using d json_nat_nonempty [OF d] by (auto split: if_splits)
  then have b': "(take 1 (s @ r) = ''-'') = b" by (cases s) (auto simp: b_def)
  show ?thesis
    using p d f e json_nat_append [OF r d] json_frac_stop [OF r f] json_exp_stop [OF r e]
    unfolding parse_number_def b' b_def [symmetric] Let_def by simp
qed

lemma js_show_nat_hd: "0 < n \<Longrightarrow> hd (js_show_nat n) \<noteq> CHR ''0''"
proof (induction n rule: js_show_nat.induct)
  case (1 n)
  show ?case
  proof (cases "n < 10")
    case True
    then have "(of_char (char_of (48 + n) :: char) :: nat) = 48 + n" by simp
    then have "char_of (48 + n) \<noteq> CHR ''0''" using 1(2) by (subst code_char) simp
    then show ?thesis using True by (subst js_show_nat.simps) simp
  next
    case False
    then show ?thesis using 1 by (subst js_show_nat.simps) simp
  qed
qed

lemma js_show_nat_0: "js_show_nat 0 = ''0''"
  by (subst js_show_nat.simps) (simp add: code_char [of "char_of _"])

lemma json_nat_show: "json_nat (js_show_nat n) = Some (js_show_nat n, [])"
proof -
  have "takeWhile js_digit (js_show_nat n) = js_show_nat n"
       "dropWhile js_digit (js_show_nat n) = []"
    using js_show_nat_digits [of n] by (auto simp: list_all_iff takeWhile_eq_all_conv)
  then have "json_digits (js_show_nat n) = Some (js_show_nat n, [])"
    by (metis json_digits_def js_show_nat_nonempty)
  then show ?thesis using js_show_nat_hd [of n] js_show_nat_0
    by (cases "n = 0") (auto simp: json_nat_def)
qed

lemma parse_show_int: "parse_number (js_show_int i) = Some (JInt i, [])"
proof (cases "i < 0")
  case True
  then show ?thesis
    by (simp add: parse_number_def js_show_int_def Let_def json_nat_show json_frac_def json_exp_def)
next
  case False
  have "js_digit (hd (js_show_nat (nat i)))"
    using js_show_nat_digits [of "nat i"] by (cases "js_show_nat (nat i)") auto
  then have "take 1 (js_show_nat (nat i)) \<noteq> ''-''"
    by (cases "js_show_nat (nat i)") (auto simp: js_digit_def)
  then show ?thesis using False
    by (simp add: parse_number_def js_show_int_def Let_def json_nat_show json_frac_def json_exp_def)
qed

lemma parse_number_hd:
  assumes "parse_number s = Some (v, q)"
  obtains c t where "s = c # t" and "c = CHR ''-'' \<or> js_digit c"
proof (cases s)
  case Nil
  then show thesis using assms
    by (auto simp: parse_number_def json_nat_def json_digits_def Let_def)
next
  case (Cons c t)
  moreover have "c = CHR ''-'' \<or> js_digit c"
  proof (rule ccontr)
    assume "\<not> (c = CHR ''-'' \<or> js_digit c)"
    then show False using assms Cons
      by (auto simp: parse_number_def json_nat_def json_digits_def Let_def)
  qed
  ultimately show thesis by (rule that)
qed

text \<open>The values that can be written: numbers are numbers, the names of an object differ.\<close>

fun wf_json :: "json \<Rightarrow> bool" where
  "wf_json (JDec t) \<longleftrightarrow> parse_number t = Some (JDec t, [])"
| "wf_json (JArr vs) \<longleftrightarrow> list_all wf_json vs"
| "wf_json (JObj ms) \<longleftrightarrow> distinct (map fst ms) \<and> list_all (\<lambda>p. wf_json (snd p)) ms"
| "wf_json _ \<longleftrightarrow> True"

fun json_fuel :: "json \<Rightarrow> nat" where
  "json_fuel (JArr vs) = 1 + sum_list (map (\<lambda>v. 1 + json_fuel v) vs)"
| "json_fuel (JObj ms) = 1 + sum_list (map (\<lambda>p. 1 + json_fuel (snd p)) ms)"
| "json_fuel _ = 1"

lemma parse_number_value:
  assumes "parse_number s = Some (v, q)" and "0 < f"
  shows "parse_value f s = Some (v, q)"
proof -
  obtain c t where c: "s = c # t" "c = CHR ''-'' \<or> js_digit c"
    using parse_number_hd [OF assms(1)] by blast
  then have "\<not> json_ws c" by (auto simp: js_digit_def json_ws_def)
  then have ws: "skip_ws s = c # t" using c by (simp add: skip_ws_solid)
  have "c \<noteq> CHR 0x22" "c \<noteq> CHR ''[''" "c \<noteq> CHR ''{''" "c \<noteq> CHR ''t''" "c \<noteq> CHR ''f''" "c \<noteq> CHR ''n''"
    using c by (auto simp: js_digit_def)
  with ws show ?thesis using assms c(1) by (cases f) simp_all
qed

text \<open>The first character of what was written.\<close>

lemma stringify_hd:
  assumes "wf_json v"
  obtains c t where "js_stringify g i v = c # t" and "\<not> json_ws c" and "c \<noteq> CHR '']''"
proof -
  have num: "\<exists>c t. s = c # t \<and> \<not> json_ws c \<and> c \<noteq> CHR '']''" if p: "parse_number s = Some (w, q)" for s w q
  proof -
    obtain c t where "s = c # t" "c = CHR ''-'' \<or> js_digit c" using parse_number_hd [OF p] by blast
    then show ?thesis by (auto simp: js_digit_def json_ws_def)
  qed
  have "\<exists>c t. js_stringify g i v = c # t \<and> \<not> json_ws c \<and> c \<noteq> CHR '']''"
    using assms
  proof (cases v)
    case (JInt k)
    then show ?thesis using num [OF parse_show_int] by simp
  next
    case (JDec t)
    then show ?thesis using num assms by auto
  next
    case (JArr vs)
    then show ?thesis by (cases vs) (auto simp: json_ws_def)
  next
    case (JObj ms)
    then show ?thesis by (cases ms) (auto simp: json_ws_def)
  qed (auto simp: json_ws_def js_quote_def)
  then show thesis using that by blast
qed

lemma obj_of_distinct: "distinct (map fst ms) \<Longrightarrow> obj_of ms = ms"
proof -
  have "distinct (map fst (acc @ ms)) \<Longrightarrow> foldl (\<lambda>m (k, v). jset m k v) acc ms = acc @ ms" for acc
  proof (induction ms arbitrary: acc)
    case Nil
    then show ?case by simp
  next
    case (Cons p ms)
    obtain k v where p: "p = (k, v)" by (cases p)
    have "k \<notin> fst ` set acc" using Cons.prems p by auto
    then have "jset acc k v = acc @ [(k, v)]" by (induction acc) auto
    then show ?case using Cons.IH [of "acc @ [(k, v)]"] Cons.prems p by simp
  qed
  then show "distinct (map fst ms) \<Longrightarrow> obj_of ms = ms" by (simp add: obj_of_def)
qed

lemma json_nl_ws: "list_all json_ws g \<Longrightarrow> list_all json_ws i \<Longrightarrow> list_all json_ws (json_nl g i)"
  by (simp add: json_nl_def json_ws_def)

text \<open>\<open>reads v\<close>: what the printer writes for \<open>v\<close> is read back, whatever comes before and after.\<close>

definition json_reads :: "json \<Rightarrow> bool" where
  "json_reads v \<longleftrightarrow>
     (\<forall>f g i w r. json_fuel v \<le> f \<longrightarrow> list_all json_ws g \<longrightarrow> list_all json_ws i \<longrightarrow>
        list_all json_ws w \<longrightarrow> json_stop r \<longrightarrow>
        parse_value f (w @ js_stringify g i v @ r) = Some (v, r))"

lemma json_readsD:
  "json_reads v \<Longrightarrow> json_fuel v \<le> f \<Longrightarrow> list_all json_ws g \<Longrightarrow> list_all json_ws i \<Longrightarrow>
   list_all json_ws w \<Longrightarrow> json_stop r \<Longrightarrow>
   parse_value f (w @ js_stringify g i v @ r) = Some (v, r)"
  by (simp add: json_reads_def)

lemma json_fuel_pos: "0 < json_fuel v"
  by (cases v) auto

lemma json_stop_comma: "json_stop (CHR '','' # r)"
  by (simp add: json_stop_def js_digit_def)

lemma json_stop_close:
  assumes "list_all json_ws w" and "c = CHR '']'' \<or> c = CHR ''}''"
  shows "json_stop (w @ c # r)"
  using assms by (cases w) (auto simp: json_stop_def js_digit_def json_ws_def)

lemma json_join_cons:
  "js_join s (a # as) = a @ (if as = [] then [] else s @ js_join s as)"
  by (cases as) auto

lemma parse_elems_reads:
  assumes "vs \<noteq> []" and "\<forall>v \<in> set vs. json_reads v"
    and "sum_list (map (\<lambda>v. 1 + json_fuel v) vs) \<le> f"
    and g: "list_all json_ws g" and i: "list_all json_ws i" and j: "list_all json_ws j"
    and w: "list_all json_ws w" and w': "list_all json_ws w'"
  shows "parse_elems f (w @ js_join (CHR '','' # w') (map (js_stringify g i) vs) @ j @ CHR '']'' # r) =
         Some (vs, r)"
  using assms(1-3) w
proof (induction vs arbitrary: f w)
  case Nil
  then show ?case by simp
next
  case (Cons v vs)
  obtain f' where f: "f = Suc f'" using Cons.prems(3) by (cases f) auto
  have fv: "json_fuel v \<le> f'" using Cons.prems(3) f by simp
  have v: "json_reads v" using Cons.prems(2) by simp
  show ?case
  proof (cases "vs = []")
    case True
    have "parse_value f' (w @ js_stringify g i v @ j @ CHR '']'' # r) = Some (v, j @ CHR '']'' # r)"
      by (rule json_readsD [OF v fv g i Cons.prems(4)]) (rule json_stop_close [OF j], simp)
    then show ?thesis using True by (simp add: f skip_ws_to [OF j] json_ws_def)
  next
    case False
    let ?t = "js_join (CHR '','' # w') (map (js_stringify g i) vs) @ j @ CHR '']'' # r"
    have "parse_value f' (w @ js_stringify g i v @ CHR '','' # w' @ ?t) = Some (v, CHR '','' # w' @ ?t)"
      by (rule json_readsD [OF v fv g i Cons.prems(4) json_stop_comma])
    moreover have "parse_elems f' (w' @ ?t) = Some (vs, r)"
      by (rule Cons.IH [OF False]) (use Cons.prems f w' in auto)
    ultimately show ?thesis using False
      by (simp add: f json_join_cons skip_ws_solid json_ws_def)
  qed
qed

lemma parse_members_reads:
  assumes "ms \<noteq> []" and "\<forall>p \<in> set ms. json_reads (snd p)"
    and "sum_list (map (\<lambda>p. 1 + json_fuel (snd p)) ms) \<le> f"
    and g: "list_all json_ws g" and i: "list_all json_ws i" and j: "list_all json_ws j"
    and w: "list_all json_ws w" and w': "list_all json_ws w'" and s: "list_all json_ws s"
  shows "parse_members f
           (w @ js_join (CHR '','' # w')
                  (map (\<lambda>(k, v). js_quote k @ '':'' @ s @ js_stringify g i v) ms) @ j @ CHR ''}'' # r) =
         Some (ms, r)"
  using assms(1-3) w
proof (induction ms arbitrary: f w)
  case Nil
  then show ?case by simp
next
  case (Cons p ms)
  obtain k v where p: "p = (k, v)" by (cases p)
  obtain f' where f: "f = Suc f'" using Cons.prems(3) by (cases f) auto
  have fv: "json_fuel v \<le> f'" using Cons.prems(3) f p by simp
  have v: "json_reads v" using Cons.prems(2) p by simp
  have q: "skip_ws (w @ js_quote k @ x) = CHR 0x22 # concat (map js_escape k) @ CHR 0x22 # x" for x
    using skip_ws_to [OF Cons.prems(4)] by (simp add: js_quote_def json_ws_def)
  show ?case
  proof (cases "ms = []")
    case True
    have "parse_value f' (s @ js_stringify g i v @ j @ CHR ''}'' # r) = Some (v, j @ CHR ''}'' # r)"
      by (rule json_readsD [OF v fv g i s]) (rule json_stop_close [OF j], simp)
    then show ?thesis using True
      by (simp add: f p q parse_chars_quoted skip_ws_solid skip_ws_to [OF j] json_ws_def)
  next
    case False
    let ?t = "js_join (CHR '','' # w')
                (map (\<lambda>(k, v). js_quote k @ '':'' @ s @ js_stringify g i v) ms) @ j @ CHR ''}'' # r"
    have "parse_value f' (s @ js_stringify g i v @ CHR '','' # w' @ ?t) = Some (v, CHR '','' # w' @ ?t)"
      by (rule json_readsD [OF v fv g i s json_stop_comma])
    moreover have "parse_members f' (w' @ ?t) = Some (ms, r)"
      by (rule Cons.IH [OF False]) (use Cons.prems f w' in auto)
    ultimately show ?thesis using False
      by (simp add: f p q json_join_cons parse_chars_quoted skip_ws_solid json_ws_def)
  qed
qed

lemma json_reads_arr:
  assumes "\<forall>v \<in> set vs. json_reads v \<and> wf_json v"
  shows "json_reads (JArr vs)"
  unfolding json_reads_def
proof (intro allI impI)
  fix f g i w r
  assume a: "json_fuel (JArr vs) \<le> f" "list_all json_ws g" "list_all json_ws i" "list_all json_ws w" "json_stop r"
  obtain f' where f: "f = Suc f'" using a(1) by (cases f) auto
  show "parse_value f (w @ js_stringify g i (JArr vs) @ r) = Some (JArr vs, r)"
  proof (cases vs)
    case Nil
    then show ?thesis using skip_ws_to [OF a(4)] by (simp add: f json_ws_def skip_ws_solid)
  next
    case (Cons v us)
    let ?i = "i @ g"
    let ?n = "json_nl g ?i"
    let ?t = "js_join (CHR '','' # ?n) (map (js_stringify g ?i) vs) @ json_nl g i @ CHR '']'' # r"
    have i: "list_all json_ws ?i" using a by simp
    have n: "list_all json_ws ?n" by (rule json_nl_ws [OF a(2) i])
    obtain c t where c: "js_stringify g ?i v = c # t" "\<not> json_ws c" "c \<noteq> CHR '']''"
      using stringify_hd assms Cons by (metis list.set_intros(1))
    then have "take 1 (skip_ws (?n @ ?t)) \<noteq> '']''"
      using skip_ws_to [OF n c(2)] Cons by (simp add: json_join_cons)
    moreover have "parse_elems f' (?n @ ?t) = Some (vs, r)"
      by (rule parse_elems_reads)
         (use assms a f i n Cons in \<open>auto intro: json_nl_ws\<close>)
    moreover have "w @ js_stringify g i (JArr vs) @ r = w @ CHR ''['' # ?n @ ?t"
      by (simp add: Cons)
    ultimately show ?thesis by (simp add: f skip_ws_to [OF a(4)] json_ws_def)
  qed
qed

lemma json_reads_obj:
  assumes "\<forall>p \<in> set ms. json_reads (snd p)" and d: "distinct (map fst ms)"
  shows "json_reads (JObj ms)"
  unfolding json_reads_def
proof (intro allI impI)
  fix f g i w r
  assume a: "json_fuel (JObj ms) \<le> f" "list_all json_ws g" "list_all json_ws i" "list_all json_ws w" "json_stop r"
  obtain f' where f: "f = Suc f'" using a(1) by (cases f) auto
  show "parse_value f (w @ js_stringify g i (JObj ms) @ r) = Some (JObj ms, r)"
  proof (cases ms)
    case Nil
    then show ?thesis using skip_ws_to [OF a(4)] by (simp add: f json_ws_def skip_ws_solid)
  next
    case (Cons p us)
    let ?i = "i @ g"
    let ?n = "json_nl g ?i"
    let ?s = "if g = [] then [] else '' ''"
    let ?t = "js_join (CHR '','' # ?n)
                (map (\<lambda>(k, v). js_quote k @ '':'' @ ?s @ js_stringify g ?i v) ms) @
              json_nl g i @ CHR ''}'' # r"
    have i: "list_all json_ws ?i" using a by simp
    have n: "list_all json_ws ?n" by (rule json_nl_ws [OF a(2) i])
    have "take 1 (skip_ws (?n @ ?t)) \<noteq> ''}''"
      using skip_ws_append [OF n, of ?t] Cons
      by (cases p) (simp add: json_join_cons js_quote_def skip_ws_solid json_ws_def)
    moreover have "parse_members f' (?n @ ?t) = Some (ms, r)"
      by (rule parse_members_reads)
         (use assms a f i n Cons in \<open>auto intro: json_nl_ws simp: json_ws_def\<close>)
    moreover have "w @ js_stringify g i (JObj ms) @ r = w @ CHR ''{'' # ?n @ ?t"
      by (simp add: Cons split_def)
    ultimately show ?thesis by (simp add: f skip_ws_to [OF a(4)] json_ws_def obj_of_distinct [OF d])
  qed
qed

lemma json_reads_number:
  assumes "\<And>g i. parse_number (js_stringify g i v) = Some (v, [])"
  shows "json_reads v"
  unfolding json_reads_def
proof (intro allI impI)
  fix f g i w r
  assume a: "json_fuel v \<le> f" "list_all json_ws w" "json_stop r"
  have f: "0 < f" using a(1) json_fuel_pos [of v] by linarith
  have p: "parse_number (js_stringify g i v @ r) = Some (v, r)"
    using parse_number_stop [OF a(3) assms] by simp
  obtain f' where f': "f = Suc f'" using f by (cases f) auto
  have "parse_value f (js_stringify g i v @ r) = Some (v, r)" by (rule parse_number_value [OF p f])
  then show "parse_value f (w @ js_stringify g i v @ r) = Some (v, r)"
    by (simp only: f' parse_value.simps skip_ws_append [OF a(2)])
qed

lemma json_reads_wf: "wf_json v \<Longrightarrow> json_reads v"
proof (induction v)
  case JNull
  show ?case unfolding json_reads_def
    by (auto simp: skip_ws_append skip_ws_solid json_ws_def gr0_conv_Suc Suc_le_eq)
next
  case (JBool b)
  show ?case unfolding json_reads_def
    by (auto simp: skip_ws_append skip_ws_solid json_ws_def gr0_conv_Suc Suc_le_eq)
next
  case (JInt i)
  show ?case by (rule json_reads_number) (simp add: parse_show_int)
next
  case (JDec t)
  then show ?case by (intro json_reads_number) simp
next
  case (JStr s)
  show ?case unfolding json_reads_def
    by (auto simp: skip_ws_append skip_ws_solid json_ws_def gr0_conv_Suc Suc_le_eq js_quote_def
          parse_chars_quoted)
next
  case (JArr vs)
  then show ?case by (intro json_reads_arr) (auto simp: list_all_iff)
next
  case (JObj ms)
  then show ?case by (intro json_reads_obj) (auto simp: list_all_iff)
qed

text \<open>The fuel: what can be read with some fuel is read with the length of the text.\<close>

lemma parse_chars_length: "parse_chars s = Some (t, r) \<Longrightarrow> length r < length s"
proof (induction s arbitrary: t r rule: parse_chars.induct)
  case 1
  then show ?case by simp
next
  case (2 c s)
  show ?case
  proof (cases "c = CHR 0x22 \<or> c \<noteq> CHR 0x5C")
    case True
    then show ?thesis using 2 by (auto split: if_splits simp: less_SucI)
  next
    case False
    then obtain e u where s: "s = e # u" using 2(4) by (cases s) auto
    show ?thesis
    proof (cases "e = CHR ''u''")
      case True
      then obtain x q where q: "unescape_u u = Some (x, q)" using 2(4) False s
        by (auto split: option.splits)
      then obtain t' where "parse_chars q = Some (t', r)" using 2(4) False True s by auto
      then have "length r < length q" using 2(1) False True s q by blast
      then show ?thesis using unescape_u_length [OF q] s by simp
    next
      case eu: False
      then obtain t' where "parse_chars u = Some (t', r)" using 2(4) False s
        by (auto split: option.splits)
      moreover obtain d where "unescape e = Some d" using 2(4) False s eu
        by (auto split: option.splits)
      ultimately have "length r < length u" using 2(2) False s eu by blast
      then show ?thesis using s by simp
    qed
  qed
qed

lemma json_digits_length:
  assumes "json_digits s = Some (d, r)"
  shows "length r < length s"
proof -
  have "takeWhile js_digit s \<noteq> []" "r = dropWhile js_digit s"
    using assms by (auto simp: json_digits_def split: if_splits)
  moreover have "length s = length (takeWhile js_digit s) + length (dropWhile js_digit s)"
    by (metis length_append takeWhile_dropWhile_id)
  ultimately show ?thesis by simp
qed

lemma json_frac_length: "json_frac s = Some (d, r) \<Longrightarrow> length r \<le> length s"
  by (auto simp: json_frac_def dest!: json_digits_length split: list.splits if_splits)

lemma json_exp_length: "json_exp s = Some (d, r) \<Longrightarrow> length r \<le> length s"
  by (auto simp: json_exp_def dest!: json_digits_length split: list.splits if_splits)

lemma json_nat_length: "json_nat s = Some (d, r) \<Longrightarrow> length r < length s"
  by (auto simp: json_nat_def dest!: json_digits_length split: option.splits if_splits)

lemma parse_number_length:
  assumes "parse_number s = Some (v, r)"
  shows "length r < length s"
proof -
  let ?b = "take 1 s = ''-''"
  obtain d s1 where d: "json_nat (if ?b then drop 1 s else s) = Some (d, s1)"
    using assms by (auto simp: parse_number_def Let_def split: option.splits prod.splits)
  obtain f s2 where f: "json_frac s1 = Some (f, s2)"
    using assms d by (auto simp: parse_number_def Let_def split: option.splits prod.splits)
  obtain e s3 where e: "json_exp s2 = Some (e, s3)"
    using assms d f by (auto simp: parse_number_def Let_def split: option.splits prod.splits)
  have "r = s3" using assms d f e by (auto simp: parse_number_def Let_def)
  moreover have "length s1 < length s" using json_nat_length [OF d] by (auto split: if_splits)
  ultimately show ?thesis using json_frac_length [OF f] json_exp_length [OF e] by simp
qed

lemma skip_ws_length: "skip_ws s = c # r \<Longrightarrow> length r < length s"
  unfolding skip_ws_def by (metis length_Cons length_dropWhile_le less_eq_Suc_le)

lemma skip_ws_le: "length (skip_ws s) \<le> length s"
  by (simp add: skip_ws_def length_dropWhile_le)

lemma parse_fuel:
  "(\<forall>s v r. parse_value f s = Some (v, r) \<longrightarrow> length r < length s \<and>
      (\<forall>f'. length s - length r \<le> f' \<longrightarrow> parse_value f' s = Some (v, r))) \<and>
   (\<forall>s vs r. parse_elems f s = Some (vs, r) \<longrightarrow> length r < length s \<and>
      (\<forall>f'. length s - length r \<le> f' \<longrightarrow> parse_elems f' s = Some (vs, r))) \<and>
   (\<forall>s ms r. parse_members f s = Some (ms, r) \<longrightarrow> length r < length s \<and>
      (\<forall>f'. length s - length r \<le> f' \<longrightarrow> parse_members f' s = Some (ms, r)))"
proof (induction f)
  case 0
  show ?case by simp
next
  case (Suc f)
  note V = Suc.IH [THEN conjunct1, rule_format]
    and E = Suc.IH [THEN conjunct2, THEN conjunct1, rule_format]
    and M = Suc.IH [THEN conjunct2, THEN conjunct2, rule_format]
  have v: "length r < length s \<and> (\<forall>f'. length s - length r \<le> f' \<longrightarrow> parse_value f' s = Some (v, r))"
    if p: "parse_value (Suc f) s = Some (v, r)" for s v r
  proof -
    obtain c t where ct: "skip_ws s = c # t" using p by (auto split: list.splits)
    have l: "length t < length s" by (rule skip_ws_length [OF ct])
    have st: "skip_ws t = x # y \<Longrightarrow> length y < length t" for x y by (rule skip_ws_length)
    have d1: "length (drop 1 (skip_ws t)) \<le> length t" using skip_ws_le [of t] by simp
    have "length r \<le> length t"
      using p ct d1 parse_number_length [of "c # t" v r]
      by (auto split: if_splits dest!: parse_chars_length E M)
    moreover have "parse_value f' s = Some (v, r)" if f': "length s - length r \<le> f'" for f'
    proof -
      have "0 < f'" using f' l calculation by linarith
      then obtain g where g: "f' = Suc g" by (cases f') auto
      have "length t - length r \<le> g" using f' l g by linarith
      then show ?thesis using p ct g
        by (auto split: if_splits dest!: E M)
    qed
    ultimately show ?thesis using l by auto
  qed
  have e: "length r < length s \<and> (\<forall>f'. length s - length r \<le> f' \<longrightarrow> parse_elems f' s = Some (vs, r))"
    if p: "parse_elems (Suc f) s = Some (vs, r)" for s vs r
  proof -
    obtain v t where vt: "parse_value f s = Some (v, t)" using p by (auto split: option.splits)
    obtain c q where cq: "skip_ws t = c # q" using p vt by (auto split: list.splits)
    have l: "length t < length s" "length q < length t" using V [OF vt] skip_ws_length [OF cq] by auto
    have r: "length r \<le> length q" using p vt cq by (auto split: if_splits dest!: E)
    have "parse_elems f' s = Some (vs, r)" if f': "length s - length r \<le> f'" for f'
    proof -
      obtain g where g: "f' = Suc g" using f' l r by (cases f') auto
      have "length s - length t \<le> g" "length q - length r \<le> g" using f' g l r by linarith+
      then show ?thesis using p vt cq g V [OF vt] by (auto split: if_splits dest!: E)
    qed
    then show ?thesis using l r by auto
  qed
  have m: "length r < length s \<and> (\<forall>f'. length s - length r \<le> f' \<longrightarrow> parse_members f' s = Some (ms, r))"
    if p: "parse_members (Suc f) s = Some (ms, r)" for s ms r
  proof -
    obtain t where t: "skip_ws s = CHR 0x22 # t" using p by (auto split: list.splits if_splits)
    obtain k q where q: "parse_chars t = Some (k, q)" using p t by (auto split: option.splits)
    obtain w where w: "skip_ws q = CHR '':'' # w" using p t q by (auto split: list.splits if_splits)
    obtain v y where y: "parse_value f w = Some (v, y)" using p t q w by (auto split: option.splits)
    obtain x z where z: "skip_ws y = x # z" using p t q w y by (auto split: list.splits)
    have l: "length t < length s" "length q < length t" "length w < length q" "length y < length w"
        "length z < length y"
      using skip_ws_length [OF t] parse_chars_length [OF q] skip_ws_length [OF w] V [OF y]
        skip_ws_length [OF z] by auto
    have r: "length r \<le> length z" using p t q w y z by (auto split: if_splits dest!: M)
    have "parse_members f' s = Some (ms, r)" if f': "length s - length r \<le> f'" for f'
    proof -
      obtain g where g: "f' = Suc g" using f' l r by (cases f') auto
      have "length w - length y \<le> g" "length z - length r \<le> g" using f' g l r by linarith+
      then show ?thesis using p t q w y z g V [OF y] by (auto split: if_splits dest!: M)
    qed
    then show ?thesis using l r by auto
  qed
  show ?case using v e m by blast
qed

text \<open>More fuel than the length of the text reads nothing more.\<close>

lemma json_fuel_enough:
  "parse_value f s = Some (v, r) \<Longrightarrow> parse_value (length s) s = Some (v, r)"
  using parse_fuel [of f, THEN conjunct1, rule_format, of s v r] by simp

text \<open>
  What \<open>JSON.stringify\<close> writes, compact or indented by any number of blanks,
  \<open>JSON.parse\<close> reads back as the same value.
\<close>

theorem json_roundtrip:
  "wf_json v \<Longrightarrow> JSON_parse (JSON_stringify v) = Some v \<and>
   JSON_parse (JSON_stringify_indent n v) = Some v"
proof -
  assume v: "wf_json v"
  have "JSON_parse (js_stringify g [] v) = Some v" if g: "list_all json_ws g" for g
  proof -
    have "parse_value (json_fuel v) ([] @ js_stringify g [] v @ []) = Some (v, [])"
      by (rule json_readsD [OF json_reads_wf [OF v] order.refl g]) (simp_all add: json_stop_def)
    then have "parse_value (length (js_stringify g [] v)) (js_stringify g [] v) = Some (v, [])"
      using json_fuel_enough by simp
    then show ?thesis by (simp add: JSON_parse_def skip_ws_def)
  qed
  moreover have "list_all json_ws (replicate n (CHR '' ''))"
    by (induction n) (auto simp: json_ws_def)
  ultimately show ?thesis by (simp add: JSON_stringify_def JSON_stringify_indent_def)
qed

lemma json_roundtrip_witness:
  "JSON_parse (JSON_stringify (JObj [(''a'', JArr [JInt (- 12), JStr [CHR 0x0A], JNull])])) =
     Some (JObj [(''a'', JArr [JInt (- 12), JStr [CHR 0x0A], JNull])])"
  using json_roundtrip [of "JObj [(''a'', JArr [JInt (- 12), JStr [CHR 0x0A], JNull])]" 2] by simp

text \<open>What is read can be written: the numbers are numbers and the names of an object differ.\<close>

definition digit_string :: "string \<Rightarrow> bool" where
  "digit_string d \<longleftrightarrow> d \<noteq> [] \<and> list_all js_digit d"

definition no_digit :: "string \<Rightarrow> bool" where
  "no_digit r \<longleftrightarrow> (case r of [] \<Rightarrow> True | c # _ \<Rightarrow> \<not> js_digit c)"

lemma digits_inv: "json_digits s = Some (d, r) \<Longrightarrow> digit_string d \<and> no_digit r"
  by (auto simp: json_digits_def digit_string_def no_digit_def list_all_iff dropWhile_eq_Cons_conv
        dest: set_takeWhileD split: if_splits list.split)

lemma digits_read:
  assumes "digit_string d" and "no_digit r"
  shows "json_digits (d @ r) = Some (d, r)"
proof -
  have "list_all js_digit d" using assms(1) by (simp add: digit_string_def)
  then have "takeWhile js_digit (d @ r) = d \<and> dropWhile js_digit (d @ r) = r"
    using assms(2) by (induction d) (auto simp: no_digit_def split: list.splits)
  then show ?thesis using assms(1) by (simp add: json_digits_def digit_string_def)
qed

definition frac_text :: "string \<Rightarrow> bool" where
  "frac_text f \<longleftrightarrow> f = [] \<or> (\<exists>g. f = CHR ''.'' # g \<and> digit_string g)"

definition exp_text :: "string \<Rightarrow> bool" where
  "exp_text e \<longleftrightarrow> e = [] \<or>
     (\<exists>c w g. e = c # w @ g \<and> c \<in> {CHR ''e'', CHR ''E''} \<and> w \<in> {[], ''+'', ''-''} \<and> digit_string g)"

lemma frac_inv: "json_frac s = Some (f, r) \<Longrightarrow> frac_text f"
  by (auto simp: json_frac_def frac_text_def dest!: digits_inv split: list.splits if_splits)

lemma exp_textI:
  "c \<in> {CHR ''e'', CHR ''E''} \<Longrightarrow> w \<in> {[], ''+'', ''-''} \<Longrightarrow> digit_string g \<Longrightarrow> exp_text (c # w @ g)"
  unfolding exp_text_def by blast

lemma exp_inv: "json_exp s = Some (e, r) \<Longrightarrow> exp_text e"
proof (cases s)
  case Nil
  then show "json_exp s = Some (e, r) \<Longrightarrow> exp_text e" by (simp add: json_exp_def exp_text_def)
next
  case (Cons c t)
  assume a: "json_exp s = Some (e, r)"
  show ?thesis
  proof (cases "c = CHR ''e'' \<or> c = CHR ''E''")
    case False
    then show ?thesis using a Cons by (auto simp: json_exp_def exp_text_def split: if_splits)
  next
    case True
    then obtain g q where t: "t = g # q" using a Cons
      by (cases t) (auto simp: json_exp_def split: if_splits)
    show ?thesis
    proof (cases "g = CHR ''+'' \<or> g = CHR ''-''")
      case sg: True
      then obtain d where d: "json_digits q = Some (d, r)" "e = c # [g] @ d"
        using a Cons True t by (cases "json_digits q") (auto simp: json_exp_def)
      have "exp_text (c # [g] @ d)"
        by (rule exp_textI) (use True sg digits_inv [OF d(1)] in auto)
      then show ?thesis using d(2) by simp
    next
      case sg: False
      then obtain d where d: "json_digits t = Some (d, r)" "e = c # [] @ d"
        using a Cons True t by (cases "json_digits t") (auto simp: json_exp_def)
      have "exp_text (c # [] @ d)"
        by (rule exp_textI) (use True digits_inv [OF d(1)] in auto)
      then show ?thesis using d(2) by simp
    qed
  qed
qed

lemma exp_read: "exp_text e \<Longrightarrow> json_exp e = Some (e, [])"
proof -
  assume "exp_text e"
  then consider "e = []"
    | c w g where "e = c # w @ g" "c \<in> {CHR ''e'', CHR ''E''}" "w \<in> {[], ''+'', ''-''}" "digit_string g"
    unfolding exp_text_def by blast
  then show ?thesis
  proof cases
    case 1
    then show ?thesis by (simp add: json_exp_def)
  next
    case 2
    obtain h k where g: "g = h # k" "js_digit h" using 2(4) by (cases g) (auto simp: digit_string_def)
    have d: "json_digits (h # k) = Some (h # k, [])"
      using digits_read [of "h # k" "[]"] 2(4) g by (simp add: no_digit_def)
    have "h \<noteq> CHR ''+''" "h \<noteq> CHR ''-''" using g by (auto simp: js_digit_def)
    then show ?thesis using 2(1-3) g d by (auto simp: json_exp_def)
  qed
qed

lemma exp_text_start: "exp_text e \<Longrightarrow> no_digit e \<and> (e = [] \<or> hd e \<noteq> CHR ''.'')"
  by (auto simp: exp_text_def no_digit_def js_digit_def)

lemma frac_read: "frac_text f \<Longrightarrow> exp_text e \<Longrightarrow> json_frac (f @ e) = Some (f, e)"
  using exp_text_start [of e] digits_read [of _ "[]"]
  by (cases e) (auto simp: frac_text_def json_frac_def digits_read no_digit_def)

lemma frac_exp_start: "frac_text f \<Longrightarrow> exp_text e \<Longrightarrow> no_digit (f @ e)"
  using exp_text_start [of e] by (auto simp: frac_text_def no_digit_def js_digit_def)

lemma nat_inv:
  "json_nat s = Some (d, r) \<Longrightarrow> digit_string d \<and> \<not> (1 < length d \<and> hd d = CHR ''0'')"
  by (auto simp: json_nat_def dest!: digits_inv split: option.splits if_splits)

lemma nat_read:
  "digit_string d \<Longrightarrow> \<not> (1 < length d \<and> hd d = CHR ''0'') \<Longrightarrow> no_digit r \<Longrightarrow>
   json_nat (d @ r) = Some (d, r)"
  by (simp add: json_nat_def digits_read)

lemma parse_number_parts:
  assumes "(take 1 s = ''-'') = b" and "json_nat (if b then drop 1 s else s) = Some (d, r)"
    and "json_frac r = Some (f, q)" and "json_exp q = Some (e, z)" and "\<not> (f = [] \<and> e = [])"
  shows "parse_number s = Some (JDec ((if b then ''-'' else []) @ d @ f @ e), z)"
  unfolding parse_number_def Let_def assms(1) assms(2) using assms(3-5) by auto

lemma parse_number_wf:
  assumes "parse_number s = Some (v, r)"
  shows "wf_json v"
proof -
  let ?b = "take 1 s = ''-''"
  obtain d s1 where d: "json_nat (if ?b then drop 1 s else s) = Some (d, s1)"
    using assms by (auto simp: parse_number_def Let_def split: option.splits prod.splits)
  obtain f s2 where f: "json_frac s1 = Some (f, s2)"
    using assms d by (auto simp: parse_number_def Let_def split: option.splits prod.splits)
  obtain e s3 where e: "json_exp s2 = Some (e, s3)"
    using assms d f by (auto simp: parse_number_def Let_def split: option.splits prod.splits)
  note nd = nat_inv [OF d] and nf = frac_inv [OF f] and ne = exp_inv [OF e]
  show ?thesis
  proof (cases "f = [] \<and> e = []")
    case True
    then show ?thesis using assms d f e by (auto simp: parse_number_def Let_def split: if_splits)
  next
    case False
    let ?t = "(if ?b then ''-'' else []) @ d @ f @ e"
    have v: "v = JDec ?t" using assms d f e False by (auto simp: parse_number_def Let_def)
    have "hd d \<noteq> CHR ''-''" using nd by (cases d) (auto simp: digit_string_def js_digit_def)
    then have b: "(take 1 ?t = ''-'') = ?b" using nd by (cases d) (auto simp: digit_string_def)
    have "json_nat (d @ f @ e) = Some (d, f @ e)" by (rule nat_read) (use nd frac_exp_start [OF nf ne] in auto)
    then have "json_nat (if ?b then drop 1 ?t else ?t) = Some (d, f @ e)" by simp
    from parse_number_parts [OF b this frac_read [OF nf ne] exp_read [OF ne] False]
    have "parse_number ?t = Some (JDec ?t, [])" .
    then show ?thesis using v by simp
  qed
qed

lemma obj_of_wf:
  "list_all (\<lambda>p. wf_json (snd p)) ms \<Longrightarrow> wf_json (JObj (obj_of ms))"
proof -
  have "list_all (\<lambda>p. wf_json (snd p)) ms \<Longrightarrow> distinct (map fst m) \<Longrightarrow>
      list_all (\<lambda>p. wf_json (snd p)) m \<Longrightarrow>
      distinct (map fst (foldl (\<lambda>m (k, v). jset m k v) m ms)) \<and>
      list_all (\<lambda>p. wf_json (snd p)) (foldl (\<lambda>m (k, v). jset m k v) m ms)" for m
  proof (induction ms arbitrary: m)
    case Nil
    then show ?case by simp
  next
    case (Cons p ms)
    obtain k v where p: "p = (k, v)" by (cases p)
    have "list_all (\<lambda>p. wf_json (snd p)) (jset m k v)"
      using jset_all [of m wf_json v k] Cons.prems p by (simp add: list_all_iff)
    then show ?case using Cons.IH [of "jset m k v"] Cons.prems p by (simp add: distinct_update)
  qed
  from this [of "[]"] show "list_all (\<lambda>p. wf_json (snd p)) ms \<Longrightarrow> wf_json (JObj (obj_of ms))"
    by (simp add: obj_of_def)
qed

lemma wf_empty: "wf_json (JObj [])"
  by simp

lemma parse_wf:
  "(\<forall>s v r. parse_value f s = Some (v, r) \<longrightarrow> wf_json v) \<and>
   (\<forall>s vs r. parse_elems f s = Some (vs, r) \<longrightarrow> list_all wf_json vs) \<and>
   (\<forall>s ms r. parse_members f s = Some (ms, r) \<longrightarrow> list_all (\<lambda>p. wf_json (snd p)) ms)"
proof (induction f)
  case 0
  show ?case by simp
next
  case (Suc f)
  note V = Suc.IH [THEN conjunct1, rule_format]
    and E = Suc.IH [THEN conjunct2, THEN conjunct1, rule_format]
    and M = Suc.IH [THEN conjunct2, THEN conjunct2, rule_format]
  have v: "wf_json v" if p: "parse_value (Suc f) s = Some (v, r)" for s v r
    using p wf_empty
    by (auto split: list.splits if_splits dest: E M parse_number_wf intro: obj_of_wf simp del: wf_json.simps(3))
  have e: "list_all wf_json vs" if p: "parse_elems (Suc f) s = Some (vs, r)" for s vs r
    using p V [of s] E by (fastforce split: option.splits list.splits if_splits)
  have m: "list_all (\<lambda>p. wf_json (snd p)) ms" if p: "parse_members (Suc f) s = Some (ms, r)" for s ms r
    using p V M by (fastforce split: option.splits list.splits if_splits)
  show ?case using v e m by blast
qed

lemma JSON_parse_wf: "JSON_parse s = Some v \<Longrightarrow> wf_json v"
  using parse_wf [of "length s", THEN conjunct1, rule_format, of s]
  by (auto simp: JSON_parse_def split: option.splits if_splits)

end
