(* ===== verification/Freerun_Types.thy ===== *)
theory Freerun_Types
  imports Json
begin

text \<open>
  The data of the freerun mode (freerun/types.ts): the nodes of the plan tree, the decisions,
  the binding of a goal, the outcomes of the model and the meta data of a session, with the
  conditions their schemas check. Only the dials of the configuration that some code reads are
  fields. Lengths count bytes.
\<close>

datatype NodeMode = Pending_plan | Pending_exec | Doing | Decomposed | Mode_done | Mode_blocked

record DecisionEntry =
  decision :: string
  rationale :: string

datatype GoalBinding =
    Conversation_goal string
  | Plan_task (plan_slug: string) (task_id: string) (task_text: string) (acceptance_criteria: "string list")

record ContextNode =
  node_id :: string
  parent_id :: "string option"
  children_ids :: "string list"
  title :: string
  body :: string
  mode :: NodeMode
  created_at :: string
  iteration_count :: int
  updated_at :: "string option"
  observations :: "string list"
  decisions :: "DecisionEntry list"
  blockers :: "string list"
  results :: json
  next_intent :: string
  consolidated_summary :: "string option"
  relevant_tools :: "string list option"
  relevant_skills :: "string list option"
  goal_binding :: "GoalBinding option"

datatype TriggerMode = Trigger_cron | Trigger_watchdog | Trigger_goal

datatype FreerunFinalStatus =
  In_progress | Status_done | Status_blocked | Cap_reached | Paused | User_interrupted | Status_error

record ExperimentConfig =
  top_levels_to_plan :: nat
  iteration_cap :: nat
  summary_token_cap_consolidation :: nat

definition default_config :: ExperimentConfig where
  "default_config = \<lparr>top_levels_to_plan = 3, iteration_cap = 500, summary_token_cap_consolidation = 300\<rparr>"

record FreerunSessionMeta =
  meta_session_id :: string
  trigger_mode :: TriggerMode
  meta_provider_id :: string
  meta_user_id :: string
  root_node_id :: string
  started_at :: string
  ended_at :: "string option"
  final_status :: FreerunFinalStatus
  total_iterations :: nat
  experiment_config :: ExperimentConfig
  experiment_config_id :: string

record PlannedChild =
  child_id :: string
  child_title :: string
  child_body :: string
  child_mode :: "NodeMode option"
  child_tools :: "string list option"
  child_skills :: "string list option"

type_synonym PlanningOutcome = "PlannedChild list"

record ExecutionOutcome =
  out_observations :: "string list"
  out_decisions :: "DecisionEntry list"
  out_blockers :: "string list"
  out_results :: json
  out_next_intent :: string
  out_next_mode :: NodeMode

section \<open>What the schemas check\<close>

text \<open>\<open>/^[a-z0-9][a-z0-9._-]*$/\<close>\<close>

definition id_head :: "char \<Rightarrow> bool" where
  [js_defs]: "id_head c \<longleftrightarrow> js_digit c \<or> 97 \<le> (of_char c :: nat) \<and> (of_char c :: nat) \<le> 122"

definition id_char :: "char \<Rightarrow> bool" where
  [js_defs]: "id_char c \<longleftrightarrow> id_head c \<or> c \<in> {CHR ''.'', CHR ''_'', CHR ''-''}"

definition valid_id :: "string \<Rightarrow> bool" where
  [js_defs]: "valid_id s \<longleftrightarrow> (case s of [] \<Rightarrow> False | c # t \<Rightarrow> id_head c \<and> list_all id_char t)"

definition valid_decision :: "DecisionEntry \<Rightarrow> bool" where
  "valid_decision d \<longleftrightarrow> decision d \<noteq> [] \<and> 10 \<le> length (rationale d)"

definition nonempty :: "string \<Rightarrow> bool" where
  "nonempty s \<longleftrightarrow> s \<noteq> []"

fun valid_binding :: "GoalBinding \<Rightarrow> bool" where
  "valid_binding (Conversation_goal t) \<longleftrightarrow> t \<noteq> []"
| "valid_binding (Plan_task p i t cs) \<longleftrightarrow> p \<noteq> [] \<and> i \<noteq> [] \<and> t \<noteq> [] \<and> list_all nonempty cs"

definition valid_node :: "ContextNode \<Rightarrow> bool" where
  "valid_node n \<longleftrightarrow>
     valid_id (node_id n) \<and> title n \<noteq> [] \<and> 0 \<le> iteration_count n \<and>
     list_all nonempty (observations n) \<and> list_all valid_decision (decisions n) \<and>
     list_all nonempty (blockers n) \<and>
     (case goal_binding n of None \<Rightarrow> True | Some b \<Rightarrow> valid_binding b)"

definition valid_planning :: "PlanningOutcome \<Rightarrow> bool" where
  "valid_planning cs \<longleftrightarrow>
     cs \<noteq> [] \<and> list_all (\<lambda>c. valid_id (child_id c) \<and> child_title c \<noteq> []) cs"

definition valid_execution :: "ExecutionOutcome \<Rightarrow> bool" where
  "valid_execution x \<longleftrightarrow>
     list_all nonempty (out_observations x) \<and> list_all valid_decision (out_decisions x) \<and>
     list_all nonempty (out_blockers x) \<and>
     out_next_mode x \<in> {Mode_done, Mode_blocked, Pending_plan}"

lemma id_char_facts:
  assumes "id_char c"
  shows "c \<noteq> CHR 0x0A" and "\<not> js_space c" and "c \<noteq> CHR ''/''"
  using assms by (auto simp: id_char_def id_head_def js_digit_def js_space_def)

lemma valid_id_chars: "valid_id s \<Longrightarrow> list_all id_char s"
  by (auto simp: valid_id_def id_char_def split: list.splits)

lemma valid_id_nonempty: "valid_id s \<Longrightarrow> s \<noteq> []"
  by (auto simp: valid_id_def)

lemma valid_id_dot: "valid_id p \<Longrightarrow> valid_id c \<Longrightarrow> valid_id (p @ ''.'' @ c)"
  by (auto simp: valid_id_def id_char_def split: list.splits)

end
