(* ===== verification/Js_Text.thy ===== *)
theory Js_Text
  imports Js_Prelude
begin

text \<open>
  Substrings as the JavaScript string methods see them: \<open>indexOf\<close>, \<open>lastIndexOf\<close>, \<open>substring\<close>,
  \<open>trimEnd\<close>, \<open>replaceAll\<close> with its dollar patterns, and texts as lists of lines.
\<close>

section \<open>Occurrences\<close>

definition occurs_at :: "string \<Rightarrow> string \<Rightarrow> nat \<Rightarrow> bool" where
  "occurs_at p s k \<longleftrightarrow> k + length p \<le> length s \<and> take (length p) (drop k s) = p"

text \<open>\<open>s.indexOf(p)\<close>, \<open>s.indexOf(p, k)\<close> and \<open>s.lastIndexOf(p)\<close>.\<close>

fun js_find :: "string \<Rightarrow> string \<Rightarrow> nat option" where
  "js_find p [] = (if p = [] then Some 0 else None)"
| "js_find p (c # s) =
     (if js_starts_with (c # s) p then Some 0 else map_option Suc (js_find p s))"

definition js_find_from :: "string \<Rightarrow> string \<Rightarrow> nat \<Rightarrow> nat option" where
  [js_defs]: "js_find_from p s k = map_option (\<lambda>i. k + i) (js_find p (drop k s))"

fun js_find_last :: "string \<Rightarrow> string \<Rightarrow> nat option" where
  "js_find_last p [] = (if p = [] then Some 0 else None)"
| "js_find_last p (c # s) =
     (case js_find_last p s of
        Some k \<Rightarrow> Some (Suc k)
      | None \<Rightarrow> if js_starts_with (c # s) p then Some 0 else None)"

text \<open>\<open>s.substring(a, b)\<close> for \<open>a \<le> b\<close>.\<close>

definition js_substring :: "string \<Rightarrow> nat \<Rightarrow> nat \<Rightarrow> string" where
  [js_defs]: "js_substring s a b = take (b - a) (drop a s)"

text \<open>The text before and after the first occurrence.\<close>

fun js_cut :: "string \<Rightarrow> string \<Rightarrow> (string \<times> string) option" where
  "js_cut p [] = (if p = [] then Some ([], []) else None)"
| "js_cut p (c # s) =
     (if js_starts_with (c # s) p then Some ([], drop (length p) (c # s))
      else map_option (\<lambda>(a, b). (c # a, b)) (js_cut p s))"

definition js_trim_end :: "string \<Rightarrow> string" where
  [js_defs]: "js_trim_end s = rev (dropWhile js_space (rev s))"

lemma starts_with_iff_occurs: "js_starts_with s p \<longleftrightarrow> occurs_at p s 0"
  by (auto simp: js_starts_with_def occurs_at_def dest: arg_cong [where f = length])

lemma occurs_at_Nil: "occurs_at p [] k \<longleftrightarrow> p = [] \<and> k = 0"
  by (auto simp: occurs_at_def)

lemma occurs_at_Suc: "occurs_at p (c # s) (Suc k) \<longleftrightarrow> occurs_at p s k"
  by (simp add: occurs_at_def)

lemma occurs_at_bound: "occurs_at p s k \<Longrightarrow> k + length p \<le> length s"
  by (simp add: occurs_at_def)

lemma occurs_at_split: "occurs_at p s k \<longleftrightarrow> (\<exists>a b. s = a @ p @ b \<and> length a = k)"
proof
  assume o: "occurs_at p s k"
  have "s = take k s @ take (length p) (drop k s) @ drop (length p) (drop k s)"
    by (simp only: append_take_drop_id)
  then show "\<exists>a b. s = a @ p @ b \<and> length a = k" using o unfolding occurs_at_def
    by (intro exI [of _ "take k s"] exI [of _ "drop (length p) (drop k s)"]) auto
qed (auto simp: occurs_at_def)

lemma js_find_Some: "js_find p s = Some k \<longleftrightarrow> occurs_at p s k \<and> (\<forall>j < k. \<not> occurs_at p s j)"
proof (induction s arbitrary: k)
  case Nil
  then show ?case by (auto simp: occurs_at_Nil)
next
  case (Cons c s)
  show ?case
  proof (cases k)
    case 0
    then show ?thesis by (auto simp: starts_with_iff_occurs)
  next
    case (Suc j)
    then show ?thesis using Cons.IH
      by (auto simp: starts_with_iff_occurs occurs_at_Suc less_Suc_eq_0_disj)
  qed
qed

lemma js_find_None: "js_find p s = None \<longleftrightarrow> (\<forall>k. \<not> occurs_at p s k)"
proof (induction s)
  case Nil
  then show ?case by (auto simp: occurs_at_Nil)
next
  case (Cons c s)
  have "(\<forall>k. \<not> occurs_at p (c # s) k) \<longleftrightarrow> \<not> occurs_at p (c # s) 0 \<and> (\<forall>k. \<not> occurs_at p s k)"
    by (metis not0_implies_Suc occurs_at_Suc)
  then show ?case using Cons.IH by (auto simp: starts_with_iff_occurs)
qed

lemma js_find_last_None: "js_find_last p s = None \<longleftrightarrow> (\<forall>k. \<not> occurs_at p s k)"
proof (induction s)
  case Nil
  then show ?case by (auto simp: occurs_at_Nil)
next
  case (Cons c s)
  have "(\<forall>k. \<not> occurs_at p (c # s) k) \<longleftrightarrow> \<not> occurs_at p (c # s) 0 \<and> (\<forall>k. \<not> occurs_at p s k)"
    by (metis not0_implies_Suc occurs_at_Suc)
  then show ?case using Cons.IH by (auto simp: starts_with_iff_occurs split: option.splits)
qed

lemma js_find_last_Some:
  "js_find_last p s = Some k \<longleftrightarrow> occurs_at p s k \<and> (\<forall>j. occurs_at p s j \<longrightarrow> j \<le> k)"
proof (induction s arbitrary: k)
  case Nil
  then show ?case by (auto simp: occurs_at_Nil)
next
  case (Cons c s)
  show ?case
  proof (cases "js_find_last p s")
    case None
    then have "\<not> occurs_at p s j" for j by (simp add: js_find_last_None)
    then have "occurs_at p (c # s) j \<longrightarrow> j = 0" for j by (cases j) (simp_all add: occurs_at_Suc)
    then show ?thesis using None by (auto simp: starts_with_iff_occurs)
  next
    case (Some i)
    then have i: "occurs_at p s i" "\<And>j. occurs_at p s j \<Longrightarrow> j \<le> i" using Cons.IH by auto
    have "occurs_at p (c # s) j \<Longrightarrow> j \<le> Suc i" for j
      using i(2) by (cases j) (simp_all add: occurs_at_Suc)
    then show ?thesis using Some i(1) by (auto simp: occurs_at_Suc intro: antisym)
  qed
qed

text \<open>A text occurs once when \<open>indexOf\<close> and \<open>lastIndexOf\<close> agree.\<close>

lemma unique_occurrence:
  "js_find p s = Some k \<and> js_find_last p s = Some k \<longleftrightarrow> occurs_at p s k \<and> (\<forall>j. occurs_at p s j \<longrightarrow> j = k)"
  unfolding js_find_Some js_find_last_Some by (metis antisym_conv2 le_less not_less)

lemma js_includes_occurs: "js_includes s p \<longleftrightarrow> (\<exists>k. occurs_at p s k)"
proof (induction s)
  case Nil
  then show ?case by (auto simp: occurs_at_Nil)
next
  case (Cons c s)
  have "(\<exists>k. occurs_at p (c # s) k) \<longleftrightarrow> occurs_at p (c # s) 0 \<or> (\<exists>k. occurs_at p s k)"
    by (metis not0_implies_Suc occurs_at_Suc)
  then show ?case using Cons.IH by (simp add: starts_with_iff_occurs [symmetric] js_starts_with_def)
qed

section \<open>Replacing\<close>

text \<open>The dollar patterns of a replacement text: the matched text, what precedes and what follows it.\<close>

fun js_expand :: "string \<Rightarrow> string \<Rightarrow> string \<Rightarrow> string \<Rightarrow> string" where
  "js_expand m pre post [] = []"
| "js_expand m pre post [c] = [c]"
| "js_expand m pre post (c # d # t) =
     (if c = CHR ''$'' \<and> d = CHR ''$'' then CHR ''$'' # js_expand m pre post t
      else if c = CHR ''$'' \<and> d = CHR ''&'' then m @ js_expand m pre post t
      else if c = CHR ''$'' \<and> d = CHR ''`'' then pre @ js_expand m pre post t
      else if c = CHR ''$'' \<and> d = CHR 0x27 then post @ js_expand m pre post t
      else c # js_expand m pre post (d # t))"

text \<open>\<open>replaceAll\<close> from a position on; \<open>pre\<close> is the text before it.\<close>

function replace_from :: "string \<Rightarrow> string \<Rightarrow> string \<Rightarrow> string \<Rightarrow> string" where
  "replace_from p new pre s =
     (if p = [] then
        js_expand [] pre s new @ (case s of [] \<Rightarrow> [] | c # t \<Rightarrow> c # replace_from p new (pre @ [c]) t)
      else if js_starts_with s p then
        js_expand p pre (drop (length p) s) new @ replace_from p new (pre @ p) (drop (length p) s)
      else case s of [] \<Rightarrow> [] | c # t \<Rightarrow> c # replace_from p new (pre @ [c]) t)"
  by pat_completeness auto
termination
proof (relation "measure (length \<circ> snd \<circ> snd \<circ> snd)")
  fix p new pre s :: string
  assume "p \<noteq> []" "js_starts_with s p"
  then have "s \<noteq> []" by (auto simp: js_starts_with_def)
  then show "((p, new, pre @ p, drop (length p) s), p, new, pre, s) \<in>
      measure (length \<circ> snd \<circ> snd \<circ> snd)"
    using \<open>p \<noteq> []\<close> by simp
qed auto

declare replace_from.simps [simp del]

definition js_replaceAll :: "string \<Rightarrow> string \<Rightarrow> string \<Rightarrow> string" where
  "js_replaceAll s p new = replace_from p new [] s"

lemma js_expand_plain: "CHR ''$'' \<notin> set new \<Longrightarrow> js_expand m pre post new = new"
  by (induction m pre post new rule: js_expand.induct) auto

section \<open>Lines\<close>

abbreviation newline :: char where "newline \<equiv> CHR 0x0A"

lemma js_join_cons: "ws \<noteq> [] \<Longrightarrow> js_join sep (w # ws) = w @ sep @ js_join sep ws"
  by (cases ws) auto

lemma js_join_append:
  "xs \<noteq> [] \<Longrightarrow> ys \<noteq> [] \<Longrightarrow> js_join sep (xs @ ys) = js_join sep xs @ sep @ js_join sep ys"
proof (induction xs)
  case (Cons x xs)
  then show ?case by (cases xs) (simp_all add: js_join_cons)
qed simp

lemma js_split_parts: "w \<in> set (js_split d s) \<Longrightarrow> d \<notin> set w"
  by (induction s arbitrary: w) (auto split: list.splits if_splits)

end
