(* ===== verification/Node_FS.thy ===== *)
theory Node_FS
  imports Freerun_Types Js_Text "HOL-Library.Monad_Syntax"
begin

text \<open>
  The files of the freerun tree (freerun/storage/node-fs.ts): \<open>serialize\<close> writes the front matter,
  the body and the state block of a node, \<open>deserialize\<close> reads them. A check that throws is \<open>None\<close>.
\<close>

section \<open>Writing a node\<close>

fun mode_text :: "NodeMode \<Rightarrow> string" where
  "mode_text Pending_plan = ''pending-plan''"
| "mode_text Pending_exec = ''pending-exec''"
| "mode_text Doing = ''doing''"
| "mode_text Decomposed = ''decomposed''"
| "mode_text Mode_done = ''done''"
| "mode_text Mode_blocked = ''blocked''"

definition json_strings :: "string list \<Rightarrow> json" where
  "json_strings xs = JArr (map JStr xs)"

definition json_nullable :: "string option \<Rightarrow> json" where
  "json_nullable x = (case x of None \<Rightarrow> JNull | Some s \<Rightarrow> JStr s)"

definition json_decision :: "DecisionEntry \<Rightarrow> json" where
  "json_decision d = JObj [(''decision'', JStr (decision d)), (''rationale'', JStr (rationale d))]"

fun json_binding :: "GoalBinding \<Rightarrow> json" where
  "json_binding (Conversation_goal t) =
     JObj [(''source'', JStr ''conversation-goal''), (''goal_text'', JStr t)]"
| "json_binding (Plan_task p i t cs) =
     JObj [(''source'', JStr ''plan-task''), (''plan_slug'', JStr p), (''task_id'', JStr i),
           (''task_text'', JStr t), (''acceptance_criteria'', json_strings cs)]"

definition opt_entry :: "string \<Rightarrow> ('a \<Rightarrow> json) \<Rightarrow> 'a option \<Rightarrow> (string \<times> json) list" where
  "opt_entry k f x = (case x of None \<Rightarrow> [] | Some v \<Rightarrow> [(k, f v)])"

definition frontmatter_entries :: "ContextNode \<Rightarrow> (string \<times> json) list" where
  "frontmatter_entries n =
     [(''id'', JStr (node_id n)), (''parent_id'', json_nullable (parent_id n)),
      (''children_ids'', json_strings (children_ids n)), (''title'', JStr (title n)),
      (''mode'', JStr (mode_text (mode n))), (''created_at'', JStr (created_at n))] @
     opt_entry ''updated_at'' JStr (updated_at n) @
     [(''iteration_count'', JInt (iteration_count n))] @
     opt_entry ''goal_binding'' json_binding (goal_binding n) @
     opt_entry ''relevant_tools'' json_strings (relevant_tools n) @
     opt_entry ''relevant_skills'' json_strings (relevant_skills n)"

definition state_entries :: "ContextNode \<Rightarrow> (string \<times> json) list" where
  "state_entries n =
     [(''observations'', json_strings (observations n)),
      (''decisions'', JArr (map json_decision (decisions n))),
      (''blockers'', json_strings (blockers n)),
      (''results'', results n),
      (''next_intent'', JStr (next_intent n)),
      (''consolidated_summary'', json_nullable (consolidated_summary n))]"

definition STATE_FENCE_OPEN :: string where
  [js_defs]: "STATE_FENCE_OPEN = ''```json freerun-state''"

definition STATE_FENCE_CLOSE :: string where
  [js_defs]: "STATE_FENCE_CLOSE = ''```''"

definition fm_line :: "string \<times> json \<Rightarrow> string" where
  "fm_line e = fst e @ '': '' @ JSON_stringify (snd e)"

definition serialize :: "ContextNode \<Rightarrow> string option" where
  "serialize n =
     (if \<not> valid_node n then None
      else Some
        (js_join [newline] ([''---''] @ map fm_line (frontmatter_entries n) @ [''---'', []]) @
         (if body n \<noteq> [] then body n @ [newline, newline] else []) @
         STATE_FENCE_OPEN @ [newline] @ JSON_stringify_indent 2 (JObj (state_entries n)) @
         [newline] @ STATE_FENCE_CLOSE @ [newline]))"

section \<open>Reading a node\<close>

definition splitSections :: "string \<Rightarrow> (string \<times> string \<times> string) option" where
  "splitSections text =
     (if \<not> js_starts_with text (''---'' @ [newline]) then None
      else case js_cut ([newline] @ ''---'' @ [newline]) (drop 4 text) of
        None \<Rightarrow> None
      | Some (frontmatter, afterFm) \<Rightarrow>
          (case js_cut STATE_FENCE_OPEN afterFm of
             None \<Rightarrow> None
           | Some (b, rest) \<Rightarrow>
               (case js_cut (newline # STATE_FENCE_CLOSE)
                       (if js_starts_with rest [newline] then drop 1 rest else rest) of
                  None \<Rightarrow> None
                | Some (state, _) \<Rightarrow> Some (frontmatter, js_trim_end b, state))))"

fun parseFrontmatter :: "string list \<Rightarrow> (string, json) jmap \<Rightarrow> (string, json) jmap option" where
  "parseFrontmatter [] out = Some out"
| "parseFrontmatter (raw # lines) out =
     (if js_trim_end raw = [] then parseFrontmatter lines out
      else case js_cut '':'' (js_trim_end raw) of
        None \<Rightarrow> None
      | Some (key, valueText) \<Rightarrow>
          (case JSON_parse (js_trim valueText) of
             None \<Rightarrow> None
           | Some v \<Rightarrow> parseFrontmatter lines (jset out (js_trim key) v)))"

definition parseStateBlock :: "string \<Rightarrow> (string, json) jmap option" where
  "parseStateBlock block = (case JSON_parse block of Some (JObj ms) \<Rightarrow> Some ms | _ \<Rightarrow> None)"

text \<open>\<open>{...a, ...b}\<close>\<close>

definition js_spread :: "('k, 'v) jmap \<Rightarrow> ('k, 'v) jmap \<Rightarrow> ('k, 'v) jmap" where
  [js_defs]: "js_spread m ps = foldl (\<lambda>m (k, v). jset m k v) m ps"

section \<open>The schema of a node\<close>

fun mode_of_text :: "string \<Rightarrow> NodeMode option" where
  "mode_of_text t = map_of
     [(''pending-plan'', Pending_plan), (''pending-exec'', Pending_exec), (''doing'', Doing),
      (''decomposed'', Decomposed), (''done'', Mode_done), (''blocked'', Mode_blocked)] t"

fun dec_str :: "json \<Rightarrow> string option" where
  "dec_str (JStr s) = Some s"
| "dec_str _ = None"

fun dec_int :: "json \<Rightarrow> int option" where
  "dec_int (JInt i) = Some i"
| "dec_int _ = None"

fun dec_nullable :: "json \<Rightarrow> string option option" where
  "dec_nullable JNull = Some None"
| "dec_nullable (JStr s) = Some (Some s)"
| "dec_nullable _ = None"

fun dec_arr :: "(json \<Rightarrow> 'a option) \<Rightarrow> json \<Rightarrow> 'a list option" where
  "dec_arr d (JArr vs) = those (map d vs)"
| "dec_arr d _ = None"

definition fld :: "(string, json) jmap \<Rightarrow> string \<Rightarrow> 'a option \<Rightarrow> (json \<Rightarrow> 'a option) \<Rightarrow> 'a option" where
  "fld m k missing d = (case jget m k of None \<Rightarrow> missing | Some v \<Rightarrow> d v)"

definition optional :: "(json \<Rightarrow> 'a option) \<Rightarrow> json \<Rightarrow> 'a option option" where
  "optional d v = map_option Some (d v)"

fun dec_decision :: "json \<Rightarrow> DecisionEntry option" where
  "dec_decision (JObj m) = do {
     d \<leftarrow> fld m ''decision'' None dec_str;
     r \<leftarrow> fld m ''rationale'' None dec_str;
     Some \<lparr>decision = d, rationale = r\<rparr> }"
| "dec_decision _ = None"

fun dec_binding :: "json \<Rightarrow> GoalBinding option" where
  "dec_binding (JObj m) = do {
     src \<leftarrow> fld m ''source'' None dec_str;
     if src = ''conversation-goal'' then do {
       t \<leftarrow> fld m ''goal_text'' None dec_str;
       Some (Conversation_goal t) }
     else if src = ''plan-task'' then do {
       p \<leftarrow> fld m ''plan_slug'' None dec_str;
       i \<leftarrow> fld m ''task_id'' None dec_str;
       t \<leftarrow> fld m ''task_text'' None dec_str;
       cs \<leftarrow> fld m ''acceptance_criteria'' (Some []) (dec_arr dec_str);
       Some (Plan_task p i t cs) }
     else None }"
| "dec_binding _ = None"

definition ContextNode_parse :: "(string, json) jmap \<Rightarrow> ContextNode option" where
  "ContextNode_parse m = do {
     i \<leftarrow> fld m ''id'' None dec_str;
     p \<leftarrow> fld m ''parent_id'' None dec_nullable;
     cs \<leftarrow> fld m ''children_ids'' (Some []) (dec_arr dec_str);
     t \<leftarrow> fld m ''title'' None dec_str;
     b \<leftarrow> fld m ''body'' (Some []) dec_str;
     md \<leftarrow> fld m ''mode'' None (\<lambda>v. Option.bind (dec_str v) mode_of_text);
     ca \<leftarrow> fld m ''created_at'' None dec_str;
     ic \<leftarrow> fld m ''iteration_count'' (Some 0) dec_int;
     ua \<leftarrow> fld m ''updated_at'' (Some None) (optional dec_str);
     obs \<leftarrow> fld m ''observations'' (Some []) (dec_arr dec_str);
     ds \<leftarrow> fld m ''decisions'' (Some []) (dec_arr dec_decision);
     bs \<leftarrow> fld m ''blockers'' (Some []) (dec_arr dec_str);
     rs \<leftarrow> fld m ''results'' (Some JNull) Some;
     ni \<leftarrow> fld m ''next_intent'' (Some []) dec_str;
     sm \<leftarrow> fld m ''consolidated_summary'' (Some None) dec_nullable;
     rt \<leftarrow> fld m ''relevant_tools'' (Some None) (optional (dec_arr dec_str));
     sk \<leftarrow> fld m ''relevant_skills'' (Some None) (optional (dec_arr dec_str));
     gb \<leftarrow> fld m ''goal_binding'' (Some None) (optional dec_binding);
     let n = \<lparr>node_id = i, parent_id = p, children_ids = cs, title = t, body = b, mode = md,
              created_at = ca, iteration_count = ic, updated_at = ua, observations = obs,
              decisions = ds, blockers = bs, results = rs, next_intent = ni,
              consolidated_summary = sm, relevant_tools = rt, relevant_skills = sk,
              goal_binding = gb\<rparr>
     in if valid_node n then Some n else None }"

definition deserialize :: "string \<Rightarrow> ContextNode option" where
  "deserialize text = do {
     (frontmatter, b, stateBlock) \<leftarrow> splitSections text;
     fm \<leftarrow> parseFrontmatter (js_split newline frontmatter) [];
     st \<leftarrow> parseStateBlock stateBlock;
     ContextNode_parse (jset (js_spread fm st) ''body'' (JStr b)) }"

section \<open>The pieces of a written file\<close>

lemma starts_with_before:
  assumes "js_starts_with (v @ c # r) p" and "c \<notin> set p"
  shows "js_starts_with v p"
proof -
  obtain t where t: "v @ c # r = p @ t" using assms(1) by (auto simp: js_starts_with_iff)
  have "length p \<le> length v"
  proof (rule ccontr)
    assume "\<not> length p \<le> length v"
    then have "p ! length v = c" using t by (metis not_le nth_append nth_append_length)
    then show False using assms(2) \<open>\<not> length p \<le> length v\<close> by (metis not_le nth_mem)
  qed
  then have "p = take (length p) v" using t by (metis append_eq_conv_conj take_append take_all_iff
      diff_is_0_eq take0 append_Nil2)
  then show ?thesis by (simp add: js_starts_with_def)
qed

lemma js_cut_clear:
  assumes "\<not> js_includes b p" and "c \<notin> set p" and "p \<noteq> []"
  shows "js_cut p (b @ c # s) = map_option (\<lambda>(u, r). (b @ c # u, r)) (js_cut p s)"
  using assms(1)
proof (induction b)
  case Nil
  have "\<not> js_starts_with (c # s) p"
    using starts_with_before [of "[]" c s p] assms(2,3) by (auto simp: js_starts_with_def)
  then show ?case by simp
next
  case (Cons d b)
  have "\<not> js_starts_with (d # b @ c # s) p"
    using starts_with_before [of "d # b" c s p] assms(2) Cons.prems by (auto simp: js_starts_with_def)
  then show ?case using Cons by (simp add: option.map_comp o_def case_prod_beta split: option.splits)
qed

lemma js_cut_here: "p \<noteq> [] \<Longrightarrow> js_cut p (p @ r) = Some ([], r)"
  by (cases p) (simp_all add: js_starts_with_def)

lemma js_cut_char: "c \<notin> set a \<Longrightarrow> js_cut [c] (a @ c # r) = Some (a, r)"
  by (induction a) (auto simp: js_starts_with_def)

text \<open>Every line break of \<open>s\<close> is followed by a character other than \<open>c\<close>.\<close>

fun nl_not :: "char \<Rightarrow> string \<Rightarrow> bool" where
  "nl_not c [] \<longleftrightarrow> True"
| "nl_not c (x # s) \<longleftrightarrow> (x = newline \<longrightarrow> s \<noteq> [] \<and> hd s \<noteq> c) \<and> nl_not c s"

lemma nl_not_append: "nl_not c a \<Longrightarrow> nl_not c b \<Longrightarrow> nl_not c (a @ b)"
  by (induction a) (auto simp: hd_append)

lemma nl_not_frame:
  "nl_not c a \<Longrightarrow> nl_not c b \<Longrightarrow> nl_not c d \<Longrightarrow> nl_not c (a @ b @ d)"
  by (intro nl_not_append)

lemma nl_not_none: "newline \<notin> set s \<Longrightarrow> nl_not c s"
  by (induction s) auto

lemma js_cut_nl:
  "nl_not c a \<Longrightarrow> js_cut (newline # c # p) (a @ newline # c # p @ r) = Some (a, r)"
proof (induction a)
  case Nil
  show ?case by (simp add: js_starts_with_def)
next
  case (Cons x a)
  have "\<not> js_starts_with ((x # a) @ newline # c # p @ r) (newline # c # p)"
    using Cons.prems by (cases a) (auto simp: js_starts_with_def)
  then show ?case using Cons by simp
qed

lemma hex_digit_solid: "k < 16 \<Longrightarrow> hex_digit k \<noteq> newline"
proof -
  assume k: "k < 16"
  have "k < 10 \<Longrightarrow> (of_char (hex_digit k) :: nat) = 48 + k" by (simp add: hex_digit_def)
  moreover have "\<not> k < 10 \<Longrightarrow> (of_char (hex_digit k) :: nat) = 87 + k"
    using k by (simp add: hex_digit_def)
  ultimately show ?thesis by (subst code_char) (cases "k < 10", auto)
qed

lemma js_escape_line: "newline \<notin> set (js_escape c)"
proof -
  have c: "c = newline \<longleftrightarrow> (of_char c :: nat) = 10" by (subst code_char) simp
  have "(of_char c :: nat) < 32 \<Longrightarrow> of_char c div 16 < (16 :: nat) \<and> of_char c mod 16 < (16 :: nat)"
    by simp
  then have "(of_char c :: nat) < 32 \<Longrightarrow>
      hex_digit (of_char c div 16) \<noteq> newline \<and> hex_digit (of_char c mod 16) \<noteq> newline"
    using hex_digit_solid by blast
  then show ?thesis using c by (auto simp: js_escape_def Let_def)
qed

lemma js_quote_line: "newline \<notin> set (js_quote s)"
  using js_escape_line by (auto simp: js_quote_def)

lemma digits_line: "list_all js_digit s \<Longrightarrow> newline \<notin> set s"
  by (auto simp: list_all_iff js_digit_def)

lemma js_show_int_line: "newline \<notin> set (js_show_int i)"
  using digits_line [OF js_show_nat_digits] by (auto simp: js_show_int_def)

lemma json_digits_line: "json_digits s = Some (d, r) \<Longrightarrow> newline \<notin> set d"
  by (auto simp: json_digits_def js_digit_def dest!: set_takeWhileD split: if_splits)

lemma parse_number_line:
  assumes "parse_number s = Some (JDec t, r)"
  shows "newline \<notin> set t"
proof -
  let ?b = "take 1 s = ''-''"
  obtain d s1 where d: "json_nat (if ?b then drop 1 s else s) = Some (d, s1)"
    using assms by (auto simp: parse_number_def Let_def split: option.splits prod.splits)
  obtain f s2 where f: "json_frac s1 = Some (f, s2)"
    using assms d by (auto simp: parse_number_def Let_def split: option.splits prod.splits)
  obtain e s3 where e: "json_exp s2 = Some (e, s3)"
    using assms d f by (auto simp: parse_number_def Let_def split: option.splits prod.splits)
  have t: "t = (if ?b then ''-'' else []) @ d @ f @ e"
    using assms d f e by (auto simp: parse_number_def Let_def split: if_splits)
  have "newline \<notin> set d" using d
    by (auto simp: json_nat_def dest!: json_digits_line split: option.splits if_splits)
  moreover have "newline \<notin> set f" using f
    by (auto simp: json_frac_def dest!: json_digits_line split: list.splits if_splits)
  moreover have "newline \<notin> set e" using e
    by (auto simp: json_exp_def dest!: json_digits_line split: list.splits if_splits)
  ultimately show ?thesis by (simp add: t)
qed

lemma js_join_line:
  "newline \<notin> set s \<Longrightarrow> \<forall>a \<in> set as. newline \<notin> set a \<Longrightarrow> newline \<notin> set (js_join s as)"
  by (induction as) (auto simp: json_join_cons)

lemma js_join_nl_not:
  "nl_not c s \<Longrightarrow> \<forall>a \<in> set as. nl_not c a \<Longrightarrow> nl_not c (js_join s as)"
  by (induction as) (auto simp: json_join_cons intro: nl_not_append)

text \<open>Compact output is a single line.\<close>

lemma stringify_line: "wf_json v \<Longrightarrow> newline \<notin> set (js_stringify [] i v)"
proof (induction v arbitrary: i)
  case (JDec t)
  then show ?case by (auto dest: parse_number_line)
next
  case (JArr vs)
  show ?case
  proof (cases vs)
    case (Cons v us)
    have "newline \<notin> set (js_join '','' (map (js_stringify [] i) vs))"
      by (rule js_join_line) (use JArr in \<open>auto simp: list_all_iff\<close>)
    then show ?thesis using Cons by (simp add: json_nl_def)
  qed simp
next
  case (JObj ms)
  show ?case
  proof (cases ms)
    case (Cons p us)
    have "newline \<notin> set (js_join '',''
        (map (\<lambda>(k, v). js_quote k @ '':'' @ js_stringify [] i v) ms))"
    proof (rule js_join_line)
      show "\<forall>a \<in> set (map (\<lambda>(k, v). js_quote k @ '':'' @ js_stringify [] i v) ms). newline \<notin> set a"
        using JObj js_quote_line by (fastforce simp: list_all_iff)
    qed simp
    then show ?thesis using Cons by (simp add: json_nl_def)
  qed simp
qed (simp_all add: js_show_int_line js_quote_line)

text \<open>No line of indented output starts with a back tick.\<close>

lemma json_nl_tick:
  assumes "list_all (\<lambda>x. x = CHR '' '') g" and "list_all (\<lambda>x. x = CHR '' '') i"
  shows "nl_not (CHR 0x60) (json_nl g (i @ g))"
    and "c \<noteq> newline \<Longrightarrow> c \<noteq> CHR 0x60 \<Longrightarrow> nl_not (CHR 0x60) (json_nl g i @ [c])"
proof -
  have sp: "hd a = CHR '' ''" if "list_all (\<lambda>x. x = CHR '' '') a" "a \<noteq> []" for a :: string
    using that by (cases a) auto
  have n: "newline \<notin> set a" if "list_all (\<lambda>x. x = CHR '' '') a" for a :: string
    using that by (induction a) auto
  have "list_all (\<lambda>x. x = CHR '' '') (i @ g)" using assms by simp
  then show "nl_not (CHR 0x60) (json_nl g (i @ g))"
    using sp [of "i @ g"] n [of "i @ g"] by (auto simp: json_nl_def intro!: nl_not_none)
  show "c \<noteq> newline \<Longrightarrow> c \<noteq> CHR 0x60 \<Longrightarrow> nl_not (CHR 0x60) (json_nl g i @ [c])"
    using sp [OF assms(2)] n [OF assms(2)]
    by (auto simp: json_nl_def hd_append intro!: nl_not_none)
qed

lemma stringify_tick:
  assumes g: "list_all (\<lambda>x. x = CHR '' '') g"
  shows "wf_json v \<Longrightarrow> list_all (\<lambda>x. x = CHR '' '') i \<Longrightarrow> nl_not (CHR 0x60) (js_stringify g i v)"
proof (induction v arbitrary: i)
  case (JDec t)
  then show ?case by (auto intro!: nl_not_none dest: parse_number_line)
next
  case (JArr vs)
  have i: "list_all (\<lambda>x. x = CHR '' '') (i @ g)" using JArr.prems g by simp
  show ?case
  proof (cases vs)
    case (Cons v us)
    have "nl_not (CHR 0x60) (js_join (CHR '','' # json_nl g (i @ g)) (map (js_stringify g (i @ g)) vs))"
      by (rule js_join_nl_not)
         (use JArr i json_nl_tick(1) [OF g JArr.prems(2)] in \<open>auto simp: list_all_iff\<close>)
    then have "nl_not (CHR 0x60) (''['' @ json_nl g (i @ g) @
        js_join (CHR '','' # json_nl g (i @ g)) (map (js_stringify g (i @ g)) vs) @ json_nl g i @ '']'')"
      using json_nl_tick [OF g JArr.prems(2)] by (simp add: nl_not_frame)
    then show ?thesis using Cons by simp
  qed (simp add: nl_not_none)
next
  case (JObj ms)
  have i: "list_all (\<lambda>x. x = CHR '' '') (i @ g)" using JObj.prems g by simp
  let ?e = "\<lambda>(k, v). js_quote k @ '':'' @ (if g = [] then [] else '' '') @ js_stringify g (i @ g) v"
  show ?case
  proof (cases ms)
    case (Cons p us)
    have "nl_not (CHR 0x60) (?e e)" if "e \<in> set ms" for e
    proof -
      obtain k v where e: "e = (k, v)" by (cases e)
      have "nl_not (CHR 0x60) (js_stringify g (i @ g) v)"
        using JObj i that e by (fastforce simp: list_all_iff)
      then have "nl_not (CHR 0x60)
          (js_quote k @ '':'' @ (if g = [] then [] else '' '') @ js_stringify g (i @ g) v)"
        by (intro nl_not_append) (auto intro: nl_not_none simp: js_quote_line)
      then show ?thesis by (simp add: e)
    qed
    then have "nl_not (CHR 0x60) (js_join (CHR '','' # json_nl g (i @ g)) (map ?e ms))"
      using json_nl_tick(1) [OF g JObj.prems(2)] by (intro js_join_nl_not) auto
    then have "nl_not (CHR 0x60) (''{'' @ json_nl g (i @ g) @
        js_join (CHR '','' # json_nl g (i @ g)) (map ?e ms) @ json_nl g i @ ''}'')"
      using json_nl_tick [OF g JObj.prems(2)] by (simp add: nl_not_frame)
    then show ?thesis using Cons by simp
  qed (simp add: nl_not_none)
qed (simp_all add: nl_not_none js_show_int_line js_quote_line)

section \<open>Reading what was written\<close>

lemma those_inverse: "(\<And>x. x \<in> set xs \<Longrightarrow> d (e x) = Some x) \<Longrightarrow> those (map d (map e xs)) = Some xs"
  by (induction xs) auto

lemma dropWhile_space_hd: "s \<noteq> [] \<Longrightarrow> \<not> js_space (hd s) \<Longrightarrow> dropWhile js_space s = s"
  by (cases s) auto

lemma js_trim_end_solid: "s \<noteq> [] \<Longrightarrow> \<not> js_space (last s) \<Longrightarrow> js_trim_end s = s"
  by (simp add: js_trim_end_def dropWhile_space_hd hd_rev)

text \<open>Text of a value that is not a bare number with a fraction starts and ends with no blank.\<close>

lemma stringify_solid:
  assumes "wf_json v" and "\<forall>t. v \<noteq> JDec t"
  shows "js_stringify g i v \<noteq> [] \<and> \<not> js_space (hd (js_stringify g i v)) \<and>
         \<not> js_space (last (js_stringify g i v))"
proof (cases v)
  case (JInt k)
  have l: "list_all js_digit (js_show_nat m)" "js_show_nat m \<noteq> []" for m
    by (simp_all add: js_show_nat_digits)
  have "js_digit (hd (js_show_nat m))" "js_digit (last (js_show_nat m))" for m
    using l [of m] by (auto simp: list_all_iff)
  then have "\<not> js_space (hd (js_show_nat m))" "\<not> js_space (last (js_show_nat m))" for m
    using js_digit_facts by blast+
  then show ?thesis using JInt by (simp add: js_show_int_def) (simp add: js_space_def)
next
  case (JDec t)
  then show ?thesis using assms by simp
next
  case (JStr s)
  then show ?thesis by (simp add: js_quote_def js_space_def)
next
  case (JArr vs)
  then show ?thesis by (cases vs) (simp_all add: js_space_def)
next
  case (JObj ms)
  then show ?thesis by (cases ms) (simp_all add: js_space_def)
qed (simp_all add: js_space_def)

definition key_char :: "char \<Rightarrow> bool" where
  "key_char c \<longleftrightarrow> \<not> js_space c \<and> c \<noteq> CHR '':'' \<and> c \<noteq> CHR ''-''"

definition fm_ok :: "string \<times> json \<Rightarrow> bool" where
  "fm_ok e \<longleftrightarrow> fst e \<noteq> [] \<and> list_all key_char (fst e) \<and> wf_json (snd e) \<and> (\<forall>t. snd e \<noteq> JDec t)"

lemma fm_line_facts:
  assumes "fm_ok (k, v)"
  shows "fm_line (k, v) \<noteq> []" and "newline \<notin> set (fm_line (k, v))" and "hd (fm_line (k, v)) \<noteq> CHR ''-''"
    and "js_trim_end (fm_line (k, v)) = fm_line (k, v)"
    and "js_cut '':'' (fm_line (k, v)) = Some (k, CHR '' '' # JSON_stringify v)"
    and "js_trim k = k" and "js_trim (CHR '' '' # JSON_stringify v) = JSON_stringify v"
proof -
  have k: "k \<noteq> []" "list_all key_char k" and v: "wf_json v" "\<forall>t. v \<noteq> JDec t"
    using assms by (auto simp: fm_ok_def)
  note s = stringify_solid [OF v, of "[]" "[]"]
  show "fm_line (k, v) \<noteq> []" by (simp add: fm_line_def)
  have "\<not> js_space newline" if "newline \<in> set k" using that k by (auto simp: list_all_iff key_char_def)
  then have nk: "newline \<notin> set k" by (auto simp: js_space_def)
  then show "newline \<notin> set (fm_line (k, v))"
    using stringify_line [OF v(1), of "[]"] by (simp add: fm_line_def JSON_stringify_def)
  show "hd (fm_line (k, v)) \<noteq> CHR ''-''"
    using k by (cases k) (auto simp: fm_line_def key_char_def)
  show "js_trim_end (fm_line (k, v)) = fm_line (k, v)"
    by (rule js_trim_end_solid) (use s in \<open>auto simp: fm_line_def JSON_stringify_def\<close>)
  have "CHR '':'' \<notin> set k" using k by (auto simp: list_all_iff key_char_def)
  then show "js_cut '':'' (fm_line (k, v)) = Some (k, CHR '' '' # JSON_stringify v)"
    using js_cut_char [of "CHR '':''" k] by (simp add: fm_line_def)
  have "\<not> js_space (hd k)" "\<not> js_space (last k)"
    using k by (auto simp: list_all_iff key_char_def)
  then show "js_trim k = k" using k by (intro js_trim_solid)
  have "js_trim (CHR '' '' # JSON_stringify v) = js_trim (JSON_stringify v)"
    by (simp add: js_trim_def js_space_def)
  also have "\<dots> = JSON_stringify v" using s by (intro js_trim_solid) (auto simp: JSON_stringify_def)
  finally show "js_trim (CHR '' '' # JSON_stringify v) = JSON_stringify v" .
qed

lemma parseFrontmatter_lines:
  "\<forall>e \<in> set es. fm_ok e \<Longrightarrow> parseFrontmatter (map fm_line es) out = Some (js_spread out es)"
proof (induction es arbitrary: out)
  case Nil
  then show ?case by (simp add: js_spread_def)
next
  case (Cons e es)
  obtain k v where e: "e = (k, v)" by (cases e)
  have ok: "fm_ok (k, v)" using Cons.prems e by simp
  note f = fm_line_facts [OF ok]
  have "wf_json v" using ok by (simp add: fm_ok_def)
  then have "JSON_parse (JSON_stringify v) = Some v" using json_roundtrip by blast
  then show ?case using Cons f e by (simp add: js_spread_def)
qed

lemma fm_lines_nl:
  "\<forall>e \<in> set es. fm_ok e \<Longrightarrow> nl_not (CHR ''-'') (js_join [newline] (map fm_line es))"
proof (induction es)
  case Nil
  then show ?case by simp
next
  case (Cons e es)
  have f: "newline \<notin> set (fm_line e)" using fm_line_facts(2) Cons.prems by (cases e) auto
  show ?case
  proof (cases es)
    case Nil
    then show ?thesis using f by (simp add: nl_not_none)
  next
    case (Cons e' es')
    have "fm_line e' \<noteq> []" "hd (fm_line e') \<noteq> CHR ''-''"
      using fm_line_facts Cons.prems Cons by (cases e'; auto)+
    then have "nl_not (CHR ''-'') ([newline] @ js_join [newline] (map fm_line es))"
      using Cons.IH Cons.prems Cons by (simp add: json_join_cons)
    then show ?thesis using f Cons nl_not_append [OF nl_not_none [OF f]] by (simp add: json_join_cons)
  qed
qed

lemma key_chars:
  "list_all key_char s \<longleftrightarrow> (\<forall>c \<in> set s. \<not> js_space c \<and> c \<noteq> CHR '':'' \<and> c \<noteq> CHR ''-'')"
  by (auto simp: list_all_iff key_char_def)

lemma wf_strings: "wf_json (json_strings xs)"
  by (simp add: json_strings_def list_all_iff)

lemma wf_nullable: "wf_json (json_nullable x)"
  by (simp add: json_nullable_def split: option.split)

lemma wf_binding: "wf_json (json_binding b)"
  by (cases b) (simp_all add: wf_strings)

lemma no_dec [simp]:
  "json_strings xs \<noteq> JDec t" "json_nullable x \<noteq> JDec t" "json_binding b \<noteq> JDec t"
  by (simp_all add: json_strings_def json_nullable_def split: option.split) (cases b; simp)

lemma frontmatter_ok: "\<forall>e \<in> set (frontmatter_entries n). fm_ok e"
  by (auto simp: frontmatter_entries_def fm_ok_def opt_entry_def wf_strings wf_nullable wf_binding
        key_char_def js_space_def split: option.splits)

lemma frontmatter_keys: "distinct (map fst (frontmatter_entries n))"
  by (auto simp: frontmatter_entries_def opt_entry_def split: option.split)

lemma state_wf: "wf_json (results n) \<Longrightarrow> wf_json (JObj (state_entries n))"
  by (auto simp: state_entries_def wf_strings wf_nullable json_decision_def list_all_iff)

text \<open>Decoding an encoded part gives it back.\<close>

lemma dec_strings [simp]: "dec_arr dec_str (json_strings xs) = Some xs"
  unfolding json_strings_def dec_arr.simps by (rule those_inverse) simp

lemma dec_nullable_json [simp]: "dec_nullable (json_nullable x) = Some x"
  by (simp add: json_nullable_def split: option.split)

lemma dec_decisions [simp]: "dec_arr dec_decision (JArr (map json_decision ds)) = Some ds"
  unfolding dec_arr.simps by (rule those_inverse) (simp add: json_decision_def fld_def)

lemma dec_binding_json [simp]: "dec_binding (json_binding b) = Some b"
  by (cases b) (simp_all add: fld_def)

lemma mode_of_mode_text [simp]: "mode_of_text (mode_text m) = Some m"
  by (cases m) simp_all

lemma jget_spread:
  "jget (js_spread m ps) k = (case map_of (rev ps) k of Some v \<Rightarrow> Some v | None \<Rightarrow> jget m k)"
  by (induction ps arbitrary: m)
     (auto simp: js_spread_def jget_jset map_add_def split: option.splits)

lemma map_of_rev_distinct: "distinct (map fst ps) \<Longrightarrow> map_of (rev ps) = map_of ps"
proof (induction ps)
  case Nil
  then show ?case by simp
next
  case (Cons p ps)
  then have "map_of ps (fst p) = None" by (simp add: map_of_eq_None_iff)
  then show ?case using Cons by (auto simp: map_add_def split: option.split)
qed

lemma jget_spread_distinct:
  "distinct (map fst ps) \<Longrightarrow>
   jget (js_spread m ps) k = (case map_of ps k of Some v \<Rightarrow> Some v | None \<Rightarrow> jget m k)"
  by (simp add: jget_spread map_of_rev_distinct)

text \<open>What the reader finds under a key: the body, else the state block, else the front matter.\<close>

definition node_entries :: "ContextNode \<Rightarrow> string \<Rightarrow> (string, json) jmap" where
  "node_entries n b = jset (js_spread (js_spread [] (frontmatter_entries n)) (state_entries n)) ''body'' (JStr b)"

lemma node_entries_get:
  "jget (node_entries n b) k =
     (if k = ''body'' then Some (JStr b)
      else case map_of (state_entries n) k of
        Some v \<Rightarrow> Some v | None \<Rightarrow> map_of (frontmatter_entries n) k)"
proof -
  have "distinct (map fst (state_entries n))" by (simp add: state_entries_def)
  then show ?thesis
    by (simp add: node_entries_def jget_jset jget_spread_distinct frontmatter_keys
          split: option.split)
qed

lemma map_of_opt_entry:
  "map_of (opt_entry k f x) j = (if j = k then map_option f x else None)"
  by (simp add: opt_entry_def split: option.split)

lemma node_entries_fields:
  "jget (node_entries n b) ''id'' = Some (JStr (node_id n))"
  "jget (node_entries n b) ''parent_id'' = Some (json_nullable (parent_id n))"
  "jget (node_entries n b) ''children_ids'' = Some (json_strings (children_ids n))"
  "jget (node_entries n b) ''title'' = Some (JStr (title n))"
  "jget (node_entries n b) ''body'' = Some (JStr b)"
  "jget (node_entries n b) ''mode'' = Some (JStr (mode_text (mode n)))"
  "jget (node_entries n b) ''created_at'' = Some (JStr (created_at n))"
  "jget (node_entries n b) ''iteration_count'' = Some (JInt (iteration_count n))"
  "jget (node_entries n b) ''updated_at'' = map_option JStr (updated_at n)"
  "jget (node_entries n b) ''observations'' = Some (json_strings (observations n))"
  "jget (node_entries n b) ''decisions'' = Some (JArr (map json_decision (decisions n)))"
  "jget (node_entries n b) ''blockers'' = Some (json_strings (blockers n))"
  "jget (node_entries n b) ''results'' = Some (results n)"
  "jget (node_entries n b) ''next_intent'' = Some (JStr (next_intent n))"
  "jget (node_entries n b) ''consolidated_summary'' = Some (json_nullable (consolidated_summary n))"
  "jget (node_entries n b) ''relevant_tools'' = map_option json_strings (relevant_tools n)"
  "jget (node_entries n b) ''relevant_skills'' = map_option json_strings (relevant_skills n)"
  "jget (node_entries n b) ''goal_binding'' = map_option json_binding (goal_binding n)"
  by (auto simp: node_entries_get state_entries_def frontmatter_entries_def map_of_opt_entry
        map_add_def split: option.split)

lemma fld_some: "jget m k = Some v \<Longrightarrow> fld m k z d = d v"
  by (simp add: fld_def)

lemma fld_optional:
  "jget m k = map_option e x \<Longrightarrow> (\<And>y. d (e y) = Some y) \<Longrightarrow> fld m k (Some None) (optional d) = Some x"
  by (simp add: fld_def optional_def split: option.splits)

lemma ContextNode_parse_entries:
  assumes "valid_node n"
  shows "ContextNode_parse (node_entries n b) = Some (n\<lparr>body := b\<rparr>)"
proof -
  note f = node_entries_fields [of n b]
  have v: "valid_node (n\<lparr>body := b\<rparr>)" using assms by (simp add: valid_node_def)
  have u: "fld (node_entries n b) ''updated_at'' (Some None) (optional dec_str) = Some (updated_at n)"
    by (rule fld_optional [OF f(9)]) simp
  have t: "fld (node_entries n b) ''relevant_tools'' (Some None) (optional (dec_arr dec_str)) =
      Some (relevant_tools n)"
    by (rule fld_optional [OF f(16)]) simp
  have s: "fld (node_entries n b) ''relevant_skills'' (Some None) (optional (dec_arr dec_str)) =
      Some (relevant_skills n)"
    by (rule fld_optional [OF f(17)]) simp
  have g: "fld (node_entries n b) ''goal_binding'' (Some None) (optional dec_binding) =
      Some (goal_binding n)"
    by (rule fld_optional [OF f(18)]) simp
  have n: "\<lparr>node_id = node_id n, parent_id = parent_id n, children_ids = children_ids n,
      title = title n, body = b, mode = mode n, created_at = created_at n,
      iteration_count = iteration_count n, updated_at = updated_at n,
      observations = observations n, decisions = decisions n, blockers = blockers n,
      results = results n, next_intent = next_intent n,
      consolidated_summary = consolidated_summary n, relevant_tools = relevant_tools n,
      relevant_skills = relevant_skills n, goal_binding = goal_binding n\<rparr> = n\<lparr>body := b\<rparr>"
    by simp
  show ?thesis
    unfolding ContextNode_parse_def u t s g
      fld_some [OF f(1)] fld_some [OF f(2)] fld_some [OF f(3)] fld_some [OF f(4)]
      fld_some [OF f(5)] fld_some [OF f(6)] fld_some [OF f(7)] fld_some [OF f(8)]
      fld_some [OF f(10)] fld_some [OF f(11)] fld_some [OF f(12)] fld_some [OF f(13)]
      fld_some [OF f(14)] fld_some [OF f(15)]
    using v by (simp add: Let_def n del: mode_of_text.simps dec_arr.simps)
qed

text \<open>The sections of a written file.\<close>

lemma js_trim_end_trailing:
  "list_all js_space w \<Longrightarrow> js_trim_end (s @ w) = js_trim_end s"
proof (induction w rule: rev_induct)
  case Nil
  then show ?case by simp
next
  case (snoc c w)
  have "js_trim_end (s @ w @ [c]) = js_trim_end (s @ w)"
    using snoc.prems by (simp add: js_trim_end_def)
  then show ?case using snoc by simp
qed

lemma fence_no_newline: "newline \<notin> set STATE_FENCE_OPEN"
  by (simp add: STATE_FENCE_OPEN_def)

lemma js_cut_body:
  assumes "\<not> js_includes (body n) STATE_FENCE_OPEN"
  shows "\<exists>b. js_cut STATE_FENCE_OPEN
           ((if body n \<noteq> [] then body n @ [newline, newline] else []) @ STATE_FENCE_OPEN @ r) =
         Some (b, r) \<and> js_trim_end b = js_trim_end (body n)"
proof -
  have ne: "STATE_FENCE_OPEN \<noteq> []" by (simp add: STATE_FENCE_OPEN_def)
  note here = js_cut_here [OF ne, of r]
  have emp: "\<not> js_includes [] STATE_FENCE_OPEN" using ne by simp
  show ?thesis
  proof (cases "body n = []")
    case True
    then show ?thesis using here by simp
  next
    case False
    have "js_cut STATE_FENCE_OPEN (body n @ newline # [] @ newline # STATE_FENCE_OPEN @ r) =
        Some (body n @ [newline, newline], r)"
      unfolding js_cut_clear [OF assms fence_no_newline ne] js_cut_clear [OF emp fence_no_newline ne] here
      by simp
    moreover have "js_trim_end (body n @ [newline, newline]) = js_trim_end (body n)"
      by (rule js_trim_end_trailing) (simp add: js_space_def)
    ultimately show ?thesis using False by simp
  qed
qed

lemma splitSections_serialize:
  assumes v: "valid_node n" and j: "wf_json (results n)"
    and fence: "\<not> js_includes (body n) STATE_FENCE_OPEN"
  obtains t where "serialize n = Some t"
    and "splitSections t =
          Some (js_join [newline] (map fm_line (frontmatter_entries n)), js_trim_end (body n),
                JSON_stringify_indent 2 (JObj (state_entries n)))"
proof -
  let ?L = "map fm_line (frontmatter_entries n)"
  let ?F = "js_join [newline] ?L"
  let ?J = "JSON_stringify_indent 2 (JObj (state_entries n))"
  let ?B = "if body n \<noteq> [] then body n @ [newline, newline] else []"
  let ?S = "newline # ?J @ newline # STATE_FENCE_CLOSE @ [newline]"
  let ?t = "''---'' @ [newline] @ ?F @ newline # ''---'' @ [newline] @ ?B @ STATE_FENCE_OPEN @ ?S"
  have L: "?L \<noteq> []" by (simp add: frontmatter_entries_def)
  have head: "js_join [newline] ([''---''] @ ?L @ [''---'', []]) =
      ''---'' @ [newline] @ ?F @ newline # ''---'' @ [newline]"
    using L js_join_append [of ?L "[''---'', []]" "[newline]"]
      js_join_append [of "[''---'']" "?L @ [''---'', []]" "[newline]"] by simp
  have ser: "serialize n = Some ?t"
    using v unfolding serialize_def head by simp
  obtain b where b: "js_cut STATE_FENCE_OPEN (?B @ STATE_FENCE_OPEN @ ?S) = Some (b, ?S)"
      "js_trim_end b = js_trim_end (body n)"
    using js_cut_body [OF fence] by blast
  have fm: "js_cut (newline # CHR ''-'' # ''--'' @ [newline])
      (?F @ newline # CHR ''-'' # (''--'' @ [newline]) @ ?B @ STATE_FENCE_OPEN @ ?S) =
      Some (?F, ?B @ STATE_FENCE_OPEN @ ?S)"
    by (rule js_cut_nl) (rule fm_lines_nl [OF frontmatter_ok])
  have "nl_not (CHR 0x60) ?J"
    unfolding JSON_stringify_indent_def
    by (rule stringify_tick) (use state_wf [OF j] in \<open>simp_all add: list_all_iff\<close>)
  then have st: "js_cut (newline # CHR 0x60 # ''``'')
      (?J @ newline # CHR 0x60 # ''``'' @ [newline]) = Some (?J, [newline])"
    by (rule js_cut_nl)
  have "splitSections ?t = Some (?F, js_trim_end (body n), ?J)"
    using fm b st by (simp add: splitSections_def js_starts_with_def STATE_FENCE_CLOSE_def)
  with ser show thesis by (rule that)
qed

text \<open>A node that can be written and read back: its body does not hold the opening fence.\<close>

definition storable :: "ContextNode \<Rightarrow> bool" where
  "storable n \<longleftrightarrow> valid_node n \<and> wf_json (results n) \<and> \<not> js_includes (body n) STATE_FENCE_OPEN"

definition as_read :: "ContextNode \<Rightarrow> ContextNode" where
  "as_read n = n\<lparr>body := js_trim_end (body n)\<rparr>"

lemma deserialize_serialize:
  assumes "storable n"
  obtains t where "serialize n = Some t" and "deserialize t = Some (as_read n)"
proof -
  have n: "valid_node n" "wf_json (results n)" "\<not> js_includes (body n) STATE_FENCE_OPEN"
    using assms by (auto simp: storable_def)
  let ?es = "frontmatter_entries n"
  obtain t where t: "serialize n = Some t" "splitSections t =
          Some (js_join [newline] (map fm_line ?es), js_trim_end (body n),
                JSON_stringify_indent 2 (JObj (state_entries n)))"
    using splitSections_serialize [OF n] by blast
  have "\<forall>w \<in> set (map fm_line ?es). newline \<notin> set w"
    using frontmatter_ok [of n] fm_line_facts(2) by fastforce
  then have lines: "js_split newline (js_join [newline] (map fm_line ?es)) = map fm_line ?es"
    by (intro js_split_join) (simp_all add: frontmatter_entries_def)
  have fm: "parseFrontmatter (map fm_line ?es) [] = Some (js_spread [] ?es)"
    by (rule parseFrontmatter_lines [OF frontmatter_ok])
  have st: "parseStateBlock (JSON_stringify_indent 2 (JObj (state_entries n))) = Some (state_entries n)"
    using json_roundtrip [OF state_wf [OF n(2)], of 2] by (simp add: parseStateBlock_def)
  have "deserialize t = Some (as_read n)"
    using t(2) lines fm st ContextNode_parse_entries [OF n(1)]
    by (simp add: deserialize_def node_entries_def as_read_def)
  with t(1) show thesis by (rule that)
qed

text \<open>
  C20 (roundtrip): A written node is read back unchanged but for the blanks at the end of its body, provided
  the body does not contain the line that opens the state block.
\<close>

theorem node_roundtrip:
  "storable n \<Longrightarrow> \<exists>t. serialize n = Some t \<and> deserialize t = Some (as_read n)"
  using deserialize_serialize by blast

text \<open>
  A body with a state block of its own: everything from its opening fence on is lost, and its
  members replace the state and the front matter of the node when the file is read.
\<close>

theorem body_fence_takes_over:
  assumes "valid_node n" and "wf_json (JObj m)"
    and "body n = u @ STATE_FENCE_OPEN @ newline # JSON_stringify (JObj m) @ newline # STATE_FENCE_CLOSE @ w"
    and "\<not> js_includes u STATE_FENCE_OPEN" and "u = [] \<or> last u = newline"
  shows "\<exists>t. serialize n = Some t \<and>
           deserialize t = ContextNode_parse
             (jset (js_spread (js_spread [] (frontmatter_entries n)) m) ''body'' (JStr (js_trim_end u)))"
proof -
  let ?L = "map fm_line (frontmatter_entries n)"
  let ?F = "js_join [newline] ?L"
  let ?J = "JSON_stringify (JObj m)"
  define S where "S = w @ [newline, newline] @ STATE_FENCE_OPEN @ [newline] @
    JSON_stringify_indent 2 (JObj (state_entries n)) @ [newline] @ STATE_FENCE_CLOSE @ [newline]"
  let ?R = "newline # ?J @ newline # STATE_FENCE_CLOSE @ S"
  let ?t = "''---'' @ [newline] @ ?F @ newline # ''---'' @ [newline] @ u @ STATE_FENCE_OPEN @ ?R"
  have ne: "STATE_FENCE_OPEN \<noteq> []" by (simp add: STATE_FENCE_OPEN_def)
  have L: "?L \<noteq> []" by (simp add: frontmatter_entries_def)
  have head: "js_join [newline] ([''---''] @ ?L @ [''---'', []]) =
      ''---'' @ [newline] @ ?F @ newline # ''---'' @ [newline]"
    using L js_join_append [of ?L "[''---'', []]" "[newline]"]
      js_join_append [of "[''---'']" "?L @ [''---'', []]" "[newline]"] by simp
  have "body n \<noteq> []" using assms(3) by simp
  then have ser: "serialize n = Some ?t"
    using assms(1) unfolding serialize_def head S_def by (simp add: assms(3))
  have fm: "js_cut (newline # CHR ''-'' # ''--'' @ [newline])
      (?F @ newline # CHR ''-'' # (''--'' @ [newline]) @ u @ STATE_FENCE_OPEN @ ?R) =
      Some (?F, u @ STATE_FENCE_OPEN @ ?R)"
    by (rule js_cut_nl) (rule fm_lines_nl [OF frontmatter_ok])
  have "js_cut STATE_FENCE_OPEN (u @ STATE_FENCE_OPEN @ ?R) = Some (u, ?R)"
  proof (cases "u = []")
    case True
    then show ?thesis using js_cut_here [OF ne, of ?R] by simp
  next
    case False
    then have u: "u = butlast u @ [newline]" using assms(5) append_butlast_last_id by fastforce
    have ni: "\<not> js_includes (butlast u) STATE_FENCE_OPEN"
      using assms(4) u unfolding js_includes_iff by (metis append.assoc)
    have "js_cut STATE_FENCE_OPEN (butlast u @ newline # STATE_FENCE_OPEN @ ?R) =
        Some (butlast u @ [newline], ?R)"
      unfolding js_cut_clear [OF ni fence_no_newline ne] js_cut_here [OF ne] by simp
    then show ?thesis using u by (metis append.assoc append_Cons append_Nil)
  qed
  moreover have "nl_not (CHR 0x60) ?J"
    using stringify_line [OF assms(2), of "[]"] by (simp add: JSON_stringify_def nl_not_none)
  then have "js_cut (newline # CHR 0x60 # ''``'') (?J @ newline # CHR 0x60 # ''``'' @ S) = Some (?J, S)"
    by (rule js_cut_nl)
  ultimately have sp: "splitSections ?t = Some (?F, js_trim_end u, ?J)"
    using fm by (simp add: splitSections_def js_starts_with_def STATE_FENCE_CLOSE_def)
  have "\<forall>x \<in> set ?L. newline \<notin> set x"
    using frontmatter_ok [of n] fm_line_facts(2) by fastforce
  then have lines: "js_split newline ?F = ?L"
    by (intro js_split_join) (simp_all add: frontmatter_entries_def)
  have "parseFrontmatter ?L [] = Some (js_spread [] (frontmatter_entries n))"
    by (rule parseFrontmatter_lines [OF frontmatter_ok])
  moreover have "parseStateBlock ?J = Some m"
    using json_roundtrip [OF assms(2), of 2] by (simp add: parseStateBlock_def)
  ultimately have "deserialize ?t = ContextNode_parse
      (jset (js_spread (js_spread [] (frontmatter_entries n)) m) ''body'' (JStr (js_trim_end u)))"
    using sp lines by (simp add: deserialize_def)
  with ser show ?thesis by blast
qed

text \<open>A node of the tests below: a root that waits to be planned.\<close>

definition sample_node :: "string \<Rightarrow> string \<Rightarrow> ContextNode" where
  "sample_node i b = \<lparr>node_id = i, parent_id = None, children_ids = [], title = ''t'', body = b,
     mode = Pending_plan, created_at = ''2026'', iteration_count = 0, updated_at = None,
     observations = [], decisions = [], blockers = [], results = JNull, next_intent = [],
     consolidated_summary = None, relevant_tools = None, relevant_skills = None,
     goal_binding = None\<rparr>"

lemma sample_valid: "valid_id i \<Longrightarrow> valid_node (sample_node i b)"
  by (simp add: sample_node_def valid_node_def)

lemma valid_root: "valid_id ''root''"
  by (simp add: valid_id_def id_head_def id_char_def js_digit_def)

lemma node_roundtrip_witness:
  "\<exists>t. serialize (sample_node ''root'' ''do it  '') = Some t \<and>
       deserialize t = Some (sample_node ''root'' ''do it'')"
proof -
  have "storable (sample_node ''root'' ''do it  '')"
    using sample_valid [OF valid_root] by (simp add: storable_def sample_node_def STATE_FENCE_OPEN_def)
  from node_roundtrip [OF this] show ?thesis
    by (simp add: as_read_def sample_node_def js_trim_end_def js_space_def)
qed

lemma body_fence_takes_over_witness:
  "\<exists>t. serialize (sample_node ''root'' (STATE_FENCE_OPEN @ newline # JSON_stringify (JObj [(''mode'', JStr ''done'')]) @
           newline # STATE_FENCE_CLOSE)) = Some t \<and>
       map_option mode (deserialize t) = Some Mode_done"
proof -
  let ?n = "sample_node ''root'' (STATE_FENCE_OPEN @ newline # JSON_stringify (JObj [(''mode'', JStr ''done'')]) @
           newline # STATE_FENCE_CLOSE)"
  let ?m = "jset (js_spread (js_spread [] (frontmatter_entries ?n)) [(''mode'', JStr ''done'')]) ''body'' (JStr (js_trim_end []))"
  obtain t where t: "serialize ?n = Some t" "deserialize t = ContextNode_parse ?m"
    using body_fence_takes_over [of ?n "[(''mode'', JStr ''done'')]" "[]" "[]"]
      sample_valid [OF valid_root] by (auto simp: sample_node_def STATE_FENCE_OPEN_def)
  have "map_option mode (ContextNode_parse ?m) = Some Mode_done"
    using valid_root
    by (simp add: ContextNode_parse_def fld_def jget_jset jget_spread frontmatter_entries_def
        opt_entry_def sample_node_def json_nullable_def json_strings_def js_trim_end_def valid_node_def)
  then show ?thesis using t by auto
qed

end
