(* ===== verification/Node_Store.thy ===== *)
theory Node_Store
  imports Node_FS
begin

text \<open>
  The directory of a freerun session (freerun/storage/node-fs.ts): the texts under \<open>tree/\<close> and
  under \<open>tree/.archive/\<close>, the operations on them, and the laws of a node store as a locale,
  interpreted on these operations.
\<close>

section \<open>The directory of a session\<close>

text \<open>The texts of \<open>tree/<id>.md\<close> and of \<open>tree/.archive/<stamp>/<id>.md\<close>. A directory is listed
  in the order in which its files were made.\<close>

record TreeFiles =
  tree_files :: "(string, string) jmap"
  archive_files :: "(string \<times> string, string) jmap"

definition NodeFS_write :: "ContextNode \<Rightarrow> TreeFiles \<Rightarrow> TreeFiles option" where
  "NodeFS_write n fs =
     (case serialize n of
        None \<Rightarrow> None
      | Some text \<Rightarrow> Some (fs\<lparr>tree_files := jset (tree_files fs) (node_id n) text\<rparr>))"

definition NodeFS_read :: "string \<Rightarrow> TreeFiles \<Rightarrow> ContextNode option" where
  "NodeFS_read i fs =
     (case jget (tree_files fs) i of None \<Rightarrow> None | Some text \<Rightarrow> deserialize text)"

definition NodeFS_list :: "TreeFiles \<Rightarrow> string list" where
  "NodeFS_list fs = jkeys (tree_files fs)"

definition NodeFS_exists :: "string \<Rightarrow> TreeFiles \<Rightarrow> bool" where
  "NodeFS_exists i fs \<longleftrightarrow> jget (tree_files fs) i \<noteq> None"

definition NodeFS_archive :: "string \<Rightarrow> string \<Rightarrow> TreeFiles \<Rightarrow> TreeFiles option" where
  "NodeFS_archive i archiveStamp fs =
     (case jget (tree_files fs) i of
        None \<Rightarrow> None
      | Some text \<Rightarrow> Some (fs\<lparr>tree_files := jdel (tree_files fs) i,
                             archive_files := jset (archive_files fs) (archiveStamp, i) text\<rparr>))"

text \<open>\<open>for (const x of xs) await step(x)\<close>: the first throw ends the loop, and what was done before stays done.\<close>

fun js_each :: "('a \<Rightarrow> 's \<Rightarrow> 's option) \<Rightarrow> 'a list \<Rightarrow> 's \<Rightarrow> bool \<times> 's" where
  "js_each step [] s = (True, s)"
| "js_each step (x # xs) s =
     (case step x s of None \<Rightarrow> (False, s) | Some s' \<Rightarrow> js_each step xs s')"

text \<open>What the engine relies on: a good node is written and then read as \<open>norm\<close> of it, nothing
  else changes, and a moved file is found in the archive only.\<close>

locale node_store =
  fixes put :: "'n \<Rightarrow> 's \<Rightarrow> 's option"
    and get :: "string \<Rightarrow> 's \<Rightarrow> 'n option"
    and ids :: "'s \<Rightarrow> string list"
    and move :: "string \<Rightarrow> string \<Rightarrow> 's \<Rightarrow> 's option"
    and moved :: "string \<Rightarrow> string \<Rightarrow> 's \<Rightarrow> 'n option"
    and ident :: "'n \<Rightarrow> string"
    and good :: "'n \<Rightarrow> bool"
    and norm :: "'n \<Rightarrow> 'n"
  assumes put_good: "good n \<Longrightarrow> \<exists>s'. put n s = Some s'"
    and get_put: "good n \<Longrightarrow> put n s = Some s' \<Longrightarrow>
                  get i s' = (if i = ident n then Some (norm n) else get i s)"
    and ids_put: "put n s = Some s' \<Longrightarrow> set (ids s') = insert (ident n) (set (ids s))"
    and moved_put: "put n s = Some s' \<Longrightarrow> moved t i s' = moved t i s"
    and move_there: "i \<in> set (ids s) \<longleftrightarrow> move i t s \<noteq> None"
    and get_move: "move i t s = Some s' \<Longrightarrow> get j s' = (if j = i then None else get j s)"
    and ids_move: "move i t s = Some s' \<Longrightarrow> set (ids s') = set (ids s) - {i}"
    and moved_move: "move i t s = Some s' \<Longrightarrow>
                     moved u j s' = (if u = t \<and> j = i then get i s else moved u j s)"
begin

text \<open>Moving a list of files: it succeeds on distinct files that are there, nothing is lost, and
  a file listed twice makes it fail.\<close>

lemma moves_distinct:
  "distinct is \<Longrightarrow> set is \<subseteq> set (ids s) \<Longrightarrow> \<exists>s'. js_each (\<lambda>i. move i t) is s = (True, s')"
proof (induction "is" arbitrary: s)
  case Nil
  then show ?case by simp
next
  case (Cons i "is")
  obtain s1 where s1: "move i t s = Some s1" using move_there [of i s t] Cons.prems by auto
  have "set is \<subseteq> set (ids s1)" using ids_move [OF s1] Cons.prems by auto
  then show ?case using Cons s1 by simp
qed

lemma moves_spec:
  "js_each (\<lambda>i. move i t) is s = (True, s') \<Longrightarrow>
     distinct is \<and> set is \<subseteq> set (ids s) \<and>
     (\<forall>j. get j s' = (if j \<in> set is then None else get j s)) \<and>
     set (ids s') = set (ids s) - set is \<and>
     (\<forall>u j. moved u j s' = (if u = t \<and> j \<in> set is then get j s else moved u j s))"
proof (induction "is" arbitrary: s)
  case Nil
  then show ?case by simp
next
  case (Cons i "is")
  obtain s1 where s1: "move i t s = Some s1" "js_each (\<lambda>i. move i t) is s1 = (True, s')"
    using Cons.prems by (auto split: option.splits)
  have "i \<in> set (ids s)" using move_there [of i s t] s1(1) by simp
  then show ?case
    using Cons.IH [OF s1(2)] get_move [OF s1(1)] ids_move [OF s1(1)] moved_move [OF s1(1)]
    by auto
qed

end

definition NodeFS_archived :: "string \<Rightarrow> string \<Rightarrow> TreeFiles \<Rightarrow> ContextNode option" where
  "NodeFS_archived t i fs =
     (case jget (archive_files fs) (t, i) of None \<Rightarrow> None | Some text \<Rightarrow> deserialize text)"

interpretation nf: node_store NodeFS_write NodeFS_read NodeFS_list NodeFS_archive NodeFS_archived
  node_id storable as_read
proof unfold_locales
  show "\<exists>s'. NodeFS_write n s = Some s'" if st: "storable n" for n s
  proof -
    obtain t where "serialize n = Some t" using deserialize_serialize [OF st] by blast
    then show ?thesis by (simp add: NodeFS_write_def)
  qed
  show "NodeFS_read i s' = (if i = node_id n then Some (as_read n) else NodeFS_read i s)"
    if st: "storable n" and w: "NodeFS_write n s = Some s'" for n s s' i
  proof -
    obtain t where "serialize n = Some t" "deserialize t = Some (as_read n)"
      using deserialize_serialize [OF st] by blast
    then show ?thesis using w by (auto simp: NodeFS_write_def NodeFS_read_def jget_jset)
  qed
  show "set (NodeFS_list s') = insert (node_id n) (set (NodeFS_list s))"
    if w: "NodeFS_write n s = Some s'" for n s s'
  proof -
    obtain t where "s' = s\<lparr>tree_files := jset (tree_files s) (node_id n) t\<rparr>"
      using w by (auto simp: NodeFS_write_def split: option.splits)
    then show ?thesis
      by (simp add: NodeFS_list_def jm.keys_put del: set_map)
  qed
  show "NodeFS_write n s = Some s' \<Longrightarrow> NodeFS_archived t i s' = NodeFS_archived t i s" for n s s' t i
    by (auto simp: NodeFS_write_def NodeFS_archived_def split: option.splits)
  show "i \<in> set (NodeFS_list s) \<longleftrightarrow> NodeFS_archive i t s \<noteq> None" for i s t
    unfolding NodeFS_list_def jm.keys_get by (simp add: NodeFS_archive_def split: option.splits)
  show "NodeFS_archive i t s = Some s' \<Longrightarrow> NodeFS_read j s' = (if j = i then None else NodeFS_read j s)"
    for i t s s' j
    by (auto simp: NodeFS_archive_def NodeFS_read_def jget_jdel split: option.splits)
  show "set (NodeFS_list s') = set (NodeFS_list s) - {i}" if "NodeFS_archive i t s = Some s'" for i t s s'
  proof -
    have "tree_files s' = jdel (tree_files s) i"
      using that by (auto simp: NodeFS_archive_def split: option.splits)
    then show ?thesis by (simp add: NodeFS_list_def jm.keys_del del: set_map)
  qed
  show "NodeFS_archive i t s = Some s' \<Longrightarrow>
      NodeFS_archived u j s' = (if u = t \<and> j = i then NodeFS_read i s else NodeFS_archived u j s)"
    for i t s s' u j
    by (auto simp: NodeFS_archive_def NodeFS_archived_def NodeFS_read_def jget_jset split: option.splits)
qed

end
