(* ===== verification/Freerun_Tree.thy ===== *)
theory Freerun_Tree
  imports Node_Store
begin

text \<open>
  The plan tree of a freerun session (freerun/storage/tree.ts, freerun/policy/pick-next.ts): the
  snapshot that \<open>load\<close> makes of the directory, the walks over it, and the choice of the next
  node. A throw is \<open>Inl\<close>. A walk over a tree with a cycle does not end: then its value is \<open>None\<close>;
  it is proved that every walk ends when the name of a child extends that of its parent.
\<close>

datatype fr_error =
  No_nodes | Bad_node_file | Multiple_roots | No_root | Node_missing | Bad_node | Archive_missing

record Snapshot =
  byId :: "(string, ContextNode) jmap"
  rootId :: string

fun load_loop ::
  "string list \<Rightarrow> TreeFiles \<Rightarrow> (string, ContextNode) jmap \<Rightarrow> string option \<Rightarrow> fr_error + Snapshot" where
  "load_loop [] fs m rt = (case rt of None \<Rightarrow> Inl No_root | Some r \<Rightarrow> Inr \<lparr>byId = m, rootId = r\<rparr>)"
| "load_loop (i # ids) fs m rt =
     (case NodeFS_read i fs of
        None \<Rightarrow> Inl Bad_node_file
      | Some n \<Rightarrow>
          (if parent_id n = None then
             (if rt \<noteq> None \<and> rt \<noteq> Some i then Inl Multiple_roots
              else load_loop ids fs (jset m i n) (Some i))
           else load_loop ids fs (jset m i n) rt))"

definition Tree_load :: "TreeFiles \<Rightarrow> fr_error + Snapshot" where
  "Tree_load fs = (if NodeFS_list fs = [] then Inl No_nodes else load_loop (NodeFS_list fs) fs [] None)"

definition Tree_get :: "Snapshot \<Rightarrow> string \<Rightarrow> fr_error + ContextNode" where
  "Tree_get t i = (case jget (byId t) i of None \<Rightarrow> Inl Node_missing | Some n \<Rightarrow> Inr n)"

definition Tree_size :: "Snapshot \<Rightarrow> nat" where
  "Tree_size t = length (byId t)"

section \<open>Walks\<close>

text \<open>\<open>walkDFS\<close> is a generator: \<open>dfs_find\<close> is the walk of a consumer that stops at the first node
  it looks for, \<open>walkDFS\<close> the list of all nodes.\<close>

partial_function (option) walkDFS :: "Snapshot \<Rightarrow> string list \<Rightarrow> ContextNode list option" where
  "walkDFS t stack =
     (case stack of
        [] \<Rightarrow> Some []
      | i # rest \<Rightarrow>
          (case jget (byId t) i of
             None \<Rightarrow> walkDFS t rest
           | Some n \<Rightarrow>
               Option.bind (walkDFS t (children_ids n @ rest)) (\<lambda>ns. Some (n # ns))))"

partial_function (option) dfs_find ::
  "(ContextNode \<Rightarrow> bool) \<Rightarrow> Snapshot \<Rightarrow> string list \<Rightarrow> ContextNode option option" where
  "dfs_find P t stack =
     (case stack of
        [] \<Rightarrow> Some None
      | i # rest \<Rightarrow>
          (case jget (byId t) i of
             None \<Rightarrow> dfs_find P t rest
           | Some n \<Rightarrow> if P n then Some (Some n) else dfs_find P t (children_ids n @ rest)))"

text \<open>The loop of \<open>pickNext\<close> over \<open>walkBFS\<close>: it ends at a depth beyond the limit, and at once when
  the root itself is to be planned.\<close>

partial_function (option) plan_bfs ::
  "Snapshot \<Rightarrow> nat \<Rightarrow> (string \<times> nat) list \<Rightarrow> (ContextNode \<times> nat) option \<Rightarrow>
   (ContextNode \<times> nat) option option" where
  "plan_bfs t levels queue best =
     (case queue of
        [] \<Rightarrow> Some best
      | (i, d) # rest \<Rightarrow>
          (case jget (byId t) i of
             None \<Rightarrow> plan_bfs t levels rest best
           | Some n \<Rightarrow>
               if levels < d then Some best
               else if mode n = Pending_plan \<and> (case best of None \<Rightarrow> True | Some b \<Rightarrow> d < snd b)
               then if d = 0 then Some (Some (n, d))
                    else plan_bfs t levels (rest @ map (\<lambda>c. (c, Suc d)) (children_ids n)) (Some (n, d))
               else plan_bfs t levels (rest @ map (\<lambda>c. (c, Suc d)) (children_ids n)) best))"

partial_function (option) depth_loop :: "Snapshot \<Rightarrow> ContextNode \<Rightarrow> nat \<Rightarrow> (fr_error + nat) option" where
  "depth_loop t cur d =
     (case parent_id cur of
        None \<Rightarrow> Some (Inr d)
      | Some p \<Rightarrow>
          (case Tree_get t p of
             Inl e \<Rightarrow> Some (Inl e)
           | Inr n \<Rightarrow> depth_loop t n (Suc d)))"

definition depthOf :: "Snapshot \<Rightarrow> string \<Rightarrow> (fr_error + nat) option" where
  "depthOf t i = (case Tree_get t i of Inl e \<Rightarrow> Some (Inl e) | Inr n \<Rightarrow> depth_loop t n 0)"

partial_function (option) ancestors_from :: "Snapshot \<Rightarrow> ContextNode \<Rightarrow> ContextNode list option" where
  "ancestors_from t cur =
     (case parent_id cur of
        None \<Rightarrow> Some []
      | Some p \<Rightarrow>
          (case jget (byId t) p of
             None \<Rightarrow> Some []
           | Some n \<Rightarrow> Option.bind (ancestors_from t n) (\<lambda>ns. Some (n # ns))))"

definition ancestors :: "Snapshot \<Rightarrow> string \<Rightarrow> (fr_error + ContextNode list) option" where
  "ancestors t i =
     (case Tree_get t i of
        Inl e \<Rightarrow> Some (Inl e)
      | Inr n \<Rightarrow> Option.bind (ancestors_from t n) (\<lambda>ns. Some (Inr ns)))"

definition present :: "Snapshot \<Rightarrow> string list \<Rightarrow> ContextNode list" where
  "present t is = List.map_filter (\<lambda>i. jget (byId t) i) is"

definition siblings :: "Snapshot \<Rightarrow> string \<Rightarrow> fr_error + ContextNode list" where
  "siblings t i =
     (case Tree_get t i of
        Inl e \<Rightarrow> Inl e
      | Inr n \<Rightarrow>
          (case parent_id n of
             None \<Rightarrow> Inr []
           | Some p \<Rightarrow>
               (case jget (byId t) p of
                  None \<Rightarrow> Inr []
                | Some m \<Rightarrow> Inr (present t (filter (\<lambda>s. s \<noteq> i) (children_ids m))))))"

definition children :: "Snapshot \<Rightarrow> string \<Rightarrow> fr_error + ContextNode list" where
  "children t i =
     (case Tree_get t i of Inl e \<Rightarrow> Inl e | Inr n \<Rightarrow> Inr (present t (children_ids n)))"

definition subtree :: "Snapshot \<Rightarrow> string \<Rightarrow> ContextNode list option" where
  "subtree t i = walkDFS t [i]"

section \<open>Questions about the modes\<close>

definition isActionable :: "ContextNode \<Rightarrow> bool" where
  "isActionable n \<longleftrightarrow> mode n = Pending_plan \<or> mode n = Pending_exec \<or> mode n = Doing"

definition isSubtreeComplete :: "Snapshot \<Rightarrow> string \<Rightarrow> bool option" where
  "isSubtreeComplete t i = Option.bind (dfs_find isActionable t [i]) (\<lambda>r. Some (r = None))"

definition findByMode :: "Snapshot \<Rightarrow> NodeMode \<Rightarrow> ContextNode list option" where
  "findByMode t m = Option.bind (walkDFS t [rootId t]) (\<lambda>ns. Some (filter (\<lambda>n. mode n = m) ns))"

definition pickNext :: "Snapshot \<Rightarrow> nat \<Rightarrow> ContextNode option option" where
  "pickNext t topLevelsToPlan =
     Option.bind (plan_bfs t topLevelsToPlan [(rootId t, 0)] None) (\<lambda>bestPlan.
       case bestPlan of
         Some b \<Rightarrow> Some (Some (fst b))
       | None \<Rightarrow> dfs_find isActionable t [rootId t])"

definition PickNext_pick :: "Snapshot \<Rightarrow> ExperimentConfig \<Rightarrow> ContextNode option option" where
  "PickNext_pick t config = pickNext t (top_levels_to_plan config)"

section \<open>Archiving\<close>

text \<open>The files below the root of the subtree, the last of the walk first.\<close>

definition archiveSubtree ::
  "Snapshot \<Rightarrow> string \<Rightarrow> string \<Rightarrow> TreeFiles \<Rightarrow> ((fr_error + string list) \<times> TreeFiles) option" where
  "archiveSubtree t i archiveStamp fs =
     (case Tree_get t i of
        Inl e \<Rightarrow> Some (Inl e, fs)
      | Inr _ \<Rightarrow>
          Option.bind (walkDFS t [i]) (\<lambda>ns.
            let descendants = rev (filter (\<lambda>d. d \<noteq> i) (map node_id ns));
                (ok, fs') = js_each (\<lambda>d. NodeFS_archive d archiveStamp) descendants fs
            in Some (if ok then Inr descendants else Inl Archive_missing, fs')))"

section \<open>Every walk ends\<close>

text \<open>The engine names a child by its parent's name, a dot and more: then no walk meets a cycle.\<close>

definition extends :: "string \<Rightarrow> string \<Rightarrow> bool" where
  "extends p c \<longleftrightarrow> js_starts_with c (p @ ''.'')"

definition node_named :: "string \<Rightarrow> ContextNode \<Rightarrow> bool" where
  "node_named i n \<longleftrightarrow>
     node_id n = i \<and> list_all (extends i) (children_ids n) \<and>
     (case parent_id n of None \<Rightarrow> True | Some p \<Rightarrow> extends p i)"

definition namespaced :: "Snapshot \<Rightarrow> bool" where
  "namespaced t \<longleftrightarrow> list_all (\<lambda>(i, n). node_named i n) (byId t)"

lemma extends_longer: "extends p c \<Longrightarrow> length p < length c"
  by (auto simp: extends_def js_starts_with_iff)

lemma namespacedD: "namespaced t \<Longrightarrow> jget (byId t) i = Some n \<Longrightarrow> node_named i n"
  by (auto simp: namespaced_def list_all_iff dest!: map_of_SomeD)

lemma named_id: "node_named i n \<Longrightarrow> node_id n = i"
  by (simp add: node_named_def)

lemma named_child: "node_named i n \<Longrightarrow> c \<in> set (children_ids n) \<Longrightarrow> extends i c"
  by (simp add: node_named_def list_all_iff)

lemma named_parent: "node_named i n \<Longrightarrow> parent_id n = Some p \<Longrightarrow> extends p i"
  by (simp add: node_named_def)

primrec walk_weight :: "nat \<Rightarrow> nat \<Rightarrow> nat" where
  "walk_weight b 0 = 1"
| "walk_weight b (Suc k) = 1 + b * walk_weight b k"

definition widest :: "Snapshot \<Rightarrow> nat" where
  "widest t = sum_list (map (\<lambda>p. length (children_ids (snd p))) (byId t))"

definition longest :: "Snapshot \<Rightarrow> nat" where
  "longest t = sum_list (map (\<lambda>p. length (fst p)) (byId t))"

lemma walk_weight_mono: "j \<le> k \<Longrightarrow> walk_weight b j \<le> walk_weight b k"
proof (induction k arbitrary: j)
  case 0
  then show ?case by simp
next
  case (Suc k)
  have "1 \<le> walk_weight b (Suc k)" by simp
  then show ?case using Suc by (cases j) simp_all
qed

lemma widest_bound: "jget (byId t) i = Some n \<Longrightarrow> length (children_ids n) \<le> widest t"
  unfolding widest_def
  by (drule map_of_SomeD, rule member_le_sum_list) force+

lemma longest_bound: "jget (byId t) i = Some n \<Longrightarrow> length i \<le> longest t"
  unfolding longest_def
  by (drule map_of_SomeD, rule member_le_sum_list) force+

text \<open>One step of a walk replaces a node by its children: the weight of the stack goes down.\<close>

lemma sum_list_bound: "\<forall>x \<in> set xs. f x \<le> w \<Longrightarrow> sum_list (map f xs) \<le> length xs * (w :: nat)"
  by (induction xs) auto

lemma step_weight:
  assumes "jget (byId t) i = Some n" and "\<forall>c \<in> set (children_ids n). f c \<le> walk_weight (widest t) k"
  shows "sum_list (map f (children_ids n)) < walk_weight (widest t) (Suc k)"
proof -
  have "sum_list (map f (children_ids n)) \<le> length (children_ids n) * walk_weight (widest t) k"
    by (rule sum_list_bound [OF assms(2)])
  also have "\<dots> \<le> widest t * walk_weight (widest t) k" using widest_bound [OF assms(1)] by simp
  finally show ?thesis by simp
qed

definition dfs_weight :: "Snapshot \<Rightarrow> string \<Rightarrow> nat" where
  "dfs_weight t i = walk_weight (widest t) (Suc (longest t) - length i)"

lemma dfs_step_weight:
  assumes t: "namespaced t" and n: "jget (byId t) i = Some n"
  shows "sum_list (map (dfs_weight t) (children_ids n)) < dfs_weight t i"
proof -
  have l: "length i \<le> longest t" by (rule longest_bound [OF n])
  then have k: "Suc (longest t) - length i = Suc (longest t - length i)" by simp
  have "\<forall>c \<in> set (children_ids n). dfs_weight t c \<le> walk_weight (widest t) (longest t - length i)"
  proof
    fix c assume "c \<in> set (children_ids n)"
    then have "length i < length c" using named_child [OF namespacedD [OF t n]] extends_longer by blast
    then show "dfs_weight t c \<le> walk_weight (widest t) (longest t - length i)"
      unfolding dfs_weight_def by (intro walk_weight_mono) linarith
  qed
  then show ?thesis unfolding dfs_weight_def [of t i] k by (rule step_weight [OF n])
qed

lemma dfs_weight_pos: "0 < dfs_weight t i"
  using walk_weight_mono [of 0 "Suc (longest t) - length i" "widest t"] by (simp add: dfs_weight_def)

lemma dfs_induct [consumes 1, case_names Nil Missing Node]:
  assumes t: "namespaced t"
    and "P []"
    and "\<And>i rest. jget (byId t) i = None \<Longrightarrow> P rest \<Longrightarrow> P (i # rest)"
    and "\<And>i n rest. jget (byId t) i = Some n \<Longrightarrow> P (children_ids n @ rest) \<Longrightarrow> P (i # rest)"
  shows "P stack"
proof (induction stack rule: measure_induct_rule [where f = "\<lambda>st. sum_list (map (dfs_weight t) st)"])
  case (less stack)
  show ?case
  proof (cases stack)
    case Nil
    then show ?thesis using assms(2) by simp
  next
    case (Cons i rest)
    show ?thesis
    proof (cases "jget (byId t) i")
      case None
      have "P rest" using less Cons dfs_weight_pos [of t i] by simp
      then show ?thesis using assms(3) None Cons by simp
    next
      case (Some n)
      have "P (children_ids n @ rest)" using less Cons dfs_step_weight [OF t Some] by simp
      then show ?thesis using assms(4) Some Cons by simp
    qed
  qed
qed

lemma walkDFS_ends: "namespaced t \<Longrightarrow> \<exists>ns. walkDFS t stack = Some ns"
proof (induction stack rule: dfs_induct)
  case Nil
  show ?case by (simp add: walkDFS.simps)
next
  case (Missing i rest)
  then show ?case by (simp add: walkDFS.simps [of t "i # rest"])
next
  case (Node i n rest)
  then show ?case by (auto simp: walkDFS.simps [of t "i # rest"])
qed

lemma dfs_find_walk:
  assumes t: "namespaced t"
  shows "dfs_find P t stack = map_option (List.find P) (walkDFS t stack)"
  using t
proof (induction stack rule: dfs_induct)
  case Nil
  show ?case by (simp add: walkDFS.simps dfs_find.simps)
next
  case (Missing i rest)
  then show ?case by (simp add: walkDFS.simps [of t "i # rest"] dfs_find.simps [of P t "i # rest"])
next
  case (Node i n rest)
  then show ?case using walkDFS_ends [OF t, of "children_ids n @ rest"]
    by (auto simp: walkDFS.simps [of t "i # rest"] dfs_find.simps [of P t "i # rest"])
qed

section \<open>What the walks visit\<close>

inductive reaches :: "Snapshot \<Rightarrow> string \<Rightarrow> nat \<Rightarrow> ContextNode \<Rightarrow> bool" for t where
  here: "jget (byId t) i = Some n \<Longrightarrow> reaches t i 0 n"
| down: "jget (byId t) i = Some m \<Longrightarrow> c \<in> set (children_ids m) \<Longrightarrow> reaches t c d n \<Longrightarrow>
         reaches t i (Suc d) n"

inductive_cases reachesE: "reaches t i d n"

lemma reaches_missing: "jget (byId t) i = None \<Longrightarrow> \<not> reaches t i d n"
  by (auto elim: reachesE)

lemma reaches_node:
  "jget (byId t) i = Some m \<Longrightarrow>
   reaches t i d n \<longleftrightarrow> d = 0 \<and> n = m \<or> (\<exists>c e. c \<in> set (children_ids m) \<and> d = Suc e \<and> reaches t c e n)"
  by (auto elim: reachesE intro: reaches.intros)

lemma walkDFS_visits:
  "namespaced t \<Longrightarrow> walkDFS t stack = Some ns \<Longrightarrow>
   set ns = {n. \<exists>i d. i \<in> set stack \<and> reaches t i d n}"
proof (induction stack arbitrary: ns rule: dfs_induct)
  case Nil
  then show ?case by (simp add: walkDFS.simps)
next
  case (Missing i rest)
  then show ?case by (auto simp: walkDFS.simps [of t "i # rest"] reaches_missing)
next
  case (Node i n rest)
  obtain ms where ms: "walkDFS t (children_ids n @ rest) = Some ms" "ns = n # ms"
    using Node.prems Node.hyps by (auto simp: walkDFS.simps [of t "i # rest"] split: bind_splits)
  have IH: "set ms = {x. \<exists>j d. j \<in> set (children_ids n @ rest) \<and> reaches t j d x}"
    by (rule Node.IH [OF ms(1)])
  have "(\<exists>d. reaches t i d x) \<longleftrightarrow> x = n \<or> (\<exists>j d. j \<in> set (children_ids n) \<and> reaches t j d x)" for x
    unfolding reaches_node [OF Node.hyps(1)] by blast
  then show ?case unfolding ms(2) by (auto simp: IH)
qed

section \<open>The breadth-first search for a plan\<close>

definition bfs_weight :: "Snapshot \<Rightarrow> nat \<Rightarrow> string \<times> nat \<Rightarrow> nat" where
  "bfs_weight t k q = walk_weight (widest t) (Suc k - snd q)"

abbreviation deeper :: "ContextNode \<Rightarrow> nat \<Rightarrow> (string \<times> nat) list" where
  "deeper n d \<equiv> map (\<lambda>c. (c, Suc d)) (children_ids n)"

text \<open>The limit on the depth bounds this loop on every tree.\<close>

lemma bfs_induct [case_names Nil Missing Beyond Node]:
  fixes t :: Snapshot
  assumes "P []"
    and "\<And>i d rest. jget (byId t) i = None \<Longrightarrow> P rest \<Longrightarrow> P ((i, d) # rest)"
    and "\<And>i d n rest. jget (byId t) i = Some n \<Longrightarrow> k < d \<Longrightarrow> P ((i, d) # rest)"
    and "\<And>i d n rest. jget (byId t) i = Some n \<Longrightarrow> d \<le> k \<Longrightarrow> P (rest @ deeper n d) \<Longrightarrow>
           P ((i, d) # rest)"
  shows "P queue"
proof (induction queue rule: measure_induct_rule
    [where f = "\<lambda>q. sum_list (map (bfs_weight t k) q)"])
  case (less queue)
  have pos: "0 < bfs_weight t k q" for q
    using walk_weight_mono [of 0 "Suc k - snd q" "widest t"] by (simp add: bfs_weight_def)
  show ?case
  proof (cases queue)
    case Nil
    then show ?thesis using assms(1) by simp
  next
    case (Cons q rest)
    obtain i d where q: "q = (i, d)" by (cases q)
    consider "jget (byId t) i = None" | n where "jget (byId t) i = Some n" "k < d"
      | n where "jget (byId t) i = Some n" "d \<le> k" by (cases "jget (byId t) i") force+
    then show ?thesis
    proof cases
      case 1
      have "P rest" using less Cons pos [of q] by simp
      then show ?thesis using assms(2) 1 Cons q by simp
    next
      case 2
      then show ?thesis using assms(3) Cons q by simp
    next
      case 3
      have k: "Suc k - d = Suc (k - d)" using 3 by simp
      have "sum_list (map (\<lambda>c. bfs_weight t k (c, Suc d)) (children_ids n)) < bfs_weight t k (i, d)"
        unfolding bfs_weight_def snd_conv k by (rule step_weight [OF 3(1)]) simp
      then have "P (rest @ deeper n d)" using less Cons q by (simp add: o_def)
      then show ?thesis using assms(4) 3 Cons q by simp
    qed
  qed
qed

lemma plan_bfs_keeps:
  "\<forall>q \<in> set queue. d0 \<le> snd q \<Longrightarrow> plan_bfs t k queue (Some (n0, d0)) = Some (Some (n0, d0))"
proof (induction queue rule: bfs_induct [where t = t and k = k])
  case Nil
  show ?case by (simp add: plan_bfs.simps)
next
  case (Missing i d rest)
  then show ?case by (simp add: plan_bfs.simps [of t k "(i, d) # rest"])
next
  case (Beyond i d n rest)
  then show ?case by (simp add: plan_bfs.simps [of t k "(i, d) # rest"])
next
  case (Node i d n rest)
  then have "plan_bfs t k (rest @ deeper n d) (Some (n0, d0)) = Some (Some (n0, d0))"
    by fastforce
  then show ?case using Node.hyps Node.prems by (simp add: plan_bfs.simps [of t k "(i, d) # rest"])
qed

text \<open>The nodes to be planned that the search may still find, with their depths.\<close>

definition plans :: "Snapshot \<Rightarrow> nat \<Rightarrow> (string \<times> nat) list \<Rightarrow> (ContextNode \<times> nat) set" where
  "plans t k queue =
     {(n, d). \<exists>i e f. (i, e) \<in> set queue \<and> reaches t i f n \<and> d = e + f \<and> d \<le> k \<and> mode n = Pending_plan}"

definition in_levels :: "(string \<times> nat) list \<Rightarrow> bool" where
  "in_levels q \<longleftrightarrow> sorted (map snd q) \<and> (\<forall>x \<in> set q. snd x \<le> Suc (snd (hd q)))"

lemma in_levels_step: "in_levels ((i, d) # rest) \<Longrightarrow> in_levels (rest @ deeper n d)"
  by (cases rest; cases "children_ids n") (auto simp: in_levels_def sorted_append o_def sorted_map)

lemma in_levels_tl: "in_levels ((i, d) # rest) \<Longrightarrow> in_levels rest"
  by (cases rest) (auto simp: in_levels_def)

lemma in_levels_least: "in_levels ((i, d) # rest) \<Longrightarrow> q \<in> set ((i, d) # rest) \<Longrightarrow> d \<le> snd q"
  by (auto simp: in_levels_def)

lemma plans_step:
  assumes n: "jget (byId t) i = Some n"
  shows "plans t k ((i, d) # rest) =
         (if mode n = Pending_plan \<and> d \<le> k then {(n, d)} else {}) \<union> plans t k (rest @ deeper n d)"
proof -
  have one: "plans t k [(i, d)] =
      (if mode n = Pending_plan \<and> d \<le> k then {(n, d)} else {}) \<union> plans t k (deeper n d)"
    unfolding plans_def using reaches_node [OF n] by auto fastforce+
  have app: "plans t k (a @ b) = plans t k a \<union> plans t k b" for a b
    unfolding plans_def set_append Un_iff by blast
  have "plans t k ((i, d) # rest) = plans t k [(i, d)] \<union> plans t k rest"
    using app [of "[(i, d)]" rest] by simp
  then show ?thesis unfolding one app by blast
qed

lemma plans_beyond: "\<forall>q \<in> set queue. k < snd q \<Longrightarrow> plans t k queue = {}"
  by (fastforce simp: plans_def)

lemma plans_missing: "jget (byId t) i = None \<Longrightarrow> plans t k ((i, d) # rest) = plans t k rest"
  by (auto simp: plans_def reaches_missing)

lemma plans_least: "\<forall>q \<in> set queue. d \<le> snd q \<Longrightarrow> (n', d') \<in> plans t k queue \<Longrightarrow> d \<le> d'"
  by (fastforce simp: plans_def)

definition least_plan :: "(ContextNode \<times> nat) option \<Rightarrow> (ContextNode \<times> nat) set \<Rightarrow> bool" where
  "least_plan r C \<longleftrightarrow>
     (case r of None \<Rightarrow> C = {} | Some (n, d) \<Rightarrow> (n, d) \<in> C \<and> (\<forall>n' d'. (n', d') \<in> C \<longrightarrow> d \<le> d'))"

lemma plan_bfs_least:
  "in_levels queue \<Longrightarrow> \<exists>r. plan_bfs t k queue None = Some r \<and> least_plan r (plans t k queue)"
proof (induction queue rule: bfs_induct [where t = t and k = k])
  case Nil
  show ?case by (simp add: plan_bfs.simps least_plan_def plans_def)
next
  case (Missing i d rest)
  then show ?case using in_levels_tl
    by (simp add: plan_bfs.simps [of t k "(i, d) # rest"] plans_missing)
next
  case (Beyond i d n rest)
  have "plans t k ((i, d) # rest) = {}"
    by (rule plans_beyond) (use in_levels_least [OF Beyond(3)] Beyond(2) in fastforce)
  then show ?case using Beyond
    by (simp add: plan_bfs.simps [of t k "(i, d) # rest"] least_plan_def)
next
  case (Node i d n rest)
  have low: "\<forall>q \<in> set ((i, d) # rest). d \<le> snd q" using in_levels_least [OF Node.prems] by blast
  show ?case
  proof (cases "mode n = Pending_plan")
    case True
    have k: "plan_bfs t k (rest @ deeper n d) (Some (n, d)) = Some (Some (n, d))"
      by (rule plan_bfs_keeps) (use low in auto)
    have r: "plan_bfs t k ((i, d) # rest) None = Some (Some (n, d))"
      using True Node.hyps k by (simp add: plan_bfs.simps [of t k "(i, d) # rest"])
    have "(n, d) \<in> plans t k ((i, d) # rest)"
      using True Node.hyps by (simp add: plans_step [OF Node.hyps(1)])
    then have "least_plan (Some (n, d)) (plans t k ((i, d) # rest))"
      using plans_least [OF low] by (auto simp: least_plan_def)
    with r show ?thesis by blast
  next
    case False
    then show ?thesis using Node.IH [OF in_levels_step [OF Node.prems]] Node.hyps
      by (simp add: plan_bfs.simps [of t k "(i, d) # rest"] plans_step [OF Node.hyps(1)])
  qed
qed

section \<open>Depth and ancestors\<close>

lemma depth_loop_ends:
  assumes t: "namespaced t"
  shows "node_named i n \<Longrightarrow> \<exists>r. depth_loop t n d = Some r"
proof (induction "length i" arbitrary: i n d rule: less_induct)
  case less
  show ?case
  proof (cases "parent_id n")
    case None
    then show ?thesis by (simp add: depth_loop.simps)
  next
    case (Some p)
    have p: "length p < length i" by (rule extends_longer [OF named_parent [OF less.prems Some]])
    show ?thesis
    proof (cases "jget (byId t) p")
      case None
      then show ?thesis using Some by (simp add: depth_loop.simps [of t n] Tree_get_def)
    next
      case (Some m)
      then show ?thesis using less.hyps [OF p namespacedD [OF t Some]] \<open>parent_id n = Some p\<close>
        by (simp add: depth_loop.simps [of t n] Tree_get_def)
    qed
  qed
qed

lemma depthOf_ends: "namespaced t \<Longrightarrow> \<exists>r. depthOf t i = Some r"
  using depth_loop_ends namespacedD by (fastforce simp: depthOf_def Tree_get_def split: option.splits)

lemma ancestors_from_ends:
  assumes t: "namespaced t"
  shows "node_named i n \<Longrightarrow> \<exists>ns. ancestors_from t n = Some ns"
proof (induction "length i" arbitrary: i n rule: less_induct)
  case less
  show ?case
  proof (cases "parent_id n")
    case None
    then show ?thesis by (simp add: ancestors_from.simps)
  next
    case (Some p)
    have p: "length p < length i" by (rule extends_longer [OF named_parent [OF less.prems Some]])
    show ?thesis
    proof (cases "jget (byId t) p")
      case None
      then show ?thesis using Some by (simp add: ancestors_from.simps [of t n])
    next
      case (Some m)
      then show ?thesis using less.hyps [OF p namespacedD [OF t Some]] \<open>parent_id n = Some p\<close>
        by (auto simp: ancestors_from.simps [of t n])
    qed
  qed
qed

section \<open>The choice of the next node\<close>

lemma isSubtreeComplete_reach:
  assumes t: "namespaced t"
  shows "isSubtreeComplete t i = Some (\<forall>n d. reaches t i d n \<longrightarrow> \<not> isActionable n)"
proof -
  obtain ns where ns: "walkDFS t [i] = Some ns" using walkDFS_ends [OF t] by blast
  have "(List.find isActionable ns = None) = (\<forall>n \<in> set ns. \<not> isActionable n)"
    by (simp add: find_None_iff2 eq_commute [of None] find_None_iff) blast
  then show ?thesis
    using walkDFS_visits [OF t ns] ns
    by (auto simp: isSubtreeComplete_def dfs_find_walk [OF t])
qed

definition next_choice :: "Snapshot \<Rightarrow> nat \<Rightarrow> ContextNode option \<Rightarrow> bool" where
  "next_choice t k r \<longleftrightarrow>
     (case r of
        None \<Rightarrow> \<not> (\<exists>n d. reaches t (rootId t) d n \<and> isActionable n)
      | Some n \<Rightarrow> isActionable n \<and>
          (\<exists>d. reaches t (rootId t) d n \<and> mode n = Pending_plan \<and> d \<le> k \<and>
               \<not> (\<exists>m e. reaches t (rootId t) e m \<and> mode m = Pending_plan \<and> e < d)) \<or>
          isActionable n \<and>
          \<not> (\<exists>m e. reaches t (rootId t) e m \<and> mode m = Pending_plan \<and> e \<le> k) \<and>
          (\<exists>ns ms. walkDFS t [rootId t] = Some (ns @ n # ms) \<and> \<not> (\<exists>m \<in> set ns. isActionable m)))"

lemma pickNext_choice:
  assumes t: "namespaced t"
  shows "\<exists>r. pickNext t k = Some r \<and> next_choice t k r"
proof -
  obtain p where p: "plan_bfs t k [(rootId t, 0)] None = Some p"
      "least_plan p (plans t k [(rootId t, 0)])"
    using plan_bfs_least [of "[(rootId t, 0)]" t k] by (auto simp: in_levels_def)
  have C: "(n, d) \<in> plans t k [(rootId t, 0)] \<longleftrightarrow>
      reaches t (rootId t) d n \<and> mode n = Pending_plan \<and> d \<le> k" for n d
    by (auto simp: plans_def)
  obtain ns where ns: "walkDFS t [rootId t] = Some ns" using walkDFS_ends [OF t] by blast
  have visits: "set ns = {n. \<exists>d. reaches t (rootId t) d n}"
    using walkDFS_visits [OF t ns] by simp
  show ?thesis
  proof (cases p)
    case (Some b)
    obtain n d where b: "b = (n, d)" by (cases b)
    have "pickNext t k = Some (Some n)" using p Some b by (simp add: pickNext_def)
    moreover have "reaches t (rootId t) d n \<and> mode n = Pending_plan \<and> d \<le> k"
      using p(2) Some b C [of n d] by (simp add: least_plan_def)
    moreover have "\<not> (\<exists>m e. reaches t (rootId t) e m \<and> mode m = Pending_plan \<and> e < d)"
    proof
      assume "\<exists>m e. reaches t (rootId t) e m \<and> mode m = Pending_plan \<and> e < d"
      then obtain m e where me: "reaches t (rootId t) e m" "mode m = Pending_plan" "e < d" by blast
      then have "(m, e) \<in> plans t k [(rootId t, 0)]" using calculation(2) C by simp
      then have "d \<le> e" using p(2) unfolding Some b least_plan_def option.case prod.case by blast
      then show False using me(3) by simp
    qed
    ultimately show ?thesis by (auto simp: isActionable_def next_choice_def)
  next
    case None
    have none: "\<not> (\<exists>m e. reaches t (rootId t) e m \<and> mode m = Pending_plan \<and> e \<le> k)"
      using p(2) None C by (auto simp: least_plan_def)
    have pick: "pickNext t k = Some (List.find isActionable ns)"
      using p None ns by (simp add: pickNext_def dfs_find_walk [OF t])
    show ?thesis
    proof (cases "List.find isActionable ns")
      case None
      then have "\<not> (\<exists>n d. reaches t (rootId t) d n \<and> isActionable n)"
        using visits by (auto simp: find_None_iff)
      then show ?thesis using pick None by (simp add: next_choice_def)
    next
      case (Some n)
      obtain as bs where "ns = as @ n # bs" "isActionable n" "\<forall>m \<in> set as. \<not> isActionable m"
        using Some by (induction ns) (auto split: if_splits, force, metis append_Cons set_ConsD)
      then show ?thesis using pick Some none ns by (auto simp: next_choice_def)
    qed
  qed
qed

text \<open>
  \<open>pickNext\<close> returns a reachable node that still needs work: the shallowest node to be planned
  within the top levels, else the first one of the depth-first walk. It returns nothing exactly
  when no reachable node needs work.
\<close>

theorem pickNext_spec:
  assumes t: "namespaced t"
  shows "\<exists>r. pickNext t k = Some r \<and>
     (case r of
        None \<Rightarrow> \<not> (\<exists>n d. reaches t (rootId t) d n \<and> isActionable n)
      | Some n \<Rightarrow> isActionable n \<and>
          (\<exists>d. reaches t (rootId t) d n \<and> mode n = Pending_plan \<and> d \<le> k \<and>
               \<not> (\<exists>m e. reaches t (rootId t) e m \<and> mode m = Pending_plan \<and> e < d)) \<or>
          isActionable n \<and>
          \<not> (\<exists>m e. reaches t (rootId t) e m \<and> mode m = Pending_plan \<and> e \<le> k) \<and>
          (\<exists>ns ms. walkDFS t [rootId t] = Some (ns @ n # ms) \<and> \<not> (\<exists>m \<in> set ns. isActionable m)))"
  using pickNext_choice [OF t] unfolding next_choice_def .

lemma pickNext_none:
  assumes "namespaced t" and "pickNext t k = Some None" and "reaches t (rootId t) d n"
  shows "\<not> isActionable n"
  using pickNext_choice [OF assms(1), of k] assms(2,3) by (auto simp: next_choice_def)

lemma pickNext_some:
  assumes "namespaced t" and "pickNext t k = Some (Some n)"
  obtains d where "reaches t (rootId t) d n" and "isActionable n"
proof -
  have c: "next_choice t k (Some n)" using pickNext_choice [OF assms(1), of k] assms(2) by simp
  then have a: "isActionable n" by (auto simp: next_choice_def)
  have "\<exists>d. reaches t (rootId t) d n"
    using c walkDFS_visits [OF assms(1)] unfolding next_choice_def option.case
    by (elim disjE conjE exE) (blast, force)
  then show thesis using a that by blast
qed

lemma pickNext_ends: "namespaced t \<Longrightarrow> \<exists>r. pickNext t k = Some r"
proof -
  assume t: "namespaced t"
  obtain p where "plan_bfs t k [(rootId t, 0)] None = Some p"
    using plan_bfs_least [of "[(rootId t, 0)]" t k] by (auto simp: in_levels_def)
  then show ?thesis
    using walkDFS_ends [OF t, of "[rootId t]"]
    by (auto simp: pickNext_def dfs_find_walk [OF t] split: option.split)
qed

lemma pickNext_spec_witness:
  "\<exists>n. pickNext \<lparr>byId = [(''root'', sample_node ''root'' [])], rootId = ''root''\<rparr> 3 = Some (Some n)"
proof -
  let ?t = "\<lparr>byId = [(''root'', sample_node ''root'' [])], rootId = ''root''\<rparr>"
  have t: "namespaced ?t" by (simp add: namespaced_def node_named_def sample_node_def)
  have a: "reaches ?t (rootId ?t) 0 (sample_node ''root'' [])" by (rule reaches.here) simp
  have b: "isActionable (sample_node ''root'' [])" by (simp add: isActionable_def sample_node_def)
  have "\<exists>r. pickNext ?t 3 = Some r \<and> next_choice ?t 3 r"
    using pickNext_spec [OF t, of 3] unfolding next_choice_def .
  then obtain r where r: "pickNext ?t 3 = Some r" "next_choice ?t 3 r" by blast
  have "r \<noteq> None"
  proof
    assume "r = None"
    then have "next_choice ?t 3 None" using r(2) by simp
    then have "\<not> (\<exists>n d. reaches ?t (rootId ?t) d n \<and> isActionable n)"
      unfolding next_choice_def option.case .
    with a b show False by blast
  qed
  then show ?thesis using r(1) by auto
qed

end
