(* ===== verification/Freerun_Files.thy ===== *)
theory Freerun_Files
  imports Freerun_Tree
begin

text \<open>
  When the directory of a freerun session can be loaded, and what keeps it so: the invariant of
  the files, that \<open>load\<close> then gives the tree of these files, and that writing a node and moving
  files keep the invariant.
\<close>

lemma load_loop_spec:
  "load_loop ids fs m rt = Inr t \<Longrightarrow>
     (\<forall>i. jget (byId t) i = (if i \<in> set ids then NodeFS_read i fs else jget m i)) \<and>
     (\<forall>i \<in> set ids. \<exists>n. NodeFS_read i fs = Some n \<and> (parent_id n = None \<longrightarrow> i = rootId t)) \<and>
     (\<forall>r. rt = Some r \<longrightarrow> rootId t = r) \<and>
     (rt = None \<longrightarrow> rootId t \<in> set ids)"
proof (induction ids arbitrary: m rt)
  case Nil
  then show ?case by (auto split: option.splits)
next
  case (Cons i ids)
  obtain n where n: "NodeFS_read i fs = Some n" using Cons.prems by (auto split: option.splits)
  show ?case
  proof (cases "parent_id n = None")
    case True
    then have l: "load_loop ids fs (jset m i n) (Some i) = Inr t" and r: "rt = None \<or> rt = Some i"
      using Cons.prems n by (auto split: if_splits)
    show ?thesis using Cons.IH [OF l] r n by (auto simp: jget_jset)
  next
    case False
    then have l: "load_loop ids fs (jset m i n) rt = Inr t"
      using Cons.prems n by (simp del: not_None_eq)
    show ?thesis using Cons.IH [OF l] n False by (auto simp: jget_jset)
  qed
qed

lemma load_loop_succeeds:
  assumes "\<forall>i \<in> set ids. \<exists>n. NodeFS_read i fs = Some n \<and> (parent_id n = None \<longrightarrow> i = r)"
    and "rt = None \<or> rt = Some r"
    and "rt = None \<longrightarrow> (\<exists>n. r \<in> set ids \<and> NodeFS_read r fs = Some n \<and> parent_id n = None)"
  shows "\<exists>t. load_loop ids fs m rt = Inr t \<and> rootId t = r"
  using assms
proof (induction ids arbitrary: m rt)
  case Nil
  then show ?case by auto
next
  case (Cons i ids)
  obtain n where n: "NodeFS_read i fs = Some n" "parent_id n = None \<longrightarrow> i = r"
    using Cons.prems(1) by auto
  show ?case
  proof (cases "parent_id n = None")
    case True
    then show ?thesis using Cons.IH [of "Some r"] Cons.prems n by auto
  next
    case False
    have "rt = None \<longrightarrow> i \<noteq> r" using Cons.prems(3) n False by auto
    then have "\<exists>t. load_loop ids fs (jset m i n) rt = Inr t \<and> rootId t = r"
      by (intro Cons.IH) (use Cons.prems in auto)
    then show ?thesis using n False by (simp del: not_None_eq)
  qed
qed

section \<open>The invariant of the files\<close>

text \<open>Every file reads as a node of its own name that can be written again; only the root has
  no parent; a child's name extends its parent's, and every name the root's.\<close>

definition file_ok :: "string \<Rightarrow> string \<Rightarrow> ContextNode \<Rightarrow> bool" where
  "file_ok r i n \<longleftrightarrow>
     node_named i n \<and> storable n \<and> (parent_id n = None \<longleftrightarrow> i = r) \<and> (i = r \<or> extends r i)"

definition files_ok :: "string \<Rightarrow> TreeFiles \<Rightarrow> bool" where
  "files_ok r fs \<longleftrightarrow>
     r \<in> set (NodeFS_list fs) \<and>
     (\<forall>i \<in> set (NodeFS_list fs). \<exists>n. NodeFS_read i fs = Some n \<and> file_ok r i n)"

lemma read_listed: "NodeFS_read i fs = Some n \<Longrightarrow> i \<in> set (NodeFS_list fs)"
  unfolding NodeFS_list_def jm.keys_get by (auto simp: NodeFS_read_def split: option.splits)

lemma files_ok_read: "files_ok r fs \<Longrightarrow> NodeFS_read i fs = Some n \<Longrightarrow> file_ok r i n"
  using read_listed [of i fs n] by (fastforce simp: files_ok_def)

lemma files_ok_root: "files_ok r fs \<Longrightarrow> \<exists>n. NodeFS_read r fs = Some n \<and> parent_id n = None"
  by (fastforce simp: files_ok_def file_ok_def)

lemma load_reads: "Tree_load fs = Inr t \<Longrightarrow> jget (byId t) i = NodeFS_read i fs"
proof -
  assume "Tree_load fs = Inr t"
  then have l: "load_loop (NodeFS_list fs) fs [] None = Inr t"
    by (simp add: Tree_load_def split: if_splits)
  have "i \<notin> set (NodeFS_list fs) \<Longrightarrow> NodeFS_read i fs = None"
    using read_listed [of i fs] by (cases "NodeFS_read i fs") auto
  then show ?thesis using load_loop_spec [OF l] by simp
qed

lemma load_keys:
  assumes "Tree_load fs = Inr t"
  shows "distinct (map fst (byId t))"
proof -
  have "load_loop ids fs m rt = Inr t \<Longrightarrow> distinct (map fst m) \<Longrightarrow> distinct (map fst (byId t))" for ids m rt
  proof (induction ids arbitrary: m rt)
    case Nil
    then show ?case by (auto split: option.splits)
  next
    case (Cons i ids)
    then show ?case by (auto split: option.splits if_splits simp: distinct_update)
  qed
  then show ?thesis using assms by (force simp: Tree_load_def split: if_splits)
qed

lemma files_ok_load:
  assumes "files_ok r fs"
  obtains t where "Tree_load fs = Inr t" and "rootId t = r" and "namespaced t"
    and "\<And>i. jget (byId t) i = NodeFS_read i fs"
proof -
  have "\<exists>t. load_loop (NodeFS_list fs) fs [] None = Inr t \<and> rootId t = r"
    by (rule load_loop_succeeds)
       (use assms files_ok_root [OF assms] in \<open>fastforce simp: files_ok_def file_ok_def\<close>)+
  moreover have "NodeFS_list fs \<noteq> []" using assms by (auto simp: files_ok_def)
  ultimately obtain t where t: "Tree_load fs = Inr t" "rootId t = r" by (auto simp: Tree_load_def)
  have "node_named i n" if "(i, n) \<in> set (byId t)" for i n
  proof -
    have "jget (byId t) i = Some n" using that load_keys [OF t(1)] by simp
    then show ?thesis using load_reads [OF t(1), of i] files_ok_read [OF assms]
      by (simp add: file_ok_def)
  qed
  then have "namespaced t" by (auto simp: namespaced_def list_all_iff)
  then show thesis using that t load_reads [OF t(1)] by blast
qed

lemma js_includes_append: "js_includes s p \<Longrightarrow> js_includes (s @ u) p"
  unfolding js_includes_iff by (metis append.assoc)

lemma js_trim_end_prefix: "\<exists>u. s = js_trim_end s @ u"
proof -
  have "rev s = takeWhile js_space (rev s) @ dropWhile js_space (rev s)" by simp
  then have "s = js_trim_end s @ rev (takeWhile js_space (rev s))"
    unfolding js_trim_end_def by (metis rev_append rev_rev_ident)
  then show ?thesis by blast
qed

lemma storable_as_read: "storable n \<Longrightarrow> storable (as_read n)"
proof -
  assume s: "storable n"
  obtain u where "body n = js_trim_end (body n) @ u" using js_trim_end_prefix by blast
  then have "\<not> js_includes (js_trim_end (body n)) STATE_FENCE_OPEN"
    using s js_includes_append by (metis storable_def)
  then show ?thesis using s by (simp add: storable_def as_read_def valid_node_def)
qed

lemma as_read_fields [simp]:
  "node_id (as_read n) = node_id n" "parent_id (as_read n) = parent_id n"
  "children_ids (as_read n) = children_ids n" "mode (as_read n) = mode n"
  "blockers (as_read n) = blockers n" "consolidated_summary (as_read n) = consolidated_summary n"
  "iteration_count (as_read n) = iteration_count n" "observations (as_read n) = observations n"
  "decisions (as_read n) = decisions n" "results (as_read n) = results n"
  "next_intent (as_read n) = next_intent n" "relevant_tools (as_read n) = relevant_tools n"
  by (simp_all add: as_read_def)

lemma file_ok_as_read: "file_ok r i n \<Longrightarrow> file_ok r i (as_read n)"
  by (simp add: file_ok_def node_named_def storable_as_read)

text \<open>A good node can be written, and then the files are still good.\<close>

lemma write_ok:
  assumes "files_ok r fs" and "file_ok r (node_id n) n"
  obtains fs' where "NodeFS_write n fs = Some fs'" and "files_ok r fs'"
    and "\<And>i. NodeFS_read i fs' = (if i = node_id n then Some (as_read n) else NodeFS_read i fs)"
    and "set (NodeFS_list fs') = insert (node_id n) (set (NodeFS_list fs))"
    and "\<And>t i. NodeFS_archived t i fs' = NodeFS_archived t i fs"
proof -
  have st: "storable n" using assms(2) by (simp add: file_ok_def)
  obtain fs' where w: "NodeFS_write n fs = Some fs'" using nf.put_good [OF st] by blast
  have rd: "NodeFS_read i fs' = (if i = node_id n then Some (as_read n) else NodeFS_read i fs)" for i
    by (rule nf.get_put [OF st w])
  have ls: "set (NodeFS_list fs') = insert (node_id n) (set (NodeFS_list fs))" by (rule nf.ids_put [OF w])
  have "files_ok r fs'"
    using assms file_ok_as_read [OF assms(2)] by (auto simp: files_ok_def rd ls)
  with w show thesis using that rd ls nf.moved_put [OF w] by blast
qed

lemma each_write_ok:
  assumes "files_ok r fs" and "\<forall>n \<in> set ns. file_ok r (node_id n) n"
  obtains fs' where "js_each NodeFS_write ns fs = (True, fs')" and "files_ok r fs'"
    and "\<And>i. i \<notin> node_id ` set ns \<Longrightarrow> NodeFS_read i fs' = NodeFS_read i fs"
    and "\<And>i. i \<in> node_id ` set ns \<Longrightarrow> \<exists>n \<in> set ns. node_id n = i \<and> NodeFS_read i fs' = Some (as_read n)"
    and "\<And>t i. NodeFS_archived t i fs' = NodeFS_archived t i fs"
proof -
  have "\<exists>fs'. js_each NodeFS_write ns fs = (True, fs') \<and> files_ok r fs' \<and>
      (\<forall>i. i \<notin> node_id ` set ns \<longrightarrow> NodeFS_read i fs' = NodeFS_read i fs) \<and>
      (\<forall>i. i \<in> node_id ` set ns \<longrightarrow> (\<exists>n \<in> set ns. node_id n = i \<and> NodeFS_read i fs' = Some (as_read n))) \<and>
      (\<forall>t i. NodeFS_archived t i fs' = NodeFS_archived t i fs)"
    using assms
  proof (induction ns arbitrary: fs)
    case Nil
    then show ?case by simp
  next
    case (Cons n ns)
    obtain f1 where f1: "NodeFS_write n fs = Some f1" "files_ok r f1"
      "\<And>i. NodeFS_read i f1 = (if i = node_id n then Some (as_read n) else NodeFS_read i fs)"
      "\<And>t i. NodeFS_archived t i f1 = NodeFS_archived t i fs"
      using write_ok [OF Cons.prems(1)] Cons.prems(2) by (metis list.set_intros(1))
    obtain f2 where f2: "js_each NodeFS_write ns f1 = (True, f2)" "files_ok r f2"
      "\<forall>i. i \<notin> node_id ` set ns \<longrightarrow> NodeFS_read i f2 = NodeFS_read i f1"
      "\<forall>i. i \<in> node_id ` set ns \<longrightarrow> (\<exists>n \<in> set ns. node_id n = i \<and> NodeFS_read i f2 = Some (as_read n))"
      "\<forall>t i. NodeFS_archived t i f2 = NodeFS_archived t i f1"
      using Cons.IH [OF f1(2)] Cons.prems(2) by auto
    have "\<exists>m \<in> set (n # ns). node_id m = i \<and> NodeFS_read i f2 = Some (as_read m)"
      if i: "i \<in> node_id ` set (n # ns)" for i
    proof (cases "i \<in> node_id ` set ns")
      case True
      then show ?thesis using f2(4) by auto
    next
      case False
      then have "NodeFS_read i f2 = Some (as_read n)" "node_id n = i" using i f2(3) f1(3) by auto
      then show ?thesis by auto
    qed
    then show ?case using f1 f2 by auto
  qed
  then show thesis using that by blast
qed

text \<open>Files other than the root can be moved.\<close>

lemma archive_ok:
  assumes "files_ok r fs" and "js_each (\<lambda>d. NodeFS_archive d st) ds fs = (b, fs')" and "r \<notin> set ds"
  shows "files_ok r fs'"
  using assms
proof (induction ds arbitrary: fs)
  case Nil
  then show ?case by simp
next
  case (Cons d ds)
  show ?case
  proof (cases "NodeFS_archive d st fs")
    case None
    then show ?thesis using Cons.prems by simp
  next
    case (Some f1)
    have "files_ok r f1" using Cons.prems
      by (auto simp: files_ok_def nf.get_move [OF Some] nf.ids_move [OF Some])
    then show ?thesis using Cons Some by simp
  qed
qed

end
