(* ===== verification/Freerun_Outcome.thy ===== *)
theory Freerun_Outcome
  imports Node_FS
begin

text \<open>
  What a freerun iteration does with the answer of the model: taking the JSON text out of its
  framing (freerun/runtime/iterate.ts), the schemas of the two outcomes (freerun/types.ts), the
  rejection of meta tasks (freerun/validation/no-meta-icom.ts), and the filter of the tools
  offered to a node (freerun/render/tool-filter.ts).
\<close>

section \<open>The schemas of the outcomes\<close>

fun dec_child :: "json \<Rightarrow> PlannedChild option" where
  "dec_child (JObj m) = do {
     i \<leftarrow> fld m ''id'' None dec_str;
     t \<leftarrow> fld m ''title'' None dec_str;
     b \<leftarrow> fld m ''body'' (Some []) dec_str;
     md \<leftarrow> fld m ''mode'' (Some None) (optional (\<lambda>v. Option.bind (dec_str v) mode_of_text));
     rt \<leftarrow> fld m ''relevant_tools'' (Some None) (optional (dec_arr dec_str));
     sk \<leftarrow> fld m ''relevant_skills'' (Some None) (optional (dec_arr dec_str));
     Some \<lparr>child_id = i, child_title = t, child_body = b, child_mode = md, child_tools = rt,
           child_skills = sk\<rparr> }"
| "dec_child _ = None"

fun PlanningOutcome_parse :: "json \<Rightarrow> PlanningOutcome option" where
  "PlanningOutcome_parse (JObj m) = do {
     cs \<leftarrow> fld m ''children'' None (dec_arr dec_child);
     if valid_planning cs then Some cs else None }"
| "PlanningOutcome_parse _ = None"

fun ExecutionOutcome_parse :: "json \<Rightarrow> ExecutionOutcome option" where
  "ExecutionOutcome_parse (JObj m) = do {
     obs \<leftarrow> fld m ''observations'' (Some []) (dec_arr dec_str);
     ds \<leftarrow> fld m ''decisions'' (Some []) (dec_arr dec_decision);
     bs \<leftarrow> fld m ''blockers'' (Some []) (dec_arr dec_str);
     rs \<leftarrow> fld m ''results'' (Some JNull) Some;
     ni \<leftarrow> fld m ''next_intent'' (Some []) dec_str;
     nm \<leftarrow> fld m ''next_mode'' (Some Mode_done) (\<lambda>v. Option.bind (dec_str v) mode_of_text);
     let x = \<lparr>out_observations = obs, out_decisions = ds, out_blockers = bs, out_results = rs,
              out_next_intent = ni, out_next_mode = nm\<rparr>
     in if valid_execution x then Some x else None }"
| "ExecutionOutcome_parse _ = None"

lemma PlanningOutcome_parse_valid: "PlanningOutcome_parse v = Some cs \<Longrightarrow> valid_planning cs"
  by (cases v) (auto split: bind_splits if_splits)

lemma ExecutionOutcome_parse_valid: "ExecutionOutcome_parse v = Some x \<Longrightarrow> valid_execution x"
  by (cases v) (auto simp: Let_def split: bind_splits if_splits)

section \<open>The JSON text of an answer\<close>

definition js_lastIndexOf :: "char \<Rightarrow> string \<Rightarrow> nat option" where
  "js_lastIndexOf c s = map_option (\<lambda>k. length s - Suc k) (js_indexOf (rev s) c)"

text \<open>\<open>/```(?:json)?\s*\n?([\s\S]*?)\n?```/i\<close>: the text between the first three back ticks and the
  next three, without the word \<open>json\<close> at its start, trimmed.\<close>

definition fence_match :: "string \<Rightarrow> string option" where
  "fence_match s =
     (case js_cut STATE_FENCE_CLOSE s of
        None \<Rightarrow> None
      | Some (_, r) \<Rightarrow>
          (case js_cut STATE_FENCE_CLOSE (if js_starts_with (js_lower r) ''json'' then drop 4 r else r) of
             None \<Rightarrow> None
           | Some (inner, _) \<Rightarrow> Some (js_trim inner)))"

definition stripFencingAndPreamble :: "string \<Rightarrow> string option" where
  "stripFencingAndPreamble s =
     (case fence_match s of
        Some inner \<Rightarrow> Some inner
      | None \<Rightarrow>
          (case (js_indexOf s (CHR ''{''), js_lastIndexOf (CHR ''}'') s) of
             (Some start, Some stop) \<Rightarrow>
               if stop \<le> start then None else Some (js_trim (drop start (take (Suc stop) s)))
           | _ \<Rightarrow> None))"

definition parseExecutionOutcome :: "string \<Rightarrow> ExecutionOutcome option" where
  "parseExecutionOutcome content =
     (case stripFencingAndPreamble content of
        None \<Rightarrow> None
      | Some trimmed \<Rightarrow> Option.bind (JSON_parse trimmed) ExecutionOutcome_parse)"

section \<open>Meta tasks\<close>

text \<open>The regular expressions of the rejected tasks: literals (case is ignored), \<open>\s*\<close>, \<open>\s+\<close>,
  an optional part, a choice, a sequence. \<open>rx_rests\<close> lists what may be left of the text.\<close>

datatype meta_rx = Lit string | Spaces | Spaces1 | Opt meta_rx | Alt "meta_rx list" | Sequence "meta_rx list"

fun space_rests :: "string \<Rightarrow> string list" where
  "space_rests [] = [[]]"
| "space_rests (c # s) = (c # s) # (if js_space c then space_rests s else [])"

fun rx_rests :: "meta_rx \<Rightarrow> string \<Rightarrow> string list" where
  "rx_rests (Lit w) s = (if js_starts_with (js_lower s) w then [drop (length w) s] else [])"
| "rx_rests Spaces s = space_rests s"
| "rx_rests Spaces1 s = (case s of [] \<Rightarrow> [] | c # t \<Rightarrow> if js_space c then space_rests t else [])"
| "rx_rests (Opt r) s = s # rx_rests r s"
| "rx_rests (Alt rs) s = concat (map (\<lambda>r. rx_rests r s) rs)"
| "rx_rests (Sequence rs) s = foldl (\<lambda>ss r. concat (map (rx_rests r) ss)) [s] rs"

text \<open>\<open>\b\<close> holds where exactly one of the two neighbours is a word character.\<close>

definition word_edge :: "char option \<Rightarrow> string \<Rightarrow> bool" where
  [js_defs]: "word_edge before after \<longleftrightarrow>
     (case before of None \<Rightarrow> False | Some c \<Rightarrow> word_char c) \<noteq>
     (case after of [] \<Rightarrow> False | c # _ \<Rightarrow> word_char c)"

fun rx_test :: "meta_rx \<Rightarrow> char option \<Rightarrow> string \<Rightarrow> bool" where
  "rx_test r before s \<longleftrightarrow>
     word_edge before s \<and>
     list_ex (\<lambda>rest. word_edge
                (if length rest = length s then before else Some (s ! (length s - length rest - 1))) rest)
       (rx_rests r s) \<or>
     (case s of [] \<Rightarrow> False | c # t \<Rightarrow> rx_test r (Some c) t)"

declare rx_test.simps [simp del]

definition words_of :: "string list \<Rightarrow> meta_rx" where
  [js_defs]: "words_of ws = Alt (map Lit ws)"

definition META_PATTERNS :: "(meta_rx \<times> string) list" where
  "META_PATTERNS =
     [(Sequence [words_of [''generate'', ''create'', ''produce'', ''write'', ''emit'', ''update'',
                      ''maintain'', ''prepare''], Spaces1,
            Opt (Sequence [Lit ''a'', Opt (Lit ''n''), Spaces1]), Lit ''icom''],
       ''ICOM is the commit protocol, not a child task''),
      (Alt [Sequence [Lit ''context'', Spaces, Lit ''node''], Lit ''contextnode''],
       ''ContextNode is runtime state, not a domain child task''),
      (words_of [''planningoutcome'', ''executionoutcome''],
       ''Outcome objects are protocol outputs, not domain child tasks''),
      (Alt [Sequence [Lit ''json'', Spaces1, Lit ''schema''], Sequence [Lit ''schema'', Spaces1, Lit ''validation''],
            Sequence [Lit ''response'', Spaces1, Lit ''schema'']],
       ''Schema handling belongs to runtime validation''),
      (Alt [Sequence [Lit ''freerun'', Spaces1, Lit ''state''], Sequence [Lit ''state'', Spaces1, Lit ''update''],
            Sequence [Lit ''update'', Spaces1, Lit ''state''], Sequence [Lit ''persist'', Spaces1, Lit ''state'']],
       ''State persistence belongs to the runtime''),
      (Sequence [Alt [Lit ''update'', Sequence [Lit ''check'', Spaces1, Lit ''off''], Lit ''tick'', Lit ''mark''],
            Spaces1, Lit ''tasks.md''],
       ''tasks.md completion is a plan sync side effect, not a child task''),
      (Alt [Sequence [Lit ''plan'', Opt (Lit ''ning''), Spaces1, Opt (Sequence [Lit ''the'', Spaces1]), Lit ''plan''],
            Sequence [Lit ''decompose'', Spaces1, Opt (Sequence [Lit ''the'', Spaces1]), Lit ''decomposition'']],
       ''Planning the plan is a meta-task loop''),
      (Alt [Lit ''handover'', Lit ''runloop'', Sequence [Lit ''runtime'', Spaces1, Lit ''protocol''],
            Sequence [Lit ''commit'', Spaces1, Lit ''protocol'']],
       ''Runtime protocol work must stay outside the domain task tree'')]"

definition meta_hit :: "PlannedChild \<Rightarrow> string option" where
  "meta_hit c =
     map_option snd (List.find (\<lambda>e. rx_test (fst e) None (child_title c @ newline # child_body c)) META_PATTERNS)"

definition NoMetaIcom_validate :: "PlanningOutcome \<Rightarrow> (string \<times> string) list" where
  "NoMetaIcom_validate cs = List.map_filter (\<lambda>c. map_option (\<lambda>r. (child_id c, r)) (meta_hit c)) cs"

text \<open>\<open>assertValid\<close> throws a message: here its value, \<open>None\<close> when it returns.\<close>

definition NoMetaIcom_assertValid :: "PlanningOutcome \<Rightarrow> string option" where
  "NoMetaIcom_assertValid cs =
     (let violations = NoMetaIcom_validate cs in
      if violations = [] then None
      else Some (''planning outcome violates No Meta-ICOM invariant '' @ em_dash @ '' '' @
                 js_join ''; '' (map (\<lambda>(i, r). i @ '': '' @ r) violations)))"

section \<open>The tools of a node\<close>

record 'a FilterResult =
  tools :: "(string \<times> 'a) list"
  suppressAll :: bool
  unknown :: "string list"

text \<open>A tool is its name and the rest of its record. A name the catalog holds twice stands for its
  last tool.\<close>

fun filter_loop :: "(string, string \<times> 'a) jmap \<Rightarrow> string list \<Rightarrow> (string \<times> 'a) list \<Rightarrow> string list \<Rightarrow>
    (string \<times> 'a) list \<times> string list" where
  "filter_loop byName [] out unk = (out, unk)"
| "filter_loop byName (name # names) out unk =
     (case jget byName name of
        Some hit \<Rightarrow> filter_loop byName names (out @ [hit]) unk
      | None \<Rightarrow> filter_loop byName names out (unk @ [name]))"

definition ToolFilter_filter :: "(string \<times> 'a) list \<Rightarrow> string list option \<Rightarrow> 'a FilterResult" where
  "ToolFilter_filter catalog relevantTools =
     (case relevantTools of
        None \<Rightarrow> \<lparr>tools = catalog, suppressAll = False, unknown = []\<rparr>
      | Some [] \<Rightarrow> \<lparr>tools = [], suppressAll = True, unknown = []\<rparr>
      | Some names \<Rightarrow>
          (let catalogByName = foldl (\<lambda>m t. jset m (fst t) t) [] catalog;
               (out, unk) = filter_loop catalogByName names [] []
           in \<lparr>tools = out, suppressAll = False, unknown = unk\<rparr>))"

end
