(* ===== verification/Freerun_Engine.thy ===== *)
theory Freerun_Engine
  imports Freerun_Files Freerun_Outcome
begin

text \<open>
  The freerun engine: one iteration (freerun/runtime/iterate.ts), the consolidation of settled
  subtrees (freerun/runtime/consolidate.ts), the loop with its final status
  (freerun/runtime/engine.ts, freerun/storage/meta-fs.ts) and the start of a session
  (freerun/trigger/goal.ts).

  The model and the clock are parameters: an answer depends on the request, which is made of the
  tree, the node, the iteration and the attempt. \<open>Inl\<close> is a call that throws, with its message.
  The events of the bus are left out; so are the texts of the prompts, which only the model reads.
\<close>

record Llm =
  callPlanning :: "Snapshot \<Rightarrow> ContextNode \<Rightarrow> nat \<Rightarrow> string + json"
  callExecution :: "Snapshot \<Rightarrow> ContextNode \<Rightarrow> nat \<Rightarrow> bool \<Rightarrow> string + string"
  summarize :: "ContextNode \<Rightarrow> ContextNode list \<Rightarrow> nat \<Rightarrow> nat \<Rightarrow> string + string"
  zod_message :: "json \<Rightarrow> string"

datatype IterateResult =
  Advanced string (planning: bool) | Settled | Blocked string string

type_synonym 'a effect = "((fr_error + 'a) \<times> TreeFiles) option"

section \<open>Iteration\<close>

definition ensureNamespacedChildId :: "string \<Rightarrow> string \<Rightarrow> string" where
  "ensureNamespacedChildId parentId childIdFromLlm =
     (if js_starts_with childIdFromLlm (parentId @ ''.'') then childIdFromLlm
      else if childIdFromLlm = parentId then parentId @ ''.child''
      else parentId @ ''.'' @ childIdFromLlm)"

definition write_node :: "ContextNode \<Rightarrow> TreeFiles \<Rightarrow> 'a \<Rightarrow> 'a effect" where
  "write_node n fs x =
     Some (case NodeFS_write n fs of None \<Rightarrow> (Inl Bad_node, fs) | Some fs' \<Rightarrow> (Inr x, fs'))"

definition blocked_node :: "ContextNode \<Rightarrow> string \<Rightarrow> string \<Rightarrow> ContextNode" where
  "blocked_node n now reason =
     n\<lparr>mode := Mode_blocked, iteration_count := iteration_count n + 1, updated_at := Some now,
       blockers := blockers n @ [reason]\<rparr>"

definition blockNode :: "ContextNode \<Rightarrow> string \<Rightarrow> string \<Rightarrow> TreeFiles \<Rightarrow> IterateResult effect" where
  "blockNode n now reason fs =
     write_node (blocked_node n now reason) fs (Blocked (node_id n) reason)"

definition child_node :: "ContextNode \<Rightarrow> string \<Rightarrow> PlannedChild \<Rightarrow> ContextNode" where
  "child_node n now c =
     \<lparr>node_id = ensureNamespacedChildId (node_id n) (child_id c), parent_id = Some (node_id n),
      children_ids = [], title = child_title c, body = child_body c,
      mode = (case child_mode c of None \<Rightarrow> Pending_plan | Some m \<Rightarrow> m), created_at = now,
      iteration_count = 0, updated_at = None, observations = [], decisions = [], blockers = [],
      results = JNull, next_intent = [], consolidated_summary = None,
      relevant_tools = child_tools c, relevant_skills = child_skills c, goal_binding = None\<rparr>"

definition planned_node :: "ContextNode \<Rightarrow> string \<Rightarrow> PlanningOutcome \<Rightarrow> ContextNode" where
  "planned_node n now cs =
     n\<lparr>children_ids := children_ids n @ map (node_id \<circ> child_node n now) cs, mode := Decomposed,
       iteration_count := iteration_count n + 1, updated_at := Some now\<rparr>"

text \<open>The outcome of a planning call: the message of what was thrown, or the children.\<close>

definition planning_outcome :: "Llm \<Rightarrow> string + json \<Rightarrow> string + PlanningOutcome" where
  "planning_outcome llm raw =
     (case raw of
        Inl msg \<Rightarrow> Inl msg
      | Inr v \<Rightarrow>
          (case PlanningOutcome_parse v of
             None \<Rightarrow> Inl (zod_message llm v)
           | Some cs \<Rightarrow> (case NoMetaIcom_assertValid cs of Some msg \<Rightarrow> Inl msg | None \<Rightarrow> Inr cs)))"

definition runPlanning ::
  "Llm \<Rightarrow> Snapshot \<Rightarrow> ContextNode \<Rightarrow> string \<Rightarrow> nat \<Rightarrow> TreeFiles \<Rightarrow> IterateResult effect" where
  "runPlanning llm t n now iteration fs =
     (case planning_outcome llm (callPlanning llm t n iteration) of
        Inl msg \<Rightarrow> blockNode n now (''planning LLM call failed: '' @ msg) fs
      | Inr cs \<Rightarrow>
          (let (ok, fs1) = js_each NodeFS_write (map (child_node n now) cs) fs
           in if \<not> ok then Some (Inl Bad_node, fs1)
              else write_node (planned_node n now cs) fs1 (Advanced (node_id n) True)))"

text \<open>One attempt: an outcome, or the failure it adds to the list.\<close>

definition attempt :: "string \<Rightarrow> string + string \<Rightarrow> ExecutionOutcome option \<times> string list" where
  "attempt label raw =
     (case raw of
        Inl msg \<Rightarrow> (None, [label @ msg])
      | Inr finalContent \<Rightarrow> (parseExecutionOutcome finalContent, []))"

definition merged_node :: "ContextNode \<Rightarrow> string \<Rightarrow> ExecutionOutcome \<Rightarrow> ContextNode" where
  "merged_node n now x =
     n\<lparr>mode := out_next_mode x, iteration_count := iteration_count n + 1, updated_at := Some now,
       observations := observations n @ out_observations x,
       decisions := decisions n @ out_decisions x,
       blockers := (if out_next_mode x = Mode_blocked then blockers n @ out_blockers x
                    else out_blockers x),
       results := (if out_results x = JNull then results n else out_results x),
       next_intent := out_next_intent x\<rparr>"

definition runExecution ::
  "Llm \<Rightarrow> Snapshot \<Rightarrow> ContextNode \<Rightarrow> string \<Rightarrow> nat \<Rightarrow> TreeFiles \<Rightarrow> IterateResult effect" where
  "runExecution llm t n now iteration fs =
     (let (first, failures1) = attempt ''first attempt: '' (callExecution llm t n iteration False);
          (outcome, failures) =
            (case first of
               Some x \<Rightarrow> (Some x, failures1)
             | None \<Rightarrow>
                 (let (second, failures2) = attempt ''retry: '' (callExecution llm t n iteration True)
                  in (second, failures1 @ failures2)))
      in case outcome of
           None \<Rightarrow> blockNode n now (''execution output did not parse after 1 retry '' @ em_dash @
                     '' '' @ js_join ''; '' failures) fs
         | Some x \<Rightarrow> write_node (merged_node n now x) fs (Advanced (node_id n) False))"

definition Iterate_once ::
  "Llm \<Rightarrow> ExperimentConfig \<Rightarrow> string \<Rightarrow> nat \<Rightarrow> TreeFiles \<Rightarrow> IterateResult effect" where
  "Iterate_once llm config now iteration fs =
     (case Tree_load fs of
        Inl e \<Rightarrow> Some (Inl e, fs)
      | Inr t \<Rightarrow>
          Option.bind (PickNext_pick t config) (\<lambda>pick.
            case pick of
              None \<Rightarrow> Some (Inr Settled, fs)
            | Some n \<Rightarrow>
                Option.bind (depthOf t (node_id n)) (\<lambda>depth.
                  case depth of
                    Inl e \<Rightarrow> Some (Inl e, fs)
                  | Inr _ \<Rightarrow>
                      if mode n = Pending_plan then runPlanning llm t n now iteration fs
                      else runExecution llm t n now iteration fs)))"

section \<open>Consolidation\<close>

text \<open>\<open>iso.replace(/[:.]/g, "-")\<close>\<close>

definition makeArchiveStamp :: "string \<Rightarrow> string" where
  "makeArchiveStamp time = map (\<lambda>c. if c = CHR '':'' \<or> c = CHR ''.'' then CHR ''-'' else c) time"

definition collectChildrenForSummary :: "Snapshot \<Rightarrow> string \<Rightarrow> ContextNode list option" where
  "collectChildrenForSummary t i =
     Option.bind (walkDFS t [i]) (\<lambda>ns. Some (filter (\<lambda>n. node_id n \<noteq> i) ns))"

definition consolidated_node :: "ContextNode \<Rightarrow> string \<Rightarrow> string \<Rightarrow> ContextNode" where
  "consolidated_node n now summary =
     n\<lparr>children_ids := [], mode := Mode_done, consolidated_summary := Some summary,
       updated_at := Some now\<rparr>"

text \<open>What one round of the loop does with a candidate: go on with another one (and count the
  consolidation when there was one), or stop.\<close>

datatype 'a round = Go_on "string option" nat | Stop 'a

definition consolidate_round ::
  "Llm \<Rightarrow> ExperimentConfig \<Rightarrow> string \<Rightarrow> nat \<Rightarrow> string \<Rightarrow> TreeFiles \<Rightarrow> (unit round) effect" where
  "consolidate_round llm config now iteration i fs =
     (case Tree_load fs of
        Inl e \<Rightarrow> Some (Inl e, fs)
      | Inr t \<Rightarrow>
          (case jget (byId t) i of
             None \<Rightarrow> Some (Inr (Stop ()), fs)
           | Some candidate \<Rightarrow>
               if mode candidate \<noteq> Decomposed then Some (Inr (Go_on (parent_id candidate) 0), fs)
               else Option.bind (isSubtreeComplete t (node_id candidate)) (\<lambda>complete.
                 if \<not> complete then Some (Inr (Stop ()), fs)
                 else Option.bind (collectChildrenForSummary t (node_id candidate)) (\<lambda>descendants.
                   case summarize llm candidate descendants (summary_token_cap_consolidation config) iteration of
                     Inl _ \<Rightarrow> Some (Inr (Stop ()), fs)
                   | Inr summary \<Rightarrow>
                       Option.bind (archiveSubtree t (node_id candidate) (makeArchiveStamp now) fs) (\<lambda>r.
                         case r of
                           (Inl e, fs1) \<Rightarrow> Some (Inl e, fs1)
                         | (Inr archivedIds, fs1) \<Rightarrow>
                             write_node (consolidated_node candidate now summary) fs1
                               (Go_on (parent_id candidate) 1))))))"

partial_function (option) consolidate ::
  "Llm \<Rightarrow> ExperimentConfig \<Rightarrow> string \<Rightarrow> nat \<Rightarrow> string option \<Rightarrow> nat \<Rightarrow> TreeFiles \<Rightarrow> nat effect" where
  "consolidate llm config now iteration candidateId consolidatedCount fs =
     (case candidateId of
        None \<Rightarrow> Some (Inr consolidatedCount, fs)
      | Some i \<Rightarrow>
          Option.bind (consolidate_round llm config now iteration i fs) (\<lambda>r.
            case fst r of
              Inl e \<Rightarrow> Some (Inl e, snd r)
            | Inr st \<Rightarrow>
                (case st of
                   Stop _ \<Rightarrow> Some (Inr consolidatedCount, snd r)
                 | Go_on j k \<Rightarrow>
                     consolidate llm config now iteration j (consolidatedCount + k) (snd r))))"

section \<open>The engine loop\<close>

datatype LoopEnd = Loop_end (end_status: FreerunFinalStatus) (end_iterations: nat) (end_blocked: "string list")

fun touched :: "IterateResult \<Rightarrow> string" where
  "touched (Advanced i p) = i"
| "touched (Blocked i r) = i"
| "touched Settled = []"

fun blocked_ids :: "IterateResult \<Rightarrow> string list" where
  "blocked_ids (Blocked i r) = [i]"
| "blocked_ids _ = []"

text \<open>\<open>engine_loop k\<close> has \<open>k\<close> iterations left of the cap; \<open>clock\<close> gives the time of each one.\<close>

fun engine_loop ::
  "Llm \<Rightarrow> ExperimentConfig \<Rightarrow> (nat \<Rightarrow> string) \<Rightarrow> nat \<Rightarrow> nat \<Rightarrow> string list \<Rightarrow> TreeFiles \<Rightarrow>
   (LoopEnd \<times> TreeFiles) option" where
  "engine_loop llm config clock 0 iterations blk fs = Some (Loop_end Cap_reached iterations blk, fs)"
| "engine_loop llm config clock (Suc k) iterations blk fs =
     Option.bind (Iterate_once llm config (clock iterations) iterations fs) (\<lambda>r.
       case r of
         (Inl e, fs1) \<Rightarrow> Some (Loop_end Status_error iterations blk, fs1)
       | (Inr it, fs1) \<Rightarrow>
           if it = Settled then Some (Loop_end Status_done iterations blk, fs1)
           else Option.bind
             (consolidate llm config (clock iterations) iterations (Some (touched it)) 0 fs1) (\<lambda>c.
               case c of
                 (Inl e, fs2) \<Rightarrow> Some (Loop_end Status_error iterations (blk @ blocked_ids it), fs2)
               | (Inr _, fs2) \<Rightarrow>
                   engine_loop llm config clock k (Suc iterations) (blk @ blocked_ids it) fs2))"

text \<open>A session: its files and its \<open>meta.json\<close>, when that can be read.\<close>

record Session =
  session_tree :: TreeFiles
  session_meta :: "FreerunSessionMeta option"

record RunOptions =
  run_session_id :: string
  run_config :: ExperimentConfig
  run_provider_id :: string
  run_user_id :: string
  run_trigger :: TriggerMode
  run_root :: string
  run_config_id :: string
  iterationCapOverride :: "nat option"

definition run_cap :: "RunOptions \<Rightarrow> nat" where
  "run_cap opts =
     (case iterationCapOverride opts of Some k \<Rightarrow> k | None \<Rightarrow> iteration_cap (run_config opts))"

text \<open>\<open>MetaFS.patch\<close> changes nothing when there is no meta file.\<close>

definition MetaFS_patch ::
  "(FreerunSessionMeta \<Rightarrow> FreerunSessionMeta) \<Rightarrow> FreerunSessionMeta option \<Rightarrow> FreerunSessionMeta option" where
  "MetaFS_patch f m = map_option f m"

definition start_meta :: "RunOptions \<Rightarrow> string \<Rightarrow> FreerunSessionMeta option \<Rightarrow> FreerunSessionMeta option" where
  "start_meta opts now prior =
     (case prior of
        None \<Rightarrow> Some \<lparr>meta_session_id = run_session_id opts, trigger_mode = run_trigger opts,
                       meta_provider_id = run_provider_id opts, meta_user_id = run_user_id opts,
                       root_node_id = run_root opts, started_at = now, ended_at = None,
                       final_status = In_progress, total_iterations = 0,
                       experiment_config = run_config opts, experiment_config_id = run_config_id opts\<rparr>
      | Some m \<Rightarrow>
          if final_status m \<noteq> In_progress then MetaFS_patch (\<lambda>m. m\<lparr>final_status := In_progress\<rparr>) prior
          else prior)"

definition end_meta :: "LoopEnd \<Rightarrow> FreerunSessionMeta option \<Rightarrow> string \<Rightarrow> FreerunSessionMeta option \<Rightarrow>
    FreerunSessionMeta option" where
  "end_meta e prior now m =
     MetaFS_patch (\<lambda>m. m\<lparr>final_status := end_status e,
                         total_iterations := (case prior of None \<Rightarrow> 0 | Some p \<Rightarrow> total_iterations p) +
                                             end_iterations e,
                         ended_at := Some now\<rparr>) m"

text \<open>The command line may write the meta file while the loop runs: \<open>meanwhile\<close> is what it does.\<close>

definition Engine_run ::
  "Llm \<Rightarrow> (nat \<Rightarrow> string) \<Rightarrow> RunOptions \<Rightarrow> (FreerunSessionMeta option \<Rightarrow> FreerunSessionMeta option) \<Rightarrow>
   Session \<Rightarrow> (LoopEnd \<times> Session) option" where
  "Engine_run llm clock opts meanwhile s =
     (let priorMeta = session_meta s in
      case priorMeta of
        Some m \<Rightarrow>
          if final_status m = Paused then Some (Loop_end Paused (total_iterations m) [], s)
          else Option.bind (engine_loop llm (run_config opts) clock (run_cap opts) 0 [] (session_tree s))
            (\<lambda>(e, fs). Some (e, \<lparr>session_tree = fs,
               session_meta = end_meta e priorMeta (clock (end_iterations e))
                 (meanwhile (start_meta opts (clock 0) priorMeta))\<rparr>))
      | None \<Rightarrow>
          Option.bind (engine_loop llm (run_config opts) clock (run_cap opts) 0 [] (session_tree s))
            (\<lambda>(e, fs). Some (e, \<lparr>session_tree = fs,
               session_meta = end_meta e priorMeta (clock (end_iterations e))
                 (meanwhile (start_meta opts (clock 0) priorMeta))\<rparr>)))"

section \<open>Starting from a goal\<close>

record StartOptions =
  goal_session_id :: string
  goal :: string
  goal_title :: "string option"
  goal_provider_id :: string
  goal_user_id :: string
  goal_cap :: "nat option"
  goal_config :: "ExperimentConfig option"
  goal_binding_opt :: "GoalBinding option"

definition seed_root :: "StartOptions \<Rightarrow> string \<Rightarrow> ContextNode" where
  "seed_root opts now =
     \<lparr>node_id = ''root'', parent_id = None, children_ids = [],
      title = (case goal_title opts of Some t \<Rightarrow> t | None \<Rightarrow> take 80 (goal opts)),
      body = goal opts, mode = Pending_plan, created_at = now, iteration_count = 0,
      updated_at = None, observations = [], decisions = [], blockers = [], results = JNull,
      next_intent = [], consolidated_summary = None, relevant_tools = None, relevant_skills = None,
      goal_binding = Some (case goal_binding_opt opts of Some b \<Rightarrow> b | None \<Rightarrow> Conversation_goal (goal opts))\<rparr>"

text \<open>\<open>hash\<close> is the digest of the configuration.\<close>

definition goal_start ::
  "Llm \<Rightarrow> (ExperimentConfig \<Rightarrow> string) \<Rightarrow> (nat \<Rightarrow> string) \<Rightarrow> StartOptions \<Rightarrow>
   (FreerunSessionMeta option \<Rightarrow> FreerunSessionMeta option) \<Rightarrow> Session \<Rightarrow>
   ((fr_error + LoopEnd \<times> string \<times> bool) \<times> Session) option" where
  "goal_start llm hash clock opts meanwhile s =
     (let config = (case goal_config opts of Some c \<Rightarrow> c | None \<Rightarrow> default_config);
          wasResumed = (NodeFS_list (session_tree s) \<noteq> []);
          seeded = (if wasResumed then Some (session_tree s)
                    else NodeFS_write (seed_root opts (clock 0)) (session_tree s))
      in case seeded of
           None \<Rightarrow> Some (Inl Bad_node, s)
         | Some fs \<Rightarrow>
             (case Tree_load fs of
                Inl e \<Rightarrow> Some (Inl e, s\<lparr>session_tree := fs\<rparr>)
              | Inr t \<Rightarrow>
                  Option.bind
                    (Engine_run llm clock
                       \<lparr>run_session_id = goal_session_id opts, run_config = config,
                        run_provider_id = goal_provider_id opts, run_user_id = goal_user_id opts,
                        run_trigger = Trigger_goal, run_root = rootId t, run_config_id = hash config,
                        iterationCapOverride = goal_cap opts\<rparr> meanwhile (s\<lparr>session_tree := fs\<rparr>))
                    (\<lambda>(e, s'). Some (Inr (e, rootId t, wasResumed), s'))))"

end
