(* ===== verification/Freerun_Invariant.thy ===== *)
theory Freerun_Invariant
  imports Freerun_Engine
begin

text \<open>
  What every step of the freerun engine keeps: the files stay in order whatever the model answers,
  an iteration and a consolidation always end, and a consolidation loses no node.
\<close>

section \<open>The files stay in order\<close>

text \<open>The model never plans a child whose body holds the line that opens a state block.\<close>

definition clean_llm :: "Llm \<Rightarrow> bool" where
  "clean_llm llm \<longleftrightarrow>
     (\<forall>t n k cs. planning_outcome llm (callPlanning llm t n k) = Inr cs \<longrightarrow>
        (\<forall>c \<in> set cs. \<not> js_includes (child_body c) STATE_FENCE_OPEN))"

lemma js_starts_with_trans: "js_starts_with c b \<Longrightarrow> js_starts_with b a \<Longrightarrow> js_starts_with c a"
  by (auto simp: js_starts_with_iff)

lemma extends_trans: "extends a b \<Longrightarrow> extends b c \<Longrightarrow> extends a c"
proof -
  assume "extends a b" "extends b c"
  then obtain u v where "b = (a @ ''.'') @ u" "c = (b @ ''.'') @ v"
    by (auto simp: extends_def js_starts_with_iff)
  then have "c = (a @ ''.'') @ (u @ ''.'' @ v)" by simp
  then show ?thesis unfolding extends_def js_starts_with_iff by blast
qed

lemma namespaced_child: "extends p (ensureNamespacedChildId p c)"
  by (auto simp: ensureNamespacedChildId_def extends_def js_starts_with_iff)

lemma valid_child_id:
  assumes "valid_id p" and "valid_id c"
  shows "valid_id (ensureNamespacedChildId p c)"
  using assms valid_id_dot [OF assms] valid_id_dot [of p "''child''"]
  by (auto simp: ensureNamespacedChildId_def valid_id_def id_head_def id_char_def js_digit_def)

lemma file_ok_valid: "file_ok r i n \<Longrightarrow> valid_node n"
  by (simp add: file_ok_def storable_def)

lemma file_ok_id: "file_ok r i n \<Longrightarrow> node_id n = i"
  by (simp add: file_ok_def node_named_def)

text \<open>A change that keeps the name, the parent and the body, and leaves children that extend the
  name, keeps the file in order.\<close>

lemma file_ok_change:
  assumes "file_ok r i n" and "node_id m = node_id n" and "parent_id m = parent_id n"
    and "body m = body n" and "list_all (extends i) (children_ids m)" and "valid_node m"
    and "wf_json (results m)"
  shows "file_ok r i m"
  using assms by (simp add: file_ok_def node_named_def storable_def)

lemma blocked_ok:
  assumes "file_ok r i n" and "reason \<noteq> []"
  shows "file_ok r i (blocked_node n now reason)"
  using assms file_ok_valid [OF assms(1)]
  by (intro file_ok_change [OF assms(1)])
     (auto simp: blocked_node_def file_ok_def node_named_def storable_def valid_node_def nonempty_def)

lemma child_ok:
  assumes "file_ok r i n" and "valid_id (child_id c)" and "child_title c \<noteq> []"
    and "\<not> js_includes (child_body c) STATE_FENCE_OPEN"
  shows "file_ok r (node_id (child_node n now c)) (child_node n now c)"
proof -
  have e: "extends i (ensureNamespacedChildId i (child_id c))" by (rule namespaced_child)
  have i: "i = r \<or> extends r i" "valid_id i" "node_id n = i"
    using assms(1) by (auto simp: file_ok_def node_named_def storable_def valid_node_def)
  then have r: "extends r (ensureNamespacedChildId i (child_id c))" using e extends_trans by blast
  then have "ensureNamespacedChildId i (child_id c) \<noteq> r" using extends_longer by blast
  then show ?thesis
    using e r i assms valid_child_id [OF i(2) assms(2)]
    by (simp add: file_ok_def node_named_def storable_def valid_node_def child_node_def)
qed

lemma planned_ok:
  assumes "file_ok r i n"
  shows "file_ok r i (planned_node n now cs)"
proof -
  have "node_id n = i" by (rule file_ok_id [OF assms])
  then have "list_all (extends i) (map (node_id \<circ> child_node n now) cs)"
    using namespaced_child [of i] by (auto simp: list_all_iff child_node_def)
  then show ?thesis
    using assms by (intro file_ok_change [OF assms])
      (auto simp: planned_node_def file_ok_def node_named_def storable_def valid_node_def)
qed

lemma merged_ok:
  assumes "file_ok r i n" and "valid_execution x" and "wf_json (out_results x)"
  shows "file_ok r i (merged_node n now x)"
  using assms by (intro file_ok_change [OF assms(1)])
    (auto simp: merged_node_def file_ok_def node_named_def storable_def valid_node_def valid_execution_def)

lemma consolidated_ok:
  assumes "file_ok r i n"
  shows "file_ok r i (consolidated_node n now s)"
  using assms by (intro file_ok_change [OF assms])
    (auto simp: consolidated_node_def file_ok_def node_named_def storable_def valid_node_def)

lemma fld_cases: "fld m k z d = Some x \<Longrightarrow> (jget m k = None \<and> z = Some x) \<or> (\<exists>v. jget m k = Some v \<and> d v = Some x)"
  by (auto simp: fld_def split: option.splits)

lemma ExecutionOutcome_wf:
  assumes "wf_json v" and "ExecutionOutcome_parse v = Some x"
  shows "wf_json (out_results x)"
proof -
  obtain m where m: "v = JObj m" using assms(2) by (cases v) auto
  obtain rs where "fld m ''results'' (Some JNull) Some = Some rs" "out_results x = rs"
    using assms(2) m by (auto simp: Let_def split: bind_splits if_splits)
  moreover have "jget m ''results'' = Some w \<Longrightarrow> wf_json w" for w
    using assms(1) m by (auto simp: list_all_iff dest!: map_of_SomeD)
  ultimately show ?thesis by (auto dest!: fld_cases)
qed

lemma parseExecutionOutcome_ok:
  assumes "parseExecutionOutcome s = Some x"
  shows "valid_execution x \<and> wf_json (out_results x)"
proof -
  obtain w v where "JSON_parse w = Some v" "ExecutionOutcome_parse v = Some x"
    using assms by (auto simp: parseExecutionOutcome_def split: option.splits bind_splits)
  then show ?thesis using ExecutionOutcome_parse_valid ExecutionOutcome_wf JSON_parse_wf by blast
qed

section \<open>Iterations end and keep the files in order\<close>

definition good_effect :: "string \<Rightarrow> 'a effect \<Rightarrow> bool" where
  "good_effect r e \<longleftrightarrow> (\<exists>x fs'. e = Some (x, fs') \<and> files_ok r fs')"

lemma good_effectI: "e = Some (x, fs') \<Longrightarrow> files_ok r fs' \<Longrightarrow> good_effect r e"
  by (auto simp: good_effect_def)

lemma write_node_ok:
  assumes "files_ok r fs" and "file_ok r (node_id n) n"
  obtains fs' where "write_node n fs x = Some (Inr x, fs')" and "files_ok r fs'"
    and "\<And>i. NodeFS_read i fs' = (if i = node_id n then Some (as_read n) else NodeFS_read i fs)"
    and "\<And>t i. NodeFS_archived t i fs' = NodeFS_archived t i fs"
proof -
  obtain fs' where "NodeFS_write n fs = Some fs'" "files_ok r fs'"
    "\<And>i. NodeFS_read i fs' = (if i = node_id n then Some (as_read n) else NodeFS_read i fs)"
    "\<And>t i. NodeFS_archived t i fs' = NodeFS_archived t i fs"
    using write_ok [OF assms] by metis
  then show thesis using that by (simp add: write_node_def)
qed

lemma planning_outcome_valid:
  "planning_outcome llm raw = Inr cs \<Longrightarrow> valid_planning cs"
  by (auto simp: planning_outcome_def dest: PlanningOutcome_parse_valid split: sum.splits option.splits)

lemma blockNode_ok:
  assumes "files_ok r fs" and "file_ok r (node_id n) n" and "reason \<noteq> []"
  obtains fs' where "blockNode n now reason fs = Some (Inr (Blocked (node_id n) reason), fs')"
    and "files_ok r fs'"
    and "\<And>i. NodeFS_read i fs' =
          (if i = node_id n then Some (as_read (blocked_node n now reason)) else NodeFS_read i fs)"
    and "\<And>t i. NodeFS_archived t i fs' = NodeFS_archived t i fs"
proof -
  let ?m = "blocked_node n now reason"
  have id: "node_id ?m = node_id n" by (simp add: blocked_node_def)
  have "file_ok r (node_id ?m) ?m" using blocked_ok [OF assms(2,3)] id by simp
  then show thesis
  proof (rule write_node_ok [OF assms(1), where x = "Blocked (node_id n) reason"])
    fix fs'
    assume "write_node ?m fs (Blocked (node_id n) reason) = Some (Inr (Blocked (node_id n) reason), fs')"
      and "files_ok r fs'"
      and "\<And>i. NodeFS_read i fs' = (if i = node_id ?m then Some (as_read ?m) else NodeFS_read i fs)"
      and "\<And>t i. NodeFS_archived t i fs' = NodeFS_archived t i fs"
    then show thesis using that by (simp add: blockNode_def id)
  qed
qed

text \<open>What an iteration leaves on the disk: the touched node counts one more iteration and has
  the mode of the result; only it and files below its name changed.\<close>

definition iterated :: "ContextNode \<Rightarrow> IterateResult \<Rightarrow> TreeFiles \<Rightarrow> TreeFiles \<Rightarrow> bool" where
  "iterated n it fs fs' \<longleftrightarrow>
     (\<forall>i. i \<noteq> node_id n \<and> \<not> extends (node_id n) i \<longrightarrow> NodeFS_read i fs' = NodeFS_read i fs) \<and>
     (\<exists>m. NodeFS_read (node_id n) fs' = Some m \<and> iteration_count m = iteration_count n + 1 \<and>
        (case it of
           Settled \<Rightarrow> False
         | Blocked i reason \<Rightarrow> i = node_id n \<and> mode m = Mode_blocked \<and> blockers m = blockers n @ [reason]
         | Advanced i True \<Rightarrow> i = node_id n \<and> mode m = Decomposed \<and> mode n = Pending_plan \<and>
             (\<exists>cs. cs \<noteq> [] \<and> children_ids m = children_ids n @ cs \<and>
                (\<forall>c \<in> set cs. \<exists>k. NodeFS_read c fs' = Some k \<and> parent_id k = Some i))
         | Advanced i False \<Rightarrow> i = node_id n \<and> mode n \<noteq> Pending_plan \<and>
             mode m \<in> {Mode_done, Mode_blocked, Pending_plan} \<and> children_ids m = children_ids n \<and>
             (\<exists>os ds. observations m = observations n @ os \<and> decisions m = decisions n @ ds)))"

lemma blockNode_iterated:
  assumes "files_ok r fs" and "file_ok r (node_id n) n" and "reason \<noteq> []"
  shows "\<exists>it fs'. blockNode n now reason fs = Some (Inr it, fs') \<and> files_ok r fs' \<and> iterated n it fs fs'"
proof (rule blockNode_ok [OF assms, where now = now])
  fix fs'
  assume b: "blockNode n now reason fs = Some (Inr (Blocked (node_id n) reason), fs')" "files_ok r fs'"
    and rd: "\<And>i. NodeFS_read i fs' =
      (if i = node_id n then Some (as_read (blocked_node n now reason)) else NodeFS_read i fs)"
  have "iterated n (Blocked (node_id n) reason) fs fs'"
    unfolding iterated_def using rd by (simp add: blocked_node_def)
  with b show ?thesis by blast
qed

lemma runPlanning_ok:
  assumes fs: "files_ok r fs" and n: "file_ok r (node_id n) n" and md: "mode n = Pending_plan"
    and clean: "clean_llm llm"
  shows "\<exists>it fs'. runPlanning llm t n now k fs = Some (Inr it, fs') \<and> files_ok r fs' \<and> iterated n it fs fs'"
proof (cases "planning_outcome llm (callPlanning llm t n k)")
  case (Inl msg)
  then show ?thesis using blockNode_iterated [OF fs n, of "''planning LLM call failed: '' @ msg"]
    by (simp add: runPlanning_def)
next
  case (Inr cs)
  let ?ns = "map (child_node n now) cs"
  have v: "valid_planning cs" by (rule planning_outcome_valid [OF Inr])
  have cl: "\<forall>c \<in> set cs. \<not> js_includes (child_body c) STATE_FENCE_OPEN"
    using clean Inr by (auto simp: clean_llm_def)
  have ok: "\<forall>m \<in> set ?ns. file_ok r (node_id m) m"
  proof
    fix m assume "m \<in> set ?ns"
    then obtain c where c: "c \<in> set cs" "m = child_node n now c" by auto
    show "file_ok r (node_id m) m"
      unfolding c(2) by (rule child_ok [OF n]) (use c v cl in \<open>auto simp: valid_planning_def list_all_iff\<close>)
  qed
  have ext: "extends (node_id n) (node_id (child_node n now c))" for c
    by (simp add: child_node_def namespaced_child)
  show ?thesis
  proof (rule each_write_ok [OF fs ok])
    fix f1
    assume f1: "js_each NodeFS_write ?ns fs = (True, f1)" "files_ok r f1"
      and same: "\<And>i. i \<notin> node_id ` set ?ns \<Longrightarrow> NodeFS_read i f1 = NodeFS_read i fs"
      and kids: "\<And>i. i \<in> node_id ` set ?ns \<Longrightarrow> \<exists>m \<in> set ?ns. node_id m = i \<and> NodeFS_read i f1 = Some (as_read m)"
    let ?p = "planned_node n now cs"
    have id: "node_id ?p = node_id n" by (simp add: planned_node_def)
    have p: "file_ok r (node_id ?p) ?p" using planned_ok [OF n] id by simp
    show ?thesis
    proof (rule write_node_ok [OF f1(2) p, where x = "Advanced (node_id n) True"])
      fix f2
      assume f2: "write_node ?p f1 (Advanced (node_id n) True) = Some (Inr (Advanced (node_id n) True), f2)"
          "files_ok r f2"
        and rd: "\<And>i. NodeFS_read i f2 = (if i = node_id ?p then Some (as_read ?p) else NodeFS_read i f1)"
      have run: "runPlanning llm t n now k fs = Some (Inr (Advanced (node_id n) True), f2)"
        using Inr f1(1) f2(1) by (simp add: runPlanning_def)
      have frame: "NodeFS_read i f2 = NodeFS_read i fs" if "i \<noteq> node_id n" "\<not> extends (node_id n) i" for i
        using rd same [of i] that ext id by auto
      let ?cs = "map (node_id \<circ> child_node n now) cs"
      have "\<exists>q. NodeFS_read c f2 = Some q \<and> parent_id q = Some (node_id n)" if c: "c \<in> set ?cs" for c
      proof -
        have "c \<noteq> node_id n" using c ext extends_longer by fastforce
        moreover obtain m where "m \<in> set ?ns" "NodeFS_read c f1 = Some (as_read m)" using kids [of c] c by auto
        moreover have "parent_id m = Some (node_id n)" using calculation(2) by (auto simp: child_node_def)
        ultimately show ?thesis using rd id by simp
      qed
      moreover have "?cs \<noteq> []" using v by (simp add: valid_planning_def)
      moreover have "NodeFS_read (node_id n) f2 = Some (as_read ?p)" using rd id by simp
      moreover have "children_ids ?p = children_ids n @ ?cs" "mode ?p = Decomposed"
          "iteration_count ?p = iteration_count n + 1"
        by (simp_all add: planned_node_def)
      ultimately have "iterated n (Advanced (node_id n) True) fs f2"
        unfolding iterated_def using frame md by fastforce
      then show ?thesis using run f2(2) by blast
    qed
  qed
qed

lemma runExecution_ok:
  assumes fs: "files_ok r fs" and n: "file_ok r (node_id n) n" and md: "mode n \<noteq> Pending_plan"
  shows "\<exists>it fs'. runExecution llm t n now k fs = Some (Inr it, fs') \<and> files_ok r fs' \<and> iterated n it fs fs'"
proof -
  let ?block = "\<lambda>fl. blockNode n now (''execution output did not parse after 1 retry '' @ em_dash @
                     '' '' @ js_join ''; '' fl) fs"
  let ?merge = "\<lambda>x. write_node (merged_node n now x) fs (Advanced (node_id n) False)"
  have parsed: "valid_execution x \<and> wf_json (out_results x)" if "attempt l a = (Some x, fl)" for l a x fl
    using that parseExecutionOutcome_ok by (auto simp: attempt_def split: sum.splits)
  obtain o1 l1 where a1: "attempt ''first attempt: '' (callExecution llm t n k False) = (o1, l1)" by force
  obtain o2 l2 where a2: "attempt ''retry: '' (callExecution llm t n k True) = (o2, l2)" by force
  have "runExecution llm t n now k fs =
      (case o1 of Some x \<Rightarrow> ?merge x | None \<Rightarrow> (case o2 of Some x \<Rightarrow> ?merge x | None \<Rightarrow> ?block (l1 @ l2)))"
    by (simp add: runExecution_def a1 a2 Let_def split: option.split)
  then consider fl where "runExecution llm t n now k fs = ?block fl"
    | x where "runExecution llm t n now k fs = ?merge x" "valid_execution x" "wf_json (out_results x)"
    using parsed a1 a2 by (cases o1; cases o2) auto
  then show ?thesis
  proof cases
    case 1
    then show ?thesis using blockNode_iterated [OF fs n] by simp
  next
    case 2
    let ?m = "merged_node n now x"
    have id: "node_id ?m = node_id n" by (simp add: merged_node_def)
    have m: "file_ok r (node_id ?m) ?m" using merged_ok [OF n 2(2,3)] id by simp
    show ?thesis
    proof (rule write_node_ok [OF fs m, where x = "Advanced (node_id n) False"])
      fix f2
      assume f2: "?merge x = Some (Inr (Advanced (node_id n) False), f2)" "files_ok r f2"
        and rd: "\<And>i. NodeFS_read i f2 = (if i = node_id ?m then Some (as_read ?m) else NodeFS_read i fs)"
      have "iterated n (Advanced (node_id n) False) fs f2"
        unfolding iterated_def using rd id md 2(2) by (simp add: merged_node_def valid_execution_def)
      then show ?thesis using 2(1) f2 by simp
    qed
  qed
qed

lemma Iterate_once_ok:
  assumes fs: "files_ok r fs" and clean: "clean_llm llm"
  shows "\<exists>x fs'. Iterate_once llm config now k fs = Some (x, fs') \<and> files_ok r fs' \<and>
     (case x of
        Inl e \<Rightarrow> fs' = fs
      | Inr Settled \<Rightarrow> fs' = fs \<and> (\<exists>t. Tree_load fs = Inr t \<and>
            (\<forall>n d. reaches t (rootId t) d n \<longrightarrow> \<not> isActionable n))
      | Inr it \<Rightarrow> \<exists>n. NodeFS_read (touched it) fs = Some n \<and> node_id n = touched it \<and> isActionable n \<and>
                 iterated n it fs fs')"
proof -
  obtain t where t: "Tree_load fs = Inr t" "rootId t = r" "namespaced t"
    "\<And>i. jget (byId t) i = NodeFS_read i fs" using files_ok_load [OF fs] by blast
  obtain p where p: "PickNext_pick t config = Some p"
    using pickNext_ends [OF t(3)] by (auto simp: PickNext_pick_def)
  show ?thesis
  proof (cases p)
    case None
    have "\<not> isActionable n" if "reaches t (rootId t) d n" for n d
      using pickNext_none [OF t(3) _ that] p None by (auto simp: PickNext_pick_def)
    then show ?thesis using t(1) p None fs by (auto simp: Iterate_once_def)
  next
    case (Some n)
    obtain d where d: "reaches t (rootId t) d n" "isActionable n"
      using pickNext_some [OF t(3)] p Some by (auto simp: PickNext_pick_def)
    have "\<exists>i. jget (byId t) i = Some n" using d(1) by (induction) auto
    then obtain i where i: "NodeFS_read i fs = Some n" using t(4) by auto
    have n: "file_ok r i n" by (rule files_ok_read [OF fs i])
    then have id: "node_id n = i" by (rule file_ok_id)
    obtain q where q: "depthOf t (node_id n) = Some q" using depthOf_ends [OF t(3)] by blast
    have "\<exists>it fs'. (if mode n = Pending_plan then runPlanning llm t n now k fs
                     else runExecution llm t n now k fs) = Some (Inr it, fs') \<and>
        files_ok r fs' \<and> iterated n it fs fs'"
      using runPlanning_ok [OF fs _ _ clean] runExecution_ok [OF fs] n id by auto
    then obtain it fs' where it: "(if mode n = Pending_plan then runPlanning llm t n now k fs
                     else runExecution llm t n now k fs) = Some (Inr it, fs')"
        "files_ok r fs'" "iterated n it fs fs'" by blast
    have tch: "it \<noteq> Settled \<and> touched it = node_id n"
      using it(3) by (cases it) (auto simp: iterated_def split: bool.splits)
    show ?thesis
    proof (cases q)
      case (Inl e)
      then show ?thesis using t(1) p Some q fs by (simp add: Iterate_once_def)
    next
      case (Inr x)
      then have "Iterate_once llm config now k fs = Some (Inr it, fs')"
        using t(1) p Some q it(1) by (simp add: Iterate_once_def)
      then show ?thesis using it tch i id d(2) by (cases it) auto
    qed
  qed
qed

section \<open>Consolidation ends and loses nothing\<close>

lemma reaches_present: "reaches t i d n \<Longrightarrow> \<exists>j. jget (byId t) j = Some n \<and> (j = i \<or> d > 0)"
  by (induction rule: reaches.induct) auto

lemma reaches_below:
  assumes t: "namespaced t"
  shows "reaches t i d n \<Longrightarrow>
         jget (byId t) (node_id n) = Some n \<and> (node_id n = i \<or> extends i (node_id n))"
proof (induction rule: reaches.induct)
  case (here i n)
  then show ?case using named_id [OF namespacedD [OF t]] by simp
next
  case (down i m c d n)
  have "extends i c" using named_child [OF namespacedD [OF t down(1)]] down(2) by blast
  then show ?case using down.IH extends_trans by blast
qed

definition kept :: "ContextNode \<Rightarrow> ContextNode \<Rightarrow> bool" where
  "kept n m \<longleftrightarrow> m = n \<or> mode n = Decomposed \<and> mode m = Mode_done \<and> consolidated_summary m \<noteq> None"

text \<open>\<open>keeps st fs fs'\<close>: nodes that need work stay as they are, every other node is still in the tree
  or under the stamp \<open>st\<close> of the archive, and no file appears.\<close>

definition keeps :: "string \<Rightarrow> TreeFiles \<Rightarrow> TreeFiles \<Rightarrow> bool" where
  "keeps st fs fs' \<longleftrightarrow>
     (\<forall>i n. NodeFS_read i fs = Some n \<longrightarrow>
        (isActionable n \<longrightarrow> NodeFS_read i fs' = Some n) \<and>
        (\<exists>m. kept n m \<and> (NodeFS_read i fs' = Some m \<or>
                           i \<notin> set (NodeFS_list fs') \<and> NodeFS_archived st i fs' = Some m))) \<and>
     (\<forall>i. i \<notin> set (NodeFS_list fs) \<longrightarrow>
        i \<notin> set (NodeFS_list fs') \<and> NodeFS_archived st i fs' = NodeFS_archived st i fs)"

lemma keeps_refl: "keeps st fs fs"
  by (auto simp: keeps_def kept_def)

lemma kept_trans: "kept a b \<Longrightarrow> kept b c \<Longrightarrow> kept a c"
  by (auto simp: kept_def)

lemma keeps_trans:
  assumes "keeps st a b" and "keeps st b c"
  shows "keeps st a c"
proof -
  have "\<exists>m. kept n m \<and> (NodeFS_read i c = Some m \<or>
            i \<notin> set (NodeFS_list c) \<and> NodeFS_archived st i c = Some m)"
    if rd: "NodeFS_read i a = Some n" for i n
  proof -
    obtain m where m: "kept n m" "NodeFS_read i b = Some m \<or>
        i \<notin> set (NodeFS_list b) \<and> NodeFS_archived st i b = Some m"
      using assms(1) rd unfolding keeps_def by blast
    from m(2) show ?thesis
    proof
      assume "NodeFS_read i b = Some m"
      then obtain q where "kept m q" "NodeFS_read i c = Some q \<or>
          i \<notin> set (NodeFS_list c) \<and> NodeFS_archived st i c = Some q"
        using assms(2) unfolding keeps_def by blast
      then show ?thesis using kept_trans [OF m(1)] by blast
    next
      assume "i \<notin> set (NodeFS_list b) \<and> NodeFS_archived st i b = Some m"
      then have "i \<notin> set (NodeFS_list c) \<and> NodeFS_archived st i c = Some m"
        using assms(2) unfolding keeps_def by simp
      then show ?thesis using m(1) by blast
    qed
  qed
  then show ?thesis using assms unfolding keeps_def by auto
qed

lemma keeps_move:
  assumes "NodeFS_archive d st fs = Some fs'" and "\<And>n. NodeFS_read d fs = Some n \<Longrightarrow> \<not> isActionable n"
  shows "keeps st fs fs'"
proof -
  have there: "d \<in> set (NodeFS_list fs)" using nf.move_there [of d fs st] assms(1) by simp
  show ?thesis
    unfolding keeps_def nf.get_move [OF assms(1)] nf.ids_move [OF assms(1)] nf.moved_move [OF assms(1)]
    using assms(2) there by (auto simp: kept_def)
qed

lemma keeps_moves:
  assumes "\<And>d n. d \<in> set ds \<Longrightarrow> NodeFS_read d fs = Some n \<Longrightarrow> \<not> isActionable n"
    and "js_each (\<lambda>d. NodeFS_archive d st) ds fs = (b, fs')"
  shows "keeps st fs fs'"
  using assms
proof (induction ds arbitrary: fs)
  case Nil
  then show ?case by (simp add: keeps_refl)
next
  case (Cons d ds)
  show ?case
  proof (cases "NodeFS_archive d st fs")
    case None
    then show ?thesis using Cons.prems(2) by (simp add: keeps_refl)
  next
    case (Some f1)
    have 1: "keeps st fs f1" by (rule keeps_move [OF Some]) (rule Cons.prems(1) [of d], simp_all)
    have "keeps st f1 fs'"
    proof (rule Cons.IH)
      fix e n assume "e \<in> set ds" "NodeFS_read e f1 = Some n"
      then show "\<not> isActionable n"
        using Cons.prems(1) nf.get_move [OF Some, of e] by (auto split: if_splits)
    qed (use Cons.prems(2) Some in simp)
    with 1 show ?thesis by (rule keeps_trans)
  qed
qed

lemma keeps_write:
  assumes "files_ok r fs" and "file_ok r (node_id m) m" and "NodeFS_read (node_id m) fs = Some n"
    and "kept n (as_read m)" and "\<not> isActionable n" and "NodeFS_write m fs = Some fs'"
  shows "keeps st fs fs'"
proof -
  have st: "storable m" using assms(2) by (simp add: file_ok_def)
  have "node_id m \<in> set (NodeFS_list fs)" by (rule read_listed [OF assms(3)])
  then show ?thesis
    unfolding keeps_def nf.get_put [OF st assms(6)] nf.ids_put [OF assms(6)] nf.moved_put [OF assms(6)]
    using assms(3-5) by (auto simp: kept_def)
qed

text \<open>What the names of the archived files are.\<close>

definition descendant_ids :: "Snapshot \<Rightarrow> string \<Rightarrow> string list" where
  "descendant_ids t i = rev (filter (\<lambda>d. d \<noteq> i) (map node_id (the (walkDFS t [i]))))"

lemma archiveSubtree_eq:
  assumes "namespaced t" and "jget (byId t) i = Some n"
  shows "archiveSubtree t i st fs =
     Some (case js_each (\<lambda>d. NodeFS_archive d st) (descendant_ids t i) fs of
             (ok, fs') \<Rightarrow> (if ok then Inr (descendant_ids t i) else Inl Archive_missing, fs'))"
proof -
  obtain ns where "walkDFS t [i] = Some ns" using walkDFS_ends [OF assms(1)] by blast
  then show ?thesis using assms(2)
    by (simp add: archiveSubtree_def Tree_get_def descendant_ids_def Let_def split: prod.split)
qed

lemma descendant_facts:
  assumes t: "namespaced t" and d: "d \<in> set (descendant_ids t i)"
  shows "extends i d" and "\<exists>n e. jget (byId t) d = Some n \<and> reaches t i e n"
proof -
  obtain ns where ns: "walkDFS t [i] = Some ns" using walkDFS_ends [OF t] by blast
  obtain n where n: "n \<in> set ns" "d = node_id n" "d \<noteq> i" using d ns by (auto simp: descendant_ids_def)
  then obtain e where e: "reaches t i e n" using walkDFS_visits [OF t ns] by auto
  show "extends i d" using reaches_below [OF t e] n by auto
  show "\<exists>n e. jget (byId t) d = Some n \<and> reaches t i e n"
    using reaches_below [OF t e] n e by auto
qed

lemma consolidate_round_ok:
  assumes fs: "files_ok r fs"
  shows "\<exists>x fs'. consolidate_round llm config now k i fs = Some (x, fs') \<and> files_ok r fs' \<and>
     keeps (makeArchiveStamp now) fs fs' \<and>
     (\<forall>p c. x = Inr (Go_on (Some p) c) \<longrightarrow> extends p i)"
proof -
  let ?st = "makeArchiveStamp now"
  obtain t where t: "Tree_load fs = Inr t" "rootId t = r" "namespaced t"
    and rd: "\<And>i. jget (byId t) i = NodeFS_read i fs" using files_ok_load [OF fs] by blast
  have stay: ?thesis if "consolidate_round llm config now k i fs = Some (x, fs)"
      "\<forall>p c. x = Inr (Go_on (Some p) c) \<longrightarrow> extends p i" for x
    using that fs keeps_refl by blast
  show ?thesis
  proof (cases "jget (byId t) i")
    case None
    show ?thesis by (rule stay [of "Inr (Stop ())"]) (simp_all add: consolidate_round_def t(1) None)
  next
    case (Some n)
    have n: "file_ok r i n" using files_ok_read [OF fs] Some rd by simp
    have id: "node_id n = i" by (rule file_ok_id [OF n])
    have par: "extends p i" if "parent_id n = Some p" for p
      using named_parent [OF namespacedD [OF t(3) Some] that] .
    note R = consolidate_round_def t(1) sum.case Some option.case id
    show ?thesis
    proof (cases "mode n = Decomposed")
      case False
      show ?thesis by (rule stay [of "Inr (Go_on (parent_id n) 0)"]) (use False par in \<open>simp_all add: R\<close>)
    next
      case md: True
      note C = isSubtreeComplete_reach [OF t(3), of i]
      show ?thesis
      proof (cases "\<forall>n d. reaches t i d n \<longrightarrow> \<not> isActionable n")
        case False
        then show ?thesis by (intro stay [of "Inr (Stop ())"]) (simp_all add: R md C)
      next
        case complete: True
        obtain ns where ns: "collectChildrenForSummary t i = Some ns"
          using walkDFS_ends [OF t(3), of "[i]"] by (auto simp: collectChildrenForSummary_def)
        show ?thesis
        proof (cases "summarize llm n ns (summary_token_cap_consolidation config) k")
          case (Inl e)
          then show ?thesis using complete by (intro stay [of "Inr (Stop ())"]) (simp_all add: R md C ns)
        next
          case (Inr s)
          obtain ok f1 where f1: "js_each (\<lambda>d. NodeFS_archive d ?st) (descendant_ids t i) fs = (ok, f1)"
            by force
          have root: "r \<notin> set (descendant_ids t i)"
          proof
            assume "r \<in> set (descendant_ids t i)"
            then have "length i < length r" using descendant_facts(1) [OF t(3)] extends_longer by blast
            moreover have "i = r \<or> length r < length i"
              using n extends_longer by (auto simp: file_ok_def)
            ultimately show False by auto
          qed
          have ok1: "files_ok r f1" by (rule archive_ok [OF fs f1 root])
          have k1: "keeps ?st fs f1"
          proof (rule keeps_moves [OF _ f1])
            fix d m assume "d \<in> set (descendant_ids t i)" "NodeFS_read d fs = Some m"
            then show "\<not> isActionable m" using descendant_facts(2) [OF t(3)] complete rd by fastforce
          qed
          have run: "consolidate_round llm config now k i fs =
              (if ok then write_node (consolidated_node n now s) f1 (Go_on (parent_id n) 1)
               else Some (Inl Archive_missing, f1))"
            using complete by (simp add: R md C ns Inr archiveSubtree_eq [OF t(3) Some] f1)
          show ?thesis
          proof (cases ok)
            case False
            then show ?thesis using run ok1 k1 by auto
          next
            case True
            let ?m = "consolidated_node n now s"
            have mid: "node_id ?m = i" using id by (simp add: consolidated_node_def)
            have m: "file_ok r (node_id ?m) ?m" using consolidated_ok [OF n] mid by simp
            have "i \<notin> set (descendant_ids t i)" by (simp add: descendant_ids_def)
            then have rd1: "NodeFS_read (node_id ?m) f1 = Some n"
              using nf.moves_spec [of ?st "descendant_ids t i" fs f1] f1 True Some rd mid by simp
            obtain f2 where f2: "NodeFS_write ?m f1 = Some f2" "files_ok r f2"
              by (rule write_ok [OF ok1 m]) (rule that)
            have "keeps ?st f1 f2"
              by (rule keeps_write [OF ok1 m rd1 _ _ f2(1)])
                 (use md in \<open>simp_all add: kept_def isActionable_def consolidated_node_def\<close>)
            then have "keeps ?st fs f2" by (rule keeps_trans [OF k1])
            moreover have "consolidate_round llm config now k i fs = Some (Inr (Go_on (parent_id n) 1), f2)"
              using run True f2(1) by (simp add: write_node_def)
            ultimately show ?thesis using f2(2) par by auto
          qed
        qed
      qed
    qed
  qed
qed

lemma consolidate_ok:
  "files_ok r fs \<Longrightarrow>
   \<exists>x fs'. consolidate llm config now k (Some i) c fs = Some (x, fs') \<and> files_ok r fs' \<and>
     keeps (makeArchiveStamp now) fs fs'"
proof (induction "length i" arbitrary: i c fs rule: less_induct)
  case less
  obtain x f1 where x: "consolidate_round llm config now k i fs = Some (x, f1)" "files_ok r f1"
    "keeps (makeArchiveStamp now) fs f1" "\<forall>p c. x = Inr (Go_on (Some p) c) \<longrightarrow> extends p i"
    using consolidate_round_ok [OF less.prems] by blast
  note step = consolidate.simps [of llm config now k "Some i" c fs]
  show ?case
  proof (cases x)
    case (Inl e)
    then show ?thesis using x by (simp add: step)
  next
    case (Inr st)
    show ?thesis
    proof (cases st)
      case (Stop u)
      then show ?thesis using x Inr by (simp add: step)
    next
      case (Go_on j m)
      show ?thesis
      proof (cases j)
        case None
        then show ?thesis using x Inr Go_on by (simp add: step consolidate.simps [of _ _ _ _ None])
      next
        case (Some p)
        have "length p < length i" using x(4) Inr Go_on Some extends_longer by blast
        from less.hyps [OF this x(2), of "c + m"] obtain y f2 where
          "consolidate llm config now k (Some p) (c + m) f1 = Some (y, f2)" "files_ok r f2"
          "keeps (makeArchiveStamp now) f1 f2" by blast
        then show ?thesis using x Inr Go_on Some keeps_trans by (auto simp: step)
      qed
    qed
  qed
qed

end
