(* ===== verification/Freerun_Runs.thy ===== *)
theory Freerun_Runs
  imports Freerun_Invariant
begin

text \<open>
  The properties of freerun runs: they end, what their final status says about the tree, what an
  iteration and a consolidation change, and how pausing and starting work.
\<close>

section \<open>Runs\<close>

definition tree_settled :: "TreeFiles \<Rightarrow> bool" where
  "tree_settled fs \<longleftrightarrow>
     (\<exists>t. Tree_load fs = Inr t \<and> (\<forall>n d. reaches t (rootId t) d n \<longrightarrow> \<not> isActionable n))"

definition run_end_ok :: "nat \<Rightarrow> nat \<Rightarrow> LoopEnd \<Rightarrow> TreeFiles \<Rightarrow> bool" where
  "run_end_ok i k e fs \<longleftrightarrow>
     i \<le> end_iterations e \<and>
     (end_status e = Status_done \<and> tree_settled fs \<and> end_iterations e < i + k \<or>
      end_status e = Cap_reached \<and> end_iterations e = i + k \<or>
      end_status e = Status_error \<and> end_iterations e < i + k)"

lemma engine_loop_ok:
  assumes clean: "clean_llm llm"
  shows "files_ok r fs \<Longrightarrow>
     \<exists>e fs'. engine_loop llm config clock k i blk fs = Some (e, fs') \<and> files_ok r fs' \<and> run_end_ok i k e fs'"
proof (induction k arbitrary: i blk fs)
  case 0
  then show ?case by (simp add: run_end_ok_def)
next
  case (Suc k)
  obtain x f1 where x: "Iterate_once llm config (clock i) i fs = Some (x, f1)" "files_ok r f1"
    and cases: "case x of
        Inl e \<Rightarrow> f1 = fs
      | Inr Settled \<Rightarrow> f1 = fs \<and> (\<exists>t. Tree_load fs = Inr t \<and>
            (\<forall>n d. reaches t (rootId t) d n \<longrightarrow> \<not> isActionable n))
      | Inr it \<Rightarrow> \<exists>n. NodeFS_read (touched it) fs = Some n \<and> node_id n = touched it \<and> isActionable n \<and>
                 iterated n it fs f1"
    using Iterate_once_ok [OF Suc.prems clean] by blast
  show ?case
  proof (cases x)
    case (Inl e)
    then show ?thesis using x by (simp add: run_end_ok_def)
  next
    case (Inr it)
    show ?thesis
    proof (cases "it = Settled")
      case True
      then have "tree_settled f1" using cases Inr by (simp add: tree_settled_def)
      then show ?thesis using x Inr True by (simp add: run_end_ok_def)
    next
      case False
      obtain y f2 where y: "consolidate llm config (clock i) i (Some (touched it)) 0 f1 = Some (y, f2)"
          "files_ok r f2"
        using consolidate_ok [OF x(2)] by blast
      show ?thesis
      proof (cases y)
        case (Inl e)
        then show ?thesis using x y Inr False by (simp add: run_end_ok_def)
      next
        case (Inr z)
        obtain e f3 where e: "engine_loop llm config clock k (Suc i) (blk @ blocked_ids it) f2 = Some (e, f3)"
            "files_ok r f3" "run_end_ok (Suc i) k e f3"
          using Suc.IH [OF y(2)] by blast
        have "run_end_ok i (Suc k) e f3" using e(3) by (auto simp: run_end_ok_def)
        then show ?thesis using x y Inr False e \<open>x = Inr it\<close> by simp
      qed
    qed
  qed
qed

lemma engine_loop_status:
  "engine_loop llm config clock k i blk fs = Some (e, fs') \<Longrightarrow>
   end_status e \<in> {Status_done, Cap_reached, Status_error}"
proof (induction k arbitrary: i blk fs)
  case 0
  then show ?case by auto
next
  case (Suc k)
  then show ?case
    by (auto split: bind_splits sum.splits prod.splits if_splits)
qed

lemma Engine_run_loop:
  assumes "\<not> (\<exists>m. session_meta s = Some m \<and> final_status m = Paused)"
  shows "Engine_run llm clock opts meanwhile s =
     Option.bind (engine_loop llm (run_config opts) clock (run_cap opts) 0 [] (session_tree s))
       (\<lambda>(e, fs). Some (e, \<lparr>session_tree = fs,
          session_meta = end_meta e (session_meta s) (clock (end_iterations e))
            (meanwhile (start_meta opts (clock 0) (session_meta s)))\<rparr>))"
  using assms by (auto simp: Engine_run_def Let_def split: option.splits)

text \<open>Making the first file of a session.\<close>

definition empty_files :: TreeFiles where
  "empty_files = \<lparr>tree_files = [], archive_files = []\<rparr>"

lemma first_file_ok:
  assumes "storable n" and "parent_id n = None" and "list_all (extends (node_id n)) (children_ids n)"
    and "NodeFS_list fs = []"
  obtains fs' where "NodeFS_write n fs = Some fs'" and "files_ok (node_id n) fs'"
    and "NodeFS_read (node_id n) fs' = Some (as_read n)"
proof -
  obtain fs' where w: "NodeFS_write n fs = Some fs'" using nf.put_good [OF assms(1)] by blast
  have rd: "NodeFS_read (node_id n) fs' = Some (as_read n)" by (simp add: nf.get_put [OF assms(1) w])
  have ls: "set (NodeFS_list fs') = {node_id n}" using nf.ids_put [OF w] assms(4) by simp
  have "file_ok (node_id n) (node_id n) (as_read n)"
    using assms storable_as_read [OF assms(1)] by (simp add: file_ok_def node_named_def)
  then have "files_ok (node_id n) fs'" using rd ls by (simp add: files_ok_def)
  then show thesis using that w rd by blast
qed

section \<open>Properties\<close>


text \<open>
  A paused session is left untouched by a run. A pause that is written while a run is under way
  is lost: the run goes on, and at its end the status is its own, which is never paused and
  never blocked.
\<close>

theorem pause_only_before_run:
  assumes "Engine_run llm clock opts meanwhile s = Some (e, s')"
  shows "if \<exists>m. session_meta s = Some m \<and> final_status m = Paused
         then s' = s \<and> end_status e = Paused
         else end_status e \<in> {Status_done, Cap_reached, Status_error} \<and>
              (\<exists>fs. engine_loop llm (run_config opts) clock (run_cap opts) 0 [] (session_tree s) = Some (e, fs) \<and>
                    session_tree s' = fs) \<and>
              map_option final_status (session_meta s') =
                map_option (\<lambda>_. end_status e) (meanwhile (start_meta opts (clock 0) (session_meta s)))"
proof (cases "\<exists>m. session_meta s = Some m \<and> final_status m = Paused")
  case True
  then show ?thesis using assms by (auto simp: Engine_run_def Let_def)
next
  case False
  obtain fs where fs: "engine_loop llm (run_config opts) clock (run_cap opts) 0 [] (session_tree s) = Some (e, fs)"
    "session_tree s' = fs"
    "session_meta s' = end_meta e (session_meta s) (clock (end_iterations e))
            (meanwhile (start_meta opts (clock 0) (session_meta s)))"
    using assms by (auto simp: Engine_run_loop [OF False] split: bind_splits prod.splits)
  show ?thesis
    unfolding if_not_P [OF False]
    using fs engine_loop_status [OF fs(1)]
    by (simp add: end_meta_def MetaFS_patch_def option.map_comp o_def)
qed


text \<open>
  C8 (safety): Consolidation always ends and never discards work: a node that still needs work stays as it is,
  and every other node is still in the tree, or in the archive, or was consolidated to a done
  node with a summary that is.
\<close>

theorem consolidation_keeps_work:
  assumes "files_ok r fs"
  shows "\<exists>x fs'. consolidate llm config now k (Some i) 0 fs = Some (x, fs') \<and> files_ok r fs' \<and>
     \<not> (\<exists>j n. NodeFS_read j fs = Some n \<and>
           (isActionable n \<and> NodeFS_read j fs' \<noteq> Some n \<or>
            \<not> (\<exists>m. kept n m \<and> (NodeFS_read j fs' = Some m \<or>
                                   NodeFS_archived (makeArchiveStamp now) j fs' = Some m))))"
proof -
  obtain x fs' where "consolidate llm config now k (Some i) 0 fs = Some (x, fs')" "files_ok r fs'"
      "keeps (makeArchiveStamp now) fs fs'"
    using consolidate_ok [OF assms] by blast
  then show ?thesis unfolding keeps_def by blast
qed

text \<open>
  Consolidating a settled subtree: when its names differ, the node becomes done with the summary
  and without children, and every descendant moves from the tree to the archive unchanged. When
  a name is listed twice, the second move fails and the consolidation throws, with the node still
  decomposed.
\<close>

theorem consolidation_spec:
  assumes fs: "files_ok r fs" and t: "Tree_load fs = Inr t" and n: "NodeFS_read i fs = Some n"
    and md: "mode n = Decomposed" and complete: "\<not> (\<exists>m d. reaches t i d m \<and> isActionable m)"
    and summary: "\<not> (\<exists>e. summarize llm n
                        (filter (\<lambda>m. node_id m \<noteq> i) (the (walkDFS t [i])))
                        (summary_token_cap_consolidation config) k = Inl e)"
  shows "\<exists>x fs'. consolidate_round llm config now k i fs = Some (x, fs') \<and>
     (if distinct (descendant_ids t i)
      then x = Inr (Go_on (parent_id n) 1) \<and>
           (\<exists>s. NodeFS_read i fs' = Some (as_read (consolidated_node n now s))) \<and>
           \<not> (\<exists>d \<in> set (descendant_ids t i).
                NodeFS_read d fs' \<noteq> None \<or>
                NodeFS_archived (makeArchiveStamp now) d fs' \<noteq> NodeFS_read d fs) \<and>
           \<not> (\<exists>j. j \<noteq> i \<and> j \<notin> set (descendant_ids t i) \<and> NodeFS_read j fs' \<noteq> NodeFS_read j fs)
      else x = Inl Archive_missing \<and> NodeFS_read i fs' = Some n)"
proof -
  let ?st = "makeArchiveStamp now"
  obtain t' where "Tree_load fs = Inr t'" "namespaced t'" and rd: "\<And>j. jget (byId t') j = NodeFS_read j fs"
    using files_ok_load [OF fs] by blast
  then have ns: "namespaced t" and rd: "\<And>j. jget (byId t) j = NodeFS_read j fs" using t by auto
  have jn: "jget (byId t) i = Some n" using rd n by simp
  have ok: "file_ok r i n" by (rule files_ok_read [OF fs n])
  have id: "node_id n = i" by (rule file_ok_id [OF ok])
  obtain ms where ms: "walkDFS t [i] = Some ms" using walkDFS_ends [OF ns] by blast
  then have col: "collectChildrenForSummary t i = Some (filter (\<lambda>m. node_id m \<noteq> i) ms)"
    by (simp add: collectChildrenForSummary_def)
  obtain s where s: "summarize llm n (filter (\<lambda>m. node_id m \<noteq> i) ms)
      (summary_token_cap_consolidation config) k = Inr s"
    using summary ms by (cases "summarize llm n (filter (\<lambda>m. node_id m \<noteq> i) ms)
      (summary_token_cap_consolidation config) k") auto
  obtain b f1 where f1: "js_each (\<lambda>d. NodeFS_archive d ?st) (descendant_ids t i) fs = (b, f1)" by force
  have c: "isSubtreeComplete t i = Some True"
    unfolding isSubtreeComplete_reach [OF ns] using complete by blast
  have run: "consolidate_round llm config now k i fs =
      (if b then write_node (consolidated_node n now s) f1 (Go_on (parent_id n) 1)
       else Some (Inl Archive_missing, f1))"
    by (simp add: consolidate_round_def t jn md id c col s archiveSubtree_eq [OF ns jn] f1)
  have ni: "i \<notin> set (descendant_ids t i)" by (simp add: descendant_ids_def)
  have there: "set (descendant_ids t i) \<subseteq> set (NodeFS_list fs)"
    using descendant_facts(2) [OF ns] rd read_listed by fastforce
  show ?thesis
  proof (cases "distinct (descendant_ids t i)")
    case True
    then have b: b using nf.moves_distinct [OF True there, of ?st] f1 by auto
    note mv = nf.moves_spec [of ?st "descendant_ids t i" fs f1]
    have mv: "NodeFS_read j f1 = (if j \<in> set (descendant_ids t i) then None else NodeFS_read j fs)"
        "NodeFS_archived ?st j f1 =
           (if j \<in> set (descendant_ids t i) then NodeFS_read j fs else NodeFS_archived ?st j fs)" for j
      using mv f1 b by auto
    let ?m = "consolidated_node n now s"
    have mid: "node_id ?m = i" using id by (simp add: consolidated_node_def)
    have st: "storable ?m" using consolidated_ok [OF ok] by (simp add: file_ok_def)
    obtain f2 where f2: "NodeFS_write ?m f1 = Some f2" using nf.put_good [OF st] by blast
    note g = nf.get_put [OF st f2] nf.moved_put [OF f2]
    have "consolidate_round llm config now k i fs = Some (Inr (Go_on (parent_id n) 1), f2)"
      using run b f2 by (simp add: write_node_def)
    then show ?thesis using True ni by (auto simp: g mv mid)
  next
    case False
    have "\<not> b"
    proof
      assume b
      then have "distinct (descendant_ids t i)"
        using nf.moves_spec [of ?st "descendant_ids t i" fs f1] f1 by simp
      then show False using False by simp
    qed
    moreover have "i \<notin> set ds \<Longrightarrow> js_each (\<lambda>d. NodeFS_archive d ?st) ds fs = (b, f1) \<Longrightarrow>
        NodeFS_read i f1 = NodeFS_read i fs" for ds fs
    proof (induction ds arbitrary: fs)
      case Nil
      then show ?case by simp
    next
      case (Cons d ds)
      then show ?case
        using nf.get_move [of d ?st fs] by (auto split: option.splits)
    qed
    ultimately show ?thesis using run False f1 ni n by auto
  qed
qed

section \<open>A session of a single node\<close>

lemma lone_reaches:
  assumes fs: "files_ok r fs" and n: "NodeFS_read r fs = Some n" and leaf: "children_ids n = []"
  obtains t where "Tree_load fs = Inr t" and "rootId t = r" and "namespaced t"
    and "jget (byId t) r = Some n" and "\<And>d m. reaches t r d m \<longleftrightarrow> d = 0 \<and> m = n"
proof -
  obtain t where t: "Tree_load fs = Inr t" "rootId t = r" "namespaced t"
    "\<And>i. jget (byId t) i = NodeFS_read i fs" using files_ok_load [OF fs] by blast
  have j: "jget (byId t) r = Some n" using t(4) n by simp
  have "reaches t r d m \<longleftrightarrow> d = 0 \<and> m = n" for d m
    using reaches_node [OF j, of d m] leaf by simp
  then show thesis using that t j by blast
qed

lemma blockNode_read:
  assumes "files_ok r fs" and "file_ok r (node_id n) n" and "reason \<noteq> []"
  shows "\<exists>fs'. blockNode n now reason fs = Some (Inr (Blocked (node_id n) reason), fs') \<and>
     files_ok r fs' \<and> NodeFS_read (node_id n) fs' = Some (as_read (blocked_node n now reason))"
proof (rule blockNode_ok [OF assms, where now = now])
  fix fs'
  assume b: "blockNode n now reason fs = Some (Inr (Blocked (node_id n) reason), fs')" "files_ok r fs'"
    and rd: "\<And>i. NodeFS_read i fs' =
      (if i = node_id n then Some (as_read (blocked_node n now reason)) else NodeFS_read i fs)"
  show ?thesis using b rd [of "node_id n"] by auto
qed

lemma lone_depth:
  assumes "jget (byId t) r = Some n" and "parent_id n = None"
  shows "depthOf t r = Some (Inr 0)"
  using assms by (simp add: depthOf_def Tree_get_def depth_loop.simps)

text \<open>
  A run whose only node cannot be planned, because every call of the model throws, ends as done
  after one iteration, with the root blocked.
\<close>

theorem failed_planning_counts_as_done:
  assumes fs: "files_ok r (session_tree s)" and n: "NodeFS_read r (session_tree s) = Some n"
    and md: "mode n = Pending_plan" and leaf: "children_ids n = []"
    and fails: "\<not> (\<exists>t k v. callPlanning llm t n k = Inr v)"
    and cap: "2 \<le> run_cap opts"
    and active: "\<not> (\<exists>m. session_meta s = Some m \<and> final_status m = Paused)"
  shows "\<exists>s'. Engine_run llm clock opts meanwhile s = Some (Loop_end Status_done 1 [r], s') \<and>
     map_option mode (NodeFS_read r (session_tree s')) = Some Mode_blocked"
proof -
  let ?fs = "session_tree s" and ?c = "run_config opts"
  have ok: "file_ok r r n" by (rule files_ok_read [OF fs n])
  have id: "node_id n = r" by (rule file_ok_id [OF ok])
  have par: "parent_id n = None" using ok by (simp add: file_ok_def)
  obtain t where t: "Tree_load ?fs = Inr t" "rootId t = r" "namespaced t" "jget (byId t) r = Some n"
      "\<And>d m. reaches t r d m \<longleftrightarrow> d = 0 \<and> m = n"
    using lone_reaches [OF fs n leaf] by blast
  have "\<exists>p. pickNext t (top_levels_to_plan ?c) = Some p \<and> next_choice t (top_levels_to_plan ?c) p"
    by (rule pickNext_choice [OF t(3)])
  then have pick: "PickNext_pick t ?c = Some (Some n)"
    using pickNext_none [OF t(3)] pickNext_some [OF t(3)] t(2,5) md
    by (metis PickNext_pick_def isActionable_def not_None_eq)
  obtain msg where msg: "callPlanning llm t n 0 = Inl msg"
    using fails by (cases "callPlanning llm t n 0") auto
  define reason where "reason = ''planning LLM call failed: '' @ msg"
  let ?b = "blocked_node n (clock 0) reason"
  have ne: "reason \<noteq> []" by (simp add: reason_def)
  have okn: "file_ok r (node_id n) n" using ok id by simp
  obtain f1 where f1: "blockNode n (clock 0) reason ?fs = Some (Inr (Blocked r reason), f1)" "files_ok r f1"
      "NodeFS_read r f1 = Some (as_read ?b)"
    using blockNode_read [OF fs okn ne, of "clock 0"] id by auto
  have one: "Iterate_once llm ?c (clock 0) 0 ?fs = Some (Inr (Blocked r reason), f1)"
    using f1(1) by (simp add: Iterate_once_def t(1) pick id lone_depth [OF t(4) par] md
        runPlanning_def planning_outcome_def msg reason_def)
  have b: "mode ?b = Mode_blocked" "children_ids ?b = []" "parent_id ?b = None"
    using leaf par by (simp_all add: blocked_node_def)
  obtain u where u: "Tree_load f1 = Inr u" "rootId u = r" "namespaced u" "jget (byId u) r = Some (as_read ?b)"
      "\<And>d m. reaches u r d m \<longleftrightarrow> d = 0 \<and> m = as_read ?b"
    using lone_reaches [OF f1(2,3)] b(2) by auto
  have "consolidate_round llm ?c (clock 0) 0 r f1 = Some (Inr (Go_on None 0), f1)"
    using b by (simp add: consolidate_round_def u(1,4))
  then have cons: "consolidate llm ?c (clock 0) 0 (Some r) 0 f1 = Some (Inr 0, f1)"
    by (simp add: consolidate.simps [of _ _ _ _ "Some r"] consolidate.simps [of _ _ _ _ None])
  obtain p where p: "pickNext u (top_levels_to_plan ?c) = Some p" using pickNext_ends [OF u(3)] by blast
  have "p = None"
  proof (rule ccontr)
    assume "p \<noteq> None"
    then obtain m where "pickNext u (top_levels_to_plan ?c) = Some (Some m)" using p by auto
    then obtain d where "reaches u (rootId u) d m" "isActionable m" using pickNext_some [OF u(3)] by blast
    then show False using u(2,5) b(1) by (simp add: isActionable_def)
  qed
  then have two: "Iterate_once llm ?c (clock 1) 1 f1 = Some (Inr Settled, f1)"
    using p by (simp add: Iterate_once_def u(1) PickNext_pick_def)
  obtain k where k: "run_cap opts = Suc (Suc k)" using cap by (metis add_2_eq_Suc le_Suc_ex)
  have "engine_loop llm ?c clock (run_cap opts) 0 [] ?fs = Some (Loop_end Status_done 1 [r], f1)"
    using one cons two by (simp add: k)
  then show ?thesis using f1(3) b(1) by (simp add: Engine_run_loop [OF active])
qed

section \<open>A session started from a goal\<close>

lemma seed_storable:
  assumes "goal opts \<noteq> []" and "goal_title opts \<noteq> Some []"
    and "\<not> js_includes (goal opts) STATE_FENCE_OPEN" and "goal_binding_opt opts = None"
  shows "storable (seed_root opts now)"
  using assms valid_root
  by (auto simp: storable_def valid_node_def seed_root_def take_eq_Nil split: option.split)

text \<open>
  A session started from a goal is seeded with a root to be planned, and its run ends. A session
  with files is resumed from them: the goal is not written.
\<close>

theorem goal_start_ends:
  assumes "goal opts \<noteq> []" and "goal_title opts \<noteq> Some []" and "goal_binding_opt opts = None"
    and "\<not> js_includes (goal opts) STATE_FENCE_OPEN" and "clean_llm llm"
    and "NodeFS_list (session_tree s) = [] \<or> files_ok ''root'' (session_tree s)"
    and active: "\<not> (\<exists>m. session_meta s = Some m \<and> final_status m = Paused)"
  shows "\<exists>e fs s' ro. goal_start llm hash clock opts meanwhile s =
       Some (Inr (e, ''root'', NodeFS_list (session_tree s) \<noteq> []), s') \<and>
     files_ok ''root'' (session_tree s') \<and>
     Engine_run llm clock ro meanwhile (s\<lparr>session_tree := fs\<rparr>) = Some (e, s') \<and>
     (if NodeFS_list (session_tree s) = []
      then NodeFS_read ''root'' fs = Some (as_read (seed_root opts (clock 0)))
      else fs = session_tree s)"
proof -
  let ?c = "case goal_config opts of Some c \<Rightarrow> c | None \<Rightarrow> default_config"
  let ?ro = "\<lparr>run_session_id = goal_session_id opts, run_config = ?c,
                        run_provider_id = goal_provider_id opts, run_user_id = goal_user_id opts,
                        run_trigger = Trigger_goal, run_root = ''root'', run_config_id = hash ?c,
                        iterationCapOverride = goal_cap opts\<rparr>"
  let ?seed = "seed_root opts (clock 0)"
  have st: "storable ?seed" by (rule seed_storable [OF assms(1,2,4,3)])
  have seed: "node_id ?seed = ''root''" "parent_id ?seed = None" "children_ids ?seed = []"
    by (simp_all add: seed_root_def)
  have lc: "list_all (extends (node_id ?seed)) (children_ids ?seed)" by (simp add: seed_root_def)
  have "\<exists>fs. (if NodeFS_list (session_tree s) \<noteq> [] then Some (session_tree s)
                else NodeFS_write ?seed (session_tree s)) = Some fs \<and> files_ok ''root'' fs \<and>
      (if NodeFS_list (session_tree s) = [] then NodeFS_read ''root'' fs = Some (as_read ?seed)
       else fs = session_tree s)"
  proof (cases "NodeFS_list (session_tree s) = []")
    case True
    obtain fs where "NodeFS_write ?seed (session_tree s) = Some fs" "files_ok ''root'' fs"
        "NodeFS_read ''root'' fs = Some (as_read ?seed)"
      by (rule first_file_ok [OF st seed(2) lc True]) (use seed(1) that in simp)
    then show ?thesis using True by simp
  next
    case False
    then show ?thesis using assms(6) by simp
  qed
  then obtain fs where fs: "(if NodeFS_list (session_tree s) \<noteq> [] then Some (session_tree s)
                else NodeFS_write ?seed (session_tree s)) = Some fs" "files_ok ''root'' fs"
      "if NodeFS_list (session_tree s) = [] then NodeFS_read ''root'' fs = Some (as_read ?seed)
       else fs = session_tree s" by blast
  obtain t where t: "Tree_load fs = Inr t" "rootId t = ''root''" using files_ok_load [OF fs(2)] by blast
  have a: "\<not> (\<exists>m. session_meta (s\<lparr>session_tree := fs\<rparr>) = Some m \<and> final_status m = Paused)"
    using active by simp
  have ok: "files_ok ''root'' (session_tree (s\<lparr>session_tree := fs\<rparr>))" using fs(2) by simp
  obtain e f where ef: "engine_loop llm (run_config ?ro) clock (run_cap ?ro) 0 [] fs = Some (e, f)" "files_ok ''root'' f"
    using engine_loop_ok [OF assms(5) fs(2)] by blast
  then obtain s' where run: "Engine_run llm clock ?ro meanwhile (s\<lparr>session_tree := fs\<rparr>) = Some (e, s')"
      "files_ok ''root'' (session_tree s')"
    by (simp add: Engine_run_loop [OF a])
  have "goal_start llm hash clock opts meanwhile s =
       Some (Inr (e, ''root'', NodeFS_list (session_tree s) \<noteq> []), s')"
    unfolding goal_start_def Let_def fs(1) option.case t sum.case run(1) by (simp add: t run(1))
  then show ?thesis using run fs(3) by blast
qed


section \<open>The hypotheses can hold\<close>

text \<open>A model that always throws but when it summarizes, and two small sessions.\<close>

definition failing_llm :: Llm where
  "failing_llm = \<lparr>callPlanning = (\<lambda>_ _ _. Inl ''down''), callExecution = (\<lambda>_ _ _ _. Inl ''down''),
     summarize = (\<lambda>_ _ _ _. Inr ''sum''), zod_message = (\<lambda>_. [])\<rparr>"

definition sample_options :: RunOptions where
  "sample_options = \<lparr>run_session_id = ''s'', run_config = default_config, run_provider_id = ''p'',
     run_user_id = ''u'', run_trigger = Trigger_goal, run_root = ''root'', run_config_id = ''h'',
     iterationCapOverride = Some 2\<rparr>"

definition sample_goal :: StartOptions where
  "sample_goal = \<lparr>goal_session_id = ''s'', goal = ''do it'', goal_title = None, goal_provider_id = ''p'',
     goal_user_id = ''u'', goal_cap = Some 2, goal_config = None, goal_binding_opt = None\<rparr>"

lemma failing_clean: "clean_llm failing_llm"
  by (simp add: clean_llm_def failing_llm_def planning_outcome_def)

lemma sample_storable: "storable (sample_node ''root'' ''do it'')"
  using sample_valid [OF valid_root] by (simp add: storable_def sample_node_def STATE_FENCE_OPEN_def)

lemma lone_session:
  obtains fs where "files_ok ''root'' fs"
    and "NodeFS_read ''root'' fs = Some (as_read (sample_node ''root'' ''do it''))"
proof -
  have s: "node_id (sample_node ''root'' ''do it'') = ''root''" "parent_id (sample_node ''root'' ''do it'') = None"
    "list_all (extends (node_id (sample_node ''root'' ''do it''))) (children_ids (sample_node ''root'' ''do it''))"
    by (simp_all add: sample_node_def)
  have e: "NodeFS_list empty_files = []" by (simp add: NodeFS_list_def empty_files_def)
  show thesis by (rule first_file_ok [OF sample_storable s(2,3) e]) (use that s(1) in simp)
qed


lemma pause_only_before_run_witness:
  "\<exists>e s'. Engine_run failing_llm (\<lambda>_. []) (sample_options\<lparr>iterationCapOverride := Some 0\<rparr>)
       (map_option (\<lambda>m. m\<lparr>final_status := Paused\<rparr>)) \<lparr>session_tree = empty_files, session_meta = None\<rparr> = Some (e, s') \<and>
     map_option final_status (session_meta s') = Some Cap_reached"
proof -
  let ?o = "sample_options\<lparr>iterationCapOverride := Some 0\<rparr>"
  let ?mw = "map_option (\<lambda>m. m\<lparr>final_status := Paused\<rparr>)"
  let ?s = "\<lparr>session_tree = empty_files, session_meta = None\<rparr>"
  obtain e s' where r: "Engine_run failing_llm (\<lambda>_. []) ?o ?mw ?s = Some (e, s')"
    by (simp add: Engine_run_def run_cap_def Let_def)
  have e: "e = Loop_end Cap_reached 0 []"
    using r by (simp add: Engine_run_def run_cap_def Let_def)
  have "map_option final_status (session_meta s') = Some Cap_reached"
    using pause_only_before_run [OF r] e by (simp add: start_meta_def)
  then show ?thesis using r by blast
qed


lemma consolidation_keeps_work_witness:
  "\<exists>fs x fs'. consolidate failing_llm default_config ''now'' 0 (Some ''root'') 0 fs = Some (x, fs') \<and>
     NodeFS_read ''root'' fs' = Some (as_read (sample_node ''root'' ''do it''))"
proof -
  obtain fs where fs: "files_ok ''root'' fs" "NodeFS_read ''root'' fs = Some (as_read (sample_node ''root'' ''do it''))"
    by (rule lone_session)
  have "isActionable (as_read (sample_node ''root'' ''do it''))"
    by (simp add: isActionable_def as_read_def sample_node_def)
  then show ?thesis
    using consolidation_keeps_work [OF fs(1), of failing_llm default_config "''now''" 0 "''root''"] fs(2) by blast
qed

text \<open>A decomposed root with a done child.\<close>

definition sample_parent :: ContextNode where
  "sample_parent = (sample_node ''root'' [])\<lparr>children_ids := [''root.a''], mode := Decomposed\<rparr>"

definition sample_child :: ContextNode where
  "sample_child = (sample_node ''root.a'' [])\<lparr>parent_id := Some ''root'', mode := Mode_done\<rparr>"

lemma two_nodes:
  obtains fs where "files_ok ''root'' fs" and "NodeFS_read ''root'' fs = Some sample_parent"
    and "NodeFS_read ''root.a'' fs = Some sample_child"
proof -
  have ids: "valid_id ''root.a''" by (simp add: valid_id_def id_head_def id_char_def js_digit_def)
  have ext: "extends ''root'' ''root.a''" by (simp add: extends_def js_starts_with_def)
  have p: "storable sample_parent" "parent_id sample_parent = None"
      "list_all (extends (node_id sample_parent)) (children_ids sample_parent)" "node_id sample_parent = ''root''"
      "as_read sample_parent = sample_parent"
    using valid_root ext
    by (simp_all add: sample_parent_def sample_node_def storable_def valid_node_def STATE_FENCE_OPEN_def
        as_read_def js_trim_end_def)
  have c: "file_ok ''root'' (node_id sample_child) sample_child" "node_id sample_child = ''root.a''"
      "as_read sample_child = sample_child"
    using ids ext
    by (simp_all add: sample_child_def sample_node_def file_ok_def node_named_def storable_def valid_node_def
        STATE_FENCE_OPEN_def as_read_def js_trim_end_def)
  have e: "NodeFS_list empty_files = []" by (simp add: NodeFS_list_def empty_files_def)
  obtain f1 where f1: "files_ok ''root'' f1" "NodeFS_read ''root'' f1 = Some sample_parent"
    by (rule first_file_ok [OF p(1-3) e]) (use p(4,5) in auto)
  show thesis
  proof (rule write_ok [OF f1(1) c(1)])
    fix fs'
    assume f2: "files_ok ''root'' fs'"
      and rd: "\<And>i. NodeFS_read i fs' = (if i = node_id sample_child then Some (as_read sample_child) else NodeFS_read i f1)"
    show thesis
      by (rule that [OF f2]) (use rd [of "''root''"] rd [of "''root.a''"] c f1(2) in auto)
  qed
qed

lemma consolidation_spec_witness:
  "\<exists>fs x fs'. consolidate_round failing_llm default_config ''now'' 0 ''root'' fs = Some (x, fs') \<and>
     map_option mode (NodeFS_read ''root'' fs') = Some Mode_done \<and> NodeFS_read ''root.a'' fs' = None"
proof -
  obtain fs where fs: "files_ok ''root'' fs" "NodeFS_read ''root'' fs = Some sample_parent"
      "NodeFS_read ''root.a'' fs = Some sample_child" by (rule two_nodes)
  obtain t where t: "Tree_load fs = Inr t" "namespaced t" "\<And>i. jget (byId t) i = NodeFS_read i fs"
    using files_ok_load [OF fs(1)] by blast
  have w: "walkDFS t [''root''] = Some [sample_parent, sample_child]"
    by (simp add: walkDFS.simps [of t "[''root'']"] walkDFS.simps [of t "[''root.a'']"]
        walkDFS.simps [of t "[]"] t(3) fs(2,3)) (simp add: sample_parent_def sample_child_def sample_node_def
        walkDFS.simps [of t "[''root.a'']"] walkDFS.simps [of t "[]"] t(3) fs(2,3))
  have v: "{n. \<exists>d. reaches t ''root'' d n} = {sample_parent, sample_child}"
    using walkDFS_visits [OF t(2) w] by simp
  have d: "descendant_ids t ''root'' = [''root.a'']"
    by (simp add: descendant_ids_def w) (simp add: sample_parent_def sample_child_def sample_node_def)
  have c: "\<not> (\<exists>m d. reaches t ''root'' d m \<and> isActionable m)"
  proof
    assume "\<exists>m d. reaches t ''root'' d m \<and> isActionable m"
    then obtain m where m: "m \<in> {n. \<exists>d. reaches t ''root'' d n}" "isActionable m" by blast
    then have "m = sample_parent \<or> m = sample_child" unfolding v by simp
    then show False using m(2) by (auto simp: isActionable_def sample_parent_def sample_child_def)
  qed
  have md: "mode sample_parent = Decomposed" by (simp add: sample_parent_def)
  have sm: "\<not> (\<exists>e. summarize failing_llm sample_parent
      (filter (\<lambda>m. node_id m \<noteq> ''root'') (the (walkDFS t [''root''])))
      (summary_token_cap_consolidation default_config) 0 = Inl e)"
    by (simp add: failing_llm_def)
  have di: "distinct (descendant_ids t ''root'')" by (simp add: d)
  obtain x fs' where r: "consolidate_round failing_llm default_config ''now'' 0 ''root'' fs = Some (x, fs')"
      "\<exists>s. NodeFS_read ''root'' fs' = Some (as_read (consolidated_node sample_parent ''now'' s))"
      "NodeFS_read ''root.a'' fs' = None"
    using consolidation_spec [OF fs(1) t(1) fs(2) md c sm, of "''now''"]
    unfolding if_P [OF di] d by auto
  have "map_option mode (NodeFS_read ''root'' fs') = Some Mode_done"
    using r(2) by (auto simp: consolidated_node_def)
  then show ?thesis using r(1,3) by blast
qed

lemma failed_planning_counts_as_done_witness:
  "\<exists>s s'. Engine_run failing_llm (\<lambda>_. []) sample_options (\<lambda>m. m) s =
       Some (Loop_end Status_done 1 [''root''], s') \<and>
     map_option mode (NodeFS_read ''root'' (session_tree s')) = Some Mode_blocked"
proof -
  obtain fs where fs: "files_ok ''root'' fs" "NodeFS_read ''root'' fs = Some (as_read (sample_node ''root'' ''do it''))"
    by (rule lone_session)
  let ?s = "\<lparr>session_tree = fs, session_meta = None\<rparr>" and ?n = "as_read (sample_node ''root'' ''do it'')"
  have n: "mode ?n = Pending_plan" "children_ids ?n = []" by (simp_all add: sample_node_def)
  have h: "files_ok ''root'' (session_tree ?s)" "NodeFS_read ''root'' (session_tree ?s) = Some ?n"
    using fs by simp_all
  have f: "\<not> (\<exists>t k v. callPlanning failing_llm t ?n k = Inr v)" by (simp add: failing_llm_def)
  have c: "2 \<le> run_cap sample_options" by (simp add: run_cap_def sample_options_def)
  have a: "\<not> (\<exists>m. session_meta ?s = Some m \<and> final_status m = Paused)" by simp
  show ?thesis
    using failed_planning_counts_as_done [OF h n f c a, of "\<lambda>_. []" "\<lambda>m. m"] by blast
qed

lemma goal_start_ends_witness:
  "\<exists>e s'. goal_start failing_llm (\<lambda>_. ''h'') (\<lambda>_. []) sample_goal (\<lambda>m. m)
       \<lparr>session_tree = empty_files, session_meta = None\<rparr> = Some (Inr (e, ''root'', False), s')"
proof -
  let ?s = "\<lparr>session_tree = empty_files, session_meta = None\<rparr>"
  have e: "NodeFS_list (session_tree ?s) = []" by (simp add: NodeFS_list_def empty_files_def)
  have g: "goal sample_goal \<noteq> []" "goal_title sample_goal \<noteq> Some []" "goal_binding_opt sample_goal = None"
      "\<not> js_includes (goal sample_goal) STATE_FENCE_OPEN"
    by (simp_all add: sample_goal_def STATE_FENCE_OPEN_def)
  show ?thesis
    using goal_start_ends [OF g failing_clean, of ?s "\<lambda>_. ''h''" "\<lambda>_. []" "\<lambda>m. m"] e by auto
qed

end
