(* ===== verification/Freerun_Plan_Task.thy ===== *)
theory Freerun_Plan_Task
  imports Freerun_Tree
begin

text \<open>
  Plan tasks (freerun/plan-task.ts): reading the open tasks of a tasks.md file with their
  acceptance criteria, choosing one, the root it seeds, and the gates that tick the task or give
  control back. Then the todos a tree is shown as (freerun/todo-projection.ts).
\<close>

record PlanTaskCandidate =
  cand_plan :: string
  cand_task_id :: string
  cand_text :: string
  cand_criteria :: "string list"
  cand_line :: nat

record PlanTaskSeedInput =
  seed_title :: string
  seed_body :: string
  seed_binding :: GoalBinding

section \<open>Lines\<close>

abbreviation carriage :: char where "carriage \<equiv> CHR 0x0D"

text \<open>\<open>split(/\r?\n/)\<close>: the last line keeps its carriage return.\<close>

fun strip_returns :: "string list \<Rightarrow> string list" where
  "strip_returns [] = []"
| "strip_returns [l] = [l]"
| "strip_returns (l # ls) =
     (if l \<noteq> [] \<and> last l = carriage then butlast l else l) # strip_returns ls"

definition js_lines :: "string \<Rightarrow> string list" where
  "js_lines s = strip_returns (js_split newline s)"

definition spaces :: "string \<Rightarrow> string" where
  "spaces s = takeWhile js_space s"

definition after_spaces :: "string \<Rightarrow> string" where
  "after_spaces s = dropWhile js_space s"

text \<open>\<open>\s+(.+)$\<close>: the blanks give one back when nothing else is left for the group, and the dot
  does not match a carriage return.\<close>

definition text_group :: "string \<Rightarrow> string option" where
  "text_group s =
     (if spaces s = [] then None
      else let g = (if after_spaces s \<noteq> [] then after_spaces s
                    else if length s < 2 then [] else [last s])
           in if g = [] \<or> carriage \<in> set g then None else Some g)"

text \<open>\<open>/^(\s*)- \[ \]\s+(.+)$/\<close>\<close>

definition TASK_LINE :: "string \<Rightarrow> (string \<times> string) option" where
  "TASK_LINE line =
     (if js_starts_with (after_spaces line) ''- [ ]''
      then map_option (\<lambda>g. (spaces line, g)) (text_group (drop 5 (after_spaces line)))
      else None)"

text \<open>\<open>/^(\s*)- \[[^\]]+\]\s+/\<close>: its indentation.\<close>

definition CHECKBOX_LINE :: "string \<Rightarrow> string option" where
  "CHECKBOX_LINE line =
     (let r = after_spaces line; inner = drop 3 r in
      if js_starts_with r ''- ['' \<and> takeWhile (\<lambda>c. c \<noteq> CHR '']'') inner \<noteq> [] \<and>
         (case dropWhile (\<lambda>c. c \<noteq> CHR '']'') inner of
            [] \<Rightarrow> False | _ # rest \<Rightarrow> spaces rest \<noteq> [])
      then Some (spaces line) else None)"

text \<open>\<open>/^\s+-\s+(.+)$/\<close>\<close>

definition bullet :: "string \<Rightarrow> string option" where
  "bullet line =
     (if spaces line \<noteq> [] \<and> js_starts_with (after_spaces line) ''-''
      then text_group (drop 1 (after_spaces line)) else None)"

section \<open>Task identifiers\<close>

definition js_upper_letter :: "char \<Rightarrow> bool" where
  "js_upper_letter c \<longleftrightarrow> 65 \<le> (of_char c :: nat) \<and> (of_char c :: nat) \<le> 90"

definition js_lower_letter :: "char \<Rightarrow> bool" where
  "js_lower_letter c \<longleftrightarrow> 97 \<le> (of_char c :: nat) \<and> (of_char c :: nat) \<le> 122"

text \<open>\<open>(?:\.\d+)*\<close>: what it matches and what is left.\<close>

function dotted :: "string \<Rightarrow> string \<times> string" where
  "dotted s =
     (if s \<noteq> [] \<and> hd s = CHR ''.'' \<and> takeWhile js_digit (tl s) \<noteq> []
      then let (a, r) = dotted (dropWhile js_digit (tl s))
           in (CHR ''.'' # takeWhile js_digit (tl s) @ a, r)
      else ([], s))"
  by pat_completeness auto
termination
proof (relation "measure length")
  show "wf (measure length)" by simp
next
  fix s :: string
  assume s: "s \<noteq> [] \<and> hd s = CHR ''.'' \<and> takeWhile js_digit (tl s) \<noteq> []"
  have "length (dropWhile js_digit (tl s)) \<le> length (tl s)" by (rule length_dropWhile_le)
  then show "(dropWhile js_digit (tl s), s) \<in> measure length" using s by (cases s) auto
qed

declare dotted.simps [simp del]

text \<open>\<open>/^([A-Za-z]?\d+(?:\.\d+)*(?:[a-z])?)\s+(.+)$/\<close>\<close>

definition TASK_ID :: "string \<Rightarrow> (string \<times> string) option" where
  "TASK_ID s =
     (let letter = (case s of c # _ \<Rightarrow> if js_upper_letter c \<or> js_lower_letter c then [c] else [] | [] \<Rightarrow> []);
          r1 = drop (length letter) s;
          digits = takeWhile js_digit r1;
          (dots, r2) = dotted (dropWhile js_digit r1);
          suffix = (case r2 of c # _ \<Rightarrow> if js_lower_letter c then [c] else [] | [] \<Rightarrow> []);
          r3 = drop (length suffix) r2
      in if digits = [] then None
         else map_option (\<lambda>g. (letter @ digits @ dots @ suffix, g)) (text_group r3))"

definition parseTaskText :: "string \<Rightarrow> nat \<Rightarrow> string \<times> string" where
  "parseTaskText rawText lineNumber =
     (case TASK_ID rawText of
        None \<Rightarrow> (CHR ''L'' # js_show_nat lineNumber, rawText)
      | Some m \<Rightarrow> m)"

section \<open>Candidates\<close>

fun collectAcceptanceCriteria :: "string list \<Rightarrow> nat \<Rightarrow> string list" where
  "collectAcceptanceCriteria [] taskIndent = []"
| "collectAcceptanceCriteria (line # lines) taskIndent =
     (if (case CHECKBOX_LINE line of None \<Rightarrow> False | Some ind \<Rightarrow> length ind \<le> taskIndent) then []
      else if length (spaces line) \<le> taskIndent then collectAcceptanceCriteria lines taskIndent
      else case bullet line of
        None \<Rightarrow> collectAcceptanceCriteria lines taskIndent
      | Some g \<Rightarrow> js_trim g # collectAcceptanceCriteria lines taskIndent)"

fun candidates_from :: "string \<Rightarrow> nat \<Rightarrow> string list \<Rightarrow> PlanTaskCandidate list" where
  "candidates_from planSlug index [] = []"
| "candidates_from planSlug index (line # lines) =
     (case TASK_LINE line of
        None \<Rightarrow> candidates_from planSlug (Suc index) lines
      | Some (indent, txt) \<Rightarrow>
          (let (tid, ttext) = parseTaskText (js_trim txt) (Suc index)
           in \<lparr>cand_plan = planSlug, cand_task_id = tid, cand_text = ttext,
               cand_criteria = collectAcceptanceCriteria lines (length indent),
               cand_line = Suc index\<rparr> # candidates_from planSlug (Suc index) lines))"

definition parsePlanTaskCandidates :: "string \<Rightarrow> string \<Rightarrow> PlanTaskCandidate list" where
  "parsePlanTaskCandidates markdown planSlug = candidates_from planSlug 0 (js_lines markdown)"

text \<open>The selector: absent, or an optional task id and an optional text.\<close>

definition first_of :: "'a list \<Rightarrow> 'a option" where
  "first_of xs = (case xs of [] \<Rightarrow> None | x # _ \<Rightarrow> Some x)"

definition selectPlanTaskCandidate ::
  "PlanTaskCandidate list \<Rightarrow> (string option \<times> string option) option \<Rightarrow> PlanTaskCandidate option" where
  "selectPlanTaskCandidate candidates selector =
     (case selector of
        None \<Rightarrow> first_of candidates
      | Some (tid, txt) \<Rightarrow>
          if truthy tid then List.find (\<lambda>c. Some (cand_task_id c) = tid) candidates
          else let needle = map_option (\<lambda>t. js_lower (js_trim t)) txt
               in if \<not> truthy needle then first_of candidates
                  else List.find (\<lambda>c. js_includes (js_lower (cand_text c)) (the needle)) candidates)"

definition buildPlanTaskSeedInput :: "PlanTaskCandidate \<Rightarrow> PlanTaskSeedInput" where
  "buildPlanTaskSeedInput c =
     \<lparr>seed_title = take 120 (cand_task_id c @ '' '' @ cand_text c),
      seed_body = js_join [newline]
        ([''Plan task '' @ cand_plan c @ ''#'' @ cand_task_id c, cand_text c] @
         (if cand_criteria c \<noteq> []
          then ['''', ''Acceptance criteria:''] @ map (\<lambda>x. ''- '' @ x) (cand_criteria c) else [])),
      seed_binding = Plan_task (cand_plan c) (cand_task_id c) (cand_text c) (cand_criteria c)\<rparr>"

section \<open>Gates\<close>

datatype stop_kind = Stop_blocked | Stop_decision | Stop_approval

datatype wait_reason = Not_plan_task | Root_not_done | Missing_evidence

datatype PlanTaskCompletionGate = Tick string string "string list" | Wait wait_reason

datatype PlanTaskStopGate = Continue | Return_control stop_kind string string

definition word_pizhun :: string where
  [js_defs]: "word_pizhun = [CHR 0xE6, CHR 0x89, CHR 0xB9, CHR 0xE5, CHR 0x87, CHR 0x86]"

definition word_hezhun :: string where
  [js_defs]: "word_hezhun = [CHR 0xE6, CHR 0xA0, CHR 0xB8, CHR 0xE5, CHR 0x87, CHR 0x86]"

definition word_juece :: string where
  [js_defs]: "word_juece = [CHR 0xE6, CHR 0xB1, CHR 0xBA, CHR 0xE7, CHR 0xAD, CHR 0x96]"

definition word_jueding :: string where
  [js_defs]: "word_jueding = [CHR 0xE6, CHR 0xB1, CHR 0xBA, CHR 0xE5, CHR 0xAE, CHR 0x9A]"

definition says :: "string \<Rightarrow> string list \<Rightarrow> bool" where
  [js_defs]: "says t ws \<longleftrightarrow> list_ex (js_includes (js_lower t)) ws"

definition stopKind :: "ContextNode \<Rightarrow> stop_kind option" where
  "stopKind n =
     (let t = js_join [newline] (blockers n) in
      if says t [''approval'', ''approve'', word_pizhun, word_hezhun] then Some Stop_approval
      else if says t [''decision'', ''decide'', word_juece, word_jueding] then Some Stop_decision
      else if mode n = Mode_blocked then Some Stop_blocked
      else None)"

fun default_message :: "stop_kind \<Rightarrow> string" where
  "default_message Stop_approval = ''Approval required''"
| "default_message Stop_decision = ''Decision required''"
| "default_message Stop_blocked = ''Blocked''"

definition classifyStop :: "ContextNode \<Rightarrow> (stop_kind \<times> string) option" where
  "classifyStop n =
     map_option (\<lambda>k. (k, if js_join [newline] (blockers n) \<noteq> [] then js_join [newline] (blockers n)
                         else default_message k)) (stopKind n)"

definition evaluatePlanTaskCompletionGate :: "ContextNode \<Rightarrow> string list \<Rightarrow> PlanTaskCompletionGate" where
  "evaluatePlanTaskCompletionGate n validationEvidence =
     (case goal_binding n of
        Some (Plan_task p i t cs) \<Rightarrow>
          if mode n \<noteq> Mode_done then Wait Root_not_done
          else let evidence = filter (\<lambda>x. x \<noteq> []) (map js_trim validationEvidence)
               in if evidence = [] then Wait Missing_evidence else Tick p i evidence
      | _ \<Rightarrow> Wait Not_plan_task)"

fun first_stop :: "ContextNode list \<Rightarrow> PlanTaskStopGate" where
  "first_stop [] = Continue"
| "first_stop (n # ns) =
     (case classifyStop n of None \<Rightarrow> first_stop ns | Some (k, m) \<Rightarrow> Return_control k (node_id n) m)"

definition evaluatePlanTaskStopGate :: "ContextNode \<Rightarrow> ContextNode list \<Rightarrow> PlanTaskStopGate" where
  "evaluatePlanTaskStopGate n nodes =
     (case goal_binding n of Some (Plan_task p i t cs) \<Rightarrow> first_stop nodes | _ \<Rightarrow> Continue)"

section \<open>The todos of a tree\<close>

datatype todo_status = Todo_completed | Todo_stopped stop_kind | Todo_in_progress | Todo_pending

record TodoInfo =
  todo_id :: string
  todo_content :: string
  todo_status :: todo_status
  todo_high :: bool
  todo_stop :: "stop_kind option"

fun stop_text :: "stop_kind \<Rightarrow> string" where
  "stop_text Stop_approval = ''approval''"
| "stop_text Stop_decision = ''decision''"
| "stop_text Stop_blocked = ''blocked''"

definition isAncestorOf :: "Snapshot \<Rightarrow> string \<Rightarrow> string \<Rightarrow> (fr_error + bool) option" where
  "isAncestorOf t ancestorId childId =
     Option.bind (ancestors t childId) (\<lambda>r.
       case r of Inl e \<Rightarrow> Some (Inl e)
       | Inr ns \<Rightarrow> Some (Inr (list_ex (\<lambda>a. node_id a = ancestorId) ns)))"

definition statusFor ::
  "Snapshot \<Rightarrow> ContextNode \<Rightarrow> ContextNode option \<Rightarrow> (fr_error + todo_status) option" where
  "statusFor t n active =
     (if mode n = Mode_done then Some (Inr Todo_completed)
      else case stopKind n of
        Some k \<Rightarrow> Some (Inr (Todo_stopped k))
      | None \<Rightarrow>
          Option.bind
            (case active of
               None \<Rightarrow> Some (Inr False)
             | Some a \<Rightarrow> if node_id a = node_id n then Some (Inr True)
                         else isAncestorOf t (node_id n) (node_id a)) (\<lambda>r.
            case r of
              Inl e \<Rightarrow> Some (Inl e)
            | Inr True \<Rightarrow> Some (Inr Todo_in_progress)
            | Inr False \<Rightarrow>
                if mode n = Decomposed then
                  Option.bind (isSubtreeComplete t (node_id n)) (\<lambda>c.
                    Some (Inr (if c then Todo_completed else Todo_pending)))
                else Some (Inr Todo_pending)))"

definition toTodo :: "Snapshot \<Rightarrow> ContextNode \<Rightarrow> ContextNode option \<Rightarrow> (fr_error + TodoInfo) option" where
  "toTodo t n active =
     Option.bind (statusFor t n active) (\<lambda>r.
       case r of
         Inl e \<Rightarrow> Some (Inl e)
       | Inr st \<Rightarrow> Some (Inr
           \<lparr>todo_id = ''freerun:'' @ node_id n,
            todo_content = (case stopKind n of
                Some k \<Rightarrow> node_id n @ '' ['' @ stop_text k @ ''] '' @ title n
              | None \<Rightarrow> node_id n @ '' '' @ title n),
            todo_status = st, todo_high = (parent_id n = None), todo_stop = stopKind n\<rparr>))"

definition set_all :: "(string, ContextNode) jmap \<Rightarrow> ContextNode list \<Rightarrow> (string, ContextNode) jmap" where
  "set_all m ns = foldl (\<lambda>m n. jset m (node_id n) n) m ns"

definition visibleNodes ::
  "Snapshot \<Rightarrow> ContextNode \<Rightarrow> ContextNode option \<Rightarrow> fr_error + ContextNode list" where
  "visibleNodes t rt active =
     (case children t (node_id rt) of
        Inl e \<Rightarrow> Inl e
      | Inr rootChildren \<Rightarrow>
          (let m1 = set_all [] (if rootChildren \<noteq> [] then rootChildren else [rt]) in
           case active of
             None \<Rightarrow> Inr (map snd m1)
           | Some a \<Rightarrow>
               (let m2 = jset m1 (node_id a) a in
                case (case parent_id a of
                        None \<Rightarrow> Inr []
                      | Some p \<Rightarrow> if p = [] then Inr []
                                  else (case Tree_get t p of Inl e \<Rightarrow> Inl e | Inr q \<Rightarrow> children t (node_id q))) of
                  Inl e \<Rightarrow> Inl e
                | Inr sibs \<Rightarrow>
                    (case children t (node_id a) of
                       Inl e \<Rightarrow> Inl e
                     | Inr kids \<Rightarrow> Inr (map snd (set_all (set_all m2 sibs) kids))))))"

fun todos_of :: "Snapshot \<Rightarrow> ContextNode option \<Rightarrow> ContextNode list \<Rightarrow> (fr_error + TodoInfo list) option" where
  "todos_of t active [] = Some (Inr [])"
| "todos_of t active (n # ns) =
     Option.bind (toTodo t n active) (\<lambda>r.
       case r of
         Inl e \<Rightarrow> Some (Inl e)
       | Inr todo \<Rightarrow>
           Option.bind (todos_of t active ns) (\<lambda>q.
             case q of Inl e \<Rightarrow> Some (Inl e) | Inr todos \<Rightarrow> Some (Inr (todo # todos))))"

definition todo_project :: "Snapshot \<Rightarrow> (fr_error + TodoInfo list) option" where
  "todo_project t =
     (case Tree_get t (rootId t) of
        Inl e \<Rightarrow> Some (Inl e)
      | Inr rt \<Rightarrow>
          Option.bind (pickNext t 3) (\<lambda>active.
            case visibleNodes t rt active of
              Inl e \<Rightarrow> Some (Inl e)
            | Inr nodes \<Rightarrow> todos_of t active nodes))"

end
