(* ===== verification/Edit_Distance.thy ===== *)
theory Edit_Distance
  imports Js_Prelude
begin

text \<open>
  The distance the edit tool compares lines with (\<open>levenshtein\<close> of tool/edit.ts), on its matrix,
  and edit scripts as its specification: it is the least cost of a script.
\<close>

section \<open>The matrix\<close>

definition lev_init :: "string \<Rightarrow> string \<Rightarrow> nat list list" where
  "lev_init a b = map (\<lambda>i. map (\<lambda>j. if i = 0 then j else if j = 0 then i else 0) [0..<Suc (length b)])
                      [0..<Suc (length a)]"

definition lev_cell :: "string \<Rightarrow> string \<Rightarrow> nat \<Rightarrow> nat \<Rightarrow> nat list list \<Rightarrow> nat list list" where
  "lev_cell a b i j matrix =
     (let cost = (if a ! (i - 1) = b ! (j - 1) then 0 else 1);
          v = min (matrix ! (i - 1) ! j + 1)
                (min (matrix ! i ! (j - 1) + 1) (matrix ! (i - 1) ! (j - 1) + cost))
      in matrix[i := (matrix ! i)[j := v]])"

definition lev_row :: "string \<Rightarrow> string \<Rightarrow> nat \<Rightarrow> nat list list \<Rightarrow> nat list list" where
  "lev_row a b i matrix = fold (lev_cell a b i) [1..<Suc (length b)] matrix"

definition levenshtein :: "string \<Rightarrow> string \<Rightarrow> nat" where
  "levenshtein a b =
     (if a = [] \<or> b = [] then max (length a) (length b)
      else fold (lev_row a b) [1..<Suc (length a)] (lev_init a b) ! length a ! length b)"

section \<open>Edit scripts\<close>

text \<open>A script turns the first text into the second one from left to right; keeping a character is
  free, inserting, deleting and replacing one costs one.\<close>

inductive script :: "string \<Rightarrow> string \<Rightarrow> nat \<Rightarrow> bool" where
  Start: "script [] [] 0"
| Insert: "script a b n \<Longrightarrow> script a (b @ [y]) (Suc n)"
| Delete: "script a b n \<Longrightarrow> script (a @ [x]) b (Suc n)"
| Keep: "script a b n \<Longrightarrow> script (a @ [x]) (b @ [x]) n"
| Change: "script a b n \<Longrightarrow> script (a @ [x]) (b @ [y]) (Suc n)"

inductive_cases script_snocE: "script (a @ [x]) (b @ [y]) n"
inductive_cases script_NilE: "script [] b n"
inductive_cases script_Nil_rightE: "script a [] n"

definition least_script :: "string \<Rightarrow> string \<Rightarrow> nat \<Rightarrow> bool" where
  "least_script a b n \<longleftrightarrow> script a b n \<and> \<not> (\<exists>m. script a b m \<and> m < n)"

lemma script_lengths: "script a b n \<Longrightarrow> length a \<le> length b + n \<and> length b \<le> length a + n"
  by (induction rule: script.induct) auto

lemma script_insert_all: "script [] b (length b)"
  by (induction b rule: rev_induct) (auto intro: script.intros)

lemma script_delete_all: "script a [] (length a)"
  by (induction a rule: rev_induct) (auto intro: script.intros)

lemma least_script_Nil: "n = length b \<Longrightarrow> least_script [] b n"
  unfolding least_script_def using script_insert_all script_lengths by force

lemma least_script_Nil_right: "n = length a \<Longrightarrow> least_script a [] n"
  unfolding least_script_def using script_delete_all script_lengths by force

lemma least_script_snoc:
  assumes u: "least_script a (b @ [y]) u" and l: "least_script (a @ [x]) b l" and d: "least_script a b d"
  shows "least_script (a @ [x]) (b @ [y]) (min (u + 1) (min (l + 1) (d + (if x = y then 0 else 1))))"
    (is "least_script _ _ ?v")
proof -
  have "script (a @ [x]) (b @ [y]) (u + 1)" "script (a @ [x]) (b @ [y]) (l + 1)"
    and k: "script (a @ [x]) (b @ [y]) (d + (if x = y then 0 else 1))"
    using u l d by (auto simp: least_script_def intro: script.intros)
  then have "script (a @ [x]) (b @ [y]) ?v" unfolding min_def by (auto split: if_splits)
  moreover have "?v \<le> m" if "script (a @ [x]) (b @ [y]) m" for m
    using that u l d by (elim script_snocE) (force simp: least_script_def not_less)+
  ultimately show ?thesis unfolding least_script_def not_less [symmetric] by blast
qed

section \<open>The matrix holds the costs of the prefixes\<close>

definition lev_shape :: "string \<Rightarrow> string \<Rightarrow> nat list list \<Rightarrow> bool" where
  "lev_shape a b M \<longleftrightarrow> length M = Suc (length a) \<and> (\<forall>i \<le> length a. length (M ! i) = Suc (length b))"

text \<open>The cells filled when row \<open>i\<close> is filled up to column \<open>j\<close>, with the border.\<close>

definition lev_filled :: "string \<Rightarrow> string \<Rightarrow> nat \<Rightarrow> nat \<Rightarrow> nat list list \<Rightarrow> bool" where
  "lev_filled a b i j M \<longleftrightarrow> lev_shape a b M \<and>
     (\<forall>p \<le> length a. \<forall>q \<le> length b. p < i \<or> p = i \<and> q \<le> j \<or> q = 0 \<longrightarrow>
        least_script (take p a) (take q b) (M ! p ! q))"

lemma lev_init_filled: "lev_filled a b 0 (length b) (lev_init a b)"
  by (auto simp: lev_filled_def lev_shape_def lev_init_def nth_append min_def simp del: upt_Suc
           intro!: least_script_Nil least_script_Nil_right)

lemma lev_next_row: "lev_filled a b i (length b) M \<Longrightarrow> lev_filled a b (Suc i) 0 M"
  by (auto simp: lev_filled_def less_Suc_eq)

lemma lev_cell_filled:
  assumes f: "lev_filled a b (Suc i) j M" and i: "i < length a" and j: "j < length b"
  shows "lev_filled a b (Suc i) (Suc j) (lev_cell a b (Suc i) (Suc j) M)"
proof -
  let ?v = "min (M ! i ! Suc j + 1) (min (M ! Suc i ! j + 1)
              (M ! i ! j + (if a ! i = b ! j then 0 else 1)))"
  have M: "lev_cell a b (Suc i) (Suc j) M = M[Suc i := (M ! Suc i)[Suc j := ?v]]"
    by (simp add: lev_cell_def)
  have sh: "lev_shape a b M" using f by (simp add: lev_filled_def)
  have known: "least_script (take p a) (take q b) (M ! p ! q)"
    if "p \<le> length a" "q \<le> length b" "p < Suc i \<or> p = Suc i \<and> q \<le> j \<or> q = 0" for p q
    using f that unfolding lev_filled_def by blast
  have v: "least_script (take (Suc i) a) (take (Suc j) b) ?v"
    unfolding take_Suc_conv_app_nth [OF i] take_Suc_conv_app_nth [OF j]
    using known [of i "Suc j"] known [of "Suc i" j] known [of i j] i j
    by (intro least_script_snoc) (simp_all add: take_Suc_conv_app_nth)
  have at: "M[Suc i := (M ! Suc i)[Suc j := ?v]] ! p ! q =
      (if p = Suc i \<and> q = Suc j then ?v else M ! p ! q)" if "p \<le> length a" "q \<le> length b" for p q
    using that sh i j by (auto simp: lev_shape_def nth_list_update)
  have cells: "least_script (take p a) (take q b) (M[Suc i := (M ! Suc i)[Suc j := ?v]] ! p ! q)"
    if "p \<le> length a" "q \<le> length b" "p < Suc i \<or> p = Suc i \<and> q \<le> Suc j \<or> q = 0" for p q
    unfolding at [OF that(1,2)] using that v known [OF that(1,2)] by (cases "q = Suc j") auto
  have shape: "lev_shape a b (M[Suc i := (M ! Suc i)[Suc j := w]])" for w
    using sh i by (auto simp: lev_shape_def nth_list_update)
  show ?thesis
    unfolding M lev_filled_def using cells shape by blast
qed

lemma lev_row_filled:
  assumes "lev_filled a b (Suc i) 0 M" and "i < length a"
  shows "lev_filled a b (Suc i) (length b) (lev_row a b (Suc i) M)"
proof -
  have "j \<le> length b \<Longrightarrow> lev_filled a b (Suc i) j (fold (lev_cell a b (Suc i)) [1..<Suc j] M)" for j
  proof (induction j)
    case 0
    then show ?case using assms by simp
  next
    case (Suc j)
    then show ?case using lev_cell_filled [OF _ assms(2)] by simp
  qed
  then show ?thesis unfolding lev_row_def by blast
qed

lemma lev_rows_filled:
  "i \<le> length a \<Longrightarrow> lev_filled a b i (length b) (fold (lev_row a b) [1..<Suc i] (lev_init a b))"
proof (induction i)
  case 0
  then show ?case by (simp add: lev_init_filled)
next
  case (Suc i)
  then show ?case using lev_row_filled [OF lev_next_row] by simp
qed

lemma levenshtein_least: "least_script a b (levenshtein a b)"
proof (cases "a = [] \<or> b = []")
  case True
  then show ?thesis using least_script_Nil least_script_Nil_right by (auto simp: levenshtein_def)
next
  case False
  have "lev_filled a b (length a) (length b) (fold (lev_row a b) [1..<Suc (length a)] (lev_init a b))"
    by (rule lev_rows_filled) simp
  then have "least_script (take (length a) a) (take (length b) b)
      (fold (lev_row a b) [1..<Suc (length a)] (lev_init a b) ! length a ! length b)"
    unfolding lev_filled_def by blast
  then show ?thesis using False by (simp add: levenshtein_def)
qed

text \<open>
  C10 (equivalence): The distance is the least cost of a script that turns one text into the other.
\<close>

theorem levenshtein_is_least_script:
  "script a b (levenshtein a b) \<and> \<not> (\<exists>m. script a b m \<and> m < levenshtein a b)"
  using levenshtein_least unfolding least_script_def .

lemma script_change_common: "length a = length b \<Longrightarrow> script a b (length a)"
proof (induction a arbitrary: b rule: rev_induct)
  case (snoc x a)
  then show ?case by (cases b rule: rev_cases) (auto intro: script.intros)
qed (auto intro: script.intros)

lemma script_extend: "script a b n \<Longrightarrow> script a (b @ c) (n + length c)"
  by (induction c rule: rev_induct) (auto simp flip: append_assoc intro: script.intros)

lemma script_extend_left: "script a b n \<Longrightarrow> script (a @ c) b (n + length c)"
  by (induction c rule: rev_induct) (auto simp flip: append_assoc intro: script.intros)

text \<open>It is at most the length of the longer text.\<close>

lemma script_max: "script a b (max (length a) (length b))"
proof (cases "length a \<le> length b")
  case True
  have "script a (take (length a) b @ drop (length a) b) (length a + length (drop (length a) b))"
    using True by (intro script_extend script_change_common) simp
  then show ?thesis using True by (simp add: max_def)
next
  case False
  have "script (take (length b) a) b (length b)"
    using False script_change_common [of "take (length b) a" b] by simp
  from script_extend_left [OF this, of "drop (length b) a"]
  have "script a b (length b + (length a - length b))" by simp
  then show ?thesis using False by (simp add: max_def)
qed

lemma levenshtein_max: "levenshtein a b \<le> max (length a) (length b)"
  using levenshtein_least script_max unfolding least_script_def by (meson not_less)

end
