(* ===== verification/Edit_Replacers.thy ===== *)
theory Edit_Replacers
  imports Edit_Distance Js_Text "HOL-Library.Monad_Syntax"
begin

text \<open>
  The edit tool (tool/edit.ts): the replacers, each a list of the texts it proposes for the text to
  be replaced, and \<open>replace\<close>, which tries them in order. Similarities are rational numbers.
\<close>

section \<open>Lines and blocks\<close>

text \<open>The lines of the searched text: the last one is dropped when it is empty.\<close>

definition search_lines :: "string \<Rightarrow> string list" where
  "search_lines wanted =
     (let ls = js_split newline wanted in if last ls = [] then butlast ls else ls)"

definition line_start :: "string list \<Rightarrow> nat \<Rightarrow> nat" where
  "line_start lines i = sum_list (map (\<lambda>l. length l + 1) (take i lines))"

definition line_span :: "string \<Rightarrow> string list \<Rightarrow> nat \<Rightarrow> nat \<Rightarrow> string" where
  "line_span content lines i n =
     js_substring content (line_start lines i)
       (line_start lines i + sum_list (map length (take n (drop i lines))) + (n - 1))"

definition line_blocks :: "nat \<Rightarrow> string list \<Rightarrow> string list list" where
  "line_blocks n lines = map (\<lambda>i. take n (drop i lines)) [0..<Suc (length lines) - n]"

definition same_trimmed :: "string \<Rightarrow> string \<Rightarrow> bool" where
  "same_trimmed a b \<longleftrightarrow> js_trim a = js_trim b"

section \<open>Whole lines\<close>

definition SimpleReplacer :: "string \<Rightarrow> string \<Rightarrow> string list" where
  "SimpleReplacer content wanted = [wanted]"

definition LineTrimmedReplacer :: "string \<Rightarrow> string \<Rightarrow> string list" where
  "LineTrimmedReplacer content wanted =
     (let originalLines = js_split newline content;
          searchLines = search_lines wanted;
          n = length searchLines
      in map (\<lambda>i. line_span content originalLines i n)
           (filter (\<lambda>i. list_all2 same_trimmed (take n (drop i originalLines)) searchLines)
             [0..<Suc (length originalLines) - n]))"

section \<open>Blocks between two anchors\<close>

definition SINGLE_CANDIDATE_SIMILARITY_THRESHOLD :: rat where
  "SINGLE_CANDIDATE_SIMILARITY_THRESHOLD = 0"

definition MULTIPLE_CANDIDATES_SIMILARITY_THRESHOLD :: rat where
  "MULTIPLE_CANDIDATES_SIMILARITY_THRESHOLD = 3 / 10"

definition anchor_end :: "string list \<Rightarrow> string \<Rightarrow> nat \<Rightarrow> nat option" where
  "anchor_end lines lastLine i =
     List.find (\<lambda>j. js_trim (lines ! j) = lastLine) [i + 2..<length lines]"

definition anchor_candidates :: "string list \<Rightarrow> string \<Rightarrow> string \<Rightarrow> (nat \<times> nat) list" where
  "anchor_candidates lines firstLine lastLine =
     concat (map (\<lambda>i. if js_trim (lines ! i) \<noteq> firstLine then []
                      else case anchor_end lines lastLine i of None \<Rightarrow> [] | Some j \<Rightarrow> [(i, j)])
       [0..<length lines])"

text \<open>The middle lines compared: those of the block with those of the searched text, trimmed.\<close>

definition middle :: "'a list \<Rightarrow> 'a list" where
  "middle xs = butlast (tl xs)"

definition middle_pairs :: "string list \<Rightarrow> string list \<Rightarrow> nat \<times> nat \<Rightarrow> (string \<times> string) list" where
  "middle_pairs lines searchLines c =
     zip (map js_trim (middle (take (snd c - fst c + 1) (drop (fst c) lines))))
         (map js_trim (middle searchLines))"

definition max_len :: "string \<times> string \<Rightarrow> nat" where
  "max_len p = max (length (fst p)) (length (snd p))"

definition line_similarity :: "string \<times> string \<Rightarrow> rat" where
  "line_similarity p = 1 - of_nat (levenshtein (fst p) (snd p)) / of_nat (max_len p)"

definition lines_to_check :: "string list \<Rightarrow> nat \<times> nat \<Rightarrow> nat" where
  "lines_to_check searchLines c = min (length searchLines - 2) (snd c - fst c + 1 - 2)"

fun single_similarity :: "nat \<Rightarrow> rat \<Rightarrow> (string \<times> string) list \<Rightarrow> rat" where
  "single_similarity n similarity [] = similarity"
| "single_similarity n similarity (p # ps) =
     (if max_len p = 0 then single_similarity n similarity ps
      else let similarity' = similarity + line_similarity p / of_nat n
           in if SINGLE_CANDIDATE_SIMILARITY_THRESHOLD \<le> similarity' then similarity'
              else single_similarity n similarity' ps)"

definition average_similarity :: "nat \<Rightarrow> (string \<times> string) list \<Rightarrow> rat" where
  "average_similarity n ps =
     sum_list (map line_similarity (filter (\<lambda>p. max_len p \<noteq> 0) ps)) / of_nat n"

definition candidate_similarity :: "string list \<Rightarrow> string list \<Rightarrow> nat \<times> nat \<Rightarrow> rat" where
  "candidate_similarity lines searchLines c =
     (if 0 < lines_to_check searchLines c
      then average_similarity (lines_to_check searchLines c) (middle_pairs lines searchLines c) else 1)"

fun best_candidate :: "('c \<Rightarrow> rat) \<Rightarrow> 'c list \<Rightarrow> 'c option \<Rightarrow> rat \<Rightarrow> 'c option \<times> rat" where
  "best_candidate sim [] bestMatch maxSimilarity = (bestMatch, maxSimilarity)"
| "best_candidate sim (c # cs) bestMatch maxSimilarity =
     (if maxSimilarity < sim c then best_candidate sim cs (Some c) (sim c)
      else best_candidate sim cs bestMatch maxSimilarity)"

definition candidate_span :: "string \<Rightarrow> string list \<Rightarrow> nat \<times> nat \<Rightarrow> string" where
  "candidate_span content lines c = line_span content lines (fst c) (snd c - fst c + 1)"

definition BlockAnchorReplacer :: "string \<Rightarrow> string \<Rightarrow> string list" where
  "BlockAnchorReplacer content wanted =
     (let originalLines = js_split newline content;
          searchLines = search_lines wanted;
          candidates = anchor_candidates originalLines (js_trim (hd searchLines)) (js_trim (last searchLines))
      in if length (js_split newline wanted) < 3 then []
         else case candidates of
           [] \<Rightarrow> []
         | [c] \<Rightarrow>
             (let n = lines_to_check searchLines c;
                  similarity = (if 0 < n then single_similarity n 0 (middle_pairs originalLines searchLines c)
                                else 1)
              in if SINGLE_CANDIDATE_SIMILARITY_THRESHOLD \<le> similarity
                 then [candidate_span content originalLines c] else [])
         | _ \<Rightarrow>
             (case best_candidate (candidate_similarity originalLines searchLines) candidates None (- 1) of
                (Some c, maxSimilarity) \<Rightarrow>
                  if MULTIPLE_CANDIDATES_SIMILARITY_THRESHOLD \<le> maxSimilarity
                  then [candidate_span content originalLines c] else []
              | (None, _) \<Rightarrow> []))"

section \<open>White space\<close>

declare length_dropWhile_le [termination_simp]

fun js_collapse :: "string \<Rightarrow> string" where
  "js_collapse [] = []"
| "js_collapse (c # s) =
     (if js_space c then CHR '' '' # js_collapse (dropWhile js_space s) else c # js_collapse s)"

definition normalizeWhitespace :: "string \<Rightarrow> string" where
  "normalizeWhitespace t = js_trim (js_collapse t)"

text \<open>The words joined by \<open>\s+\<close>, as a regular expression: the length of a match at the start, and
  the first match.\<close>

fun match_words :: "string list \<Rightarrow> string \<Rightarrow> nat option" where
  "match_words [] s = Some 0"
| "match_words [w] s = (if js_starts_with s w then Some (length w) else None)"
| "match_words (w # ws) s =
     (if js_starts_with s w
      then let r = drop (length w) s; n = length (takeWhile js_space r)
           in if n = 0 then None else map_option (\<lambda>k. length w + n + k) (match_words ws (drop n r))
      else None)"

fun search_words :: "string list \<Rightarrow> string \<Rightarrow> string option" where
  "search_words ws [] = (case match_words ws [] of Some k \<Rightarrow> Some [] | None \<Rightarrow> None)"
| "search_words ws (c # s) =
     (case match_words ws (c # s) of Some k \<Rightarrow> Some (take k (c # s)) | None \<Rightarrow> search_words ws s)"

definition find_words :: "string \<Rightarrow> string list" where
  "find_words wanted = (if js_trim wanted = [] then [[]] else js_words (js_trim wanted))"

definition white_line :: "string \<Rightarrow> string \<Rightarrow> string list" where
  "white_line wanted line =
     (if normalizeWhitespace line = normalizeWhitespace wanted then [line]
      else if js_includes (normalizeWhitespace line) (normalizeWhitespace wanted)
      then (case search_words (find_words wanted) line of Some m \<Rightarrow> [m] | None \<Rightarrow> [])
      else [])"

definition WhitespaceNormalizedReplacer :: "string \<Rightarrow> string \<Rightarrow> string list" where
  "WhitespaceNormalizedReplacer content wanted =
     (let lines = js_split newline content; findLines = js_split newline wanted
      in concat (map (white_line wanted) lines) @
         (if 1 < length findLines
          then filter (\<lambda>b. normalizeWhitespace b = normalizeWhitespace wanted)
                 (map (js_join [newline]) (line_blocks (length findLines) lines))
          else []))"

section \<open>Indentation and escapes\<close>

definition removeIndentation :: "string \<Rightarrow> string" where
  "removeIndentation t =
     (let lines = js_split newline t;
          nonEmptyLines = filter (\<lambda>l. js_trim l \<noteq> []) lines
      in if nonEmptyLines = [] then t
         else let minIndent = min_list (map (\<lambda>l. length (takeWhile js_space l)) nonEmptyLines)
              in js_join [newline] (map (\<lambda>l. if js_trim l = [] then l else drop minIndent l) lines))"

definition matching_blocks :: "(string \<Rightarrow> bool) \<Rightarrow> string \<Rightarrow> nat \<Rightarrow> string list" where
  "matching_blocks ok content n =
     filter ok (map (js_join [newline]) (line_blocks n (js_split newline content)))"

definition IndentationFlexibleReplacer :: "string \<Rightarrow> string \<Rightarrow> string list" where
  "IndentationFlexibleReplacer content wanted =
     matching_blocks (\<lambda>b. removeIndentation b = removeIndentation wanted) content
       (length (js_split newline wanted))"

definition escape_value :: "char \<Rightarrow> char option" where
  "escape_value c =
     (if c = CHR ''n'' then Some newline
      else if c = CHR ''t'' then Some (CHR 0x09)
      else if c = CHR ''r'' then Some (CHR 0x0D)
      else if c \<in> {CHR 0x27, CHR 0x22, CHR ''`'', CHR 0x5C, newline, CHR ''$''} then Some c
      else None)"

fun unescapeString :: "string \<Rightarrow> string" where
  "unescapeString [] = []"
| "unescapeString [c] = [c]"
| "unescapeString (c # d # s) =
     (if c = CHR 0x5C \<and> escape_value d \<noteq> None then the (escape_value d) # unescapeString s
      else c # unescapeString (d # s))"

definition EscapeNormalizedReplacer :: "string \<Rightarrow> string \<Rightarrow> string list" where
  "EscapeNormalizedReplacer content wanted =
     (let unescapedFind = unescapeString wanted
      in (if js_includes content unescapedFind then [unescapedFind] else []) @
         matching_blocks (\<lambda>b. unescapeString b = unescapedFind) content
           (length (js_split newline unescapedFind)))"

section \<open>Boundaries and contexts\<close>

definition TrimmedBoundaryReplacer :: "string \<Rightarrow> string \<Rightarrow> string list" where
  "TrimmedBoundaryReplacer content wanted =
     (if js_trim wanted = wanted then []
      else (if js_includes content (js_trim wanted) then [js_trim wanted] else []) @
           matching_blocks (\<lambda>b. js_trim b = js_trim wanted) content (length (js_split newline wanted)))"

definition enough_matches :: "(string \<times> string) list \<Rightarrow> bool" where
  "enough_matches ps =
     (let nonEmpty = filter (\<lambda>p. 0 < length (fst p) \<or> 0 < length (snd p)) ps
      in nonEmpty = [] \<or> length nonEmpty \<le> 2 * length (filter (\<lambda>p. fst p = snd p) nonEmpty))"

definition ContextAwareReplacer :: "string \<Rightarrow> string \<Rightarrow> string list" where
  "ContextAwareReplacer content wanted =
     (let findLines = search_lines wanted; contentLines = js_split newline content
      in if length (js_split newline wanted) < 3 then []
         else concat (map (\<lambda>c.
           if snd c - fst c + 1 = length findLines \<and>
              enough_matches (middle_pairs contentLines findLines c)
           then [js_join [newline] (take (snd c - fst c + 1) (drop (fst c) contentLines))] else [])
           (anchor_candidates contentLines (js_trim (hd findLines)) (js_trim (last findLines)))))"

text \<open>The last replacer proposes the searched text once per occurrence; it does not end when that
  text is empty.\<close>

partial_function (option) occurrences :: "string \<Rightarrow> string \<Rightarrow> nat \<Rightarrow> string list option" where
  "occurrences content wanted startIndex =
     (case js_find_from wanted content startIndex of
        None \<Rightarrow> Some []
      | Some index \<Rightarrow>
          Option.bind (occurrences content wanted (index + length wanted)) (\<lambda>r. Some (wanted # r)))"

definition MultiOccurrenceReplacer :: "string \<Rightarrow> string \<Rightarrow> string list option" where
  "MultiOccurrenceReplacer content wanted = occurrences content wanted 0"

section \<open>Replacing\<close>

datatype edit_error = No_changes | Not_found | Multiple_matches

definition replacers :: "(string \<Rightarrow> string \<Rightarrow> string list option) list" where
  "replacers =
     [\<lambda>c f. Some (SimpleReplacer c f), \<lambda>c f. Some (LineTrimmedReplacer c f),
      \<lambda>c f. Some (BlockAnchorReplacer c f), \<lambda>c f. Some (WhitespaceNormalizedReplacer c f),
      \<lambda>c f. Some (IndentationFlexibleReplacer c f), \<lambda>c f. Some (EscapeNormalizedReplacer c f),
      \<lambda>c f. Some (TrimmedBoundaryReplacer c f), \<lambda>c f. Some (ContextAwareReplacer c f),
      MultiOccurrenceReplacer]"

text \<open>One replacer: the new content, or whether nothing has been found so far.\<close>

fun try_searches :: "string \<Rightarrow> string \<Rightarrow> bool \<Rightarrow> bool \<Rightarrow> string list \<Rightarrow> bool + string" where
  "try_searches content newString all notFound [] = Inl notFound"
| "try_searches content newString all notFound (search # searches) =
     (case js_find search content of
        None \<Rightarrow> try_searches content newString all notFound searches
      | Some index \<Rightarrow>
          if all then Inr (js_replaceAll content search newString)
          else if js_find_last search content \<noteq> Some index
          then try_searches content newString all False searches
          else Inr (take index content @ newString @ drop (index + length search) content))"

text \<open>A replacer that does not end yields only texts that an earlier one has yielded in vain.\<close>

fun try_replacers ::
  "string \<Rightarrow> string \<Rightarrow> string \<Rightarrow> bool \<Rightarrow> bool \<Rightarrow> (string \<Rightarrow> string \<Rightarrow> string list option) list \<Rightarrow>
   (edit_error + string) option" where
  "try_replacers content oldString newString all notFound [] =
     Some (Inl (if notFound then Not_found else Multiple_matches))"
| "try_replacers content oldString newString all notFound (r # rs) =
     Option.bind (r content oldString) (\<lambda>searches.
       case try_searches content newString all notFound searches of
         Inr t \<Rightarrow> Some (Inr t)
       | Inl notFound' \<Rightarrow> try_replacers content oldString newString all notFound' rs)"

definition replace_text :: "string \<Rightarrow> string \<Rightarrow> string \<Rightarrow> bool \<Rightarrow> (edit_error + string) option" where
  "replace_text content oldString newString replaceAll =
     (if oldString = newString then Some (Inl No_changes)
      else try_replacers content oldString newString replaceAll True replacers)"

section \<open>Trimming a diff\<close>

definition diff_content_line :: "string \<Rightarrow> bool" where
  "diff_content_line l \<longleftrightarrow>
     (js_starts_with l ''+'' \<or> js_starts_with l ''-'' \<or> js_starts_with l '' '') \<and>
     \<not> js_starts_with l ''---'' \<and> \<not> js_starts_with l ''+++''"

definition trimDiff :: "string \<Rightarrow> string" where
  "trimDiff diff =
     (let lines = js_split newline diff;
          indents = map (\<lambda>l. length (takeWhile js_space (drop 1 l)))
                      (filter (\<lambda>l. diff_content_line l \<and> js_trim (drop 1 l) \<noteq> []) lines)
      in if indents = [] \<or> min_list indents = 0 then diff
         else js_join [newline]
           (map (\<lambda>l. if diff_content_line l then hd l # drop (min_list indents) (drop 1 l) else l) lines))"

end
