(* ===== verification/Edit_Replace.thy ===== *)
theory Edit_Replace
  imports Edit_Replacers
begin

text \<open>
  What the edit tool does to a file: which texts may be replaced, that one region only changes,
  when it fails, and when it does not end.
\<close>

section \<open>Blocks of lines are parts of the text\<close>

lemma join_parts:
  assumes "i < length lines"
  shows "js_join [newline] lines =
         concat (map (\<lambda>l. l @ [newline]) (take i lines)) @ js_join [newline] (drop i lines)"
  using assms
proof (induction i arbitrary: lines)
  case (Suc i)
  then obtain l ls where ls: "lines = l # ls" "ls \<noteq> []" by (cases lines; cases "tl lines") auto
  then show ?case using Suc.IH [of ls] Suc.prems by (simp add: js_join_cons)
qed simp

lemma length_line_start:
  "length (concat (map (\<lambda>l. l @ [newline]) (take i lines))) = line_start lines i"
  by (simp add: line_start_def length_concat comp_def)

lemma length_join: "xs \<noteq> [] \<Longrightarrow> length (js_join [newline] xs) = sum_list (map length xs) + (length xs - 1)"
proof (induction xs)
  case (Cons x xs)
  then show ?case by (cases xs) (simp_all add: js_join_cons)
qed simp

lemma join_block:
  assumes "0 < n" and "i + n \<le> length lines"
  obtains post where "js_join [newline] (drop i lines) = js_join [newline] (take n (drop i lines)) @ post"
proof (cases "i + n = length lines")
  case True
  then show ?thesis using that [of "[]"] by simp
next
  case False
  have "take n (drop i lines) \<noteq> []" "drop n (drop i lines) \<noteq> []" using False assms by auto
  from js_join_append [OF this, of "[newline]"] show ?thesis
    unfolding append_take_drop_id by (rule that)
qed

text \<open>A block of lines, as the code cuts it out of the content.\<close>

lemma line_span_block:
  assumes "i + n \<le> length lines" and "content = js_join [newline] lines"
  shows "line_span content lines i n = js_join [newline] (take n (drop i lines))"
    and "js_includes content (js_join [newline] (take n (drop i lines)))"
proof -
  have "line_span content lines i n = js_join [newline] (take n (drop i lines)) \<and>
        js_includes content (js_join [newline] (take n (drop i lines)))"
  proof (cases "n = 0")
    case True
    then show ?thesis by (auto simp: line_span_def js_substring_def js_includes_occurs occurs_at_def)
  next
    case False
    then have n: "0 < n" and i: "i < length lines" using assms by auto
    let ?b = "js_join [newline] (take n (drop i lines))"
    obtain post where "js_join [newline] (drop i lines) = ?b @ post"
      by (rule join_block [OF n assms(1)])
    then have c: "content = concat (map (\<lambda>l. l @ [newline]) (take i lines)) @ ?b @ post"
      using join_parts [OF i] assms(2) by simp
    have "take n (drop i lines) \<noteq> []" using n i by simp
    from length_join [OF this]
    have "line_start lines i + sum_list (map length (take n (drop i lines))) + (n - 1) =
          line_start lines i + length ?b" using assms(1) by simp
    then show ?thesis unfolding line_span_def js_substring_def c
      by (simp add: length_line_start [symmetric])
  qed
  then show "line_span content lines i n = js_join [newline] (take n (drop i lines))"
    and "js_includes content (js_join [newline] (take n (drop i lines)))" by auto
qed

lemma line_block_occurs:
  assumes "b \<in> set (line_blocks n (js_split newline content))"
  shows "js_includes content (js_join [newline] b)"
proof -
  obtain i where "b = take n (drop i (js_split newline content))" "i + n \<le> length (js_split newline content)"
    using assms by (auto simp: line_blocks_def)
  then show ?thesis using line_span_block(2) [of i n "js_split newline content" content]
    by (simp add: js_join_split)
qed

lemma matching_block_occurs:
  "b \<in> set (matching_blocks ok content n) \<Longrightarrow> js_includes content b \<and> ok b"
  using line_block_occurs by (auto simp: matching_blocks_def)

lemma anchor_end_Some:
  assumes "anchor_end lines w i = Some j"
  shows "i + 2 \<le> j" "j < length lines" "js_trim (lines ! j) = w"
  using assms unfolding anchor_end_def find_Some_iff by auto

lemma anchor_candidates_mem:
  assumes "c \<in> set (anchor_candidates lines a b)"
  shows "fst c + 2 \<le> snd c" "snd c < length lines" "js_trim (lines ! fst c) = a" "js_trim (lines ! snd c) = b"
  using assms unfolding anchor_candidates_def
  by (auto split: if_splits option.splits dest: anchor_end_Some [OF sym])

lemma best_candidate_mem:
  "best_candidate sim cs best mx = (Some c, m) \<Longrightarrow> best = Some c \<or> c \<in> set cs"
  by (induction sim cs best mx rule: best_candidate.induct) (auto split: if_splits)

section \<open>Every proposal of a replacer occurs in the content\<close>

lemma LineTrimmedReplacer_proposal:
  assumes "s \<in> set (LineTrimmedReplacer content old)"
  obtains b where "s = js_join [newline] b" "js_includes content s" "list_all2 same_trimmed b (search_lines old)"
    "b = [] \<or> b \<in> set (line_blocks (length b) (js_split newline content))"
proof -
  let ?ls = "js_split newline content" and ?n = "length (search_lines old)"
  obtain i where i: "s = line_span content ?ls i ?n" "i + ?n \<le> length ?ls"
    "list_all2 same_trimmed (take ?n (drop i ?ls)) (search_lines old)"
    using assms by (auto simp: LineTrimmedReplacer_def Let_def)
  have "take ?n (drop i ?ls) \<in> set (line_blocks (length (take ?n (drop i ?ls))) ?ls)"
    using i(2) by (auto simp: line_blocks_def intro!: image_eqI [of _ _ i])
  then show ?thesis
    using that [OF _ _ i(3)] line_span_block [OF i(2) js_join_split [symmetric]] i(1) by simp
qed

text \<open>A block from the first anchor to the last one.\<close>

definition anchored :: "string \<Rightarrow> string \<Rightarrow> string \<Rightarrow> bool" where
  "anchored content old s \<longleftrightarrow>
     (\<exists>b. s = js_join [newline] b \<and> 3 \<le> length b \<and> b \<in> set (line_blocks (length b) (js_split newline content)) \<and>
          js_trim (hd b) = js_trim (hd (search_lines old)) \<and>
          js_trim (last b) = js_trim (last (search_lines old)))"

lemma candidate_anchored:
  assumes "c \<in> set (anchor_candidates (js_split newline content)
             (js_trim (hd (search_lines old))) (js_trim (last (search_lines old))))"
  shows "anchored content old (js_join [newline] (take (snd c - fst c + 1) (drop (fst c) (js_split newline content))))"
    and "candidate_span content (js_split newline content) c =
         js_join [newline] (take (snd c - fst c + 1) (drop (fst c) (js_split newline content)))"
proof -
  let ?ls = "js_split newline content" and ?n = "snd c - fst c + 1"
  note c = anchor_candidates_mem [OF assms]
  have len: "length (take ?n (drop (fst c) ?ls)) = ?n" using c by simp
  have "hd (take ?n (drop (fst c) ?ls)) = ?ls ! fst c" using c by (simp add: hd_drop_conv_nth)
  moreover have "last (take ?n (drop (fst c) ?ls)) = ?ls ! snd c"
    using c by (subst last_conv_nth) auto
  moreover have "take ?n (drop (fst c) ?ls) \<in> set (line_blocks ?n ?ls)"
    using c by (auto simp: line_blocks_def intro!: image_eqI [of _ _ "fst c"])
  ultimately show "anchored content old (js_join [newline] (take ?n (drop (fst c) ?ls)))"
    unfolding anchored_def using c len by (intro exI [of _ "take ?n (drop (fst c) ?ls)"]) simp
  show "candidate_span content ?ls c = js_join [newline] (take ?n (drop (fst c) ?ls))"
    unfolding candidate_span_def using c by (intro line_span_block(1)) (simp_all add: js_join_split)
qed

lemma anchored_occurs: "anchored content old s \<Longrightarrow> js_includes content s"
  unfolding anchored_def using line_block_occurs by blast

lemma BlockAnchorReplacer_proposal:
  assumes "s \<in> set (BlockAnchorReplacer content old)"
  shows "anchored content old s"
proof -
  let ?ls = "js_split newline content"
  let ?cs = "anchor_candidates ?ls (js_trim (hd (search_lines old))) (js_trim (last (search_lines old)))"
  obtain c where c: "c \<in> set ?cs" "s = candidate_span content ?ls c"
  proof (cases ?cs)
    case Nil
    then show ?thesis using assms by (auto simp: BlockAnchorReplacer_def Let_def split: if_splits)
  next
    case (Cons d ds)
    show ?thesis
    proof (cases ds)
      case Nil
      then show ?thesis using assms Cons that [of d]
        by (auto simp: BlockAnchorReplacer_def Let_def split: if_splits)
    next
      case (Cons e es)
      then have cs: "?cs = d # e # es" using \<open>?cs = d # ds\<close> by simp
      obtain bo mx where best: "best_candidate (candidate_similarity ?ls (search_lines old)) ?cs None (- 1) = (bo, mx)"
        by (cases "best_candidate (candidate_similarity ?ls (search_lines old)) ?cs None (- 1)") blast
      have "s \<in> set (case bo of Some c \<Rightarrow> [candidate_span content ?ls c] | None \<Rightarrow> [])"
        using assms best unfolding BlockAnchorReplacer_def Let_def cs
        by (auto simp del: best_candidate.simps split: if_splits option.splits)
      then obtain c where c: "bo = Some c" "s = candidate_span content ?ls c" by (cases bo) auto
      then have "c \<in> set ?cs" using best best_candidate_mem [of _ ?cs None "- 1" c mx] by simp
      then show ?thesis using that c(2) by blast
    qed
  qed
  then show ?thesis using candidate_anchored [OF c(1)] by simp
qed

lemma ContextAwareReplacer_proposal:
  assumes "s \<in> set (ContextAwareReplacer content old)"
  shows "anchored content old s"
  using assms unfolding ContextAwareReplacer_def Let_def
  by (auto split: if_splits dest: candidate_anchored(1))


section \<open>White space\<close>

lemma trim_end_append:
  "js_trim_end (a @ u) = (if list_all js_space u then js_trim_end a else a @ js_trim_end u)"
  by (auto simp: js_trim_end_def dropWhile_append list_all_iff)

lemma js_trim_is_end: "js_trim s = js_trim_end (dropWhile js_space s)"
  by (simp add: js_trim_def js_trim_end_def)

lemma dropWhile_all: "dropWhile P s = [] \<longleftrightarrow> list_all P s"
  by (auto simp: dropWhile_eq_Nil_conv list_all_iff)

lemma trim_end_blank: "list_all js_space s \<Longrightarrow> js_trim_end s = []"
  by (auto simp: js_trim_end_def list_all_iff)

lemma trim_end_word: "w \<noteq> [] \<Longrightarrow> list_all (\<lambda>c. \<not> js_space c) w \<Longrightarrow> js_trim_end w = w"
  by (cases w rule: rev_cases) (simp_all add: js_trim_end_def)

lemma js_words_blank: "list_all js_space s \<Longrightarrow> js_words s = []"
  by (subst js_words.simps) (simp add: list_all_iff)

lemma js_words_skip: "js_words (dropWhile js_space s) = js_words s"
  by (subst (1 2) js_words.simps) (simp add: dropWhile_idem)

lemma js_words_word:
  assumes "w \<noteq> []" "list_all (\<lambda>c. \<not> js_space c) w" "r = [] \<or> js_space (hd r)"
  shows "js_words (w @ r) = w # js_words r"
proof -
  have d: "dropWhile js_space (w @ r) = w @ r" using assms(1,2) by (cases w) auto
  have "takeWhile (\<lambda>c. \<not> js_space c) r = []" "dropWhile (\<lambda>c. \<not> js_space c) r = r"
    using assms(3) by (cases r; simp)+
  then have "takeWhile (\<lambda>c. \<not> js_space c) (w @ r) = w" "dropWhile (\<lambda>c. \<not> js_space c) (w @ r) = r"
    using assms(2) by (simp_all add: list_all_iff takeWhile_append dropWhile_append)
  then show ?thesis using assms(1) d by (subst js_words.simps) simp
qed

text \<open>A text is blanks, or its first word and what follows it.\<close>

lemma words_cases:
  obtains (blank) "list_all js_space s"
  | (word) sp w r where "s = sp @ w @ r" "list_all js_space sp" "w \<noteq> []"
      "list_all (\<lambda>c. \<not> js_space c) w" "r = [] \<or> js_space (hd r)" "length r < length s"
proof (cases "list_all js_space s")
  case False
  let ?t = "dropWhile js_space s"
  let ?w = "takeWhile (\<lambda>c. \<not> js_space c) ?t" and ?r = "dropWhile (\<lambda>c. \<not> js_space c) ?t"
  have t: "?t \<noteq> []" using False by (auto simp: list_all_iff)
  then have "\<not> js_space (hd ?t)" by (rule hd_dropWhile)
  then have w: "?w \<noteq> []" using t by (cases ?t) auto
  have s: "s = takeWhile js_space s @ ?w @ ?r" by simp
  have "length ?r < length s" using w by (subst (2) s) (simp del: takeWhile_dropWhile_id)
  moreover have "?r = [] \<or> js_space (hd ?r)" using hd_dropWhile [of "\<lambda>c. \<not> js_space c" ?t] by blast
  ultimately show ?thesis
    using s w by (intro word [of "takeWhile js_space s" ?w ?r]) (auto simp: list_all_iff dest: set_takeWhileD)
qed (rule blank)

lemma space_space: "js_space (CHR '' '')"
  by (simp add: js_space_def)

lemma collapse_word: "list_all (\<lambda>c. \<not> js_space c) w \<Longrightarrow> js_collapse (w @ r) = w @ js_collapse r"
  by (induction w) auto

lemma collapse_blank: "list_all js_space s \<Longrightarrow> list_all js_space (js_collapse s)"
  by (cases s) (auto simp: list_all_iff space_space dropWhile_eq_Nil_conv [THEN iffD2])

lemma collapse_solid: "x = [] \<or> \<not> js_space (hd x) \<Longrightarrow> dropWhile js_space (js_collapse x) = js_collapse x"
  by (cases x) auto

lemma dropWhile_collapse: "dropWhile js_space (js_collapse s) = js_collapse (dropWhile js_space s)"
proof (cases s)
  case (Cons c t)
  show ?thesis
  proof (cases "js_space c")
    case True
    have "dropWhile js_space (js_collapse (dropWhile js_space t)) = js_collapse (dropWhile js_space t)"
      using collapse_solid hd_dropWhile by blast
    then show ?thesis using Cons True by (simp add: space_space)
  qed (use Cons in simp)
qed simp

lemma normalize_skip: "normalizeWhitespace (dropWhile js_space s) = normalizeWhitespace s"
  by (simp add: normalizeWhitespace_def js_trim_is_end dropWhile_collapse dropWhile_idem)

text \<open>Normalising gives the words, one blank between two of them.\<close>

lemma normalize_words: "normalizeWhitespace s = js_join '' '' (js_words s)"
proof (induction "length s" arbitrary: s rule: less_induct)
  case less
  show ?case
  proof (cases s rule: words_cases)
    case blank
    then have "dropWhile js_space (js_collapse s) = []" using collapse_blank dropWhile_all by blast
    then have "js_trim (js_collapse s) = []" unfolding js_trim_is_end by (simp only: js_trim_end_def) simp
    then show ?thesis using blank by (simp add: normalizeWhitespace_def js_words_blank)
  next
    case (word sp w r)
    then have d: "dropWhile js_space s = w @ r" by (cases w) (auto simp: dropWhile_append list_all_iff)
    then have words: "js_words s = w # js_words r"
      using word js_words_word js_words_skip [of s] by simp
    have "dropWhile js_space (w @ js_collapse r) = w @ js_collapse r" using word by (cases w) auto
    then have n: "normalizeWhitespace s = js_trim_end (w @ js_collapse r)"
      using d normalize_skip [of s] word by (simp add: normalizeWhitespace_def js_trim_is_end collapse_word)
    show ?thesis
    proof (cases "list_all js_space r")
      case True
      then show ?thesis using word n words by (simp add: trim_end_append collapse_blank trim_end_word js_words_blank)
    next
      case False
      then obtain c t where r: "r = c # t" "js_space c" using word by (cases r) auto
      obtain sp' w' r' where r': "r = sp' @ w' @ r'" "w' \<noteq> []" "list_all js_space sp'"
        "list_all (\<lambda>c. \<not> js_space c) w'" "r' = [] \<or> js_space (hd r')"
        using False by (cases r rule: words_cases) auto
      have t: "dropWhile js_space r = w' @ r'" using r' by (cases w') (auto simp: dropWhile_append list_all_iff)
      have "js_words r = w' # js_words r'"
        using js_words_skip [of r] t js_words_word r' by simp
      moreover have "normalizeWhitespace r = js_trim_end (js_collapse (dropWhile js_space r))"
        by (simp add: normalizeWhitespace_def js_trim_is_end dropWhile_collapse)
      moreover have "js_collapse r = CHR '' '' # js_collapse (dropWhile js_space r)" using r by simp
      moreover have "\<not> list_all js_space (js_collapse (dropWhile js_space r))"
        unfolding t collapse_word [OF r'(4)] using r'(2,4) by (cases w') auto
      moreover have "normalizeWhitespace r = js_join '' '' (js_words r)" using less word by simp
      ultimately show ?thesis
        using n words trim_end_append [of "w @ '' ''" "js_collapse (dropWhile js_space r)"] by simp
    qed
  qed
qed

lemma js_words_end: "list_all js_space u \<Longrightarrow> js_words (s @ u) = js_words s"
proof (induction "length s" arbitrary: s rule: less_induct)
  case less
  show ?case
  proof (cases s rule: words_cases)
    case blank
    then show ?thesis using less.prems by (simp add: js_words_blank)
  next
    case (word sp w r)
    then have d: "dropWhile js_space (s @ u) = w @ r @ u" "dropWhile js_space s = w @ r"
      by (cases w; auto simp: dropWhile_append list_all_iff)+
    have "r @ u = [] \<or> js_space (hd (r @ u))" using word less.prems by (cases r; cases u) auto
    then have "js_words (w @ r @ u) = w # js_words (r @ u)" using word js_words_word by blast
    moreover have "js_words (w @ r) = w # js_words r" using word js_words_word by blast
    ultimately show ?thesis
      using less word d js_words_skip [of "s @ u"] js_words_skip [of s] by simp
  qed
qed

lemma js_words_trim: "js_words (js_trim s) = js_words s"
proof -
  have "dropWhile js_space s = js_trim s @ rev (takeWhile js_space (rev (dropWhile js_space s)))"
    unfolding js_trim_def by (metis rev_append rev_rev_ident takeWhile_dropWhile_id)
  moreover have "list_all js_space (rev (takeWhile js_space (rev (dropWhile js_space s))))"
    by (auto simp: list_all_iff dest: set_takeWhileD)
  ultimately show ?thesis using js_words_end js_words_skip by metis
qed

text \<open>A match of the words consists of these words.\<close>

lemma words_solid: "w \<in> set (js_words s) \<Longrightarrow> w \<noteq> [] \<and> list_all (\<lambda>c. \<not> js_space c) w"
proof (induction "length s" arbitrary: s rule: less_induct)
  case less
  show ?case
  proof (cases s rule: words_cases)
    case blank
    then show ?thesis using less.prems by (simp add: js_words_blank)
  next
    case (word sp w' r)
    then have "dropWhile js_space s = w' @ r" by (cases w') (auto simp: dropWhile_append list_all_iff)
    then have "js_words s = w' # js_words r" using word js_words_word js_words_skip [of s] by simp
    then have "w = w' \<or> w \<in> set (js_words r)" using less.prems by simp
    then show ?thesis using less.hyps [OF word(6)] word(3,4) by blast
  qed
qed

lemma js_words_lead: "list_all js_space sp \<Longrightarrow> js_words (sp @ u) = js_words u"
  using js_words_skip [of "sp @ u"] js_words_skip [of u] by (simp add: dropWhile_append list_all_iff)

lemma js_includes_Cons: "js_includes s m \<Longrightarrow> js_includes (c # s) m"
  by simp

lemma match_words_take:
  assumes "match_words ws s = Some k" and "\<forall>w \<in> set ws. w \<noteq> [] \<and> list_all (\<lambda>c. \<not> js_space c) w"
  shows "js_words (take k s) = ws"
  using assms
proof (induction ws s arbitrary: k rule: match_words.induct)
  case (1 s)
  then show ?case by (simp add: js_words_blank)
next
  case (2 w s)
  then have "take k s = w @ []" by (auto simp: js_starts_with_def split: if_splits)
  then show ?case using 2 js_words_word [of w "[]"] by (simp add: js_words_blank)
next
  case (3 w v ws s)
  let ?r = "drop (length w) s"
  let ?n = "length (takeWhile js_space ?r)"
  obtain j where j: "match_words (v # ws) (drop ?n ?r) = Some j" "k = length w + ?n + j"
    and n: "?n \<noteq> 0" and st: "js_starts_with s w"
    using 3 by (auto simp: Let_def split: if_splits)
  have s: "s = w @ takeWhile js_space ?r @ drop ?n ?r"
    using st unfolding js_starts_with_def
    by (metis append_take_drop_id dropWhile_eq_drop takeWhile_dropWhile_id)
  have "take k s = w @ takeWhile js_space ?r @ take j (drop ?n ?r)"
    unfolding j(2) by (subst s) simp
  moreover have hd: "js_space (hd (takeWhile js_space ?r @ take j (drop ?n ?r)))"
    using n by (cases ?r) (auto split: if_splits)
  moreover have "js_words (takeWhile js_space ?r @ take j (drop ?n ?r)) = js_words (take j (drop ?n ?r))"
    by (rule js_words_lead) (auto simp: list_all_iff dest: set_takeWhileD)
  moreover have "js_words (take j (drop ?n ?r)) = v # ws"
    using 3(1) [OF st refl refl n j(1)] 3(3) by auto
  ultimately show ?case using 3(3) js_words_word [of w "takeWhile js_space ?r @ take j (drop ?n ?r)"] by simp
qed

lemma search_words_part:
  assumes "search_words ws s = Some m"
  shows "js_includes s m \<and> (\<exists>k t. match_words ws t = Some k \<and> m = take k t)"
  using assms
proof (induction ws s rule: search_words.induct)
  case (1 ws)
  then show ?case by (auto split: option.splits intro: exI [of _ "[]"])
next
  case (2 ws c s)
  show ?case
  proof (cases "match_words ws (c # s)")
    case None
    then have "search_words ws s = Some m" using 2 by simp
    then show ?thesis using 2(1) [OF None] js_includes_Cons by blast
  next
    case (Some k)
    then have "m = take k (c # s)" using 2 by simp
    moreover have "js_includes (c # s) (take k (c # s))"
      unfolding js_includes_iff by (intro exI [of _ "[]"] exI [of _ "drop k (c # s)"]) simp
    ultimately show ?thesis using Some by blast
  qed
qed

lemma white_line_proposal:
  assumes "s \<in> set (white_line old line)"
  shows "js_includes line s \<and> normalizeWhitespace s = normalizeWhitespace old"
proof (cases "normalizeWhitespace line = normalizeWhitespace old")
  case True
  then have "s = line" using assms by (simp add: white_line_def)
  then show ?thesis using True js_includes_self [of "[]" line "[]"] by simp
next
  case False
  then have m: "search_words (find_words old) line = Some s"
    using assms False unfolding white_line_def
    by (cases "search_words (find_words old) line"; cases "js_includes (normalizeWhitespace line) (normalizeWhitespace old)")
      simp_all
  from search_words_part [OF m] obtain k t where
    k: "match_words (find_words old) t = Some k" "s = take k t" and inc: "js_includes line s" by blast
  have "js_words s = js_words old"
  proof (cases "js_trim old = []")
    case True
    then have "js_words old = []" using js_words_trim [of old] js_words_blank [of "[]"] by simp
    moreover have "s = []" using True k by (simp add: find_words_def split: if_splits)
    ultimately show ?thesis by (simp add: js_words_blank)
  next
    case False
    then show ?thesis using k match_words_take [OF k(1)] words_solid
      by (auto simp: find_words_def js_words_trim)
  qed
  then show ?thesis using inc by (simp add: normalize_words)
qed

lemma line_occurs: "l \<in> set (js_split newline content) \<Longrightarrow> js_includes content l"
proof -
  assume "l \<in> set (js_split newline content)"
  then obtain i where i: "i < length (js_split newline content)" "js_split newline content ! i = l"
    by (auto simp: in_set_conv_nth)
  then have "take 1 (drop i (js_split newline content)) = [l]" by (simp add: take_Suc hd_drop_conv_nth)
  then show ?thesis
    using i line_span_block(2) [of i 1 "js_split newline content" content] by (simp add: js_join_split)
qed

lemma js_includes_trans: "js_includes a b \<Longrightarrow> js_includes b c \<Longrightarrow> js_includes a c"
  unfolding js_includes_iff by (metis append.assoc)

lemma WhitespaceNormalizedReplacer_proposal:
  assumes "s \<in> set (WhitespaceNormalizedReplacer content old)"
  shows "js_includes content s \<and> normalizeWhitespace s = normalizeWhitespace old"
proof -
  consider (line) l where "l \<in> set (js_split newline content)" "s \<in> set (white_line old l)"
    | (block) b where "b \<in> set (line_blocks (length (js_split newline old)) (js_split newline content))"
        "s = js_join [newline] b" "normalizeWhitespace s = normalizeWhitespace old"
    using assms unfolding WhitespaceNormalizedReplacer_def Let_def by (auto split: if_splits)
  then show ?thesis
  proof cases
    case line
    then show ?thesis using white_line_proposal line_occurs js_includes_trans by blast
  next
    case block
    then show ?thesis using line_block_occurs by blast
  qed
qed

end
