(* ===== verification/Edit_Tool.thy ===== *)
theory Edit_Tool
  imports Edit_Replace
begin

text \<open>
  The contract of \<open>replace\<close> (tool/edit.ts): one region changes, and it stands for the searched text;
  an exact and unique match wins; the errors; termination; and replacing all occurrences.
\<close>

section \<open>What may be replaced\<close>

definition stands_for :: "string \<Rightarrow> string \<Rightarrow> string \<Rightarrow> bool" where
  "stands_for content old s \<longleftrightarrow>
     s = old \<or>
     (\<exists>b. s = js_join [newline] b \<and> list_all2 same_trimmed b (search_lines old)) \<or>
     anchored content old s \<or>
     normalizeWhitespace s = normalizeWhitespace old \<or>
     removeIndentation s = removeIndentation old \<or>
     unescapeString s = unescapeString old \<or> s = unescapeString old \<or>
     js_trim s = js_trim old"

text \<open>The replacers between the first and the last one.\<close>

definition loose_proposals :: "string \<Rightarrow> string \<Rightarrow> string list" where
  "loose_proposals content old =
     LineTrimmedReplacer content old @ BlockAnchorReplacer content old @
     WhitespaceNormalizedReplacer content old @ IndentationFlexibleReplacer content old @
     EscapeNormalizedReplacer content old @ TrimmedBoundaryReplacer content old @
     ContextAwareReplacer content old"

lemma js_trim_trim: "js_trim (js_trim s) = js_trim s"
proof -
  let ?t = "dropWhile js_space s"
  have "js_trim s = [] \<or> \<not> js_space (hd (js_trim s))"
  proof (cases "js_trim s")
    case (Cons c r)
    obtain u where u: "?t = js_trim s @ u"
      unfolding js_trim_def by (metis rev_append rev_rev_ident takeWhile_dropWhile_id)
    then have "?t \<noteq> []" "hd ?t = c" using Cons by auto
    then show ?thesis using Cons hd_dropWhile [of js_space s] by auto
  qed simp
  then have "dropWhile js_space (js_trim s) = js_trim s" by (cases "js_trim s") auto
  then show ?thesis by (subst js_trim_def) (simp add: js_trim_def dropWhile_idem)
qed

lemma loose_proposal:
  assumes "s \<in> set (loose_proposals content old)"
  shows "js_includes content s \<and> stands_for content old s"
proof -
  consider (l) "s \<in> set (LineTrimmedReplacer content old)" | (b) "s \<in> set (BlockAnchorReplacer content old)"
    | (w) "s \<in> set (WhitespaceNormalizedReplacer content old)"
    | (i) "s \<in> set (IndentationFlexibleReplacer content old)"
    | (e) "s \<in> set (EscapeNormalizedReplacer content old)"
    | (t) "s \<in> set (TrimmedBoundaryReplacer content old)" | (c) "s \<in> set (ContextAwareReplacer content old)"
    using assms unfolding loose_proposals_def by auto
  then show ?thesis
  proof cases
    case l
    then show ?thesis by (rule LineTrimmedReplacer_proposal) (auto simp: stands_for_def)
  next
    case b
    then show ?thesis using BlockAnchorReplacer_proposal anchored_occurs unfolding stands_for_def by blast
  next
    case w
    then show ?thesis using WhitespaceNormalizedReplacer_proposal unfolding stands_for_def by blast
  next
    case i
    then show ?thesis using matching_block_occurs unfolding stands_for_def IndentationFlexibleReplacer_def by blast
  next
    case e
    then show ?thesis using matching_block_occurs unfolding stands_for_def EscapeNormalizedReplacer_def Let_def
      by (auto split: if_splits)
  next
    case t
    then show ?thesis
      using matching_block_occurs js_trim_trim unfolding stands_for_def TrimmedBoundaryReplacer_def
      by (auto split: if_splits)
  next
    case c
    then show ?thesis using ContextAwareReplacer_proposal anchored_occurs unfolding stands_for_def by blast
  qed
qed

section \<open>The last replacer\<close>

lemma js_find_from_Some:
  assumes "js_find_from p s k = Some i"
  shows "k \<le> i" "i + length p \<le> length s \<or> p = []"
proof -
  obtain j where j: "js_find p (drop k s) = Some j" "i = k + j"
    using assms by (auto simp: js_find_from_def)
  then have "j + length p \<le> length (drop k s)" using occurs_at_bound js_find_Some by blast
  then show "k \<le> i" "i + length p \<le> length s \<or> p = []" using j by (cases p; auto)+
qed

lemma occurrences_end:
  assumes "p \<noteq> []"
  shows "\<exists>n. occurrences s p k = Some (replicate n p) \<and> (n \<noteq> 0 \<longleftrightarrow> js_find_from p s k \<noteq> None)"
proof (induction "length s - k" arbitrary: k rule: less_induct)
  case less
  show ?case
  proof (cases "js_find_from p s k")
    case None
    then show ?thesis by (intro exI [of _ 0]) (subst occurrences.simps, simp)
  next
    case (Some i)
    then have i: "k \<le> i" "i + length p \<le> length s" using js_find_from_Some assms by blast+
    then have "length s - (i + length p) < length s - k" using assms by (cases p) auto
    from less [OF this] obtain n where "occurrences s p (i + length p) = Some (replicate n p)" by blast
    then show ?thesis using Some by (intro exI [of _ "Suc n"]) (subst occurrences.simps, simp)
  qed
qed

lemma MultiOccurrenceReplacer_spec:
  assumes "p \<noteq> []"
  obtains ss where "MultiOccurrenceReplacer s p = Some ss" "set ss \<subseteq> {p}" "ss \<noteq> [] \<longleftrightarrow> js_includes s p"
proof -
  obtain n where n: "occurrences s p 0 = Some (replicate n p)" "n \<noteq> 0 \<longleftrightarrow> js_find_from p s 0 \<noteq> None"
    using occurrences_end [OF assms, of s 0] by blast
  have "js_find_from p s 0 = None \<longleftrightarrow> \<not> js_includes s p"
    by (simp add: js_find_from_def js_find_None js_includes_occurs)
  then show ?thesis using n by (intro that [of "replicate n p"]) (auto simp: MultiOccurrenceReplacer_def)
qed

lemma occurrences_empty: "occurrences s [] 0 = None"
proof -
  have "occurrences s p k = Some r \<Longrightarrow> p \<noteq> []" for p k r
    by (erule occurrences.raw_induct [rotated])
      (auto simp: js_find_from_def js_find_None occurs_at_def split: option.splits bind_splits)
  then show ?thesis by (cases "occurrences s [] 0") auto
qed

section \<open>The whole search as one list of proposals\<close>

lemma try_searches_append:
  "try_searches content new all nf (xs @ ys) =
   (case try_searches content new all nf xs of
      Inr t \<Rightarrow> Inr t | Inl nf' \<Rightarrow> try_searches content new all nf' ys)"
  by (induction content new all nf xs rule: try_searches.induct) (auto split: option.splits)

lemma try_searches_Inl:
  assumes "try_searches content new all nf ss = Inl nf'"
  shows "nf' \<longleftrightarrow> nf \<and> \<not> list_ex (js_includes content) ss"
  using assms
  by (induction content new all nf ss rule: try_searches.induct)
    (auto simp: js_includes_occurs js_find_None js_find_Some split: option.splits if_splits)

definition occurs_once :: "string \<Rightarrow> string \<Rightarrow> bool" where
  "occurs_once content s \<longleftrightarrow> (\<exists>k. occurs_at s content k \<and> (\<forall>j. occurs_at s content j \<longrightarrow> j = k))"

lemma occurs_once_find: "occurs_once content s \<longleftrightarrow> js_find s content \<noteq> None \<and> js_find s content = js_find_last s content"
proof (cases "js_find s content")
  case None
  then show ?thesis by (auto simp: occurs_once_def js_find_None)
next
  case (Some k)
  have "occurs_once content s \<longleftrightarrow> (\<exists>k. js_find s content = Some k \<and> js_find_last s content = Some k)"
    unfolding occurs_once_def unique_occurrence ..
  then show ?thesis using Some by auto
qed

lemma try_one_Inr:
  assumes "try_searches content new False nf ss = Inr r"
  obtains pre s post where "s \<in> set ss" "content = pre @ s @ post" "r = pre @ new @ post" "occurs_once content s"
  using assms
proof (induction content new False nf ss rule: try_searches.induct)
  case (2 content new nf s ss)
  show ?case
  proof (cases "js_find s content")
    case None
    then show ?thesis using 2 by auto
  next
    case (Some k)
    show ?thesis
    proof (cases "js_find_last s content = Some k")
      case False
      then show ?thesis using 2 Some by auto
    next
      case True
      then have o: "occurs_at s content k" "occurs_once content s"
        using Some by (auto simp: js_find_Some occurs_once_find)
      then have "content = take k content @ s @ drop (k + length s) content"
        unfolding occurs_at_def by (metis add.commute append_take_drop_id drop_drop)
      then show ?thesis using 2(3) [of s "take k content" "drop (k + length s) content"] 2(4) Some True o by simp
    qed
  qed
qed simp

lemma try_all:
  "try_searches content new True nf ss =
   (case List.find (js_includes content) ss of
      Some s \<Rightarrow> Inr (js_replaceAll content s new) | None \<Rightarrow> Inl nf)"
  by (induction ss) (auto simp: js_includes_occurs js_find_None js_find_Some split: option.splits)

lemma try_one_Inl:
  "(\<exists>nf'. try_searches content new False nf ss = Inl nf') \<longleftrightarrow> \<not> list_ex (occurs_once content) ss"
  by (induction ss arbitrary: nf) (auto simp: occurs_once_find split: option.splits)

lemma try_repeated:
  "\<not> all \<and> \<not> occurs_once content old \<Longrightarrow> js_includes content old \<Longrightarrow> set ss \<subseteq> {old} \<Longrightarrow>
   try_searches content new all nf ss = Inl (nf \<and> ss = [])"
  by (induction ss arbitrary: nf)
    (auto simp: occurs_once_find js_find_None js_includes_occurs split: option.splits)

text \<open>The replacers one after the other.\<close>

lemma replace_text_eq:
  "replace_text content old new all =
   (if old = new then Some (Inl No_changes)
    else case try_searches content new all True (old # loose_proposals content old) of
      Inr t \<Rightarrow> Some (Inr t)
    | Inl nf \<Rightarrow> if old = [] then None else Some (Inl (if nf then Not_found else Multiple_matches)))"
proof -
  let ?ts = "try_searches content new all"
  have chain: "old # loose_proposals content old =
      SimpleReplacer content old @ LineTrimmedReplacer content old @ BlockAnchorReplacer content old @
      WhitespaceNormalizedReplacer content old @ IndentationFlexibleReplacer content old @
      EscapeNormalizedReplacer content old @ TrimmedBoundaryReplacer content old @
      ContextAwareReplacer content old"
    by (simp add: loose_proposals_def SimpleReplacer_def)
  have r: "replace_text content old new all =
    (if old = new then Some (Inl No_changes)
     else case ?ts True (old # loose_proposals content old) of
       Inr t \<Rightarrow> Some (Inr t)
     | Inl nf \<Rightarrow> try_replacers content old new all nf [MultiOccurrenceReplacer])"
    unfolding replace_text_def replacers_def chain try_searches_append
    by (simp split: sum.split)
  show ?thesis
  proof (cases "?ts True (old # loose_proposals content old)")
    case (Inr t)
    then show ?thesis using r by simp
  next
    case (Inl nf)
    have last: "try_replacers content old new all nf [MultiOccurrenceReplacer] =
        (if old = [] then None else Some (Inl (if nf then Not_found else Multiple_matches)))"
    proof (cases "old = []")
      case True
      then show ?thesis by (simp add: MultiOccurrenceReplacer_def occurrences_empty)
    next
      case False
      obtain ss where ss: "MultiOccurrenceReplacer content old = Some ss" "set ss \<subseteq> {old}"
        "ss \<noteq> [] \<longleftrightarrow> js_includes content old"
        by (rule MultiOccurrenceReplacer_spec [OF False])
      have fails: "?ts nf ss = Inl (nf \<and> ss = [])"
      proof (cases "js_includes content old")
        case True
        then have "\<not> all \<and> \<not> occurs_once content old"
          using Inl by (auto simp: occurs_once_find js_find_None js_includes_occurs split: option.splits if_splits)
        then show ?thesis using try_repeated True ss(2) by blast
      qed (use ss in simp)
      have nf: "nf \<longrightarrow> \<not> js_includes content old" using try_searches_Inl [OF Inl] by simp
      show ?thesis using ss fails nf False by (cases nf) auto
    qed
    then show ?thesis using r Inl by simp
  qed
qed

end
