(* ===== verification/Edit_Properties.thy ===== *)
theory Edit_Properties
  imports Edit_Tool
begin

text \<open>
  The properties of the edit tool (tool/edit.ts).
\<close>

section \<open>One region changes\<close>

text \<open>
  C2 (safety): An edit that is not for all occurrences changes one region of the file: it occurs once there,
  and it is the searched text, or stands for it up to trimmed lines, anchors, white space,
  indentation or escapes.
\<close>

theorem edit_changes_one_region:
  assumes "replace_text content old new False = Some (Inr r)"
  shows "\<exists>pre s post. content = pre @ s @ post \<and> r = pre @ new @ post \<and>
           occurs_once content s \<and> stands_for content old s \<and> old \<noteq> new"
proof -
  have t: "try_searches content new False True (old # loose_proposals content old) = Inr r" and "old \<noteq> new"
    using assms by (auto simp: replace_text_eq split: if_splits sum.splits)
  obtain pre s post where s: "s \<in> set (old # loose_proposals content old)" "content = pre @ s @ post"
      "r = pre @ new @ post" "occurs_once content s"
    by (rule try_one_Inr [OF t])
  have "stands_for content old s" using s(1) loose_proposal by (auto simp: stands_for_def)
  then show ?thesis using s \<open>old \<noteq> new\<close> by blast
qed

theorem edit_changes_one_region_witness:
  "\<exists>pre s post. ''f( a )'' = pre @ s @ post \<and> ''g'' = pre @ ''g'' @ post \<and>
     occurs_once ''f( a )'' s \<and> stands_for ''f( a )'' ''f( a ) '' s \<and> ''f( a ) '' \<noteq> ''g''"
  by (rule edit_changes_one_region [of "''f( a )''" "''f( a ) ''" "''g''" "''g''"]) code_simp

text \<open>
  A searched text that occurs exactly once is the region that changes, whatever the other
  replacers would propose.
\<close>

theorem edit_exact_match:
  assumes "content = pre @ old @ post" and "occurs_once content old" and "old \<noteq> new"
  shows "replace_text content old new all = Some (Inr (if all then js_replaceAll content old new else pre @ new @ post))"
proof -
  obtain k where k: "js_find old content = Some k" "js_find_last old content = Some k" "occurs_at old content k"
    using assms(2) unfolding occurs_once_def unique_occurrence [symmetric] by (auto simp: js_find_Some)
  moreover have "occurs_at old content (length pre)" unfolding assms(1) by (auto simp: occurs_at_split)
  ultimately have "k = length pre" using js_find_last_Some js_find_Some by (metis le_antisym not_le)
  then show ?thesis using k assms(1,3) by (simp add: replace_text_eq)
qed

theorem edit_exact_match_witness:
  "replace_text ''  x = 1;'' ''x = 1'' ''x = 2'' False = Some (Inr ''  x = 2;'')"
proof -
  have "occurs_once ''  x = 1;'' ''x = 1''" unfolding occurs_once_find by code_simp
  then show ?thesis using edit_exact_match [of "''  x = 1;''" "''  ''" "''x = 1''" "'';''" "''x = 2''" False] by simp
qed

section \<open>Errors\<close>

text \<open>
  C29 (error): The errors: no change asked for; nothing found, exactly when the text does not occur and no
  replacer proposes anything; several matches, exactly when something is found but nothing that
  is found occurs once.
\<close>

theorem edit_errors:
  "(replace_text content old new all = Some (Inl No_changes) \<longleftrightarrow> old = new) \<and>
   (replace_text content old new all = Some (Inl Not_found) \<longleftrightarrow>
      old \<noteq> new \<and> \<not> js_includes content old \<and> loose_proposals content old = []) \<and>
   (replace_text content old new all = Some (Inl Multiple_matches) \<longleftrightarrow>
      old \<noteq> new \<and> old \<noteq> [] \<and> \<not> all \<and> list_ex (js_includes content) (old # loose_proposals content old) \<and>
      \<not> list_ex (occurs_once content) (old # loose_proposals content old))"
proof -
  let ?ss = "old # loose_proposals content old"
  have some: "list_ex (js_includes content) ?ss \<longleftrightarrow> js_includes content old \<or> loose_proposals content old \<noteq> []"
  proof (cases "loose_proposals content old")
    case (Cons a as)
    then have "js_includes content a" using loose_proposal [of a content old] by simp
    then show ?thesis using Cons by simp
  qed simp
  have empty: "js_includes content []" by (cases content) auto
  show ?thesis
  proof (cases "try_searches content new all True ?ss")
    case (Inr t)
    have "list_ex (js_includes content) ?ss \<and> (all \<or> list_ex (occurs_once content) ?ss)"
    proof (cases all)
      case True
      then have "try_searches content new True True ?ss = Inr t" using Inr by simp
      then have "List.find (js_includes content) ?ss \<noteq> None" unfolding try_all by (auto split: option.splits)
      then show ?thesis using True unfolding find_None_iff list_ex_iff by blast
    next
      case False
      then have "list_ex (occurs_once content) ?ss" using Inr try_one_Inl [of content new True ?ss] by auto
      then show ?thesis
        by (auto simp: list_ex_iff occurs_once_def js_includes_occurs)
    qed
    then show ?thesis using Inr some by (auto simp: replace_text_eq)
  next
    case (Inl nf)
    have nf: "nf \<longleftrightarrow> \<not> list_ex (js_includes content) ?ss" using try_searches_Inl [OF Inl] by simp
    have once: "\<not> all \<longrightarrow> \<not> list_ex (occurs_once content) ?ss"
      using Inl try_one_Inl [of content new True ?ss] by (cases all) (simp_all del: try_searches.simps)
    have all: "all \<longrightarrow> nf"
    proof
      assume all
      then have "try_searches content new True True ?ss = Inl nf" using Inl by simp
      then show nf unfolding try_all by (auto split: option.splits)
    qed
    show ?thesis using Inl nf once all some empty by (auto simp: replace_text_eq)
  qed
qed

section \<open>Termination\<close>


section \<open>Replacing all occurrences\<close>

lemma replace_all_found:
  assumes "js_includes content old" and "old \<noteq> new"
  shows "replace_text content old new True = Some (Inr (js_replaceAll content old new))"
proof -
  have "try_searches content new True True (old # ss) = Inr (js_replaceAll content old new)" for ss
    unfolding try_all using assms(1) by simp
  then show ?thesis using assms(2) by (simp only: replace_text_eq) simp
qed

lemma includes_start: "js_includes (c # w) p \<longleftrightarrow> js_starts_with (c # w) p \<or> js_includes w p"
  by (simp add: js_starts_with_def)

lemma replace_from_parts:
  assumes "p \<noteq> []" and "CHR ''$'' \<notin> set new"
  shows "\<exists>parts. parts \<noteq> [] \<and> s = js_join p parts \<and> replace_from p new pre s = js_join new parts \<and>
           \<not> list_ex (\<lambda>w. js_includes w p) parts"
  using assms
proof (induction p new pre s rule: replace_from.induct)
  case (1 p new pre s)
  show ?case
  proof (cases "js_starts_with s p")
    case True
    then have s: "s = p @ drop (length p) s"
      unfolding js_starts_with_def by (metis append_take_drop_id)
    obtain parts where parts: "parts \<noteq> []" "drop (length p) s = js_join p parts"
      "replace_from p new (pre @ p) (drop (length p) s) = js_join new parts"
      "\<not> list_ex (\<lambda>w. js_includes w p) parts"
      using 1(2) 1(4,5) True by blast
    have "replace_from p new pre s = js_join new ([] # parts)"
      using parts 1(4,5) True by (subst replace_from.simps) (simp add: js_expand_plain js_join_cons)
    moreover have "s = js_join p ([] # parts)" using s parts by (simp add: js_join_cons)
    ultimately show ?thesis using parts 1(4) by (intro exI [of _ "[] # parts"]) simp
  next
    case False
    show ?thesis
    proof (cases s)
      case Nil
      then show ?thesis using 1(4) False by (intro exI [of _ "[[]]"]) (subst replace_from.simps, simp)
    next
      case (Cons c t)
      obtain w ws where parts: "t = js_join p (w # ws)"
        "replace_from p new (pre @ [c]) t = js_join new (w # ws)" "\<not> list_ex (\<lambda>w. js_includes w p) (w # ws)"
        using 1(3) [OF 1(4) False Cons 1(4,5)] by (metis neq_Nil_conv)
      have r: "replace_from p new pre s = js_join new ((c # w) # ws)"
        using parts 1(4) False Cons by (subst replace_from.simps) (cases ws; simp)
      have s: "s = js_join p ((c # w) # ws)" using parts Cons by (cases ws) simp_all
      have "\<not> js_starts_with (c # w) p"
      proof
        assume "js_starts_with (c # w) p"
        moreover obtain u where "s = (c # w) @ u" using s by (cases ws) auto
        ultimately have "js_starts_with s p"
          unfolding js_starts_with_def by (metis append_eq_conv_conj take_add take_append take_take
              append_take_drop_id length_take min.absorb2 nat_le_linear take_all)
        then show False using False by blast
      qed
      then have "\<not> list_ex (\<lambda>w. js_includes w p) ((c # w) # ws)" using parts(3) by (simp add: js_starts_with_def)
      then show ?thesis using r s by blast
    qed
  qed
qed

text \<open>
  Replacing all occurrences by a text without dollar signs: the content is cut into parts in which
  the searched text does not occur, and these are joined by the new text.
\<close>

theorem edit_replaces_all:
  assumes "old \<noteq> []" and "js_includes content old" and "old \<noteq> new" and "CHR ''$'' \<notin> set new"
  shows "\<exists>parts. content = js_join old parts \<and> replace_text content old new True = Some (Inr (js_join new parts)) \<and>
           \<not> list_ex (\<lambda>w. js_includes w old) parts"
proof -
  obtain parts where "content = js_join old parts" "js_replaceAll content old new = js_join new parts"
    "\<not> list_ex (\<lambda>w. js_includes w old) parts"
    using replace_from_parts [OF assms(1,4)] unfolding js_replaceAll_def by blast
  then show ?thesis using replace_all_found [OF assms(2,3)] by auto
qed

theorem edit_replaces_all_witness:
  "\<exists>parts. ''a.b.c'' = js_join ''.'' parts \<and>
     replace_text ''a.b.c'' ''.'' ''->'' True = Some (Inr (js_join ''->'' parts)) \<and>
     \<not> list_ex (\<lambda>w. js_includes w ''.'') parts"
  by (rule edit_replaces_all) (simp_all add: js_includes.simps)

lemma replace_from_ampersand: "replace_from p ''$&'' pre s = s"
proof (induction p "''$&''" pre s rule: replace_from.induct)
  case (1 p pre s)
  show ?case
  proof (cases "p = []")
    case True
    then show ?thesis using 1(1) by (subst replace_from.simps) (cases s; simp)
  next
    case False
    have "js_starts_with s p \<Longrightarrow> p @ drop (length p) s = s"
      unfolding js_starts_with_def by (metis append_take_drop_id)
    then show ?thesis using 1(2,3) False by (subst replace_from.simps) (auto split: list.split)
  qed
qed

text \<open>
  The new text of a replacement of all occurrences is a template: a dollar with an ampersand in it
  stands for the searched text, and two dollars for one. So replacing by the text made of the two
  characters of the former changes nothing, and replacing by two dollars writes one.
\<close>

theorem edit_all_reads_dollars:
  assumes "js_includes content old" and "old \<noteq> ''$&''" and "old \<noteq> ''$$''" and "old \<noteq> ''$''"
  shows "replace_text content old ''$&'' True = Some (Inr content) \<and>
         replace_text content old ''$$'' True = replace_text content old ''$'' True"
proof -
  have "replace_from old ''$$'' pre s = replace_from old ''$'' pre s" for pre s
  proof (induction old "''$''" pre s rule: replace_from.induct)
    case (1 p pre s)
    then show ?case by (subst (1 2) replace_from.simps) (auto split: list.split)
  qed
  then show ?thesis using assms by (simp add: replace_all_found js_replaceAll_def replace_from_ampersand)
qed

theorem edit_all_reads_dollars_witness:
  "replace_text ''cost = a'' ''a'' ''$&'' True = Some (Inr ''cost = a'') \<and>
   replace_text ''cost = a'' ''a'' ''$$'' True = replace_text ''cost = a'' ''a'' ''$'' True"
  by (rule edit_all_reads_dollars) simp_all

section \<open>Edits that the searched text does not ask for\<close>

lemma single_similarity_nonneg: "0 \<le> sim \<Longrightarrow> 0 \<le> single_similarity n sim ps"
proof (induction n sim ps rule: single_similarity.induct)
  case (2 n sim p ps)
  show ?case
  proof (cases "max_len p = 0")
    case False
    have "levenshtein (fst p) (snd p) \<le> max_len p" unfolding max_len_def by (rule levenshtein_max)
    then have "0 \<le> line_similarity p" using False by (simp add: line_similarity_def)
    then have "0 \<le> sim + line_similarity p / of_nat n" using 2(3) by simp
    then show ?thesis using False by (simp add: SINGLE_CANDIDATE_SIMILARITY_THRESHOLD_def)
  qed (use 2 in simp)
qed simp

text \<open>
  When one block only starts and ends with the lines of the searched text, it is proposed whatever
  its middle lines are: their similarity is computed and never below the threshold.
\<close>

theorem single_anchor_ignores_middle:
  assumes "3 \<le> length (js_split newline old)"
    and "anchor_candidates (js_split newline content) (js_trim (hd (search_lines old)))
           (js_trim (last (search_lines old))) = [c]"
  shows "BlockAnchorReplacer content old = [candidate_span content (js_split newline content) c]"
  using assms single_similarity_nonneg
  by (simp add: BlockAnchorReplacer_def Let_def SINGLE_CANDIDATE_SIMILARITY_THRESHOLD_def)

theorem single_anchor_ignores_middle_witness:
  "BlockAnchorReplacer (js_join [newline] [''begin'', ''  pay();'', ''end''])
     (js_join [newline] [''begin'', ''  log(x);'', ''end'']) = [js_join [newline] [''begin'', ''  pay();'', ''end'']]"
proof -
  have "anchor_candidates (js_split newline (js_join [newline] [''begin'', ''  pay();'', ''end'']))
      (js_trim (hd (search_lines (js_join [newline] [''begin'', ''  log(x);'', ''end'']))))
      (js_trim (last (search_lines (js_join [newline] [''begin'', ''  log(x);'', ''end''])))) = [(0, 2)]"
    by code_simp
  moreover have "3 \<le> length (js_split newline (js_join [newline] [''begin'', ''  log(x);'', ''end'']))"
    by code_simp
  moreover have "candidate_span (js_join [newline] [''begin'', ''  pay();'', ''end''])
      (js_split newline (js_join [newline] [''begin'', ''  pay();'', ''end''])) (0, 2) =
      js_join [newline] [''begin'', ''  pay();'', ''end'']" by code_simp
  ultimately show ?thesis using single_anchor_ignores_middle by metis
qed

lemma search_lines_single: "newline \<notin> set old \<Longrightarrow> old \<noteq> [] \<Longrightarrow> search_lines old = [old]"
  by (simp add: search_lines_def js_split_last)

lemma LineTrimmedReplacer_single:
  assumes "newline \<notin> set old" and "old \<noteq> []"
  shows "LineTrimmedReplacer content old = filter (\<lambda>l. js_trim l = js_trim old) (js_split newline content)"
proof -
  let ?ls = "js_split newline content"
  have at: "take 1 (drop i ?ls) = [?ls ! i]" "line_span content ?ls i 1 = ?ls ! i" if "i < length ?ls" for i
  proof -
    show t: "take 1 (drop i ?ls) = [?ls ! i]" using that by (simp add: take_Suc hd_drop_conv_nth)
    show "line_span content ?ls i 1 = ?ls ! i"
      using line_span_block(1) [of i 1 ?ls content] that t by (simp add: js_join_split)
  qed
  have "LineTrimmedReplacer content old =
      map ((!) ?ls) (filter (\<lambda>i. js_trim (?ls ! i) = js_trim old) [0..<length ?ls])"
    unfolding LineTrimmedReplacer_def Let_def search_lines_single [OF assms]
    using at by (auto simp: same_trimmed_def intro!: map_cong filter_cong)
  also have "\<dots> = filter (\<lambda>l. js_trim l = js_trim old) (map ((!) ?ls) [0..<length ?ls])"
    by (simp add: filter_map comp_def)
  finally show ?thesis by (simp add: map_nth)
qed

text \<open>
  A searched text of one line that is not unique is not refused: when a line is that text but for
  the blanks around it, and occurs once, that whole line is replaced, its indentation included.
\<close>

theorem ambiguous_search_edits_a_line:
  assumes "newline \<notin> set old" and "old \<noteq> []" and "old \<noteq> new" and "\<not> occurs_once content old"
    and "filter (\<lambda>l. js_trim l = js_trim old) (js_split newline content) = l # ls"
    and "content = pre @ l @ post" and "occurs_once content l"
  shows "replace_text content old new False = Some (Inr (pre @ new @ post))"
proof -
  have k: "js_find l content = Some (length pre)" "js_find_last l content = Some (length pre)"
  proof -
    have "occurs_at l content (length pre)" unfolding assms(6) by (auto simp: occurs_at_split)
    then have "js_find l content = Some (length pre) \<and> js_find_last l content = Some (length pre)"
      using assms(7) unfolding unique_occurrence occurs_once_def by auto
    then show "js_find l content = Some (length pre)" "js_find_last l content = Some (length pre)" by auto
  qed
  obtain rest where rest: "loose_proposals content old = l # rest"
    using LineTrimmedReplacer_single [OF assms(1,2)] assms(5) by (simp add: loose_proposals_def)
  have "try_searches content new False nf (l # rest) = Inr (pre @ new @ post)" for nf
    using k assms(6) by simp
  then have "try_searches content new False True (old # l # rest) = Inr (pre @ new @ post)"
    using assms(4) by (cases "js_find old content") (simp_all add: occurs_once_find)
  then show ?thesis using rest assms(3) by (simp add: replace_text_eq)
qed

theorem ambiguous_search_edits_a_line_witness:
  "replace_text (js_join [newline] [''  foo'', ''foo bar'']) ''foo'' ''x'' False =
     Some (Inr ([] @ ''x'' @ (newline # ''foo bar'')))"
  by (rule ambiguous_search_edits_a_line [of _ _ _ "''  foo''" "[]"])
    (simp_all add: occurs_once_find js_starts_with_def js_trim_def js_space_def)

lemma replace_from_empty:
  "CHR ''$'' \<notin> set new \<Longrightarrow> replace_from [] new pre s = concat (map (\<lambda>c. new @ [c]) s) @ new"
proof (induction s arbitrary: pre)
  case Nil
  then show ?case by (subst replace_from.simps) (simp add: js_expand_plain)
next
  case (Cons c s)
  then show ?case by (subst replace_from.simps) (simp add: js_expand_plain)
qed

text \<open>
  Replacing all occurrences of a text of blanks that does not occur, in a text without blank lines,
  writes the new text before every character and at the end.
\<close>

theorem blank_search_floods:
  assumes "old \<noteq> []" and "list_all js_space old" and "newline \<notin> set old" and "\<not> js_includes content old"
    and "\<not> list_ex (\<lambda>l. js_trim l = []) (js_split newline content)"
    and "old \<noteq> new" and "CHR ''$'' \<notin> set new"
  shows "replace_text content old new True = Some (Inr (concat (map (\<lambda>c. new @ [c]) content) @ new))"
proof -
  let ?ls = "js_split newline content"
  have blank: "js_trim old = []"
    using assms(2) by (simp add: js_trim_is_end dropWhile_all [THEN iffD2] js_trim_end_def)
  have norm: "normalizeWhitespace old = []" using assms(2) by (simp add: normalize_words js_words_blank)
  obtain l ls where l: "?ls = l # ls" using js_split_nonempty [of newline content] by (cases ?ls) auto
  have lt: "LineTrimmedReplacer content old = []"
    using assms(5) unfolding LineTrimmedReplacer_single [OF assms(3,1)] blank
    by (simp add: filter_empty_conv list_ex_iff)
  have ba: "BlockAnchorReplacer content old = []"
    using assms(3) by (simp add: BlockAnchorReplacer_def js_split_last)
  have "normalizeWhitespace l \<noteq> []"
  proof
    assume "normalizeWhitespace l = []"
    then have "js_words l = []"
      using words_solid [of "hd (js_words l)" l] by (cases "js_words l"; cases "tl (js_words l)") (auto simp: normalize_words)
    then have "list_all js_space l"
      by (subst (asm) js_words.simps) (auto simp: Let_def list_all_iff split: if_splits)
    then have "js_trim l = []" by (simp add: js_trim_is_end dropWhile_all [THEN iffD2] js_trim_end_def)
    then show False using assms(5) l by simp
  qed
  moreover have "search_words [[]] l = Some []" by (cases l) (simp_all add: js_starts_with_def)
  moreover have "js_includes (normalizeWhitespace l) []" by (cases "normalizeWhitespace l") auto
  ultimately have "white_line old l = [[]]" by (simp add: white_line_def norm find_words_def blank)
  then obtain ws where "WhitespaceNormalizedReplacer content old = [] # ws"
    using l by (simp add: WhitespaceNormalizedReplacer_def Let_def)
  then obtain rest where rest: "loose_proposals content old = [] # rest"
    using lt ba by (simp add: loose_proposals_def)
  have "js_includes content []" by (cases content) auto
  then have "try_searches content new True True (old # [] # rest) = Inr (js_replaceAll content [] new)"
    unfolding try_all using assms(4) by simp
  then show ?thesis
    using rest assms(6) replace_from_empty [OF assms(7)]
    by (simp only: replace_text_eq js_replaceAll_def) simp
qed

theorem blank_search_floods_witness:
  "replace_text ''ab'' ''  '' ''X'' True = Some (Inr (concat (map (\<lambda>c. ''X'' @ [c]) ''ab'') @ ''X''))"
  by (rule blank_search_floods) (simp_all add: js_space_def js_trim_def)

end
