(* ===== verification/Patch_Parse.thy ===== *)
theory Patch_Parse
  imports Js_Text
begin

text \<open>
  The reader of patches (parsePatch of patch/index.ts): hunks that add, delete and update files,
  an update made of chunks. The code walks an index over the lines; here the lines left are passed,
  and \<open>stop\<close> lines are left where the end marker is.
\<close>

record update_chunk =
  old_lines :: "string list"
  new_lines :: "string list"
  change_context :: "string option"
  is_end_of_file :: bool

datatype hunk =
    Add_hunk string string
  | Delete_hunk string
  | Update_hunk string "string option" "update_chunk list"

section \<open>Headers\<close>

text \<open>\<open>parsePatchHeader\<close>: the path, the path to move to, and the lines left.\<close>

fun parsePatchHeader :: "string list \<Rightarrow> (string \<times> string option \<times> string list) option" where
  "parsePatchHeader [] = None"
| "parsePatchHeader (line # rest) =
     (if js_starts_with line ''*** Add File:'' then
        let filePath = js_trim (drop 13 line) in if filePath \<noteq> [] then Some (filePath, None, rest) else None
      else if js_starts_with line ''*** Delete File:'' then
        let filePath = js_trim (drop 16 line) in if filePath \<noteq> [] then Some (filePath, None, rest) else None
      else if js_starts_with line ''*** Update File:'' then
        let filePath = js_trim (drop 16 line);
            (movePath, rest') =
              (case rest of
                 [] \<Rightarrow> (None, rest)
               | l # ls \<Rightarrow> if js_starts_with l ''*** Move to:'' then (Some (js_trim (drop 12 l)), ls)
                           else (None, rest))
        in if filePath \<noteq> [] then Some (filePath, movePath, rest') else None
      else None)"

section \<open>Chunks\<close>

definition is_marker :: "string \<Rightarrow> bool" where
  "is_marker line \<longleftrightarrow> js_starts_with line ''***''"

definition is_context :: "string \<Rightarrow> bool" where
  "is_context line \<longleftrightarrow> js_starts_with line ''@@''"

text \<open>The lines of one chunk: the old and the new ones, the end of file mark, and what is left.\<close>

fun parse_change_lines :: "string list \<Rightarrow> string list \<times> string list \<times> bool \<times> string list" where
  "parse_change_lines [] = ([], [], False, [])"
| "parse_change_lines (changeLine # rest) =
     (if is_context changeLine \<or> is_marker changeLine then ([], [], False, changeLine # rest)
      else if changeLine = ''*** End of File'' then ([], [], True, rest)
      else let (olds, news, eof, left) = parse_change_lines rest in
        if js_starts_with changeLine '' '' then (drop 1 changeLine # olds, drop 1 changeLine # news, eof, left)
        else if js_starts_with changeLine ''-'' then (drop 1 changeLine # olds, news, eof, left)
        else if js_starts_with changeLine ''+'' then (olds, drop 1 changeLine # news, eof, left)
        else (olds, news, eof, left))"

lemma parse_change_lines_left:
  "parse_change_lines ls = (olds, news, eof, left) \<Longrightarrow> length left \<le> length ls"
  by (induction ls arbitrary: olds news eof left) (auto split: if_splits prod.splits intro: le_SucI)

function parseUpdateFileChunks :: "string list \<Rightarrow> update_chunk list \<times> string list" where
  "parseUpdateFileChunks [] = ([], [])"
| "parseUpdateFileChunks (line # rest) =
     (if is_marker line then ([], line # rest)
      else if is_context line then
        let contextLine = js_trim (drop 2 line);
            (olds, news, eof, left) = parse_change_lines rest;
            (chunks, left') = parseUpdateFileChunks left
        in (\<lparr>old_lines = olds, new_lines = news,
             change_context = (if contextLine = [] then None else Some contextLine),
             is_end_of_file = eof\<rparr> # chunks, left')
      else parseUpdateFileChunks rest)"
  by pat_completeness auto
termination
  by (relation "measure length") (auto dest: parse_change_lines_left [OF sym])

text \<open>\<open>parseAddFileContent\<close>: the added lines, and what is left.\<close>

fun parse_added :: "string list \<Rightarrow> string \<times> string list" where
  "parse_added [] = ([], [])"
| "parse_added (line # rest) =
     (if is_marker line then ([], line # rest)
      else let (content, left) = parse_added rest
           in ((if js_starts_with line ''+'' then drop 1 line @ [newline] else []) @ content, left))"

definition parseAddFileContent :: "string list \<Rightarrow> string \<times> string list" where
  "parseAddFileContent lines =
     (let (content, left) = parse_added lines
      in (if js_ends_with content [newline] then butlast content else content, left))"

lemma parse_added_left: "parse_added ls = (c, left) \<Longrightarrow> length left \<le> length ls"
  by (induction ls arbitrary: c left) (auto split: if_splits prod.splits intro: le_SucI)

lemma parseUpdateFileChunks_left: "parseUpdateFileChunks ls = (cs, left) \<Longrightarrow> length left \<le> length ls"
proof (induction ls arbitrary: cs left rule: parseUpdateFileChunks.induct)
  case (2 line rest)
  show ?case
  proof (cases "is_marker line \<or> \<not> is_context line")
    case True
    then show ?thesis using 2 by (auto split: if_splits intro: le_SucI)
  next
    case False
    obtain olds news eof l1 where l1: "parse_change_lines rest = (olds, news, eof, l1)"
      by (cases "parse_change_lines rest") auto
    obtain cs2 l2 where l2: "parseUpdateFileChunks l1 = (cs2, l2)" by (cases "parseUpdateFileChunks l1") auto
    have "length l2 \<le> length l1" using 2(1) False l1 l2 by auto
    moreover have "length l1 \<le> length rest" by (rule parse_change_lines_left [OF l1])
    ultimately show ?thesis using 2(3) False l1 l2 by (auto simp: Let_def)
  qed
qed simp

lemma parsePatchHeader_left: "parsePatchHeader ls = Some (f, m, left) \<Longrightarrow> length left < length ls"
  by (cases ls) (auto simp: Let_def split: if_splits list.splits prod.splits)

section \<open>Here documents\<close>

text \<open>\<open>/^(?:cat\s+)?<<['"]?(\w+)['"]?\s*\n([\s\S]*?)\n\1\s*$/\<close>: the rests after each newline of a run
  of blanks, the last newline first, and the text before the closing word.\<close>

fun newline_rests :: "string \<Rightarrow> string list" where
  "newline_rests [] = []"
| "newline_rests (c # s) =
     (if js_space c then newline_rests s @ (if c = newline then [s] else []) else [])"

definition skip_quote :: "string \<Rightarrow> string" where
  "skip_quote s = (case s of c # t \<Rightarrow> if c = CHR 0x27 \<or> c = CHR 0x22 then t else s | [] \<Rightarrow> s)"

fun heredoc_body :: "string \<Rightarrow> string \<Rightarrow> string option" where
  "heredoc_body w [] = None"
| "heredoc_body w (c # s) =
     (if js_starts_with (c # s) (newline # w) \<and> list_all js_space (drop (length w) s) then Some []
      else map_option ((#) c) (heredoc_body w s))"

fun first_some :: "('a \<Rightarrow> 'b option) \<Rightarrow> 'a list \<Rightarrow> 'b option" where
  "first_some f [] = None"
| "first_some f (x # xs) = (case f x of Some y \<Rightarrow> Some y | None \<Rightarrow> first_some f xs)"

definition heredoc_match :: "string \<Rightarrow> string option" where
  "heredoc_match input =
     (let s1 = (if js_starts_with input ''cat'' \<and> takeWhile js_space (drop 3 input) \<noteq> []
                then dropWhile js_space (drop 3 input) else input)
      in if \<not> js_starts_with s1 ''<<'' then None
         else let s2 = skip_quote (drop 2 s1);
                  w = takeWhile word_char s2;
                  s3 = skip_quote (drop (length w) s2)
              in if w = [] then None else first_some (heredoc_body w) (newline_rests s3))"

definition stripHeredoc :: "string \<Rightarrow> string" where
  "stripHeredoc input = (case heredoc_match input of Some content \<Rightarrow> content | None \<Rightarrow> input)"

section \<open>Patches\<close>

definition beginMarker :: string where "beginMarker = ''*** Begin Patch''"

definition endMarker :: string where "endMarker = ''*** End Patch''"

fun find_index :: "('a \<Rightarrow> bool) \<Rightarrow> 'a list \<Rightarrow> nat option" where
  "find_index P [] = None"
| "find_index P (x # xs) = (if P x then Some 0 else map_option Suc (find_index P xs))"

text \<open>The loop over the hunks.\<close>

function parse_hunks :: "nat \<Rightarrow> string list \<Rightarrow> hunk list" where
  "parse_hunks stop lines =
     (if length lines \<le> stop then []
      else case parsePatchHeader lines of
        None \<Rightarrow> parse_hunks stop (drop 1 lines)
      | Some (filePath, movePath, rest) \<Rightarrow>
          (if js_starts_with (hd lines) ''*** Add File:'' then
             let (content, left) = parseAddFileContent rest
             in Add_hunk filePath content # parse_hunks stop left
           else if js_starts_with (hd lines) ''*** Delete File:'' then
             Delete_hunk filePath # parse_hunks stop rest
           else
             let (chunks, left) = parseUpdateFileChunks rest
             in Update_hunk filePath movePath chunks # parse_hunks stop left))"
  by pat_completeness auto
termination
proof (relation "measure (length \<circ> snd)", goal_cases)
  case (3 stop lines x filePath p movePath rest y content left)
  then have "length rest < length lines" using parsePatchHeader_left by metis
  moreover have "length left \<le> length rest"
    using 3 by (auto simp: parseAddFileContent_def split: prod.splits dest: parse_added_left)
  ultimately show ?case by simp
next
  case (4 stop lines x filePath p movePath rest)
  then have "length rest < length lines" using parsePatchHeader_left by metis
  then show ?case by simp
next
  case (5 stop lines x filePath p movePath rest y chunks left)
  then have "length rest < length lines" using parsePatchHeader_left by metis
  moreover have "length left \<le> length rest" using 5 parseUpdateFileChunks_left by metis
  ultimately show ?case by simp
qed auto

declare parse_hunks.simps [simp del]

text \<open>\<open>None\<close> is the error of a patch without markers.\<close>

definition parsePatch :: "string \<Rightarrow> hunk list option" where
  "parsePatch patchText =
     (let lines = js_split newline (stripHeredoc (js_trim patchText)) in
      case (find_index (\<lambda>l. js_trim l = beginMarker) lines, find_index (\<lambda>l. js_trim l = endMarker) lines) of
        (Some beginIdx, Some endIdx) \<Rightarrow>
          if endIdx \<le> beginIdx then None
          else Some (parse_hunks (length lines - endIdx) (drop (beginIdx + 1) lines))
      | _ \<Rightarrow> None)"

section \<open>Invocations\<close>

datatype apply_patch_call = Patch_body string "hunk list" | Patch_parse_error | Not_apply_patch

definition patch_call :: "string \<Rightarrow> apply_patch_call" where
  "patch_call patch =
     (case parsePatch patch of Some hunks \<Rightarrow> Patch_body patch hunks | None \<Rightarrow> Patch_parse_error)"

text \<open>\<open>/apply_patch\s*<<['"](\w+)['"]\s*\n([\s\S]*?)\n\1/\<close>\<close>

definition is_quote :: "char \<Rightarrow> bool" where
  "is_quote c \<longleftrightarrow> c = CHR 0x27 \<or> c = CHR 0x22"

definition bash_heredoc_at :: "string \<Rightarrow> string option" where
  "bash_heredoc_at s =
     (let s1 = dropWhile js_space (drop 11 s);
          s2 = drop 3 s1; w = takeWhile word_char s2; s3 = drop (length w) s2
      in if js_starts_with s ''apply_patch'' \<and> js_starts_with s1 ''<<'' \<and> drop 2 s1 \<noteq> [] \<and>
            is_quote (s1 ! 2) \<and> w \<noteq> [] \<and> s3 \<noteq> [] \<and> is_quote (hd s3)
         then first_some (\<lambda>r. map_option fst (js_cut (newline # w) r)) (newline_rests (tl s3))
         else None)"

fun bash_heredoc :: "string \<Rightarrow> string option" where
  "bash_heredoc [] = None"
| "bash_heredoc (c # s) = (case bash_heredoc_at (c # s) of Some t \<Rightarrow> Some t | None \<Rightarrow> bash_heredoc s)"

definition maybeParseApplyPatch :: "string list \<Rightarrow> apply_patch_call" where
  "maybeParseApplyPatch argv =
     (if length argv = 2 \<and> hd argv \<in> {''apply_patch'', ''applypatch''} then patch_call (argv ! 1)
      else if length argv = 3 \<and> argv ! 0 = ''bash'' \<and> argv ! 1 = ''-lc'' then
        (case bash_heredoc (argv ! 2) of Some patchContent \<Rightarrow> patch_call patchContent | None \<Rightarrow> Not_apply_patch)
      else Not_apply_patch)"

end
