(* ===== verification/Patch_Roundtrip.thy ===== *)
theory Patch_Roundtrip
  imports Patch_Parse
begin

text \<open>
  The text of a patch, and reading it back (parsePatch of patch/index.ts); the end of file mark and
  the end marker of a patch.
\<close>

section \<open>The text of a patch\<close>

definition show_context :: "string option \<Rightarrow> string" where
  "show_context c = (case c of None \<Rightarrow> ''@@'' | Some t \<Rightarrow> ''@@ '' @ t)"

definition show_chunk :: "update_chunk \<Rightarrow> string list" where
  "show_chunk c =
     show_context (change_context c) #
     map (\<lambda>l. CHR ''-'' # l) (old_lines c) @ map (\<lambda>l. CHR ''+'' # l) (new_lines c)"

definition show_move :: "string option \<Rightarrow> string list" where
  "show_move m = (case m of None \<Rightarrow> [] | Some t \<Rightarrow> [''*** Move to: '' @ t])"

definition show_contents :: "string \<Rightarrow> string list" where
  "show_contents contents =
     (if contents = [] then [] else map (\<lambda>l. CHR ''+'' # l) (js_split newline contents))"

fun show_hunk :: "hunk \<Rightarrow> string list" where
  "show_hunk (Add_hunk p contents) = (''*** Add File: '' @ p) # show_contents contents"
| "show_hunk (Delete_hunk p) = [''*** Delete File: '' @ p]"
| "show_hunk (Update_hunk p m chunks) =
     (''*** Update File: '' @ p) # show_move m @ concat (map show_chunk chunks)"

definition show_patch :: "hunk list \<Rightarrow> string" where
  "show_patch hs = js_join [newline] (beginMarker # concat (map show_hunk hs) @ [endMarker])"

text \<open>A path or a context: not empty, on one line, without blanks around it.\<close>

definition solid_text :: "string \<Rightarrow> bool" where
  "solid_text t \<longleftrightarrow> t \<noteq> [] \<and> js_trim t = t \<and> newline \<notin> set t"

definition one_line :: "string \<Rightarrow> bool" where
  "one_line t \<longleftrightarrow> newline \<notin> set t"

definition printable_chunk :: "update_chunk \<Rightarrow> bool" where
  "printable_chunk c \<longleftrightarrow>
     list_all one_line (old_lines c) \<and> list_all one_line (new_lines c) \<and> \<not> is_end_of_file c \<and>
     (case change_context c of None \<Rightarrow> True | Some t \<Rightarrow> solid_text t)"

fun printable :: "hunk \<Rightarrow> bool" where
  "printable (Add_hunk p contents) \<longleftrightarrow> solid_text p"
| "printable (Delete_hunk p) \<longleftrightarrow> solid_text p"
| "printable (Update_hunk p m chunks) \<longleftrightarrow>
     solid_text p \<and> (case m of None \<Rightarrow> True | Some t \<Rightarrow> solid_text t) \<and> list_all printable_chunk chunks"

section \<open>Trimming printed lines\<close>

lemma js_trim_fix: "s \<noteq> [] \<Longrightarrow> \<not> js_space (hd s) \<Longrightarrow> \<not> js_space (last s) \<Longrightarrow> js_trim s = s"
proof -
  assume s: "s \<noteq> []" "\<not> js_space (hd s)" "\<not> js_space (last s)"
  have "dropWhile js_space s = s" using s by (cases s) auto
  moreover have "dropWhile js_space (rev s) = rev s" using s by (cases s rule: rev_cases) auto
  ultimately show ?thesis by (simp add: js_trim_def)
qed

lemma solid_ends:
  assumes "solid_text t"
  shows "t \<noteq> []" "\<not> js_space (hd t)" "\<not> js_space (last t)" "newline \<notin> set t" "js_trim t = t"
proof -
  let ?d = "dropWhile js_space t"
  have t: "rev (dropWhile js_space (rev ?d)) = t" "t \<noteq> []"
    using assms by (simp_all add: solid_text_def js_trim_def)
  have "length t \<le> length ?d" using t(1) length_dropWhile_le [of js_space "rev ?d"] by (metis length_rev)
  then have d: "?d = t"
    using takeWhile_dropWhile_id [of js_space t] length_append [of "takeWhile js_space t" ?d]
    by (metis append_Nil le_add2 le_antisym length_0_conv add_cancel_left_left)
  then show "\<not> js_space (hd t)" using hd_dropWhile [of js_space t] t(2) by simp
  have "dropWhile js_space (rev t) = rev t" using t(1) d by (metis rev_swap)
  then show "\<not> js_space (last t)" using hd_dropWhile [of js_space "rev t"] t(2) by (simp add: hd_rev)
qed (use assms in \<open>simp_all add: solid_text_def\<close>)

lemma js_trim_keeps: "\<not> js_space c \<Longrightarrow> js_trim (c # s) \<noteq> [] \<and> hd (js_trim (c # s)) = c"
proof -
  assume c: "\<not> js_space c"
  then have "js_trim (c # s) = rev (dropWhile js_space (rev s @ [c]))" by (simp add: js_trim_def)
  moreover obtain u where "dropWhile js_space (rev s @ [c]) = u @ [c]"
    using c by (cases "\<forall>x \<in> set s. js_space x") (simp_all add: dropWhile_append)
  ultimately have "js_trim (c # s) = rev (u @ [c])" by (simp only:)
  then show ?thesis by simp
qed

lemma trim_prefixed:
  assumes "solid_text t" "pre \<noteq> []" "\<not> js_space (hd pre)"
  shows "js_trim (pre @ t) = pre @ t"
  using assms solid_ends [OF assms(1)] by (intro js_trim_fix) auto

section \<open>Reading the lines back\<close>

definition ends_chunk :: "string list \<Rightarrow> bool" where
  "ends_chunk rest \<longleftrightarrow> (case rest of [] \<Rightarrow> True | l # _ \<Rightarrow> is_marker l \<or> is_context l)"

lemma read_new_lines:
  "ends_chunk rest \<Longrightarrow> parse_change_lines (map (\<lambda>l. CHR ''+'' # l) news @ rest) = ([], news, False, rest)"
proof (induction news)
  case Nil
  then show ?case by (cases rest) (auto simp: ends_chunk_def)
qed (simp add: is_context_def is_marker_def js_starts_with_def)

lemma read_change_lines:
  "ends_chunk rest \<Longrightarrow>
   parse_change_lines (map (\<lambda>l. CHR ''-'' # l) olds @ map (\<lambda>l. CHR ''+'' # l) news @ rest) = (olds, news, False, rest)"
  by (induction olds) (simp_all add: read_new_lines is_context_def is_marker_def js_starts_with_def)

lemma read_chunks:
  assumes "list_all printable_chunk cs" "rest = [] \<or> is_marker (hd rest)"
  shows "parseUpdateFileChunks (concat (map show_chunk cs) @ rest) = (cs, rest)"
  using assms(1)
proof (induction cs)
  case Nil
  then show ?case using assms(2) by (cases rest) auto
next
  case (Cons c cs)
  let ?rest = "concat (map show_chunk cs) @ rest"
  have e: "ends_chunk ?rest"
    using assms(2)
    by (cases cs; cases rest)
      (auto simp: ends_chunk_def show_chunk_def is_context_def js_starts_with_def show_context_def split: option.split)
  have h: "is_context (show_context (change_context c))" "\<not> is_marker (show_context (change_context c))"
    by (auto simp: show_context_def is_context_def is_marker_def js_starts_with_def split: option.split)
  have t: "(if js_trim (drop 2 (show_context (change_context c))) = [] then None
            else Some (js_trim (drop 2 (show_context (change_context c))))) = change_context c"
  proof (cases "change_context c")
    case (Some t)
    then have "solid_text t" using Cons.prems by (simp add: printable_chunk_def)
    then have "js_trim (CHR '' '' # t) = t" "t \<noteq> []"
      using solid_ends(1,5) by (auto simp: js_trim_def js_space_def)
    then show ?thesis using Some by (simp add: show_context_def)
  qed (simp add: show_context_def js_trim_def)
  have "c = \<lparr>old_lines = old_lines c, new_lines = new_lines c, change_context = change_context c, is_end_of_file = False\<rparr>"
    using Cons.prems by (simp add: printable_chunk_def)
  then show ?case
    using Cons read_change_lines [OF e] h t by (simp add: show_chunk_def [of c] Let_def)
qed

lemma read_added:
  assumes "rest \<noteq> []" "is_marker (hd rest)"
  shows "parse_added (map (\<lambda>l. CHR ''+'' # l) ls @ rest) = (concat (map (\<lambda>l. l @ [newline]) ls), rest)"
proof (induction ls)
  case Nil
  then show ?case using assms by (cases rest) auto
qed (simp add: is_marker_def js_starts_with_def)

lemma concat_lines: "ls \<noteq> [] \<Longrightarrow> concat (map (\<lambda>l. l @ [newline]) ls) = js_join [newline] ls @ [newline]"
proof (induction ls)
  case (Cons l ls)
  then show ?case by (cases ls) (simp_all add: js_join_cons)
qed simp

lemma read_contents:
  assumes "rest \<noteq> []" "is_marker (hd rest)"
  shows "parseAddFileContent (show_contents contents @ rest) = (contents, rest)"
proof (cases "contents = []")
  case True
  then show ?thesis using read_added [OF assms, of "[]"]
    by (simp add: parseAddFileContent_def show_contents_def js_ends_with_def)
next
  case False
  have "parse_added (show_contents contents @ rest) = (contents @ [newline], rest)"
    using read_added [OF assms, of "js_split newline contents"] False js_split_nonempty [of newline contents]
    by (simp add: show_contents_def concat_lines js_join_split)
  then show ?thesis by (simp add: parseAddFileContent_def js_ends_with_def)
qed

lemma read_path:
  assumes "solid_text p"
  shows "js_trim (CHR '' '' # p) = p" "p \<noteq> []"
  using solid_ends [OF assms] by (auto simp: js_trim_def js_space_def)

lemma read_hunk:
  assumes "printable h" "rest \<noteq> []" "is_marker (hd rest)" "\<not> js_starts_with (hd rest) ''*** Move to:''"
    and "stop \<le> length rest"
  shows "parse_hunks stop (show_hunk h @ rest) = h # parse_hunks stop rest"
proof (cases h)
  case (Add_hunk p contents)
  then show ?thesis
    using assms read_path [of p] read_contents [OF assms(2,3), of contents]
    by (subst parse_hunks.simps) (simp add: js_starts_with_def)
next
  case (Delete_hunk p)
  then show ?thesis
    using assms read_path [of p] by (subst parse_hunks.simps) (simp add: js_starts_with_def)
next
  case (Update_hunk p m chunks)
  let ?r = "concat (map show_chunk chunks) @ rest"
  have c: "parseUpdateFileChunks ?r = (chunks, rest)"
    using assms Update_hunk by (intro read_chunks) auto
  have nomove: "(case ?r of [] \<Rightarrow> (None, ?r)
      | l # ls \<Rightarrow> if js_starts_with l ''*** Move to:'' then (Some (js_trim (drop 12 l)), ls) else (None, ?r)) = (None, ?r)"
  proof (cases chunks)
    case Nil
    then show ?thesis using assms(4) by (cases rest) auto
  next
    case (Cons c cs)
    then show ?thesis
      by (auto simp: show_chunk_def show_context_def js_starts_with_def split: option.split)
  qed
  have "parsePatchHeader (show_hunk h @ rest) = Some (p, m, ?r)"
  proof (cases m)
    case None
    then show ?thesis using Update_hunk assms(1) read_path [of p] nomove
      by (simp add: show_move_def js_starts_with_def split: list.splits)
  next
    case (Some t)
    then show ?thesis using Update_hunk assms(1) read_path [of p] read_path [of t]
      by (simp add: show_move_def js_starts_with_def)
  qed
  then show ?thesis
    using c assms(5) Update_hunk by (subst parse_hunks.simps) (simp add: js_starts_with_def)
qed

lemma show_hunk_head: "show_hunk h \<noteq> [] \<and> is_marker (hd (show_hunk h)) \<and> \<not> js_starts_with (hd (show_hunk h)) ''*** Move to:''"
  by (cases h) (simp_all add: is_marker_def js_starts_with_def)

lemma read_hunks:
  "list_all printable hs \<Longrightarrow> parse_hunks 1 (concat (map show_hunk hs) @ [endMarker]) = hs"
proof (induction hs)
  case Nil
  show ?case by (simp add: parse_hunks.simps)
next
  case (Cons h hs)
  let ?rest = "concat (map show_hunk hs) @ [endMarker]"
  have "?rest \<noteq> [] \<and> is_marker (hd ?rest) \<and> \<not> js_starts_with (hd ?rest) ''*** Move to:''"
    using show_hunk_head by (cases hs) (auto simp: is_marker_def js_starts_with_def endMarker_def)
  then show ?case using read_hunk [of h ?rest 1] Cons by (simp add: Suc_leI)
qed

lemma show_hunk_line:
  assumes "printable h" "l \<in> set (show_hunk h)"
  shows "newline \<notin> set l \<and> js_trim l \<noteq> endMarker \<and> js_trim l \<noteq> beginMarker"
proof -
  have plus: "js_trim (c # t) \<noteq> endMarker \<and> js_trim (c # t) \<noteq> beginMarker"
    if "c \<in> {CHR ''+'', CHR ''-'', CHR ''@''}" for c t
  proof -
    have "hd (js_trim (c # t)) = c" using that js_trim_keeps [of c t] by (auto simp: js_space_def)
    then show ?thesis using that by (auto simp: endMarker_def beginMarker_def)
  qed
  have head: "newline \<notin> set (pre @ t) \<and> js_trim (pre @ t) \<noteq> endMarker \<and> js_trim (pre @ t) \<noteq> beginMarker"
    if "solid_text t" "pre \<in> {''*** Add File: '', ''*** Delete File: '', ''*** Update File: '', ''*** Move to: ''}" for pre t
  proof -
    have "js_trim (pre @ t) = pre @ t" using that by (intro trim_prefixed) (auto simp: js_space_def)
    then show ?thesis using that solid_ends(4) [OF that(1)] by (auto simp: endMarker_def beginMarker_def)
  qed
  have body: "newline \<notin> set t \<Longrightarrow> c \<in> {CHR ''+'', CHR ''-'', CHR ''@''} \<Longrightarrow>
      newline \<notin> set (c # t) \<and> js_trim (c # t) \<noteq> endMarker \<and> js_trim (c # t) \<noteq> beginMarker" for c t
    using plus by auto
  show ?thesis
  proof (cases h)
    case (Add_hunk p contents)
    then consider (path) "l = ''*** Add File: '' @ p" | (added) t where "l = CHR ''+'' # t" "t \<in> set (js_split newline contents)"
      using assms(2) by (auto simp: show_contents_def split: if_splits)
    then show ?thesis
    proof cases
      case path
      then show ?thesis using head [of p "''*** Add File: ''"] assms(1) Add_hunk by simp
    next
      case (added t)
      then show ?thesis using body [of t "CHR ''+''"] js_split_parts [of t newline contents] by simp
    qed
  next
    case (Delete_hunk p)
    then show ?thesis using head [of p "''*** Delete File: ''"] assms by simp
  next
    case (Update_hunk p m chunks)
    then consider (path) "l = ''*** Update File: '' @ p" | (move) t where "m = Some t" "l = ''*** Move to: '' @ t"
      | (chunk) c where "c \<in> set chunks" "l \<in> set (show_chunk c)"
      using assms(2) by (auto simp: show_move_def split: option.splits)
    then show ?thesis
    proof cases
      case path
      then show ?thesis using head [of p "''*** Update File: ''"] assms(1) Update_hunk by simp
    next
      case (move t)
      then show ?thesis using head [of t "''*** Move to: ''"] assms(1) Update_hunk by simp
    next
      case (chunk c)
      then have c: "printable_chunk c" using assms(1) Update_hunk by (auto simp: list_all_iff)
      consider (ctx) "l = show_context (change_context c)" | (old) x where "l = CHR ''-'' # x" "x \<in> set (old_lines c)"
        | (new) x where "l = CHR ''+'' # x" "x \<in> set (new_lines c)"
        using chunk(2) by (auto simp: show_chunk_def)
      then show ?thesis
      proof cases
        case ctx
        have "newline \<notin> set (tl l)"
          using c solid_ends(4) unfolding ctx
          by (cases "change_context c") (auto simp: show_context_def printable_chunk_def)
        moreover have "l = CHR ''@'' # tl l" unfolding ctx by (simp add: show_context_def split: option.split)
        ultimately show ?thesis using body [of "tl l" "CHR ''@''"] by simp
      next
        case (old x)
        then show ?thesis using body [of x "CHR ''-''"] c by (simp add: printable_chunk_def list_all_iff one_line_def)
      next
        case (new x)
        then show ?thesis using body [of x "CHR ''+''"] c by (simp add: printable_chunk_def list_all_iff one_line_def)
      qed
    qed
  qed
qed

lemma find_index_first: "\<not> P x \<Longrightarrow> find_index P (x # xs) = map_option Suc (find_index P xs)"
  by simp

lemma find_index_append:
  "\<not> list_ex P xs \<Longrightarrow> P y \<Longrightarrow> find_index P (xs @ y # ys) = Some (length xs)"
  by (induction xs) auto

lemma begin_trim: "js_trim beginMarker = beginMarker" and end_trim: "js_trim endMarker = endMarker"
  by (simp_all add: beginMarker_def endMarker_def js_trim_def js_space_def)

lemma parse_lines:
  assumes body: "\<not> list_ex (\<lambda>l. newline \<in> set l \<or> js_trim l = endMarker) body"
  shows "parsePatch (js_join [newline] (beginMarker # body @ [endMarker])) =
         Some (parse_hunks 1 (body @ [endMarker]))"
proof -
  let ?lines = "beginMarker # body @ [endMarker]" and ?t = "js_join [newline] (beginMarker # body @ [endMarker])"
  have t: "?t = beginMarker @ newline # js_join [newline] (body @ [endMarker])" by (simp add: js_join_cons)
  have "js_join [newline] (body @ [endMarker]) = (if body = [] then [] else js_join [newline] body @ [newline]) @ endMarker"
    by (simp add: js_join_append)
  then have "last ?t = CHR ''h''" unfolding t by (simp add: endMarker_def)
  moreover have "?t \<noteq> []" "hd ?t = CHR ''*''" unfolding t by (simp_all add: beginMarker_def)
  ultimately have trim: "js_trim ?t = ?t" by (intro js_trim_fix) (simp_all add: js_space_def)
  have here: "stripHeredoc ?t = ?t"
    unfolding t by (simp add: stripHeredoc_def heredoc_match_def beginMarker_def js_starts_with_def)
  have "\<forall>l \<in> set ?lines. newline \<notin> set l"
    using body by (auto simp: list_ex_iff beginMarker_def endMarker_def)
  then have split: "js_split newline ?t = ?lines" by (intro js_split_join) simp
  have b: "find_index (\<lambda>l. js_trim l = beginMarker) ?lines = Some 0" using begin_trim by simp
  have "find_index (\<lambda>l. js_trim l = endMarker) ?lines = map_option Suc (find_index (\<lambda>l. js_trim l = endMarker) (body @ [endMarker]))"
    by (rule find_index_first) (simp add: begin_trim, simp add: beginMarker_def endMarker_def)
  also have "find_index (\<lambda>l. js_trim l = endMarker) (body @ [endMarker]) = Some (length body)"
    using body end_trim by (intro find_index_append) (auto simp: list_ex_iff)
  finally have e: "find_index (\<lambda>l. js_trim l = endMarker) ?lines = Some (Suc (length body))" by simp
  show ?thesis unfolding parsePatch_def trim here split Let_def b e by simp
qed

text \<open>
  C4 (roundtrip): A patch that is printed is read back: its hunks, with their paths, moves, contents and chunks.
\<close>

theorem patch_roundtrip:
  assumes "list_all printable hs"
  shows "parsePatch (show_patch hs) = Some hs"
proof -
  have "\<not> list_ex (\<lambda>l. newline \<in> set l \<or> js_trim l = endMarker) (concat (map show_hunk hs))"
    using assms show_hunk_line by (fastforce simp: list_ex_iff list_all_iff)
  from parse_lines [OF this] show ?thesis using read_hunks [OF assms] by (simp add: show_patch_def)
qed

definition sample_hunks :: "hunk list" where
  "sample_hunks =
     [Add_hunk ''a.txt'' (js_join [newline] [''one'', [], ''two'']),
      Update_hunk ''b.txt'' (Some ''c.txt'')
        [\<lparr>old_lines = [''x''], new_lines = [''y'', ''*** z''], change_context = Some ''f()'', is_end_of_file = False\<rparr>],
      Delete_hunk ''d.txt'']"

theorem patch_roundtrip_witness: "parsePatch (show_patch sample_hunks) = Some sample_hunks"
  by (rule patch_roundtrip)
    (simp add: sample_hunks_def printable_chunk_def one_line_def solid_text_def js_trim_def js_space_def)

section \<open>Marks that are not read\<close>

lemma parse_change_lines_eof: "parse_change_lines ls = (olds, news, eof, left) \<Longrightarrow> \<not> eof"
proof (induction ls arbitrary: olds news eof left)
  case (Cons l ls)
  have "l = ''*** End of File'' \<Longrightarrow> is_marker l" by (simp add: is_marker_def js_starts_with_def)
  then show ?case using Cons by (auto split: if_splits prod.splits)
qed simp

lemma parseUpdateFileChunks_eof:
  "parseUpdateFileChunks ls = (cs, left) \<Longrightarrow> \<not> list_ex is_end_of_file cs"
proof (induction ls arbitrary: cs left rule: parseUpdateFileChunks.induct)
  case (2 line rest)
  show ?case
  proof (cases "is_marker line \<or> \<not> is_context line")
    case True
    then show ?thesis using 2 by (auto split: if_splits)
  next
    case False
    obtain olds news eof l1 where l1: "parse_change_lines rest = (olds, news, eof, l1)"
      by (cases "parse_change_lines rest") auto
    obtain cs2 l2 where l2: "parseUpdateFileChunks l1 = (cs2, l2)" by (cases "parseUpdateFileChunks l1") auto
    have "\<not> eof" by (rule parse_change_lines_eof [OF l1])
    moreover have "\<not> list_ex is_end_of_file cs2" using 2(1) False l1 l2 by auto
    ultimately show ?thesis using 2(3) False l1 l2 by (auto simp: Let_def)
  qed
qed simp

lemma parse_hunks_eof:
  "list_all (\<lambda>h. case h of Update_hunk p m cs \<Rightarrow> \<not> list_ex is_end_of_file cs | _ \<Rightarrow> True) (parse_hunks stop ls)"
proof (induction stop ls rule: parse_hunks.induct)
  case (1 stop ls)
  then show ?case
    by (subst parse_hunks.simps)
      (auto dest: parseUpdateFileChunks_eof split: option.split prod.split)
qed

text \<open>
  The mark of the end of file is never read: no chunk of a parsed patch has it. The line of the
  mark ends the update instead, and the chunks after it are dropped.
\<close>

theorem end_of_file_never_read:
  "(case parsePatch t of
      None \<Rightarrow> True
    | Some hs \<Rightarrow> list_all (\<lambda>h. case h of Update_hunk p m cs \<Rightarrow> \<not> list_ex is_end_of_file cs | _ \<Rightarrow> True) hs) \<and>
   parsePatch (js_join [newline] [''*** Begin Patch'', ''*** Update File: f'', ''@@'', ''-a'', ''+b'',
     ''*** End of File'', ''@@'', ''-c'', ''+d'', ''*** End Patch'']) =
   Some [Update_hunk ''f'' None [\<lparr>old_lines = [''a''], new_lines = [''b''], change_context = None,
     is_end_of_file = False\<rparr>]]"
proof
  show "case parsePatch t of None \<Rightarrow> True
      | Some hs \<Rightarrow> list_all (\<lambda>h. case h of Update_hunk p m cs \<Rightarrow> \<not> list_ex is_end_of_file cs | _ \<Rightarrow> True) hs"
    using parse_hunks_eof by (auto simp: parsePatch_def Let_def split: option.split)
  show "parsePatch (js_join [newline] [''*** Begin Patch'', ''*** Update File: f'', ''@@'', ''-a'', ''+b'',
     ''*** End of File'', ''@@'', ''-c'', ''+d'', ''*** End Patch'']) =
   Some [Update_hunk ''f'' None [\<lparr>old_lines = [''a''], new_lines = [''b''], change_context = None,
     is_end_of_file = False\<rparr>]]" by code_simp
qed

text \<open>
  A context line that is the end marker but for its leading blank ends the search for hunks: the
  chunk is read past it, and the hunks that follow are dropped without an error.
\<close>

theorem marker_in_context_hides_hunks:
  "parsePatch (js_join [newline] [''*** Begin Patch'', ''*** Update File: f'', ''@@'', '' *** End Patch'', ''-a'', ''+b'',
     ''*** Delete File: g'', ''*** End Patch'']) =
   Some [Update_hunk ''f'' None [\<lparr>old_lines = [''*** End Patch'', ''a''], new_lines = [''*** End Patch'', ''b''],
     change_context = None, is_end_of_file = False\<rparr>]]"
  by code_simp

end
