(* ===== verification/Patch_Apply.thy ===== *)
theory Patch_Apply
  imports Patch_Parse "HOL-Library.Monad_Syntax"
begin

text \<open>
  Applying the chunks of an update to the lines of a file (patch/index.ts): looking for a sequence
  of lines in four passes, the replacements, the new content, and the application of all hunks to
  the files.
\<close>

section \<open>Looking for lines\<close>

text \<open>Punctuation of Unicode, as UTF-8 bytes, is replaced by that of ASCII.\<close>

fun normalizeUnicode :: "string \<Rightarrow> string" where
  "normalizeUnicode (a # b # c # s) =
     (let n = of_char c :: nat in
      if a = CHR 0xE2 \<and> b = CHR 0x80 \<and> n \<in> {0x98, 0x99, 0x9A, 0x9B} then CHR 0x27 # normalizeUnicode s
      else if a = CHR 0xE2 \<and> b = CHR 0x80 \<and> n \<in> {0x9C, 0x9D, 0x9E, 0x9F} then CHR 0x22 # normalizeUnicode s
      else if a = CHR 0xE2 \<and> b = CHR 0x80 \<and> n \<in> {0x90, 0x91, 0x92, 0x93, 0x94, 0x95}
      then CHR ''-'' # normalizeUnicode s
      else if a = CHR 0xE2 \<and> b = CHR 0x80 \<and> n = 0xA6 then ''...'' @ normalizeUnicode s
      else if a = CHR 0xC2 \<and> b = CHR 0xA0 then CHR '' '' # normalizeUnicode (c # s)
      else a # normalizeUnicode (b # c # s))"
| "normalizeUnicode [a, b] = (if a = CHR 0xC2 \<and> b = CHR 0xA0 then '' '' else [a, b])"
| "normalizeUnicode s = s"

definition tryMatch ::
  "string list \<Rightarrow> string list \<Rightarrow> nat \<Rightarrow> (string \<Rightarrow> string \<Rightarrow> bool) \<Rightarrow> bool \<Rightarrow> nat option" where
  "tryMatch lines pattern startIndex compare eof =
     (let n = length pattern; fromEnd = length lines - n in
      if eof \<and> n \<le> length lines \<and> startIndex \<le> fromEnd \<and> list_all2 compare (drop fromEnd lines) pattern
      then Some fromEnd
      else List.find (\<lambda>i. list_all2 compare (take n (drop i lines)) pattern)
             [startIndex..<Suc (length lines) - n])"

text \<open>The comparisons of the four passes.\<close>

definition line_passes :: "(string \<Rightarrow> string \<Rightarrow> bool) list" where
  "line_passes =
     [(=), \<lambda>a b. js_trim_end a = js_trim_end b, \<lambda>a b. js_trim a = js_trim b,
      \<lambda>a b. normalizeUnicode (js_trim a) = normalizeUnicode (js_trim b)]"

definition seekSequence :: "string list \<Rightarrow> string list \<Rightarrow> nat \<Rightarrow> bool \<Rightarrow> nat option" where
  "seekSequence lines pattern startIndex eof =
     (if pattern = [] then None
      else first_some (\<lambda>compare. tryMatch lines pattern startIndex compare eof) line_passes)"

section \<open>Replacements\<close>

datatype patch_error =
    No_files | Unreadable string | No_context string | No_lines string

text \<open>A replacement: where it starts, how many lines it removes, the lines it puts there.\<close>

type_synonym replacement = "nat \<times> nat \<times> string list"

definition trim_last :: "string list \<Rightarrow> string list" where
  "trim_last xs = (if xs \<noteq> [] \<and> last xs = [] then butlast xs else xs)"

definition seek_old :: "string list \<Rightarrow> update_chunk \<Rightarrow> nat \<Rightarrow> replacement option" where
  "seek_old lines chunk lineIndex =
     (let pattern = old_lines chunk; newSlice = new_lines chunk; eof = is_end_of_file chunk in
      case seekSequence lines pattern lineIndex eof of
        Some found \<Rightarrow> Some (found, length pattern, newSlice)
      | None \<Rightarrow>
          if pattern \<noteq> [] \<and> last pattern = []
          then map_option (\<lambda>found. (found, length pattern - 1, trim_last newSlice))
                 (seekSequence lines (butlast pattern) lineIndex eof)
          else None)"

definition context_index :: "string list \<Rightarrow> update_chunk \<Rightarrow> nat \<Rightarrow> nat option" where
  "context_index lines chunk lineIndex =
     (case change_context chunk of
        None \<Rightarrow> Some lineIndex
      | Some c \<Rightarrow> if c = [] then Some lineIndex
                  else map_option Suc (seekSequence lines [c] lineIndex False))"

fun collect_replacements ::
  "string list \<Rightarrow> string \<Rightarrow> nat \<Rightarrow> update_chunk list \<Rightarrow> patch_error + replacement list" where
  "collect_replacements lines filePath lineIndex [] = Inr []"
| "collect_replacements lines filePath lineIndex (chunk # chunks) =
     (case context_index lines chunk lineIndex of
        None \<Rightarrow> Inl (No_context filePath)
      | Some i \<Rightarrow>
          if old_lines chunk = [] then
            (let insertionIdx = (if lines \<noteq> [] \<and> last lines = [] then length lines - 1 else length lines)
             in case collect_replacements lines filePath i chunks of
                  Inl e \<Rightarrow> Inl e
                | Inr rs \<Rightarrow> Inr ((insertionIdx, 0, new_lines chunk) # rs))
          else
            (case seek_old lines chunk i of
               None \<Rightarrow> Inl (No_lines filePath)
             | Some r \<Rightarrow>
                 (case collect_replacements lines filePath (fst r + fst (snd r)) chunks of
                    Inl e \<Rightarrow> Inl e | Inr rs \<Rightarrow> Inr (r # rs))))"

definition computeReplacements ::
  "string list \<Rightarrow> string \<Rightarrow> update_chunk list \<Rightarrow> patch_error + replacement list" where
  "computeReplacements lines filePath chunks =
     map_sum id (sort_key fst) (collect_replacements lines filePath 0 chunks)"

text \<open>\<open>splice\<close> removes the old lines, then puts the new ones in one by one.\<close>

definition js_splice :: "nat \<Rightarrow> nat \<Rightarrow> 'a list \<Rightarrow> 'a list \<Rightarrow> 'a list" where
  "js_splice i n items xs = take i xs @ items @ drop (i + n) xs"

definition apply_replacement :: "replacement \<Rightarrow> string list \<Rightarrow> string list" where
  "apply_replacement r result =
     (let (startIdx, oldLen, newSegment) = r in
      fold (\<lambda>j. js_splice (startIdx + j) 0 [newSegment ! j]) [0..<length newSegment]
        (js_splice startIdx oldLen [] result))"

definition applyReplacements :: "string list \<Rightarrow> replacement list \<Rightarrow> string list" where
  "applyReplacements lines replacements = foldr apply_replacement replacements lines"

section \<open>The new content\<close>

definition file_lines :: "string \<Rightarrow> string list" where
  "file_lines content = (let ls = js_split newline content in if last ls = [] then butlast ls else ls)"

definition with_final_newline :: "string list \<Rightarrow> string list" where
  "with_final_newline ls = (if ls = [] \<or> last ls \<noteq> [] then ls @ [[]] else ls)"

text \<open>The simple diff: the two texts line by line.\<close>

definition nth_line :: "string list \<Rightarrow> nat \<Rightarrow> string" where
  "nth_line ls i = (if i < length ls then ls ! i else [])"

definition diff_line :: "string \<Rightarrow> string \<Rightarrow> string" where
  "diff_line oldLine newLine =
     (if oldLine \<noteq> newLine
      then (if oldLine \<noteq> [] then ''-'' @ oldLine @ [newline] else []) @
           (if newLine \<noteq> [] then ''+'' @ newLine @ [newline] else [])
      else if oldLine \<noteq> [] then '' '' @ oldLine @ [newline] else [])"

definition generateUnifiedDiff :: "string \<Rightarrow> string \<Rightarrow> string" where
  "generateUnifiedDiff oldContent newContent =
     (let oldLines = js_split newline oldContent; newLines = js_split newline newContent;
          rows = map (\<lambda>i. (nth_line oldLines i, nth_line newLines i))
                   [0..<max (length oldLines) (length newLines)]
      in if list_ex (\<lambda>(a, b). a \<noteq> b) rows
         then ''@@ -1 +1 @@'' @ [newline] @ concat (map (\<lambda>(a, b). diff_line a b) rows) else [])"

text \<open>The content of the file, when it can be read, gives the diff and the new content.\<close>

definition deriveNewContentsFromChunks ::
  "string option \<Rightarrow> string \<Rightarrow> update_chunk list \<Rightarrow> patch_error + (string \<times> string)" where
  "deriveNewContentsFromChunks original filePath chunks =
     (case original of
        None \<Rightarrow> Inl (Unreadable filePath)
      | Some originalContent \<Rightarrow>
          (let originalLines = file_lines originalContent in
           case computeReplacements originalLines filePath chunks of
             Inl e \<Rightarrow> Inl e
           | Inr replacements \<Rightarrow>
               (let newContent = js_join [newline]
                      (with_final_newline (applyReplacements originalLines replacements))
                in Inr (generateUnifiedDiff originalContent newContent, newContent))))"

section \<open>Was the patch applied before?\<close>

fun chunks_present :: "string list \<Rightarrow> nat \<Rightarrow> update_chunk list \<Rightarrow> bool" where
  "chunks_present lines lineIndex [] \<longleftrightarrow> True"
| "chunks_present lines lineIndex (chunk # chunks) \<longleftrightarrow>
     (if new_lines chunk = [] then chunks_present lines lineIndex chunks
      else case context_index lines chunk lineIndex of
        None \<Rightarrow> False
      | Some i \<Rightarrow>
          (case seekSequence lines (new_lines chunk) i (is_end_of_file chunk) of
             None \<Rightarrow> False
           | Some found \<Rightarrow> chunks_present lines (found + length (new_lines chunk)) chunks))"

definition isChunksAlreadyApplied :: "string option \<Rightarrow> update_chunk list \<Rightarrow> bool" where
  "isChunksAlreadyApplied original chunks =
     (case original of None \<Rightarrow> False | Some content \<Rightarrow> chunks_present (file_lines content) 0 chunks)"

section \<open>All hunks\<close>

record affected_paths =
  added :: "string list"
  modified :: "string list"
  deleted :: "string list"

text \<open>The files by path; what a failing hunk leaves behind stays. A path counts as moved when the
  move path is not empty.\<close>

type_synonym files = "(string, string) jmap"

definition move_target :: "string option \<Rightarrow> string option" where
  "move_target m = (if truthy m then m else None)"

fun apply_hunk :: "hunk \<Rightarrow> files \<Rightarrow> affected_paths \<Rightarrow> (patch_error + affected_paths) \<times> files" where
  "apply_hunk (Add_hunk p contents) fs a = (Inr (a\<lparr>added := added a @ [p]\<rparr>), jset fs p contents)"
| "apply_hunk (Delete_hunk p) fs a =
     (case jget fs p of
        None \<Rightarrow> (Inl (Unreadable p), fs)
      | Some _ \<Rightarrow> (Inr (a\<lparr>deleted := deleted a @ [p]\<rparr>), jdel fs p))"
| "apply_hunk (Update_hunk p m chunks) fs a =
     (case deriveNewContentsFromChunks (jget fs p) p chunks of
        Inl e \<Rightarrow> (Inl e, fs)
      | Inr (_, content) \<Rightarrow>
          (case move_target m of
             Some t \<Rightarrow> (Inr (a\<lparr>modified := modified a @ [t]\<rparr>), jdel (jset fs t content) p)
           | None \<Rightarrow> (Inr (a\<lparr>modified := modified a @ [p]\<rparr>), jset fs p content)))"

fun apply_hunks :: "hunk list \<Rightarrow> files \<Rightarrow> affected_paths \<Rightarrow> (patch_error + affected_paths) \<times> files" where
  "apply_hunks [] fs a = (Inr a, fs)"
| "apply_hunks (h # hs) fs a =
     (case apply_hunk h fs a of (Inl e, fs1) \<Rightarrow> (Inl e, fs1) | (Inr a1, fs1) \<Rightarrow> apply_hunks hs fs1 a1)"

definition applyHunksToFiles :: "hunk list \<Rightarrow> files \<Rightarrow> (patch_error + affected_paths) \<times> files" where
  "applyHunksToFiles hunks fs =
     (if hunks = [] then (Inl No_files, fs)
      else apply_hunks hunks fs \<lparr>added = [], modified = [], deleted = []\<rparr>)"

definition applyPatch :: "string \<Rightarrow> files \<Rightarrow> (patch_error + affected_paths) option \<times> files" where
  "applyPatch patchText fs =
     (case parsePatch patchText of
        None \<Rightarrow> (None, fs)
      | Some hunks \<Rightarrow> (let (r, fs') = applyHunksToFiles hunks fs in (Some r, fs')))"

end
