(* ===== verification/Patch_Replace.thy ===== *)
theory Patch_Replace
  imports Patch_Apply "HOL-Library.Multiset"
begin

text \<open>
  What applying chunks does to the lines of a file (patch/index.ts): the search for lines against
  its four comparisons, and the replacements from the last to the first against one pass over the
  file.
\<close>

section \<open>The search\<close>

text \<open>The weakest of the four comparisons; each of the others implies it.\<close>

definition same_line :: "string \<Rightarrow> string \<Rightarrow> bool" where
  "same_line a b \<longleftrightarrow> normalizeUnicode (js_trim a) = normalizeUnicode (js_trim b)"

definition lines_match :: "string list \<Rightarrow> string list \<Rightarrow> nat \<Rightarrow> bool" where
  "lines_match lines pattern i \<longleftrightarrow>
     i + length pattern \<le> length lines \<and> list_all2 same_line (take (length pattern) (drop i lines)) pattern"

lemma js_trim_of_end: "js_trim_end a = js_trim_end b \<Longrightarrow> js_trim a = js_trim b"
proof -
  have "js_trim s = dropWhile js_space (js_trim_end s)" for s
  proof -
    have "rev (dropWhile js_space (rev (dropWhile js_space s))) =
          dropWhile js_space (rev (dropWhile js_space (rev s)))"
    proof (induction s)
      case (Cons c s)
      show ?case
      proof (cases "js_space c")
        case True
        then show ?thesis using Cons
          by (cases "\<forall>x \<in> set s. js_space x") (auto simp: dropWhile_append dropWhile_eq_Nil_conv dest: set_dropWhileD)
      next
        case False
        then show ?thesis by (auto simp: dropWhile_append)
      qed
    qed simp
    then show ?thesis by (simp add: js_trim_def js_trim_end_def)
  qed
  then show "js_trim_end a = js_trim_end b \<Longrightarrow> js_trim a = js_trim b" by simp
qed

lemma line_passes_weak: "compare \<in> set line_passes \<Longrightarrow> compare a b \<Longrightarrow> same_line a b"
  by (auto simp: line_passes_def same_line_def dest: js_trim_of_end)

lemma tryMatch_Some:
  assumes "tryMatch lines pattern start compare eof = Some i"
  shows "start \<le> i" "i + length pattern \<le> length lines"
    "list_all2 compare (take (length pattern) (drop i lines)) pattern"
proof -
  have "start \<le> i \<and> i + length pattern \<le> length lines \<and>
        list_all2 compare (take (length pattern) (drop i lines)) pattern"
  proof (cases "eof \<and> length pattern \<le> length lines \<and> start \<le> length lines - length pattern \<and>
                list_all2 compare (drop (length lines - length pattern) lines) pattern")
    case True
    then have "i = length lines - length pattern" using assms by (simp add: tryMatch_def)
    then show ?thesis using True by (simp del: list_all2_lengthD)
  next
    case False
    then have "List.find (\<lambda>i. list_all2 compare (take (length pattern) (drop i lines)) pattern)
        [start..<Suc (length lines) - length pattern] = Some i"
      using assms by (auto simp: tryMatch_def Let_def split: if_splits)
    then show ?thesis by (auto simp: find_Some_iff nth_upt)
  qed
  then show "start \<le> i" "i + length pattern \<le> length lines"
    "list_all2 compare (take (length pattern) (drop i lines)) pattern" by auto
qed

lemma tryMatch_None:
  assumes "tryMatch lines pattern start compare eof = None" "start \<le> i" "i + length pattern \<le> length lines"
  shows "\<not> list_all2 compare (take (length pattern) (drop i lines)) pattern"
proof -
  have "List.find (\<lambda>i. list_all2 compare (take (length pattern) (drop i lines)) pattern)
      [start..<Suc (length lines) - length pattern] = None"
    using assms(1) by (auto simp: tryMatch_def Let_def split: if_splits)
  then have "\<forall>k \<in> set [start..<Suc (length lines) - length pattern].
      \<not> list_all2 compare (take (length pattern) (drop k lines)) pattern"
    by (simp add: find_None_iff)
  moreover have "i \<in> set [start..<Suc (length lines) - length pattern]" using assms(2,3) by auto
  ultimately show ?thesis by blast
qed

lemma first_some_Some: "first_some f xs = Some y \<Longrightarrow> \<exists>x \<in> set xs. f x = Some y"
  by (induction xs) (auto split: option.splits)

lemma first_some_None: "first_some f xs = None \<longleftrightarrow> (\<forall>x \<in> set xs. f x = None)"
  by (induction xs) (auto split: option.splits)

lemma seekSequence_Some:
  assumes "seekSequence lines pattern start eof = Some i"
  shows "start \<le> i" "lines_match lines pattern i" "pattern \<noteq> []"
proof -
  obtain compare where c: "compare \<in> set line_passes" "tryMatch lines pattern start compare eof = Some i"
    using assms by (auto simp: seekSequence_def split: if_splits dest!: first_some_Some)
  note t = tryMatch_Some [OF c(2)]
  show "start \<le> i" by (rule t(1))
  have "list_all2 same_line (take (length pattern) (drop i lines)) pattern"
    by (rule list_all2_mono [OF t(3)]) (rule line_passes_weak [OF c(1)])
  then show "lines_match lines pattern i" using t(2) by (simp add: lines_match_def)
  show "pattern \<noteq> []" using assms by (auto simp: seekSequence_def)
qed

lemma seekSequence_None:
  assumes "seekSequence lines pattern start eof = None" "pattern \<noteq> []" "start \<le> i"
  shows "\<not> lines_match lines pattern i"
proof
  assume m: "lines_match lines pattern i"
  have last: "(\<lambda>a b. normalizeUnicode (js_trim a) = normalizeUnicode (js_trim b)) \<in> set line_passes"
    by (simp add: line_passes_def)
  have "tryMatch lines pattern start (\<lambda>a b. normalizeUnicode (js_trim a) = normalizeUnicode (js_trim b)) eof = None"
    using assms(1,2) last unfolding seekSequence_def by (simp add: first_some_None)
  from tryMatch_None [OF this assms(3)] show False
    using m unfolding lines_match_def same_line_def by blast
qed

text \<open>An exact match is preferred, and the first one is taken.\<close>

lemma seekSequence_exact:
  assumes "pattern \<noteq> []" "start \<le> i" "take (length pattern) (drop i lines) = pattern"
    and "\<not> (\<exists>j. start \<le> j \<and> j < i \<and> take (length pattern) (drop j lines) = pattern)"
  shows "seekSequence lines pattern start False = Some i"
proof -
  have len: "i + length pattern \<le> length lines"
  proof -
    have "length (take (length pattern) (drop i lines)) = length pattern" using assms(3) by simp
    then have "length pattern \<le> length lines - i" by simp
    then show ?thesis using assms(1) by (cases pattern) auto
  qed
  have "List.find (\<lambda>i. list_all2 (=) (take (length pattern) (drop i lines)) pattern)
      [start..<Suc (length lines) - length pattern] = Some i"
    unfolding find_Some_iff
  proof (intro exI [of _ "i - start"] conjI)
    show "i - start < length [start..<Suc (length lines) - length pattern]" using len assms(2) by simp
    show "list_all2 (=) (take (length pattern) (drop ([start..<Suc (length lines) - length pattern] ! (i - start)) lines)) pattern"
      using len assms(2,3) by (simp add: nth_upt list_all2_eq [symmetric])
    show "i = [start..<Suc (length lines) - length pattern] ! (i - start)"
      using len assms(2) by (simp add: nth_upt)
    show "\<forall>j<i - start. \<not> list_all2 (=)
        (take (length pattern) (drop ([start..<Suc (length lines) - length pattern] ! j) lines)) pattern"
      using len assms(4) by (auto simp: nth_upt list_all2_eq [symmetric])
  qed
  then have "tryMatch lines pattern start (=) False = Some i" by (simp add: tryMatch_def Let_def)
  then show ?thesis using assms(1) by (simp add: seekSequence_def line_passes_def)
qed

section \<open>The replacements\<close>

lemma apply_replacement_splice:
  assumes "s \<le> length xs"
  shows "apply_replacement (s, n, seg) xs = take s xs @ seg @ drop (s + n) xs"
proof -
  have "k \<le> length seg \<Longrightarrow>
      fold (\<lambda>j. js_splice (s + j) 0 [seg ! j]) [0..<k] (take s xs @ drop (s + n) xs) =
      take s xs @ take k seg @ drop (s + n) xs" for k
  proof (induction k)
    case (Suc k)
    then show ?case using assms by (simp add: js_splice_def take_Suc_conv_app_nth min_def)
  qed simp
  from this [of "length seg"] show ?thesis by (simp add: apply_replacement_def js_splice_def)
qed

text \<open>One pass: the lines up to a replacement are kept, its lines are put, its old ones skipped.\<close>

fun rebuilt :: "nat \<Rightarrow> string list \<Rightarrow> replacement list \<Rightarrow> string list" where
  "rebuilt i lines [] = drop i lines"
| "rebuilt i lines ((s, n, seg) # rs) = take (s - i) (drop i lines) @ seg @ rebuilt (s + n) lines rs"

text \<open>The replacements follow one another and stay within the file.\<close>

fun in_order :: "nat \<Rightarrow> nat \<Rightarrow> replacement list \<Rightarrow> bool" where
  "in_order i len [] \<longleftrightarrow> i \<le> len"
| "in_order i len ((s, n, seg) # rs) \<longleftrightarrow> i \<le> s \<and> s + n \<le> len \<and> in_order (s + n) len rs"

lemma in_order_le: "in_order i len rs \<Longrightarrow> i \<le> len"
  by (cases rs) auto

lemma applyReplacements_pass:
  assumes "in_order i (length lines) rs"
  shows "applyReplacements lines rs = take i lines @ rebuilt i lines rs"
  using assms
proof (induction rs arbitrary: i)
  case Nil
  then show ?case by (simp add: applyReplacements_def)
next
  case (Cons r rs)
  obtain s n seg where r: "r = (s, n, seg)" by (cases r) auto
  have o: "i \<le> s" "s + n \<le> length lines" "in_order (s + n) (length lines) rs" using Cons.prems r by auto
  have rest: "applyReplacements lines rs = take (s + n) lines @ rebuilt (s + n) lines rs"
    by (rule Cons.IH [OF o(3)])
  have "applyReplacements lines (r # rs) = apply_replacement r (applyReplacements lines rs)"
    by (simp add: applyReplacements_def)
  also have "\<dots> = take s lines @ seg @ rebuilt (s + n) lines rs"
    unfolding r rest using o by (subst apply_replacement_splice) (simp_all add: min_def)
  also have "take s lines = take i lines @ take (s - i) (drop i lines)"
    using o(1) by (simp flip: take_add)
  finally show ?case using r by simp
qed

section \<open>The replacements of an update\<close>

text \<open>Why a replacement is made: new lines at the end of the file, or old lines that match.\<close>

definition justified :: "string list \<Rightarrow> update_chunk \<Rightarrow> replacement \<Rightarrow> bool" where
  "justified lines chunk r \<longleftrightarrow>
     old_lines chunk = [] \<and> r = (length lines, 0, new_lines chunk) \<or>
     lines_match lines (old_lines chunk) (fst r) \<and> old_lines chunk \<noteq> [] \<and>
       snd r = (length (old_lines chunk), new_lines chunk) \<or>
     old_lines chunk \<noteq> [] \<and> last (old_lines chunk) = [] \<and> lines_match lines (butlast (old_lines chunk)) (fst r) \<and>
       snd r = (length (old_lines chunk) - 1, trim_last (new_lines chunk))"

lemma context_index_Some:
  assumes "context_index lines chunk i = Some j" and "i \<le> length lines"
  shows "i \<le> j \<and> j \<le> length lines"
proof (cases "j = i")
  case False
  then obtain c k where k: "seekSequence lines [c] i False = Some k" "j = Suc k"
    using assms by (auto simp: context_index_def split: option.splits if_splits)
  from seekSequence_Some [OF k(1)] show ?thesis using k(2) by (simp add: lines_match_def)
qed (use assms in simp)

lemma seek_old_Some:
  assumes "seek_old lines chunk i = Some r"
  shows "i \<le> fst r \<and> 0 < fst (snd r) \<and> fst r + fst (snd r) \<le> length lines \<and> justified lines chunk r"
proof (cases "seekSequence lines (old_lines chunk) i (is_end_of_file chunk)")
  case (Some found)
  then show ?thesis using assms seekSequence_Some [OF Some]
    by (auto simp: seek_old_def lines_match_def justified_def)
next
  case None
  then obtain found where f: "seekSequence lines (butlast (old_lines chunk)) i (is_end_of_file chunk) = Some found"
    "old_lines chunk \<noteq> []" "last (old_lines chunk) = []"
    "r = (found, length (old_lines chunk) - 1, trim_last (new_lines chunk))"
    using assms by (auto simp: seek_old_def Let_def split: if_splits)
  note m = seekSequence_Some [OF f(1)]
  have "0 < length (butlast (old_lines chunk))" using m(3) by blast
  then have "0 < length (old_lines chunk) - 1" by simp
  then show ?thesis using f m by (auto simp: lines_match_def justified_def)
qed

lemma in_order_mono: "in_order j len rs \<Longrightarrow> i \<le> j \<Longrightarrow> in_order i len rs"
  by (cases rs) auto

lemma in_order_sorted: "in_order i len rs \<Longrightarrow> sorted (map fst rs) \<and> (\<forall>r \<in> set rs. i \<le> fst r)"
  by (induction i len rs rule: in_order.induct) force+

lemma in_order_end:
  "in_order i len rs \<Longrightarrow> \<forall>r \<in> set as. \<exists>seg. r = (len, 0, seg) \<Longrightarrow> in_order i len (rs @ as)"
proof (induction i len rs rule: in_order.induct)
  case (1 i len)
  then show ?case
  proof (induction as arbitrary: i)
    case (Cons a as)
    then obtain seg where "a = (len, 0, seg)" by auto
    then show ?case using Cons.IH [of len] Cons.prems by auto
  qed simp
qed auto

text \<open>The file does not end in an empty line; then additions go to its very end.\<close>

definition end_solid :: "string list \<Rightarrow> bool" where
  "end_solid lines \<longleftrightarrow> lines = [] \<or> last lines \<noteq> []"

lemma collected:
  assumes "collect_replacements lines p i chunks = Inr rs" and "i \<le> length lines" and "end_solid lines"
  shows "in_order i (length lines) (filter (\<lambda>r. fst r < length lines) rs) \<and>
         (\<forall>r \<in> set rs. \<not> fst r < length lines \<longrightarrow> (\<exists>seg. r = (length lines, 0, seg))) \<and>
         list_all2 (justified lines) chunks rs"
  using assms(1,2)
proof (induction chunks arbitrary: i rs)
  case (Cons chunk chunks)
  obtain j where j: "context_index lines chunk i = Some j" using Cons.prems by (auto split: option.splits)
  have ij: "i \<le> j" "j \<le> length lines" using context_index_Some [OF j Cons.prems(2)] by auto
  show ?case
  proof (cases "old_lines chunk = []")
    case True
    then obtain rs' where rs: "collect_replacements lines p j chunks = Inr rs'"
      "rs = (length lines, 0, new_lines chunk) # rs'"
      using Cons.prems(1) j assms(3) by (auto simp: end_solid_def split: sum.splits if_splits)
    then show ?thesis using Cons.IH [OF rs(1) ij(2)] in_order_mono ij(1) True
      by (auto simp: justified_def)
  next
    case False
    then obtain r rs' where r: "seek_old lines chunk j = Some r" "rs = r # rs'"
      "collect_replacements lines p (fst r + fst (snd r)) chunks = Inr rs'"
      using Cons.prems(1) j by (auto split: sum.splits option.splits)
    note s = seek_old_Some [OF r(1)]
    then have "fst r < length lines" by auto
    then show ?thesis using Cons.IH [OF r(3)] s ij(1) r(2) by (cases r) auto
  qed
qed simp

lemma sort_collected:
  assumes "in_order i len (filter (\<lambda>r. fst r < len) rs)"
    and "\<forall>r \<in> set rs. \<not> fst r < len \<longrightarrow> (\<exists>seg. r = (len, 0, seg))"
  shows "sort_key fst rs = filter (\<lambda>r. fst r < len) rs @ filter (\<lambda>r. \<not> fst r < len) rs"
proof (rule properties_for_sort_key)
  let ?m = "filter (\<lambda>r. fst r < len) rs" and ?a = "filter (\<lambda>r. \<not> fst r < len) rs"
  show "mset (?m @ ?a) = mset rs" by (simp add: mset_filter flip: multiset_partition)
  show "filter (\<lambda>x. fst k = fst x) (?m @ ?a) = filter (\<lambda>x. fst k = fst x) rs" if "k \<in> set (?m @ ?a)" for k
  proof (cases "fst k < len")
    case True
    then have "filter (\<lambda>x. fst k = fst x) ?m = filter (\<lambda>x. fst k = fst x) rs"
      "filter (\<lambda>x. fst k = fst x) ?a = []" by (induction rs) auto
    then show ?thesis by simp
  next
    case False
    then have "filter (\<lambda>x. fst k = fst x) ?a = filter (\<lambda>x. fst k = fst x) rs"
      "filter (\<lambda>x. fst k = fst x) ?m = []" by (induction rs) auto
    then show ?thesis by simp
  qed
  have "map fst ?a = replicate (length ?a) len"
    using assms(2) by (induction rs) auto
  then show "sorted (map fst (?m @ ?a))"
    using in_order_sorted [OF assms(1)] by (auto simp: sorted_append)
qed

lemma computeReplacements_spec:
  assumes "computeReplacements lines p chunks = Inr rs" and "end_solid lines"
  shows "in_order 0 (length lines) rs" "applyReplacements lines rs = rebuilt 0 lines rs"
    "\<exists>rs'. mset rs = mset rs' \<and> list_all2 (justified lines) chunks rs'"
proof -
  obtain rs' where rs': "collect_replacements lines p 0 chunks = Inr rs'" "rs = sort_key fst rs'"
    using assms(1) by (cases "collect_replacements lines p 0 chunks") (auto simp: computeReplacements_def)
  note c = collected [OF rs'(1) _ assms(2)]
  have "rs = filter (\<lambda>r. fst r < length lines) rs' @ filter (\<lambda>r. \<not> fst r < length lines) rs'"
    unfolding rs'(2) using c by (intro sort_collected) auto
  moreover have "\<forall>r \<in> set (filter (\<lambda>r. \<not> fst r < length lines) rs'). \<exists>seg. r = (length lines, 0, seg)"
    using c by simp
  ultimately show o: "in_order 0 (length lines) rs" using c in_order_end by force
  show "applyReplacements lines rs = rebuilt 0 lines rs" using applyReplacements_pass [OF o] by simp
  show "\<exists>rs'. mset rs = mset rs' \<and> list_all2 (justified lines) chunks rs'" using c rs'(2) by auto
qed

end
