(* ===== verification/Patch_Properties.thy ===== *)
theory Patch_Properties
  imports Patch_Replace
begin

text \<open>
  The properties of the application of a patch to one file (patch/index.ts).
\<close>

section \<open>Searching\<close>

text \<open>
  The search for old lines returns a place at or after its start where they match up to
  surrounding blanks and punctuation; none exists when it fails; and when the lines themselves
  occur, the first such place is the one returned.
\<close>

theorem seek_spec:
  "case seekSequence lines pattern start eof of
     Some i \<Rightarrow> start \<le> i \<and> lines_match lines pattern i \<and> pattern \<noteq> []
   | None \<Rightarrow> \<not> (\<exists>i. pattern \<noteq> [] \<and> start \<le> i \<and> lines_match lines pattern i)"
  using seekSequence_Some seekSequence_None by (auto split: option.split)

section \<open>One pass over the file\<close>


section \<open>Diffs\<close>

text \<open>A diff: lines to keep, old lines and new lines, again and again, and the lines at the end.\<close>

type_synonym edits = "(string list \<times> string list \<times> string list) list"

fun diff_old :: "edits \<Rightarrow> string list \<Rightarrow> string list" where
  "diff_old [] end_lines = end_lines"
| "diff_old ((keep, olds, news) # es) end_lines = keep @ olds @ diff_old es end_lines"

fun diff_new :: "edits \<Rightarrow> string list \<Rightarrow> string list" where
  "diff_new [] end_lines = end_lines"
| "diff_new ((keep, olds, news) # es) end_lines = keep @ news @ diff_new es end_lines"

definition diff_chunks :: "edits \<Rightarrow> update_chunk list" where
  "diff_chunks es =
     map (\<lambda>(keep, olds, news). \<lparr>old_lines = olds, new_lines = news, change_context = None,
                               is_end_of_file = False\<rparr>) es"

text \<open>The old lines of each edit do not occur before it, after the edit that precedes it.\<close>

fun clear_diff :: "edits \<Rightarrow> string list \<Rightarrow> bool" where
  "clear_diff [] end_lines \<longleftrightarrow> True"
| "clear_diff ((keep, olds, news) # es) end_lines \<longleftrightarrow>
     olds \<noteq> [] \<and>
     \<not> list_ex (\<lambda>j. take (length olds) (drop j (keep @ olds @ diff_old es end_lines)) = olds) [0..<length keep] \<and>
     clear_diff es end_lines"

fun diff_places :: "nat \<Rightarrow> edits \<Rightarrow> replacement list" where
  "diff_places i [] = []"
| "diff_places i ((keep, olds, news) # es) =
     (i + length keep, length olds, news) # diff_places (i + length keep + length olds) es"

lemma collect_diff:
  "clear_diff es end_lines \<Longrightarrow>
   collect_replacements (pre @ diff_old es end_lines) p (length pre) (diff_chunks es) =
   Inr (diff_places (length pre) es)"
proof (induction es arbitrary: pre)
  case (Cons e es)
  obtain keep olds news where e: "e = (keep, olds, news)" by (cases e) auto
  let ?lines = "pre @ diff_old (e # es) end_lines"
  have o: "olds \<noteq> []" and c: "clear_diff es end_lines"
    and first: "\<not> list_ex (\<lambda>j. take (length olds) (drop j (keep @ olds @ diff_old es end_lines)) = olds) [0..<length keep]"
    using Cons.prems e by auto
  have "seekSequence ?lines olds (length pre) False = Some (length pre + length keep)"
  proof (rule seekSequence_exact [OF o])
    show "take (length olds) (drop (length pre + length keep) ?lines) = olds" by (simp add: e)
    show "\<not> (\<exists>j. length pre \<le> j \<and> j < length pre + length keep \<and> take (length olds) (drop j ?lines) = olds)"
    proof
      assume "\<exists>j. length pre \<le> j \<and> j < length pre + length keep \<and> take (length olds) (drop j ?lines) = olds"
      then obtain j where j: "length pre \<le> j" "j < length pre + length keep"
        "take (length olds) (drop j ?lines) = olds" by blast
      then have "take (length olds) (drop (j - length pre) (keep @ olds @ diff_old es end_lines)) = olds"
        by (simp add: e drop_append)
      moreover have "j - length pre \<in> set [0..<length keep]" using j by auto
      ultimately show False using first by (auto simp: list_ex_iff)
    qed
  qed simp
  moreover have "collect_replacements ((pre @ keep @ olds) @ diff_old es end_lines) p
      (length (pre @ keep @ olds)) (diff_chunks es) = Inr (diff_places (length (pre @ keep @ olds)) es)"
    by (rule Cons.IH [OF c])
  ultimately show ?case
    using o by (simp add: e diff_chunks_def context_index_def seek_old_def add.assoc)
qed (simp add: diff_chunks_def)

lemma diff_places_pass:
  "clear_diff es end_lines \<Longrightarrow>
   in_order (length pre) (length (pre @ diff_old es end_lines)) (diff_places (length pre) es) \<and>
   rebuilt (length pre) (pre @ diff_old es end_lines) (diff_places (length pre) es) = diff_new es end_lines"
proof (induction es arbitrary: pre)
  case (Cons e es)
  obtain keep olds news where e: "e = (keep, olds, news)" by (cases e) auto
  then show ?case using Cons.IH [of "pre @ keep @ olds"] Cons.prems by (simp add: add.assoc)
qed simp

lemma applies_diff:
  assumes "clear_diff es end_lines" and "file_lines content = diff_old es end_lines"
  shows "\<exists>d. deriveNewContentsFromChunks (Some content) p (diff_chunks es) =
           Inr (d, js_join [newline] (with_final_newline (diff_new es end_lines)))"
proof -
  have c: "collect_replacements (diff_old es end_lines) p 0 (diff_chunks es) = Inr (diff_places 0 es)"
    using collect_diff [OF assms(1), of "[]"] by simp
  have o: "in_order 0 (length (diff_old es end_lines)) (diff_places 0 es)"
    and r: "rebuilt 0 (diff_old es end_lines) (diff_places 0 es) = diff_new es end_lines"
    using diff_places_pass [OF assms(1), of "[]"] by auto
  have "sort_key fst (diff_places 0 es) = diff_places 0 es"
    by (rule sort_key_id_if_sorted) (use in_order_sorted [OF o] in blast)
  then have "computeReplacements (diff_old es end_lines) p (diff_chunks es) = Inr (diff_places 0 es)"
    using c by (simp add: computeReplacements_def)
  then show ?thesis
    using assms(2) applyReplacements_pass [OF o] r by (simp add: deriveNewContentsFromChunks_def Let_def)
qed

text \<open>
  C24 (functional): Applying the chunks of a diff to its old lines gives its new lines, when the old lines of each
  edit do not occur earlier.
\<close>

theorem patch_applies_diff:
  assumes "clear_diff es end_lines" and "file_lines content = diff_old es end_lines"
  shows "\<exists>d. deriveNewContentsFromChunks (Some content) p (diff_chunks es) =
           Inr (d, js_join [newline] (with_final_newline (diff_new es end_lines)))"
  by (rule applies_diff [OF assms])

theorem patch_applies_diff_witness:
  "\<exists>d. deriveNewContentsFromChunks (Some (js_join [newline] [''a'', ''b'', ''c'', ''b'', '''']))
         ''f'' (diff_chunks [([''a''], [''b''], [''x'', ''y'']), ([''c''], [''b''], [])]) =
       Inr (d, js_join [newline] [''a'', ''x'', ''y'', ''c'', ''''])"
proof -
  have "clear_diff [([''a''], [''b''], [''x'', ''y'']), ([''c''], [''b''], [])] []" by simp
  moreover have "file_lines (js_join [newline] [''a'', ''b'', ''c'', ''b'', '''']) =
      diff_old [([''a''], [''b''], [''x'', ''y'']), ([''c''], [''b''], [])] []"
    by (simp add: file_lines_def)
  moreover have "js_join [newline] (with_final_newline
      (diff_new [([''a''], [''b''], [''x'', ''y'']), ([''c''], [''b''], [])] [])) =
      js_join [newline] [''a'', ''x'', ''y'', ''c'', '''']" by (simp add: with_final_newline_def)
  ultimately show ?thesis using patch_applies_diff by metis
qed


text \<open>
  A file that ends in an empty line loses it: the last line break is not written, although no
  chunk touches the end of the file. It does so even for an update without chunks.
\<close>

theorem trailing_empty_line_lost:
  assumes "clear_diff es end_lines" and "end_lines \<noteq> []" and "last end_lines = []"
    and "\<not> list_ex (\<lambda>l. newline \<in> set l) (diff_old es end_lines)"
  shows "\<exists>d. deriveNewContentsFromChunks (Some (js_join [newline] (diff_old es end_lines) @ [newline])) p
               (diff_chunks es) = Inr (d, js_join [newline] (diff_new es end_lines))"
proof -
  have ends: "xs \<noteq> [] \<Longrightarrow> js_join [newline] xs @ [newline] = js_join [newline] (xs @ [[]])" for xs
    by (simp add: js_join_append)
  have old: "diff_old es end_lines \<noteq> []" using assms(2) by (induction es) auto
  have "js_split newline (js_join [newline] (diff_old es end_lines @ [[]])) = diff_old es end_lines @ [[]]"
    using assms(4) by (intro js_split_join) (auto simp: list_ex_iff)
  then have "file_lines (js_join [newline] (diff_old es end_lines) @ [newline]) = diff_old es end_lines"
    unfolding ends [OF old] by (simp add: file_lines_def)
  from applies_diff [OF assms(1) this] obtain d where
    "deriveNewContentsFromChunks (Some (js_join [newline] (diff_old es end_lines) @ [newline])) p
       (diff_chunks es) = Inr (d, js_join [newline] (with_final_newline (diff_new es end_lines)))" by blast
  moreover have "diff_new es end_lines \<noteq> [] \<and> last (diff_new es end_lines) = []"
    using assms(2,3) by (induction es) auto
  ultimately show ?thesis by (simp add: with_final_newline_def)
qed

theorem trailing_empty_line_lost_witness:
  "\<exists>d. deriveNewContentsFromChunks (Some (js_join [newline] (diff_old [([], [''a''], [''b''])] [[]]) @ [newline]))
         ''f'' (diff_chunks [([], [''a''], [''b''])]) =
       Inr (d, js_join [newline] (diff_new [([], [''a''], [''b''])] [[]]))"
  by (rule trailing_empty_line_lost) simp_all

end
