(* ===== verification/Apply_Patch_Tool.thy ===== *)
theory Apply_Patch_Tool
  imports Patch_Apply
begin

text \<open>
  The apply_patch tool (tool/apply_patch.ts): every hunk is planned against the files as they are,
  then permission is asked, then the changes are made one after the other. Resolving a path with
  its checks, and the answer to the question, are parameters; the files are the regular files.
\<close>

datatype tool_error =
    Bad_patch | No_hunks | Bad_path string | Missing_file string | Patch_failed patch_error
  | Refused | Write_failed string

datatype change_kind = Change_add | Change_update | Change_move string | Change_delete

record file_change =
  change_file :: string
  change_old :: string
  change_new :: string
  change_kind :: change_kind

text \<open>What a hunk comes to: a change, or \<open>None\<close> when it is found to be applied already.\<close>

definition plan_add :: "files \<Rightarrow> string \<Rightarrow> string \<Rightarrow> file_change option" where
  "plan_add fs filePath contents =
     (let oldContent = (case jget fs filePath of Some t \<Rightarrow> t | None \<Rightarrow> []);
          newContent = (if contents = [] \<or> js_ends_with contents [newline] then contents
                        else contents @ [newline])
      in if oldContent = newContent then None
         else Some \<lparr>change_file = filePath, change_old = oldContent, change_new = newContent,
                    change_kind = Change_add\<rparr>)"

definition plan_update ::
  "(string \<Rightarrow> string option) \<Rightarrow> files \<Rightarrow> string \<Rightarrow> string option \<Rightarrow> update_chunk list \<Rightarrow>
   tool_error + file_change option" where
  "plan_update resolve fs filePath movePath chunks =
     (case jget fs filePath of
        None \<Rightarrow> Inl (Missing_file filePath)
      | Some oldContent \<Rightarrow>
          (case deriveNewContentsFromChunks (Some oldContent) filePath chunks of
             Inl e \<Rightarrow> if isChunksAlreadyApplied (Some oldContent) chunks then Inr None
                      else Inl (Patch_failed e)
           | Inr (_, newContent) \<Rightarrow>
               (case move_target movePath of
                  None \<Rightarrow>
                    if oldContent = newContent then Inr None
                    else Inr (Some \<lparr>change_file = filePath, change_old = oldContent,
                                    change_new = newContent, change_kind = Change_update\<rparr>)
                | Some m \<Rightarrow>
                    (case resolve m of
                       None \<Rightarrow> Inl (Bad_path m)
                     | Some target \<Rightarrow>
                         Inr (Some \<lparr>change_file = filePath, change_old = oldContent,
                                    change_new = newContent, change_kind = Change_move target\<rparr>)))))"

definition plan_delete :: "files \<Rightarrow> string \<Rightarrow> file_change option" where
  "plan_delete fs filePath =
     map_option (\<lambda>t. \<lparr>change_file = filePath, change_old = t, change_new = [],
                      change_kind = Change_delete\<rparr>) (jget fs filePath)"

fun hunk_path :: "hunk \<Rightarrow> string" where
  "hunk_path (Add_hunk p c) = p"
| "hunk_path (Delete_hunk p) = p"
| "hunk_path (Update_hunk p m cs) = p"

definition plan_hunk :: "(string \<Rightarrow> string option) \<Rightarrow> files \<Rightarrow> hunk \<Rightarrow> tool_error + file_change option" where
  "plan_hunk resolve fs h =
     (case resolve (hunk_path h) of
        None \<Rightarrow> Inl (Bad_path (hunk_path h))
      | Some filePath \<Rightarrow>
          (case h of
             Add_hunk p contents \<Rightarrow> Inr (plan_add fs filePath contents)
           | Update_hunk p movePath chunks \<Rightarrow> plan_update resolve fs filePath movePath chunks
           | Delete_hunk p \<Rightarrow> Inr (plan_delete fs filePath)))"

text \<open>The changes, and the number of hunks that were skipped.\<close>

fun plan_hunks :: "(string \<Rightarrow> string option) \<Rightarrow> files \<Rightarrow> hunk list \<Rightarrow> tool_error + (file_change list \<times> nat)" where
  "plan_hunks resolve fs [] = Inr ([], 0)"
| "plan_hunks resolve fs (h # hs) =
     (case plan_hunk resolve fs h of
        Inl e \<Rightarrow> Inl e
      | Inr c \<Rightarrow>
          (case plan_hunks resolve fs hs of
             Inl e \<Rightarrow> Inl e
           | Inr (cs, skips) \<Rightarrow>
               Inr (case c of Some x \<Rightarrow> (x # cs, skips) | None \<Rightarrow> (cs, Suc skips))))"

definition unlink :: "string \<Rightarrow> files \<Rightarrow> files option" where
  "unlink p fs = (if jget fs p = None then None else Some (jdel fs p))"

text \<open>One change with the checks after it; \<open>False\<close> when it throws, with the files left then.\<close>

definition make_change :: "file_change \<Rightarrow> files \<Rightarrow> bool \<times> files" where
  "make_change c fs =
     (case change_kind c of
        Change_add \<Rightarrow> (True, jset fs (change_file c) (change_new c))
      | Change_update \<Rightarrow> (True, jset fs (change_file c) (change_new c))
      | Change_move target \<Rightarrow>
          (let fs1 = jset fs target (change_new c) in
           case unlink (change_file c) fs1 of
             None \<Rightarrow> (False, fs1)
           | Some fs2 \<Rightarrow> (jget fs2 target = Some (change_new c), fs2))
      | Change_delete \<Rightarrow>
          (case unlink (change_file c) fs of None \<Rightarrow> (False, fs) | Some fs1 \<Rightarrow> (True, fs1)))"

fun make_changes :: "file_change list \<Rightarrow> files \<Rightarrow> (tool_error + unit) \<times> files" where
  "make_changes [] fs = (Inr (), fs)"
| "make_changes (c # cs) fs =
     (case make_change c fs of
        (True, fs1) \<Rightarrow> make_changes cs fs1
      | (False, fs1) \<Rightarrow> (Inl (Write_failed (change_file c)), fs1))"

datatype tool_result = Already_applied nat | Applied "file_change list"

definition apply_patch_tool ::
  "(string \<Rightarrow> string option) \<Rightarrow> (file_change list \<Rightarrow> bool) \<Rightarrow> string \<Rightarrow> files \<Rightarrow>
   (tool_error + tool_result) \<times> files" where
  "apply_patch_tool resolve granted patchText fs =
     (case parsePatch patchText of
        None \<Rightarrow> (Inl Bad_patch, fs)
      | Some hunks \<Rightarrow>
          if hunks = [] then (Inl No_hunks, fs)
          else case plan_hunks resolve fs hunks of
            Inl e \<Rightarrow> (Inl e, fs)
          | Inr (fileChanges, idempotentSkips) \<Rightarrow>
              if 0 < idempotentSkips \<and> fileChanges = [] then (Inr (Already_applied idempotentSkips), fs)
              else if \<not> granted fileChanges then (Inl Refused, fs)
              else case make_changes fileChanges fs of
                (Inl e, fs1) \<Rightarrow> (Inl e, fs1)
              | (Inr _, fs1) \<Rightarrow> (Inr (Applied fileChanges), fs1))"

end
