(* ===== verification/Apply_Patch_Properties.thy ===== *)
theory Apply_Patch_Properties
  imports Apply_Patch_Tool Patch_Replace
begin

text \<open>
  The properties of the apply_patch tool (tool/apply_patch.ts): when it writes and what, the state
  of the files after a success, and four ways to lose or to skip a change.
\<close>

section \<open>The paths of a change\<close>

definition change_paths :: "file_change \<Rightarrow> string list" where
  "change_paths c = change_file c # (case change_kind c of Change_move t \<Rightarrow> [t] | _ \<Rightarrow> [])"

definition named_paths :: "(string \<Rightarrow> string option) \<Rightarrow> hunk \<Rightarrow> string list" where
  "named_paths resolve h =
     List.map_filter resolve
       (hunk_path h # (case h of Update_hunk p (Some m) cs \<Rightarrow> [m] | _ \<Rightarrow> []))"

lemma plan_hunk_paths:
  assumes "plan_hunk resolve fs h = Inr (Some c)"
  shows "set (change_paths c) \<subseteq> set (named_paths resolve h)"
proof (cases h)
  case (Add_hunk p contents)
  then show ?thesis using assms
    by (auto simp: plan_hunk_def plan_add_def Let_def named_paths_def change_paths_def map_filter_simps
             split: option.splits if_splits)
next
  case (Delete_hunk p)
  then show ?thesis using assms
    by (auto simp: plan_hunk_def plan_delete_def named_paths_def change_paths_def map_filter_simps
             split: option.splits)
next
  case (Update_hunk p m chunks)
  then show ?thesis using assms
    by (auto simp: plan_hunk_def plan_update_def named_paths_def change_paths_def map_filter_simps
               move_target_def truthy_def
             split: option.splits sum.splits if_splits)
qed

lemma plan_hunks_paths:
  "plan_hunks resolve fs hs = Inr (cs, n) \<Longrightarrow>
   set (concat (map change_paths cs)) \<subseteq> set (concat (map (named_paths resolve) hs))"
proof (induction hs arbitrary: cs n)
  case (Cons h hs)
  obtain c cs' n' where c: "plan_hunk resolve fs h = Inr c" "plan_hunks resolve fs hs = Inr (cs', n')"
    using Cons.prems by (auto split: sum.splits prod.splits)
  then show ?case using Cons plan_hunk_paths [of resolve fs h] by (cases c) fastforce+
qed simp

lemma make_change_frame:
  "make_change c fs = (ok, fs') \<Longrightarrow> q \<notin> set (change_paths c) \<Longrightarrow> jget fs' q = jget fs q"
  by (auto simp: make_change_def change_paths_def unlink_def Let_def update_conv' delete_conv'
           split: change_kind.splits option.splits if_splits)

lemma make_changes_frame:
  "make_changes cs fs = (r, fs') \<Longrightarrow> q \<notin> set (concat (map change_paths cs)) \<Longrightarrow> jget fs' q = jget fs q"
proof (induction cs arbitrary: fs)
  case (Cons c cs)
  obtain ok fs1 where c: "make_change c fs = (ok, fs1)" by (cases "make_change c fs")
  have "jget fs1 q = jget fs q" using make_change_frame [OF c] Cons.prems(2) by simp
  then show ?case using Cons c by (cases ok) auto
qed simp

text \<open>
  C5 (safety): Nothing is written before all hunks are planned and permission is given; what is written then
  are files that the hunks name. Every other file is as it was, also after a failure.
\<close>

theorem apply_patch_writes_with_permission:
  assumes "apply_patch_tool resolve granted t fs = (r, fs')"
  shows "fs' = fs \<or>
     (\<exists>hs cs n. parsePatch t = Some hs \<and> plan_hunks resolve fs hs = Inr (cs, n) \<and> granted cs \<and>
        \<not> (\<exists>q. q \<notin> set (concat (map (named_paths resolve) hs)) \<and> jget fs' q \<noteq> jget fs q))"
proof (cases "parsePatch t")
  case (Some hs)
  show ?thesis
  proof (cases "plan_hunks resolve fs hs")
    case (Inr x)
    obtain cs n where x: "x = (cs, n)" by (cases x)
    show ?thesis
    proof (cases "fs' = fs")
      case False
      obtain r1 fs1 where m: "make_changes cs fs = (r1, fs1)" by (cases "make_changes cs fs")
      have "granted cs \<and> fs' = fs1"
        using False assms Some Inr x m
        by (auto simp: apply_patch_tool_def split: if_splits prod.splits sum.splits)
      then show ?thesis
        using Some Inr x make_changes_frame [OF m] plan_hunks_paths [of resolve fs hs cs n] by blast
    qed simp
  qed (use assms Some in \<open>auto simp: apply_patch_tool_def split: if_splits\<close>)
qed (use assms in \<open>simp add: apply_patch_tool_def\<close>)

section \<open>After a success\<close>

text \<open>What a change has to have done to the files.\<close>

definition effective :: "files \<Rightarrow> file_change \<Rightarrow> bool" where
  "effective fs c \<longleftrightarrow>
     (case change_kind c of
        Change_move t \<Rightarrow> jget fs t = Some (change_new c) \<and> jget fs (change_file c) = None
      | Change_delete \<Rightarrow> jget fs (change_file c) = None
      | _ \<Rightarrow> jget fs (change_file c) = Some (change_new c))"

lemma make_change_effective:
  "make_change c fs = (True, fs') \<Longrightarrow> distinct (change_paths c) \<Longrightarrow> effective fs' c"
  by (auto simp: make_change_def effective_def change_paths_def unlink_def Let_def update_conv' delete_conv'
           split: change_kind.splits option.splits if_splits)

lemma effective_frame:
  "effective fs c \<Longrightarrow> \<not> (\<exists>q \<in> set (change_paths c). jget fs' q \<noteq> jget fs q) \<Longrightarrow> effective fs' c"
  by (auto simp: effective_def change_paths_def split: change_kind.splits)

lemma make_changes_effective:
  "make_changes cs fs = (Inr (), fs') \<Longrightarrow> distinct (concat (map change_paths cs)) \<Longrightarrow> list_all (effective fs') cs"
proof (induction cs arbitrary: fs)
  case (Cons c cs)
  obtain fs1 where c: "make_change c fs = (True, fs1)" "make_changes cs fs1 = (Inr (), fs')"
    using Cons.prems(1) by (auto split: prod.splits bool.splits)
  have "effective fs1 c" using make_change_effective [OF c(1)] Cons.prems(2) by simp
  moreover have "jget fs' q = jget fs1 q" if "q \<in> set (change_paths c)" for q
    using make_changes_frame [OF c(2)] that Cons.prems(2) by auto
  ultimately have "effective fs' c" using effective_frame by blast
  then show ?case using Cons.IH [OF c(2)] Cons.prems(2) by simp
qed simp

text \<open>
  C34 (functional): When the tool reports its changes as applied and no two of them touch the same path, each has
  been made: written files have the planned content, moved and deleted ones are gone.
\<close>

theorem apply_patch_success:
  assumes "apply_patch_tool resolve granted t fs = (Inr (Applied cs), fs')"
    and "distinct (concat (map change_paths cs))"
  shows "list_all (effective fs') cs"
proof -
  have "make_changes cs fs = (Inr (), fs')"
    using assms(1) unfolding apply_patch_tool_def
    by (auto split: option.splits if_splits sum.splits prod.splits)
  then show ?thesis using make_changes_effective assms(2) by blast
qed

section \<open>Lost and skipped changes\<close>

text \<open>
  Two updates of one file are both planned against the file as it was: the second one is written
  over the first, whose change is lost, and the tool succeeds.
\<close>

theorem second_update_overwrites_first:
  assumes "resolve p = Some f" and "jget fs f = Some old"
    and "deriveNewContentsFromChunks (Some old) f cs1 = Inr (d1, new1)" and "new1 \<noteq> old"
    and "deriveNewContentsFromChunks (Some old) f cs2 = Inr (d2, new2)" and "new2 \<noteq> old"
  shows "\<exists>chs fs'. plan_hunks resolve fs [Update_hunk p None cs1, Update_hunk p None cs2] = Inr (chs, 0) \<and>
           make_changes chs fs = (Inr (), fs') \<and> jget fs' f = Some new2"
  using assms by (auto simp: plan_hunk_def plan_update_def move_target_def truthy_def make_change_def update_conv')

lemma chunks_present_deletions: "list_all (\<lambda>c. new_lines c = []) cs \<Longrightarrow> chunks_present ls i cs"
  by (induction cs arbitrary: i) auto

text \<open>
  An update that only deletes lines never fails: when its lines are not found, it counts as applied
  already and is skipped.
\<close>

theorem deletion_never_fails:
  assumes "resolve p = Some f" and "jget fs f = Some content" and "list_all (\<lambda>c. new_lines c = []) cs"
    and "deriveNewContentsFromChunks (Some content) f cs = Inl e"
  shows "plan_hunk resolve fs (Update_hunk p m cs) = Inr None"
  using assms chunks_present_deletions
  by (simp add: plan_hunk_def plan_update_def isChunksAlreadyApplied_def)

text \<open>Adding an empty file that does not exist counts as applied already: it is not made.\<close>

theorem empty_file_is_not_added:
  assumes "resolve p = Some f" and "jget fs f = None"
  shows "plan_hunk resolve fs (Add_hunk p []) = Inr None"
  using assms by (simp add: plan_hunk_def plan_add_def)

text \<open>
  A file moved onto itself is written and then removed: the tool fails, and the file is gone.
\<close>

theorem move_onto_itself_deletes:
  assumes "resolve p = Some f" and "resolve m = Some f" and "m \<noteq> []" and "jget fs f = Some old"
    and "deriveNewContentsFromChunks (Some old) f cs = Inr (d, new)"
  shows "\<exists>chs fs'. plan_hunks resolve fs [Update_hunk p (Some m) cs] = Inr (chs, 0) \<and>
           make_changes chs fs = (Inl (Write_failed f), fs') \<and> jget fs' f = None"
  using assms
  by (auto simp: plan_hunk_def plan_update_def move_target_def truthy_def make_change_def unlink_def Let_def
      update_conv' delete_conv')

section \<open>Witnesses\<close>

definition one_file :: files where
  "one_file = [(''f'', ''a'' @ [newline] @ ''b'' @ [newline])]"

definition swap_chunk :: "string \<Rightarrow> string \<Rightarrow> update_chunk" where
  "swap_chunk x y = \<lparr>old_lines = [x], new_lines = [y], change_context = None, is_end_of_file = False\<rparr>"

definition cut_chunk :: "string \<Rightarrow> update_chunk" where
  "cut_chunk x = \<lparr>old_lines = [x], new_lines = [], change_context = None, is_end_of_file = False\<rparr>"

definition update_text :: string where
  "update_text = js_join [newline] [''*** Begin Patch'', ''*** Update File: f'', ''@@'', ''-a'', ''+x'', ''*** End Patch'']"

lemma derive_swap:
  "deriveNewContentsFromChunks (Some (''a'' @ [newline] @ ''b'' @ [newline])) ''f'' [swap_chunk ''a'' ''x''] =
     Inr (generateUnifiedDiff (''a'' @ [newline] @ ''b'' @ [newline]) (''x'' @ [newline] @ ''b'' @ [newline]),
          ''x'' @ [newline] @ ''b'' @ [newline])"
  by code_simp

lemma derive_swap2:
  "deriveNewContentsFromChunks (Some (''a'' @ [newline] @ ''b'' @ [newline])) ''f'' [swap_chunk ''b'' ''y''] =
     Inr (generateUnifiedDiff (''a'' @ [newline] @ ''b'' @ [newline]) (''a'' @ [newline] @ ''y'' @ [newline]),
          ''a'' @ [newline] @ ''y'' @ [newline])"
  by code_simp

definition updated_file :: file_change where
  "updated_file = \<lparr>change_file = ''f'', change_old = ''a'' @ [newline] @ ''b'' @ [newline],
     change_new = ''x'' @ [newline] @ ''b'' @ [newline], change_kind = Change_update\<rparr>"

lemma tool_run:
  "apply_patch_tool Some (\<lambda>cs. True) update_text one_file =
     (Inr (Applied [updated_file]), [(''f'', ''x'' @ [newline] @ ''b'' @ [newline])])"
  by code_simp

theorem apply_patch_writes_with_permission_witness:
  "[(''f'', ''x'' @ [newline] @ ''b'' @ [newline])] = one_file \<or>
     (\<exists>hs cs n. parsePatch update_text = Some hs \<and> plan_hunks Some one_file hs = Inr (cs, n) \<and> True \<and>
        \<not> (\<exists>q. q \<notin> set (concat (map (named_paths Some) hs)) \<and>
               jget [(''f'', ''x'' @ [newline] @ ''b'' @ [newline])] q \<noteq> jget one_file q))"
  by (rule apply_patch_writes_with_permission [OF tool_run])

theorem apply_patch_success_witness:
  "list_all (effective [(''f'', ''x'' @ [newline] @ ''b'' @ [newline])]) [updated_file]"
  by (rule apply_patch_success [OF tool_run]) (simp add: change_paths_def updated_file_def)

theorem second_update_overwrites_first_witness:
  "\<exists>chs fs'. plan_hunks Some one_file [Update_hunk ''f'' None [swap_chunk ''a'' ''x''], Update_hunk ''f'' None [swap_chunk ''b'' ''y'']] =
       Inr (chs, 0) \<and> make_changes chs one_file = (Inr (), fs') \<and>
     jget fs' ''f'' = Some (''a'' @ [newline] @ ''y'' @ [newline])"
  by (rule second_update_overwrites_first [OF _ _ derive_swap _ derive_swap2]) (simp_all add: one_file_def)

theorem deletion_never_fails_witness:
  "plan_hunk Some one_file (Update_hunk ''f'' None [cut_chunk ''zzz'']) = Inr None"
proof (rule deletion_never_fails)
  show "deriveNewContentsFromChunks (Some (''a'' @ [newline] @ ''b'' @ [newline])) ''f'' [cut_chunk ''zzz''] = Inl (No_lines ''f'')"
    by code_simp
qed (simp_all add: one_file_def cut_chunk_def)

theorem empty_file_is_not_added_witness: "plan_hunk Some one_file (Add_hunk ''g'' []) = Inr None"
  by (rule empty_file_is_not_added [of _ _ "''g''"]) (simp_all add: one_file_def)

theorem move_onto_itself_deletes_witness:
  "\<exists>chs fs'. plan_hunks Some one_file [Update_hunk ''f'' (Some ''f'') [swap_chunk ''a'' ''x'']] = Inr (chs, 0) \<and>
     make_changes chs one_file = (Inl (Write_failed ''f''), fs') \<and> jget fs' ''f'' = None"
  by (rule move_onto_itself_deletes [OF _ _ _ _ derive_swap]) (simp_all add: one_file_def)

end
