(* ===== verification/Identifiers.thy ===== *)
theory Identifiers
  imports Json Js_Text "HOL-Library.Word" "HOL-Library.List_Lexorder" "HOL-Library.Char_ord"
begin

text \<open>
  Identifiers (id/id.ts): a prefix, six bytes made of the time and a counter, and random letters.
  BigInts are integers; the bytes are 8-bit words, so what does not fit them is cut off as in the
  code. Identifiers are ASCII, so comparing them byte by byte is what JavaScript does. The random
  bytes are an argument; \<open>lastTimestamp\<close> and \<open>counter\<close> are the state of the module.
\<close>

unbundle bit_operations_syntax

section \<open>The code\<close>

datatype id_kind =
  Id_session | Id_message | Id_permission | Id_question | Id_user | Id_part | Id_pty | Id_tool

fun id_prefix :: "id_kind \<Rightarrow> string" where
  "id_prefix Id_session = ''ses''"
| "id_prefix Id_message = ''msg''"
| "id_prefix Id_permission = ''per''"
| "id_prefix Id_question = ''que''"
| "id_prefix Id_user = ''usr''"
| "id_prefix Id_part = ''prt''"
| "id_prefix Id_pty = ''pty''"
| "id_prefix Id_tool = ''tool''"

record id_state =
  lastTimestamp :: int
  id_counter :: nat

definition base62 :: string where
  "base62 = ''0123456789ABCDEFGHIJKLMNOPQRSTUVWXYZabcdefghijklmnopqrstuvwxyz''"

definition randomBase62 :: "8 word list \<Rightarrow> string" where
  "randomBase62 bytes = map (\<lambda>b. base62 ! (unat b mod 62)) bytes"

definition timeBytes :: "int \<Rightarrow> 8 word list" where
  "timeBytes now = map (\<lambda>i. word_of_int (drop_bit (40 - 8 * i) now AND 0xff)) [0..<6]"

definition hex_bytes :: "8 word list \<Rightarrow> string" where
  "hex_bytes bytes = concat (map (\<lambda>b. [hex_digit (unat b div 16), hex_digit (unat b mod 16)]) bytes)"

definition next_count :: "int \<Rightarrow> id_state \<Rightarrow> id_state" where
  "next_count t s =
     (let s1 = (if t \<noteq> lastTimestamp s then \<lparr>lastTimestamp = t, id_counter = 0\<rparr> else s)
      in s1\<lparr>id_counter := id_counter s1 + 1\<rparr>)"

definition id_number :: "bool \<Rightarrow> int \<Rightarrow> nat \<Rightarrow> int" where
  "id_number descending t c =
     (let now = t * 0x1000 + int c in if descending then NOT now else now)"

definition id_create :: "id_kind \<Rightarrow> bool \<Rightarrow> int \<Rightarrow> 8 word list \<Rightarrow> id_state \<Rightarrow> string \<times> id_state" where
  "id_create kind descending t random s =
     (let s' = next_count t s
      in (id_prefix kind @ ''_'' @ hex_bytes (timeBytes (id_number descending t (id_counter s'))) @
          randomBase62 random, s'))"

text \<open>\<open>generateID\<close>: a given identifier is only checked for its prefix (\<open>None\<close>: it throws).\<close>

definition generateID ::
  "id_kind \<Rightarrow> bool \<Rightarrow> string option \<Rightarrow> int \<Rightarrow> 8 word list \<Rightarrow> id_state \<Rightarrow> (string \<times> id_state) option" where
  "generateID kind descending given t random s =
     (case given of
        None \<Rightarrow> Some (id_create kind descending t random s)
      | Some g \<Rightarrow>
          if g = [] then Some (id_create kind descending t random s)
          else if js_starts_with g (id_prefix kind) then Some (g, s)
          else None)"

fun hex_number :: "nat \<Rightarrow> string \<Rightarrow> nat option" where
  "hex_number n [] = Some n"
| "hex_number n (c # s) =
     (case json_hex c of None \<Rightarrow> None | Some d \<Rightarrow> hex_number (16 * n + d) s)"

text \<open>\<open>BigInt("0x" + hex)\<close> throws when no digit follows, and on what is not one; blanks at the end
  are ignored.\<close>

definition bigint_hex :: "string \<Rightarrow> nat option" where
  "bigint_hex s = (let h = js_trim_end s in if h = [] then None else hex_number 0 h)"

definition id_timestamp :: "string \<Rightarrow> int option" where
  "id_timestamp i =
     (let prefix = hd (js_split (CHR ''_'') i)
      in map_option (\<lambda>encoded. int encoded div 0x1000)
           (bigint_hex (take 12 (drop (length prefix + 1) i))))"

text \<open>Identifiers created one after the other, of any kind.\<close>

type_synonym id_call = "id_kind \<times> bool \<times> int \<times> 8 word list"

fun id_creates :: "id_call list \<Rightarrow> id_state \<Rightarrow> string list" where
  "id_creates [] s = []"
| "id_creates ((kind, descending, t, random) # calls) s =
     (let (i, s') = id_create kind descending t random s in i # id_creates calls s')"

section \<open>The hexadecimal form of the time\<close>

fun hex_str :: "nat \<Rightarrow> nat \<Rightarrow> string" where
  "hex_str 0 n = []"
| "hex_str (Suc k) n = hex_str k (n div 16) @ [hex_digit (n mod 16)]"

lemma length_hex_str [simp]: "length (hex_str k n) = k"
  by (induction k arbitrary: n) auto

lemma byte_value:
  "unat (word_of_int (drop_bit k now AND 0xff) :: 8 word) = nat (now div 2 ^ k mod 256)"
proof -
  have "drop_bit k now AND 0xff = now div 2 ^ k mod 256"
    using take_bit_eq_mask [of 8 "drop_bit k now"]
    by (simp add: drop_bit_eq_div take_bit_eq_mod mask_eq_exp_minus_1)
  then show ?thesis by (simp add: unat_eq_nat_uint uint_word_of_int)
qed

lemma nibbles:
  fixes now :: int
  shows "nat (now div 2 ^ k mod 256) div 16 = nat (now div 2 ^ (k + 4) mod 16)"
    and "nat (now div 2 ^ k mod 256) mod 16 = nat (now div 2 ^ k mod 16)"
proof -
  let ?x = "now div 2 ^ k"
  have "drop_bit 4 (take_bit 8 ?x) = take_bit 4 (drop_bit 4 ?x)"
    by (simp add: drop_bit_take_bit)
  then have d: "?x mod 256 div 16 = ?x div 16 mod 16"
    by (simp add: drop_bit_eq_div take_bit_eq_mod)
  have e: "?x div 16 = now div 2 ^ (k + 4)"
    by (simp add: power_add zdiv_zmult2_eq)
  have "int (nat (?x mod 256) div 16) = ?x mod 256 div 16" by (simp add: zdiv_int)
  then show "nat (?x mod 256) div 16 = nat (now div 2 ^ (k + 4) mod 16)"
    unfolding d e by (metis nat_int)
  have "int (nat (?x mod 256) mod 16) = ?x mod 256 mod 16" by (simp add: zmod_int)
  also have "\<dots> = ?x mod 16" by (rule mod_mod_cancel) simp
  finally show "nat (?x mod 256) mod 16 = nat (?x mod 16)" by (metis nat_int)
qed

lemma hex_str_digits:
  "hex_str k n = map (\<lambda>i. hex_digit (n div 16 ^ (k - 1 - i) mod 16)) [0..<k]"
proof (induction k arbitrary: n)
  case 0
  then show ?case by simp
next
  case (Suc k)
  have "map (\<lambda>i. hex_digit (n div 16 div 16 ^ (k - 1 - i) mod 16)) [0..<k] =
        map (\<lambda>i. hex_digit (n div 16 ^ (Suc k - 1 - i) mod 16)) [0..<k]"
  proof (rule map_cong [OF refl])
    fix i assume "i \<in> set [0..<k]"
    then have "Suc (k - 1 - i) = Suc k - 1 - i" by auto
    then have "n div 16 ^ (Suc k - 1 - i) = n div 16 div 16 ^ (k - 1 - i)"
      by (metis div_mult2_eq power_Suc)
    then show "hex_digit (n div 16 div 16 ^ (k - 1 - i) mod 16) =
               hex_digit (n div 16 ^ (Suc k - 1 - i) mod 16)" by simp
  qed
  then show ?case by (simp add: Suc.IH)
qed

lemma time_digit:
  assumes "d < 12"
  shows "nat (now mod 2 ^ 48) div 16 ^ d mod 16 = nat (now div 2 ^ (4 * d) mod 16)"
proof -
  have "4 \<le> 48 - 4 * d" using assms by arith
  then have "take_bit 4 (drop_bit (4 * d) (take_bit 48 now)) = take_bit 4 (drop_bit (4 * d) now)"
    by (simp add: drop_bit_take_bit min_def)
  then have z: "(now mod 2 ^ 48) div 2 ^ (4 * d) mod 16 = now div 2 ^ (4 * d) mod 16"
    by (simp add: drop_bit_eq_div take_bit_eq_mod)
  have "(16 :: int) ^ d = 2 ^ (4 * d)" by (simp add: power_mult)
  then have "int (nat (now mod 2 ^ 48) div 16 ^ d mod 16) = (now mod 2 ^ 48) div 2 ^ (4 * d) mod 16"
    by (simp add: zdiv_int zmod_int)
  with z show ?thesis by (metis nat_int)
qed

lemma time_hex: "hex_bytes (timeBytes now) = hex_str 12 (nat (now mod 2 ^ 48))"
proof -
  define D where "D = (\<lambda>d :: nat. hex_digit (nat (now div 2 ^ (4 * d) mod 16)))"
  have "hex_bytes (timeBytes now) = concat (map (\<lambda>i. [D (11 - 2 * i), D (10 - 2 * i)]) [0..<6])"
    unfolding hex_bytes_def timeBytes_def map_map o_def byte_value nibbles
  proof (intro arg_cong [where f = concat] map_cong refl)
    fix i :: nat
    assume "i \<in> set [0..<6]"
    then have "40 - 8 * i + 4 = 4 * (11 - 2 * i)" "40 - 8 * i = 4 * (10 - 2 * i)" by auto
    then show "[hex_digit (nat (now div 2 ^ (40 - 8 * i + 4) mod 16)),
                hex_digit (nat (now div 2 ^ (40 - 8 * i) mod 16))] = [D (11 - 2 * i), D (10 - 2 * i)]"
      by (simp add: D_def)
  qed
  also have "\<dots> = map (\<lambda>i. D (11 - i)) [0..<12]"
    by (simp add: upt_rec)
  also have "\<dots> = hex_str 12 (nat (now mod 2 ^ 48))"
    unfolding hex_str_digits
  proof (rule map_cong [OF refl])
    fix i :: nat
    assume "i \<in> set [0..<12]"
    then have "12 - 1 - i < 12" "11 - i = 12 - 1 - i" by auto
    with time_digit [of "12 - 1 - i" now]
    show "D (11 - i) = hex_digit (nat (now mod 2 ^ 48) div 16 ^ (12 - 1 - i) mod 16)"
      unfolding D_def by presburger
  qed
  finally show ?thesis .
qed

lemma less_div_mod:
  fixes n :: nat
  shows "n < m \<longleftrightarrow> n div b < m div b \<or> n div b = m div b \<and> n mod b < m mod b"
proof (cases "n div b = m div b")
  case True
  have "n = b * (n div b) + n mod b" "m = b * (m div b) + m mod b" by simp_all
  with True show ?thesis by (metis add_less_cancel_left less_irrefl)
next
  case False
  then show ?thesis by (metis div_le_mono leD le_neq_implies_less linorder_le_cases nat_less_le)
qed

section \<open>The order of hexadecimal numbers\<close>

lemma list_less_append_same: "length a = length b \<Longrightarrow> (a :: string) < b \<Longrightarrow> a @ x < b @ y"
  by (induction a b rule: list_induct2) auto

lemma list_less_snoc:
  "length a = length b \<Longrightarrow> (a @ [x] < b @ [y]) = ((a :: string) < b \<or> a = b \<and> x < y)"
  by (induction a b rule: list_induct2) auto

lemma list_less_prefix [simp]: "((p :: string) @ a < p @ b) = (a < b)"
  by (induction p) auto

lemma hex_digit_less: "n < 16 \<Longrightarrow> m < 16 \<Longrightarrow> (hex_digit n < hex_digit m) = (n < m)"
  by (auto simp: hex_digit_def less_char_def)

lemma hex_digit_eq: "n < 16 \<Longrightarrow> m < 16 \<Longrightarrow> (hex_digit n = hex_digit m) = (n = m)"
  using hex_value_digit by (metis option.inject)

lemma hex_str_eq: "n < 16 ^ k \<Longrightarrow> m < 16 ^ k \<Longrightarrow> (hex_str k n = hex_str k m) = (n = m)"
proof (induction k arbitrary: n m)
  case (Suc k)
  then have "n div 16 < 16 ^ k" "m div 16 < 16 ^ k" by (auto simp: less_mult_imp_div_less mult.commute)
  moreover have "n = m \<longleftrightarrow> n div 16 = m div 16 \<and> n mod 16 = m mod 16"
    by (metis div_mult_mod_eq)
  ultimately show ?case using Suc.IH by (simp add: hex_digit_eq)
qed simp

lemma hex_str_less: "n < 16 ^ k \<Longrightarrow> m < 16 ^ k \<Longrightarrow> (hex_str k n < hex_str k m) = (n < m)"
proof (induction k arbitrary: n m)
  case (Suc k)
  then have b: "n div 16 < 16 ^ k" "m div 16 < 16 ^ k"
    by (auto simp: less_mult_imp_div_less mult.commute)
  then show ?case
    using Suc.IH [OF b] hex_str_eq [OF b] less_div_mod [of n m 16]
    by (simp add: list_less_snoc hex_digit_less)
qed simp

lemma hex_number_str: "n < 16 ^ k \<Longrightarrow> hex_number x (hex_str k n @ r) = hex_number (16 ^ k * x + n) r"
proof (induction k arbitrary: n r x)
  case (Suc k)
  then have "n div 16 < 16 ^ k" by (auto simp: less_mult_imp_div_less mult.commute)
  moreover have "16 * (16 ^ k * x + n div 16) + n mod 16 = 16 ^ Suc k * x + n" by simp
  ultimately show ?case using Suc.IH by (simp add: hex_value_digit mult.assoc add.commute)
qed simp

section \<open>Identifiers ascend\<close>

lemma id_create_eq:
  "id_create kind d t random s =
     (id_prefix kind @ ''_'' @ hex_str 12 (nat (id_number d t (id_counter (next_count t s)) mod 2 ^ 48)) @
        randomBase62 random, next_count t s)"
  by (simp add: id_create_def Let_def time_hex)

lemma id_less:
  assumes "nat (m mod 2 ^ 48) < nat (n mod 2 ^ 48)"
  shows "id_prefix kind @ ''_'' @ hex_str 12 (nat (m mod 2 ^ 48)) @ x <
         id_prefix kind @ ''_'' @ hex_str 12 (nat (n mod 2 ^ 48)) @ y"
proof -
  have "nat (k mod 2 ^ 48) < 16 ^ 12" for k :: int by simp
  then have "hex_str 12 (nat (m mod 2 ^ 48)) < hex_str 12 (nat (n mod 2 ^ 48))"
    using assms by (simp add: hex_str_less del: hex_str.simps)
  then show ?thesis by (simp add: list_less_append_same del: hex_str.simps)
qed

text \<open>The numbers the identifiers are made of, before they are cut to six bytes.\<close>

definition call_time :: "id_call \<Rightarrow> int" where
  "call_time c = (case c of (kind, descending, t, random) \<Rightarrow> t)"

fun id_stamps :: "id_call list \<Rightarrow> id_state \<Rightarrow> int list" where
  "id_stamps [] s = []"
| "id_stamps (c # calls) s =
     (let s' = next_count (call_time c) s
      in (call_time c * 0x1000 + int (id_counter s')) # id_stamps calls s')"

lemma length_id_stamps [simp]: "length (id_stamps calls s) = length calls"
  by (induction calls arbitrary: s) (auto simp: Let_def)

lemma length_id_creates [simp]: "length (id_creates calls s) = length calls"
  by (induction calls arbitrary: s) (auto simp: Let_def split: prod.split)

lemma id_creates_nth:
  "i < length calls \<Longrightarrow> calls ! i = (kind, d, t, random) \<Longrightarrow>
   id_creates calls s ! i =
     id_prefix kind @ ''_'' @
     hex_str 12 (nat ((if d then NOT (id_stamps calls s ! i) else id_stamps calls s ! i) mod 2 ^ 48)) @
     randomBase62 random"
proof (induction calls arbitrary: s i)
  case (Cons c calls)
  obtain k1 d1 t1 r1 where c: "c = (k1, d1, t1, r1)" by (cases c)
  show ?case
  proof (cases i)
    case 0
    then show ?thesis using Cons.prems c
      by (simp add: id_create_eq call_time_def id_number_def Let_def del: hex_str.simps)
  next
    case (Suc j)
    then show ?thesis using Cons.prems Cons.IH [of j "next_count t1 s"] c
      by (simp add: id_create_eq call_time_def Let_def del: hex_str.simps)
  qed
qed simp

definition used :: "id_state \<Rightarrow> int \<Rightarrow> nat" where
  "used s t = (if t = lastTimestamp s then id_counter s else 0)"

lemma next_count_eq: "next_count t s = \<lparr>lastTimestamp = t, id_counter = used s t + 1\<rparr>"
  by (cases s) (simp add: next_count_def used_def Let_def)

lemma stamps_ascend:
  "sorted (map call_time calls) \<Longrightarrow> \<forall>c \<in> set calls. lastTimestamp s \<le> call_time c \<Longrightarrow>
   \<forall>t. count_list (map call_time calls) t + used s t < 4096 \<Longrightarrow> id_counter s < 4096 \<Longrightarrow>
   sorted_wrt (<) (id_stamps calls s) \<and>
   (\<forall>n \<in> set (id_stamps calls s). lastTimestamp s * 4096 + int (id_counter s) < n) \<and>
   (\<forall>i < length calls. id_stamps calls s ! i div 4096 = call_time (calls ! i))"
proof (induction calls arbitrary: s)
  case (Cons c calls)
  let ?t = "call_time c"
  let ?s = "next_count ?t s"
  have last: "lastTimestamp ?s = ?t" and cnt: "id_counter ?s = used s ?t + 1"
    by (simp_all add: next_count_eq)
  have le: "lastTimestamp s \<le> ?t" using Cons.prems by simp
  have b: "used s ?t + 1 < 4096 + 0" using Cons.prems(3) [rule_format, of ?t] by simp
  have counts: "\<forall>t. count_list (map call_time calls) t + used ?s t < 4096"
  proof
    fix t
    show "count_list (map call_time calls) t + used ?s t < 4096"
    proof (cases "t = ?t")
      case True
      then show ?thesis using Cons.prems(3) [rule_format, of ?t] by (simp add: used_def next_count_eq)
    next
      case False
      then show ?thesis using Cons.prems(3) [rule_format, of t] by (simp add: used_def next_count_eq)
    qed
  qed
  have IH: "sorted_wrt (<) (id_stamps calls ?s)"
    "\<forall>n \<in> set (id_stamps calls ?s). ?t * 4096 + int (id_counter ?s) < n"
    "\<forall>i < length calls. id_stamps calls ?s ! i div 4096 = call_time (calls ! i)"
    using Cons.IH [of ?s] Cons.prems(1) counts b unfolding last cnt by auto
  have first: "lastTimestamp s * 4096 + int (id_counter s) < ?t * 4096 + int (id_counter ?s)"
    using le Cons.prems(4) unfolding cnt used_def by (cases "?t = lastTimestamp s") auto
  have era: "(?t * 4096 + int (id_counter ?s)) div 4096 = ?t"
    using b unfolding cnt by simp
  show ?case
    using IH first era
    by (auto simp: Let_def less_Suc_eq_0_disj intro: less_trans)
qed simp

lemma era_mod:
  fixes m n :: int
  assumes "m < n" and "m div 2 ^ 48 = n div 2 ^ 48"
  shows "nat (m mod 2 ^ 48) < nat (n mod 2 ^ 48)"
    and "nat (NOT n mod 2 ^ 48) < nat (NOT m mod 2 ^ 48)"
proof -
  have m: "m = 2 ^ 48 * (m div 2 ^ 48) + m mod 2 ^ 48" and n: "n = 2 ^ 48 * (n div 2 ^ 48) + n mod 2 ^ 48"
    by (simp_all only: mult_div_mod_eq)
  then have lt: "m mod 2 ^ 48 < n mod 2 ^ 48" using assms by (metis add_less_cancel_left)
  then show "nat (m mod 2 ^ 48) < nat (n mod 2 ^ 48)" by simp
  have not: "NOT k mod 2 ^ 48 = 2 ^ 48 - 1 - k mod 2 ^ 48" for k :: int
  proof -
    have "NOT k = 2 ^ 48 - 1 - k mod 2 ^ 48 + 2 ^ 48 * (- (k div 2 ^ 48) - 1)"
      by (simp add: not_int_def algebra_simps minus_mod_eq_mult_div [symmetric])
    then have "NOT k mod 2 ^ 48 = (2 ^ 48 - 1 - k mod 2 ^ 48) mod 2 ^ 48"
      by (metis mod_mult_self2)
    also have "\<dots> = 2 ^ 48 - 1 - k mod 2 ^ 48"
    proof (rule mod_pos_pos_trivial)
      have "k mod 2 ^ 48 < 2 ^ 48" "0 \<le> k mod 2 ^ 48" by simp_all
      then show "0 \<le> 2 ^ 48 - 1 - k mod 2 ^ 48" "2 ^ 48 - 1 - k mod 2 ^ 48 < 2 ^ 48" by linarith+
    qed
    finally show ?thesis .
  qed
  have "0 \<le> n mod 2 ^ 48" "n mod 2 ^ 48 < 2 ^ 48" "0 \<le> m mod 2 ^ 48" by simp_all
  then show "nat (NOT n mod 2 ^ 48) < nat (NOT m mod 2 ^ 48)" unfolding not using lt by linarith
qed

text \<open>
  C38 (invariant): Identifiers of one kind that are created one after the other ascend as strings (descending
  ones descend), whatever their random letters, while the clock does not go back, less than 4096
  identifiers are created in a millisecond, and all times lie in one era of \<open>2 ^ 36\<close> milliseconds.
\<close>

theorem ids_ascend:
  assumes "sorted (map call_time calls)" and "\<forall>c \<in> set calls. lastTimestamp s < call_time c"
    and "\<forall>t. count_list (map call_time calls) t < 4096"
    and "\<forall>c \<in> set calls. call_time c div 2 ^ 36 = era"
    and "i < j" and "j < length calls"
    and "calls ! i = (kind, d, t, random)" and "calls ! j = (kind, d, t', random')"
  shows "if d then id_creates calls s ! j < id_creates calls s ! i
         else id_creates calls s ! i < id_creates calls s ! j"
proof -
  let ?c0 = "\<lparr>lastTimestamp = lastTimestamp s, id_counter = 0\<rparr>"
  let ?n = "id_stamps calls s"
  have fresh: "id_stamps calls s = id_stamps calls ?c0"
  proof (cases calls)
    case (Cons c cs)
    then have "lastTimestamp s < call_time c" using assms(2) by simp
    then have "next_count (call_time c) s = next_count (call_time c) ?c0"
      by (simp add: next_count_eq used_def)
    then show ?thesis by (simp add: Cons)
  qed simp
  have "\<forall>t. count_list (map call_time calls) t + used ?c0 t < 4096"
    using assms(3) by (simp add: used_def)
  moreover have "\<forall>c \<in> set calls. lastTimestamp ?c0 \<le> call_time c" using assms(2) by auto
  ultimately have "sorted_wrt (<) ?n"
    and div: "\<forall>i < length calls. ?n ! i div 4096 = call_time (calls ! i)"
    using stamps_ascend [OF assms(1), of ?c0] unfolding fresh by simp_all
  then have lt: "?n ! i < ?n ! j" using assms(5,6) by (simp add: sorted_wrt_iff_nth_less)
  have "?n ! l div 2 ^ 48 = era" if "l < length calls" for l
  proof -
    have "?n ! l div 2 ^ 48 = ?n ! l div 4096 div 2 ^ 36" by (simp add: zdiv_zmult2_eq)
    then show ?thesis using that div assms(4) by simp
  qed
  then have e: "?n ! i div 2 ^ 48 = ?n ! j div 2 ^ 48" using assms(5,6) by simp
  show ?thesis
    using id_less [OF era_mod(1) [OF lt e]] id_less [OF era_mod(2) [OF lt e]] assms(5,6)
    by (simp add: id_creates_nth [OF _ assms(7)] id_creates_nth [OF _ assms(8)]
        del: hex_str.simps append_Cons)
qed

theorem ids_ascend_witness:
  "id_creates [(Id_message, False, 5, []), (Id_part, True, 5, []), (Id_message, False, 5, [])]
     \<lparr>lastTimestamp = 0, id_counter = 0\<rparr> ! 0 <
   id_creates [(Id_message, False, 5, []), (Id_part, True, 5, []), (Id_message, False, 5, [])]
     \<lparr>lastTimestamp = 0, id_counter = 0\<rparr> ! 2"
proof -
  let ?calls = "[(Id_message, False, 5, []), (Id_part, True, 5, []), (Id_message, False, 5, [])] :: id_call list"
  have "if False then id_creates ?calls \<lparr>lastTimestamp = 0, id_counter = 0\<rparr> ! 2 < id_creates ?calls \<lparr>lastTimestamp = 0, id_counter = 0\<rparr> ! 0
        else id_creates ?calls \<lparr>lastTimestamp = 0, id_counter = 0\<rparr> ! 0 < id_creates ?calls \<lparr>lastTimestamp = 0, id_counter = 0\<rparr> ! 2"
    by (rule ids_ascend [where era = 0 and kind = Id_message and t = 5 and random = "[]" and t' = 5 and random' = "[]"])
      (simp_all add: call_time_def)
  then show ?thesis unfolding if_False .
qed

section \<open>The time of an identifier\<close>

lemma prefix_underscore: "CHR ''_'' \<notin> set (id_prefix kind)"
  by (cases kind) simp_all

lemma id_hex_solid: "n < 16 \<Longrightarrow> \<not> js_space (hex_digit n)"
  by (auto simp: hex_digit_def js_space_def)

lemma hex_str_trim: "js_trim_end (hex_str (Suc k) n) = hex_str (Suc k) n"
  by (simp add: js_trim_end_def id_hex_solid)

lemma id_timestamp_parts:
  assumes "n < 2 ^ 48"
  shows "id_timestamp (id_prefix kind @ ''_'' @ hex_str 12 n @ r) = Some (int n div 4096)"
proof -
  have "hd (js_split (CHR ''_'') (id_prefix kind @ ''_'' @ hex_str 12 n @ r)) = id_prefix kind"
    using js_split_append [OF prefix_underscore, of kind "hex_str 12 n @ r"] by simp
  moreover have "take 12 (drop (length (id_prefix kind) + 1) (id_prefix kind @ ''_'' @ hex_str 12 n @ r)) =
      hex_str 12 n"
    by (simp del: hex_str.simps)
  moreover have "bigint_hex (hex_str 12 n) = Some n"
  proof -
    have "hex_number 0 (hex_str 12 n) = Some n"
      using hex_number_str [of n 12 0 "[]"] assms by (simp del: hex_str.simps)
    moreover have "js_trim_end (hex_str 12 n) = hex_str 12 n" using hex_str_trim [of 11 n] by simp
    moreover have "hex_str 12 n \<noteq> []"
      using length_hex_str [of 12 n] by (metis list.size(3) zero_neq_numeral)
    ultimately show ?thesis by (simp add: bigint_hex_def del: hex_str.simps)
  qed
  ultimately show ?thesis by (simp add: id_timestamp_def Let_def del: hex_str.simps)
qed

lemma created_timestamp:
  "id_timestamp (fst (id_create kind False t random s)) =
     Some ((t + int (id_counter (snd (id_create kind False t random s))) div 4096) mod 2 ^ 36)"
proof -
  let ?c = "id_counter (next_count t s)"
  let ?n = "nat (id_number False t ?c mod 2 ^ 48)"
  have n: "int ?n = (t * 4096 + int ?c) mod 2 ^ 48" by (simp add: id_number_def)
  have "int ?n div 4096 = (t * 4096 + int ?c) div 4096 mod 2 ^ 36"
  proof -
    have "drop_bit 12 (take_bit 48 (t * 4096 + int ?c)) = take_bit 36 (drop_bit 12 (t * 4096 + int ?c))"
      by (simp add: drop_bit_take_bit)
    then show ?thesis unfolding n by (simp add: drop_bit_eq_div take_bit_eq_mod)
  qed
  moreover have "(t * 4096 + int ?c) div 4096 = t + int ?c div 4096" by simp
  ultimately show ?thesis
    using id_timestamp_parts [of ?n kind "randomBase62 random"]
    by (simp add: id_create_eq del: hex_str.simps)
qed

text \<open>
  The time that is read from an ascending identifier is the time it was created at modulo
  \<open>2 ^ 36\<close> milliseconds (about 795 days), one more for every 4096 identifiers of the same
  millisecond; so it is never the time of creation from 1972 on.
\<close>

theorem timestamp_loses_the_era:
  "\<exists>read. id_timestamp (fst (id_create kind False t random s)) = Some read \<and>
     read = (t + int (id_counter (snd (id_create kind False t random s))) div 4096) mod 2 ^ 36 \<and>
     read < 2 ^ 36"
  using created_timestamp [of kind t random s] by simp

end
