(* ===== verification/Tool_Truncation.thy ===== *)
theory Tool_Truncation
  imports Identifiers
begin

text \<open>
  The truncation of long tool outputs (tool/truncation.ts, \<open>estimateTokens\<close> of tool/budget.ts) and
  the cleanup of the files they are saved to. A text is the list of its UTF-16 code units, since
  the estimate looks at them; file names are ASCII. Output directories are a list of the names of
  the files in each. Whether a file can be unlinked is an argument.
\<close>

section \<open>The estimate of tokens\<close>

definition cjk_unit :: "16 word \<Rightarrow> bool" where
  "cjk_unit u =
     (let c = unat u in
      0x3000 \<le> c \<and> c \<le> 0x303f \<or> 0x3040 \<le> c \<and> c \<le> 0x30ff \<or> 0x3400 \<le> c \<and> c \<le> 0x4dbf \<or>
      0x4e00 \<le> c \<and> c \<le> 0x9fff \<or> 0xac00 \<le> c \<and> c \<le> 0xd7af \<or> 0xf900 \<le> c \<and> c \<le> 0xfaff \<or>
      0xff00 \<le> c \<and> c \<le> 0xffef \<or> 0xd800 \<le> c \<and> c \<le> 0xdbff)"

definition estimateTokens :: "16 word list \<Rightarrow> nat" where
  "estimateTokens t =
     (let cjk = length (filter cjk_unit t); other = length t - cjk in cjk + (other + 3) div 4)"

section \<open>Truncation\<close>

definition newline_unit :: "16 word" where
  "newline_unit = 10"

definition units :: "string \<Rightarrow> 16 word list" where
  "units s = map (\<lambda>c. word_of_nat (of_char c)) s"

fun unit_lines :: "16 word list \<Rightarrow> 16 word list list" where
  "unit_lines [] = [[]]"
| "unit_lines (u # t) =
     (if u = newline_unit then [] # unit_lines t
      else case unit_lines t of [] \<Rightarrow> [[u]] | l # ls \<Rightarrow> (u # l) # ls)"

fun join_lines :: "16 word list list \<Rightarrow> 16 word list" where
  "join_lines [] = []"
| "join_lines [l] = l"
| "join_lines (l # ls) = l @ newline_unit # join_lines ls"

text \<open>The loops over the lines: \<open>k\<close> lines are taken already, \<open>toks\<close> counts their tokens and breaks.
  The last component is \<open>hitCap\<close>. The loop from the end is the same on the reversed lines.\<close>

fun preview_loop ::
  "nat \<Rightarrow> nat \<Rightarrow> nat \<Rightarrow> nat \<Rightarrow> 16 word list list \<Rightarrow> 16 word list list \<times> nat \<times> bool" where
  "preview_loop maxLines budget k toks [] = ([], toks, False)"
| "preview_loop maxLines budget k toks (l # ls) =
     (if maxLines \<le> k then ([], toks, False)
      else let size = estimateTokens l + (if 0 < k then 1 else 0) in
        if budget < toks + size then ([], toks, True)
        else let (out, toks', hitCap) = preview_loop maxLines budget (Suc k) (toks + size) ls
             in (l # out, toks', hitCap))"

record truncation =
  tr_content :: "16 word list"
  tr_truncated :: bool
  tr_outputPath :: "string option"

record truncate_options =
  to_maxLines :: nat
  to_maxTokens :: nat
  to_previewTokens :: nat
  to_tail :: bool

definition truncation_hint :: "bool \<Rightarrow> string \<Rightarrow> string" where
  "truncation_hint hasTask filepath =
     ''The tool call succeeded but the output was truncated. Full output saved to: '' @ filepath @
     [CHR 0x0A] @
     (if hasTask then ''Use the Task tool to have explore agent process this file with Grep and Read (with offset/limit). Do NOT read the full file yourself - delegate to save context.''
      else ''Use Grep to search the full content or Read with offset/limit to view specific sections.'')"

definition truncated_message :: "bool \<Rightarrow> 16 word list \<Rightarrow> int \<Rightarrow> bool \<Rightarrow> string \<Rightarrow> 16 word list" where
  "truncated_message tail preview removed hitCap hint =
     (let count = ''...'' @ js_show_int removed @ '' '' @ (if hitCap then ''tokens'' else ''lines'') @ '' truncated...'';
          gap = [CHR 0x0A, CHR 0x0A]
      in if tail then units (count @ gap @ hint @ gap) @ preview
         else preview @ units (gap @ count @ gap @ hint))"

definition preview_of :: "truncate_options \<Rightarrow> 16 word list list \<Rightarrow> 16 word list list \<times> nat \<times> bool" where
  "preview_of opts lines =
     (if to_tail opts
      then let (out, toks, hitCap) = preview_loop (to_maxLines opts) (to_previewTokens opts) 0 0 (rev lines)
           in (rev out, toks, hitCap)
      else preview_loop (to_maxLines opts) (to_previewTokens opts) 0 0 lines)"

text \<open>\<open>output\<close>: the result, the text that was saved with its path, and the state of the identifiers.\<close>

definition truncate_output ::
  "truncate_options \<Rightarrow> bool \<Rightarrow> string \<Rightarrow> int \<Rightarrow> 8 word list \<Rightarrow> 16 word list \<Rightarrow> id_state \<Rightarrow>
   truncation \<times> (string \<times> 16 word list) option \<times> id_state" where
  "truncate_output opts hasTask dir now random t s =
     (let lines = unit_lines t; totalTokens = estimateTokens t in
      if length lines \<le> to_maxLines opts \<and> totalTokens \<le> to_maxTokens opts
      then (\<lparr>tr_content = t, tr_truncated = False, tr_outputPath = None\<rparr>, None, s)
      else let (out, toks, hitCap) = preview_of opts lines;
               removed = (if hitCap then int totalTokens - int toks else int (length lines) - int (length out));
               (i, s') = id_create Id_tool False now random s;
               filepath = dir @ ''/output_'' @ i
           in (\<lparr>tr_content = truncated_message (to_tail opts) (join_lines out) removed hitCap
                  (truncation_hint hasTask filepath),
                tr_truncated = True, tr_outputPath = Some filepath\<rparr>,
               Some (filepath, t), s'))"

section \<open>Cleanup\<close>

definition RETENTION_MS :: int where
  "RETENTION_MS = 24 * 60 * 60 * 1000"

type_synonym output_dirs = "(string \<times> string list) list"

definition unlink_output :: "string \<Rightarrow> string \<Rightarrow> output_dirs \<Rightarrow> output_dirs" where
  "unlink_output d f dirs = map (\<lambda>(d', fs). (d', if d' = d then filter (\<lambda>g. g \<noteq> f) fs else fs)) dirs"

text \<open>The loop over the entries; \<open>False\<close> when reading the time of a name throws.\<close>

fun cleanup_entries ::
  "int \<Rightarrow> (string \<Rightarrow> string \<Rightarrow> bool) \<Rightarrow> (string \<times> string) list \<Rightarrow> output_dirs \<Rightarrow> bool \<times> output_dirs" where
  "cleanup_entries cutoff unlinks [] dirs = (True, dirs)"
| "cleanup_entries cutoff unlinks ((d, filename) # entries) dirs =
     (let identifier = (if js_starts_with filename ''output_'' then drop (length ''output_'') filename else filename) in
      case id_timestamp identifier of
        None \<Rightarrow> (False, dirs)
      | Some time \<Rightarrow>
          if cutoff \<le> time then cleanup_entries cutoff unlinks entries dirs
          else cleanup_entries cutoff unlinks entries
                 (if unlinks d filename then unlink_output d filename dirs else dirs))"

definition output_entries :: "output_dirs \<Rightarrow> (string \<times> string) list" where
  "output_entries dirs =
     concat (map (\<lambda>(d, fs). map (Pair d) (filter (\<lambda>f. js_starts_with f ''output_'') fs)) dirs)"

definition truncate_cleanup ::
  "int \<Rightarrow> 8 word list \<Rightarrow> (string \<Rightarrow> string \<Rightarrow> bool) \<Rightarrow> output_dirs \<Rightarrow> id_state \<Rightarrow> bool \<times> output_dirs \<times> id_state" where
  "truncate_cleanup now random unlinks dirs s =
     (let (i, s') = id_create Id_tool False (now - RETENTION_MS) random s in
      case id_timestamp i of
        None \<Rightarrow> (False, dirs, s')
      | Some cutoff \<Rightarrow>
          (case cleanup_entries cutoff unlinks (output_entries dirs) dirs of
             (False, dirs') \<Rightarrow> (False, dirs', s')
           | (True, dirs') \<Rightarrow> (True, filter (\<lambda>(d, fs). fs \<noteq> []) dirs', s')))"

section \<open>What stays in the answer\<close>

lemma unit_lines_nonempty [simp]: "unit_lines t \<noteq> []"
  by (induction t) (auto split: list.splits)

lemma join_unit_lines: "join_lines (unit_lines t) = t"
proof (induction t)
  case (Cons u t)
  obtain l ls where "unit_lines t = l # ls" using unit_lines_nonempty [of t] by (cases "unit_lines t") auto
  then show ?case using Cons by (cases ls) auto
qed simp

lemma estimateTokens_append: "estimateTokens (a @ b) \<le> estimateTokens a + estimateTokens b"
proof -
  have "length (filter cjk_unit a) \<le> length a" "length (filter cjk_unit b) \<le> length b"
    by (rule length_filter_le)+
  then show ?thesis by (simp add: estimateTokens_def Let_def)
qed

lemma estimateTokens_newline [simp]: "estimateTokens [newline_unit] = 1"
  by (simp add: estimateTokens_def cjk_unit_def newline_unit_def)

lemma estimateTokens_join:
  "ls \<noteq> [] \<Longrightarrow> estimateTokens (join_lines ls) + 1 \<le> sum_list (map estimateTokens ls) + length ls"
proof (induction ls rule: join_lines.induct)
  case (3 l m ls)
  have "estimateTokens (l @ [newline_unit] @ join_lines (m # ls)) \<le>
        estimateTokens l + (1 + estimateTokens (join_lines (m # ls)))"
    using estimateTokens_append [of l "[newline_unit] @ join_lines (m # ls)"]
      estimateTokens_append [of "[newline_unit]" "join_lines (m # ls)"] by simp
  then show ?case using 3 by simp
qed simp_all

lemma preview_loop_spec:
  "preview_loop maxLines budget k toks ls = (out, toks', hitCap) \<Longrightarrow> toks \<le> budget \<Longrightarrow>
   out = take (length out) ls \<and> toks' \<le> budget \<and> (out = [] \<or> k + length out \<le> maxLines) \<and>
   (hitCap \<or> length out = min (maxLines - k) (length ls)) \<and>
   sum_list (map estimateTokens out) + length out \<le> toks' - toks + (if k = 0 then 1 else 0) \<and> toks \<le> toks'"
proof (induction maxLines budget k toks ls arbitrary: out toks' hitCap rule: preview_loop.induct)
  case (2 maxLines budget k toks l ls)
  let ?size = "estimateTokens l + (if 0 < k then 1 else 0)"
  show ?case
  proof (cases "maxLines \<le> k \<or> budget < toks + ?size")
    case True
    then show ?thesis using "2.prems" by (auto simp: Let_def split: if_splits)
  next
    case False
    obtain o1 t1 h1 where r: "preview_loop maxLines budget (Suc k) (toks + ?size) ls = (o1, t1, h1)"
      by (metis prod_cases3)
    have "out = l # o1" "toks' = t1" "hitCap = h1" using "2.prems" False r by (auto simp: Let_def)
    have IH: "o1 = take (length o1) ls" "t1 \<le> budget" "o1 = [] \<or> Suc k + length o1 \<le> maxLines"
      "h1 \<or> length o1 = min (maxLines - Suc k) (length ls)"
      "sum_list (map estimateTokens o1) + length o1 \<le> t1 - (toks + ?size)" "toks + ?size \<le> t1"
      using "2.IH" [OF _ refl _ r] False by simp_all
    have "l # o1 = take (length (l # o1)) (l # ls)" using IH(1) by simp
    moreover have "k + length (l # o1) \<le> maxLines" using IH(3) False by (cases o1) simp_all
    moreover have "h1 \<or> length (l # o1) = min (maxLines - k) (length (l # ls))"
    proof -
      have "maxLines - k = Suc (maxLines - Suc k)" using False by auto
      then show ?thesis using IH(4) by auto
    qed
    moreover have "sum_list (map estimateTokens (l # o1)) + length (l # o1) \<le> t1 - toks + (if k = 0 then 1 else 0)"
      using IH(5,6) by (cases "k = 0") simp_all
    moreover have "toks \<le> t1" using IH(6) by simp
    ultimately show ?thesis
      using IH(2) unfolding \<open>out = l # o1\<close> \<open>toks' = t1\<close> \<open>hitCap = h1\<close> by blast
  qed
qed auto

lemma preview_of_spec:
  assumes "preview_of opts lines = (out, toks, hitCap)"
  shows "(if to_tail opts then out = drop (length lines - length out) lines else out = take (length out) lines)"
    and "length out \<le> to_maxLines opts" and "estimateTokens (join_lines out) \<le> to_previewTokens opts"
    and "hitCap \<or> length out = min (to_maxLines opts) (length lines)"
proof -
  have bound: "estimateTokens (join_lines o1) \<le> t"
    if "sum_list (map estimateTokens o1) + length o1 \<le> t + 1" for o1 t
  proof (cases "o1 = []")
    case True
    then show ?thesis by (simp add: estimateTokens_def)
  next
    case False
    then show ?thesis using estimateTokens_join [OF False] that by simp
  qed
  have "(if to_tail opts then out = drop (length lines - length out) lines else out = take (length out) lines) \<and>
    length out \<le> to_maxLines opts \<and> estimateTokens (join_lines out) \<le> to_previewTokens opts \<and>
    (hitCap \<or> length out = min (to_maxLines opts) (length lines))"
  proof (cases "to_tail opts")
    case True
    then obtain o1 where o1: "preview_loop (to_maxLines opts) (to_previewTokens opts) 0 0 (rev lines) = (o1, toks, hitCap)"
      and out: "out = rev o1"
      using assms by (auto simp: preview_of_def split: prod.splits)
    note spec = preview_loop_spec [OF o1]
    have "estimateTokens (join_lines out) \<le> toks"
      by (rule bound) (use spec in \<open>simp add: out rev_map [symmetric]\<close>)
    moreover have "out = drop (length lines - length out) lines"
      using spec by (simp add: out) (metis length_rev rev_rev_ident rev_take)
    ultimately show ?thesis using spec True by (auto simp: out)
  next
    case False
    then have o1: "preview_loop (to_maxLines opts) (to_previewTokens opts) 0 0 lines = (out, toks, hitCap)"
      using assms by (simp add: preview_of_def)
    note spec = preview_loop_spec [OF o1]
    have "estimateTokens (join_lines out) \<le> toks" by (rule bound) (use spec in simp)
    then show ?thesis using spec False by auto
  qed
  then show "(if to_tail opts then out = drop (length lines - length out) lines else out = take (length out) lines)"
    and "length out \<le> to_maxLines opts" and "estimateTokens (join_lines out) \<le> to_previewTokens opts"
    and "hitCap \<or> length out = min (to_maxLines opts) (length lines)" by auto
qed

text \<open>
  A text within the limits is returned as it is. Any other text is saved whole, and what stays in the answer of it
  are its first lines (its last ones, from the end) that fit both limits, as a part of a message that names the file.
\<close>

theorem truncation_bounds:
  "case truncate_output opts hasTask dir now random t s of (r, saved, s') \<Rightarrow>
     if length (unit_lines t) \<le> to_maxLines opts \<and> estimateTokens t \<le> to_maxTokens opts
     then tr_content r = t \<and> saved = None \<and> s' = s
     else \<exists>out path removed hitCap.
       saved = Some (path, t) \<and> tr_outputPath r = Some path \<and>
       tr_content r = truncated_message (to_tail opts) (join_lines out) removed hitCap (truncation_hint hasTask path) \<and>
       (if to_tail opts then out = drop (length (unit_lines t) - length out) (unit_lines t)
        else out = take (length out) (unit_lines t)) \<and>
       length out \<le> to_maxLines opts \<and> estimateTokens (join_lines out) \<le> to_previewTokens opts \<and>
       (hitCap \<or> length out = to_maxLines opts \<or> out = unit_lines t)"
proof (cases "length (unit_lines t) \<le> to_maxLines opts \<and> estimateTokens t \<le> to_maxTokens opts")
  case True
  then show ?thesis by (simp add: truncate_output_def Let_def)
next
  case False
  obtain out toks hitCap where p: "preview_of opts (unit_lines t) = (out, toks, hitCap)" by (metis prod_cases3)
  note spec = preview_of_spec [OF p]
  have "hitCap \<or> length out = to_maxLines opts \<or> out = unit_lines t"
    using spec(1,4) by (auto simp: min_def split: if_splits)
  moreover obtain i s' where i: "id_create Id_tool False now random s = (i, s')" by fastforce
  let ?path = "dir @ ''/output_'' @ i"
  let ?removed = "if hitCap then int (estimateTokens t) - int toks else int (length (unit_lines t)) - int (length out)"
  have "truncate_output opts hasTask dir now random t s =
      (\<lparr>tr_content = truncated_message (to_tail opts) (join_lines out) ?removed hitCap (truncation_hint hasTask ?path),
        tr_truncated = True, tr_outputPath = Some ?path\<rparr>, Some (?path, t), s')"
    unfolding truncate_output_def Let_def if_not_P [OF False] p i prod.case ..
  ultimately show ?thesis
    unfolding if_not_P [OF False] using spec(1,2,3)
    by (simp only: prod.case truncation.select_convs) blast
qed

lemma preview_empty_lines:
  "0 < k \<Longrightarrow> toks \<le> budget \<Longrightarrow> k + (budget - toks) < maxLines \<Longrightarrow> budget - toks < n \<Longrightarrow>
   preview_loop maxLines budget k toks (replicate n []) = (replicate (budget - toks) [], budget, True)"
proof (induction n arbitrary: k toks)
  case (Suc n)
  show ?case
  proof (cases "toks = budget")
    case True
    then show ?thesis using Suc.prems by (simp add: estimateTokens_def)
  next
    case False
    then have "budget - toks = Suc (budget - Suc toks)" using Suc.prems by simp
    then show ?thesis using Suc.IH [of "Suc k" "Suc toks"] Suc.prems False by (simp add: estimateTokens_def)
  qed
qed simp

lemma unit_lines_newlines: "unit_lines (replicate n newline_unit) = replicate (Suc n) []"
  by (induction n) simp_all

text \<open>
  The number of tokens that were left out can be negative: every line break counts one token in the preview
  and a quarter of one in the text.
\<close>

theorem negative_tokens_truncated:
  assumes "Suc b < n"
  shows "\<exists>path out. tr_content (fst (truncate_output
       \<lparr>to_maxLines = n, to_maxTokens = m, to_previewTokens = b, to_tail = False\<rparr>
       hasTask dir now random (replicate n newline_unit) s)) =
     truncated_message False out (int ((n + 3) div 4) - int b) True (truncation_hint hasTask path)"
proof -
  let ?opts = "\<lparr>to_maxLines = n, to_maxTokens = m, to_previewTokens = b, to_tail = False\<rparr>"
  have "preview_loop n b 1 0 (replicate n []) = (replicate b [], b, True)"
    using preview_empty_lines [of 1 0 b n n] assms by simp
  then have "\<exists>out. preview_loop n b 0 0 (replicate (Suc n) []) = (out, b, True)"
    using assms by (simp add: estimateTokens_def)
  then obtain out where p: "preview_of ?opts ([] # replicate n []) = (out, b, True)"
    by (auto simp: preview_of_def)
  have "estimateTokens (replicate n newline_unit) = (n + 3) div 4"
    by (simp add: estimateTokens_def newline_unit_def cjk_unit_def)
  moreover obtain i s' where i: "id_create Id_tool False now random s = (i, s')" by fastforce
  ultimately show ?thesis
    by (auto simp: truncate_output_def Let_def p i unit_lines_newlines split: prod.split)
qed

theorem negative_tokens_truncated_witness:
  "\<exists>path out. tr_content (fst (truncate_output
       \<lparr>to_maxLines = 2000, to_maxTokens = 50000, to_previewTokens = 600, to_tail = False\<rparr>
       False [] 0 [] (replicate 2000 newline_unit) \<lparr>lastTimestamp = 0, id_counter = 0\<rparr>)) =
     truncated_message False out (- 100) True (truncation_hint False path)"
proof -
  have e: "int ((2000 + 3) div 4) - int 600 = - 100" by simp
  have "Suc 600 < 2000" by simp
  from negative_tokens_truncated [OF this, where m = 50000 and hasTask = False and dir = "[]" and now = 0
      and random = "[]" and s = "\<lparr>lastTimestamp = 0, id_counter = 0\<rparr>"]
  show ?thesis unfolding e .
qed

section \<open>What the cleanup deletes\<close>

text \<open>The file of an output that was saved at a time.\<close>

definition saved_at :: "int \<Rightarrow> string \<Rightarrow> bool" where
  "saved_at t f \<longleftrightarrow> (\<exists>random s. f = ''output_'' @ fst (id_create Id_tool False t random s) \<and>
     id_counter (snd (id_create Id_tool False t random s)) < 4096)"

lemma fresh_timestamp:
  assumes "id_counter (snd (id_create Id_tool False t random s)) < 4096"
  shows "id_timestamp (fst (id_create Id_tool False t random s)) = Some (t mod 2 ^ 36)"
proof -
  have "int (id_counter (snd (id_create Id_tool False t random s))) div 4096 = 0" using assms by simp
  then show ?thesis using created_timestamp [of Id_tool t random s] by simp
qed

lemma saved_timestamp: "saved_at t f \<Longrightarrow> id_timestamp (drop 7 f) = Some (t mod 2 ^ 36)"
  by (auto simp: saved_at_def fresh_timestamp)

definition entry_time :: "string \<Rightarrow> int option" where
  "entry_time f = id_timestamp (if js_starts_with f ''output_'' then drop (length ''output_'') f else f)"

definition entry_old :: "int \<Rightarrow> string \<Rightarrow> bool" where
  "entry_old cutoff f \<longleftrightarrow> (case entry_time f of None \<Rightarrow> False | Some t \<Rightarrow> t < cutoff)"

lemma cleanup_entries_all:
  "\<forall>(d, f) \<in> set es. entry_time f \<noteq> None \<Longrightarrow>
   cleanup_entries cutoff (\<lambda>_ _. True) es dirs =
     (True, map (\<lambda>(d, fs). (d, filter (\<lambda>f. \<not> ((d, f) \<in> set es \<and> entry_old cutoff f)) fs)) dirs)"
proof (induction es arbitrary: dirs)
  case Nil
  then show ?case by (simp add: case_prod_beta)
next
  case (Cons e es)
  obtain d f where e: "e = (d, f)" by (cases e)
  obtain t where t: "entry_time f = Some t" using Cons.prems e by auto
  have IH: "cleanup_entries cutoff (\<lambda>_ _. True) es dirs =
     (True, map (\<lambda>(d, fs). (d, filter (\<lambda>f. \<not> ((d, f) \<in> set es \<and> entry_old cutoff f)) fs)) dirs)" for dirs
    using Cons by auto
  show ?case
  proof (cases "cutoff \<le> t")
    case True
    then have "\<not> entry_old cutoff f" by (simp add: entry_old_def t)
    then show ?thesis using True t e
      by (auto simp: IH entry_time_def Let_def intro!: filter_cong)
  next
    case False
    then have old: "entry_old cutoff f" by (simp add: entry_old_def t)
    have "filter (\<lambda>g. \<not> ((d', g) \<in> set es \<and> entry_old cutoff g)) (if d' = d then filter (\<lambda>g. g \<noteq> f) fs else fs) =
        filter (\<lambda>g. \<not> ((d', g) \<in> set (e # es) \<and> entry_old cutoff g)) fs" for d' fs
      using old e by (auto intro!: filter_cong)
    then show ?thesis using False t [unfolded entry_time_def] e
      by (simp add: IH Let_def unlink_output_def case_prod_beta)
  qed
qed

lemma output_entries_iff:
  "(d, f) \<in> set (output_entries dirs) \<longleftrightarrow>
   js_starts_with f ''output_'' \<and> (\<exists>fs. (d, fs) \<in> set dirs \<and> f \<in> set fs)"
  by (auto simp: output_entries_def)

text \<open>The deletion of the old entries, and of the directories that are empty then.\<close>

definition without_old :: "int \<Rightarrow> output_dirs \<Rightarrow> output_dirs" where
  "without_old cutoff dirs =
     filter (\<lambda>(d, fs). fs \<noteq> [])
       (map (\<lambda>(d, fs). (d, filter (\<lambda>f. \<not> (js_starts_with f ''output_'' \<and> entry_old cutoff f)) fs)) dirs)"

lemma cleanup_all:
  assumes "\<forall>(d, f) \<in> set (output_entries dirs). entry_time f \<noteq> None"
    and "id_counter (snd (id_create Id_tool False (now - RETENTION_MS) random s)) < 4096"
  shows "fst (truncate_cleanup now random (\<lambda>_ _. True) dirs s)"
    and "fst (snd (truncate_cleanup now random (\<lambda>_ _. True) dirs s)) =
      without_old ((now - RETENTION_MS) mod 2 ^ 36) dirs"
proof -
  let ?cutoff = "(now - RETENTION_MS) mod 2 ^ 36"
  obtain i s' where i: "id_create Id_tool False (now - RETENTION_MS) random s = (i, s')" by fastforce
  have "id_timestamp i = Some ?cutoff" using fresh_timestamp [OF assms(2)] i by simp
  then have eq: "truncate_cleanup now random (\<lambda>_ _. True) dirs s =
      (True, filter (\<lambda>(d, fs). fs \<noteq> [])
         (map (\<lambda>(d, fs). (d, filter (\<lambda>f. \<not> ((d, f) \<in> set (output_entries dirs) \<and> entry_old ?cutoff f)) fs)) dirs), s')"
    by (simp add: truncate_cleanup_def i cleanup_entries_all [OF assms(1)] Let_def)
  have m: "map (\<lambda>(d, fs). (d, filter (\<lambda>f. \<not> ((d, f) \<in> set (output_entries dirs) \<and> entry_old ?cutoff f)) fs)) dirs =
      map (\<lambda>(d, fs). (d, filter (\<lambda>f. \<not> (js_starts_with f ''output_'' \<and> entry_old ?cutoff f)) fs)) dirs"
    by (rule map_cong [OF refl]) (auto simp: output_entries_iff intro!: filter_cong)
  show "fst (truncate_cleanup now random (\<lambda>_ _. True) dirs s)"
    unfolding eq by simp
  show "fst (snd (truncate_cleanup now random (\<lambda>_ _. True) dirs s)) = without_old ?cutoff dirs"
    unfolding eq without_old_def m by simp
qed

lemma entry_time_saved: "saved_at t f \<Longrightarrow> entry_time f = Some (t mod 2 ^ 36)"
proof -
  assume f: "saved_at t f"
  then have "js_starts_with f ''output_''" by (auto simp: saved_at_def js_starts_with_def)
  then show ?thesis using saved_timestamp [OF f] by (simp add: entry_time_def eval_nat_numeral)
qed

lemma same_era_less:
  fixes a b :: int
  assumes "a div n = b div n" shows "(a mod n < b mod n) = (a < b)"
  using assms by (metis add_less_cancel_left mult_div_mod_eq)

text \<open>
  Within one era of \<open>2 ^ 36\<close> milliseconds the cleanup deletes exactly the outputs that are older than a day,
  and the directories that are empty then.
\<close>

theorem cleanup_deletes_old_outputs:
  assumes "\<forall>(d, f) \<in> set (output_entries dirs). saved_at (time f) f \<and> time f div 2 ^ 36 = era"
    and "(now - RETENTION_MS) div 2 ^ 36 = era"
    and "id_counter (snd (id_create Id_tool False (now - RETENTION_MS) random s)) < 4096"
  shows "fst (truncate_cleanup now random (\<lambda>_ _. True) dirs s) \<and>
    fst (snd (truncate_cleanup now random (\<lambda>_ _. True) dirs s)) =
      filter (\<lambda>(d, fs). fs \<noteq> [])
        (map (\<lambda>(d, fs). (d, filter (\<lambda>f. \<not> (js_starts_with f ''output_'' \<and> time f < now - RETENTION_MS)) fs)) dirs)"
proof -
  have entry: "saved_at (time f) f \<and> time f div 2 ^ 36 = era"
    if "(d, fs) \<in> set dirs" "f \<in> set fs" "js_starts_with f ''output_''" for d fs f
  proof -
    have "(d, f) \<in> set (output_entries dirs)" using that output_entries_iff by blast
    with assms(1) show ?thesis by blast
  qed
  have "\<forall>(d, f) \<in> set (output_entries dirs). entry_time f \<noteq> None"
    using assms(1) entry_time_saved by fastforce
  note all = cleanup_all [OF this assms(3)]
  have m: "map (\<lambda>(d, fs). (d, filter (\<lambda>f. \<not> (js_starts_with f ''output_'' \<and>
          entry_old ((now - RETENTION_MS) mod 2 ^ 36) f)) fs)) dirs =
      map (\<lambda>(d, fs). (d, filter (\<lambda>f. \<not> (js_starts_with f ''output_'' \<and> time f < now - RETENTION_MS)) fs)) dirs"
  proof (rule map_cong [OF refl])
    fix x assume x: "x \<in> set dirs"
    obtain d fs where "x = (d, fs)" by (cases x)
    have "(js_starts_with f ''output_'' \<and> entry_old ((now - RETENTION_MS) mod 2 ^ 36) f) =
        (js_starts_with f ''output_'' \<and> time f < now - RETENTION_MS)" if "f \<in> set fs" for f
    proof (cases "js_starts_with f ''output_''")
      case True
      then have f: "saved_at (time f) f" "time f div 2 ^ 36 = era"
        using entry that x \<open>x = (d, fs)\<close> by blast+
      then show ?thesis
        using same_era_less [of "time f" "2 ^ 36" "now - RETENTION_MS"] assms(2)
        by (simp add: entry_old_def entry_time_saved [OF f(1)])
    qed simp
    then have "filter (\<lambda>f. \<not> (js_starts_with f ''output_'' \<and> entry_old ((now - RETENTION_MS) mod 2 ^ 36) f)) fs =
        filter (\<lambda>f. \<not> (js_starts_with f ''output_'' \<and> time f < now - RETENTION_MS)) fs"
      by (intro filter_cong refl) simp
    with \<open>x = (d, fs)\<close> show "(\<lambda>(d, fs). (d, filter (\<lambda>f. \<not> (js_starts_with f ''output_'' \<and>
          entry_old ((now - RETENTION_MS) mod 2 ^ 36) f)) fs)) x =
        (\<lambda>(d, fs). (d, filter (\<lambda>f. \<not> (js_starts_with f ''output_'' \<and> time f < now - RETENTION_MS)) fs)) x"
      by simp
  qed
  show ?thesis using all unfolding without_old_def m by blast
qed

text \<open>
  On the first day of an era the cleanup deletes every output that was saved since the era began,
  however fresh it is: the times of the names start again at 0, and the time a day ago is near
  \<open>2 ^ 36\<close>. The 26th era begins in August 2026.
\<close>

theorem cleanup_deletes_fresh_outputs:
  assumes "era * 2 ^ 36 \<le> now" and "now < era * 2 ^ 36 + RETENTION_MS"
    and "era * 2 ^ 36 \<le> t" and "t \<le> now" and "saved_at t f"
    and "id_counter (snd (id_create Id_tool False (now - RETENTION_MS) random s)) < 4096"
  shows "fst (snd (truncate_cleanup now random (\<lambda>_ _. True) [(dir, [f])] s)) = []"
proof -
  have ret: "RETENTION_MS = 86400000" by (simp add: RETENTION_MS_def)
  have t: "t mod 2 ^ 36 = t - era * 2 ^ 36"
  proof -
    have "t = (t - era * 2 ^ 36) + era * 2 ^ 36" by simp
    then have "t mod 2 ^ 36 = (t - era * 2 ^ 36) mod 2 ^ 36" by (metis mod_mult_self1)
    also have "\<dots> = t - era * 2 ^ 36" using assms ret by (intro mod_pos_pos_trivial) auto
    finally show ?thesis .
  qed
  have c: "(now - RETENTION_MS) mod 2 ^ 36 = now - RETENTION_MS - (era - 1) * 2 ^ 36"
  proof -
    have "now - RETENTION_MS = (now - RETENTION_MS - (era - 1) * 2 ^ 36) + (era - 1) * 2 ^ 36" by simp
    then have "(now - RETENTION_MS) mod 2 ^ 36 = (now - RETENTION_MS - (era - 1) * 2 ^ 36) mod 2 ^ 36"
      by (metis mod_mult_self1)
    also have "\<dots> = now - RETENTION_MS - (era - 1) * 2 ^ 36"
      using assms(1,2) ret by (intro mod_pos_pos_trivial) auto
    finally show ?thesis .
  qed
  have "js_starts_with f ''output_''" using assms(5) by (auto simp: saved_at_def js_starts_with_def)
  moreover have "entry_old ((now - RETENTION_MS) mod 2 ^ 36) f"
    using assms(1-4) ret unfolding entry_old_def entry_time_saved [OF assms(5)] t c by simp
  moreover have "\<forall>(d, g) \<in> set (output_entries [(dir, [f])]). entry_time g \<noteq> None"
    using entry_time_saved [OF assms(5)] by (simp add: output_entries_iff split_beta) (auto simp: output_entries_def)
  ultimately show ?thesis
    using cleanup_all(2) [OF _ assms(6), of "[(dir, [f])]"] by (simp add: without_old_def)
qed

text \<open>
  One file whose name has no time stops the cleanup: the entries after it stay, however old they are.
\<close>

theorem foreign_name_stops_cleanup:
  assumes "entry_time f = None" and "js_starts_with f ''output_''"
  shows "\<not> fst (truncate_cleanup now random unlinks ((d, f # fs) # dirs) s) \<and>
    fst (snd (truncate_cleanup now random unlinks ((d, f # fs) # dirs) s)) = (d, f # fs) # dirs"
  using assms by (auto simp: truncate_cleanup_def output_entries_def entry_time_def Let_def split: prod.split option.split)

theorem foreign_name_stops_cleanup_witness:
  "\<not> fst (truncate_cleanup 0 [] (\<lambda>_ _. True) [(''s'', [''output_notes'', ''output_tool_000000000001''])]
        \<lparr>lastTimestamp = 0, id_counter = 0\<rparr>)"
proof -
  have "entry_time ''output_notes'' = None" and "js_starts_with ''output_notes'' ''output_''"
    by code_simp+
  from foreign_name_stops_cleanup [OF this, of 0 "[]" "\<lambda>_ _. True" "''s''" "[''output_tool_000000000001'']" "[]"]
  show ?thesis by blast
qed

theorem cleanup_deletes_old_outputs_witness:
  "fst (snd (truncate_cleanup 200000000 [] (\<lambda>_ _. True)
       [(''s'', [''output_'' @ fst (id_create Id_tool False 1 [] \<lparr>lastTimestamp = 0, id_counter = 0\<rparr>)])]
       \<lparr>lastTimestamp = 0, id_counter = 0\<rparr>)) = []"
proof -
  let ?s = "\<lparr>lastTimestamp = 0, id_counter = 0\<rparr>"
  let ?f = "''output_'' @ fst (id_create Id_tool False 1 [] ?s)"
  have c: "id_counter (snd (id_create Id_tool False t [] ?s)) < 4096" for t
    by (simp add: id_create_eq next_count_eq used_def)
  have f: "saved_at 1 ?f" unfolding saved_at_def using c by blast
  have "js_starts_with ?f ''output_''" by (simp add: js_starts_with_def)
  moreover have "fst (snd (truncate_cleanup 200000000 [] (\<lambda>_ _. True) [(''s'', [?f])] ?s)) =
      filter (\<lambda>(d, fs). fs \<noteq> [])
        (map (\<lambda>(d, fs). (d, filter (\<lambda>f. \<not> (js_starts_with f ''output_'' \<and> 1 < 200000000 - RETENTION_MS)) fs)) [(''s'', [?f])])"
    by (rule conjunct2, rule cleanup_deletes_old_outputs [where era = 0 and time = "\<lambda>_. 1"])
      (use f c in \<open>auto simp: output_entries_def RETENTION_MS_def\<close>)
  ultimately show ?thesis by (simp add: RETENTION_MS_def)
qed

theorem cleanup_deletes_fresh_outputs_witness:
  "fst (snd (truncate_cleanup (26 * 2 ^ 36 + 60000) [] (\<lambda>_ _. True)
       [(''s'', [''output_'' @ fst (id_create Id_tool False (26 * 2 ^ 36 + 1000) [] \<lparr>lastTimestamp = 0, id_counter = 0\<rparr>)])]
       \<lparr>lastTimestamp = 0, id_counter = 0\<rparr>)) = []"
proof -
  let ?s = "\<lparr>lastTimestamp = 0, id_counter = 0\<rparr>"
  have c: "id_counter (snd (id_create Id_tool False t [] ?s)) < 4096" for t
    by (simp add: id_create_eq next_count_eq used_def)
  then have f: "saved_at t (''output_'' @ fst (id_create Id_tool False t [] ?s))" for t
    unfolding saved_at_def by blast
  show ?thesis
    by (rule cleanup_deletes_fresh_outputs [where era = 26 and t = "26 * 2 ^ 36 + 1000"])
      (use f c in \<open>simp_all add: RETENTION_MS_def\<close>)
qed

text \<open>
  The cleanup asks for an identifier of yesterday, which resets the counter: an identifier created right after it
  has the number of the first identifier of the same millisecond, so only its random letters differ.
\<close>

theorem cleanup_repeats_number:
  assumes "lastTimestamp s \<noteq> t"
  shows "fst (id_create kind d t random (snd (snd (truncate_cleanup t random' unlinks dirs
           (snd (id_create kind' d' t random'' s)))))) =
         fst (id_create kind d t random s)"
proof -
  have "lastTimestamp (snd (snd (truncate_cleanup t random' unlinks dirs s'))) = t - RETENTION_MS" for s'
    by (auto simp: truncate_cleanup_def id_create_eq next_count_eq Let_def split: option.split prod.split bool.split)
  then show ?thesis
    using assms by (simp add: id_create_eq next_count_eq used_def RETENTION_MS_def del: hex_str.simps)
qed

theorem cleanup_repeats_number_witness:
  "fst (id_create Id_tool False 5 [] (snd (snd (truncate_cleanup 5 [] (\<lambda>_ _. True) []
           (snd (id_create Id_tool False 5 [] \<lparr>lastTimestamp = 0, id_counter = 0\<rparr>)))))) =
   fst (id_create Id_tool False 5 [] \<lparr>lastTimestamp = 0, id_counter = 0\<rparr>)"
  by (rule cleanup_repeats_number) simp

end
