(* ===== verification/Circuit_Breaker.thy ===== *)
theory Circuit_Breaker
  imports Js_Prelude
begin

text \<open>
  The circuit breaker of the copilot-cli provider (plugin/copilot-cli/circuit-breaker.ts) and the
  fetch it guards (plugin/copilot-cli/client.ts). Times and time-outs are integers, in
  milliseconds; a method that reads the clock takes the time. A fetch answers with a status code
  or throws.
\<close>

datatype circuit_state = Closed | Open | Half_open

record breaker_config =
  failureThreshold :: nat
  resetTimeoutMs :: int
  probeTimeoutMs :: int
  statusCodes :: "int list"

definition DEFAULT_BREAKER_CONFIG :: breaker_config where
  "DEFAULT_BREAKER_CONFIG = \<lparr>failureThreshold = 5, resetTimeoutMs = 30000, probeTimeoutMs = 30000,
     statusCodes = [500, 502, 503, 504]\<rparr>"

record breaker =
  cb_state :: circuit_state
  cb_failureCount :: nat
  cb_lastFailureTime :: int
  cb_probeInFlight :: bool
  cb_probeStartTime :: int
  cb_resetTimeout :: int

definition cb_new :: "breaker_config \<Rightarrow> breaker" where
  "cb_new cfg = \<lparr>cb_state = Closed, cb_failureCount = 0, cb_lastFailureTime = 0, cb_probeInFlight = False,
     cb_probeStartTime = 0, cb_resetTimeout = resetTimeoutMs cfg\<rparr>"

definition cb_update :: "int \<Rightarrow> breaker \<Rightarrow> breaker" where
  "cb_update now b =
     (if cb_state b = Open \<and> cb_resetTimeout b \<le> now - cb_lastFailureTime b
      then b\<lparr>cb_state := Half_open\<rparr> else b)"

definition cb_getState :: "int \<Rightarrow> breaker \<Rightarrow> circuit_state \<times> breaker" where
  "cb_getState now b = (let b1 = cb_update now b in (cb_state b1, b1))"

definition cb_canRequest :: "breaker_config \<Rightarrow> int \<Rightarrow> breaker \<Rightarrow> bool \<times> breaker" where
  "cb_canRequest cfg now b =
     (let b1 = cb_update now b in
      case cb_state b1 of
        Closed \<Rightarrow> (True, b1)
      | Half_open \<Rightarrow>
          let b2 = (if cb_probeInFlight b1 \<and> probeTimeoutMs cfg \<le> now - cb_probeStartTime b1
                    then b1\<lparr>cb_probeInFlight := False\<rparr> else b1)
          in if cb_probeInFlight b2 then (False, b2)
             else (True, b2\<lparr>cb_probeInFlight := True, cb_probeStartTime := now\<rparr>)
      | Open \<Rightarrow> (False, b1))"

definition cb_recordSuccess :: "breaker_config \<Rightarrow> breaker \<Rightarrow> breaker" where
  "cb_recordSuccess cfg b =
     b\<lparr>cb_failureCount := 0, cb_probeInFlight := False, cb_resetTimeout := resetTimeoutMs cfg, cb_state := Closed\<rparr>"

definition cb_recordFailure :: "breaker_config \<Rightarrow> int \<Rightarrow> breaker \<Rightarrow> breaker" where
  "cb_recordFailure cfg now b =
     (let wasHalfOpen = (cb_state b = Half_open);
          b1 = b\<lparr>cb_failureCount := cb_failureCount b + 1, cb_lastFailureTime := now, cb_probeInFlight := False\<rparr>;
          b2 = (if failureThreshold cfg \<le> cb_failureCount b1 then b1\<lparr>cb_state := Open\<rparr> else b1)
      in if wasHalfOpen \<and> cb_state b2 = Open
         then b2\<lparr>cb_resetTimeout := min (cb_resetTimeout b2 * 2) (resetTimeoutMs cfg * 4)\<rparr> else b2)"

definition cb_recordResponse :: "breaker_config \<Rightarrow> int \<Rightarrow> int \<Rightarrow> breaker \<Rightarrow> bool \<times> breaker" where
  "cb_recordResponse cfg now statusCode b =
     (if statusCode \<in> set (statusCodes cfg) then (True, cb_recordFailure cfg now b)
      else (False, cb_recordSuccess cfg b))"

text \<open>\<open>guardedFetch\<close>: the answer arrives at a later time; \<open>None\<close> when the fetch throws.\<close>

datatype fetch_result = Blocked_by_breaker | Fetch_threw | Fetched int

definition guardedFetch :: "breaker_config \<Rightarrow> int \<Rightarrow> int \<Rightarrow> int option \<Rightarrow> breaker \<Rightarrow> fetch_result \<times> breaker" where
  "guardedFetch cfg now later answer b =
     (case cb_canRequest cfg now b of
        (False, b1) \<Rightarrow> (Blocked_by_breaker, snd (cb_getState now b1))
      | (True, b1) \<Rightarrow>
          (case answer of
             None \<Rightarrow> (Fetch_threw, b1)
           | Some code \<Rightarrow> (Fetched code, snd (cb_recordResponse cfg later code b1))))"

section \<open>Runs\<close>

text \<open>Any sequence of calls, also of callers that were let in before the breaker opened.\<close>

datatype breaker_call = Can_request int | Get_state int | Success | Failure int

fun cb_call :: "breaker_config \<Rightarrow> breaker_call \<Rightarrow> breaker \<Rightarrow> breaker" where
  "cb_call cfg (Can_request now) b = snd (cb_canRequest cfg now b)"
| "cb_call cfg (Get_state now) b = snd (cb_getState now b)"
| "cb_call cfg Success b = cb_recordSuccess cfg b"
| "cb_call cfg (Failure now) b = cb_recordFailure cfg now b"

definition cb_run :: "breaker_config \<Rightarrow> breaker_call list \<Rightarrow> breaker \<Rightarrow> breaker" where
  "cb_run cfg calls b = fold (cb_call cfg) calls b"

fun failures :: "breaker_call list \<Rightarrow> nat" where
  "failures [] = 0"
| "failures (Success # cs) = 0"
| "failures (Failure now # cs) = Suc (failures cs)"
| "failures (c # cs) = failures cs"

definition cb_inv :: "breaker_config \<Rightarrow> breaker \<Rightarrow> bool" where
  "cb_inv cfg b \<longleftrightarrow>
     (cb_state b = Closed \<longleftrightarrow> cb_failureCount b < failureThreshold cfg) \<and>
     resetTimeoutMs cfg \<le> cb_resetTimeout b \<and> cb_resetTimeout b \<le> 4 * resetTimeoutMs cfg \<and>
     (cb_state b = Closed \<longrightarrow> cb_resetTimeout b = resetTimeoutMs cfg)"

lemmas cb_defs = cb_update_def cb_getState_def cb_canRequest_def cb_recordSuccess_def cb_recordFailure_def Let_def

lemma cb_count:
  "cb_failureCount (cb_call cfg c b) = (case c of Success \<Rightarrow> 0 | Failure now \<Rightarrow> Suc (cb_failureCount b) | _ \<Rightarrow> cb_failureCount b)"
  by (cases c) (auto simp: cb_defs split: circuit_state.split)

lemma cb_inv_call:
  assumes "cb_inv cfg b" and "0 < failureThreshold cfg" and "0 \<le> resetTimeoutMs cfg"
  shows "cb_inv cfg (cb_call cfg c b)"
  using assms by (cases c; cases "cb_state b") (auto simp: cb_inv_def cb_defs)

lemma cb_inv_run:
  "cb_inv cfg b \<Longrightarrow> 0 < failureThreshold cfg \<Longrightarrow> 0 \<le> resetTimeoutMs cfg \<Longrightarrow> cb_inv cfg (cb_run cfg calls b)"
  by (induction calls arbitrary: b) (simp_all add: cb_run_def cb_inv_call)

lemma cb_failures: "cb_failureCount (cb_run cfg calls (cb_new cfg)) = failures (rev calls)"
proof (induction calls rule: rev_induct)
  case (snoc c calls)
  then show ?case by (cases c) (simp_all add: cb_run_def cb_count del: cb_call.simps)
qed (simp add: cb_run_def cb_new_def)

text \<open>
  After any calls the breaker is closed exactly when fewer failures than the threshold came since the last
  success, and its time-out lies between the configured one and four times that.
\<close>

theorem breaker_opens_at_threshold:
  assumes "0 < failureThreshold cfg" and "0 \<le> resetTimeoutMs cfg"
  shows "(cb_state (cb_run cfg calls (cb_new cfg)) = Closed \<longleftrightarrow> failures (rev calls) < failureThreshold cfg) \<and>
    resetTimeoutMs cfg \<le> cb_resetTimeout (cb_run cfg calls (cb_new cfg)) \<and>
    cb_resetTimeout (cb_run cfg calls (cb_new cfg)) \<le> 4 * resetTimeoutMs cfg"
proof -
  have "cb_inv cfg (cb_new cfg)" using assms by (simp add: cb_inv_def cb_new_def)
  then have "cb_inv cfg (cb_run cfg calls (cb_new cfg))" using assms by (rule cb_inv_run)
  then show ?thesis by (simp add: cb_inv_def cb_failures)
qed

theorem breaker_opens_at_threshold_witness:
  "cb_state (cb_run DEFAULT_BREAKER_CONFIG
     [Failure 1, Failure 2, Success, Failure 3, Failure 4, Failure 5, Failure 6, Failure 7] (cb_new DEFAULT_BREAKER_CONFIG)) \<noteq> Closed"
  using breaker_opens_at_threshold [of DEFAULT_BREAKER_CONFIG
     "[Failure 1, Failure 2, Success, Failure 3, Failure 4, Failure 5, Failure 6, Failure 7]"]
  by (simp add: DEFAULT_BREAKER_CONFIG_def)

section \<open>Probes\<close>

fun asks :: "breaker_call \<Rightarrow> bool" where
  "asks (Can_request now) = True"
| "asks (Get_state now) = True"
| "asks c = False"

fun ask_time :: "breaker_call \<Rightarrow> int" where
  "ask_time (Can_request now) = now"
| "ask_time (Get_state now) = now"
| "ask_time c = 0"

text \<open>The times at which a request was let through.\<close>

fun grants :: "breaker_config \<Rightarrow> breaker_call list \<Rightarrow> breaker \<Rightarrow> int list" where
  "grants cfg [] b = []"
| "grants cfg (c # cs) b =
     (case c of
        Can_request now \<Rightarrow> (if fst (cb_canRequest cfg now b) then [now] else []) @ grants cfg cs (cb_call cfg c b)
      | _ \<Rightarrow> grants cfg cs (cb_call cfg c b))"

lemma grants_spaced:
  "list_all asks cs \<Longrightarrow> sorted (map ask_time cs) \<Longrightarrow> 0 \<le> probeTimeoutMs cfg \<Longrightarrow> cb_state b \<noteq> Closed \<Longrightarrow>
   (cb_state b = Half_open \<longrightarrow> (\<forall>c \<in> set cs. cb_lastFailureTime b + cb_resetTimeout b \<le> ask_time c)) \<Longrightarrow>
   sorted_wrt (\<lambda>t u. t + probeTimeoutMs cfg \<le> u) (grants cfg cs b) \<and>
   (\<forall>t \<in> set (grants cfg cs b). cb_lastFailureTime b + cb_resetTimeout b \<le> t \<and>
      (cb_probeInFlight b \<longrightarrow> cb_probeStartTime b + probeTimeoutMs cfg \<le> t))"
proof (induction cs arbitrary: b)
  case (Cons c cs)
  let ?b = "cb_call cfg c b"
  have half: "cb_state ?b = Half_open \<longrightarrow>
      (\<forall>d \<in> set cs. cb_lastFailureTime ?b + cb_resetTimeout ?b \<le> ask_time d)"
    using Cons.prems by (cases c; cases "cb_state b") (auto simp: cb_defs)
  have closed: "cb_state ?b \<noteq> Closed"
    using Cons.prems by (cases c; cases "cb_state b") (auto simp: cb_defs)
  have same: "cb_lastFailureTime ?b = cb_lastFailureTime b" "cb_resetTimeout ?b = cb_resetTimeout b"
    using Cons.prems by (cases c; cases "cb_state b"; auto simp: cb_defs)+
  note IH = Cons.IH [OF _ _ Cons.prems(3) closed half, unfolded same]
  show ?case
  proof (cases c)
    case (Can_request now)
    show ?thesis
    proof (cases "fst (cb_canRequest cfg now b)")
      case True
      then have now: "cb_lastFailureTime b + cb_resetTimeout b \<le> now" "cb_probeInFlight ?b" "cb_probeStartTime ?b = now"
        "cb_probeInFlight b \<longrightarrow> cb_probeStartTime b + probeTimeoutMs cfg \<le> now"
        using Cons.prems Can_request by (cases "cb_state b"; auto simp: cb_defs split: if_splits)+
      have g: "grants cfg (c # cs) b = now # grants cfg cs ?b"
        using True Can_request by (simp del: cb_call.simps)
      have rest: "sorted_wrt (\<lambda>t u. t + probeTimeoutMs cfg \<le> u) (grants cfg cs ?b)"
        "\<forall>t \<in> set (grants cfg cs ?b). cb_lastFailureTime b + cb_resetTimeout b \<le> t \<and> now + probeTimeoutMs cfg \<le> t"
        using IH now Cons.prems(1,2) by simp_all
      have "cb_probeInFlight b \<longrightarrow> cb_probeStartTime b + probeTimeoutMs cfg \<le> t" if "t \<in> set (grants cfg cs ?b)" for t
        using rest(2) that now(4) Cons.prems(3) by force
      then show ?thesis unfolding g using rest now by auto
    next
      case False
      then have "cb_probeInFlight b \<longrightarrow> cb_probeInFlight ?b \<and> cb_probeStartTime ?b = cb_probeStartTime b"
        using Can_request by (cases "cb_state b") (auto simp: cb_defs split: if_splits)
      then show ?thesis using IH Cons.prems Can_request False by (auto simp del: cb_call.simps)
    qed
  next
    case (Get_state now)
    then have "cb_probeInFlight ?b = cb_probeInFlight b" "cb_probeStartTime ?b = cb_probeStartTime b"
      by (auto simp: cb_defs)
    then show ?thesis using IH Cons.prems Get_state by (simp del: cb_call.simps)
  qed (use Cons.prems in simp_all)
qed simp

text \<open>
  While an open breaker hears of no answer it lets nothing through before its time-out is over, and then one
  request every probe time-out at most.
\<close>

theorem open_breaker_probes:
  assumes "cb_state b = Open" and "list_all asks cs" and "sorted (map ask_time cs)" and "0 \<le> probeTimeoutMs cfg"
  shows "sorted_wrt (\<lambda>t u. t + probeTimeoutMs cfg \<le> u) (grants cfg cs b) \<and>
    (\<forall>t \<in> set (grants cfg cs b). cb_lastFailureTime b + cb_resetTimeout b \<le> t)"
  using grants_spaced [OF assms(2,3,4), of b] assms(1) by simp

theorem open_breaker_probes_witness:
  "grants DEFAULT_BREAKER_CONFIG [Can_request 10, Can_request 30007, Get_state 30008, Can_request 60006, Can_request 60007]
     (cb_run DEFAULT_BREAKER_CONFIG [Failure 3, Failure 4, Failure 5, Failure 6, Failure 7] (cb_new DEFAULT_BREAKER_CONFIG)) =
     [30007, 60007] \<and>
   sorted_wrt (\<lambda>t u. t + 30000 \<le> u)
     (grants DEFAULT_BREAKER_CONFIG [Can_request 10, Can_request 30007, Get_state 30008, Can_request 60006, Can_request 60007]
        (cb_run DEFAULT_BREAKER_CONFIG [Failure 3, Failure 4, Failure 5, Failure 6, Failure 7] (cb_new DEFAULT_BREAKER_CONFIG)))"
proof -
  let ?b = "cb_run DEFAULT_BREAKER_CONFIG [Failure 3, Failure 4, Failure 5, Failure 6, Failure 7] (cb_new DEFAULT_BREAKER_CONFIG)"
  have "cb_state ?b = Open" by code_simp
  from open_breaker_probes [OF this, of "[Can_request 10, Can_request 30007, Get_state 30008, Can_request 60006, Can_request 60007]"
      DEFAULT_BREAKER_CONFIG]
  have "sorted_wrt (\<lambda>t u. t + 30000 \<le> u)
     (grants DEFAULT_BREAKER_CONFIG [Can_request 10, Can_request 30007, Get_state 30008, Can_request 60006, Can_request 60007] ?b)"
    by (simp add: DEFAULT_BREAKER_CONFIG_def)
  moreover have "grants DEFAULT_BREAKER_CONFIG
      [Can_request 10, Can_request 30007, Get_state 30008, Can_request 60006, Can_request 60007] ?b = [30007, 60007]"
    by code_simp
  ultimately show ?thesis by simp
qed

text \<open>
  A fetch that throws is not recorded: however often the network fails, a closed breaker stays as it was.
\<close>

theorem network_failures_not_counted:
  assumes "cb_state b = Closed"
  shows "fold (\<lambda>(now, later) b. snd (guardedFetch cfg now later None b)) calls b = b"
proof -
  have "snd (guardedFetch cfg now later None b) = b" for now later
    using assms by (simp add: guardedFetch_def cb_defs)
  then show ?thesis by (induction calls) (simp_all add: case_prod_beta)
qed

theorem network_failures_not_counted_witness:
  "cb_state (fold (\<lambda>(now, later) b. snd (guardedFetch DEFAULT_BREAKER_CONFIG now later None b))
     (replicate 7 (1, 2)) (cb_new DEFAULT_BREAKER_CONFIG)) = Closed"
proof -
  have "cb_state (cb_new DEFAULT_BREAKER_CONFIG) = Closed" by (simp add: cb_new_def)
  from network_failures_not_counted [OF this, of DEFAULT_BREAKER_CONFIG "replicate 7 (1, 2)"] this
  show ?thesis by metis
qed

end
