(* ===== verification/Rate_Limiter.thy ===== *)
theory Rate_Limiter
  imports Js_Prelude
begin

text \<open>
  The rate limiter of the server (server/rate-limit.ts): a bucket of tokens for every user, method
  and route. Tokens are rationals, times integers in milliseconds. The configuration
  (config/tweaks.ts) has a positive rate and a burst of at least 1. The host name of a request and
  the user are arguments; the counts of the statistics are fields of the state.
\<close>

section \<open>The code\<close>

record bucket =
  bk_tokens :: rat
  bk_lastRefillAt :: int

record limiter =
  rl_buckets :: "(string, bucket) jmap"
  rl_allowed :: nat
  rl_throttled :: nat

record limit_config =
  lc_enabled :: bool
  lc_qps :: rat
  lc_burst :: nat

record http_request =
  rq_path :: string
  rq_hostname :: string
  rq_method :: string
  rq_username :: "string option"

definition EXEMPT_PATH_PREFIXES :: "string list" where
  "EXEMPT_PATH_PREFIXES =
     [''/log'', ''/api/v2/global/health'', ''/api/v2/global/log'', ''/api/v2/server/cache/health'', ''/api/v2/server/'']"

definition ID_PREFIXES :: "string list" where
  "ID_PREFIXES = [''ses'', ''msg'', ''per'', ''que'', ''usr'', ''prt'', ''pty'', ''tool'']"

definition id_segment :: "string \<Rightarrow> bool" where
  "id_segment seg \<longleftrightarrow>
     list_ex (\<lambda>p. js_starts_with seg (p @ ''_'') \<and> 20 \<le> length (drop (length p + 1) seg) \<and>
        list_all (\<lambda>c. js_alnum (js_lower_char c)) (drop (length p + 1) seg)) ID_PREFIXES"

definition normalizeRoutePattern :: "string \<Rightarrow> string" where
  "normalizeRoutePattern path =
     js_join ''/'' (map (\<lambda>seg. if id_segment seg then '':id'' else seg) (js_split (CHR ''/'') path))"

definition isExempt :: "string \<Rightarrow> string \<Rightarrow> bool" where
  "isExempt path hostname \<longleftrightarrow>
     hostname = ''opencode.internal'' \<or>
     list_ex (\<lambda>prefix. path = prefix \<or> js_starts_with path prefix) EXEMPT_PATH_PREFIXES"

definition refill :: "int \<Rightarrow> rat \<Rightarrow> rat \<Rightarrow> bucket \<Rightarrow> bucket" where
  "refill now refillPerSec capacity b =
     (let elapsed = of_int (now - bk_lastRefillAt b) / 1000 in
      if elapsed \<le> 0 then b
      else \<lparr>bk_tokens = min capacity (bk_tokens b + elapsed * refillPerSec), bk_lastRefillAt = now\<rparr>)"

datatype take_result = Took rat | Empty int

definition take_token :: "int \<Rightarrow> rat \<Rightarrow> rat \<Rightarrow> bucket option \<Rightarrow> take_result \<times> bucket" where
  "take_token now refillPerSec capacity old =
     (let b = (case old of
                 None \<Rightarrow> \<lparr>bk_tokens = capacity, bk_lastRefillAt = now\<rparr>
               | Some b \<Rightarrow> refill now refillPerSec capacity b)
      in if 1 \<le> bk_tokens b then (Took (bk_tokens b - 1), b\<lparr>bk_tokens := bk_tokens b - 1\<rparr>)
         else (Empty (max 1 \<lceil>(1 - bk_tokens b) / refillPerSec\<rceil>), b))"

definition bucket_key :: "string \<Rightarrow> string \<Rightarrow> string \<Rightarrow> string" where
  "bucket_key username meth routePattern = username @ '':'' @ meth @ '':'' @ routePattern"

text \<open>What becomes of a request: it proceeds (uncounted or counted), or is answered with 429.\<close>

datatype verdict = Bypassed | Allowed rat | Throttled int

definition limit_request :: "limit_config \<Rightarrow> int \<Rightarrow> http_request \<Rightarrow> limiter \<Rightarrow> verdict \<times> limiter" where
  "limit_request cfg now r st =
     (if \<not> lc_enabled cfg then (Bypassed, st)
      else if isExempt (rq_path r) (rq_hostname r) then (Bypassed, st)
      else if \<not> truthy (rq_username r) then (Bypassed, st)
      else
        let key = bucket_key (the (rq_username r)) (rq_method r) (normalizeRoutePattern (rq_path r));
            (res, b) = take_token now (lc_qps cfg) (of_nat (lc_burst cfg)) (jget (rl_buckets st) key);
            st1 = st\<lparr>rl_buckets := jset (rl_buckets st) key b\<rparr>
        in case res of
             Took remaining \<Rightarrow> (Allowed remaining, st1\<lparr>rl_allowed := rl_allowed st1 + 1\<rparr>)
           | Empty retryAfterSec \<Rightarrow> (Throttled retryAfterSec, st1\<lparr>rl_throttled := rl_throttled st1 + 1\<rparr>))"

section \<open>One bucket\<close>

definition bucket_ok :: "rat \<Rightarrow> bucket \<Rightarrow> bool" where
  "bucket_ok capacity b \<longleftrightarrow> 0 \<le> bk_tokens b \<and> bk_tokens b \<le> capacity"

text \<open>The tokens are worth at most what a full bucket is at their time.\<close>

definition credit :: "rat \<Rightarrow> bucket \<Rightarrow> rat" where
  "credit rate b = bk_tokens b - of_int (bk_lastRefillAt b) / 1000 * rate"

lemma refill_ok: "bucket_ok capacity b \<Longrightarrow> 0 \<le> rate \<Longrightarrow> bucket_ok capacity (refill now rate capacity b)"
  by (auto simp: bucket_ok_def refill_def Let_def)

lemma refill_credit: "0 \<le> rate \<Longrightarrow> credit rate (refill now rate capacity b) \<le> credit rate b"
  by (auto simp: credit_def refill_def Let_def min_def field_simps)

lemma refill_time: "bk_lastRefillAt (refill now rate capacity b) = max now (bk_lastRefillAt b)"
  by (auto simp: refill_def Let_def)

fun takes :: "rat \<Rightarrow> rat \<Rightarrow> int list \<Rightarrow> bucket option \<Rightarrow> bool list" where
  "takes rate capacity [] b = []"
| "takes rate capacity (now # ts) b =
     (let (res, b') = take_token now rate capacity b
      in (case res of Took r \<Rightarrow> True | Empty r \<Rightarrow> False) # takes rate capacity ts (Some b'))"

lemma takes_credit:
  "bucket_ok capacity b \<Longrightarrow> 0 \<le> rate \<Longrightarrow> \<forall>t \<in> set ts. t \<le> final \<Longrightarrow> bk_lastRefillAt b \<le> final \<Longrightarrow>
   of_nat (length (filter (\<lambda>a. a) (takes rate capacity ts (Some b)))) \<le> credit rate b + of_int final / 1000 * rate"
proof (induction ts arbitrary: b)
  case Nil
  have "of_int (bk_lastRefillAt b) / 1000 * rate \<le> of_int final / 1000 * rate"
    using Nil by (intro mult_right_mono) simp_all
  then show ?case using Nil by (simp add: bucket_ok_def credit_def)
next
  case (Cons t ts)
  let ?b = "refill t rate capacity b"
  have ok: "bucket_ok capacity ?b" and cr: "credit rate ?b \<le> credit rate b"
    and ti: "bk_lastRefillAt ?b \<le> final"
    using Cons.prems by (simp_all add: refill_ok refill_credit refill_time)
  show ?case
  proof (cases "1 \<le> bk_tokens ?b")
    case True
    let ?c = "?b\<lparr>bk_tokens := bk_tokens ?b - 1\<rparr>"
    have "bucket_ok capacity ?c" using ok True by (simp add: bucket_ok_def)
    then have "of_nat (length (filter (\<lambda>a. a) (takes rate capacity ts (Some ?c)))) \<le> credit rate ?c + of_int final / 1000 * rate"
      using Cons.IH [of ?c] Cons.prems ti by simp
    moreover have "credit rate ?c = credit rate ?b - 1" by (simp add: credit_def)
    ultimately show ?thesis using True cr by (simp add: take_token_def Let_def)
  next
    case False
    then show ?thesis using Cons.IH [OF ok] Cons.prems ti cr by (simp add: take_token_def Let_def)
  qed
qed

lemma refill_refill [simp]: "refill t rate capacity (refill t rate capacity b) = refill t rate capacity b"
  by (simp add: refill_def Let_def)

lemma takes_bound:
  assumes "case old of None \<Rightarrow> True | Some b \<Rightarrow> bucket_ok capacity b"
    and "0 \<le> rate" and "0 \<le> capacity" and ts: "\<forall>t \<in> set ts. t0 \<le> t \<and> t \<le> t1" and "ts \<noteq> []"
  shows "of_nat (length (filter (\<lambda>a. a) (takes rate capacity ts old))) \<le> capacity + of_int (t1 - t0) / 1000 * rate"
proof -
  obtain t ts' where t: "ts = t # ts'" using assms(5) by (cases ts) auto
  obtain b where eq: "takes rate capacity ts old = takes rate capacity ts (Some b)"
    and ok: "bucket_ok capacity b" and ge: "t0 \<le> bk_lastRefillAt b"
  proof (cases old)
    case None
    have "takes rate capacity ts None = takes rate capacity ts (Some \<lparr>bk_tokens = capacity, bk_lastRefillAt = t\<rparr>)"
      by (simp add: t take_token_def refill_def Let_def)
    then show ?thesis using that [of "\<lparr>bk_tokens = capacity, bk_lastRefillAt = t\<rparr>"] None ts t assms(3)
      by (simp add: bucket_ok_def)
  next
    case (Some b)
    have "takes rate capacity ts (Some b) = takes rate capacity ts (Some (refill t rate capacity b))"
      by (simp add: t take_token_def Let_def)
    moreover have "bucket_ok capacity (refill t rate capacity b)" "t0 \<le> bk_lastRefillAt (refill t rate capacity b)"
      using Some ts t assms(1,2) by (auto simp: refill_ok refill_time)
    ultimately show ?thesis using that Some by blast
  qed
  let ?final = "max t1 (bk_lastRefillAt b)"
  have "of_nat (length (filter (\<lambda>a. a) (takes rate capacity ts (Some b)))) \<le> credit rate b + of_int ?final / 1000 * rate"
    using ts by (intro takes_credit [OF ok assms(2)]) auto
  also have "\<dots> = bk_tokens b + of_int (?final - bk_lastRefillAt b) / 1000 * rate"
    by (simp add: credit_def algebra_simps diff_divide_distrib)
  also have "\<dots> \<le> capacity + of_int (t1 - t0) / 1000 * rate"
  proof (rule add_mono)
    show "bk_tokens b \<le> capacity" using ok by (simp add: bucket_ok_def)
    have "t0 \<le> t1" using ts t by auto
    then have "of_int (?final - bk_lastRefillAt b) \<le> (of_int (t1 - t0) :: rat)"
      using ge by (intro of_int_le_iff [THEN iffD2]) auto
    then show "of_int (?final - bk_lastRefillAt b) / 1000 * rate \<le> of_int (t1 - t0) / 1000 * rate"
      using assms(2) by (intro mult_right_mono divide_right_mono) simp_all
  qed
  finally show ?thesis unfolding eq .
qed

section \<open>The limiter\<close>

type_synonym timed_request = "int \<times> http_request"

fun limit_run :: "limit_config \<Rightarrow> timed_request list \<Rightarrow> limiter \<Rightarrow> verdict list" where
  "limit_run cfg [] st = []"
| "limit_run cfg ((now, r) # cs) st =
     (let (v, st') = limit_request cfg now r st in v # limit_run cfg cs st')"

definition limit_state :: "limit_config \<Rightarrow> timed_request list \<Rightarrow> limiter \<Rightarrow> limiter" where
  "limit_state cfg cs st = fold (\<lambda>(now, r) st. snd (limit_request cfg now r st)) cs st"

text \<open>The bucket a request takes from.\<close>

definition limited_by :: "limit_config \<Rightarrow> http_request \<Rightarrow> string option" where
  "limited_by cfg r =
     (if lc_enabled cfg \<and> \<not> isExempt (rq_path r) (rq_hostname r) \<and> truthy (rq_username r)
      then Some (bucket_key (the (rq_username r)) (rq_method r) (normalizeRoutePattern (rq_path r))) else None)"

definition is_allowed :: "verdict \<Rightarrow> bool" where
  "is_allowed v \<longleftrightarrow> (case v of Allowed r \<Rightarrow> True | _ \<Rightarrow> False)"

lemma request_bucket:
  "jget (rl_buckets (snd (limit_request cfg now r st))) k =
     (if limited_by cfg r = Some k
      then Some (snd (take_token now (lc_qps cfg) (of_nat (lc_burst cfg)) (jget (rl_buckets st) k)))
      else jget (rl_buckets st) k)"
  by (auto simp: limit_request_def limited_by_def Let_def jget_jset split: prod.split take_result.split)

lemma request_verdict:
  "limited_by cfg r = Some k \<Longrightarrow>
   fst (limit_request cfg now r st) =
     (case fst (take_token now (lc_qps cfg) (of_nat (lc_burst cfg)) (jget (rl_buckets st) k)) of
        Took remaining \<Rightarrow> Allowed remaining | Empty retry \<Rightarrow> Throttled retry)"
  by (auto simp: limit_request_def limited_by_def Let_def split: prod.split take_result.split if_splits)

lemma run_takes:
  "map (is_allowed \<circ> snd) (filter (\<lambda>((now, r), v). limited_by cfg r = Some k) (zip cs (limit_run cfg cs st))) =
   takes (lc_qps cfg) (of_nat (lc_burst cfg)) (map fst (filter (\<lambda>(now, r). limited_by cfg r = Some k) cs))
     (jget (rl_buckets st) k)"
proof (induction cs arbitrary: st)
  case (Cons c cs)
  obtain now r where c: "c = (now, r)" by (cases c)
  obtain v st' where v: "limit_request cfg now r st = (v, st')" by fastforce
  show ?case
  proof (cases "limited_by cfg r = Some k")
    case True
    obtain res b where res: "take_token now (lc_qps cfg) (of_nat (lc_burst cfg)) (jget (rl_buckets st) k) = (res, b)"
      by fastforce
    have "jget (rl_buckets st') k = Some b" using request_bucket [of cfg now r st k] True v res by simp
    moreover have "is_allowed v = (case res of Took r \<Rightarrow> True | Empty r \<Rightarrow> False)"
      using request_verdict [OF True, of now st] v res by (simp add: is_allowed_def split: take_result.splits)
    ultimately show ?thesis using Cons.IH [of st'] True c v res by simp
  next
    case False
    then have "jget (rl_buckets st') k = jget (rl_buckets st) k" using request_bucket [of cfg now r st k] v by simp
    then show ?thesis using Cons.IH [of st'] False c v by simp
  qed
qed simp

definition limiter_ok :: "limit_config \<Rightarrow> limiter \<Rightarrow> bool" where
  "limiter_ok cfg st \<longleftrightarrow> (\<forall>k b. jget (rl_buckets st) k = Some b \<longrightarrow> bucket_ok (of_nat (lc_burst cfg)) b)"

lemma take_token_ok:
  assumes "\<forall>b. old = Some b \<longrightarrow> bucket_ok capacity b" and "0 \<le> rate" and "0 \<le> capacity"
  shows "bucket_ok capacity (snd (take_token now rate capacity old))"
proof (cases old)
  case None
  then show ?thesis using assms(3) by (auto simp: take_token_def bucket_ok_def Let_def)
next
  case (Some b)
  then have "bucket_ok capacity (refill now rate capacity b)" using assms refill_ok by blast
  then show ?thesis using Some by (auto simp: take_token_def bucket_ok_def Let_def)
qed

lemma limiter_ok_request: "limiter_ok cfg st \<Longrightarrow> 0 \<le> lc_qps cfg \<Longrightarrow> limiter_ok cfg (snd (limit_request cfg now r st))"
  unfolding limiter_ok_def request_bucket using take_token_ok by (auto split: if_splits)

lemma limiter_ok_state: "limiter_ok cfg st \<Longrightarrow> 0 \<le> lc_qps cfg \<Longrightarrow> limiter_ok cfg (limit_state cfg cs st)"
  by (induction cs arbitrary: st) (auto simp: limit_state_def limiter_ok_request)

text \<open>
  C30 (bounds): Whatever requests came before, of the requests of one user, method and route in a period
  of \<open>t1 - t0\<close> milliseconds at most the burst and the rate times the period are allowed, however other
  requests are mixed in and wherever the clock jumps within the period.
\<close>

theorem rate_is_limited:
  assumes "0 \<le> lc_qps cfg" and "\<forall>(now, r) \<in> set cs. limited_by cfg r = Some k \<longrightarrow> t0 \<le> now \<and> now \<le> t1" and "t0 \<le> t1"
  shows "of_nat (length (filter (\<lambda>((now, r), v). limited_by cfg r = Some k \<and> is_allowed v)
       (zip cs (limit_run cfg cs (limit_state cfg before \<lparr>rl_buckets = [], rl_allowed = 0, rl_throttled = 0\<rparr>))))) \<le>
     of_nat (lc_burst cfg) + of_int (t1 - t0) / 1000 * lc_qps cfg"
proof -
  let ?st = "limit_state cfg before \<lparr>rl_buckets = [], rl_allowed = 0, rl_throttled = 0\<rparr>"
  let ?ts = "map fst (filter (\<lambda>(now, r). limited_by cfg r = Some k) cs)"
  have ok: "limiter_ok cfg ?st" by (rule limiter_ok_state) (simp_all add: limiter_ok_def assms(1))
  have cnt: "length (filter (\<lambda>((now, r), v). limited_by cfg r = Some k \<and> is_allowed v) zs) =
      length (filter (\<lambda>a. a) (map (is_allowed \<circ> snd) (filter (\<lambda>((now, r), v). limited_by cfg r = Some k) zs)))" for zs
    by (induction zs) auto
  have eq: "length (filter (\<lambda>((now, r), v). limited_by cfg r = Some k \<and> is_allowed v) (zip cs (limit_run cfg cs ?st))) =
      length (filter (\<lambda>a. a) (takes (lc_qps cfg) (of_nat (lc_burst cfg)) ?ts (jget (rl_buckets ?st) k)))"
    by (simp only: cnt run_takes)
  show ?thesis
  proof (cases "?ts = []")
    case True
    have "(0 :: rat) \<le> of_int (t1 - t0) / 1000 * lc_qps cfg" using assms(1,3) by (intro mult_nonneg_nonneg) simp_all
    then show ?thesis unfolding eq True by simp
  next
    case False
    have "case jget (rl_buckets ?st) k of None \<Rightarrow> True | Some b \<Rightarrow> bucket_ok (of_nat (lc_burst cfg)) b"
      using ok by (auto simp: limiter_ok_def split: option.split)
    moreover have "\<forall>t \<in> set ?ts. t0 \<le> t \<and> t \<le> t1" using assms(2) by auto
    ultimately show ?thesis unfolding eq using assms(1) False by (intro takes_bound) simp_all
  qed
qed

theorem rate_is_limited_witness:
  "of_nat (length (filter (\<lambda>((now, r), v). limited_by \<lparr>lc_enabled = True, lc_qps = 10, lc_burst = 2\<rparr> r = Some ''u:GET:/x'' \<and> is_allowed v)
       (zip [(1 :: int, \<lparr>rq_path = ''/x'', rq_hostname = ''h'', rq_method = ''GET'', rq_username = Some ''u''\<rparr>)]
         (limit_run \<lparr>lc_enabled = True, lc_qps = 10, lc_burst = 2\<rparr>
            [(1, \<lparr>rq_path = ''/x'', rq_hostname = ''h'', rq_method = ''GET'', rq_username = Some ''u''\<rparr>)]
            (limit_state \<lparr>lc_enabled = True, lc_qps = 10, lc_burst = 2\<rparr> []
               \<lparr>rl_buckets = [], rl_allowed = 0, rl_throttled = 0\<rparr>))))) \<le> (2 + of_int (1 - 1) / 1000 * 10 :: rat)"
proof -
  let ?cfg = "\<lparr>lc_enabled = True, lc_qps = 10, lc_burst = 2\<rparr>"
  let ?cs = "[(1 :: int, \<lparr>rq_path = ''/x'', rq_hostname = ''h'', rq_method = ''GET'', rq_username = Some ''u''\<rparr>)]"
  have "0 \<le> lc_qps ?cfg" "(1 :: int) \<le> 1"
    "\<forall>(now, r) \<in> set ?cs. limited_by ?cfg r = Some ''u:GET:/x'' \<longrightarrow> 1 \<le> now \<and> now \<le> 1" by simp_all
  from rate_is_limited [OF this(1,3,2), of "[]"] show ?thesis by simp
qed

lemma limit_state_other:
  "\<forall>(now, r) \<in> set cs. limited_by cfg r \<noteq> Some k \<Longrightarrow>
   jget (rl_buckets (limit_state cfg cs st)) k = jget (rl_buckets st) k"
proof (induction cs arbitrary: st)
  case (Cons c cs)
  obtain now r where "c = (now, r)" by (cases c)
  then show ?case using Cons request_bucket [of cfg now r st k] by (simp add: limit_state_def)
qed (simp add: limit_state_def)

lemma retry_takes:
  assumes "take_token now rate capacity old = (Empty s, b)" and "0 < rate" and "1 \<le> capacity"
    and "case old of None \<Rightarrow> True | Some b0 \<Rightarrow> bk_lastRefillAt b0 \<le> now" and "now + 1000 * s \<le> now'"
  shows "\<exists>remaining. fst (take_token now' rate capacity (Some b)) = Took remaining"
proof -
  have low: "bk_tokens b < 1" and s: "s = max 1 \<lceil>(1 - bk_tokens b) / rate\<rceil>" and at: "bk_lastRefillAt b = now"
    using assms(1,3,4)
    by (auto simp: take_token_def Let_def refill_time split: if_splits option.splits)
  have "(1 - bk_tokens b) / rate \<le> of_int \<lceil>(1 - bk_tokens b) / rate\<rceil>" by simp
  also have "\<dots> \<le> of_int s" unfolding s by (simp add: max_def)
  finally have "1 - bk_tokens b \<le> of_int s * rate" using assms(2) by (simp add: field_simps)
  also have "\<dots> \<le> of_int (now' - now) / 1000 * rate"
  proof (intro mult_right_mono)
    have "of_int (1000 * s) \<le> (of_int (now' - now) :: rat)" using assms(5) by (subst of_int_le_iff) simp
    then show "of_int s \<le> (of_int (now' - now) / 1000 :: rat)" by (simp add: field_simps)
  qed (use assms(2) in simp)
  finally have enough: "1 \<le> bk_tokens b + of_int (now' - now) / 1000 * rate" by simp
  have "1 \<le> s" unfolding s by simp
  then have "now < now'" using assms(5) by simp
  then have "1 \<le> bk_tokens (refill now' rate capacity b)"
    using enough assms(3) at by (simp add: refill_def Let_def)
  then show ?thesis by (simp add: take_token_def Let_def)
qed

text \<open>
  The retry time that a throttled request is told is enough: when its bucket is left alone that long, the next
  request of the bucket is allowed.
\<close>

theorem retry_after_is_enough:
  assumes "fst (limit_request cfg now r st) = Throttled s" and "limited_by cfg r = Some k"
    and "case jget (rl_buckets st) k of None \<Rightarrow> True | Some b \<Rightarrow> bk_lastRefillAt b \<le> now"
    and "\<forall>(t, q) \<in> set cs. limited_by cfg q \<noteq> Some k" and "limited_by cfg r' = Some k"
    and "now + 1000 * s \<le> now'" and "0 < lc_qps cfg" and "1 \<le> lc_burst cfg"
  shows "is_allowed (fst (limit_request cfg now' r' (limit_state cfg cs (snd (limit_request cfg now r st)))))"
proof -
  let ?take = "\<lambda>now. take_token now (lc_qps cfg) (of_nat (lc_burst cfg))"
  obtain res b where res: "?take now (jget (rl_buckets st) k) = (res, b)" by fastforce
  have e: "res = Empty s" using request_verdict [OF assms(2), of now st] assms(1) res by (simp split: take_result.splits)
  have "jget (rl_buckets (limit_state cfg cs (snd (limit_request cfg now r st)))) k = Some b"
    using request_bucket [of cfg now r st k] assms(2) res by (simp add: limit_state_other [OF assms(4)])
  moreover have "\<exists>remaining. fst (?take now' (Some b)) = Took remaining"
    using res assms(3,6,7,8) unfolding e by (intro retry_takes) simp_all
  ultimately show ?thesis using request_verdict [OF assms(5)] by (auto simp: is_allowed_def)
qed

theorem retry_after_is_enough_witness:
  "is_allowed (fst (limit_request \<lparr>lc_enabled = True, lc_qps = 1 / 2, lc_burst = 1\<rparr> 2001
     \<lparr>rq_path = ''/x'', rq_hostname = ''h'', rq_method = ''GET'', rq_username = Some ''u''\<rparr>
     (limit_state \<lparr>lc_enabled = True, lc_qps = 1 / 2, lc_burst = 1\<rparr> []
       (snd (limit_request \<lparr>lc_enabled = True, lc_qps = 1 / 2, lc_burst = 1\<rparr> 1
          \<lparr>rq_path = ''/x'', rq_hostname = ''h'', rq_method = ''GET'', rq_username = Some ''u''\<rparr>
          \<lparr>rl_buckets = [(''u:GET:/x'', \<lparr>bk_tokens = 0, bk_lastRefillAt = 1\<rparr>)], rl_allowed = 1, rl_throttled = 0\<rparr>)))))"
proof -
  let ?cfg = "\<lparr>lc_enabled = True, lc_qps = 1 / 2, lc_burst = 1\<rparr>"
  let ?r = "\<lparr>rq_path = ''/x'', rq_hostname = ''h'', rq_method = ''GET'', rq_username = Some ''u''\<rparr>"
  let ?st = "\<lparr>rl_buckets = [(''u:GET:/x'', \<lparr>bk_tokens = 0, bk_lastRefillAt = 1\<rparr>)], rl_allowed = 1, rl_throttled = 0\<rparr>"
  have k: "limited_by ?cfg ?r = Some ''u:GET:/x''" by code_simp
  have "fst (limit_request ?cfg 1 ?r ?st) = Throttled 2"
    using request_verdict [OF k, of 1 ?st] by (simp add: take_token_def refill_def Let_def)
  then show ?thesis by (rule retry_after_is_enough [OF _ k _ _ k]) simp_all
qed

text \<open>
  A route that was not asked for before has a full bucket, and only identifiers are taken out of a
  route: requests whose paths all differ are never throttled, however many they are.
\<close>

theorem new_routes_are_never_throttled:
  assumes "distinct (map (limited_by cfg \<circ> snd) cs)" and "\<forall>(now, r) \<in> set cs. limited_by cfg r \<noteq> None"
    and "\<forall>(now, r) \<in> set cs. \<forall>k. limited_by cfg r = Some k \<longrightarrow> jget (rl_buckets st) k = None" and "1 \<le> lc_burst cfg"
  shows "list_all is_allowed (limit_run cfg cs st)"
  using assms(1-3)
proof (induction cs arbitrary: st)
  case (Cons c cs)
  obtain now r where c: "c = (now, r)" by (cases c)
  obtain k where k: "limited_by cfg r = Some k" using Cons.prems c by auto
  have fresh: "jget (rl_buckets st) k = None" using Cons.prems(3) k c by auto
  obtain v st' where v: "limit_request cfg now r st = (v, st')" by fastforce
  have "is_allowed v"
    using request_verdict [OF k, of now st] v fresh assms(4)
    by (simp add: take_token_def Let_def is_allowed_def split: if_splits)
  moreover have "list_all is_allowed (limit_run cfg cs st')"
  proof (rule Cons.IH)
    show "\<forall>(now, r) \<in> set cs. \<forall>k. limited_by cfg r = Some k \<longrightarrow> jget (rl_buckets st') k = None"
    proof clarify
      fix now' r' k' assume a: "(now', r') \<in> set cs" "limited_by cfg r' = Some k'"
      then have "limited_by cfg r' \<in> (limited_by cfg \<circ> snd) ` set cs" by force
      then have "k' \<noteq> k" using Cons.prems(1) a(2) k c by auto
      moreover have "jget (rl_buckets st) k' = None" using Cons.prems(3) a by fastforce
      ultimately show "jget (rl_buckets st') k' = None" using request_bucket [of cfg now r st k'] v k by simp
    qed
  qed (use Cons.prems in auto)
  ultimately show ?case using v c by simp
qed simp

theorem new_routes_are_never_throttled_witness:
  "list_all is_allowed (limit_run \<lparr>lc_enabled = True, lc_qps = 10, lc_burst = 1\<rparr>
     [(1, \<lparr>rq_path = ''/x'', rq_hostname = ''h'', rq_method = ''GET'', rq_username = Some ''u''\<rparr>),
      (1, \<lparr>rq_path = ''/x?'', rq_hostname = ''h'', rq_method = ''GET'', rq_username = Some ''u''\<rparr>)]
     \<lparr>rl_buckets = [], rl_allowed = 0, rl_throttled = 0\<rparr>)"
proof (rule new_routes_are_never_throttled)
  show "distinct (map (limited_by \<lparr>lc_enabled = True, lc_qps = 10, lc_burst = 1\<rparr> \<circ> snd)
     [(1 :: int, \<lparr>rq_path = ''/x'', rq_hostname = ''h'', rq_method = ''GET'', rq_username = Some ''u''\<rparr>),
      (1, \<lparr>rq_path = ''/x?'', rq_hostname = ''h'', rq_method = ''GET'', rq_username = Some ''u''\<rparr>)])"
    and "\<forall>(now, r) \<in> set
     [(1 :: int, \<lparr>rq_path = ''/x'', rq_hostname = ''h'', rq_method = ''GET'', rq_username = Some ''u''\<rparr>),
      (1, \<lparr>rq_path = ''/x?'', rq_hostname = ''h'', rq_method = ''GET'', rq_username = Some ''u''\<rparr>)].
      limited_by \<lparr>lc_enabled = True, lc_qps = 10, lc_burst = 1\<rparr> r \<noteq> None"
    by code_simp+
qed simp_all

end
