(* ===== verification/Rebind_Epoch.thy ===== *)
theory Rebind_Epoch
  imports Js_Prelude
begin

text \<open>
  The epochs of sessions (session/rebind-epoch.ts), with their limit of bumps in a sliding window.
  A bump is one function: nothing is awaited between its reading and its writing of the registry. The
  events it appends to the log are its last component.
\<close>

section \<open>Epochs\<close>

datatype rebind_trigger = Daemon_start | Session_resume | Provider_switch | Slash_reload | Tool_call | File_mtime

record epoch_entry =
  ee_epoch :: nat
  ee_lastBumpAt :: int
  ee_lastTrigger :: rebind_trigger
  ee_windowBumps :: "int list"

type_synonym epochs = "(string, epoch_entry) jmap"

record bump_outcome =
  bo_bumped :: bool
  bo_previousEpoch :: nat
  bo_currentEpoch :: nat
  bo_rateLimitReason :: "string option"

datatype rebind_event = Rebind rebind_trigger nat nat | Rebind_storm rebind_trigger nat

definition RATE_LIMIT_WINDOW_MS :: int where
  "RATE_LIMIT_WINDOW_MS = 1000"

definition RATE_LIMIT_MAX :: nat where
  "RATE_LIMIT_MAX = 5"

definition epoch_current :: "epochs \<Rightarrow> string \<Rightarrow> nat" where
  "epoch_current reg sid = (case jget reg sid of None \<Rightarrow> 0 | Some e \<Rightarrow> ee_epoch e)"

definition epoch_stats :: "epochs \<Rightarrow> (string \<times> nat \<times> int \<times> rebind_trigger) list" where
  "epoch_stats reg = map (\<lambda>(sid, e). (sid, ee_epoch e, ee_lastBumpAt e, ee_lastTrigger e)) reg"

definition pruneWindow :: "int \<Rightarrow> epoch_entry \<Rightarrow> epoch_entry" where
  "pruneWindow now e = e\<lparr>ee_windowBumps := dropWhile (\<lambda>t. t < now - RATE_LIMIT_WINDOW_MS) (ee_windowBumps e)\<rparr>"

definition bumpEpoch :: "string \<Rightarrow> rebind_trigger \<Rightarrow> int \<Rightarrow> epochs \<Rightarrow> bump_outcome \<times> rebind_event \<times> epochs" where
  "bumpEpoch sid trigger now reg =
     (let entry = (case jget reg sid of
                     None \<Rightarrow> \<lparr>ee_epoch = 0, ee_lastBumpAt = 0, ee_lastTrigger = trigger, ee_windowBumps = []\<rparr>
                   | Some e \<Rightarrow> e);
          e = pruneWindow now entry
      in if RATE_LIMIT_MAX \<le> length (ee_windowBumps e)
         then let observedCount = length (ee_windowBumps e) + 1 in
           (\<lparr>bo_bumped = False, bo_previousEpoch = ee_epoch e, bo_currentEpoch = ee_epoch e,
              bo_rateLimitReason = Some (''rate_limit:'' @ js_show_nat observedCount @ ''/'' @ js_show_nat RATE_LIMIT_MAX @
                '' per '' @ js_show_nat (nat RATE_LIMIT_WINDOW_MS) @ ''ms'')\<rparr>,
            Rebind_storm trigger observedCount, jset reg sid e)
         else let e1 = e\<lparr>ee_epoch := ee_epoch e + 1, ee_lastBumpAt := now, ee_lastTrigger := trigger,
                ee_windowBumps := ee_windowBumps e @ [now]\<rparr> in
           (\<lparr>bo_bumped = True, bo_previousEpoch = ee_epoch e, bo_currentEpoch = ee_epoch e + 1, bo_rateLimitReason = None\<rparr>,
            Rebind trigger (ee_epoch e) (ee_epoch e + 1), jset reg sid e1))"

definition clearSession :: "string \<Rightarrow> epochs \<Rightarrow> epochs" where
  "clearSession sid reg = jdel reg sid"

text \<open>A run: bumps of any sessions, and sessions deleted. \<open>bumps\<close> lists the times a session was bumped at.\<close>

datatype epoch_op = Bump string rebind_trigger int | Deleted string

fun epoch_call :: "epoch_op \<Rightarrow> epochs \<Rightarrow> epochs" where
  "epoch_call (Bump sid trigger now) reg = snd (snd (bumpEpoch sid trigger now reg))"
| "epoch_call (Deleted sid) reg = clearSession sid reg"

fun bumps :: "string \<Rightarrow> epoch_op list \<Rightarrow> epochs \<Rightarrow> int list" where
  "bumps sid [] reg = []"
| "bumps sid (c # cs) reg =
     (case c of
        Bump s trigger now \<Rightarrow>
          if s = sid \<and> bo_bumped (fst (bumpEpoch s trigger now reg)) then [now] else []
      | Deleted s \<Rightarrow> []) @ bumps sid cs (epoch_call c reg)"

definition epoch_run :: "epoch_op list \<Rightarrow> epochs" where
  "epoch_run cs = fold epoch_call cs []"

fun calls_at :: "epoch_op list \<Rightarrow> int list" where
  "calls_at [] = []"
| "calls_at (Bump sid trigger now # cs) = now # calls_at cs"
| "calls_at (Deleted sid # cs) = calls_at cs"

text \<open>After bumps at \<open>bs\<close>, none of them after \<open>t\<close>, the window holds those of the last second at least.\<close>

definition window_ok :: "int list \<Rightarrow> int \<Rightarrow> epoch_entry option \<Rightarrow> bool" where
  "window_ok bs t e \<longleftrightarrow>
     sorted bs \<and> (\<forall>b \<in> set bs. b \<le> t) \<and> (\<forall>i. i + RATE_LIMIT_MAX < length bs \<longrightarrow> bs ! i + RATE_LIMIT_WINDOW_MS < bs ! (i + RATE_LIMIT_MAX)) \<and>
     (case e of None \<Rightarrow> bs = []
      | Some e \<Rightarrow> ee_epoch e = length bs \<and>
          (\<exists>old. bs = old @ ee_windowBumps e \<and> (\<forall>b \<in> set old. b + RATE_LIMIT_WINDOW_MS < t)))"

lemma window_ok_later: "window_ok bs t e \<Longrightarrow> t \<le> t' \<Longrightarrow> window_ok bs t' e"
  by (cases e) (force simp: window_ok_def)+

lemma jget_bump_other: "s \<noteq> sid \<Longrightarrow> jget (snd (snd (bumpEpoch s trigger now reg))) sid = jget reg sid"
  by (simp add: bumpEpoch_def Let_def jget_jset)

lemma window_ok_bump:
  assumes "window_ok bs t (jget reg sid)" and "t \<le> now"
  shows "window_ok (bs @ (if bo_bumped (fst (bumpEpoch sid trigger now reg)) then [now] else [])) now
           (jget (snd (snd (bumpEpoch sid trigger now reg))) sid)"
proof -
  let ?e = "case jget reg sid of None \<Rightarrow> \<lparr>ee_epoch = 0, ee_lastBumpAt = 0, ee_lastTrigger = trigger, ee_windowBumps = []\<rparr>
             | Some e \<Rightarrow> e"
  let ?ws = "dropWhile (\<lambda>t. t < now - RATE_LIMIT_WINDOW_MS) (ee_windowBumps ?e)"
  have bs: "sorted bs" "\<forall>b \<in> set bs. b \<le> now"
    "\<forall>i. i + RATE_LIMIT_MAX < length bs \<longrightarrow> bs ! i + RATE_LIMIT_WINDOW_MS < bs ! (i + RATE_LIMIT_MAX)"
    using assms by (force simp: window_ok_def)+
  have epoch: "ee_epoch ?e = length bs"
    using assms(1) by (auto simp: window_ok_def split: option.splits)
  obtain old where old: "bs = old @ ee_windowBumps ?e" "\<forall>b \<in> set old. b + RATE_LIMIT_WINDOW_MS < now"
    using assms by (cases "jget reg sid") (force simp: window_ok_def)+
  define old' where "old' = old @ takeWhile (\<lambda>t. t < now - RATE_LIMIT_WINDOW_MS) (ee_windowBumps ?e)"
  have split: "bs = old' @ ?ws" unfolding old'_def by (subst old(1)) simp
  have gone: "\<forall>b \<in> set old'. b + RATE_LIMIT_WINDOW_MS < now"
    using old(2) by (auto simp: old'_def dest: set_takeWhileD)
  show ?thesis
  proof (cases "RATE_LIMIT_MAX \<le> length ?ws")
    case True
    then have "jget (snd (snd (bumpEpoch sid trigger now reg))) sid = Some (?e\<lparr>ee_windowBumps := ?ws\<rparr>)"
      and "\<not> bo_bumped (fst (bumpEpoch sid trigger now reg))"
      by (simp_all add: bumpEpoch_def pruneWindow_def Let_def jget_jset)
    then show ?thesis using bs epoch split gone unfolding window_ok_def by auto
  next
    case False
    then have e: "jget (snd (snd (bumpEpoch sid trigger now reg))) sid =
        Some (?e\<lparr>ee_windowBumps := ?ws @ [now], ee_epoch := ee_epoch ?e + 1, ee_lastBumpAt := now, ee_lastTrigger := trigger\<rparr>)"
      and b: "bo_bumped (fst (bumpEpoch sid trigger now reg))"
      by (simp_all add: bumpEpoch_def pruneWindow_def Let_def jget_jset)
    have spaced: "(bs @ [now]) ! i + RATE_LIMIT_WINDOW_MS < (bs @ [now]) ! (i + RATE_LIMIT_MAX)"
      if "i + RATE_LIMIT_MAX < length (bs @ [now])" for i
    proof (cases "i + RATE_LIMIT_MAX < length bs")
      case True
      then show ?thesis using bs(3) by (simp add: nth_append)
    next
      case full: False
      then have i: "i + RATE_LIMIT_MAX = length bs" using that by simp
      have "length bs = length old' + length ?ws" by (subst split) simp
      then have "i < length old'" using i False by simp
      then have "bs ! i \<in> set old'" by (subst split) (simp add: nth_append)
      moreover have "i < length bs" using i by (simp add: RATE_LIMIT_MAX_def)
      ultimately show ?thesis using gone i by (simp add: nth_append)
    qed
    have "sorted (bs @ [now])" using bs by (simp add: sorted_append)
    then show ?thesis
      using bs epoch gone spaced b split unfolding e window_ok_def by (auto simp del: append_assoc)
  qed
qed

lemma window_ok_run:
  "sorted (calls_at cs) \<Longrightarrow> \<forall>c \<in> set (calls_at cs). t \<le> c \<Longrightarrow> Deleted sid \<notin> set cs \<Longrightarrow>
   window_ok bs t (jget reg sid) \<Longrightarrow>
   \<exists>t'. window_ok (bs @ bumps sid cs reg) t' (jget (fold epoch_call cs reg) sid)"
proof (induction cs arbitrary: reg bs t)
  case Nil
  then show ?case by auto
next
  case (Cons c cs)
  show ?case
  proof (cases c)
    case (Deleted s)
    then have "jget (epoch_call c reg) sid = jget reg sid"
      using Cons.prems(3) by (auto simp: clearSession_def jget_jdel)
    then show ?thesis using Cons.IH [of t bs "epoch_call c reg"] Cons.prems Deleted by auto
  next
    case (Bump s trigger now)
    let ?reg = "epoch_call c reg"
    let ?bs = "if s = sid \<and> bo_bumped (fst (bumpEpoch s trigger now reg)) then [now] else []"
    have "window_ok (bs @ ?bs) now (jget ?reg sid)"
    proof (cases "s = sid")
      case True
      then show ?thesis using window_ok_bump [of bs t reg sid now trigger] Cons.prems Bump by simp
    next
      case False
      then show ?thesis using window_ok_later [of bs t _ now] Cons.prems Bump jget_bump_other by simp
    qed
    then show ?thesis using Cons.IH [of now "bs @ ?bs" ?reg] Cons.prems Bump by auto
  qed
qed



end
