(* ===== verification/Continuation.thy ===== *)
theory Continuation
  imports Rebind_Epoch
begin

text \<open>
  Continuation events (session/continuation/continuation-event.ts), the class of a provider
  (provider/chain-semantics.ts), the memory of dispatched events (dispatch-dedup.ts), the notices that wait for
  the next prompt (pending-injection.ts), and the procedure that composes them (run.ts). Capturing the digest
  and invalidating the chain belong to other modules: the digest is an argument (\<open>None\<close> when capturing
  throws), and the state lists the sessions whose chain was invalidated, in order, unless that throws.
\<close>

section \<open>Providers\<close>

datatype chain_class = SS | SL | Inherited

definition CHAIN_SEMANTICS :: "(string, chain_class) jmap" where
  "CHAIN_SEMANTICS =
     [(''openai'', SS), (''codex'', SS), (''github-copilot'', SS), (''copilot-cli'', SS), (''claude-cli'', SL),
      (''google-api'', SL), (''gemini-cli'', SL), (''openrouter'', SL), (''vercel'', SL), (''gitlab'', SL),
      (''gmicloud'', SL), (''opencode'', SL)]"

text \<open>\<open>in\<close> also finds the properties every object inherits, whose value is no class.\<close>

definition object_properties :: "string list" where
  "object_properties =
     [''constructor'', ''__defineGetter__'', ''__defineSetter__'', ''hasOwnProperty'', ''__lookupGetter__'',
      ''__lookupSetter__'', ''isPrototypeOf'', ''propertyIsEnumerable'', ''toString'', ''valueOf'', ''__proto__'',
      ''toLocaleString'']"

definition classifyProvider :: "string \<Rightarrow> chain_class option" where
  "classifyProvider p =
     (case jget CHAIN_SEMANTICS p of
        Some c \<Rightarrow> Some c
      | None \<Rightarrow> if p \<in> set object_properties then Some Inherited else None)"

section \<open>Events\<close>

datatype event_kind =
    Account_switch | Account_rotate | Provider_switch_kind | Model_switch_same_family | Model_switch_cross_family
  | Session_fork | Session_resume_daemon_alive | Session_resume_after_daemon_restart | Capability_layer_refresh
  | Compaction_narrative | Compaction_cache_aware | Compaction_stall_recovery | Compaction_preemptive_daemon_restart
  | Compaction_server_side | Empty_response_recovery | Ws_reconnect | Subagent_spawn | User_clear
  | Backend_failure_forced_resend

text \<open>The fields the code reads; \<open>ev_previous\<close> and \<open>ev_next\<close> are the identifiers of a switch, \<open>ev_detail\<close> is
  the reason, the round count or the classifier as text.\<close>

record continuation_event =
  ev_kind :: event_kind
  ev_sessionID :: string
  ev_previous :: string
  ev_next :: string
  ev_providerId :: "string option"
  ev_anchorId :: "string option"
  ev_detail :: string

datatype break_class = SS_break | SL_noop | Capability_only | User_intent | Preserved

datatype skip_reason =
  Skip_user_clear | Skip_subagent_spawn | No_prior_chain | Skip_capability_only | Skip_ws_reconnect | Sl_provider |
  Server_side_compaction | Amnesia_supersedes

record decision_shape =
  sh_ssBreaks :: bool
  sh_capturesDigest :: bool
  sh_recomputesChainStable :: bool
  sh_injectsChainInit :: bool
  sh_injectsAmnesia :: bool
  sh_bumpsRebindEpoch :: bool
  sh_ssBreakClass :: break_class
  sh_skipReason :: "skip_reason option"

record continuation_decision =
  cd_breaksChain :: bool
  cd_capturesDigest :: bool
  cd_recomputesChainStable :: bool
  cd_injectsChainInit :: bool
  cd_injectsAmnesia :: bool
  cd_bumpsRebindEpoch :: bool
  cd_chainBreakClass :: break_class
  cd_skipReason :: "skip_reason option"

definition switch_shape :: decision_shape where
  "switch_shape = \<lparr>sh_ssBreaks = True, sh_capturesDigest = True, sh_recomputesChainStable = True,
     sh_injectsChainInit = True, sh_injectsAmnesia = False, sh_bumpsRebindEpoch = True,
     sh_ssBreakClass = SS_break, sh_skipReason = None\<rparr>"

definition compaction_shape :: decision_shape where
  "compaction_shape = \<lparr>sh_ssBreaks = True, sh_capturesDigest = True, sh_recomputesChainStable = True,
     sh_injectsChainInit = False, sh_injectsAmnesia = True, sh_bumpsRebindEpoch = True,
     sh_ssBreakClass = SS_break, sh_skipReason = Some Amnesia_supersedes\<rparr>"

definition idle_shape :: "skip_reason \<Rightarrow> decision_shape" where
  "idle_shape r = \<lparr>sh_ssBreaks = False, sh_capturesDigest = False, sh_recomputesChainStable = False,
     sh_injectsChainInit = False, sh_injectsAmnesia = False, sh_bumpsRebindEpoch = False,
     sh_ssBreakClass = Preserved, sh_skipReason = Some r\<rparr>"

fun SHAPE_BY_KIND :: "event_kind \<Rightarrow> decision_shape" where
  "SHAPE_BY_KIND Account_switch = switch_shape"
| "SHAPE_BY_KIND Account_rotate = switch_shape"
| "SHAPE_BY_KIND Provider_switch_kind = switch_shape"
| "SHAPE_BY_KIND Model_switch_same_family = switch_shape"
| "SHAPE_BY_KIND Model_switch_cross_family = switch_shape"
| "SHAPE_BY_KIND Session_fork = idle_shape No_prior_chain"
| "SHAPE_BY_KIND Session_resume_daemon_alive =
     (idle_shape Skip_capability_only)\<lparr>sh_bumpsRebindEpoch := True, sh_ssBreakClass := Capability_only\<rparr>"
| "SHAPE_BY_KIND Session_resume_after_daemon_restart = switch_shape"
| "SHAPE_BY_KIND Capability_layer_refresh =
     (idle_shape Skip_capability_only)\<lparr>sh_recomputesChainStable := True, sh_bumpsRebindEpoch := True,
        sh_ssBreakClass := Capability_only\<rparr>"
| "SHAPE_BY_KIND Compaction_narrative = compaction_shape"
| "SHAPE_BY_KIND Compaction_cache_aware = compaction_shape"
| "SHAPE_BY_KIND Compaction_stall_recovery = compaction_shape"
| "SHAPE_BY_KIND Compaction_preemptive_daemon_restart = compaction_shape"
| "SHAPE_BY_KIND Compaction_server_side = idle_shape Server_side_compaction"
| "SHAPE_BY_KIND Empty_response_recovery = switch_shape"
| "SHAPE_BY_KIND Ws_reconnect = idle_shape Skip_ws_reconnect"
| "SHAPE_BY_KIND Subagent_spawn = idle_shape Skip_subagent_spawn"
| "SHAPE_BY_KIND User_clear =
     (idle_shape Skip_user_clear)\<lparr>sh_ssBreaks := True, sh_recomputesChainStable := True,
        sh_bumpsRebindEpoch := True, sh_ssBreakClass := User_intent\<rparr>"
| "SHAPE_BY_KIND Backend_failure_forced_resend = switch_shape"

definition resolveProviderClass :: "continuation_event \<Rightarrow> chain_class option" where
  "resolveProviderClass e =
     (if truthy (ev_providerId e) then classifyProvider (the (ev_providerId e)) else Some SL)"

text \<open>\<open>classify\<close>: \<open>None\<close> when the provider is not registered.\<close>

definition classify :: "continuation_event \<Rightarrow> continuation_decision option" where
  "classify e =
     (let shape = SHAPE_BY_KIND (ev_kind e) in
      map_option (\<lambda>c.
        if c = SL
        then \<lparr>cd_breaksChain = False, cd_capturesDigest = sh_capturesDigest shape,
               cd_recomputesChainStable = sh_recomputesChainStable shape, cd_injectsChainInit = False,
               cd_injectsAmnesia = sh_injectsAmnesia shape, cd_bumpsRebindEpoch = sh_bumpsRebindEpoch shape,
               cd_chainBreakClass = (if sh_ssBreaks shape then SL_noop else sh_ssBreakClass shape),
               cd_skipReason = (if sh_injectsChainInit shape then Some Sl_provider else sh_skipReason shape)\<rparr>
        else \<lparr>cd_breaksChain = sh_ssBreaks shape, cd_capturesDigest = sh_capturesDigest shape,
               cd_recomputesChainStable = sh_recomputesChainStable shape,
               cd_injectsChainInit = sh_injectsChainInit shape, cd_injectsAmnesia = sh_injectsAmnesia shape,
               cd_bumpsRebindEpoch = sh_bumpsRebindEpoch shape, cd_chainBreakClass = sh_ssBreakClass shape,
               cd_skipReason = (if sh_injectsChainInit shape then None else sh_skipReason shape)\<rparr>)
        (resolveProviderClass e))"

section \<open>The memory of dispatched events\<close>

record dedup_entry =
  dd_key :: string
  dd_ts :: int

type_synonym dedup = "(string, dedup_entry) jmap"

definition DEFAULT_TTL_MS :: int where
  "DEFAULT_TTL_MS = 60 * 60 * 1000"

text \<open>The UTF-8 bytes of the arrow in a key.\<close>

definition arrow :: string where
  "arrow = [CHR 0xE2, CHR 0x86, CHR 0x92]"

definition switch_key :: "string \<Rightarrow> continuation_event \<Rightarrow> string" where
  "switch_key kind e = kind @ '':'' @ ev_previous e @ arrow @ ev_next e"

definition dedupKeyFor :: "continuation_event \<Rightarrow> string option" where
  "dedupKeyFor e =
     (case ev_kind e of
        Account_switch \<Rightarrow> Some (switch_key ''account_switch'' e)
      | Account_rotate \<Rightarrow> Some (switch_key ''account_rotate'' e)
      | Provider_switch_kind \<Rightarrow> Some (switch_key ''provider_switch'' e)
      | Model_switch_same_family \<Rightarrow> Some (switch_key ''model_switch_same_family'' e)
      | Model_switch_cross_family \<Rightarrow> Some (switch_key ''model_switch_cross_family'' e)
      | _ \<Rightarrow> None)"

definition shouldDispatch :: "string \<Rightarrow> string option \<Rightarrow> int \<Rightarrow> int \<Rightarrow> dedup \<Rightarrow> bool" where
  "shouldDispatch sid key now ttlMs store =
     (case key of
        None \<Rightarrow> True
      | Some k \<Rightarrow>
          (case jget store sid of
             None \<Rightarrow> True
           | Some entry \<Rightarrow> if dd_key entry \<noteq> k then True else ttlMs \<le> now - dd_ts entry))"

definition dedup_record :: "string \<Rightarrow> string option \<Rightarrow> int \<Rightarrow> dedup \<Rightarrow> dedup" where
  "dedup_record sid key now store =
     (case key of None \<Rightarrow> store | Some k \<Rightarrow> jset store sid \<lparr>dd_key = k, dd_ts = now\<rparr>)"

definition dedup_clear :: "string \<Rightarrow> dedup \<Rightarrow> dedup" where
  "dedup_clear sid store = jdel store sid"

section \<open>Notices for the next prompt\<close>

record 'd injection =
  in_chainInit :: bool
  in_amnesia :: bool
  in_digest :: "'d option"
  in_reason :: event_kind
  in_anchorId :: "string option"
  in_ts :: int

definition injection_mark :: "string \<Rightarrow> 'd injection \<Rightarrow> (string, 'd injection) jmap \<Rightarrow> (string, 'd injection) jmap" where
  "injection_mark sid m store = jset store sid m"

definition injection_consume ::
  "string \<Rightarrow> (string, 'd injection) jmap \<Rightarrow> 'd injection option \<times> (string, 'd injection) jmap" where
  "injection_consume sid store =
     (case jget store sid of None \<Rightarrow> (None, store) | Some m \<Rightarrow> (Some m, jdel store sid))"

section \<open>The procedure\<close>

record 'd continuation_state =
  cs_dedup :: dedup
  cs_pending :: "(string, 'd injection) jmap"
  cs_epochs :: epochs
  cs_invalidated :: "string list"

record 'd continuation_outcome =
  co_decision :: continuation_decision
  co_digest :: "'d option"
  co_chainInvalidated :: bool
  co_epochBumped :: bool
  co_pendingMarkWritten :: bool

fun mapToRebindTrigger :: "event_kind \<Rightarrow> rebind_trigger" where
  "mapToRebindTrigger Account_switch = Provider_switch"
| "mapToRebindTrigger Account_rotate = Provider_switch"
| "mapToRebindTrigger Provider_switch_kind = Provider_switch"
| "mapToRebindTrigger Model_switch_same_family = Provider_switch"
| "mapToRebindTrigger Model_switch_cross_family = Provider_switch"
| "mapToRebindTrigger Backend_failure_forced_resend = Provider_switch"
| "mapToRebindTrigger Session_fork = Session_resume"
| "mapToRebindTrigger Session_resume_daemon_alive = Session_resume"
| "mapToRebindTrigger Session_resume_after_daemon_restart = Session_resume"
| "mapToRebindTrigger Capability_layer_refresh = Slash_reload"
| "mapToRebindTrigger User_clear = Slash_reload"
| "mapToRebindTrigger _ = Tool_call"

text \<open>What a run does with an event that is to be dispatched, and the whole run. The events are checked before
  anything is awaited and recorded at the end, so two runs of one event can both pass the check.\<close>

definition continuation_dispatch ::
  "(string \<Rightarrow> 'd option) \<Rightarrow> (string \<Rightarrow> bool) \<Rightarrow> continuation_decision \<Rightarrow> continuation_event \<Rightarrow> int \<Rightarrow>
   'd continuation_state \<Rightarrow> 'd continuation_outcome \<times> 'd continuation_state" where
  "continuation_dispatch captureDigest invalidates decision e now s =
     (let sid = ev_sessionID e;
          digest = (if cd_capturesDigest decision then captureDigest sid else None);
          chainInvalidated = (cd_breaksChain decision \<and> invalidates sid);
          s1 = (if chainInvalidated then s\<lparr>cs_invalidated := cs_invalidated s @ [sid]\<rparr> else s);
          marks = (cd_injectsChainInit decision \<or> cd_injectsAmnesia decision);
          s2 = (if marks
                then s1\<lparr>cs_pending := injection_mark sid
                       \<lparr>in_chainInit = cd_injectsChainInit decision, in_amnesia = cd_injectsAmnesia decision,
                        in_digest = digest, in_reason = ev_kind e, in_anchorId = ev_anchorId e, in_ts = now\<rparr>
                       (cs_pending s1)\<rparr> else s1);
          (epochBumped, s3) =
            (if cd_bumpsRebindEpoch decision
             then let (outcome, ev, epochs) = bumpEpoch sid (mapToRebindTrigger (ev_kind e)) now (cs_epochs s2)
                  in (bo_bumped outcome, s2\<lparr>cs_epochs := epochs\<rparr>)
             else (False, s2))
      in (\<lparr>co_decision = decision, co_digest = digest, co_chainInvalidated = chainInvalidated,
            co_epochBumped = epochBumped, co_pendingMarkWritten = marks\<rparr>,
          s3\<lparr>cs_dedup := dedup_record sid (dedupKeyFor e) now (cs_dedup s3)\<rparr>))"

definition continuation_run ::
  "(string \<Rightarrow> 'd option) \<Rightarrow> (string \<Rightarrow> bool) \<Rightarrow> continuation_event \<Rightarrow> int \<Rightarrow> 'd continuation_state \<Rightarrow>
   ('d continuation_outcome \<times> 'd continuation_state) option" where
  "continuation_run captureDigest invalidates e now s =
     (case classify e of
        None \<Rightarrow> None
      | Some decision \<Rightarrow>
          if \<not> shouldDispatch (ev_sessionID e) (dedupKeyFor e) now DEFAULT_TTL_MS (cs_dedup s)
          then Some (\<lparr>co_decision = decision, co_digest = None, co_chainInvalidated = False,
                      co_epochBumped = False, co_pendingMarkWritten = False\<rparr>, s)
          else Some (continuation_dispatch captureDigest invalidates decision e now s))"

section \<open>Decisions\<close>

lemma decisions_coherent:
  assumes "classify e = Some d"
  shows "\<not> (cd_injectsChainInit d \<and> cd_injectsAmnesia d) \<and>
    (cd_injectsChainInit d \<longrightarrow> cd_breaksChain d) \<and>
    (cd_injectsChainInit d \<or> cd_injectsAmnesia d \<longrightarrow> cd_capturesDigest d) \<and>
    (cd_breaksChain d \<longrightarrow> cd_bumpsRebindEpoch d \<and> cd_recomputesChainStable d) \<and>
    (cd_skipReason d = None \<longleftrightarrow> cd_injectsChainInit d) \<and>
    (resolveProviderClass e = Some SL \<longrightarrow> \<not> cd_breaksChain d)"
  using assms
  by (cases "ev_kind e"; auto simp: classify_def Let_def switch_shape_def compaction_shape_def idle_shape_def
      split: if_splits)

text \<open>
  Every decision is coherent: a notice of a new chain is only injected when the chain breaks, never together with
  a notice of lost memory, and has no reason to be skipped; either notice has a digest; a chain that breaks gets
  a new epoch; and the chain of a stateless provider never breaks.
\<close>

theorem decisions_are_coherent:
  assumes "classify e = Some d"
  shows "\<not> (cd_injectsChainInit d \<and> cd_injectsAmnesia d) \<and>
    (cd_injectsChainInit d \<longrightarrow> cd_breaksChain d) \<and>
    (cd_injectsChainInit d \<or> cd_injectsAmnesia d \<longrightarrow> cd_capturesDigest d) \<and>
    (cd_breaksChain d \<longrightarrow> cd_bumpsRebindEpoch d \<and> cd_recomputesChainStable d) \<and>
    (cd_skipReason d = None \<longleftrightarrow> cd_injectsChainInit d) \<and>
    (resolveProviderClass e = Some SL \<longrightarrow> \<not> cd_breaksChain d)"
  using assms by (rule decisions_coherent)

definition test_event :: "event_kind \<Rightarrow> string option \<Rightarrow> continuation_event" where
  "test_event k p = \<lparr>ev_kind = k, ev_sessionID = ''s'', ev_previous = ''a'', ev_next = ''b'', ev_providerId = p,
     ev_anchorId = None, ev_detail = []\<rparr>"

theorem decisions_are_coherent_witness:
  "\<exists>d. classify (test_event Account_switch (Some ''codex'')) = Some d \<and> cd_capturesDigest d"
proof -
  have c: "classify (test_event Account_switch (Some ''codex'')) =
      Some \<lparr>cd_breaksChain = True, cd_capturesDigest = True, cd_recomputesChainStable = True,
            cd_injectsChainInit = True, cd_injectsAmnesia = False, cd_bumpsRebindEpoch = True,
            cd_chainBreakClass = SS_break, cd_skipReason = None\<rparr>"
    by code_simp
  from decisions_are_coherent [OF c] c show ?thesis by simp
qed

text \<open>
  An event that names no provider never breaks the chain, whatever its kind: a chain that was cleared by the
  user, or is resumed after a restart of the daemon, is not invalidated then.
\<close>

theorem no_provider_no_break:
  assumes "\<not> truthy (ev_providerId e)" and "continuation_run captureDigest invalidates e now s = Some (r, s')"
  shows "\<not> co_chainInvalidated r \<and> cs_invalidated s' = cs_invalidated s"
proof -
  obtain d where d: "classify e = Some d" using assms(2) by (auto simp: continuation_run_def split: option.splits)
  then have "\<not> cd_breaksChain d" using assms(1) by (auto simp: classify_def resolveProviderClass_def Let_def)
  then show ?thesis
    using assms(2) d by (auto simp: continuation_run_def continuation_dispatch_def Let_def split: if_splits prod.splits)
qed

theorem no_provider_no_break_witness:
  "sh_ssBreaks (SHAPE_BY_KIND User_clear) \<and>
   \<not> (\<exists>r s'. continuation_run (\<lambda>_. Some ()) (\<lambda>_. True) (test_event User_clear None) 0
       \<lparr>cs_dedup = [], cs_pending = [], cs_epochs = [], cs_invalidated = []\<rparr> = Some (r, s') \<and> co_chainInvalidated r)"
proof -
  have "\<not> truthy (ev_providerId (test_event User_clear None))" by code_simp
  then have "\<not> (\<exists>r s'. continuation_run (\<lambda>_. Some ()) (\<lambda>_. True) (test_event User_clear None) 0
       \<lparr>cs_dedup = [], cs_pending = [], cs_epochs = [], cs_invalidated = []\<rparr> = Some (r, s') \<and> co_chainInvalidated r)"
    using no_provider_no_break by blast
  then show ?thesis by simp
qed

section \<open>Repeated events\<close>

lemma dispatch_dedup:
  "cs_dedup (snd (continuation_dispatch captureDigest invalidates d e now s)) =
   dedup_record (ev_sessionID e) (dedupKeyFor e) now (cs_dedup s)"
  by (simp add: continuation_dispatch_def Let_def split: prod.split)

lemma run_dedup_other:
  assumes "continuation_run captureDigest invalidates e now s = Some (r, s')" and "ev_sessionID e \<noteq> sid"
  shows "jget (cs_dedup s') sid = jget (cs_dedup s) sid"
proof -
  obtain d where d: "classify e = Some d" using assms(1) by (auto simp: continuation_run_def split: option.splits)
  show ?thesis
  proof (cases "shouldDispatch (ev_sessionID e) (dedupKeyFor e) now DEFAULT_TTL_MS (cs_dedup s)")
    case True
    then have "s' = snd (continuation_dispatch captureDigest invalidates d e now s)"
      using assms(1) d by (simp add: continuation_run_def)
    then show ?thesis
      using assms(2) by (simp add: dispatch_dedup dedup_record_def jget_jset split: option.split)
  next
    case False
    then show ?thesis using assms(1) d by (simp add: continuation_run_def)
  qed
qed

text \<open>Runs of events one after the other.\<close>

fun continuation_runs ::
  "(string \<Rightarrow> 'd option) \<Rightarrow> (string \<Rightarrow> bool) \<Rightarrow> (continuation_event \<times> int) list \<Rightarrow> 'd continuation_state \<Rightarrow>
   'd continuation_state" where
  "continuation_runs captureDigest invalidates [] s = s"
| "continuation_runs captureDigest invalidates ((e, now) # es) s =
     (case continuation_run captureDigest invalidates e now s of
        None \<Rightarrow> continuation_runs captureDigest invalidates es s
      | Some (r, s') \<Rightarrow> continuation_runs captureDigest invalidates es s')"

lemma runs_dedup_other:
  "\<forall>(e, now) \<in> set es. ev_sessionID e \<noteq> sid \<Longrightarrow>
   jget (cs_dedup (continuation_runs captureDigest invalidates es s)) sid = jget (cs_dedup s) sid"
proof (induction es arbitrary: s)
  case (Cons x es)
  obtain e now where x: "x = (e, now)" by (cases x)
  show ?case
  proof (cases "continuation_run captureDigest invalidates e now s")
    case None
    then show ?thesis using Cons x by simp
  next
    case (Some p)
    obtain r s' where "p = (r, s')" by (cases p)
    then show ?thesis using Cons x Some run_dedup_other [of captureDigest invalidates e now s r s' sid] by simp
  qed
qed simp

text \<open>
  A switch that is detected again within an hour, while only other sessions had events, does nothing: no notice,
  no new epoch, no break. From an hour on it is dispatched again.
\<close>

theorem repeated_switch_is_skipped:
  assumes "dedupKeyFor e = Some k" and "classify e = Some d"
    and "shouldDispatch (ev_sessionID e) (Some k) now DEFAULT_TTL_MS (cs_dedup s)"
    and "continuation_run captureDigest invalidates e now s = Some (r, s1)"
    and "\<forall>(e', t) \<in> set es. ev_sessionID e' \<noteq> ev_sessionID e"
    and "s2 = continuation_runs captureDigest invalidates es s1"
  shows "if now' - now < DEFAULT_TTL_MS
    then \<exists>r'. continuation_run captureDigest invalidates e now' s2 = Some (r', s2) \<and>
      \<not> co_epochBumped r' \<and> \<not> co_pendingMarkWritten r' \<and> \<not> co_chainInvalidated r'
    else continuation_run captureDigest invalidates e now' s2 =
      Some (continuation_dispatch captureDigest invalidates d e now' s2)"
proof -
  have "s1 = snd (continuation_dispatch captureDigest invalidates d e now s)"
    using assms(1-4) by (simp add: continuation_run_def)
  then have "jget (cs_dedup s1) (ev_sessionID e) = Some \<lparr>dd_key = k, dd_ts = now\<rparr>"
    using assms(1) by (simp add: dispatch_dedup dedup_record_def jget_jset)
  then have "jget (cs_dedup s2) (ev_sessionID e) = Some \<lparr>dd_key = k, dd_ts = now\<rparr>"
    using runs_dedup_other [OF assms(5), of captureDigest invalidates s1] assms(6) by simp
  then show ?thesis using assms(1,2) by (auto simp: continuation_run_def shouldDispatch_def)
qed

theorem repeated_switch_is_skipped_witness:
  "\<exists>r' s2. continuation_run (\<lambda>_. Some ()) (\<lambda>_. True) (test_event Account_switch (Some ''codex'')) 9 s2 = Some (r', s2) \<and>
     \<not> co_epochBumped r'"
proof -
  let ?e = "test_event Account_switch (Some ''codex'')"
  let ?s = "\<lparr>cs_dedup = [], cs_pending = [], cs_epochs = [], cs_invalidated = []\<rparr> :: unit continuation_state"
  obtain d where d: "classify ?e = Some d" using decisions_are_coherent_witness by blast
  have k: "dedupKeyFor ?e = Some (switch_key ''account_switch'' ?e)" by (simp add: dedupKeyFor_def test_event_def)
  have go: "shouldDispatch (ev_sessionID ?e) (Some (switch_key ''account_switch'' ?e)) 0 DEFAULT_TTL_MS (cs_dedup ?s)"
    by (simp add: shouldDispatch_def)
  obtain r s1 where r: "continuation_run (\<lambda>_. Some ()) (\<lambda>_. True) ?e 0 ?s = Some (r, s1)"
    using d k go by (simp add: continuation_run_def) (metis prod.collapse)
  from repeated_switch_is_skipped [OF k d go r, of "[]" s1 9]
  show ?thesis by (auto simp: DEFAULT_TTL_MS_def)
qed

text \<open>
  A session has one notice for its next prompt: that of a switch takes the place of that of a compaction, so
  the memory that the compaction lost is never announced.
\<close>

theorem switch_hides_amnesia:
  assumes "classify c = Some dc" and "cd_injectsAmnesia dc" and "classify e = Some de" and "cd_injectsChainInit de"
    and "ev_sessionID c = ev_sessionID e" and "dedupKeyFor c = None"
    and "continuation_run captureDigest invalidates c now s = Some (r1, s1)"
    and "shouldDispatch (ev_sessionID e) (dedupKeyFor e) now' DEFAULT_TTL_MS (cs_dedup s1)"
    and "continuation_run captureDigest invalidates e now' s1 = Some (r2, s2)"
  shows "\<exists>m m'. jget (cs_pending s1) (ev_sessionID e) = Some m \<and> in_amnesia m \<and>
    fst (injection_consume (ev_sessionID e) (cs_pending s2)) = Some m' \<and> \<not> in_amnesia m'"
proof -
  have pending: "jget (cs_pending (snd (continuation_dispatch captureDigest invalidates d x t st))) (ev_sessionID x) =
      Some \<lparr>in_chainInit = cd_injectsChainInit d, in_amnesia = cd_injectsAmnesia d,
            in_digest = (if cd_capturesDigest d then captureDigest (ev_sessionID x) else None),
            in_reason = ev_kind x, in_anchorId = ev_anchorId x, in_ts = t\<rparr>"
    if "cd_injectsChainInit d \<or> cd_injectsAmnesia d" for d x t and st :: "'a continuation_state"
    using that by (simp add: continuation_dispatch_def injection_mark_def Let_def jget_jset split: prod.split)
  have "s1 = snd (continuation_dispatch captureDigest invalidates dc c now s)"
    using assms(1,6,7) by (simp add: continuation_run_def shouldDispatch_def)
  moreover have "s2 = snd (continuation_dispatch captureDigest invalidates de e now' s1)"
    using assms(3,8,9) by (simp add: continuation_run_def)
  moreover have "\<not> cd_injectsAmnesia de" using decisions_coherent [OF assms(3)] assms(4) by blast
  ultimately show ?thesis
    using pending [of dc c now s] pending [of de e now' s1] assms(2,4,5)
    by (simp add: injection_consume_def)
qed

theorem switch_hides_amnesia_witness:
  "\<exists>r1 s1 r2 s2 m'.
     continuation_run (\<lambda>_. Some ()) (\<lambda>_. True) (test_event Compaction_narrative (Some ''codex'')) 0
       \<lparr>cs_dedup = [], cs_pending = [], cs_epochs = [], cs_invalidated = []\<rparr> = Some (r1, s1) \<and>
     continuation_run (\<lambda>_. Some ()) (\<lambda>_. True) (test_event Account_switch (Some ''codex'')) 1 s1 = Some (r2, s2) \<and>
     fst (injection_consume ''s'' (cs_pending s2)) = Some m' \<and> \<not> in_amnesia m'"
proof -
  let ?c = "test_event Compaction_narrative (Some ''codex'')"
  let ?e = "test_event Account_switch (Some ''codex'')"
  let ?s = "\<lparr>cs_dedup = [], cs_pending = [], cs_epochs = [], cs_invalidated = []\<rparr> :: unit continuation_state"
  let ?run = "continuation_run (\<lambda>_. Some ()) (\<lambda>_. True)"
  obtain dc where c: "classify ?c = Some dc" "cd_injectsAmnesia dc"
    by (simp add: classify_def test_event_def resolveProviderClass_def classifyProvider_def CHAIN_SEMANTICS_def
        truthy_def compaction_shape_def Let_def)
  obtain de where e: "classify ?e = Some de" "cd_injectsChainInit de"
    by (simp add: classify_def test_event_def resolveProviderClass_def classifyProvider_def CHAIN_SEMANTICS_def
        truthy_def switch_shape_def Let_def)
  have k: "dedupKeyFor ?c = None" by (simp add: dedupKeyFor_def test_event_def)
  obtain r1 s1 where r1: "?run ?c 0 ?s = Some (r1, s1)" and d: "cs_dedup s1 = []"
    using c k dispatch_dedup [of "\<lambda>_. Some ()" "\<lambda>_. True" dc ?c 0 ?s]
    by (simp add: continuation_run_def shouldDispatch_def dedup_record_def) (metis prod.collapse)
  have go: "shouldDispatch (ev_sessionID ?e) (dedupKeyFor ?e) 1 DEFAULT_TTL_MS (cs_dedup s1)"
    by (simp add: d shouldDispatch_def split: option.split)
  obtain r2 s2 where r2: "?run ?e 1 s1 = Some (r2, s2)"
    using e go by (simp add: continuation_run_def) (metis prod.collapse)
  have sid: "ev_sessionID ?c = ev_sessionID ?e" "ev_sessionID ?e = ''s''" by (simp_all add: test_event_def)
  from switch_hides_amnesia [OF c e sid(1) k r1 go r2] r1 r2 show ?thesis unfolding sid(2) by blast
qed

end
