(* ===== verification/Todo.thy ===== *)
theory Todo
  imports Js_Prelude "HOL-Library.List_Lexorder" "HOL-Library.Char_ord"
begin

text \<open>
  The todo list of a session (session/todo.ts): the action that is inferred from a text, the four ways
  to merge an update into the list, the choice of the next todo, the adoption of proposals, and the
  progress of subagents. A status is a free string, as in the code. The list a session has stored is read and
  written by \<open>update\<close> and \<open>reconcileProgress\<close>; a list that cannot be read is empty.
\<close>

section \<open>Data\<close>

datatype update_mode = Status_update | Plan_materialization | Replan_adoption | Working_ledger

datatype action_kind =
  Implement | Delegate | Wait_action | Approval_action | Decision_action | Push_action | Destructive | Architecture_change

datatype action_risk = Low_risk | Medium_risk | High_risk

datatype waiting_on = On_subagent | On_approval | On_decision | On_external

record todo_action =
  ta_kind :: action_kind
  ta_risk :: "action_risk option"
  ta_needsApproval :: "bool option"
  ta_canDelegate :: "bool option"
  ta_waitingOn :: "waiting_on option"
  ta_dependsOn :: "string list option"

record todo =
  td_content :: string
  td_status :: string
  td_priority :: string
  td_id :: string
  td_action :: "todo_action option"

definition plain_action :: "action_kind \<Rightarrow> todo_action" where
  "plain_action k = \<lparr>ta_kind = k, ta_risk = None, ta_needsApproval = None, ta_canDelegate = None,
     ta_waitingOn = None, ta_dependsOn = None\<rparr>"

section \<open>Actions\<close>

definition inferActionFromContent :: "todo \<Rightarrow> todo_action" where
  "inferActionFromContent t =
     (let text = js_lower (td_content t); has = js_includes text in
      if has ''push'' \<or> has ''deploy'' \<or> has ''release'' \<or> has ''publish''
      then (plain_action Push_action)\<lparr>ta_risk := Some High_risk, ta_needsApproval := Some True\<rparr>
      else if has ''delete'' \<or> has ''remove'' \<or> has ''drop '' \<or> has ''reset'' \<or> has ''destroy''
      then (plain_action Destructive)\<lparr>ta_risk := Some High_risk, ta_needsApproval := Some True\<rparr>
      else if has ''wait for'' \<or> has ''blocked by'' \<or> has ''waiting on''
      then (if has ''subagent'' \<or> has ''worker''
            then (plain_action Wait_action)\<lparr>ta_waitingOn := Some On_subagent\<rparr>
            else if has ''approval''
            then (plain_action Approval_action)\<lparr>ta_waitingOn := Some On_approval, ta_needsApproval := Some True\<rparr>
            else if has ''decision''
            then (plain_action Decision_action)\<lparr>ta_waitingOn := Some On_decision\<rparr>
            else (plain_action Wait_action)\<lparr>ta_waitingOn := Some On_external\<rparr>)
      else if has ''delegate'' \<or> has ''subagent'' \<or> has ''hand off''
      then (plain_action Delegate)\<lparr>ta_canDelegate := Some True\<rparr>
      else (plain_action Implement)\<lparr>ta_canDelegate := (if td_status t = ''pending'' then Some True else None)\<rparr>)"

definition todo_enrich :: "todo \<Rightarrow> todo" where
  "todo_enrich t =
     t\<lparr>td_action := Some (case td_action t of Some a \<Rightarrow> a | None \<Rightarrow> inferActionFromContent t)\<rparr>"

definition enrichAll :: "todo list \<Rightarrow> todo list" where
  "enrichAll ts = map todo_enrich ts"

definition normalizeContent :: "string \<Rightarrow> string" where
  "normalizeContent c = js_join '' '' (js_words (js_lower (js_trim c)))"

text \<open>\<open>a ?? b\<close>, and a \<open>Map\<close> made of a list: the last of equal keys wins.\<close>

definition or_else :: "'a option \<Rightarrow> 'a option \<Rightarrow> 'a option" where
  "or_else a b = (case a of None \<Rightarrow> b | Some x \<Rightarrow> Some x)"

definition last_with :: "('a \<Rightarrow> 'k) \<Rightarrow> 'k \<Rightarrow> 'a list \<Rightarrow> 'a option" where
  "last_with f k xs = List.find (\<lambda>x. f x = k) (rev xs)"

definition previous_todo :: "todo list \<Rightarrow> todo \<Rightarrow> todo option" where
  "previous_todo current t =
     or_else (last_with td_id (td_id t) current)
       (last_with (\<lambda>u. normalizeContent (td_content u)) (normalizeContent (td_content t)) current)"

section \<open>Merging\<close>

definition finished_status :: "string \<Rightarrow> bool" where
  "finished_status s \<longleftrightarrow> s = ''completed'' \<or> s = ''cancelled''"

definition merge_todo :: "todo list \<Rightarrow> todo \<Rightarrow> todo" where
  "merge_todo current t =
     (case previous_todo current t of
        None \<Rightarrow> t
      | Some p \<Rightarrow>
          if finished_status (td_status p)
          then t\<lparr>td_status := td_status p, td_action := or_else (td_action p) (td_action t)\<rparr>
          else if td_status p = ''in_progress'' \<and> td_status t = ''pending''
          then t\<lparr>td_status := ''in_progress'', td_action := or_else (td_action p) (td_action t)\<rparr>
          else t)"

definition mergePreservingProgress :: "todo list \<Rightarrow> todo list \<Rightarrow> todo list" where
  "mergePreservingProgress current incoming =
     (if current = [] then enrichAll incoming
      else if incoming = [] then []
      else
        let enrichedCurrent = enrichAll current; enrichedIncoming = enrichAll incoming;
            overlap = length (filter (\<lambda>t. last_with td_id (td_id t) enrichedCurrent \<noteq> None \<or>
              last_with (\<lambda>u. normalizeContent (td_content u)) (normalizeContent (td_content t)) enrichedCurrent \<noteq> None)
              enrichedIncoming)
        in if overlap = 0 then enrichedIncoming else map (merge_todo enrichedCurrent) enrichedIncoming)"

definition project_todo :: "todo list \<Rightarrow> todo \<Rightarrow> todo" where
  "project_todo current t =
     (case previous_todo current t of
        None \<Rightarrow> t
      | Some p \<Rightarrow>
          if finished_status (td_status p)
          then t\<lparr>td_status := td_status p, td_action := or_else (td_action p) (td_action t)\<rparr>
          else if td_status p = ''in_progress''
          then t\<lparr>td_status := ''in_progress'', td_action := or_else (td_action p) (td_action t)\<rparr>
          else t\<lparr>td_action := or_else (td_action p) (td_action t)\<rparr>)"

definition projectProgressOntoSeed :: "todo list \<Rightarrow> todo list \<Rightarrow> todo list" where
  "projectProgressOntoSeed current seed =
     (if seed = [] then []
      else if current = [] then enrichAll seed
      else map (project_todo (enrichAll current)) (enrichAll seed))"

definition same_todo :: "todo \<Rightarrow> todo \<Rightarrow> bool" where
  "same_todo t candidate \<longleftrightarrow>
     td_id candidate = td_id t \<or> normalizeContent (td_content candidate) = normalizeContent (td_content t)"

definition applyStatusOnlyUpdate :: "todo list \<Rightarrow> todo list \<Rightarrow> todo list" where
  "applyStatusOnlyUpdate current incoming =
     map (\<lambda>t. case List.find (same_todo t) (enrichAll incoming) of
                None \<Rightarrow> t
              | Some i \<Rightarrow> t\<lparr>td_status := td_status i, td_priority := td_priority i,
                             td_action := or_else (td_action i) (td_action t)\<rparr>)
       (enrichAll current)"

definition projectSeedWithProgress :: "todo list \<Rightarrow> todo list \<Rightarrow> todo list" where
  "projectSeedWithProgress current seed = projectProgressOntoSeed current seed"

definition todo_signature :: "todo list \<Rightarrow> string" where
  "todo_signature ts = js_join ''||'' (sort (map (\<lambda>t. td_id t @ ''::'' @ normalizeContent (td_content t)) ts))"

definition sameStructure :: "todo list \<Rightarrow> todo list \<Rightarrow> bool" where
  "sameStructure a b \<longleftrightarrow> todo_signature a = todo_signature b"

section \<open>The next todo\<close>

definition isDependencyReady :: "todo \<Rightarrow> todo list \<Rightarrow> bool" where
  "isDependencyReady t ts =
     (case Option.bind (td_action t) ta_dependsOn of
        None \<Rightarrow> True
      | Some deps \<Rightarrow>
          list_all (\<lambda>i. case List.find (\<lambda>c. td_id c = i) ts of
             None \<Rightarrow> False | Some c \<Rightarrow> td_status c = ''completed'') deps)"

definition nextActionableTodo :: "todo list \<Rightarrow> todo option" where
  "nextActionableTodo ts =
     or_else (List.find (\<lambda>t. td_status t = ''in_progress'') ts)
       (List.find (\<lambda>t. td_status t = ''pending'' \<and> isDependencyReady t ts) ts)"

section \<open>Proposals\<close>

record adoption_policy =
  ap_adoptionMode :: "string option"
  ap_requiresUserConfirm :: "bool option"
  ap_requiresHostReview :: "bool option"

record todo_proposal =
  tp_targetTodoID :: "string option"
  tp_proposedAction :: "string option"
  tp_policy :: "adoption_policy option"

datatype adoption_reason =
  Missing_target | Unsupported_action | Policy_not_host_adoptable | User_confirm_required | Host_review_missing |
  Active_todo_in_progress | Target_not_pending | Dependencies_not_ready | Approval_gate | Waiting_gate |
  Unsupported_todo_kind | Target_not_active | Adopted string

text \<open>The checks both adoptions begin with.\<close>

definition proposal_refused :: "string \<Rightarrow> todo_proposal option \<Rightarrow> adoption_reason option" where
  "proposal_refused action p =
     (if \<not> truthy (Option.bind p tp_targetTodoID) then Some Missing_target
      else if tp_proposedAction (the p) \<noteq> Some action then Some Unsupported_action
      else if Option.bind (tp_policy (the p)) ap_adoptionMode \<noteq> Some ''host_adoptable'' then Some Policy_not_host_adoptable
      else if Option.bind (tp_policy (the p)) ap_requiresUserConfirm = Some True then Some User_confirm_required
      else if Option.bind (tp_policy (the p)) ap_requiresHostReview = Some False then Some Host_review_missing
      else None)"

definition set_status :: "string \<Rightarrow> string \<Rightarrow> todo list \<Rightarrow> todo list" where
  "set_status i status ts = map (\<lambda>t. if td_id t = i then t\<lparr>td_status := status\<rparr> else t) ts"

definition applyHostAdoptedReplan :: "todo list \<Rightarrow> todo_proposal option \<Rightarrow> adoption_reason \<times> todo list" where
  "applyHostAdoptedReplan todos p =
     (case proposal_refused ''replan_todos'' p of
        Some r \<Rightarrow> (r, todos)
      | None \<Rightarrow>
          if list_ex (\<lambda>t. td_status t = ''in_progress'') todos then (Active_todo_in_progress, todos)
          else
            let enriched = enrichAll todos; i = the (tp_targetTodoID (the p)) in
            case List.find (\<lambda>t. td_id t = i) enriched of
              None \<Rightarrow> (Target_not_pending, enriched)
            | Some target \<Rightarrow>
                if td_status target \<noteq> ''pending'' then (Target_not_pending, enriched)
                else if \<not> isDependencyReady target enriched then (Dependencies_not_ready, enriched)
                else if Option.bind (td_action target) ta_needsApproval = Some True then (Approval_gate, enriched)
                else if Option.bind (td_action target) ta_waitingOn \<noteq> None then (Waiting_gate, enriched)
                else if map_option ta_kind (td_action target) \<noteq> Some Implement then (Unsupported_todo_kind, enriched)
                else (Adopted i, set_status i ''in_progress'' enriched))"

definition applyHostAdoptedCompletion :: "todo list \<Rightarrow> todo_proposal option \<Rightarrow> adoption_reason \<times> todo list" where
  "applyHostAdoptedCompletion todos p =
     (case proposal_refused ''mark_todo_complete'' p of
        Some r \<Rightarrow> (r, todos)
      | None \<Rightarrow>
          let enriched = enrichAll todos; i = the (tp_targetTodoID (the p)) in
          case List.find (\<lambda>t. td_id t = i) enriched of
            None \<Rightarrow> (Missing_target, enriched)
          | Some target \<Rightarrow>
              if finished_status (td_status target) then (Target_not_active, enriched)
              else if Option.bind (td_action target) ta_needsApproval = Some True then (Approval_gate, enriched)
              else if Option.bind (td_action target) ta_waitingOn \<noteq> None then (Waiting_gate, enriched)
              else (case nextActionableTodo enriched of
                 None \<Rightarrow> (Target_not_active, enriched)
               | Some c \<Rightarrow> if td_id c \<noteq> td_id target then (Target_not_active, enriched)
                          else (Adopted i, set_status i ''completed'' enriched)))"

section \<open>The stored list\<close>

type_synonym todo_store = "(string, todo list) jmap"

definition todo_get :: "todo_store \<Rightarrow> string \<Rightarrow> todo list" where
  "todo_get store sid = (case jget store sid of None \<Rightarrow> [] | Some ts \<Rightarrow> ts)"

definition merged_todos :: "update_mode \<Rightarrow> todo list \<Rightarrow> todo list \<Rightarrow> todo list" where
  "merged_todos mode current incoming =
     (case mode of
        Working_ledger \<Rightarrow> enrichAll incoming
      | Status_update \<Rightarrow> applyStatusOnlyUpdate current incoming
      | Plan_materialization \<Rightarrow> projectProgressOntoSeed current incoming
      | Replan_adoption \<Rightarrow> mergePreservingProgress current incoming)"

definition todo_update :: "string \<Rightarrow> todo list \<Rightarrow> update_mode option \<Rightarrow> todo_store \<Rightarrow> todo_store" where
  "todo_update sid incoming mode store =
     jset store sid (merged_todos (case mode of None \<Rightarrow> Replan_adoption | Some m \<Rightarrow> m) (todo_get store sid) incoming)"

definition setDerived :: "string \<Rightarrow> todo list \<Rightarrow> todo_store \<Rightarrow> todo list \<times> todo_store" where
  "setDerived sid incoming store =
     (let preserved = filter (\<lambda>t. \<not> js_starts_with (td_id t) ''freerun:'') (todo_get store sid);
          todos = enrichAll (preserved @ incoming)
      in (todos, jset store sid todos))"

datatype task_status = Task_returned | Task_completed | Task_error

definition wait_over :: "todo_action option \<Rightarrow> todo_action option" where
  "wait_over a =
     (case a of None \<Rightarrow> None
      | Some x \<Rightarrow> Some (if ta_waitingOn x = Some On_subagent then x\<lparr>ta_waitingOn := None\<rparr> else x))"

definition wait_for_subagent :: "todo_action option \<Rightarrow> todo_action option" where
  "wait_for_subagent a =
     (case a of
        None \<Rightarrow> Some ((plain_action Wait_action)\<lparr>ta_waitingOn := Some On_subagent\<rparr>)
      | Some x \<Rightarrow> Some (if ta_waitingOn x \<noteq> Some On_subagent then x\<lparr>ta_waitingOn := Some On_subagent\<rparr> else x))"

definition linked_todo :: "task_status \<Rightarrow> todo \<Rightarrow> todo" where
  "linked_todo st t =
     (case st of
        Task_returned \<Rightarrow> t\<lparr>td_status := (if td_status t = ''pending'' then ''in_progress'' else td_status t),
                          td_action := wait_over (td_action t)\<rparr>
      | Task_completed \<Rightarrow> t\<lparr>td_status := ''completed'', td_action := wait_over (td_action t)\<rparr>
      | Task_error \<Rightarrow> t\<lparr>td_status := (if td_status t = ''pending'' then ''in_progress'' else td_status t),
                       td_action := wait_for_subagent (td_action t)\<rparr>)"

fun start_first :: "string \<Rightarrow> todo list \<Rightarrow> todo list" where
  "start_first i [] = []"
| "start_first i (t # ts) = (if td_id t = i then t\<lparr>td_status := ''in_progress''\<rparr> # ts else t # start_first i ts)"

definition advance_next :: "todo list \<Rightarrow> todo list" where
  "advance_next ts =
     (if list_ex (\<lambda>t. td_status t = ''in_progress'') ts then ts
      else case nextActionableTodo ts of
        None \<Rightarrow> ts
      | Some next \<Rightarrow> if td_status next = ''pending'' then start_first (td_id next) ts else ts)"

definition reconcileProgress ::
  "string \<Rightarrow> string option \<Rightarrow> task_status \<Rightarrow> todo_store \<Rightarrow> todo list \<times> todo_store" where
  "reconcileProgress sid linkedTodoID st store =
     (let current = todo_get store sid in
      if current = [] then (current, store)
      else if truthy linkedTodoID \<and> st = Task_completed \<and>
        (case List.find (\<lambda>t. td_id t = the linkedTodoID) current of
           None \<Rightarrow> False | Some linked \<Rightarrow> finished_status (td_status linked))
      then (current, store)
      else
        let todos0 = enrichAll (map (\<lambda>t. if truthy linkedTodoID \<and> td_id t = the linkedTodoID
                                         then linked_todo st t else t) current);
            todos = (if st = Task_completed then advance_next todos0 else todos0)
        in (todos, todo_update sid todos (Some Status_update) store))"

section \<open>Structure\<close>

definition todo_keys :: "todo list \<Rightarrow> (string \<times> string) list" where
  "todo_keys ts = map (\<lambda>t. (td_id t, td_content t)) ts"

lemma enrich_fields [simp]:
  "td_id (todo_enrich t) = td_id t" "td_content (todo_enrich t) = td_content t"
  "td_status (todo_enrich t) = td_status t" "td_priority (todo_enrich t) = td_priority t"
  by (simp_all add: todo_enrich_def)

lemma enrich_action: "\<exists>a. td_action (todo_enrich t) = Some a"
  by (simp add: todo_enrich_def)

lemma enrich_enrich [simp]: "todo_enrich (todo_enrich t) = todo_enrich t"
  by (simp add: todo_enrich_def)

lemma merge_keys:
  "td_id (merge_todo cur t) = td_id t" "td_content (merge_todo cur t) = td_content t"
  "td_id (project_todo cur t) = td_id t" "td_content (project_todo cur t) = td_content t"
  by (simp_all add: merge_todo_def project_todo_def split: option.split)

text \<open>
  An update of statuses keeps the list: its todos, their texts and their order are those stored before. Every
  other update takes todos, texts and order from the incoming list.
\<close>

theorem updates_keep_structure:
  "todo_keys (merged_todos mode current incoming) =
   todo_keys (if mode = Status_update then current else incoming)"
  by (cases mode)
    (auto simp: merged_todos_def todo_keys_def applyStatusOnlyUpdate_def projectProgressOntoSeed_def
      mergePreservingProgress_def enrichAll_def Let_def merge_keys split: option.split)

section \<open>Progress\<close>

lemma find_map: "List.find P (map f xs) = map_option f (List.find (P \<circ> f) xs)"
  by (induction xs) auto

lemma last_with_enrich:
  assumes "\<And>t. f (todo_enrich t) = f t"
  shows "last_with f k (enrichAll ts) = map_option todo_enrich (last_with f k ts)"
proof -
  have "last_with f k (enrichAll ts) = List.find (\<lambda>x. f x = k) (map todo_enrich (rev ts))"
    by (simp add: last_with_def enrichAll_def rev_map)
  also have "\<dots> = map_option todo_enrich (List.find ((\<lambda>x. f x = k) \<circ> todo_enrich) (rev ts))"
    by (rule find_map)
  finally show ?thesis by (simp add: o_def assms last_with_def)
qed

lemma previous_enrich:
  "previous_todo (enrichAll cur) (todo_enrich t) = map_option todo_enrich (previous_todo cur t)"
  unfolding previous_todo_def enrich_fields
  by (simp add: last_with_enrich or_else_def split: option.split)

lemma filter_some: "P x \<Longrightarrow> x \<in> set xs \<Longrightarrow> length (filter P xs) \<noteq> 0"
  by (induction xs) auto

lemma merge_finished:
  "previous_todo cur t = Some p \<Longrightarrow> finished_status (td_status p) \<Longrightarrow> td_status (merge_todo cur t) = td_status p"
  "previous_todo cur t = Some p \<Longrightarrow> finished_status (td_status p) \<Longrightarrow> td_status (project_todo cur t) = td_status p"
  by (simp_all add: merge_todo_def project_todo_def)

text \<open>
  A plan never undoes work: in both updates that take over a plan, a todo that is the continuation (by its
  identifier, or else by its text) of one that was completed or cancelled keeps that status.
\<close>

theorem finished_stays_finished:
  assumes "mode = Plan_materialization \<or> mode = Replan_adoption" and "i < length incoming"
    and "previous_todo current (incoming ! i) = Some p" and "finished_status (td_status p)"
  shows "td_status (merged_todos mode current incoming ! i) = td_status p"
proof -
  let ?t = "todo_enrich (incoming ! i)"
  have ne: "current \<noteq> []" "incoming \<noteq> []"
    using assms(2,3) by (auto simp: previous_todo_def last_with_def or_else_def)
  have prev: "previous_todo (enrichAll current) ?t = Some (todo_enrich p)"
    using assms(3) by (simp add: previous_enrich)
  have fin: "finished_status (td_status (todo_enrich p))" using assms(4) by simp
  let ?overlap = "\<lambda>t. last_with td_id (td_id t) (enrichAll current) \<noteq> None \<or>
    last_with (\<lambda>u. normalizeContent (td_content u)) (normalizeContent (td_content t)) (enrichAll current) \<noteq> None"
  have "?overlap ?t" using prev by (auto simp: previous_todo_def or_else_def split: option.splits)
  moreover have "?t \<in> set (enrichAll incoming)" using assms(2) by (simp add: enrichAll_def)
  ultimately have "length (filter ?overlap (enrichAll incoming)) \<noteq> 0"
    by (rule filter_some)
  then have "mergePreservingProgress current incoming = map (merge_todo (enrichAll current)) (enrichAll incoming)"
    using ne by (simp add: mergePreservingProgress_def Let_def)
  moreover have "projectProgressOntoSeed current incoming = map (project_todo (enrichAll current)) (enrichAll incoming)"
    using ne by (simp add: projectProgressOntoSeed_def)
  ultimately show ?thesis
    using assms(1,2) merge_finished [OF prev fin] by (auto simp: merged_todos_def enrichAll_def)
qed

definition test_todo :: "string \<Rightarrow> string \<Rightarrow> string \<Rightarrow> todo" where
  "test_todo i c st = \<lparr>td_content = c, td_status = st, td_priority = ''medium'', td_id = i, td_action = None\<rparr>"

theorem finished_stays_finished_witness:
  "td_status (merged_todos Replan_adoption [test_todo ''1'' ''Write  Tests'' ''completed'']
     [test_todo ''x'' ''write tests'' ''pending''] ! 0) = ''completed''"
proof -
  have "previous_todo [test_todo ''1'' ''Write  Tests'' ''completed''] ([test_todo ''x'' ''write tests'' ''pending''] ! 0) =
      Some (test_todo ''1'' ''Write  Tests'' ''completed'')" by code_simp
  moreover have "finished_status (td_status (test_todo ''1'' ''Write  Tests'' ''completed''))" by code_simp
  ultimately show ?thesis
    using finished_stays_finished [of Replan_adoption 0 "[test_todo ''x'' ''write tests'' ''pending'']"]
    by (simp add: test_todo_def)
qed

section \<open>Updates of statuses\<close>

lemma same_enrich: "same_todo (todo_enrich a) \<circ> todo_enrich = same_todo a"
  by (auto simp: same_todo_def)

text \<open>
  An update of statuses replaces the action of a todo it finds, also when it sends none: the action is then
  inferred from the text, and dependencies, approvals and waits that were planned are lost.
\<close>

theorem status_update_drops_action:
  assumes "k < length current" and "List.find (same_todo (current ! k)) incoming = Some u" and "td_action u = None"
  shows "td_action (merged_todos Status_update current incoming ! k) = Some (inferActionFromContent u) \<and>
    Option.bind (td_action (merged_todos Status_update current incoming ! k)) ta_dependsOn = None"
proof -
  have "List.find (same_todo (todo_enrich (current ! k))) (enrichAll incoming) = Some (todo_enrich u)"
    using assms(2) by (simp add: enrichAll_def find_map same_enrich)
  then have "td_action (merged_todos Status_update current incoming ! k) = Some (inferActionFromContent u)"
    using assms(1,3)
    by (simp add: merged_todos_def applyStatusOnlyUpdate_def enrichAll_def or_else_def todo_enrich_def)
  then show ?thesis by (simp add: inferActionFromContent_def plain_action_def Let_def)
qed

theorem status_update_drops_action_witness:
  "map_option td_id (nextActionableTodo (merged_todos Status_update
       [test_todo ''1'' ''plan'' ''cancelled'',
        (test_todo ''2'' ''build'' ''pending'')\<lparr>td_action := Some ((plain_action Implement)\<lparr>ta_dependsOn := Some [''1'']\<rparr>)\<rparr>]
       [test_todo ''2'' ''build'' ''pending''])) = Some ''2'' \<and>
   nextActionableTodo [test_todo ''1'' ''plan'' ''cancelled'',
        (test_todo ''2'' ''build'' ''pending'')\<lparr>td_action := Some ((plain_action Implement)\<lparr>ta_dependsOn := Some [''1'']\<rparr>)\<rparr>] = None"
proof -
  let ?cur = "[test_todo ''1'' ''plan'' ''cancelled'',
        (test_todo ''2'' ''build'' ''pending'')\<lparr>td_action := Some ((plain_action Implement)\<lparr>ta_dependsOn := Some [''1'']\<rparr>)\<rparr>]"
  let ?inc = "[test_todo ''2'' ''build'' ''pending'']"
  have "List.find (same_todo (?cur ! 1)) ?inc = Some (test_todo ''2'' ''build'' ''pending'')" by code_simp
  moreover have "td_action (test_todo ''2'' ''build'' ''pending'') = None" "1 < length ?cur"
    by (simp_all add: test_todo_def)
  ultimately have "Option.bind (td_action (merged_todos Status_update ?cur ?inc ! 1)) ta_dependsOn = None"
    using status_update_drops_action by blast
  moreover have "nextActionableTodo ?cur = None" by code_simp
  moreover have "map_option td_id (nextActionableTodo (merged_todos Status_update ?cur ?inc)) = Some ''2''" by code_simp
  ultimately show ?thesis by simp
qed

section \<open>Subagents\<close>

lemma start_first_keys: "map td_id (start_first i ts) = map td_id ts" "map td_content (start_first i ts) = map td_content ts"
  by (induction ts) auto

lemma start_first_actions: "\<forall>t \<in> set ts. td_action t \<noteq> None \<Longrightarrow> \<forall>t \<in> set (start_first i ts). td_action t \<noteq> None"
  by (induction ts) auto

lemma start_first_starts:
  "t \<in> set ts \<Longrightarrow> td_id t = i \<Longrightarrow> list_ex (\<lambda>t. td_status t = ''in_progress'') (start_first i ts)"
  by (induction ts) auto

lemma start_first_keeps:
  "t \<in> set (start_first i ts) \<Longrightarrow> t \<in> set ts \<or> (\<exists>u \<in> set ts. td_id u = i \<and> t = u\<lparr>td_status := ''in_progress''\<rparr>)"
  by (induction ts) (auto split: if_splits)

lemma find_Some_in: "List.find P xs = Some x \<Longrightarrow> x \<in> set xs \<and> P x"
  by (auto simp: find_Some_iff)

lemma next_in: "nextActionableTodo ts = Some t \<Longrightarrow> t \<in> set ts"
  by (auto simp: nextActionableTodo_def or_else_def split: option.splits dest: find_Some_in)

lemma advance_actions:
  "\<forall>t \<in> set ts. td_action t \<noteq> None \<Longrightarrow> \<forall>t \<in> set (advance_next ts). td_action t \<noteq> None"
  using start_first_actions by (auto simp: advance_next_def split: option.split)

lemma advance_keys: "map td_id (advance_next ts) = map td_id ts" "map td_content (advance_next ts) = map td_content ts"
  by (auto simp: advance_next_def start_first_keys split: option.split)

lemma advance_in_progress:
  "list_ex (\<lambda>t. td_status t = ''in_progress'') (advance_next ts) \<or>
   advance_next ts = ts \<and> \<not> list_ex (\<lambda>t. td_status t = ''pending'' \<and> isDependencyReady t ts) ts"
proof (cases "list_ex (\<lambda>t. td_status t = ''in_progress'') ts")
  case True
  then show ?thesis by (simp add: advance_next_def)
next
  case False
  then have none: "List.find (\<lambda>t. td_status t = ''in_progress'') ts = None"
    by (simp add: find_None_iff list_ex_iff)
  show ?thesis
  proof (cases "nextActionableTodo ts")
    case None
    then have "List.find (\<lambda>t. td_status t = ''pending'' \<and> isDependencyReady t ts) ts = None"
      by (auto simp: nextActionableTodo_def or_else_def none)
    then show ?thesis using False None by (simp add: advance_next_def find_None_iff list_ex_iff)
  next
    case (Some n)
    then have "td_status n = ''pending''"
      by (auto simp: nextActionableTodo_def or_else_def none dest: find_Some_in)
    then show ?thesis using False Some start_first_starts [OF next_in [OF Some] refl] by (simp add: advance_next_def)
  qed
qed

lemma advance_done:
  "list_ex (\<lambda>t. td_status t = ''in_progress'') (advance_next ts) \<or>
   \<not> list_ex (\<lambda>t. td_status t = ''pending'' \<and> isDependencyReady t (advance_next ts)) (advance_next ts)"
  using advance_in_progress [of ts] by (elim disjE conjE) simp_all

lemma start_first_other: "x \<in> set ts \<Longrightarrow> td_id x \<noteq> i \<Longrightarrow> x \<in> set (start_first i ts)"
  by (induction ts) auto

lemma advance_cases:
  obtains "advance_next ts = ts" | n where "nextActionableTodo ts = Some n" "td_status n = ''pending''"
    "advance_next ts = start_first (td_id n) ts"
proof (cases "list_ex (\<lambda>t. td_status t = ''in_progress'') ts")
  case True
  then have "advance_next ts = ts" by (simp add: advance_next_def)
  then show ?thesis by (rule that(1))
next
  case False
  show ?thesis
  proof (cases "nextActionableTodo ts")
    case None
    then have "advance_next ts = ts" using False by (simp add: advance_next_def)
    then show ?thesis by (rule that(1))
  next
    case (Some n)
    then show ?thesis using False that by (cases "td_status n = ''pending''") (auto simp: advance_next_def)
  qed
qed

text \<open>An update of statuses that sends the whole list back stores that list, when no two todos look the same.\<close>

definition distinct_todos :: "todo list \<Rightarrow> bool" where
  "distinct_todos ts \<longleftrightarrow> distinct (map td_id ts) \<and> distinct (map (\<lambda>t. normalizeContent (td_content t)) ts)"

lemma status_update_stores:
  assumes "map td_id new = map td_id current" and "map td_content new = map td_content current"
    and "distinct_todos current" and acts: "\<forall>t \<in> set new. td_action t \<noteq> None"
  shows "applyStatusOnlyUpdate current new = new"
proof (rule nth_equalityI)
  have len: "length new = length current" using assms(1) map_eq_imp_length_eq by blast
  then show "length (applyStatusOnlyUpdate current new) = length new"
    by (simp add: applyStatusOnlyUpdate_def enrichAll_def)
  have en: "enrichAll new = new"
    unfolding enrichAll_def by (rule map_idI) (use acts in \<open>auto simp: todo_enrich_def\<close>)
  fix k assume "k < length (applyStatusOnlyUpdate current new)"
  then have k: "k < length current" by (simp add: applyStatusOnlyUpdate_def enrichAll_def)
  have ids: "td_id (new ! j) = td_id (current ! j)" "td_content (new ! j) = td_content (current ! j)"
    if "j < length current" for j
    using that len assms(1,2) by (metis nth_map)+
  have "List.find (same_todo (todo_enrich (current ! k))) new = Some (new ! k)"
    unfolding find_Some_iff
  proof (intro exI conjI allI impI)
    show "k < length new" using k len by simp
    show "same_todo (todo_enrich (current ! k)) (new ! k)" using ids [OF k] by (simp add: same_todo_def)
    fix j assume "j < k"
    then have j: "j < length current" "j \<noteq> k" using k by auto
    have "td_id (current ! j) \<noteq> td_id (current ! k)"
      using assms(3) j k unfolding distinct_todos_def by (metis length_map nth_eq_iff_index_eq nth_map)
    moreover have "normalizeContent (td_content (current ! j)) \<noteq> normalizeContent (td_content (current ! k))"
      using assms(3) j k unfolding distinct_todos_def
      by (metis (no_types, lifting) length_map nth_eq_iff_index_eq nth_map)
    ultimately show "\<not> same_todo (todo_enrich (current ! k)) (new ! j)"
      using ids [OF j(1)] by (simp add: same_todo_def)
  qed simp
  then have "applyStatusOnlyUpdate current new ! k =
      (todo_enrich (current ! k))\<lparr>td_status := td_status (new ! k), td_priority := td_priority (new ! k),
        td_action := or_else (td_action (new ! k)) (td_action (todo_enrich (current ! k)))\<rparr>"
    using k by (simp add: applyStatusOnlyUpdate_def en) (simp add: enrichAll_def)
  moreover have "td_action (new ! k) \<noteq> None" using acts k len by simp
  ultimately show "applyStatusOnlyUpdate current new ! k = new ! k"
    using ids [OF k] by (auto simp: or_else_def intro!: todo.equality)
qed

text \<open>
  When a subagent completes, its todo (if it was not finished already) is completed, and unless some
  todo is then in progress no todo that is pending and ready is left behind. What is returned is what is stored,
  provided no two todos have the same identifier or the same text.
\<close>

theorem completion_advances:
  assumes "current = todo_get store sid" and "distinct_todos current" and "linkedTodoID \<noteq> []"
    and "List.find (\<lambda>t. td_id t = linkedTodoID) current = Some linked" and "\<not> finished_status (td_status linked)"
    and "reconcileProgress sid (Some linkedTodoID) Task_completed store = (todos, store')"
  shows "todo_get store' sid = todos \<and> map td_id todos = map td_id current \<and>
    (\<exists>t \<in> set todos. td_id t = linkedTodoID \<and> td_status t = ''completed'') \<and>
    (list_ex (\<lambda>t. td_status t = ''in_progress'') todos \<or>
     \<not> list_ex (\<lambda>t. td_status t = ''pending'' \<and> isDependencyReady t todos) todos)"
proof -
  let ?mark = "\<lambda>t. if td_id t = linkedTodoID then linked_todo Task_completed t else t"
  let ?t0 = "enrichAll (map ?mark current)"
  have linked: "linked \<in> set current" "td_id linked = linkedTodoID" using find_Some_in [OF assms(4)] by auto
  then have ne: "current \<noteq> []" by auto
  have r: "todos = advance_next ?t0" "store' = todo_update sid todos (Some Status_update) store"
    using assms(6) ne assms(3,4,5) unfolding assms(1)
    by (auto simp: reconcileProgress_def truthy_def Let_def)
  have acts: "\<forall>t \<in> set todos. td_action t \<noteq> None"
    unfolding r(1) by (rule advance_actions) (auto simp: enrichAll_def enrich_action todo_enrich_def)
  have keys: "map td_id todos = map td_id current" "map td_content todos = map td_content current"
    unfolding r(1) advance_keys by (auto simp: enrichAll_def linked_todo_def)
  have "todo_get store' sid = applyStatusOnlyUpdate current todos"
    unfolding r(2) by (simp add: todo_update_def todo_get_def jget_jset merged_todos_def assms(1))
  then have stored: "todo_get store' sid = todos"
    using status_update_stores [OF keys assms(2) acts] by simp
  have "\<exists>t \<in> set todos. td_id t = linkedTodoID \<and> td_status t = ''completed''"
  proof -
    let ?l = "todo_enrich (linked_todo Task_completed linked)"
    have l: "?l \<in> set ?t0" using linked by (force simp: enrichAll_def)
    have st: "td_status ?l = ''completed''" "td_id ?l = linkedTodoID" using linked(2) by (simp_all add: linked_todo_def)
    have all: "td_status t = ''completed''" if "t \<in> set ?t0" "td_id t = linkedTodoID" for t
    proof -
      have "t \<in> todo_enrich ` ?mark ` set current" using that(1) by (simp only: enrichAll_def set_map)
      then obtain u where u: "t = todo_enrich (?mark u)" by blast
      have "td_id u = linkedTodoID" using that(2) unfolding u by (cases "td_id u = linkedTodoID") simp_all
      then show ?thesis unfolding u by (simp add: linked_todo_def)
    qed
    consider "advance_next ?t0 = ?t0" | n where "nextActionableTodo ?t0 = Some n" "td_status n = ''pending''"
        "advance_next ?t0 = start_first (td_id n) ?t0"
      by (rule advance_cases)
    then show ?thesis
    proof cases
      case 1
      show ?thesis unfolding r(1) 1 using l st by (intro bexI [of _ ?l]) simp_all
    next
      case 2
      then have "td_id n \<noteq> linkedTodoID" using all next_in by fastforce
      then have "?l \<in> set (advance_next ?t0)"
        unfolding 2(3) using l st(2) by (intro start_first_other) simp_all
      then show ?thesis using st unfolding r(1) by (intro bexI [of _ ?l]) simp_all
    qed
  qed
  moreover have "list_ex (\<lambda>t. td_status t = ''in_progress'') todos \<or>
     \<not> list_ex (\<lambda>t. td_status t = ''pending'' \<and> isDependencyReady t todos) todos"
    unfolding r(1) by (rule advance_done)
  ultimately show ?thesis using stored keys by blast
qed

theorem completion_advances_witness:
  "map (\<lambda>t. (td_id t, td_status t)) (todo_get (snd (reconcileProgress ''s'' (Some ''1'') Task_completed
       [(''s'', [test_todo ''1'' ''plan'' ''in_progress'', test_todo ''2'' ''build'' ''pending''])])) ''s'') =
     [(''1'', ''completed''), (''2'', ''in_progress'')] \<and>
   todo_get (snd (reconcileProgress ''s'' (Some ''1'') Task_completed
       [(''s'', [test_todo ''1'' ''plan'' ''in_progress'', test_todo ''2'' ''build'' ''pending''])])) ''s'' =
   fst (reconcileProgress ''s'' (Some ''1'') Task_completed
       [(''s'', [test_todo ''1'' ''plan'' ''in_progress'', test_todo ''2'' ''build'' ''pending''])])"
proof -
  let ?store = "[(''s'', [test_todo ''1'' ''plan'' ''in_progress'', test_todo ''2'' ''build'' ''pending''])]"
  let ?r = "reconcileProgress ''s'' (Some ''1'') Task_completed ?store"
  have d: "distinct_todos (todo_get ?store ''s'')" by code_simp
  have f: "List.find (\<lambda>t. td_id t = ''1'') (todo_get ?store ''s'') = Some (test_todo ''1'' ''plan'' ''in_progress'')"
    by code_simp
  have "\<not> finished_status (td_status (test_todo ''1'' ''plan'' ''in_progress''))" by code_simp
  from completion_advances [OF refl d _ f this, of "fst ?r" "snd ?r"]
  have "todo_get (snd ?r) ''s'' = fst ?r" by simp
  moreover have "map (\<lambda>t. (td_id t, td_status t)) (todo_get (snd ?r) ''s'') = [(''1'', ''completed''), (''2'', ''in_progress'')]"
    by code_simp
  ultimately show ?thesis by blast
qed

text \<open>
  Two todos with the same text: the completion of the second one is returned but not stored, since the update of
  statuses finds the first one by its text and gives its status to both.
\<close>

theorem same_text_loses_completion:
  "let store = [(''s'', [test_todo ''1'' ''run tests'' ''in_progress'', test_todo ''2'' ''Run tests'' ''in_progress''])];
       (returned, store') = reconcileProgress ''s'' (Some ''2'') Task_completed store
   in map td_status returned = [''in_progress'', ''completed''] \<and>
      map td_status (todo_get store' ''s'') = [''in_progress'', ''in_progress'']"
  by code_simp

section \<open>Adoption\<close>

text \<open>
  A proposed step is adopted exactly when the policy allows the host to adopt it, no todo is in
  progress, and its target (the first with its identifier) is a pending implementation whose dependencies are
  completed and that waits neither for an approval nor for anything else; adopting it only puts it in progress.
\<close>

theorem replan_adopted_iff:
  "(\<exists>i. fst (applyHostAdoptedReplan todos p) = Adopted i) =
     (\<exists>target a.
        proposal_refused ''replan_todos'' p = None \<and> \<not> list_ex (\<lambda>t. td_status t = ''in_progress'') todos \<and>
        List.find (\<lambda>t. td_id t = the (tp_targetTodoID (the p))) (enrichAll todos) = Some target \<and>
        td_status target = ''pending'' \<and> isDependencyReady target (enrichAll todos) \<and> td_action target = Some a \<and>
        ta_needsApproval a \<noteq> Some True \<and> ta_waitingOn a = None \<and> ta_kind a = Implement \<and>
        snd (applyHostAdoptedReplan todos p) =
          set_status (the (tp_targetTodoID (the p))) ''in_progress'' (enrichAll todos))"
proof (cases "proposal_refused ''replan_todos'' p")
  case (Some r)
  then have "r \<noteq> Adopted i" for i by (auto simp: proposal_refused_def split: if_splits)
  then show ?thesis using Some by (simp add: applyHostAdoptedReplan_def)
next
  case None
  show ?thesis
  proof (cases "List.find (\<lambda>t. td_id t = the (tp_targetTodoID (the p))) (enrichAll todos)")
    case None': None
    then show ?thesis using None by (simp add: applyHostAdoptedReplan_def Let_def)
  next
    case (Some target)
    then have "target \<in> set (enrichAll todos)" using find_Some_in by metis
    then obtain a where "td_action target = Some a" using enrich_action by (auto simp: enrichAll_def)
    then show ?thesis using None Some by (simp add: applyHostAdoptedReplan_def Let_def)
  qed
qed

end
