(* ===== verification/Run_Queue.thy ===== *)
theory Run_Queue
  imports Js_Prelude "HOL-Library.Multiset"
begin

text \<open>
  The queue of sessions to be continued (session/queue.ts) and its lanes (session/lane-policy.ts). The
  storage under a lane is a map from sessions to entries, in the order it is listed; the entry under the
  older key is kept beside it. A priority and its lane have the same three names.
\<close>

section \<open>Lanes\<close>

datatype run_lane = Critical_lane | Normal_lane | Background_lane

record lane_config =
  lc_name :: run_lane
  lc_concurrencyCap :: nat
  lc_priorityRank :: nat

fun LANE_CONFIGS :: "run_lane \<Rightarrow> lane_config" where
  "LANE_CONFIGS Critical_lane = \<lparr>lc_name = Critical_lane, lc_concurrencyCap = 2, lc_priorityRank = 0\<rparr>"
| "LANE_CONFIGS Normal_lane = \<lparr>lc_name = Normal_lane, lc_concurrencyCap = 4, lc_priorityRank = 1\<rparr>"
| "LANE_CONFIGS Background_lane = \<lparr>lc_name = Background_lane, lc_concurrencyCap = 2, lc_priorityRank = 2\<rparr>"

definition LANES_BY_PRIORITY :: "run_lane list" where
  "LANES_BY_PRIORITY = [Critical_lane, Normal_lane, Background_lane]"

fun triggerPriorityToLane :: "run_lane \<Rightarrow> run_lane" where
  "triggerPriorityToLane Critical_lane = Critical_lane"
| "triggerPriorityToLane Normal_lane = Normal_lane"
| "triggerPriorityToLane Background_lane = Background_lane"

definition laneHasCapacity :: "run_lane \<Rightarrow> nat \<Rightarrow> bool" where
  "laneHasCapacity lane currentInFlight \<longleftrightarrow> currentInFlight < lc_concurrencyCap (LANE_CONFIGS lane)"

definition totalConcurrencyCap :: nat where
  "totalConcurrencyCap = sum_list (map (\<lambda>l. lc_concurrencyCap (LANE_CONFIGS l)) LANES_BY_PRIORITY)"

section \<open>The queue\<close>

datatype pending_reason = For_todo_pending | For_todo_in_progress

record pending_info =
  pi_sessionID :: string
  pi_messageID :: string
  pi_createdAt :: int
  pi_roundCount :: nat
  pi_reason :: pending_reason
  pi_text :: string

record run_entry = pending_info +
  re_id :: string
  re_lane :: run_lane
  re_triggerType :: string
  re_enqueuedAt :: int

record run_queue =
  rq_lanes :: "run_lane \<Rightarrow> (string, run_entry) jmap"
  rq_legacy :: "(string, pending_info) jmap"

definition empty_queue :: run_queue where
  "empty_queue = \<lparr>rq_lanes = (\<lambda>_. []), rq_legacy = []\<rparr>"

fun show_base36 :: "nat \<Rightarrow> string" where
  "show_base36 n =
     (let d = (\<lambda>k. if k < 10 then char_of (48 + k) else char_of (87 + k)) in
      if n < 36 then [d n] else show_base36 (n div 36) @ [d (n mod 36)])"

declare show_base36.simps [simp del]

definition last_chars :: "nat \<Rightarrow> string \<Rightarrow> string" where
  "last_chars k s = drop (length s - k) s"

definition valid_ids :: "pending_info \<Rightarrow> bool" where
  "valid_ids p \<longleftrightarrow> js_starts_with (pi_sessionID p) ''ses'' \<and> js_starts_with (pi_messageID p) ''msg''"

definition queue_remove :: "string \<Rightarrow> run_queue \<Rightarrow> run_queue" where
  "queue_remove sid q = \<lparr>rq_lanes = (\<lambda>l. jdel (rq_lanes q l) sid), rq_legacy = jdel (rq_legacy q) sid\<rparr>"

definition make_entry :: "pending_info \<Rightarrow> string \<Rightarrow> run_lane \<Rightarrow> nat \<Rightarrow> run_entry" where
  "make_entry p triggerType priority now =
     \<lparr>pi_sessionID = pi_sessionID p, pi_messageID = pi_messageID p, pi_createdAt = pi_createdAt p,
      pi_roundCount = pi_roundCount p, pi_reason = pi_reason p, pi_text = pi_text p,
      re_id = ''qe_'' @ show_base36 now @ ''_'' @ last_chars 6 (pi_sessionID p),
      re_lane = triggerPriorityToLane priority, re_triggerType = triggerType, re_enqueuedAt = int now\<rparr>"

text \<open>The session's entry is removed before the new one is validated; \<open>None\<close> when that throws.\<close>

definition queue_enqueue ::
  "pending_info \<Rightarrow> string \<Rightarrow> run_lane \<Rightarrow> nat \<Rightarrow> run_queue \<Rightarrow> run_entry option \<times> run_queue" where
  "queue_enqueue p triggerType priority now q =
     (let q1 = queue_remove (pi_sessionID p) q; entry = make_entry p triggerType priority now in
      if \<not> valid_ids p then (None, q1)
      else (Some entry,
        \<lparr>rq_lanes = (rq_lanes q1)(re_lane entry := jset (rq_lanes q1 (re_lane entry)) (pi_sessionID p) entry),
         rq_legacy = jset (rq_legacy q1) (pi_sessionID p) p\<rparr>))"

definition queue_peek :: "string \<Rightarrow> run_queue \<Rightarrow> run_entry option" where
  "queue_peek sid q =
     foldr (\<lambda>l found. case jget (rq_lanes q l) sid of Some e \<Rightarrow> Some e | None \<Rightarrow> found) LANES_BY_PRIORITY None"

definition listLane :: "run_lane \<Rightarrow> run_queue \<Rightarrow> run_entry list" where
  "listLane l q = sort_key pi_createdAt (map snd (rq_lanes q l))"

definition queue_listAll :: "run_queue \<Rightarrow> run_entry list" where
  "queue_listAll q = concat (map (\<lambda>l. listLane l q) LANES_BY_PRIORITY)"

fun drain_entries :: "nat \<Rightarrow> nat \<Rightarrow> run_lane \<Rightarrow> run_entry list \<Rightarrow> run_entry list \<Rightarrow> run_entry list" where
  "drain_entries maxCount toTake lane [] picked = picked"
| "drain_entries maxCount toTake lane (e # es) picked =
     (if maxCount \<le> length picked then picked
      else if list_ex (\<lambda>p. pi_sessionID p = pi_sessionID e) picked then drain_entries maxCount toTake lane es picked
      else if toTake \<le> length (filter (\<lambda>p. re_lane p = lane) picked) then picked
      else drain_entries maxCount toTake lane es (picked @ [e]))"

definition drain_lane ::
  "nat \<Rightarrow> (run_lane \<Rightarrow> nat) \<Rightarrow> string option \<Rightarrow> run_queue \<Rightarrow> run_lane \<Rightarrow> run_entry list \<Rightarrow> run_entry list" where
  "drain_lane maxCount inFlight preferredSessionID q lane picked =
     (if maxCount \<le> length picked then picked
      else if \<not> laneHasCapacity lane (inFlight lane) then picked
      else
        let entries = listLane lane q;
            capacity = lc_concurrencyCap (LANE_CONFIGS lane) - inFlight lane;
            toTake = min (length entries) (min capacity (maxCount - length picked));
            picked1 = (if truthy preferredSessionID
                       then (case List.find (\<lambda>e. pi_sessionID e = the preferredSessionID) entries of
                               None \<Rightarrow> picked
                             | Some p \<Rightarrow> if length picked < maxCount then picked @ [p] else picked)
                       else picked)
        in drain_entries maxCount toTake lane entries picked1)"

definition queue_drain :: "nat \<Rightarrow> (run_lane \<Rightarrow> nat) \<Rightarrow> string option \<Rightarrow> run_queue \<Rightarrow> run_entry list" where
  "queue_drain maxCount inFlight preferredSessionID q =
     fold (drain_lane maxCount inFlight preferredSessionID q) LANES_BY_PRIORITY []"

definition countByLane :: "run_queue \<Rightarrow> run_lane \<Rightarrow> nat" where
  "countByLane q l = length (rq_lanes q l)"

section \<open>One entry for every session\<close>

text \<open>A session is in one lane at most, under its own name and in the lane its entry says, and the older
  key holds the same data.\<close>

definition queue_ok :: "run_queue \<Rightarrow> bool" where
  "queue_ok q \<longleftrightarrow>
     (\<forall>l. distinct (jkeys (rq_lanes q l))) \<and>
     (\<forall>l sid e. jget (rq_lanes q l) sid = Some e \<longrightarrow>
        pi_sessionID e = sid \<and> re_lane e = l \<and> jget (rq_legacy q) sid = Some (pending_info.truncate e)) \<and>
     (\<forall>l l' sid. jget (rq_lanes q l) sid \<noteq> None \<longrightarrow> jget (rq_lanes q l') sid \<noteq> None \<longrightarrow> l = l') \<and>
     (\<forall>sid. jget (rq_legacy q) sid \<noteq> None \<longrightarrow> (\<exists>l. jget (rq_lanes q l) sid \<noteq> None))"

lemma queue_ok_empty: "queue_ok empty_queue"
  by (simp add: queue_ok_def empty_queue_def)

lemma peek_remove: "queue_peek sid (queue_remove sid q) = None"
  by (simp add: queue_peek_def queue_remove_def LANES_BY_PRIORITY_def jget_jdel)

lemma lanes_remove: "jget (rq_lanes (queue_remove sid q) l) s = (if s = sid then None else jget (rq_lanes q l) s)"
  by (simp add: queue_remove_def jget_jdel)

lemma legacy_remove: "jget (rq_legacy (queue_remove sid q)) s = (if s = sid then None else jget (rq_legacy q) s)"
  by (simp add: queue_remove_def jget_jdel)

lemma queue_ok_remove:
  assumes "queue_ok q"
  shows "queue_ok (queue_remove sid q)"
proof -
  have "distinct (jkeys (rq_lanes (queue_remove sid q) l))" for l
    using assms by (simp add: queue_ok_def queue_remove_def distinct_delete)
  then show ?thesis
    using assms unfolding queue_ok_def lanes_remove legacy_remove by (simp del: map_of_eq_Some_iff)
qed

lemma lanes_enqueue:
  "valid_ids p \<Longrightarrow> jget (rq_lanes (snd (queue_enqueue p trig prio now q)) l) s =
     (if s = pi_sessionID p then (if l = re_lane (make_entry p trig prio now) then Some (make_entry p trig prio now) else None)
      else jget (rq_lanes q l) s)"
  by (auto simp: queue_enqueue_def Let_def jget_jset lanes_remove)

lemma legacy_enqueue:
  "valid_ids p \<Longrightarrow> jget (rq_legacy (snd (queue_enqueue p trig prio now q))) s =
     (if s = pi_sessionID p then Some p else jget (rq_legacy q) s)"
  by (simp add: queue_enqueue_def Let_def jget_jset legacy_remove)

lemma queue_ok_enqueue:
  assumes "queue_ok q"
  shows "queue_ok (snd (queue_enqueue p trig prio now q))"
proof (cases "valid_ids p")
  case False
  then show ?thesis using queue_ok_remove [OF assms] by (simp add: queue_enqueue_def Let_def)
next
  case True
  let ?q = "snd (queue_enqueue p trig prio now q)"
  have e: "pi_sessionID (make_entry p trig prio now) = pi_sessionID p"
    "pending_info.truncate (make_entry p trig prio now) = p"
    by (simp_all add: make_entry_def pending_info.truncate_def)
  have "distinct (jkeys (rq_lanes ?q l))" for l
    using queue_ok_remove [OF assms, of "pi_sessionID p"] True
    by (simp add: queue_ok_def queue_enqueue_def Let_def distinct_update)
  moreover have "pi_sessionID x = s \<and> re_lane x = l \<and> jget (rq_legacy ?q) s = Some (pending_info.truncate x)"
    if "jget (rq_lanes ?q l) s = Some x" for l s x
    using that assms e unfolding lanes_enqueue [OF True] legacy_enqueue [OF True] queue_ok_def
    by (auto split: if_splits simp del: map_of_eq_Some_iff)
  moreover have "l = l'" if "jget (rq_lanes ?q l) s \<noteq> None" "jget (rq_lanes ?q l') s \<noteq> None" for l l' s
    using that assms unfolding lanes_enqueue [OF True] queue_ok_def by (metis (full_types))
  moreover have "\<exists>l. jget (rq_lanes ?q l) s \<noteq> None" if "jget (rq_legacy ?q) s \<noteq> None" for s
    using that assms unfolding lanes_enqueue [OF True] legacy_enqueue [OF True] queue_ok_def
    by (cases "s = pi_sessionID p") auto
  ultimately show ?thesis unfolding queue_ok_def by blast
qed

text \<open>The queues that any sequence of operations makes.\<close>

inductive queue_reach :: "run_queue \<Rightarrow> bool" where
  Queue_empty: "queue_reach empty_queue"
| Queue_enqueue: "queue_reach q \<Longrightarrow> queue_reach (snd (queue_enqueue p trig prio now q))"
| Queue_remove: "queue_reach q \<Longrightarrow> queue_reach (queue_remove sid q)"

lemma queue_reach_ok: "queue_reach q \<Longrightarrow> queue_ok q"
  by (induction rule: queue_reach.induct) (simp_all add: queue_ok_empty queue_ok_enqueue queue_ok_remove)

section \<open>What a drain picks\<close>

lemma drain_entries_set:
  "set picked \<subseteq> set (drain_entries m t lane es picked) \<and> set (drain_entries m t lane es picked) \<subseteq> set picked \<union> set es"
  by (induction m t lane es picked rule: drain_entries.induct) auto

lemma drain_entries_length: "length picked \<le> m \<Longrightarrow> length (drain_entries m t lane es picked) \<le> m"
  by (induction m t lane es picked rule: drain_entries.induct) auto

lemma drain_entries_distinct:
  "distinct (map pi_sessionID picked) \<Longrightarrow> distinct (map pi_sessionID (drain_entries m t lane es picked))"
  by (induction m t lane es picked rule: drain_entries.induct) (simp_all add: list_ex_iff image_iff, metis)

definition of_lane :: "run_lane \<Rightarrow> run_entry list \<Rightarrow> run_entry list" where
  "of_lane l es = filter (\<lambda>e. re_lane e = l) es"

lemma drain_entries_count:
  "length (of_lane lane picked) \<le> t \<Longrightarrow> length (of_lane lane (drain_entries m t lane es picked)) \<le> t"
  by (induction m t lane es picked rule: drain_entries.induct) (auto simp: of_lane_def)

lemma drain_entries_others:
  "l \<noteq> lane \<Longrightarrow> \<forall>e\<in>set es. re_lane e = lane \<Longrightarrow> of_lane l (drain_entries m t lane es picked) = of_lane l picked"
  by (induction m t lane es picked rule: drain_entries.induct) (auto simp: of_lane_def)

lemma drain_entries_progress:
  "(\<forall>e\<in>set es. pi_sessionID e \<in> pi_sessionID ` set (drain_entries m t lane es picked)) \<or>
    m \<le> length (drain_entries m t lane es picked) \<or> t \<le> length (of_lane lane (drain_entries m t lane es picked))"
proof (induction m t lane es picked rule: drain_entries.induct)
  case (2 m t lane e es picked)
  have mono: "set ps \<subseteq> set (drain_entries m t lane es ps)" for ps
    using drain_entries_set by blast
  consider "m \<le> length picked" | "\<not> m \<le> length picked" "list_ex (\<lambda>p. pi_sessionID p = pi_sessionID e) picked"
    | "\<not> m \<le> length picked" "\<not> list_ex (\<lambda>p. pi_sessionID p = pi_sessionID e) picked" "t \<le> length (of_lane lane picked)"
    | "\<not> m \<le> length picked" "\<not> list_ex (\<lambda>p. pi_sessionID p = pi_sessionID e) picked" "\<not> t \<le> length (of_lane lane picked)"
    by blast
  then show ?case
  proof cases
    case (2)
    then obtain p where "p \<in> set picked" "pi_sessionID e = pi_sessionID p" by (auto simp: list_ex_iff)
    then have "pi_sessionID e \<in> pi_sessionID ` set (drain_entries m t lane es picked)"
      using mono [of picked] by auto
    then show ?thesis using 2 "2.IH"(1) by simp
  next
    case 4
    then have "pi_sessionID e \<in> pi_sessionID ` set (drain_entries m t lane es (picked @ [e]))"
      using mono [of "picked @ [e]"] by simp
    then show ?thesis using 4 "2.IH"(2) by (simp add: of_lane_def)
  qed (simp_all add: of_lane_def)
qed simp



section \<open>Draining\<close>

lemma queue_ok_entry:
  assumes "queue_ok q" "x \<in> set (rq_lanes q l)"
  shows "pi_sessionID (snd x) = fst x \<and> re_lane (snd x) = l \<and> jget (rq_lanes q l) (fst x) = Some (snd x)"
proof -
  have "jget (rq_lanes q l) (fst x) = Some (snd x)" using assms by (simp add: queue_ok_def)
  then show ?thesis using assms(1) unfolding queue_ok_def by blast
qed

lemma listLane_set: "set (listLane l q) = snd ` set (rq_lanes q l)"
  by (simp add: listLane_def)

lemma listLane_in:
  assumes "queue_ok q"
  shows "e \<in> set (listLane l q) \<longleftrightarrow> jget (rq_lanes q l) (pi_sessionID e) = Some e"
proof
  assume "e \<in> set (listLane l q)"
  then obtain x where "x \<in> set (rq_lanes q l)" "e = snd x" by (auto simp: listLane_set)
  then show "jget (rq_lanes q l) (pi_sessionID e) = Some e" using queue_ok_entry [OF assms, of x l] by simp
next
  assume "jget (rq_lanes q l) (pi_sessionID e) = Some e"
  then have "(pi_sessionID e, e) \<in> set (rq_lanes q l)" by (rule map_of_SomeD)
  then show "e \<in> set (listLane l q)" by (force simp: listLane_set)
qed

lemma listLane_lane: "queue_ok q \<Longrightarrow> e \<in> set (listLane l q) \<Longrightarrow> re_lane e = l"
  using queue_ok_entry by (auto simp: listLane_set)

lemma listLane_distinct:
  assumes "queue_ok q"
  shows "distinct (map pi_sessionID (listLane l q))"
proof -
  have keys: "map (pi_sessionID \<circ> snd) (rq_lanes q l) = jkeys (rq_lanes q l)"
    using queue_ok_entry [OF assms, of _ l] by simp
  have "distinct (map pi_sessionID (map snd (rq_lanes q l)))"
    unfolding list.map_comp keys using assms by (simp add: queue_ok_def)
  moreover have "mset (map pi_sessionID (listLane l q)) = mset (map pi_sessionID (map snd (rq_lanes q l)))"
    by (simp add: listLane_def multiset.map_comp)
  ultimately show ?thesis by (metis mset_eq_imp_distinct_iff)
qed

text \<open>What holds of the entries picked from the lanes before.\<close>

definition drain_ok :: "nat \<Rightarrow> (run_lane \<Rightarrow> nat) \<Rightarrow> run_queue \<Rightarrow> run_entry list \<Rightarrow> bool" where
  "drain_ok m inFlight q picked \<longleftrightarrow>
     distinct (map pi_sessionID picked) \<and> length picked \<le> m \<and>
     (\<forall>e\<in>set picked. e \<in> set (listLane (re_lane e) q)) \<and>
     (\<forall>l. length (of_lane l picked) \<le> lc_concurrencyCap (LANE_CONFIGS l) - inFlight l)"

definition lane_done :: "nat \<Rightarrow> (run_lane \<Rightarrow> nat) \<Rightarrow> run_queue \<Rightarrow> run_lane \<Rightarrow> run_entry list \<Rightarrow> bool" where
  "lane_done m inFlight q l picked \<longleftrightarrow>
     set (listLane l q) \<subseteq> set picked \<or> length picked = m \<or>
     length (of_lane l picked) = lc_concurrencyCap (LANE_CONFIGS l) - inFlight l"

text \<open>The entries a lane starts from: those picked before and the preferred one, when it is in the lane.\<close>

definition drain_start :: "string option \<Rightarrow> nat \<Rightarrow> run_entry list \<Rightarrow> run_entry list \<Rightarrow> run_entry list" where
  "drain_start pref m entries picked =
     (if truthy pref
      then (case List.find (\<lambda>e. pi_sessionID e = the pref) entries of
              None \<Rightarrow> picked
            | Some p \<Rightarrow> if length picked < m then picked @ [p] else picked)
      else picked)"

lemma drain_start_cases:
  "drain_start pref m entries picked = picked \<or>
   (\<exists>p. p \<in> set entries \<and> length picked < m \<and> drain_start pref m entries picked = picked @ [p])"
  unfolding drain_start_def by (auto split: option.splits simp: find_Some_iff)

lemma drain_start_ok:
  assumes q: "queue_ok q" and ok: "drain_ok m inFlight q picked" and none: "of_lane lane picked = []"
    and cap: "inFlight lane < lc_concurrencyCap (LANE_CONFIGS lane)"
  shows "drain_ok m inFlight q (drain_start pref m (listLane lane q) picked) \<and>
    length (of_lane lane (drain_start pref m (listLane lane q) picked))
      \<le> min (length (listLane lane q)) (min (lc_concurrencyCap (LANE_CONFIGS lane) - inFlight lane) (m - length picked)) \<and>
    (\<forall>l. l \<noteq> lane \<longrightarrow> of_lane l (drain_start pref m (listLane lane q) picked) = of_lane l picked)"
  using drain_start_cases [of pref m "listLane lane q" picked]
proof (elim disjE exE conjE)
  assume "drain_start pref m (listLane lane q) picked = picked"
  then show ?thesis using ok none by simp
next
  fix p assume p: "p \<in> set (listLane lane q)" "length picked < m"
    and start: "drain_start pref m (listLane lane q) picked = picked @ [p]"
  have lane: "re_lane p = lane" using listLane_lane [OF q p(1)] .
  have fresh: "pi_sessionID p \<notin> pi_sessionID ` set picked"
  proof
    assume "pi_sessionID p \<in> pi_sessionID ` set picked"
    then obtain e where e: "e \<in> set picked" "pi_sessionID e = pi_sessionID p" by auto
    then have "e \<in> set (listLane (re_lane e) q)" using ok by (simp add: drain_ok_def)
    then have "re_lane e = lane"
      using q p(1) e(2) unfolding listLane_in [OF q] queue_ok_def by (metis option.distinct(1))
    then show False using none e(1) by (auto simp: of_lane_def filter_empty_conv)
  qed
  have "Suc 0 \<le> length (listLane lane q)" using p(1) by (cases "listLane lane q") auto
  then show ?thesis
    unfolding start using ok fresh lane p none cap by (auto simp: drain_ok_def of_lane_def)
qed

lemma drain_lane_ok:
  fixes pref :: "string option"
  assumes q: "queue_ok q" and ok: "drain_ok m inFlight q picked" and none: "of_lane lane picked = []"
  defines "res \<equiv> drain_lane m inFlight pref q lane picked"
  shows "drain_ok m inFlight q res \<and> lane_done m inFlight q lane res \<and> set picked \<subseteq> set res \<and>
    (\<forall>l. l \<noteq> lane \<longrightarrow> of_lane l res = of_lane l picked) \<and> (length picked = m \<longrightarrow> res = picked)"
proof (cases "m \<le> length picked \<or> \<not> inFlight lane < lc_concurrencyCap (LANE_CONFIGS lane)")
  case True
  then have "res = picked" by (auto simp: res_def drain_lane_def laneHasCapacity_def)
  then show ?thesis using True ok none by (auto simp: lane_done_def drain_ok_def)
next
  case False
  define t where "t = min (length (listLane lane q))
    (min (lc_concurrencyCap (LANE_CONFIGS lane) - inFlight lane) (m - length picked))"
  define start where "start = drain_start pref m (listLane lane q) picked"
  have res: "res = drain_entries m t lane (listLane lane q) start"
    using False by (simp add: res_def drain_lane_def laneHasCapacity_def Let_def t_def start_def drain_start_def)
  have s: "drain_ok m inFlight q start" "length (of_lane lane start) \<le> t"
    "\<forall>l. l \<noteq> lane \<longrightarrow> of_lane l start = of_lane l picked"
    using drain_start_ok [where pref = pref and lane = lane, OF q ok none] False by (auto simp: t_def start_def)
  have sub: "set picked \<subseteq> set start" using drain_start_cases [of pref m "listLane lane q" picked] by (auto simp: start_def)
  have lanes: "\<forall>e\<in>set (listLane lane q). re_lane e = lane" using listLane_lane [OF q] by blast
  have grow: "set start \<subseteq> set res" "set res \<subseteq> set start \<union> set (listLane lane q)"
    using drain_entries_set unfolding res by blast+
  have others: "of_lane l res = of_lane l picked" if "l \<noteq> lane" for l
    using drain_entries_others [OF that lanes, of m t start] s(3) that unfolding res by simp
  have count: "length (of_lane lane res) \<le> t" using drain_entries_count [OF s(2)] unfolding res .
  have dist: "distinct (map pi_sessionID res)"
    using drain_entries_distinct s(1) unfolding res drain_ok_def by blast
  have len: "length res \<le> m" using drain_entries_length s(1) unfolding res drain_ok_def by blast
  have member: "e \<in> set (listLane (re_lane e) q)" if "e \<in> set res" for e
    using that grow(2) s(1) lanes unfolding drain_ok_def by auto
  have cap: "length (of_lane l res) \<le> lc_concurrencyCap (LANE_CONFIGS l) - inFlight l" for l
    using count others [of l] ok by (cases "l = lane") (auto simp: t_def drain_ok_def)
  have "lane_done m inFlight q lane res"
    using drain_entries_progress [of "listLane lane q" m t lane start] unfolding res [symmetric]
  proof (elim disjE)
    assume all: "\<forall>e\<in>set (listLane lane q). pi_sessionID e \<in> pi_sessionID ` set res"
    have "e \<in> set res" if e: "e \<in> set (listLane lane q)" for e
    proof -
      obtain x where x: "x \<in> set res" "pi_sessionID x = pi_sessionID e" using all e by force
      have "x = e"
        using member [OF x(1)] e x(2) q unfolding listLane_in [OF q] queue_ok_def by (metis option.distinct(1) option.inject)
      then show ?thesis using x(1) by simp
    qed
    then show ?thesis by (auto simp: lane_done_def)
  next
    assume "m \<le> length res" then show ?thesis using len by (simp add: lane_done_def)
  next
    assume t: "t \<le> length (of_lane lane res)"
    have d: "distinct res" "distinct picked" using dist ok by (simp_all add: distinct_map drain_ok_def)
    have sub1: "set (of_lane lane res) \<subseteq> set (listLane lane q)"
      using member by (auto simp: of_lane_def)
    have card1: "card (set (of_lane lane res)) = length (of_lane lane res)"
      using d(1) by (intro distinct_card) (simp add: of_lane_def)
    have "set picked \<inter> set (of_lane lane res) = {}" using none by (auto simp: of_lane_def filter_empty_conv)
    moreover have "set picked \<union> set (of_lane lane res) \<subseteq> set res" using sub grow(1) by (auto simp: of_lane_def)
    ultimately have "length picked + length (of_lane lane res) \<le> length res"
      using card_mono [of "set res" "set picked \<union> set (of_lane lane res)"] card1 d
      by (simp add: card_Un_disjoint distinct_card)
    moreover have "set (listLane lane q) \<subseteq> set res" if "length (listLane lane q) \<le> length (of_lane lane res)"
    proof -
      have "set (of_lane lane res) = set (listLane lane q)"
        using card_seteq [OF _ sub1] card_length [of "listLane lane q"] card1 that by simp
      then show ?thesis by (auto simp: of_lane_def)
    qed
    ultimately show ?thesis using t len cap [of lane] by (auto simp: t_def lane_done_def min_le_iff_disj)
  qed
  then show ?thesis
    using dist len member cap others grow sub False by (auto simp: drain_ok_def)
qed

lemma lane_done_later:
  assumes "queue_ok q" "drain_ok m inFlight q picked" "of_lane lane picked = []" "l \<noteq> lane" "lane_done m inFlight q l picked"
  shows "lane_done m inFlight q l (drain_lane m inFlight pref q lane picked)"
  using drain_lane_ok [OF assms(1-3), of pref] assms(4,5) by (auto simp: lane_done_def)

text \<open>
  C12 (liveness): A drain picks entries of the queue, at most as many as asked, no session twice, and in no lane more
  than its free places; a session of a lane is left only when the number asked is reached or the lane's
  places are all taken.
\<close>

theorem drain_fills_lanes:
  assumes "queue_reach q"
  shows "distinct (map pi_sessionID (queue_drain m inFlight pref q)) \<and> length (queue_drain m inFlight pref q) \<le> m \<and>
    set (queue_drain m inFlight pref q) \<subseteq> set (queue_listAll q) \<and>
    length (filter (\<lambda>e. re_lane e = l) (queue_drain m inFlight pref q)) \<le> lc_concurrencyCap (LANE_CONFIGS l) - inFlight l \<and>
    (set (listLane l q) \<subseteq> set (queue_drain m inFlight pref q) \<or> length (queue_drain m inFlight pref q) = m \<or>
     length (filter (\<lambda>e. re_lane e = l) (queue_drain m inFlight pref q)) = lc_concurrencyCap (LANE_CONFIGS l) - inFlight l)"
proof -
  have q: "queue_ok q" using queue_reach_ok [OF assms] .
  define a where "a = drain_lane m inFlight pref q Critical_lane []"
  define b where "b = drain_lane m inFlight pref q Normal_lane a"
  define c where "c = drain_lane m inFlight pref q Background_lane b"
  have c: "queue_drain m inFlight pref q = c"
    by (simp add: queue_drain_def LANES_BY_PRIORITY_def a_def b_def c_def)
  have "drain_ok m inFlight q []" by (simp add: drain_ok_def of_lane_def)
  note A = drain_lane_ok [OF q this, of Critical_lane pref, folded a_def]
  have A: "drain_ok m inFlight q a" "lane_done m inFlight q Critical_lane a"
    "of_lane Normal_lane a = []" "of_lane Background_lane a = []"
    using A by (simp_all add: of_lane_def)
  note B = drain_lane_ok [OF q A(1) A(3), of pref, folded b_def]
  have B: "drain_ok m inFlight q b" "lane_done m inFlight q Normal_lane b" "of_lane Background_lane b = []"
    "lane_done m inFlight q Critical_lane b"
    using B A(4) lane_done_later [OF q A(1) A(3) _ A(2), of pref, folded b_def] by simp_all
  note C = drain_lane_ok [OF q B(1) B(3), of pref, folded c_def]
  have "lane_done m inFlight q l c"
    using C lane_done_later [OF q B(1) B(3) _ B(2), of pref, folded c_def]
      lane_done_later [OF q B(1) B(3) _ B(4), of pref, folded c_def] by (cases l) simp_all
  moreover have "drain_ok m inFlight q c" using C by blast
  moreover have "set (listLane l' q) \<subseteq> set (queue_listAll q)" for l'
    by (cases l') (auto simp: queue_listAll_def LANES_BY_PRIORITY_def)
  ultimately show ?thesis
    unfolding c drain_ok_def lane_done_def of_lane_def by blast
qed

theorem drain_fills_lanes_witness:
  "length (queue_drain 1 (\<lambda>_. 0) None (snd (queue_enqueue
      \<lparr>pi_sessionID = ''ses1'', pi_messageID = ''msg1'', pi_createdAt = 5, pi_roundCount = 0, pi_reason = For_todo_pending, pi_text = ''go''\<rparr>
      ''continuation'' Critical_lane 5 empty_queue))) \<le> 1"
  using drain_fills_lanes [OF Queue_enqueue [OF Queue_empty, where trig = "''continuation''" and prio = Critical_lane and now = 5
      and p = "\<lparr>pi_sessionID = ''ses1'', pi_messageID = ''msg1'', pi_createdAt = 5, pi_roundCount = 0, pi_reason = For_todo_pending, pi_text = ''go''\<rparr>"],
      where m = 1 and inFlight = "\<lambda>_. 0" and pref = None and l = Critical_lane]
  by blast

text \<open>
  The session's entry is removed before the new one is checked, so an entry whose message name is not
  valid is refused and takes the entry that was queued with it.
\<close>

theorem refused_entry_drops_queued:
  "let queued = snd (queue_enqueue
        \<lparr>pi_sessionID = ''ses1'', pi_messageID = ''msg1'', pi_createdAt = 5, pi_roundCount = 0, pi_reason = For_todo_pending, pi_text = ''go''\<rparr>
        ''continuation'' Normal_lane 5 empty_queue);
       refused = queue_enqueue
        \<lparr>pi_sessionID = ''ses1'', pi_messageID = ''m2'', pi_createdAt = 6, pi_roundCount = 0, pi_reason = For_todo_pending, pi_text = ''go''\<rparr>
        ''continuation'' Normal_lane 6 queued
   in queue_peek ''ses1'' queued \<noteq> None \<and> fst refused = None \<and> queue_peek ''ses1'' (snd refused) = None"
proof -
  have ok: "valid_ids \<lparr>pi_sessionID = ''ses1'', pi_messageID = ''msg1'', pi_createdAt = 5, pi_roundCount = 0, pi_reason = For_todo_pending, pi_text = ''go''\<rparr>"
    by code_simp
  have bad: "\<not> valid_ids \<lparr>pi_sessionID = ''ses1'', pi_messageID = ''m2'', pi_createdAt = 6, pi_roundCount = 0, pi_reason = For_todo_pending, pi_text = ''go''\<rparr>"
    by code_simp
  have "queue_peek ''ses1'' (snd (queue_enqueue
      \<lparr>pi_sessionID = ''ses1'', pi_messageID = ''msg1'', pi_createdAt = 5, pi_roundCount = 0, pi_reason = For_todo_pending, pi_text = ''go''\<rparr>
      ''continuation'' Normal_lane 5 empty_queue)) \<noteq> None"
    using ok by (simp add: queue_peek_def LANES_BY_PRIORITY_def lanes_enqueue make_entry_def split: option.split)
  then show ?thesis using bad by (simp add: Let_def queue_enqueue_def peek_remove)
qed

end
