(* ===== verification/Workflow_Policy.thy ===== *)
theory Workflow_Policy
  imports Error_Classifier Todo Run_Queue "HOL-Library.Product_Lexorder"
begin

text \<open>
  The decisions of the workflow runner (session/workflow-runner.ts, trigger.ts) over the workflow of a session
  (session/index.ts): its health, whether a queued continuation may be resumed, how a failed resume is
  classified and when it is tried again, which continuations are picked, and what an autonomous session does
  next. A session is a record of the fields that are read here.
\<close>

section \<open>The workflow of a session\<close>

record autonomous_policy =
  pol_enabled :: bool
  pol_maxContinuousRounds :: "nat option"
  pol_stopOnTestsFail :: "bool option"
  pol_requireApprovalFor :: "string list option"

datatype workflow_state =
  Workflow_idle | Workflow_running | Workflow_waiting_user | Workflow_blocked | Workflow_completed

record wf_supervisor =
  ws_leaseOwner :: "string option"
  ws_leaseExpiresAt :: "int option"
  ws_retryAt :: "int option"
  ws_consecutiveResumeFailures :: "nat option"
  ws_lastResumeCategory :: "string option"
  ws_lastResumeError :: "string option"

record workflow_info =
  wf_autonomous :: autonomous_policy
  wf_state :: workflow_state
  wf_stopReason :: "string option"
  wf_updatedAt :: int
  wf_lastRunAt :: "int option"
  wf_supervisor :: "wf_supervisor option"
  wf_freerunOverride :: "bool option"

record wf_session =
  se_parentID :: "string option"
  se_directory :: string
  se_scheduled :: bool
  se_updated :: int
  se_workflow :: "workflow_info option"

definition isDormantScheduled :: "wf_session \<Rightarrow> bool" where
  "isDormantScheduled session \<longleftrightarrow> se_scheduled session"

definition empty_supervisor :: wf_supervisor where
  "empty_supervisor = \<lparr>ws_leaseOwner = None, ws_leaseExpiresAt = None, ws_retryAt = None,
     ws_consecutiveResumeFailures = None, ws_lastResumeCategory = None, ws_lastResumeError = None\<rparr>"

definition defaultWorkflow :: "int \<Rightarrow> workflow_info" where
  "defaultWorkflow now =
     \<lparr>wf_autonomous = \<lparr>pol_enabled = False, pol_maxContinuousRounds = None, pol_stopOnTestsFail = Some True,
        pol_requireApprovalFor = Some [''push'', ''destructive'']\<rparr>,
      wf_state = Workflow_waiting_user, wf_stopReason = None, wf_updatedAt = now, wf_lastRunAt = None,
      wf_supervisor = Some empty_supervisor, wf_freerunOverride = None\<rparr>"

record policy_patch =
  pp_enabled :: "bool option"
  pp_maxContinuousRounds :: "nat option"
  pp_stopOnTestsFail :: "bool option"
  pp_requireApprovalFor :: "string list option"

definition mergeAutonomousPolicy :: "autonomous_policy option \<Rightarrow> policy_patch \<Rightarrow> autonomous_policy" where
  "mergeAutonomousPolicy current patch =
     (let base = (case current of Some p \<Rightarrow> p | None \<Rightarrow> wf_autonomous (defaultWorkflow 0)) in
      \<lparr>pol_enabled = (case pp_enabled patch of Some b \<Rightarrow> b | None \<Rightarrow> pol_enabled base),
       pol_maxContinuousRounds = nullish (pp_maxContinuousRounds patch) (pol_maxContinuousRounds base),
       pol_stopOnTestsFail = nullish (pp_stopOnTestsFail patch) (pol_stopOnTestsFail base),
       pol_requireApprovalFor = nullish (pp_requireApprovalFor patch) (pol_requireApprovalFor base)\<rparr>)"

text \<open>An update of a session that does not exist fails, and every caller here ignores the failure. A patch of the
  supervisor is the update of the record it stands for.\<close>

type_synonym session_map = "(string, wf_session) jmap"

definition session_workflow :: "wf_session \<Rightarrow> workflow_info" where
  "session_workflow s = (case se_workflow s of Some w \<Rightarrow> w | None \<Rightarrow> defaultWorkflow (se_updated s))"

definition update_workflow :: "string \<Rightarrow> (workflow_info \<Rightarrow> workflow_info) \<Rightarrow> session_map \<Rightarrow> session_map" where
  "update_workflow sid f ss =
     (case jget ss sid of
        None \<Rightarrow> ss
      | Some s \<Rightarrow> jset ss sid (s\<lparr>se_workflow := Some (f (session_workflow s))\<rparr>))"

definition setWorkflowState ::
  "string \<Rightarrow> workflow_state \<Rightarrow> string option \<Rightarrow> int option \<Rightarrow> int \<Rightarrow> session_map \<Rightarrow> session_map" where
  "setWorkflowState sid state stopReason lastRunAt now =
     update_workflow sid (\<lambda>current.
       current\<lparr>wf_state := state, wf_stopReason := stopReason,
         wf_lastRunAt := nullish lastRunAt (wf_lastRunAt current), wf_updatedAt := now\<rparr>)"

definition updateFreerunOverride :: "string \<Rightarrow> bool option \<Rightarrow> int \<Rightarrow> session_map \<Rightarrow> session_map" where
  "updateFreerunOverride sid override now =
     update_workflow sid (\<lambda>current. current\<lparr>wf_freerunOverride := override, wf_updatedAt := now\<rparr>)"

definition updateAutonomous :: "string \<Rightarrow> policy_patch \<Rightarrow> int \<Rightarrow> session_map \<Rightarrow> session_map" where
  "updateAutonomous sid patch now =
     update_workflow sid (\<lambda>current.
       current\<lparr>wf_autonomous := mergeAutonomousPolicy (Some (wf_autonomous current)) patch, wf_updatedAt := now\<rparr>)"

datatype supervisor_key =
  Lease_owner | Lease_expires | Retry_at | Resume_failures | Resume_category | Resume_error

fun clear_key :: "supervisor_key \<Rightarrow> wf_supervisor \<Rightarrow> wf_supervisor" where
  "clear_key Lease_owner s = s\<lparr>ws_leaseOwner := None\<rparr>"
| "clear_key Lease_expires s = s\<lparr>ws_leaseExpiresAt := None\<rparr>"
| "clear_key Retry_at s = s\<lparr>ws_retryAt := None\<rparr>"
| "clear_key Resume_failures s = s\<lparr>ws_consecutiveResumeFailures := None\<rparr>"
| "clear_key Resume_category s = s\<lparr>ws_lastResumeCategory := None\<rparr>"
| "clear_key Resume_error s = s\<lparr>ws_lastResumeError := None\<rparr>"

definition updateWorkflowSupervisor ::
  "string \<Rightarrow> (wf_supervisor \<Rightarrow> wf_supervisor) \<Rightarrow> supervisor_key list \<Rightarrow> int \<Rightarrow> session_map \<Rightarrow> session_map" where
  "updateWorkflowSupervisor sid patch clear now =
     update_workflow sid (\<lambda>current.
       current\<lparr>wf_supervisor := Some (fold clear_key clear
           (patch (case wf_supervisor current of Some s \<Rightarrow> s | None \<Rightarrow> empty_supervisor))),
         wf_updatedAt := now\<rparr>)"

section \<open>Health\<close>

record runtime_event =
  rv_ts :: int
  rv_domain :: string
  rv_eventType :: string
  rv_anomalyFlags :: "string list"

datatype health_kind = Is_healthy | Is_queued | Is_paused | Is_degraded | Is_blocked | Is_completed

record workflow_health =
  wh_state :: workflow_state
  wh_stopReason :: "string option"
  wh_pending :: "pending_info option"
  wh_supervisor :: wf_supervisor
  wh_failures :: nat
  wh_recentCount :: nat
  wh_latest :: "runtime_event option"
  wh_flags :: "string list"
  wh_countsByType :: "(string, nat) jmap"
  wh_health :: health_kind
  wh_label :: string

fun js_unique :: "'a list \<Rightarrow> 'a list" where
  "js_unique [] = []"
| "js_unique (x # xs) = x # filter (\<lambda>y. y \<noteq> x) (js_unique xs)"

definition count_type :: "(string, nat) jmap \<Rightarrow> runtime_event \<Rightarrow> (string, nat) jmap" where
  "count_type m e =
     jset m (rv_eventType e) ((case jget m (rv_eventType e) of Some n \<Rightarrow> n | None \<Rightarrow> 0) + 1)"

definition health_summary ::
  "workflow_info \<Rightarrow> pending_info option \<Rightarrow> nat \<Rightarrow> runtime_event list \<Rightarrow> health_kind \<times> string" where
  "health_summary workflow pending failures anomalies =
     (let why = wf_stopReason workflow;
          (health, label) =
            (if wf_state workflow = Workflow_completed then (Is_completed, ''Autonomous workflow completed'')
             else if wf_state workflow = Workflow_blocked
             then (Is_blocked, if truthy why then ''Workflow blocked: '' @ the why else ''Workflow blocked'')
             else if pending \<noteq> None
             then (Is_queued, if map_option pi_reason pending = Some For_todo_in_progress
                              then ''Queued to resume current step'' else ''Queued to start next step'')
             else if wf_state workflow = Workflow_waiting_user
             then (Is_paused, if truthy why then ''Waiting: '' @ the why else ''Waiting for user'')
             else (Is_healthy, ''Autonomous runner idle''))
      in if health \<noteq> Is_blocked \<and> health \<noteq> Is_completed \<and> (failures > 0 \<or> anomalies \<noteq> [])
         then (Is_degraded,
           if anomalies \<noteq> [] \<and> rv_eventType (last anomalies) \<noteq> [] then ''Degraded: '' @ rv_eventType (last anomalies)
           else if truthy why then ''Degraded: '' @ the why else ''Degraded autonomous workflow health'')
         else (health, label))"

definition summarizeAutonomousWorkflowHealth ::
  "workflow_info option \<Rightarrow> pending_info option \<Rightarrow> runtime_event list \<Rightarrow> int \<Rightarrow> workflow_health" where
  "summarizeAutonomousWorkflowHealth flow pending events now =
     (let workflow = (case flow of Some w \<Rightarrow> w | None \<Rightarrow> defaultWorkflow now);
          anomalies = filter (\<lambda>e. rv_domain e = ''anomaly'') events;
          supervisor = (case wf_supervisor workflow of Some s \<Rightarrow> s | None \<Rightarrow> empty_supervisor);
          failures = (case ws_consecutiveResumeFailures supervisor of Some n \<Rightarrow> n | None \<Rightarrow> 0);
          summary = health_summary workflow pending failures anomalies
      in \<lparr>wh_state = wf_state workflow, wh_stopReason = wf_stopReason workflow, wh_pending = pending,
          wh_supervisor = supervisor, wh_failures = failures, wh_recentCount = length anomalies,
          wh_latest = (if anomalies = [] then None else Some (last anomalies)),
          wh_flags = js_unique (concat (map rv_anomalyFlags anomalies)),
          wh_countsByType = foldl count_type [] anomalies, wh_health = fst summary, wh_label = snd summary\<rparr>)"

section \<open>May a continuation be resumed?\<close>

datatype status_type = Status_idle | Status_busy | Status_retry

datatype block_reason =
    No_pending_continuation | In_flight | Busy_status | Retry_status | Autonomous_disabled | Blocked_workflow
  | Completed_workflow | Waiting_user_non_resumable string | Supervisor_retry_backoff | Supervisor_foreign_lease
  | Dormant_scheduled

definition NON_RESUMABLE_WAITING_REASONS :: "string list" where
  "NON_RESUMABLE_WAITING_REASONS =
     [''approval_needed'', ''product_decision_needed'', ''mission_not_approved'', ''mission_not_consumable'',
      ''max_continuous_rounds'', ''manual_interrupt'', ''risk_review_needed'']"

definition is_task_trigger :: "string option \<Rightarrow> bool" where
  "is_task_trigger t \<longleftrightarrow> t = Some ''task_completion'' \<or> t = Some ''task_failure''"

definition health_block :: "workflow_health \<Rightarrow> block_reason list" where
  "health_block h =
     (if wh_state h = Workflow_blocked then [Blocked_workflow] else []) @
     (if wh_state h = Workflow_completed then [Completed_workflow] else []) @
     (let why = (case wh_stopReason h of Some r \<Rightarrow> r | None \<Rightarrow> []) in
      if wh_state h = Workflow_waiting_user \<and> why \<in> set NON_RESUMABLE_WAITING_REASONS
      then [Waiting_user_non_resumable why] else [])"

definition or_zero :: "int option \<Rightarrow> int" where
  "or_zero x = (case x of Some n \<Rightarrow> n | None \<Rightarrow> 0)"

definition inspectPendingContinuationResumability ::
  "wf_session \<Rightarrow> status_type \<Rightarrow> bool \<Rightarrow> workflow_health option \<Rightarrow> string option \<Rightarrow> int \<Rightarrow> string option \<Rightarrow>
   block_reason list \<times> workflow_health" where
  "inspectPendingContinuationResumability session status inFlight health0 owner now triggerType =
     (let isTaskCompletion = is_task_trigger triggerType;
          workflow = (case se_workflow session of Some w \<Rightarrow> w | None \<Rightarrow> defaultWorkflow now);
          health = (case health0 of Some h \<Rightarrow> h | None \<Rightarrow> summarizeAutonomousWorkflowHealth (Some workflow) None [] now);
          supervisor = wh_supervisor health
      in ((if isDormantScheduled session then [Dormant_scheduled] else []) @
          (if inFlight then [In_flight] else []) @
          (if status = Status_busy then [Busy_status] else []) @
          (if status = Status_retry then [Retry_status] else []) @
          (if \<not> isTaskCompletion \<and> \<not> pol_enabled (wf_autonomous workflow) then [Autonomous_disabled] else []) @
          (if isTaskCompletion then [] else health_block health) @
          (if or_zero (ws_retryAt supervisor) > now then [Supervisor_retry_backoff] else []) @
          (if or_zero (ws_leaseExpiresAt supervisor) > now \<and> truthy (ws_leaseOwner supervisor) \<and>
              ws_leaseOwner supervisor \<noteq> owner
           then [Supervisor_foreign_lease] else []), health))"

definition shouldResumePendingContinuation ::
  "wf_session \<Rightarrow> status_type \<Rightarrow> bool \<Rightarrow> workflow_health option \<Rightarrow> string option \<Rightarrow> int \<Rightarrow> string option \<Rightarrow> bool" where
  "shouldResumePendingContinuation session status inFlight health owner now triggerType \<longleftrightarrow>
     fst (inspectPendingContinuationResumability session status inFlight health owner now triggerType) = []"

section \<open>Failures of a resume\<close>

datatype failure_category =
  Provider_rate_limit | Provider_auth | Provider_transient | Tool_runtime | Session_state | Unknown_failure

definition category_text :: "failure_category \<Rightarrow> string" where
  "category_text c = (case c of
      Provider_rate_limit \<Rightarrow> ''provider_rate_limit'' | Provider_auth \<Rightarrow> ''provider_auth''
    | Provider_transient \<Rightarrow> ''provider_transient'' | Tool_runtime \<Rightarrow> ''tool_runtime''
    | Session_state \<Rightarrow> ''session_state'' | Unknown_failure \<Rightarrow> ''unknown'')"

definition computeResumeBackoffMs :: "nat \<Rightarrow> int" where
  "computeResumeBackoffMs consecutiveFailures =
     (let step = max 1 consecutiveFailures in min (5 * 60000) (15000 * 2 ^ (step - 1)))"

definition computeResumeRetryAt :: "int \<Rightarrow> nat \<Rightarrow> failure_category \<Rightarrow> int option \<Rightarrow> int" where
  "computeResumeRetryAt now consecutiveFailures category budgetWaitTimeMs =
     (let backoffMs = computeResumeBackoffMs consecutiveFailures;
          effectiveWaitMs = (if category = Provider_rate_limit then max backoffMs (or_zero budgetWaitTimeMs) else backoffMs)
      in now + effectiveWaitMs)"

abbreviation MAX_RESUME_FAILURES :: nat where "MAX_RESUME_FAILURES \<equiv> 3"

definition shouldBlockAfterResumeFailure :: "nat \<Rightarrow> bool" where
  "shouldBlockAfterResumeFailure consecutiveFailures \<longleftrightarrow> consecutiveFailures \<ge> MAX_RESUME_FAILURES"

text \<open>What the code sees of an error: the class it is an instance of, the message (or the text of a value that is
  no error) and the fields the judges of rate limits and authentication read.\<close>

datatype resume_error_class = Permission_rejected | Permission_denied | Permission_corrected | Question_rejected | Other_error

record resume_error =
  rr_class :: resume_error_class
  rr_message :: string
  rr_thrown :: thrown

record resume_failure =
  rf_category :: failure_category
  rf_shouldRetry :: bool
  rf_shouldBlockImmediately :: bool
  rf_reason :: string

definition final_failure :: "failure_category \<Rightarrow> string \<Rightarrow> resume_failure" where
  "final_failure c why = \<lparr>rf_category = c, rf_shouldRetry = False, rf_shouldBlockImmediately = True, rf_reason = why\<rparr>"

definition passing_failure :: "failure_category \<Rightarrow> string \<Rightarrow> resume_failure" where
  "passing_failure c why = \<lparr>rf_category = c, rf_shouldRetry = True, rf_shouldBlockImmediately = False, rf_reason = why\<rparr>"

definition classifyResumeFailure :: "resume_error \<Rightarrow> resume_failure" where
  "classifyResumeFailure error =
     (let message = rr_message error; normalized = js_lower message; has = js_includes normalized in
      if rr_class error = Permission_rejected \<or> rr_class error = Permission_denied
      then final_failure Tool_runtime (''approval_needed:'' @ message)
      else if rr_class error = Permission_corrected \<or> rr_class error = Question_rejected
      then final_failure Tool_runtime (''product_decision_needed:'' @ message)
      else if has ''approval_needed:'' then final_failure Tool_runtime message
      else if has ''product_decision_needed:'' then final_failure Tool_runtime message
      else if isRateLimitError (rr_thrown error) then passing_failure Provider_rate_limit message
      else if isAuthError (rr_thrown error) then final_failure Provider_auth message
      else if has ''permission'' \<or> has ''tool execution failed'' \<or> has ''command not found''
      then final_failure Tool_runtime message
      else if has ''no user message found'' \<or> has ''impossible'' then final_failure Session_state message
      else if has ''timeout'' \<or> has ''temporar'' \<or> has ''network'' \<or> has ''econn'' \<or> has ''503'' \<or> has ''502''
      then passing_failure Provider_transient message
      else passing_failure Unknown_failure message)"

section \<open>Picking continuations\<close>

record resume_candidate =
  rc_pending :: pending_info
  rc_triggerType :: "string option"
  rc_session :: wf_session
  rc_status :: status_type
  rc_inFlight :: bool
  rc_health :: "workflow_health option"
  rc_budget :: "(string \<times> int) option"

fun healthRankForResume :: "health_kind \<Rightarrow> nat" where
  "healthRankForResume Is_healthy = 0"
| "healthRankForResume Is_queued = 1"
| "healthRankForResume Is_paused = 2"
| "healthRankForResume Is_degraded = 3"
| "healthRankForResume Is_blocked = 4"
| "healthRankForResume Is_completed = 5"

text \<open>The comparison of two candidates is lexicographic, so the order is the one of this key. The order of names
  is the locale's, given by its sort key.\<close>

definition resume_key ::
  "(string \<Rightarrow> string) \<Rightarrow> resume_candidate \<Rightarrow> nat \<times> nat \<times> int \<times> nat \<times> int \<times> int \<times> string" where
  "resume_key collate c =
     (let wait = or_zero (map_option snd (rc_budget c)); flow = se_workflow (rc_session c) in
      (healthRankForResume (case rc_health c of Some h \<Rightarrow> wh_health h | None \<Rightarrow> Is_healthy),
       if wait = 0 then 0 else 1, wait,
       (case Option.bind (Option.bind flow wf_supervisor) ws_consecutiveResumeFailures of Some n \<Rightarrow> n | None \<Rightarrow> 0),
       or_zero (Option.bind flow wf_lastRunAt), pi_createdAt (rc_pending c), collate (pi_sessionID (rc_pending c))))"

definition eligible_for_resume ::
  "(string \<Rightarrow> string) \<Rightarrow> string \<Rightarrow> int \<Rightarrow> resume_candidate list \<Rightarrow> resume_candidate list" where
  "eligible_for_resume collate owner now items =
     sort_key (resume_key collate)
       (filter (\<lambda>c. shouldResumePendingContinuation (rc_session c) (rc_status c) (rc_inFlight c) (rc_health c)
                      (Some owner) now (rc_triggerType c)) items)"

definition family_of :: "resume_candidate \<Rightarrow> string option" where
  "family_of c = (case rc_budget c of Some (f, w) \<Rightarrow> if f = [] then None else Some f | None \<Rightarrow> None)"

fun pick_families ::
  "nat \<Rightarrow> resume_candidate list \<Rightarrow> resume_candidate list \<Rightarrow> string list \<Rightarrow> resume_candidate list" where
  "pick_families maxCount [] picked used = picked"
| "pick_families maxCount (c # cs) picked used =
     (if maxCount \<le> length picked then picked
      else case family_of c of
             None \<Rightarrow> pick_families maxCount cs (picked @ [c]) used
           | Some f \<Rightarrow> if f \<in> set used then pick_families maxCount cs picked used
                       else pick_families maxCount cs (picked @ [c]) (f # used))"

fun pick_rest :: "nat \<Rightarrow> resume_candidate list \<Rightarrow> resume_candidate list \<Rightarrow> resume_candidate list" where
  "pick_rest maxCount [] picked = picked"
| "pick_rest maxCount (c # cs) picked =
     (if maxCount \<le> length picked then picked
      else if c \<in> set picked then pick_rest maxCount cs picked
      else pick_rest maxCount cs (picked @ [c]))"

definition pick_preferred :: "nat \<Rightarrow> string option \<Rightarrow> resume_candidate list \<Rightarrow> resume_candidate list" where
  "pick_preferred maxCount preferred eligible =
     (if truthy preferred
      then case List.find (\<lambda>c. pi_sessionID (rc_pending c) = the preferred) eligible of
             Some p \<Rightarrow> if 0 < maxCount then [p] else []
           | None \<Rightarrow> []
      else [])"

definition pickPendingContinuationsForResume ::
  "(string \<Rightarrow> string) \<Rightarrow> string \<Rightarrow> int \<Rightarrow> resume_candidate list \<Rightarrow> nat \<Rightarrow> string option \<Rightarrow> resume_candidate list" where
  "pickPendingContinuationsForResume collate owner now items maxCount preferred =
     (let eligible = eligible_for_resume collate owner now items;
          first = pick_preferred maxCount preferred eligible;
          used = List.map_filter family_of first;
          picked = pick_families maxCount eligible first used
      in pick_rest maxCount eligible picked)"

section \<open>The next autonomous action\<close>

datatype freerun_state = Fr_active | Fr_no_root | Fr_paused | Fr_blocked | Fr_settled | Fr_none

datatype stop_reason =
    Not_armed | Subagent_session | Todo_complete | Freerun_no_root | Freerun_paused | Freerun_blocked
  | Freerun_settled | Stopped_dormant | Approval_required

datatype next_action =
    Stop stop_reason
  | Continue_todo pending_reason string todo
  | Continue_freerun string

definition AUTONOMOUS_RESUME_TEXT :: string where
  "AUTONOMOUS_RESUME_TEXT = ''Continue with the current work based on the existing session context.''"

definition buildContinuationTrigger :: "todo option \<Rightarrow> string \<Rightarrow> string \<Rightarrow> (pending_reason \<times> string \<times> todo) option" where
  "buildContinuationTrigger t textForPending textForInProgress =
     (case t of
        None \<Rightarrow> None
      | Some x \<Rightarrow>
          if td_status x = ''in_progress'' then Some (For_todo_in_progress, textForInProgress, x)
          else if td_status x = ''pending'' then Some (For_todo_pending, textForPending, x)
          else None)"

definition action_kind_text :: "action_kind \<Rightarrow> string" where
  "action_kind_text k = (case k of
      Implement \<Rightarrow> ''implement'' | Delegate \<Rightarrow> ''delegate'' | Wait_action \<Rightarrow> ''wait'' | Approval_action \<Rightarrow> ''approval''
    | Decision_action \<Rightarrow> ''decision'' | Push_action \<Rightarrow> ''push'' | Destructive \<Rightarrow> ''destructive''
    | Architecture_change \<Rightarrow> ''architecture_change'')"

definition isAutonomousApprovalGated :: "todo list \<Rightarrow> todo option \<Rightarrow> workflow_info \<Rightarrow> bool" where
  "isAutonomousApprovalGated todos current workflow \<longleftrightarrow>
     (if list_ex (\<lambda>t. td_status t = ''awaiting_approval'') todos then True
      else case Option.bind current td_action of
             None \<Rightarrow> False
           | Some action \<Rightarrow>
               if ta_needsApproval action \<noteq> Some True then False
               else action_kind_text (ta_kind action) \<in>
                 set (case pol_requireApprovalFor (wf_autonomous workflow) of Some ks \<Rightarrow> ks | None \<Rightarrow> []))"

definition isGateSuspended :: "workflow_info option \<Rightarrow> todo list \<Rightarrow> bool" where
  "isGateSuspended flow todos \<longleftrightarrow>
     list_ex (\<lambda>t. td_status t = ''awaiting_approval'') todos \<or>
     (case flow of None \<Rightarrow> False
      | Some w \<Rightarrow> wf_state w = Workflow_waiting_user \<and> wf_stopReason w = Some ''approval_needed'')"

definition freerun_action :: "freerun_state option \<Rightarrow> next_action option" where
  "freerun_action f = (case f of
      Some Fr_active \<Rightarrow> Some (Continue_freerun ''Drive the freerun ContextNode engine.'')
    | Some Fr_no_root \<Rightarrow> Some (Stop Freerun_no_root)
    | Some Fr_paused \<Rightarrow> Some (Stop Freerun_paused)
    | Some Fr_blocked \<Rightarrow> Some (Stop Freerun_blocked)
    | Some Fr_settled \<Rightarrow> Some (Stop Freerun_settled)
    | _ \<Rightarrow> None)"

definition planAutonomousNextAction ::
  "wf_session \<Rightarrow> todo list \<Rightarrow> freerun_state option \<Rightarrow> bool \<Rightarrow> next_action" where
  "planAutonomousNextAction session todos freerunState subagentTriggered =
     (if isDormantScheduled session then Stop Stopped_dormant
      else if truthy (se_parentID session) then Stop Subagent_session
      else
        let workflow = (case se_workflow session of Some w \<Rightarrow> w | None \<Rightarrow> defaultWorkflow 0) in
        if \<not> pol_enabled (wf_autonomous workflow) \<and> \<not> subagentTriggered then Stop Not_armed
        else case freerun_action freerunState of
               Some a \<Rightarrow> a
             | None \<Rightarrow>
                 let current = nextActionableTodo todos in
                 if isAutonomousApprovalGated todos current workflow then Stop Approval_required
                 else case buildContinuationTrigger current AUTONOMOUS_RESUME_TEXT AUTONOMOUS_RESUME_TEXT of
                        None \<Rightarrow> Stop Todo_complete
                      | Some (why, text, t) \<Rightarrow> Continue_todo why text t)"

definition evaluateAutonomousContinuation ::
  "wf_session \<Rightarrow> todo list \<Rightarrow> freerun_state option \<Rightarrow> bool \<Rightarrow> next_action" where
  "evaluateAutonomousContinuation = planAutonomousNextAction"

datatype narration_kind = Narrate_continue | Narrate_pause | Narrate_complete

fun describeAutonomousNextAction :: "next_action \<Rightarrow> narration_kind \<times> string" where
  "describeAutonomousNextAction (Continue_freerun x) = (Narrate_continue, ''Runner driving freerun ContextNode engine.'')"
| "describeAutonomousNextAction (Continue_todo why x t) =
     (Narrate_continue,
      (if why = For_todo_in_progress then ''Runner continuing current step: '' else ''Runner starting next planned step: '')
        @ td_content t)"
| "describeAutonomousNextAction (Stop Todo_complete) =
     (Narrate_complete, ''Runner complete: the current planned todo set is done.'')"
| "describeAutonomousNextAction (Stop Subagent_session) =
     (Narrate_pause, ''Autonomous continuation only runs for root sessions.'')"
| "describeAutonomousNextAction (Stop Not_armed) =
     (Narrate_pause, ''Autonomous continuation is not armed for this session.'')"
| "describeAutonomousNextAction (Stop Stopped_dormant) =
     (Narrate_pause, ''Session is a dormant scheduled task; it fires on its schedule, not via autonomous continuation.'')"
| "describeAutonomousNextAction (Stop Freerun_no_root) =
     (Narrate_pause, ''Freerun is armed but no ContextNode root has been seeded.'')"
| "describeAutonomousNextAction (Stop Freerun_paused) = (Narrate_pause, ''Freerun engine is paused.'')"
| "describeAutonomousNextAction (Stop Freerun_blocked) = (Narrate_pause, ''Freerun engine is blocked.'')"
| "describeAutonomousNextAction (Stop Freerun_settled) =
     (Narrate_complete, ''Freerun engine has no remaining actionable nodes.'')"
| "describeAutonomousNextAction (Stop Approval_required) =
     (Narrate_pause, ''Paused for approval: the next step needs user sign-off before autonomous execution continues.'')"

definition shouldInterruptAutonomousRun :: "wf_session \<Rightarrow> status_type \<Rightarrow> bool \<Rightarrow> bool \<Rightarrow> bool" where
  "shouldInterruptAutonomousRun session status lastUserSynthetic hasPendingContinuation \<longleftrightarrow>
     (if status \<noteq> Status_busy then False
      else if truthy (se_parentID session) then False
      else if \<not> pol_enabled (wf_autonomous (case se_workflow session of Some w \<Rightarrow> w | None \<Rightarrow> defaultWorkflow 0)) then False
      else lastUserSynthetic \<or> hasPendingContinuation)"

section \<open>When an autonomous session goes on\<close>

lemma nextActionable_status:
  "nextActionableTodo ts = Some t \<Longrightarrow> td_status t = ''in_progress'' \<or> td_status t = ''pending''"
  by (auto simp: nextActionableTodo_def or_else_def find_Some_iff split: option.splits)

lemma trigger_of_next:
  "buildContinuationTrigger (nextActionableTodo ts) a a =
     map_option (\<lambda>t. (if td_status t = ''in_progress'' then For_todo_in_progress else For_todo_pending, a, t))
       (nextActionableTodo ts)"
  using nextActionable_status [of ts] by (auto simp: buildContinuationTrigger_def split: option.split)

text \<open>
  A session goes on with a todo exactly when it is a root session that is not waiting for its schedule, it is
  armed or woken by a subagent, no freerun decides for it, the todo is the next actionable one, no todo waits for an
  approval, and the todo's own action is not one the policy wants approved.
\<close>

theorem continues_with_todo_iff:
  "(\<exists>why text. planAutonomousNextAction session todos freerun woken = Continue_todo why text t) \<longleftrightarrow>
     \<not> se_scheduled session \<and> se_parentID session \<in> {None, Some []} \<and>
     (woken \<or> (\<exists>w. se_workflow session = Some w \<and> pol_enabled (wf_autonomous w))) \<and>
     freerun \<in> {None, Some Fr_none} \<and> nextActionableTodo todos = Some t \<and>
     \<not> list_ex (\<lambda>x. td_status x = ''awaiting_approval'') todos \<and>
     \<not> (\<exists>a. td_action t = Some a \<and> ta_needsApproval a = Some True \<and>
          action_kind_text (ta_kind a) \<in>
            set (case se_workflow session of None \<Rightarrow> [''push'', ''destructive'']
                 | Some w \<Rightarrow> (case pol_requireApprovalFor (wf_autonomous w) of None \<Rightarrow> [] | Some ks \<Rightarrow> ks)))"
proof -
  define flow where "flow = (case se_workflow session of Some w \<Rightarrow> w | None \<Rightarrow> defaultWorkflow 0)"
  have parent: "truthy (se_parentID session) \<longleftrightarrow> se_parentID session \<notin> {None, Some []}"
    by (cases "se_parentID session") (auto simp: truthy_def)
  have armed: "pol_enabled (wf_autonomous flow) \<longleftrightarrow> (\<exists>w. se_workflow session = Some w \<and> pol_enabled (wf_autonomous w))"
    by (cases "se_workflow session") (simp_all add: flow_def defaultWorkflow_def)
  have policy: "(case pol_requireApprovalFor (wf_autonomous flow) of Some ks \<Rightarrow> ks | None \<Rightarrow> []) =
      (case se_workflow session of None \<Rightarrow> [''push'', ''destructive'']
       | Some w \<Rightarrow> (case pol_requireApprovalFor (wf_autonomous w) of None \<Rightarrow> [] | Some ks \<Rightarrow> ks))"
    by (cases "se_workflow session") (simp_all add: flow_def defaultWorkflow_def)
  have free: "(\<exists>a. freerun_action freerun = Some a \<and> (\<exists>why text. a = Continue_todo why text t)) \<longleftrightarrow> False"
    "freerun_action freerun = None \<longleftrightarrow> freerun \<in> {None, Some Fr_none}"
    by (auto simp: freerun_action_def split: option.splits freerun_state.splits)
  have gate: "isAutonomousApprovalGated todos (Some t) flow \<longleftrightarrow>
      list_ex (\<lambda>x. td_status x = ''awaiting_approval'') todos \<or>
      (\<exists>a. td_action t = Some a \<and> ta_needsApproval a = Some True \<and>
        action_kind_text (ta_kind a) \<in> set (case pol_requireApprovalFor (wf_autonomous flow) of Some ks \<Rightarrow> ks | None \<Rightarrow> []))"
    by (cases "td_action t") (auto simp: isAutonomousApprovalGated_def)
  have plan: "planAutonomousNextAction session todos freerun woken =
    (if se_scheduled session then Stop Stopped_dormant
     else if se_parentID session \<notin> {None, Some []} then Stop Subagent_session
     else if \<not> pol_enabled (wf_autonomous flow) \<and> \<not> woken then Stop Not_armed
     else case freerun_action freerun of Some a \<Rightarrow> a
       | None \<Rightarrow> if isAutonomousApprovalGated todos (nextActionableTodo todos) flow then Stop Approval_required
           else case nextActionableTodo todos of None \<Rightarrow> Stop Todo_complete
             | Some x \<Rightarrow> Continue_todo (if td_status x = ''in_progress'' then For_todo_in_progress else For_todo_pending)
                          AUTONOMOUS_RESUME_TEXT x)"
    unfolding planAutonomousNextAction_def Let_def trigger_of_next isDormantScheduled_def parent flow_def [symmetric]
    by (auto split: option.split)
  show ?thesis
    unfolding plan gate [symmetric] policy [symmetric] armed [symmetric] free(2) [symmetric]
    using free(1) gate by (auto split: option.split)
qed

definition armed_session :: wf_session where
  "armed_session = \<lparr>se_parentID = None, se_directory = ''/w'', se_scheduled = False, se_updated = 0,
     se_workflow = Some ((defaultWorkflow 0)\<lparr>wf_autonomous := (wf_autonomous (defaultWorkflow 0))\<lparr>pol_enabled := True\<rparr>\<rparr>)\<rparr>"

definition planned_push :: todo where
  "planned_push = \<lparr>td_content = ''Ship it'', td_status = ''pending'', td_priority = ''high'', td_id = ''1'',
     td_action = Some ((plain_action Push_action)\<lparr>ta_needsApproval := Some True\<rparr>)\<rparr>"

text \<open>
  An update of statuses that sends no action lifts the approval gate: a planned push that waits for the user
  is gated before, and afterwards, with the action inferred from its text, the session goes on with it.
\<close>

theorem status_update_lifts_gate:
  "planAutonomousNextAction armed_session [planned_push] None False = Stop Approval_required \<and>
   (case planAutonomousNextAction armed_session
      (merged_todos Status_update [planned_push] [planned_push\<lparr>td_action := None\<rparr>]) None False of
        Continue_todo why text t \<Rightarrow> td_content t = ''Ship it'' | _ \<Rightarrow> False)"
  by code_simp

text \<open>
  A plan whose next step depends on a step that was cancelled is reported as complete, although the
  step is still pending.
\<close>

theorem complete_with_pending_step:
  "let todos = [\<lparr>td_content = ''Design'', td_status = ''cancelled'', td_priority = ''high'', td_id = ''1'', td_action = None\<rparr>,
       \<lparr>td_content = ''Build'', td_status = ''pending'', td_priority = ''high'', td_id = ''2'',
        td_action = Some ((plain_action Implement)\<lparr>ta_dependsOn := Some [''1'']\<rparr>)\<rparr>]
   in planAutonomousNextAction armed_session todos None False = Stop Todo_complete"
  by code_simp

section \<open>Retrying a resume\<close>

lemma backoff_first: "computeResumeBackoffMs (Suc 0) = 15000" "computeResumeBackoffMs 2 = 30000"
  by (simp_all add: computeResumeBackoffMs_def)

lemma backoff_positive: "15000 \<le> computeResumeBackoffMs n"
  by (simp add: computeResumeBackoffMs_def Let_def)

text \<open>
  The wait before the next try doubles with every failure, from 15 seconds up to five minutes, and a rate limit
  waits at least as long as the budget says; the time of the next try is never before the wait is over.
\<close>

theorem retry_wait_bounds:
  "15000 \<le> computeResumeBackoffMs n \<and> computeResumeBackoffMs n \<le> 300000 \<and>
   computeResumeBackoffMs n \<le> computeResumeBackoffMs (Suc n) \<and>
   computeResumeBackoffMs (Suc n) \<le> 2 * computeResumeBackoffMs n \<and>
   computeResumeRetryAt now n category budget =
     now + max (computeResumeBackoffMs n) (if category = Provider_rate_limit then or_zero budget else 0)"
proof -
  define a where "a = (2 :: int) ^ (max 1 n - 1)"
  define b where "b = (2 :: int) ^ n"
  have "a \<le> b" unfolding a_def b_def by (intro power_increasing) auto
  moreover have "b \<le> 2 * a" by (cases n) (simp_all add: a_def b_def)
  moreover have "1 \<le> a" by (simp add: a_def)
  moreover have "computeResumeBackoffMs n = min 300000 (15000 * a)" "computeResumeBackoffMs (Suc n) = min 300000 (15000 * b)"
    by (simp_all add: computeResumeBackoffMs_def Let_def a_def b_def)
  ultimately show ?thesis by (auto simp: computeResumeRetryAt_def Let_def)
qed

section \<open>The picked continuations\<close>

definition families :: "resume_candidate list \<Rightarrow> string list" where
  "families cs = List.map_filter family_of cs"

lemma families_simps [simp]:
  "families [] = []" "families (xs @ ys) = families xs @ families ys"
  "family_of c = None \<Longrightarrow> families [c] = []" "family_of c = Some f \<Longrightarrow> families [c] = [f]"
  by (simp_all add: families_def map_filter_def)

lemma family_in: "family_of c = Some f \<Longrightarrow> c \<in> set cs \<Longrightarrow> f \<in> set (families cs)"
  by (force simp: families_def map_filter_def)

lemma pick_families_set:
  "set picked \<subseteq> set (pick_families m cs picked used) \<and> set (pick_families m cs picked used) \<subseteq> set picked \<union> set cs"
  by (induction m cs picked used rule: pick_families.induct) (auto split: option.split)

lemma pick_families_length: "length picked \<le> m \<Longrightarrow> length (pick_families m cs picked used) \<le> m"
  by (induction m cs picked used rule: pick_families.induct) (auto split: option.split)

lemma pick_families_distinct:
  "distinct (picked @ cs) \<Longrightarrow> distinct (pick_families m cs picked used)"
  by (induction m cs picked used rule: pick_families.induct) (auto split: option.split)

lemma pick_families_apart:
  "set used = set (families picked) \<Longrightarrow> distinct (families picked) \<Longrightarrow> distinct (families (pick_families m cs picked used))"
  by (induction m cs picked used rule: pick_families.induct) (auto split: option.split)

lemma pick_families_progress:
  "set used \<subseteq> set (families picked) \<Longrightarrow>
   m \<le> length (pick_families m cs picked used) \<or>
   (\<forall>c\<in>set cs. c \<in> set (pick_families m cs picked used) \<or>
      (\<exists>f. family_of c = Some f \<and> f \<in> set (families (pick_families m cs picked used))))"
proof (induction m cs picked used rule: pick_families.induct)
  case (2 m c cs picked used)
  have kept: "set ps \<subseteq> set (pick_families m cs ps us)" for ps us using pick_families_set by blast
  have fam: "set (families ps) \<subseteq> set (families (pick_families m cs ps us))" for ps us
    using kept [of ps us] by (auto simp: families_def map_filter_def)
  show ?case
  proof (cases "m \<le> length picked")
    case False
    show ?thesis
    proof (cases "family_of c")
      case None
      then show ?thesis using False 2 kept [of "picked @ [c]" used] by auto
    next
      case (Some f)
      show ?thesis
      proof (cases "f \<in> set used")
        case True
        then show ?thesis using False Some 2 fam [of picked used] by auto
      next
        case fresh: False
        have "set (f # used) \<subseteq> set (families (picked @ [c]))" using Some "2.prems" by auto
        then show ?thesis using False Some fresh 2 kept [of "picked @ [c]" "f # used"] by auto
      qed
    qed
  qed simp
qed simp

lemma pick_rest_set:
  "set picked \<subseteq> set (pick_rest m cs picked) \<and> set (pick_rest m cs picked) \<subseteq> set picked \<union> set cs"
  by (induction m cs picked rule: pick_rest.induct) auto

lemma pick_rest_length: "length picked \<le> m \<Longrightarrow> length (pick_rest m cs picked) \<le> m"
  by (induction m cs picked rule: pick_rest.induct) auto

lemma pick_rest_distinct: "distinct picked \<Longrightarrow> distinct (pick_rest m cs picked)"
  by (induction m cs picked rule: pick_rest.induct) auto

lemma pick_rest_progress: "m \<le> length (pick_rest m cs picked) \<or> set cs \<subseteq> set (pick_rest m cs picked)"
proof (induction m cs picked rule: pick_rest.induct)
  case (2 m c cs picked)
  have kept: "set ps \<subseteq> set (pick_rest m cs ps)" for ps using pick_rest_set by blast
  show ?case using 2 kept [of "picked @ [c]"] kept [of picked] by auto
qed simp

lemma pick_rest_full: "m \<le> length picked \<Longrightarrow> pick_rest m cs picked = picked"
  by (cases cs) simp_all

text \<open>
  Of the continuations that may be resumed as many as asked are picked, none twice, and the
  providers are shared: while one is left out whose provider family is not served (or that has none), no two
  picked ones have the same family.
\<close>

theorem picks_share_families:
  assumes "distinct items"
  shows "distinct (pickPendingContinuationsForResume collate owner now items m None) \<and>
    length (pickPendingContinuationsForResume collate owner now items m None) =
      min m (length (eligible_for_resume collate owner now items)) \<and>
    set (pickPendingContinuationsForResume collate owner now items m None) \<subseteq> set (eligible_for_resume collate owner now items) \<and>
    (\<forall>c \<in> set (eligible_for_resume collate owner now items).
       c \<notin> set (pickPendingContinuationsForResume collate owner now items m None) \<and>
       (\<forall>f. family_of c = Some f \<longrightarrow> f \<notin> set (families (pickPendingContinuationsForResume collate owner now items m None))) \<longrightarrow>
       distinct (families (pickPendingContinuationsForResume collate owner now items m None)))"
proof -
  define es where "es = eligible_for_resume collate owner now items"
  define fs where "fs = pick_families m es [] []"
  define ps where "ps = pickPendingContinuationsForResume collate owner now items m None"
  have ps: "ps = pick_rest m es fs"
    by (simp add: ps_def fs_def es_def pickPendingContinuationsForResume_def Let_def pick_preferred_def truthy_def
        map_filter_def)
  have des: "distinct es" using assms by (simp add: es_def eligible_for_resume_def)
  have fs: "set fs \<subseteq> set es" "length fs \<le> m" "distinct fs" "distinct (families fs)"
    using pick_families_set [of "[]" m es "[]"] pick_families_length [of "[]" m es "[]"]
      pick_families_distinct [of "[]" es m "[]"] pick_families_apart [of "[]" "[]" m es] des by (simp_all add: fs_def)
  have p: "set fs \<subseteq> set ps" "set ps \<subseteq> set es" "length ps \<le> m" "distinct ps" "m \<le> length ps \<or> set es \<subseteq> set ps"
    using pick_rest_set [of fs m es] pick_rest_length [of fs m es] pick_rest_distinct [of fs m es] pick_rest_progress [of m es fs] fs
    unfolding ps by auto
  have card: "length ps = card (set ps)" "length es = card (set es)" using p(4) des by (simp_all add: distinct_card)
  have "length ps \<le> length es" unfolding card using p(2) by (intro card_mono) simp_all
  moreover have "length es \<le> length ps" if "set es \<subseteq> set ps" unfolding card using that by (intro card_mono) simp_all
  ultimately have len: "length ps = min m (length es)" using p(3,5) by linarith
  have "distinct (families ps)"
    if c: "c \<in> set es" "c \<notin> set ps" "\<forall>f. family_of c = Some f \<longrightarrow> f \<notin> set (families ps)" for c
  proof -
    have "set (families fs) \<subseteq> set (families ps)" using p(1) by (auto simp: families_def map_filter_def)
    moreover have "m \<le> length fs \<or> (\<forall>c\<in>set es. c \<in> set fs \<or> (\<exists>f. family_of c = Some f \<and> f \<in> set (families fs)))"
      using pick_families_progress [of "[]" "[]" m es] by (simp add: fs_def)
    ultimately have "m \<le> length fs" using c p(1) by blast
    then show ?thesis using fs(4) by (simp add: ps pick_rest_full)
  qed
  then show ?thesis using p(2,4) len unfolding es_def [symmetric] ps_def [symmetric] by blast
qed

definition idle_candidate :: "string \<Rightarrow> (string \<times> int) option \<Rightarrow> resume_candidate" where
  "idle_candidate sid budget =
     \<lparr>rc_pending = \<lparr>pi_sessionID = sid, pi_messageID = ''msg1'', pi_createdAt = 0, pi_roundCount = 0,
        pi_reason = For_todo_pending, pi_text = ''go''\<rparr>,
      rc_triggerType = None, rc_session = armed_session, rc_status = Status_idle, rc_inFlight = False, rc_health = None,
      rc_budget = budget\<rparr>"

theorem picks_share_families_witness:
  "distinct (pickPendingContinuationsForResume (\<lambda>s. s) ''me'' 1
     [idle_candidate ''ses1'' (Some (''openai'', 0)), idle_candidate ''ses2'' (Some (''openai'', 0))] 1 None)"
proof -
  have "distinct [idle_candidate ''ses1'' (Some (''openai'', 0)), idle_candidate ''ses2'' (Some (''openai'', 0))]"
    by (simp add: idle_candidate_def)
  from picks_share_families [OF this] show ?thesis by blast
qed

text \<open>
  A preferred continuation whose session has no budget is picked twice, and would be resumed twice.
\<close>

theorem preferred_picked_twice:
  "map (\<lambda>c. pi_sessionID (rc_pending c)) (pickPendingContinuationsForResume (\<lambda>s. s) ''me'' 1
     [idle_candidate ''ses1'' None, idle_candidate ''ses2'' None] 2 (Some ''ses1'')) = [''ses1'', ''ses1'']"
  by code_simp

end
