(* ===== verification/Wildcard.thy ===== *)
theory Wildcard
  imports Js_Prelude "HOL-Library.List_Lexorder" "HOL-Library.Char_ord" "HOL-Library.Product_Lexorder"
begin

text \<open>
  \<^verbatim>\<open>util/wildcard.ts\<close>. The code rewrites a pattern into a regular expression; the model keeps that
  expression as a list of items and gives the matcher of such lists by backtracking. A char stands
  for a code unit and the platform is not Windows, so matching is case sensitive.
\<close>

section \<open>The regular expression of a pattern\<close>

datatype wild_item = Lit_char char | Any_char | Any_run | Optional_tail

definition slashes :: "string \<Rightarrow> string" where
  "slashes s = map (\<lambda>c. if c = CHR 0x5C then CHR ''/'' else c) s"

definition wild_item :: "char \<Rightarrow> wild_item" where
  "wild_item c = (if c = CHR ''*'' then Any_run else if c = CHR ''?'' then Any_char else Lit_char c)"

definition compile_pattern :: "string \<Rightarrow> wild_item list" where
  "compile_pattern pattern =
     (if js_ends_with pattern '' *''
      then map wild_item (take (length pattern - 2) pattern) @ [Optional_tail]
      else map wild_item pattern)"

function wild_match :: "wild_item list \<Rightarrow> string \<Rightarrow> bool" where
  "wild_match [] s \<longleftrightarrow> s = []"
| "wild_match (Lit_char c # r) s \<longleftrightarrow> (case s of [] \<Rightarrow> False | d # s' \<Rightarrow> d = c \<and> wild_match r s')"
| "wild_match (Any_char # r) s \<longleftrightarrow> (case s of [] \<Rightarrow> False | d # s' \<Rightarrow> wild_match r s')"
| "wild_match (Any_run # r) s \<longleftrightarrow>
     wild_match r s \<or> (case s of [] \<Rightarrow> False | d # s' \<Rightarrow> wild_match (Any_run # r) s')"
| "wild_match (Optional_tail # r) s \<longleftrightarrow>
     wild_match r s \<or>
     (case s of [] \<Rightarrow> False | d # s' \<Rightarrow> d = CHR '' '' \<and> wild_match (Any_run # r) s')"
  by pat_completeness auto
termination by (relation "measure (\<lambda>(r, s). length r + length s)") auto

definition Wildcard_match :: "string \<Rightarrow> string \<Rightarrow> bool" where
  "Wildcard_match str pattern \<longleftrightarrow> wild_match (compile_pattern (slashes pattern)) (slashes str)"

section \<open>Pattern tables\<close>

definition sort_patterns :: "(string, 'v) jmap \<Rightarrow> (string, 'v) jmap" where
  "sort_patterns patterns = sort_key (\<lambda>(key, v). (length key, key)) patterns"

fun Wildcard_all_loop :: "string \<Rightarrow> (string, 'v) jmap \<Rightarrow> 'v option \<Rightarrow> 'v option" where
  "Wildcard_all_loop input [] result = result"
| "Wildcard_all_loop input ((pattern, v) # ps) result =
     Wildcard_all_loop input ps (if Wildcard_match input pattern then Some v else result)"

definition Wildcard_all :: "string \<Rightarrow> (string, 'v) jmap \<Rightarrow> 'v option" where
  "Wildcard_all input patterns = Wildcard_all_loop input (sort_patterns patterns) None"

fun seq_search :: "string \<Rightarrow> (string list \<Rightarrow> bool) \<Rightarrow> string list \<Rightarrow> bool" where
  "seq_search pattern rest [] \<longleftrightarrow> False"
| "seq_search pattern rest (x # xs) \<longleftrightarrow>
     Wildcard_match x pattern \<and> rest xs \<or> seq_search pattern rest xs"

fun matchSequence :: "string list \<Rightarrow> string list \<Rightarrow> bool" where
  "matchSequence items [] \<longleftrightarrow> True"
| "matchSequence items (pattern # rest) \<longleftrightarrow>
     (if pattern = ''*'' then matchSequence items rest
      else seq_search pattern (\<lambda>xs. matchSequence xs rest) items)"

text \<open>\<open>split(/\s+/)\<close> keeps an empty piece before leading and after trailing blanks.\<close>

definition js_split_ws :: "string \<Rightarrow> string list" where
  "js_split_ws s =
     (let lead = (s \<noteq> [] \<and> js_space (hd s)); trail = (s \<noteq> [] \<and> js_space (last s));
          ws = js_words s
      in if ws = [] then (if s = [] then [[]] else [[], []])
         else (if lead then [[]] else []) @ ws @ (if trail then [[]] else []))"

fun allStructured_loop ::
  "string \<Rightarrow> string list \<Rightarrow> (string, 'v) jmap \<Rightarrow> 'v option \<Rightarrow> 'v option" where
  "allStructured_loop hd0 tail [] result = result"
| "allStructured_loop hd0 tail ((pattern, v) # ps) result =
     (let parts = js_split_ws pattern
      in if \<not> Wildcard_match hd0 (hd parts) then allStructured_loop hd0 tail ps result
         else if length parts = 1 \<or> matchSequence tail (tl parts)
         then allStructured_loop hd0 tail ps (Some v)
         else allStructured_loop hd0 tail ps result)"

definition allStructured :: "string \<Rightarrow> string list \<Rightarrow> (string, 'v) jmap \<Rightarrow> 'v option" where
  "allStructured hd0 tail patterns = allStructured_loop hd0 tail (sort_patterns patterns) None"

section \<open>The language of a pattern\<close>

inductive glob :: "string \<Rightarrow> string \<Rightarrow> bool" where
  glob_nil: "glob [] []"
| glob_lit: "glob p s \<Longrightarrow> c \<noteq> CHR ''*'' \<Longrightarrow> c \<noteq> CHR ''?'' \<Longrightarrow> glob (c # p) (c # s)"
| glob_any: "glob p s \<Longrightarrow> glob (CHR ''?'' # p) (c # s)"
| glob_run: "glob p s \<Longrightarrow> glob (CHR ''*'' # p) (t @ s)"

inductive_cases glob_nilE: "glob [] s"
inductive_simps glob_star_iff: "glob (CHR ''*'' # p) s"
inductive_simps glob_any_iff: "glob (CHR ''?'' # p) s"
inductive_simps glob_cons_iff: "glob (c # p) s"

lemma glob_star: "glob (CHR ''*'' # p) s \<longleftrightarrow> (\<exists>t u. s = t @ u \<and> glob p u)"
  unfolding glob_star_iff by auto

lemma wild_item_simps:
  "wild_item (CHR ''*'') = Any_run" "wild_item (CHR ''?'') = Any_char"
  "c \<noteq> CHR ''*'' \<Longrightarrow> c \<noteq> CHR ''?'' \<Longrightarrow> wild_item c = Lit_char c"
  by (simp_all add: wild_item_def)

lemma glob_lit_iff:
  "c \<noteq> CHR ''*'' \<Longrightarrow> c \<noteq> CHR ''?'' \<Longrightarrow> glob (c # p) s \<longleftrightarrow> (\<exists>u. s = c # u \<and> glob p u)"
  by (auto simp: glob_cons_iff [of c])

lemma run_match_iff:
  "wild_match (Any_run # r) s \<longleftrightarrow> (\<exists>t u. s = t @ u \<and> wild_match r u)"
proof (induction s)
  case Nil
  then show ?case by simp
next
  case (Cons d s)
  show ?case
  proof
    assume "wild_match (Any_run # r) (d # s)"
    then consider "wild_match r (d # s)" | "wild_match (Any_run # r) s" by auto
    then show "\<exists>t u. d # s = t @ u \<and> wild_match r u"
    proof cases
      case 1
      then show ?thesis by (intro exI [of _ "[]"] exI [of _ "d # s"]) simp
    next
      case 2
      then obtain t u where "s = t @ u" "wild_match r u" using Cons.IH by blast
      then show ?thesis by (intro exI [of _ "d # t"] exI [of _ u]) simp
    qed
  next
    assume "\<exists>t u. d # s = t @ u \<and> wild_match r u"
    then obtain t u where tu: "d # s = t @ u" "wild_match r u" by blast
    then show "wild_match (Any_run # r) (d # s)"
      using Cons.IH by (cases t) auto
  qed
qed

declare wild_match.simps(4) [simp del]

lemma wild_match_glob: "wild_match (map wild_item p) s \<longleftrightarrow> glob p s"
proof (induction p arbitrary: s)
  case Nil
  then show ?case by (auto intro: glob_nil elim: glob_nilE)
next
  case (Cons c p)
  consider "c = CHR ''*''" | "c = CHR ''?''" | "c \<noteq> CHR ''*''" "c \<noteq> CHR ''?''" by blast
  then show ?case
  proof cases
    case 1
    show ?thesis unfolding 1 list.map wild_item_simps(1) run_match_iff glob_star Cons.IH ..
  next
    case 2
    then show ?thesis using Cons by (cases s) (auto simp: wild_item_simps glob_any_iff)
  next
    case 3
    then show ?thesis using Cons by (cases s) (auto simp: wild_item_simps glob_lit_iff)
  qed
qed

lemma wild_match_tail:
  "wild_match (map wild_item p @ [Optional_tail]) s \<longleftrightarrow> glob p s \<or> glob (p @ '' *'') s"
proof (induction p arbitrary: s)
  case Nil
  have "wild_match [Optional_tail] s \<longleftrightarrow> s = [] \<or> (\<exists>s'. s = CHR '' '' # s')"
  proof (cases s)
    case (Cons d s')
    have "wild_match [Any_run] s'" using run_match_iff [of "[]" s'] by simp
    then show ?thesis using Cons by simp
  qed simp
  moreover have "glob '' *'' s \<longleftrightarrow> (\<exists>s'. s = CHR '' '' # s')"
  proof -
    have "glob ''*'' u" for u using glob_run [OF glob_nil, of u] by simp
    then show ?thesis by (auto simp: glob_lit_iff)
  qed
  ultimately show ?case by (auto intro: glob_nil elim: glob_nilE)
next
  case (Cons c p)
  consider "c = CHR ''*''" | "c = CHR ''?''" | "c \<noteq> CHR ''*''" "c \<noteq> CHR ''?''" by blast
  then show ?case
  proof cases
    case 1
    show ?thesis
      unfolding 1 list.map append_Cons wild_item_simps(1) run_match_iff glob_star Cons.IH by blast
  next
    case 2
    then show ?thesis using Cons by (cases s) (auto simp: wild_item_simps glob_any_iff)
  next
    case 3
    then show ?thesis using Cons by (cases s) (auto simp: wild_item_simps glob_lit_iff)
  qed
qed

lemma ends_with_iff: "js_ends_with s p \<longleftrightarrow> (\<exists>a. s = a @ p)"
proof
  assume "js_ends_with s p"
  then have "s = take (length s - length p) s @ p"
    by (metis append_take_drop_id js_ends_with_def)
  then show "\<exists>a. s = a @ p" ..
qed (auto simp: js_ends_with_def)

lemma glob_refl: "glob p p"
proof (induction p)
  case Nil
  show ?case by (rule glob_nil)
next
  case (Cons c p)
  then show ?case
    using glob_run [of p p "[CHR ''*'']"] glob_any [of p p "CHR ''?''"] glob_lit [of p p c]
    by (cases "c = CHR ''*''"; cases "c = CHR ''?''") auto
qed

lemma glob_matches:
  assumes "glob (slashes pattern) (slashes str)"
  shows "Wildcard_match str pattern"
proof (cases "js_ends_with (slashes pattern) '' *''")
  case True
  then obtain p where p: "slashes pattern = p @ '' *''" unfolding ends_with_iff by blast
  then show ?thesis
    using assms True by (simp add: Wildcard_match_def compile_pattern_def wild_match_tail)
next
  case False
  then show ?thesis using assms by (simp add: Wildcard_match_def compile_pattern_def wild_match_glob)
qed

lemma Wildcard_refl [simp]: "Wildcard_match p p"
  by (rule glob_matches) (rule glob_refl)

lemma Wildcard_star [simp]: "Wildcard_match s ''*''"
  using glob_run [OF glob_nil, of "slashes s"] by (intro glob_matches) (simp add: slashes_def)

lemma all_loop_last:
  "Wildcard_all_loop input ps r =
     (case filter (\<lambda>(p, v). Wildcard_match input p) ps of
        [] \<Rightarrow> r | q # qs \<Rightarrow> Some (snd (last (q # qs))))"
proof (induction ps arbitrary: r)
  case Nil
  then show ?case by simp
next
  case (Cons p ps)
  then show ?case by (cases p) (auto split: list.split)
qed

section \<open>Properties\<close>

text \<open>A pattern means its glob. After both sides have their backslashes turned,
  a string matches exactly when the glob of the pattern generates it ("*" any run, "?" one
  character, everything else itself), or when the pattern ends in " *" and the string matches
  without that tail. No character of a pattern acts as a regular expression operator.\<close>

theorem wildcard_is_glob:
  "Wildcard_match str pattern \<longleftrightarrow>
     glob (slashes pattern) (slashes str) \<or>
     (\<exists>p. slashes pattern = p @ '' *'' \<and> glob p (slashes str))"
proof (cases "js_ends_with (slashes pattern) '' *''")
  case True
  then obtain p where p: "slashes pattern = p @ '' *''" unfolding ends_with_iff by blast
  then have "compile_pattern (slashes pattern) = map wild_item p @ [Optional_tail]"
    using True by (simp add: compile_pattern_def)
  then show ?thesis using p by (auto simp: Wildcard_match_def wild_match_tail)
next
  case False
  then show ?thesis
    by (auto simp: Wildcard_match_def compile_pattern_def wild_match_glob ends_with_iff)
qed

text \<open>A table of patterns is decided by its longest matching pattern. A value comes
  back exactly when some pattern matches, and it belongs to a matching pattern that no other matching
  pattern of the table exceeds in length.\<close>

theorem all_longest_match:
  "(Wildcard_all input patterns = None \<longleftrightarrow> (\<forall>(p, v) \<in> set patterns. \<not> Wildcard_match input p)) \<and>
   (\<forall>v. Wildcard_all input patterns = Some v \<longrightarrow>
      (\<exists>p. (p, v) \<in> set patterns \<and> Wildcard_match input p \<and>
        (\<forall>(q, u) \<in> set patterns. Wildcard_match input q \<longrightarrow> length q \<le> length p)))"
proof -
  let ?f = "\<lambda>(p, v). Wildcard_match input p"
  let ?m = "filter ?f (sort_patterns patterns)"
  have set_m: "set ?m = {x \<in> set patterns. ?f x}" by (simp add: sort_patterns_def)
  have all: "Wildcard_all input patterns = (case ?m of [] \<Rightarrow> None | q # qs \<Rightarrow> Some (snd (last (q # qs))))"
    unfolding Wildcard_all_def by (rule all_loop_last)
  have "sorted (map (\<lambda>(key, v). (length key, key)) (sort_patterns patterns))"
    unfolding sort_patterns_def by (rule sorted_sort_key)
  then have sorted: "sorted (map (\<lambda>(key, v). (length key, key)) ?m)" by (rule sorted_filter)
  have last: "length q \<le> length (fst (last ?m))" if "(q, u) \<in> set ?m" for q u
  proof -
    from that obtain i where i: "i < length ?m" "?m ! i = (q, u)" by (metis in_set_conv_nth)
    then have ne: "?m \<noteq> []" by auto
    have "map (\<lambda>(key, v). (length key, key)) ?m ! i \<le> map (\<lambda>(key, v). (length key, key)) ?m ! (length ?m - 1)"
      using i ne by (intro sorted_nth_mono [OF sorted]) auto
    then show ?thesis using i ne by (auto simp: last_conv_nth case_prod_beta less_eq_prod_def)
  qed
  show ?thesis
  proof (cases "?m = []")
    case True
    then have "set ?m = {}" by simp
    then show ?thesis using all True set_m by auto
  next
    case False
    have res: "Wildcard_all input patterns = Some (snd (last ?m))"
      using False all by (simp split: list.split)
    have mem: "last ?m \<in> set ?m" using False by (rule last_in_set)
    obtain p v where pv: "last ?m = (p, v)" by fastforce
    have "(p, v) \<in> set patterns" "Wildcard_match input p" using mem set_m pv by auto
    moreover have "length q \<le> length p" if "(q, u) \<in> set patterns" "Wildcard_match input q" for q u
      using last [of q u] that set_m pv by auto
    ultimately show ?thesis using res pv by fastforce
  qed
qed

theorem all_longest_match_witness:
  "Wildcard_all ''git push'' [(''git *'', True), (''*'', False)] \<noteq> None"
  using all_longest_match [of "''git push''" "[(''git *'', True), (''*'', False)]"] by auto

end
