(* ===== verification/Permission_Next.thy ===== *)
theory Permission_Next
  imports Wildcard
begin

text \<open>
  \<^verbatim>\<open>permission/next.ts\<close>: rules, their evaluation, and the dialogue of requests and replies. A request
  that has to wait is an entry of \<open>ps_pending\<close>; the settlement of its promise is appended to
  \<open>ps_outcomes\<close> and the bus messages to \<open>ps_bus\<close>. Metadata and the tool reference of a request are
  carried by the code without being read and are left out.
\<close>

section \<open>Rules\<close>

datatype perm_action = Allow | Deny | Ask

record perm_rule =
  ru_permission :: string
  ru_pattern :: string
  ru_action :: perm_action

datatype config_value = One_action perm_action | Per_pattern "(string, perm_action) jmap"

definition expand_home :: "string \<Rightarrow> string \<Rightarrow> string" where
  "expand_home home pattern =
     (if js_starts_with pattern ''~/'' then home @ drop 1 pattern
      else if pattern = ''~'' then home
      else if js_starts_with pattern ''$HOME/'' then home @ drop 5 pattern
      else if js_starts_with pattern ''$HOME'' then home @ drop 5 pattern
      else pattern)"

fun fromConfig :: "string \<Rightarrow> (string, config_value) jmap \<Rightarrow> perm_rule list" where
  "fromConfig home [] = []"
| "fromConfig home ((key, v) # rest) =
     (case v of
        One_action a \<Rightarrow> [\<lparr>ru_permission = key, ru_pattern = ''*'', ru_action = a\<rparr>]
      | Per_pattern m \<Rightarrow>
          map (\<lambda>(pattern, a). \<lparr>ru_permission = key, ru_pattern = expand_home home pattern, ru_action = a\<rparr>) m)
     @ fromConfig home rest"

definition merge_rulesets :: "perm_rule list list \<Rightarrow> perm_rule list" where
  "merge_rulesets rulesets = concat rulesets"

definition findLast :: "('a \<Rightarrow> bool) \<Rightarrow> 'a list \<Rightarrow> 'a option" where
  "findLast P xs = List.find P (rev xs)"

definition rule_matches :: "string \<Rightarrow> string \<Rightarrow> perm_rule \<Rightarrow> bool" where
  "rule_matches permission pattern rule \<longleftrightarrow>
     Wildcard_match permission (ru_permission rule) \<and> Wildcard_match pattern (ru_pattern rule)"

definition evaluate :: "string \<Rightarrow> string \<Rightarrow> perm_rule list list \<Rightarrow> perm_rule" where
  "evaluate permission pattern rulesets =
     (case findLast (rule_matches permission pattern) (merge_rulesets rulesets) of
        Some rule \<Rightarrow> rule
      | None \<Rightarrow> \<lparr>ru_permission = permission, ru_pattern = ''*'', ru_action = Ask\<rparr>)"

definition EDIT_TOOLS :: "string list" where
  "EDIT_TOOLS = [''edit'', ''write'', ''patch'', ''multiedit'']"

definition tool_permission :: "string \<Rightarrow> string" where
  "tool_permission tool = (if tool \<in> set EDIT_TOOLS then ''edit'' else tool)"

definition tool_disabled :: "perm_rule list \<Rightarrow> string \<Rightarrow> bool" where
  "tool_disabled ruleset tool =
     (case findLast (\<lambda>r. Wildcard_match (tool_permission tool) (ru_permission r)) ruleset of
        None \<Rightarrow> False
      | Some rule \<Rightarrow> ru_pattern rule = ''*'' \<and> ru_action rule = Deny)"

definition disabled :: "string list \<Rightarrow> perm_rule list \<Rightarrow> string list" where
  "disabled tools ruleset = js_set (filter (tool_disabled ruleset) tools)"

section \<open>Requests and replies\<close>

record perm_request =
  rq_id :: string
  rq_sessionID :: string
  rq_permission :: string
  rq_patterns :: "string list"
  rq_always :: "string list"

datatype reply = Once | Always | Reject

datatype outcome = Resolved | Rejected_by_user | Corrected string

record bus_replied =
  br_sessionID :: string
  br_requestID :: string
  br_reply :: reply

datatype bus_message = Asked perm_request | Replied bus_replied

record perm_state =
  ps_pending :: "(string, perm_request) jmap"
  ps_approved :: "perm_rule list"
  ps_outcomes :: "(string \<times> outcome) list"
  ps_bus :: "bus_message list"
  ps_stored :: "perm_rule list"

datatype ask_result = Allowed | Denied "perm_rule list" | Waiting

fun ask_loop ::
  "bool \<Rightarrow> perm_request \<Rightarrow> perm_rule list \<Rightarrow> perm_rule list \<Rightarrow> string list \<Rightarrow> ask_result" where
  "ask_loop auto request ruleset approved [] = Allowed"
| "ask_loop auto request ruleset approved (pattern # ps) =
     (let rule = evaluate (rq_permission request) pattern [ruleset, approved]
      in case ru_action rule of
           Deny \<Rightarrow> Denied (filter (\<lambda>r. Wildcard_match (rq_permission request) (ru_permission r)) ruleset)
         | Ask \<Rightarrow> (if auto then ask_loop auto request ruleset approved ps else Waiting)
         | Allow \<Rightarrow> ask_loop auto request ruleset approved ps)"

definition ask ::
  "bool \<Rightarrow> perm_request \<Rightarrow> perm_rule list \<Rightarrow> perm_state \<Rightarrow> ask_result \<times> perm_state" where
  "ask auto request ruleset s =
     (let r = ask_loop auto request ruleset (ps_approved s) (rq_patterns request)
      in (r, if r = Waiting
             then s\<lparr>ps_pending := jset (ps_pending s) (rq_id request) request,
                    ps_bus := ps_bus s @ [Asked request]\<rparr>
             else s))"

definition settle :: "string \<Rightarrow> reply \<Rightarrow> outcome \<Rightarrow> perm_request \<Rightarrow> perm_state \<Rightarrow> perm_state" where
  "settle i r out info s =
     s\<lparr>ps_pending := jdel (ps_pending s) i,
       ps_bus := ps_bus s @ [Replied \<lparr>br_sessionID = rq_sessionID info, br_requestID = rq_id info, br_reply = r\<rparr>],
       ps_outcomes := ps_outcomes s @ [(i, out)]\<rparr>"

fun reject_session :: "string \<Rightarrow> (string, perm_request) jmap \<Rightarrow> perm_state \<Rightarrow> perm_state" where
  "reject_session sessionID [] s = s"
| "reject_session sessionID ((i, info) # rest) s =
     reject_session sessionID rest
       (if rq_sessionID info = sessionID then settle i Reject Rejected_by_user info s else s)"

definition covered_by :: "perm_rule list \<Rightarrow> perm_request \<Rightarrow> bool" where
  "covered_by approved info \<longleftrightarrow>
     list_all (\<lambda>pattern. ru_action (evaluate (rq_permission info) pattern [approved]) = Allow) (rq_patterns info)"

fun resolve_covered :: "string \<Rightarrow> (string, perm_request) jmap \<Rightarrow> perm_state \<Rightarrow> perm_state" where
  "resolve_covered sessionID [] s = s"
| "resolve_covered sessionID ((i, info) # rest) s =
     resolve_covered sessionID rest
       (if rq_sessionID info \<noteq> sessionID then s
        else if \<not> covered_by (ps_approved s) info then s
        else settle i Always Resolved info s)"

definition reply_to :: "bool \<Rightarrow> string \<Rightarrow> reply \<Rightarrow> string option \<Rightarrow> perm_state \<Rightarrow> perm_state" where
  "reply_to writable requestID r message s =
     (case jget (ps_pending s) requestID of
        None \<Rightarrow> s
      | Some existing \<Rightarrow>
          (case r of
             Reject \<Rightarrow>
               (let s1 = settle requestID Reject
                      (if truthy message then Corrected (the message) else Rejected_by_user) existing s
                in reject_session (rq_sessionID existing) (ps_pending s1) s1)
           | Once \<Rightarrow> settle requestID Once Resolved existing s
           | Always \<Rightarrow>
               (let s1 = settle requestID Always Resolved existing
                      (s\<lparr>ps_approved := ps_approved s @
                          map (\<lambda>pattern. \<lparr>ru_permission = rq_permission existing, ru_pattern = pattern,
                                          ru_action = Allow\<rparr>) (rq_always existing)\<rparr>);
                    s2 = resolve_covered (rq_sessionID existing) (ps_pending s1) s1
                in if writable then s2\<lparr>ps_stored := ps_approved s2\<rparr> else s2)))"

section \<open>The interface of a matcher\<close>

text \<open>What the evaluation relies on: the star matches everything and a pattern matches itself.\<close>

locale pattern_matcher =
  fixes matches :: "string \<Rightarrow> string \<Rightarrow> bool"
  assumes star_matches: "matches s ''*''"
    and self_matches: "matches p p"
begin

definition decides :: "string \<Rightarrow> string \<Rightarrow> perm_rule \<Rightarrow> bool" where
  "decides permission pattern rule \<longleftrightarrow>
     matches permission (ru_permission rule) \<and> matches pattern (ru_pattern rule)"

lemma catch_all_decides: "ru_permission r = ''*'' \<Longrightarrow> ru_pattern r = ''*'' \<Longrightarrow> decides p x r"
  by (simp add: decides_def star_matches)

lemma tool_rule_decides: "ru_permission r = p \<Longrightarrow> ru_pattern r = ''*'' \<Longrightarrow> decides p x r"
  by (simp add: decides_def star_matches self_matches)

lemma own_rule_decides: "ru_permission r = p \<Longrightarrow> ru_pattern r = x \<Longrightarrow> decides p x r"
  by (simp add: decides_def self_matches)

end

interpretation wm: pattern_matcher Wildcard_match
  by unfold_locales simp_all

lemma decides_rule_matches: "wm.decides p x r = rule_matches p x r"
  by (simp add: wm.decides_def rule_matches_def)

lemma find_append:
  "List.find P (xs @ ys) = (case List.find P xs of Some y \<Rightarrow> Some y | None \<Rightarrow> List.find P ys)"
  by (induction xs) auto

lemma findLast_append:
  "findLast P (xs @ ys) = (case findLast P ys of Some y \<Rightarrow> Some y | None \<Rightarrow> findLast P xs)"
  unfolding findLast_def rev_append find_append ..

lemma findLast_None: "findLast P xs = None \<longleftrightarrow> (\<forall>x \<in> set xs. \<not> P x)"
  unfolding findLast_def find_None_iff by auto

lemma findLast_Some: "findLast P xs = Some x \<Longrightarrow> x \<in> set xs \<and> P x"
  unfolding findLast_def by (metis find_Some_iff in_set_conv_nth set_rev)

lemma evaluate_append:
  "evaluate p x [rs, qs] =
     (case findLast (rule_matches p x) qs of Some r \<Rightarrow> r | None \<Rightarrow> evaluate p x [rs])"
  by (simp add: evaluate_def merge_rulesets_def findLast_append split: option.split)

text \<open>What the settlement of a whole session does to the state.\<close>

lemma settle_simps [simp]:
  "ps_pending (settle i r out info s) = jdel (ps_pending s) i"
  "ps_approved (settle i r out info s) = ps_approved s"
  "ps_outcomes (settle i r out info s) = ps_outcomes s @ [(i, out)]"
  "ps_stored (settle i r out info s) = ps_stored s"
  by (simp_all add: settle_def)

text \<open>A sweep settles the entries of a list that satisfy a condition.\<close>

fun sweep ::
  "(perm_request \<Rightarrow> bool) \<Rightarrow> reply \<Rightarrow> outcome \<Rightarrow> (string, perm_request) jmap \<Rightarrow> perm_state \<Rightarrow> perm_state" where
  "sweep P r out [] s = s"
| "sweep P r out ((i, info) # rest) s =
     sweep P r out rest (if P info then settle i r out info s else s)"

lemma reject_session_sweep:
  "reject_session sid ps s = sweep (\<lambda>info. rq_sessionID info = sid) Reject Rejected_by_user ps s"
  by (induction ps arbitrary: s) auto

lemma sweep_approved [simp]: "ps_approved (sweep P r out ps s) = ps_approved s"
  by (induction P r out ps s rule: sweep.induct) auto

lemma resolve_covered_sweep:
  "resolve_covered sid ps s =
     sweep (\<lambda>info. rq_sessionID info = sid \<and> covered_by (ps_approved s) info) Always Resolved ps s"
proof (induction ps arbitrary: s)
  case Nil
  then show ?case by simp
next
  case (Cons p ps)
  obtain i info where p: "p = (i, info)" by fastforce
  show ?case
    unfolding p resolve_covered.simps sweep.simps Cons.IH by (auto simp del: sweep.simps)
qed

lemma sweep_outcomes:
  "ps_outcomes (sweep P r out ps s) = ps_outcomes s @ map (\<lambda>(i, info). (i, out)) (filter (\<lambda>(i, info). P info) ps)"
  by (induction P r out ps s rule: sweep.induct) auto

lemma sweep_pending:
  "jget (ps_pending (sweep P r out ps s)) k =
     (if \<exists>info. (k, info) \<in> set ps \<and> P info then None else jget (ps_pending s) k)"
  by (induction P r out ps s rule: sweep.induct) (auto simp: jget_jdel)

lemma sweep_keys:
  "distinct (jkeys (ps_pending s)) \<Longrightarrow> distinct (jkeys (ps_pending (sweep P r out ps s)))"
  by (induction P r out ps s rule: sweep.induct) (simp_all add: distinct_delete)

lemma sweep_bus_asked:
  "{q. Asked q \<in> set (ps_bus (sweep P r out ps s))} = {q. Asked q \<in> set (ps_bus s)}"
  by (induction P r out ps s rule: sweep.induct) (auto simp: settle_def)

section \<open>Runs of the dialogue\<close>

text \<open>Requests carry fresh identifiers; every ask and every reply is one step.\<close>

definition asked_ids :: "perm_state \<Rightarrow> string set" where
  "asked_ids s = rq_id ` {q. Asked q \<in> set (ps_bus s)}"

inductive perm_reach :: "perm_state \<Rightarrow> bool" where
  start: "perm_reach \<lparr>ps_pending = [], ps_approved = stored, ps_outcomes = [], ps_bus = [], ps_stored = stored\<rparr>"
| asks: "perm_reach s \<Longrightarrow> rq_id request \<notin> asked_ids s \<Longrightarrow> perm_reach (snd (ask auto request ruleset s))"
| replies: "perm_reach s \<Longrightarrow> perm_reach (reply_to writable i r message s)"

definition perm_inv :: "perm_state \<Rightarrow> bool" where
  "perm_inv s \<longleftrightarrow> distinct (jkeys (ps_pending s)) \<and> distinct (map fst (ps_outcomes s)) \<and>
     fst ` set (ps_pending s) \<inter> fst ` set (ps_outcomes s) = {} \<and>
     fst ` set (ps_pending s) \<union> fst ` set (ps_outcomes s) = asked_ids s \<and>
     (\<forall>i info. jget (ps_pending s) i = Some info \<longrightarrow> rq_id info = i)"

lemma jdel_keys [simp]: "fst ` set (jdel m k) = fst ` set m - {k}"
proof -
  have "set (jkeys (jdel m k)) = set (jkeys m) - {k}" by (simp only: delete_keys) auto
  then show ?thesis by simp
qed

lemma jset_keys [simp]: "fst ` set (jset m k v) = insert k (fst ` set m)"
  by (induction m) auto

lemma settle_asked: "asked_ids (settle i r out info s) = asked_ids s"
  by (simp add: asked_ids_def settle_def)

lemma perm_settle_inv:
  assumes "perm_inv s" and "jget (ps_pending s) i = Some info"
  shows "perm_inv (settle i r out info s)"
proof -
  have i: "i \<in> fst ` set (ps_pending s)" using assms(2) by (metis domI dom_map_of_conv_image_fst)
  then have no: "i \<notin> fst ` set (ps_outcomes s)" using assms(1) unfolding perm_inv_def by blast
  have "distinct (map fst (ps_outcomes s @ [(i, out)]))" using assms(1) no by (simp add: perm_inv_def)
  moreover have "fst ` set (jdel (ps_pending s) i) \<inter> fst ` set (ps_outcomes s @ [(i, out)]) = {}"
  proof -
    have "fst ` set (ps_pending s) \<inter> fst ` set (ps_outcomes s) = {}"
      using assms(1) unfolding perm_inv_def by blast
    then show ?thesis unfolding jdel_keys set_append image_Un by auto
  qed
  moreover have "fst ` set (jdel (ps_pending s) i) \<union> fst ` set (ps_outcomes s @ [(i, out)]) = asked_ids s"
    using assms(1) i by (simp add: perm_inv_def) blast
  moreover have "\<forall>j x. jget (jdel (ps_pending s) i) j = Some x \<longrightarrow> rq_id x = j"
    using assms(1) by (simp add: perm_inv_def jget_jdel)
  moreover have "distinct (jkeys (jdel (ps_pending s) i))"
    using assms(1) unfolding perm_inv_def by (intro distinct_delete) simp
  ultimately show ?thesis unfolding perm_inv_def settle_asked settle_simps by blast
qed

lemma sweep_inv:
  assumes "perm_inv s" and "distinct (jkeys ps)" and "\<forall>(i, info) \<in> set ps. jget (ps_pending s) i = Some info"
  shows "perm_inv (sweep P r out ps s)"
  using assms
proof (induction ps arbitrary: s)
  case Nil
  then show ?case by simp
next
  case (Cons p ps)
  obtain i info where p: "p = (i, info)" by fastforce
  have fresh: "j \<noteq> i" if "(j, x) \<in> set ps" for j x
    using Cons.prems(2) that p by (auto simp: rev_image_eqI)
  show ?case
  proof (cases "P info")
    case True
    have "perm_inv (settle i r out info s)" using Cons.prems p by (intro perm_settle_inv) auto
    moreover have "\<forall>(j, x) \<in> set ps. jget (ps_pending (settle i r out info s)) j = Some x"
      using Cons.prems(3) fresh by (auto simp: jget_jdel)
    ultimately show ?thesis using Cons.IH Cons.prems(2) p True by simp
  next
    case False
    then show ?thesis using Cons p by simp
  qed
qed

lemma sweep_all_inv: "perm_inv s \<Longrightarrow> perm_inv (sweep P r out (ps_pending s) s)"
  by (intro sweep_inv) (auto simp: perm_inv_def)

lemma perm_inv_approved [simp]:
  "perm_inv (s\<lparr>ps_approved := x\<rparr>) = perm_inv s" "perm_inv (s\<lparr>ps_stored := x\<rparr>) = perm_inv s"
  by (simp_all add: perm_inv_def asked_ids_def)

lemma reply_inv:
  assumes "perm_inv s"
  shows "perm_inv (reply_to writable i r message s)"
proof (cases "jget (ps_pending s) i")
  case None
  then show ?thesis using assms by (simp add: reply_to_def)
next
  case (Some info)
  have inv: "perm_inv (settle i r' out info (s\<lparr>ps_approved := x\<rparr>))" "perm_inv (settle i r' out info s)"
    for r' out x using Some assms by (auto intro!: perm_settle_inv)
  show ?thesis
    using Some inv
    by (cases r) (simp_all add: reply_to_def Let_def reject_session_sweep resolve_covered_sweep sweep_all_inv
        del: settle_simps)
qed

lemma ask_inv:
  assumes "perm_inv s" and "rq_id request \<notin> asked_ids s"
  shows "perm_inv (snd (ask auto request ruleset s))"
proof (cases "ask_loop auto request ruleset (ps_approved s) (rq_patterns request) = Waiting")
  case False
  then show ?thesis using assms(1) by (simp add: ask_def Let_def)
next
  case True
  let ?s = "s\<lparr>ps_pending := jset (ps_pending s) (rq_id request) request, ps_bus := ps_bus s @ [Asked request]\<rparr>"
  have ids: "asked_ids ?s = insert (rq_id request) (asked_ids s)"
    by (auto simp: asked_ids_def)
  have "distinct (jkeys (jset (ps_pending s) (rq_id request) request))"
    using assms(1) unfolding perm_inv_def by (intro distinct_update) simp
  moreover have "\<forall>j x. jget (jset (ps_pending s) (rq_id request) request) j = Some x \<longrightarrow> rq_id x = j"
    using assms(1) by (simp add: perm_inv_def jget_jset)
  moreover have "insert (rq_id request) (fst ` set (ps_pending s)) \<inter> fst ` set (ps_outcomes s) = {}"
      and "insert (rq_id request) (fst ` set (ps_pending s)) \<union> fst ` set (ps_outcomes s) =
        insert (rq_id request) (asked_ids s)"
      and "distinct (map fst (ps_outcomes s))"
    using assms unfolding perm_inv_def by blast+
  moreover have sel: "ps_pending ?s = jset (ps_pending s) (rq_id request) request"
      "ps_outcomes ?s = ps_outcomes s" by simp_all
  ultimately have "perm_inv ?s" unfolding perm_inv_def ids sel jset_keys by (intro conjI)
  then show ?thesis using True by (simp add: ask_def Let_def)
qed

lemma perm_reach_inv: "perm_reach s \<Longrightarrow> perm_inv s"
proof (induction rule: perm_reach.induct)
  case (start stored)
  show ?case by (simp add: perm_inv_def asked_ids_def)
qed (auto intro: ask_inv reply_inv)

section \<open>Properties\<close>

text \<open>C9 (invariant): no answer is lost or given twice. In every reachable state each request that was
  put to the user is either still pending or settled by exactly one outcome, never both.\<close>

theorem every_request_settled_once:
  assumes "perm_reach s"
  shows "distinct (map fst (ps_outcomes s)) \<and>
    fst ` set (ps_pending s) \<inter> fst ` set (ps_outcomes s) = {} \<and>
    fst ` set (ps_pending s) \<union> fst ` set (ps_outcomes s) = asked_ids s"
  using perm_reach_inv [OF assms] unfolding perm_inv_def by blast

definition demo_request :: perm_request where
  "demo_request = \<lparr>rq_id = ''per_1'', rq_sessionID = ''ses_1'', rq_permission = ''bash'',
     rq_patterns = [''git push'', ''rm -rf x''], rq_always = [''git *'']\<rparr>"

definition demo_state :: perm_state where
  "demo_state = \<lparr>ps_pending = [], ps_approved = [], ps_outcomes = [], ps_bus = [], ps_stored = []\<rparr>"

lemma demo_reach: "perm_reach (snd (ask False demo_request [] demo_state))"
proof (rule perm_reach.asks)
  show "perm_reach demo_state" unfolding demo_state_def by (rule perm_reach.start)
  show "rq_id demo_request \<notin> asked_ids demo_state" by (simp add: asked_ids_def demo_state_def)
qed

theorem every_request_settled_once_witness:
  "fst ` set (ps_outcomes (reply_to True ''per_1'' Once None (snd (ask False demo_request [] demo_state)))) \<inter>
   fst ` set (ps_pending (reply_to True ''per_1'' Once None (snd (ask False demo_request [] demo_state)))) = {}"
  using every_request_settled_once [OF perm_reach.replies [OF demo_reach]] by (simp add: Int_commute)

text \<open>Approving "always" is remembered. From then on every pattern of the request's
  always list is allowed for its permission, whatever the configured rules say, denying ones
  included, because the approvals are evaluated after the configuration.\<close>

theorem always_is_remembered:
  assumes "jget (ps_pending s) i = Some info" and "x \<in> set (rq_always info)"
  shows "ru_action (evaluate (rq_permission info) x
    [ruleset, ps_approved (reply_to writable i Always message s)]) = Allow"
proof -
  let ?new = "map (\<lambda>pattern. \<lparr>ru_permission = rq_permission info, ru_pattern = pattern, ru_action = Allow\<rparr>)
      (rq_always info)"
  let ?m = "rule_matches (rq_permission info) x"
  have approved: "ps_approved (reply_to writable i Always message s) = ps_approved s @ ?new"
    using assms(1) by (simp add: reply_to_def Let_def resolve_covered_sweep)
  let ?own = "\<lparr>ru_permission = rq_permission info, ru_pattern = x, ru_action = Allow\<rparr>"
  have "?own \<in> set ?new" using assms(2) by simp
  moreover have "?m ?own" by (rule wm.own_rule_decides [unfolded decides_rule_matches]) simp_all
  ultimately have "findLast ?m ?new \<noteq> None" unfolding findLast_None by blast
  then obtain r where r: "findLast ?m ?new = Some r" by blast
  have "r \<in> set ?new" using findLast_Some [OF r] by blast
  then have "ru_action r = Allow" by auto
  then show ?thesis unfolding approved evaluate_append findLast_append r by simp
qed

theorem always_is_remembered_witness:
  "ru_action (evaluate ''bash'' ''git *''
    [[\<lparr>ru_permission = ''bash'', ru_pattern = ''*'', ru_action = Deny\<rparr>],
     ps_approved (reply_to True ''per_1'' Always None (demo_state\<lparr>ps_pending := [(''per_1'', demo_request)]\<rparr>))]) = Allow"
  using always_is_remembered [of "demo_state\<lparr>ps_pending := [(''per_1'', demo_request)]\<rparr>" "''per_1''" demo_request "''git *''"]
  by (simp add: demo_request_def)

text \<open>A rejection ends the session's dialogue. It settles the request and every other
  pending request of the same session as rejected and leaves those of other sessions alone.\<close>

theorem reject_clears_session:
  assumes "perm_reach s" and "jget (ps_pending s) i = Some info"
  shows "jget (ps_pending (reply_to writable i Reject message s)) k =
    (case jget (ps_pending s) k of
       None \<Rightarrow> None
     | Some other \<Rightarrow> if rq_sessionID other = rq_sessionID info then None else Some other)"
proof -
  let ?s1 = "settle i Reject (if truthy message then Corrected (the message) else Rejected_by_user) info s"
  have "distinct (jkeys (ps_pending ?s1))"
    using perm_reach_inv [OF assms(1)] by (simp add: perm_inv_def distinct_delete)
  then have entry: "(k, x) \<in> set (ps_pending ?s1) \<longleftrightarrow> jget (ps_pending ?s1) k = Some x" for x
    by (simp only: map_of_eq_Some_iff)
  have pend: "jget (ps_pending ?s1) k = (if k = i then None else jget (ps_pending s) k)"
    by (simp add: jget_jdel)
  have "jget (ps_pending (reply_to writable i Reject message s)) k =
      (if \<exists>x. (k, x) \<in> set (ps_pending ?s1) \<and> rq_sessionID x = rq_sessionID info then None
       else jget (ps_pending ?s1) k)"
    unfolding reply_to_def assms(2) option.case reply.case Let_def reject_session_sweep sweep_pending ..
  then show ?thesis
    unfolding entry pend using assms(2) by (cases "jget (ps_pending s) k") auto
qed

theorem reject_clears_session_witness:
  "jget (ps_pending (reply_to True ''per_1'' Reject None (snd (ask False demo_request [] demo_state)))) ''per_1'' = None"
proof -
  have "jget (ps_pending (snd (ask False demo_request [] demo_state))) ''per_1'' = Some demo_request"
    by (simp add: ask_def demo_state_def demo_request_def evaluate_def findLast_def merge_rulesets_def)
  then show ?thesis using reject_clears_session [OF demo_reach, of "''per_1''" demo_request] by simp
qed

text \<open>A denied pattern behind an asking one is never looked at. The loop returns the promise
  at the first pattern that asks, so the request waits instead of being denied, and one click on
  "once" lets the whole request through, the denied pattern included.\<close>

theorem deny_behind_ask_is_skipped:
  assumes "rq_patterns request = x # y # rest"
    and "ru_action (evaluate (rq_permission request) x [ruleset, ps_approved s]) = Ask"
    and "ru_action (evaluate (rq_permission request) y [ruleset, ps_approved s]) = Deny"
  shows "fst (ask False request ruleset s) = Waiting \<and>
    ps_outcomes (reply_to writable (rq_id request) Once message (snd (ask False request ruleset s))) =
      ps_outcomes s @ [(rq_id request, Resolved)]"
  using assms by (simp add: ask_def Let_def reply_to_def jget_jset)

theorem deny_behind_ask_is_skipped_witness:
  "fst (ask False demo_request [\<lparr>ru_permission = ''bash'', ru_pattern = ''rm *'', ru_action = Deny\<rparr>] demo_state) = Waiting"
proof -
  have "\<not> Wildcard_match ''git push'' ''rm *''" "Wildcard_match ''rm -rf x'' ''rm *''" by code_simp+
  then show ?thesis
    using deny_behind_ask_is_skipped [of demo_request "''git push''" "''rm -rf x''" "[]"
        "[\<lparr>ru_permission = ''bash'', ru_pattern = ''rm *'', ru_action = Deny\<rparr>]" demo_state]
    by (simp add: demo_request_def demo_state_def evaluate_def findLast_def merge_rulesets_def rule_matches_def)
qed

end
