(* ===== verification/Kill_Switch.thy ===== *)
theory Kill_Switch
  imports Permission_Next
begin

text \<open>
  The kill switch (server/killswitch/service.ts) and its routes (server/routes/killswitch.ts). What the service
  keeps in the storage is one record: the current switch, the last use of every name (cooldown), the request
  names given for a reason, the codes that wait to be entered, the last number accepted from every request and
  session, the audit trail and, in order, the sessions whose execution was cancelled. Names and codes drawn at
  random are arguments; one time stands for the times read while a request is served. The body of a request is
  a record; the busy sessions, their workspaces and the fate of every message (it is late, cancelling throws, the
  forced kill throws) are arguments. The audit entries leave out their random name and the nested fields.
\<close>

section \<open>Data\<close>

definition SWITCH_DEFAULT_TTL_MS :: int where
  "SWITCH_DEFAULT_TTL_MS = 5 * 60 * 1000"

datatype switch_mode = Soft_paused | Switch_inactive

record switch_state =
  sw_active :: bool
  sw_state :: switch_mode
  sw_requestID :: string
  sw_initiator :: string
  sw_reason :: string
  sw_initiatedAt :: int
  sw_mode :: string
  sw_scope :: string
  sw_workspaceId :: "string option"
  sw_ttl :: "int option"
  sw_snapshotURL :: "string option"

datatype ack_status = Ack_accepted | Ack_rejected | Ack_error

record control_ack =
  ack_requestID :: string
  ack_sessionID :: string
  ack_seq :: int
  ack_status :: ack_status
  ack_reason :: "string option"
  ack_timestamp :: int

datatype control_action = Pause_task | Resume_task | Cancel_task | Snapshot_task | Set_priority

record control_input =
  ci_requestID :: string
  ci_sessionID :: string
  ci_seq :: int
  ci_action :: control_action
  ci_initiator :: string

record mfa_token =
  mf_requestID :: string
  mf_initiator :: string
  mf_code :: string
  mf_expiresAt :: int

record audit_entry =
  au_action :: string
  au_requestID :: "string option"
  au_sessionID :: "string option"
  au_initiator :: string
  au_result :: string
  au_reason :: string
  au_timestamp :: int

record kill_switch =
  ks_current :: "switch_state option"
  ks_cooldown :: "(string, int) jmap"
  ks_idempotency :: "(string, string \<times> int) jmap"
  ks_mfa :: "(string, mfa_token) jmap"
  ks_seq :: "(string \<times> string, int) jmap"
  ks_snapshots :: "string list"
  ks_audit :: "audit_entry list"
  ks_cancelled :: "string list"

definition empty_switch :: kill_switch where
  "empty_switch = \<lparr>ks_current = None, ks_cooldown = [], ks_idempotency = [], ks_mfa = [], ks_seq = [],
     ks_snapshots = [], ks_audit = [], ks_cancelled = []\<rparr>"

section \<open>The service\<close>

definition writeAudit ::
  "string \<Rightarrow> string option \<Rightarrow> string option \<Rightarrow> string \<Rightarrow> string \<Rightarrow> string \<Rightarrow> int \<Rightarrow> kill_switch \<Rightarrow> kill_switch" where
  "writeAudit action request session initiator result reason now ks =
     ks\<lparr>ks_audit := ks_audit ks @ [\<lparr>au_action = action, au_requestID = request, au_sessionID = session,
       au_initiator = initiator, au_result = result, au_reason = reason, au_timestamp = now\<rparr>]\<rparr>"

text \<open>\<open>None\<close> when the name may act, else the time that remains.\<close>

definition checkCooldown :: "string \<Rightarrow> int \<Rightarrow> int \<Rightarrow> kill_switch \<Rightarrow> int option \<times> kill_switch" where
  "checkCooldown initiator windowMs now ks =
     (case jget (ks_cooldown ks) initiator of
        Some since \<Rightarrow>
          if now - since < windowMs then (Some (windowMs - (now - since)), ks)
          else (None, ks\<lparr>ks_cooldown := jset (ks_cooldown ks) initiator now\<rparr>)
      | None \<Rightarrow> (None, ks\<lparr>ks_cooldown := jset (ks_cooldown ks) initiator now\<rparr>))"

definition idempotency_key :: "string \<Rightarrow> string \<Rightarrow> string" where
  "idempotency_key initiator reason = initiator @ ''::'' @ reason"

definition idempotentRequestID ::
  "string \<Rightarrow> string \<Rightarrow> int \<Rightarrow> int \<Rightarrow> string \<Rightarrow> kill_switch \<Rightarrow> string \<times> kill_switch" where
  "idempotentRequestID initiator reason windowMs now fresh ks =
     (let key = idempotency_key initiator reason;
          new = (fresh, ks\<lparr>ks_idempotency := jset (ks_idempotency ks) key (fresh, now)\<rparr>)
      in case jget (ks_idempotency ks) key of
           Some (requestID, since) \<Rightarrow> if now - since < windowMs then (requestID, ks) else new
         | None \<Rightarrow> new)"

definition generateMfa :: "string \<Rightarrow> string \<Rightarrow> int \<Rightarrow> int \<Rightarrow> string \<Rightarrow> kill_switch \<Rightarrow> kill_switch" where
  "generateMfa requestID initiator ttlMs now code ks =
     ks\<lparr>ks_mfa := jset (ks_mfa ks) requestID
       \<lparr>mf_requestID = requestID, mf_initiator = initiator, mf_code = code, mf_expiresAt = now + ttlMs\<rparr>\<rparr>"

definition verifyMfa :: "string \<Rightarrow> string \<Rightarrow> string \<Rightarrow> int \<Rightarrow> kill_switch \<Rightarrow> bool \<times> kill_switch" where
  "verifyMfa requestID initiator code now ks =
     (case jget (ks_mfa ks) requestID of
        None \<Rightarrow> (False, ks)
      | Some token \<Rightarrow>
          if mf_initiator token \<noteq> initiator then (False, ks)
          else if mf_expiresAt token < now then (False, ks)
          else if mf_code token \<noteq> code then (False, ks)
          else (True, ks\<lparr>ks_mfa := jdel (ks_mfa ks) requestID\<rparr>))"

definition setSwitch :: "switch_state \<Rightarrow> kill_switch \<Rightarrow> kill_switch" where
  "setSwitch state ks = ks\<lparr>ks_current := Some state\<rparr>"

definition clearSwitch :: "kill_switch \<Rightarrow> kill_switch" where
  "clearSwitch ks = ks\<lparr>ks_current := None\<rparr>"

definition getSwitch :: "int \<Rightarrow> kill_switch \<Rightarrow> switch_state option \<times> kill_switch" where
  "getSwitch now ks =
     (case ks_current ks of
        None \<Rightarrow> (None, ks)
      | Some parsed \<Rightarrow>
          if sw_active parsed then
            (let ttl = (case sw_ttl parsed of Some t \<Rightarrow> t | None \<Rightarrow> SWITCH_DEFAULT_TTL_MS)
             in if now - sw_initiatedAt parsed > ttl then (None, clearSwitch ks) else (Some parsed, ks))
          else (Some parsed, ks))"

text \<open>What the switch blocks; the answer is the state that blocks, if one does.\<close>

definition assertSchedulingAllowed :: "string option \<Rightarrow> int \<Rightarrow> kill_switch \<Rightarrow> switch_state option \<times> kill_switch" where
  "assertSchedulingAllowed workspaceId now ks =
     (let (found, ks1) = getSwitch now ks in
      (case found of
         None \<Rightarrow> None
       | Some state \<Rightarrow>
           if \<not> sw_active state then None
           else if sw_scope state = ''global'' \<or> \<not> truthy (sw_workspaceId state) then Some state
           else if truthy workspaceId \<and> sw_workspaceId state \<noteq> workspaceId then None
           else Some state, ks1))"

section \<open>Control messages\<close>

definition getLastSeq :: "string \<Rightarrow> string \<Rightarrow> kill_switch \<Rightarrow> int" where
  "getLastSeq requestID sessionID ks =
     (case jget (ks_seq ks) (requestID, sessionID) of Some v \<Rightarrow> v | None \<Rightarrow> 0)"

definition setLastSeq :: "string \<Rightarrow> string \<Rightarrow> int \<Rightarrow> kill_switch \<Rightarrow> kill_switch" where
  "setLastSeq requestID sessionID n ks = ks\<lparr>ks_seq := jset (ks_seq ks) (requestID, sessionID) n\<rparr>"

definition cancelSessionExecution :: "string \<Rightarrow> kill_switch \<Rightarrow> kill_switch" where
  "cancelSessionExecution sessionID ks = ks\<lparr>ks_cancelled := ks_cancelled ks @ [sessionID]\<rparr>"

definition make_ack :: "control_input \<Rightarrow> ack_status \<Rightarrow> string option \<Rightarrow> int \<Rightarrow> control_ack" where
  "make_ack m status reason now =
     \<lparr>ack_requestID = ci_requestID m, ack_sessionID = ci_sessionID m, ack_seq = ci_seq m, ack_status = status,
      ack_reason = reason, ack_timestamp = now\<rparr>"

definition audit_ack :: "control_input \<Rightarrow> string \<Rightarrow> string \<Rightarrow> int \<Rightarrow> kill_switch \<Rightarrow> kill_switch" where
  "audit_ack m result reason now ks =
     writeAudit ''control.ack'' (Some (ci_requestID m)) (Some (ci_sessionID m)) (ci_initiator m) result reason now ks"

text \<open>\<open>failure\<close> is the message with which cancelling throws, if it does.\<close>

definition handleControl :: "string option \<Rightarrow> control_input \<Rightarrow> int \<Rightarrow> kill_switch \<Rightarrow> control_ack \<times> kill_switch" where
  "handleControl failure m now ks =
     (if ci_seq m \<le> getLastSeq (ci_requestID m) (ci_sessionID m) ks then
        (make_ack m Ack_rejected (Some ''seq_not_higher'') now, audit_ack m ''rejected'' ''seq_not_higher'' now ks)
      else
        let ks1 = setLastSeq (ci_requestID m) (ci_sessionID m) (ci_seq m) ks;
            cancels = ci_action m = Cancel_task \<or> ci_action m = Pause_task
        in case (if cancels then failure else None) of
             None \<Rightarrow>
               (let ks2 = (if cancels then cancelSessionExecution (ci_sessionID m) ks1 else ks1)
                in (make_ack m Ack_accepted None now, audit_ack m ''accepted'' [] now ks2))
           | Some message \<Rightarrow> (make_ack m Ack_error (Some message) now, audit_ack m ''error'' message now ks1))"

text \<open>The message goes through the transport of this process, which waits for the answer and a timeout; when
  the timeout is first, the handler still runs to its end.\<close>

definition publishControl ::
  "bool \<Rightarrow> string option \<Rightarrow> control_input \<Rightarrow> int \<Rightarrow> kill_switch \<Rightarrow> (string + control_ack) \<times> kill_switch" where
  "publishControl late failure m now ks =
     (let ks1 = writeAudit ''control.publish'' (Some (ci_requestID m)) (Some (ci_sessionID m)) (ci_initiator m) [] [] now ks
      in if late then
           (Inl ''ACK timeout'', snd (handleControl failure m now
              (writeAudit ''control.timeout'' (Some (ci_requestID m)) (Some (ci_sessionID m)) (ci_initiator m) []
                 ''ACK timeout'' now ks1)))
         else (let (ack, ks2) = handleControl failure m now ks1 in (Inr ack, ks2)))"

text \<open>\<open>failure\<close> is the message with which the forced kill throws.\<close>

definition forceKill ::
  "string option \<Rightarrow> string \<Rightarrow> string \<Rightarrow> string \<Rightarrow> string \<Rightarrow> int \<Rightarrow> kill_switch \<Rightarrow> string option \<times> kill_switch" where
  "forceKill failure sessionID requestID initiator reason now ks =
     (case failure of
        Some message \<Rightarrow> (Some message, ks)
      | None \<Rightarrow> (None, writeAudit ''worker.force_kill'' (Some requestID) (Some sessionID) initiator [] reason now
          (cancelSessionExecution sessionID ks)))"

text \<open>The statuses list the sessions with whether they are idle; a session whose workspace cannot be found is
  in none.\<close>

definition listBusySessionIDs :: "(string \<times> bool) list \<Rightarrow> (string \<Rightarrow> string option) \<Rightarrow> string option \<Rightarrow> string list" where
  "listBusySessionIDs statuses workspaceOf workspaceId =
     (let allBusy = map fst (filter (\<lambda>s. \<not> snd s) statuses) in
      if \<not> truthy workspaceId then allBusy
      else filter (\<lambda>s. workspaceOf s = workspaceId) allBusy)"

definition createSnapshotPlaceholder ::
  "bool \<Rightarrow> string \<Rightarrow> string \<Rightarrow> int \<Rightarrow> kill_switch \<Rightarrow> string option \<times> kill_switch" where
  "createSnapshotPlaceholder broken requestID initiator now ks =
     (if broken then (None, writeAudit ''snapshot.failure'' (Some requestID) None initiator [] [] now ks)
      else (Some (''local://killswitch/snapshot-'' @ requestID @ ''.json''),
            ks\<lparr>ks_snapshots := ks_snapshots ks @ [requestID]\<rparr>))"

section \<open>The routes\<close>

record operator_env =
  oe_enabled :: bool
  oe_user :: "string option"
  oe_operator :: "string option"
  oe_rules :: "perm_rule list"

datatype operator_refusal = Auth_required | Operator_mismatch | Capability_denied perm_action

definition assertKillSwitchOperator :: "operator_env \<Rightarrow> operator_refusal option" where
  "assertKillSwitchOperator env =
     (if \<not> oe_enabled env then None
      else if \<not> truthy (oe_user env) then Some Auth_required
      else if truthy (oe_operator env) \<and> oe_user env \<noteq> oe_operator env then Some Operator_mismatch
      else let decision = evaluate ''kill_switch.trigger'' ''*'' [oe_rules env] in
           if ru_action decision \<noteq> Allow then Some (Capability_denied (ru_action decision)) else None)"

definition request_initiator :: "string option \<Rightarrow> operator_env \<Rightarrow> string" where
  "request_initiator initiator env =
     (if truthy initiator then the initiator else if truthy (oe_user env) then the (oe_user env) else ''unknown'')"

record trigger_input =
  tr_initiator :: "string option"
  tr_reason :: string
  tr_mode :: string
  tr_scope :: string
  tr_workspaceId :: "string option"
  tr_ttl :: "int option"
  tr_mfaCode :: "string option"
  tr_requestID :: "string option"

record control_fate =
  fate_late :: bool
  fate_cancel :: "string option"
  fate_force :: "string option"

record trigger_world =
  tw_operator :: operator_env
  tw_fresh :: string
  tw_code :: string
  tw_snapshot_broken :: bool
  tw_statuses :: "(string \<times> bool) list"
  tw_workspaceOf :: "string \<Rightarrow> string option"
  tw_control :: "string \<Rightarrow> control_fate"

datatype switch_response =
    Operator_refused operator_refusal
  | Cooldown_active int
  | Mfa_required string
  | Mfa_invalid string
  | Triggered string "string option"
  | Switch_canceled "string option"
  | Controlled string control_ack
  | Ack_refused string control_ack
  | Ack_timeout string
  | Route_failed string

definition ack_status_text :: "ack_status \<Rightarrow> string" where
  "ack_status_text s = (case s of Ack_accepted \<Rightarrow> ''accepted'' | Ack_rejected \<Rightarrow> ''rejected'' | Ack_error \<Rightarrow> ''error'')"

text \<open>One session of the loop; \<open>Inl\<close> once a forced kill has thrown, which ends it (the second attempt, in the
  handler of the first, throws as well).\<close>

definition kill_session ::
  "(string \<Rightarrow> control_fate) \<Rightarrow> string \<Rightarrow> string \<Rightarrow> int \<Rightarrow> string \<Rightarrow>
   (string + string list) \<times> kill_switch \<Rightarrow> (string + string list) \<times> kill_switch" where
  "kill_session control requestID initiator now sessionID acc =
     (case acc of
        (Inl message, ks) \<Rightarrow> (Inl message, ks)
      | (Inr failures, ks) \<Rightarrow>
          let fate = control sessionID;
              (answer, ks1) = publishControl (fate_late fate) (fate_cancel fate)
                \<lparr>ci_requestID = requestID, ci_sessionID = sessionID, ci_seq = now, ci_action = Cancel_task,
                 ci_initiator = initiator\<rparr> now ks;
              force = (\<lambda>reason.
                (case forceKill (fate_force fate) sessionID requestID initiator reason now ks1 of
                   (Some message, ks2) \<Rightarrow> (Inl message, ks2)
                 | (None, ks2) \<Rightarrow> (Inr (failures @ [sessionID]), ks2)))
          in case answer of
               Inr ack \<Rightarrow>
                 if ack_status ack \<noteq> Ack_accepted then force (''ack_'' @ ack_status_text (ack_status ack))
                 else (Inr failures, ks1)
             | Inl _ \<Rightarrow> force ''ack_timeout'')"

definition activate_switch ::
  "trigger_world \<Rightarrow> trigger_input \<Rightarrow> string \<Rightarrow> string \<Rightarrow> int \<Rightarrow> kill_switch \<Rightarrow> switch_response \<times> kill_switch" where
  "activate_switch w body requestID initiator now ks =
     (let (snapshotURL, ks1) = createSnapshotPlaceholder (tw_snapshot_broken w) requestID initiator now ks;
          ks2 = setSwitch
            \<lparr>sw_active = True, sw_state = Soft_paused, sw_requestID = requestID, sw_initiator = initiator,
             sw_reason = tr_reason body, sw_initiatedAt = now, sw_mode = tr_mode body,
             sw_scope = (if truthy (tr_workspaceId body) then ''workspace'' else tr_scope body),
             sw_workspaceId = tr_workspaceId body, sw_ttl = tr_ttl body, sw_snapshotURL = snapshotURL\<rparr> ks1;
          ks3 = writeAudit ''kill_switch.trigger'' (Some requestID) None initiator ''accepted'' [] now ks2;
          busy = listBusySessionIDs (tw_statuses w) (tw_workspaceOf w) (tr_workspaceId body);
          (killed, ks4) = fold (kill_session (tw_control w) requestID initiator now) busy (Inr [], ks3)
      in case killed of
           Inl message \<Rightarrow> (Route_failed message, ks4)
         | Inr failures \<Rightarrow>
             (Triggered requestID snapshotURL,
              if failures \<noteq> []
              then writeAudit ''kill_switch.trigger_partial'' (Some requestID) None initiator ''partial''
                     ''some_sessions_force_killed'' now ks4
              else ks4))"

definition confirm_trigger ::
  "trigger_world \<Rightarrow> trigger_input \<Rightarrow> string \<Rightarrow> int \<Rightarrow> string \<times> kill_switch \<Rightarrow> switch_response \<times> kill_switch" where
  "confirm_trigger w body initiator now req =
     (let (requestID, ks) = req in
      if \<not> truthy (tr_mfaCode body) then
        (Mfa_required requestID,
         writeAudit ''kill_switch.mfa_challenge_generated'' (Some requestID) None initiator ''challenge'' [] now
           (generateMfa requestID initiator 300000 now (tw_code w) ks))
      else
        let (mfaOk, ks1) = verifyMfa requestID initiator (the (tr_mfaCode body)) now ks
        in if \<not> mfaOk then
             (Mfa_invalid requestID,
              writeAudit ''kill_switch.mfa_failed'' (Some requestID) None initiator ''denied'' [] now ks1)
           else activate_switch w body requestID initiator now ks1)"

definition trigger_route ::
  "trigger_world \<Rightarrow> trigger_input \<Rightarrow> int \<Rightarrow> kill_switch \<Rightarrow> switch_response \<times> kill_switch" where
  "trigger_route w body now ks =
     (case assertKillSwitchOperator (tw_operator w) of
        Some refusal \<Rightarrow> (Operator_refused refusal, ks)
      | None \<Rightarrow>
          let initiator = request_initiator (tr_initiator body) (tw_operator w);
              (remaining, ks1) = checkCooldown initiator 5000 now ks
          in case remaining of
               Some ms \<Rightarrow> (Cooldown_active ms, ks1)
             | None \<Rightarrow> confirm_trigger w body initiator now
                 (case tr_requestID body of
                    Some r \<Rightarrow> (r, ks1)
                  | None \<Rightarrow> idempotentRequestID initiator (tr_reason body) 10000 now (tw_fresh w) ks1))"

definition cancel_route ::
  "operator_env \<Rightarrow> string option \<Rightarrow> string option \<Rightarrow> int \<Rightarrow> kill_switch \<Rightarrow> switch_response \<times> kill_switch" where
  "cancel_route env requestID initiator0 now ks =
     (case assertKillSwitchOperator env of
        Some refusal \<Rightarrow> (Operator_refused refusal, ks)
      | None \<Rightarrow>
          let initiator = request_initiator initiator0 env;
              (remaining, ks1) = checkCooldown initiator 5000 now ks
          in case remaining of
               Some ms \<Rightarrow> (Cooldown_active ms, ks1)
             | None \<Rightarrow> (Switch_canceled requestID,
                 writeAudit ''kill_switch.cancel'' requestID None initiator ''accepted'' [] now (clearSwitch ks1)))"

definition action_text :: "control_action \<Rightarrow> string" where
  "action_text a = (case a of Pause_task \<Rightarrow> ''pause'' | Resume_task \<Rightarrow> ''resume'' | Cancel_task \<Rightarrow> ''cancel''
     | Snapshot_task \<Rightarrow> ''snapshot'' | Set_priority \<Rightarrow> ''set_priority'')"

definition control_route ::
  "trigger_world \<Rightarrow> string \<Rightarrow> string option \<Rightarrow> control_action \<Rightarrow> int option \<Rightarrow> int \<Rightarrow> kill_switch \<Rightarrow> switch_response \<times> kill_switch" where
  "control_route w sessionID initiator0 action seq now ks =
     (case assertKillSwitchOperator (tw_operator w) of
        Some refusal \<Rightarrow> (Operator_refused refusal, ks)
      | None \<Rightarrow>
          let initiator = request_initiator initiator0 (tw_operator w);
              (remaining, ks1) = checkCooldown initiator 5000 now ks
          in case remaining of
               Some ms \<Rightarrow> (Cooldown_active ms, ks1)
             | None \<Rightarrow>
                 let (requestID, ks2) = idempotentRequestID initiator (''task:'' @ sessionID @ '':'' @ action_text action)
                        5000 now (tw_fresh w) ks1;
                     fate = tw_control w sessionID;
                     (answer, ks3) = publishControl (fate_late fate) (fate_cancel fate)
                       \<lparr>ci_requestID = requestID, ci_sessionID = sessionID,
                        ci_seq = (case seq of Some n \<Rightarrow> n | None \<Rightarrow> now), ci_action = action, ci_initiator = initiator\<rparr> now ks2;
                     force = (\<lambda>reason response.
                       (case forceKill (fate_force fate) sessionID requestID initiator reason now ks3 of
                          (Some message, ks4) \<Rightarrow> (Route_failed message, ks4)
                        | (None, ks4) \<Rightarrow> (response, ks4)))
                 in case answer of
                      Inr ack \<Rightarrow>
                        if ack_status ack \<noteq> Ack_accepted
                        then force (''ack_'' @ ack_status_text (ack_status ack)) (Ack_refused requestID ack)
                        else (Controlled requestID ack, ks3)
                    | Inl _ \<Rightarrow> force ''ack_timeout'' (Ack_timeout requestID))"

section \<open>Scheduling\<close>

text \<open>
  Scheduling is blocked exactly while a switch is active and not older than its time to live, by a global
  switch for every workspace, by the switch of a workspace for that workspace and for a caller that names none.
\<close>

theorem scheduling_blocked_iff:
  "fst (assertSchedulingAllowed workspaceId now ks) = Some st \<longleftrightarrow>
     ks_current ks = Some st \<and> sw_active st \<and>
     now \<le> sw_initiatedAt st + (case sw_ttl st of Some t \<Rightarrow> t | None \<Rightarrow> 300000) \<and>
     (sw_scope st = ''global'' \<or> sw_workspaceId st \<in> {None, Some [], workspaceId} \<or> workspaceId \<in> {None, Some []})"
proof -
  have b: "truthy w \<longleftrightarrow> w \<noteq> None \<and> w \<noteq> Some []" for w :: "string option"
    by (cases w) (auto simp: truthy_def)
  show ?thesis
    by (auto simp: assertSchedulingAllowed_def getSwitch_def Let_def b SWITCH_DEFAULT_TTL_MS_def split: option.splits if_splits)
qed

section \<open>Control messages in order\<close>

fun handle_all :: "(string option \<times> control_input \<times> int) list \<Rightarrow> kill_switch \<Rightarrow> control_ack list \<times> kill_switch" where
  "handle_all [] ks = ([], ks)"
| "handle_all ((failure, m, now) # ms) ks =
     (let (ack, ks1) = handleControl failure m now ks; (acks, ks2) = handle_all ms ks1 in (ack # acks, ks2))"

definition ack_key :: "control_ack \<Rightarrow> string \<times> string" where
  "ack_key a = (ack_requestID a, ack_sessionID a)"

definition taken :: "control_ack list \<Rightarrow> control_ack list" where
  "taken acks = filter (\<lambda>a. ack_status a \<noteq> Ack_rejected) acks"

lemma handleControl_seq:
  "getLastSeq r s (snd (handleControl failure m now ks)) =
     (if r = ci_requestID m \<and> s = ci_sessionID m then max (getLastSeq r s ks) (ci_seq m) else getLastSeq r s ks)"
  by (auto simp: handleControl_def Let_def getLastSeq_def setLastSeq_def audit_ack_def writeAudit_def
      cancelSessionExecution_def jget_jset max_def split: option.splits)

lemma handleControl_ack:
  "ack_key (fst (handleControl failure m now ks)) = (ci_requestID m, ci_sessionID m) \<and>
   ack_seq (fst (handleControl failure m now ks)) = ci_seq m \<and>
   (ack_status (fst (handleControl failure m now ks)) \<noteq> Ack_rejected \<longleftrightarrow>
      getLastSeq (ci_requestID m) (ci_sessionID m) ks < ci_seq m)"
  by (auto simp: handleControl_def Let_def make_ack_def ack_key_def split: option.splits)

lemma handle_all_Cons:
  "fst (handle_all ((failure, m, now) # ms) ks) =
     fst (handleControl failure m now ks) # fst (handle_all ms (snd (handleControl failure m now ks)))"
  by (simp add: Let_def split: prod.split)

lemma taken_above:
  "a \<in> set (taken (fst (handle_all ms ks))) \<Longrightarrow> getLastSeq (ack_requestID a) (ack_sessionID a) ks < ack_seq a"
proof (induction ms arbitrary: ks)
  case Nil
  then show ?case by (simp add: taken_def)
next
  case (Cons x ms)
  obtain failure m now where x: "x = (failure, m, now)" by (cases x)
  let ?ack = "fst (handleControl failure m now ks)" and ?ks = "snd (handleControl failure m now ks)"
  consider "a = ?ack" "ack_status ?ack \<noteq> Ack_rejected" | "a \<in> set (taken (fst (handle_all ms ?ks)))"
    using Cons.prems unfolding x handle_all_Cons by (auto simp: taken_def split: if_splits)
  then show ?case
  proof cases
    case 1
    then show ?thesis using handleControl_ack [of failure m now ks] by (simp add: ack_key_def)
  next
    case 2
    then show ?thesis
      using Cons.IH [OF 2] handleControl_seq [of "ack_requestID a" "ack_sessionID a" failure m now ks]
      by (simp split: if_splits)
  qed
qed

text \<open>
  Of the messages of one request to one session, those that are carried out (or fail) have ever higher,
  positive numbers, whatever order they arrive in: a message that is repeated or late is rejected.
\<close>

theorem controls_in_order:
  assumes "ks_seq ks = []"
  shows "sorted_wrt (\<lambda>a b. ack_key a = ack_key b \<longrightarrow> ack_seq a < ack_seq b) (taken (fst (handle_all ms ks))) \<and>
    list_all (\<lambda>a. 0 < ack_seq a) (taken (fst (handle_all ms ks)))"
proof -
  have "sorted_wrt (\<lambda>a b. ack_key a = ack_key b \<longrightarrow> ack_seq a < ack_seq b) (taken (fst (handle_all ms ks)))" for ks
  proof (induction ms arbitrary: ks)
    case Nil
    then show ?case by (simp add: taken_def)
  next
    case (Cons x ms)
    obtain failure m now where x: "x = (failure, m, now)" by (cases x)
    let ?ack = "fst (handleControl failure m now ks)" and ?ks = "snd (handleControl failure m now ks)"
    have "ack_seq ?ack < ack_seq b" if "b \<in> set (taken (fst (handle_all ms ?ks)))" "ack_key ?ack = ack_key b" for b
      using taken_above [OF that(1)] handleControl_ack [of failure m now ks] that(2)
        handleControl_seq [of "ack_requestID b" "ack_sessionID b" failure m now ks]
      by (simp add: ack_key_def)
    then show ?case
      using Cons.IH [of ?ks] unfolding x handle_all_Cons by (simp add: taken_def)
  qed
  moreover have "0 < ack_seq a" if "a \<in> set (taken (fst (handle_all ms ks)))" for a
    using taken_above [OF that] assms by (simp add: getLastSeq_def)
  ultimately show ?thesis by (simp add: list_all_iff)
qed

theorem controls_in_order_witness:
  "list_all (\<lambda>a. 0 < ack_seq a) (taken (fst (handle_all
     [(None, \<lparr>ci_requestID = ''r'', ci_sessionID = ''s'', ci_seq = 2, ci_action = Cancel_task, ci_initiator = ''u''\<rparr>, 1),
      (None, \<lparr>ci_requestID = ''r'', ci_sessionID = ''s'', ci_seq = 1, ci_action = Cancel_task, ci_initiator = ''u''\<rparr>, 2)]
     empty_switch)))"
proof -
  have "ks_seq empty_switch = []" by (simp add: empty_switch_def)
  from controls_in_order [OF this] show ?thesis by blast
qed

section \<open>Codes and names\<close>

lemma audit_frame [simp]:
  "ks_mfa (writeAudit a r s i res why now ks) = ks_mfa ks"
  "ks_cooldown (writeAudit a r s i res why now ks) = ks_cooldown ks"
  "ks_current (writeAudit a r s i res why now ks) = ks_current ks"
  "ks_cancelled (writeAudit a r s i res why now ks) = ks_cancelled ks"
  by (simp_all add: writeAudit_def)

lemma cooldown_frame [simp]: "ks_mfa (snd (checkCooldown i w now ks)) = ks_mfa ks"
  by (simp add: checkCooldown_def split: option.split)

lemma request_frame [simp]:
  "ks_mfa (snd (idempotentRequestID i why w now fresh ks)) = ks_mfa ks"
  "ks_cooldown (snd (idempotentRequestID i why w now fresh ks)) = ks_cooldown ks"
  by (auto simp: idempotentRequestID_def Let_def split: option.split prod.split)

lemma handle_frame [simp]:
  "ks_mfa (snd (handleControl failure m now ks)) = ks_mfa ks"
  "ks_cooldown (snd (handleControl failure m now ks)) = ks_cooldown ks"
  "ks_current (snd (handleControl failure m now ks)) = ks_current ks"
  by (auto simp: handleControl_def Let_def audit_ack_def setLastSeq_def cancelSessionExecution_def split: option.split)

lemma publish_frame [simp]:
  "ks_mfa (snd (publishControl late failure m now ks)) = ks_mfa ks"
  "ks_cooldown (snd (publishControl late failure m now ks)) = ks_cooldown ks"
  "ks_current (snd (publishControl late failure m now ks)) = ks_current ks"
  by (simp_all add: publishControl_def Let_def case_prod_beta)

lemma force_frame [simp]:
  "ks_mfa (snd (forceKill failure s r i why now ks)) = ks_mfa ks"
  "ks_cooldown (snd (forceKill failure s r i why now ks)) = ks_cooldown ks"
  "ks_current (snd (forceKill failure s r i why now ks)) = ks_current ks"
  by (auto simp: forceKill_def cancelSessionExecution_def split: option.split)

lemma kill_frame:
  "ks_mfa (snd (kill_session control r i now s acc)) = ks_mfa (snd acc) \<and>
   ks_cooldown (snd (kill_session control r i now s acc)) = ks_cooldown (snd acc) \<and>
   ks_current (snd (kill_session control r i now s acc)) = ks_current (snd acc)"
  by (cases acc; cases "fst acc")
    (simp_all add: kill_session_def Let_def case_prod_beta split: sum.split option.split)

lemma kill_all_frame:
  "ks_mfa (snd (fold (kill_session control r i now) ss acc)) = ks_mfa (snd acc) \<and>
   ks_cooldown (snd (fold (kill_session control r i now) ss acc)) = ks_cooldown (snd acc) \<and>
   ks_current (snd (fold (kill_session control r i now) ss acc)) = ks_current (snd acc)"
  by (induction ss arbitrary: acc) (simp_all add: kill_frame)

lemma snapshot_frame [simp]:
  "ks_mfa (snd (createSnapshotPlaceholder broken r i now ks)) = ks_mfa ks"
  "ks_cooldown (snd (createSnapshotPlaceholder broken r i now ks)) = ks_cooldown ks"
  by (simp_all add: createSnapshotPlaceholder_def)

lemma activate_frame:
  "ks_mfa (snd (activate_switch w body r i now ks)) = ks_mfa ks"
  "ks_cooldown (snd (activate_switch w body r i now ks)) = ks_cooldown ks"
  by (simp_all add: activate_switch_def Let_def case_prod_beta kill_all_frame setSwitch_def split: sum.split)

definition triggers :: "string \<Rightarrow> switch_response \<Rightarrow> bool" where
  "triggers rid r \<longleftrightarrow> (case r of Triggered rid' u \<Rightarrow> rid' = rid | _ \<Rightarrow> False)"

lemma triggers_simps [simp]:
  "triggers rid (Triggered rid' u) \<longleftrightarrow> rid' = rid" "\<not> triggers rid (Operator_refused x)"
  "\<not> triggers rid (Cooldown_active n)" "\<not> triggers rid (Mfa_required rid')" "\<not> triggers rid (Mfa_invalid rid')"
  "\<not> triggers rid (Switch_canceled y)" "\<not> triggers rid (Controlled rid' a)" "\<not> triggers rid (Ack_refused rid' a)"
  "\<not> triggers rid (Ack_timeout rid')" "\<not> triggers rid (Route_failed msg)"
  by (simp_all add: triggers_def)

lemma activate_response:
  "fst (activate_switch w body rid i now ks) = Triggered rid (fst (createSnapshotPlaceholder (tw_snapshot_broken w) rid i now ks)) \<or>
   (\<exists>msg. fst (activate_switch w body rid i now ks) = Route_failed msg)"
  by (simp add: activate_switch_def Let_def case_prod_beta split: sum.split)

lemma verifyMfa_ok:
  "fst (verifyMfa rid i code now ks) \<Longrightarrow>
     \<exists>tok. jget (ks_mfa ks) rid = Some tok \<and> mf_initiator tok = i \<and> now \<le> mf_expiresAt tok \<and> mf_code tok = code"
  by (auto simp: verifyMfa_def split: option.splits if_splits)

lemma verifyMfa_mfa:
  "ks_mfa (snd (verifyMfa rid i code now ks)) = (if fst (verifyMfa rid i code now ks) then jdel (ks_mfa ks) rid else ks_mfa ks)"
  by (simp add: verifyMfa_def split: option.split)

text \<open>What a request to trigger does to the codes, by its answer.\<close>

definition mfa_step ::
  "string \<Rightarrow> int \<Rightarrow> (string, mfa_token) jmap \<Rightarrow> switch_response \<Rightarrow> (string, mfa_token) jmap \<Rightarrow> bool" where
  "mfa_step who now before r after \<longleftrightarrow>
     (case r of
        Mfa_required rid \<Rightarrow>
          \<exists>code. after = jset before rid
            \<lparr>mf_requestID = rid, mf_initiator = who, mf_code = code, mf_expiresAt = now + 300000\<rparr>
      | Triggered rid u \<Rightarrow>
          after = jdel before rid \<and>
          (\<exists>tok. jget before rid = Some tok \<and> mf_initiator tok = who \<and> now \<le> mf_expiresAt tok)
      | _ \<Rightarrow> after = before \<or> (\<exists>rid. after = jdel before rid))"

lemma confirm_mfa_step:
  "mfa_step who now (ks_mfa (snd req)) (fst (confirm_trigger w body who now req)) (ks_mfa (snd (confirm_trigger w body who now req)))"
proof (cases "truthy (tr_mfaCode body) \<and> fst (verifyMfa (fst req) who (the (tr_mfaCode body)) now (snd req))")
  case True
  let ?ks = "snd (verifyMfa (fst req) who (the (tr_mfaCode body)) now (snd req))"
  have go: "confirm_trigger w body who now req = activate_switch w body (fst req) who now ?ks"
    using True by (simp add: confirm_trigger_def Let_def case_prod_beta)
  have "ks_mfa ?ks = jdel (ks_mfa (snd req)) (fst req)" using True by (simp add: verifyMfa_mfa)
  then show ?thesis
    using True activate_response [of w body "fst req" who now ?ks] verifyMfa_ok [of "fst req" who "the (tr_mfaCode body)" now "snd req"]
    by (auto simp: go mfa_step_def activate_frame)
next
  case False
  then show ?thesis
    by (auto simp: confirm_trigger_def Let_def case_prod_beta mfa_step_def generateMfa_def verifyMfa_mfa)
qed

lemma trigger_mfa_step:
  "mfa_step (request_initiator (tr_initiator body) (tw_operator w)) now (ks_mfa ks)
     (fst (trigger_route w body now ks)) (ks_mfa (snd (trigger_route w body now ks)))"
proof (cases "assertKillSwitchOperator (tw_operator w)")
  case (Some x)
  then show ?thesis by (simp add: trigger_route_def mfa_step_def)
next
  case None
  define who where "who = request_initiator (tr_initiator body) (tw_operator w)"
  define ks1 where "ks1 = snd (checkCooldown who 5000 now ks)"
  define req where "req = (case tr_requestID body of Some r \<Rightarrow> (r, ks1)
    | None \<Rightarrow> idempotentRequestID who (tr_reason body) 10000 now (tw_fresh w) ks1)"
  have mfa: "ks_mfa (snd req) = ks_mfa ks" by (simp add: req_def ks1_def split: option.split)
  have "trigger_route w body now ks =
    (case fst (checkCooldown who 5000 now ks) of Some ms \<Rightarrow> (Cooldown_active ms, ks1) | None \<Rightarrow> confirm_trigger w body who now req)"
    using None unfolding trigger_route_def req_def ks1_def who_def by (simp add: Let_def case_prod_beta)
  then show ?thesis
    using confirm_mfa_step [of who now req w body] unfolding mfa who_def [symmetric]
    by (cases "fst (checkCooldown who 5000 now ks)") (simp_all add: mfa_step_def ks1_def)
qed

section \<open>A switch is triggered with a fresh code\<close>

text \<open>The requests served since the start, the latest first, each with its answer, the name it was made under and
  the time.\<close>

type_synonym switch_log = "(switch_response \<times> string \<times> int) list"

inductive switch_history :: "switch_log \<Rightarrow> kill_switch \<Rightarrow> bool" where
  History_start: "switch_history [] empty_switch"
| History_trigger: "switch_history h ks \<Longrightarrow>
    switch_history ((fst (trigger_route w body now ks), request_initiator (tr_initiator body) (tw_operator w), now) # h)
      (snd (trigger_route w body now ks))"
| History_cancel: "switch_history h ks \<Longrightarrow>
    switch_history ((fst (cancel_route env rid name now ks), request_initiator name env, now) # h)
      (snd (cancel_route env rid name now ks))"
| History_control: "switch_history h ks \<Longrightarrow>
    switch_history ((fst (control_route w sid name action n now ks), request_initiator name (tw_operator w), now) # h)
      (snd (control_route w sid name action n now ks))"

definition unused_since :: "string \<Rightarrow> switch_log \<Rightarrow> bool" where
  "unused_since rid newer \<longleftrightarrow> list_all (\<lambda>e. \<not> triggers rid (fst e)) newer"

definition challenged :: "string \<Rightarrow> string \<Rightarrow> int \<Rightarrow> switch_log \<Rightarrow> bool" where
  "challenged rid who t h \<longleftrightarrow>
     (\<exists>newer older. h = newer @ (Mfa_required rid, who, t) # older \<and> unused_since rid newer)"

lemma challenged_Cons:
  assumes "challenged rid who t h" "\<not> triggers rid (fst e)"
  shows "challenged rid who t (e # h)"
proof -
  obtain newer older where "h = newer @ (Mfa_required rid, who, t) # older" "unused_since rid newer"
    using assms(1) by (auto simp: challenged_def)
  then have "e # h = (e # newer) @ (Mfa_required rid, who, t) # older" "unused_since rid (e # newer)"
    using assms(2) by (simp_all add: unused_since_def)
  then show ?thesis unfolding challenged_def by blast
qed

lemma challenged_now: "challenged rid who t ((Mfa_required rid, who, t) # h)"
  unfolding challenged_def unused_since_def by (intro exI [of _ "[]"] exI [of _ h]) simp

definition codes_challenged :: "switch_log \<Rightarrow> (string, mfa_token) jmap \<Rightarrow> bool" where
  "codes_challenged h codes \<longleftrightarrow>
     (\<forall>rid tok. jget codes rid = Some tok \<longrightarrow> challenged rid (mf_initiator tok) (mf_expiresAt tok - 300000) h)"

lemma codes_challenged_del:
  assumes "codes_challenged h codes" "codes' = codes \<or> (\<exists>rid. codes' = jdel codes rid)" "\<forall>rid. \<not> triggers rid (fst e)"
  shows "codes_challenged (e # h) codes'"
proof -
  have "jget codes rid = Some tok" if "jget codes' rid = Some tok" for rid tok
    using assms(2) that by (auto simp: jget_jdel simp del: map_of_eq_Some_iff split: if_splits)
  then show ?thesis using assms(1,3) challenged_Cons unfolding codes_challenged_def by blast
qed

lemma codes_challenged_step:
  assumes "codes_challenged h codes" "mfa_step who now codes r codes'"
  shows "codes_challenged ((r, who, now) # h) codes'"
proof (cases r)
  case (Mfa_required rid)
  then obtain code where c: "codes' = jset codes rid
      \<lparr>mf_requestID = rid, mf_initiator = who, mf_code = code, mf_expiresAt = now + 300000\<rparr>"
    using assms(2) by (auto simp: mfa_step_def)
  show ?thesis
    using assms(1) challenged_Cons [where e = "(r, who, now)"] challenged_now
    unfolding codes_challenged_def c jget_jset Mfa_required by simp
next
  case (Triggered rid u)
  then have c: "codes' = jdel codes rid" using assms(2) by (simp add: mfa_step_def)
  show ?thesis
    using assms(1) challenged_Cons [where e = "(r, who, now)"]
    unfolding codes_challenged_def c jget_jdel Triggered by simp
qed (use assms codes_challenged_del [of h codes codes' "(r, who, now)"] in \<open>simp_all add: mfa_step_def\<close>)

lemma cancel_codes:
  "ks_mfa (snd (cancel_route env rid name now ks)) = ks_mfa ks \<and> (\<forall>r. \<not> triggers r (fst (cancel_route env rid name now ks)))"
  by (simp add: cancel_route_def Let_def case_prod_beta clearSwitch_def split: option.split)

lemma control_codes:
  "ks_mfa (snd (control_route w sid name action n now ks)) = ks_mfa ks \<and>
   (\<forall>r. \<not> triggers r (fst (control_route w sid name action n now ks)))"
  by (auto simp: control_route_def Let_def case_prod_beta forceKill_def cancelSessionExecution_def
      split: option.split sum.split)

lemma history_codes: "switch_history h ks \<Longrightarrow> codes_challenged h (ks_mfa ks)"
proof (induction rule: switch_history.induct)
  case History_start
  then show ?case by (simp add: codes_challenged_def empty_switch_def)
next
  case (History_trigger h ks w body now)
  then show ?case using codes_challenged_step trigger_mfa_step by blast
next
  case (History_cancel h ks env rid name now)
  then show ?case using codes_challenged_del cancel_codes by (metis fst_conv)
next
  case (History_control h ks w sid name action n now)
  then show ?case using codes_challenged_del control_codes by (metis fst_conv)
qed


definition quiet_world :: trigger_world where
  "quiet_world = \<lparr>tw_operator = \<lparr>oe_enabled = False, oe_user = None, oe_operator = None, oe_rules = []\<rparr>,
     tw_fresh = ''ks_1'', tw_code = ''123456'', tw_snapshot_broken = False, tw_statuses = [],
     tw_workspaceOf = (\<lambda>_. None), tw_control = (\<lambda>_. \<lparr>fate_late = False, fate_cancel = None, fate_force = None\<rparr>)\<rparr>"

definition stop_request :: "string option \<Rightarrow> trigger_input" where
  "stop_request code = \<lparr>tr_initiator = Some ''ops'', tr_reason = ''stop'', tr_mode = ''global'', tr_scope = ''global'',
     tr_workspaceId = None, tr_ttl = None, tr_mfaCode = code, tr_requestID = None\<rparr>"


section \<open>Every busy session is stopped\<close>

lemma handle_cancelled: "set (ks_cancelled ks) \<subseteq> set (ks_cancelled (snd (handleControl failure m now ks)))"
  by (auto simp: handleControl_def Let_def audit_ack_def setLastSeq_def cancelSessionExecution_def split: option.split)

lemma accepted_is_cancelled:
  "ack_status (fst (handleControl failure m now ks)) = Ack_accepted \<Longrightarrow> ci_action m = Cancel_task \<Longrightarrow>
   ci_sessionID m \<in> set (ks_cancelled (snd (handleControl failure m now ks)))"
  by (auto simp: handleControl_def Let_def make_ack_def audit_ack_def setLastSeq_def cancelSessionExecution_def
      split: option.splits if_splits)

lemma publish_cancelled: "set (ks_cancelled ks) \<subseteq> set (ks_cancelled (snd (publishControl late failure m now ks)))"
proof -
  have "set (ks_cancelled ks) \<subseteq> set (ks_cancelled (snd (handleControl failure m now (writeAudit a r s i x y now ks))))" for a r s i x y
    using handle_cancelled [of "writeAudit a r s i x y now ks"] by simp
  moreover have "set (ks_cancelled ks) \<subseteq>
      set (ks_cancelled (snd (handleControl failure m now (writeAudit a r s i x y now (writeAudit a' r' s' i' x' y' now ks)))))"
    for a r s i x y a' r' s' i' x' y'
    using handle_cancelled [of "writeAudit a r s i x y now (writeAudit a' r' s' i' x' y' now ks)"] by simp
  ultimately show ?thesis by (simp add: publishControl_def Let_def case_prod_beta)
qed

lemma kill_session_cancels:
  assumes "fst (kill_session control r i now s acc) = Inr fs"
  shows "(\<exists>fs'. fst acc = Inr fs') \<and>
    set (ks_cancelled (snd acc)) \<union> {s} \<subseteq> set (ks_cancelled (snd (kill_session control r i now s acc)))"
proof -
  obtain fs' ks where acc: "acc = (Inr fs', ks)"
    using assms by (cases acc; cases "fst acc") (auto simp: kill_session_def)
  let ?m = "\<lparr>ci_requestID = r, ci_sessionID = s, ci_seq = now, ci_action = Cancel_task, ci_initiator = i\<rparr>"
  let ?p = "publishControl (fate_late (control s)) (fate_cancel (control s)) ?m now ks"
  have grow: "set (ks_cancelled ks) \<subseteq> set (ks_cancelled (snd ?p))" by (rule publish_cancelled)
  show ?thesis
  proof (cases "\<exists>ack. fst ?p = Inr ack \<and> ack_status ack = Ack_accepted")
    case True
    then obtain ack where ack: "fst ?p = Inr ack" "ack_status ack = Ack_accepted" by blast
    then have "s \<in> set (ks_cancelled (snd ?p))"
      using accepted_is_cancelled [of "fate_cancel (control s)" ?m now]
      by (auto simp: publishControl_def Let_def case_prod_beta split: if_splits)
    then show ?thesis using ack grow by (auto simp: acc kill_session_def Let_def case_prod_beta)
  next
    case False
    then have "fate_force (control s) = None"
      using assms by (auto simp: acc kill_session_def Let_def case_prod_beta forceKill_def split: option.splits sum.splits)
    then show ?thesis
      using False grow by (auto simp: acc kill_session_def Let_def case_prod_beta forceKill_def cancelSessionExecution_def
          split: sum.splits)
  qed
qed

lemma kill_all_cancels:
  "fst (fold (kill_session control r i now) ss acc) = Inr fs \<Longrightarrow>
   (\<exists>fs'. fst acc = Inr fs') \<and>
   set (ks_cancelled (snd acc)) \<union> set ss \<subseteq> set (ks_cancelled (snd (fold (kill_session control r i now) ss acc)))"
proof (induction ss arbitrary: acc)
  case (Cons s ss)
  then obtain fs' where s: "fst (kill_session control r i now s acc) = Inr fs'"
    and rest: "set (ks_cancelled (snd (kill_session control r i now s acc))) \<union> set ss
      \<subseteq> set (ks_cancelled (snd (fold (kill_session control r i now) (s # ss) acc)))"
    by (metis fold_simps(2))
  then show ?case using kill_session_cancels [OF s] by auto
qed simp

lemma activate_stops:
  assumes "fst (activate_switch w body rid who now ks) = Triggered r u"
  shows "r = rid \<and>
    set (listBusySessionIDs (tw_statuses w) (tw_workspaceOf w) (tr_workspaceId body)) \<subseteq>
      set (ks_cancelled (snd (activate_switch w body rid who now ks))) \<and>
    (\<exists>st. ks_current (snd (activate_switch w body rid who now ks)) = Some st \<and>
      sw_active st \<and> sw_requestID st = rid \<and> sw_initiatedAt st = now)"
proof -
  define st where "st = \<lparr>sw_active = True, sw_state = Soft_paused, sw_requestID = rid, sw_initiator = who,
    sw_reason = tr_reason body, sw_initiatedAt = now, sw_mode = tr_mode body,
    sw_scope = (if truthy (tr_workspaceId body) then ''workspace'' else tr_scope body),
    sw_workspaceId = tr_workspaceId body, sw_ttl = tr_ttl body,
    sw_snapshotURL = fst (createSnapshotPlaceholder (tw_snapshot_broken w) rid who now ks)\<rparr>"
  define start where "start = writeAudit ''kill_switch.trigger'' (Some rid) None who ''accepted'' [] now
    (setSwitch st (snd (createSnapshotPlaceholder (tw_snapshot_broken w) rid who now ks)))"
  define busy where "busy = listBusySessionIDs (tw_statuses w) (tw_workspaceOf w) (tr_workspaceId body)"
  define res where "res = fold (kill_session (tw_control w) rid who now) busy (Inr [], start)"
  have out: "activate_switch w body rid who now ks =
    (case fst res of
       Inl message \<Rightarrow> (Route_failed message, snd res)
     | Inr failures \<Rightarrow> (Triggered rid (fst (createSnapshotPlaceholder (tw_snapshot_broken w) rid who now ks)),
         if failures \<noteq> [] then writeAudit ''kill_switch.trigger_partial'' (Some rid) None who ''partial''
           ''some_sessions_force_killed'' now (snd res) else snd res))"
    unfolding activate_switch_def res_def busy_def start_def st_def
    by (simp add: Let_def case_prod_beta split del: if_split)
  obtain fs where fs: "fst res = Inr fs" using assms unfolding out by (cases "fst res") simp_all
  have "ks_current (snd res) = Some st"
    using kill_all_frame [of "tw_control w" rid who now busy "(Inr [], start)"]
    by (simp add: res_def start_def setSwitch_def)
  moreover have "set busy \<subseteq> set (ks_cancelled (snd res))"
    using kill_all_cancels fs unfolding res_def by blast
  moreover have "sw_active st \<and> sw_requestID st = rid \<and> sw_initiatedAt st = now" by (simp add: st_def)
  ultimately show ?thesis using assms unfolding out fs busy_def by (auto split: if_splits)
qed

lemma triggered_by_activation:
  assumes "fst (trigger_route w body now ks) = Triggered r u"
  shows "\<exists>rid who ks0. trigger_route w body now ks = activate_switch w body rid who now ks0"
proof -
  have confirm: "\<exists>rid ks0. confirm_trigger w body who now req = activate_switch w body rid who now ks0"
    if "fst (confirm_trigger w body who now req) = Triggered r u" for who req
    using that by (auto simp: confirm_trigger_def Let_def case_prod_beta split: if_splits)
  define who where "who = request_initiator (tr_initiator body) (tw_operator w)"
  obtain req where "trigger_route w body now ks = confirm_trigger w body who now req"
    using assms by (simp add: trigger_route_def Let_def case_prod_beta who_def split: option.splits)
  then show ?thesis using confirm assms by metis
qed

text \<open>
  When a request triggers the switch, the switch is on under its name, and every busy session (of the
  workspace the request names, if it names one) has been cancelled, by its message or by force.
\<close>

theorem trigger_stops_sessions:
  assumes "fst (trigger_route w body now ks) = Triggered rid u"
  shows "set (listBusySessionIDs (tw_statuses w) (tw_workspaceOf w) (tr_workspaceId body)) \<subseteq>
      set (ks_cancelled (snd (trigger_route w body now ks))) \<and>
    (\<exists>st. ks_current (snd (trigger_route w body now ks)) = Some st \<and>
      sw_active st \<and> sw_requestID st = rid \<and> sw_initiatedAt st = now)"
  using assms activate_stops triggered_by_activation [OF assms] by metis

theorem trigger_stops_sessions_witness:
  "{''ses_1'', ''ses_2''} \<subseteq> set (ks_cancelled (snd (trigger_route
     (quiet_world\<lparr>tw_statuses := [(''ses_1'', False), (''ses_2'', False), (''ses_3'', True)],
        tw_control := (\<lambda>s. \<lparr>fate_late = s = ''ses_2'', fate_cancel = None, fate_force = None\<rparr>)\<rparr>)
     (stop_request (Some ''123456'')) 6000 (snd (trigger_route quiet_world (stop_request None) 0 empty_switch)))))"
proof -
  let ?w = "quiet_world\<lparr>tw_statuses := [(''ses_1'', False), (''ses_2'', False), (''ses_3'', True)],
        tw_control := (\<lambda>s. \<lparr>fate_late = s = ''ses_2'', fate_cancel = None, fate_force = None\<rparr>)\<rparr>"
  have "fst (trigger_route ?w (stop_request (Some ''123456'')) 6000
      (snd (trigger_route quiet_world (stop_request None) 0 empty_switch))) =
    Triggered ''ks_1'' (Some ''local://killswitch/snapshot-ks_1.json'')"
    by code_simp
  from trigger_stops_sessions [OF this] show ?thesis
    by (simp add: listBusySessionIDs_def stop_request_def truthy_def)
qed

section \<open>The cooldown\<close>

definition served :: "switch_response \<Rightarrow> bool" where
  "served r \<longleftrightarrow> (case r of Operator_refused x \<Rightarrow> False | Cooldown_active n \<Rightarrow> False | _ \<Rightarrow> True)"

lemma served_simps [simp]:
  "\<not> served (Operator_refused x)" "\<not> served (Cooldown_active n)" "served (Mfa_required rid)" "served (Mfa_invalid rid)"
  "served (Triggered rid u)" "served (Switch_canceled y)" "served (Controlled rid a)" "served (Ack_refused rid a)"
  "served (Ack_timeout rid)" "served (Route_failed msg)"
  by (simp_all add: served_def)

text \<open>A served request was free to act, and is remembered; a refused one changes no name's last use.\<close>

definition cooldown_step :: "string \<Rightarrow> int \<Rightarrow> (string, int) jmap \<Rightarrow> switch_response \<Rightarrow> (string, int) jmap \<Rightarrow> bool" where
  "cooldown_step who now before r after \<longleftrightarrow>
     (if served r
      then after = jset before who now \<and> (\<forall>since. jget before who = Some since \<longrightarrow> since + 5000 \<le> now)
      else after = before)"

lemma checkCooldown_free:
  "fst (checkCooldown who 5000 now ks) = None \<Longrightarrow>
   ks_cooldown (snd (checkCooldown who 5000 now ks)) = jset (ks_cooldown ks) who now \<and>
   (\<forall>since. jget (ks_cooldown ks) who = Some since \<longrightarrow> since + 5000 \<le> now)"
  by (auto simp: checkCooldown_def split: option.splits if_splits)

lemma checkCooldown_busy:
  "fst (checkCooldown who 5000 now ks) = Some ms \<Longrightarrow> snd (checkCooldown who 5000 now ks) = ks"
  by (auto simp: checkCooldown_def split: option.splits if_splits)

lemma confirm_cooldown:
  "served (fst (confirm_trigger w body who now req)) \<and> ks_cooldown (snd (confirm_trigger w body who now req)) = ks_cooldown (snd req)"
  using activate_response [of w body "fst req" who now "snd (verifyMfa (fst req) who (the (tr_mfaCode body)) now (snd req))"]
  by (auto simp: confirm_trigger_def Let_def case_prod_beta activate_frame generateMfa_def verifyMfa_def
      split: option.split)

lemma trigger_cooldown:
  "cooldown_step (request_initiator (tr_initiator body) (tw_operator w)) now (ks_cooldown ks)
     (fst (trigger_route w body now ks)) (ks_cooldown (snd (trigger_route w body now ks)))"
  using checkCooldown_free [of "request_initiator (tr_initiator body) (tw_operator w)" now ks]
    checkCooldown_busy [of "request_initiator (tr_initiator body) (tw_operator w)" now ks]
  by (auto simp: trigger_route_def Let_def case_prod_beta cooldown_step_def confirm_cooldown split: option.splits)

lemma cancel_cooldown:
  "cooldown_step (request_initiator name env) now (ks_cooldown ks)
     (fst (cancel_route env rid name now ks)) (ks_cooldown (snd (cancel_route env rid name now ks)))"
  using checkCooldown_free [of "request_initiator name env" now ks] checkCooldown_busy [of "request_initiator name env" now ks]
  by (auto simp: cancel_route_def Let_def case_prod_beta cooldown_step_def clearSwitch_def split: option.splits)

lemma control_cooldown:
  "cooldown_step (request_initiator name (tw_operator w)) now (ks_cooldown ks)
     (fst (control_route w sid name action n now ks)) (ks_cooldown (snd (control_route w sid name action n now ks)))"
  using checkCooldown_free [of "request_initiator name (tw_operator w)" now ks]
    checkCooldown_busy [of "request_initiator name (tw_operator w)" now ks]
  by (auto simp: control_route_def Let_def case_prod_beta cooldown_step_def forceKill_def cancelSessionExecution_def
      split: option.splits sum.splits)

definition served_log :: "switch_log \<Rightarrow> switch_log" where
  "served_log h = filter (\<lambda>e. served (fst e)) h"

definition spaced :: "switch_log \<Rightarrow> bool" where
  "spaced h \<longleftrightarrow>
     sorted_wrt (\<lambda>new old. fst (snd new) = fst (snd old) \<longrightarrow> snd (snd old) + 5000 \<le> snd (snd new)) (served_log h)"

definition last_uses :: "switch_log \<Rightarrow> (string, int) jmap \<Rightarrow> bool" where
  "last_uses h uses \<longleftrightarrow>
     (\<forall>r who t. (r, who, t) \<in> set (served_log h) \<longrightarrow> (\<exists>since. jget uses who = Some since \<and> t \<le> since))"

lemma cooldown_history_step:
  assumes "spaced h \<and> last_uses h uses" "cooldown_step who now uses r uses'"
  shows "spaced ((r, who, now) # h) \<and> last_uses ((r, who, now) # h) uses'"
proof (cases "served r")
  case False
  then show ?thesis using assms by (simp add: cooldown_step_def spaced_def last_uses_def served_log_def)
next
  case True
  then have new: "uses' = jset uses who now" "\<forall>since. jget uses who = Some since \<longrightarrow> since + 5000 \<le> now"
    using assms(2) by (auto simp: cooldown_step_def)
  have old: "t + 5000 \<le> now" if "(r', who, t) \<in> set (served_log h)" for r' t
    using assms(1) new(2) that unfolding last_uses_def by force
  have "last_uses ((r, who, now) # h) uses'"
    using assms(1) old True unfolding last_uses_def new(1) jget_jset by (force simp: served_log_def)
  then show ?thesis using assms(1) old True by (auto simp: spaced_def served_log_def)
qed

text \<open>
  In every history, two requests served under one name are at least five seconds apart (the one in
  between is refused and does not prolong the wait).
\<close>

theorem requests_are_spaced:
  assumes "switch_history h ks"
  shows "sorted_wrt (\<lambda>new old. fst (snd new) = fst (snd old) \<longrightarrow> snd (snd old) + 5000 \<le> snd (snd new))
    (filter (\<lambda>e. served (fst e)) h)"
proof -
  have "spaced h \<and> last_uses h (ks_cooldown ks)"
    using assms
  proof (induction rule: switch_history.induct)
    case History_start
    then show ?case by (simp add: spaced_def last_uses_def served_log_def)
  next
    case (History_trigger h ks w body now)
    show ?case by (rule cooldown_history_step [OF History_trigger.IH trigger_cooldown])
  next
    case (History_cancel h ks env rid name now)
    show ?case by (rule cooldown_history_step [OF History_cancel.IH cancel_cooldown])
  next
    case (History_control h ks w sid name action n now)
    show ?case by (rule cooldown_history_step [OF History_control.IH control_cooldown])
  qed
  then show ?thesis by (simp add: spaced_def served_log_def)
qed

theorem requests_are_spaced_witness:
  "sorted_wrt (\<lambda>new old. fst (snd new) = fst (snd old) \<longrightarrow> snd (snd old) + 5000 \<le> snd (snd new))
    (filter (\<lambda>e. served (fst e)) [(fst (trigger_route quiet_world (stop_request None) 0 empty_switch), ''ops'', 0 :: int)])"
proof -
  have "switch_history [(fst (trigger_route quiet_world (stop_request None) 0 empty_switch), ''ops'', 0)]
      (snd (trigger_route quiet_world (stop_request None) 0 empty_switch))"
    using History_trigger [OF History_start, of quiet_world "stop_request None" 0]
    by (simp add: request_initiator_def stop_request_def truthy_def)
  from requests_are_spaced [OF this] show ?thesis .
qed

text \<open>
  The switch of a workspace also blocks a caller that names no workspace, although it leaves every other
  workspace alone: who asks without naming one is stopped by the switch of any workspace.
\<close>

theorem unnamed_caller_is_blocked:
  "let ks = setSwitch
        \<lparr>sw_active = True, sw_state = Soft_paused, sw_requestID = ''ks_1'', sw_initiator = ''ops'', sw_reason = ''stop'',
         sw_initiatedAt = 0, sw_mode = ''global'', sw_scope = ''workspace'', sw_workspaceId = Some ''a'', sw_ttl = None,
         sw_snapshotURL = None\<rparr> empty_switch
   in fst (assertSchedulingAllowed (Some ''b'') 1 ks) = None \<and> fst (assertSchedulingAllowed None 1 ks) \<noteq> None"
  by code_simp

end
