(* ===== verification/Workflow_Runner.thy ===== *)
theory Workflow_Runner
  imports Workflow_Policy Kill_Switch
begin

text \<open>
  The state of the workflow runner (session/workflow-runner.ts) and its operations: queueing continuations,
  inspecting and dropping them, resuming what is picked, carrying out a resume with its failures, and deciding
  whether a session goes on. The sessions, the queue, the resumes in flight, the kill switch and the events are one
  record. Statuses, workspaces, budgets and the order of names are arguments; a resume is dispatched by
  \<open>resumePendingContinuations\<close> and carried out by \<open>executeResume\<close> later, with the outcome of the prompt loop
  as an argument. An operation reads the clock once. The lock around a resumption makes it one step.
\<close>

section \<open>The state\<close>

record runner =
  rn_sessions :: session_map
  rn_queue :: run_queue
  rn_inFlight :: "(string, int) jmap"
  rn_switch :: kill_switch
  rn_events :: "(string, runtime_event list) jmap"

record runner_world =
  rw_owner :: string
  rw_collate :: "string \<Rightarrow> string"
  rw_status :: "string \<Rightarrow> status_type"
  rw_workspaceOf :: "string \<Rightarrow> string option"
  rw_budget :: "pending_info \<Rightarrow> (string \<times> int) option"

abbreviation LEASE_MS :: int where "LEASE_MS \<equiv> 30000"

definition RESUME_IN_FLIGHT_TIMEOUT_MS :: int where
  "RESUME_IN_FLIGHT_TIMEOUT_MS = 5 * 60000"

definition still_in_flight :: "runner \<Rightarrow> string \<Rightarrow> int \<Rightarrow> bool" where
  "still_in_flight rn sid now \<longleftrightarrow>
     (case jget (rn_inFlight rn) sid of
        None \<Rightarrow> False | Some since \<Rightarrow> now - since < RESUME_IN_FLIGHT_TIMEOUT_MS)"

definition recent_events :: "runner \<Rightarrow> string \<Rightarrow> nat \<Rightarrow> runtime_event list" where
  "recent_events rn sid limit =
     (let es = (case jget (rn_events rn) sid of Some es \<Rightarrow> es | None \<Rightarrow> []) in drop (length es - limit) (sort_key rv_ts es))"

definition on_sessions :: "(session_map \<Rightarrow> session_map) \<Rightarrow> runner \<Rightarrow> runner" where
  "on_sessions f rn = rn\<lparr>rn_sessions := f (rn_sessions rn)\<rparr>"

section \<open>The queue\<close>

definition getPendingContinuation :: "string \<Rightarrow> runner \<Rightarrow> pending_info option" where
  "getPendingContinuation sid rn = jget (rq_legacy (rn_queue rn)) sid"

definition clearPendingContinuation :: "string \<Rightarrow> runner \<Rightarrow> runner" where
  "clearPendingContinuation sid rn = rn\<lparr>rn_queue := queue_remove sid (rn_queue rn)\<rparr>"

definition listPendingContinuations :: "runner \<Rightarrow> (pending_info \<times> string option) list" where
  "listPendingContinuations rn =
     (let queueEntries = queue_listAll (rn_queue rn) in
      if queueEntries \<noteq> [] then map (\<lambda>e. (pending_info.truncate e, Some (re_triggerType e))) queueEntries
      else map (\<lambda>p. (p, None)) (sort_key pi_createdAt (map snd (rq_legacy (rn_queue rn)))))"

definition enqueuePendingContinuation ::
  "pending_info \<Rightarrow> string option \<Rightarrow> run_lane option \<Rightarrow> nat \<Rightarrow> runner \<Rightarrow> runner" where
  "enqueuePendingContinuation p triggerType priority now rn =
     (if \<not> valid_ids p then rn
      else rn\<lparr>rn_queue := snd (queue_enqueue p (case triggerType of Some t \<Rightarrow> t | None \<Rightarrow> ''continuation'')
             (case priority of Some l \<Rightarrow> l | None \<Rightarrow> Normal_lane) now (rn_queue rn))\<rparr>)"

text \<open>\<open>None\<close> for a session that is waiting for its schedule; choosing the model and storing the message are left
  out, and the name of the message is an argument.\<close>

definition enqueueAutonomousContinue ::
  "string \<Rightarrow> string \<Rightarrow> string option \<Rightarrow> nat option \<Rightarrow> string option \<Rightarrow> run_lane option \<Rightarrow> nat \<Rightarrow> runner \<Rightarrow>
   (string + string option) \<times> runner" where
  "enqueueAutonomousContinue sid messageID text roundCount triggerType priority now rn =
     (case jget (rn_sessions rn) sid of
        None \<Rightarrow> (Inl ''session not found'', rn)
      | Some session \<Rightarrow>
          if isDormantScheduled session then (Inr None, rn)
          else (Inr (Some messageID),
            enqueuePendingContinuation
              \<lparr>pi_sessionID = sid, pi_messageID = messageID, pi_createdAt = int now,
               pi_roundCount = (case roundCount of Some n \<Rightarrow> n | None \<Rightarrow> 0), pi_reason = For_todo_pending,
               pi_text = (case text of Some t \<Rightarrow> t | None \<Rightarrow> AUTONOMOUS_RESUME_TEXT)\<rparr>
              triggerType priority now rn))"

definition collectCompletedSubagents :: "string \<Rightarrow> runner \<Rightarrow> run_entry option \<times> runner" where
  "collectCompletedSubagents sid rn =
     (case queue_peek sid (rn_queue rn) of
        None \<Rightarrow> (None, rn)
      | Some e \<Rightarrow>
          if is_task_trigger (Some (re_triggerType e))
          then (Some e, rn\<lparr>rn_queue := queue_remove sid (rn_queue rn)\<rparr>)
          else (None, rn))"

section \<open>Resuming\<close>

text \<open>One queued continuation: the candidates so far and the state. A resume that is in flight for too long is
  forgotten first.\<close>

definition forget_stale :: "int \<Rightarrow> string \<Rightarrow> runner \<Rightarrow> runner" where
  "forget_stale now sid rn =
     (if jget (rn_inFlight rn) sid \<noteq> None \<and> \<not> still_in_flight rn sid now
      then rn\<lparr>rn_inFlight := jdel (rn_inFlight rn) sid\<rparr> else rn)"

definition add_candidate ::
  "runner_world \<Rightarrow> int \<Rightarrow> pending_info \<Rightarrow> string option \<Rightarrow> resume_candidate list \<Rightarrow> runner \<Rightarrow> resume_candidate list \<times> runner" where
  "add_candidate w now p triggerType found rn =
     (case jget (rn_sessions rn) (pi_sessionID p) of
        None \<Rightarrow> (found, clearPendingContinuation (pi_sessionID p) rn)
      | Some session \<Rightarrow>
          let workspaceId = rw_workspaceOf w (se_directory session);
              (blocked, switch) =
                (if truthy workspaceId then assertSchedulingAllowed workspaceId now (rn_switch rn) else (None, rn_switch rn));
              rn1 = rn\<lparr>rn_switch := switch\<rparr>
          in if blocked \<noteq> None then (found, rn1)
             else (found @
               [\<lparr>rc_pending = p, rc_triggerType = triggerType, rc_session = session,
                 rc_status = rw_status w (pi_sessionID p), rc_inFlight = False,
                 rc_health = Some (summarizeAutonomousWorkflowHealth (se_workflow session) (Some p)
                   (recent_events rn1 (pi_sessionID p) 10) now),
                 rc_budget = rw_budget w p\<rparr>], rn1))"

definition resume_item ::
  "runner_world \<Rightarrow> int \<Rightarrow> pending_info \<times> string option \<Rightarrow> resume_candidate list \<times> runner \<Rightarrow> resume_candidate list \<times> runner" where
  "resume_item w now item acc =
     (let (found, rn) = acc; (p, triggerType) = item in
      if still_in_flight rn (pi_sessionID p) now then (found, rn)
      else add_candidate w now p triggerType found (forget_stale now (pi_sessionID p) rn))"

definition start_resume :: "runner_world \<Rightarrow> int \<Rightarrow> resume_candidate \<Rightarrow> runner \<Rightarrow> runner" where
  "start_resume w now c rn =
     (let sid = pi_sessionID (rc_pending c) in
      on_sessions
        (\<lambda>ss. updateWorkflowSupervisor sid
           (\<lambda>s. s\<lparr>ws_leaseOwner := Some (rw_owner w), ws_leaseExpiresAt := Some (now + LEASE_MS)\<rparr>)
           [Retry_at, Resume_error] now
           (setWorkflowState sid Workflow_running None (Some now) now ss))
        (rn\<lparr>rn_inFlight := jset (rn_inFlight rn) sid now\<rparr>))"

definition resumePendingContinuations ::
  "runner_world \<Rightarrow> nat option \<Rightarrow> string option \<Rightarrow> int \<Rightarrow> runner \<Rightarrow> resume_candidate list \<times> runner" where
  "resumePendingContinuations w maxCount preferred now rn =
     (let (blocked, switch) = assertSchedulingAllowed None now (rn_switch rn); rn1 = rn\<lparr>rn_switch := switch\<rparr> in
      if blocked \<noteq> None then ([], rn1)
      else
        let (resumable, rn2) = fold (resume_item w now) (listPendingContinuations rn1) ([], rn1);
            selected = pickPendingContinuationsForResume (rw_collate w) (rw_owner w) now resumable
              (case maxCount of Some n \<Rightarrow> n | None \<Rightarrow> 1) preferred
        in (selected, fold (start_resume w now) selected rn2))"

section \<open>Carrying out a resume\<close>

definition resume_stopped :: "string \<Rightarrow> int \<Rightarrow> runner \<Rightarrow> runner" where
  "resume_stopped sid now rn =
     on_sessions
       (\<lambda>ss. updateWorkflowSupervisor sid (\<lambda>s. s) [Lease_owner, Lease_expires, Retry_at] now
          (setWorkflowState sid Workflow_blocked (Some ''kill_switch_active'') (Some now) now ss))
       (clearPendingContinuation sid rn)"

definition resume_succeeded :: "string \<Rightarrow> int \<Rightarrow> runner \<Rightarrow> runner" where
  "resume_succeeded sid now rn =
     on_sessions
       (updateWorkflowSupervisor sid (\<lambda>s. s\<lparr>ws_consecutiveResumeFailures := Some 0\<rparr>)
          [Lease_owner, Lease_expires, Retry_at, Resume_error] now) rn"

definition failures_before :: "string \<Rightarrow> runner \<Rightarrow> nat" where
  "failures_before sid rn =
     (case Option.bind (Option.bind (Option.bind (jget (rn_sessions rn) sid) se_workflow) wf_supervisor)
             ws_consecutiveResumeFailures of Some n \<Rightarrow> n | None \<Rightarrow> 0)"

definition resume_blocks :: "resume_failure \<Rightarrow> nat \<Rightarrow> bool" where
  "resume_blocks classified nextFailures \<longleftrightarrow>
     rf_shouldBlockImmediately classified \<or> (\<not> rf_shouldRetry classified \<and> nextFailures \<ge> 1) \<or>
     shouldBlockAfterResumeFailure nextFailures"

definition resume_failed :: "resume_candidate \<Rightarrow> resume_error \<Rightarrow> nat \<Rightarrow> runner \<Rightarrow> runner" where
  "resume_failed c error now rn =
     (let sid = pi_sessionID (rc_pending c);
          nextFailures = failures_before sid rn + 1;
          classified = classifyResumeFailure error;
          retryAt = computeResumeRetryAt (int now) nextFailures (rf_category classified) (map_option snd (rc_budget c));
          blocked = resume_blocks classified nextFailures;
          rn1 = (if blocked then clearPendingContinuation sid rn
                 else enqueuePendingContinuation (rc_pending c) (rc_triggerType c) None now rn);
          what = category_text (rf_category classified) @ '':'' @ rf_reason classified
      in on_sessions
           (\<lambda>ss. updateWorkflowSupervisor sid
              (\<lambda>s. s\<lparr>ws_consecutiveResumeFailures := Some nextFailures,
                      ws_retryAt := (if blocked then None else Some retryAt),
                      ws_lastResumeCategory := Some (category_text (rf_category classified)),
                      ws_lastResumeError := Some (rf_reason classified)\<rparr>)
              (if blocked then [Lease_owner, Lease_expires, Retry_at] else [Lease_owner, Lease_expires]) (int now)
              (setWorkflowState sid (if blocked then Workflow_blocked else Workflow_waiting_user)
                 (Some ((if blocked then ''resume_blocked:'' else ''resume_retry_scheduled:'') @ what))
                 (Some (int now)) (int now) ss))
           rn1)"

text \<open>The outcome of the prompt loop: \<open>None\<close> when it returns, else what it throws.\<close>

definition executeResume :: "resume_candidate \<Rightarrow> resume_error option \<Rightarrow> nat \<Rightarrow> runner \<Rightarrow> runner" where
  "executeResume c outcome now rn =
     (let sid = pi_sessionID (rc_pending c);
          (state, switch) = getSwitch (int now) (rn_switch rn);
          rn1 = rn\<lparr>rn_switch := switch\<rparr>;
          rn2 = (if (case state of Some s \<Rightarrow> sw_active s | None \<Rightarrow> False) then resume_stopped sid (int now) rn1
                 else case outcome of
                        None \<Rightarrow> resume_succeeded sid (int now) rn1
                      | Some error \<Rightarrow> resume_failed c error now rn1)
      in rn2\<lparr>rn_inFlight := jdel (rn_inFlight rn2) sid\<rparr>)"

datatype hard_blocker = Abort_signal | Kill_switch_active

definition checkHardBlockers :: "bool \<Rightarrow> int \<Rightarrow> runner \<Rightarrow> hard_blocker option \<times> runner" where
  "checkHardBlockers aborted now rn =
     (if aborted then (Some Abort_signal, rn)
      else let (state, switch) = getSwitch now (rn_switch rn) in
        (if (case state of Some s \<Rightarrow> sw_active s | None \<Rightarrow> False) then Some Kill_switch_active else None,
         rn\<lparr>rn_switch := switch\<rparr>))"

section \<open>Inspecting and controlling the queue\<close>

record queue_inspection =
  qi_pending :: "pending_info option"
  qi_status :: status_type
  qi_inFlight :: bool
  qi_blockedReasons :: "block_reason list"
  qi_health :: workflow_health

definition qi_resumable :: "queue_inspection \<Rightarrow> bool" where
  "qi_resumable i \<longleftrightarrow> qi_blockedReasons i = []"

definition getPendingContinuationQueueInspection ::
  "runner_world \<Rightarrow> string \<Rightarrow> int \<Rightarrow> runner \<Rightarrow> queue_inspection option" where
  "getPendingContinuationQueueInspection w sid now rn =
     (case jget (rn_sessions rn) sid of
        None \<Rightarrow> None
      | Some session \<Rightarrow>
          let pending = getPendingContinuation sid rn; status = rw_status w sid;
              inFlight = still_in_flight rn sid now;
              health = summarizeAutonomousWorkflowHealth (se_workflow session) pending (recent_events rn sid 20) now
          in Some (if pending = None
              then \<lparr>qi_pending = None, qi_status = status, qi_inFlight = inFlight,
                    qi_blockedReasons = [No_pending_continuation], qi_health = health\<rparr>
              else let (reasons, h) = inspectPendingContinuationResumability session status inFlight (Some health)
                         (Some (rw_owner w)) now (map_option re_triggerType (queue_peek sid (rn_queue rn)))
                   in \<lparr>qi_pending = pending, qi_status = status, qi_inFlight = inFlight,
                       qi_blockedReasons = reasons, qi_health = h\<rparr>))"

definition append_event :: "string \<Rightarrow> runtime_event \<Rightarrow> runner \<Rightarrow> runner" where
  "append_event sid e rn =
     rn\<lparr>rn_events := jset (rn_events rn) sid ((case jget (rn_events rn) sid of Some es \<Rightarrow> es | None \<Rightarrow> []) @ [e])\<rparr>"

datatype control_outcome = Resumed | Dropped | Nothing_pending | Not_resumable "block_reason list" | Dispatch_skipped "block_reason list"

definition dropPendingContinuation :: "string \<Rightarrow> int \<Rightarrow> runner \<Rightarrow> control_outcome \<times> runner" where
  "dropPendingContinuation sid now rn =
     (if getPendingContinuation sid rn = None then (Nothing_pending, rn)
      else (Dropped, append_event sid
        \<lparr>rv_ts = now, rv_domain = ''workflow'', rv_eventType = ''workflow.pending_continuation_dropped'', rv_anomalyFlags = []\<rparr>
        (clearPendingContinuation sid rn)))"

definition resumeOnce :: "runner_world \<Rightarrow> string \<Rightarrow> int \<Rightarrow> runner \<Rightarrow> (control_outcome \<times> resume_candidate list \<times> runner) option" where
  "resumeOnce w sid now rn =
     (case getPendingContinuationQueueInspection w sid now rn of
        None \<Rightarrow> None
      | Some inspection \<Rightarrow>
          if qi_pending inspection = None then Some (Nothing_pending, [], rn)
          else if \<not> qi_resumable inspection then Some (Not_resumable (qi_blockedReasons inspection), [], rn)
          else
            let (selected, rn1) = resumePendingContinuations w (Some 1) (Some sid) now rn in
            case getPendingContinuationQueueInspection w sid now rn1 of
              None \<Rightarrow> None
            | Some after \<Rightarrow>
                let resumed = (qi_inFlight after \<or> qi_status after = Status_busy) in
                Some (if resumed then Resumed else Dispatch_skipped (qi_blockedReasons after), selected,
                  append_event sid
                    \<lparr>rv_ts = now, rv_domain = (if resumed then ''workflow'' else ''anomaly''),
                     rv_eventType = (if resumed then ''workflow.pending_continuation_resume_requested''
                                     else ''workflow.pending_continuation_resume_dispatch_skipped''),
                     rv_anomalyFlags = (if resumed then [] else [''pending_continuation_resume_dispatch_skipped''])\<rparr> rn1))"

section \<open>Deciding\<close>

text \<open>\<open>freerun\<close> is what the freerun engine says of the session; it is asked only when the session is armed.\<close>

definition decideAutonomousContinuation ::
  "string \<Rightarrow> freerun_state \<Rightarrow> todo_store \<Rightarrow> int \<Rightarrow> runner \<Rightarrow> (next_action \<times> runner) option" where
  "decideAutonomousContinuation sid freerun todos now rn =
     (case jget (rn_sessions rn) sid of
        None \<Rightarrow> None
      | Some session \<Rightarrow>
          let workflow = se_workflow session;
              armed = (case workflow of Some flow \<Rightarrow> pol_enabled (wf_autonomous flow) | None \<Rightarrow> False);
              subagentTriggered = is_task_trigger (map_option re_triggerType (queue_peek sid (rn_queue rn)));
              decision = evaluateAutonomousContinuation session (todo_get todos sid)
                (if armed then Some freerun else None) subagentTriggered;
              rn1 = (if armed \<and> (decision = Stop Todo_complete \<or> decision = Stop Freerun_settled)
                     then on_sessions
                       (\<lambda>ss. setWorkflowState sid (wf_state (the workflow))
                          (Some (if decision = Stop Freerun_settled then ''freerun_settled'' else ''plan_drained'')) None now
                          (updateAutonomous sid \<lparr>pp_enabled = Some False, pp_maxContinuousRounds = None,
                             pp_stopOnTestsFail = None, pp_requireApprovalFor = None\<rparr> now ss)) rn
                     else rn);
              rn2 = (if armed \<and> decision = Stop Approval_required then
                       let alreadySuspended = wf_state (the workflow) = Workflow_blocked \<or>
                             (wf_state (the workflow) = Workflow_waiting_user \<and>
                              (case wf_stopReason (the workflow) of Some r \<Rightarrow> r | None \<Rightarrow> [])
                                \<in> set NON_RESUMABLE_WAITING_REASONS)
                       in if alreadySuspended then rn1
                          else on_sessions (setWorkflowState sid Workflow_waiting_user (Some ''approval_needed'') None now) rn1
                     else rn1)
          in Some (decision, rn2))"

section \<open>Sessions after an update\<close>

lemma get_update_workflow:
  "jget (update_workflow sid f ss) s =
     (if s = sid then map_option (\<lambda>x. x\<lparr>se_workflow := Some (f (session_workflow x))\<rparr>) (jget ss sid) else jget ss s)"
  by (simp add: update_workflow_def jget_jset split: option.split)

lemma workflow_updated [simp]: "session_workflow (x\<lparr>se_workflow := Some w\<rparr>) = w"
  by (simp add: session_workflow_def)

definition supervisor_of :: "workflow_info \<Rightarrow> wf_supervisor" where
  "supervisor_of w = (case wf_supervisor w of Some s \<Rightarrow> s | None \<Rightarrow> empty_supervisor)"

lemma get_supervisor_update:
  "jget (updateWorkflowSupervisor sid patch clear now ss) s =
     (if s = sid then map_option (\<lambda>x. x\<lparr>se_workflow := Some ((session_workflow x)\<lparr>wf_supervisor :=
          Some (fold clear_key clear (patch (supervisor_of (session_workflow x)))), wf_updatedAt := now\<rparr>)\<rparr>) (jget ss sid)
      else jget ss s)"
  by (simp add: updateWorkflowSupervisor_def get_update_workflow supervisor_of_def)

lemma get_state_update:
  "jget (setWorkflowState sid state why run now ss) s =
     (if s = sid then map_option (\<lambda>x. x\<lparr>se_workflow := Some ((session_workflow x)\<lparr>wf_state := state, wf_stopReason := why,
          wf_lastRunAt := nullish run (wf_lastRunAt (session_workflow x)), wf_updatedAt := now\<rparr>)\<rparr>) (jget ss sid)
      else jget ss s)"
  by (simp add: setWorkflowState_def get_update_workflow)

lemma on_sessions_simps [simp]:
  "rn_sessions (on_sessions f rn) = f (rn_sessions rn)" "rn_queue (on_sessions f rn) = rn_queue rn"
  "rn_inFlight (on_sessions f rn) = rn_inFlight rn" "rn_switch (on_sessions f rn) = rn_switch rn"
  by (simp_all add: on_sessions_def)

lemma clear_simps [simp]:
  "rn_sessions (clearPendingContinuation sid rn) = rn_sessions rn"
  "rn_inFlight (clearPendingContinuation sid rn) = rn_inFlight rn"
  "rn_switch (clearPendingContinuation sid rn) = rn_switch rn"
  "rn_queue (clearPendingContinuation sid rn) = queue_remove sid (rn_queue rn)"
  by (simp_all add: clearPendingContinuation_def)

lemma enqueue_simps [simp]:
  "rn_sessions (enqueuePendingContinuation p trig lane now rn) = rn_sessions rn"
  "rn_inFlight (enqueuePendingContinuation p trig lane now rn) = rn_inFlight rn"
  "rn_switch (enqueuePendingContinuation p trig lane now rn) = rn_switch rn"
  by (simp_all add: enqueuePendingContinuation_def)

lemma peek_enqueue:
  "valid_ids p \<Longrightarrow> queue_peek (pi_sessionID p) (snd (queue_enqueue p trig prio now q)) = Some (make_entry p trig prio now)"
  by (cases "re_lane (make_entry p trig prio now)") (simp_all add: queue_peek_def LANES_BY_PRIORITY_def lanes_enqueue)

section \<open>Failed resumes\<close>

lemma no_switch: "ks_current ks = None \<Longrightarrow> getSwitch now ks = (None, ks)"
  by (simp add: getSwitch_def)

lemma executeResume_fails:
  "ks_current (rn_switch rn) = None \<Longrightarrow>
   executeResume c (Some error) now rn =
     (resume_failed c error now rn)\<lparr>rn_inFlight := jdel (rn_inFlight rn) (pi_sessionID (rc_pending c))\<rparr>"
  by (simp add: executeResume_def no_switch Let_def resume_failed_def)

definition failed_supervisor :: "nat \<Rightarrow> int option \<Rightarrow> resume_failure \<Rightarrow> wf_supervisor \<Rightarrow> bool" where
  "failed_supervisor n retryAt cl s \<longleftrightarrow>
     ws_consecutiveResumeFailures s = Some n \<and> ws_retryAt s = retryAt \<and> ws_leaseOwner s = None \<and>
     ws_leaseExpiresAt s = None \<and> ws_lastResumeCategory s = Some (category_text (rf_category cl)) \<and>
     ws_lastResumeError s = Some (rf_reason cl)"

lemma resume_failed_session:
  fixes error :: resume_error and now :: nat
  assumes "jget (rn_sessions rn) (pi_sessionID (rc_pending c)) = Some s"
  defines "n \<equiv> failures_before (pi_sessionID (rc_pending c)) rn + 1" and "cl \<equiv> classifyResumeFailure error"
  defines "retryAt \<equiv> computeResumeRetryAt (int now) n (rf_category cl) (map_option snd (rc_budget c))"
  shows "\<exists>s'. jget (rn_sessions (resume_failed c error now rn)) (pi_sessionID (rc_pending c)) = Some s' \<and>
    se_scheduled s' = se_scheduled s \<and> se_workflow s' = Some (session_workflow s') \<and>
    wf_state (session_workflow s') = (if resume_blocks cl n then Workflow_blocked else Workflow_waiting_user) \<and>
    failed_supervisor n (if resume_blocks cl n then None else Some retryAt) cl (supervisor_of (session_workflow s'))"
  using assms(1) unfolding n_def cl_def retryAt_def
  by (simp add: resume_failed_def Let_def get_supervisor_update get_state_update
      failed_supervisor_def supervisor_of_def session_workflow_def)

lemma failures_after:
  assumes "jget (rn_sessions rn) sid = Some s" "se_workflow s = Some w" "failed_supervisor n r cl (supervisor_of w)"
  shows "failures_before sid rn = n"
  using assms by (cases "wf_supervisor w")
    (auto simp: failures_before_def failed_supervisor_def supervisor_of_def empty_supervisor_def)

text \<open>
  C23 (error): A resume that fails releases the session: it is no longer in flight and its lease is free. Either the
  workflow is blocked and the continuation dropped, or the continuation is queued again and for at least fifteen
  seconds no inspection finds it resumable, whatever woke it.
\<close>

theorem failed_resume_waits_or_blocks:
  assumes "jget (rn_sessions rn) (pi_sessionID (rc_pending c)) = Some s" and "ks_current (rn_switch rn) = None"
    and "valid_ids (rc_pending c)"
  shows "\<exists>s'. jget (rn_sessions (executeResume c (Some error) now rn)) (pi_sessionID (rc_pending c)) = Some s' \<and>
    jget (rn_inFlight (executeResume c (Some error) now rn)) (pi_sessionID (rc_pending c)) = None \<and>
    ws_leaseOwner (supervisor_of (session_workflow s')) = None \<and>
    (if resume_blocks (classifyResumeFailure error) (failures_before (pi_sessionID (rc_pending c)) rn + 1)
     then queue_peek (pi_sessionID (rc_pending c)) (rn_queue (executeResume c (Some error) now rn)) = None \<and>
       wf_state (session_workflow s') = Workflow_blocked
     else queue_peek (pi_sessionID (rc_pending c)) (rn_queue (executeResume c (Some error) now rn)) \<noteq> None \<and>
       (\<forall>t < int now + 15000. Supervisor_retry_backoff \<in>
          set (fst (inspectPendingContinuationResumability s' status inFlight None owner t trigger))))"
proof -
  let ?sid = "pi_sessionID (rc_pending c)" and ?cl = "classifyResumeFailure error"
  let ?n = "failures_before ?sid rn + 1"
  obtain s' where s': "jget (rn_sessions (resume_failed c error now rn)) ?sid = Some s'"
    "se_workflow s' = Some (session_workflow s')"
    "wf_state (session_workflow s') = (if resume_blocks ?cl ?n then Workflow_blocked else Workflow_waiting_user)"
    "failed_supervisor ?n (if resume_blocks ?cl ?n then None
       else Some (computeResumeRetryAt (int now) ?n (rf_category ?cl) (map_option snd (rc_budget c)))) ?cl
       (supervisor_of (session_workflow s'))"
    using resume_failed_session [OF assms(1), of error now] by blast
  have queue: "queue_peek ?sid (rn_queue (resume_failed c error now rn)) =
    (if resume_blocks ?cl ?n then None
     else Some (make_entry (rc_pending c) (case rc_triggerType c of Some t \<Rightarrow> t | None \<Rightarrow> ''continuation'') Normal_lane now))"
    using assms(3) peek_enqueue [of "rc_pending c"]
    by (simp add: resume_failed_def Let_def peek_remove enqueuePendingContinuation_def)
  have "Supervisor_retry_backoff \<in> set (fst (inspectPendingContinuationResumability s' status inFlight None owner t trigger))"
    if "\<not> resume_blocks ?cl ?n" "t < int now + 15000" for t
  proof -
    have "wh_supervisor (summarizeAutonomousWorkflowHealth (Some (session_workflow s')) None [] t) =
        supervisor_of (session_workflow s')"
      by (simp add: summarizeAutonomousWorkflowHealth_def Let_def supervisor_of_def)
    moreover have "ws_retryAt (supervisor_of (session_workflow s')) =
        Some (computeResumeRetryAt (int now) ?n (rf_category ?cl) (map_option snd (rc_budget c)))"
      using s'(4) that(1) by (simp add: failed_supervisor_def)
    moreover have "int now + 15000 \<le> computeResumeRetryAt (int now) ?n (rf_category ?cl) (map_option snd (rc_budget c))"
      using backoff_positive [of ?n] by (auto simp: computeResumeRetryAt_def Let_def)
    ultimately show ?thesis
      using that(2) s'(2) unfolding inspectPendingContinuationResumability_def Let_def
      by (simp add: or_zero_def)
  qed
  then show ?thesis
    using s' queue unfolding executeResume_fails [OF assms(2)]
    by (intro exI [of _ s']) (auto simp: failed_supervisor_def jget_jdel split: if_splits)
qed

definition idle_runner :: runner where
  "idle_runner = \<lparr>rn_sessions = [(''ses1'', armed_session)], rn_queue = empty_queue, rn_inFlight = [(''ses1'', 0)],
     rn_switch = empty_switch, rn_events = []\<rparr>"

definition network_error :: resume_error where
  "network_error = \<lparr>rr_class = Other_error, rr_message = ''network timeout'', rr_thrown = Primitive\<rparr>"

theorem failed_resume_waits_or_blocks_witness:
  "jget (rn_inFlight (executeResume (idle_candidate ''ses1'' None) (Some network_error) 7 idle_runner)) ''ses1'' = None"
proof -
  have "jget (rn_sessions idle_runner) (pi_sessionID (rc_pending (idle_candidate ''ses1'' None))) = Some armed_session"
    "ks_current (rn_switch idle_runner) = None" "pi_sessionID (rc_pending (idle_candidate ''ses1'' None)) = ''ses1''"
    by (simp_all add: idle_runner_def idle_candidate_def empty_switch_def)
  moreover have "valid_ids (rc_pending (idle_candidate ''ses1'' None))" by code_simp
  ultimately show ?thesis
    using failed_resume_waits_or_blocks [of idle_runner "idle_candidate ''ses1'' None" armed_session network_error 7] by auto
qed



text \<open>
  A continuation that was queued as critical is queued as normal after its resume has failed.
\<close>

theorem retry_forgets_lane:
  "let p = rc_pending (idle_candidate ''ses1'' None);
       rn = enqueuePendingContinuation p None (Some Critical_lane) 5 idle_runner;
       rn' = executeResume (idle_candidate ''ses1'' None) (Some network_error) 7 rn
   in map_option re_lane (queue_peek ''ses1'' (rn_queue rn)) = Some Critical_lane \<and>
      map_option re_lane (queue_peek ''ses1'' (rn_queue rn')) = Some Normal_lane"
  by code_simp

section \<open>The approval gate\<close>

text \<open>
  C13 (safety): When the decision about an armed session is that its next step needs an approval, the session is suspended:
  no continuation is resumed until the workflow changes, except one that a subagent's completion woke.
\<close>

theorem approval_gate_suspends:
  assumes "decideAutonomousContinuation sid freerun todos now rn = Some (Stop Approval_required, rn')"
    and "jget (rn_sessions rn) sid = Some s" and "se_workflow s = Some flow" and "pol_enabled (wf_autonomous flow)"
    and "\<not> is_task_trigger trigger"
  shows "\<exists>s'. jget (rn_sessions rn') sid = Some s' \<and> rn_queue rn' = rn_queue rn \<and>
    \<not> shouldResumePendingContinuation s' status inFlight None owner t trigger"
proof -
  define suspended where "suspended \<longleftrightarrow> wf_state flow = Workflow_blocked \<or>
    (wf_state flow = Workflow_waiting_user \<and>
     (case wf_stopReason flow of Some r \<Rightarrow> r | None \<Rightarrow> []) \<in> set NON_RESUMABLE_WAITING_REASONS)"
  have rn': "rn' = (if suspended then rn
      else on_sessions (setWorkflowState sid Workflow_waiting_user (Some ''approval_needed'') None now) rn)"
    using assms(1-4) unfolding decideAutonomousContinuation_def Let_def suspended_def by (auto split: if_splits)
  obtain s' where s': "jget (rn_sessions rn') sid = Some s'" "se_workflow s' = Some (session_workflow s')"
    "health_block (summarizeAutonomousWorkflowHealth (Some (session_workflow s')) None [] t) \<noteq> []"
  proof (cases suspended)
    case True
    then have "health_block (summarizeAutonomousWorkflowHealth (Some flow) None [] t) \<noteq> []"
      by (auto simp: suspended_def health_block_def summarizeAutonomousWorkflowHealth_def Let_def)
    then show ?thesis using that [of s] True assms(2,3) by (simp add: rn' session_workflow_def)
  next
    case False
    have "''approval_needed'' \<in> set NON_RESUMABLE_WAITING_REASONS" by (simp add: NON_RESUMABLE_WAITING_REASONS_def)
    then show ?thesis
      using False assms(2,3) that
      by (simp add: rn' get_state_update health_block_def summarizeAutonomousWorkflowHealth_def Let_def session_workflow_def)
  qed
  have "rn_queue rn' = rn_queue rn" by (simp add: rn')
  then show ?thesis
    using s' assms(5)
    by (auto simp: shouldResumePendingContinuation_def inspectPendingContinuationResumability_def Let_def)
qed

theorem approval_gate_suspends_witness:
  "\<exists>s' rn'. jget (rn_sessions rn') ''ses1'' = Some s' \<and>
     \<not> shouldResumePendingContinuation s' Status_idle False None None 1 None \<and>
     decideAutonomousContinuation ''ses1'' Fr_none [(''ses1'', [planned_push])] 0 idle_runner = Some (Stop Approval_required, rn')"
proof -
  have s: "jget (rn_sessions idle_runner) ''ses1'' = Some armed_session" by (simp add: idle_runner_def)
  obtain flow where f: "se_workflow armed_session = Some flow" "pol_enabled (wf_autonomous flow)"
    by (simp add: armed_session_def)
  have "map_option fst (decideAutonomousContinuation ''ses1'' Fr_none [(''ses1'', [planned_push])] 0 idle_runner) =
    Some (Stop Approval_required)"
    by code_simp
  then obtain rn' where d: "decideAutonomousContinuation ''ses1'' Fr_none [(''ses1'', [planned_push])] 0 idle_runner =
      Some (Stop Approval_required, rn')"
    by auto
  have "\<not> is_task_trigger None" by (simp add: is_task_trigger_def)
  from approval_gate_suspends [OF d s f this] show ?thesis using d by blast
qed

section \<open>What is resumed\<close>

text \<open>
  While any switch is active, also that of one workspace, nothing is resumed in any workspace.
\<close>

theorem any_switch_stops_resuming:
  assumes "ks_current (rn_switch rn) = Some st" and "sw_active st" 
    and "now \<le> sw_initiatedAt st + (case sw_ttl st of Some t \<Rightarrow> t | None \<Rightarrow> 300000)"
  shows "fst (resumePendingContinuations w maxCount preferred now rn) = []"
proof -
  have "fst (assertSchedulingAllowed None now (rn_switch rn)) = Some st"
    using assms by (simp add: assertSchedulingAllowed_def getSwitch_def SWITCH_DEFAULT_TTL_MS_def truthy_def split: option.splits)
  then show ?thesis by (simp add: resumePendingContinuations_def Let_def case_prod_beta)
qed

definition stopped_runner :: runner where
  "stopped_runner = idle_runner\<lparr>rn_switch := setSwitch
     \<lparr>sw_active = True, sw_state = Soft_paused, sw_requestID = ''ks_1'', sw_initiator = ''ops'', sw_reason = ''stop'',
      sw_initiatedAt = 0, sw_mode = ''global'', sw_scope = ''workspace'', sw_workspaceId = Some ''a'', sw_ttl = None,
      sw_snapshotURL = None\<rparr> empty_switch\<rparr>"

theorem any_switch_stops_resuming_witness:
  "fst (resumePendingContinuations
     \<lparr>rw_owner = ''me'', rw_collate = (\<lambda>s. s), rw_status = (\<lambda>_. Status_idle), rw_workspaceOf = (\<lambda>_. Some ''b''), rw_budget = (\<lambda>_. None)\<rparr>
     None None 1 stopped_runner) = []"
proof -
  obtain st where "ks_current (rn_switch stopped_runner) = Some st" "sw_active st"
    "1 \<le> sw_initiatedAt st + (case sw_ttl st of Some t \<Rightarrow> t | None \<Rightarrow> 300000)"
    by (simp add: stopped_runner_def setSwitch_def)
  then show ?thesis by (rule any_switch_stops_resuming)
qed

lemma getSwitch_again: "getSwitch now (snd (getSwitch now ks)) = getSwitch now ks"
  by (simp add: getSwitch_def clearSwitch_def Let_def split: option.split)

lemma assert_switch: "snd (assertSchedulingAllowed ws now ks) = snd (getSwitch now ks)"
  by (simp add: assertSchedulingAllowed_def Let_def case_prod_beta)

lemma assert_view:
  "fst (getSwitch now ks) = fst (getSwitch now ks') \<Longrightarrow>
   fst (assertSchedulingAllowed ws now ks) = fst (assertSchedulingAllowed ws now ks')"
  by (simp add: assertSchedulingAllowed_def Let_def case_prod_beta)

text \<open>What a resumption sees of the state does not change while it walks through the queue.\<close>

definition same_view :: "int \<Rightarrow> runner \<Rightarrow> runner \<Rightarrow> bool" where
  "same_view now rn rn' \<longleftrightarrow>
     rn_sessions rn' = rn_sessions rn \<and> fst (getSwitch now (rn_switch rn')) = fst (getSwitch now (rn_switch rn)) \<and>
     (\<forall>s. still_in_flight rn' s now = still_in_flight rn s now)"

definition may_run :: "runner_world \<Rightarrow> int \<Rightarrow> runner \<Rightarrow> resume_candidate \<Rightarrow> bool" where
  "may_run w now rn c \<longleftrightarrow>
     jget (rn_sessions rn) (pi_sessionID (rc_pending c)) = Some (rc_session c) \<and>
     \<not> still_in_flight rn (pi_sessionID (rc_pending c)) now \<and> rc_status c = rw_status w (pi_sessionID (rc_pending c)) \<and>
     (\<exists>events. rc_health c =
        Some (summarizeAutonomousWorkflowHealth (se_workflow (rc_session c)) (Some (rc_pending c)) events now)) \<and>
     (truthy (rw_workspaceOf w (se_directory (rc_session c))) \<longrightarrow>
        fst (assertSchedulingAllowed (rw_workspaceOf w (se_directory (rc_session c))) now (rn_switch rn)) = None)"

lemma view_stale: "same_view now rn0 rn \<Longrightarrow> same_view now rn0 (forget_stale now sid rn)"
  unfolding same_view_def still_in_flight_def forget_stale_def by (auto simp: jget_jdel)

lemma view_queue: "same_view now rn0 rn \<Longrightarrow> same_view now rn0 (clearPendingContinuation sid rn)"
  by (simp add: same_view_def still_in_flight_def)

lemma view_switch: "same_view now rn0 rn \<Longrightarrow> same_view now rn0 (rn\<lparr>rn_switch := snd (getSwitch now (rn_switch rn))\<rparr>)"
  by (simp add: same_view_def still_in_flight_def getSwitch_again)

definition all_may_run :: "runner_world \<Rightarrow> int \<Rightarrow> runner \<Rightarrow> (pending_info \<times> string option) set \<Rightarrow> resume_candidate list \<Rightarrow> bool" where
  "all_may_run w now rn items found \<longleftrightarrow>
     (\<forall>c\<in>set found. may_run w now rn c \<and> (rc_pending c, rc_triggerType c) \<in> items)"

lemma add_candidate_ok:
  assumes view: "same_view now rn0 rn" and found: "all_may_run w now rn0 items found" and item: "(p, trigger) \<in> items"
    and idle: "\<not> still_in_flight rn0 (pi_sessionID p) now"
  defines "res \<equiv> add_candidate w now p trigger found rn"
  shows "same_view now rn0 (snd res) \<and> all_may_run w now rn0 items (fst res)"
proof (cases "jget (rn_sessions rn) (pi_sessionID p)")
  case None
  then show ?thesis using view_queue [OF view] found by (simp add: res_def add_candidate_def)
next
  case (Some session)
  define ws where "ws = rw_workspaceOf w (se_directory session)"
  define rn1 where "rn1 = rn\<lparr>rn_switch := (if truthy ws then snd (getSwitch now (rn_switch rn)) else rn_switch rn)\<rparr>"
  define blocked where "blocked \<longleftrightarrow> truthy ws \<and> fst (assertSchedulingAllowed ws now (rn_switch rn)) \<noteq> None"
  define c where "c = \<lparr>rc_pending = p, rc_triggerType = trigger, rc_session = session,
    rc_status = rw_status w (pi_sessionID p), rc_inFlight = False,
    rc_health = Some (summarizeAutonomousWorkflowHealth (se_workflow session) (Some p) (recent_events rn1 (pi_sessionID p) 10) now),
    rc_budget = rw_budget w p\<rparr>"
  have res: "res = (if blocked then (found, rn1) else (found @ [c], rn1))"
    using Some by (simp add: res_def add_candidate_def Let_def ws_def [symmetric] case_prod_beta assert_switch rn1_def c_def blocked_def)
  have "same_view now rn0 rn1" using view_switch [OF view] view by (simp add: rn1_def)
  moreover have "fst (assertSchedulingAllowed ws now (rn_switch rn)) = fst (assertSchedulingAllowed ws now (rn_switch rn0))"
    by (rule assert_view) (use view in \<open>simp add: same_view_def\<close>)
  then have "may_run w now rn0 c" if "\<not> blocked"
    using that Some idle view by (auto simp: may_run_def c_def ws_def [symmetric] same_view_def blocked_def)
  moreover have "(rc_pending c, rc_triggerType c) \<in> items" using item by (simp add: c_def)
  ultimately show ?thesis using found unfolding res all_may_run_def by auto
qed

lemma resume_item_ok:
  assumes "same_view now rn0 (snd acc)" and "all_may_run w now rn0 items (fst acc)" and "item \<in> items"
  shows "same_view now rn0 (snd (resume_item w now item acc)) \<and> all_may_run w now rn0 items (fst (resume_item w now item acc))"
proof -
  obtain found rn p trigger where acc: "acc = (found, rn)" "item = (p, trigger)" by (cases acc; cases item)
  show ?thesis
  proof (cases "still_in_flight rn (pi_sessionID p) now")
    case True
    then show ?thesis using assms by (simp add: acc resume_item_def)
  next
    case False
    then have "\<not> still_in_flight rn0 (pi_sessionID p) now" using assms(1) by (simp add: acc same_view_def)
    moreover have "same_view now rn0 (forget_stale now (pi_sessionID p) rn)"
      using view_stale assms(1) by (simp add: acc)
    ultimately show ?thesis
      using add_candidate_ok assms(2,3) False by (simp add: acc resume_item_def)
  qed
qed

lemma resume_items_ok:
  assumes "same_view now rn0 (snd acc)" and "all_may_run w now rn0 items (fst acc)" and "set xs \<subseteq> items"
  shows "all_may_run w now rn0 items (fst (fold (resume_item w now) xs acc))"
  using assms
proof (induction xs arbitrary: acc)
  case (Cons x xs)
  then have "x \<in> items" by simp
  with resume_item_ok [OF Cons.prems(1,2), of x] Cons.IH [of "resume_item w now x acc"] Cons.prems(3)
  show ?case by simp
qed simp

lemma picked_within: "set first \<subseteq> set es \<Longrightarrow> set (pick_rest m es (pick_families m es first used)) \<subseteq> set es"
  using pick_families_set [of first m es used] pick_rest_set [of "pick_families m es first used" m es] by blast

lemma find_within: "set (case List.find P es of Some p \<Rightarrow> if b then [p] else [] | None \<Rightarrow> []) \<subseteq> set es"
  using find_Some_in [of P es] by (cases "List.find P es") auto

lemma preferred_within: "set (pick_preferred m preferred es) \<subseteq> set es"
  unfolding pick_preferred_def
  by (cases "truthy preferred") (simp_all only: if_True if_False find_within list.set(1) empty_subsetI)

lemma picks_eligible:
  "set (pickPendingContinuationsForResume collate owner now items m preferred) \<subseteq> set (eligible_for_resume collate owner now items)"
  unfolding pickPendingContinuationsForResume_def Let_def by (rule picked_within [OF preferred_within])

text \<open>
  C6 (safety): What a resumption dispatches was queued, its session exists, is idle, not waiting for its schedule, not being
  resumed for less than five minutes, not waiting for a retry and not leased to another process, and no switch
  blocks it.
\<close>

theorem resumed_may_run:
  assumes "c \<in> set (fst (resumePendingContinuations w maxCount preferred now rn))"
  shows "(rc_pending c, rc_triggerType c) \<in> set (listPendingContinuations rn) \<and>
    jget (rn_sessions rn) (pi_sessionID (rc_pending c)) = Some (rc_session c) \<and>
    rw_status w (pi_sessionID (rc_pending c)) = Status_idle \<and> \<not> se_scheduled (rc_session c) \<and>
    (case jget (rn_inFlight rn) (pi_sessionID (rc_pending c)) of None \<Rightarrow> True | Some since \<Rightarrow> since + 300000 \<le> now) \<and>
    (case se_workflow (rc_session c) of None \<Rightarrow> True
     | Some flow \<Rightarrow> or_zero (ws_retryAt (supervisor_of flow)) \<le> now \<and>
         (or_zero (ws_leaseExpiresAt (supervisor_of flow)) \<le> now \<or>
          ws_leaseOwner (supervisor_of flow) \<in> {None, Some [], Some (rw_owner w)})) \<and>
    fst (assertSchedulingAllowed None now (rn_switch rn)) = None \<and>
    (truthy (rw_workspaceOf w (se_directory (rc_session c))) \<longrightarrow>
     fst (assertSchedulingAllowed (rw_workspaceOf w (se_directory (rc_session c))) now (rn_switch rn)) = None)"
proof -
  define rn1 where "rn1 = rn\<lparr>rn_switch := snd (getSwitch now (rn_switch rn))\<rparr>"
  define found where "found = fst (fold (resume_item w now) (listPendingContinuations rn1) ([], rn1))"
  have free: "fst (assertSchedulingAllowed None now (rn_switch rn)) = None"
    using assms by (auto simp: resumePendingContinuations_def Let_def case_prod_beta split: if_splits)
  then have sel: "fst (resumePendingContinuations w maxCount preferred now rn) =
      pickPendingContinuationsForResume (rw_collate w) (rw_owner w) now found (case maxCount of Some n \<Rightarrow> n | None \<Rightarrow> 1) preferred"
    by (simp add: resumePendingContinuations_def Let_def case_prod_beta found_def rn1_def assert_switch)
  have view: "same_view now rn rn1" unfolding rn1_def by (rule view_switch) (simp add: same_view_def)
  have list: "listPendingContinuations rn1 = listPendingContinuations rn"
    by (simp add: rn1_def listPendingContinuations_def Let_def)
  have c: "c \<in> set found"
    "shouldResumePendingContinuation (rc_session c) (rc_status c) (rc_inFlight c) (rc_health c) (Some (rw_owner w)) now (rc_triggerType c)"
    using assms picks_eligible unfolding sel by (fastforce simp: eligible_for_resume_def)+
  have run: "may_run w now rn c" "(rc_pending c, rc_triggerType c) \<in> set (listPendingContinuations rn)"
    using resume_items_ok [of now rn "([], rn1)" w "set (listPendingContinuations rn)" "listPendingContinuations rn"] view c(1)
    unfolding found_def list all_may_run_def by auto
  then obtain events where h: "rc_health c =
      Some (summarizeAutonomousWorkflowHealth (se_workflow (rc_session c)) (Some (rc_pending c)) events now)"
    by (auto simp: may_run_def)
  have sup: "wh_supervisor (summarizeAutonomousWorkflowHealth (Some flow) p es t) = supervisor_of flow" for flow p es t
    by (simp add: summarizeAutonomousWorkflowHealth_def Let_def supervisor_of_def)
  have idle: "rc_status c = Status_idle" "\<not> se_scheduled (rc_session c)"
    using c(2) by (cases "rc_status c"; auto simp: shouldResumePendingContinuation_def
        inspectPendingContinuationResumability_def Let_def isDormantScheduled_def split: if_splits)+
  have owner: "truthy x \<longleftrightarrow> x \<noteq> None \<and> x \<noteq> Some []" for x :: "string option"
    by (cases x) (auto simp: truthy_def)
  have waits: "case se_workflow (rc_session c) of None \<Rightarrow> True
     | Some flow \<Rightarrow> or_zero (ws_retryAt (supervisor_of flow)) \<le> now \<and>
         (or_zero (ws_leaseExpiresAt (supervisor_of flow)) \<le> now \<or>
          ws_leaseOwner (supervisor_of flow) \<in> {None, Some [], Some (rw_owner w)})"
    using c(2) unfolding shouldResumePendingContinuation_def inspectPendingContinuationResumability_def Let_def h
    by (cases "se_workflow (rc_session c)") (auto simp: sup owner split: if_splits)
  have "case jget (rn_inFlight rn) (pi_sessionID (rc_pending c)) of None \<Rightarrow> True | Some since \<Rightarrow> since + 300000 \<le> now"
    using run(1) by (auto simp: may_run_def still_in_flight_def RESUME_IN_FLIGHT_TIMEOUT_MS_def split: option.splits)
  then show ?thesis using run idle waits free by (simp add: may_run_def)
qed

theorem resumed_may_run_witness:
  "\<exists>c :: resume_candidate. \<not> se_scheduled (rc_session c) \<and> pi_sessionID (rc_pending c) = ''ses1''"
proof -
  let ?rn = "enqueuePendingContinuation (rc_pending (idle_candidate ''ses1'' None)) None None 5 (idle_runner\<lparr>rn_inFlight := []\<rparr>)"
  let ?w = "\<lparr>rw_owner = ''me'', rw_collate = (\<lambda>s. s), rw_status = (\<lambda>_. Status_idle), rw_workspaceOf = (\<lambda>_. None),
    rw_budget = (\<lambda>_. None)\<rparr>"
  have "map (\<lambda>c. pi_sessionID (rc_pending c)) (fst (resumePendingContinuations ?w None None 9 ?rn)) = [''ses1'']"
    by code_simp
  then obtain c where "c \<in> set (fst (resumePendingContinuations ?w None None 9 ?rn))" "pi_sessionID (rc_pending c) = ''ses1''"
    by (auto simp: map_eq_Cons_conv)
  from resumed_may_run [OF this(1)] this(2) show ?thesis by blast
qed

end
