(* ===== verification/Coerce_Args.thy ===== *)
theory Coerce_Args
  imports Json
begin

text \<open>
  The repair of arguments a model sent as texts (tool/coerce-args.ts): a property that the schema declares with
  types other than string and that came as a text is replaced by the value the text denotes, when that value has
  a declared type. Of a property's schema only its \<open>type\<close> is read. A number with a fraction or an exponent
  is kept as its text (as in Json); the double it denotes is given by the argument \<open>dbl\<close> (\<open>None\<close> when it is
  infinite).
\<close>

section \<open>The code\<close>

datatype schema_type = One_type string | Many_types "string list" | Other_type

text \<open>The properties of a schema; \<open>None\<close> stands for a property whose schema is no object.\<close>

type_synonym arg_schema = "(string, schema_type option) jmap"

definition tryParseJson :: "string \<Rightarrow> json option" where
  "tryParseJson value = (let trimmed = js_trim value in if trimmed = [] then None else JSON_parse trimmed)"

definition usable_types :: "string list" where
  "usable_types = [''object'', ''array'', ''number'', ''integer'', ''boolean'']"

definition declaredNonStringTypes :: "schema_type \<Rightarrow> string list option" where
  "declaredNonStringTypes t =
     (case t of
        Other_type \<Rightarrow> None
      | _ \<Rightarrow>
          let types = (case t of One_type x \<Rightarrow> [x] | Many_types xs \<Rightarrow> xs | Other_type \<Rightarrow> []) in
          if types = [] then None
          else if ''string'' \<in> set types then None
          else let usable = filter (\<lambda>x. x \<in> set usable_types) types in
               if usable = [] then None else Some usable)"

definition js_finite :: "(string \<Rightarrow> rat option) \<Rightarrow> json \<Rightarrow> bool" where
  "js_finite dbl v = (case v of JInt i \<Rightarrow> \<bar>i\<bar> < 2 ^ 1024 - 2 ^ 970 | JDec t \<Rightarrow> dbl t \<noteq> None | _ \<Rightarrow> False)"

definition js_integer :: "(string \<Rightarrow> rat option) \<Rightarrow> json \<Rightarrow> bool" where
  "js_integer dbl v =
     (case v of
        JInt i \<Rightarrow> js_finite dbl v
      | JDec t \<Rightarrow> (case dbl t of Some x \<Rightarrow> of_int \<lfloor>x\<rfloor> = x | None \<Rightarrow> False)
      | _ \<Rightarrow> False)"

definition type_matches :: "(string \<Rightarrow> rat option) \<Rightarrow> json \<Rightarrow> string \<Rightarrow> bool" where
  "type_matches dbl v t =
     (if t = ''object'' then (case v of JObj ms \<Rightarrow> True | _ \<Rightarrow> False)
      else if t = ''array'' then (case v of JArr vs \<Rightarrow> True | _ \<Rightarrow> False)
      else if t = ''number'' then js_finite dbl v
      else if t = ''integer'' then js_integer dbl v
      else if t = ''boolean'' then (case v of JBool b \<Rightarrow> True | _ \<Rightarrow> False)
      else False)"

definition runtimeTypeMatches :: "(string \<Rightarrow> rat option) \<Rightarrow> json \<Rightarrow> string list \<Rightarrow> bool" where
  "runtimeTypeMatches dbl v declared = list_ex (type_matches dbl v) declared"

text \<open>The value that takes the place of a property, if one does.\<close>

definition coerced_value :: "(string \<Rightarrow> rat option) \<Rightarrow> arg_schema \<Rightarrow> string \<Rightarrow> json \<Rightarrow> json option" where
  "coerced_value dbl props key v =
     (case v of
        JStr text \<Rightarrow>
          (case jget props key of
             Some (Some t) \<Rightarrow>
               (case declaredNonStringTypes t of
                  None \<Rightarrow> None
                | Some declared \<Rightarrow>
                    (case tryParseJson text of
                       None \<Rightarrow> None
                     | Some parsed \<Rightarrow> if runtimeTypeMatches dbl parsed declared then Some parsed else None))
           | _ \<Rightarrow> None)
      | _ \<Rightarrow> None)"

definition coerce_step ::
  "(string \<Rightarrow> rat option) \<Rightarrow> arg_schema \<Rightarrow> (string \<times> json) list \<Rightarrow> string \<times> json \<Rightarrow> (string \<times> json) list option \<Rightarrow>
   (string \<times> json) list option" where
  "coerce_step dbl props args entry out =
     (case coerced_value dbl props (fst entry) (snd entry) of
        None \<Rightarrow> out
      | Some parsed \<Rightarrow> Some (jset (case out of None \<Rightarrow> args | Some o1 \<Rightarrow> o1) (fst entry) parsed))"

text \<open>\<open>None\<close> when the very same object is returned.\<close>

definition coerceArgsToSchema ::
  "(string \<Rightarrow> rat option) \<Rightarrow> (string \<times> json) list \<Rightarrow> arg_schema option \<Rightarrow> (string \<times> json) list option" where
  "coerceArgsToSchema dbl args schema =
     (case schema of
        None \<Rightarrow> None
      | Some props \<Rightarrow> fold (coerce_step dbl props args) args None)"

definition coerced_args ::
  "(string \<Rightarrow> rat option) \<Rightarrow> (string \<times> json) list \<Rightarrow> arg_schema option \<Rightarrow> (string \<times> json) list" where
  "coerced_args dbl args schema =
     (case coerceArgsToSchema dbl args schema of None \<Rightarrow> args | Some out \<Rightarrow> out)"

definition coerceToolCallInput :: "(string \<Rightarrow> rat option) \<Rightarrow> string \<Rightarrow> arg_schema option \<Rightarrow> string" where
  "coerceToolCallInput dbl rawInput schema =
     (let trimmed = js_trim rawInput in
      if trimmed = [] then rawInput
      else case JSON_parse trimmed of
             Some (JObj args) \<Rightarrow>
               (case coerceArgsToSchema dbl args schema of
                  None \<Rightarrow> rawInput
                | Some out \<Rightarrow> JSON_stringify (JObj out))
           | _ \<Rightarrow> rawInput)"

section \<open>Every property on its own\<close>

definition coerced_entry :: "(string \<Rightarrow> rat option) \<Rightarrow> arg_schema \<Rightarrow> string \<times> json \<Rightarrow> string \<times> json" where
  "coerced_entry dbl props e =
     (fst e, case coerced_value dbl props (fst e) (snd e) of Some p \<Rightarrow> p | None \<Rightarrow> snd e)"

lemma coerced_entry_key [simp]: "fst (coerced_entry dbl props e) = fst e"
  by (simp add: coerced_entry_def)

lemma jset_middle: "k \<notin> set (jkeys xs) \<Longrightarrow> jset (xs @ (k, v) # ys) k p = xs @ (k, p) # ys"
  by (induction xs) auto

lemma coerce_step_pair:
  "coerce_step dbl props args (k, v) out =
     (case coerced_value dbl props k v of None \<Rightarrow> out
      | Some p \<Rightarrow> Some (jset (case out of None \<Rightarrow> args | Some o1 \<Rightarrow> o1) k p))"
  by (cases "coerced_value dbl props k v") (simp_all add: coerce_step_def)

lemma coerce_fold:
  assumes "distinct (jkeys (pre @ post))"
  shows "fold (coerce_step dbl props (pre @ post)) pre None =
    (if list_all (\<lambda>e. coerced_value dbl props (fst e) (snd e) = None) pre then None
     else Some (map (coerced_entry dbl props) pre @ post))"
  using assms
proof (induction pre arbitrary: post rule: rev_induct)
  case (snoc e pre)
  obtain k v where e: "e = (k, v)" by (cases e)
  have IH: "fold (coerce_step dbl props (pre @ e # post)) pre None =
    (if list_all (\<lambda>e. coerced_value dbl props (fst e) (snd e) = None) pre then None
     else Some (map (coerced_entry dbl props) pre @ e # post))"
    using snoc.IH [of "e # post"] snoc.prems by simp
  have fresh: "k \<notin> set (jkeys pre)" "k \<notin> set (jkeys (map (coerced_entry dbl props) pre))"
    using snoc.prems by (auto simp: e)
  have same: "map (coerced_entry dbl props) pre = pre" if "list_all (\<lambda>e. coerced_value dbl props (fst e) (snd e) = None) pre"
    using that by (induction pre) (simp_all add: coerced_entry_def)
  let ?F = "fold (coerce_step dbl props (pre @ e # post)) pre None"
  have step: "coerce_step dbl props (pre @ e # post) e out =
      (case coerced_value dbl props k v of None \<Rightarrow> out
       | Some p \<Rightarrow> Some (jset (case out of None \<Rightarrow> pre @ e # post | Some o1 \<Rightarrow> o1) k p))" for out
    using coerce_step_pair [of dbl props "pre @ e # post" k v] by (simp only: e [symmetric])
  have fold: "fold (coerce_step dbl props ((pre @ [e]) @ post)) (pre @ [e]) None = coerce_step dbl props (pre @ e # post) e ?F"
    by simp
  have new: "coerced_entry dbl props e = (k, case coerced_value dbl props k v of None \<Rightarrow> v | Some p \<Rightarrow> p)"
    by (simp add: coerced_entry_def e split: option.splits)
  have put: "jset (pre @ e # post) k p = pre @ (k, p) # post"
    "jset (map (coerced_entry dbl props) pre @ e # post) k p = map (coerced_entry dbl props) pre @ (k, p) # post" for p
    by (simp_all only: e jset_middle [OF fresh(1)] jset_middle [OF fresh(2)])
  show ?case
    unfolding fold step IH
    by (cases "coerced_value dbl props k v"; cases "list_all (\<lambda>e. coerced_value dbl props (fst e) (snd e) = None) pre")
      (simp_all add: new put same, simp_all add: e)
qed simp

lemma coerced_args_map:
  assumes "distinct (jkeys args)"
  shows "coerced_args dbl args (Some props) = map (coerced_entry dbl props) args"
    and "coerceArgsToSchema dbl args (Some props) = None \<longleftrightarrow>
      list_all (\<lambda>e. coerced_value dbl props (fst e) (snd e) = None) args"
proof -
  have same: "map (coerced_entry dbl props) args = args" if "list_all (\<lambda>e. coerced_value dbl props (fst e) (snd e) = None) args"
    using that by (induction args) (simp_all add: coerced_entry_def)
  note f = coerce_fold [of args "[]" dbl props]
  show "coerced_args dbl args (Some props) = map (coerced_entry dbl props) args"
    using f assms same by (auto simp: coerced_args_def coerceArgsToSchema_def)
  show "coerceArgsToSchema dbl args (Some props) = None \<longleftrightarrow>
      list_all (\<lambda>e. coerced_value dbl props (fst e) (snd e) = None) args"
    using f assms by (auto simp: coerceArgsToSchema_def)
qed

lemma coerced_not_string: "coerced_value dbl props k v = Some p \<Longrightarrow> p \<noteq> JStr s"
  by (auto simp: coerced_value_def runtimeTypeMatches_def type_matches_def list_ex_iff js_finite_def js_integer_def
      split: json.splits option.splits if_splits)

lemma coerced_value_again: "coerced_value dbl props k v = Some p \<Longrightarrow> coerced_value dbl props k p = None"
proof -
  assume "coerced_value dbl props k v = Some p"
  then have "\<And>s. p \<noteq> JStr s" using coerced_not_string by blast
  then show ?thesis by (cases p) (auto simp: coerced_value_def)
qed

lemma coerced_get:
  "jget xs k = Some v \<Longrightarrow> jget (map (coerced_entry dbl props) xs) k =
     Some (case coerced_value dbl props k v of Some p \<Rightarrow> p | None \<Rightarrow> v)"
  by (induction xs) (auto simp: coerced_entry_def simp del: map_of_eq_Some_iff split: if_splits)

text \<open>
  Coercion keeps the names and their order and changes every property on its own: a text becomes the value it
  denotes exactly when the schema declares types without string and the value has one of them. A second
  coercion changes nothing.
\<close>

theorem coercion_is_pointwise:
  assumes "distinct (jkeys args)"
  shows "jkeys (coerced_args dbl args (Some props)) = jkeys args \<and>
    (\<forall>k v. jget args k = Some v \<longrightarrow>
       jget (coerced_args dbl args (Some props)) k =
         Some (case coerced_value dbl props k v of Some p \<Rightarrow> p | None \<Rightarrow> v)) \<and>
    coerceArgsToSchema dbl (coerced_args dbl args (Some props)) (Some props) = None"
proof -
  have keys: "jkeys (map (coerced_entry dbl props) args) = jkeys args" by simp
  have "coerced_value dbl props (fst (coerced_entry dbl props e)) (snd (coerced_entry dbl props e)) = None" for e
    by (cases "coerced_value dbl props (fst e) (snd e)") (auto simp: coerced_entry_def coerced_value_again)
  then have "list_all (\<lambda>e. coerced_value dbl props (fst e) (snd e) = None) (map (coerced_entry dbl props) args)"
    by (simp add: list_all_iff)
  moreover have "distinct (jkeys (map (coerced_entry dbl props) args))" unfolding keys by (rule assms)
  ultimately have "coerceArgsToSchema dbl (map (coerced_entry dbl props) args) (Some props) = None"
    using coerced_args_map(2) by blast
  then show ?thesis using coerced_get keys unfolding coerced_args_map(1) [OF assms] by blast
qed

theorem coercion_is_pointwise_witness:
  "jkeys (coerced_args (\<lambda>_. None) [(''targets'', JStr ''[1]''), (''name'', JStr ''[1]'')]
     (Some [(''targets'', Some (One_type ''array'')), (''name'', Some (One_type ''string''))])) = [''targets'', ''name'']"
proof -
  have "distinct (jkeys [(''targets'', JStr ''[1]''), (''name'', JStr ''[1]'')])" by simp
  from coercion_is_pointwise [OF this] show ?thesis by simp
qed

section \<open>Texts that were printed values\<close>

lemma trim_solid:
  assumes "s \<noteq> []" "\<not> js_space (hd s)" "\<not> js_space (last s)"
  shows "js_trim s = s"
proof -
  have "dropWhile js_space s = s" using assms(1,2) by (cases s) simp_all
  moreover have "dropWhile js_space (rev s) = rev s" using assms(1,3) by (cases s rule: rev_cases) simp_all
  ultimately show ?thesis by (simp add: js_trim_def)
qed

lemma digit_no_space: "js_digit c \<Longrightarrow> \<not> js_space c"
  by (simp add: js_digit_def js_space_def)

lemma last_digit: "js_digit (last (js_show_nat n))" "js_digit (hd (js_show_nat n))"
  using js_show_nat_digits [of n] by (simp_all add: list_all_iff)

lemma bracket_no_space [simp]:
  "\<not> js_space CHR ''[''" "\<not> js_space CHR '']''" "\<not> js_space CHR ''{''" "\<not> js_space CHR ''}''" "\<not> js_space CHR ''-''"
  by (simp_all add: js_space_def)

lemma stringify_nonempty:
  assumes "v = JBool b \<or> v = JInt i \<or> v = JArr vs \<or> v = JObj ms"
  shows "JSON_stringify v \<noteq> []" "\<not> js_space (hd (JSON_stringify v))" "\<not> js_space (last (JSON_stringify v))"
proof -
  have digits: "js_show_nat n \<noteq> []" "\<not> js_space (last (js_show_nat n))" "\<not> js_space (hd (js_show_nat n))" for n
    by (simp_all add: digit_no_space last_digit)
  have letters: "\<not> js_space (CHR ''t'')" "\<not> js_space (CHR ''f'')" "\<not> js_space (CHR ''e'')"
    by (simp_all add: js_space_def)
  from assms consider "v = JBool b" | "v = JInt i" | "v = JArr vs" | "v = JObj ms" by blast
  then have "JSON_stringify v \<noteq> [] \<and> \<not> js_space (hd (JSON_stringify v)) \<and> \<not> js_space (last (JSON_stringify v))"
  proof cases
    case 1
    then show ?thesis using letters by (simp add: JSON_stringify_def)
  next
    case 2
    then show ?thesis using digits by (simp add: JSON_stringify_def js_show_int_def)
  next
    case 3
    then show ?thesis by (cases vs) (simp_all add: JSON_stringify_def json_nl_def)
  next
    case 4
    then show ?thesis by (cases ms) (simp_all add: JSON_stringify_def json_nl_def split: prod.splits)
  qed
  then show "JSON_stringify v \<noteq> []" "\<not> js_space (hd (JSON_stringify v))" "\<not> js_space (last (JSON_stringify v))"
    by blast+
qed

text \<open>
  A value that a model printed into a text is recovered: where the schema declares types without string, the
  text of a truth value, an integer, an array or an object of a declared type is replaced by that value.
\<close>

theorem printed_values_are_recovered:
  assumes "distinct (jkeys args)" and "jget args k = Some (JStr (JSON_stringify v))" and "jget props k = Some (Some t)"
    and "declaredNonStringTypes t = Some ts" and "runtimeTypeMatches dbl v ts" and "wf_json v"
    and "v = JBool b \<or> v = JInt i \<or> v = JArr vs \<or> v = JObj ms"
  shows "jget (coerced_args dbl args (Some props)) k = Some v"
proof -
  have "js_trim (JSON_stringify v) = JSON_stringify v" by (rule trim_solid [OF stringify_nonempty [OF assms(7)]])
  moreover have "JSON_stringify v \<noteq> []" by (rule stringify_nonempty [OF assms(7)])
  ultimately have "tryParseJson (JSON_stringify v) = Some v"
    using json_roundtrip [OF assms(6)] by (simp add: tryParseJson_def)
  then have "coerced_value dbl props k (JStr (JSON_stringify v)) = Some v"
    using assms(3-5) by (simp add: coerced_value_def)
  then show ?thesis
    unfolding coerced_args_map(1) [OF assms(1)] using coerced_get [OF assms(2), of dbl props] by simp
qed

theorem printed_values_are_recovered_witness:
  "jget (coerced_args (\<lambda>_. None) [(''targets'', JStr (JSON_stringify (JArr [JStr ''daemon''])))]
     (Some [(''targets'', Some (One_type ''array''))])) ''targets'' = Some (JArr [JStr ''daemon''])"
  by (rule printed_values_are_recovered [where t = "One_type ''array''" and ts = "[''array'']" and b = False and i = 0 and
        vs = "[JStr ''daemon'']" and ms = "[]"])
    (simp_all add: declaredNonStringTypes_def usable_types_def runtimeTypeMatches_def type_matches_def)

end
