(* ===== verification/Questions.thy ===== *)
theory Questions
  imports Json
begin

text \<open>
  Questions to the user. The first part is the repair of the shapes in which a model sends them
  (sdk/js/src/v2/question-normalize.ts) with the schema they have to meet (question/index.ts, tool/question.ts),
  the second the dialogue itself (question/index.ts): a question waits until it is answered, rejected or its abort
  signal fires. The body of every operation is one step, since nothing in it waits after the state has been fetched.
  A signal is a number, its listeners are the identifiers of the questions that listen to it. A request identifier
  is not the name of a member of \<open>Object.prototype\<close>.
\<close>

section \<open>The shapes of a question\<close>

text \<open>\<open>{ ...v }\<close>: an array is spread into an object with its indices as names.\<close>

definition spread_object :: "json \<Rightarrow> (string \<times> json) list" where
  "spread_object v =
     (case v of
        JObj ms \<Rightarrow> ms
      | JArr vs \<Rightarrow> map (\<lambda>(i, x). (js_show_nat i, x)) (enumerate 0 vs)
      | _ \<Rightarrow> [])"

definition text_field :: "(string \<times> json) list \<Rightarrow> string \<Rightarrow> string option" where
  "text_field ms k = (case jget ms k of Some (JStr s) \<Rightarrow> Some s | _ \<Rightarrow> None)"

definition js_else :: "'a option \<Rightarrow> 'a option \<Rightarrow> 'a option" where
  "js_else a b = (case a of Some x \<Rightarrow> Some x | None \<Rightarrow> b)"

definition normalize_option :: "json \<Rightarrow> json" where
  "normalize_option opt =
     (case opt of
        JStr s \<Rightarrow> JObj [(''label'', JStr s), (''description'', JStr s)]
      | JObj ms \<Rightarrow>
          let label = js_else (text_field ms ''label'') (text_field ms ''value'');
              description = js_else (text_field ms ''description'') (js_else (text_field ms ''detail'')
                (js_else (text_field ms ''explanation'') label))
          in (case label of
                Some l \<Rightarrow>
                  JObj (jset (jset ms ''label'' (JStr l)) ''description''
                    (JStr (case description of Some d \<Rightarrow> d | None \<Rightarrow> l)))
              | None \<Rightarrow> opt)
      | _ \<Rightarrow> opt)"

definition with_header :: "(string \<Rightarrow> string) \<Rightarrow> (string \<times> json) list \<Rightarrow> (string \<times> json) list" where
  "with_header cut30 q =
     (case text_field q ''question'' of
        Some t \<Rightarrow> if text_field q ''header'' = None then jset q ''header'' (JStr (cut30 t)) else q
      | None \<Rightarrow> q)"

definition with_options :: "(string \<times> json) list \<Rightarrow> (string \<times> json) list" where
  "with_options q =
     (case jget q ''options'' of
        Some (JArr opts) \<Rightarrow> jset q ''options'' (JArr (map normalize_option opts))
      | _ \<Rightarrow> q)"

text \<open>The argument \<open>cut30\<close> is \<open>s.slice(0, 30)\<close>, which counts UTF-16 code units.\<close>

definition is_object :: "json \<Rightarrow> bool" where
  "is_object v = (case v of JObj ms \<Rightarrow> True | JArr vs \<Rightarrow> True | _ \<Rightarrow> False)"

definition normalizeSingleQuestion :: "(string \<Rightarrow> string) \<Rightarrow> json \<Rightarrow> json" where
  "normalizeSingleQuestion cut30 raw =
     (if is_object raw then JObj (with_options (with_header cut30 (spread_object raw))) else raw)"

definition is_array :: "json option \<Rightarrow> bool" where
  "is_array v = (case v of Some (JArr vs) \<Rightarrow> True | _ \<Rightarrow> False)"

definition normalizeQuestionInput :: "(string \<Rightarrow> string) \<Rightarrow> json \<Rightarrow> json" where
  "normalizeQuestionInput cut30 raw =
     (case raw of
        JObj obj \<Rightarrow>
          if \<not> is_array (jget obj ''questions'') \<and> text_field obj ''question'' \<noteq> None
          then JObj [(''questions'', JArr [normalizeSingleQuestion cut30 (JObj obj)])]
          else (case jget obj ''questions'' of
                  Some (JArr qs) \<Rightarrow> JObj (jset obj ''questions'' (JArr (map (normalizeSingleQuestion cut30) qs)))
                | _ \<Rightarrow> JObj obj)
      | _ \<Rightarrow> raw)"

text \<open>What the schema of the tool accepts.\<close>

definition option_valid :: "json \<Rightarrow> bool" where
  "option_valid v =
     (case v of JObj ms \<Rightarrow> text_field ms ''label'' \<noteq> None \<and> text_field ms ''description'' \<noteq> None | _ \<Rightarrow> False)"

definition multiple_valid :: "(string \<times> json) list \<Rightarrow> bool" where
  "multiple_valid q = (case jget q ''multiple'' of None \<Rightarrow> True | Some (JBool b) \<Rightarrow> True | _ \<Rightarrow> False)"

definition options_all :: "(json \<Rightarrow> bool) \<Rightarrow> (string \<times> json) list \<Rightarrow> bool" where
  "options_all P q = (case jget q ''options'' of Some (JArr opts) \<Rightarrow> list_all P opts | _ \<Rightarrow> False)"

definition question_valid :: "json \<Rightarrow> bool" where
  "question_valid v =
     (case v of
        JObj q \<Rightarrow> text_field q ''question'' \<noteq> None \<and> text_field q ''header'' \<noteq> None \<and> options_all option_valid q \<and>
          multiple_valid q
      | _ \<Rightarrow> False)"

definition input_valid :: "json \<Rightarrow> bool" where
  "input_valid v =
     (case v of
        JObj obj \<Rightarrow> (case jget obj ''questions'' of Some (JArr qs) \<Rightarrow> list_all question_valid qs | _ \<Rightarrow> False)
      | _ \<Rightarrow> False)"

text \<open>The shapes that are understood.\<close>

definition option_lenient :: "json \<Rightarrow> bool" where
  "option_lenient v =
     (case v of
        JStr s \<Rightarrow> True
      | JObj ms \<Rightarrow> text_field ms ''label'' \<noteq> None \<or> text_field ms ''value'' \<noteq> None
      | _ \<Rightarrow> False)"

definition question_lenient :: "json \<Rightarrow> bool" where
  "question_lenient v =
     (case v of
        JObj q \<Rightarrow> text_field q ''question'' \<noteq> None \<and> options_all option_lenient q \<and> multiple_valid q
      | _ \<Rightarrow> False)"

definition input_lenient :: "json \<Rightarrow> bool" where
  "input_lenient v =
     (case v of
        JObj obj \<Rightarrow>
          (case jget obj ''questions'' of
             Some (JArr qs) \<Rightarrow> list_all question_lenient qs
           | _ \<Rightarrow> question_lenient v)
      | _ \<Rightarrow> False)"

section \<open>The repair\<close>

lemma jget_set: "jget (jset m k v) k' = (if k' = k then Some v else jget m k')"
  by (rule jget_jset)

lemma jset_keep: "jget m k = Some v \<Longrightarrow> jset m k v = m"
  by (induction m) (auto split: if_splits simp del: map_of_eq_Some_iff)

lemma text_field_set:
  "text_field (jset m k v) k' = (if k' = k then (case v of JStr s \<Rightarrow> Some s | _ \<Rightarrow> None) else text_field m k')"
  by (simp add: text_field_def jget_set)

lemma text_field_get: "text_field m k = Some s \<longleftrightarrow> jget m k = Some (JStr s)"
  by (simp add: text_field_def split: option.splits json.splits del: map_of_eq_Some_iff)

lemma text_field_Cons [simp]:
  "text_field ((k, v) # m) k' = (if k' = k then (case v of JStr s \<Rightarrow> Some s | _ \<Rightarrow> None) else text_field m k')"
  by (simp add: text_field_def)

lemma not_array_case: "\<not> is_array x \<Longrightarrow> (case x of Some (JArr vs) \<Rightarrow> f vs | _ \<Rightarrow> c) = c"
  by (simp add: is_array_def split: option.splits json.splits)

lemma is_array_iff: "is_array x \<longleftrightarrow> (\<exists>vs. x = Some (JArr vs))"
  by (simp add: is_array_def split: option.splits json.splits)

lemma options_all_iff: "options_all P q \<longleftrightarrow> (\<exists>opts. jget q ''options'' = Some (JArr opts) \<and> list_all P opts)"
  by (simp add: options_all_def split: option.splits json.splits del: map_of_eq_Some_iff)

lemma option_repaired: "option_valid (normalize_option v) \<longleftrightarrow> option_lenient v"
  by (cases v) (auto simp: option_valid_def option_lenient_def normalize_option_def Let_def js_else_def text_field_set
      split: option.splits)

lemma option_kept:
  assumes "option_valid v"
  shows "normalize_option v = v"
proof -
  obtain ms l d where v: "v = JObj ms" "text_field ms ''label'' = Some l" "text_field ms ''description'' = Some d"
    using assms by (cases v) (auto simp: option_valid_def)
  have "jset ms ''label'' (JStr l) = ms" "jset ms ''description'' (JStr d) = ms"
    using v(2,3) by (simp_all add: jset_keep text_field_get del: map_of_eq_Some_iff)
  then show ?thesis using v by (simp add: normalize_option_def Let_def js_else_def)
qed

lemma option_stable: "normalize_option (normalize_option v) = normalize_option v"
proof (cases "option_valid (normalize_option v)")
  case True
  then show ?thesis by (rule option_kept)
next
  case False
  then have "normalize_option v = v"
    unfolding option_repaired
    by (cases v) (auto simp: option_lenient_def normalize_option_def Let_def js_else_def)
  then show ?thesis by simp
qed

lemma header_fields:
  "text_field (with_header cut30 q) ''question'' = text_field q ''question''"
  "jget (with_header cut30 q) ''options'' = jget q ''options''"
  "jget (with_header cut30 q) ''multiple'' = jget q ''multiple''"
  "text_field q ''question'' \<noteq> None \<Longrightarrow> text_field (with_header cut30 q) ''header'' \<noteq> None"
  by (auto simp: with_header_def text_field_set jget_set split: option.splits)

lemma options_fields:
  "k \<noteq> ''options'' \<Longrightarrow> jget (with_options q) k = jget q k"
  "k \<noteq> ''options'' \<Longrightarrow> text_field (with_options q) k = text_field q k"
  by (auto simp: with_options_def text_field_set jget_set split: option.splits json.splits)

lemma options_all_fixed: "options_all P (with_options q) \<longleftrightarrow> options_all (\<lambda>v. P (normalize_option v)) q"
  by (auto simp: options_all_def with_options_def jget_set list_all_iff split: option.splits json.splits)

lemma options_stable: "with_options (with_options q) = with_options q"
proof (cases "is_array (jget q ''options'')")
  case True
  then obtain opts where o: "jget q ''options'' = Some (JArr opts)"
    by (auto simp: is_array_iff simp del: map_of_eq_Some_iff)
  have "jget (with_options q) ''options'' = Some (JArr (map normalize_option opts))"
    using o by (simp add: with_options_def jget_set)
  then show ?thesis
    by (simp add: with_options_def [of "with_options q"] jset_keep option_stable comp_def del: map_of_eq_Some_iff)
next
  case False
  then have "with_options q = q"
    by (auto simp: with_options_def is_array_def split: option.splits json.splits)
  then show ?thesis by simp
qed

lemma index_not_question: "text_field (map (\<lambda>(i, x). (js_show_nat i, x)) xs) ''question'' = None"
proof (induction xs)
  case (Cons p xs)
  obtain i x where p: "p = (i, x)" by (cases p)
  have "js_show_nat i \<noteq> ''question''"
    using js_show_nat_digits [of i] by (auto simp: js_digit_def)
  then show ?case using Cons p by (simp add: eq_commute)
qed (simp add: text_field_def)

lemma question_repaired: "question_valid (normalizeSingleQuestion cut30 v) \<longleftrightarrow> question_lenient v"
proof (cases v)
  case (JArr vs)
  then show ?thesis
    by (simp add: question_valid_def question_lenient_def normalizeSingleQuestion_def is_object_def options_fields
        header_fields spread_object_def index_not_question)
next
  case (JObj q)
  have m: "multiple_valid (with_options (with_header cut30 q)) \<longleftrightarrow> multiple_valid q"
    by (simp add: multiple_valid_def options_fields header_fields)
  have o: "options_all P (with_header cut30 q) \<longleftrightarrow> options_all P q" for P
    by (simp add: options_all_def header_fields)
  show ?thesis
    using header_fields(4) [of q cut30]
    by (auto simp: JObj question_valid_def question_lenient_def normalizeSingleQuestion_def is_object_def options_fields
        header_fields(1) spread_object_def options_all_fixed option_repaired m o)
qed (simp_all add: question_valid_def question_lenient_def normalizeSingleQuestion_def is_object_def)

lemma question_kept:
  assumes "question_valid v"
  shows "normalizeSingleQuestion cut30 v = v"
proof -
  obtain q opts where v: "v = JObj q" "text_field q ''header'' \<noteq> None" "jget q ''options'' = Some (JArr opts)"
      "list_all option_valid opts"
    using assms
    by (cases v) (auto simp: question_valid_def options_all_iff simp del: map_of_eq_Some_iff)
  have "map normalize_option opts = opts"
    using v(4) by (auto simp: list_all_iff option_kept intro: map_idI)
  then have "with_options q = q" using v(3) by (simp add: with_options_def jset_keep del: map_of_eq_Some_iff)
  moreover have "with_header cut30 q = q" using v(2) by (auto simp: with_header_def split: option.splits)
  ultimately show ?thesis by (simp add: v(1) normalizeSingleQuestion_def is_object_def spread_object_def)
qed

lemma question_stable: "normalizeSingleQuestion cut30 (normalizeSingleQuestion cut30 v) = normalizeSingleQuestion cut30 v"
proof (cases "is_object v")
  case True
  let ?q = "with_header cut30 (spread_object v)"
  have "with_header cut30 (with_options ?q) = with_options ?q"
  proof (cases "text_field ?q ''question''")
    case (Some t)
    then have "text_field ?q ''header'' \<noteq> None" using header_fields(1) [of cut30 "spread_object v"] header_fields(4) [of "spread_object v" cut30] by simp
    then show ?thesis by (auto simp: with_header_def [of _ "with_options ?q"] options_fields split: option.splits)
  qed (simp add: with_header_def [of _ "with_options ?q"] options_fields)
  then show ?thesis
    using True by (simp add: normalizeSingleQuestion_def is_object_def spread_object_def options_stable)
qed (simp add: normalizeSingleQuestion_def)

text \<open>
  Repair makes an input acceptable exactly when it is one of the lenient shapes: a list of questions or one bare
  question, each with a text, options that are texts or have a label or a value, and a multiple flag that is missing
  or a truth value. A missing header, a missing description and the outer list are filled in. Everything else is
  still refused by the schema.
\<close>

theorem repair_accepts_lenient: "input_valid (normalizeQuestionInput cut30 v) \<longleftrightarrow> input_lenient v"
proof (cases v)
  case (JObj obj)
  show ?thesis
  proof (cases "is_array (jget obj ''questions'')")
    case True
    then obtain qs where qs: "jget obj ''questions'' = Some (JArr qs)"
      by (auto simp: is_array_iff simp del: map_of_eq_Some_iff)
    then show ?thesis
      using True
      by (simp add: JObj normalizeQuestionInput_def input_valid_def input_lenient_def jget_set list_all_iff question_repaired)
  next
    case False
    note no = not_array_case [OF False]
    show ?thesis
    proof (cases "text_field obj ''question''")
      case None
      then have "\<not> question_lenient (JObj obj)" by (simp add: question_lenient_def)
      then show ?thesis using False None by (simp add: JObj normalizeQuestionInput_def input_valid_def input_lenient_def no)
    next
      case (Some t)
      then show ?thesis
        using False by (simp add: JObj normalizeQuestionInput_def input_valid_def input_lenient_def no question_repaired)
    qed
  qed
qed (simp_all add: normalizeQuestionInput_def input_valid_def input_lenient_def)

text \<open>
  The server and the two interfaces repair the same input again: a second repair changes nothing, and an input
  that meets the schema is never changed.
\<close>

theorem repair_once:
  "normalizeQuestionInput cut30 (normalizeQuestionInput cut30 v) = normalizeQuestionInput cut30 v \<and>
   (input_valid v \<longrightarrow> normalizeQuestionInput cut30 v = v)"
proof (cases v)
  case (JObj obj)
  show ?thesis
  proof (cases "is_array (jget obj ''questions'')")
    case True
    then obtain qs where qs: "jget obj ''questions'' = Some (JArr qs)"
      by (auto simp: is_array_iff simp del: map_of_eq_Some_iff)
    have fixed: "map (normalizeSingleQuestion cut30) qs = qs" if "input_valid v"
      using that qs by (auto simp: JObj input_valid_def list_all_iff question_kept intro: map_idI)
    then have "input_valid v \<Longrightarrow> normalizeQuestionInput cut30 v = v"
      using qs True by (simp add: JObj normalizeQuestionInput_def jset_keep del: map_of_eq_Some_iff)
    moreover have "jget (jset obj ''questions'' (JArr (map (normalizeSingleQuestion cut30) qs))) ''questions'' =
        Some (JArr (map (normalizeSingleQuestion cut30) qs))"
      by (simp add: jget_set)
    ultimately show ?thesis
      using qs True
      by (simp add: JObj normalizeQuestionInput_def is_array_def jset_keep question_stable comp_def del: map_of_eq_Some_iff)
  next
    case False
    note no = not_array_case [OF False]
    have "\<not> input_valid v" by (simp add: JObj input_valid_def no)
    moreover have "normalizeQuestionInput cut30 (normalizeQuestionInput cut30 v) = normalizeQuestionInput cut30 v"
    proof (cases "text_field obj ''question''")
      case None
      then have "normalizeQuestionInput cut30 v = v" using False by (simp add: JObj normalizeQuestionInput_def no)
      then show ?thesis by simp
    next
      case (Some t)
      then have "normalizeQuestionInput cut30 v = JObj [(''questions'', JArr [normalizeSingleQuestion cut30 (JObj obj)])]"
        using False by (simp add: JObj normalizeQuestionInput_def)
      then show ?thesis by (simp add: normalizeQuestionInput_def is_array_def question_stable)
    qed
    ultimately show ?thesis by blast
  qed
qed (simp_all add: normalizeQuestionInput_def input_valid_def)

section \<open>The dialogue\<close>

datatype abort_reason =
    Text_reason string | Error_reason string string | No_reason | Json_reason json | Circular_reason string

text \<open>An error is its name and its message, in this order; a value that cannot be serialised is its \<open>String\<close>.\<close>

definition abortReasonLabel :: "abort_reason \<Rightarrow> string" where
  "abortReasonLabel r =
     (case r of
        Text_reason t \<Rightarrow> if t \<noteq> [] then t else JSON_stringify (JStr t)
      | Error_reason nm message \<Rightarrow> if message \<noteq> [] then message else nm
      | No_reason \<Rightarrow> ''unknown''
      | Json_reason v \<Rightarrow> JSON_stringify v
      | Circular_reason t \<Rightarrow> t)"

record question_option =
  qo_label :: string
  qo_description :: string

record question_info =
  qi_question :: string
  qi_header :: string
  qi_options :: "question_option list"
  qi_multiple :: "bool option"
  qi_custom :: "bool option"

record question_request =
  qr_id :: string
  qr_sessionID :: string
  qr_questions :: "question_info list"
  qr_tool :: "(string \<times> string) option"

datatype question_event =
    Q_asked question_request | Q_replied string string "string list list" | Q_rejected string string

datatype dismissal = By_user | Pre_aborted string | Aborted string

datatype question_outcome = Q_answered "string list list" | Q_dismissed dismissal

definition rejected_message :: "dismissal \<Rightarrow> string" where
  "rejected_message d =
     (let dismissed = (\<lambda>detail. ''The question was dismissed ('' @ detail @ '')'') in
      case d of
        By_user \<Rightarrow> ''The user dismissed this question''
      | Pre_aborted r \<Rightarrow> dismissed (''pre-aborted: '' @ r)
      | Aborted r \<Rightarrow> dismissed (''aborted: '' @ r))"

record question_pending =
  qp_info :: question_request
  qp_signal :: "nat option"

record abort_signal =
  as_reason :: "abort_reason option"
  as_listeners :: "string list"

text \<open>The outcomes are the promises that have been settled, in their order.\<close>

record question_state =
  qs_pending :: "(string, question_pending) jmap"
  qs_signals :: "nat \<Rightarrow> abort_signal"
  qs_bus :: "question_event list"
  qs_outcomes :: "(string \<times> question_outcome) list"

definition question_start :: question_state where
  "question_start = \<lparr>qs_pending = [], qs_signals = (\<lambda>n. \<lparr>as_reason = None, as_listeners = []\<rparr>), qs_bus = [], qs_outcomes = []\<rparr>"

definition on_abort :: "string \<Rightarrow> string \<Rightarrow> question_state \<Rightarrow> question_state" where
  "on_abort reason i s =
     (case jget (qs_pending s) i of
        None \<Rightarrow> s
      | Some existing \<Rightarrow>
          s\<lparr>qs_pending := jdel (qs_pending s) i,
            qs_bus := qs_bus s @ [Q_rejected (qr_sessionID (qp_info existing)) i],
            qs_outcomes := qs_outcomes s @ [(i, Q_dismissed (Aborted reason))]\<rparr>)"

definition question_ask ::
  "string \<Rightarrow> string \<Rightarrow> question_info list \<Rightarrow> (string \<times> string) option \<Rightarrow> nat option \<Rightarrow> question_state \<Rightarrow> question_state" where
  "question_ask i sessionID questions tool abort s =
     (case (case abort of None \<Rightarrow> None | Some n \<Rightarrow> as_reason (qs_signals s n)) of
        Some r \<Rightarrow>
          s\<lparr>qs_bus := qs_bus s @ [Q_rejected sessionID i],
            qs_outcomes := qs_outcomes s @ [(i, Q_dismissed (Pre_aborted (abortReasonLabel r)))]\<rparr>
      | None \<Rightarrow>
          let info = \<lparr>qr_id = i, qr_sessionID = sessionID, qr_questions = questions, qr_tool = tool\<rparr>;
              s1 = s\<lparr>qs_pending := jset (qs_pending s) i \<lparr>qp_info = info, qp_signal = abort\<rparr>\<rparr>;
              s2 = (case abort of
                      None \<Rightarrow> s1
                    | Some n \<Rightarrow> s1\<lparr>qs_signals := (qs_signals s1)(n :=
                        (qs_signals s1 n)\<lparr>as_listeners := as_listeners (qs_signals s1 n) @ [i]\<rparr>)\<rparr>)
          in s2\<lparr>qs_bus := qs_bus s2 @ [Q_asked info]\<rparr>)"

definition dispose :: "string \<Rightarrow> question_pending \<Rightarrow> question_state \<Rightarrow> question_state" where
  "dispose i existing s =
     (case qp_signal existing of
        None \<Rightarrow> s
      | Some n \<Rightarrow> s\<lparr>qs_signals := (qs_signals s)(n :=
          (qs_signals s n)\<lparr>as_listeners := filter (\<lambda>j. j \<noteq> i) (as_listeners (qs_signals s n))\<rparr>)\<rparr>)"

definition question_reply :: "string \<Rightarrow> string list list \<Rightarrow> question_state \<Rightarrow> question_state" where
  "question_reply requestID answers s =
     (case jget (qs_pending s) requestID of
        None \<Rightarrow> s
      | Some existing \<Rightarrow>
          let s1 = dispose requestID existing (s\<lparr>qs_pending := jdel (qs_pending s) requestID\<rparr>);
              s2 = s1\<lparr>qs_bus := qs_bus s1 @
                [Q_replied (qr_sessionID (qp_info existing)) (qr_id (qp_info existing)) answers]\<rparr>
          in s2\<lparr>qs_outcomes := qs_outcomes s2 @ [(requestID, Q_answered answers)]\<rparr>)"

definition question_reject :: "string \<Rightarrow> question_state \<Rightarrow> question_state" where
  "question_reject requestID s =
     (case jget (qs_pending s) requestID of
        None \<Rightarrow> s
      | Some existing \<Rightarrow>
          let s1 = dispose requestID existing (s\<lparr>qs_pending := jdel (qs_pending s) requestID\<rparr>);
              s2 = s1\<lparr>qs_bus := qs_bus s1 @
                [Q_rejected (qr_sessionID (qp_info existing)) (qr_id (qp_info existing))]\<rparr>
          in s2\<lparr>qs_outcomes := qs_outcomes s2 @ [(requestID, Q_dismissed By_user)]\<rparr>)"

definition question_list :: "question_state \<Rightarrow> question_request list" where
  "question_list s = map (\<lambda>p. qp_info (snd p)) (qs_pending s)"

text \<open>A signal fires once: its listeners, which are registered for one event, are called in their order.\<close>

definition fire_signal :: "nat \<Rightarrow> abort_reason \<Rightarrow> question_state \<Rightarrow> question_state" where
  "fire_signal n r s =
     (if as_reason (qs_signals s n) \<noteq> None then s
      else fold (on_abort (abortReasonLabel r)) (as_listeners (qs_signals s n))
             (s\<lparr>qs_signals := (qs_signals s)(n := \<lparr>as_reason = Some r, as_listeners = []\<rparr>)\<rparr>))"

text \<open>The answer of the tool: its title and its output.\<close>

definition format_answer :: "string list option \<Rightarrow> string" where
  "format_answer a = (case a of Some (x # xs) \<Rightarrow> js_join '', '' (x # xs) | _ \<Rightarrow> ''Unanswered'')"

definition question_result :: "question_info list \<Rightarrow> string list list \<Rightarrow> string \<times> string" where
  "question_result questions answers =
     (let formatted = js_join '', '' (map (\<lambda>(i, q). [CHR 0x22] @ qi_question q @ [CHR 0x22, CHR ''='', CHR 0x22] @
            format_answer (if i < length answers then Some (answers ! i) else None) @ [CHR 0x22]) (enumerate 0 questions))
      in (''Asked '' @ js_show_nat (length questions) @ '' question'' @ (if length questions > 1 then ''s'' else []),
          ''User has answered your questions: '' @ formatted @
            ''. You can now continue with the user'' @ [CHR 0x27] @ ''s answers in mind.''))"

definition question_execute :: "question_info list \<Rightarrow> question_outcome \<Rightarrow> string + (string \<times> string \<times> string list list)" where
  "question_execute questions out =
     (case out of
        Q_dismissed d \<Rightarrow> Inl (rejected_message d)
      | Q_answered answers \<Rightarrow>
          (case question_result questions answers of (title, output) \<Rightarrow> Inr (title, output, answers)))"

text \<open>What can happen. The identifier of a question is fresh, since identifiers ascend.\<close>

definition closed_ids :: "question_state \<Rightarrow> string set" where
  "closed_ids s = fst ` set (qs_outcomes s)"

inductive question_reach :: "question_state \<Rightarrow> bool" where
  starts: "question_reach question_start"
| asks: "question_reach s \<Longrightarrow> i \<notin> set (jkeys (qs_pending s)) \<union> closed_ids s \<Longrightarrow>
    question_reach (question_ask i sid qs tool abort s)"
| replies: "question_reach s \<Longrightarrow> question_reach (question_reply i answers s)"
| rejects: "question_reach s \<Longrightarrow> question_reach (question_reject i s)"
| fires: "question_reach s \<Longrightarrow> question_reach (fire_signal n r s)"

section \<open>The invariant of the dialogue\<close>

definition answers_of :: "question_outcome \<Rightarrow> string list list option" where
  "answers_of out = (case out of Q_answered a \<Rightarrow> Some a | Q_dismissed d \<Rightarrow> None)"

definition was_shown :: "question_outcome \<Rightarrow> bool" where
  "was_shown out = (case out of Q_dismissed (Pre_aborted r) \<Rightarrow> False | _ \<Rightarrow> True)"

definition closing_of :: "question_event \<Rightarrow> (string \<times> string list list option) option" where
  "closing_of e = (case e of Q_replied sid i a \<Rightarrow> Some (i, Some a) | Q_rejected sid i \<Rightarrow> Some (i, None) | Q_asked q \<Rightarrow> None)"

definition opening_of :: "question_event \<Rightarrow> string option" where
  "opening_of e = (case e of Q_asked q \<Rightarrow> Some (qr_id q) | _ \<Rightarrow> None)"

definition closings :: "question_state \<Rightarrow> (string \<times> string list list option) list" where
  "closings s = List.map_filter closing_of (qs_bus s)"

definition shown :: "question_state \<Rightarrow> string list" where
  "shown s = List.map_filter opening_of (qs_bus s)"

definition dialogue_ok :: "question_state \<Rightarrow> bool" where
  "dialogue_ok s \<longleftrightarrow>
     distinct (jkeys (qs_pending s)) \<and> distinct (map fst (qs_outcomes s)) \<and>
     set (jkeys (qs_pending s)) \<inter> closed_ids s = {} \<and>
     (\<forall>i p. jget (qs_pending s) i = Some p \<longrightarrow> qr_id (qp_info p) = i) \<and>
     closings s = map (\<lambda>(i, out). (i, answers_of out)) (qs_outcomes s) \<and>
     distinct (shown s) \<and>
     set (shown s) = set (jkeys (qs_pending s)) \<union> fst ` {e \<in> set (qs_outcomes s). was_shown (snd e)}"

definition listens :: "question_state \<Rightarrow> nat \<Rightarrow> string \<Rightarrow> bool" where
  "listens s n i \<longleftrightarrow> (\<exists>p. jget (qs_pending s) i = Some p \<and> qp_signal p = Some n)"

definition listeners_ok :: "question_state \<Rightarrow> bool" where
  "listeners_ok s \<longleftrightarrow>
     (\<forall>n i. i \<in> set (as_listeners (qs_signals s n)) \<longleftrightarrow> listens s n i) \<and>
     (\<forall>n. as_reason (qs_signals s n) \<noteq> None \<longrightarrow> as_listeners (qs_signals s n) = [])"

lemma map_filter_snoc [simp]:
  "List.map_filter f (xs @ [x]) = List.map_filter f xs @ (case f x of Some y \<Rightarrow> [y] | None \<Rightarrow> [])"
  by (simp add: List.map_filter_def split: option.splits)

lemma dialogue_ok_apart: "dialogue_ok s \<Longrightarrow> set (jkeys (qs_pending s)) \<inter> closed_ids s = {}"
  unfolding dialogue_ok_def by (elim conjE)

lemma pending_key: "jget (qs_pending s) i = Some p \<Longrightarrow> i \<in> set (jkeys (qs_pending s))"
  by (metis jm.keys_get option.distinct(1))

lemma not_pending: "i \<notin> set (jkeys m) \<Longrightarrow> jget m i = None"
  by (metis jm.keys_get)

lemma dialogue_close:
  assumes ok: "dialogue_ok s" and p: "jget (qs_pending s) i = Some p" and out: "was_shown out"
    and ev: "closing_of ev = Some (i, answers_of out)" "opening_of ev = None"
    and s': "qs_pending s' = jdel (qs_pending s) i" "qs_bus s' = qs_bus s @ [ev]" "qs_outcomes s' = qs_outcomes s @ [(i, out)]"
  shows "dialogue_ok s'"
proof -
  have i: "i \<in> set (jkeys (qs_pending s))" by (rule pending_key [OF p])
  have keys: "set (jkeys (qs_pending s')) = set (jkeys (qs_pending s)) - {i}" by (simp add: s' jm.keys_del [simplified])
  have sep: "set (jkeys (qs_pending s)) \<inter> closed_ids s = {}" by (rule dialogue_ok_apart [OF ok])
  then have fresh: "i \<notin> closed_ids s" using i by blast
  have closed: "closed_ids s' = insert i (closed_ids s)" by (simp add: closed_ids_def s')
  have cl: "closings s' = closings s @ [(i, answers_of out)]" by (simp add: closings_def s' ev)
  have sh: "shown s' = shown s" by (simp add: shown_def s' ev)
  have set: "fst ` {e \<in> set (qs_outcomes s'). was_shown (snd e)} =
      insert i (fst ` {e \<in> set (qs_outcomes s). was_shown (snd e)})"
    using out by (auto simp: s' image_iff)
  show ?thesis unfolding dialogue_ok_def
  proof (intro conjI)
    show "distinct (jkeys (qs_pending s'))"
      using ok distinct_delete [of "qs_pending s" i] by (simp add: s' dialogue_ok_def)
    show "distinct (map fst (qs_outcomes s'))"
      using ok fresh by (simp add: s' dialogue_ok_def closed_ids_def)
    show "set (jkeys (qs_pending s')) \<inter> closed_ids s' = {}"
      using sep unfolding keys closed by auto
    show "\<forall>i p. jget (qs_pending s') i = Some p \<longrightarrow> qr_id (qp_info p) = i"
      using ok unfolding s' jget_jdel dialogue_ok_def by (metis option.distinct(1))
    show "closings s' = map (\<lambda>(i, out). (i, answers_of out)) (qs_outcomes s')"
      using ok by (simp add: cl s' dialogue_ok_def)
    show "distinct (shown s')" using ok by (simp add: sh dialogue_ok_def)
    show "set (shown s') = set (jkeys (qs_pending s')) \<union> fst ` {e \<in> set (qs_outcomes s'). was_shown (snd e)}"
      using ok i unfolding sh keys set dialogue_ok_def by blast
  qed
qed

lemma dialogue_refuse:
  assumes ok: "dialogue_ok s" and fresh: "i \<notin> set (jkeys (qs_pending s)) \<union> closed_ids s"
    and s': "qs_pending s' = qs_pending s" "qs_bus s' = qs_bus s @ [Q_rejected sid i]"
      "qs_outcomes s' = qs_outcomes s @ [(i, Q_dismissed (Pre_aborted r))]"
  shows "dialogue_ok s'"
proof -
  have sep: "set (jkeys (qs_pending s)) \<inter> closed_ids s = {}" by (rule dialogue_ok_apart [OF ok])
  have closed: "closed_ids s' = insert i (closed_ids s)" by (simp add: closed_ids_def s')
  have cl: "closings s' = closings s @ [(i, None)]" by (simp add: closings_def s' closing_of_def)
  have sh: "shown s' = shown s" by (simp add: shown_def s' opening_of_def)
  have set: "{e \<in> set (qs_outcomes s'). was_shown (snd e)} = {e \<in> set (qs_outcomes s). was_shown (snd e)}"
    by (auto simp: s' was_shown_def)
  show ?thesis unfolding dialogue_ok_def
  proof (intro conjI)
    show "distinct (map fst (qs_outcomes s'))"
      using ok fresh by (simp add: s' dialogue_ok_def closed_ids_def)
    show "set (jkeys (qs_pending s')) \<inter> closed_ids s' = {}"
      using sep fresh unfolding s' closed by auto
    show "closings s' = map (\<lambda>(i, out). (i, answers_of out)) (qs_outcomes s')"
      using ok by (simp add: cl s' dialogue_ok_def answers_of_def)
    show "set (shown s') = set (jkeys (qs_pending s')) \<union> fst ` {e \<in> set (qs_outcomes s'). was_shown (snd e)}"
      using ok unfolding sh set s'(1) dialogue_ok_def by blast
  qed (use ok in \<open>simp_all add: s' sh dialogue_ok_def\<close>)
qed

lemma dialogue_open:
  assumes ok: "dialogue_ok s" and fresh: "i \<notin> set (jkeys (qs_pending s)) \<union> closed_ids s" and i: "qr_id (qp_info p) = i"
    and s': "qs_pending s' = jset (qs_pending s) i p" "qs_bus s' = qs_bus s @ [Q_asked (qp_info p)]" "qs_outcomes s' = qs_outcomes s"
  shows "dialogue_ok s'"
proof -
  have sep: "set (jkeys (qs_pending s)) \<inter> closed_ids s = {}" by (rule dialogue_ok_apart [OF ok])
  have closed: "closed_ids s' = closed_ids s" by (simp add: closed_ids_def s')
  have keys: "set (jkeys (qs_pending s')) = insert i (set (jkeys (qs_pending s)))" unfolding s' by (rule jm.keys_put)
  have sh: "shown s' = shown s @ [i]" by (simp add: shown_def s' opening_of_def i)
  have seen: "set (shown s) = set (jkeys (qs_pending s)) \<union> fst ` {e \<in> set (qs_outcomes s). was_shown (snd e)}"
    using ok unfolding dialogue_ok_def by blast
  have new: "i \<notin> set (shown s)" using fresh unfolding seen closed_ids_def by blast
  show ?thesis unfolding dialogue_ok_def
  proof (intro conjI)
    show "distinct (jkeys (qs_pending s'))"
      using ok distinct_update [of "qs_pending s" i p] by (simp add: s' dialogue_ok_def)
    show "set (jkeys (qs_pending s')) \<inter> closed_ids s' = {}"
      using sep fresh unfolding keys closed by auto
    show "\<forall>j p. jget (qs_pending s') j = Some p \<longrightarrow> qr_id (qp_info p) = j"
      using ok i unfolding s' jget_jset dialogue_ok_def by (metis option.sel)
    show "closings s' = map (\<lambda>(i, out). (i, answers_of out)) (qs_outcomes s')"
      using ok by (simp add: closings_def closing_of_def s' dialogue_ok_def)
    show "distinct (shown s')" using ok new by (simp add: sh dialogue_ok_def)
    show "set (shown s') = set (jkeys (qs_pending s')) \<union> fst ` {e \<in> set (qs_outcomes s'). was_shown (snd e)}"
      using seen unfolding sh keys s'(3) by auto
  qed (use ok in \<open>simp_all add: s' dialogue_ok_def\<close>)
qed

lemma dispose_fields [simp]:
  "qs_pending (dispose i p s) = qs_pending s" "qs_bus (dispose i p s) = qs_bus s"
  "qs_outcomes (dispose i p s) = qs_outcomes s"
  by (simp_all add: dispose_def split: option.splits)

lemma dialogue_step:
  assumes ok: "dialogue_ok s"
  shows "dialogue_ok (on_abort r i s)" and "dialogue_ok (question_reply i answers s)" and "dialogue_ok (question_reject i s)"
    and "i \<notin> set (jkeys (qs_pending s)) \<union> closed_ids s \<Longrightarrow> dialogue_ok (question_ask i sid qs tool abort s)"
proof -
  have own: "qr_id (qp_info p) = i" if "jget (qs_pending s) i = Some p" for p
    using ok that unfolding dialogue_ok_def by blast
  show "dialogue_ok (on_abort r i s)"
  proof (cases "jget (qs_pending s) i")
    case (Some p)
    show ?thesis
      by (rule dialogue_close [OF ok Some, where out = "Q_dismissed (Aborted r)" and ev = "Q_rejected (qr_sessionID (qp_info p)) i"])
        (simp_all add: on_abort_def Some was_shown_def closing_of_def opening_of_def answers_of_def)
  qed (simp add: on_abort_def ok)
  show "dialogue_ok (question_reply i answers s)"
  proof (cases "jget (qs_pending s) i")
    case (Some p)
    show ?thesis
      by (rule dialogue_close [OF ok Some, where out = "Q_answered answers" and ev = "Q_replied (qr_sessionID (qp_info p)) i answers"])
        (simp_all add: question_reply_def Some own Let_def was_shown_def closing_of_def opening_of_def answers_of_def)
  qed (simp add: question_reply_def ok)
  show "dialogue_ok (question_reject i s)"
  proof (cases "jget (qs_pending s) i")
    case (Some p)
    show ?thesis
      by (rule dialogue_close [OF ok Some, where out = "Q_dismissed By_user" and ev = "Q_rejected (qr_sessionID (qp_info p)) i"])
        (simp_all add: question_reject_def Some own Let_def was_shown_def closing_of_def opening_of_def answers_of_def)
  qed (simp add: question_reject_def ok)
  show "dialogue_ok (question_ask i sid qs tool abort s)" if fresh: "i \<notin> set (jkeys (qs_pending s)) \<union> closed_ids s"
  proof (cases "case abort of None \<Rightarrow> None | Some n \<Rightarrow> as_reason (qs_signals s n)")
    case (Some r)
    show ?thesis
      by (rule dialogue_refuse [OF ok fresh, where sid = sid and r = "abortReasonLabel r"]) (simp_all add: question_ask_def Some)
  next
    case None
    let ?p = "\<lparr>qp_info = \<lparr>qr_id = i, qr_sessionID = sid, qr_questions = qs, qr_tool = tool\<rparr>, qp_signal = abort\<rparr>"
    show ?thesis
      by (rule dialogue_open [OF ok fresh, where p = ?p]) (simp_all add: question_ask_def None Let_def split: option.splits)
  qed
qed

section \<open>The signals\<close>

lemma on_abort_signals [simp]: "qs_signals (on_abort r i s) = qs_signals s"
  by (simp add: on_abort_def split: option.splits)

lemma on_abort_pending: "jget (qs_pending (on_abort r i s)) k = (if k = i then None else jget (qs_pending s) k)"
  by (simp add: on_abort_def jget_jdel split: option.splits)

lemma fold_abort:
  "qs_signals (fold (on_abort r) ids s) = qs_signals s"
  "jget (qs_pending (fold (on_abort r) ids s)) k = (if k \<in> set ids then None else jget (qs_pending s) k)"
  "dialogue_ok s \<Longrightarrow> dialogue_ok (fold (on_abort r) ids s)"
  by (induction ids arbitrary: s) (auto simp: on_abort_pending dialogue_step(1))

text \<open>The outcomes grow by those of the questions that were still pending.\<close>

lemma fold_abort_outcomes:
  "\<exists>more. qs_outcomes (fold (on_abort r) ids s) = qs_outcomes s @ map (\<lambda>i. (i, Q_dismissed (Aborted r))) more \<and>
     set more = {i \<in> set ids. jget (qs_pending s) i \<noteq> None}"
proof (induction ids arbitrary: s)
  case (Cons j ids)
  show ?case
  proof (cases "jget (qs_pending s) j")
    case None
    then have "on_abort r j s = s" by (simp add: on_abort_def)
    then show ?thesis using Cons.IH [of s] None by (auto simp del: map_of_eq_None_iff)
  next
    case (Some p)
    obtain more where more:
      "qs_outcomes (fold (on_abort r) ids (on_abort r j s)) =
         qs_outcomes (on_abort r j s) @ map (\<lambda>i. (i, Q_dismissed (Aborted r))) more"
      "set more = {i \<in> set ids. jget (qs_pending (on_abort r j s)) i \<noteq> None}"
      using Cons.IH [of "on_abort r j s"] by blast
    have "qs_outcomes (on_abort r j s) = qs_outcomes s @ [(j, Q_dismissed (Aborted r))]"
      by (simp add: on_abort_def Some)
    then have "qs_outcomes (fold (on_abort r) (j # ids) s) =
        qs_outcomes s @ map (\<lambda>i. (i, Q_dismissed (Aborted r))) (j # more)"
      using more(1) by simp
    moreover have "set (j # more) = {i \<in> set (j # ids). jget (qs_pending s) i \<noteq> None}"
      using more(2) Some by (auto simp: on_abort_pending simp del: map_of_eq_None_iff)
    ultimately show ?thesis by blast
  qed
qed simp

lemma signals_close:
  assumes ok: "listeners_ok s" and p: "jget (qs_pending s) i = Some p"
    and s': "qs_pending s' = jdel (qs_pending s) i" "qs_signals s' = qs_signals (dispose i p s)"
  shows "listeners_ok s'"
proof -
  have l: "listens s' n j \<longleftrightarrow> j \<noteq> i \<and> listens s n j" for n j
    by (auto simp: listens_def s' jget_jdel simp del: map_of_eq_Some_iff)
  have li: "listens s n i \<longleftrightarrow> qp_signal p = Some n" for n by (simp add: listens_def p)
  have old: "j \<in> set (as_listeners (qs_signals s n)) \<longleftrightarrow> listens s n j" for n j
    using ok unfolding listeners_ok_def by blast
  have fired: "as_reason (qs_signals s n) \<noteq> None \<Longrightarrow> as_listeners (qs_signals s n) = []" for n
    using ok unfolding listeners_ok_def by blast
  show ?thesis
    using fired unfolding listeners_ok_def l s'(2) dispose_def
    by (cases "qp_signal p") (auto simp: old li)
qed

lemma signals_ask:
  assumes ok: "listeners_ok s" and fresh: "i \<notin> set (jkeys (qs_pending s))"
  shows "listeners_ok (question_ask i sid qs tool abort s)"
proof (cases "case abort of None \<Rightarrow> None | Some n \<Rightarrow> as_reason (qs_signals s n)")
  case (Some r)
  then show ?thesis using ok by (simp add: question_ask_def listeners_ok_def listens_def)
next
  case None
  let ?s = "question_ask i sid qs tool abort s"
  have none: "jget (qs_pending s) i = None" using fresh by (rule not_pending)
  have pend: "jget (qs_pending ?s) j = (if j = i then Some \<lparr>qp_info = \<lparr>qr_id = i, qr_sessionID = sid, qr_questions = qs,
      qr_tool = tool\<rparr>, qp_signal = abort\<rparr> else jget (qs_pending s) j)" for j
    by (simp add: question_ask_def None Let_def jget_jset split: option.splits)
  have l: "listens ?s n j \<longleftrightarrow> (if j = i then abort = Some n else listens s n j)" for n j
    by (simp add: listens_def pend del: map_of_eq_Some_iff)
  have li: "\<not> listens s n i" for n by (simp add: listens_def none)
  have old: "j \<in> set (as_listeners (qs_signals s n)) \<longleftrightarrow> listens s n j" for n j
    using ok unfolding listeners_ok_def by blast
  have fired: "as_reason (qs_signals s n) \<noteq> None \<Longrightarrow> as_listeners (qs_signals s n) = []" for n
    using ok unfolding listeners_ok_def by blast
  have sig: "qs_signals ?s = (case abort of None \<Rightarrow> qs_signals s
      | Some n \<Rightarrow> (qs_signals s)(n := (qs_signals s n)\<lparr>as_listeners := as_listeners (qs_signals s n) @ [i]\<rparr>))"
    by (simp add: question_ask_def None Let_def split: option.splits)
  show ?thesis
    using fired None unfolding listeners_ok_def l sig by (cases abort) (auto simp: old li)
qed

lemma signals_fire:
  assumes ok: "listeners_ok s"
  shows "listeners_ok (fire_signal n r s)"
proof (cases "as_reason (qs_signals s n)")
  case None
  let ?s = "fire_signal n r s"
  have old: "j \<in> set (as_listeners (qs_signals s m)) \<longleftrightarrow> listens s m j" for m j
    using ok unfolding listeners_ok_def by blast
  have fired: "as_reason (qs_signals s m) \<noteq> None \<Longrightarrow> as_listeners (qs_signals s m) = []" for m
    using ok unfolding listeners_ok_def by blast
  have sig: "qs_signals ?s = (qs_signals s)(n := \<lparr>as_reason = Some r, as_listeners = []\<rparr>)"
    by (simp add: fire_signal_def None fold_abort)
  have pend: "jget (qs_pending ?s) j = (if listens s n j then None else jget (qs_pending s) j)" for j
    by (simp add: fire_signal_def None fold_abort old)
  have l: "listens ?s m j \<longleftrightarrow> m \<noteq> n \<and> listens s m j" for m j
    unfolding listens_def [of ?s] pend by (auto simp: listens_def simp del: map_of_eq_Some_iff)
  show ?thesis using fired unfolding listeners_ok_def l sig by (auto simp: old)
qed (use ok in \<open>simp add: fire_signal_def\<close>)

lemma question_inv: "question_reach s \<Longrightarrow> dialogue_ok s \<and> listeners_ok s"
proof (induction rule: question_reach.induct)
  case starts
  show ?case
    by (simp add: question_start_def dialogue_ok_def listeners_ok_def listens_def closed_ids_def closings_def shown_def
        List.map_filter_def)
next
  case (asks s i sid qs tool abort)
  then show ?case using dialogue_step(4) [of s i] signals_ask [of s i] by blast
next
  case (replies s i answers)
  have "listeners_ok (question_reply i answers s)"
  proof (cases "jget (qs_pending s) i")
    case (Some p)
    show ?thesis
      using replies signals_close [OF _ Some, of "question_reply i answers s"]
      by (simp add: question_reply_def Some Let_def dispose_def split: option.splits)
  qed (use replies in \<open>simp add: question_reply_def\<close>)
  then show ?case using replies dialogue_step(2) by blast
next
  case (rejects s i)
  have "listeners_ok (question_reject i s)"
  proof (cases "jget (qs_pending s) i")
    case (Some p)
    show ?thesis
      using rejects signals_close [OF _ Some, of "question_reject i s"]
      by (simp add: question_reject_def Some Let_def dispose_def split: option.splits)
  qed (use rejects in \<open>simp add: question_reject_def\<close>)
  then show ?case using rejects dialogue_step(3) by blast
next
  case (fires s n r)
  have same: "dialogue_ok (s\<lparr>qs_signals := g\<rparr>) \<longleftrightarrow> dialogue_ok s" for g
    by (simp add: dialogue_ok_def closed_ids_def closings_def shown_def)
  have "dialogue_ok (fire_signal n r s)"
    using fires fold_abort(3) by (simp add: fire_signal_def same)
  then show ?case using fires signals_fire by blast
qed

text \<open>
  C40 (invariant): Every question that was asked is either waiting or settled, and it is settled once. The events tell the same
  story as the promises: the closing events are those of the outcomes in their order with the same answers, and
  a question was shown exactly when it waits or was settled otherwise than by a signal that had fired before.
\<close>

theorem every_question_settled_once:
  assumes "question_reach s"
  shows "distinct (map fst (qs_outcomes s)) \<and>
    set (map qr_id (question_list s)) \<inter> closed_ids s = {} \<and>
    closings s = map (\<lambda>(i, out). (i, answers_of out)) (qs_outcomes s) \<and>
    distinct (shown s) \<and>
    set (shown s) = set (map qr_id (question_list s)) \<union> fst ` {e \<in> set (qs_outcomes s). was_shown (snd e)}"
proof -
  have ok: "dialogue_ok s" using question_inv [OF assms] by blast
  have "qr_id (qp_info (snd e)) = fst e" if "e \<in> set (qs_pending s)" for e
  proof -
    have "distinct (map fst (qs_pending s))" using ok unfolding dialogue_ok_def by (elim conjE)
    then have "jget (qs_pending s) (fst e) = Some (snd e)" using that by (metis map_of_eq_Some_iff prod.collapse)
    then show ?thesis using ok unfolding dialogue_ok_def by blast
  qed
  then have ids: "map qr_id (question_list s) = jkeys (qs_pending s)" by (simp add: question_list_def)
  show ?thesis unfolding ids using ok unfolding dialogue_ok_def by (elim conjE) (intro conjI)
qed

definition demo_question :: question_state where
  "demo_question = question_ask ''que_1'' ''ses_1'' [] None (Some 0) question_start"

lemma demo_question_reach: "question_reach demo_question"
  unfolding demo_question_def by (rule asks [OF starts]) (simp add: question_start_def closed_ids_def)

theorem every_question_settled_once_witness:
  "distinct (map fst (qs_outcomes (question_reply ''que_1'' [[''yes'']] demo_question)))"
  using every_question_settled_once [OF replies [OF demo_question_reach]] by blast

text \<open>
  A signal that fires dismisses exactly the questions that were asked with it: they leave the list with the
  reason of the signal, and no other question is touched.
\<close>

theorem signal_dismisses_its_questions:
  assumes "question_reach s" and "as_reason (qs_signals s n) = None"
  shows "jget (qs_pending (fire_signal n r s)) i =
      (case jget (qs_pending s) i of
         None \<Rightarrow> None
       | Some p \<Rightarrow> if qp_signal p = Some n then None else Some p) \<and>
    (\<exists>more. qs_outcomes (fire_signal n r s) =
       qs_outcomes s @ map (\<lambda>j. (j, Q_dismissed (Aborted (abortReasonLabel r)))) more \<and>
       set more = {j. \<exists>p. jget (qs_pending s) j = Some p \<and> qp_signal p = Some n})"
proof
  have ok: "listeners_ok s" using question_inv [OF assms(1)] by blast
  have old: "j \<in> set (as_listeners (qs_signals s m)) \<longleftrightarrow> (\<exists>p. jget (qs_pending s) j = Some p \<and> qp_signal p = Some m)" for m j
    using ok unfolding listeners_ok_def listens_def by blast
  show "jget (qs_pending (fire_signal n r s)) i =
      (case jget (qs_pending s) i of
         None \<Rightarrow> None
       | Some p \<Rightarrow> if qp_signal p = Some n then None else Some p)"
    by (cases "jget (qs_pending s) i") (simp_all add: fire_signal_def assms(2) fold_abort old)
  let ?s = "s\<lparr>qs_signals := (qs_signals s)(n := \<lparr>as_reason = Some r, as_listeners = []\<rparr>)\<rparr>"
  have "{j \<in> set (as_listeners (qs_signals s n)). jget (qs_pending ?s) j \<noteq> None} =
      {j. \<exists>p. jget (qs_pending s) j = Some p \<and> qp_signal p = Some n}"
    unfolding old by (auto simp del: map_of_eq_Some_iff)
  then show "\<exists>more. qs_outcomes (fire_signal n r s) =
       qs_outcomes s @ map (\<lambda>j. (j, Q_dismissed (Aborted (abortReasonLabel r)))) more \<and>
       set more = {j. \<exists>p. jget (qs_pending s) j = Some p \<and> qp_signal p = Some n}"
    using fold_abort_outcomes [of "abortReasonLabel r" "as_listeners (qs_signals s n)" ?s]
    by (simp add: fire_signal_def assms(2))
qed

theorem signal_dismisses_its_questions_witness:
  "jget (qs_pending (fire_signal 0 No_reason demo_question)) ''que_1'' = None"
proof -
  have "as_reason (qs_signals demo_question 0) = None" by (simp add: demo_question_def question_ask_def question_start_def Let_def)
  from signal_dismisses_its_questions [OF demo_question_reach this, where i = "''que_1''"] show ?thesis
    by (simp add: demo_question_def question_ask_def question_start_def Let_def)
qed

text \<open>
  A late answer, rejection or signal changes nothing for a question that is settled, and no listener is left behind:
  a signal is listened to exactly by the questions that wait with it.
\<close>

theorem settled_question_is_final:
  assumes "question_reach s" and "i \<in> closed_ids s"
  shows "question_reply i answers s = s \<and> question_reject i s = s \<and>
    (\<forall>n. i \<notin> set (as_listeners (qs_signals s n))) \<and>
    filter (\<lambda>e. fst e = i) (qs_outcomes (fire_signal n r s)) = filter (\<lambda>e. fst e = i) (qs_outcomes s)"
proof -
  have ok: "dialogue_ok s" "listeners_ok s" using question_inv [OF assms(1)] by blast+
  have "i \<notin> set (jkeys (qs_pending s))" using dialogue_ok_apart [OF ok(1)] assms(2) by blast
  then have none: "jget (qs_pending s) i = None" by (rule not_pending)
  let ?s = "s\<lparr>qs_signals := (qs_signals s)(n := \<lparr>as_reason = Some r, as_listeners = []\<rparr>)\<rparr>"
  obtain more where more:
    "qs_outcomes (fold (on_abort (abortReasonLabel r)) (as_listeners (qs_signals s n)) ?s) =
      qs_outcomes s @ map (\<lambda>j. (j, Q_dismissed (Aborted (abortReasonLabel r)))) more"
    "set more = {j \<in> set (as_listeners (qs_signals s n)). jget (qs_pending ?s) j \<noteq> None}"
    using fold_abort_outcomes [of "abortReasonLabel r" "as_listeners (qs_signals s n)" ?s] by auto
  have "i \<notin> set more" using more(2) none by simp
  then have "filter (\<lambda>e. fst e = i) (map (\<lambda>j. (j, Q_dismissed (Aborted (abortReasonLabel r)))) more) = []"
    by (auto simp: filter_empty_conv)
  then have "filter (\<lambda>e. fst e = i) (qs_outcomes (fire_signal n r s)) = filter (\<lambda>e. fst e = i) (qs_outcomes s)"
    using more(1) by (simp add: fire_signal_def)
  moreover have "i \<notin> set (as_listeners (qs_signals s n))" for n
    using ok(2) none unfolding listeners_ok_def listens_def by auto
  ultimately show ?thesis using none by (simp add: question_reply_def question_reject_def)
qed

theorem settled_question_is_final_witness:
  "question_reject ''que_1'' (question_reply ''que_1'' [[''yes'']] demo_question) = question_reply ''que_1'' [[''yes'']] demo_question"
proof -
  have "''que_1'' \<in> closed_ids (question_reply ''que_1'' [[''yes'']] demo_question)"
    by (simp add: demo_question_def question_ask_def question_start_def question_reply_def closed_ids_def Let_def dispose_def)
  from settled_question_is_final [OF replies [OF demo_question_reach] this] show ?thesis by blast
qed

end
