(* ===== verification/Compaction_Trigger.thy ===== *)
theory Compaction_Trigger
  imports Continuation
begin

text \<open>
  When a session is compacted (session/compaction.ts, session/prompt.ts, session/context-policy.ts,
  session/cache-miss-diagnostic.ts, session/freerun-resolver.ts, session/idle-compaction-gate.ts): the token budget of
  a model, the predicates over it, the health of the provider's cache, and the order in which a turn of the loop
  evaluates them. Of a message only what these functions read is modelled. Token counts are integers, fractions
  exact. The configuration, the tweaks, the system hashes and the clock are arguments.
\<close>

section \<open>Messages\<close>

record token_counts =
  tk_total :: "int option"
  tk_input :: int
  tk_output :: int
  tk_cache_read :: int
  tk_cache_write :: int

datatype tool_status = Tool_pending | Tool_running | Tool_completed | Tool_error

datatype session_part =
    Text_part string | Reasoning_part string | Tool_part string tool_status | Other_part

datatype message_role = User_message | Assistant_message

record session_message =
  sm_id :: string
  sm_role :: message_role
  sm_providerId :: string
  sm_accountId :: "string option"
  sm_created :: "int option"
  sm_completed :: "int option"
  sm_summary :: bool
  sm_tokens :: "token_counts option"
  sm_parts :: "session_part list"

definition is_anchor :: "session_message \<Rightarrow> bool" where
  "is_anchor m \<longleftrightarrow> sm_role m = Assistant_message \<and> sm_summary m"

definition findMostRecentAnchor :: "session_message list \<Rightarrow> session_message option" where
  "findMostRecentAnchor msgs = find is_anchor (rev msgs)"

definition js_zero :: "int option \<Rightarrow> int" where
  "js_zero x = (case x of Some n \<Rightarrow> n | None \<Rightarrow> 0)"

definition COOLDOWN_MS :: int where
  "COOLDOWN_MS = 30000"

definition shouldThrottle :: "int \<Rightarrow> session_message list \<Rightarrow> bool" where
  "shouldThrottle now msgs =
     (case findMostRecentAnchor msgs of
        None \<Rightarrow> False
      | Some anchor \<Rightarrow>
          let anchorTime = js_zero (sm_created anchor) in
          if anchorTime = 0 then False else now - anchorTime < COOLDOWN_MS)"

definition tool_items :: "session_part \<Rightarrow> nat" where
  "tool_items p =
     (case p of
        Tool_part callID status \<Rightarrow> if status = Tool_completed \<or> status = Tool_error then 2 else 1
      | _ \<Rightarrow> 0)"

definition has_text :: "session_part \<Rightarrow> bool" where
  "has_text p = (case p of Text_part t \<Rightarrow> t \<noteq> [] | _ \<Rightarrow> False)"

definition message_items :: "session_message \<Rightarrow> nat" where
  "message_items m =
     (case sm_role m of
        User_message \<Rightarrow> 1
      | Assistant_message \<Rightarrow>
          (if list_ex has_text (sm_parts m) then 1 else 0) + sum_list (map tool_items (sm_parts m)))"

definition estimateTransportItemCount :: "session_message list \<Rightarrow> nat" where
  "estimateTransportItemCount msgs = sum_list (map message_items msgs)"

definition estimateCodexItemCount :: "session_message list \<Rightarrow> nat" where
  "estimateCodexItemCount msgs = sum_list (map message_items msgs)"

definition model_visible :: "session_part \<Rightarrow> bool" where
  "model_visible p = (case p of Other_part \<Rightarrow> False | _ \<Rightarrow> True)"

text \<open>The loop runs over the messages from the last one; only a user message ends it with the count.\<close>

fun trailing_empty :: "session_message list \<Rightarrow> nat \<Rightarrow> nat" where
  "trailing_empty [] count = 0"
| "trailing_empty (m # ms) count =
     (if sm_role m = User_message then count
      else if list_ex model_visible (sm_parts m) then 0
      else (case sm_tokens m of
              None \<Rightarrow> 0
            | Some tk \<Rightarrow> if tk_input tk \<le> 0 \<or> tk_output tk > 0 then 0 else trailing_empty ms (Suc count)))"

definition countTrailingEmptyAssistantResponses :: "session_message list \<Rightarrow> nat" where
  "countTrailingEmptyAssistantResponses msgs = trailing_empty (rev msgs) 0"

text \<open>The messages at the end whose tools are still under way (the clean tail).\<close>

definition in_flight :: "session_message \<Rightarrow> string list" where
  "in_flight m =
     (if sm_role m = Assistant_message then
        concat (map (\<lambda>p. case p of
          Tool_part callID status \<Rightarrow> if status = Tool_pending \<or> status = Tool_running then [callID] else []
        | _ \<Rightarrow> []) (sm_parts m))
      else [])"

definition js_tail :: "nat \<Rightarrow> 'a list \<Rightarrow> 'a list" where
  "js_tail n xs = drop (length xs - n) xs"

text \<open>The calls in flight and the number of scanned messages; the tail is clean when there are none.\<close>

definition checkCleanTail :: "session_message list \<Rightarrow> nat \<Rightarrow> string list \<times> nat" where
  "checkCleanTail messages windowSize =
     (let window = js_tail windowSize messages in (concat (map in_flight window), length window))"

definition clean_reason :: "string list \<Rightarrow> string" where
  "clean_reason inFlight =
     (case inFlight of
        [] \<Rightarrow> []
      | [c] \<Rightarrow> ''unmatched tool_use '' @ c
      | _ \<Rightarrow> ''multiple unmatched tool_use ['' @ js_join '', '' inFlight @ '']'')"

section \<open>The budget of a model\<close>

record compaction_model =
  cm_id :: string
  cm_providerId :: string
  cm_context :: int
  cm_input :: "int option"
  cm_output :: int
  cm_cost_input :: rat
  cm_cost_output :: rat

record compaction_config =
  cc_auto :: "bool option"
  cc_headroom :: "int option"
  cc_reserved :: "int option"
  cc_overflowThreshold :: "rat option"
  cc_cooldownRounds :: "int option"
  cc_opportunisticThreshold :: "rat option"

text \<open>The thinking option of a request: enabled, \<open>budgetTokens\<close>, \<open>budget_tokens\<close>.\<close>

type_synonym thinking_option = "bool \<times> int option \<times> int option"

definition maxOutputTokens :: "string \<Rightarrow> thinking_option option \<Rightarrow> int \<Rightarrow> int \<Rightarrow> int" where
  "maxOutputTokens npm thinking modelLimit globalLimit =
     (let modelCap = (if modelLimit \<noteq> 0 then modelLimit else globalLimit);
          standardLimit = min modelCap globalLimit
      in if npm \<in> {''@ai-sdk/anthropic'', ''@ai-sdk/google-vertex/anthropic'', ''@ai-sdk/openai-compatible''} then
           (case thinking of
              None \<Rightarrow> standardLimit
            | Some (enabled, b1, b2) \<Rightarrow>
                let budgetTokens = (case b1 of Some n \<Rightarrow> n | None \<Rightarrow> js_zero b2) in
                if enabled \<and> budgetTokens > 0 then
                  (if budgetTokens + standardLimit \<le> modelCap then standardLimit else modelCap - budgetTokens)
                else standardLimit)
         else standardLimit)"

definition COMPACTION_BUFFER :: int where "COMPACTION_BUFFER = 20000"
definition DEFAULT_HEADROOM :: int where "DEFAULT_HEADROOM = 8000"
definition DEFAULT_COOLDOWN_ROUNDS :: int where "DEFAULT_COOLDOWN_ROUNDS = 8"
definition EMERGENCY_CEILING :: int where "EMERGENCY_CEILING = 2000"
definition BY_TOKEN_HEADROOM :: int where "BY_TOKEN_HEADROOM = 80000"
definition BY_TOKEN_COOLDOWN_ROUNDS :: int where "BY_TOKEN_COOLDOWN_ROUNDS = 4"

definition isByTokenBilling :: "compaction_model \<Rightarrow> bool" where
  "isByTokenBilling m \<longleftrightarrow> cm_cost_input m > 0"

definition canSummarize :: "compaction_model \<Rightarrow> bool" where
  "canSummarize m \<longleftrightarrow> cm_context m \<ge> 16000"

definition js_or :: "'a option \<Rightarrow> 'a \<Rightarrow> 'a" where
  "js_or a b = (case a of Some x \<Rightarrow> x | None \<Rightarrow> b)"

text \<open>\<open>limit.input\<close> counts only when it is neither missing nor zero.\<close>

definition input_limit :: "compaction_model \<Rightarrow> int option" where
  "input_limit m = (case cm_input m of Some n \<Rightarrow> if n = 0 then None else Some n | None \<Rightarrow> None)"

definition token_count :: "token_counts \<Rightarrow> int" where
  "token_count t =
     (let sum = tk_input t + tk_output t + tk_cache_read t + tk_cache_write t in
      case tk_total t of Some n \<Rightarrow> if n = 0 then sum else n | None \<Rightarrow> sum)"

record compaction_budget =
  cb_auto :: bool
  cb_context :: int
  cb_reserved :: int
  cb_usable :: int
  cb_count :: int
  cb_overflow :: bool
  cb_emergency :: bool
  cb_cooldownRounds :: int
  cb_byToken :: bool

definition model_output :: "int \<Rightarrow> compaction_model \<Rightarrow> int" where
  "model_output output_max m =
     maxOutputTokens (cm_providerId m) None (if cm_output m = 0 then 32000 else cm_output m) output_max"

definition inspectBudget :: "int \<Rightarrow> compaction_config \<Rightarrow> token_counts \<Rightarrow> compaction_model \<Rightarrow> compaction_budget" where
  "inspectBudget output_max config tokens m =
     (let context = cm_context m;
          count = token_count tokens;
          byToken = isByTokenBilling m;
          headroom = js_or (cc_headroom config) (if byToken then BY_TOKEN_HEADROOM else DEFAULT_HEADROOM);
          reserved = js_or (cc_reserved config) (max headroom (min COMPACTION_BUFFER (model_output output_max m)));
          reservedBasedUsable = (case input_limit m of
              Some n \<Rightarrow> n - reserved
            | None \<Rightarrow> context - model_output output_max m);
          usable = (case cc_overflowThreshold config of
              Some f \<Rightarrow> \<lfloor>of_int context * f\<rfloor>
            | None \<Rightarrow> reservedBasedUsable);
          emergencyCeiling = (case input_limit m of Some n \<Rightarrow> n - EMERGENCY_CEILING | None \<Rightarrow> context - EMERGENCY_CEILING);
          auto_on = cc_auto config \<noteq> Some False
      in \<lparr>cb_auto = auto_on, cb_context = context, cb_reserved = reserved, cb_usable = usable, cb_count = count,
          cb_overflow = (auto_on \<and> context \<noteq> 0 \<and> count \<ge> usable),
          cb_emergency = (auto_on \<and> context \<noteq> 0 \<and> count \<ge> emergencyCeiling),
          cb_cooldownRounds = js_or (cc_cooldownRounds config)
            (if byToken then BY_TOKEN_COOLDOWN_ROUNDS else DEFAULT_COOLDOWN_ROUNDS),
          cb_byToken = byToken\<rparr>)"

section \<open>Freerun sessions\<close>

definition SMALL_WINDOW_TOKENS :: int where "SMALL_WINDOW_TOKENS = 128000"

datatype provider_mode = Full_mode | Lite_mode | Freerun_mode
datatype freerun_override = Override_on | Override_off

definition freerun_decide :: "provider_mode option \<Rightarrow> int option \<Rightarrow> freerun_override option \<Rightarrow> bool" where
  "freerun_decide providerMode contextLimit override =
     (if override = Some Override_off then False
      else if override = Some Override_on then True
      else if providerMode = Some Freerun_mode then True
      else (case contextLimit of Some n \<Rightarrow> 0 < n \<and> n \<le> SMALL_WINDOW_TOKENS | None \<Rightarrow> False))"

text \<open>The session of the call, if it names one: \<open>Some None\<close> when it is not found.\<close>

definition isFreerunProvider ::
  "provider_mode option \<Rightarrow> freerun_override option option option \<Rightarrow> compaction_model \<Rightarrow> bool" where
  "isFreerunProvider mode session m =
     (case session of
        None \<Rightarrow> freerun_decide mode (Some (cm_context m)) None
      | Some None \<Rightarrow> False
      | Some (Some override) \<Rightarrow> freerun_decide mode (Some (cm_context m)) override)"

section \<open>The predicates\<close>

definition isOverflow :: "bool \<Rightarrow> compaction_budget \<Rightarrow> bool" where
  "isOverflow freerun budget =
     (if freerun then False
      else if \<not> cb_overflow budget then False
      else if cb_emergency budget then True
      else True)"

datatype miss_kind = System_prefix_churn | Conversation_growth | Neither_kind

definition WINDOW_SIZE :: nat where "WINDOW_SIZE = 3"

definition recordSystemBlockHash :: "(string, string list) jmap \<Rightarrow> string \<Rightarrow> string \<Rightarrow> (string, string list) jmap" where
  "recordSystemBlockHash hashes sessionID hash =
     jset hashes sessionID (js_tail WINDOW_SIZE (js_or (jget hashes sessionID) [] @ [hash]))"

definition readSystemBlockHashes :: "(string, string list) jmap \<Rightarrow> string \<Rightarrow> string list" where
  "readSystemBlockHashes hashes sessionID = js_or (jget hashes sessionID) []"

definition diagnoseCacheMiss :: "string list \<Rightarrow> int \<Rightarrow> int \<Rightarrow> miss_kind \<times> bool" where
  "diagnoseCacheMiss lastSystemHashes conversationTailTokens minTail =
     (if length lastSystemHashes < 2 then (Neither_kind, False)
      else if \<not> list_all (\<lambda>h. h = hd lastSystemHashes) lastSystemHashes then (System_prefix_churn, False)
      else if conversationTailTokens > minTail then (Conversation_growth, True)
      else (Neither_kind, False))"

definition utilization :: "compaction_budget \<Rightarrow> rat" where
  "utilization b = (if cb_usable b > 0 then of_int (cb_count b) / of_int (cb_usable b) else 0)"

definition shouldCacheAwareCompact ::
  "bool \<Rightarrow> compaction_budget \<Rightarrow> token_counts \<Rightarrow> string list option \<Rightarrow> bool" where
  "shouldCacheAwareCompact freerun budget tokens hashes =
     (if freerun then False
      else if \<not> cb_auto budget \<or> \<not> cb_byToken budget then False
      else if utilization budget < 2 / 5 then False
      else
        let totalInput = tk_input tokens + tk_cache_read tokens in
        if totalInput < 40000 then False
        else
          let cacheHitRate = (if totalInput > 0 then of_int (tk_cache_read tokens) / of_int totalInput else (1 :: rat)) in
          if cacheHitRate \<ge> 2 / 5 then False
          else (case hashes of
                  Some hs \<Rightarrow> snd (diagnoseCacheMiss hs totalInput 40000)
                | None \<Rightarrow> True))"

record compaction_tweaks =
  tw_cacheLossFloor :: rat
  tw_minUncachedTokens :: int
  tw_stallRecoveryFloor :: rat
  tw_stallRecoveryConsecutiveEmpty :: nat
  tw_codexItemOverflowThreshold :: nat
  tw_claudeItemOverflowThreshold :: nat
  tw_bCompactTokens :: "(string, int) jmap"
  tw_bCompactDefault :: int

definition shouldCompactOnPredictedCacheLoss :: "compaction_tweaks \<Rightarrow> int \<Rightarrow> int \<Rightarrow> int \<Rightarrow> bool" where
  "shouldCompactOnPredictedCacheLoss tw currentInputTokens cacheRead window =
     (let ratio = (if window > 0 then of_int currentInputTokens / of_int window else 0) in
      if ratio \<le> tw_cacheLossFloor tw then False
      else max 0 (currentInputTokens - cacheRead) \<ge> tw_minUncachedTokens tw)"

section \<open>The policy of a provider\<close>

datatype observed =
    O_overflow | O_cache_aware | O_rebind | O_continuation_invalidated | O_provider_switched
  | O_stall_recovery | O_manual | O_idle | O_empty_response | O_reload

definition claude_context :: "string option \<Rightarrow> bool" where
  "claude_context providerId \<longleftrightarrow> providerId = Some ''claude-cli''"

definition CLAUDE_NOOP_OBSERVED :: "observed list" where
  "CLAUDE_NOOP_OBSERVED = [O_provider_switched, O_rebind, O_continuation_invalidated]"

definition skipEventCompaction :: "string option \<Rightarrow> observed \<Rightarrow> bool" where
  "skipEventCompaction providerId obs \<longleftrightarrow> claude_context providerId \<and> obs \<in> set CLAUDE_NOOP_OBSERVED"

definition itemOverflowThreshold :: "compaction_tweaks \<Rightarrow> string option \<Rightarrow> nat" where
  "itemOverflowThreshold tw providerId =
     (if claude_context providerId then tw_claudeItemOverflowThreshold tw else tw_codexItemOverflowThreshold tw)"

definition itemOverflowTrigger :: "compaction_tweaks \<Rightarrow> string option \<Rightarrow> nat \<Rightarrow> bool" where
  "itemOverflowTrigger tw providerId itemCount \<longleftrightarrow> itemCount > itemOverflowThreshold tw providerId"

definition coldCacheBGate :: "string option \<Rightarrow> int \<Rightarrow> int \<Rightarrow> bool" where
  "coldCacheBGate providerId promptTotal bCompactTokens \<longleftrightarrow> claude_context providerId \<and> promptTotal > bCompactTokens"

definition gateAnchorTokens :: "string option \<Rightarrow> int \<Rightarrow> int \<Rightarrow> int \<Rightarrow> int" where
  "gateAnchorTokens providerId estimate realPromptTokens systemReserve =
     (if claude_context providerId
      then min (max estimate (realPromptTokens - systemReserve)) \<lceil>of_int estimate * (3 / 2 :: rat)\<rceil>
      else estimate)"

definition shouldEnrichAnchor :: "int \<Rightarrow> int \<Rightarrow> bool" where
  "shouldEnrichAnchor anchorTokens aFloorTokens \<longleftrightarrow> anchorTokens \<ge> aFloorTokens"

datatype provider_class = Claude_class | Codex_class | General_class

definition compaction_class :: "string option \<Rightarrow> provider_class" where
  "compaction_class providerId =
     (if providerId = Some ''claude-cli'' then Claude_class
      else if providerId = Some ''codex'' then Codex_class
      else General_class)"

text \<open>The strategies are registered when the executor is; before that the answer is yes.\<close>

definition shouldCompactOnTakeover :: "bool \<Rightarrow> string option \<Rightarrow> bool" where
  "shouldCompactOnTakeover wired providerId \<longleftrightarrow> \<not> wired \<or> compaction_class providerId \<noteq> Claude_class"

section \<open>The health of the cache\<close>

record cache_read_state =
  cr_cacheRead :: int
  cr_accountId :: "string option"
  cr_providerId :: string
  cr_continuationInvalidatedAt :: "int option"
  cr_ts :: int
  cr_selfInvalidated :: bool

text \<open>What an evaluation does besides its answer: the recent event of a cache cliff (the reads before and now), the
  reset of the continuation family, and the continuation event of an account switch.\<close>

datatype trigger_effect = Cliff_event int int | Invalidate_family | Account_switch_event string string string

definition CLAUDE_CACHE_TTL_MS :: int where
  "CLAUDE_CACHE_TTL_MS = 60 * 60 * 1000"

definition prompt_total :: "token_counts \<Rightarrow> int" where
  "prompt_total t = tk_input t + tk_cache_read t + tk_cache_write t"

definition share :: "int \<Rightarrow> int \<Rightarrow> rat" where
  "share x whole = (if whole > 0 then of_int x / of_int whole else 0)"

definition anchor_after :: "session_message list \<Rightarrow> int \<Rightarrow> bool" where
  "anchor_after msgs ts =
     (case findMostRecentAnchor msgs of
        None \<Rightarrow> False
      | Some a \<Rightarrow> js_zero (sm_created a) \<noteq> 0 \<and> js_zero (sm_created a) > ts)"

text \<open>The next state is stored in both evaluations; these definitions give the answer and the effects.\<close>

definition evaluateSlCacheHealth ::
  "compaction_tweaks \<Rightarrow> int \<Rightarrow> string \<Rightarrow> session_message list \<Rightarrow> session_message \<Rightarrow> token_counts \<Rightarrow>
   cache_read_state option \<Rightarrow> observed option \<times> trigger_effect list" where
  "evaluateSlCacheHealth tw now pinnedProviderId msgs finished t prev =
     (let promptTotal = prompt_total t;
          effects = (if promptTotal > 50000 \<and> share (tk_input t) promptTotal > 1 / 2
            then [Cliff_event promptTotal (tk_cache_read t + tk_cache_write t)] else []);
          bCompactTokens = js_or (jget (tw_bCompactTokens tw) pinnedProviderId) (tw_bCompactDefault tw)
      in if coldCacheBGate (Some pinnedProviderId) promptTotal bCompactTokens then
           (let lastCompletedAt = js_or (sm_completed finished) (js_zero (sm_created finished));
                idleMs = (if lastCompletedAt > 0 then now - lastCompletedAt else 0);
                idleColdResume = (idleMs > CLAUDE_CACHE_TTL_MS)
            in if share (tk_cache_read t) promptTotal < 1 / 2 \<or> idleColdResume then
                 (let postCompactionEcho =
                        (\<not> idleColdResume \<and> (case prev of None \<Rightarrow> False | Some p \<Rightarrow> anchor_after msgs (cr_ts p)))
                  in if postCompactionEcho then (None, effects) else (Some O_cache_aware, effects))
               else (None, effects))
         else (None, effects))"

definition planned_drop ::
  "session_message list \<Rightarrow> string \<Rightarrow> string option \<Rightarrow> int option \<Rightarrow> int option \<Rightarrow> cache_read_state \<Rightarrow> bool" where
  "planned_drop msgs pinnedProviderId pinnedAccountId continuationInvalidatedAt currentInputTokens prev \<longleftrightarrow>
     cr_selfInvalidated prev \<or> cr_accountId prev \<noteq> pinnedAccountId \<or> cr_providerId prev \<noteq> pinnedProviderId \<or>
     (continuationInvalidatedAt \<noteq> None \<and> continuationInvalidatedAt \<noteq> cr_continuationInvalidatedAt prev) \<or>
     (case findMostRecentAnchor msgs of
        None \<Rightarrow> False
      | Some a \<Rightarrow>
          (js_or (sm_accountId a) [] \<noteq> [] \<and> js_or pinnedAccountId [] \<noteq> [] \<and> sm_accountId a \<noteq> pinnedAccountId) \<or>
          (sm_providerId a \<noteq> [] \<and> sm_providerId a \<noteq> pinnedProviderId) \<or>
          anchor_after msgs (cr_ts prev)) \<or>
     (case currentInputTokens of None \<Rightarrow> False | Some n \<Rightarrow> n < cr_cacheRead prev)"

text \<open>Whether the chain is reset: the cached prefix is gone and nothing explains it.\<close>

definition evaluateSsCacheHealth ::
  "session_message list \<Rightarrow> string \<Rightarrow> string option \<Rightarrow> int \<Rightarrow> cache_read_state option \<Rightarrow> int option \<Rightarrow> int option \<Rightarrow>
   bool" where
  "evaluateSsCacheHealth msgs pinnedProviderId pinnedAccountId currentCache prev continuationInvalidatedAt currentInputTokens =
     (case prev of
        None \<Rightarrow> False
      | Some p \<Rightarrow>
          cr_cacheRead p > 50000 \<and> 2 * currentCache < cr_cacheRead p \<and>
          \<not> planned_drop msgs pinnedProviderId pinnedAccountId continuationInvalidatedAt currentInputTokens p)"

section \<open>The order of the triggers\<close>

datatype predicted_miss = Predicted_miss | Predicted_hit | Predicted_unknown

record compaction_input =
  ti_sessionID :: string
  ti_msgs :: "session_message list"
  ti_lastFinished :: "session_message option"
  ti_pinnedProviderId :: string
  ti_pinnedAccountId :: "string option"
  ti_hasRequest :: bool
  ti_requestAuto :: "bool option"
  ti_parentID :: "string option"
  ti_continuationInvalidatedAt :: "int option"
  ti_predictedCacheMiss :: predicted_miss
  ti_currentInputTokens :: "int option"
  ti_modelContextWindow :: "int option"
  ti_paralysisItemThreshold :: "nat option"
  ti_rebindPreemptive :: bool
  ti_isOverflow :: bool
  ti_isCacheAware :: bool

definition finished_tokens :: "session_message \<Rightarrow> token_counts" where
  "finished_tokens m = js_or (sm_tokens m) \<lparr>tk_total = None, tk_input = 0, tk_output = 0, tk_cache_read = 0, tk_cache_write = 0\<rparr>"

text \<open>The answer of the cache evaluation: \<open>None\<close> to go on, \<open>Some None\<close> to stop without compaction.\<close>

definition cache_health ::
  "compaction_tweaks \<Rightarrow> int \<Rightarrow> compaction_input \<Rightarrow> (string, cache_read_state) jmap \<Rightarrow>
   observed option option \<times> trigger_effect list \<times> (string, cache_read_state) jmap" where
  "cache_health tw now i cache =
     (case ti_lastFinished i of
        None \<Rightarrow> (None, [], cache)
      | Some finished \<Rightarrow>
          let t = finished_tokens finished;
              currentCache = tk_cache_read t;
              prev = jget cache (ti_sessionID i);
              nextState = \<lparr>cr_cacheRead = currentCache, cr_accountId = ti_pinnedAccountId i,
                cr_providerId = ti_pinnedProviderId i, cr_continuationInvalidatedAt = ti_continuationInvalidatedAt i,
                cr_ts = now, cr_selfInvalidated = False\<rparr>
          in if classifyProvider (ti_pinnedProviderId i) = Some SL then
               (case evaluateSlCacheHealth tw now (ti_pinnedProviderId i) (ti_msgs i) finished t prev of
                  (answer, effects) \<Rightarrow>
                    (case answer of Some obs \<Rightarrow> Some (Some obs) | None \<Rightarrow> None, effects,
                     jset cache (ti_sessionID i) nextState))
             else if evaluateSsCacheHealth (ti_msgs i) (ti_pinnedProviderId i) (ti_pinnedAccountId i) currentCache prev
                    (ti_continuationInvalidatedAt i) (ti_currentInputTokens i) then
               (Some None, [Cliff_event (case prev of Some p \<Rightarrow> cr_cacheRead p | None \<Rightarrow> 0) currentCache, Invalidate_family],
                jset cache (ti_sessionID i) (nextState\<lparr>cr_selfInvalidated := True\<rparr>))
             else (None, [], jset cache (ti_sessionID i) nextState))"

definition invalidated_since_anchor :: "compaction_input \<Rightarrow> bool" where
  "invalidated_since_anchor i \<longleftrightarrow>
     (case ti_continuationInvalidatedAt i of
        None \<Rightarrow> False
      | Some t \<Rightarrow> t \<noteq> 0 \<and> (case findMostRecentAnchor (ti_msgs i) of None \<Rightarrow> True | Some a \<Rightarrow> t > js_zero (sm_created a)))"

text \<open>The pressure of tokens, the last triggers.\<close>

definition token_pressure :: "compaction_tweaks \<Rightarrow> compaction_input \<Rightarrow> observed option" where
  "token_pressure tw i =
     (case ti_lastFinished i of
        None \<Rightarrow> None
      | Some finished \<Rightarrow>
          if ti_isOverflow i then Some O_overflow
          else
            let window = js_zero (ti_modelContextWindow i);
                current = js_or (ti_currentInputTokens i) (tk_input (finished_tokens finished));
                ctxRatio = (if window > 0 then of_int current / of_int window else 0)
            in if tw_stallRecoveryConsecutiveEmpty tw \<le> countTrailingEmptyAssistantResponses (ti_msgs i) \<and>
                  ctxRatio > tw_stallRecoveryFloor tw then Some O_stall_recovery
               else if ti_predictedCacheMiss i = Predicted_miss \<and>
                  shouldCompactOnPredictedCacheLoss tw current (tk_cache_read (finished_tokens finished)) window
                 then Some O_cache_aware
               else if ti_isCacheAware i then Some O_cache_aware
               else None)"

text \<open>Drift of the identity: the observed condition, or the effect of an account switch, or neither.\<close>

definition identity_drift :: "bool \<Rightarrow> compaction_input \<Rightarrow> (observed + trigger_effect) option" where
  "identity_drift wired i =
     (case findMostRecentAnchor (ti_msgs i) of
        None \<Rightarrow> None
      | Some a \<Rightarrow>
          if sm_providerId a \<noteq> [] \<and> sm_providerId a \<noteq> ti_pinnedProviderId i \<and>
             shouldCompactOnTakeover wired (Some (ti_pinnedProviderId i)) then Some (Inl O_provider_switched)
          else if js_or (sm_accountId a) [] \<noteq> [] \<and> js_or (ti_pinnedAccountId i) [] \<noteq> [] \<and>
             sm_accountId a \<noteq> ti_pinnedAccountId i
            then Some (Inr (Account_switch_event (js_or (sm_accountId a) []) (js_or (ti_pinnedAccountId i) [])
              (sm_providerId a)))
          else None)"

definition deriveObservedCondition ::
  "compaction_tweaks \<Rightarrow> bool \<Rightarrow> int \<Rightarrow> compaction_input \<Rightarrow> (string, cache_read_state) jmap \<Rightarrow>
   observed option \<times> trigger_effect list \<times> (string, cache_read_state) jmap" where
  "deriveObservedCondition tw wired now i cache =
     (if shouldThrottle now (ti_msgs i) then (None, [], cache)
      else if ti_hasRequest i \<and> js_or (ti_parentID i) [] = [] then
        (Some (if ti_requestAuto i = Some True then O_overflow else O_manual), [], cache)
      else
        (case cache_health tw now i cache of
           (Some answer, effects, cache1) \<Rightarrow> (answer, effects, cache1)
         | (None, effects, cache1) \<Rightarrow>
             if (case ti_paralysisItemThreshold i of None \<Rightarrow> False | Some n \<Rightarrow> estimateTransportItemCount (ti_msgs i) > n)
               then (Some O_overflow, effects, cache1)
             else if ti_rebindPreemptive i then (Some O_rebind, effects, cache1)
             else if itemOverflowTrigger tw (Some (ti_pinnedProviderId i)) (estimateCodexItemCount (ti_msgs i))
               then (Some O_overflow, effects, cache1)
             else if invalidated_since_anchor i then (Some O_continuation_invalidated, effects, cache1)
             else
               (case identity_drift wired i of
                  Some (Inl obs) \<Rightarrow> (Some obs, effects, cache1)
                | Some (Inr e) \<Rightarrow> (None, effects @ [e], cache1)
                | None \<Rightarrow> (token_pressure tw i, effects, cache1))))"

text \<open>The decision of an idle compaction: the tokens of the last assistant message and the messages again.\<close>

definition idle_compaction ::
  "compaction_budget \<Rightarrow> rat option \<Rightarrow> token_counts option \<Rightarrow> session_message list \<Rightarrow> bool" where
  "idle_compaction budget opportunisticThreshold tokens tailMessages =
     (case tokens of
        None \<Rightarrow> False
      | Some t \<Rightarrow>
          if \<not> cb_auto budget then False
          else if utilization budget < js_or opportunisticThreshold (if cb_byToken budget then 3 / 5 else 1) then False
          else if fst (checkCleanTail tailMessages 2) \<noteq> [] then False
          else (case rev tailMessages of m # ms \<Rightarrow> sm_role m \<noteq> User_message | [] \<Rightarrow> True))"

section \<open>Anchors and the cooldown\<close>

lemma most_recent_anchor:
  assumes "is_anchor a" and "list_all (\<lambda>m. \<not> is_anchor m) post"
  shows "findMostRecentAnchor (pre @ a # post) = Some a"
proof -
  have "find is_anchor (ms @ a # rest) = Some a" if "list_all (\<lambda>m. \<not> is_anchor m) ms" for ms rest
    using that assms(1) by (induction ms) simp_all
  from this [of "rev post" "rev pre"] assms(2) show ?thesis by (simp add: findMostRecentAnchor_def)
qed

text \<open>
  A compaction cools down: for 30 seconds after its anchor was written nothing is observed, whatever the turn looks
  like; no request, no overflow, no drift triggers another one, and the memory of the cache is not touched.
\<close>

theorem anchor_cools_down:
  assumes "ti_msgs i = pre @ a # post" and "is_anchor a" and "list_all (\<lambda>m. \<not> is_anchor m) post"
    and "sm_created a = Some t" and "t \<noteq> 0" and "now < t + 30000"
  shows "deriveObservedCondition tw wired now i cache = (None, [], cache)"
proof -
  have "shouldThrottle now (ti_msgs i)"
    using assms most_recent_anchor [OF assms(2,3)] by (simp add: shouldThrottle_def js_zero_def COOLDOWN_MS_def)
  then show ?thesis by (simp add: deriveObservedCondition_def)
qed

definition demo_message :: session_message where
  "demo_message = \<lparr>sm_id = ''msg_1'', sm_role = Assistant_message, sm_providerId = ''codex'', sm_accountId = None,
     sm_created = Some 100000, sm_completed = None, sm_summary = True,
     sm_tokens = Some \<lparr>tk_total = None, tk_input = 10, tk_output = 5, tk_cache_read = 1000, tk_cache_write = 0\<rparr>, sm_parts = []\<rparr>"

definition demo_input :: compaction_input where
  "demo_input = \<lparr>ti_sessionID = ''ses_1'', ti_msgs = [demo_message], ti_lastFinished = Some demo_message,
     ti_pinnedProviderId = ''codex'', ti_pinnedAccountId = None, ti_hasRequest = True, ti_requestAuto = None,
     ti_parentID = None, ti_continuationInvalidatedAt = None, ti_predictedCacheMiss = Predicted_unknown,
     ti_currentInputTokens = None, ti_modelContextWindow = Some 100000, ti_paralysisItemThreshold = None,
     ti_rebindPreemptive = False, ti_isOverflow = True, ti_isCacheAware = False\<rparr>"

definition demo_tweaks :: compaction_tweaks where
  "demo_tweaks = \<lparr>tw_cacheLossFloor = 1 / 2, tw_minUncachedTokens = 40000, tw_stallRecoveryFloor = 1 / 2,
     tw_stallRecoveryConsecutiveEmpty = 2, tw_codexItemOverflowThreshold = 250, tw_claudeItemOverflowThreshold = 2000,
     tw_bCompactTokens = [], tw_bCompactDefault = 100000\<rparr>"

theorem anchor_cools_down_witness:
  "deriveObservedCondition demo_tweaks True 129999 demo_input [] = (None, [], [])"
  by (rule anchor_cools_down [where pre = "[]" and a = demo_message and post = "[]" and t = 100000])
    (simp_all add: demo_input_def demo_message_def is_anchor_def)

section \<open>What an evaluation may answer\<close>

lemma sl_answer: "fst (evaluateSlCacheHealth tw now p msgs f t prev) \<in> {None, Some O_cache_aware}"
  by (simp add: evaluateSlCacheHealth_def Let_def split: option.splits)

lemma sl_effects: "Invalidate_family \<notin> set (snd (evaluateSlCacheHealth tw now p msgs f t prev))"
  by (simp add: evaluateSlCacheHealth_def Let_def split: option.splits)

lemma sl_answer_claude: "fst (evaluateSlCacheHealth tw now p msgs f t prev) \<noteq> None \<Longrightarrow> p = ''claude-cli''"
  by (auto simp: evaluateSlCacheHealth_def Let_def coldCacheBGate_def claude_context_def split: if_splits)

lemma health_answer: "fst (cache_health tw now i cache) \<in> {None, Some None, Some (Some O_cache_aware)}"
  using sl_answer [of tw now "ti_pinnedProviderId i" "ti_msgs i" "the (ti_lastFinished i)"
      "finished_tokens (the (ti_lastFinished i))" "jget cache (ti_sessionID i)"]
  by (auto simp: cache_health_def Let_def split: option.splits prod.splits)

lemma health_sl:
  assumes "classifyProvider (ti_pinnedProviderId i) = Some SL"
  shows "Invalidate_family \<notin> set (fst (snd (cache_health tw now i cache)))"
proof (cases "ti_lastFinished i")
  case (Some f)
  show ?thesis
    using sl_effects [of tw now "ti_pinnedProviderId i" "ti_msgs i" f "finished_tokens f" "jget cache (ti_sessionID i)"] assms
    by (cases "evaluateSlCacheHealth tw now (ti_pinnedProviderId i) (ti_msgs i) f (finished_tokens f) (jget cache (ti_sessionID i))")
      (simp add: cache_health_def Some Let_def)
qed (simp add: cache_health_def)

lemma token_pressure_answer:
  "token_pressure tw i \<in> {None, Some O_overflow, Some O_stall_recovery, Some O_cache_aware}"
  by (simp add: token_pressure_def Let_def split: option.splits)

lemma drift_answer:
  "identity_drift wired i = Some (Inl obs) \<Longrightarrow>
   obs = O_provider_switched \<and> shouldCompactOnTakeover wired (Some (ti_pinnedProviderId i))"
  by (auto simp: identity_drift_def split: option.splits if_splits)

lemma derive_answer:
  assumes "deriveObservedCondition tw wired now i cache = (Some obs, effects, c)"
  shows "(ti_hasRequest i \<and> js_or (ti_parentID i) [] = [] \<and> obs \<in> {O_overflow, O_manual}) \<or>
    fst (cache_health tw now i cache) = Some (Some obs) \<or> obs = O_overflow \<or> (obs = O_rebind \<and> ti_rebindPreemptive i) \<or>
    (obs = O_continuation_invalidated \<and> invalidated_since_anchor i) \<or> identity_drift wired i = Some (Inl obs) \<or>
    token_pressure tw i = Some obs"
proof (cases "shouldThrottle now (ti_msgs i) \<or> ti_hasRequest i \<and> js_or (ti_parentID i) [] = []")
  case True
  then show ?thesis using assms by (auto simp: deriveObservedCondition_def split: if_splits)
next
  case False
  then have nt: "shouldThrottle now (ti_msgs i) = False" "(ti_hasRequest i \<and> js_or (ti_parentID i) [] = []) = False" by simp_all
  obtain h es c1 where h: "cache_health tw now i cache = (h, es, c1)" by (cases "cache_health tw now i cache")
  show ?thesis
  proof (cases h)
    case None
    show ?thesis
    proof (cases "identity_drift wired i")
      case (Some d)
      show ?thesis using assms h None Some by (cases d) (simp_all add: deriveObservedCondition_def nt split: if_splits)
    qed (use assms h None in \<open>simp_all add: deriveObservedCondition_def nt split: if_splits\<close>)
  qed (use assms h in \<open>simp add: deriveObservedCondition_def nt\<close>)
qed

lemma derive_effects:
  assumes "deriveObservedCondition tw wired now i cache = (answer, effects, c)" and "e \<in> set effects"
  shows "e \<in> set (fst (snd (cache_health tw now i cache))) \<or> identity_drift wired i = Some (Inr e)"
proof (cases "shouldThrottle now (ti_msgs i) \<or> ti_hasRequest i \<and> js_or (ti_parentID i) [] = []")
  case True
  then show ?thesis using assms by (auto simp: deriveObservedCondition_def split: if_splits)
next
  case False
  then have nt: "shouldThrottle now (ti_msgs i) = False" "(ti_hasRequest i \<and> js_or (ti_parentID i) [] = []) = False" by simp_all
  obtain h es c1 where h: "cache_health tw now i cache = (h, es, c1)" by (cases "cache_health tw now i cache")
  show ?thesis
  proof (cases h)
    case None
    show ?thesis
    proof (cases "identity_drift wired i")
      case (Some d)
      show ?thesis using assms h None Some by (cases d) (auto simp: deriveObservedCondition_def nt split: if_splits)
    qed (use assms h None in \<open>simp_all add: deriveObservedCondition_def nt split: if_splits\<close>)
  qed (use assms h in \<open>simp add: deriveObservedCondition_def nt\<close>)
qed

text \<open>
  A subagent never compacts by hand: for a session with a parent the evaluation does not answer manual, even when a
  compaction request is found. A provider that sends the whole context again (claude) is never compacted for having
  taken the session over, once the strategies are registered.
\<close>

theorem subagent_never_manual:
  assumes "ti_parentID i = Some parent" and "parent \<noteq> []"
  shows "fst (deriveObservedCondition tw wired now i cache) \<noteq> Some O_manual"
proof
  assume "fst (deriveObservedCondition tw wired now i cache) = Some O_manual"
  then obtain effects c where d: "deriveObservedCondition tw wired now i cache = (Some O_manual, effects, c)"
    by (cases "deriveObservedCondition tw wired now i cache") auto
  show False
    using derive_answer [OF d] assms health_answer [of tw now i cache] token_pressure_answer [of tw i] drift_answer [of wired i]
    by (auto simp: js_or_def)
qed

theorem subagent_never_manual_witness:
  "fst (deriveObservedCondition demo_tweaks True 500000 (demo_input\<lparr>ti_parentID := Some ''ses_0''\<rparr>) []) \<noteq> Some O_manual"
  by (rule subagent_never_manual [where parent = "''ses_0''"]) simp_all

theorem claude_takeover_is_free:
  assumes "ti_pinnedProviderId i = ''claude-cli''"
  shows "fst (deriveObservedCondition tw True now i cache) \<noteq> Some O_provider_switched \<and>
    Invalidate_family \<notin> set (fst (snd (deriveObservedCondition tw True now i cache)))"
proof -
  have sl: "classifyProvider (ti_pinnedProviderId i) = Some SL" using assms by (simp add: classifyProvider_def CHAIN_SEMANTICS_def)
  have effects: "Invalidate_family \<notin> set (fst (snd (cache_health tw now i cache)))" by (rule health_sl [OF sl])
  have drift: "identity_drift True i \<noteq> Some (Inl obs)" "identity_drift True i = Some (Inr e) \<Longrightarrow> e \<noteq> Invalidate_family" for obs e
    using assms
    by (auto simp: identity_drift_def shouldCompactOnTakeover_def compaction_class_def split: option.splits if_splits)
  obtain answer es c where d: "deriveObservedCondition tw True now i cache = (answer, es, c)"
    by (cases "deriveObservedCondition tw True now i cache")
  have "answer \<noteq> Some O_provider_switched"
    using derive_answer [of tw True now i cache _ es c] d drift(1) health_answer [of tw now i cache] token_pressure_answer [of tw i]
    by fastforce
  moreover have "Invalidate_family \<notin> set es" using derive_effects [OF d] effects drift(2) by blast
  ultimately show ?thesis by (simp add: d)
qed

theorem claude_takeover_is_free_witness:
  "fst (deriveObservedCondition demo_tweaks True 500000 (demo_input\<lparr>ti_pinnedProviderId := ''claude-cli'', ti_hasRequest := False\<rparr>) []) \<noteq>
   Some O_provider_switched"
  using claude_takeover_is_free [of "demo_input\<lparr>ti_pinnedProviderId := ''claude-cli'', ti_hasRequest := False\<rparr>" demo_tweaks 500000 "[]"]
  by simp

section \<open>Resets of the chain\<close>

lemma health_invalidates:
  assumes "Invalidate_family \<in> set (fst (snd (cache_health tw now i cache)))"
  shows "\<exists>es st. cache_health tw now i cache = (Some None, es, jset cache (ti_sessionID i) st) \<and> cr_selfInvalidated st"
proof (cases "ti_lastFinished i")
  case (Some f)
  have "classifyProvider (ti_pinnedProviderId i) \<noteq> Some SL" using health_sl assms by blast
  then show ?thesis
    using assms by (simp add: cache_health_def Some Let_def split: if_splits) (rule exI, rule conjI, rule refl, simp)
qed (use assms in \<open>simp add: cache_health_def\<close>)

lemma health_after_reset:
  assumes "jget cache (ti_sessionID i) = Some st" and "cr_selfInvalidated st"
  shows "Invalidate_family \<notin> set (fst (snd (cache_health tw now i cache)))"
proof (cases "classifyProvider (ti_pinnedProviderId i) = Some SL")
  case False
  show ?thesis
  proof (cases "ti_lastFinished i")
    case (Some f)
    show ?thesis
      using assms False
      by (simp add: cache_health_def Some Let_def evaluateSsCacheHealth_def planned_drop_def del: map_of_eq_Some_iff)
  qed (simp add: cache_health_def)
qed (rule health_sl)

lemma drift_effect: "identity_drift wired i \<noteq> Some (Inr Invalidate_family)"
  by (simp add: identity_drift_def split: option.splits)


definition lost_state :: cache_read_state where
  "lost_state = \<lparr>cr_cacheRead = 190000, cr_accountId = None, cr_providerId = ''codex'', cr_continuationInvalidatedAt = None,
     cr_ts = 400000, cr_selfInvalidated = False\<rparr>"


section \<open>The predicates\<close>

text \<open>
  With a threshold configured as a fraction of the window, the limit of the input is not looked at: a prompt that
  is beyond the input limit of the model is no overflow as long as it stays below the fraction, and the emergency
  ceiling, which it has crossed as well, does not help.
\<close>

theorem threshold_ignores_input_limit:
  assumes "cc_overflowThreshold config = Some f" and "cc_auto config \<noteq> Some False" and "cm_context m \<noteq> 0"
    and "cm_input m = Some n" and "n \<noteq> 0"
    and "n \<le> token_count t" and "token_count t < \<lfloor>of_int (cm_context m) * f\<rfloor>"
  shows "cb_emergency (inspectBudget output_max config t m) \<and> \<not> isOverflow freerun (inspectBudget output_max config t m)"
  using assms by (simp add: inspectBudget_def isOverflow_def input_limit_def Let_def EMERGENCY_CEILING_def)

theorem threshold_ignores_input_limit_witness:
  "\<not> isOverflow False (inspectBudget 32000
     \<lparr>cc_auto = None, cc_headroom = None, cc_reserved = None, cc_overflowThreshold = Some (9 / 10), cc_cooldownRounds = None,
       cc_opportunisticThreshold = None\<rparr>
     \<lparr>tk_total = Some 300000, tk_input = 0, tk_output = 0, tk_cache_read = 0, tk_cache_write = 0\<rparr>
     \<lparr>cm_id = ''gpt'', cm_providerId = ''codex'', cm_context = 400000, cm_input = Some 272000, cm_output = 128000,
       cm_cost_input = 0, cm_cost_output = 0\<rparr>)"
  using threshold_ignores_input_limit [where f = "9 / 10" and n = 272000 and freerun = False and output_max = 32000 and
      config = "\<lparr>cc_auto = None, cc_headroom = None, cc_reserved = None, cc_overflowThreshold = Some (9 / 10),
        cc_cooldownRounds = None, cc_opportunisticThreshold = None\<rparr>" and
      t = "\<lparr>tk_total = Some 300000, tk_input = 0, tk_output = 0, tk_cache_read = 0, tk_cache_write = 0\<rparr>" and
      m = "\<lparr>cm_id = ''gpt'', cm_providerId = ''codex'', cm_context = 400000, cm_input = Some 272000, cm_output = 128000,
        cm_cost_input = 0, cm_cost_output = 0\<rparr>"]
  by (simp add: token_count_def)

text \<open>
  Without such a threshold an emergency is always an overflow, since at least 2,000 tokens are kept free.
\<close>

lemma output_at_least: "2000 \<le> output_max \<Longrightarrow> cm_output m = 0 \<or> 2000 \<le> cm_output m \<Longrightarrow> 2000 \<le> model_output output_max m"
  by (auto simp: model_output_def maxOutputTokens_def Let_def)

theorem emergency_is_overflow:
  assumes "cc_overflowThreshold config = None" and "\<forall>r. cc_reserved config = Some r \<longrightarrow> 2000 \<le> r"
    and "2000 \<le> output_max" and "cm_output m = 0 \<or> 2000 \<le> cm_output m"
    and "cb_emergency (inspectBudget output_max config t m)"
  shows "isOverflow False (inspectBudget output_max config t m)"
  using assms output_at_least [OF assms(3,4)]
  by (auto simp: inspectBudget_def isOverflow_def Let_def EMERGENCY_CEILING_def COMPACTION_BUFFER_def js_or_def max_def min_def
      split: option.splits)

text \<open>
  The hashes of the system block that are kept for a session are the last three that were recorded for it, however
  the recordings of the sessions are interleaved.
\<close>

definition record_hashes :: "(string \<times> string) list \<Rightarrow> (string, string list) jmap" where
  "record_hashes ps = fold (\<lambda>(sid, h) m. recordSystemBlockHash m sid h) ps []"

lemma tail_tail: "js_tail n (js_tail n xs @ [x]) = js_tail n (xs @ [x])"
proof (cases "n \<le> length xs")
  case True
  have "js_tail n xs @ [x] = drop (length xs - n) (xs @ [x])" by (simp add: js_tail_def)
  then show ?thesis using True by (simp add: js_tail_def Suc_diff_le)
qed (simp add: js_tail_def)

theorem last_three_hashes:
  "readSystemBlockHashes (record_hashes ps) sid = js_tail 3 (map snd (filter (\<lambda>p. fst p = sid) ps))"
proof (induction ps rule: rev_induct)
  case (snoc p ps)
  obtain k h where p: "p = (k, h)" by (cases p)
  show ?case
    using snoc tail_tail [of 3 "map snd (filter (\<lambda>p. fst p = sid) ps)" h]
    by (auto simp: p record_hashes_def recordSystemBlockHash_def readSystemBlockHashes_def jget_jset js_or_def WINDOW_SIZE_def
        split: option.splits)
qed (simp add: record_hashes_def readSystemBlockHashes_def js_or_def js_tail_def)

text \<open>
  Poor cache use leads to a compaction only when the system block is known not to change: at least two hashes are
  known, they are all the same, and less than two fifths of at least 40,000 tokens came from the cache.
\<close>

theorem cache_aware_needs_stable_prefix:
  assumes "shouldCacheAwareCompact freerun budget tokens (Some hashes)"
  shows "2 \<le> length hashes \<and> (\<exists>h. set hashes = {h}) \<and> \<not> freerun \<and>
    40000 \<le> tk_input tokens + tk_cache_read tokens \<and>
    5 * tk_cache_read tokens < 2 * (tk_input tokens + tk_cache_read tokens)"
proof -
  let ?total = "tk_input tokens + tk_cache_read tokens"
  have facts: "\<not> freerun" "40000 \<le> ?total" "of_int (tk_cache_read tokens) / of_int ?total < (2 / 5 :: rat)"
    "snd (diagnoseCacheMiss hashes ?total 40000)"
    using assms by (auto simp: shouldCacheAwareCompact_def Let_def split: if_splits)
  have "of_int (tk_cache_read tokens) < (2 / 5 :: rat) * of_int ?total"
    using facts(2,3) by (simp add: pos_divide_less_eq)
  then have "of_int (5 * tk_cache_read tokens) < (of_int (2 * ?total) :: rat)" by simp
  then have "5 * tk_cache_read tokens < 2 * ?total" by (simp only: of_int_less_iff)
  moreover have "2 \<le> length hashes" "list_all (\<lambda>h. h = hd hashes) hashes"
    using facts(4) by (auto simp: diagnoseCacheMiss_def split: if_splits)
  moreover from this have "set hashes = {hd hashes}" by (cases hashes) (auto simp: list_all_iff)
  ultimately show ?thesis using facts(1,2) by blast
qed

text \<open>
  An idle compaction never cuts a tool call from its result: neither of the last two messages has a tool under way,
  and the last message is not one of the user that waits for an answer.
\<close>

theorem idle_compaction_keeps_pairs:
  assumes "idle_compaction budget threshold tokens msgs"
  shows "cb_auto budget \<and> tokens \<noteq> None \<and> (msgs \<noteq> [] \<longrightarrow> sm_role (last msgs) = Assistant_message) \<and>
    (\<forall>m \<in> set (js_tail 2 msgs). \<forall>c st. sm_role m = Assistant_message \<and> Tool_part c st \<in> set (sm_parts m) \<longrightarrow>
       st = Tool_completed \<or> st = Tool_error)"
proof -
  have clean: "concat (map in_flight (js_tail 2 msgs)) = []"
    using assms by (auto simp: idle_compaction_def checkCleanTail_def Let_def split: option.splits if_splits)
  have "st = Tool_completed \<or> st = Tool_error"
    if "m \<in> set (js_tail 2 msgs)" "sm_role m = Assistant_message" "Tool_part c st \<in> set (sm_parts m)" for m c st
  proof (rule ccontr)
    assume "\<not> (st = Tool_completed \<or> st = Tool_error)"
    then have "st = Tool_pending \<or> st = Tool_running" by (cases st) simp_all
    then have "c \<in> set (in_flight m)" using that(2,3) by (force simp: in_flight_def)
    then have "c \<in> set (concat (map in_flight (js_tail 2 msgs)))" using that(1) by auto
    then show False unfolding clean by simp
  qed
  moreover have "sm_role (last msgs) = Assistant_message" if ne: "msgs \<noteq> []"
  proof -
    obtain m ms where "msgs = ms @ [m]" using ne by (cases msgs rule: rev_cases) auto
    then have "sm_role (last msgs) \<noteq> User_message"
      using assms by (auto simp: idle_compaction_def split: option.splits if_splits)
    then show ?thesis by (cases "sm_role (last msgs)") simp_all
  qed
  moreover have "cb_auto budget" "tokens \<noteq> None"
    using assms by (auto simp: idle_compaction_def split: option.splits if_splits)
  ultimately show ?thesis by blast
qed

end
