(* ===== verification/Compaction_Run.thy ===== *)
theory Compaction_Run
  imports Compaction_Trigger
begin

text \<open>
  How a session is compacted: the chain of kinds that \<open>run\<close> of session/compaction.ts walks, and the manager that
  every request to enrich and to publish passes through (session/compaction-manager.ts,
  compaction-provider-strategy.ts). The executors of the kinds call models and storage: what an attempt returns is
  an argument, by its position in the chain. Reading the newest anchor and the gate of the synthetic Continue are
  arguments too.
\<close>

section \<open>The chain of kinds\<close>

datatype kind_name = Narrative | Ai_free | Ai_paid

definition KIND_CHAIN :: "observed \<Rightarrow> kind_name list" where
  "KIND_CHAIN obs = (if obs = O_overflow \<or> obs = O_cache_aware then [Narrative, Ai_paid] else [Narrative])"

definition resolveKindChain :: "observed \<Rightarrow> bool \<Rightarrow> kind_name list" where
  "resolveKindChain obs byRequest =
     (if byRequest \<and> (obs = O_overflow \<or> obs = O_cache_aware) then KIND_CHAIN obs @ [Ai_paid] else KIND_CHAIN obs)"

definition isLocalKind :: "kind_name \<Rightarrow> bool" where
  "isLocalKind k \<longleftrightarrow> k = Narrative"

definition INJECT_CONTINUE :: "observed \<Rightarrow> bool" where
  "INJECT_CONTINUE obs \<longleftrightarrow>
     obs \<in> {O_overflow, O_cache_aware, O_idle, O_continuation_invalidated, O_empty_response}"

datatype kind_attempt = Attempt_failed | Attempt_made kind_name bool bool | Attempt_throws

text \<open>An attempt that was made says its kind, whether it has written the anchor, and whether it was truncated.\<close>

datatype run_effect =
    R_started | R_compacting | R_tried kind_name | R_replayed string | R_injected | R_anchor kind_name bool
  | R_enrich "string option" | R_published_failure | R_cleared

datatype run_result = Run_continue | Run_stop | Run_throws

record kind_env =
  re_model :: "compaction_model option"
  re_snapshot :: bool
  re_replayEnabled :: bool
  re_newAnchor :: "string option"
  re_shouldInject :: bool

definition commit_effects :: "kind_env \<Rightarrow> observed \<Rightarrow> kind_name \<Rightarrow> bool \<Rightarrow> run_effect list" where
  "commit_effects env obs kind anchorWritten =
     (if anchorWritten then
        (if re_snapshot env then (case re_newAnchor env of Some a \<Rightarrow> [R_replayed a] | None \<Rightarrow> []) else []) @
        (if re_replayEnabled env
         then (if re_newAnchor env \<noteq> None \<and> re_shouldInject env then [R_injected] else [])
         else (if INJECT_CONTINUE obs then [R_injected] else [])) @
        [R_enrich (re_newAnchor env)]
      else if re_model env = None then [] else [R_anchor kind (INJECT_CONTINUE obs)])"

fun run_kinds ::
  "kind_env \<Rightarrow> observed \<Rightarrow> (nat \<Rightarrow> kind_name \<Rightarrow> kind_attempt) \<Rightarrow> nat \<Rightarrow> kind_name list \<Rightarrow> run_effect list \<times> run_result" where
  "run_kinds env obs attempt i [] = ([R_published_failure], Run_stop)"
| "run_kinds env obs attempt i (kind # rest) =
     (case attempt i kind of
        Attempt_throws \<Rightarrow> ([R_tried kind], Run_throws)
      | Attempt_failed \<Rightarrow>
          (case run_kinds env obs attempt (Suc i) rest of (es, r) \<Rightarrow> (R_tried kind # es, r))
      | Attempt_made k anchorWritten truncated \<Rightarrow>
          if \<not> anchorWritten \<and> isLocalKind k \<and> truncated \<and> list_ex (\<lambda>l. \<not> isLocalKind l) rest
          then (case run_kinds env obs attempt (Suc i) rest of (es, r) \<Rightarrow> (R_tried kind # es, r))
          else (R_tried kind # commit_effects env obs k anchorWritten, Run_continue))"

definition chain_for :: "compaction_model option \<Rightarrow> observed \<Rightarrow> bool \<Rightarrow> kind_name list" where
  "chain_for m obs rich =
     (let byRequest = (case m of Some x \<Rightarrow> \<not> isByTokenBilling x | None \<Rightarrow> False);
          forceRich = (rich \<or> (obs = O_manual \<and> byRequest))
      in if obs = O_manual \<and> forceRich then [Ai_paid] else resolveKindChain obs byRequest)"

definition compaction_run ::
  "int \<Rightarrow> session_message list \<Rightarrow> kind_env \<Rightarrow> observed \<Rightarrow> bool \<Rightarrow> (nat \<Rightarrow> kind_name \<Rightarrow> kind_attempt) \<Rightarrow>
   run_effect list \<times> run_result" where
  "compaction_run now msgs env obs rich attempt =
     (if shouldThrottle now msgs then ([], Run_continue)
      else if skipEventCompaction (map_option cm_providerId (re_model env)) obs then ([R_started], Run_continue)
      else (case run_kinds env obs attempt 0 (chain_for (re_model env) obs rich) of
              (es, r) \<Rightarrow> ([R_started, R_compacting] @ es @ [R_cleared], r)))"

section \<open>A run\<close>

definition is_mark :: "run_effect \<Rightarrow> bool" where
  "is_mark e \<longleftrightarrow> e \<in> {R_started, R_compacting, R_cleared}"

lemma commit_marks: "list_all (\<lambda>e. \<not> is_mark e) (commit_effects env obs k w)"
  by (cases "re_newAnchor env") (simp_all add: commit_effects_def is_mark_def del: not_None_eq)

lemma run_kinds_marks: "list_all (\<lambda>e. \<not> is_mark e) (fst (run_kinds env obs attempt i ks))"
proof (induction ks arbitrary: i)
  case (Cons k ks)
  obtain es r where rest: "run_kinds env obs attempt (Suc i) ks = (es, r)" by (cases "run_kinds env obs attempt (Suc i) ks")
  have "\<not> is_mark (R_tried k)" by (simp add: is_mark_def)
  then show ?case using Cons.IH [of "Suc i"] rest commit_marks by (simp split: kind_attempt.splits)
qed (simp add: is_mark_def)

definition is_commit :: "run_effect \<Rightarrow> bool" where
  "is_commit e = (case e of R_anchor k a \<Rightarrow> True | R_enrich a \<Rightarrow> True | _ \<Rightarrow> False)"

lemma filter_commit:
  "filter is_commit (commit_effects env obs k w) =
     (if w then [R_enrich (re_newAnchor env)]
      else if re_model env = None then [] else [R_anchor k (INJECT_CONTINUE obs)])"
  unfolding commit_effects_def is_commit_def
  by (cases w; cases "re_model env = None"; cases "re_newAnchor env = None"; cases "re_snapshot env";
    cases "re_replayEnabled env"; cases "re_shouldInject env"; cases "INJECT_CONTINUE obs") auto

lemma commit_count: "length (filter is_commit (commit_effects env obs k w)) \<le> 1"
  unfolding filter_commit by (simp del: not_None_eq)

lemma run_kinds_commits:
  "length (filter is_commit (fst (run_kinds env obs attempt i ks))) \<le> 1 \<and>
   (snd (run_kinds env obs attempt i ks) \<noteq> Run_continue \<longrightarrow>
      filter is_commit (fst (run_kinds env obs attempt i ks)) = []) \<and>
   (snd (run_kinds env obs attempt i ks) = Run_stop \<longleftrightarrow> R_published_failure \<in> set (fst (run_kinds env obs attempt i ks)))"
proof (induction ks arbitrary: i)
  case Nil
  show ?case by (simp add: is_commit_def)
next
  case (Cons k ks)
  obtain es r where rest: "run_kinds env obs attempt (Suc i) ks = (es, r)" by (cases "run_kinds env obs attempt (Suc i) ks")
  have nofail: "R_published_failure \<notin> set (commit_effects env obs a w)" for a w
    unfolding commit_effects_def
    by (cases w; cases "re_model env = None"; cases "re_newAnchor env = None"; cases "re_snapshot env";
    cases "re_replayEnabled env"; cases "re_shouldInject env"; cases "INJECT_CONTINUE obs") auto
  have tried: "\<not> is_commit (R_tried k)" by (simp add: is_commit_def)
  show ?case
    using Cons.IH [of "Suc i"] rest commit_count nofail tried by (simp split: kind_attempt.splits)
qed



text \<open>
  A local result that had to drop content is committed only when no paid kind is left or none of them commits;
  else the paid result takes its place. Stop means that every attempt failed or was such a result.
\<close>

definition lossy :: "kind_attempt \<Rightarrow> bool" where
  "lossy a = (case a of Attempt_made k w t \<Rightarrow> \<not> w \<and> isLocalKind k \<and> t | _ \<Rightarrow> False)"

definition passes_on :: "(nat \<Rightarrow> kind_name \<Rightarrow> kind_attempt) \<Rightarrow> nat \<Rightarrow> kind_name list \<Rightarrow> nat \<Rightarrow> bool" where
  "passes_on attempt i ks j \<longleftrightarrow>
     attempt (i + j) (ks ! j) = Attempt_failed \<or>
     lossy (attempt (i + j) (ks ! j)) \<and> list_ex (\<lambda>l. \<not> isLocalKind l) (drop (Suc j) ks)"

lemma passes_on_simps:
  "passes_on attempt i (k # ks) 0 \<longleftrightarrow>
     attempt i k = Attempt_failed \<or> lossy (attempt i k) \<and> list_ex (\<lambda>l. \<not> isLocalKind l) ks"
  "passes_on attempt i (k # ks) (Suc j) \<longleftrightarrow> passes_on attempt (Suc i) ks j"
  by (simp_all add: passes_on_def)

lemma stop_kinds: "snd (run_kinds env obs attempt i ks) = Run_stop \<longleftrightarrow> (\<forall>j < length ks. passes_on attempt i ks j)"
proof (induction ks arbitrary: i)
  case (Cons k ks)
  obtain es r where rest: "run_kinds env obs attempt (Suc i) ks = (es, r)" by (cases "run_kinds env obs attempt (Suc i) ks")
  have "(\<forall>j < length (k # ks). passes_on attempt i (k # ks) j) \<longleftrightarrow>
      passes_on attempt i (k # ks) 0 \<and> (\<forall>j < length ks. passes_on attempt (Suc i) ks j)"
    by (simp add: All_less_Suc2 passes_on_simps(2))
  also have "\<dots> \<longleftrightarrow> passes_on attempt i (k # ks) 0 \<and> r = Run_stop" using Cons.IH [of "Suc i"] rest by simp
  finally show ?case
    using rest by (cases "attempt i k") (auto simp: passes_on_simps(1) lossy_def)
qed simp

text \<open>
  Token pressure ends with stop only when the paid kind has failed: a truncated narrative alone never stops a run.
\<close>

theorem stop_means_paid_failed:
  assumes "snd (compaction_run now msgs env obs rich attempt) = Run_stop" and "obs = O_overflow \<or> obs = O_cache_aware"
  shows "\<exists>i. attempt i Ai_paid = Attempt_failed \<or> lossy (attempt i Ai_paid)"
proof -
  let ?ks = "chain_for (re_model env) obs rich"
  have stop: "snd (run_kinds env obs attempt 0 ?ks) = Run_stop"
    using assms(1) by (auto simp: compaction_run_def split: if_splits prod.splits)
  have "1 < length ?ks" "?ks ! 1 = Ai_paid"
    using assms(2) by (auto simp: chain_for_def resolveKindChain_def KIND_CHAIN_def Let_def)
  then have "passes_on attempt 0 ?ks 1" using stop unfolding stop_kinds by blast
  then show ?thesis using \<open>?ks ! 1 = Ai_paid\<close> unfolding passes_on_def by auto
qed

text \<open>
  Where requests are billed instead of tokens, the paid kind is in the chain of overflow twice: when it fails, the
  same call is made again.
\<close>

theorem paid_kind_tried_twice:
  assumes "re_model env = Some m" and "\<not> isByTokenBilling m" and "obs = O_overflow \<or> obs = O_cache_aware"
    and "\<not> shouldThrottle now msgs" and "\<forall>i k. attempt i k = Attempt_failed"
  shows "filter (\<lambda>e. e = R_tried Ai_paid) (fst (compaction_run now msgs env obs rich attempt)) = [R_tried Ai_paid, R_tried Ai_paid]"
proof -
  have "\<not> skipEventCompaction (map_option cm_providerId (re_model env)) obs"
    using assms(3) by (auto simp: skipEventCompaction_def CLAUDE_NOOP_OBSERVED_def)
  then show ?thesis
    using assms by (auto simp: compaction_run_def chain_for_def resolveKindChain_def KIND_CHAIN_def Let_def)
qed

text \<open>
  On claude the events of a server chain compact nothing. The run answers continue all the same and has announced
  a compaction that it does not close; the loop, which takes continue for a compaction, evaluates the same state
  again.
\<close>

theorem claude_chain_event_does_nothing:
  assumes "re_model env = Some m" and "cm_providerId m = ''claude-cli''" and "obs \<in> set CLAUDE_NOOP_OBSERVED"
    and "\<not> shouldThrottle now msgs"
  shows "compaction_run now msgs env obs rich attempt = ([R_started], Run_continue)"
  using assms by (simp add: compaction_run_def skipEventCompaction_def claude_context_def)

theorem claude_chain_event_does_nothing_witness:
  "compaction_run 5 [] \<lparr>re_model = Some \<lparr>cm_id = ''opus'', cm_providerId = ''claude-cli'', cm_context = 1000000, cm_input = None,
       cm_output = 32000, cm_cost_input = 5, cm_cost_output = 25\<rparr>, re_snapshot = False, re_replayEnabled = True,
     re_newAnchor = None, re_shouldInject = False\<rparr> O_continuation_invalidated False (\<lambda>i k. Attempt_failed) = ([R_started], Run_continue)"
  by (rule claude_chain_event_does_nothing [where m = "\<lparr>cm_id = ''opus'', cm_providerId = ''claude-cli'', cm_context = 1000000,
      cm_input = None, cm_output = 32000, cm_cost_input = 5, cm_cost_output = 25\<rparr>"])
    (simp_all add: CLAUDE_NOOP_OBSERVED_def shouldThrottle_def findMostRecentAnchor_def)

section \<open>The manager\<close>

record enrich_request =
  er_sessionID :: string
  er_anchorId :: "string option"
  er_observed :: observed
  er_providerId :: "string option"

record publish_request =
  pr_sessionID :: string
  pr_anchorId :: "string option"

text \<open>The strategies are registered together with the executor; the logs list what was executed and reported.\<close>

record compaction_manager =
  mg_lastEnriched :: "(string, string) jmap"
  mg_lastPublished :: "(string, string) jmap"
  mg_wired :: bool
  mg_enriched :: "(string \<times> string option \<times> provider_class) list"
  mg_publisher :: bool
  mg_published :: "publish_request list"
  mg_anomalies :: "(string \<times> string \<times> string) list"

definition ENRICH_ELIGIBLE_OBSERVED :: "observed list" where
  "ENRICH_ELIGIBLE_OBSERVED =
     [O_overflow, O_cache_aware, O_manual, O_rebind, O_continuation_invalidated, O_provider_switched, O_stall_recovery]"

definition truthy_text :: "string option \<Rightarrow> string option" where
  "truthy_text a = (case a of Some x \<Rightarrow> if x = [] then None else Some x | None \<Rightarrow> None)"

definition requestEnrich :: "enrich_request \<Rightarrow> compaction_manager \<Rightarrow> compaction_manager" where
  "requestEnrich req s =
     (let provider = compaction_class (er_providerId req) in
      if er_observed req \<notin> set ENRICH_ELIGIBLE_OBSERVED then s
      else (case truthy_text (er_anchorId req) of
              Some a \<Rightarrow>
                if jget (mg_lastEnriched s) (er_sessionID req) = Some a
                then s\<lparr>mg_anomalies := mg_anomalies s @ [(''duplicate-enrich'', er_sessionID req, a)]\<rparr>
                else
                  let s1 = s\<lparr>mg_lastEnriched := jset (mg_lastEnriched s) (er_sessionID req) a\<rparr> in
                  if mg_wired s1 then s1\<lparr>mg_enriched := mg_enriched s1 @ [(er_sessionID req, er_anchorId req, provider)]\<rparr> else s1
            | None \<Rightarrow>
                if mg_wired s then s\<lparr>mg_enriched := mg_enriched s @ [(er_sessionID req, er_anchorId req, provider)]\<rparr> else s))"

definition requestPublish :: "publish_request \<Rightarrow> compaction_manager \<Rightarrow> compaction_manager" where
  "requestPublish req s =
     (let s1 = (case truthy_text (pr_anchorId req) of
              Some a \<Rightarrow>
                (if jget (mg_lastPublished s) (pr_sessionID req) = Some a
                 then s\<lparr>mg_anomalies := mg_anomalies s @ [(''duplicate-publish'', pr_sessionID req, a)]\<rparr> else s)
                  \<lparr>mg_lastPublished := jset (mg_lastPublished s) (pr_sessionID req) a\<rparr>
            | None \<Rightarrow> s)
      in if mg_publisher s1 then s1\<lparr>mg_published := mg_published s1 @ [req]\<rparr> else s1)"

definition manager_forget :: "string \<Rightarrow> compaction_manager \<Rightarrow> compaction_manager" where
  "manager_forget sid s =
     s\<lparr>mg_lastEnriched := jdel (mg_lastEnriched s) sid, mg_lastPublished := jdel (mg_lastPublished s) sid\<rparr>"

definition manager_start :: compaction_manager where
  "manager_start = \<lparr>mg_lastEnriched = [], mg_lastPublished = [], mg_wired = True, mg_enriched = [], mg_publisher = True,
     mg_published = [], mg_anomalies = []\<rparr>"

datatype manager_op = Op_enrich enrich_request | Op_publish publish_request

definition manager_step :: "manager_op \<Rightarrow> compaction_manager \<Rightarrow> compaction_manager" where
  "manager_step op s = (case op of Op_enrich r \<Rightarrow> requestEnrich r s | Op_publish r \<Rightarrow> requestPublish r s)"

definition manager_run :: "manager_op list \<Rightarrow> compaction_manager" where
  "manager_run ops = fold manager_step ops manager_start"

text \<open>The anchors a session was enriched for, oldest first.\<close>

definition enriched_anchors :: "string \<Rightarrow> compaction_manager \<Rightarrow> string list" where
  "enriched_anchors sid s =
     List.map_filter (\<lambda>(k, a, p). if k = sid then truthy_text a else None) (mg_enriched s)"

section \<open>Each anchor once\<close>

lemma requestEnrich_cases:
  obtains (same) "requestEnrich req s = s"
  | (duplicate) a where "requestEnrich req s = s\<lparr>mg_anomalies := mg_anomalies s @ [(''duplicate-enrich'', er_sessionID req, a)]\<rparr>"
  | (plain) p where "truthy_text (er_anchorId req) = None"
      "requestEnrich req s = s\<lparr>mg_enriched := mg_enriched s @ [(er_sessionID req, er_anchorId req, p)]\<rparr>"
  | (marked) a where "truthy_text (er_anchorId req) = Some a" "jget (mg_lastEnriched s) (er_sessionID req) \<noteq> Some a" "\<not> mg_wired s"
      "requestEnrich req s = s\<lparr>mg_lastEnriched := jset (mg_lastEnriched s) (er_sessionID req) a\<rparr>"
  | (scheduled) a p where "truthy_text (er_anchorId req) = Some a" "jget (mg_lastEnriched s) (er_sessionID req) \<noteq> Some a" "mg_wired s"
      "requestEnrich req s = s\<lparr>mg_lastEnriched := jset (mg_lastEnriched s) (er_sessionID req) a,
         mg_enriched := mg_enriched s @ [(er_sessionID req, er_anchorId req, p)]\<rparr>"
proof (cases "er_observed req \<in> set ENRICH_ELIGIBLE_OBSERVED")
  case True
  note eligible = True
  show ?thesis
  proof (cases "truthy_text (er_anchorId req)")
    case None
    show ?thesis
    proof (cases "mg_wired s")
      case True
      show ?thesis by (rule plain [OF None]) (simp add: requestEnrich_def eligible None True Let_def)
    qed (rule same, simp add: requestEnrich_def eligible None Let_def)
  next
    case (Some a)
    show ?thesis
    proof (cases "jget (mg_lastEnriched s) (er_sessionID req) = Some a")
      case True
      show ?thesis by (rule duplicate) (simp add: requestEnrich_def eligible Some True Let_def)
    next
      case False
      show ?thesis
      proof (cases "mg_wired s")
        case True
        show ?thesis by (rule scheduled [OF Some False True]) (simp add: requestEnrich_def eligible Some False True Let_def)
      next
        case unwired: False
        show ?thesis by (rule marked [OF Some False unwired]) (simp add: requestEnrich_def eligible Some False unwired Let_def)
      qed
    qed
  qed
qed (rule same, simp add: requestEnrich_def)

definition manager_ok :: "compaction_manager \<Rightarrow> bool" where
  "manager_ok s \<longleftrightarrow>
     mg_wired s \<and>
     (\<forall>sid. distinct_adj (enriched_anchors sid s) \<and>
        jget (mg_lastEnriched s) sid =
          (if enriched_anchors sid s = [] then None else Some (last (enriched_anchors sid s))))"

lemma enriched_anchors_more:
  "mg_enriched s' = mg_enriched s @ [(k, a, p)] \<Longrightarrow>
   enriched_anchors sid s' = enriched_anchors sid s @ (if k = sid then (case truthy_text a of Some x \<Rightarrow> [x] | None \<Rightarrow> []) else [])"
  by (simp add: enriched_anchors_def List.map_filter_def split: option.splits)

lemma enriched_anchors_cong: "mg_enriched s' = mg_enriched s \<Longrightarrow> enriched_anchors sid s' = enriched_anchors sid s"
  by (simp add: enriched_anchors_def)

lemma distinct_adj_snoc: "distinct_adj xs \<Longrightarrow> xs = [] \<or> last xs \<noteq> x \<Longrightarrow> distinct_adj (xs @ [x])"
  by (induction xs rule: induct_list012) auto

lemma enrich_ok:
  assumes ok: "manager_ok s"
  shows "manager_ok (requestEnrich req s)"
proof (cases rule: requestEnrich_cases [of req s])
  case (plain p)
  then show ?thesis
    using ok enriched_anchors_more [of "requestEnrich req s" s "er_sessionID req" "er_anchorId req" p]
    by (simp add: manager_ok_def)
next
  case (scheduled a p)
  let ?s = "requestEnrich req s"
  have e: "enriched_anchors sid ?s = enriched_anchors sid s @ (if er_sessionID req = sid then [a] else [])" for sid
    using scheduled enriched_anchors_more [of ?s s "er_sessionID req" "er_anchorId req" p sid] by simp
  have d: "distinct_adj (enriched_anchors (er_sessionID req) s @ [a])"
    using ok scheduled(2) by (intro distinct_adj_snoc) (auto simp: manager_ok_def split: if_splits)
  have l: "mg_wired ?s" "jget (mg_lastEnriched ?s) sid = (if sid = er_sessionID req then Some a else jget (mg_lastEnriched s) sid)" for sid
    using scheduled(3) by (simp_all add: scheduled(4) jget_jset)
  show ?thesis
    using ok d l(1) unfolding manager_ok_def e l(2) by auto
qed (use ok in \<open>simp_all add: manager_ok_def enriched_anchors_def\<close>)

lemma publish_ok: "manager_ok s \<Longrightarrow> manager_ok (requestPublish req s)"
  by (simp add: manager_ok_def requestPublish_def Let_def enriched_anchors_def split: option.splits)

lemma run_ok: "manager_ok (manager_run ops)"
proof -
  have "manager_ok s \<Longrightarrow> manager_ok (fold manager_step ops s)" for s
    by (induction ops arbitrary: s) (simp_all add: manager_step_def enrich_ok publish_ok split: manager_op.split)
  moreover have "manager_ok manager_start" by (simp add: manager_ok_def manager_start_def enriched_anchors_def List.map_filter_def)
  ultimately show ?thesis by (simp add: manager_run_def)
qed

text \<open>
  C39 (invariant): An anchor is enriched once in a row: whatever requests the sessions send, from whatever sites and in whatever
  interleaving, no session is enriched for the anchor it was just enriched for.
\<close>

theorem enriched_once_in_a_row: "distinct_adj (enriched_anchors sid (manager_run ops))"
  using run_ok [of ops] by (simp add: manager_ok_def)

definition publishes :: "manager_op list \<Rightarrow> publish_request list" where
  "publishes ops = List.map_filter (\<lambda>op. case op of Op_publish r \<Rightarrow> Some r | Op_enrich r \<Rightarrow> None) ops"

text \<open>Publishing is only watched: every request reaches the executor, in its order, duplicates included.\<close>

theorem publish_never_suppressed: "mg_published (manager_run ops) = publishes ops"
proof -
  have "mg_publisher s \<Longrightarrow> mg_published (fold manager_step ops s) = mg_published s @ publishes ops" for s
  proof (induction ops arbitrary: s)
    case (Cons op ops)
    have "mg_publisher (manager_step op s) \<and> mg_published (manager_step op s) =
        mg_published s @ (case op of Op_publish r \<Rightarrow> [r] | Op_enrich r \<Rightarrow> [])"
    proof (cases op)
      case (Op_enrich r)
      then show ?thesis using Cons.prems by (cases rule: requestEnrich_cases [of r s]) (simp_all add: manager_step_def)
    qed (use Cons.prems in \<open>simp add: manager_step_def requestPublish_def Let_def split: option.split\<close>)
    then show ?case using Cons.IH [of "manager_step op s"] by (simp add: publishes_def List.map_filter_def split: manager_op.splits)
  qed (simp add: publishes_def List.map_filter_def)
  then show ?thesis by (simp add: manager_run_def manager_start_def)
qed

end
