(* ===== verification/Compaction_Text.thy ===== *)
theory Compaction_Text
  imports Compaction_Trigger Json Tool_Truncation
begin

text \<open>
  What a compaction does to messages and texts (session/compaction.ts, session/prompt.ts): the placeholders for tool
  calls and results without their counterpart, the history that is cut to a small window, the body of an anchor
  that is cut to a budget, and the cut of the stream at the newest anchor. A text is the list of its UTF-16 code
  units.
\<close>

section \<open>Orphaned tool calls\<close>

datatype model_part = Call_part string json | Result_part string json | Said_part string | Extra_part json

datatype model_content = Plain_content string | Part_content "model_part list"

record model_message =
  mm_role :: string
  mm_content :: model_content

definition content_parts :: "model_message \<Rightarrow> model_part list" where
  "content_parts m = (case mm_content m of Part_content ps \<Rightarrow> ps | Plain_content t \<Rightarrow> [])"

definition call_id :: "model_part \<Rightarrow> string option" where
  "call_id p = (case p of Call_part i j \<Rightarrow> Some i | _ \<Rightarrow> None)"

definition result_id :: "model_part \<Rightarrow> string option" where
  "result_id p = (case p of Result_part i j \<Rightarrow> Some i | _ \<Rightarrow> None)"

definition call_ids :: "model_message list \<Rightarrow> string list" where
  "call_ids ms = List.map_filter call_id (concat (map content_parts ms))"

definition result_ids :: "model_message list \<Rightarrow> string list" where
  "result_ids ms = List.map_filter result_id (concat (map content_parts ms))"

definition replace_orphan :: "string list \<Rightarrow> model_part \<Rightarrow> model_part" where
  "replace_orphan missingResults p =
     (case p of
        Call_part i j \<Rightarrow> if i \<in> set missingResults then Said_part (''[tool result missing: '' @ i @ '']'') else p
      | _ \<Rightarrow> p)"

definition has_orphan :: "string list \<Rightarrow> model_part \<Rightarrow> bool" where
  "has_orphan missingCalls p = (case p of Result_part i j \<Rightarrow> i \<in> set missingCalls | _ \<Rightarrow> False)"

definition sanitize_message :: "string list \<Rightarrow> string list \<Rightarrow> model_message \<Rightarrow> model_message option" where
  "sanitize_message missingResults missingCalls m =
     (case mm_content m of
        Plain_content t \<Rightarrow> Some m
      | Part_content ps \<Rightarrow>
          if mm_role m = ''tool'' then (if list_ex (has_orphan missingCalls) ps then None else Some m)
          else Some (m\<lparr>mm_content := Part_content (map (replace_orphan missingResults) ps)\<rparr>))"

definition sanitizeOrphanedToolCalls :: "model_message list \<Rightarrow> model_message list" where
  "sanitizeOrphanedToolCalls messages =
     (let calls = call_ids messages; results = result_ids messages;
          missingResults = filter (\<lambda>i. i \<notin> set results) calls;
          missingCalls = filter (\<lambda>i. i \<notin> set calls) results
      in if missingResults = [] \<and> missingCalls = [] then messages
         else List.map_filter (sanitize_message missingResults missingCalls) messages)"

definition paired :: "model_message list \<Rightarrow> bool" where
  "paired ms \<longleftrightarrow> set (call_ids ms) = set (result_ids ms)"

text \<open>The schema of messages: results are in tool messages only, calls in others.\<close>

definition roles_ok :: "model_message \<Rightarrow> bool" where
  "roles_ok m \<longleftrightarrow>
     (if mm_role m = ''tool'' then list_all (\<lambda>p. call_id p = None) (content_parts m)
      else list_all (\<lambda>p. result_id p = None) (content_parts m))"

lemma set_map_filter: "y \<in> set (List.map_filter f xs) \<longleftrightarrow> (\<exists>x \<in> set xs. f x = Some y)"
  by (force simp: List.map_filter_def)

lemma call_ids_iff: "i \<in> set (call_ids ms) \<longleftrightarrow> (\<exists>m \<in> set ms. \<exists>p \<in> set (content_parts m). call_id p = Some i)"
  by (auto simp: call_ids_def set_map_filter)

lemma result_ids_iff: "i \<in> set (result_ids ms) \<longleftrightarrow> (\<exists>m \<in> set ms. \<exists>p \<in> set (content_parts m). result_id p = Some i)"
  by (auto simp: result_ids_def set_map_filter)

lemma replace_call: "call_id (replace_orphan X p) = Some i \<longleftrightarrow> call_id p = Some i \<and> i \<notin> set X"
  by (auto simp: replace_orphan_def call_id_def split: model_part.splits)

lemma replace_result: "result_id (replace_orphan X p) = result_id p"
  by (simp add: replace_orphan_def result_id_def split: model_part.split)

lemma orphan_result: "has_orphan X p \<longleftrightarrow> (\<exists>i. result_id p = Some i \<and> i \<in> set X)"
  by (simp add: has_orphan_def result_id_def split: model_part.split)

lemma sanitize_parts:
  assumes "sanitize_message R C m = Some m'"
  shows "if mm_role m = ''tool'' then content_parts m' = content_parts m \<and> (\<forall>p \<in> set (content_parts m). \<not> has_orphan C p)
    else content_parts m' = map (replace_orphan R) (content_parts m)"
  using assms
  by (cases "mm_content m") (auto simp: sanitize_message_def content_parts_def list_ex_iff split: if_splits)

lemma sanitize_drops:
  assumes "sanitize_message R C m = None"
  shows "mm_role m = ''tool'' \<and> (\<exists>p \<in> set (content_parts m). has_orphan C p)"
  using assms by (cases "mm_content m") (auto simp: sanitize_message_def content_parts_def list_ex_iff split: if_splits)

text \<open>
  What is sent to a provider that insists on pairs is paired: when every tool message carries results that are
  all orphans or none, after the repair every call has its result and every result its call. A conversation that is
  paired is returned as it is.
\<close>

theorem sanitized_is_paired:
  assumes roles: "\<forall>m \<in> set ms. roles_ok m"
    and uniform: "\<forall>m \<in> set ms. (\<forall>i j. (\<exists>p \<in> set (content_parts m). result_id p = Some i) \<and> (\<exists>p \<in> set (content_parts m). result_id p = Some j)
      \<longrightarrow> (i \<in> set (call_ids ms) \<longleftrightarrow> j \<in> set (call_ids ms)))"
  shows "paired (sanitizeOrphanedToolCalls ms) \<and> (paired ms \<longrightarrow> sanitizeOrphanedToolCalls ms = ms)"
proof
  let ?R = "filter (\<lambda>i. i \<notin> set (result_ids ms)) (call_ids ms)"
  let ?C = "filter (\<lambda>i. i \<notin> set (call_ids ms)) (result_ids ms)"
  let ?out = "List.map_filter (sanitize_message ?R ?C) ms"
  have none: "?R = [] \<and> ?C = [] \<longleftrightarrow> paired ms" by (auto simp: paired_def filter_empty_conv)
  then show "paired ms \<longrightarrow> sanitizeOrphanedToolCalls ms = ms" by (simp add: sanitizeOrphanedToolCalls_def Let_def)
  have calls: "i \<in> set (call_ids ?out) \<longleftrightarrow> i \<in> set (call_ids ms) \<and> i \<in> set (result_ids ms)" for i
  proof
    assume "i \<in> set (call_ids ?out)"
    then obtain m' p where m': "m' \<in> set ?out" "p \<in> set (content_parts m')" "call_id p = Some i" unfolding call_ids_iff by blast
    then obtain m where m: "m \<in> set ms" "sanitize_message ?R ?C m = Some m'" unfolding set_map_filter by blast
    have "mm_role m \<noteq> ''tool''"
      using sanitize_parts [OF m(2)] m'(2,3) roles m(1) by (auto simp: roles_ok_def list_all_iff split: if_splits)
    then obtain q where "q \<in> set (content_parts m)" "p = replace_orphan ?R q"
      using sanitize_parts [OF m(2)] m'(2) by auto
    then have "i \<in> set (call_ids ms)" "i \<notin> set ?R"
      using m'(3) m(1) unfolding call_ids_iff by (auto simp: replace_call)
    then show "i \<in> set (call_ids ms) \<and> i \<in> set (result_ids ms)" by simp
  next
    assume i: "i \<in> set (call_ids ms) \<and> i \<in> set (result_ids ms)"
    then obtain m p where m: "m \<in> set ms" "p \<in> set (content_parts m)" "call_id p = Some i" unfolding call_ids_iff by blast
    have role: "mm_role m \<noteq> ''tool''" using roles m by (auto simp: roles_ok_def list_all_iff split: if_splits)
    then obtain m' where m': "sanitize_message ?R ?C m = Some m'"
      using sanitize_drops [of ?R ?C m] by (cases "sanitize_message ?R ?C m") auto
    have "replace_orphan ?R p \<in> set (content_parts m')" using sanitize_parts [OF m'] role m(2) by simp
    moreover have "call_id (replace_orphan ?R p) = Some i" using m(3) i by (simp add: replace_call)
    moreover have "m' \<in> set ?out" using m(1) m' unfolding set_map_filter by blast
    ultimately show "i \<in> set (call_ids ?out)" unfolding call_ids_iff by blast
  qed
  have results: "i \<in> set (result_ids ?out) \<longleftrightarrow> i \<in> set (call_ids ms) \<and> i \<in> set (result_ids ms)" for i
  proof
    assume "i \<in> set (result_ids ?out)"
    then obtain m' p where m': "m' \<in> set ?out" "p \<in> set (content_parts m')" "result_id p = Some i" unfolding result_ids_iff by blast
    then obtain m where m: "m \<in> set ms" "sanitize_message ?R ?C m = Some m'" unfolding set_map_filter by blast
    have role: "mm_role m = ''tool''"
    proof (rule ccontr)
      assume r: "mm_role m \<noteq> ''tool''"
      then obtain q where "q \<in> set (content_parts m)" "p = replace_orphan ?R q" using sanitize_parts [OF m(2)] m'(2) by auto
      then show False using r roles m(1) m'(3) by (auto simp: roles_ok_def list_all_iff replace_result)
    qed
    then have p: "p \<in> set (content_parts m)" "\<not> has_orphan ?C p" using sanitize_parts [OF m(2)] m'(2) by auto
    then have "i \<in> set (result_ids ms)" using m(1) m'(3) unfolding result_ids_iff by blast
    moreover have "i \<notin> set ?C" using p(2) m'(3) by (auto simp: orphan_result)
    ultimately show "i \<in> set (call_ids ms) \<and> i \<in> set (result_ids ms)" by simp
  next
    assume i: "i \<in> set (call_ids ms) \<and> i \<in> set (result_ids ms)"
    then obtain m p where m: "m \<in> set ms" "p \<in> set (content_parts m)" "result_id p = Some i" unfolding result_ids_iff by blast
    have role: "mm_role m = ''tool''" using roles m by (auto simp: roles_ok_def list_all_iff split: if_splits)
    have no_orphan: "\<not> has_orphan ?C q" if "q \<in> set (content_parts m)" for q
    proof
      assume "has_orphan ?C q"
      then obtain j where "result_id q = Some j" "j \<notin> set (call_ids ms)" by (auto simp: orphan_result)
      then show False using uniform m i that by blast
    qed
    then obtain m' where m': "sanitize_message ?R ?C m = Some m'"
      using sanitize_drops [of ?R ?C m] by (cases "sanitize_message ?R ?C m") auto
    have "p \<in> set (content_parts m')" using sanitize_parts [OF m'] role m(2) by simp
    moreover have "m' \<in> set ?out" using m(1) m' unfolding set_map_filter by blast
    ultimately show "i \<in> set (result_ids ?out)" using m(3) unfolding result_ids_iff by blast
  qed
  have "paired ?out" using calls results by (auto simp: paired_def)
  then show "paired (sanitizeOrphanedToolCalls ms)"
    using none unfolding sanitizeOrphanedToolCalls_def Let_def by (simp split: if_split)
qed

text \<open>
  A tool message with an orphaned result is dropped whole, and with it the results beside it, whose calls stay:
  the repaired conversation has an orphaned call.
\<close>

theorem dropped_message_orphans_a_call:
  "\<not> paired (sanitizeOrphanedToolCalls
     [\<lparr>mm_role = ''assistant'', mm_content = Part_content [Call_part ''a'' JNull]\<rparr>,
      \<lparr>mm_role = ''tool'', mm_content = Part_content [Result_part ''a'' JNull, Result_part ''b'' JNull]\<rparr>])"
  by (simp add: sanitizeOrphanedToolCalls_def call_ids_def result_ids_def content_parts_def call_id_def result_id_def
      List.map_filter_def sanitize_message_def has_orphan_def replace_orphan_def paired_def)

section \<open>The history in a small window\<close>

definition SMALL_CONTEXT_MAX :: int where "SMALL_CONTEXT_MAX = 128000"
definition SMALL_CONTEXT_RESERVED_TOKENS :: int where "SMALL_CONTEXT_RESERVED_TOKENS = 5000"
definition CHARS_PER_TOKEN :: int where "CHARS_PER_TOKEN = 4"

text \<open>The length of the JSON text of a list of messages, from the lengths of its messages.\<close>

definition json_list_length :: "('m \<Rightarrow> int) \<Rightarrow> 'm list \<Rightarrow> int" where
  "json_list_length text_size ms = 2 + sum_list (map text_size ms) + (if ms = [] then 0 else int (length ms) - 1)"

fun keep_from_end :: "('m \<Rightarrow> int) \<Rightarrow> int \<Rightarrow> int \<Rightarrow> 'm list \<Rightarrow> 'm list \<Rightarrow> 'm list" where
  "keep_from_end text_size budget taken kept [] = kept"
| "keep_from_end text_size budget taken kept (m # ms) =
     (if kept \<noteq> [] \<and> taken + (text_size m + 1) > budget then kept
      else keep_from_end text_size budget (taken + (text_size m + 1)) (m # kept) ms)"

text \<open>
  The messages, whether they were cut, and the budget. A message that is too long by itself stays as it is: the
  code shortens the texts under \<open>parts\<close>, and these messages have \<open>content\<close>.
\<close>

definition truncateModelMessagesForSmallContext :: "('m \<Rightarrow> int) \<Rightarrow> int \<Rightarrow> 'm list \<Rightarrow> 'm list \<times> bool \<times> int" where
  "truncateModelMessagesForSmallContext text_size contextLimit messages =
     (let smallContextLimit = min contextLimit SMALL_CONTEXT_MAX;
          safeCharBudget = (smallContextLimit - SMALL_CONTEXT_RESERVED_TOKENS) * CHARS_PER_TOKEN
      in if smallContextLimit = 0 \<or> safeCharBudget \<le> 0 then (messages, False, 0)
         else if json_list_length text_size messages \<le> safeCharBudget then (messages, False, safeCharBudget)
         else (keep_from_end text_size safeCharBudget 2 [] (rev messages), True, safeCharBudget))"

lemma keep_from_end_spec:
  assumes "taken = json_list_length text_size kept + (if kept = [] then 0 else 1)" and "\<forall>m. 0 \<le> text_size m"
    and "length kept \<le> 1 \<or> json_list_length text_size kept \<le> budget"
  shows "\<exists>pre. rev ms @ kept = pre @ keep_from_end text_size budget taken kept ms \<and>
    (length (keep_from_end text_size budget taken kept ms) \<le> 1 \<or> json_list_length text_size (keep_from_end text_size budget taken kept ms) \<le> budget) \<and>
    (pre \<noteq> [] \<longrightarrow> budget \<le> json_list_length text_size (last pre # keep_from_end text_size budget taken kept ms)) \<and>
    (kept \<noteq> [] \<or> ms \<noteq> [] \<longrightarrow> keep_from_end text_size budget taken kept ms \<noteq> [])"
  using assms
proof (induction ms arbitrary: taken kept)
  case Nil
  then show ?case by simp
next
  case (Cons m ms)
  have grown: "taken + (text_size m + 1) = json_list_length text_size (m # kept) + 1"
    using Cons.prems(1) by (auto simp: json_list_length_def split: if_splits)
  show ?case
  proof (cases "kept \<noteq> [] \<and> taken + (text_size m + 1) > budget")
    case True
    then have stop: "keep_from_end text_size budget taken kept (m # ms) = kept" by simp
    have "budget \<le> json_list_length text_size (m # kept)" using True grown by simp
    then show ?thesis unfolding stop using Cons.prems(3) True by (intro exI [of _ "rev ms @ [m]"]) simp
  next
    case False
    then have next_step: "keep_from_end text_size budget taken kept (m # ms) = keep_from_end text_size budget (taken + (text_size m + 1)) (m # kept) ms"
      by (auto simp del: not_None_eq)
    have "length (m # kept) \<le> 1 \<or> json_list_length text_size (m # kept) \<le> budget" using False grown by auto
    then show ?thesis
      unfolding next_step grown using Cons.IH [of "json_list_length text_size (m # kept) + 1" "m # kept"] Cons.prems(2) by simp
  qed
qed

text \<open>
  A history that is cut keeps its end: the result is the longest end that fits into the budget, and at least the
  last message, which alone may exceed it.
\<close>

theorem history_keeps_its_end:
  assumes "truncateModelMessagesForSmallContext text_size contextLimit messages = (kept, True, budget)" and "\<forall>m. 0 \<le> text_size m"
  shows "\<exists>pre. messages = pre @ kept \<and> kept \<noteq> [] \<and> (length kept = 1 \<or> json_list_length text_size kept \<le> budget) \<and>
    (pre \<noteq> [] \<longrightarrow> budget \<le> json_list_length text_size (last pre # kept))"
proof -
  have k: "kept = keep_from_end text_size budget 2 [] (rev messages)" "json_list_length text_size messages > budget" "0 < budget"
    using assms(1) by (auto simp: truncateModelMessagesForSmallContext_def Let_def split: if_splits)
  show ?thesis
  proof (cases "messages = []")
    case True
    have "budget = (min contextLimit SMALL_CONTEXT_MAX - SMALL_CONTEXT_RESERVED_TOKENS) * 4"
      using assms(1) by (auto simp: truncateModelMessagesForSmallContext_def CHARS_PER_TOKEN_def Let_def split: if_splits)
    then obtain q where "budget = q * 4" by blast
    moreover have "budget < 2" using k(2) True by (simp add: json_list_length_def)
    ultimately have False using k(3) by presburger
    then show ?thesis by blast
  next
    case False
    obtain pre where "rev (rev messages) @ [] = pre @ kept" "length kept \<le> 1 \<or> json_list_length text_size kept \<le> budget"
      "pre \<noteq> [] \<longrightarrow> budget \<le> json_list_length text_size (last pre # kept)" "kept \<noteq> []"
      using keep_from_end_spec [of 2 text_size "[]" budget "rev messages"] assms(2) False unfolding k(1)
      by (auto simp: json_list_length_def)
    then show ?thesis by (intro exI [of _ pre]) (cases kept; auto)
  qed
qed

section \<open>The cut of the stream at an anchor\<close>

fun anchor_index :: "nat \<Rightarrow> session_message list \<Rightarrow> nat option" where
  "anchor_index i [] = None"
| "anchor_index i (m # ms) =
     (case anchor_index (Suc i) ms of Some j \<Rightarrow> Some j | None \<Rightarrow> if is_anchor m then Some i else None)"

definition findMostRecentAnchorIndex :: "session_message list \<Rightarrow> nat option" where
  "findMostRecentAnchorIndex msgs = anchor_index 0 msgs"

definition settled_tool :: "session_part \<Rightarrow> bool" where
  "settled_tool p = (case p of Tool_part c st \<Rightarrow> st \<noteq> Tool_pending | _ \<Rightarrow> False)"

datatype rebind_reason = Applied | No_anchor | Unsafe_boundary

definition applyStreamAnchorRebind :: "session_message list \<Rightarrow> session_message list \<times> rebind_reason" where
  "applyStreamAnchorRebind msgs =
     (case findMostRecentAnchorIndex msgs of
        None \<Rightarrow> (msgs, No_anchor)
      | Some i \<Rightarrow>
          if Suc i < length msgs \<and> sm_role (msgs ! Suc i) = Assistant_message \<and>
             list_ex settled_tool (sm_parts (msgs ! Suc i))
          then (msgs, Unsafe_boundary)
          else (drop i msgs, Applied))"

lemma anchor_index_spec:
  "(case anchor_index i ms of
      None \<Rightarrow> list_all (\<lambda>m. \<not> is_anchor m) ms
    | Some j \<Rightarrow> i \<le> j \<and> j - i < length ms \<and> is_anchor (ms ! (j - i)) \<and> list_all (\<lambda>m. \<not> is_anchor m) (drop (Suc (j - i)) ms))"
proof (induction ms arbitrary: i)
  case (Cons m ms)
  show ?case
  proof (cases "anchor_index (Suc i) ms")
    case None
    then show ?thesis using Cons [of "Suc i"] by simp
  next
    case (Some j)
    then have j: "Suc i \<le> j" "j - Suc i < length ms" "is_anchor (ms ! (j - Suc i))"
        "list_all (\<lambda>m. \<not> is_anchor m) (drop (Suc (j - Suc i)) ms)"
      using Cons [of "Suc i"] by simp_all
    then have "j - i = Suc (j - Suc i)" by simp
    then show ?thesis using Some j by simp
  qed
qed simp

text \<open>
  A resumed session goes on from its newest anchor: what is kept is the end of the stream that begins with it and
  holds no other anchor, a boundary that would cut tool results off is refused, and cutting again changes nothing.
\<close>

theorem rebind_starts_at_anchor:
  assumes "applyStreamAnchorRebind msgs = (kept, Applied)"
  shows "\<exists>pre a post. msgs = pre @ kept \<and> kept = a # post \<and> is_anchor a \<and> list_all (\<lambda>m. \<not> is_anchor m) post \<and>
    findMostRecentAnchor msgs = Some a \<and>
    (post \<noteq> [] \<and> sm_role (hd post) = Assistant_message \<longrightarrow> list_all (\<lambda>p. \<not> settled_tool p) (sm_parts (hd post)))"
proof -
  obtain i where i: "findMostRecentAnchorIndex msgs = Some i" "kept = drop i msgs"
      "\<not> (Suc i < length msgs \<and> sm_role (msgs ! Suc i) = Assistant_message \<and> list_ex settled_tool (sm_parts (msgs ! Suc i)))"
    using assms by (auto simp: applyStreamAnchorRebind_def split: option.splits if_splits)
  have sp: "i < length msgs" "is_anchor (msgs ! i)" "list_all (\<lambda>m. \<not> is_anchor m) (drop (Suc i) msgs)"
    using anchor_index_spec [where i = 0 and ms = msgs] i(1) by (simp_all add: findMostRecentAnchorIndex_def)
  have k: "kept = msgs ! i # drop (Suc i) msgs" using sp(1) i(2) by (simp add: Cons_nth_drop_Suc)
  have m: "msgs = take i msgs @ kept" using i(2) by simp
  have anchor: "findMostRecentAnchor msgs = Some (msgs ! i)"
    using most_recent_anchor [OF sp(2,3), of "take i msgs"] sp(1) by (simp add: id_take_nth_drop [symmetric])
  have "list_all (\<lambda>p. \<not> settled_tool p) (sm_parts (hd (drop (Suc i) msgs)))"
    if "drop (Suc i) msgs \<noteq> []" "sm_role (hd (drop (Suc i) msgs)) = Assistant_message"
    using that i(3) by (simp add: hd_drop_conv_nth list_all_iff list_ex_iff)
  then show ?thesis using k m anchor sp(2,3) by blast
qed

section \<open>The body of an anchor\<close>

definition line_end :: "16 word \<Rightarrow> bool" where
  "line_end u \<longleftrightarrow> u \<in> {10, 13, 0x2028, 0x2029}"

definition strip_text :: "string \<Rightarrow> 16 word list \<Rightarrow> 16 word list option" where
  "strip_text p t = (if take (length p) t = units p then Some (drop (length p) t) else None)"

definition digit_unit :: "16 word \<Rightarrow> bool" where
  "digit_unit u \<longleftrightarrow> 48 \<le> unat u \<and> unat u \<le> 57"

definition marker_ends :: "16 word list \<Rightarrow> bool" where
  "marker_ends t \<longleftrightarrow> (t = [] \<or> line_end (hd t))"

text \<open>\<open>## Round <n> (user)\<close> or \<open>(assistant)\<close> at the start of the text, up to the end of the line.\<close>

definition round_marker :: "16 word list \<Rightarrow> bool" where
  "round_marker t =
     (case strip_text ''## Round '' t of
        None \<Rightarrow> False
      | Some r \<Rightarrow>
          takeWhile digit_unit r \<noteq> [] \<and>
          (case strip_text '' ('' (dropWhile digit_unit r) of
             None \<Rightarrow> False
           | Some q \<Rightarrow>
               (case strip_text ''user)'' q of
                  Some e \<Rightarrow> marker_ends e
                | None \<Rightarrow> (case strip_text ''assistant)'' q of Some e \<Rightarrow> marker_ends e | None \<Rightarrow> False))))"

text \<open>The text before the first marker; \<open>bol\<close> says that the text stands at the beginning of a line.\<close>

fun before_round :: "bool \<Rightarrow> 16 word list \<Rightarrow> 16 word list" where
  "before_round bol [] = []"
| "before_round bol (u # t) = (if bol \<and> round_marker (u # t) then [] else u # before_round (line_end u) t)"

text \<open>The text cut before every marker but one at its start.\<close>

fun split_rounds :: "bool \<Rightarrow> 16 word list \<Rightarrow> 16 word list \<Rightarrow> 16 word list list" where
  "split_rounds bol cur [] = [rev cur]"
| "split_rounds bol cur (u # t) =
     (if cur \<noteq> [] \<and> bol \<and> round_marker (u # t) then rev cur # split_rounds (line_end u) [u] t
      else split_rounds (line_end u) (u # cur) t)"

fun keep_rounds :: "nat \<Rightarrow> nat \<Rightarrow> 16 word list list \<Rightarrow> 16 word list list \<Rightarrow> 16 word list list" where
  "keep_rounds tailBudget taken kept [] = kept"
| "keep_rounds tailBudget taken kept (r # rs) =
     (if kept \<noteq> [] \<and> taken + length r > tailBudget then kept
      else keep_rounds tailBudget (taken + length r) (r # kept) rs)"

definition elision :: "16 word list" where
  "elision = [10, 10, 0x2026] @ units ''(older rounds elided '' @ [0x2014] @
     units '' use `session_recall` to query them)'' @ [0x2026, 10, 10]"

definition truncateAnchorBodyToBudget :: "16 word list \<Rightarrow> int \<Rightarrow> 16 word list" where
  "truncateAnchorBodyToBudget body budgetChars =
     (if budgetChars \<le> 0 \<or> int (length body) \<le> budgetChars then body
      else
        let budget = nat budgetChars;
            hd_part = before_round True body;
            keep = budget - length elision
        in if length hd_part = length body then take keep body @ elision
           else if length hd_part + length elision \<ge> budget then take keep hd_part @ elision
           else
             let rounds = filter (\<lambda>r. r \<noteq> []) (split_rounds True [] (drop (length hd_part) body));
                 kept = keep_rounds (budget - length hd_part - length elision) 0 [] (rev rounds)
             in if length kept = length rounds then body else hd_part @ elision @ concat kept)"

lemma before_round_prefix: "take (length (before_round bol t)) t = before_round bol t"
  by (induction bol t rule: before_round.induct) simp_all

lemma split_rounds_concat: "concat (split_rounds bol cur t) = rev cur @ t"
  by (induction bol cur t rule: split_rounds.induct) simp_all

lemma concat_nonempty: "concat (filter (\<lambda>r. r \<noteq> []) rs) = concat rs"
  by (induction rs) auto

lemma keep_rounds_spec:
  assumes "taken = length (concat kept)" and "length kept \<le> 1 \<or> length (concat kept) \<le> tailBudget"
  shows "\<exists>pre. rev rs @ kept = pre @ keep_rounds tailBudget taken kept rs \<and>
    (length (keep_rounds tailBudget taken kept rs) \<le> 1 \<or>
     length (concat (keep_rounds tailBudget taken kept rs)) \<le> tailBudget)"
  using assms
proof (induction rs arbitrary: taken kept)
  case (Cons r rs)
  show ?case
  proof (cases "kept \<noteq> [] \<and> taken + length r > tailBudget")
    case True
    then have "keep_rounds tailBudget taken kept (r # rs) = kept" by simp
    then show ?thesis using Cons.prems(2) by (intro exI [of _ "rev rs @ [r]"]) simp
  next
    case False
    then have step: "keep_rounds tailBudget taken kept (r # rs) = keep_rounds tailBudget (taken + length r) (r # kept) rs" by auto
    show ?thesis unfolding step using Cons.IH [of "taken + length r" "r # kept"] Cons.prems(1) False by auto
  qed
qed simp

text \<open>
  A body that is cut keeps its beginning and its end: the result is a prefix of what precedes the first round, the
  note on the elision, and the last rounds of the body. It stays within the budget, unless the note alone exceeds
  it or a single round is kept.
\<close>

theorem anchor_body_keeps_its_ends:
  assumes "truncateAnchorBodyToBudget body budget \<noteq> body"
  shows "\<exists>beginning mid kept. body = beginning @ mid @ concat kept \<and>
    truncateAnchorBodyToBudget body budget = beginning @ elision @ concat kept \<and>
    (int (length (truncateAnchorBodyToBudget body budget)) \<le> budget \<or> budget < int (length elision) \<or> length kept = 1)"
proof -
  let ?b = "nat budget" and ?h = "before_round True body"
  have pos: "0 < budget" "budget < int (length body)"
    using assms by (auto simp: truncateAnchorBodyToBudget_def split: if_splits)
  have prefix: "\<exists>beginning mid kept. body = beginning @ mid @ concat kept \<and> take (?b - length elision) t @ elision = beginning @ elision @ concat kept \<and>
      (int (length (take (?b - length elision) t @ elision)) \<le> budget \<or> budget < int (length elision) \<or> length kept = 1)"
    if "body = t @ rest" for t rest
    using that pos
    by (intro exI [of _ "take (?b - length elision) t"] exI [of _ "drop (?b - length elision) t @ rest"] exI [of _ "[]"]) auto
  show ?thesis
  proof (cases "length ?h = length body")
    case True
    then have "truncateAnchorBodyToBudget body budget = take (?b - length elision) body @ elision"
      using pos by (simp add: truncateAnchorBodyToBudget_def Let_def)
    then show ?thesis using prefix [of body "[]"] by simp
  next
    case other: False
    have split: "body = ?h @ drop (length ?h) body" by (metis append_take_drop_id before_round_prefix)
    show ?thesis
    proof (cases "length ?h + length elision \<ge> ?b")
      case True
      then have "truncateAnchorBodyToBudget body budget = take (?b - length elision) ?h @ elision"
        using pos other by (simp add: truncateAnchorBodyToBudget_def Let_def)
      then show ?thesis using prefix [OF split] by simp
    next
      case False
      let ?rounds = "filter (\<lambda>r. r \<noteq> []) (split_rounds True [] (drop (length ?h) body))"
      let ?kept = "keep_rounds (?b - length ?h - length elision) 0 [] (rev ?rounds)"
      have res: "truncateAnchorBodyToBudget body budget = ?h @ elision @ concat ?kept" "?kept \<noteq> ?rounds"
        using assms pos other False by (auto simp: truncateAnchorBodyToBudget_def Let_def split: if_splits)
      obtain pre where pre: "?rounds = pre @ ?kept" "length ?kept \<le> 1 \<or> length (concat ?kept) \<le> ?b - length ?h - length elision"
        using keep_rounds_spec [of 0 "[]" "?b - length ?h - length elision" "rev ?rounds"] by auto
      have "drop (length ?h) body = concat ?rounds" by (simp add: concat_nonempty split_rounds_concat)
      then have "body = ?h @ concat pre @ concat ?kept" using split pre(1) by (metis concat_append)
      moreover have "int (length (?h @ elision @ concat ?kept)) \<le> budget \<or> length ?kept = 1"
        using pre(2) False by (cases ?kept) auto
      ultimately show ?thesis unfolding res(1) by blast
    qed
  qed
qed

end
