(* ===== verification/Paralysis.thy ===== *)
theory Paralysis
  imports Js_Prelude
begin

text \<open>
  The guards against a loop that gets nowhere (session/prompt.ts): the detectors over the last turns, the circuit
  breaker of unproductive rounds, the gate of empty responses, the status of the context, and the escalation state
  kept per session. A preface is a list of code units. The ladder of nudges itself is part of the prompt loop.
\<close>

section \<open>Detectors\<close>

definition PREFACE_SIM_THRESHOLD :: rat where
  "PREFACE_SIM_THRESHOLD = 3 / 5"

fun adjacent_pairs :: "'c list \<Rightarrow> ('c \<times> 'c) list" where
  "adjacent_pairs (a # b # s) = (a, b) # adjacent_pairs (b # s)"
| "adjacent_pairs _ = []"

definition bigrams :: "'c list \<Rightarrow> ('c \<times> 'c) list" where
  "bigrams s = remdups (adjacent_pairs s)"

definition jaccard :: "'b list \<Rightarrow> 'b list \<Rightarrow> rat" where
  "jaccard a b =
     (if a = [] \<or> b = [] then 0
      else let inter = length (filter (\<lambda>x. x \<in> set b) a)
           in of_nat inter / of_nat (length a + length b - inter))"

definition detectPrefaceParalysis :: "'c list list \<Rightarrow> bool list \<Rightarrow> bool \<times> rat" where
  "detectPrefaceParalysis prefaces mutatedPerTurn =
     (if length prefaces < 3 then (False, 0)
      else if list_ex (\<lambda>x. x) (take 3 mutatedPerTurn) then (False, 0)
      else if list_ex (\<lambda>p. length p < 40) (take 3 prefaces) then (False, 0)
      else let j01 = jaccard (bigrams (prefaces ! 0)) (bigrams (prefaces ! 1));
               j12 = jaccard (bigrams (prefaces ! 1)) (bigrams (prefaces ! 2));
               similarity = min j01 j12
           in (similarity > PREFACE_SIM_THRESHOLD, similarity))"

definition detectNoProgressParalysis :: "bool list \<Rightarrow> bool list \<Rightarrow> bool list \<Rightarrow> string list \<Rightarrow> bool" where
  "detectNoProgressParalysis toolActive mutated errored signatures =
     (if length toolActive < 3 then False
      else if \<not> list_all (\<lambda>x. x) (take 3 toolActive) then False
      else if list_ex (\<lambda>x. x) (take 3 mutated) then False
      else if list_all (\<lambda>x. x) (take 3 errored) then True
      else let s = take 3 signatures in
           if list_ex (\<lambda>x. x = []) s then False
           else (case s of a # b # c # r \<Rightarrow> a = b \<and> b = c | [] \<Rightarrow> True | _ \<Rightarrow> False))"

section \<open>Breakers\<close>

definition evaluateEmptyResponseGate :: "int \<Rightarrow> int \<Rightarrow> rat \<Rightarrow> bool \<times> rat" where
  "evaluateEmptyResponseGate taken window least =
     (if window \<le> 0 then (False, 0)
      else let ratio = of_int taken / of_int window in (ratio \<ge> least, ratio))"

record round_verdict =
  rv_productive :: bool
  rv_nextCount :: nat
  rv_tripped :: bool

definition productive_round :: "nat \<Rightarrow> string option \<times> nat \<Rightarrow> bool" where
  "productive_round lowest r \<longleftrightarrow> fst r = Some ''tool-calls'' \<or> snd r > lowest"

definition evaluateUnproductiveRound :: "string option \<times> nat \<Rightarrow> nat \<Rightarrow> nat \<Rightarrow> nat \<Rightarrow> round_verdict" where
  "evaluateUnproductiveRound r consecutive lowest limit =
     (if productive_round lowest r then \<lparr>rv_productive = True, rv_nextCount = 0, rv_tripped = False\<rparr>
      else \<lparr>rv_productive = False, rv_nextCount = consecutive + 1, rv_tripped = (consecutive + 1 \<ge> limit)\<rparr>)"

definition shouldSurfaceContentFilterNotice :: "string option \<Rightarrow> nat \<Rightarrow> bool" where
  "shouldSurfaceContentFilterNotice finish outputTokens \<longleftrightarrow> finish = Some ''content-filter'' \<and> outputTokens \<le> 8"

datatype budget_status = Green | Yellow | Orange | Red

definition contextBudgetStatus :: "rat \<times> rat \<times> rat \<Rightarrow> rat \<Rightarrow> budget_status" where
  "contextBudgetStatus thresholds ratio =
     (case thresholds of (greenMax, yellowMax, orangeMax) \<Rightarrow>
        if ratio < greenMax then Green else if ratio < yellowMax then Yellow
        else if ratio < orangeMax then Orange else Red)"

section \<open>The state of a session\<close>

record paralysis_state =
  pl_recoveryCount :: nat
  pl_cleanStreak :: nat
  pl_pendingSteer :: "string option"

definition PARALYSIS_STATE_MAX_SESSIONS :: nat where
  "PARALYSIS_STATE_MAX_SESSIONS = 256"

definition fresh_paralysis :: paralysis_state where
  "fresh_paralysis = \<lparr>pl_recoveryCount = 0, pl_cleanStreak = 0, pl_pendingSteer = None\<rparr>"

definition getParalysisState ::
  "string \<Rightarrow> (string, paralysis_state) jmap \<Rightarrow> paralysis_state \<times> (string, paralysis_state) jmap" where
  "getParalysisState sid m =
     (case jget m sid of
        Some st \<Rightarrow> (st, m)
      | None \<Rightarrow>
          let m1 = jset m sid fresh_paralysis in
          (fresh_paralysis,
           if length m1 > PARALYSIS_STATE_MAX_SESSIONS then (case m1 of (oldest, st) # r \<Rightarrow> jdel m1 oldest | [] \<Rightarrow> m1) else m1))"

definition resetParalysisState :: "string \<Rightarrow> (string, paralysis_state) jmap \<Rightarrow> (string, paralysis_state) jmap" where
  "resetParalysisState sid m = jdel m sid"

datatype paralysis_op = Op_get string | Op_reset string | Op_update string paralysis_state

text \<open>An update writes through the reference that a get returned, which is in the map or was evicted.\<close>

definition paralysis_step :: "paralysis_op \<Rightarrow> (string, paralysis_state) jmap \<Rightarrow> (string, paralysis_state) jmap" where
  "paralysis_step op m =
     (case op of
        Op_get sid \<Rightarrow> snd (getParalysisState sid m)
      | Op_reset sid \<Rightarrow> resetParalysisState sid m
      | Op_update sid st \<Rightarrow> if jget m sid = None then m else jset m sid st)"

section \<open>What the detectors mean\<close>

lemma adjacent_pairs_empty: "adjacent_pairs s = [] \<longleftrightarrow> length s < 2"
  by (induction s rule: adjacent_pairs.induct) auto

lemma inter_length: "distinct a \<Longrightarrow> length (filter (\<lambda>x. x \<in> set b) a) = card (set a \<inter> set b)"
  by (simp add: distinct_card [symmetric] Int_def)

lemma jaccard_card:
  assumes "distinct a" and "distinct b"
  shows "jaccard a b = (if a = [] \<or> b = [] then 0 else of_nat (card (set a \<inter> set b)) / of_nat (card (set a \<union> set b)))"
proof -
  have "card (set a) + card (set b) = card (set a \<union> set b) + card (set a \<inter> set b)" by (rule card_Un_Int) simp_all
  then have "length a + length b - card (set a \<inter> set b) = card (set a \<union> set b)"
    using assms by (simp add: distinct_card)
  then show ?thesis using assms(1) by (simp add: jaccard_def inter_length Let_def)
qed

text \<open>The similarity of two texts is a number from 0 to 1, the same in both orders, and 1 for equal texts.\<close>

theorem similarity_is_symmetric_and_bounded:
  "jaccard (bigrams s) (bigrams t) = jaccard (bigrams t) (bigrams s) \<and>
   0 \<le> jaccard (bigrams s) (bigrams t) \<and> jaccard (bigrams s) (bigrams t) \<le> 1 \<and>
   (2 \<le> length s \<longrightarrow> jaccard (bigrams s) (bigrams s) = 1)"
proof (intro conjI impI)
  have d: "distinct (bigrams s)" "distinct (bigrams t)" by (simp_all add: bigrams_def)
  show "jaccard (bigrams s) (bigrams t) = jaccard (bigrams t) (bigrams s)"
    unfolding jaccard_card [OF d] jaccard_card [OF d(2,1)] by (simp add: Int_commute Un_commute disj_commute)
  show "0 \<le> jaccard (bigrams s) (bigrams t)" unfolding jaccard_card [OF d] by simp
  have "card (set (bigrams s) \<inter> set (bigrams t)) \<le> card (set (bigrams s) \<union> set (bigrams t))"
    by (rule card_mono) auto
  then show "jaccard (bigrams s) (bigrams t) \<le> 1"
    unfolding jaccard_card [OF d] by (auto simp: divide_le_eq_1 not_le card_gt_0_iff)
  assume "2 \<le> length s"
  then have "bigrams s \<noteq> []" using adjacent_pairs_empty [of s] by (auto simp: bigrams_def)
  then show "jaccard (bigrams s) (bigrams s) = 1"
    unfolding jaccard_card [OF d(1) d(1)] by (simp add: card_gt_0_iff)
qed

text \<open>
  Three turns that open with the same preface of 40 characters or more and change no file are paralysis; a turn
  that changes a file never is.
\<close>

theorem repeated_preface_is_paralysis:
  assumes "40 \<le> length p"
  shows "fst (detectPrefaceParalysis (p # p # p # r) mutated) \<longleftrightarrow> \<not> list_ex (\<lambda>x. x) (take 3 mutated)"
proof -
  have "jaccard (bigrams p) (bigrams p) = 1" using similarity_is_symmetric_and_bounded [of p p] assms by simp
  then show ?thesis using assms by (simp add: detectPrefaceParalysis_def PREFACE_SIM_THRESHOLD_def Let_def)
qed

section \<open>The breaker\<close>

definition breaker_count :: "nat \<Rightarrow> nat \<Rightarrow> (string option \<times> nat) list \<Rightarrow> nat" where
  "breaker_count lowest limit rounds = fold (\<lambda>r n. rv_nextCount (evaluateUnproductiveRound r n lowest limit)) rounds 0"

lemma breaker_counts: "breaker_count lowest limit rounds = length (takeWhile (\<lambda>r. \<not> productive_round lowest r) (rev rounds))"
  by (induction rounds rule: rev_induct) (simp_all add: breaker_count_def evaluateUnproductiveRound_def)

text \<open>
  The breaker trips exactly when the last \<open>limit\<close> rounds, the current one included, were all unproductive: one
  round that called a tool or produced output starts the count anew.
\<close>

theorem breaker_trips_on_streak:
  assumes "0 < limit"
  shows "rv_tripped (evaluateUnproductiveRound r (breaker_count lowest limit rounds) lowest limit) \<longleftrightarrow>
    limit \<le> length (rounds @ [r]) \<and> list_all (\<lambda>x. \<not> productive_round lowest x) (take limit (rev (rounds @ [r])))"
proof -
  have streak: "limit \<le> length (takeWhile P xs) \<longleftrightarrow> limit \<le> length xs \<and> list_all P (take limit xs)" for P and xs :: "(string option \<times> nat) list"
  proof
    assume a: "limit \<le> length (takeWhile P xs)"
    then have "take limit xs = take limit (takeWhile P xs)" by (metis takeWhile_eq_take take_take min.absorb1)
    then show "limit \<le> length xs \<and> list_all P (take limit xs)"
      using a length_takeWhile_le [of P xs] by (auto simp: list_all_iff dest!: in_set_takeD set_takeWhileD)
  next
    assume a: "limit \<le> length xs \<and> list_all P (take limit xs)"
    then have "takeWhile P (take limit xs @ drop limit xs) = take limit xs @ takeWhile P (drop limit xs)"
      by (intro takeWhile_append2) (simp add: list_all_iff)
    then show "limit \<le> length (takeWhile P xs)" using a by simp
  qed
  show ?thesis
  proof (cases "productive_round lowest r")
    case True
    then have "\<not> list_all (\<lambda>x. \<not> productive_round lowest x) (take limit (rev (rounds @ [r])))"
      using assms by (cases limit) simp_all
    then show ?thesis using True by (simp add: evaluateUnproductiveRound_def)
  next
    case False
    then show ?thesis
      using streak [of "\<lambda>x. \<not> productive_round lowest x" "rev (rounds @ [r])"]
      by (simp add: evaluateUnproductiveRound_def breaker_counts)
  qed
qed

section \<open>The map of states\<close>

text \<open>
  Whatever sessions are looked up, changed and reset, the map never holds more than 256 states, and one per session.
\<close>

theorem paralysis_map_is_bounded:
  "length (fold paralysis_step ops []) \<le> 256 \<and> distinct (jkeys (fold paralysis_step ops []))"
proof -
  have step: "length (paralysis_step op m) \<le> 256 \<and> distinct (jkeys (paralysis_step op m))"
    if m: "length m \<le> 256" "distinct (jkeys m)" for op and m :: "(string, paralysis_state) jmap"
  proof (cases op)
    case (Op_get sid)
    show ?thesis
    proof (cases "jget m sid")
      case None
      then have m1: "jset m sid fresh_paralysis = m @ [(sid, fresh_paralysis)]"
        by (induction m) (auto simp del: map_of_eq_None_iff split: if_splits)
      show ?thesis
      proof (cases "length m = 256")
        case True
        then obtain k st r where mm: "m = (k, st) # r" by (cases m) auto
        have "k \<noteq> sid" using None mm by auto
        then have "jdel ((k, st) # r @ [(sid, fresh_paralysis)]) k = r @ [(sid, fresh_paralysis)]"
          using m(2) mm by (force simp: AList.delete_eq filter_id_conv)
        moreover have "sid \<notin> set (jkeys r)" using None mm by (auto simp: map_of_eq_None_iff split: if_splits)
        ultimately show ?thesis
          using True m mm None m1 Op_get
          by (simp add: paralysis_step_def getParalysisState_def PARALYSIS_STATE_MAX_SESSIONS_def Let_def del: map_of_eq_None_iff)
      next
        case False
        then show ?thesis
          using m None m1 Op_get distinct_update [of m sid fresh_paralysis]
          by (simp add: paralysis_step_def getParalysisState_def PARALYSIS_STATE_MAX_SESSIONS_def Let_def del: map_of_eq_None_iff)
      qed
    qed (use m Op_get in \<open>simp add: paralysis_step_def getParalysisState_def\<close>)
  next
    case (Op_reset sid)
    then show ?thesis
      using m length_delete_le [of sid m] distinct_delete [of m sid] by (simp add: paralysis_step_def resetParalysisState_def)
  next
    case (Op_update sid st)
    have "length (jset m sid st) = length m" if "jget m sid \<noteq> None"
      using that by (induction m) (auto split: if_splits)
    then show ?thesis using m Op_update distinct_update [of m sid st] by (simp add: paralysis_step_def del: map_of_eq_None_iff)
  qed
  have "length m \<le> 256 \<and> distinct (jkeys m) \<Longrightarrow>
      length (fold paralysis_step ops m) \<le> 256 \<and> distinct (jkeys (fold paralysis_step ops m))" for m
    using step by (induction ops arbitrary: m) simp_all
  from this [of "[]"] show ?thesis by simp
qed

end
