(* ===== verification/Spec2Isabelle.thy ===== *)
theory Spec2Isabelle
  imports Rotation3D_Candidates Account_Selector Error_Classifier Coalesce Rw_Lock Bash_Arity Daemon Heartbeat Freerun_Runs Freerun_Plan_Task Edit_Properties Patch_Roundtrip Patch_Properties Apply_Patch_Properties Tool_Truncation Circuit_Breaker Rate_Limiter Continuation Workflow_Runner Coerce_Args Questions Compaction_Run Compaction_Text Paralysis
begin

text \<open>
  A verification development for the TypeScript core of opencms (package \<^verbatim>\<open>packages/opencode\<close>): the
  daemon that runs AI coding sessions. Paths below are relative to \<^verbatim>\<open>packages/opencode/src\<close>.

  \<^bold>\<open>The parts and how they interact.\<close> A daemon process owns the sessions of a user. Work enters it
  through \<^emph>\<open>lanes\<close> (daemon/lanes.ts), bounded queues whose completions are checked against a generation,
  and its life cycle (daemon/index.ts, restart.ts, signals.ts) is guarded by a PID file
  (daemon/gateway-lock.ts) and a drain state (daemon/drain.ts). A timer (cron/heartbeat.ts) starts due
  jobs of the job store (cron/store.ts) on a lane, by schedules (cron/schedule.ts) within active hours
  (cron/active-hours.ts), in a session of its own (cron/session.ts), retries failures (cron/retry.ts),
  logs each run (cron/run-log.ts), delivers its outcome (cron/delivery.ts) and posts events to the
  session (cron/system-events.ts). A model call that fails is classified
  (account/rotation/error-classifier.ts), its account is marked with a deadline
  (rate-limit-tracker.ts over the shared state file of state.ts) after a back-off (backoff.ts) and a
  loss of health (health-tracker.ts), and the next provider, account and model is searched
  (account/rotation3d.ts), with storms of concurrent rotations coalesced (coalesce.ts). Tools a model
  calls pass the permission rules (permission/next.ts, arity.ts, util/wildcard.ts); of the tools that
  write files, the replacement of text by edit (tool/edit.ts) and the whole of apply_patch
  (tool/apply_patch.ts over patch/index.ts) are modelled. The freerun mode (freerun/) works on a tree of task files until nothing is left.
  A session keeps a todo list (session/todo.ts); its continuations wait in a queue with lanes
  (session/queue.ts, lane-policy.ts), from which the workflow runner (session/workflow-runner.ts) resumes what may
  run and picks the next step of an autonomous session; an operator can stop the sessions with a kill switch (server/killswitch/). What
  the server and the sessions do again and again is limited: requests (server/rate-limit.ts), new epochs of a
  session (session/rebind-epoch.ts), repeated switches (session/continuation/), a failing helper
  (plugin/copilot-cli/circuit-breaker.ts), the outputs of tools (tool/truncation.ts).

  \<^bold>\<open>Theories and the code they model.\<close>
  \<^item> \<^emph>\<open>Shared:\<close> Js_Prelude (association lists as JavaScript maps and objects, the locale \<open>keyed_map\<close>,
    list lemmas, the collections), Js_Text (\<open>indexOf\<close>, \<open>replaceAll\<close>, \<open>substring\<close>, \<open>split\<close>), Json
    (\<open>JSON.stringify\<close> and \<open>JSON.parse\<close>, with the lemma that parsing reads a printed value back).
  \<^item> \<^emph>\<open>Rotation:\<close> Rotation_Types (types.ts), Rotation_State (state.ts: the locale \<open>persistent_store\<close>),
    Rate_Limit_Tracker, Health_Tracker, Rotation_Guard, Account_Selector, Backoff (backoff.ts),
    Error_Classifier, Coalesce, Rotation_Policy (session/instruction-policy.ts and the configuration of
    rotation3d.ts), Rotation3D_Select (scores, choice) and Rotation3D_Candidates (candidates, search).
  \<^item> \<^emph>\<open>Permissions:\<close> Wildcard (util/wildcard.ts), Permission_Next (permission/next.ts), Bash_Arity.
  \<^item> \<^emph>\<open>Daemon:\<close> Rw_Lock (util/lock.ts), Lanes, Gateway_Lock, Drain, Daemon.
  \<^item> \<^emph>\<open>Cron:\<close> Cron_Types, Cron_Schedule, Active_Hours, Cron_Retry, Cron_Store (the locale
    \<open>job_store\<close>), Run_Log, Cron_Delivery, Cron_Session (session.ts, retention.ts), System_Events, Heartbeat.
  \<^item> \<^emph>\<open>Freerun:\<close> Freerun_Types (types.ts), Node_FS and Node_Store (storage/node-fs.ts: the text of a node,
    the directory, the locale \<open>node_store\<close>), Freerun_Tree (storage/tree.ts, policy/pick-next.ts),
    Freerun_Outcome (answers of the model), Freerun_Engine (runtime/iterate.ts, consolidate.ts,
    engine.ts, trigger/goal.ts), Freerun_Files and Freerun_Invariant (the invariant of the
    directory and its preservation), Freerun_Runs (properties of runs), Freerun_Plan_Task
    (plan-task.ts, todo-projection.ts).
  \<^item> \<^emph>\<open>Edits:\<close> Edit_Distance (\<open>levenshtein\<close>), Edit_Replacers (the nine replacers, \<open>replace\<close>,
    \<open>trimDiff\<close>), Edit_Replace and Edit_Tool (lemmas), Edit_Properties; Patch_Parse
    (\<open>parsePatch\<close>), Patch_Apply (\<open>seekSequence\<close>, \<open>computeReplacements\<close>, \<open>applyReplacements\<close>,
    \<open>applyHunksToFiles\<close>), Patch_Replace, Patch_Roundtrip, Patch_Properties; Apply_Patch_Tool and
    Apply_Patch_Properties (tool/apply_patch.ts).
  \<^item> \<^emph>\<open>Sessions:\<close> Todo (session/todo.ts), Run_Queue (session/queue.ts, lane-policy.ts: the invariant
    \<open>queue_ok\<close> of reachable queues), Workflow_Policy (session/workflow-runner.ts, trigger.ts and the workflow of
    session/index.ts: pure decisions), Workflow_Runner (its state and operations, over the queue, the todo
    lists and the kill switch), Rebind_Epoch (session/rebind-epoch.ts), Continuation
    (session/continuation/, provider/chain-semantics.ts), Identifiers (id/id.ts).
  \<^item> \<^emph>\<open>Guards:\<close> Kill_Switch (server/killswitch/service.ts and its routes; histories of requests),
    Rate_Limiter (server/rate-limit.ts), Circuit_Breaker (plugin/copilot-cli/circuit-breaker.ts and the
    fetch of client.ts), Tool_Truncation (tool/truncation.ts).
  \<^item> \<^emph>\<open>Dialogue and arguments:\<close> Questions (question/index.ts, sdk/js/src/v2/question-normalize.ts and the answer
    of tool/question.ts: the lenient shapes, the dialogue with its signals and the invariants \<open>dialogue_ok\<close>
    and \<open>listeners_ok\<close>), Coerce_Args (tool/coerce-args.ts).
  \<^item> \<^emph>\<open>Compaction:\<close> Compaction_Trigger (session/compaction.ts, prompt.ts, context-policy.ts,
    cache-miss-diagnostic.ts, freerun-resolver.ts, idle-compaction-gate.ts: the budget of a model, the health of the
    cache and the order of the triggers in \<open>deriveObservedCondition\<close>), Compaction_Run (the walk of \<open>run\<close> over its
    chain of kinds, and compaction-manager.ts with the invariant \<open>manager_ok\<close>), Compaction_Text (the texts and
    histories that are cut or repaired), Paralysis (the guards of the loop of prompt.ts: repeated prefaces, no
    progress, unproductive rounds, the bounded map of states).
  \<^bold>\<open>How the code is rendered.\<close> A class, an object or a row is a record, a union a datatype; a \<open>Map\<close> or a
  plain object is an association list in insertion order. A method that reads the clock takes the
  time as an argument, one that changes module state takes and returns it. A promise that is
  awaited under contention is a step of an \<open>inductive\<close> relation (lanes, daemon, locks,
  coalescing, requests for permission); a handler without an \<open>await\<close> inside is one function.
  Errors that are thrown are \<open>Inl\<close> values, absent values \<open>None\<close>. Strings are lists of bytes (UTF-8); where a
  source counts UTF-16 units the model counts bytes, which is the same for ASCII texts (Tool_Truncation
  counts the units), and \<open>trim\<close> and \<open>\s\<close> know the ASCII blanks. The 48 bits of a time in an identifier are
  words (Identifiers). JavaScript numbers that hold whole values are \<open>int\<close> or \<open>nat\<close> (time in milliseconds); scores
  and similarities, which the code computes with floats, are rationals. Files are maps from path
  to text; reading back is what was written, with the failures of the file system as an
  argument where the code handles them.

  \<^bold>\<open>What the lemmas show.\<close>
  \<^item> \<^emph>\<open>Refinement and equivalence:\<close> the tracker with its file, expiry and quota day is a map from
    keys to deadlines; the job store a map from identifiers to jobs; the matcher built by rewriting a pattern is
    the glob relation; the distance matrix is the least cost of an edit script; the replacements of a
    patch, applied from the last to the first, are one pass over the file.
  \<^item> \<^emph>\<open>Invariants over reachable states:\<close> a lane never runs more than its limit and never idles, a
    completion of an old generation is dropped, the daemon's phases, a writer is alone, no wake-up is lost,
    a request for permission is settled once, rotations of a key fly one at a time, every
    iteration of freerun keeps the directory loadable.
  \<^item> \<^emph>\<open>Histories and bounds:\<close> a switch is triggered with a code sent for it at most five minutes before, each
    code once, and stops every busy session; what the workflow runner resumes may run, a failed resume waits or
    blocks, the third one blocks, an awaited approval suspends; control messages are carried out in order; the requests of a user and
    the epochs of a session in a period are bounded; a queue holds a session once and a drain fills its
    lanes; identifiers ascend.
  \<^item> \<^emph>\<open>Termination:\<close> the cron search, the tree walks and the consolidation of a freerun run, a whole
    freerun run, and the exact condition under which an edit ends.
  \<^item> \<^emph>\<open>Round trips and functional behaviour:\<close> nodes, patches, JSON and policies are read back; an edit
    changes one region that stands for the searched text; a patch applies its diff.
  \<^item> \<^emph>\<open>Behaviours worth knowing:\<close> each of these is a theorem at a concrete or general input, listed in the manifest's
    findings: a restart that never ends when draining times out, a node body that takes over its own state, updates
    of one file that overwrite each other, an end of file mark that is never read, and others.

  \<^bold>\<open>Bounds and fuel.\<close> The cron search looks at 527040 minutes (366 days), the bound of the code's own
  loop. \<open>waitFor\<close> polls as often as its time-out allows. The JSON reader recurses with the length of
  the text as fuel, and every call consumes a character, so it is enough: the round trip is proved with that fuel. The
  walks over a freerun tree are \<open>partial_function (option)\<close>, since a file may name an ancestor as a
  child: that they return is a theorem under the invariant of the directory. The loop of the engine
  is bounded by the cap of its options, as the code's is. \<open>MultiOccurrenceReplacer\<close> is \<open>partial_function\<close> too: it does
  not end for the empty text, and does for all others.

  \<^bold>\<open>Not modelled.\<close>
  \<^item> User interfaces (packages/app, ui, cli/cmd/tui), generated SDK code, the C gateway, templates, scripts.
  \<^item> Adapters to providers (provider/, plugin/, packages/provider-*): they shape requests for remote
    services whose behaviour is not in the repository.
  \<^item> The prompt loop (session/prompt.ts, llm.ts, processor.ts) but for its triggers of compaction and its guards:
    long asynchronous glue over storage, bus and model. Of compaction, the executors of the kinds (they call models
    and storage: their outcomes are arguments), the texts of anchors and the recompression in the background.
  \<^item> HTTP routes (but those of the kill switch), MCP, LSP, storage on disk, process supervision: input and output.
  \<^item> In modelled parts: log lines and telemetry; the texts of prompts in freerun (the model is a parameter
    of the request's data); diffs shown to the user and the LSP diagnostics the edit tools append;
    the quota queries of rotation3d.ts, which enter as arguments.
\<close>

end
